(* ===== verification/Prelude.thy ===== *)
theory Prelude
  imports Main "HOL-Library.Word" "HOL-Library.Monad_Syntax"
begin

text \<open>
  Shared vocabulary of the development: the machine types of the code, the option monad used
  for memory accesses, little-endian loads and stores, C strings and fixed-size C buffers, and the
  lemmas about them that the component theories use.

  Conventions used by every theory.
  \<^item> \<^verbatim>\<open>uint8_t\<close>, \<^verbatim>\<open>uint16_t\<close>, \<^verbatim>\<open>uint32_t\<close>, \<^verbatim>\<open>DWORD\<close> are words of their width.
    \<^verbatim>\<open>size_t\<close> is a 32-bit word where its wrap-around can matter: the shipped artifact is a
    32-bit Windows DLL.
  \<^item> \<open>'a mem\<close> is the result of code that reads memory. \<open>None\<close> is an access outside the
    object it addresses, which C leaves undefined; \<open>Some\<close> is an ordinary result.
  \<^item> A C string is the \<open>string\<close> of its characters before the terminating NUL.
    A pointer that may be NULL is an \<open>option\<close>.
  \<^item> An out-pointer is a component of the result: the model's callers always pass one, so the
    \<^verbatim>\<open>out == NULL\<close> part of a guard has no branch, unless a definition says otherwise.
  \<^item> \<^verbatim>\<open>Interlocked*\<close> operations are plain reads and writes of the state record: one call of a
    modelled function is one atomic step. Trace output is not modelled.
\<close>

unbundle bit_operations_syntax

named_theorems samp_wf \<open>well-formedness is preserved by the operations\<close>
named_theorems samp_len \<open>lengths of buffers after an operation\<close>

type_synonym u8 = "8 word"
type_synonym u16 = "16 word"
type_synonym u32 = "32 word"
type_synonym size_t = "32 word"

type_synonym 'a mem = "'a option"

section \<open>Ranges of the machine types\<close>

lemma unat_u8_lt: "unat (w :: u8) < 256"
  using unsigned_less[of w] by simp

lemma unat_u16_lt: "unat (w :: u16) < 65536"
  using unsigned_less[of w] by simp

lemma unat_u32_lt: "unat (w :: u32) < 4294967296"
  using unsigned_less[of w] by simp

lemma unat_drop_bit_div: "unat (drop_bit n (w :: 'a::len word)) = unat w div 2 ^ n"
proof -
  have "unat (drop_bit n w) = drop_bit n (take_bit LENGTH('a) (unat w))"
    by (rule unsigned_drop_bit_eq)
  also have "\<dots> = unat w div 2 ^ n"
    by (simp add: take_bit_nat_eq_self drop_bit_eq_div)
  finally show ?thesis .
qed

lemma unat_add_u32: "unat a + unat b < 4294967296 \<Longrightarrow> unat (a + b :: u32) = unat a + unat b"
  by (simp add: unat_add_lem[THEN iffD1])

section \<open>Little-endian words\<close>

definition load_bytes :: "u8 list \<Rightarrow> nat \<Rightarrow> nat \<Rightarrow> u8 list mem" where
  "load_bytes bs off n = (if off + n \<le> length bs then Some (take n (drop off bs)) else None)"

definition le32_of_bytes :: "u8 \<Rightarrow> u8 \<Rightarrow> u8 \<Rightarrow> u8 \<Rightarrow> u32" where
  "le32_of_bytes b0 b1 b2 b3 =
     ucast b0 OR push_bit 8 (ucast b1) OR push_bit 16 (ucast b2) OR push_bit 24 (ucast b3)"

definition bytes_of_le32 :: "u32 \<Rightarrow> u8 list" where
  "bytes_of_le32 v =
     [ucast v, ucast (drop_bit 8 v), ucast (drop_bit 16 v), ucast (drop_bit 24 v)]"

lemma length_bytes_of_le32 [simp, samp_len]: "length (bytes_of_le32 v) = 4"
  by (simp add: bytes_of_le32_def)

lemma load_bytes_length: "load_bytes bs off n = Some r \<Longrightarrow> length r = n"
  by (auto simp: load_bytes_def split: if_splits)

lemma load_bytes_in_range: "off + n \<le> length bs \<Longrightarrow> load_bytes bs off n = Some (take n (drop off bs))"
  by (simp add: load_bytes_def)

lemma le32_of_bytes_of_le32:
  "le32_of_bytes (ucast v) (ucast (drop_bit 8 v)) (ucast (drop_bit 16 v)) (ucast (drop_bit 24 v)) = v"
proof (rule bit_word_eqI)
  fix n
  assume "n < LENGTH(32)"
  then have "n < 32" by simp
  then show "bit (le32_of_bytes (ucast v) (ucast (drop_bit 8 v)) (ucast (drop_bit 16 v))
      (ucast (drop_bit 24 v))) n = bit v n"
    by (cases "n < 8"; cases "n < 16"; cases "n < 24")
      (auto simp: le32_of_bytes_def bit_simps)
qed

section \<open>Lists and fixed buffers\<close>

definition splice :: "'a list \<Rightarrow> nat \<Rightarrow> 'a list \<Rightarrow> 'a list" where
  \<comment> \<open>\<^verbatim>\<open>memcpy(dst + off, src, length src)\<close> on a destination large enough\<close>
  "splice dst off src = take off dst @ src @ drop (off + length src) dst"

lemma length_splice [simp, samp_len]:
  "off + length src \<le> length dst \<Longrightarrow> length (splice dst off src) = length dst"
  by (simp add: splice_def)

lemma take_splice_before: "k \<le> off \<Longrightarrow> off \<le> length dst \<Longrightarrow> take k (splice dst off src) = take k dst"
  by (simp add: splice_def)

lemma take_splice_end:
  "off + length src \<le> length dst \<Longrightarrow>
    take (off + length src) (splice dst off src) = take off dst @ src"
  by (simp add: splice_def)

text \<open>A checked read and a checked write of an array, by a signed index as C has it.\<close>

definition array_get :: "'a list \<Rightarrow> int \<Rightarrow> 'a mem" where
  "array_get xs i = (if 0 \<le> i \<and> nat i < length xs then Some (xs ! nat i) else None)"

definition array_put :: "int \<Rightarrow> 'a \<Rightarrow> 'a list \<Rightarrow> 'a list mem" where
  "array_put i x xs = (if 0 \<le> i \<and> nat i < length xs then Some (xs[nat i := x]) else None)"

lemma array_get_in: "i < length xs \<Longrightarrow> array_get xs (int i) = Some (xs ! i)"
  by (simp add: array_get_def)

lemma array_put_in: "i < length xs \<Longrightarrow> array_put (int i) x xs = Some (xs[i := x])"
  by (simp add: array_put_def)

lemma takeWhile_stop: "c \<notin> set xs \<Longrightarrow> takeWhile (\<lambda>x. x \<noteq> c) (xs @ c # ys) = xs"
  by (induction xs) auto

lemma dropWhile_stop: "c \<notin> set xs \<Longrightarrow> dropWhile (\<lambda>x. x \<noteq> c) (xs @ c # ys) = c # ys"
  by (induction xs) auto

section \<open>Decimal text\<close>

text \<open>The decimal text that \<^verbatim>\<open>snprintf("%u")\<close> writes.\<close>

fun decimal_rev :: "nat \<Rightarrow> string" where
  "decimal_rev n = (if n < 10 then [char_of (48 + n)] else char_of (48 + n mod 10) # decimal_rev (n div 10))"

declare decimal_rev.simps [simp del]

definition decimal :: "nat \<Rightarrow> string" where
  "decimal n = rev (decimal_rev n)"

section \<open>Maps over results\<close>

lemma bind_Some_iff: "(m \<bind> f) = Some y \<longleftrightarrow> (\<exists>x. m = Some x \<and> f x = Some y)"
  by (cases m) auto

lemma mem_bind_total:
  "\<exists>x. m = Some x \<Longrightarrow> (\<And>x. m = Some x \<Longrightarrow> \<exists>y. f x = Some y) \<Longrightarrow> \<exists>y. m \<bind> f = Some y"
  by auto

lemma count_False_update:
  "i < length vs \<Longrightarrow> \<not> vs ! i \<Longrightarrow>
    length (filter Not (vs[i := True])) < length (filter Not vs)"
proof (induction vs arbitrary: i)
  case Nil
  then show ?case by simp
next
  case (Cons v vs)
  then show ?case by (cases i) auto
qed

end
