(* ===== verification/Saa.thy ===== *)
theory Saa
  imports Prelude
begin

text \<open>
  The SAA archive reader of \<^verbatim>\<open>reimpl/src/archive/saa.c\<close>: layout parsing, the XTEA-style table and
  file cipher, the filename hash, the lookup that follows the chain of preceding entries, and
  the extraction of one file. Buffers are byte lists; a read outside its buffer is \<open>None\<close>
  (type \<open>mem\<close>), and a C function that returns 0 is an inner \<open>None\<close>.
\<close>

section \<open>Constants and structures\<close>

definition SAMP_SAA_ENTRY_COUNT :: nat where "SAMP_SAA_ENTRY_COUNT = 256"
definition SAMP_SAA_ENTRY_BYTES :: nat where "SAMP_SAA_ENTRY_BYTES = 8"
definition SAMP_SAA_TABLE_BYTES :: nat where "SAMP_SAA_TABLE_BYTES = 2048"
definition SAMP_SAA_BLOCK_BYTES :: nat where "SAMP_SAA_BLOCK_BYTES = 2048"
definition SAMP_SAA_ID :: u32 where "SAMP_SAA_ID = 0x00083433"
definition SAMP_SAA_VERSION :: u32 where "SAMP_SAA_VERSION = 2"
definition SAMP_SAA_HEADER_BYTES :: nat where "SAMP_SAA_HEADER_BYTES = 8 + 120 * 2 + 8"
definition SAMP_SAA_OBFUSCATE_KEY :: u32 where "SAMP_SAA_OBFUSCATE_KEY = 0xC103D3E7"
definition SAMP_SAA_TEA_ROUNDS :: nat where "SAMP_SAA_TEA_ROUNDS = 32"
definition SAMP_SAA_TEA_DELTA :: u32 where "SAMP_SAA_TEA_DELTA = 0x9E3779B9"
definition SAMP_SAA_TEA_KEY_BYTES :: nat where "SAMP_SAA_TEA_KEY_BYTES = 16"
definition SAMP_SAA_HASH_INIT :: u32 where "SAMP_SAA_HASH_INIT = 0x9E3779B9"
definition SAMP_SAA_HASH_SEED :: u32 where "SAMP_SAA_HASH_SEED = 0x12345678"

lemmas saa_consts =
  SAMP_SAA_ENTRY_COUNT_def SAMP_SAA_ENTRY_BYTES_def SAMP_SAA_TABLE_BYTES_def
  SAMP_SAA_BLOCK_BYTES_def SAMP_SAA_ID_def SAMP_SAA_VERSION_def SAMP_SAA_HEADER_BYTES_def
  SAMP_SAA_OBFUSCATE_KEY_def SAMP_SAA_TEA_ROUNDS_def SAMP_SAA_TEA_DELTA_def
  SAMP_SAA_TEA_KEY_BYTES_def SAMP_SAA_HASH_INIT_def SAMP_SAA_HASH_SEED_def

definition kSampSaaTableKeyObfuscated :: "u8 list" where
  "kSampSaaTableKeyObfuscated =
    [0xB9, 0xEA, 0x40, 0x0A, 0xA3, 0x1F, 0x01, 0x23,
     0xB0, 0xEA, 0x46, 0x64, 0x78, 0xAF, 0x50, 0x80]"

text \<open>Offsets and sizes are \<^verbatim>\<open>size_t\<close>; \<open>data\<close> is the pointer to the caller's bytes, \<open>None\<close> for NULL.\<close>

record samp_saa_layout =
  header_size :: size_t
  entry_offset :: size_t
  signature_offset :: size_t
  signature_size :: u32
  invalid_index :: u8

record samp_saa_archive =
  data :: "u8 list option"
  data_size :: size_t
  layout :: samp_saa_layout
  entries :: "u8 list"
  ready :: bool

record samp_saa_file =
  hash :: u32
  size :: u32
  data_offset :: size_t
  entry_index :: u16

section \<open>Words in memory\<close>

fun le32_of_list :: "u8 list \<Rightarrow> u32" where
  "le32_of_list (b0 # b1 # b2 # b3 # _) = le32_of_bytes b0 b1 b2 b3"
| "le32_of_list _ = 0"

definition load_le32 :: "u8 list \<Rightarrow> nat \<Rightarrow> u32 mem" where
  "load_le32 bs off = map_option le32_of_list (load_bytes bs off 4)"

definition store_le32 :: "u8 list \<Rightarrow> nat \<Rightarrow> u32 \<Rightarrow> u8 list mem" where
  "store_le32 bs off v =
     (if off + 4 \<le> length bs then Some (splice bs off (bytes_of_le32 v)) else None)"

definition round_block_size :: "u32 \<Rightarrow> size_t" where
  "round_block_size sz = (sz + (of_nat SAMP_SAA_BLOCK_BYTES - 1)) AND NOT (of_nat SAMP_SAA_BLOCK_BYTES - 1)"

definition unobfuscate_u32 :: "u32 \<Rightarrow> u32" where
  "unobfuscate_u32 value0 =
     (let v = value0 XOR SAMP_SAA_OBFUSCATE_KEY in drop_bit 19 v OR push_bit 13 v)"

section \<open>The cipher\<close>

text \<open>The key schedule: four words, \<open>key[i]\<close> with \<open>i\<close> masked to two bits.\<close>

type_synonym tea_key = "u32 \<times> u32 \<times> u32 \<times> u32"

fun key_word :: "tea_key \<Rightarrow> u32 \<Rightarrow> u32" where
  "key_word (k0, k1, k2, k3) i =
     (if i = 0 then k0 else if i = 1 then k1 else if i = 2 then k2 else k3)"

definition tea_load_key :: "u8 list \<Rightarrow> u8 \<Rightarrow> tea_key mem" where
  "tea_load_key bytes xor_key = do {
     raw \<leftarrow> load_bytes bytes 0 16;
     let decoded = map (\<lambda>b. b XOR xor_key) raw;
     k0 \<leftarrow> load_le32 decoded 0;
     k1 \<leftarrow> load_le32 decoded 4;
     k2 \<leftarrow> load_le32 decoded 8;
     k3 \<leftarrow> load_le32 decoded 12;
     Some (k0, k1, k2, k3)
   }"

definition tea_mix :: "u32 \<Rightarrow> u32" where
  "tea_mix v = (push_bit 4 v XOR drop_bit 5 v) + v"

definition tea_round :: "tea_key \<Rightarrow> u32 \<times> u32 \<times> u32 \<Rightarrow> u32 \<times> u32 \<times> u32" where
  "tea_round key st =
     (let (v0, v1, s) = st;
          v1' = v1 - (tea_mix v0 XOR (s + key_word key (drop_bit 11 s AND 3)));
          s' = s - SAMP_SAA_TEA_DELTA;
          v0' = v0 - (tea_mix v1' XOR (s' + key_word key (s' AND 3)))
      in (v0', v1', s'))"

definition tea_sum0 :: u32 where
  "tea_sum0 = SAMP_SAA_TEA_DELTA * of_nat SAMP_SAA_TEA_ROUNDS"

definition tea_decrypt_pair :: "tea_key \<Rightarrow> u32 \<Rightarrow> u32 \<Rightarrow> u32 \<times> u32" where
  "tea_decrypt_pair key v0 v1 =
     (case (tea_round key ^^ SAMP_SAA_TEA_ROUNDS) (v0, v1, tea_sum0) of (w0, w1, _) \<Rightarrow> (w0, w1))"

fun tea_chain_key :: "tea_key \<Rightarrow> u32 \<Rightarrow> u32 \<Rightarrow> tea_key" where
  "tea_chain_key (k0, k1, k2, k3) old_v0 old_v1 =
     (k0 XOR old_v0, k1 XOR old_v1, k2 XOR old_v0, k3 XOR old_v1)"

text \<open>The loop of \<^verbatim>\<open>tea_decrypt_with_key\<close> from \<^verbatim>\<open>offset\<close>; the key array is returned updated.\<close>

function tea_decrypt_loop :: "u8 list \<Rightarrow> nat \<Rightarrow> tea_key \<Rightarrow> nat \<Rightarrow> (u8 list \<times> tea_key) mem" where
  "tea_decrypt_loop bs n key off =
     (if off + 8 \<le> n then do {
        v0 \<leftarrow> load_le32 bs off;
        v1 \<leftarrow> load_le32 bs (off + 4);
        let (w0, w1) = tea_decrypt_pair key v0 v1;
        bs1 \<leftarrow> store_le32 bs off w0;
        bs2 \<leftarrow> store_le32 bs1 (off + 4) w1;
        tea_decrypt_loop bs2 n (tea_chain_key key v0 v1) (off + 8)
      } else Some (bs, key))"
  by pat_completeness auto
termination
  by (relation "measure (\<lambda>(bs, n, key, off). n - off)") auto

declare tea_decrypt_loop.simps [simp del]

definition tea_decrypt_with_key :: "u8 list \<Rightarrow> nat \<Rightarrow> tea_key \<Rightarrow> (u8 list \<times> tea_key) mem" where
  "tea_decrypt_with_key bs n key = tea_decrypt_loop bs n key 0"

definition tea_decrypt :: "u8 list \<Rightarrow> nat \<Rightarrow> u8 list \<Rightarrow> u8 \<Rightarrow> u8 list mem" where
  "tea_decrypt bs n key_bytes xor_key = do {
     key \<leftarrow> tea_load_key key_bytes xor_key;
     (bs', _) \<leftarrow> tea_decrypt_with_key bs n key;
     Some bs'
   }"

section \<open>The filename hash\<close>

text \<open>
  \<^verbatim>\<open>hash_mix\<close> is the same three-line stage three times over, with its own shift amounts.
\<close>

definition hash_mix_stage :: "nat \<Rightarrow> nat \<Rightarrow> nat \<Rightarrow> u32 \<times> u32 \<times> u32 \<Rightarrow> u32 \<times> u32 \<times> u32" where
  "hash_mix_stage r1 l r2 abc =
     (let (a, b, c) = abc;
          a' = (a - b - c) XOR drop_bit r1 c;
          b' = (b - c - a') XOR push_bit l a';
          c' = (c - a' - b') XOR drop_bit r2 b'
      in (a', b', c'))"

definition hash_mix :: "u32 \<times> u32 \<times> u32 \<Rightarrow> u32 \<times> u32 \<times> u32" where
  "hash_mix abc = hash_mix_stage 3 10 15 (hash_mix_stage 12 16 5 (hash_mix_stage 13 8 13 abc))"

text \<open>The byte at index \<open>i\<close> of the tail shifted left, as the fall-through cases of the switch add it.\<close>

definition tail_byte :: "u8 list \<Rightarrow> nat \<Rightarrow> nat \<Rightarrow> u32" where
  "tail_byte bs i sh = (if i < length bs then push_bit sh (ucast (bs ! i)) else 0)"

definition hash_tail :: "u8 list \<Rightarrow> u32 \<times> u32 \<times> u32 \<Rightarrow> u32 \<times> u32 \<times> u32" where
  "hash_tail bs abc = (case abc of (a, b, c) \<Rightarrow>
     (a + tail_byte bs 3 24 + tail_byte bs 2 16 + tail_byte bs 1 8 + tail_byte bs 0 0,
      b + tail_byte bs 7 24 + tail_byte bs 6 16 + tail_byte bs 5 8 + tail_byte bs 4 0,
      c + tail_byte bs 10 24 + tail_byte bs 9 16 + tail_byte bs 8 8))"

function hash_blocks :: "u8 list \<Rightarrow> u32 \<times> u32 \<times> u32 \<Rightarrow> u8 list \<times> (u32 \<times> u32 \<times> u32)" where
  "hash_blocks bs (a, b, c) =
     (if length bs \<ge> 12
      then hash_blocks (drop 12 bs)
             (hash_mix (a + le32_of_list bs, b + le32_of_list (drop 4 bs), c + le32_of_list (drop 8 bs)))
      else (bs, (a, b, c)))"
  by pat_completeness auto
termination
  by (relation "measure (\<lambda>(bs, _). length bs)") auto

declare hash_blocks.simps [simp del]

definition hash_bytes :: "u8 list \<Rightarrow> u32" where
  "hash_bytes bytes =
     (let (rest, (a, b, c)) =
            hash_blocks bytes (SAMP_SAA_HASH_INIT, SAMP_SAA_HASH_INIT, SAMP_SAA_HASH_SEED);
          (a, b, c) = hash_mix (hash_tail rest (a, b, c + of_nat (length bytes)))
      in c)"

definition byte_of_char :: "char \<Rightarrow> u8" where
  "byte_of_char ch = of_char ch"

definition lower_byte :: "u8 \<Rightarrow> u8" where
  "lower_byte ch = (if 0x41 \<le> ch \<and> ch \<le> 0x5A then ch + 0x20 else ch)"

text \<open>
  The filename is a C string. The loop stops after 260 characters; a longer name, like an empty
  one or NULL, hashes to 0.
\<close>

definition samp_saa_hash_filename :: "string option \<Rightarrow> u32" where
  "samp_saa_hash_filename filename = (case filename of None \<Rightarrow> 0 | Some s \<Rightarrow>
     if length s > 260 \<or> length s = 0 then 0
     else hash_bytes (map (\<lambda>ch. lower_byte (byte_of_char ch)) s))"

definition is_path_separator :: "char \<Rightarrow> bool" where
  "is_path_separator ch \<longleftrightarrow> ch = CHR 0x5C \<or> ch = CHR ''/''"

definition path_base :: "string \<Rightarrow> string" where
  \<comment> \<open>the loop that moves \<^verbatim>\<open>base\<close> from the end back to the last separator\<close>
  "path_base p = rev (takeWhile (\<lambda>ch. \<not> is_path_separator ch) (rev p))"

definition samp_saa_hash_path :: "string option \<Rightarrow> u32 option" where
  "samp_saa_hash_path path = (case path of None \<Rightarrow> None | Some p \<Rightarrow>
     if p = [] then None
     else let base = path_base p in
       if length base = 0 \<or> length base \<ge> 260 then None
       else let h = samp_saa_hash_filename (Some base) in if h \<noteq> 0 then Some h else None)"

section \<open>Layout, lookup and extraction\<close>

text \<open>
  \<^verbatim>\<open>samp_saa_parse_layout\<close> in two parts: the checks and field computations once the two header
  words are read, and the function itself.
\<close>

definition layout_of_words :: "u32 \<Rightarrow> u32 \<Rightarrow> size_t \<Rightarrow> samp_saa_layout option" where
  "layout_of_words decoded_id xor_key dsize =
     (if decoded_id AND 0x000FFFFF \<noteq> SAMP_SAA_ID \<or> drop_bit 20 decoded_id AND 7 \<noteq> SAMP_SAA_VERSION
      then None
      else
        let sig_size = drop_bit 23 decoded_id AND 0xFF in
        if sig_size = 0 \<or>
           sig_size > dsize - of_nat SAMP_SAA_HEADER_BYTES - of_nat SAMP_SAA_TABLE_BYTES
        then None
        else
          let sig_offset = dsize - sig_size;
              ent_offset = sig_offset - of_nat SAMP_SAA_TABLE_BYTES in
          if ent_offset < of_nat SAMP_SAA_HEADER_BYTES \<or>
             (ent_offset - of_nat SAMP_SAA_HEADER_BYTES) mod of_nat SAMP_SAA_BLOCK_BYTES \<noteq> 0
          then None
          else Some \<lparr>header_size = of_nat SAMP_SAA_HEADER_BYTES, entry_offset = ent_offset,
                 signature_offset = sig_offset, signature_size = sig_size,
                 invalid_index = ucast (drop_bit 5 xor_key AND 0xFF)\<rparr>)"

definition samp_saa_parse_layout :: "u8 list option \<Rightarrow> size_t \<Rightarrow> samp_saa_layout option mem" where
  "samp_saa_parse_layout dat dsize = (case dat of None \<Rightarrow> Some None | Some bs \<Rightarrow>
     if dsize < of_nat (SAMP_SAA_HEADER_BYTES + SAMP_SAA_TABLE_BYTES + 8) then Some None
     else do {
       encoded_id \<leftarrow> load_le32 bs (SAMP_SAA_HEADER_BYTES - 8);
       xor_key \<leftarrow> load_le32 bs (SAMP_SAA_HEADER_BYTES - 4);
       Some (layout_of_words (encoded_id XOR xor_key) xor_key dsize)
     })"

definition zero_layout :: samp_saa_layout where
  "zero_layout = \<lparr>header_size = 0, entry_offset = 0, signature_offset = 0, signature_size = 0,
     invalid_index = 0\<rparr>"

definition zero_archive :: samp_saa_archive where
  "zero_archive = \<lparr>data = None, data_size = 0, layout = zero_layout,
     entries = replicate SAMP_SAA_TABLE_BYTES 0, ready = False\<rparr>"

text \<open>
  The return value and \<^verbatim>\<open>*archive\<close> after the call: the zeroed structure on every failure. The
  structure passed in does not matter, since it is cleared first.
\<close>

definition samp_saa_open_verified ::
  "u8 list option \<Rightarrow> size_t \<Rightarrow> bool \<Rightarrow> (bool \<times> samp_saa_archive) mem" where
  "samp_saa_open_verified dat dsize signature_verified =
     (if \<not> signature_verified then Some (False, zero_archive)
      else do {
        parsed \<leftarrow> samp_saa_parse_layout dat dsize;
        (case parsed of None \<Rightarrow> Some (False, zero_archive) | Some lay \<Rightarrow> do {
           bs \<leftarrow> dat;
           raw \<leftarrow> load_bytes bs (unat (entry_offset lay)) SAMP_SAA_TABLE_BYTES;
           tab \<leftarrow> tea_decrypt raw SAMP_SAA_TABLE_BYTES kSampSaaTableKeyObfuscated 0xAA;
           Some (True, \<lparr>data = dat, data_size = dsize, layout = lay, entries = tab, ready = True\<rparr>)
         })
      })"

definition decode_entry :: "samp_saa_archive \<Rightarrow> u16 \<Rightarrow> (u32 \<times> u8 \<times> u32) option mem" where
  "decode_entry archive index =
     (if \<not> ready archive \<or> index \<ge> of_nat SAMP_SAA_ENTRY_COUNT then Some None
      else do {
        let entry = unat index * SAMP_SAA_ENTRY_BYTES;
        h \<leftarrow> load_le32 (entries archive) entry;
        w \<leftarrow> load_le32 (entries archive) (entry + 4);
        let decoded = unobfuscate_u32 w XOR h;
        Some (Some (h, ucast decoded, drop_bit 8 decoded))
      })"

text \<open>
  The first loop of \<^verbatim>\<open>samp_saa_find\<close>, from \<open>index\<close>: the matching entry's index, previous index
  and size, or \<open>None\<close> when \<open>index\<close> reaches the entry count (or an entry does not decode).
\<close>

function find_entry :: "samp_saa_archive \<Rightarrow> u32 \<Rightarrow> nat \<Rightarrow> (u16 \<times> u8 \<times> u32) option mem" where
  "find_entry archive h index =
     (if index < SAMP_SAA_ENTRY_COUNT then do {
        e \<leftarrow> decode_entry archive (of_nat index);
        (case e of None \<Rightarrow> Some None
         | Some (candidate, previous, sz) \<Rightarrow>
             if candidate = h then Some (Some (of_nat index, previous, sz))
             else find_entry archive h (index + 1))
      } else Some None)"
  by pat_completeness auto
termination
  by (relation "measure (\<lambda>(a, h, i). SAMP_SAA_ENTRY_COUNT - i)") auto

declare find_entry.simps [simp del]

text \<open>The second loop: the data offset behind the chain of preceding entries.\<close>

function chain_offset :: "samp_saa_archive \<Rightarrow> bool list \<Rightarrow> u8 \<Rightarrow> size_t \<Rightarrow> size_t option mem" where
  "chain_offset archive visited previous off =
     (if previous = invalid_index (layout archive) then Some (Some off)
      else if \<not> unat previous < length visited then None
      else if visited ! unat previous then Some None
      else do {
        e \<leftarrow> decode_entry archive (ucast previous);
        (case e of None \<Rightarrow> Some None
         | Some (_, next_previous, previous_size) \<Rightarrow>
             if next_previous = previous \<or> previous_size = 0 then Some None
             else
               let rounded = round_block_size previous_size in
               if rounded > entry_offset (layout archive) - off then Some None
               else chain_offset archive (visited[unat previous := True]) next_previous (off + rounded))
      })"
  by pat_completeness auto
termination
  by (relation "measure (\<lambda>(a, vs, p, off). length (filter Not vs))") (auto simp: count_False_update)

declare chain_offset.simps [simp del]

definition samp_saa_find :: "samp_saa_archive option \<Rightarrow> u32 \<Rightarrow> samp_saa_file option mem" where
  "samp_saa_find arch h = (case arch of None \<Rightarrow> Some None | Some archive \<Rightarrow>
     if \<not> ready archive then Some None
     else do {
       found \<leftarrow> find_entry archive h 0;
       (case found of None \<Rightarrow> Some None
        | Some (index, previous, sz) \<Rightarrow>
            if previous = ucast index \<or> sz = 0 then Some None
            else do {
              chained \<leftarrow> chain_offset archive (replicate SAMP_SAA_ENTRY_COUNT False) previous
                            (header_size (layout archive));
              (case chained of None \<Rightarrow> Some None
               | Some off \<Rightarrow>
                   if round_block_size sz > entry_offset (layout archive) - off then Some None
                   else Some (Some \<lparr>hash = h, size = sz, data_offset = off, entry_index = index\<rparr>))
            })
     })"

text \<open>
  The copy loop. \<open>written\<close> never passes \<open>size file\<close>, so it is a number; the source offset wraps
  as the code's \<^verbatim>\<open>size_t\<close> does.
\<close>

function extract_loop ::
  "u8 list \<Rightarrow> nat \<Rightarrow> tea_key \<Rightarrow> nat \<Rightarrow> size_t \<Rightarrow> u8 list \<Rightarrow> u8 list mem" where
  "extract_loop bs fsize key written source_offset output =
     (if written < fsize then do {
        let copy_size = min (fsize - written) SAMP_SAA_BLOCK_BYTES;
        block \<leftarrow> load_bytes bs (unat source_offset) SAMP_SAA_BLOCK_BYTES;
        (plain, key') \<leftarrow> tea_decrypt_with_key block SAMP_SAA_BLOCK_BYTES key;
        output' \<leftarrow> (if written + copy_size \<le> length output
                   then Some (splice output written (take copy_size plain)) else None);
        extract_loop bs fsize key' (written + copy_size)
          (source_offset + of_nat SAMP_SAA_BLOCK_BYTES) output'
      } else Some output)"
  by pat_completeness auto
termination
  by (relation "measure (\<lambda>(bs, n, key, w, off, out). n - w)") (auto simp: saa_consts)

declare extract_loop.simps [simp del]

definition samp_saa_extract ::
  "samp_saa_archive option \<Rightarrow> samp_saa_file option \<Rightarrow> u8 list option \<Rightarrow> size_t \<Rightarrow>
     (bool \<times> u8 list option) mem" where
  "samp_saa_extract arch fil out output_size =
     (case (arch, fil, out) of
        (Some archive, Some file, Some output) \<Rightarrow>
          if \<not> ready archive \<or> output_size < size file \<or>
             data_offset file > entry_offset (layout archive) \<or>
             round_block_size (size file) > entry_offset (layout archive) - data_offset file
          then Some (False, out)
          else do {
            let key_offset = hash file mod of_nat (SAMP_SAA_TABLE_BYTES - SAMP_SAA_TEA_KEY_BYTES);
            key_bytes \<leftarrow> load_bytes (entries archive) (unat key_offset) SAMP_SAA_TEA_KEY_BYTES;
            key \<leftarrow> tea_load_key key_bytes 0;
            bs \<leftarrow> data archive;
            output' \<leftarrow> extract_loop bs (unat (size file)) key 0 (data_offset file) output;
            Some (True, Some output')
          }
      | _ \<Rightarrow> Some (False, out))"

section \<open>Loads and stores\<close>

lemma load_le32_iff: "(load_le32 bs off = None) \<longleftrightarrow> length bs < off + 4"
  by (auto simp: load_le32_def load_bytes_def)

lemma le32_of_bytes_of_le32_list: "le32_of_list (bytes_of_le32 v @ r) = v"
  by (simp add: bytes_of_le32_def le32_of_bytes_of_le32)

lemma store_load_le32:
  "store_le32 bs off v = Some bs' \<Longrightarrow> load_le32 bs' off = Some v"
  by (auto simp: store_le32_def load_le32_def load_bytes_def splice_def bytes_of_le32_def
        le32_of_bytes_of_le32 split: if_splits)

section \<open>The cipher against its inverse\<close>

text \<open>
  The encryption that \<^verbatim>\<open>tea_decrypt_with_key\<close> undoes, as a specification: the repository holds only
  the decryption.
\<close>

definition tea_unround :: "tea_key \<Rightarrow> u32 \<times> u32 \<times> u32 \<Rightarrow> u32 \<times> u32 \<times> u32" where
  "tea_unround key st =
     (let (v0, v1, s) = st;
          v0' = v0 + (tea_mix v1 XOR (s + key_word key (s AND 3)));
          s' = s + SAMP_SAA_TEA_DELTA;
          v1' = v1 + (tea_mix v0' XOR (s' + key_word key (drop_bit 11 s' AND 3)))
      in (v0', v1', s'))"

lemma tea_round_unround: "tea_round key (tea_unround key st) = st"
  by (cases st) (simp add: tea_round_def tea_unround_def Let_def)

lemma tea_unround_round: "tea_unround key (tea_round key st) = st"
  by (cases st) (simp add: tea_round_def tea_unround_def Let_def)

lemma funpow_inverse:
  fixes f g :: "'a \<Rightarrow> 'a"
  assumes "\<And>x. f (g x) = x"
  shows "(f ^^ n) ((g ^^ n) x) = x"
proof (induction n arbitrary: x)
  case 0
  then show ?case by simp
next
  case (Suc n)
  have "(f ^^ Suc n) ((g ^^ Suc n) x) = (f ^^ n) (f (g ((g ^^ n) x)))"
    by (simp add: funpow_swap1)
  then show ?case by (simp add: assms Suc.IH)
qed

lemma tea_unrounds_sum:
  "snd (snd ((tea_unround key ^^ n) (v0, v1, s))) = s + of_nat n * SAMP_SAA_TEA_DELTA"
  by (induction n) (auto simp: tea_unround_def Let_def algebra_simps split: prod.splits)

definition tea_encrypt_pair :: "tea_key \<Rightarrow> u32 \<Rightarrow> u32 \<Rightarrow> u32 \<times> u32" where
  "tea_encrypt_pair key v0 v1 =
     (case (tea_unround key ^^ SAMP_SAA_TEA_ROUNDS) (v0, v1, 0) of (w0, w1, _) \<Rightarrow> (w0, w1))"

lemma tea_decrypt_encrypt_pair:
  assumes "tea_encrypt_pair key v0 v1 = (w0, w1)"
  shows "tea_decrypt_pair key w0 w1 = (v0, v1)"
proof -
  obtain a b s where abs: "(tea_unround key ^^ SAMP_SAA_TEA_ROUNDS) (v0, v1, 0) = (a, b, s)"
    by (metis prod_cases3)
  have "s = tea_sum0"
    using tea_unrounds_sum[of SAMP_SAA_TEA_ROUNDS key v0 v1 0] by (simp add: abs tea_sum0_def mult.commute)
  moreover have "(w0, w1) = (a, b)"
    using assms by (simp add: tea_encrypt_pair_def abs)
  moreover have "(tea_round key ^^ SAMP_SAA_TEA_ROUNDS) (a, b, s) = (v0, v1, 0)"
    using funpow_inverse[of "tea_round key" "tea_unround key" SAMP_SAA_TEA_ROUNDS "(v0, v1, 0)"]
    by (simp add: abs tea_round_unround)
  ultimately show ?thesis
    by (simp add: tea_decrypt_pair_def)
qed

text \<open>The in-place loop as a function on byte streams.\<close>

function tea_stream :: "tea_key \<Rightarrow> u8 list \<Rightarrow> u8 list \<times> tea_key" where
  "tea_stream key bs =
     (if length bs < 8 then (bs, key)
      else let v0 = le32_of_list bs; v1 = le32_of_list (drop 4 bs);
               (w0, w1) = tea_decrypt_pair key v0 v1;
               (rest, key') = tea_stream (tea_chain_key key v0 v1) (drop 8 bs)
           in (bytes_of_le32 w0 @ bytes_of_le32 w1 @ rest, key'))"
  by pat_completeness auto
termination
  by (relation "measure (\<lambda>(k, bs). length bs)") auto

declare tea_stream.simps [simp del]

lemma length_tea_stream: "length (fst (tea_stream key bs)) = length bs"
  by (induction key bs rule: tea_stream.induct)
    (subst tea_stream.simps, auto simp: Let_def split: prod.splits)

lemma le32_of_list_take: "4 \<le> n \<Longrightarrow> le32_of_list (take n xs) = le32_of_list xs"
  apply (cases xs rule: le32_of_list.cases)
  apply (auto simp: numeral_eq_Suc Suc_le_eq take_Cons' dest!: gr0_implies_Suc)
  done

lemma load_le32_eq: "off + 4 \<le> length bs \<Longrightarrow> load_le32 bs off = Some (le32_of_list (drop off bs))"
  by (simp add: load_le32_def load_bytes_def le32_of_list_take)

lemma tea_decrypt_loop_stream:
  "off \<le> length bs \<Longrightarrow> tea_decrypt_loop bs (length bs) key off =
     (case tea_stream key (drop off bs) of (out, key') \<Rightarrow> Some (take off bs @ out, key'))"
proof (induction "length bs - off" arbitrary: bs key off rule: less_induct)
  case less
  show ?case
  proof (cases "off + 8 \<le> length bs")
    case False
    then have "length (drop off bs) < 8" by simp
    with False show ?thesis
      by (simp add: tea_decrypt_loop.simps[of bs] tea_stream.simps[of key])
  next
    case True
    define v0 where "v0 = le32_of_list (drop off bs)"
    define v1 where "v1 = le32_of_list (drop (off + 4) bs)"
    obtain w0 w1 where w: "tea_decrypt_pair key v0 v1 = (w0, w1)" by force
    define bs1 where "bs1 = splice bs off (bytes_of_le32 w0)"
    define bs2 where "bs2 = splice bs1 (off + 4) (bytes_of_le32 w1)"
    have len: "length bs1 = length bs" "length bs2 = length bs"
      using True by (simp_all add: bs1_def bs2_def)
    have dropped: "drop (off + 8) bs2 = drop (off + 8) bs"
      using True by (simp add: bs1_def bs2_def splice_def) (simp add: add.commute)
    have taken: "take (off + 8) bs2 = take off bs @ bytes_of_le32 w0 @ bytes_of_le32 w1"
      using True by (simp add: bs1_def bs2_def splice_def)
    have "tea_decrypt_loop bs (length bs) key off =
        tea_decrypt_loop bs2 (length bs) (tea_chain_key key v0 v1) (off + 8)"
      using True len
      by (simp add: tea_decrypt_loop.simps[of bs] load_le32_eq store_le32_def
          v0_def[symmetric] v1_def[symmetric] w bs1_def[symmetric] bs2_def[symmetric])
    also have "\<dots> = (case tea_stream (tea_chain_key key v0 v1) (drop (off + 8) bs) of
        (out, key') \<Rightarrow> Some (take off bs @ bytes_of_le32 w0 @ bytes_of_le32 w1 @ out, key'))"
      using less(1)[of bs2 "off + 8" "tea_chain_key key v0 v1"] True len dropped taken
      by simp
    also have "\<dots> = (case tea_stream key (drop off bs) of (out, key') \<Rightarrow> Some (take off bs @ out, key'))"
    proof -
      have "drop 8 (drop off bs) = drop (off + 8) bs" "drop 4 (drop off bs) = drop (off + 4) bs"
        "\<not> length (drop off bs) < 8"
        using True by (simp_all only: drop_drop add.commute) simp
      then show ?thesis
        by (simp only: tea_stream.simps[of key "drop off bs"] Let_def v0_def[symmetric]
            v1_def[symmetric] w if_False split: prod.splits) simp
    qed
    finally show ?thesis .
  qed
qed

lemma tea_decrypt_with_key_stream:
  "tea_decrypt_with_key bs (length bs) key = Some (tea_stream key bs)"
  using tea_decrypt_loop_stream[of 0 bs key] by (simp add: tea_decrypt_with_key_def split: prod.splits)

lemma tea_stream_append:
  "length xs mod 8 = 0 \<Longrightarrow> tea_stream key (xs @ ys) =
     (case tea_stream key xs of (out, key') \<Rightarrow>
        case tea_stream key' ys of (out', key'') \<Rightarrow> (out @ out', key''))"
proof (induction key xs rule: tea_stream.induct)
  case (1 key xs)
  show ?case
  proof (cases "length xs < 8")
    case True
    with "1.prems" have "xs = []" by (simp add: mod_less)
    then show ?thesis by (simp add: tea_stream.simps[of key "[]"] split: prod.splits)
  next
    case False
    obtain w0 w1 where w: "tea_decrypt_pair key (le32_of_list xs) (le32_of_list (drop 4 xs)) = (w0, w1)"
      by force
    have heads: "le32_of_list (xs @ ys) = le32_of_list xs"
      "le32_of_list (drop 4 (xs @ ys)) = le32_of_list (drop 4 xs)"
      using False le32_of_list_take[of 4 "xs @ ys"] le32_of_list_take[of 4 xs]
        le32_of_list_take[of 4 "drop 4 (xs @ ys)"] le32_of_list_take[of 4 "drop 4 xs"]
      by (simp_all add: take_drop)
    have "length (drop 8 xs) mod 8 = 0"
      using "1.prems" False by (simp add: le_mod_geq not_less)
    note IH = "1.IH"[OF False refl refl w[symmetric] refl this]
    show ?thesis
      using False w heads IH
      by (simp add: tea_stream.simps[of key xs] tea_stream.simps[of key "xs @ ys"] split: prod.splits)
  qed
qed



function tea_encrypt_stream :: "tea_key \<Rightarrow> u8 list \<Rightarrow> u8 list" where
  "tea_encrypt_stream key bs =
     (if length bs < 8 then bs
      else let (c0, c1) = tea_encrypt_pair key (le32_of_list bs) (le32_of_list (drop 4 bs))
           in bytes_of_le32 c0 @ bytes_of_le32 c1 @
              tea_encrypt_stream (tea_chain_key key c0 c1) (drop 8 bs))"
  by pat_completeness auto
termination
  by (relation "measure (\<lambda>(k, bs). length bs)") auto

declare tea_encrypt_stream.simps [simp del]

lemma bytes_of_le32_of_bytes:
  "bytes_of_le32 (le32_of_bytes a b c d) = [a, b, c, d]"
proof -
  have "ucast (le32_of_bytes a b c d) = a"
    "ucast (drop_bit 8 (le32_of_bytes a b c d)) = b"
    "ucast (drop_bit 16 (le32_of_bytes a b c d)) = c"
    "ucast (drop_bit 24 (le32_of_bytes a b c d)) = d"
    by (rule bit_word_eqI, auto simp: le32_of_bytes_def bit_simps dest: bit_imp_le_length)+
  then show ?thesis by (simp add: bytes_of_le32_def)
qed

lemma bytes_of_le32_of_list: "4 \<le> length xs \<Longrightarrow> bytes_of_le32 (le32_of_list xs) = take 4 xs"
  by (cases xs rule: le32_of_list.cases) (auto simp: bytes_of_le32_of_bytes)

lemma tea_stream_encrypt:
  "fst (tea_stream key (tea_encrypt_stream key bs)) = bs"
proof (induction key bs rule: tea_encrypt_stream.induct)
  case (1 key bs)
  show ?case
  proof (cases "length bs < 8")
    case True
    then show ?thesis by (simp add: tea_encrypt_stream.simps[of key bs] tea_stream.simps[of key bs])
  next
    case False
    obtain c0 c1 where c: "tea_encrypt_pair key (le32_of_list bs) (le32_of_list (drop 4 bs)) = (c0, c1)"
      by force
    define rest where "rest = tea_encrypt_stream (tea_chain_key key c0 c1) (drop 8 bs)"
    have enc: "tea_encrypt_stream key bs = bytes_of_le32 c0 @ bytes_of_le32 c1 @ rest"
      using False by (simp add: tea_encrypt_stream.simps[of key bs] c rest_def)
    have dec: "tea_decrypt_pair key c0 c1 = (le32_of_list bs, le32_of_list (drop 4 bs))"
      by (rule tea_decrypt_encrypt_pair) (rule c)
    obtain key' where IH: "tea_stream (tea_chain_key key c0 c1) rest = (drop 8 bs, key')"
      using "1.IH"[OF False c[symmetric] refl] by (metis rest_def prod.collapse)
    have "fst (tea_stream key (tea_encrypt_stream key bs)) =
        bytes_of_le32 (le32_of_list bs) @ bytes_of_le32 (le32_of_list (drop 4 bs)) @ drop 8 bs"
      using IH by (simp add: enc tea_stream.simps[of key "bytes_of_le32 c0 @ bytes_of_le32 c1 @ rest"]
          le32_of_bytes_of_le32_list dec split: prod.splits)
    also have "\<dots> = take 4 bs @ take 4 (drop 4 bs) @ drop 8 bs"
      using False by (simp add: bytes_of_le32_of_list)
    also have "\<dots> = bs"
      using append_take_drop_id[of 4 "drop 4 bs"] append_take_drop_id[of 4 bs] by simp
    finally show ?thesis .
  qed
qed

lemma length_tea_encrypt_stream: "length (tea_encrypt_stream key bs) = length bs"
  by (induction key bs rule: tea_encrypt_stream.induct)
    (subst tea_encrypt_stream.simps, auto simp: Let_def split: prod.splits)

section \<open>Well-formed layouts, archives and files\<close>

definition layout_wf :: "samp_saa_layout \<Rightarrow> size_t \<Rightarrow> bool" where
  "layout_wf lay dsize \<longleftrightarrow>
     unat (header_size lay) = SAMP_SAA_HEADER_BYTES \<and>
     SAMP_SAA_HEADER_BYTES \<le> unat (entry_offset lay) \<and>
     (unat (entry_offset lay) - SAMP_SAA_HEADER_BYTES) mod SAMP_SAA_BLOCK_BYTES = 0 \<and>
     unat (signature_offset lay) = unat (entry_offset lay) + SAMP_SAA_TABLE_BYTES \<and>
     unat (signature_offset lay) + unat (signature_size lay) = unat dsize \<and>
     0 < unat (signature_size lay) \<and> unat (signature_size lay) \<le> 255"

lemma parse_layout_no_fault:
  "unat dsize \<le> length bs \<Longrightarrow> samp_saa_parse_layout (Some bs) dsize \<noteq> None"
  by (auto simp: samp_saa_parse_layout_def Let_def load_le32_eq saa_consts word_less_nat_alt)

lemma layout_of_words_wf:
  assumes some: "layout_of_words w x dsize = Some lay" and big: "\<not> dsize < 2312"
  shows "layout_wf lay dsize"
proof -
  define ss where "ss = drop_bit 23 w AND 0xFF"
  define so where "so = dsize - ss"
  define eo where "eo = so - 2048"
  have l: "ss \<noteq> 0" "ss \<le> dsize - 256 - 2048" "\<not> eo < 256" "(eo - 256) mod 2048 = 0"
    "lay = \<lparr>header_size = 256, entry_offset = eo, signature_offset = so, signature_size = ss,
                  invalid_index = ucast (drop_bit 5 x AND 0xFF)\<rparr>"
    using some by (auto simp: layout_of_words_def saa_consts ss_def so_def eo_def Let_def split: if_splits)
  have ss255: "ss \<le> 255" by (simp add: ss_def word_and_le1)
  have d: "unat (dsize - 256 - 2048) = unat dsize - 2304"
    using big by unat_arith
  have uss: "unat ss \<le> unat dsize - 2304" "unat ss \<le> 255" "0 < unat ss"
    using l(1,2) ss255 d by (simp_all add: word_le_nat_alt unat_gt_0)
  have uso: "unat so = unat dsize - unat ss"
    using uss big unfolding so_def by unat_arith
  have ueo: "unat eo = unat so - 2048"
    using uss uso big unfolding eo_def by unat_arith
  have ge: "256 \<le> unat eo" using l(3) by unat_arith
  have md: "(unat eo - 256) mod 2048 = 0"
  proof -
    have "unat (eo - 256) = unat eo - 256" using ge by unat_arith
    moreover have "unat ((eo - 256) mod 2048) = 0" using l(4) by simp
    ultimately show ?thesis by (simp add: unat_mod)
  qed
  show ?thesis
    using uss uso ueo ge md big by (simp add: layout_wf_def l(5) saa_consts)
qed

lemma parse_layout_wf:
  "samp_saa_parse_layout dat dsize = Some (Some lay) \<Longrightarrow> layout_wf lay dsize"
  by (auto simp: samp_saa_parse_layout_def bind_Some_iff saa_consts
      split: option.splits if_splits intro!: layout_of_words_wf)

definition blocks_size :: "nat \<Rightarrow> nat" where
  "blocks_size n = (n + 2047) div 2048 * 2048"

lemma unat_and_not_mask: "unat (x AND NOT (mask n :: 32 word)) = unat x - unat x mod 2 ^ n"
proof -
  have "x = (x AND NOT (mask n)) + (x AND mask n)"
    by (subst disjunctive_add) (auto simp: bit_simps intro: bit_word_eqI)
  then have "x AND NOT (mask n) = x - take_bit n x"
    by (metis add_diff_cancel_right' take_bit_eq_mask)
  moreover have "unat (take_bit n x) = unat x mod 2 ^ n"
  proof -
    have "unat (take_bit n x) = take_bit n (unat x)" by (rule unsigned_take_bit_eq)
    also have "\<dots> = unat x mod 2 ^ n" by (rule take_bit_eq_mod)
    finally show ?thesis .
  qed
  moreover have "take_bit n x \<le> x"
    by (metis calculation(2) mod_less_eq_dividend word_le_nat_alt)
  ultimately show ?thesis by (simp add: unat_sub)
qed

lemma unat_round_block_size:
  assumes "unat sz + 2047 < 2 ^ 32"
  shows "unat (round_block_size sz) = blocks_size (unat sz)"
proof -
  have "(2047 :: 32 word) = mask 11" by (simp add: mask_eq_exp_minus_1)
  then have "unat (round_block_size sz) = unat (sz + 2047) - unat (sz + 2047) mod 2048"
    using unat_and_not_mask[of "sz + 2047" 11] by (simp add: round_block_size_def saa_consts)
  moreover have "unat (sz + 2047) = unat sz + 2047"
    using assms by (simp add: unat_add_lem[THEN iffD1])
  ultimately show ?thesis
    by (simp add: blocks_size_def minus_mod_eq_div_mult)
qed

definition archive_wf :: "samp_saa_archive \<Rightarrow> bool" where
  "archive_wf a \<longleftrightarrow> ready a \<longrightarrow> (\<exists>bs. data a = Some bs \<and> unat (data_size a) \<le> length bs \<and>
     layout_wf (layout a) (data_size a) \<and> length (entries a) = SAMP_SAA_TABLE_BYTES)"

lemma tea_load_key_16: "16 \<le> length bs \<Longrightarrow> \<exists>key. tea_load_key bs x = Some key"
  by (simp add: tea_load_key_def load_bytes_def load_le32_eq Let_def)

lemma tea_decrypt_loop_length:
  "tea_decrypt_loop bs n key off = Some (out, key') \<Longrightarrow> length out = length bs"
proof (induction bs n key off rule: tea_decrypt_loop.induct)
  case (1 bs n key off)
  show ?case
  proof (cases "off + 8 \<le> n")
    case True
    with "1.prems" obtain v0 v1 where v: "load_le32 bs off = Some v0" "load_le32 bs (off + 4) = Some v1"
      by (auto simp: tea_decrypt_loop.simps[of bs] bind_Some_iff)
    obtain w0 w1 where w: "tea_decrypt_pair key v0 v1 = (w0, w1)" by force
    from "1.prems" True v w obtain bs1 bs2 where st:
      "store_le32 bs off w0 = Some bs1" "store_le32 bs1 (off + 4) w1 = Some bs2"
      "tea_decrypt_loop bs2 n (tea_chain_key key v0 v1) (off + 8) = Some (out, key')"
      by (auto simp: tea_decrypt_loop.simps[of bs] bind_Some_iff)
    have "length out = length bs2"
      by (rule "1.IH"[OF True v w[symmetric] refl st])
    also have "\<dots> = length bs"
      using st(1,2) by (auto simp: store_le32_def split: if_splits)
    finally show ?thesis .
  next
    case False
    with "1.prems" show ?thesis by (simp add: tea_decrypt_loop.simps[of bs])
  qed
qed

lemma open_verified_wf:
  assumes "samp_saa_open_verified dat dsize v = Some (rc, a)"
    and "\<And>bs. dat = Some bs \<Longrightarrow> unat dsize \<le> length bs"
  shows "archive_wf a" and "rc = ready a"
  using assms
  by (auto simp: samp_saa_open_verified_def archive_wf_def zero_archive_def bind_Some_iff
      tea_decrypt_def tea_decrypt_with_key_def split: if_splits option.splits prod.splits
      dest!: parse_layout_wf tea_decrypt_loop_length load_bytes_length)

lemma decode_entry_total:
  "length (entries a) = SAMP_SAA_TABLE_BYTES \<Longrightarrow> decode_entry a i \<noteq> None"
proof -
  assume len: "length (entries a) = SAMP_SAA_TABLE_BYTES"
  have "i < 256 \<Longrightarrow> unat i * 8 + 8 \<le> 2048" by unat_arith
  with len show ?thesis
    by (auto simp: decode_entry_def Let_def load_le32_eq saa_consts not_le)
qed

lemma decode_entry_size:
  "decode_entry a i = Some (Some (h, p, sz)) \<Longrightarrow> unat sz < 2 ^ 24"
proof -
  assume "decode_entry a i = Some (Some (h, p, sz))"
  then obtain w where "sz = drop_bit 8 w"
    by (auto simp: decode_entry_def Let_def bind_Some_iff simp del: drop_bit_xor split: if_splits)
  then show ?thesis
    using unat_u32_lt[of w] by (simp add: unat_drop_bit_div less_mult_imp_div_less)
qed

lemma blocks_size_ge: "n \<le> blocks_size n"
  by (simp add: blocks_size_def)

lemma round_size24:
  "unat sz < 2 ^ 24 \<Longrightarrow> unat (round_block_size sz) = blocks_size (unat sz)"
  by (rule unat_round_block_size) simp

lemma find_entry_total:
  "length (entries a) = SAMP_SAA_TABLE_BYTES \<Longrightarrow> find_entry a h i \<noteq> None"
proof (induction a h i rule: find_entry.induct)
  case (1 a h i)
  then show ?case
    using decode_entry_total[of a "of_nat i"]
    by (subst find_entry.simps) (auto split: option.splits)
qed

lemma find_entry_Some:
  "find_entry a h i = Some (Some (idx, p, sz)) \<Longrightarrow>
     \<exists>j\<ge>i. j < SAMP_SAA_ENTRY_COUNT \<and> idx = of_nat j \<and> decode_entry a idx = Some (Some (h, p, sz)) \<and>
       (\<forall>k. i \<le> k \<and> k < j \<longrightarrow> (\<exists>h' p' sz'. decode_entry a (of_nat k) = Some (Some (h', p', sz')) \<and> h' \<noteq> h))"
proof (induction a h i rule: find_entry.induct)
  case (1 a h i)
  have lt: "i < SAMP_SAA_ENTRY_COUNT"
    using "1.prems" by (simp add: find_entry.simps[of a] split: if_splits)
  obtain c q z where dec: "decode_entry a (of_nat i) = Some (Some (c, q, z))"
    using "1.prems" lt by (auto simp: find_entry.simps[of a h i] bind_Some_iff split: option.splits)
  show ?case
  proof (cases "c = h")
    case True
    then show ?thesis
      using "1.prems" lt dec by (auto simp: find_entry.simps[of a h i] intro!: exI[of _ i])
  next
    case False
    then have "find_entry a h (i + 1) = Some (Some (idx, p, sz))"
      using "1.prems" lt dec by (simp add: find_entry.simps[of a h i])
    from "1.IH"[OF lt dec refl refl refl False this] obtain j where
      "j \<ge> i + 1" "j < SAMP_SAA_ENTRY_COUNT" "idx = of_nat j"
      "decode_entry a idx = Some (Some (h, p, sz))"
      "\<forall>k. i + 1 \<le> k \<and> k < j \<longrightarrow> (\<exists>h' p' sz'. decode_entry a (of_nat k) = Some (Some (h', p', sz')) \<and> h' \<noteq> h)"
      by blast
    note j = this
    have "\<exists>h' p' sz'. decode_entry a (of_nat k) = Some (Some (h', p', sz')) \<and> h' \<noteq> h"
      if "i \<le> k" "k < j" for k
      using that dec False j(5) by (cases "k = i") auto
    with j show ?thesis
      by (intro exI[of _ j]) auto
  qed
qed

definition offset_ok :: "samp_saa_archive \<Rightarrow> size_t \<Rightarrow> bool" where
  "offset_ok a off \<longleftrightarrow> SAMP_SAA_HEADER_BYTES \<le> unat off \<and> unat off \<le> unat (entry_offset (layout a))"

lemma offset_ok_step:
  assumes "offset_ok a off" "\<not> entry_offset (layout a) - off < r"
  shows "offset_ok a (off + r)" and "unat (off + r) = unat off + unat r"
proof -
  have "unat (entry_offset (layout a) - off) = unat (entry_offset (layout a)) - unat off"
    using assms(1) by (simp add: offset_ok_def unat_sub word_le_nat_alt)
  then have le: "unat off + unat r \<le> unat (entry_offset (layout a))"
    using assms by (auto simp: offset_ok_def word_less_nat_alt)
  then show "unat (off + r) = unat off + unat r"
    using unat_u32_lt[of "entry_offset (layout a)"] by (intro unat_add_u32) simp
  with le assms(1) show "offset_ok a (off + r)"
    by (simp add: offset_ok_def)
qed

lemma chain_offset_total:
  assumes "length (entries a) = SAMP_SAA_TABLE_BYTES" "length vs = 256"
  shows "chain_offset a vs p off \<noteq> None"
  using assms
proof (induction a vs p off rule: chain_offset.induct)
  case (1 a vs p off)
  have "unat p < 256" by (rule unat_u8_lt)
  then show ?case
    using "1.IH" "1.prems" decode_entry_total[of a "ucast p"]
    by (subst chain_offset.simps) (auto simp: Let_def split: option.splits)
qed

lemma chain_offset_ok:
  assumes "offset_ok a off" "chain_offset a vs p off = Some (Some r)"
  shows "offset_ok a r"
  using assms
proof (induction a vs p off rule: chain_offset.induct)
  case (1 a vs p off)
  show ?case
  proof (cases "p = invalid_index (layout a)")
    case True
    with "1.prems" show ?thesis by (simp add: chain_offset.simps[of a])
  next
    case False
    with "1.prems"(2) have v: "unat p < length vs" "\<not> vs ! unat p"
      by (auto simp: chain_offset.simps[of a vs p off] split: if_splits)
    with "1.prems"(2) False obtain e where e: "decode_entry a (ucast p) = Some (Some e)"
      by (auto simp: chain_offset.simps[of a vs p off] bind_Some_iff split: option.splits)
    obtain c q z where "e = (c, q, z)" by (cases e)
    with e have dec: "decode_entry a (ucast p) = Some (Some (c, q, z))" by simp
    with "1.prems"(2) False v have q: "\<not> (q = p \<or> z = 0)"
      and r: "\<not> entry_offset (layout a) - off < round_block_size z"
      and rec: "chain_offset a (vs[unat p := True]) q (off + round_block_size z) = Some (Some r)"
      by (auto simp: chain_offset.simps[of a vs p off] Let_def split: if_splits)
    show ?thesis
      using "1.IH"[OF False _ v(2) dec refl refl refl q refl r _ rec] v(1)
        offset_ok_step(1)[OF "1.prems"(1) r]
      by simp
  qed
qed

text \<open>
  A chain of entries from \<open>p\<close> on, each named by the one before it, down to the index that stands for none: the index
  and the size of each.
\<close>

fun entry_chain :: "samp_saa_archive \<Rightarrow> u8 \<Rightarrow> (u8 \<times> u32) list \<Rightarrow> bool" where
  "entry_chain a p [] \<longleftrightarrow> p = invalid_index (layout a)"
| "entry_chain a p ((i, sz) # es) \<longleftrightarrow> i = p \<and> p \<noteq> invalid_index (layout a) \<and> sz \<noteq> 0 \<and>
     (\<exists>h q. decode_entry a (ucast p) = Some (Some (h, q, sz)) \<and> q \<noteq> p \<and> entry_chain a q es)"

lemma chain_offset_chain:
  assumes "offset_ok a off" "chain_offset a vs p off = Some (Some r)"
  shows "\<exists>es. entry_chain a p es \<and> distinct (map fst es) \<and> (\<forall>e\<in>set es. \<not> vs ! unat (fst e)) \<and>
    unat r = unat off + sum_list (map (\<lambda>e. blocks_size (unat (snd e))) es)"
  using assms
proof (induction a vs p off rule: chain_offset.induct)
  case (1 a vs p off)
  show ?case
  proof (cases "p = invalid_index (layout a)")
    case True
    with "1.prems" show ?thesis by (intro exI[of _ "[]"]) (simp add: chain_offset.simps[of a])
  next
    case False
    with "1.prems"(2) have v: "unat p < length vs" "\<not> vs ! unat p"
      by (auto simp: chain_offset.simps[of a vs p off] split: if_splits)
    with "1.prems"(2) False obtain e where e: "decode_entry a (ucast p) = Some (Some e)"
      by (auto simp: chain_offset.simps[of a vs p off] bind_Some_iff split: option.splits)
    obtain c q z where "e = (c, q, z)" by (cases e)
    with e have dec: "decode_entry a (ucast p) = Some (Some (c, q, z))" by simp
    with "1.prems"(2) False v have q: "\<not> (q = p \<or> z = 0)"
      and r: "\<not> entry_offset (layout a) - off < round_block_size z"
      and rec: "chain_offset a (vs[unat p := True]) q (off + round_block_size z) = Some (Some r)"
      by (auto simp: chain_offset.simps[of a vs p off] Let_def split: if_splits)
    obtain es where es: "entry_chain a q es" "distinct (map fst es)"
      "\<forall>e\<in>set es. \<not> vs[unat p := True] ! unat (fst e)"
      "unat r = unat (off + round_block_size z) + sum_list (map (\<lambda>e. blocks_size (unat (snd e))) es)"
      using "1.IH"[OF False _ v(2) dec refl refl refl q refl r _ rec] v(1) offset_ok_step(1)[OF "1.prems"(1) r] by auto
    have new: "fst e \<noteq> p \<and> \<not> vs ! unat (fst e)" if "e \<in> set es" for e
    proof -
      have "\<not> vs[unat p := True] ! unat (fst e)" using es(3) that by blast
      then show ?thesis using v(1) by (cases "unat (fst e) = unat p") auto
    qed
    have "unat (off + round_block_size z) = unat off + blocks_size (unat z)"
      using offset_ok_step(2)[OF "1.prems"(1) r] round_size24[OF decode_entry_size[OF dec]] by simp
    then show ?thesis using es(1,2,4) new v(2) False q dec
      by (intro exI[of _ "(p, z) # es"]) auto
  qed
qed

definition file_wf :: "samp_saa_archive \<Rightarrow> samp_saa_file \<Rightarrow> bool" where
  "file_wf a f \<longleftrightarrow> size f \<noteq> 0 \<and> unat (size f) < 2 ^ 24 \<and>
     SAMP_SAA_HEADER_BYTES \<le> unat (data_offset f) \<and>
     unat (data_offset f) + blocks_size (unat (size f)) \<le> unat (entry_offset (layout a))"

lemma find_total:
  assumes "archive_wf a"
  shows "samp_saa_find (Some a) h \<noteq> None"
proof (cases "ready a")
  case True
  then have len: "length (entries a) = SAMP_SAA_TABLE_BYTES"
    using assms by (auto simp: archive_wf_def)
  have "length (replicate SAMP_SAA_ENTRY_COUNT False) = 256" by (simp add: saa_consts)
  note chain_offset_total[OF len this]
  moreover obtain z where z: "find_entry a h 0 = Some z"
    using find_entry_total[OF len] by blast
  ultimately show ?thesis
    using True by (cases z)
      (auto simp: samp_saa_find_def split: option.splits intro!: mem_bind_total)
qed (simp add: samp_saa_find_def)

lemma find_Some:
  assumes wf: "archive_wf a" and found: "samp_saa_find (Some a) h = Some (Some f)"
  shows "ready a" and "hash f = h" and "file_wf a f"
    and "\<exists>j<SAMP_SAA_ENTRY_COUNT. entry_index f = of_nat j \<and>
      (\<exists>p es. decode_entry a (of_nat j) = Some (Some (h, p, size f)) \<and> p \<noteq> ucast (entry_index f) \<and>
        entry_chain a p es \<and> distinct (map fst es) \<and>
        unat (data_offset f) = unat (header_size (layout a)) + sum_list (map (\<lambda>e. blocks_size (unat (snd e))) es)) \<and>
      (\<forall>k<j. \<exists>h' p' sz'. decode_entry a (of_nat k) = Some (Some (h', p', sz')) \<and> h' \<noteq> h)"
proof -
  show r: "ready a" using found by (auto simp: samp_saa_find_def split: if_splits)
  from found r obtain z where "find_entry a h 0 = Some (Some z)"
    by (auto simp: samp_saa_find_def bind_Some_iff split: option.splits)
  then obtain idx p sz where e: "find_entry a h 0 = Some (Some (idx, p, sz))"
    by (cases z) auto
  from found r e obtain off where
      c: "chain_offset a (replicate SAMP_SAA_ENTRY_COUNT False) p (header_size (layout a)) = Some (Some off)"
    and lt: "\<not> entry_offset (layout a) - off < round_block_size sz" and nz: "sz \<noteq> 0" and pne: "p \<noteq> ucast idx"
    and f: "f = \<lparr>hash = h, size = sz, data_offset = off, entry_index = idx\<rparr>"
    by (auto simp: samp_saa_find_def bind_Some_iff split: option.splits if_splits)
  have start: "offset_ok a (header_size (layout a))"
    using wf r by (auto simp: archive_wf_def layout_wf_def offset_ok_def)
  then have ok: "offset_ok a off" using c by (rule chain_offset_ok)
  from find_entry_Some[OF e] obtain j where j: "j < SAMP_SAA_ENTRY_COUNT" "idx = of_nat j"
    "decode_entry a idx = Some (Some (h, p, sz))"
    "\<forall>k<j. \<exists>h' p' sz'. decode_entry a (of_nat k) = Some (Some (h', p', sz')) \<and> h' \<noteq> h"
    by auto
  have s24: "unat sz < 2 ^ 24" by (rule decode_entry_size[OF j(3)])
  show "hash f = h" by (simp add: f)
  show "file_wf a f"
    using nz s24 ok offset_ok_step[OF ok lt] round_size24[OF s24]
    by (simp add: file_wf_def f offset_ok_def)
  obtain es where es: "entry_chain a p es" "distinct (map fst es)"
    "unat off = unat (header_size (layout a)) + sum_list (map (\<lambda>e. blocks_size (unat (snd e))) es)"
    using chain_offset_chain[OF start c] by blast
  show "\<exists>j<SAMP_SAA_ENTRY_COUNT. entry_index f = of_nat j \<and>
      (\<exists>p es. decode_entry a (of_nat j) = Some (Some (h, p, size f)) \<and> p \<noteq> ucast (entry_index f) \<and>
        entry_chain a p es \<and> distinct (map fst es) \<and>
        unat (data_offset f) = unat (header_size (layout a)) + sum_list (map (\<lambda>e. blocks_size (unat (snd e))) es)) \<and>
      (\<forall>k<j. \<exists>h' p' sz'. decode_entry a (of_nat k) = Some (Some (h', p', sz')) \<and> h' \<noteq> h)"
    by (rule exI[of _ j]) (use j es pne in \<open>auto simp: f\<close>)
qed

lemma blocks_size_step: "blocks_size (k + 2048) = 2048 + blocks_size k"
proof -
  have "k + 2048 + 2047 = (k + 2047) + 2048" by simp
  then have "(k + 2048 + 2047) div 2048 = (k + 2047) div 2048 + 1"
    by (metis div_add_self2 zero_neq_numeral)
  then show ?thesis by (simp only: blocks_size_def add_mult_distrib mult_1)
qed

lemma extract_loop_eq:
  assumes "unat src + blocks_size (fsize - w) \<le> length bs" "fsize \<le> length out"
    and "w \<le> fsize" "length bs < 4294967296"
  shows "extract_loop bs fsize key w src out =
    Some (take w out @
          take (fsize - w) (fst (tea_stream key (take (blocks_size (fsize - w)) (drop (unat src) bs)))) @
          drop fsize out)"
  using assms
proof (induction "fsize - w" arbitrary: key w src out rule: less_induct)
  case less
  show ?case
  proof (cases "w < fsize")
    case False
    with less.prems show ?thesis by (simp add: extract_loop.simps[of bs])
  next
    case True
    define m where "m = min (fsize - w) 2048"
    define block where "block = take 2048 (drop (unat src) bs)"
    obtain plain key' where st: "tea_stream key block = (plain, key')" by (metis surj_pair)
    have ge: "2048 \<le> blocks_size (fsize - w)"
      using True by (simp add: blocks_size_def)
    have lb: "load_bytes bs (unat src) 2048 = Some block"
      using less.prems(1) ge by (simp add: load_bytes_def block_def)
    have len_block: "length block = 2048"
      using less.prems(1) ge by (simp add: block_def)
    have len_plain: "length plain = 2048"
      using length_tea_stream[of key block] by (simp add: st len_block)
    have dec: "tea_decrypt_with_key block 2048 key = Some (plain, key')"
      using tea_decrypt_with_key_stream[of block key] by (simp add: len_block st)
    define out' where "out' = splice out w (take m plain)"
    have lm: "length (take m plain) = m" by (simp add: m_def len_plain)
    have wm: "w + m \<le> fsize" using True by (simp add: m_def)
    have out': "length out' = length out" "take (w + m) out' = take w out @ take m plain"
      "drop fsize out' = drop fsize out"
      using wm lm less.prems(2) by (simp_all add: out'_def splice_def)
    have step: "extract_loop bs fsize key w src out =
        extract_loop bs fsize key' (w + m) (src + 2048) out'"
      using True wm lm less.prems(2)
      by (simp add: extract_loop.simps[of bs fsize key w src out] saa_consts lb dec Let_def
          m_def[symmetric] out'_def)
    show ?thesis
    proof (cases "w + m < fsize")
      case last: False
      then have fs: "fsize = w + m" using wm by linarith
      then have all: "fsize - w = m" by linarith
      have "m \<le> 2048" by (simp add: m_def)
      moreover have "0 < m" using True by (simp add: m_def)
      ultimately have "(m + 2047) div 2048 = 1" by (intro div_nat_eqI) simp_all
      then have bsz: "blocks_size (fsize - w) = 2048"
        by (simp only: all blocks_size_def)
      have "extract_loop bs fsize key' (w + m) (src + 2048) out' = Some out'"
        using last by (subst extract_loop.simps) (simp only: if_False)
      moreover have "out' = take w out @ take m plain @ drop fsize out"
        unfolding fs out'_def splice_def lm ..
      moreover have "take (fsize - w) (fst (tea_stream key
          (take (blocks_size (fsize - w)) (drop (unat src) bs)))) = take m plain"
        by (simp only: all[symmetric] bsz block_def[symmetric] st fst_conv)
      ultimately show ?thesis
        by (simp only: step)
    next
      case more: True
      then have m: "m = 2048" by (simp add: m_def)
      have bsz: "blocks_size (fsize - w) = 2048 + blocks_size (fsize - (w + m))"
      proof -
        have "fsize - w = (fsize - (w + m)) + 2048" using more m by linarith
        then show ?thesis by (metis blocks_size_step)
      qed
      have usrc: "unat (src + 2048) = unat src + 2048"
        using less.prems(1,4) bsz by (intro unat_add_u32[of src 2048, simplified]) simp
      define rest where "rest = take (blocks_size (fsize - (w + m))) (drop (unat (src + 2048)) bs)"
      have IH: "extract_loop bs fsize key' (w + m) (src + 2048) out' =
        Some (take (w + m) out' @ take (fsize - (w + m)) (fst (tea_stream key' rest)) @ drop fsize out')"
        unfolding rest_def
        using less.prems bsz usrc out'(1) more by (intro less.hyps) (simp_all add: m)
      have "take (blocks_size (fsize - w)) (drop (unat src) bs) = block @ rest"
        by (simp only: bsz take_add block_def rest_def usrc drop_drop add.commute[of 2048 "unat src"])
      then have stream: "fst (tea_stream key (take (blocks_size (fsize - w)) (drop (unat src) bs))) =
          plain @ fst (tea_stream key' rest)"
        by (simp add: tea_stream_append len_block st split: prod.splits)
      have split: "fsize - w = 2048 + (fsize - (w + m))" using more m by linarith
      have "take (fsize - w) (plain @ fst (tea_stream key' rest)) =
          plain @ take (fsize - (w + m)) (fst (tea_stream key' rest))"
        unfolding split by (simp add: len_plain)
      moreover have "take m plain = plain" using m len_plain by simp
      ultimately show ?thesis
        by (simp only: step IH out'(2,3) stream append_assoc)
    qed
  qed
qed

text \<open>What an entry holds once deciphered: its blocks decrypted as one stream.\<close>

definition file_plain :: "samp_saa_archive \<Rightarrow> samp_saa_file \<Rightarrow> tea_key \<Rightarrow> u8 list" where
  "file_plain a f key = (case data a of None \<Rightarrow> [] | Some bs \<Rightarrow>
     take (unat (size f)) (fst (tea_stream key
       (take (blocks_size (unat (size f))) (drop (unat (data_offset f)) bs)))))"

definition file_key :: "samp_saa_archive \<Rightarrow> samp_saa_file \<Rightarrow> tea_key mem" where
  "file_key a f =
     load_bytes (entries a) (unat (hash f) mod 2032) 16 \<bind> (\<lambda>kb. tea_load_key kb 0)"

lemma file_key_total:
  assumes "length (entries a) = SAMP_SAA_TABLE_BYTES"
  shows "\<exists>key. file_key a f = Some key"
proof -
  have "unat (hash f) mod 2032 + 16 \<le> 2048"
    using mod_less_divisor[of 2032 "unat (hash f)"] by simp
  with assms show ?thesis
    by (simp add: file_key_def load_bytes_def saa_consts del: split_paired_Ex)
      (rule tea_load_key_16, simp)
qed

lemma length_file_plain:
  assumes "archive_wf a" "ready a" "file_wf a f"
  shows "length (file_plain a f key) = unat (size f)"
proof -
  obtain bs where bs: "data a = Some bs" and lay: "layout_wf (layout a) (data_size a)"
    and le: "unat (data_size a) \<le> length bs"
    using assms(1,2) by (auto simp: archive_wf_def)
  have "unat (data_offset f) + blocks_size (unat (size f)) \<le> length bs"
    using lay le assms(3) by (auto simp: layout_wf_def file_wf_def)
  then show ?thesis
    using blocks_size_ge[of "unat (size f)"] by (simp add: file_plain_def bs length_tea_stream)
qed

lemma extract_file_wf:
  assumes wf: "archive_wf a" "ready a" and f: "file_wf a f"
    and out: "unat (size f) \<le> unat osize" "unat osize \<le> length out"
    and addressable: "\<And>bs. data a = Some bs \<Longrightarrow> length bs < 2 ^ 32"
    and key: "file_key a f = Some key"
  shows "samp_saa_extract (Some a) (Some f) (Some out) osize =
    Some (True, Some (file_plain a f key @ drop (unat (size f)) out))"
proof -
  obtain bs where bs: "data a = Some bs" and lay: "layout_wf (layout a) (data_size a)"
    and le: "unat (data_size a) \<le> length bs"
    using wf by (auto simp: archive_wf_def)
  have range: "unat (data_offset f) + blocks_size (unat (size f)) \<le> unat (entry_offset (layout a))"
    and s24: "unat (size f) < 2 ^ 24"
    using f by (simp_all add: file_wf_def)
  have in_bs: "unat (data_offset f) + blocks_size (unat (size f)) \<le> length bs"
    using range lay le by (auto simp: layout_wf_def)
  have g1: "\<not> osize < size f" using out by (simp add: word_less_nat_alt)
  have g2: "\<not> entry_offset (layout a) < data_offset f"
    using range by (simp add: word_less_nat_alt)
  have "unat (entry_offset (layout a) - data_offset f) =
      unat (entry_offset (layout a)) - unat (data_offset f)"
    using g2 by (simp add: unat_sub word_less_nat_alt word_le_nat_alt)
  then have g3: "\<not> entry_offset (layout a) - data_offset f < round_block_size (size f)"
    using range by (simp add: word_less_nat_alt round_size24[OF s24])
  have k: "load_bytes (entries a) (unat (hash f mod 2032)) 16 \<bind> (\<lambda>kb. tea_load_key kb 0) = Some key"
    using key by (simp add: file_key_def unat_mod)
  have "extract_loop bs (unat (size f)) key 0 (data_offset f) out =
      Some (file_plain a f key @ drop (unat (size f)) out)"
    using extract_loop_eq[of "data_offset f" "unat (size f)" 0 bs out key] in_bs out addressable[OF bs]
    by (simp add: file_plain_def bs)
  moreover from k obtain kb where "load_bytes (entries a) (unat (hash f mod 2032)) 16 = Some kb"
    "tea_load_key kb 0 = Some key"
    by (auto simp: bind_Some_iff simp del: split_paired_Ex)
  ultimately show ?thesis
    using g1 g2 g3 wf(2) bs by (simp add: samp_saa_extract_def saa_consts Let_def)
qed

section \<open>Names and paths\<close>


definition ascii_upper :: "char \<Rightarrow> char" where
  "ascii_upper c = (if 0x61 \<le> byte_of_char c \<and> byte_of_char c \<le> 0x7A
     then char_of (unat (byte_of_char c - 0x20)) else c)"

lemma byte_of_char_of: "byte_of_char (char_of (unat b)) = b"
proof -
  have "byte_of_char (char_of (unat b)) = of_nat (unat b mod 256)"
    unfolding byte_of_char_def by (metis of_char_of of_nat_of_char)
  then show ?thesis using unat_u8_lt[of b] by simp
qed

lemma lower_upper: "lower_byte (byte_of_char (ascii_upper c)) = lower_byte (byte_of_char c)"
proof -
  have "0x61 \<le> b \<Longrightarrow> b \<le> 0x7A \<Longrightarrow> lower_byte (b - 0x20) = lower_byte b" for b :: u8
    unfolding lower_byte_def by unat_arith
  then show ?thesis by (auto simp: ascii_upper_def byte_of_char_of)
qed

lemma hash_filename_upper:
  "samp_saa_hash_filename (Some (map ascii_upper s)) = samp_saa_hash_filename (Some s)"
  by (simp add: samp_saa_hash_filename_def o_def lower_upper)

lemma path_base_append:
  "is_path_separator c \<Longrightarrow> \<forall>x\<in>set name. \<not> is_path_separator x \<Longrightarrow>
    path_base (dir @ c # name) = name"
  by (simp add: path_base_def takeWhile_append)

lemma path_base_plain: "\<forall>x\<in>set name. \<not> is_path_separator x \<Longrightarrow> path_base name = name"
  by (simp add: path_base_def takeWhile_eq_all_conv[THEN iffD2])

lemma is_path_separator_upper: "is_path_separator (ascii_upper c) \<Longrightarrow> is_path_separator c"
proof (cases "0x61 \<le> byte_of_char c \<and> byte_of_char c \<le> 0x7A")
  case True
  assume "is_path_separator (ascii_upper c)"
  then have "byte_of_char (ascii_upper c) = 0x5C \<or> byte_of_char (ascii_upper c) = 0x2F"
    by (auto simp: is_path_separator_def byte_of_char_def)
  then have "byte_of_char c - 0x20 = 0x5C \<or> byte_of_char c - 0x20 = 0x2F"
    using True by (simp add: ascii_upper_def byte_of_char_of)
  with True have False by unat_arith
  then show ?thesis ..
qed (simp add: ascii_upper_def)

section \<open>An example archive\<close>

text \<open>
  One file of five bytes, in entry 0, whose previous index is the invalid index 1. The table is the
  encryption of \<open>example_table\<close> under the table key, so that opening the image deciphers it.
\<close>

definition example_table :: "u8 list" where
  "example_table = bytes_of_le32 7 @ bytes_of_le32 0xE933D3E7 @ replicate 2040 0"

definition table_key :: tea_key where
  "table_key = the (tea_load_key kSampSaaTableKeyObfuscated 0xAA)"

definition example_image :: "u8 list" where
  "example_image = replicate 248 0 @ bytes_of_le32 0x00A83413 @ bytes_of_le32 0x20 @
     replicate 2048 0 @ tea_encrypt_stream table_key example_table @ [0]"

definition example_archive :: samp_saa_archive where
  "example_archive = \<lparr>data = Some example_image, data_size = 4353,
     layout = \<lparr>header_size = 256, entry_offset = 2304, signature_offset = 4352,
       signature_size = 1, invalid_index = 1\<rparr>,
     entries = example_table, ready = True\<rparr>"

definition example_file :: samp_saa_file where
  "example_file = \<lparr>hash = 7, size = 5, data_offset = 256, entry_index = 0\<rparr>"

lemma length_example_table: "length example_table = 2048"
  by (simp add: example_table_def)

lemma length_example_image: "length example_image = 4353"
  by (simp add: example_image_def length_tea_encrypt_stream length_example_table)

lemma example_loads:
  "load_le32 example_image 248 = Some 0x00A83413" "load_le32 example_image 252 = Some 0x20"
  by (simp_all add: load_le32_eq length_example_image)
    (simp_all add: example_image_def le32_of_bytes_of_le32_list)

lemma table_key: "tea_load_key kSampSaaTableKeyObfuscated 0xAA = Some table_key"
  using tea_load_key_16[of kSampSaaTableKeyObfuscated "0xAA"]
  by (auto simp: table_key_def kSampSaaTableKeyObfuscated_def simp del: split_paired_Ex)

lemma example_table_decrypted:
  "tea_decrypt (tea_encrypt_stream table_key example_table) 2048 kSampSaaTableKeyObfuscated 0xAA =
     Some example_table"
  using tea_decrypt_with_key_stream[of "tea_encrypt_stream table_key example_table" table_key]
    tea_stream_encrypt[of table_key example_table]
  by (cases "tea_stream table_key (tea_encrypt_stream table_key example_table)")
    (simp add: tea_decrypt_def table_key length_tea_encrypt_stream length_example_table)

lemma example_table_bytes:
  "load_bytes example_image 2304 2048 = Some (tea_encrypt_stream table_key example_table)"
  by (simp add: load_bytes_in_range length_example_image)
    (simp add: example_image_def length_tea_encrypt_stream length_example_table)

lemma example_layout: "layout_of_words 0x00A83433 0x20 4353 = Some (layout example_archive)"
  by (simp add: layout_of_words_def saa_consts example_archive_def)

lemma example_open:
  "samp_saa_open_verified (Some example_image) 4353 True = Some (True, example_archive)"
  using example_layout
  by (simp add: samp_saa_open_verified_def samp_saa_parse_layout_def saa_consts example_loads
      example_archive_def example_table_bytes[simplified] example_table_decrypted[simplified])

lemma example_decode: "decode_entry example_archive 0 = Some (Some (7, 1, 5))"
proof -
  have "drop 4 example_table = bytes_of_le32 0xE933D3E7 @ replicate 2040 0"
    by (simp add: example_table_def)
  then have "load_le32 example_table 0 = Some 7" "load_le32 example_table 4 = Some 0xE933D3E7"
    by (simp_all add: load_le32_eq length_example_table le32_of_bytes_of_le32_list)
      (simp add: example_table_def le32_of_bytes_of_le32_list)
  then show ?thesis
    by (simp add: decode_entry_def example_archive_def saa_consts unobfuscate_u32_def)
qed

lemma example_find: "samp_saa_find (Some example_archive) 7 = Some (Some example_file)"
  using example_decode
  by (simp add: samp_saa_find_def find_entry.simps[of _ _ 0] chain_offset.simps[of _ _ 1]
      saa_consts round_block_size_def example_file_def)
    (simp add: example_archive_def)

section \<open>Properties\<close>

text \<open>C21: Parsing the layout of any buffer of the announced size reads nothing outside it, and an
  accepted layout tiles the buffer: the header, whole 2048-byte blocks, the 2048-byte entry table and a
  signature of 1 to 255 bytes that ends exactly at the end of the data.\<close>

theorem saa_parse_layout_sound:
  assumes "unat dsize \<le> length bs"
  shows "\<exists>r. samp_saa_parse_layout (Some bs) dsize = Some r \<and> (\<forall>lay. r = Some lay \<longrightarrow> layout_wf lay dsize)"
  using parse_layout_no_fault[OF assms] parse_layout_wf by blast

theorem saa_parse_layout_sound_witness:
  "\<exists>r. samp_saa_parse_layout (Some example_image) 4353 = Some r \<and>
     (\<forall>lay. r = Some lay \<longrightarrow> layout_wf lay 4353)"
  by (rule saa_parse_layout_sound) (simp add: length_example_image)

text \<open>C22: Lookup in an opened archive always terminates without a fault, and a file it reports is the
  first entry with that hash, is not empty, and lies with all its blocks between the header and the
  entry table. Its data begins right behind the blocks of the entries before it: the chain of previous entries from its
  own entry on visits no entry twice, ends at the index that stands for none, and holds no empty entry, so a chain that loops is
  refused, as is one that overruns.\<close>

theorem saa_find_sound:
  assumes "archive_wf a"
  shows "\<exists>r. samp_saa_find (Some a) h = Some r \<and>
    (\<forall>f. r = Some f \<longrightarrow> hash f = h \<and> file_wf a f \<and>
      (\<exists>j<SAMP_SAA_ENTRY_COUNT. entry_index f = of_nat j \<and>
        (\<exists>p es. decode_entry a (of_nat j) = Some (Some (h, p, size f)) \<and> p \<noteq> ucast (entry_index f) \<and>
          entry_chain a p es \<and> distinct (map fst es) \<and>
          unat (data_offset f) = unat (header_size (layout a)) + sum_list (map (\<lambda>e. blocks_size (unat (snd e))) es)) \<and>
        (\<forall>k<j. \<exists>h' p' sz'. decode_entry a (of_nat k) = Some (Some (h', p', sz')) \<and> h' \<noteq> h)))"
proof -
  obtain r where "samp_saa_find (Some a) h = Some r"
    using find_total[OF assms] by blast
  with find_Some[OF assms] show ?thesis by blast
qed

theorem saa_find_sound_witness:
  "\<exists>f. samp_saa_find (Some example_archive) 7 = Some (Some f) \<and> hash f = 7 \<and> file_wf example_archive f"
proof -
  have "archive_wf example_archive"
    by (rule open_verified_wf(1)[OF example_open]) (simp add: length_example_image)
  from saa_find_sound[OF this, of 7] example_find show ?thesis by auto
qed

text \<open>Extracting a file found in an opened archive into a buffer that holds it succeeds without any
  access outside a buffer, writes exactly the file's deciphered bytes at the front, and leaves the rest of
  the buffer alone. The block-wise copy loop with its running key equals one decryption of the file's
  blocks as a single stream.\<close>

theorem saa_extract_opened:
  assumes opened: "samp_saa_open_verified (Some bs) dsize True = Some (True, a)"
    and buffer: "unat dsize \<le> length bs" "length bs < 2 ^ 32"
    and found: "samp_saa_find (Some a) h = Some (Some f)"
    and out: "unat (size f) \<le> unat osize" "unat osize \<le> length out"
  shows "\<exists>key. file_key a f = Some key \<and> length (file_plain a f key) = unat (size f) \<and>
    samp_saa_extract (Some a) (Some f) (Some out) osize =
      Some (True, Some (file_plain a f key @ drop (unat (size f)) out))"
proof -
  have wf: "archive_wf a"
    using open_verified_wf(1)[OF opened] buffer by simp
  note f = find_Some[OF wf found]
  have "data a = Some bs"
    using opened by (auto simp: samp_saa_open_verified_def bind_Some_iff split: option.splits)
  moreover from wf f(1) have "length (entries a) = SAMP_SAA_TABLE_BYTES"
    by (auto simp: archive_wf_def)
  ultimately show ?thesis
    using extract_file_wf[OF wf f(1) f(3) out] length_file_plain[OF wf f(1) f(3)] buffer(2)
      file_key_total[of a f]
    by (metis option.inject)
qed

theorem saa_extract_opened_witness:
  "\<exists>key. file_key example_archive example_file = Some key \<and>
    length (file_plain example_archive example_file key) = 5 \<and>
    samp_saa_extract (Some example_archive) (Some example_file) (Some (replicate 8 0)) 8 =
      Some (True, Some (file_plain example_archive example_file key @ replicate 3 0))"
  using saa_extract_opened[OF example_open _ _ example_find, of 8 "replicate 8 0"]
  by (simp add: length_example_image example_file_def)

text \<open>C23: The cipher loop inverts the encryption with the chained key: decrypting the encryption of any
  byte string gives that string back, whatever its length and key.\<close>

theorem tea_decrypt_inverts_encrypt:
  "map_option fst (tea_decrypt_with_key (tea_encrypt_stream key bs) (length bs) key) = Some bs"
  using tea_decrypt_with_key_stream[of "tea_encrypt_stream key bs" key]
  by (simp add: length_tea_encrypt_stream tea_stream_encrypt)

text \<open>The hash of a path depends only on its last component and not on the case of its letters.\<close>

theorem saa_hash_path_base_case:
  assumes "is_path_separator c" and "\<forall>x\<in>set name. \<not> is_path_separator x"
  shows "samp_saa_hash_path (Some (dir @ c # map ascii_upper name)) = samp_saa_hash_path (Some name)"
proof -
  have "\<forall>x\<in>set (map ascii_upper name). \<not> is_path_separator x"
    using assms(2) is_path_separator_upper by auto
  then have "path_base (dir @ c # map ascii_upper name) = map ascii_upper name"
    by (rule path_base_append[OF assms(1)])
  then show ?thesis
    using path_base_plain[OF assms(2)]
    by (simp add: samp_saa_hash_path_def hash_filename_upper Let_def)
qed

theorem saa_hash_path_base_case_witness:
  "samp_saa_hash_path (Some (''data'' @ CHR ''/'' # map ascii_upper ''main.scm'')) =
     samp_saa_hash_path (Some ''main.scm'')"
  by (rule saa_hash_path_base_case) (auto simp: is_path_separator_def)

end
