(* ===== verification/ArchiveFs.thy ===== *)
theory ArchiveFs
  imports Saa
begin

text \<open>
  The virtual file layer of \<^verbatim>\<open>reimpl/src/archive/win32_archive_fs.c\<close>: it verifies \<^verbatim>\<open>samp.saa\<close>, extracts
  the two virtual files, redirects six import slots of the game and then serves opens, reads, seeks and
  closes of fake handles from memory.

  Handles are 32-bit words, 0 is NULL. A hook returns \<open>Forwarded\<close> when the code calls the real API with
  the caller's arguments, and \<open>Answered\<close> with its result otherwise; \<^verbatim>\<open>SetLastError\<close> is the optional
  error code beside it. The real Windows API (files, heap, CryptoAPI, VirtualProtect, the loaded game
  image) is the parameter record \<open>fs_env\<close>. The record lock makes each hook atomic.
\<close>

section \<open>Constants and state\<close>

definition SAMP_ARCHIVE_MAX_BYTES :: u32 where "SAMP_ARCHIVE_MAX_BYTES = 32 * 1024 * 1024"
definition SAMP_ARCHIVE_OPEN_RECORDS :: nat where "SAMP_ARCHIVE_OPEN_RECORDS = 50"
definition SAMP_ARCHIVE_FAKE_HANDLE_BASE :: u32 where "SAMP_ARCHIVE_FAKE_HANDLE_BASE = 0xFF000001"
definition SAMP_ARCHIVE_FAKE_HANDLE_LIMIT :: u32 where "SAMP_ARCHIVE_FAKE_HANDLE_LIMIT = 0xFF000101"
definition SAMP_ARCHIVE_MAIN_HASH :: u32 where "SAMP_ARCHIVE_MAIN_HASH = 0xD83F24DD"
definition SAMP_ARCHIVE_SCRIPT_HASH :: u32 where "SAMP_ARCHIVE_SCRIPT_HASH = 0x11A462D1"

text \<open>Windows SDK constants the code uses.\<close>

definition ERROR_TOO_MANY_OPEN_FILES :: u32 where "ERROR_TOO_MANY_OPEN_FILES = 4"
definition ERROR_HANDLE_EOF :: u32 where "ERROR_HANDLE_EOF = 38"
definition ERROR_INVALID_PARAMETER :: u32 where "ERROR_INVALID_PARAMETER = 87"
definition ERROR_NEGATIVE_SEEK :: u32 where "ERROR_NEGATIVE_SEEK = 131"
definition INVALID_SET_FILE_POINTER :: u32 where "INVALID_SET_FILE_POINTER = 0xFFFFFFFF"
definition FILE_TYPE_DISK :: u32 where "FILE_TYPE_DISK = 1"
definition FILE_BEGIN :: u32 where "FILE_BEGIN = 0"
definition FILE_CURRENT :: u32 where "FILE_CURRENT = 1"
definition FILE_END :: u32 where "FILE_END = 2"

lemmas fs_consts =
  SAMP_ARCHIVE_OPEN_RECORDS_def SAMP_ARCHIVE_FAKE_HANDLE_BASE_def SAMP_ARCHIVE_FAKE_HANDLE_LIMIT_def
  FILE_BEGIN_def FILE_CURRENT_def FILE_END_def

record samp_archive_record =
  r_handle :: u32
  r_data :: "u8 list option"
  r_size :: u32
  r_position :: u32
  r_active :: bool

definition zero_record :: samp_archive_record where
  "zero_record = \<lparr>r_handle = 0, r_data = None, r_size = 0, r_position = 0, r_active = False\<rparr>"

record samp_archive_fs_state =
  archive_data :: "u8 list option"
  archive_size :: u32
  main_data :: "u8 list option"
  main_size :: u32
  script_data :: "u8 list option"
  script_size :: u32
  record_lock_initialized :: bool
  records :: "samp_archive_record list"
  next_fake_handle :: u32
  active :: bool

definition zero_fs :: samp_archive_fs_state where
  "zero_fs = \<lparr>archive_data = None, archive_size = 0, main_data = None, main_size = 0,
     script_data = None, script_size = 0, record_lock_initialized = False,
     records = replicate SAMP_ARCHIVE_OPEN_RECORDS zero_record, next_fake_handle = 0, active = False\<rparr>"

datatype 'a call = Forwarded | Answered 'a "u32 option"

section \<open>Open records\<close>

fun find_record :: "samp_archive_record list \<Rightarrow> u32 \<Rightarrow> nat option" where
  "find_record [] h = None"
| "find_record (r # rs) h =
     (if r_active r \<and> r_handle r = h then Some 0 else map_option Suc (find_record rs h))"

fun find_free_slot :: "samp_archive_record list \<Rightarrow> nat option" where
  "find_free_slot [] = None"
| "find_free_slot (r # rs) = (if \<not> r_active r then Some 0 else map_option Suc (find_free_slot rs))"

definition next_handle :: "u32 \<Rightarrow> u32" where
  "next_handle h =
     (let n = h + 2 in if n \<ge> SAMP_ARCHIVE_FAKE_HANDLE_LIMIT then SAMP_ARCHIVE_FAKE_HANDLE_BASE else n)"

text \<open>The inner loop of \<^verbatim>\<open>allocate_record\<close> with \<open>n\<close> attempts left, for a free \<open>slot\<close>.\<close>

fun allocate_attempts ::
  "nat \<Rightarrow> nat \<Rightarrow> u8 list option \<Rightarrow> u32 \<Rightarrow> samp_archive_fs_state \<Rightarrow> u32 option \<times> samp_archive_fs_state" where
  "allocate_attempts 0 slot dat sz fs = (None, fs)"
| "allocate_attempts (Suc n) slot dat sz fs =
     (let candidate = next_fake_handle fs;
          fs' = fs\<lparr>next_fake_handle := next_handle candidate\<rparr>
      in if find_record (records fs') candidate = None
         then (Some candidate, fs'\<lparr>records := (records fs')[slot :=
                 \<lparr>r_handle = candidate, r_data = dat, r_size = sz, r_position = 0, r_active = True\<rparr>]\<rparr>)
         else allocate_attempts n slot dat sz fs')"

definition allocate_record ::
  "u8 list option \<Rightarrow> u32 \<Rightarrow> samp_archive_fs_state \<Rightarrow> u32 option \<times> samp_archive_fs_state" where
  "allocate_record dat sz fs = (case find_free_slot (records fs) of
     None \<Rightarrow> (None, fs) | Some slot \<Rightarrow> allocate_attempts 128 slot dat sz fs)"

section \<open>The six hooked functions\<close>

definition select_virtual_file ::
  "samp_archive_fs_state \<Rightarrow> string option \<Rightarrow> (u8 list option \<times> u32 \<times> string) option" where
  "select_virtual_file fs path = (case samp_saa_hash_path path of None \<Rightarrow> None | Some h \<Rightarrow>
     if h = SAMP_ARCHIVE_MAIN_HASH then Some (main_data fs, main_size fs, ''main.scm'')
     else if h = SAMP_ARCHIVE_SCRIPT_HASH then Some (script_data fs, script_size fs, ''script.img'')
     else None)"

definition archive_create_file_a ::
  "string option \<Rightarrow> samp_archive_fs_state \<Rightarrow> u32 call \<times> samp_archive_fs_state" where
  "archive_create_file_a file_name fs =
     (case (if active fs then select_virtual_file fs file_name else None) of
        Some (dat, sz, name) \<Rightarrow>
          (case allocate_record dat sz fs of
             (Some handle, fs') \<Rightarrow> (Answered handle None, fs')
           | (None, fs') \<Rightarrow> (Answered 0 (Some ERROR_TOO_MANY_OPEN_FILES), fs'))
      | None \<Rightarrow> (Forwarded, fs))"

text \<open>
  What a read leaves in the caller's memory: the buffer, \<^verbatim>\<open>*bytes_read\<close> and the event it signals.
  \<open>overlapped\<close> is its offset and event handle.
\<close>

record read_result =
  rr_ok :: bool
  rr_buffer :: "u8 list option"
  rr_bytes_read :: "u32 option"
  rr_event :: "u32 option"

text \<open>
  The part of \<^verbatim>\<open>archive_read_file\<close> under the lock, once the record is found and an
  \<^verbatim>\<open>OVERLAPPED\<close> offset is applied: the result, the error code set and the record after the call.
\<close>

definition read_record ::
  "samp_archive_record \<Rightarrow> u8 list option \<Rightarrow> u32 \<Rightarrow> bool \<Rightarrow> u32 option \<Rightarrow>
     (read_result \<times> u32 option \<times> samp_archive_record) mem" where
  "read_record r buffer bytes_to_read wants_count event =
     (let count = (\<lambda>n. if wants_count then Some n else None) in
      if r_position r \<ge> r_size r then
        Some (\<lparr>rr_ok = True, rr_buffer = buffer, rr_bytes_read = count 0, rr_event = event\<rparr>,
              Some ERROR_HANDLE_EOF, r)
      else
        let available = r_size r - r_position r;
            copy_size = (if bytes_to_read < available then bytes_to_read else available);
            eof = (if bytes_to_read \<ge> available then Some ERROR_HANDLE_EOF else None) in
        if copy_size \<noteq> 0 \<and> buffer = None then
          Some (\<lparr>rr_ok = False, rr_buffer = buffer, rr_bytes_read = count 0, rr_event = None\<rparr>,
                Some ERROR_INVALID_PARAMETER, r)
        else if copy_size = 0 then
          Some (\<lparr>rr_ok = True, rr_buffer = buffer, rr_bytes_read = count 0, rr_event = event\<rparr>, eof, r)
        else do {
          src \<leftarrow> r_data r;
          chunk \<leftarrow> load_bytes src (unat (r_position r)) (unat copy_size);
          dst \<leftarrow> buffer;
          dst' \<leftarrow> (if unat copy_size \<le> length dst then Some (splice dst 0 chunk) else None);
          Some (\<lparr>rr_ok = True, rr_buffer = Some dst', rr_bytes_read = count copy_size,
                  rr_event = event\<rparr>, eof, r\<lparr>r_position := r_position r + copy_size\<rparr>)
        })"

definition archive_read_file ::
  "u32 \<Rightarrow> u8 list option \<Rightarrow> u32 \<Rightarrow> bool \<Rightarrow> (u32 \<times> u32) option \<Rightarrow> samp_archive_fs_state \<Rightarrow>
     (read_result call \<times> samp_archive_fs_state) mem" where
  "archive_read_file file buffer bytes_to_read wants_count overlapped fs =
     (if \<not> active fs then Some (Forwarded, fs)
      else case find_record (records fs) file of None \<Rightarrow> Some (Forwarded, fs)
      | Some i \<Rightarrow>
          let r0 = records fs ! i;
              r = (case overlapped of None \<Rightarrow> r0 | Some (off, _) \<Rightarrow> r0\<lparr>r_position := off\<rparr>);
              event = (case overlapped of None \<Rightarrow> None
                       | Some (_, ev) \<Rightarrow> if ev \<noteq> 0 then Some ev else None) in
          map_option (\<lambda>(res, err, r'). (Answered res err, fs\<lparr>records := (records fs)[i := r']\<rparr>))
            (read_record r buffer bytes_to_read wants_count event))"

text \<open>The result and \<^verbatim>\<open>*high_size\<close> when the caller passes a pointer for it.\<close>

definition archive_get_file_size ::
  "u32 \<Rightarrow> bool \<Rightarrow> samp_archive_fs_state \<Rightarrow> (u32 \<times> u32 option) call" where
  "archive_get_file_size file wants_high fs =
     (if \<not> active fs then Forwarded
      else case find_record (records fs) file of None \<Rightarrow> Forwarded
      | Some i \<Rightarrow> Answered (r_size (records fs ! i), if wants_high then Some 0 else None) None)"

definition archive_set_file_pointer ::
  "u32 \<Rightarrow> u32 \<Rightarrow> u32 \<Rightarrow> samp_archive_fs_state \<Rightarrow> u32 call \<times> samp_archive_fs_state" where
  "archive_set_file_pointer file distance move_method fs =
     (if \<not> active fs then (Forwarded, fs)
      else case find_record (records fs) file of None \<Rightarrow> (Forwarded, fs)
      | Some i \<Rightarrow>
          (let r = records fs ! i;
               target = (if move_method = FILE_BEGIN then Some (sint distance)
                         else if move_method = FILE_CURRENT then Some (uint (r_position r) + sint distance)
                         else if move_method = FILE_END then Some (uint (r_size r))
                         else None)
           in case target of
                None \<Rightarrow> (Answered INVALID_SET_FILE_POINTER (Some ERROR_INVALID_PARAMETER), fs)
              | Some next \<Rightarrow>
                  if next < 0 \<or> next > 0xFFFFFFFF
                  then (Answered INVALID_SET_FILE_POINTER (Some ERROR_NEGATIVE_SEEK), fs)
                  else (Answered (of_int next) None,
                        fs\<lparr>records := (records fs)[i := r\<lparr>r_position := of_int next\<rparr>]\<rparr>)))"

definition archive_close_handle ::
  "u32 \<Rightarrow> samp_archive_fs_state \<Rightarrow> bool call \<times> samp_archive_fs_state" where
  "archive_close_handle object fs =
     (if \<not> active fs then (Forwarded, fs)
      else case find_record (records fs) object of None \<Rightarrow> (Forwarded, fs)
      | Some i \<Rightarrow> (Answered True None, fs\<lparr>records := (records fs)[i := zero_record]\<rparr>))"

definition archive_get_file_type :: "u32 \<Rightarrow> samp_archive_fs_state \<Rightarrow> u32 call" where
  "archive_get_file_type file fs =
     (if \<not> active fs then Forwarded
      else if find_record (records fs) file \<noteq> None then Answered FILE_TYPE_DISK None
      else Forwarded)"

section \<open>The handle table\<close>

subsection \<open>Fake handles\<close>

definition fake_handle :: "nat \<Rightarrow> u32" where
  "fake_handle k = SAMP_ARCHIVE_FAKE_HANDLE_BASE + 2 * of_nat k"

lemma unat_fake_handle: "k < 128 \<Longrightarrow> unat (fake_handle k) = 0xFF000001 + 2 * k"
proof -
  assume k: "k < 128"
  have "unat (2 * of_nat k :: u32) = 2 * k"
    using k by (simp add: unat_word_ariths unat_of_nat take_bit_nat_eq_self)
  moreover have "unat (0xFF000001 :: u32) = 0xFF000001" by simp
  ultimately show ?thesis
    using k unat_add_u32[of "0xFF000001" "2 * of_nat k"] by (simp add: fake_handle_def fs_consts)
qed

lemma fake_handle_inj: "i < 128 \<Longrightarrow> j < 128 \<Longrightarrow> fake_handle i = fake_handle j \<longleftrightarrow> i = j"
  using unat_fake_handle[of i] unat_fake_handle[of j] by (metis add_left_cancel mult_left_cancel zero_neq_numeral)

lemma fake_handle_nonzero: "k < 128 \<Longrightarrow> fake_handle k \<noteq> 0"
  using unat_fake_handle[of k] by auto

lemma next_handle_fake: "k < 128 \<Longrightarrow> next_handle (fake_handle k) = fake_handle ((k + 1) mod 128)"
proof -
  assume k: "k < 128"
  have step: "fake_handle k + 2 = fake_handle (k + 1)"
    by (simp add: fake_handle_def algebra_simps)
  show ?thesis
  proof (cases "k + 1 < 128")
    case True
    then have "\<not> fake_handle (k + 1) \<ge> 0xFF000101"
      using unat_fake_handle[of "k + 1"] by (simp add: word_le_nat_alt)
    then show ?thesis using True by (simp add: next_handle_def step fs_consts)
  next
    case False
    then have "k = 127" using k by simp
    then show ?thesis by (simp add: next_handle_def fake_handle_def fs_consts)
  qed
qed

subsection \<open>Lookup and free slots\<close>

lemma find_record_Some:
  "find_record rs h = Some i \<Longrightarrow> i < length rs \<and> r_active (rs ! i) \<and> r_handle (rs ! i) = h"
  by (induction rs arbitrary: i) (auto split: if_splits)

lemma find_record_None: "find_record rs h = None \<longleftrightarrow> (\<forall>r\<in>set rs. \<not> (r_active r \<and> r_handle r = h))"
  by (induction rs) auto

lemma find_free_slot_Some: "find_free_slot rs = Some i \<Longrightarrow> i < length rs \<and> \<not> r_active (rs ! i)"
  by (induction rs arbitrary: i) (auto split: if_splits)

lemma find_free_slot_None: "find_free_slot rs = None \<longleftrightarrow> (\<forall>r\<in>set rs. r_active r)"
  by (induction rs) auto

definition handles_distinct :: "samp_archive_record list \<Rightarrow> bool" where
  "handles_distinct rs \<longleftrightarrow> (\<forall>i<length rs. \<forall>j<length rs. r_active (rs ! i) \<and> r_active (rs ! j) \<and>
     r_handle (rs ! i) = r_handle (rs ! j) \<longrightarrow> i = j)"

lemma find_record_unique:
  assumes "handles_distinct rs" "i < length rs" "r_active (rs ! i)"
  shows "find_record rs (r_handle (rs ! i)) = Some i"
proof (cases "find_record rs (r_handle (rs ! i))")
  case None
  then show ?thesis using assms by (auto simp: find_record_None)
next
  case (Some j)
  with find_record_Some[OF Some] assms show ?thesis by (auto simp: handles_distinct_def)
qed

subsection \<open>The invariant\<close>

definition record_wf :: "samp_archive_record \<Rightarrow> bool" where
  "record_wf r \<longleftrightarrow> r_active r \<longrightarrow>
     (\<exists>k<128. r_handle r = fake_handle k) \<and> (\<exists>bs. r_data r = Some bs \<and> length bs = unat (r_size r))"

definition fs_wf :: "samp_archive_fs_state \<Rightarrow> bool" where
  "fs_wf fs \<longleftrightarrow> length (records fs) = SAMP_ARCHIVE_OPEN_RECORDS \<and>
     (\<exists>k<128. next_fake_handle fs = fake_handle k) \<and>
     (\<forall>r\<in>set (records fs). record_wf r) \<and> handles_distinct (records fs) \<and>
     (active fs \<longrightarrow> (\<exists>bs. main_data fs = Some bs \<and> length bs = unat (main_size fs)) \<and>
        (\<exists>bs. script_data fs = Some bs \<and> length bs = unat (script_size fs)))"

lemma record_wf_inactive [simp]: "\<not> r_active r \<Longrightarrow> record_wf r"
  by (simp add: record_wf_def)

lemma zero_record_inactive [simp]: "\<not> r_active zero_record"
  by (simp add: zero_record_def)

lemma fs_wf_update_record:
  assumes "fs_wf fs" "i < length (records fs)" "record_wf r"
    and "r_active r \<Longrightarrow> r_active (records fs ! i) \<and> r_handle r = r_handle (records fs ! i)"
  shows "fs_wf (fs\<lparr>records := (records fs)[i := r]\<rparr>)"
  using assms
  by (auto simp: fs_wf_def handles_distinct_def nth_list_update
      dest!: set_update_subset_insert[THEN subsetD])

subsection \<open>Allocation\<close>

lemma allocate_attempts_Some:
  assumes "fs_wf fs" "slot < length (records fs)" "\<not> r_active (records fs ! slot)"
    and "dat = Some bs" "length bs = unat sz"
    and "allocate_attempts n slot dat sz fs = (Some h, fs')"
  shows "fs_wf fs' \<and> find_record (records fs) h = None \<and> h \<noteq> 0 \<and>
    records fs' = (records fs)[slot :=
      \<lparr>r_handle = h, r_data = dat, r_size = sz, r_position = 0, r_active = True\<rparr>] \<and>
    active fs' = active fs"
  using assms
proof (induction n arbitrary: fs)
  case 0
  then show ?case by simp
next
  case (Suc n)
  obtain k where k: "k < 128" "next_fake_handle fs = fake_handle k"
    using Suc.prems(1) by (auto simp: fs_wf_def)
  let ?fs1 = "fs\<lparr>next_fake_handle := next_handle (fake_handle k)\<rparr>"
  have wf1: "fs_wf ?fs1"
    using Suc.prems(1) k by (auto simp: fs_wf_def next_handle_fake intro!: exI[of _ "(k + 1) mod 128"])
  show ?case
  proof (cases "find_record (records fs) (fake_handle k) = None")
    case False
    then have "allocate_attempts n slot dat sz ?fs1 = (Some h, fs')"
      using Suc.prems(6) k by (auto simp: Let_def)
    from Suc.IH[OF wf1 _ _ Suc.prems(4,5) this] Suc.prems(2,3) show ?thesis by simp
  next
    case True
    then have h: "h = fake_handle k"
      and fs': "fs' = ?fs1\<lparr>records := (records fs)[slot :=
        \<lparr>r_handle = fake_handle k, r_data = dat, r_size = sz, r_position = 0, r_active = True\<rparr>]\<rparr>"
      using Suc.prems(6) k by (auto simp: Let_def)
    have "handles_distinct (records fs')"
      using Suc.prems(1-3) True
      by (auto simp: fs' fs_wf_def handles_distinct_def nth_list_update find_record_None)
    then have "fs_wf fs'"
      using wf1 Suc.prems(2-5) k
      by (auto simp: fs' fs_wf_def record_wf_def dest!: set_update_subset_insert[THEN subsetD])
    then show ?thesis
      using True k by (simp add: h fs' fake_handle_nonzero)
  qed
qed

text \<open>Pigeonhole: 128 attempts try 128 different handles, and at most 50 are in use.\<close>

lemma allocate_attempts_None:
  assumes "next_fake_handle fs = fake_handle k" "k < 128"
    and "allocate_attempts n slot dat sz fs = (None, fs')"
  shows "\<forall>j<n. find_record (records fs) (fake_handle ((k + j) mod 128)) \<noteq> None"
  using assms
proof (induction n arbitrary: fs k)
  case 0
  then show ?case by simp
next
  case (Suc n)
  let ?fs1 = "fs\<lparr>next_fake_handle := next_handle (fake_handle k)\<rparr>"
  have busy: "find_record (records fs) (fake_handle k) \<noteq> None"
    using Suc.prems by (auto simp: Let_def split: if_splits)
  have "allocate_attempts n slot dat sz ?fs1 = (None, fs')"
    using Suc.prems busy by (simp add: Let_def)
  then have IH: "\<forall>j<n. find_record (records fs) (fake_handle (((k + 1) mod 128 + j) mod 128)) \<noteq> None"
    using Suc.IH[of ?fs1 "(k + 1) mod 128"] Suc.prems(2) by (simp add: next_handle_fake)
  show ?case
  proof (intro allI impI)
    fix j
    assume "j < Suc n"
    show "find_record (records fs) (fake_handle ((k + j) mod 128)) \<noteq> None"
    proof (cases j)
      case 0
      then show ?thesis using busy Suc.prems(2) by simp
    next
      case (Suc i)
      then have "((k + 1) mod 128 + i) mod 128 = (k + j) mod 128"
        by (simp add: mod_add_left_eq)
      then show ?thesis using IH \<open>j < Suc n\<close> Suc by (metis Suc_less_eq)
    qed
  qed
qed

lemma allocate_succeeds:
  assumes wf: "fs_wf fs" and free: "find_free_slot (records fs) = Some slot"
  shows "\<exists>h fs'. allocate_attempts 128 slot dat sz fs = (Some h, fs')"
proof (rule ccontr)
  assume "\<not> ?thesis"
  then obtain fs' where none: "allocate_attempts 128 slot dat sz fs = (None, fs')"
    by (metis not_None_eq surj_pair)
  obtain k where k: "next_fake_handle fs = fake_handle k" "k < 128"
    using wf by (auto simp: fs_wf_def)
  have all: "fake_handle i \<in> r_handle ` set (records fs)" if "i < 128" for i
  proof -
    have "(k + (128 - k + i)) mod 128 = i" using that k(2) by simp
    moreover have "(128 - k + i) mod 128 < 128" by simp
    moreover have "(k + (128 - k + i) mod 128) mod 128 = (k + (128 - k + i)) mod 128"
      by (rule mod_add_right_eq)
    ultimately have "find_record (records fs) (fake_handle i) \<noteq> None"
      using allocate_attempts_None[OF k none] by metis
    then show ?thesis by (metis find_record_None image_eqI)
  qed
  have "card (fake_handle ` {..<128}) = 128"
    by (subst card_image) (auto simp: inj_on_def fake_handle_inj)
  moreover have "fake_handle ` {..<128} \<subseteq> r_handle ` set (records fs)" using all by auto
  ultimately have "128 \<le> card (r_handle ` set (records fs))"
    by (metis card_mono finite_imageI finite_set)
  also have "\<dots> \<le> length (records fs)"
    by (meson card_image_le card_length finite_set le_trans)
  finally show False using wf by (simp add: fs_wf_def fs_consts)
qed

subsection \<open>Every operation keeps the invariant\<close>

lemma record_at:
  assumes "fs_wf fs" "find_record (records fs) h = Some i"
  obtains bs where "i < length (records fs)" "r_active (records fs ! i)" "r_handle (records fs ! i) = h"
    "r_data (records fs ! i) = Some bs" "length bs = unat (r_size (records fs ! i))"
proof -
  from find_record_Some[OF assms(2)] have i: "i < length (records fs)" "r_active (records fs ! i)"
    "r_handle (records fs ! i) = h" by auto
  moreover from i have "record_wf (records fs ! i)" using assms(1) by (auto simp: fs_wf_def)
  ultimately show ?thesis using that by (auto simp: record_wf_def)
qed

lemma record_wf_position [simp]: "record_wf (r\<lparr>r_position := p\<rparr>) = record_wf r"
  by (simp add: record_wf_def)

lemma fs_wf_set_position:
  assumes "fs_wf fs" "find_record (records fs) h = Some i"
  shows "fs_wf (fs\<lparr>records := (records fs)[i := (records fs ! i)\<lparr>r_position := p\<rparr>]\<rparr>)"
proof -
  from find_record_Some[OF assms(2)] assms(1) show ?thesis
    by (intro fs_wf_update_record) (auto simp: fs_wf_def)
qed

lemma create_file_wf [samp_wf]:
  assumes "fs_wf fs"
  shows "fs_wf (snd (archive_create_file_a name fs))"
proof (cases "if active fs then select_virtual_file fs name else None")
  case None
  then show ?thesis using assms by (simp add: archive_create_file_a_def)
next
  case (Some v)
  obtain dat sz n where v: "v = (dat, sz, n)" by (cases v)
  from Some v have act: "active fs" and sel: "select_virtual_file fs name = Some (dat, sz, n)"
    by (auto split: if_splits)
  then have "\<exists>bs. dat = Some bs \<and> length bs = unat sz"
    using assms by (force simp: select_virtual_file_def fs_wf_def split: option.splits if_splits)
  then obtain bs where bs: "dat = Some bs" "length bs = unat sz" by blast
  show ?thesis
  proof (cases "find_free_slot (records fs)")
    case None
    then show ?thesis using assms act sel by (simp add: archive_create_file_a_def allocate_record_def)
  next
    case slot: (Some slot)
    obtain h fs' where al: "allocate_attempts 128 slot dat sz fs = (Some h, fs')"
      using allocate_succeeds[OF assms slot] by blast
    have "fs_wf fs'"
      using allocate_attempts_Some[OF assms _ _ bs al] find_free_slot_Some[OF slot] by blast
    then show ?thesis
      using act sel slot al by (simp add: archive_create_file_a_def allocate_record_def)
  qed
qed

lemma set_file_pointer_wf [samp_wf]:
  "fs_wf fs \<Longrightarrow> fs_wf (snd (archive_set_file_pointer h d m fs))"
  by (auto simp: archive_set_file_pointer_def Let_def fs_wf_set_position split: option.splits)

lemma close_handle_wf [samp_wf]:
  assumes "fs_wf fs"
  shows "fs_wf (snd (archive_close_handle h fs))"
proof (cases "find_record (records fs) h")
  case (Some i)
  then have "i < length (records fs)" using find_record_Some by blast
  then have "fs_wf (fs\<lparr>records := (records fs)[i := zero_record]\<rparr>)"
    using assms by (intro fs_wf_update_record) auto
  then show ?thesis using Some assms by (simp add: archive_close_handle_def)
qed (use assms in \<open>simp add: archive_close_handle_def\<close>)

lemma read_record_position:
  assumes "read_record r buf n w ev = Some (res, err, r')"
  shows "\<exists>p. r' = r\<lparr>r_position := p\<rparr>"
proof -
  define cs where "cs = (if n < r_size r - r_position r then n else r_size r - r_position r)"
  have "r' = r \<or> r' = r\<lparr>r_position := r_position r + cs\<rparr>"
    using assms
    by (auto simp: read_record_def Let_def cs_def[symmetric] bind_Some_iff split: if_splits)
  then show ?thesis
  proof
    assume "r' = r"
    then have "r' = r\<lparr>r_position := r_position r\<rparr>" by simp
    then show ?thesis ..
  next
    assume "r' = r\<lparr>r_position := r_position r + cs\<rparr>"
    then show ?thesis ..
  qed
qed

lemma read_file_position:
  assumes "archive_read_file h buf n w ov fs = Some (res, fs')"
  shows "fs' = fs \<or> (\<exists>i p. find_record (records fs) h = Some i \<and>
    fs' = fs\<lparr>records := (records fs)[i := (records fs ! i)\<lparr>r_position := p\<rparr>]\<rparr>)"
proof (cases "active fs \<and> find_record (records fs) h \<noteq> None")
  case False
  then have "\<not> active fs \<or> find_record (records fs) h = None" by blast
  then have "archive_read_file h buf n w ov fs = Some (Forwarded, fs)"
    by (auto simp: archive_read_file_def)
  then show ?thesis using assms by simp
next
  case True
  then obtain i where i: "find_record (records fs) h = Some i" and act: "active fs" by auto
  with assms obtain off ev e err r' where r': "fs' = fs\<lparr>records := (records fs)[i := r']\<rparr>"
    and rd: "read_record (case ov of None \<Rightarrow> records fs ! i
        | Some (off, _) \<Rightarrow> (records fs ! i)\<lparr>r_position := off\<rparr>) buf n w ev = Some (e, err, r')"
    by (auto simp: archive_read_file_def Let_def)
  from read_record_position[OF rd] obtain p where "r' = (records fs ! i)\<lparr>r_position := p\<rparr>"
    by (auto split: option.splits)
  with r' i show ?thesis by blast
qed

lemma read_file_wf [samp_wf]:
  assumes "fs_wf fs" "archive_read_file h buf n w ov fs = Some (res, fs')"
  shows "fs_wf fs'"
  using read_file_position[OF assms(2)] fs_wf_set_position[OF assms(1)] assms(1) by blast

subsection \<open>Reading\<close>

lemma read_record_live:
  assumes bs: "r_data r = Some bs" "length bs = unat (r_size r)" and dst: "unat n \<le> length dst"
    and chunk: "chunk = take (unat n) (drop (unat (r_position r)) bs)"
  shows "read_record r (Some dst) n w ev = Some
    (\<lparr>rr_ok = True, rr_buffer = Some (splice dst 0 chunk),
       rr_bytes_read = (if w then Some (of_nat (length chunk)) else None), rr_event = ev\<rparr>,
     if length bs - unat (r_position r) \<le> unat n then Some ERROR_HANDLE_EOF else None,
     r\<lparr>r_position := r_position r + of_nat (length chunk)\<rparr>)"
proof (cases "r_position r \<ge> r_size r")
  case True
  then have "chunk = []" using bs(2) by (simp add: chunk word_le_nat_alt)
  with True show ?thesis
    using bs by (simp add: read_record_def Let_def splice_def word_le_nat_alt)
next
  case False
  then have lt: "unat (r_position r) < length bs" by (simp add: bs(2) word_le_nat_alt)
  define av where "av = r_size r - r_position r"
  have av: "unat av = length bs - unat (r_position r)"
    using False by (simp add: av_def bs(2) unat_sub)
  define cs where "cs = (if n < av then n else av)"
  have cs: "unat cs = min (unat n) (length bs - unat (r_position r))"
    by (auto simp: cs_def av[symmetric] word_less_nat_alt)
  have lc: "length chunk = unat cs" using lt by (simp add: chunk cs min.commute)
  have cs_of: "of_nat (length chunk) = cs" by (simp add: lc)
  have le: "(av \<le> n) = (length bs - unat (r_position r) \<le> unat n)"
    by (simp add: word_le_nat_alt av)
  show ?thesis
  proof (cases "cs = 0")
    case True
    then have "chunk = []" using lc by simp
    then show ?thesis
      using False True le
      by (simp add: read_record_def Let_def splice_def av_def[symmetric] cs_def[symmetric])
  next
    case nz: False
    have "take (unat cs) (drop (unat (r_position r)) bs) = chunk"
      using cs lt by (simp add: chunk min_def)
    then have ld: "load_bytes bs (unat (r_position r)) (unat cs) = Some chunk"
      using cs lt by (simp add: load_bytes_def)
    have "unat cs \<le> length dst" using cs dst by simp
    then show ?thesis
      using False nz le ld bs(1)
      by (simp add: read_record_def Let_def av_def[symmetric] cs_def[symmetric] cs_of)
  qed
qed

lemma read_file_live:
  assumes wf: "fs_wf fs" "active fs" and i: "find_record (records fs) h = Some i"
    and r: "r = records fs ! i" "r_data r = Some bs" and dst: "unat n \<le> length dst"
    and chunk: "chunk = take (unat n) (drop (unat (r_position r)) bs)"
  shows "archive_read_file h (Some dst) n w None fs = Some
    (Answered \<lparr>rr_ok = True, rr_buffer = Some (splice dst 0 chunk),
        rr_bytes_read = (if w then Some (of_nat (length chunk)) else None), rr_event = None\<rparr>
       (if length bs - unat (r_position r) \<le> unat n then Some ERROR_HANDLE_EOF else None),
     fs\<lparr>records := (records fs)[i := r\<lparr>r_position := r_position r + of_nat (length chunk)\<rparr>]\<rparr>)"
proof -
  have "length bs = unat (r_size r)"
    using record_at[OF wf(1) i] r by (metis option.inject)
  from read_record_live[OF r(2) this dst chunk, of w None] wf(2) i r(1) show ?thesis
    by (simp add: archive_read_file_def)
qed

section \<open>Import-table hooks\<close>

text \<open>
  The game's import slots are cells of its memory: \<open>iat_mem\<close> maps an address to the pointer stored
  there. \<open>vp\<close> answers the successive \<^verbatim>\<open>VirtualProtect\<close> calls, counted in \<open>vp_calls\<close>; the second call
  of a write, which restores the protection, only affects the trace.
\<close>

record samp_iat_hook =
  h_name :: string
  slot_rva :: u32
  replacement :: u32
  slot :: "u32 option"
  original :: u32
  installed :: bool

record iat_state =
  iat_mem :: "u32 \<Rightarrow> u32"
  iat_hooks :: "samp_iat_hook list"
  vp_calls :: nat

text \<open>\<^verbatim>\<open>g_iat_hooks\<close>: the six slots, in order; \<open>f\<close> gives the addresses of the replacement functions.\<close>

definition g_iat_hooks :: "(string \<Rightarrow> u32) \<Rightarrow> samp_iat_hook list" where
  "g_iat_hooks f = map (\<lambda>(n, rva). \<lparr>h_name = n, slot_rva = rva, replacement = f n, slot = None,
       original = 0, installed = False\<rparr>)
     [(''GetFileSize'', 0x00458074), (''CloseHandle'', 0x00458078), (''SetFilePointer'', 0x00458090),
      (''ReadFile'', 0x00458098), (''CreateFileA'', 0x004580A0), (''GetFileType'', 0x004581B4)]"

definition write_iat_slot ::
  "(nat \<Rightarrow> bool) \<Rightarrow> samp_iat_hook \<Rightarrow> u32 \<Rightarrow> u32 \<Rightarrow> iat_state \<Rightarrow> bool \<times> iat_state" where
  "write_iat_slot vp hook expected repl st = (case slot hook of None \<Rightarrow> (False, st)
     | Some a \<Rightarrow>
         if iat_mem st a \<noteq> expected then (False, st)
         else if \<not> vp (vp_calls st) then (False, st\<lparr>vp_calls := vp_calls st + 1\<rparr>)
         else (True, st\<lparr>iat_mem := (iat_mem st)(a := repl), vp_calls := vp_calls st + 2\<rparr>))"

text \<open>\<open>restore_from vp i\<close> is the loop of \<^verbatim>\<open>restore_iat_hooks\<close> with \<open>i\<close> entries left, last one first.\<close>

fun restore_from :: "(nat \<Rightarrow> bool) \<Rightarrow> nat \<Rightarrow> iat_state \<Rightarrow> iat_state" where
  "restore_from vp 0 st = st"
| "restore_from vp (Suc i) st =
     (let hook = iat_hooks st ! i in
      if installed hook then
        let (_, st') = write_iat_slot vp hook (replacement hook) (original hook) st in
        restore_from vp i (st'\<lparr>iat_hooks := (iat_hooks st')[i := hook\<lparr>installed := False\<rparr>]\<rparr>)
      else restore_from vp i st)"

definition restore_iat_hooks :: "(nat \<Rightarrow> bool) \<Rightarrow> iat_state \<Rightarrow> iat_state" where
  "restore_iat_hooks vp st = restore_from vp (length (iat_hooks st)) st"

text \<open>\<open>install_from vp i n\<close> installs the \<open>n\<close> entries from index \<open>i\<close> on.\<close>

fun install_from :: "(nat \<Rightarrow> bool) \<Rightarrow> nat \<Rightarrow> nat \<Rightarrow> iat_state \<Rightarrow> bool \<times> iat_state" where
  "install_from vp i 0 st = (True, st)"
| "install_from vp i (Suc n) st =
     (let hook = iat_hooks st ! i in
      case write_iat_slot vp hook (original hook) (replacement hook) st of
        (False, st') \<Rightarrow> (False, restore_iat_hooks vp st')
      | (True, st') \<Rightarrow>
          install_from vp (i + 1) n (st'\<lparr>iat_hooks := (iat_hooks st')[i := hook\<lparr>installed := True\<rparr>]\<rparr>))"

definition install_iat_hooks :: "(nat \<Rightarrow> bool) \<Rightarrow> iat_state \<Rightarrow> bool \<times> iat_state" where
  "install_iat_hooks vp st = install_from vp 0 (length (iat_hooks st)) st"

section \<open>Loading and validation\<close>

text \<open>
  An open real file: the two halves of its size, \<open>of_read offset n\<close> for a read of at most \<open>n\<close> bytes at
  the file position \<open>offset\<close> (\<open>None\<close> when \<^verbatim>\<open>ReadFile\<close> fails), and whether closing it succeeds.
\<close>

record os_file =
  of_size_low :: u32
  of_size_high :: u32
  of_read :: "nat \<Rightarrow> nat \<Rightarrow> u8 list option"
  of_close :: bool

record pe_headers =
  e_magic :: u16
  e_lfanew :: u32
  nt_signature :: u32
  nt_machine :: u16
  nt_timestamp :: u32
  nt_characteristics :: u16
  opt_magic :: u16
  opt_entry_point :: u32
  opt_size_of_image :: u32
  opt_checksum :: u32
  opt_dll_characteristics :: u16

record samp_gta_pe_profile =
  p_name :: string
  p_timestamp :: u32
  p_file_characteristics :: u16
  p_dll_characteristics :: u16

text \<open>
  The rest of Windows. \<open>env_verify key content signature\<close> is \<^verbatim>\<open>CryptVerifySignatureA\<close> with its setup
  calls; \<open>env_module\<close> the base address and headers of the running executable; \<open>env_proc\<close> is
  \<^verbatim>\<open>GetProcAddress\<close> on kernel32.
\<close>

record fs_env =
  env_kernel :: bool
  env_open :: "string \<Rightarrow> os_file option"
  env_heap :: "u32 \<Rightarrow> bool"
  env_verify :: "u8 list \<Rightarrow> u8 list \<Rightarrow> u8 list \<Rightarrow> bool"
  env_module :: "(u32 \<times> pe_headers) option"
  env_proc :: "string \<Rightarrow> u32 option"
  env_vp :: "nat \<Rightarrow> bool"

definition hooked_apis :: "string list" where
  "hooked_apis = [''CreateFileA'', ''ReadFile'', ''GetFileSize'', ''SetFilePointer'',
     ''CloseHandle'', ''GetFileType'']"

definition resolve_kernel_apis :: "fs_env \<Rightarrow> bool" where
  "resolve_kernel_apis env \<longleftrightarrow> env_kernel env \<and> (\<forall>f\<in>set hooked_apis. env_proc env f \<noteq> None)"

text \<open>
  The read loop of \<^verbatim>\<open>load_archive\<close>. \<^verbatim>\<open>ReadFile\<close> returns at most the bytes asked for, which is what the
  \<open>take\<close> says.
\<close>

function read_all :: "os_file \<Rightarrow> nat \<Rightarrow> u8 list \<Rightarrow> u8 list option" where
  "read_all f sz acc =
     (if length acc < sz then
        (case of_read f (length acc) (sz - length acc) of
           None \<Rightarrow> None
         | Some chunk \<Rightarrow>
             if chunk = [] then None
             else read_all f sz (acc @ take (sz - length acc) chunk))
      else Some acc)"
  by pat_completeness auto
termination
  by (relation "measure (\<lambda>(f, n, acc). n - length acc)") (auto simp: neq_Nil_conv)

declare read_all.simps [simp del]

text \<open>
  The buffer stays in \<open>archive_data\<close> when a later step fails; its contents are then the zero bytes of
  the model and are never read, since start frees it. \<^verbatim>\<open>archive_size\<close> is set on success only.
\<close>

definition load_archive :: "fs_env \<Rightarrow> string \<Rightarrow> samp_archive_fs_state \<Rightarrow> bool \<times> samp_archive_fs_state" where
  "load_archive env path fs = (case env_open env path of None \<Rightarrow> (False, fs)
     | Some f \<Rightarrow>
         let sz = of_size_low f in
         if of_size_high f \<noteq> 0 \<or> sz = 0 \<or> sz > SAMP_ARCHIVE_MAX_BYTES then (False, fs)
         else if \<not> env_heap env sz then (False, fs)
         else let allocated = fs\<lparr>archive_data := Some (replicate (unat sz) 0)\<rparr> in
           case read_all f (unat sz) [] of
             None \<Rightarrow> (False, allocated)
           | Some bs \<Rightarrow>
               if \<not> of_close f then (False, fs\<lparr>archive_data := Some bs\<rparr>)
               else (True, fs\<lparr>archive_data := Some bs, archive_size := sz\<rparr>))"

definition kPublicKeyObfuscated :: "u8 list" where
  "kPublicKeyObfuscated =
    [0xAC, 0xA8, 0xAA, 0xAA, 0xAA, 0x8E, 0xAA, 0xAA, 0xF8, 0xF9, 0xEB, 0x9B,
     0xAA, 0xAE, 0xAA, 0xAA, 0xAB, 0xAA, 0xAB, 0xAA, 0x45, 0x7F, 0xED, 0xCD,
     0x03, 0x0A, 0x2A, 0x39, 0xF8, 0xC1, 0xCE, 0xB1, 0x9C, 0xC5, 0x86, 0x5A,
     0xA2, 0x1D, 0x0B, 0xBE, 0xE4, 0xF5, 0xF4, 0xA6, 0xE2, 0x44, 0x12, 0x06,
     0xEE, 0x4C, 0xC7, 0x4A, 0x76, 0xB9, 0xEC, 0xEC, 0x70, 0xC6, 0x22, 0x6A,
     0x3C, 0x9F, 0x30, 0x42, 0x15, 0xCB, 0x97, 0x88, 0xA9, 0x09, 0x1A, 0xA2,
     0xE2, 0x0A, 0x70, 0x5D, 0xDF, 0x71, 0x2E, 0x1E, 0xFF, 0x73, 0x13, 0xB1,
     0xE8, 0xE5, 0x93, 0x9F, 0x74, 0xF3, 0x4C, 0xE9, 0x98, 0xA4, 0x38, 0xD7,
     0x03, 0xC5, 0x88, 0x14, 0x8A, 0x59, 0x30, 0x55, 0xEB, 0x21, 0x4F, 0xDB,
     0xB5, 0xFE, 0x11, 0xEA, 0x7A, 0xBB, 0x2C, 0x94, 0x30, 0x9C, 0x7D, 0xD8,
     0x40, 0x29, 0x6D, 0x4E, 0x1E, 0x1D, 0x35, 0xBE, 0xA0, 0x5C, 0x33, 0x79,
     0xEC, 0xAC, 0x4C, 0x2D, 0x8C, 0x7C, 0x03, 0x02, 0xAA, 0x2F, 0x12, 0x33,
     0x03, 0x5E, 0xC6, 0x17]"

definition verify_archive_signature ::
  "fs_env \<Rightarrow> samp_archive_fs_state \<Rightarrow> samp_saa_layout \<Rightarrow> bool mem" where
  "verify_archive_signature env fs lay =
     (if signature_size lay \<noteq> 128 \<or> signature_offset lay < header_size lay \<or>
         signature_offset lay > archive_size fs then Some False
      else do {
        bs \<leftarrow> archive_data fs;
        content \<leftarrow> load_bytes bs (unat (header_size lay)) (unat (signature_offset lay - header_size lay));
        sig \<leftarrow> load_bytes bs (unat (signature_offset lay)) (unat (signature_size lay));
        Some (env_verify env (map (\<lambda>b. b XOR 0xAA) kPublicKeyObfuscated) content sig)
      })"

definition extract_required_file ::
  "fs_env \<Rightarrow> samp_saa_archive \<Rightarrow> u32 \<Rightarrow> (u8 list \<times> u32) option mem" where
  "extract_required_file env archive h = do {
     found \<leftarrow> samp_saa_find (Some archive) h;
     (case found of None \<Rightarrow> Some None
      | Some file \<Rightarrow>
          if size file = 0 then Some None
          else if \<not> env_heap env (size file) then Some None
          else do {
            (ok, out) \<leftarrow> samp_saa_extract (Some archive) (Some file)
                           (Some (replicate (unat (size file)) 0)) (size file);
            (case (ok, out) of (True, Some bs) \<Rightarrow> Some (Some (bs, size file)) | _ \<Rightarrow> Some None)
          })
   }"

definition kGtaPeProfiles :: "samp_gta_pe_profile list" where
  "kGtaPeProfiles =
    [\<lparr>p_name = ''gta_sa_10_us_reference'', p_timestamp = 0x427101CA,
       p_file_characteristics = 0x010F, p_dll_characteristics = 0x0000\<rparr>,
     \<lparr>p_name = ''gta_sa_10_us_laa_nx'', p_timestamp = 0x437101CA,
       p_file_characteristics = 0x012F, p_dll_characteristics = 0x0100\<rparr>]"

text \<open>
  The header checks of \<^verbatim>\<open>validate_gta_and_iat\<close>. \<^verbatim>\<open>sizeof(IMAGE_DOS_HEADER)\<close> is 64 and
  \<^verbatim>\<open>sizeof(IMAGE_NT_HEADERS32)\<close> is 248; \<^verbatim>\<open>e_lfanew\<close> is signed.
\<close>

definition pe_profile_accepted :: "pe_headers \<Rightarrow> bool" where
  "pe_profile_accepted pe \<longleftrightarrow>
     e_magic pe = 0x5A4D \<and> \<not> sint (e_lfanew pe) < 64 \<and> \<not> e_lfanew pe > 0x01177000 - 248 \<and>
     nt_signature pe = 0x00004550 \<and> nt_machine pe = 0x014C \<and> opt_magic pe = 0x010B \<and>
     opt_entry_point pe = 0x00424570 \<and> opt_size_of_image pe = 0x01177000 \<and>
     opt_checksum pe = 0x00DC5BEA \<and>
     find (\<lambda>c. nt_timestamp pe = p_timestamp c \<and> nt_characteristics pe = p_file_characteristics c \<and>
       opt_dll_characteristics pe = p_dll_characteristics c) kGtaPeProfiles \<noteq> None"

text \<open>The loop over the hook table, with the hooks already visited in \<open>done\<close>.\<close>

fun validate_slots ::
  "fs_env \<Rightarrow> u32 \<Rightarrow> (u32 \<Rightarrow> u32) \<Rightarrow> samp_iat_hook list \<Rightarrow> samp_iat_hook list \<Rightarrow> bool \<times> samp_iat_hook list" where
  "validate_slots env base mem visited [] = (True, visited)"
| "validate_slots env base mem visited (hook # rest) =
     (let a = base + slot_rva hook;
          hook' = hook\<lparr>slot := Some a, original := mem a\<rparr>
      in if env_proc env (h_name hook) = None \<or> env_proc env (h_name hook) \<noteq> Some (mem a)
         then (False, visited @ hook' # rest)
         else validate_slots env base mem (visited @ [hook']) rest)"

definition validate_gta_and_iat :: "fs_env \<Rightarrow> iat_state \<Rightarrow> bool \<times> iat_state" where
  "validate_gta_and_iat env st = (case env_module env of None \<Rightarrow> (False, st)
     | Some (base, pe) \<Rightarrow>
         if \<not> pe_profile_accepted pe then (False, st)
         else case validate_slots env base (iat_mem st) [] (iat_hooks st) of
           (ok, hooks) \<Rightarrow> (ok, st\<lparr>iat_hooks := hooks\<rparr>))"

section \<open>Start and stop\<close>

record samp_archive_fs_status =
  st_archive_size :: u32
  st_signature_size :: u32
  st_main_size :: u32
  st_script_size :: u32
  st_signature_verified :: bool
  st_hooks_installed :: bool

definition zero_status :: samp_archive_fs_status where
  "zero_status = \<lparr>st_archive_size = 0, st_signature_size = 0, st_main_size = 0, st_script_size = 0,
     st_signature_verified = False, st_hooks_installed = False\<rparr>"

definition free_archive_data :: "samp_archive_fs_state \<Rightarrow> samp_archive_fs_state" where
  "free_archive_data fs = fs\<lparr>script_data := None, main_data := None, archive_data := None\<rparr>"

definition start_fail ::
  "fs_env \<Rightarrow> samp_archive_fs_state \<Rightarrow> iat_state \<Rightarrow>
     bool \<times> samp_archive_fs_status \<times> samp_archive_fs_state \<times> iat_state" where
  "start_fail env fs st =
     (False, zero_status,
      free_archive_data (fs\<lparr>active := False, record_lock_initialized := False\<rparr>),
      restore_iat_hooks (env_vp env) st)"

definition payload_sane :: "samp_archive_fs_state \<Rightarrow> bool mem" where
  "payload_sane fs =
     (if main_size fs < 3 then Some False
      else do {
        main \<leftarrow> main_data fs;
        m \<leftarrow> load_bytes main 0 3;
        (if m \<noteq> [0x02, 0x00, 0x01] then Some False
         else if script_size fs < 4 then Some False
         else do {
           script \<leftarrow> script_data fs;
           s \<leftarrow> load_bytes script 0 4;
           Some (s = map byte_of_char ''VER2'')
         })
      })"

text \<open>
  \<^verbatim>\<open>samp_archive_fs_win32_start\<close>, in three parts: hooking the import table once the payloads are sane,
  extracting the payloads from the opened archive, and the function itself. The result is the return
  value, \<^verbatim>\<open>*out_status\<close>, the global state and the import table; the label \<^verbatim>\<open>fail\<close> is \<open>start_fail\<close>.
\<close>

definition start_hooks ::
  "fs_env \<Rightarrow> samp_saa_layout \<Rightarrow> samp_archive_fs_state \<Rightarrow> iat_state \<Rightarrow>
     bool \<times> samp_archive_fs_status \<times> samp_archive_fs_state \<times> iat_state" where
  "start_hooks env lay fs st =
     (case validate_gta_and_iat env st of
        (False, st1) \<Rightarrow> start_fail env fs st1
      | (True, st1) \<Rightarrow>
          let fs5 = fs\<lparr>record_lock_initialized := True\<rparr> in
          case install_iat_hooks (env_vp env) st1 of
            (False, st2) \<Rightarrow> start_fail env fs5 st2
          | (True, st2) \<Rightarrow>
              (True,
                \<lparr>st_archive_size = archive_size fs5,
                 st_signature_size = signature_size lay,
                 st_main_size = main_size fs5,
                 st_script_size = script_size fs5,
                 st_signature_verified = True,
                 st_hooks_installed = True\<rparr>,
                fs5\<lparr>active := True\<rparr>, st2))"

definition start_payloads ::
  "fs_env \<Rightarrow> samp_saa_layout \<Rightarrow> samp_saa_archive \<Rightarrow> samp_archive_fs_state \<Rightarrow> iat_state \<Rightarrow>
     (bool \<times> samp_archive_fs_status \<times> samp_archive_fs_state \<times> iat_state) mem" where
  "start_payloads env lay archive fs2 st = do {
     m \<leftarrow> extract_required_file env archive SAMP_ARCHIVE_MAIN_HASH;
     (case m of None \<Rightarrow> Some (start_fail env fs2 st)
      | Some (mbs, msz) \<Rightarrow> do {
          let fs3 = fs2\<lparr>main_data := Some mbs, main_size := msz\<rparr>;
          s \<leftarrow> extract_required_file env archive SAMP_ARCHIVE_SCRIPT_HASH;
          (case s of None \<Rightarrow> Some (start_fail env fs3 st)
           | Some (sbs, ssz) \<Rightarrow> do {
               let fs4 = fs3\<lparr>script_data := Some sbs, script_size := ssz\<rparr>;
               sane \<leftarrow> payload_sane fs4;
               Some (if sane then start_hooks env lay fs4 st else start_fail env fs4 st)
             })
        })
   }"

definition samp_archive_fs_win32_start ::
  "fs_env \<Rightarrow> string option \<Rightarrow> samp_archive_fs_state \<Rightarrow> iat_state \<Rightarrow>
     (bool \<times> samp_archive_fs_status \<times> samp_archive_fs_state \<times> iat_state) mem" where
  "samp_archive_fs_win32_start env archive_path fs0 st =
     (case archive_path of None \<Rightarrow> Some (False, zero_status, fs0, st)
      | Some path \<Rightarrow>
      if path = [] \<or> active fs0 then Some (False, zero_status, fs0, st)
      else
        let fs1 = zero_fs\<lparr>next_fake_handle := SAMP_ARCHIVE_FAKE_HANDLE_BASE\<rparr> in
        if \<not> resolve_kernel_apis env then Some (start_fail env fs1 st)
        else case load_archive env path fs1 of
          (False, fs2) \<Rightarrow> Some (start_fail env fs2 st)
        | (True, fs2) \<Rightarrow> do {
            parsed \<leftarrow> samp_saa_parse_layout (archive_data fs2) (archive_size fs2);
            (case parsed of None \<Rightarrow> Some (start_fail env fs2 st)
             | Some lay \<Rightarrow> do {
                 verified \<leftarrow> verify_archive_signature env fs2 lay;
                 (if \<not> verified then Some (start_fail env fs2 st)
                  else do {
                    (opened, archive) \<leftarrow> samp_saa_open_verified (archive_data fs2) (archive_size fs2) verified;
                    (if \<not> opened then Some (start_fail env fs2 st)
                     else start_payloads env lay archive fs2 st)
                  })
               })
          })"

definition samp_archive_fs_win32_stop ::
  "fs_env \<Rightarrow> samp_archive_fs_state \<Rightarrow> iat_state \<Rightarrow> samp_archive_fs_state \<times> iat_state" where
  "samp_archive_fs_win32_stop env fs st =
     (let st' = restore_iat_hooks (env_vp env) st;
          fs1 = fs\<lparr>active := False\<rparr>;
          fs2 = (if record_lock_initialized fs1
                 then fs1\<lparr>records := replicate SAMP_ARCHIVE_OPEN_RECORDS zero_record,
                          record_lock_initialized := False\<rparr>
                 else fs1);
          fs3 = free_archive_data fs2
      in (zero_fs, st'))"

section \<open>Hook table lemmas\<close>

text \<open>
  \<open>iat_inv m0 st\<close>: every hook knows its slot and the pointer \<open>m0\<close> had there, the slot holds the
  replacement exactly while the hook is installed, and no other cell differs from \<open>m0\<close>.
\<close>

definition hooks_agree :: "(u32 \<Rightarrow> u32) \<Rightarrow> (u32 \<Rightarrow> u32) \<Rightarrow> samp_iat_hook list \<Rightarrow> bool" where
  "hooks_agree m0 mem hs \<longleftrightarrow>
     (\<forall>i<length hs. \<exists>a. slot (hs ! i) = Some a \<and> original (hs ! i) = m0 a \<and>
        mem a = (if installed (hs ! i) then replacement (hs ! i) else original (hs ! i))) \<and>
     (\<forall>i<length hs. \<forall>j<length hs. slot (hs ! i) = slot (hs ! j) \<longrightarrow> i = j) \<and>
     (\<forall>a. (\<forall>i<length hs. slot (hs ! i) \<noteq> Some a) \<longrightarrow> mem a = m0 a)"

definition iat_inv :: "(u32 \<Rightarrow> u32) \<Rightarrow> iat_state \<Rightarrow> bool" where
  "iat_inv m0 st \<longleftrightarrow> hooks_agree m0 (iat_mem st) (iat_hooks st)"

definition none_installed :: "iat_state \<Rightarrow> bool" where
  "none_installed st \<longleftrightarrow> (\<forall>h\<in>set (iat_hooks st). \<not> installed h)"

lemma none_installed_nth:
  "none_installed st \<longleftrightarrow> (\<forall>i<length (iat_hooks st). \<not> installed (iat_hooks st ! i))"
  by (simp add: none_installed_def all_set_conv_all_nth)

lemma iat_inv_clean:
  assumes "iat_inv m0 st" "none_installed st"
  shows "iat_mem st = m0"
proof
  fix a
  show "iat_mem st a = m0 a"
    using assms unfolding iat_inv_def hooks_agree_def none_installed_nth by (metis option.inject)
qed

lemma iat_inv_write:
  assumes inv: "iat_inv m0 st" and i: "i < length (iat_hooks st)" and a: "slot (iat_hooks st ! i) = Some a"
    and v: "v = (if b then replacement (iat_hooks st ! i) else original (iat_hooks st ! i))"
  shows "iat_inv m0 (st\<lparr>iat_mem := (iat_mem st)(a := v), vp_calls := c,
    iat_hooks := (iat_hooks st)[i := (iat_hooks st ! i)\<lparr>installed := b\<rparr>]\<rparr>)"
proof -
  have same: "slot ((iat_hooks st)[i := (iat_hooks st ! i)\<lparr>installed := b\<rparr>] ! j) = slot (iat_hooks st ! j)"
    if "j < length (iat_hooks st)" for j
    using that i by (cases "j = i") auto
  have other: "slot (iat_hooks st ! j) \<noteq> Some a" if "j < length (iat_hooks st)" "j \<noteq> i" for j
    using inv that i a unfolding iat_inv_def hooks_agree_def by metis
  let ?hs = "(iat_hooks st)[i := (iat_hooks st ! i)\<lparr>installed := b\<rparr>]"
  have "\<exists>c. slot (?hs ! j) = Some c \<and> original (?hs ! j) = m0 c \<and>
      ((iat_mem st)(a := v)) c = (if installed (?hs ! j) then replacement (?hs ! j) else original (?hs ! j))"
    if j: "j < length (iat_hooks st)" for j
  proof -
    obtain c where c: "slot (iat_hooks st ! j) = Some c" "original (iat_hooks st ! j) = m0 c"
      "iat_mem st c = (if installed (iat_hooks st ! j) then replacement (iat_hooks st ! j)
         else original (iat_hooks st ! j))"
      using inv j by (auto simp: iat_inv_def hooks_agree_def)
    show ?thesis
    proof (cases "j = i")
      case True
      then show ?thesis using c a v i by simp
    next
      case False
      then have "c \<noteq> a" using other[OF j] c(1) by auto
      then show ?thesis using False c by simp
    qed
  qed
  moreover have "\<forall>j<length (iat_hooks st). \<forall>k<length (iat_hooks st). slot (?hs ! j) = slot (?hs ! k) \<longrightarrow> j = k"
    using inv same by (simp add: iat_inv_def hooks_agree_def)
  moreover have "((iat_mem st)(a := v)) c = m0 c"
    if "\<forall>j<length (iat_hooks st). slot (?hs ! j) \<noteq> Some c" for c
  proof -
    have "\<forall>j<length (iat_hooks st). slot (iat_hooks st ! j) \<noteq> Some c" using that same by simp
    moreover from this have "c \<noteq> a" using i a by blast
    ultimately show ?thesis using inv by (simp add: iat_inv_def hooks_agree_def)
  qed
  ultimately have "hooks_agree m0 ((iat_mem st)(a := v)) ?hs"
    unfolding hooks_agree_def length_list_update by blast
  then show ?thesis by (simp add: iat_inv_def)
qed

lemma restore_from_inv:
  assumes "iat_inv m0 st" "i \<le> length (iat_hooks st)" "\<forall>n\<ge>vp_calls st. vp n"
    and "\<forall>j<length (iat_hooks st). i \<le> j \<longrightarrow> \<not> installed (iat_hooks st ! j)"
  shows "iat_inv m0 (restore_from vp i st) \<and> none_installed (restore_from vp i st)"
  using assms
proof (induction i arbitrary: st)
  case 0
  then show ?case by (simp add: none_installed_nth)
next
  case (Suc i)
  let ?h = "iat_hooks st ! i"
  have i: "i < length (iat_hooks st)" using Suc.prems(2) by simp
  then obtain a where a: "slot ?h = Some a" and m: "iat_mem st a = (if installed ?h then replacement ?h else original ?h)"
    using Suc.prems(1) by (auto simp: iat_inv_def hooks_agree_def)
  show ?case
  proof (cases "installed ?h")
    case False
    then have "\<forall>j<length (iat_hooks st). i \<le> j \<longrightarrow> \<not> installed (iat_hooks st ! j)"
      using Suc.prems(4) by (auto simp: le_less_Suc_eq Suc_le_eq dest: le_neq_implies_less)
    then show ?thesis using Suc False i by simp
  next
    case True
    define st' where "st' = st\<lparr>iat_mem := (iat_mem st)(a := original ?h), vp_calls := vp_calls st + 2,
      iat_hooks := (iat_hooks st)[i := ?h\<lparr>installed := False\<rparr>]\<rparr>"
    have "write_iat_slot vp ?h (replacement ?h) (original ?h) st =
        (True, st\<lparr>iat_mem := (iat_mem st)(a := original ?h), vp_calls := vp_calls st + 2\<rparr>)"
      using True a m Suc.prems(3) by (simp add: write_iat_slot_def)
    then have step: "restore_from vp (Suc i) st = restore_from vp i st'"
      using True by (simp add: st'_def Let_def)
    have "iat_inv m0 st'"
      unfolding st'_def by (rule iat_inv_write[OF Suc.prems(1) i a]) simp
    moreover have "\<forall>j<length (iat_hooks st'). i \<le> j \<longrightarrow> \<not> installed (iat_hooks st' ! j)"
      using Suc.prems(4) i by (auto simp: st'_def nth_list_update)
    ultimately show ?thesis
      unfolding step using Suc.prems i by (intro Suc.IH) (simp_all add: st'_def)
  qed
qed

lemma restore_clean:
  assumes "iat_inv m0 st" "\<forall>n\<ge>vp_calls st. vp n"
  shows "iat_mem (restore_iat_hooks vp st) = m0 \<and> none_installed (restore_iat_hooks vp st)"
proof -
  have "iat_inv m0 (restore_from vp (length (iat_hooks st)) st) \<and>
      none_installed (restore_from vp (length (iat_hooks st)) st)"
    using assms by (intro restore_from_inv) auto
  then show ?thesis
    using iat_inv_clean by (auto simp: restore_iat_hooks_def)
qed

text \<open>Whatever \<open>VirtualProtect\<close> answers, no hook is left marked as installed.\<close>

lemma length_write_iat [simp]: "iat_hooks (snd (write_iat_slot vp h e r st)) = iat_hooks st"
  by (simp add: write_iat_slot_def split: option.split)

lemma restore_from_unmarks:
  assumes "i \<le> length (iat_hooks st)" "\<forall>j<length (iat_hooks st). i \<le> j \<longrightarrow> \<not> installed (iat_hooks st ! j)"
  shows "none_installed (restore_from vp i st)"
  using assms
proof (induction i arbitrary: st)
  case 0
  then show ?case by (simp add: none_installed_nth)
next
  case (Suc i)
  obtain ok st1 where w: "write_iat_slot vp (iat_hooks st ! i) (replacement (iat_hooks st ! i))
      (original (iat_hooks st ! i)) st = (ok, st1)" by force
  have hooks: "iat_hooks st1 = iat_hooks st"
    using length_write_iat[of vp "iat_hooks st ! i" "replacement (iat_hooks st ! i)"
        "original (iat_hooks st ! i)" st] by (simp add: w)
  have rest: "\<forall>j<length (iat_hooks st). Suc i \<le> j \<longrightarrow> \<not> installed (iat_hooks st ! j)"
    using Suc.prems(2) by simp
  show ?case
  proof (cases "installed (iat_hooks st ! i)")
    case True
    then show ?thesis
      using rest Suc.prems(1)
      by (auto simp: w Let_def hooks nth_list_update Suc_le_eq split: if_splits intro!: Suc.IH)
  next
    case False
    then have "\<forall>j<length (iat_hooks st). i \<le> j \<longrightarrow> \<not> installed (iat_hooks st ! j)"
      using rest by (metis le_neq_implies_less Suc_leI)
    then show ?thesis using False Suc.prems(1) Suc.IH by simp
  qed
qed

lemma restore_unmarks: "none_installed (restore_iat_hooks vp st)"
  unfolding restore_iat_hooks_def by (rule restore_from_unmarks) auto

lemma install_from_spec:
  assumes "iat_inv m0 st" "i + n = length (iat_hooks st)"
    and "\<forall>j<length (iat_hooks st). installed (iat_hooks st ! j) \<longleftrightarrow> j < i"
    and "install_from vp i n st = (ok, st')"
    and "\<forall>k. k \<noteq> bad \<longrightarrow> vp k"
  shows "(ok \<longrightarrow> iat_inv m0 st' \<and> (\<forall>h\<in>set (iat_hooks st'). installed h)) \<and>
         (\<not> ok \<longrightarrow> iat_mem st' = m0 \<and> none_installed st')"
  using assms
proof (induction n arbitrary: i st)
  case 0
  then show ?case by (auto simp: all_set_conv_all_nth)
next
  case (Suc n)
  let ?h = "iat_hooks st ! i"
  have i: "i < length (iat_hooks st)" using Suc.prems(2) by simp
  then obtain a where a: "slot ?h = Some a" and m: "iat_mem st a = original ?h"
    using Suc.prems(1,3) by (auto simp: iat_inv_def hooks_agree_def)
  show ?case
  proof (cases "vp (vp_calls st)")
    case False
    let ?st1 = "st\<lparr>vp_calls := vp_calls st + 1\<rparr>"
    have w: "write_iat_slot vp ?h (original ?h) (replacement ?h) st = (False, ?st1)"
      using False a m by (simp add: write_iat_slot_def)
    then have res: "ok = False" "st' = restore_iat_hooks vp ?st1"
      using Suc.prems(4) by (simp_all add: Let_def)
    have "bad = vp_calls st" using False Suc.prems(5) by metis
    then have "\<forall>k\<ge>vp_calls ?st1. vp k" using Suc.prems(5) by auto
    moreover have "iat_inv m0 ?st1" using Suc.prems(1) by (simp add: iat_inv_def)
    ultimately show ?thesis
      using restore_clean[of m0 ?st1 vp] by (simp add: res)
  next
    case True
    define st1 where "st1 = st\<lparr>iat_mem := (iat_mem st)(a := replacement ?h), vp_calls := vp_calls st + 2,
      iat_hooks := (iat_hooks st)[i := ?h\<lparr>installed := True\<rparr>]\<rparr>"
    have "write_iat_slot vp ?h (original ?h) (replacement ?h) st =
        (True, st\<lparr>iat_mem := (iat_mem st)(a := replacement ?h), vp_calls := vp_calls st + 2\<rparr>)"
      using True a m by (simp add: write_iat_slot_def)
    then have "install_from vp (i + 1) n st1 = (ok, st')"
      using Suc.prems(4) by (simp add: st1_def Let_def)
    moreover have "iat_inv m0 st1"
      unfolding st1_def by (rule iat_inv_write[OF Suc.prems(1) i a]) simp
    moreover have "\<forall>j<length (iat_hooks st1). installed (iat_hooks st1 ! j) \<longleftrightarrow> j < i + 1"
      using Suc.prems(3) i by (auto simp: st1_def nth_list_update less_Suc_eq)
    ultimately show ?thesis
      using Suc.IH[of st1 "i + 1"] Suc.prems(2,5) by (simp add: st1_def)
  qed
qed

lemma validate_slots_inv:
  assumes "validate_slots env base mem visited hooks = (True, hooks')"
  shows "\<exists>new. hooks' = visited @ new \<and> length new = length hooks \<and>
    (\<forall>i<length hooks. slot (new ! i) = Some (base + slot_rva (hooks ! i)) \<and>
       original (new ! i) = mem (base + slot_rva (hooks ! i)) \<and>
       installed (new ! i) = installed (hooks ! i) \<and> replacement (new ! i) = replacement (hooks ! i))"
  using assms
proof (induction hooks arbitrary: visited)
  case Nil
  then show ?case by simp
next
  case (Cons h hs)
  let ?h = "h\<lparr>slot := Some (base + slot_rva h), original := mem (base + slot_rva h)\<rparr>"
  have "validate_slots env base mem (visited @ [?h]) hs = (True, hooks')"
    using Cons.prems by (auto simp: Let_def split: if_splits)
  from Cons.IH[OF this] obtain new where new: "hooks' = (visited @ [?h]) @ new" "length new = length hs"
    "\<forall>i<length hs. slot (new ! i) = Some (base + slot_rva (hs ! i)) \<and>
       original (new ! i) = mem (base + slot_rva (hs ! i)) \<and>
       installed (new ! i) = installed (hs ! i) \<and> replacement (new ! i) = replacement (hs ! i)"
    by blast
  then show ?case
    by (intro exI[of _ "?h # new"]) (auto simp: nth_Cons split: nat.splits)
qed

lemma validate_inv:
  assumes "validate_gta_and_iat env st = (True, st')" "none_installed st"
    and "distinct (map slot_rva (iat_hooks st))"
  shows "iat_inv (iat_mem st) st' \<and> iat_mem st' = iat_mem st \<and> none_installed st'"
proof -
  obtain base pe hooks where ok: "validate_slots env base (iat_mem st) [] (iat_hooks st) = (True, hooks)"
    and st': "st' = st\<lparr>iat_hooks := hooks\<rparr>"
    using assms(1) by (auto simp: validate_gta_and_iat_def split: option.splits if_splits prod.splits)
  from validate_slots_inv[OF ok] have new: "length hooks = length (iat_hooks st)"
    "\<forall>i<length hooks. slot (hooks ! i) = Some (base + slot_rva (iat_hooks st ! i)) \<and>
       original (hooks ! i) = iat_mem st (base + slot_rva (iat_hooks st ! i)) \<and>
       installed (hooks ! i) = installed (iat_hooks st ! i) \<and>
       replacement (hooks ! i) = replacement (iat_hooks st ! i)"
    by auto
  have "slot_rva (iat_hooks st ! i) = slot_rva (iat_hooks st ! j) \<longrightarrow> i = j"
    if "i < length hooks" "j < length hooks" for i j
    using assms(3) that new(1) by (simp add: distinct_conv_nth) metis
  then show ?thesis
    using new assms(2) by (simp add: iat_inv_def hooks_agree_def st' none_installed_nth)
qed

section \<open>Start: no faults, and what success means\<close>

lemma read_all_length:
  "read_all f n acc = Some bs \<Longrightarrow> length acc \<le> n \<Longrightarrow> length bs = n"
proof (induction f n acc rule: read_all.induct)
  case (1 f n acc)
  show ?case
  proof (cases "length acc < n")
    case False
    with "1.prems" show ?thesis by (simp add: read_all.simps[of f n acc])
  next
    case True
    with "1.prems"(1) obtain chunk where c: "of_read f (length acc) (n - length acc) = Some chunk" "chunk \<noteq> []"
      and rec: "read_all f n (acc @ take (n - length acc) chunk) = Some bs"
      by (auto simp: read_all.simps[of f n acc] split: option.splits if_splits)
    show ?thesis
      by (rule "1.IH"[OF True c rec]) (use True in simp)
  qed
qed

lemma load_archive_ok:
  assumes "load_archive env path fs = (True, fs')"
  shows "\<exists>bs sz. length bs = unat sz \<and> 0 < unat sz \<and> unat sz \<le> 32 * 1024 * 1024 \<and>
    fs' = fs\<lparr>archive_data := Some bs, archive_size := sz\<rparr>"
proof -
  from assms obtain f bs where f: "env_open env path = Some f"
    and sz: "of_size_low f \<noteq> 0" "of_size_low f \<le> SAMP_ARCHIVE_MAX_BYTES"
    and rd: "read_all f (unat (of_size_low f)) [] = Some bs"
    and fs': "fs' = fs\<lparr>archive_data := Some bs, archive_size := of_size_low f\<rparr>"
    by (auto simp: load_archive_def Let_def not_less split: option.splits if_splits)
  have "length bs = unat (of_size_low f)" using read_all_length[OF rd] by simp
  moreover have "0 < unat (of_size_low f)" using sz(1) by (simp add: unat_gt_0)
  moreover have "unat (of_size_low f) \<le> 32 * 1024 * 1024"
    using sz(2) by (simp add: word_le_nat_alt SAMP_ARCHIVE_MAX_BYTES_def)
  ultimately show ?thesis using fs' by blast
qed

lemma verify_signature_total:
  assumes "layout_wf lay (archive_size fs)" "archive_data fs = Some bs" "length bs = unat (archive_size fs)"
  shows "\<exists>v. verify_archive_signature env fs lay = Some v"
proof -
  have "unat (signature_offset lay - header_size lay) = unat (signature_offset lay) - unat (header_size lay)"
    using assms(1) by (auto simp: layout_wf_def saa_consts unat_sub word_le_nat_alt)
  then show ?thesis
    using assms by (auto simp: verify_archive_signature_def layout_wf_def saa_consts load_bytes_def)
qed

lemma verify_signature_True:
  assumes "verify_archive_signature env fs lay = Some True"
    and "layout_wf lay (archive_size fs)" "archive_data fs = Some bs" "length bs = unat (archive_size fs)"
  shows "signature_size lay = 128 \<and>
    env_verify env (map (\<lambda>b. b XOR 0xAA) kPublicKeyObfuscated)
      (drop 256 (take (unat (signature_offset lay)) bs)) (drop (unat (signature_offset lay)) bs)"
proof -
  have "unat (signature_offset lay - header_size lay) = unat (signature_offset lay) - unat (header_size lay)"
    using assms(2) by (auto simp: layout_wf_def saa_consts unat_sub word_le_nat_alt)
  moreover have "unat (signature_size lay) = length bs - unat (signature_offset lay)"
    using assms(2,4) by (auto simp: layout_wf_def)
  ultimately show ?thesis
    using assms
    by (auto simp: verify_archive_signature_def layout_wf_def saa_consts load_bytes_def drop_take
        split: if_splits)
qed

lemma open_verified_total:
  assumes "unat dsize \<le> length bs"
  shows "\<exists>r. samp_saa_open_verified (Some bs) dsize True = Some r"
proof -
  obtain parsed where p: "samp_saa_parse_layout (Some bs) dsize = Some parsed"
    using parse_layout_no_fault[OF assms] by blast
  show ?thesis
  proof (cases parsed)
    case None
    with p show ?thesis by (simp add: samp_saa_open_verified_def del: split_paired_Ex)
  next
    case (Some lay)
    with p have "layout_wf lay dsize" using parse_layout_wf by blast
    then have "unat (entry_offset lay) + SAMP_SAA_TABLE_BYTES \<le> length bs"
      using assms by (auto simp: layout_wf_def)
    then have len: "length (take 2048 (drop (unat (entry_offset lay)) bs)) = 2048" by (simp add: saa_consts)
    obtain key where "tea_load_key kSampSaaTableKeyObfuscated 0xAA = Some key" using table_key by blast
    then have "\<exists>tab. tea_decrypt (take 2048 (drop (unat (entry_offset lay)) bs)) 2048 kSampSaaTableKeyObfuscated 0xAA = Some tab"
      using tea_decrypt_with_key_stream[of "take 2048 (drop (unat (entry_offset lay)) bs)" key]
      unfolding len by (simp add: tea_decrypt_def split: prod.splits)
    moreover have "load_bytes bs (unat (entry_offset lay)) SAMP_SAA_TABLE_BYTES =
        Some (take 2048 (drop (unat (entry_offset lay)) bs))"
      using \<open>unat (entry_offset lay) + SAMP_SAA_TABLE_BYTES \<le> length bs\<close>
      by (simp add: load_bytes_def saa_consts)
    ultimately show ?thesis
      using p Some by (auto simp: samp_saa_open_verified_def saa_consts simp del: split_paired_Ex)
  qed
qed

lemma extract_required:
  assumes wf: "archive_wf a" "ready a" and bs: "data a = Some bs" "length bs < 2 ^ 32"
  shows "\<exists>r. extract_required_file env a h = Some r \<and>
    (\<forall>out sz. r = Some (out, sz) \<longrightarrow> length out = unat sz \<and>
      (\<exists>f key. samp_saa_find (Some a) h = Some (Some f) \<and> size f = sz \<and>
         file_key a f = Some key \<and> out = file_plain a f key))"
proof -
  obtain r where r: "samp_saa_find (Some a) h = Some r" using find_total[OF wf(1)] by blast
  show ?thesis
  proof (cases r)
    case None
    then show ?thesis by (simp add: extract_required_file_def r)
  next
    case (Some f)
    with r have found: "samp_saa_find (Some a) h = Some (Some f)" by simp
    have fwf: "file_wf a f" using find_Some(3)[OF wf(1) found] .
    have "length (entries a) = SAMP_SAA_TABLE_BYTES" using wf by (auto simp: archive_wf_def)
    then obtain key where key: "file_key a f = Some key" using file_key_total by blast
    have ex: "samp_saa_extract (Some a) (Some f) (Some (replicate (unat (size f)) 0)) (size f) =
        Some (True, Some (file_plain a f key))"
      using extract_file_wf[OF wf fwf _ _ _ key, of "size f" "replicate (unat (size f)) 0"] bs by simp
    show ?thesis
      using length_file_plain[OF wf fwf, of key] key found ex
      by (auto simp: extract_required_file_def simp del: split_paired_Ex split_paired_All)
  qed
qed

lemma payload_sane_total:
  assumes "main_data fs = Some m" "length m = unat (main_size fs)"
    and "script_data fs = Some s" "length s = unat (script_size fs)"
  shows "\<exists>v. payload_sane fs = Some v"
  using assms
  by (auto simp: payload_sane_def load_bytes_def word_less_nat_alt not_less)

lemma zero_fs_wf:
  "fs_wf (zero_fs\<lparr>next_fake_handle := SAMP_ARCHIVE_FAKE_HANDLE_BASE\<rparr>)"
  by (auto simp: fs_wf_def zero_fs_def handles_distinct_def fake_handle_def intro!: exI[of _ 0])


definition payload_of :: "samp_saa_archive \<Rightarrow> u32 \<Rightarrow> u8 list \<Rightarrow> bool" where
  "payload_of a h out \<longleftrightarrow>
     (\<exists>f key. samp_saa_find (Some a) h = Some (Some f) \<and> file_key a f = Some key \<and> out = file_plain a f key)"

definition verified_archive :: "fs_env \<Rightarrow> samp_archive_fs_state \<Rightarrow> samp_saa_archive \<Rightarrow> bool" where
  "verified_archive env fs a \<longleftrightarrow>
     (\<exists>bs lay. archive_data fs = Some bs \<and> length bs = unat (archive_size fs) \<and>
        samp_saa_parse_layout (Some bs) (archive_size fs) = Some (Some lay) \<and>
        env_verify env (map (\<lambda>b. b XOR 0xAA) kPublicKeyObfuscated)
          (drop 256 (take (unat (signature_offset lay)) bs)) (drop (unat (signature_offset lay)) bs) \<and>
        samp_saa_open_verified (Some bs) (archive_size fs) True = Some (True, a))"

definition start_good :: "fs_env \<Rightarrow> samp_archive_fs_state \<Rightarrow> bool" where
  "start_good env fs \<longleftrightarrow>
     fs_wf (fs\<lparr>active := True\<rparr>) \<and>
     (\<exists>a m s. verified_archive env fs a \<and>
        payload_of a SAMP_ARCHIVE_MAIN_HASH m \<and> main_data fs = Some m \<and>
        payload_of a SAMP_ARCHIVE_SCRIPT_HASH s \<and> script_data fs = Some s)"

definition start_outcome :: "fs_env \<Rightarrow> iat_state \<Rightarrow>
  bool \<times> samp_archive_fs_status \<times> samp_archive_fs_state \<times> iat_state \<Rightarrow> bool" where
  "start_outcome env st r \<longleftrightarrow> (case r of (rc, status, fs', st') \<Rightarrow>
     if rc then active fs' \<and> start_good env fs' \<and> (\<exists>st1. validate_gta_and_iat env st = (True, st1) \<and>
         install_iat_hooks (env_vp env) st1 = (True, st'))
     else \<not> active fs' \<and> archive_data fs' = None \<and> main_data fs' = None \<and> script_data fs' = None \<and>
       \<not> record_lock_initialized fs' \<and> status = zero_status \<and> none_installed st' \<and>
       (\<exists>st1. (st1 = st \<or> (\<exists>ok. validate_gta_and_iat env st = (ok, st1)) \<or>
          (\<exists>st0. validate_gta_and_iat env st = (True, st0) \<and>
             install_iat_hooks (env_vp env) st0 = (False, st1))) \<and>
          st' = restore_iat_hooks (env_vp env) st1))"

lemma start_fail_outcome:
  assumes "st1 = st \<or> (\<exists>ok. validate_gta_and_iat env st = (ok, st1)) \<or>
          (\<exists>st0. validate_gta_and_iat env st = (True, st0) \<and>
             install_iat_hooks (env_vp env) st0 = (False, st1))"
  shows "start_outcome env st (start_fail env fs st1)"
  using assms by (auto simp: start_outcome_def start_fail_def free_archive_data_def restore_unmarks)

lemma start_good_flags [simp]:
  "start_good env (fs\<lparr>active := x, record_lock_initialized := y\<rparr>) = start_good env fs"
  "start_good env (fs\<lparr>active := x\<rparr>) = start_good env fs"
  "start_good env (fs\<lparr>record_lock_initialized := y\<rparr>) = start_good env fs"
  by (simp_all add: start_good_def fs_wf_def verified_archive_def)

lemma start_hooks_outcome:
  assumes "start_good env fs"
  shows "start_outcome env st (start_hooks env lay fs st)"
proof (cases "validate_gta_and_iat env st")
  case (Pair ok st1)
  show ?thesis
  proof (cases ok)
    case False
    with Pair show ?thesis by (auto simp: start_hooks_def intro: start_fail_outcome)
  next
    case True
    with Pair have v: "validate_gta_and_iat env st = (True, st1)" by simp
    obtain ok2 st2 where i: "install_iat_hooks (env_vp env) st1 = (ok2, st2)" by fastforce
    show ?thesis
    proof (cases ok2)
      case False
      with v i have "start_outcome env st (start_fail env (fs\<lparr>record_lock_initialized := True\<rparr>) st2)"
        by (intro start_fail_outcome) simp
      with v i False show ?thesis by (simp add: start_hooks_def Let_def)
    next
      case True
      with v i assms show ?thesis by (simp add: start_hooks_def Let_def start_outcome_def)
    qed
  qed
qed

lemma extract_payload:
  assumes ver: "verified_archive env fs a"
  shows "\<exists>r. extract_required_file env a h = Some r \<and>
    (\<forall>out sz. r = Some (out, sz) \<longrightarrow> length out = unat sz \<and> payload_of a h out)"
proof -
  from ver obtain bs where bs: "length bs = unat (archive_size fs)"
    and op: "samp_saa_open_verified (Some bs) (archive_size fs) True = Some (True, a)"
    by (auto simp: verified_archive_def)
  have wf: "archive_wf a" "ready a" using open_verified_wf[OF op] bs by simp_all
  have "data a = Some bs"
    using op by (auto simp: samp_saa_open_verified_def bind_Some_iff split: option.splits)
  then show ?thesis
    using extract_required[OF wf, of bs env h] bs unat_u32_lt[of "archive_size fs"]
    by (simp add: payload_of_def) metis
qed

lemma start_payloads_outcome:
  assumes ver: "verified_archive env fs a"
    and wf: "fs_wf (fs\<lparr>active := False\<rparr>)"
  shows "\<exists>r. start_payloads env lay a fs st = Some r \<and> start_outcome env st r"
proof -
  have fail: "start_outcome env st (start_fail env fs' st)" for fs' by (rule start_fail_outcome) simp
  from extract_payload[OF ver] obtain m where m: "extract_required_file env a SAMP_ARCHIVE_MAIN_HASH = Some m"
    and m_ok: "\<And>out sz. m = Some (out, sz) \<Longrightarrow> length out = unat sz \<and> payload_of a SAMP_ARCHIVE_MAIN_HASH out" by blast
  from extract_payload[OF ver] obtain s where s: "extract_required_file env a SAMP_ARCHIVE_SCRIPT_HASH = Some s"
    and s_ok: "\<And>out sz. s = Some (out, sz) \<Longrightarrow> length out = unat sz \<and> payload_of a SAMP_ARCHIVE_SCRIPT_HASH out" by blast
  show ?thesis
  proof (cases "m = None \<or> s = None")
    case True
    then show ?thesis using fail m s
      by (cases m) (auto simp: start_payloads_def Let_def simp del: split_paired_Ex)
  next
    case False
    then obtain mbs msz sbs ssz where ms: "m = Some (mbs, msz)" "s = Some (sbs, ssz)" by auto
    let ?fs4 = "fs\<lparr>main_data := Some mbs, main_size := msz, script_data := Some sbs, script_size := ssz\<rparr>"
    obtain sane where sane: "payload_sane ?fs4 = Some sane"
      using payload_sane_total[of ?fs4 mbs sbs] m_ok[OF ms(1)] s_ok[OF ms(2)] by auto
    have good: "start_good env ?fs4"
      using ver wf m_ok[OF ms(1)] s_ok[OF ms(2)]
      by (auto simp: start_good_def verified_archive_def fs_wf_def)
    have "start_payloads env lay a fs st = Some (if sane then start_hooks env lay ?fs4 st else start_fail env ?fs4 st)"
      using m s ms sane by (simp add: start_payloads_def Let_def)
    then show ?thesis using fail start_hooks_outcome[OF good] by simp
  qed
qed

lemma start_outcome_some:
  assumes "path \<noteq> []" "\<not> active fs0"
  shows "\<exists>r. samp_archive_fs_win32_start env (Some path) fs0 st = Some r \<and> start_outcome env st r"
proof -
  let ?fs1 = "zero_fs\<lparr>next_fake_handle := SAMP_ARCHIVE_FAKE_HANDLE_BASE\<rparr>"
  note start = samp_archive_fs_win32_start_def[of env "Some path" fs0 st] assms
  have fail: "start_outcome env st (start_fail env fs st)" for fs by (rule start_fail_outcome) simp
  obtain loaded fs2 where ld: "load_archive env path ?fs1 = (loaded, fs2)" by fastforce
  show ?thesis
  proof (cases "resolve_kernel_apis env \<and> loaded")
    case False
    then show ?thesis using start fail ld by (auto simp: Let_def simp del: split_paired_Ex)
  next
    case True
    then have res: "resolve_kernel_apis env" and ok: "load_archive env path ?fs1 = (True, fs2)" using ld by simp_all
    from load_archive_ok[OF ok] obtain bs sz where bs: "length bs = unat sz" "unat sz \<le> 32 * 1024 * 1024"
      and fs2: "fs2 = ?fs1\<lparr>archive_data := Some bs, archive_size := sz\<rparr>" by blast
    note start' = start res ok fail
    obtain parsed where parsed: "samp_saa_parse_layout (Some bs) sz = Some parsed"
      using parse_layout_no_fault[of sz bs] bs(1) by auto
    show ?thesis
    proof (cases parsed)
      case None
      then show ?thesis using start' parsed by (simp add: fs2 del: split_paired_Ex)
    next
      case (Some lay)
      with parsed have lay: "samp_saa_parse_layout (Some bs) sz = Some (Some lay)" by simp
      have lwf: "layout_wf lay sz" by (rule parse_layout_wf[OF lay])
      obtain v where v: "verify_archive_signature env fs2 lay = Some v"
        using verify_signature_total[of lay fs2 bs env] lwf bs(1) by (auto simp: fs2)
      obtain opened a where op: "samp_saa_open_verified (Some bs) sz True = Some (opened, a)"
        using open_verified_total[of sz bs] bs(1) by auto
      show ?thesis
      proof (cases "v \<and> opened")
        case False
        then show ?thesis using start' lay v op by (auto simp: fs2 simp del: split_paired_Ex)
      next
        case True
        have ver: "verified_archive env fs2 a"
          using verify_signature_True[of env fs2 lay bs] v True lwf bs(1) lay op
          by (auto simp: fs2 verified_archive_def)
        have "fs_wf (fs2\<lparr>active := False\<rparr>)" using zero_fs_wf by (simp add: fs2 fs_wf_def zero_fs_def)
        from start_payloads_outcome[OF ver this] show ?thesis
          using start' lay v op True by (simp add: fs2 del: split_paired_Ex)
      qed
    qed
  qed
qed

section \<open>Virtual files as an interface\<close>

text \<open>A schedule of reads on several handles; the result pairs each handle with what it read.\<close>

primrec run_reads ::
  "('h \<Rightarrow> u32 \<Rightarrow> 's \<Rightarrow> u8 list \<times> 's) \<Rightarrow> ('h \<times> u32) list \<Rightarrow> 's \<Rightarrow> ('h \<times> u8 list) list \<times> 's" where
  "run_reads rd [] s = ([], s)"
| "run_reads rd (c # cs) s =
     (let (out, s1) = rd (fst c) (snd c) s; (outs, s2) = run_reads rd cs s1 in ((fst c, out) # outs, s2))"

definition output_of :: "'h \<Rightarrow> ('h \<times> u8 list) list \<Rightarrow> u8 list" where
  "output_of h outs = concat (map snd (filter (\<lambda>o'. fst o' = h) outs))"

definition demand :: "'h \<Rightarrow> ('h \<times> u32) list \<Rightarrow> nat" where
  "demand h cs = sum_list (map (\<lambda>c. unat (snd c)) (filter (\<lambda>c. fst c = h) cs))"

text \<open>
  What a caller of the hooked functions relies on: a handle names a file's contents and a position,
  reading returns the next bytes and moves only that handle's position, closing forgets only that
  handle.
\<close>

locale virtual_files =
  fixes inv :: "'s \<Rightarrow> bool"
    and file_at :: "'s \<Rightarrow> 'h \<Rightarrow> (u8 list \<times> nat) option"
    and rd :: "'h \<Rightarrow> u32 \<Rightarrow> 's \<Rightarrow> u8 list \<times> 's"
    and cl :: "'h \<Rightarrow> 's \<Rightarrow> 's"
  assumes rd_inv: "inv s \<Longrightarrow> file_at s h = Some (bs, p) \<Longrightarrow> inv (snd (rd h n s))"
    and rd_data: "inv s \<Longrightarrow> file_at s h = Some (bs, p) \<Longrightarrow> fst (rd h n s) = take (unat n) (drop p bs)"
    and rd_self: "inv s \<Longrightarrow> file_at s h = Some (bs, p) \<Longrightarrow>
      file_at (snd (rd h n s)) h = Some (bs, p + length (take (unat n) (drop p bs)))"
    and rd_other: "inv s \<Longrightarrow> file_at s h = Some (bs, p) \<Longrightarrow> h' \<noteq> h \<Longrightarrow>
      file_at (snd (rd h n s)) h' = file_at s h'"
    and cl_inv: "inv s \<Longrightarrow> file_at s h = Some (bs, p) \<Longrightarrow> inv (cl h s)"
    and cl_self: "inv s \<Longrightarrow> file_at s h = Some (bs, p) \<Longrightarrow> file_at (cl h s) h = None"
    and cl_other: "inv s \<Longrightarrow> file_at s h = Some (bs, p) \<Longrightarrow> h' \<noteq> h \<Longrightarrow> file_at (cl h s) h' = file_at s h'"
begin

lemma run_output:
  assumes "inv s" "\<forall>c\<in>set cs. file_at s (fst c) \<noteq> None" "file_at s h = Some (bs, p)" "p \<le> length bs"
  shows "output_of h (fst (run_reads rd cs s)) = take (demand h cs) (drop p bs)"
  using assms
proof (induction cs arbitrary: s p)
  case Nil
  then show ?case by (simp add: output_of_def demand_def)
next
  case (Cons c cs)
  obtain g n where c: "c = (g, n)" by (cases c)
  from Cons.prems(2) obtain gb gp where g: "file_at s g = Some (gb, gp)" by (auto simp: c)
  define s1 where "s1 = snd (rd g n s)"
  have inv1: "inv s1" unfolding s1_def by (rule rd_inv[OF Cons.prems(1) g])
  have others: "file_at s1 k = file_at s k" if "k \<noteq> g" for k
    unfolding s1_def by (rule rd_other[OF Cons.prems(1) g that])
  have self: "file_at s1 g = Some (gb, gp + length (take (unat n) (drop gp gb)))"
    unfolding s1_def by (rule rd_self[OF Cons.prems(1) g])
  have live: "\<forall>c\<in>set cs. file_at s1 (fst c) \<noteq> None"
  proof
    fix d assume "d \<in> set cs"
    then show "file_at s1 (fst d) \<noteq> None" using Cons.prems(2) others self by (cases "fst d = g") auto
  qed
  have out: "output_of h (fst (run_reads rd (c # cs) s)) =
      (if g = h then fst (rd g n s) else []) @ output_of h (fst (run_reads rd cs s1))"
    by (simp add: output_of_def c s1_def split: prod.splits)
  show ?case
  proof (cases "g = h")
    case True
    then have gb: "gb = bs" "gp = p" using g Cons.prems(3) by auto
    let ?k = "length (take (unat n) (drop p bs))"
    have "output_of h (fst (run_reads rd cs s1)) = take (demand h cs) (drop (p + ?k) bs)"
      by (rule Cons.IH[OF inv1 live]) (use self gb True Cons.prems(4) in auto)
    moreover have "fst (rd g n s) = take (unat n) (drop p bs)"
      using rd_data[OF Cons.prems(1) g, of n] gb by simp
    ultimately show ?thesis
      unfolding out using True
      by (cases "unat n \<le> length bs - p") (simp_all add: c demand_def take_add add.commute)
  next
    case False
    then have "output_of h (fst (run_reads rd cs s1)) = take (demand h cs) (drop p bs)"
      using Cons.IH[OF inv1 live, of p] others Cons.prems(3,4) by simp
    then show ?thesis unfolding out using False by (simp add: c demand_def)
  qed
qed

end

text \<open>The model's reads as the interface sees them: a buffer of the requested size, no event.\<close>

definition vfile :: "samp_archive_fs_state \<Rightarrow> u32 \<Rightarrow> (u8 list \<times> nat) option" where
  "vfile fs h = (if \<not> active fs then None
     else case find_record (records fs) h of None \<Rightarrow> None
     | Some i \<Rightarrow> map_option (\<lambda>bs. (bs, unat (r_position (records fs ! i)))) (r_data (records fs ! i)))"

definition vread :: "u32 \<Rightarrow> u32 \<Rightarrow> samp_archive_fs_state \<Rightarrow> u8 list \<times> samp_archive_fs_state" where
  "vread h n fs = (case archive_read_file h (Some (replicate (unat n) 0)) n True None fs of
     Some (Answered res e, fs') \<Rightarrow>
       (take (unat (the (rr_bytes_read res))) (the (rr_buffer res)), fs')
   | _ \<Rightarrow> ([], fs))"

definition vclose :: "u32 \<Rightarrow> samp_archive_fs_state \<Rightarrow> samp_archive_fs_state" where
  "vclose h fs = snd (archive_close_handle h fs)"

lemma vfile_Some:
  assumes "fs_wf fs" "vfile fs h = Some (bs, p)"
  obtains i where "active fs" "find_record (records fs) h = Some i" "i < length (records fs)"
    "r_data (records fs ! i) = Some bs" "length bs = unat (r_size (records fs ! i))"
    "p = unat (r_position (records fs ! i))" "r_active (records fs ! i)" "r_handle (records fs ! i) = h"
proof -
  from assms(2) obtain i where i: "active fs" "find_record (records fs) h = Some i"
    "r_data (records fs ! i) = Some bs" "p = unat (r_position (records fs ! i))"
    by (auto simp: vfile_def split: if_splits option.splits)
  then show ?thesis using that record_at[OF assms(1) i(2)] by (metis option.inject)
qed

lemma find_record_same_key:
  assumes "i < length rs" "r_active r = r_active (rs ! i)" "r_handle r = r_handle (rs ! i)"
  shows "find_record (rs[i := r]) h = find_record rs h"
  using assms
proof (induction rs arbitrary: i)
  case (Cons x xs)
  then show ?case by (cases i) simp_all
qed simp

lemma find_record_drop_other:
  assumes "i < length rs" "\<not> r_active r" "r_handle (rs ! i) \<noteq> h"
  shows "find_record (rs[i := r]) h = find_record rs h"
  using assms
proof (induction rs arbitrary: i)
  case (Cons x xs)
  then show ?case by (cases i) auto
qed simp

lemma vread_eq:
  assumes "fs_wf fs" "vfile fs h = Some (bs, p)"
  shows "\<exists>i. find_record (records fs) h = Some i \<and>
    vread h n fs = (take (unat n) (drop p bs),
      fs\<lparr>records := (records fs)[i := (records fs ! i)\<lparr>r_position :=
        r_position (records fs ! i) + of_nat (length (take (unat n) (drop p bs)))\<rparr>]\<rparr>)"
proof -
  obtain i where i: "active fs" "find_record (records fs) h = Some i"
    "r_data (records fs ! i) = Some bs" "p = unat (r_position (records fs ! i))"
    "length bs = unat (r_size (records fs ! i))"
    by (rule vfile_Some[OF assms])
  let ?c = "take (unat n) (drop p bs)"
  have "length ?c < 2 ^ 32" using unat_u32_lt[of n] by simp
  then have "unat (of_nat (length ?c) :: u32) = length ?c" by (simp add: unat_of_nat take_bit_nat_eq_self)
  moreover have "take (length ?c) (splice (replicate (unat n) 0) 0 ?c) = ?c"
    by (simp add: splice_def min_def)
  ultimately show ?thesis
    using read_file_live[OF assms(1) i(1,2) refl i(3), of n "replicate (unat n) 0" ?c True] i
    by (simp add: vread_def)
qed

lemma vread_self:
  assumes "fs_wf fs" "vfile fs h = Some (bs, p)"
  shows "vfile (snd (vread h n fs)) h = Some (bs, p + length (take (unat n) (drop p bs)))"
proof -
  obtain i where i: "active fs" "find_record (records fs) h = Some i" "i < length (records fs)"
    "r_data (records fs ! i) = Some bs" "p = unat (r_position (records fs ! i))"
    "length bs = unat (r_size (records fs ! i))"
    by (rule vfile_Some[OF assms])
  let ?c = "take (unat n) (drop p bs)"
  have "p + length ?c < 2 ^ 32"
    using i(5,6) unat_u32_lt[of "r_size (records fs ! i)"] unat_u32_lt[of "r_position (records fs ! i)"]
    by (cases "p \<le> length bs") auto
  then have "unat (r_position (records fs ! i) + of_nat (length ?c)) = p + length ?c"
    using i(5) by (simp add: unat_word_ariths unat_of_nat)
  then show ?thesis
    using vread_eq[OF assms, of n] i
    by (auto simp: vfile_def find_record_same_key)
qed

lemma vread_other:
  assumes "fs_wf fs" "vfile fs h = Some (bs, p)" "h' \<noteq> h"
  shows "vfile (snd (vread h n fs)) h' = vfile fs h'"
proof -
  obtain i where i: "active fs" "find_record (records fs) h = Some i" "i < length (records fs)"
    "r_handle (records fs ! i) = h"
    by (rule vfile_Some[OF assms(1,2)])
  have "j \<noteq> i" if "find_record (records fs) h' = Some j" for j
    using find_record_Some[OF that] i(4) assms(3) by auto
  then show ?thesis
    using vread_eq[OF assms(1,2), of n] i
    by (auto simp: vfile_def find_record_same_key split: option.split)
qed

lemma vread_inv:
  assumes "fs_wf fs" "vfile fs h = Some (bs, p)"
  shows "fs_wf (snd (vread h n fs))"
proof -
  from vread_eq[OF assms, of n] obtain i where "find_record (records fs) h = Some i"
    "snd (vread h n fs) = fs\<lparr>records := (records fs)[i := (records fs ! i)\<lparr>r_position :=
        r_position (records fs ! i) + of_nat (length (take (unat n) (drop p bs)))\<rparr>]\<rparr>"
    by auto
  then show ?thesis using fs_wf_set_position[OF assms(1)] by simp
qed

lemma vclose_vfile:
  assumes "fs_wf fs" "vfile fs h = Some (bs, p)"
  shows "vfile (vclose h fs) h' = (if h' = h then None else vfile fs h')"
proof -
  obtain i where i: "active fs" "find_record (records fs) h = Some i" "i < length (records fs)"
    "r_handle (records fs ! i) = h" "r_active (records fs ! i)"
    by (rule vfile_Some[OF assms])
  have cl: "vclose h fs = fs\<lparr>records := (records fs)[i := zero_record]\<rparr>"
    using i by (simp add: vclose_def archive_close_handle_def)
  show ?thesis
  proof (cases "h' = h")
    case True
    have "\<not> (r_active r \<and> r_handle r = h)" if "r \<in> set ((records fs)[i := zero_record])" for r
    proof -
      from that obtain j where j: "j < length (records fs)" "r = (records fs)[i := zero_record] ! j"
        by (auto simp: in_set_conv_nth)
      show ?thesis
      proof (cases "j = i")
        case False
        then show ?thesis using j i assms(1) by (auto simp: fs_wf_def handles_distinct_def)
      qed (use j i in simp)
    qed
    then have "find_record ((records fs)[i := zero_record]) h = None" by (simp add: find_record_None)
    then show ?thesis using True i(1) by (simp add: cl vfile_def)
  next
    case False
    have "j \<noteq> i" if "find_record (records fs) h' = Some j" for j
      using find_record_Some[OF that] i(4) False by auto
    then show ?thesis
      using False i by (auto simp: cl vfile_def find_record_drop_other split: option.split)
  qed
qed

interpretation vfs: virtual_files fs_wf vfile vread vclose
proof unfold_locales
  show "fst (vread h n s) = take (unat n) (drop p bs)" if "fs_wf s" "vfile s h = Some (bs, p)" for s h bs p n
    using vread_eq[OF that, of n] by auto
qed (simp_all add: vread_inv vread_self vread_other vclose_vfile close_handle_wf vclose_def[symmetric],
     simp add: vclose_def close_handle_wf)

section \<open>Properties\<close>

lemma restore_id: "none_installed st \<Longrightarrow> i \<le> length (iat_hooks st) \<Longrightarrow> restore_from vp i st = st"
  by (induction i) (simp_all add: none_installed_nth)

lemma validate_slots_installed:
  "validate_slots env base m visited hooks = (ok, hooks') \<Longrightarrow>
    map installed hooks' = map installed (visited @ hooks)"
  by (induction env base m visited hooks arbitrary: ok hooks' rule: validate_slots.induct)
    (auto simp: Let_def split: if_splits)

lemma validate_none_installed:
  assumes "validate_gta_and_iat env st = (ok, st')" "none_installed st"
  shows "none_installed st' \<and> iat_mem st' = iat_mem st"
proof -
  have "\<exists>hs. st' = st\<lparr>iat_hooks := hs\<rparr> \<and> map installed hs = map installed (iat_hooks st)"
    using assms(1)
    by (auto simp: validate_gta_and_iat_def split: option.splits if_splits prod.splits
        dest!: validate_slots_installed intro: exI[of _ "iat_hooks st"])
  then obtain hs where hs: "st' = st\<lparr>iat_hooks := hs\<rparr>" "map installed hs = map installed (iat_hooks st)"
    by blast
  have "\<forall>b\<in>set (map installed (iat_hooks st)). \<not> b" using assms(2) by (auto simp: none_installed_def)
  then have "\<forall>b\<in>set (map installed hs). \<not> b" by (simp only: hs(2))
  then show ?thesis by (auto simp: hs(1) none_installed_def)
qed

lemma start_hooks_restored:
  assumes st: "none_installed st" "distinct (map slot_rva (iat_hooks st))" "\<forall>k. k \<noteq> bad \<longrightarrow> env_vp env k"
    and st1: "(st1 = st \<or> (\<exists>ok. validate_gta_and_iat env st = (ok, st1)) \<or>
          (\<exists>st0. validate_gta_and_iat env st = (True, st0) \<and>
             install_iat_hooks (env_vp env) st0 = (False, st1)))"
  shows "iat_mem (restore_iat_hooks (env_vp env) st1) = iat_mem st"
proof -
  have "none_installed st1 \<and> iat_mem st1 = iat_mem st"
    using st1
  proof (elim disjE exE conjE)
    fix st0 assume v: "validate_gta_and_iat env st = (True, st0)"
      and i: "install_iat_hooks (env_vp env) st0 = (False, st1)"
    note inv = validate_inv[OF v st(1,2)]
    have "\<forall>j<length (iat_hooks st0). installed (iat_hooks st0 ! j) \<longleftrightarrow> j < 0"
      using inv by (simp add: none_installed_nth)
    from install_from_spec[OF _ _ this i[unfolded install_iat_hooks_def] st(3), of "iat_mem st"] inv
    show ?thesis by simp
  qed (use st(1) validate_none_installed in auto)
  then show ?thesis by (simp add: restore_iat_hooks_def restore_id)
qed

lemma start_success_hooks:
  assumes st: "none_installed st" "distinct (map slot_rva (iat_hooks st))" "\<forall>k. k \<noteq> bad \<longrightarrow> env_vp env k"
    and v: "validate_gta_and_iat env st = (True, st0)"
    and i: "install_iat_hooks (env_vp env) st0 = (True, st1)"
  shows "iat_inv (iat_mem st) st1 \<and> (\<forall>h\<in>set (iat_hooks st1). installed h)"
proof -
  note inv = validate_inv[OF v st(1,2)]
  have "\<forall>j<length (iat_hooks st0). installed (iat_hooks st0 ! j) \<longleftrightarrow> j < 0"
    using inv by (simp add: none_installed_nth)
  from install_from_spec[OF _ _ this i[unfolded install_iat_hooks_def] st(3), of "iat_mem st"] inv
  show ?thesis by simp
qed

text \<open>C24: Starting the archive layer never reads or writes outside its buffers, whatever the file and the
  operating system answer. The start is with a path and an inactive layer, no hook of the table is installed and the hooks
  stand for different import slots, and of all calls of \<^verbatim>\<open>VirtualProtect\<close> at most one, whichever it is, fails. When it reports success
  the layer is active, the loaded bytes carry a signature the verifier accepted over exactly the bytes between header and
  signature, both payloads are the archive's deciphered files, and every import slot points to its replacement. When it
  fails, the layer is inactive, the archive, main and script buffers and the record lock are released, the status is zero, no hook is installed
  and the import table is as before, even when that one call of \<^verbatim>\<open>VirtualProtect\<close> failed in the middle.\<close>

theorem archive_fs_start_safe:
  assumes "path \<noteq> []" "\<not> active fs0" "none_installed st" "distinct (map slot_rva (iat_hooks st))"
    and "\<forall>k. k \<noteq> bad \<longrightarrow> env_vp env k"
  shows "\<exists>rc status fs st'.
    samp_archive_fs_win32_start env (Some path) fs0 st = Some (rc, status, fs, st') \<and>
    (if rc then active fs \<and> start_good env fs \<and> (\<forall>h\<in>set (iat_hooks st'). installed h) \<and>
        iat_inv (iat_mem st) st'
     else \<not> active fs \<and> archive_data fs = None \<and> main_data fs = None \<and> script_data fs = None \<and>
        \<not> record_lock_initialized fs \<and> status = zero_status \<and> iat_mem st' = iat_mem st \<and> none_installed st')"
proof -
  obtain rc status fs st' where r: "samp_archive_fs_win32_start env (Some path) fs0 st = Some (rc, status, fs, st')"
    and o: "start_outcome env st (rc, status, fs, st')"
    using start_outcome_some[OF assms(1,2), of env st] by auto
  show ?thesis
  proof (cases rc)
    case True
    with o show ?thesis
      using start_success_hooks[OF assms(3-5)] by (auto simp: r start_outcome_def)
  next
    case False
    with o show ?thesis
      using start_hooks_restored[OF assms(3-5)] by (auto simp: r start_outcome_def)
  qed
qed

text \<open>Stopping undoes starting: whatever a start with a working \<^verbatim>\<open>VirtualProtect\<close> returned, a stop
  afterwards leaves the import table exactly as it was and the layer in its initial state.\<close>

theorem archive_fs_stop_restores:
  assumes "none_installed st" "distinct (map slot_rva (iat_hooks st))" "\<forall>k. env_vp env k"
    and "path \<noteq> []" "\<not> active fs0"
    and "samp_archive_fs_win32_start env (Some path) fs0 st = Some (rc, status, fs, st')"
    and "samp_archive_fs_win32_stop env fs st' = (fs'', st'')"
  shows "fs'' = zero_fs \<and> iat_mem st'' = iat_mem st \<and> none_installed st''"
proof -
  have o: "start_outcome env st (rc, status, fs, st')"
    using start_outcome_some[OF assms(4,5), of env st] assms(6) by auto
  have st'': "st'' = restore_iat_hooks (env_vp env) st'" and fs'': "fs'' = zero_fs"
    using assms(7) by (auto simp: samp_archive_fs_win32_stop_def Let_def)
  have vp: "\<forall>k. k \<noteq> 0 \<longrightarrow> env_vp env k" using assms(3) by simp
  have "iat_mem st'' = iat_mem st"
  proof (cases rc)
    case True
    with o have "iat_inv (iat_mem st) st'"
      using start_success_hooks[OF assms(1,2) vp] by (auto simp: start_outcome_def)
    then show ?thesis using restore_clean assms(3) by (simp add: st'')
  next
    case False
    with o have "none_installed st' \<and> iat_mem st' = iat_mem st"
      using start_hooks_restored[OF assms(1,2) vp] by (auto simp: start_outcome_def)
    then show ?thesis by (simp add: st'' restore_iat_hooks_def restore_id)
  qed
  then show ?thesis by (simp add: fs'' st'' restore_unmarks)
qed

text \<open>C25: Opening one of the two virtual files while a record is free always succeeds: the handle is not
  zero and not in use, it names the payload at position 0, and every other handle is unaffected. The
  128 candidate handles outnumber the 50 records, so the search for an unused one cannot fail.\<close>

theorem archive_open_fresh_handle:
  assumes wf: "fs_wf fs" "active fs" and sel: "select_virtual_file fs path = Some (dat, sz, nm)"
    and free: "find_free_slot (records fs) = Some si"
  shows "\<exists>h fs' bs. archive_create_file_a path fs = (Answered h None, fs') \<and> fs_wf fs' \<and>
    dat = Some bs \<and> h \<noteq> 0 \<and> vfile fs h = None \<and> vfile fs' h = Some (bs, 0) \<and>
    (\<forall>h'. h' \<noteq> h \<longrightarrow> vfile fs' h' = vfile fs h')"
proof -
  have "\<exists>bs. dat = Some bs \<and> length bs = unat sz"
    using wf sel by (force simp: select_virtual_file_def fs_wf_def split: option.splits if_splits)
  then obtain bs where bs: "dat = Some bs" "length bs = unat sz" by blast
  note si = find_free_slot_Some[OF free]
  obtain h fs' where al: "allocate_attempts 128 si dat sz fs = (Some h, fs')"
    using allocate_succeeds[OF wf(1) free] by blast
  let ?r = "\<lparr>r_handle = h, r_data = dat, r_size = sz, r_position = 0, r_active = True\<rparr>"
  have al_ok: "fs_wf fs'" "find_record (records fs) h = None" "h \<noteq> 0"
    "records fs' = (records fs)[si := ?r]" "active fs'"
    using allocate_attempts_Some[OF wf(1) _ _ bs al] si wf(2) by auto
  have "find_record (records fs') h = Some si"
    using find_record_unique[of "records fs'" si] al_ok si by (auto simp: fs_wf_def)
  moreover have "find_record ((records fs')[si := records fs ! si]) k = find_record (records fs') k" if "k \<noteq> h" for k
    using find_record_drop_other[of si "records fs'" "records fs ! si" k] that al_ok si by simp
  then have same: "find_record (records fs) k = find_record (records fs') k" if "k \<noteq> h" for k
    using that al_ok by simp
  moreover have "records fs' ! j = records fs ! j" if "k \<noteq> h" "find_record (records fs') k = Some j" for k j
    using find_record_Some[of "records fs" k j] that same[OF that(1)] si al_ok(4) by (cases "j = si") auto
  moreover have "vfile fs' k = vfile fs k" if "k \<noteq> h" for k
    using calculation(2,3)[of k] that wf(2) al_ok(5) by (auto simp: vfile_def split: option.split)
  ultimately have "vfile fs' h = Some (bs, 0) \<and> (\<forall>h'. h' \<noteq> h \<longrightarrow> vfile fs' h' = vfile fs h')"
    using al_ok bs si by (auto simp: vfile_def)
  then show ?thesis
    using wf(2) sel free al al_ok bs
    by (simp add: archive_create_file_a_def allocate_record_def vfile_def)
qed

text \<open>Reads on different virtual handles do not disturb each other: in any interleaving of reads of
  any sizes, the chunks a handle receives are, in order, exactly the bytes of its file from its position
  on, as many as were asked for or as remain.\<close>

theorem archive_interleaved_reads:
  assumes "fs_wf fs" "\<forall>c\<in>set cs. vfile fs (fst c) \<noteq> None" "vfile fs h = Some (bs, p)" "p \<le> length bs"
  shows "output_of h (fst (run_reads vread cs fs)) = take (demand h cs) (drop p bs)"
  by (rule vfs.run_output[OF assms])

section \<open>An example start\<close>

text \<open>
  An archive with the two required files in one block each, and an operating system that serves it: the
  start succeeds on it.
\<close>

definition boot_table :: "u8 list" where
  "boot_table = bytes_of_le32 SAMP_ARCHIVE_MAIN_HASH @ bytes_of_le32 0xFFFD121E @
     bytes_of_le32 SAMP_ARCHIVE_SCRIPT_HASH @ bytes_of_le32 0xF78B5EC4 @ replicate 2032 0"

definition zero_key :: tea_key where
  "zero_key = the (tea_load_key (replicate 16 0) 0)"

definition boot_main :: "u8 list" where "boot_main = [2, 0, 1]"
definition boot_script :: "u8 list" where "boot_script = map byte_of_char ''VER2''"

definition boot_block :: "u8 list \<Rightarrow> u8 list" where
  "boot_block bs = tea_encrypt_stream zero_key (bs @ replicate (2048 - length bs) 0)"

definition boot_image :: "u8 list" where
  "boot_image = replicate 248 0 @ bytes_of_le32 0x40283473 @ bytes_of_le32 0x40 @
     boot_block boot_main @ boot_block boot_script @
     tea_encrypt_stream table_key boot_table @ replicate 128 0"

definition boot_layout :: samp_saa_layout where
  "boot_layout = \<lparr>header_size = 256, entry_offset = 4352, signature_offset = 6400,
     signature_size = 128, invalid_index = 2\<rparr>"

definition boot_archive :: samp_saa_archive where
  "boot_archive = \<lparr>data = Some boot_image, data_size = 6528, layout = boot_layout,
     entries = boot_table, ready = True\<rparr>"

lemma length_boot_table: "length boot_table = 2048"
  by (simp add: boot_table_def)

lemma length_boot_block: "length bs \<le> 2048 \<Longrightarrow> length (boot_block bs) = 2048"
  by (simp add: boot_block_def length_tea_encrypt_stream)

lemma length_boot_main: "length boot_main = 3" by (simp add: boot_main_def)
lemma length_boot_script: "length boot_script = 4" by (simp add: boot_script_def)

lemma length_boot_image: "length boot_image = 6528"
  by (simp add: boot_image_def length_tea_encrypt_stream length_boot_table length_boot_block
      length_boot_main length_boot_script)

lemma boot_loads:
  "load_le32 boot_image 248 = Some 0x40283473" "load_le32 boot_image 252 = Some 0x40"
  by (simp_all add: load_le32_eq length_boot_image)
    (simp_all add: boot_image_def le32_of_bytes_of_le32_list)

lemma boot_layout_words: "layout_of_words 0x40283433 0x40 6528 = Some boot_layout"
  by (simp add: layout_of_words_def saa_consts boot_layout_def)

lemma boot_parse: "samp_saa_parse_layout (Some boot_image) 6528 = Some (Some boot_layout)"
  using boot_layout_words by (simp add: samp_saa_parse_layout_def saa_consts boot_loads)

lemma boot_table_decrypted:
  "tea_decrypt (tea_encrypt_stream table_key boot_table) 2048 kSampSaaTableKeyObfuscated 0xAA = Some boot_table"
  using tea_decrypt_with_key_stream[of "tea_encrypt_stream table_key boot_table" table_key]
    tea_stream_encrypt[of table_key boot_table]
  by (cases "tea_stream table_key (tea_encrypt_stream table_key boot_table)")
    (simp add: tea_decrypt_def table_key length_tea_encrypt_stream length_boot_table)

lemma boot_drop:
  "drop 256 boot_image = boot_block boot_main @ boot_block boot_script @
     tea_encrypt_stream table_key boot_table @ replicate 128 0"
  "drop 2304 boot_image = boot_block boot_script @ tea_encrypt_stream table_key boot_table @ replicate 128 0"
  "drop 4352 boot_image = tea_encrypt_stream table_key boot_table @ replicate 128 0"
  by (simp_all add: boot_image_def length_boot_block length_boot_main length_boot_script)

lemma boot_open: "samp_saa_open_verified (Some boot_image) 6528 True = Some (True, boot_archive)"
proof -
  have "load_bytes boot_image 4352 2048 = Some (tea_encrypt_stream table_key boot_table)"
    by (simp add: load_bytes_in_range length_boot_image boot_drop length_tea_encrypt_stream length_boot_table)
  then show ?thesis
    using boot_table_decrypted
    by (simp add: samp_saa_open_verified_def boot_parse saa_consts boot_layout_def boot_archive_def)
qed

lemma boot_decode:
  "decode_entry boot_archive 0 = Some (Some (SAMP_ARCHIVE_MAIN_HASH, 2, 3))"
  "decode_entry boot_archive 1 = Some (Some (SAMP_ARCHIVE_SCRIPT_HASH, 0, 4))"
proof -
  have d: "drop 4 boot_table = bytes_of_le32 0xFFFD121E @ bytes_of_le32 SAMP_ARCHIVE_SCRIPT_HASH @
      bytes_of_le32 0xF78B5EC4 @ replicate 2032 0"
    "drop 8 boot_table = bytes_of_le32 SAMP_ARCHIVE_SCRIPT_HASH @ bytes_of_le32 0xF78B5EC4 @ replicate 2032 0"
    "drop 12 boot_table = bytes_of_le32 0xF78B5EC4 @ replicate 2032 0"
    by (simp_all add: boot_table_def)
  have "load_le32 boot_table 0 = Some SAMP_ARCHIVE_MAIN_HASH"
    using le32_of_bytes_of_le32_list by (simp add: load_le32_eq length_boot_table) (simp add: boot_table_def)
  moreover have "load_le32 boot_table 4 = Some 0xFFFD121E" "load_le32 boot_table 8 = Some SAMP_ARCHIVE_SCRIPT_HASH"
    "load_le32 boot_table 12 = Some 0xF78B5EC4"
    by (simp_all add: load_le32_eq length_boot_table d le32_of_bytes_of_le32_list)
  moreover have "\<not> (256 :: u16) \<le> 1" by (simp add: word_le_nat_alt)
  ultimately show "decode_entry boot_archive 0 = Some (Some (SAMP_ARCHIVE_MAIN_HASH, 2, 3))"
    "decode_entry boot_archive 1 = Some (Some (SAMP_ARCHIVE_SCRIPT_HASH, 0, 4))"
    by (simp_all add: decode_entry_def boot_archive_def saa_consts unobfuscate_u32_def
        SAMP_ARCHIVE_MAIN_HASH_def SAMP_ARCHIVE_SCRIPT_HASH_def)
qed

definition boot_main_file :: samp_saa_file where
  "boot_main_file = \<lparr>hash = SAMP_ARCHIVE_MAIN_HASH, size = 3, data_offset = 256, entry_index = 0\<rparr>"

definition boot_script_file :: samp_saa_file where
  "boot_script_file = \<lparr>hash = SAMP_ARCHIVE_SCRIPT_HASH, size = 4, data_offset = 2304, entry_index = 1\<rparr>"

lemma boot_find:
  "samp_saa_find (Some boot_archive) SAMP_ARCHIVE_MAIN_HASH = Some (Some boot_main_file)"
  "samp_saa_find (Some boot_archive) SAMP_ARCHIVE_SCRIPT_HASH = Some (Some boot_script_file)"
proof -
  have ne: "SAMP_ARCHIVE_MAIN_HASH \<noteq> SAMP_ARCHIVE_SCRIPT_HASH"
    by (simp add: SAMP_ARCHIVE_MAIN_HASH_def SAMP_ARCHIVE_SCRIPT_HASH_def)
  have f: "ready boot_archive" "layout boot_archive = boot_layout" by (simp_all add: boot_archive_def)
  show "samp_saa_find (Some boot_archive) SAMP_ARCHIVE_MAIN_HASH = Some (Some boot_main_file)"
    using boot_decode f
    by (simp add: samp_saa_find_def find_entry.simps[of _ _ 0] chain_offset.simps[of _ _ 2]
      saa_consts round_block_size_def boot_main_file_def boot_layout_def)
  show "samp_saa_find (Some boot_archive) SAMP_ARCHIVE_SCRIPT_HASH = Some (Some boot_script_file)"
    using boot_decode f ne
    by (simp add: samp_saa_find_def find_entry.simps[of _ _ 0] find_entry.simps[of _ _ "Suc 0"]
      chain_offset.simps[of _ _ 2] chain_offset.simps[of _ _ 0]
      saa_consts round_block_size_def boot_script_file_def boot_layout_def)
qed

lemma boot_key:
  "file_key boot_archive boot_main_file = Some zero_key"
  "file_key boot_archive boot_script_file = Some zero_key"
proof -
  have z: "tea_load_key (replicate 16 0) 0 = Some zero_key"
    using tea_load_key_16[of "replicate 16 0" 0] by (auto simp: zero_key_def simp del: split_paired_Ex)
  have "load_bytes boot_table 749 16 = Some (replicate 16 0)" "load_bytes boot_table 689 16 = Some (replicate 16 0)"
    by (simp_all add: load_bytes_in_range length_boot_table) (simp_all add: boot_table_def)
  with z show "file_key boot_archive boot_main_file = Some zero_key"
    "file_key boot_archive boot_script_file = Some zero_key"
    by (simp_all add: file_key_def boot_archive_def boot_main_file_def boot_script_file_def
        SAMP_ARCHIVE_MAIN_HASH_def SAMP_ARCHIVE_SCRIPT_HASH_def)
qed

lemma boot_block_plain:
  "length bs \<le> 2048 \<Longrightarrow> take (length bs) (fst (tea_stream zero_key (boot_block bs))) = bs"
  by (simp add: boot_block_def tea_stream_encrypt)

lemma boot_plain:
  "file_plain boot_archive boot_main_file zero_key = boot_main"
  "file_plain boot_archive boot_script_file zero_key = boot_script"
  using boot_block_plain[of boot_main] boot_block_plain[of boot_script]
  by (simp_all add: file_plain_def boot_archive_def boot_main_file_def boot_script_file_def blocks_size_def
      boot_drop length_boot_block length_boot_main length_boot_script)

definition boot_file :: os_file where
  "boot_file = \<lparr>of_size_low = 6528, of_size_high = 0,
     of_read = (\<lambda>off n. Some (take n (drop off boot_image))), of_close = True\<rparr>"

definition boot_pe :: pe_headers where
  "boot_pe = \<lparr>e_magic = 0x5A4D, e_lfanew = 0x80, nt_signature = 0x00004550, nt_machine = 0x014C,
     nt_timestamp = 0x427101CA, nt_characteristics = 0x010F, opt_magic = 0x010B,
     opt_entry_point = 0x00424570, opt_size_of_image = 0x01177000, opt_checksum = 0x00DC5BEA,
     opt_dll_characteristics = 0\<rparr>"

definition boot_env :: fs_env where
  "boot_env = \<lparr>env_kernel = True, env_open = (\<lambda>p. if p = ''samp.saa'' then Some boot_file else None),
     env_heap = (\<lambda>_. True), env_verify = (\<lambda>_ _ _. True), env_module = Some (0x400000, boot_pe),
     env_proc = (\<lambda>n. Some 0x7C800000), env_vp = (\<lambda>_. True)\<rparr>"

definition boot_iat :: iat_state where
  "boot_iat = \<lparr>iat_mem = (\<lambda>_. 0x7C800000), iat_hooks = g_iat_hooks (\<lambda>n. 0x10000000 + of_nat (length n)),
     vp_calls = 0\<rparr>"

lemma boot_load:
  "load_archive boot_env ''samp.saa'' fs = (True, fs\<lparr>archive_data := Some boot_image, archive_size := 6528\<rparr>)"
proof -
  have "read_all boot_file 6528 [] = Some boot_image"
    using length_boot_image
    by (auto simp: read_all.simps[of _ _ "[]"] read_all.simps[of _ _ boot_image] boot_file_def)
  then show ?thesis
    by (simp add: load_archive_def boot_env_def boot_file_def SAMP_ARCHIVE_MAX_BYTES_def)
qed

lemma boot_verify:
  "verify_archive_signature boot_env (fs\<lparr>archive_data := Some boot_image, archive_size := 6528\<rparr>) boot_layout =
     Some True"
  by (simp add: verify_archive_signature_def boot_layout_def boot_env_def load_bytes_in_range length_boot_image)

lemma boot_verified:
  assumes "archive_data fs = Some boot_image" "archive_size fs = 6528"
  shows "verified_archive boot_env fs boot_archive"
  using assms boot_parse boot_open
  by (simp add: verified_archive_def length_boot_image) (simp add: boot_env_def)

lemma boot_extract:
  assumes "archive_data fs = Some boot_image" "archive_size fs = 6528"
  shows "extract_required_file boot_env boot_archive SAMP_ARCHIVE_MAIN_HASH = Some (Some (boot_main, 3))"
    and "extract_required_file boot_env boot_archive SAMP_ARCHIVE_SCRIPT_HASH = Some (Some (boot_script, 4))"
proof -
  have wf: "archive_wf boot_archive" "ready boot_archive" "data boot_archive = Some boot_image"
    using open_verified_wf(1)[OF boot_open] by (simp_all add: length_boot_image boot_archive_def)
  note fs = find_Some(3)[OF wf(1) boot_find(1)] find_Some(3)[OF wf(1) boot_find(2)]
  have sizes: "size boot_main_file = 3" "size boot_script_file = 4"
    by (simp_all add: boot_main_file_def boot_script_file_def)
  have "samp_saa_extract (Some boot_archive) (Some boot_main_file) (Some (replicate 3 0)) 3 =
      Some (True, Some boot_main)"
    using extract_file_wf[OF wf(1,2) fs(1) _ _ _ boot_key(1), of 3 "replicate 3 0"] wf(3)
    by (simp add: boot_plain sizes length_boot_image)
  then show "extract_required_file boot_env boot_archive SAMP_ARCHIVE_MAIN_HASH = Some (Some (boot_main, 3))"
    by (simp add: extract_required_file_def boot_find(1) sizes) (simp add: boot_env_def)
  have "samp_saa_extract (Some boot_archive) (Some boot_script_file) (Some (replicate 4 0)) 4 =
      Some (True, Some boot_script)"
    using extract_file_wf[OF wf(1,2) fs(2) _ _ _ boot_key(2), of 4 "replicate 4 0"] wf(3)
    by (simp add: boot_plain sizes length_boot_image)
  then show "extract_required_file boot_env boot_archive SAMP_ARCHIVE_SCRIPT_HASH = Some (Some (boot_script, 4))"
    by (simp add: extract_required_file_def boot_find(2) sizes) (simp add: boot_env_def)
qed

lemma boot_validate:
  "validate_gta_and_iat boot_env boot_iat = (True, boot_iat\<lparr>iat_hooks :=
     map (\<lambda>h. h\<lparr>slot := Some (0x400000 + slot_rva h), original := 0x7C800000\<rparr>) (iat_hooks boot_iat)\<rparr>)"
proof -
  have "pe_profile_accepted boot_pe"
    by (simp add: pe_profile_accepted_def boot_pe_def kGtaPeProfiles_def)
  then show ?thesis
    by (simp add: validate_gta_and_iat_def boot_env_def boot_iat_def g_iat_hooks_def Let_def)
qed

lemma boot_install:
  "\<exists>st. install_iat_hooks (env_vp boot_env) (boot_iat\<lparr>iat_hooks :=
     map (\<lambda>h. h\<lparr>slot := Some (0x400000 + slot_rva h), original := 0x7C800000\<rparr>) (iat_hooks boot_iat)\<rparr>) =
     (True, st)"
  by (simp add: install_iat_hooks_def boot_iat_def g_iat_hooks_def boot_env_def Let_def write_iat_slot_def)

lemma boot_clean: "none_installed boot_iat" "distinct (map slot_rva (iat_hooks boot_iat))"
    "\<forall>k. k \<noteq> 0 \<longrightarrow> env_vp boot_env k" "\<forall>k. env_vp boot_env k" "\<not> active zero_fs"
  by (simp_all add: none_installed_def boot_iat_def g_iat_hooks_def boot_env_def zero_fs_def)

lemma boot_start:
  "\<exists>status fs st. samp_archive_fs_win32_start boot_env (Some ''samp.saa'') zero_fs boot_iat =
     Some (True, status, fs, st)"
proof -
  obtain st where st: "install_iat_hooks (env_vp boot_env) (boot_iat\<lparr>iat_hooks :=
     map (\<lambda>h. h\<lparr>slot := Some (0x400000 + slot_rva h), original := 0x7C800000\<rparr>) (iat_hooks boot_iat)\<rparr>) =
     (True, st)" using boot_install by blast
  have hooks: "\<exists>status fs' st'. start_hooks boot_env boot_layout fs boot_iat = (True, status, fs', st')" for fs
    using st by (simp add: start_hooks_def boot_validate Let_def)
  have sane: "payload_sane (fs\<lparr>main_data := Some boot_main, main_size := 3, script_data := Some boot_script,
      script_size := 4\<rparr>) = Some True" for fs
    by (simp add: payload_sane_def boot_main_def boot_script_def load_bytes_def)
  have pay: "\<exists>status fs' st'. start_payloads boot_env boot_layout boot_archive fs boot_iat =
      Some (True, status, fs', st')" if "archive_data fs = Some boot_image" "archive_size fs = 6528" for fs
    using boot_extract[OF that] sane hooks by (simp add: start_payloads_def Let_def)
  have res: "resolve_kernel_apis boot_env" by (simp add: resolve_kernel_apis_def boot_env_def)
  show ?thesis
    using pay by (simp add: samp_archive_fs_win32_start_def boot_clean res boot_load boot_parse boot_verify boot_open)
qed

theorem archive_fs_start_safe_witness:
  "\<exists>status fs st'.
    samp_archive_fs_win32_start boot_env (Some ''samp.saa'') zero_fs boot_iat = Some (True, status, fs, st') \<and>
    active fs \<and> start_good boot_env fs \<and> (\<forall>h\<in>set (iat_hooks st'). installed h) \<and>
    iat_inv (iat_mem boot_iat) st'"
  using archive_fs_start_safe[of "''samp.saa''" zero_fs boot_iat 0 boot_env] boot_clean boot_start by auto

theorem archive_fs_stop_restores_witness:
  "\<exists>status fs st'.
    samp_archive_fs_win32_start boot_env (Some ''samp.saa'') zero_fs boot_iat = Some (True, status, fs, st') \<and>
    iat_mem (snd (samp_archive_fs_win32_stop boot_env fs st')) = iat_mem boot_iat"
proof -
  obtain status fs st' where s: "samp_archive_fs_win32_start boot_env (Some ''samp.saa'') zero_fs boot_iat =
      Some (True, status, fs, st')" using boot_start by blast
  from archive_fs_stop_restores[OF boot_clean(1,2,4) _ boot_clean(5) s] show ?thesis
    using s by (cases "samp_archive_fs_win32_stop boot_env fs st'") auto
qed

text \<open>A started layer with both payloads, and one handle open on each.\<close>

definition example_fs :: samp_archive_fs_state where
  "example_fs = zero_fs\<lparr>main_data := Some boot_main, main_size := 3, script_data := Some boot_script,
     script_size := 4, next_fake_handle := SAMP_ARCHIVE_FAKE_HANDLE_BASE, active := True\<rparr>"

definition example_open_fs :: samp_archive_fs_state where
  "example_open_fs = example_fs\<lparr>records :=
     [\<lparr>r_handle = 0xFF000001, r_data = Some boot_main, r_size = 3, r_position = 0, r_active = True\<rparr>,
      \<lparr>r_handle = 0xFF000003, r_data = Some boot_script, r_size = 4, r_position = 1, r_active = True\<rparr>] @
     replicate 48 zero_record, next_fake_handle := 0xFF000005\<rparr>"

lemma example_fs_wf: "fs_wf example_fs"
  using zero_fs_wf by (simp add: fs_wf_def example_fs_def zero_fs_def boot_main_def boot_script_def)

lemma example_fake: "0xFF000001 = fake_handle 0" "0xFF000003 = fake_handle 1" "0xFF000005 = fake_handle 2"
  by (simp_all add: fake_handle_def fs_consts)

lemma example_open_fs_wf: "fs_wf example_open_fs"
proof -
  let ?rs = "records example_open_fs"
  have rs: "?rs ! i = (if i = 0 then \<lparr>r_handle = 0xFF000001, r_data = Some boot_main, r_size = 3, r_position = 0, r_active = True\<rparr>
      else if i = 1 then \<lparr>r_handle = 0xFF000003, r_data = Some boot_script, r_size = 4, r_position = 1, r_active = True\<rparr>
      else zero_record)" if "i < 50" for i
    using that by (auto simp: example_open_fs_def nth_Cons nth_append split: nat.split)
  have len: "length ?rs = 50" by (simp add: example_open_fs_def)
  have "handles_distinct ?rs"
    unfolding handles_distinct_def len by (auto simp: rs split: if_splits)
  moreover have "\<exists>k<128. (0xFF000001 :: u32) = fake_handle k" "\<exists>k<128. (0xFF000003 :: u32) = fake_handle k"
    using example_fake(1,2) by (metis zero_less_numeral, metis one_less_numeral_iff semiring_norm(76))
  then have "\<forall>r\<in>set ?rs. record_wf r"
    unfolding example_open_fs_def
    by (auto simp: record_wf_def boot_main_def boot_script_def zero_record_def)
  moreover have "\<exists>k<128. (0xFF000005 :: u32) = fake_handle k"
    by (intro exI[of _ 2]) (simp add: example_fake(3))
  ultimately show ?thesis
    using example_fs_wf len by (simp add: fs_wf_def fs_consts) (simp add: example_open_fs_def)
qed

lemma example_vfile:
  "vfile example_open_fs 0xFF000001 = Some (boot_main, 0)"
  "vfile example_open_fs 0xFF000003 = Some (boot_script, 1)"
  by (simp_all add: vfile_def example_open_fs_def example_fs_def)

lemma main_scm_hash: "hash_bytes [109,97,105,110,46,115,99,109] = 0xD83F24DD"
  apply (simp add: hash_bytes_def hash_blocks.simps[of "[109,97,105,110,46,115,99,109]"] hash_tail_def
     tail_byte_def saa_consts)
  apply (simp add: hash_mix_def hash_mix_stage_def)
  done

lemma example_select:
  "select_virtual_file example_fs (Some ''C:/gta/MAIN.SCM'') = Some (Some boot_main, 3, ''main.scm'')"
proof -
  have "path_base ''C:/gta/MAIN.SCM'' = ''MAIN.SCM''"
    by (simp add: path_base_def is_path_separator_def)
  moreover have "map (\<lambda>ch. lower_byte (byte_of_char ch)) ''MAIN.SCM'' = [109,97,105,110,46,115,99,109]"
    by (simp add: byte_of_char_def lower_byte_def)
  ultimately have "samp_saa_hash_path (Some ''C:/gta/MAIN.SCM'') = Some 0xD83F24DD"
    using main_scm_hash by (simp add: samp_saa_hash_path_def samp_saa_hash_filename_def)
  then show ?thesis by (simp add: select_virtual_file_def SAMP_ARCHIVE_MAIN_HASH_def example_fs_def)
qed

theorem archive_open_fresh_handle_witness:
  "\<exists>h fs'. archive_create_file_a (Some ''C:/gta/MAIN.SCM'') example_fs = (Answered h None, fs') \<and>
     h \<noteq> 0 \<and> vfile fs' h = Some (boot_main, 0)"
proof -
  have "find_free_slot (records example_fs) = Some 0"
    by (simp add: example_fs_def zero_fs_def SAMP_ARCHIVE_OPEN_RECORDS_def numeral_eq_Suc)
  moreover have "active example_fs" by (simp add: example_fs_def)
  ultimately show ?thesis
    using archive_open_fresh_handle[OF example_fs_wf _ example_select] by blast
qed

theorem archive_interleaved_reads_witness:
  "output_of 0xFF000001 (fst (run_reads vread [(0xFF000001, 1), (0xFF000003, 2), (0xFF000001, 9)] example_open_fs)) =
     [2, 0, 1]"
proof -
  have "output_of 0xFF000001 (fst (run_reads vread [(0xFF000001, 1), (0xFF000003, 2), (0xFF000001, 9)]
      example_open_fs)) =
      take (demand (0xFF000001 :: u32) [(0xFF000001, 1), (0xFF000003, 2), (0xFF000001, 9)]) (drop 0 boot_main)"
    by (rule archive_interleaved_reads[OF example_open_fs_wf]) (simp_all add: example_vfile)
  then show ?thesis by (simp add: demand_def boot_main_def)
qed

lemma vfile_set_position:
  assumes "fs_wf fs" "vfile fs h = Some (bs, p)" "find_record (records fs) h = Some i"
  shows "vfile (fs\<lparr>records := (records fs)[i := (records fs ! i)\<lparr>r_position := q\<rparr>]\<rparr>) k =
    (if k = h then Some (bs, unat q) else vfile fs k)"
proof -
  have i: "active fs" "i < length (records fs)" "r_data (records fs ! i) = Some bs" "r_handle (records fs ! i) = h"
    using vfile_Some[OF assms(1,2)] assms(3) by (metis option.inject)+
  show ?thesis
  proof (cases "find_record (records fs) k")
    case (Some j)
    then have "k \<noteq> h \<Longrightarrow> i \<noteq> j" using find_record_Some[OF Some] i(4) by auto
    then show ?thesis using i assms(3) Some by (cases "k = h") (simp_all add: vfile_def find_record_same_key)
  qed (use i assms(3) in \<open>auto simp: vfile_def find_record_same_key\<close>)
qed

text \<open>Seeking on a virtual handle: from the start, from the current position or to the end (where the
  distance is ignored), with 64-bit arithmetic, so that a target outside 0 to 2^32 - 1 is refused with the
  negative-seek error and nothing moves, an unknown method is refused, and a valid target becomes the
  position of that handle only.\<close>

theorem archive_seek:
  assumes wf: "fs_wf fs" and vf: "vfile fs h = Some (bs, p)"
    and target: "target = (if move = FILE_BEGIN then sint d else if move = FILE_CURRENT then int p + sint d
      else int (length bs))"
  shows "if move \<notin> {FILE_BEGIN, FILE_CURRENT, FILE_END}
     then archive_set_file_pointer h d move fs = (Answered INVALID_SET_FILE_POINTER (Some ERROR_INVALID_PARAMETER), fs)
     else if target < 0 \<or> 2 ^ 32 \<le> target
     then archive_set_file_pointer h d move fs = (Answered INVALID_SET_FILE_POINTER (Some ERROR_NEGATIVE_SEEK), fs)
     else \<exists>fs'. archive_set_file_pointer h d move fs = (Answered (of_int target) None, fs') \<and> fs_wf fs' \<and>
       vfile fs' h = Some (bs, nat target) \<and> (\<forall>h'. h' \<noteq> h \<longrightarrow> vfile fs' h' = vfile fs h')"
proof -
  obtain i where i: "active fs" "find_record (records fs) h = Some i" "i < length (records fs)"
    "r_data (records fs ! i) = Some bs" "p = unat (r_position (records fs ! i))"
    "length bs = unat (r_size (records fs ! i))" "r_handle (records fs ! i) = h"
    by (rule vfile_Some[OF wf vf])
  have pos: "uint (r_position (records fs ! i)) = int p" "uint (r_size (records fs ! i)) = int (length bs)"
    using i by simp_all
  show ?thesis
  proof (cases "move \<in> {FILE_BEGIN, FILE_CURRENT, FILE_END}")
    case False
    then show ?thesis using i by (simp add: archive_set_file_pointer_def Let_def)
  next
    case True
    then have res: "archive_set_file_pointer h d move fs =
        (if target < 0 \<or> target > 0xFFFFFFFF
         then (Answered INVALID_SET_FILE_POINTER (Some ERROR_NEGATIVE_SEEK), fs)
         else (Answered (of_int target) None,
           fs\<lparr>records := (records fs)[i := (records fs ! i)\<lparr>r_position := of_int target\<rparr>]\<rparr>))"
      using i target pos by (auto simp: archive_set_file_pointer_def Let_def fs_consts)
    show ?thesis
    proof (cases "target < 0 \<or> 2 ^ 32 \<le> target")
      case True
      with res \<open>move \<in> _\<close> show ?thesis by auto
    next
      case False
      let ?fs' = "fs\<lparr>records := (records fs)[i := (records fs ! i)\<lparr>r_position := of_int target\<rparr>]\<rparr>"
      have "unat (of_int target :: u32) = nat target"
        using False by (simp add: unsigned_of_int take_bit_int_eq_self)
      then have "vfile ?fs' h = Some (bs, nat target)" "\<forall>h'. h' \<noteq> h \<longrightarrow> vfile ?fs' h' = vfile fs h'"
        using vfile_set_position[OF wf vf i(2)] by auto
      then show ?thesis
        using False res \<open>move \<in> _\<close> fs_wf_set_position[OF wf i(2)] by auto
    qed
  qed
qed

theorem archive_seek_witness:
  "\<exists>fs'. archive_set_file_pointer 0xFF000003 2 FILE_CURRENT example_open_fs = (Answered 3 None, fs') \<and>
     vfile fs' 0xFF000003 = Some (boot_script, 3)"
  using archive_seek[OF example_open_fs_wf example_vfile(2) refl, of FILE_CURRENT 2]
  by (auto simp: fs_consts)

end
