(* ===== verification/DualStack.thy ===== *)
theory DualStack
  imports Prelude
begin

text \<open>
  \<^verbatim>\<open>src/net/dual_stack.c\<close>: host and port parsing, the socket runtime, the lazily resolved
  \<^verbatim>\<open>getaddrinfo\<close> and the address-by-address TCP connect.

  The operating system is a parameter. Every call that can fail asks an oracle of \<open>net_env\<close> at the
  number of calls made so far, so that two calls of the same function may answer differently; the
  state keeps the sockets that are open.
\<close>

section \<open>Host and port\<close>

definition SAMP_HOST_BYTES :: nat where "SAMP_HOST_BYTES = 256"

text \<open>\<open>ep_host\<close> is the text in the zero-filled array of 256 bytes.\<close>

record samp_endpoint =
  ep_host :: string
  ep_port :: u16

definition digit_value :: "char \<Rightarrow> nat" where
  "digit_value c = of_char c - 48"

definition is_digit_char :: "char \<Rightarrow> bool" where
  "is_digit_char c \<longleftrightarrow> 48 \<le> (of_char c :: nat) \<and> (of_char c :: nat) \<le> 57"

text \<open>The loop of \<^verbatim>\<open>parse_u16_port\<close>; \<open>None\<close> is the return value -1, which leaves \<^verbatim>\<open>*out\<close> alone.\<close>

fun parse_port_loop :: "string \<Rightarrow> nat \<Rightarrow> nat option" where
  "parse_port_loop [] value = Some value"
| "parse_port_loop (c # cs) value =
     (if \<not> is_digit_char c then None
      else let value' = value * 10 + digit_value c in
        if value' > 65535 then None else parse_port_loop cs value')"

definition parse_u16_port :: "string \<Rightarrow> u16 option" where
  "parse_u16_port text = (if text = [] then None else map_option of_nat (parse_port_loop text 0))"

text \<open>\<^verbatim>\<open>copy_host\<close>: the text written, when it is neither empty nor too long for the array.\<close>

definition copy_host :: "nat \<Rightarrow> string \<Rightarrow> string option" where
  "copy_host dst_size src =
     (if dst_size = 0 \<or> length src = 0 \<or> length src \<ge> dst_size then None else Some src)"

text \<open>The end of two of the cases: the host is stored first, then the port is parsed in place.\<close>

definition parse_host_and_port :: "string \<Rightarrow> string \<Rightarrow> samp_endpoint \<Rightarrow> int \<times> samp_endpoint" where
  "parse_host_and_port h port_text out = (case copy_host SAMP_HOST_BYTES h of
     None \<Rightarrow> (- 1, out)
   | Some h' \<Rightarrow> (case parse_u16_port port_text of
         None \<Rightarrow> (- 1, out\<lparr>ep_host := h'\<rparr>)
       | Some p \<Rightarrow> (0, out\<lparr>ep_host := h', ep_port := p\<rparr>)))"

definition store_host :: "string \<Rightarrow> samp_endpoint \<Rightarrow> int \<times> samp_endpoint" where
  "store_host h out = (case copy_host SAMP_HOST_BYTES h of
     None \<Rightarrow> (- 1, out) | Some h' \<Rightarrow> (0, out\<lparr>ep_host := h'\<rparr>))"

text \<open>The text after the opening bracket, split at the first closing one.\<close>

definition parse_bracketed :: "string \<Rightarrow> samp_endpoint \<Rightarrow> int \<times> samp_endpoint" where
  "parse_bracketed input out =
     (let h = takeWhile (\<lambda>c. c \<noteq> CHR '']'') input; tail = dropWhile (\<lambda>c. c \<noteq> CHR '']'') input in
      if tail = [] then (- 1, out)
      else case tl tail of
        [] \<Rightarrow> store_host h out
      | c # port_text \<Rightarrow>
          (case copy_host SAMP_HOST_BYTES h of None \<Rightarrow> (- 1, out)
           | Some h' \<Rightarrow>
             if c \<noteq> CHR '':'' \<or> port_text = [] then (- 1, out\<lparr>ep_host := h'\<rparr>)
             else parse_host_and_port h port_text out))"

text \<open>
  \<^verbatim>\<open>samp_net_parse_hostport\<close>: the return value and \<^verbatim>\<open>*out\<close>, \<open>None\<close> for a NULL pointer. With exactly one
  colon it separates host and port; with several and no bracket the text is an IPv6 address.
\<close>

definition samp_net_parse_hostport ::
  "string option \<Rightarrow> u16 \<Rightarrow> samp_endpoint option \<Rightarrow> int \<times> samp_endpoint option" where
  "samp_net_parse_hostport input default_port out0 = (case (input, out0) of
     (Some text, Some _) \<Rightarrow>
       if text = [] then (- 1, out0)
       else
         let out = \<lparr>ep_host = [], ep_port = default_port\<rparr>;
             colons = length (filter (\<lambda>c. c = CHR '':'') text) in
         map_prod id Some (
           if hd text = CHR ''['' then parse_bracketed (tl text) out
           else if colons = 0 then store_host text out
           else if colons = 1 then
             (let h = takeWhile (\<lambda>c. c \<noteq> CHR '':'') text; port_text = tl (dropWhile (\<lambda>c. c \<noteq> CHR '':'') text) in
              if h = [] \<or> port_text = [] then (- 1, out) else parse_host_and_port h port_text out)
           else store_host text out)
   | _ \<Rightarrow> (- 1, out0))"

section \<open>Sockets\<close>

type_synonym samp_socket_t = u32

definition SAMP_INVALID_SOCKET :: samp_socket_t where "SAMP_INVALID_SOCKET = - 1"

text \<open>An address to connect or bind to: IPv4 address and port, or an entry of \<^verbatim>\<open>getaddrinfo\<close>'s list.\<close>

record net_env =
  ev_startup :: "nat \<Rightarrow> bool"
  ev_socket :: "nat \<Rightarrow> samp_socket_t"
  ev_nonblocking :: "nat \<Rightarrow> bool"
  ev_bind :: "nat \<Rightarrow> u32 \<Rightarrow> u16 \<Rightarrow> bool"
  ev_listen :: "nat \<Rightarrow> int \<Rightarrow> bool"
  ev_connect :: "nat \<Rightarrow> u32 \<Rightarrow> u16 \<Rightarrow> bool"
  ev_connect_info :: "nat \<Rightarrow> nat \<Rightarrow> bool"
  ev_wouldblock :: "nat \<Rightarrow> bool"
  ev_select :: "nat \<Rightarrow> int"
  ev_so_error :: "nat \<Rightarrow> int option"
  ev_getaddrinfo :: "string \<Rightarrow> string \<Rightarrow> nat list option"
  ev_getsockname :: "samp_socket_t \<Rightarrow> u16 option"
  ev_inet_addr :: "string \<Rightarrow> u32"
  ev_gethostbyname :: "string \<Rightarrow> u32 list option"

text \<open>
  \<open>wsa_initialized\<close> is the static flag of \<^verbatim>\<open>samp_net_runtime_init\<close>, \<open>wsa_refs\<close> the number of successful
  \<^verbatim>\<open>WSAStartup\<close> calls less the \<^verbatim>\<open>WSACleanup\<close> calls.
\<close>

record net_state =
  wsa_initialized :: bool
  wsa_refs :: int
  open_socks :: "samp_socket_t list"
  addrinfo_live :: int
  os_calls :: nat

definition tick :: "net_state \<Rightarrow> net_state" where
  "tick s = s\<lparr>os_calls := os_calls s + 1\<rparr>"

definition samp_net_runtime_init :: "net_env \<Rightarrow> net_state \<Rightarrow> int \<times> net_state" where
  "samp_net_runtime_init env s =
     (if wsa_initialized s then (0, s)
      else if \<not> ev_startup env (os_calls s) then (- 1, tick s)
      else (0, (tick s)\<lparr>wsa_initialized := True, wsa_refs := wsa_refs s + 1\<rparr>))"

definition samp_net_runtime_shutdown :: "net_state \<Rightarrow> net_state" where
  "samp_net_runtime_shutdown s = s\<lparr>wsa_refs := wsa_refs s - 1\<rparr>"

definition os_socket :: "net_env \<Rightarrow> net_state \<Rightarrow> samp_socket_t \<times> net_state" where
  "os_socket env s =
     (let fd = ev_socket env (os_calls s) in
      (fd, if fd = SAMP_INVALID_SOCKET then tick s else (tick s)\<lparr>open_socks := fd # open_socks s\<rparr>))"

definition samp_net_close_socket :: "samp_socket_t \<Rightarrow> net_state \<Rightarrow> net_state" where
  "samp_net_close_socket fd s =
     (if fd = SAMP_INVALID_SOCKET then s else s\<lparr>open_socks := remove1 fd (open_socks s)\<rparr>)"

text \<open>The wait for a connect in progress: writable in time and no pending socket error.\<close>

definition await_connect :: "net_env \<Rightarrow> net_state \<Rightarrow> bool \<times> net_state" where
  "await_connect env s =
     (if \<not> ev_select env (os_calls s) > 0 then (False, tick s)
      else (ev_so_error env (os_calls s + 1) = Some 0, tick (tick s)))"

text \<open>One iteration of the connect loop: whether the new socket is kept.\<close>

definition try_address :: "net_env \<Rightarrow> int \<Rightarrow> nat \<Rightarrow> net_state \<Rightarrow> samp_socket_t option \<times> net_state" where
  "try_address env timeout_ms address s =
     (let (fd, s1) = os_socket env s in
      if fd = SAMP_INVALID_SOCKET then (None, s1)
      else if timeout_ms > 0 \<and> \<not> ev_nonblocking env (os_calls s1)
      then (None, samp_net_close_socket fd (tick s1))
      else
        let s2 = (if timeout_ms > 0 then tick s1 else s1) in
        if ev_connect_info env (os_calls s2) address then (Some fd, tick s2)
        else
          let s3 = tick s2 in
          if timeout_ms > 0 \<and> ev_wouldblock env (os_calls s3)
          then case await_connect env s3 of
              (True, s4) \<Rightarrow> (Some fd, s4)
            | (False, s4) \<Rightarrow> (None, samp_net_close_socket fd s4)
          else (None, samp_net_close_socket fd s3))"

fun connect_addresses ::
  "net_env \<Rightarrow> int \<Rightarrow> nat list \<Rightarrow> net_state \<Rightarrow> samp_socket_t option \<times> net_state" where
  "connect_addresses env timeout_ms [] s = (None, s)"
| "connect_addresses env timeout_ms (a # as) s =
     (case try_address env timeout_ms a s of
        (Some fd, s') \<Rightarrow> (Some fd, s')
      | (None, s') \<Rightarrow> connect_addresses env timeout_ms as s')"

definition samp_net_connect_dual_stack ::
  "net_env \<Rightarrow> string option \<Rightarrow> u16 \<Rightarrow> int \<Rightarrow> samp_socket_t option \<Rightarrow> net_state \<Rightarrow>
     int \<times> samp_socket_t option \<times> net_state" where
  "samp_net_connect_dual_stack env host port timeout_ms out_socket s =
     (case (host, out_socket) of
        (Some h, Some _) \<Rightarrow>
          if h = [] then (- 1, out_socket, s)
          else (case samp_net_runtime_init env s of (rc, s1) \<Rightarrow>
            if rc \<noteq> 0 then (- 1, Some SAMP_INVALID_SOCKET, s1)
            else case ev_getaddrinfo env h (decimal (unat port)) of
              None \<Rightarrow> (- 1, Some SAMP_INVALID_SOCKET, s1)
            | Some results \<Rightarrow>
                (case connect_addresses env timeout_ms results (s1\<lparr>addrinfo_live := addrinfo_live s1 + 1\<rparr>) of
                   (Some fd, s2) \<Rightarrow> (0, Some fd, s2\<lparr>addrinfo_live := addrinfo_live s2 - 1\<rparr>)
                 | (None, s2) \<Rightarrow>
                     (- 1, Some SAMP_INVALID_SOCKET, s2\<lparr>addrinfo_live := addrinfo_live s2 - 1\<rparr>)))
      | _ \<Rightarrow> (- 1, out_socket, s))"

section \<open>The resolver, shared by threads\<close>

text \<open>
  \<^verbatim>\<open>ensure_win32_resolver\<close> runs in any thread. Its shared variables are one record, its local control
  point a \<open>resolver_pc\<close>, and one step of a thread is one access to a shared variable. \<open>Own\<close> carries the
  local \<^verbatim>\<open>module_handle\<close>. Pointers are words, 0 is NULL.
\<close>

record resolver =
  g_win32_resolver_state :: int
  g_win32_resolver_module :: u32
  g_win32_getaddrinfo_a :: u32
  g_win32_freeaddrinfo :: u32

definition initial_resolver :: resolver where
  "initial_resolver = \<lparr>g_win32_resolver_state = 0, g_win32_resolver_module = 0,
     g_win32_getaddrinfo_a = 0, g_win32_freeaddrinfo = 0\<rparr>"

datatype resolver_pc =
    Enter | Claim | OwnModule | OwnGetaddrinfo u32 | OwnFreeaddrinfo u32 | OwnStore u32 | OwnCheck
  | OwnPublish | OwnClearModule | OwnClearGetaddrinfo | OwnClearFreeaddrinfo | OwnFail | Spin | Returned int

text \<open>\<^verbatim>\<open>GetModuleHandleA\<close> or \<^verbatim>\<open>LoadLibraryA\<close>, and \<^verbatim>\<open>GetProcAddress\<close> for the two names.\<close>

record resolver_env =
  re_module :: u32
  re_getaddrinfo :: u32
  re_freeaddrinfo :: u32

fun resolver_step :: "resolver_env \<Rightarrow> resolver_pc \<Rightarrow> resolver \<Rightarrow> resolver_pc \<times> resolver" where
  "resolver_step env Enter r =
     (if g_win32_resolver_state r = 2 then (Returned 0, r)
      else if g_win32_resolver_state r = - 1 then (Returned (- 1), r) else (Claim, r))"
| "resolver_step env Claim r =
     (if g_win32_resolver_state r = 0 then (OwnModule, r\<lparr>g_win32_resolver_state := 1\<rparr>) else (Spin, r))"
| "resolver_step env OwnModule r =
     (if re_module env = 0 then (OwnStore 0, r) else (OwnGetaddrinfo (re_module env), r))"
| "resolver_step env (OwnGetaddrinfo m) r =
     (OwnFreeaddrinfo m, r\<lparr>g_win32_getaddrinfo_a := re_getaddrinfo env\<rparr>)"
| "resolver_step env (OwnFreeaddrinfo m) r =
     (OwnStore m, r\<lparr>g_win32_freeaddrinfo := re_freeaddrinfo env\<rparr>)"
| "resolver_step env (OwnStore m) r = (OwnCheck, r\<lparr>g_win32_resolver_module := m\<rparr>)"
| "resolver_step env OwnCheck r =
     (if g_win32_resolver_module r \<noteq> 0 \<and> g_win32_getaddrinfo_a r \<noteq> 0 \<and> g_win32_freeaddrinfo r \<noteq> 0
      then (OwnPublish, r) else (OwnClearModule, r))"
| "resolver_step env OwnPublish r = (Returned 0, r\<lparr>g_win32_resolver_state := 2\<rparr>)"
| "resolver_step env OwnClearModule r = (OwnClearGetaddrinfo, r\<lparr>g_win32_resolver_module := 0\<rparr>)"
| "resolver_step env OwnClearGetaddrinfo r = (OwnClearFreeaddrinfo, r\<lparr>g_win32_getaddrinfo_a := 0\<rparr>)"
| "resolver_step env OwnClearFreeaddrinfo r = (OwnFail, r\<lparr>g_win32_freeaddrinfo := 0\<rparr>)"
| "resolver_step env OwnFail r = (Returned (- 1), r\<lparr>g_win32_resolver_state := - 1\<rparr>)"
| "resolver_step env Spin r =
     (if g_win32_resolver_state r = 1 then (Spin, r)
      else (Returned (if g_win32_resolver_state r = 2 then 0 else - 1), r))"
| "resolver_step env (Returned rc) r = (Returned rc, r)"

text \<open>All threads start at \<open>Enter\<close>; any of them takes the next step.\<close>

inductive resolver_reachable :: "resolver_env \<Rightarrow> (nat \<Rightarrow> resolver_pc) \<Rightarrow> resolver \<Rightarrow> bool"
  for env :: resolver_env where
  start: "resolver_reachable env (\<lambda>_. Enter) initial_resolver"
| step: "resolver_reachable env pcs r \<Longrightarrow> resolver_step env (pcs t) r = (pc, r') \<Longrightarrow>
     resolver_reachable env (pcs(t := pc)) r'"

inductive_cases resolver_reachableE: "resolver_reachable env pcs r"

section \<open>Ports and hosts\<close>

definition digits_value :: "string \<Rightarrow> nat \<Rightarrow> nat" where
  "digits_value cs v = foldl (\<lambda>v c. v * 10 + digit_value c) v cs"

lemma digits_value_simps [simp]:
  "digits_value [] v = v"
  "digits_value (c # cs) v = digits_value cs (v * 10 + digit_value c)"
  "digits_value (cs @ ds) v = digits_value ds (digits_value cs v)"
  by (simp_all add: digits_value_def)

lemma digits_value_ge: "v \<le> digits_value cs v"
proof (induction cs arbitrary: v)
  case (Cons c cs)
  show ?case using order_trans[OF _ Cons.IH[of "v * 10 + digit_value c"], of v] by simp
qed simp

lemma parse_port_loop_eq:
  "v \<le> 65535 \<Longrightarrow> parse_port_loop cs v =
     (if (\<forall>c\<in>set cs. is_digit_char c) \<and> digits_value cs v \<le> 65535 then Some (digits_value cs v) else None)"
proof (induction cs arbitrary: v)
  case (Cons c cs)
  then show ?case
    using digits_value_ge[of "v * 10 + digit_value c" cs] by (auto simp: Let_def)
qed simp

lemma digit_char: "d < 10 \<Longrightarrow> is_digit_char (char_of (48 + d)) \<and> digit_value (char_of (48 + d)) = d"
  by (simp add: is_digit_char_def digit_value_def)

lemma decimal_digits: "\<forall>c\<in>set (decimal_rev n). is_digit_char c"
proof (induction n rule: decimal_rev.induct)
  case (1 n)
  then show ?case
    using digit_char[of "n mod 10"] digit_char[of n] by (simp add: decimal_rev.simps[of n])
qed

lemma decimal_value: "digits_value (decimal n) 0 = n"
proof -
  have "digits_value (rev (decimal_rev n)) 0 = n"
  proof (induction n rule: decimal_rev.induct)
    case (1 n)
    show ?case
    proof (cases "n < 10")
      case True
      then show ?thesis using digit_char[of n] by (simp add: decimal_rev.simps[of n])
    next
      case False
      then show ?thesis using 1 digit_char[of "n mod 10"] by (simp add: decimal_rev.simps[of n])
    qed
  qed
  then show ?thesis by (simp add: decimal_def)
qed

lemma decimal_not_empty [simp]: "decimal n \<noteq> []"
  by (simp add: decimal_def decimal_rev.simps[of n])

lemma parse_decimal: "parse_u16_port (decimal (unat p)) = Some p"
proof -
  have "\<forall>c\<in>set (decimal (unat p)). is_digit_char c" using decimal_digits by (simp add: decimal_def)
  then show ?thesis
    using decimal_value[of "unat p"] unat_u16_lt[of p] by (simp add: parse_u16_port_def parse_port_loop_eq)
qed

lemma no_colon_decimal: "CHR '':'' \<notin> set (decimal n)"
  using decimal_digits[of n] by (auto simp: decimal_def is_digit_char_def)

text \<open>The text of an endpoint: an IPv6 host in brackets, the port when there is one.\<close>

definition hostport_text :: "string \<Rightarrow> u16 option \<Rightarrow> string" where
  "hostport_text h p =
     (if CHR '':'' \<in> set h then CHR ''['' # h @ [CHR '']''] else h) @
     (case p of None \<Rightarrow> [] | Some n \<Rightarrow> CHR '':'' # decimal (unat n))"

lemma filter_colon_none: "CHR '':'' \<notin> set h \<Longrightarrow> filter (\<lambda>c. c = CHR '':'') h = []"
  by (auto simp: filter_empty_conv)

text \<open>C28: Printing an endpoint and parsing it gives it back: for every non-empty host shorter than the host
  array and without brackets, with or without a port (the default port then), IPv6 hosts in
  brackets.\<close>

theorem parse_hostport_roundtrip:
  assumes "h \<noteq> []" "length h < 256" "CHR '']'' \<notin> set h" "hd h \<noteq> CHR ''[''"
  shows "samp_net_parse_hostport (Some (hostport_text h p)) d (Some out) =
    (0, Some \<lparr>ep_host = h, ep_port = (case p of None \<Rightarrow> d | Some n \<Rightarrow> n)\<rparr>)"
proof (cases "CHR '':'' \<in> set h")
  case True
  then show ?thesis
    using assms
    by (cases p) (simp_all add: hostport_text_def samp_net_parse_hostport_def parse_bracketed_def Let_def
      takeWhile_stop dropWhile_stop store_host_def copy_host_def SAMP_HOST_BYTES_def parse_host_and_port_def
      parse_decimal)
next
  case False
  then show ?thesis
    using assms
    by (cases p) (simp_all add: hostport_text_def samp_net_parse_hostport_def Let_def filter_colon_none
      no_colon_decimal takeWhile_stop dropWhile_stop store_host_def copy_host_def SAMP_HOST_BYTES_def
      parse_host_and_port_def parse_decimal)
qed

theorem parse_hostport_roundtrip_witness:
  "samp_net_parse_hostport (Some (hostport_text ''::1'' (Some 7777))) 80 (Some \<lparr>ep_host = [], ep_port = 0\<rparr>) =
     (0, Some \<lparr>ep_host = ''::1'', ep_port = 7777\<rparr>)"
  using parse_hostport_roundtrip[of "''::1''" "Some 7777" 80] by simp

section \<open>Connecting\<close>

definition socks_after :: "net_state \<Rightarrow> samp_socket_t option \<Rightarrow> net_state \<Rightarrow> bool" where
  "socks_after s r s' \<longleftrightarrow> addrinfo_live s' = addrinfo_live s \<and>
    (case r of None \<Rightarrow> open_socks s' = open_socks s
     | Some fd \<Rightarrow> fd \<noteq> SAMP_INVALID_SOCKET \<and> open_socks s' = fd # open_socks s)"

lemma await_socks:
  "await_connect env s = (ok, s') \<Longrightarrow> addrinfo_live s' = addrinfo_live s \<and> open_socks s' = open_socks s"
  by (auto simp: await_connect_def tick_def split: if_splits)

lemma try_address_socks: "try_address env t a s = (r, s') \<Longrightarrow> socks_after s r s'"
  by (auto simp: try_address_def os_socket_def samp_net_close_socket_def tick_def Let_def socks_after_def
      split: if_splits prod.splits bool.splits dest!: await_socks)

lemma connect_addresses_socks: "connect_addresses env t as s = (r, s') \<Longrightarrow> socks_after s r s'"
proof (induction as arbitrary: s)
  case (Cons a as)
  obtain r1 s1 where t: "try_address env t a s = (r1, s1)" by fastforce
  note one = try_address_socks[OF t]
  show ?case
  proof (cases r1)
    case None
    with t Cons.prems have "connect_addresses env t as s1 = (r, s')" by simp
    from Cons.IH[OF this] one None show ?thesis by (auto simp: socks_after_def split: option.splits)
  qed (use t one Cons.prems in auto)
qed (simp add: socks_after_def)

text \<open>C26: A dual-stack connect leaks nothing: whatever the resolver, the sockets and the timeouts do, the
  address list is freed, and either it fails with the out socket invalid and no socket open that was not
  open before, or it succeeds with exactly one more open socket, the one returned.\<close>

theorem connect_dual_stack_no_leak:
  assumes "samp_net_connect_dual_stack env (Some h) p t (Some out0) s = (rc, out, s')" "h \<noteq> []"
  shows "addrinfo_live s' = addrinfo_live s \<and>
    (rc = 0 \<and> (\<exists>fd. out = Some fd \<and> fd \<noteq> SAMP_INVALID_SOCKET \<and> open_socks s' = fd # open_socks s) \<or>
     rc = - 1 \<and> out = Some SAMP_INVALID_SOCKET \<and> open_socks s' = open_socks s)"
proof -
  have init: "open_socks s1 = open_socks s \<and> addrinfo_live s1 = addrinfo_live s"
    if "samp_net_runtime_init env s = (rc1, s1)" for rc1 s1
    using that by (auto simp: samp_net_runtime_init_def tick_def split: if_splits)
  show ?thesis
    using assms
    by (auto simp: samp_net_connect_dual_stack_def socks_after_def dest!: init connect_addresses_socks
        split: prod.splits if_splits option.splits)
qed

definition one_host_env :: net_env where
  "one_host_env = \<lparr>ev_startup = (\<lambda>_. True), ev_socket = (\<lambda>n. 100 + of_nat n), ev_nonblocking = (\<lambda>_. True),
     ev_bind = (\<lambda>_ _ _. True), ev_listen = (\<lambda>_ _. True), ev_connect = (\<lambda>_ _ _. True),
     ev_connect_info = (\<lambda>_ a. a = 2), ev_wouldblock = (\<lambda>_. True), ev_select = (\<lambda>_. 1),
     ev_so_error = (\<lambda>_. Some 111), ev_getaddrinfo = (\<lambda>_ _. Some [1, 2]),
     ev_getsockname = (\<lambda>_. Some 7777), ev_inet_addr = (\<lambda>_. 0x7F000001),
     ev_gethostbyname = (\<lambda>_. Some [0x7F000001])\<rparr>"

definition fresh_net :: net_state where
  "fresh_net = \<lparr>wsa_initialized = False, wsa_refs = 0, open_socks = [], addrinfo_live = 0, os_calls = 0\<rparr>"

theorem connect_dual_stack_no_leak_witness:
  "case samp_net_connect_dual_stack one_host_env (Some ''localhost'') 7777 500 (Some 0) fresh_net of (rc, out, s') \<Rightarrow>
     rc = 0 \<and> (\<exists>fd. out = Some fd \<and> open_socks s' = [fd])"
proof -
  obtain rc out s' where r: "samp_net_connect_dual_stack one_host_env (Some ''localhost'') 7777 500 (Some 0)
      fresh_net = (rc, out, s')" by (metis surj_pair)
  have "rc = 0"
    using r by (simp add: samp_net_connect_dual_stack_def one_host_env_def fresh_net_def samp_net_runtime_init_def
      try_address_def os_socket_def tick_def await_connect_def SAMP_INVALID_SOCKET_def Let_def
      samp_net_close_socket_def split: prod.splits)
  with connect_dual_stack_no_leak[OF r] r show ?thesis by (auto simp: fresh_net_def)
qed

section \<open>The resolver is set up once\<close>

definition owner :: "resolver_pc \<Rightarrow> bool" where
  "owner pc \<longleftrightarrow> pc \<notin> {Enter, Claim, Spin} \<and> (\<forall>rc. pc \<noteq> Returned rc)"

lemma owner_simps [simp]:
  "\<not> owner Enter" "\<not> owner Claim" "\<not> owner Spin" "\<not> owner (Returned rc)" "owner OwnModule"
  "owner (OwnGetaddrinfo m)" "owner (OwnFreeaddrinfo m)" "owner (OwnStore m)" "owner OwnCheck"
  "owner OwnPublish" "owner OwnClearModule" "owner OwnClearGetaddrinfo" "owner OwnClearFreeaddrinfo" "owner OwnFail"
  by (simp_all add: owner_def)

definition resolved :: "resolver \<Rightarrow> bool" where
  "resolved r \<longleftrightarrow>
     g_win32_resolver_module r \<noteq> 0 \<and> g_win32_getaddrinfo_a r \<noteq> 0 \<and> g_win32_freeaddrinfo r \<noteq> 0"

definition pc_ok :: "resolver \<Rightarrow> resolver_pc \<Rightarrow> bool" where
  "pc_ok r pc \<longleftrightarrow>
     (owner pc \<longrightarrow> g_win32_resolver_state r = 1) \<and> (pc = Spin \<longrightarrow> g_win32_resolver_state r \<noteq> 0) \<and>
     (\<forall>rc. pc = Returned rc \<longrightarrow>
        rc = 0 \<and> g_win32_resolver_state r = 2 \<or> rc = - 1 \<and> g_win32_resolver_state r = - 1) \<and>
     (pc = OwnPublish \<longrightarrow> resolved r)"

definition state_ok :: "resolver \<Rightarrow> bool" where
  "state_ok r \<longleftrightarrow> g_win32_resolver_state r \<in> {0, 1, 2, - 1} \<and> (g_win32_resolver_state r = 2 \<longrightarrow> resolved r)"

definition resolver_inv :: "(nat \<Rightarrow> resolver_pc) \<Rightarrow> resolver \<Rightarrow> bool" where
  "resolver_inv pcs r \<longleftrightarrow> state_ok r \<and> (\<forall>t. pc_ok r (pcs t)) \<and>
     (\<forall>t u. owner (pcs t) \<longrightarrow> owner (pcs u) \<longrightarrow> t = u)"

lemma step_self:
  "resolver_step env pc r = (pc', r') \<Longrightarrow> pc_ok r pc \<Longrightarrow> state_ok r \<Longrightarrow> pc_ok r' pc' \<and> state_ok r'"
  by (cases pc) (auto simp: pc_ok_def state_ok_def resolved_def split: if_splits)

lemma step_other:
  "resolver_step env pc r = (pc', r') \<Longrightarrow> pc_ok r pc \<Longrightarrow> pc_ok r q \<Longrightarrow> \<not> (owner pc \<and> owner q) \<Longrightarrow> pc_ok r' q"
  by (cases pc; cases q) (auto simp: pc_ok_def resolved_def split: if_splits)

lemma step_owner:
  "resolver_step env pc r = (pc', r') \<Longrightarrow> owner pc' \<Longrightarrow> owner pc \<or> g_win32_resolver_state r = 0"
  by (cases pc) (auto split: if_splits)

lemma resolver_step_inv:
  assumes inv: "resolver_inv pcs r" and st: "resolver_step env (pcs t) r = (pc, r')"
  shows "resolver_inv (pcs(t := pc)) r'"
proof -
  have ok: "state_ok r" "\<And>u. pc_ok r (pcs u)" and uniq: "\<And>u v. owner (pcs u) \<Longrightarrow> owner (pcs v) \<Longrightarrow> u = v"
    using inv unfolding resolver_inv_def by blast+
  note self = step_self[OF st ok(2) ok(1)]
  have other: "pc_ok r' (pcs u)" if "u \<noteq> t" for u
    using step_other[OF st ok(2) ok(2), of u] uniq[of t u] that by blast
  have "\<not> owner (pcs u)" if "owner pc" "u \<noteq> t" for u
  proof
    assume "owner (pcs u)"
    then have "g_win32_resolver_state r = 1" using ok(2)[of u] by (simp add: pc_ok_def)
    with step_owner[OF st that(1)] have "owner (pcs t)" by simp
    with uniq[OF \<open>owner (pcs u)\<close>] that(2) show False by blast
  qed
  with self other uniq show ?thesis
    unfolding resolver_inv_def by (metis fun_upd_other fun_upd_same)
qed

lemma resolver_inv: "resolver_reachable env pcs r \<Longrightarrow> resolver_inv pcs r"
proof (induction rule: resolver_reachable.induct)
  case start
  then show ?case by (simp add: resolver_inv_def initial_resolver_def state_ok_def pc_ok_def)
next
  case (step pcs r t pc r')
  then show ?case using resolver_step_inv by blast
qed



end
