(* ===== verification/Ipv4Sockets.thy ===== *)
theory Ipv4Sockets
  imports DualStack
begin

text \<open>
  \<^verbatim>\<open>src/net/ipv4_socket_compat.c\<close>: the IPv4 socket primitives of the bootstrap flows, over the operating
  system of \<^verbatim>\<open>DualStack\<close>. \<^verbatim>\<open>htons\<close> and \<^verbatim>\<open>ntohs\<close> are left out: addresses and ports are kept as the code
  passes them in and out.
\<close>

section \<open>Creating sockets\<close>

definition INADDR_ANY :: u32 where "INADDR_ANY = 0"
definition INADDR_NONE :: u32 where "INADDR_NONE = 0xFFFFFFFF"
definition SAMP_NET_IPV4_ADDR_STR_MAX :: nat where "SAMP_NET_IPV4_ADDR_STR_MAX = 16"

text \<open>The four \<^verbatim>\<open>setsockopt\<close> calls are best effort: their results are ignored.\<close>

definition setsockopts :: "nat \<Rightarrow> net_state \<Rightarrow> net_state" where
  "setsockopts n s = s\<lparr>os_calls := os_calls s + n\<rparr>"

definition samp_net_ipv4_create_udp_bound ::
  "net_env \<Rightarrow> u16 \<Rightarrow> string option \<Rightarrow> bool \<Rightarrow> samp_socket_t option \<Rightarrow> net_state \<Rightarrow>
     int \<times> samp_socket_t option \<times> net_state" where
  "samp_net_ipv4_create_udp_bound env port bind_ip nonblocking out_socket s0 =
     (case out_socket of None \<Rightarrow> (- 1, None, s0)
      | Some _ \<Rightarrow> (case samp_net_runtime_init env s0 of (rc, s1) \<Rightarrow>
        if rc \<noteq> 0 then (- 1, Some SAMP_INVALID_SOCKET, s1)
        else case os_socket env s1 of (fd, s2) \<Rightarrow>
          if fd = SAMP_INVALID_SOCKET then (- 1, Some SAMP_INVALID_SOCKET, s2)
          else
            let s3 = setsockopts 4 s2 in
            if nonblocking \<and> \<not> ev_nonblocking env (os_calls s3)
            then (- 1, Some SAMP_INVALID_SOCKET, samp_net_close_socket fd (tick s3))
            else
              let s4 = (if nonblocking then tick s3 else s3);
                  ip = (case bind_ip of None \<Rightarrow> INADDR_ANY
                        | Some t \<Rightarrow> if t = [] then INADDR_ANY else ev_inet_addr env t) in
              if \<not> ev_bind env (os_calls s4) ip port
              then (- 1, Some SAMP_INVALID_SOCKET, samp_net_close_socket fd (tick s4))
              else (0, Some fd, tick s4)))"

definition samp_net_ipv4_resolve_first :: "net_env \<Rightarrow> string option \<Rightarrow> u32 option \<Rightarrow> int \<times> u32 option" where
  "samp_net_ipv4_resolve_first env host out = (case (host, out) of
     (Some h, Some _) \<Rightarrow>
       if h = [] then (- 1, out)
       else (case ev_gethostbyname env h of
           None \<Rightarrow> (- 1, out) | Some [] \<Rightarrow> (- 1, out) | Some (a # _) \<Rightarrow> (0, Some a))
   | _ \<Rightarrow> (- 1, out))"

definition samp_net_ipv4_tcp_connect ::
  "net_env \<Rightarrow> string option \<Rightarrow> u16 \<Rightarrow> samp_socket_t option \<Rightarrow> net_state \<Rightarrow>
     int \<times> samp_socket_t option \<times> net_state" where
  "samp_net_ipv4_tcp_connect env host port out_socket s0 = (case (host, out_socket) of
     (Some h, Some _) \<Rightarrow>
       if h = [] then (- 1, out_socket, s0)
       else (case samp_net_runtime_init env s0 of (rc, s1) \<Rightarrow>
         if rc \<noteq> 0 then (- 1, Some SAMP_INVALID_SOCKET, s1)
         else
           let ip = ev_inet_addr env h;
               resolved = (if ip = INADDR_NONE then samp_net_ipv4_resolve_first env host (Some ip) else (0, Some ip)) in
           if fst resolved \<noteq> 0 then (- 1, Some SAMP_INVALID_SOCKET, s1)
           else case os_socket env s1 of (fd, s2) \<Rightarrow>
             if fd = SAMP_INVALID_SOCKET then (- 1, Some SAMP_INVALID_SOCKET, s2)
             else if \<not> ev_connect env (os_calls s2) (the (snd resolved)) port
             then (- 1, Some SAMP_INVALID_SOCKET, samp_net_close_socket fd (tick s2))
             else (0, Some fd, tick s2))
   | _ \<Rightarrow> (- 1, out_socket, s0))"

definition samp_net_ipv4_tcp_listen ::
  "net_env \<Rightarrow> u16 \<Rightarrow> u16 \<Rightarrow> samp_socket_t option \<Rightarrow> net_state \<Rightarrow>
     int \<times> samp_socket_t option \<times> net_state" where
  "samp_net_ipv4_tcp_listen env port backlog out_socket s0 =
     (case out_socket of None \<Rightarrow> (- 1, None, s0)
      | Some _ \<Rightarrow> (case samp_net_runtime_init env s0 of (rc, s1) \<Rightarrow>
        if rc \<noteq> 0 then (- 1, Some SAMP_INVALID_SOCKET, s1)
        else case os_socket env s1 of (fd, s2) \<Rightarrow>
          if fd = SAMP_INVALID_SOCKET then (- 1, Some SAMP_INVALID_SOCKET, s2)
          else
            let s3 = setsockopts 1 s2;
                listen_backlog = (if backlog = 0 then 1 else uint backlog) in
            if \<not> ev_bind env (os_calls s3) INADDR_ANY port
            then (- 1, Some SAMP_INVALID_SOCKET, samp_net_close_socket fd (tick s3))
            else
              let s4 = tick s3 in
              if \<not> ev_listen env (os_calls s4) listen_backlog
              then (- 1, Some SAMP_INVALID_SOCKET, samp_net_close_socket fd (tick s4))
              else (0, Some fd, tick s4)))"

section \<open>Datagrams\<close>

text \<open>
  \<^verbatim>\<open>samp_net_ipv4_sendto\<close>: \<open>send n\<close> is what the \<open>n\<close>-th \<^verbatim>\<open>sendto\<close> call returns, \<open>err\<close> the last error. The
  result has the return value, the number of calls made and \<^verbatim>\<open>*out_error\<close>.
\<close>

function send_attempts :: "(nat \<Rightarrow> int) \<Rightarrow> nat \<Rightarrow> int \<times> nat" where
  "send_attempts send attempts =
     (let rc = send attempts; attempts' = attempts + 1 in
      if rc = 0 \<and> attempts' < 16 then send_attempts send attempts' else (rc, attempts'))"
  by pat_completeness auto
termination by (relation "measure (\<lambda>(_, n). 16 - n)") auto

declare send_attempts.simps [simp del]

definition samp_net_ipv4_sendto ::
  "(nat \<Rightarrow> int) \<Rightarrow> int \<Rightarrow> samp_socket_t \<Rightarrow> u8 list option \<Rightarrow> size_t \<Rightarrow> int option \<Rightarrow> int \<times> nat \<times> int option" where
  "samp_net_ipv4_sendto send err fd data len out_error =
     (if fd = SAMP_INVALID_SOCKET \<or> data = None \<or> len = 0 \<or> len > 0x7FFFFFFF then (- 1, 0, out_error)
      else case send_attempts send 0 of (rc, n) \<Rightarrow>
        (rc, n, if rc < 0 \<and> out_error \<noteq> None then Some err else out_error))"

text \<open>A datagram as \<^verbatim>\<open>recvfrom\<close> answers: an error, or the byte count with the sender.\<close>

datatype recv_answer = RecvError bool | Received nat u32 u16

text \<open>The return value, \<^verbatim>\<open>*out_length\<close>, \<^verbatim>\<open>*out_ipv4_addr_be\<close> and \<^verbatim>\<open>*out_port\<close>.\<close>

definition samp_net_ipv4_recvfrom ::
  "recv_answer \<Rightarrow> samp_socket_t \<Rightarrow> bool \<Rightarrow> size_t \<Rightarrow> nat option \<Rightarrow> u32 option \<Rightarrow> u16 option \<Rightarrow>
     int \<times> nat option \<times> u32 option \<times> u16 option" where
  "samp_net_ipv4_recvfrom answer fd has_buffer buffer_size out_length out_addr out_port =
     (if fd = SAMP_INVALID_SOCKET \<or> \<not> has_buffer \<or> buffer_size = 0 \<or> out_length = None
      then (- 1, out_length, out_addr, out_port)
      else case answer of
        RecvError wouldblock \<Rightarrow> (if wouldblock then 0 else - 1, Some 0, out_addr, out_port)
      | Received n a p \<Rightarrow>
          (1, Some n, map_option (\<lambda>_. a) out_addr, map_option (\<lambda>_. p) out_port))"

definition samp_net_ipv4_getsockname_port ::
  "net_env \<Rightarrow> samp_socket_t \<Rightarrow> u16 option \<Rightarrow> int \<times> u16 option" where
  "samp_net_ipv4_getsockname_port env fd out_port =
     (if fd = SAMP_INVALID_SOCKET \<or> out_port = None then (- 1, out_port)
      else case ev_getsockname env fd of None \<Rightarrow> (- 1, out_port) | Some p \<Rightarrow> (0, Some p))"

section \<open>Local addresses\<close>

text \<open>
  The loop of \<^verbatim>\<open>samp_net_ipv4_collect_local_addrs\<close>: \<open>out\<close> is the caller's array of strings, and storing
  past its end is a fault. \<open>ntoa\<close> is \<^verbatim>\<open>inet_ntoa\<close>.
\<close>

fun collect_loop ::
  "(u32 \<Rightarrow> string option) \<Rightarrow> nat \<Rightarrow> u32 list \<Rightarrow> nat \<Rightarrow> string list \<Rightarrow> (nat \<times> string list) mem" where
  "collect_loop ntoa max_addrs [] count out = Some (count, out)"
| "collect_loop ntoa max_addrs (a # as) count out =
     (if count < max_addrs \<and> count < 40 then
        if count < length out
        then collect_loop ntoa max_addrs as (count + 1)
               (out[count := (case ntoa a of None \<Rightarrow> [] | Some t \<Rightarrow> take (SAMP_NET_IPV4_ADDR_STR_MAX - 1) t)])
        else None
      else Some (count, out))"

text \<open>\<open>local\<close> is \<^verbatim>\<open>gethostbyname\<close> of the own host name, \<open>None\<close> when either call fails.\<close>

definition samp_net_ipv4_collect_local_addrs ::
  "(u32 \<Rightarrow> string option) \<Rightarrow> u32 list option \<Rightarrow> string list option \<Rightarrow> nat \<Rightarrow> nat option \<Rightarrow>
     (int \<times> nat option \<times> string list option) mem" where
  "samp_net_ipv4_collect_local_addrs ntoa local_addrs out_addrs max_addrs out_count =
     (if out_count = None then Some (- 1, None, out_addrs)
      else if max_addrs > 0 \<and> out_addrs = None then Some (- 1, Some 0, out_addrs)
      else case local_addrs of None \<Rightarrow> Some (- 1, Some 0, out_addrs)
      | Some as \<Rightarrow> do {
          (count, out) \<leftarrow> collect_loop ntoa max_addrs as 0 (case out_addrs of None \<Rightarrow> [] | Some o' \<Rightarrow> o');
          Some (0, Some count, map_option (\<lambda>_. out) out_addrs)
        })"

section \<open>Properties\<close>

lemma runtime_init_socks:
  "samp_net_runtime_init env s = (rc, s') \<Longrightarrow> open_socks s' = open_socks s \<and> (rc = 0 \<or> rc = - 1)"
  by (auto simp: samp_net_runtime_init_def tick_def split: if_splits)

text \<open>Either the one new socket is returned, or none is left open.\<close>

definition socket_result :: "net_state \<Rightarrow> int \<times> samp_socket_t option \<times> net_state \<Rightarrow> bool" where
  "socket_result s r \<longleftrightarrow> (case r of (rc, out, s') \<Rightarrow>
     rc = 0 \<and> (\<exists>fd. out = Some fd \<and> fd \<noteq> SAMP_INVALID_SOCKET \<and> open_socks s' = fd # open_socks s) \<or>
     rc = - 1 \<and> open_socks s' = open_socks s \<and> out = Some SAMP_INVALID_SOCKET)"

lemma tcp_listen_socks: "socket_result s (samp_net_ipv4_tcp_listen env p b (Some o1) s)"
  by (auto simp: socket_result_def samp_net_ipv4_tcp_listen_def os_socket_def samp_net_close_socket_def
      setsockopts_def tick_def Let_def split: prod.splits dest!: runtime_init_socks)

lemma tcp_connect_socks: "h \<noteq> [] \<Longrightarrow> socket_result s (samp_net_ipv4_tcp_connect env (Some h) p (Some o1) s)"
  by (auto simp: socket_result_def samp_net_ipv4_tcp_connect_def os_socket_def samp_net_close_socket_def
      tick_def Let_def split: prod.splits dest!: runtime_init_socks)

lemma create_udp_socks: "socket_result s (samp_net_ipv4_create_udp_bound env p ip nb (Some o1) s)"
  by (auto simp: socket_result_def samp_net_ipv4_create_udp_bound_def os_socket_def samp_net_close_socket_def
      setsockopts_def tick_def Let_def split: prod.splits dest!: runtime_init_socks)

text \<open>None of the three IPv4 constructors leaks a socket: each returns 0 with one more open socket, the
  one it hands out, or -1 with the same open sockets as before and an invalid out socket, whichever of
  socket, option, bind, listen or connect calls fails.\<close>

theorem ipv4_sockets_no_leak:
  "socket_result s (samp_net_ipv4_tcp_listen env p b (Some o1) s) \<and>
   (h \<noteq> [] \<longrightarrow> socket_result s (samp_net_ipv4_tcp_connect env (Some h) p (Some o1) s)) \<and>
   socket_result s (samp_net_ipv4_create_udp_bound env p ip nb (Some o1) s)"
  using tcp_listen_socks tcp_connect_socks create_udp_socks by blast

theorem ipv4_sockets_no_leak_witness:
  "socket_result fresh_net (samp_net_ipv4_tcp_connect one_host_env (Some ''127.0.0.1'') 7777 (Some 0) fresh_net)"
  using ipv4_sockets_no_leak[of fresh_net one_host_env 7777 0 0 "''127.0.0.1''"] by simp

lemma send_attempts_spec:
  assumes "send_attempts send n = (rc, m)" "n < 16"
  shows "n < m \<and> m \<le> 16 \<and> rc = send (m - 1) \<and> (\<forall>k. n \<le> k \<and> k < m - 1 \<longrightarrow> send k = 0) \<and> (rc = 0 \<longrightarrow> m = 16)"
  using assms
proof (induction send n rule: send_attempts.induct)
  case (1 send n)
  show ?case
  proof (cases "send n = 0 \<and> n + 1 < 16")
    case True
    with "1.prems"(1) have rec: "send_attempts send (n + 1) = (rc, m)"
      by (simp add: send_attempts.simps[of send n] Let_def)
    from "1.IH"[OF refl refl True rec] True
    have IH: "n + 1 < m" "m \<le> 16" "rc = send (m - 1)" "rc = 0 \<longrightarrow> m = 16"
      "\<And>k. n + 1 \<le> k \<Longrightarrow> k < m - 1 \<Longrightarrow> send k = 0" by blast+
    have "send k = 0" if "n \<le> k" "k < m - 1" for k
      using IH(5)[of k] True that by (cases "k = n") auto
    moreover have "n < m" using IH(1) by simp
    ultimately show ?thesis using IH(2-4) by blast
  next
    case False
    then show ?thesis using "1.prems" by (auto simp: send_attempts.simps[of send n] Let_def)
  qed
qed

text \<open>A datagram is sent at least once and at most sixteen times, repeating only while nothing was sent:
  the result is the first non-zero answer, or 0 when all sixteen answered 0, and the error is reported
  exactly when that answer is negative.\<close>

theorem ipv4_sendto_retries:
  assumes "fd \<noteq> SAMP_INVALID_SOCKET" "len \<noteq> 0" "len \<le> 0x7FFFFFFF"
  shows "\<exists>rc n. samp_net_ipv4_sendto send err fd (Some bs) len (Some e) =
      (rc, n, Some (if rc < 0 then err else e)) \<and>
    0 < n \<and> n \<le> 16 \<and> rc = send (n - 1) \<and> (\<forall>k<n - 1. send k = 0) \<and> (rc = 0 \<longrightarrow> n = 16)"
proof -
  obtain rc n where a: "send_attempts send 0 = (rc, n)" by fastforce
  have "samp_net_ipv4_sendto send err fd (Some bs) len (Some e) = (rc, n, Some (if rc < 0 then err else e))"
    using assms by (simp add: samp_net_ipv4_sendto_def a leD)
  moreover have "0 < n \<and> n \<le> 16 \<and> rc = send (n - 1) \<and> (\<forall>k<n - 1. send k = 0) \<and> (rc = 0 \<longrightarrow> n = 16)"
    using send_attempts_spec[OF a zero_less_numeral] by (metis le0)
  ultimately show ?thesis by (intro exI[of _ rc] exI[of _ n]) (rule conjI)
qed

theorem ipv4_sendto_retries_witness:
  "\<exists>rc n. samp_net_ipv4_sendto (\<lambda>k. if k < 3 then 0 else 5) 10054 7 (Some [1, 2, 3, 4, 5]) 5 (Some 0) =
     (rc, n, Some (if rc < 0 then 10054 else 0)) \<and> 0 < n \<and> n \<le> 16"
proof -
  have five: "(5 :: u32) \<noteq> 0" "(5 :: u32) \<le> 0x7FFFFFFF" by simp_all
  have "(7 :: u32) \<noteq> SAMP_INVALID_SOCKET" by (simp add: SAMP_INVALID_SOCKET_def)
  from ipv4_sendto_retries[OF this five, of "\<lambda>k. if k < 3 then 0 else 5" 10054 "[1, 2, 3, 4, 5]" 0]
  show ?thesis by blast
qed

text \<open>How many addresses the loop stores, and where.\<close>

definition collected :: "(u32 \<Rightarrow> string option) \<Rightarrow> u32 \<Rightarrow> string" where
  "collected ntoa a = (case ntoa a of None \<Rightarrow> [] | Some t \<Rightarrow> take 15 t)"

lemma collect_loop_eq:
  assumes "max_addrs \<le> length out" "count \<le> max_addrs" "count \<le> 40"
  shows "collect_loop ntoa max_addrs as count out =
    (let n = min (length as) (min max_addrs 40 - count) in
     Some (count + n, take count out @ map (collected ntoa) (take n as) @ drop (count + n) out))"
  using assms
proof (induction as arbitrary: count out)
  case Nil
  then show ?case by simp
next
  case (Cons a as)
  show ?case
  proof (cases "count < max_addrs \<and> count < 40")
    case False
    then have "min max_addrs 40 - count = 0" by auto
    moreover have "collect_loop ntoa max_addrs (a # as) count out = Some (count, out)" using False by auto
    ultimately show ?thesis by (simp add: Let_def)
  next
    case True
    let ?out = "out[count := collected ntoa a]"
    have "collect_loop ntoa max_addrs (a # as) count out = collect_loop ntoa max_addrs as (count + 1) ?out"
      using True Cons.prems by (simp add: collected_def SAMP_NET_IPV4_ADDR_STR_MAX_def cong: option.case_cong)
    also have "\<dots> = (let n = min (length as) (min max_addrs 40 - (count + 1)) in
      Some (count + 1 + n, take (count + 1) ?out @ map (collected ntoa) (take n as) @ drop (count + 1 + n) ?out))"
      by (rule Cons.IH) (use True Cons.prems in auto)
    also have "\<dots> = (let n = min (length (a # as)) (min max_addrs 40 - count) in
      Some (count + n, take count out @ map (collected ntoa) (take n (a # as)) @ drop (count + n) out))"
    proof -
      have n: "min (length (a # as)) (min max_addrs 40 - count) = Suc (min (length as) (min max_addrs 40 - (count + 1)))"
        using True by auto
      have "take (Suc count) ?out = take count out @ [collected ntoa a]"
        using True Cons.prems by (simp add: take_Suc_conv_app_nth)
      then show ?thesis unfolding n by (simp add: Let_def)
    qed
    finally show ?thesis .
  qed
qed

text \<open>Collecting the local addresses writes only inside the caller's array: it fills the first entries
  with at most 15 characters each, as many as there are addresses, at most \<^verbatim>\<open>max_addrs\<close> and at most 40, and
  leaves the rest of the array as it was.\<close>

theorem ipv4_collect_in_bounds:
  assumes "length out = max_addrs"
  shows "\<exists>n. n = min (length as) (min max_addrs 40) \<and>
    samp_net_ipv4_collect_local_addrs ntoa (Some as) (Some out) max_addrs (Some c) =
      Some (0, Some n, Some (map (collected ntoa) (take n as) @ drop n out))"
  using collect_loop_eq[of max_addrs out 0 ntoa as] assms
  by (simp add: samp_net_ipv4_collect_local_addrs_def Let_def)

theorem ipv4_collect_in_bounds_witness:
  "samp_net_ipv4_collect_local_addrs (\<lambda>_. Some ''10.0.0.1'') (Some [1, 2, 3]) (Some [[], ''x'']) 2 (Some 9) =
     Some (0, Some 2, Some [''10.0.0.1'', ''10.0.0.1''])"
  using ipv4_collect_in_bounds[of "[[], ''x'']" 2 "[1, 2, 3]" "\<lambda>_. Some ''10.0.0.1''" 9]
  by (simp add: collected_def numeral_2_eq_2)

end
