(* ===== verification/TcpBootstrap.thy ===== *)
theory TcpBootstrap
  imports Ipv4Sockets
begin

text \<open>
  \<^verbatim>\<open>src/net/raknet_client_adapter_stub.c\<close>, the adapter of builds without RakNet, and
  \<^verbatim>\<open>src/net/tcp_bootstrap_manager.c\<close>, the listener and connection manager above the sockets and an
  adapter. The adapter is an interface: the manager's functions take its operations as a record, the
  locale \<open>raknet_adapter\<close> states what \<^verbatim>\<open>raknet_client_adapter.h\<close> documents of them, and the stub is
  shown to provide it. A client handle is a word, 0 is NULL.
\<close>

section \<open>The adapter without RakNet\<close>

definition samp_raknet_client_available :: bool where
  "samp_raknet_client_available = False"

text \<open>The return value and \<^verbatim>\<open>*out_client\<close>, which is cleared.\<close>

definition samp_raknet_client_create :: "u32 option \<Rightarrow> int \<times> u32 option" where
  "samp_raknet_client_create out_client = (- 1, map_option (\<lambda>_. 0) out_client)"

definition samp_raknet_client_destroy :: "u32 \<Rightarrow> int" where
  "samp_raknet_client_destroy client = 0"

definition samp_raknet_client_connect :: "u32 \<Rightarrow> string option \<Rightarrow> u16 \<Rightarrow> u16 \<Rightarrow> int \<Rightarrow> int" where
  "samp_raknet_client_connect client host server_port client_port thread_sleep_timer = - 1"

definition samp_raknet_client_is_connected :: "u32 \<Rightarrow> int" where
  "samp_raknet_client_is_connected client = 0"

definition samp_raknet_client_drain_packets :: "u32 \<Rightarrow> int \<Rightarrow> int" where
  "samp_raknet_client_drain_packets client max_packets = (if max_packets < 0 then - 1 else 0)"

text \<open>The return value and the three optional outputs.\<close>

definition samp_raknet_client_drain_packets_autojoin ::
  "u32 \<Rightarrow> int \<Rightarrow> int option \<Rightarrow> int option \<Rightarrow> int option \<Rightarrow> int \<times> int option \<times> int option \<times> int option" where
  "samp_raknet_client_drain_packets_autojoin client max_packets connected join_sent last_packet_id =
     (if max_packets < 0 then (- 1, connected, join_sent, last_packet_id)
      else (0, map_option (\<lambda>_. 0) connected, map_option (\<lambda>_. 0) join_sent, map_option (\<lambda>_. - 1) last_packet_id))"

definition samp_raknet_client_get_object_lifecycle_stub :: "u32 \<Rightarrow> u16 \<Rightarrow> u8 option \<Rightarrow> int \<times> u8 option" where
  "samp_raknet_client_get_object_lifecycle_stub client object_id out_alive = (- 1, map_option (\<lambda>_. 0) out_alive)"

section \<open>The adapter as an interface\<close>

record raknet_ops =
  op_available :: bool
  op_create :: "u32 option \<Rightarrow> int \<times> u32 option"
  op_destroy :: "u32 \<Rightarrow> int"
  op_connect :: "u32 \<Rightarrow> string option \<Rightarrow> u16 \<Rightarrow> u16 \<Rightarrow> int \<Rightarrow> int"
  op_is_connected :: "u32 \<Rightarrow> int"
  op_drain :: "u32 \<Rightarrow> int \<Rightarrow> int"

definition raknet_stub :: raknet_ops where
  "raknet_stub = \<lparr>op_available = samp_raknet_client_available, op_create = samp_raknet_client_create,
     op_destroy = samp_raknet_client_destroy, op_connect = samp_raknet_client_connect,
     op_is_connected = samp_raknet_client_is_connected, op_drain = samp_raknet_client_drain_packets\<rparr>"

section \<open>The manager\<close>

record samp_tcp_bootstrap_manager =
  initialized :: bool
  running :: bool
  use_raknet_client :: bool
  init_count :: u32
  start_count :: u32
  stop_count :: u32
  listen_socket :: samp_socket_t
  listen_port :: u16
  raknet_client :: u32
  raknet_client_port :: u16

definition zero_manager :: samp_tcp_bootstrap_manager where
  "zero_manager = \<lparr>initialized = False, running = False, use_raknet_client = False, init_count = 0,
     start_count = 0, stop_count = 0, listen_socket = SAMP_INVALID_SOCKET, listen_port = 0,
     raknet_client = 0, raknet_client_port = 0\<rparr>"

text \<open>Each function returns its result, \<^verbatim>\<open>*manager\<close> and the sockets.\<close>

definition samp_net_mgr_init ::
  "raknet_ops \<Rightarrow> net_env \<Rightarrow> samp_tcp_bootstrap_manager option \<Rightarrow> net_state \<Rightarrow>
     int \<times> samp_tcp_bootstrap_manager option \<times> net_state" where
  "samp_net_mgr_init ops env mgr s = (case mgr of None \<Rightarrow> (- 1, None, s)
     | Some m0 \<Rightarrow>
         if initialized m0 then (0, Some m0, s)
         else (case samp_net_runtime_init env s of (rc, s1) \<Rightarrow>
           if rc \<noteq> 0 then (- 1, Some zero_manager, s1)
           else
             let m1 = (if op_available ops
                       then (case op_create ops (Some (raknet_client zero_manager)) of (crc, c) \<Rightarrow>
                          let m = zero_manager\<lparr>raknet_client := the c\<rparr> in
                          if crc = 0 \<and> raknet_client m \<noteq> 0 then m\<lparr>use_raknet_client := True\<rparr> else m)
                       else zero_manager)
             in (0, Some (m1\<lparr>initialized := True, init_count := 1\<rparr>), s1)))"

definition samp_net_mgr_start_listener ::
  "net_env \<Rightarrow> u16 \<Rightarrow> u16 \<Rightarrow> samp_tcp_bootstrap_manager option \<Rightarrow> net_state \<Rightarrow>
     int \<times> samp_tcp_bootstrap_manager option \<times> net_state" where
  "samp_net_mgr_start_listener env port backlog mgr s = (case mgr of None \<Rightarrow> (- 1, None, s)
     | Some m \<Rightarrow>
         if \<not> initialized m \<or> running m then (- 1, mgr, s)
         else (case samp_net_ipv4_tcp_listen env port backlog (Some SAMP_INVALID_SOCKET) s of (rc, out, s1) \<Rightarrow>
           if rc \<noteq> 0 then (- 1, mgr, s1)
           else case samp_net_ipv4_getsockname_port env (the out) (Some 0) of (grc, bound) \<Rightarrow>
             if grc \<noteq> 0 then (- 1, mgr, samp_net_close_socket (the out) s1)
             else (0, Some (m\<lparr>listen_socket := the out, listen_port := the bound, running := True,
                     start_count := start_count m + 1\<rparr>), s1)))"

definition samp_net_mgr_connect ::
  "net_env \<Rightarrow> string option \<Rightarrow> u16 \<Rightarrow> samp_socket_t option \<Rightarrow> samp_tcp_bootstrap_manager option \<Rightarrow> net_state \<Rightarrow>
     int \<times> samp_socket_t option \<times> net_state" where
  "samp_net_mgr_connect env host port_number out mgr s = (case mgr of None \<Rightarrow> (- 1, out, s)
     | Some m \<Rightarrow> if \<not> initialized m \<or> out = None then (- 1, out, s)
         else samp_net_ipv4_tcp_connect env host port_number out s)"

text \<open>The guard shared by the RakNet functions.\<close>

definition has_raknet :: "samp_tcp_bootstrap_manager option \<Rightarrow> bool" where
  "has_raknet mgr \<longleftrightarrow> (case mgr of None \<Rightarrow> False
     | Some m \<Rightarrow> initialized m \<and> use_raknet_client m \<and> raknet_client m \<noteq> 0)"

definition samp_net_mgr_connect_raknet ::
  "raknet_ops \<Rightarrow> string option \<Rightarrow> u16 \<Rightarrow> u16 \<Rightarrow> int \<Rightarrow> samp_tcp_bootstrap_manager option \<Rightarrow>
     int \<times> samp_tcp_bootstrap_manager option" where
  "samp_net_mgr_connect_raknet ops host port_number client_port timer mgr =
     (if \<not> has_raknet mgr then (- 1, mgr)
      else (if op_connect ops (raknet_client (the mgr)) host port_number client_port timer \<noteq> 0 then - 1 else 0,
            Some ((the mgr)\<lparr>raknet_client_port := client_port\<rparr>)))"

definition samp_net_mgr_raknet_is_connected :: "raknet_ops \<Rightarrow> samp_tcp_bootstrap_manager option \<Rightarrow> int" where
  "samp_net_mgr_raknet_is_connected ops mgr =
     (if \<not> has_raknet mgr then 0 else op_is_connected ops (raknet_client (the mgr)))"

definition samp_net_mgr_raknet_pump :: "raknet_ops \<Rightarrow> samp_tcp_bootstrap_manager option \<Rightarrow> int \<Rightarrow> int" where
  "samp_net_mgr_raknet_pump ops mgr max_packets =
     (if \<not> has_raknet mgr then - 1 else op_drain ops (raknet_client (the mgr)) max_packets)"

definition samp_net_mgr_uses_raknet :: "samp_tcp_bootstrap_manager option \<Rightarrow> int" where
  "samp_net_mgr_uses_raknet mgr = (case mgr of None \<Rightarrow> 0
     | Some m \<Rightarrow> if \<not> initialized m then 0 else if use_raknet_client m then 1 else 0)"

definition samp_net_mgr_stop ::
  "samp_tcp_bootstrap_manager option \<Rightarrow> net_state \<Rightarrow> int \<times> samp_tcp_bootstrap_manager option \<times> net_state" where
  "samp_net_mgr_stop mgr s = (case mgr of None \<Rightarrow> (- 1, None, s)
     | Some m \<Rightarrow> if \<not> initialized m then (- 1, mgr, s)
         else
           let (m1, s1) = (if listen_socket m \<noteq> SAMP_INVALID_SOCKET
                           then (m\<lparr>listen_socket := SAMP_INVALID_SOCKET\<rparr>, samp_net_close_socket (listen_socket m) s)
                           else (m, s))
           in (0, Some (m1\<lparr>running := False, listen_port := 0, stop_count := stop_count m + 1\<rparr>), s1))"

definition samp_net_mgr_destroy ::
  "samp_tcp_bootstrap_manager option \<Rightarrow> net_state \<Rightarrow> int \<times> samp_tcp_bootstrap_manager option \<times> net_state" where
  "samp_net_mgr_destroy mgr s = (case mgr of None \<Rightarrow> (- 1, None, s)
     | Some m \<Rightarrow> if \<not> initialized m then (0, mgr, s)
         else (case samp_net_mgr_stop mgr s of (_, _, s1) \<Rightarrow>
           (0, Some zero_manager, samp_net_runtime_shutdown s1)))"

section \<open>The contract of an adapter\<close>

text \<open>
  What the header promises: draining returns how many packets it drained, at most as many as asked for,
  or -1 when asked for a negative number.
\<close>

locale raknet_adapter =
  fixes ops :: raknet_ops
  assumes drain_invalid: "n < 0 \<Longrightarrow> op_drain ops c n = - 1"
    and drain_bounds: "0 \<le> n \<Longrightarrow> 0 \<le> op_drain ops c n \<and> op_drain ops c n \<le> n"
begin

lemma pump_bounds:
  "- 1 \<le> samp_net_mgr_raknet_pump ops mgr n \<and>
   samp_net_mgr_raknet_pump ops mgr n \<le> max n (- 1) \<and>
   (samp_net_mgr_raknet_pump ops mgr n = - 1 \<longleftrightarrow> \<not> has_raknet mgr \<or> n < 0)"
  using drain_invalid[of n "raknet_client (the mgr)"] drain_bounds[of n "raknet_client (the mgr)"]
  by (cases "n < 0") (auto simp: samp_net_mgr_raknet_pump_def)

end

interpretation stub: raknet_adapter raknet_stub
  by unfold_locales (simp_all add: raknet_stub_def samp_raknet_client_drain_packets_def)

section \<open>Lifecycle\<close>

text \<open>
  A call of the manager that changes it, and a session: a sequence of calls from any state.
\<close>

datatype mgr_call = Init | Start u16 u16 | ConnectRaknet "string option" u16 u16 int | Stop

definition mgr_do ::
  "raknet_ops \<Rightarrow> net_env \<Rightarrow> mgr_call \<Rightarrow> samp_tcp_bootstrap_manager \<times> net_state \<Rightarrow>
     samp_tcp_bootstrap_manager \<times> net_state" where
  "mgr_do ops env c st = (case c of
     Init \<Rightarrow> (case samp_net_mgr_init ops env (Some (fst st)) (snd st) of (_, m, s) \<Rightarrow> (the m, s))
   | Start p b \<Rightarrow> (case samp_net_mgr_start_listener env p b (Some (fst st)) (snd st) of (_, m, s) \<Rightarrow> (the m, s))
   | ConnectRaknet h p q t \<Rightarrow>
       (case samp_net_mgr_connect_raknet ops h p q t (Some (fst st)) of (_, m) \<Rightarrow> (the m, snd st))
   | Stop \<Rightarrow> (case samp_net_mgr_stop (Some (fst st)) (snd st) of (_, m, s) \<Rightarrow> (the m, s)))"

text \<open>
  The invariant, against the sockets \<open>base\<close> that others have open: a manager listens exactly while it
  runs, its listening socket is then the only one it holds, and it has a client exactly when it uses one.
\<close>

definition mgr_inv :: "samp_socket_t list \<Rightarrow> samp_tcp_bootstrap_manager \<times> net_state \<Rightarrow> bool" where
  "mgr_inv base st \<longleftrightarrow> (case st of (m, s) \<Rightarrow>
     if initialized m
     then running m = (listen_socket m \<noteq> SAMP_INVALID_SOCKET) \<and> (\<not> running m \<longrightarrow> listen_port m = 0) \<and>
       open_socks s = (if running m then [listen_socket m] else []) @ base
     else open_socks s = base)"

lemma mgr_init_inv: "mgr_inv base st \<Longrightarrow> mgr_inv base (mgr_do ops env Init st)"
  by (auto simp: mgr_inv_def mgr_do_def samp_net_mgr_init_def zero_manager_def Let_def
      split: prod.splits if_splits dest!: runtime_init_socks)

lemma mgr_start_inv:
  assumes "mgr_inv base st"
  shows "mgr_inv base (mgr_do ops env (Start p b) st)"
proof -
  obtain m s where st: "st = (m, s)" by (cases st)
  obtain rc out s1 where l: "samp_net_ipv4_tcp_listen env p b (Some SAMP_INVALID_SOCKET) s = (rc, out, s1)"
    by (metis surj_pair)
  have r: "socket_result s (rc, out, s1)" using tcp_listen_socks[of s env p b SAMP_INVALID_SOCKET] by (simp add: l)
  show ?thesis
  proof (cases "rc = 0")
    case True
    then obtain fd where fd: "out = Some fd" "fd \<noteq> SAMP_INVALID_SOCKET" "open_socks s1 = fd # open_socks s"
      using r by (auto simp: socket_result_def)
    then show ?thesis
      using assms True
      by (auto simp: st mgr_inv_def mgr_do_def samp_net_mgr_start_listener_def l
        samp_net_close_socket_def samp_net_ipv4_getsockname_port_def split: option.splits if_splits)
  next
    case False
    then show ?thesis
      using assms r
      by (auto simp: st mgr_inv_def mgr_do_def samp_net_mgr_start_listener_def l socket_result_def)
  qed
qed

lemma mgr_connect_raknet_inv: "mgr_inv base st \<Longrightarrow> mgr_inv base (mgr_do ops env (ConnectRaknet h p q t) st)"
  by (auto simp: mgr_inv_def mgr_do_def samp_net_mgr_connect_raknet_def split: if_splits)

lemma mgr_stop_inv: "mgr_inv base st \<Longrightarrow> mgr_inv base (mgr_do ops env Stop st)"
  by (auto simp: mgr_inv_def mgr_do_def samp_net_mgr_stop_def samp_net_close_socket_def split: if_splits)

lemma mgr_do_inv: "mgr_inv base st \<Longrightarrow> mgr_inv base (mgr_do ops env c st)"
  by (cases c) (simp_all add: mgr_init_inv mgr_start_inv mgr_connect_raknet_inv mgr_stop_inv)

lemma mgr_calls_inv: "mgr_inv base st \<Longrightarrow> mgr_inv base (fold (mgr_do ops env) cs st)"
  by (induction cs arbitrary: st) (simp_all add: mgr_do_inv)

text \<open>Whatever calls a manager has been through, in any order and with any socket call failing, it
  listens exactly while it runs and holds no socket but its listening one; destroying it then closes
  that one, so that exactly the sockets of others remain, and leaves the manager uninitialised.\<close>

theorem tcp_manager_lifecycle:
  assumes "open_socks s = base"
    and "fold (mgr_do ops env) cs (zero_manager, s) = (m, s1)"
    and "samp_net_mgr_destroy (Some m) s1 = (rc, m', s2)"
  shows "mgr_inv base (m, s1) \<and> rc = 0 \<and> open_socks s2 = base \<and> \<not> initialized (the m')"
proof -
  have "mgr_inv base (zero_manager, s)" using assms(1) by (simp add: mgr_inv_def zero_manager_def)
  then have inv: "mgr_inv base (m, s1)" using mgr_calls_inv[of base _ ops env cs] assms(2) by metis
  then show ?thesis
    using assms(3)
    by (auto simp: mgr_inv_def samp_net_mgr_destroy_def samp_net_mgr_stop_def samp_net_close_socket_def
        samp_net_runtime_shutdown_def zero_manager_def split: if_splits)
qed

theorem tcp_manager_lifecycle_witness:
  "open_socks (snd (snd (samp_net_mgr_destroy
     (Some (fst (fold (mgr_do raknet_stub one_host_env) [Init, Start 7777 0, Stop, Start 7778 5] (zero_manager, fresh_net))))
     (snd (fold (mgr_do raknet_stub one_host_env) [Init, Start 7777 0, Stop, Start 7778 5] (zero_manager, fresh_net)))))) = []"
proof -
  obtain m s1 where f: "fold (mgr_do raknet_stub one_host_env) [Init, Start 7777 0, Stop, Start 7778 5]
      (zero_manager, fresh_net) = (m, s1)" by (metis surj_pair)
  obtain rc m' s2 where d: "samp_net_mgr_destroy (Some m) s1 = (rc, m', s2)" by (metis surj_pair)
  have "open_socks fresh_net = []" by (simp add: fresh_net_def)
  from tcp_manager_lifecycle[OF this f d] show ?thesis by (simp only: f fst_conv snd_conv d)
qed

text \<open>Pumping through an adapter that keeps its documented contract, as the stub does, never reports
  more packets than asked for, and reports -1 exactly when there is no client to drain or the number
  asked for is negative.\<close>

theorem raknet_pump_contract:
  "- 1 \<le> samp_net_mgr_raknet_pump raknet_stub mgr n \<and>
   samp_net_mgr_raknet_pump raknet_stub mgr n \<le> max n (- 1) \<and>
   (samp_net_mgr_raknet_pump raknet_stub mgr n = - 1 \<longleftrightarrow> \<not> has_raknet mgr \<or> n < 0)"
  by (rule stub.pump_bounds)

theorem raknet_pump_contract_witness:
  "samp_net_mgr_raknet_pump raknet_stub (Some zero_manager) 5 = - 1 \<and>
   0 \<le> samp_net_mgr_raknet_pump raknet_stub
     (Some (zero_manager\<lparr>initialized := True, use_raknet_client := True, raknet_client := 1\<rparr>)) 5"
  using raknet_pump_contract[of "Some zero_manager" 5] raknet_pump_contract[of "Some (zero_manager\<lparr>initialized := True,
      use_raknet_client := True, raknet_client := 1\<rparr>)" 5]
  by (auto simp: has_raknet_def zero_manager_def)

text \<open>
  The static flag of \<^verbatim>\<open>samp_net_runtime_init\<close> is never reset: after a manager is destroyed and its
  \<^verbatim>\<open>WSACleanup\<close> has run, initialising one again succeeds without a new \<^verbatim>\<open>WSAStartup\<close>.
\<close>

text \<open>C29: A manager initialised again after it was destroyed reports success although the socket library
  has been shut down: the startup count stays at zero, because the init flag survives the shutdown.\<close>

theorem tcp_manager_reinit_unstarted:
  assumes "samp_net_mgr_init ops env (Some zero_manager) fresh_net = (0, Some m, s1)"
    and "samp_net_mgr_destroy (Some m) s1 = (0, m', s2)"
  shows "\<exists>m'' s3. samp_net_mgr_init ops env m' s2 = (0, Some m'', s3) \<and> initialized m'' \<and> wsa_refs s3 = 0"
proof -
  have s1: "wsa_initialized s1" "wsa_refs s1 = 1" "initialized m"
    using assms(1)
    by (auto simp: samp_net_mgr_init_def samp_net_runtime_init_def fresh_net_def tick_def zero_manager_def
        Let_def split: if_splits)
  then have "m' = Some zero_manager" "wsa_initialized s2" "wsa_refs s2 = 0"
    using assms(2)
    by (auto simp: samp_net_mgr_destroy_def samp_net_mgr_stop_def samp_net_runtime_shutdown_def
        samp_net_close_socket_def Let_def split: if_splits)
  then show ?thesis
    by (simp add: samp_net_mgr_init_def samp_net_runtime_init_def zero_manager_def Let_def split: prod.split)
qed

theorem tcp_manager_reinit_unstarted_witness:
  "\<exists>m m' s1 s2 m'' s3. samp_net_mgr_init raknet_stub one_host_env (Some zero_manager) fresh_net = (0, Some m, s1) \<and>
     samp_net_mgr_destroy (Some m) s1 = (0, m', s2) \<and>
     samp_net_mgr_init raknet_stub one_host_env m' s2 = (0, Some m'', s3) \<and> wsa_refs s3 = 0"
proof -
  obtain m s1 where i: "samp_net_mgr_init raknet_stub one_host_env (Some zero_manager) fresh_net = (0, Some m, s1)"
    by (simp add: samp_net_mgr_init_def samp_net_runtime_init_def fresh_net_def one_host_env_def Let_def
      zero_manager_def split: prod.split)
  obtain m' s2 where d: "samp_net_mgr_destroy (Some m) s1 = (0, m', s2)"
    using i by (auto simp: samp_net_mgr_destroy_def samp_net_mgr_stop_def samp_net_mgr_init_def zero_manager_def
        Let_def split: prod.splits if_splits)
  from tcp_manager_reinit_unstarted[OF i d] i d show ?thesis by blast
qed

end
