(* ===== verification/HookBridge.thy ===== *)
theory HookBridge
  imports Prelude
begin

text \<open>
  \<^verbatim>\<open>src/runtime_hook_bridge.c\<close>: the configuration of the graphics hooks, the machine code of the
  generated thunks, and the patching of the two call instructions.

  The game's memory is a function from addresses to bytes. A generated thunk lives outside it, with its
  address and code in the state: \<^verbatim>\<open>VirtualAlloc\<close> returns fresh memory. Reads of an address that is not
  mapped are not modelled. Oracles answer the successive calls of the Windows functions.
\<close>

section \<open>Configuration values\<close>

definition config_value_is_enabled :: "string option \<Rightarrow> bool" where
  "config_value_is_enabled value = (case value of None \<Rightarrow> False
     | Some t \<Rightarrow> t \<noteq> [] \<and> hd t \<in> {CHR ''1'', CHR ''y'', CHR ''Y'', CHR ''t'', CHR ''T''})"

text \<open>
  \<^verbatim>\<open>strtoul(text, &endptr, 0)\<close> of the C library: leading white space, a sign, the base from the prefix,
  as many digits as there are, saturation at \<^verbatim>\<open>ULONG_MAX\<close>. The result is the value and the rest of the
  text; with no digits the rest is the whole text.
\<close>

definition digit_of :: "nat \<Rightarrow> char \<Rightarrow> nat option" where
  "digit_of base c =
     (let n = (of_char c :: nat);
          d = (if 48 \<le> n \<and> n \<le> 57 then Some (n - 48)
               else if 65 \<le> n \<and> n \<le> 90 then Some (n - 55)
               else if 97 \<le> n \<and> n \<le> 122 then Some (n - 87) else None)
      in case d of None \<Rightarrow> None | Some v \<Rightarrow> if v < base then Some v else None)"

fun strtoul_digits :: "nat \<Rightarrow> string \<Rightarrow> nat \<Rightarrow> nat \<times> string" where
  "strtoul_digits base [] v = (v, [])"
| "strtoul_digits base (c # cs) v = (case digit_of base c of None \<Rightarrow> (v, c # cs)
     | Some d \<Rightarrow> strtoul_digits base cs (v * base + d))"

definition is_space :: "char \<Rightarrow> bool" where
  "is_space c \<longleftrightarrow> (of_char c :: nat) \<in> {9, 10, 11, 12, 13, 32}"

definition strtoul_base :: "string \<Rightarrow> nat \<times> string" where
  "strtoul_base t =
     (if length t \<ge> 3 \<and> t ! 0 = CHR ''0'' \<and> (t ! 1 = CHR ''x'' \<or> t ! 1 = CHR ''X'') \<and>
         digit_of 16 (t ! 2) \<noteq> None then (16, drop 2 t)
      else if t \<noteq> [] \<and> hd t = CHR ''0'' then (8, t) else (10, t))"

definition strtoul0 :: "string \<Rightarrow> u32 \<times> string" where
  "strtoul0 text =
     (let t = dropWhile is_space text;
          negative = (t \<noteq> [] \<and> hd t = CHR ''-'');
          u = (if t \<noteq> [] \<and> (hd t = CHR ''-'' \<or> hd t = CHR ''+'') then tl t else t);
          (base, digits) = strtoul_base u
      in if digits = [] \<or> digit_of base (hd digits) = None then (0, text)
         else case strtoul_digits base digits 0 of (v, rest) \<Rightarrow>
           (if v > 0xFFFFFFFF then 0xFFFFFFFF else if negative then - of_nat v else of_nat v, rest))"

text \<open>\<^verbatim>\<open>unsigned long\<close> has 32 bits, so \<^verbatim>\<open>parsed > 0xffffffffUL\<close> is never true.\<close>

definition parse_u32_env_hex :: "string option \<Rightarrow> u32 option" where
  "parse_u32_env_hex text = (case text of None \<Rightarrow> None | Some t \<Rightarrow>
     if t = [] then None
     else case strtoul0 t of (parsed, rest) \<Rightarrow>
       if rest = t \<or> rest \<noteq> [] then None else Some parsed)"

section \<open>Where a setting comes from\<close>

text \<open>
  \<open>getenv\<close>, the module's path (\<open>None\<close> when \<^verbatim>\<open>GetModuleFileNameA\<close> fails), \<^verbatim>\<open>GetPrivateProfileStringA\<close> of
  a file, section and key (the empty text when there is none), and the registry: the type and text of
  the value under the \<open>i\<close>-th key, when it can be opened and read.
\<close>

record config_env =
  ce_getenv :: "string \<Rightarrow> string option"
  ce_module_path :: "string option"
  ce_profile :: "string \<Rightarrow> string \<Rightarrow> string \<Rightarrow> string"
  ce_registry :: "nat \<Rightarrow> string \<Rightarrow> (u32 \<times> string) option"

definition MAX_PATH :: nat where "MAX_PATH = 260"
definition REG_SZ :: u32 where "REG_SZ = 1"
definition REG_EXPAND_SZ :: u32 where "REG_EXPAND_SZ = 2"

definition module_ini_path :: "config_env \<Rightarrow> nat \<Rightarrow> string option" where
  "module_ini_path env out_path_size = (case ce_module_path env of None \<Rightarrow> None
     | Some path \<Rightarrow>
         if path = [] \<or> length path \<ge> MAX_PATH \<or> CHR 0x5C \<notin> set path then None
         else let ini = rev (dropWhile (\<lambda>c. c \<noteq> CHR 0x5C) (rev path)) @ ''sampdll.ini'' in
           if length ini < out_path_size then Some ini else None)"

text \<open>The value, cut to the buffer, or \<open>None\<close> for the return value 0.\<close>

definition ini_read_environment_value :: "config_env \<Rightarrow> string \<Rightarrow> nat \<Rightarrow> string option" where
  "ini_read_environment_value env name out_value_size =
     (if name = [] \<or> out_value_size = 0 then None
      else case module_ini_path env MAX_PATH of None \<Rightarrow> None
      | Some ini \<Rightarrow>
          let v = take (out_value_size - 1) (ce_profile env ini ''sampdll'' name);
              w = (if v = [] then take (out_value_size - 1) (ce_profile env ini ''env'' name) else v)
          in if w = [] then None else Some w)"

text \<open>The loop over the three registry keys, from key \<open>i\<close> on.\<close>

function registry_read_from :: "config_env \<Rightarrow> string \<Rightarrow> nat \<Rightarrow> nat \<Rightarrow> string option" where
  "registry_read_from env name out_value_size i =
     (if i < 3 then
        (case ce_registry env i name of
           Some (type, text) \<Rightarrow>
             if type = REG_SZ \<or> type = REG_EXPAND_SZ
             then let v = take (out_value_size - 1) text in if v = [] then None else Some v
             else registry_read_from env name out_value_size (i + 1)
         | None \<Rightarrow> registry_read_from env name out_value_size (i + 1))
      else None)"
  by pat_completeness auto
termination by (relation "measure (\<lambda>(_, _, _, i). 3 - i)") auto

declare registry_read_from.simps [simp del]

definition registry_read_environment_value :: "config_env \<Rightarrow> string \<Rightarrow> nat \<Rightarrow> string option" where
  "registry_read_environment_value env name out_value_size =
     (if name = [] \<or> out_value_size = 0 then None else registry_read_from env name out_value_size 0)"

definition env_flag_is_enabled :: "config_env \<Rightarrow> string \<Rightarrow> bool" where
  "env_flag_is_enabled env name =
     (case ini_read_environment_value env name 64 of
        Some v \<Rightarrow> config_value_is_enabled (Some v)
      | None \<Rightarrow>
          (case ce_getenv env name of
             Some v \<Rightarrow> if v \<noteq> [] then config_value_is_enabled (Some v)
                       else config_value_is_enabled (registry_read_environment_value env name 64)
           | None \<Rightarrow> config_value_is_enabled (registry_read_environment_value env name 64)))"

section \<open>The bridge\<close>

record samp_runtime_hook_bridge =
  enabled :: bool
  configured :: bool
  hook_installed :: bool
  install_attempted :: bool
  install_succeeded :: bool
  callback_after_original :: bool
  graphics_call_disp_addr :: u32
  graphics_call_opcode :: u8
  graphics_call_saved_disp :: "u8 list"
  graphics_call_original_target :: u32
  secondary_configured :: bool
  secondary_installed :: bool
  graphics_call_disp_addr_secondary :: u32
  graphics_call_opcode_secondary :: u8
  graphics_call_saved_disp_secondary :: "u8 list"
  graphics_call_original_target_secondary :: u32

definition zero_bridge :: samp_runtime_hook_bridge where
  "zero_bridge = \<lparr>enabled = False, configured = False, hook_installed = False, install_attempted = False,
     install_succeeded = False, callback_after_original = False, graphics_call_disp_addr = 0,
     graphics_call_opcode = 0, graphics_call_saved_disp = [0, 0, 0, 0], graphics_call_original_target = 0,
     secondary_configured = False, secondary_installed = False, graphics_call_disp_addr_secondary = 0,
     graphics_call_opcode_secondary = 0, graphics_call_saved_disp_secondary = [0, 0, 0, 0],
     graphics_call_original_target_secondary = 0\<rparr>"

definition SAMP_RE_GRAPHICS_CALL_DISP_ADDR :: u32 where "SAMP_RE_GRAPHICS_CALL_DISP_ADDR = 0x53EB13"
definition SAMP_RE_GRAPHICS_CALL_DISP_ADDR_SECONDARY :: u32 where
  "SAMP_RE_GRAPHICS_CALL_DISP_ADDR_SECONDARY = 0x53EB1A"

text \<open>The defaults that reverse-engineering mode fills in.\<close>

definition apply_re_defaults :: "bool \<Rightarrow> samp_runtime_hook_bridge \<Rightarrow> samp_runtime_hook_bridge" where
  "apply_re_defaults secondary_mode b =
     (let b1 = (if configured b then b
                else b\<lparr>graphics_call_disp_addr := SAMP_RE_GRAPHICS_CALL_DISP_ADDR, configured := True\<rparr>)
      in if \<not> secondary_configured b1 \<and> secondary_mode
         then b1\<lparr>graphics_call_disp_addr_secondary := SAMP_RE_GRAPHICS_CALL_DISP_ADDR_SECONDARY,
                secondary_configured := True\<rparr>
         else b1)"

definition nonempty_env :: "config_env \<Rightarrow> string \<Rightarrow> string option" where
  "nonempty_env env name = (case ce_getenv env name of None \<Rightarrow> None | Some t \<Rightarrow> if t = [] then None else Some t)"

definition samp_hook_bridge_configure_from_env :: "config_env \<Rightarrow> int \<times> samp_runtime_hook_bridge" where
  "samp_hook_bridge_configure_from_env env =
     (let re_mode = env_flag_is_enabled env ''SAMPDLL_ENABLE_RE_GRAPHICS_HOOKS'';
          re_secondary = env_flag_is_enabled env ''SAMPDLL_ENABLE_RE_GRAPHICS_HOOKS_SECONDARY'';
          b0 = zero_bridge\<lparr>enabled := re_mode \<or> env_flag_is_enabled env ''SAMPDLL_ENABLE_RUNTIME_HOOKS'',
                 callback_after_original := env_flag_is_enabled env ''SAMPDLL_GRAPHICS_HOOK_POST_CALLBACK''\<rparr>;
          text1 = nonempty_env env ''SAMPDLL_HOOK_GRAPHICS_CALL_DISP'';
          text2 = nonempty_env env ''SAMPDLL_HOOK_GRAPHICS_CALL_DISP2'' in
      if text1 \<noteq> None \<and> parse_u32_env_hex text1 = None then (- 1, b0)
      else
        let b1 = (if text1 = None then b0
                  else b0\<lparr>graphics_call_disp_addr := the (parse_u32_env_hex text1), configured := True\<rparr>) in
        if text2 \<noteq> None \<and> parse_u32_env_hex text2 = None then (- 1, b1)
        else
          let b2 = (if text2 = None then b1
                    else b1\<lparr>graphics_call_disp_addr_secondary := the (parse_u32_env_hex text2),
                           secondary_configured := True\<rparr>) in
          (0, if re_mode then apply_re_defaults re_secondary b2 else b2))"

section \<open>Thunks\<close>

text \<open>
  \<open>addr_*\<close> are the addresses of the static variables the code refers to. \<open>live_thunks\<close> lists the
  allocated and not yet freed pages.
\<close>

record hook_env =
  he_protect :: "nat \<Rightarrow> bool"
  he_alloc :: "nat \<Rightarrow> u32"
  he_free :: "nat \<Rightarrow> bool"
  addr_callback :: u32
  addr_original_primary :: u32
  addr_original_secondary :: u32

record hook_state =
  hk_mem :: "u32 \<Rightarrow> u8"
  hk_calls :: nat
  g_graphics_callback :: u32
  g_original_graphics_target_primary :: u32
  g_original_graphics_target_secondary :: u32
  g_generated_graphics_thunk_primary :: "(u32 \<times> u8 list) option"
  g_generated_graphics_thunk_secondary :: "(u32 \<times> u8 list) option"
  live_thunks :: "u32 list"

definition hk_tick :: "hook_state \<Rightarrow> hook_state" where
  "hk_tick s = s\<lparr>hk_calls := hk_calls s + 1\<rparr>"

definition SAMP_GRAPHICS_HOOK_STUB_SIZE :: nat where "SAMP_GRAPHICS_HOOK_STUB_SIZE = 25"

text \<open>
  The bytes stored through \<^verbatim>\<open>cursor\<close>: \<^verbatim>\<open>mov eax, [slot]; test eax, eax; jz +2; call/jmp eax\<close>, with the
  registers saved around the callback.
\<close>

definition load_and_test :: "u32 \<Rightarrow> u8 list" where
  "load_and_test slot = 0xA1 # bytes_of_le32 slot @ [0x85, 0xC0, 0x74, 0x02]"

definition thunk_code :: "u32 \<Rightarrow> u32 \<Rightarrow> bool \<Rightarrow> u8 list" where
  "thunk_code callback_slot original_slot after =
     (if after
      then load_and_test original_slot @ [0xFF, 0xD0, 0x60] @ load_and_test callback_slot @
             [0xFF, 0xD0, 0x61, 0xC3]
      else [0x60] @ load_and_test callback_slot @ [0xFF, 0xD0, 0x61] @ load_and_test original_slot @
             [0xFF, 0xE0, 0xC3])"

definition create_generated_graphics_hook_thunk ::
  "hook_env \<Rightarrow> u32 \<Rightarrow> bool \<Rightarrow> hook_state \<Rightarrow> (u32 \<times> u8 list) option \<times> hook_state" where
  "create_generated_graphics_hook_thunk env slot after s =
     (let page = he_alloc env (hk_calls s); s1 = hk_tick s in
      if page = 0 then (None, s1)
      else (Some (page, thunk_code (addr_callback env) slot after),
            s1\<lparr>live_thunks := page # live_thunks s1\<rparr>))"

definition free_generated_graphics_hook_thunk ::
  "hook_env \<Rightarrow> (u32 \<times> u8 list) option \<Rightarrow> hook_state \<Rightarrow> hook_state" where
  "free_generated_graphics_hook_thunk env thunk s = (case thunk of None \<Rightarrow> s
     | Some (page, _) \<Rightarrow>
         (hk_tick s)\<lparr>live_thunks := (if he_free env (hk_calls s) then remove1 page (live_thunks s) else live_thunks s)\<rparr>)"

definition free_generated_graphics_hook_thunks :: "hook_env \<Rightarrow> hook_state \<Rightarrow> hook_state" where
  "free_generated_graphics_hook_thunks env s =
     (let s1 = (free_generated_graphics_hook_thunk env (g_generated_graphics_thunk_secondary s) s)
                 \<lparr>g_generated_graphics_thunk_secondary := None\<rparr>
      in (free_generated_graphics_hook_thunk env (g_generated_graphics_thunk_primary s1) s1)
           \<lparr>g_generated_graphics_thunk_primary := None\<rparr>)"

section \<open>Patching a call\<close>

fun peek :: "(u32 \<Rightarrow> u8) \<Rightarrow> u32 \<Rightarrow> nat \<Rightarrow> u8 list" where
  "peek m a 0 = []"
| "peek m a (Suc n) = m a # peek m (a + 1) n"

fun poke :: "u32 \<Rightarrow> u8 list \<Rightarrow> (u32 \<Rightarrow> u8) \<Rightarrow> (u32 \<Rightarrow> u8)" where
  "poke a [] m = m"
| "poke a (b # bs) m = (poke (a + 1) bs m)(a := b)"

definition le32_of :: "u8 list \<Rightarrow> u32" where
  "le32_of bs = le32_of_bytes (bs ! 0) (bs ! 1) (bs ! 2) (bs ! 3)"

text \<open>
  \<^verbatim>\<open>install_call_disp_hook\<close>: the opcode, the saved displacement and the original target when it
  succeeds; they and the runtime slot are also stored when \<^verbatim>\<open>VirtualProtect\<close> fails. Signed and unsigned
  address arithmetic agree modulo \<open>2 ^ 32\<close>.
\<close>

definition install_call_disp_hook ::
  "hook_env \<Rightarrow> u32 \<Rightarrow> u32 \<Rightarrow> hook_state \<Rightarrow> int \<times> (u8 \<times> u8 list \<times> u32) option \<times> hook_state" where
  "install_call_disp_hook env call_disp_addr hook_thunk s =
     (if call_disp_addr < 1 \<or> hook_thunk = 0 then (- 1, None, s)
      else
        let call_opcode_addr = call_disp_addr - 1; opcode = hk_mem s call_opcode_addr in
        if opcode \<noteq> 0xE8 then (- 1, None, s)
        else
          let saved = peek (hk_mem s) call_disp_addr 4;
              original = call_opcode_addr + 5 + le32_of saved;
              rel32 = hook_thunk - (call_opcode_addr + 5) in
          if \<not> he_protect env (hk_calls s) then (- 1, Some (opcode, saved, original), hk_tick s)
          else (0, Some (opcode, saved, original),
                s\<lparr>hk_mem := poke call_disp_addr (bytes_of_le32 rel32) (hk_mem s), hk_calls := hk_calls s + 2\<rparr>))"

definition restore_call_disp_hook :: "hook_env \<Rightarrow> u32 \<Rightarrow> u8 list \<Rightarrow> hook_state \<Rightarrow> int \<times> hook_state" where
  "restore_call_disp_hook env call_disp_addr saved s =
     (if call_disp_addr < 1 then (- 1, s)
      else if \<not> he_protect env (hk_calls s) then (- 1, hk_tick s)
      else (0, s\<lparr>hk_mem := poke call_disp_addr saved (hk_mem s), hk_calls := hk_calls s + 2\<rparr>))"

section \<open>Installing and uninstalling\<close>

text \<open>The two installation blocks, which also store what the call found.\<close>

definition install_primary :: "hook_env \<Rightarrow> samp_runtime_hook_bridge \<Rightarrow> hook_state \<Rightarrow>
  samp_runtime_hook_bridge \<times> hook_state" where
  "install_primary env b s = (case g_generated_graphics_thunk_primary s of None \<Rightarrow> (b, s)
     | Some (page, _) \<Rightarrow>
         if \<not> (configured b \<and> graphics_call_disp_addr b \<ge> 1) then (b, s)
         else (case install_call_disp_hook env (graphics_call_disp_addr b) page s of (rc, found, s1) \<Rightarrow>
           let (b1, s2) = (case found of None \<Rightarrow> (b, s1)
                 | Some (opc, saved, target) \<Rightarrow>
                     (b\<lparr>graphics_call_opcode := opc, graphics_call_saved_disp := saved,
                        graphics_call_original_target := target\<rparr>,
                      s1\<lparr>g_original_graphics_target_primary := target\<rparr>))
           in (if rc = 0 then b1\<lparr>hook_installed := True, install_succeeded := True\<rparr> else b1, s2)))"

definition install_secondary :: "hook_env \<Rightarrow> samp_runtime_hook_bridge \<Rightarrow> hook_state \<Rightarrow>
  samp_runtime_hook_bridge \<times> hook_state" where
  "install_secondary env b s = (case g_generated_graphics_thunk_secondary s of None \<Rightarrow> (b, s)
     | Some (page, _) \<Rightarrow>
         if \<not> (secondary_configured b \<and> graphics_call_disp_addr_secondary b \<ge> 1) then (b, s)
         else (case install_call_disp_hook env (graphics_call_disp_addr_secondary b) page s of (rc, found, s1) \<Rightarrow>
           let (b1, s2) = (case found of None \<Rightarrow> (b, s1)
                 | Some (opc, saved, target) \<Rightarrow>
                     (b\<lparr>graphics_call_opcode_secondary := opc, graphics_call_saved_disp_secondary := saved,
                        graphics_call_original_target_secondary := target\<rparr>,
                      s1\<lparr>g_original_graphics_target_secondary := target\<rparr>))
           in (if rc = 0 then b1\<lparr>secondary_installed := True, install_succeeded := True\<rparr> else b1, s2)))"

definition create_thunks :: "hook_env \<Rightarrow> samp_runtime_hook_bridge \<Rightarrow> hook_state \<Rightarrow> hook_state" where
  "create_thunks env b s =
     (let s1 = (if configured b \<and> graphics_call_disp_addr b \<ge> 1
                then (case create_generated_graphics_hook_thunk env (addr_original_primary env)
                             (callback_after_original b) s of
                        (t, s') \<Rightarrow> s'\<lparr>g_generated_graphics_thunk_primary := t\<rparr>)
                else s)
      in if secondary_configured b \<and> graphics_call_disp_addr_secondary b \<ge> 1
         then (case create_generated_graphics_hook_thunk env (addr_original_secondary env)
                      (callback_after_original b) s1 of
                 (t, s') \<Rightarrow> s'\<lparr>g_generated_graphics_thunk_secondary := t\<rparr>)
         else s1)"

definition clear_hook_globals :: "hook_env \<Rightarrow> hook_state \<Rightarrow> hook_state" where
  "clear_hook_globals env s = free_generated_graphics_hook_thunks env
     (s\<lparr>g_graphics_callback := 0, g_original_graphics_target_primary := 0,
        g_original_graphics_target_secondary := 0\<rparr>)"

text \<open>An installation was attempted where a thunk could be made for a configured address.\<close>

definition attempted :: "samp_runtime_hook_bridge \<Rightarrow> hook_state \<Rightarrow> bool" where
  "attempted b s \<longleftrightarrow>
     configured b \<and> graphics_call_disp_addr b \<ge> 1 \<and> g_generated_graphics_thunk_primary s \<noteq> None \<or>
     secondary_configured b \<and> graphics_call_disp_addr_secondary b \<ge> 1 \<and>
       g_generated_graphics_thunk_secondary s \<noteq> None"

definition samp_hook_bridge_install_graphics_callback ::
  "hook_env \<Rightarrow> u32 \<Rightarrow> samp_runtime_hook_bridge \<Rightarrow> hook_state \<Rightarrow> int \<times> samp_runtime_hook_bridge \<times> hook_state" where
  "samp_hook_bridge_install_graphics_callback env graphics_callback bridge s =
     (if graphics_callback = 0 then (- 1, bridge, s)
      else
        let b = bridge\<lparr>install_attempted := True, hook_installed := False, secondary_installed := False,
                  install_succeeded := False\<rparr> in
        if \<not> enabled b \<or> (\<not> configured b \<and> \<not> secondary_configured b) then (0, b, s)
        else
          let s1 = (free_generated_graphics_hook_thunks env (s\<lparr>g_graphics_callback := graphics_callback\<rparr>))
                     \<lparr>g_original_graphics_target_primary := 0, g_original_graphics_target_secondary := 0\<rparr>;
              s2 = create_thunks env b s1;
              (b1, s3) = install_primary env b s2;
              (b2, s4) = install_secondary env b1 s3
          in if install_succeeded b2 then (0, b2, s4)
             else (if attempted b s2 then - 1 else 0, b2, clear_hook_globals env s4))"

definition samp_hook_bridge_uninstall ::
  "hook_env \<Rightarrow> samp_runtime_hook_bridge \<Rightarrow> hook_state \<Rightarrow> samp_runtime_hook_bridge \<times> hook_state" where
  "samp_hook_bridge_uninstall env b s =
     (let (b1, s1) = (if secondary_installed b
            then (b\<lparr>secondary_installed := False\<rparr>,
                  snd (restore_call_disp_hook env (graphics_call_disp_addr_secondary b)
                         (graphics_call_saved_disp_secondary b) s))
            else (b, s));
          (b2, s2) = (if hook_installed b1
            then (b1\<lparr>hook_installed := False\<rparr>,
                  snd (restore_call_disp_hook env (graphics_call_disp_addr b1) (graphics_call_saved_disp b1) s1))
            else (b1, s1))
      in (b2\<lparr>install_succeeded := False\<rparr>, clear_hook_globals env s2))"

section \<open>What the thunks do\<close>

text \<open>
  The instructions that occur in a thunk, as a machine: a program counter into the code, the registers
  (0 is \<^verbatim>\<open>eax\<close>), the zero flag, the register files saved by \<^verbatim>\<open>pushad\<close>, and the addresses called so far.
  \<open>slot a\<close> is the pointer stored at \<open>a\<close>; \<open>callee f r\<close> the registers a call of \<open>f\<close> leaves.
\<close>

record x86 =
  x_pc :: nat
  x_regs :: "nat \<Rightarrow> u32"
  x_zf :: bool
  x_frames :: "(nat \<Rightarrow> u32) list"
  x_calls :: "u32 list"

datatype x86_exit = Jumped u32 | Returned_from | Stuck

definition imm32 :: "u8 list \<Rightarrow> nat \<Rightarrow> u32" where
  "imm32 code pc = le32_of (take 4 (drop pc code))"

definition x86_step ::
  "u8 list \<Rightarrow> (u32 \<Rightarrow> u32) \<Rightarrow> (u32 \<Rightarrow> (nat \<Rightarrow> u32) \<Rightarrow> (nat \<Rightarrow> u32)) \<Rightarrow> x86 \<Rightarrow> x86_exit option \<times> x86" where
  "x86_step code slot callee x =
     (let pc = x_pc x; op = code ! pc; arg = code ! (pc + 1); eax = x_regs x 0 in
      if \<not> pc < length code then (Some Stuck, x)
      else if op = 0x60 then (None, x\<lparr>x_pc := pc + 1, x_frames := x_regs x # x_frames x\<rparr>)
      else if op = 0x61 then
        (if x_frames x = [] then (Some Stuck, x)
         else (None, x\<lparr>x_pc := pc + 1, x_regs := hd (x_frames x), x_frames := tl (x_frames x)\<rparr>))
      else if op = 0xA1 then
        (None, x\<lparr>x_pc := pc + 5, x_regs := (x_regs x)(0 := slot (imm32 code (pc + 1)))\<rparr>)
      else if op = 0x85 \<and> arg = 0xC0 then (None, x\<lparr>x_pc := pc + 2, x_zf := (eax = 0)\<rparr>)
      else if op = 0x74 then (None, x\<lparr>x_pc := pc + 2 + (if x_zf x then unat arg else 0)\<rparr>)
      else if op = 0xFF \<and> arg = 0xD0 then
        (None, x\<lparr>x_pc := pc + 2, x_regs := callee eax (x_regs x), x_calls := x_calls x @ [eax]\<rparr>)
      else if op = 0xFF \<and> arg = 0xE0 then (Some (Jumped eax), x)
      else if op = 0xC3 then (Some Returned_from, x)
      else (Some Stuck, x))"

primrec x86_run ::
  "nat \<Rightarrow> u8 list \<Rightarrow> (u32 \<Rightarrow> u32) \<Rightarrow> (u32 \<Rightarrow> (nat \<Rightarrow> u32) \<Rightarrow> (nat \<Rightarrow> u32)) \<Rightarrow> x86 \<Rightarrow>
     x86_exit option \<times> x86" where
  "x86_run 0 code slot callee x = (None, x)"
| "x86_run (Suc n) code slot callee x = (case x86_step code slot callee x of
     (Some e, x') \<Rightarrow> (Some e, x') | (None, x') \<Rightarrow> x86_run n code slot callee x')"

definition x86_start :: "(nat \<Rightarrow> u32) \<Rightarrow> x86" where
  "x86_start r = \<lparr>x_pc = 0, x_regs = r, x_zf = False, x_frames = [], x_calls = []\<rparr>"

lemma imm32_bytes:
  "le32_of [ucast v, ucast (drop_bit 8 v), ucast (drop_bit 16 v), ucast (drop_bit 24 v)] = v"
  by (simp add: le32_of_def le32_of_bytes_of_le32)

lemma le32_of_bytes [simp]: "le32_of (bytes_of_le32 v) = v"
  by (simp add: bytes_of_le32_def imm32_bytes)

lemma length_thunk_code: "length (thunk_code c o' after) = SAMP_GRAPHICS_HOOK_STUB_SIZE"
  by (simp add: thunk_code_def load_and_test_def SAMP_GRAPHICS_HOOK_STUB_SIZE_def)

lemma drop_at:
  assumes "drop pc code = xs" "k < length xs"
  shows "pc + k < length code" "code ! (pc + k) = xs ! k" "drop (pc + k) code = drop k xs"
proof -
  have "length xs = length code - pc" using assms(1) by auto
  then show len: "pc + k < length code" using assms(2) by simp
  show "code ! (pc + k) = xs ! k" using assms(1) len by (metis add_lessD1 less_imp_le_nat nth_drop)
  show "drop (pc + k) code = drop k xs" using assms(1) by (simp add: add.commute flip: drop_drop)
qed

lemma step_pushad:
  "drop (x_pc x) code = 0x60 # r \<Longrightarrow>
    x86_step code slot callee x = (None, x\<lparr>x_pc := x_pc x + 1, x_frames := x_regs x # x_frames x\<rparr>)"
  using drop_at[of "x_pc x" code "0x60 # r" 0] by (simp add: x86_step_def Let_def)

lemma step_popad:
  "drop (x_pc x) code = 0x61 # r \<Longrightarrow> x_frames x = f # fs \<Longrightarrow>
    x86_step code slot callee x = (None, x\<lparr>x_pc := x_pc x + 1, x_regs := f, x_frames := fs\<rparr>)"
  using drop_at[of "x_pc x" code "0x61 # r" 0] by (simp add: x86_step_def Let_def)

lemma step_ret: "drop (x_pc x) code = 0xC3 # r \<Longrightarrow> x86_step code slot callee x = (Some Returned_from, x)"
  using drop_at[of "x_pc x" code "0xC3 # r" 0] by (simp add: x86_step_def Let_def)

lemma step_load:
  "drop (x_pc x) code = 0xA1 # bytes_of_le32 s @ r \<Longrightarrow>
    x86_step code slot callee x = (None, x\<lparr>x_pc := x_pc x + 5, x_regs := (x_regs x)(0 := slot s)\<rparr>)"
  using drop_at[of "x_pc x" code "0xA1 # bytes_of_le32 s @ r" 0] drop_at(3)[of "x_pc x" code "0xA1 # bytes_of_le32 s @ r" 1]
  by (simp add: x86_step_def Let_def imm32_def le32_of_bytes)

lemma step_test:
  "drop (x_pc x) code = 0x85 # 0xC0 # r \<Longrightarrow>
    x86_step code slot callee x = (None, x\<lparr>x_pc := x_pc x + 2, x_zf := (x_regs x 0 = 0)\<rparr>)"
  using drop_at[of "x_pc x" code "0x85 # 0xC0 # r" 0] drop_at[of "x_pc x" code "0x85 # 0xC0 # r" 1]
  by (simp add: x86_step_def Let_def)

lemma step_jz:
  "drop (x_pc x) code = 0x74 # d # r \<Longrightarrow>
    x86_step code slot callee x = (None, x\<lparr>x_pc := x_pc x + 2 + (if x_zf x then unat d else 0)\<rparr>)"
  using drop_at[of "x_pc x" code "0x74 # d # r" 0] drop_at[of "x_pc x" code "0x74 # d # r" 1]
  by (simp add: x86_step_def Let_def)

lemma step_call:
  "drop (x_pc x) code = 0xFF # 0xD0 # r \<Longrightarrow>
    x86_step code slot callee x = (None, x\<lparr>x_pc := x_pc x + 2, x_regs := callee (x_regs x 0) (x_regs x),
      x_calls := x_calls x @ [x_regs x 0]\<rparr>)"
  using drop_at[of "x_pc x" code "0xFF # 0xD0 # r" 0] drop_at[of "x_pc x" code "0xFF # 0xD0 # r" 1]
  by (simp add: x86_step_def Let_def)

lemma step_jmp:
  "drop (x_pc x) code = 0xFF # 0xE0 # r \<Longrightarrow> x86_step code slot callee x = (Some (Jumped (x_regs x 0)), x)"
  using drop_at[of "x_pc x" code "0xFF # 0xE0 # r" 0] drop_at[of "x_pc x" code "0xFF # 0xE0 # r" 1]
  by (simp add: x86_step_def Let_def)

lemma run_step:
  "x86_step code slot callee x = (None, x') \<Longrightarrow>
    x86_run (Suc n) code slot callee x = x86_run n code slot callee x'"
  by simp

lemma drop_more: "drop pc code = xs @ ys \<Longrightarrow> n = pc + length xs \<Longrightarrow> drop n code = ys"
  by (metis add.commute append_eq_conv_conj drop_drop)

text \<open>Loading a slot, testing it, and calling what it holds unless that is NULL.\<close>

lemma run_load_test:
  assumes "drop (x_pc x) code = load_and_test s @ r" "length r \<ge> 2"
  shows "x86_run (3 + n) code slot callee x = x86_run n code slot callee
    (x\<lparr>x_pc := x_pc x + (if slot s = 0 then 11 else 9), x_regs := (x_regs x)(0 := slot s), x_zf := (slot s = 0)\<rparr>)"
proof -
  have d: "drop (x_pc x) code = 0xA1 # bytes_of_le32 s @ [0x85, 0xC0, 0x74, 0x02] @ r"
    using assms by (simp add: load_and_test_def)
  have d1: "drop (x_pc x + 5) code = 0x85 # 0xC0 # [0x74, 0x02] @ r"
    by (rule drop_more[of "x_pc x" _ "0xA1 # bytes_of_le32 s"]) (simp_all add: d)
  have d2: "drop (x_pc x + 5 + 2) code = 0x74 # 0x02 # r"
    by (rule drop_more[of "x_pc x + 5" _ "[0x85, 0xC0]"]) (simp_all add: d1 del: drop_drop)
  show ?thesis
    using d1 d2 step_load[OF d, of slot callee]
    by (cases x) (simp add: numeral_3_eq_3 ac_simps step_test[of _ _ "[0x74, 0x02] @ r"] step_jz[of _ _ "0x02" r])
qed

lemma run_call:
  assumes "drop (x_pc x) code = load_and_test s @ 0xFF # 0xD0 # r" "n \<ge> 1"
  shows "\<exists>m x'. x86_run (4 + n) code slot callee x = x86_run m code slot callee x' \<and> m \<ge> n \<and>
    x_pc x' = x_pc x + 11 \<and> x_frames x' = x_frames x \<and>
    x_calls x' = x_calls x @ (if slot s = 0 then [] else [slot s]) \<and>
    x_regs x' = (if slot s = 0 then (x_regs x)(0 := 0) else callee (slot s) ((x_regs x)(0 := slot s)))"
proof -
  let ?x1 = "x\<lparr>x_pc := x_pc x + (if slot s = 0 then 11 else 9), x_regs := (x_regs x)(0 := slot s), x_zf := (slot s = 0)\<rparr>"
  have run: "x86_run (4 + n) code slot callee x = x86_run (Suc n) code slot callee ?x1"
    using run_load_test[OF assms(1), of "Suc n" slot callee] by (simp add: numeral_eq_Suc)
  show ?thesis
  proof (cases "slot s = 0")
    case True
    then show ?thesis using run by (intro exI[of _ "Suc n"] exI[of _ ?x1]) simp
  next
    case False
    have "drop (x_pc x + 9) code = 0xFF # 0xD0 # r"
      by (rule drop_more[of "x_pc x" _ "load_and_test s"]) (simp add: assms(1), simp add: load_and_test_def)
    then show ?thesis
      using run False step_call[of ?x1 code r slot callee]
      by (intro exI[of _ n] exI[of _ "?x1\<lparr>x_pc := x_pc x + 11, x_regs := callee (slot s) ((x_regs x)(0 := slot s)),
          x_calls := x_calls x @ [slot s]\<rparr>"]) (simp add: ac_simps)
  qed
qed

lemma run_tail:
  assumes "drop (x_pc x) code = load_and_test s @ [0xFF, 0xE0, 0xC3]"
  shows "x86_run (4 + n) code slot callee x =
    (Some (if slot s = 0 then Returned_from else Jumped (slot s)),
     x\<lparr>x_pc := x_pc x + (if slot s = 0 then 11 else 9), x_regs := (x_regs x)(0 := slot s), x_zf := (slot s = 0)\<rparr>)"
proof -
  let ?x1 = "x\<lparr>x_pc := x_pc x + (if slot s = 0 then 11 else 9), x_regs := (x_regs x)(0 := slot s), x_zf := (slot s = 0)\<rparr>"
  have run: "x86_run (4 + n) code slot callee x = x86_run (Suc n) code slot callee ?x1"
    using run_load_test[OF assms(1), of "Suc n" slot callee] by (simp add: numeral_eq_Suc)
  have d: "drop (x_pc x + 9) code = [0xFF, 0xE0, 0xC3]"
    by (rule drop_more[of "x_pc x" _ "load_and_test s"]) (simp add: assms(1), simp add: load_and_test_def)
  have d2: "drop (x_pc x + 11) code = [0xC3]"
    by (rule drop_more[of "x_pc x + 9" _ "[0xFF, 0xE0]"]) (simp_all add: d del: drop_drop)
  show ?thesis
    using run d d2 step_jmp[of ?x1 code "[0xC3]" slot callee] step_ret[of ?x1 code "[]" slot callee]
    by (cases "slot s = 0") simp_all
qed

lemma thunk_before:
  "\<exists>x. x86_run 11 (thunk_code c o' False) slot callee (x86_start r) =
    (Some (if slot o' = 0 then Returned_from else Jumped (slot o')), x) \<and>
    x_calls x = (if slot c = 0 then [] else [slot c]) \<and> x_frames x = [] \<and> x_regs x = r(0 := slot o')"
proof -
  let ?code = "thunk_code c o' False"
  have code: "?code = 0x60 # load_and_test c @ 0xFF # 0xD0 # 0x61 # load_and_test o' @ [0xFF, 0xE0, 0xC3]"
    by (simp add: thunk_code_def)
  let ?x1 = "\<lparr>x_pc = 1, x_regs = r, x_zf = False, x_frames = [r], x_calls = []\<rparr>"
  have "x86_run 11 ?code slot callee (x86_start r) = x86_run (4 + 6) ?code slot callee ?x1"
    using step_pushad[of "x86_start r" ?code _ slot callee] by (simp add: code x86_start_def eval_nat_numeral)
  moreover have "drop (x_pc ?x1) ?code = load_and_test c @ 0xFF # 0xD0 # 0x61 # load_and_test o' @ [0xFF, 0xE0, 0xC3]"
    by (simp add: code)
  from run_call[OF this, of 6 slot callee] obtain m x2 where
    "x86_run (4 + 6) ?code slot callee ?x1 = x86_run m ?code slot callee x2" and m: "m \<ge> 6"
    and x2: "x_pc x2 = 12" "x_frames x2 = [r]" "x_calls x2 = (if slot c = 0 then [] else [slot c])"
    by auto
  moreover obtain k where k: "m = Suc (4 + k)" using m by (intro that[of "m - 5"]) simp
  let ?x3 = "x2\<lparr>x_pc := 13, x_regs := r, x_frames := []\<rparr>"
  have d2: "drop 12 ?code = 0x61 # load_and_test o' @ [0xFF, 0xE0, 0xC3]"
    by (rule drop_more[of 0 _ "0x60 # load_and_test c @ [0xFF, 0xD0]"]) (simp_all add: code load_and_test_def)
  have d3: "drop 13 ?code = load_and_test o' @ [0xFF, 0xE0, 0xC3]"
    by (rule drop_more[of 12 _ "[0x61]"]) (simp_all add: d2)
  have "x86_run m ?code slot callee x2 = x86_run (4 + k) ?code slot callee ?x3"
    unfolding k by (rule run_step) (use step_popad[of x2 ?code _ r "[]" slot callee] d2 x2 in simp)
  moreover note run_tail[of ?x3 ?code o' k slot callee]
  ultimately show ?thesis using d3 x2 by auto
qed

lemma thunk_after:
  "\<exists>x. x86_run 12 (thunk_code c o' True) slot callee (x86_start r) = (Some Returned_from, x) \<and>
    x_calls x = (if slot o' = 0 then [] else [slot o']) @ (if slot c = 0 then [] else [slot c]) \<and>
    x_frames x = [] \<and>
    x_regs x = (if slot o' = 0 then r(0 := 0) else callee (slot o') (r(0 := slot o')))"
proof -
  let ?code = "thunk_code c o' True"
  let ?fin = "0xFF # 0xD0 # [0x61, 0xC3]"
  have code: "?code = load_and_test o' @ 0xFF # 0xD0 # 0x60 # load_and_test c @ ?fin"
    by (simp add: thunk_code_def)
  have "drop (x_pc (x86_start r)) ?code = load_and_test o' @ 0xFF # 0xD0 # 0x60 # load_and_test c @ ?fin"
    by (simp add: code x86_start_def)
  from run_call[OF this, of 8 slot callee] obtain m x2 where
    run1: "x86_run 12 ?code slot callee (x86_start r) = x86_run m ?code slot callee x2" and m: "m \<ge> 8"
    and x2: "x_pc x2 = 11" "x_frames x2 = []" "x_calls x2 = (if slot o' = 0 then [] else [slot o'])"
      "x_regs x2 = (if slot o' = 0 then r(0 := 0) else callee (slot o') (r(0 := slot o')))"
    by (auto simp: x86_start_def)
  obtain k where k: "m = Suc (4 + (k + 3))" using m by (intro that[of "m - 8"]) simp
  have d2: "drop 11 ?code = 0x60 # load_and_test c @ ?fin"
    by (rule drop_more[of 0 _ "load_and_test o' @ [0xFF, 0xD0]"]) (simp_all add: code load_and_test_def)
  have d3: "drop 12 ?code = load_and_test c @ ?fin"
    by (rule drop_more[of 11 _ "[0x60]"]) (simp_all add: d2)
  let ?x3 = "x2\<lparr>x_pc := 12, x_frames := [x_regs x2]\<rparr>"
  have run2: "x86_run m ?code slot callee x2 = x86_run (4 + (k + 3)) ?code slot callee ?x3"
    unfolding k by (rule run_step) (use step_pushad[of x2 ?code _ slot callee] d2 x2 in simp)
  have "drop (x_pc ?x3) ?code = load_and_test c @ ?fin" by (simp add: d3)
  from run_call[OF this, of "k + 3" slot callee] obtain m' x4 where
    run3: "x86_run (4 + (k + 3)) ?code slot callee ?x3 = x86_run m' ?code slot callee x4" and m': "m' \<ge> k + 3"
    and x4: "x_pc x4 = 23" "x_frames x4 = [x_regs x2]"
      "x_calls x4 = x_calls x2 @ (if slot c = 0 then [] else [slot c])"
    by auto
  obtain j where j: "m' = Suc (Suc j)" using m' by (intro that[of "m' - 2"]) simp
  have d4: "drop 23 ?code = [0x61, 0xC3]"
    by (rule drop_more[of 12 _ "load_and_test c @ [0xFF, 0xD0]"]) (simp add: d3, simp add: load_and_test_def)
  have d5: "drop 24 ?code = [0xC3]"
    by (rule drop_more[of 23 _ "[0x61]"]) (simp_all add: d4)
  let ?x5 = "x4\<lparr>x_pc := 24, x_regs := x_regs x2, x_frames := []\<rparr>"
  have "x86_run m' ?code slot callee x4 = (Some Returned_from, ?x5)"
    using step_popad[of x4 ?code "[0xC3]" "x_regs x2" "[]" slot callee] step_ret[of ?x5 ?code "[]" slot callee] d4 d5 x4
    by (simp add: j)
  then show ?thesis using run1 run2 run3 x2 x4 by auto
qed

section \<open>Patching and restoring\<close>

lemma one_le_u32: "1 \<le> (a :: u32) \<longleftrightarrow> a \<noteq> 0"
  by unat_arith

lemma length_peek [simp]: "length (peek m a n) = n"
  by (induction n arbitrary: a) simp_all

lemma poke_peek_self: "poke a (peek m a n) m = m"
  by (induction n arbitrary: a) (simp_all add: fun_upd_idem)

lemma poke4:
  "length bs = 4 \<Longrightarrow> poke a bs m = m(a + 3 := bs ! 3, a + 2 := bs ! 2, a + 1 := bs ! 1, a := bs ! 0)"
  by (auto simp: length_Suc_conv numeral_eq_Suc ac_simps fun_upd_twist)

lemma peek4: "peek m a 4 = [m a, m (a + 1), m (a + 2), m (a + 3)]"
  by (simp add: numeral_eq_Suc ac_simps)

lemma peek_poke: "length bs = 4 \<Longrightarrow> peek (poke a bs m) a 4 = bs"
  by (simp add: poke4 peek4) (auto simp: length_Suc_conv numeral_eq_Suc)

lemma poke_restore:
  assumes "length bs = 4"
  shows "poke a (peek m a 4) (poke a bs m) = m"
  using assms by (auto simp: poke4 peek4 fun_eq_iff ac_simps)

text \<open>The address a call instruction with its displacement at \<open>a\<close> calls.\<close>

definition call_target :: "(u32 \<Rightarrow> u8) \<Rightarrow> u32 \<Rightarrow> u32" where
  "call_target m a = a + 4 + le32_of (peek m a 4)"

lemma install_call_disp_hook_ok:
  assumes "install_call_disp_hook env a page s = (0, found, s')"
  shows "call_target (hk_mem s') a = page \<and> found = Some (0xE8, peek (hk_mem s) a 4, call_target (hk_mem s) a) \<and>
    s' = s\<lparr>hk_mem := poke a (bytes_of_le32 (page - (a + 4))) (hk_mem s), hk_calls := hk_calls s + 2\<rparr>"
  using assms
  by (auto simp: install_call_disp_hook_def call_target_def Let_def peek_poke algebra_simps split: if_splits)

lemma install_call_disp_hook_failed:
  "install_call_disp_hook env a page s = (rc, found, s') \<Longrightarrow> rc \<noteq> 0 \<Longrightarrow> hk_mem s' = hk_mem s"
  by (auto simp: install_call_disp_hook_def Let_def hk_tick_def split: if_splits)

text \<open>A successful installation at an address leaves what is needed to undo it.\<close>

lemma install_undo:
  assumes "install_call_disp_hook env a page s = (0, Some (opc, saved, t), s')"
  shows "poke a saved (hk_mem s') = hk_mem s \<and> hk_calls s' = hk_calls s + 2 \<and> a \<ge> 1"
  using assms
  by (auto simp: install_call_disp_hook_def Let_def poke_restore one_le_u32 split: if_splits)

lemma create_thunks_mem: "hk_mem (create_thunks env b s) = hk_mem s"
  by (auto simp: create_thunks_def create_generated_graphics_hook_thunk_def hk_tick_def Let_def split: prod.splits)

lemma free_thunks_mem: "hk_mem (free_generated_graphics_hook_thunks env s) = hk_mem s"
  by (auto simp: free_generated_graphics_hook_thunks_def free_generated_graphics_hook_thunk_def hk_tick_def Let_def
      split: option.splits)

lemma clear_mem: "hk_mem (clear_hook_globals env s) = hk_mem s"
  by (simp add: clear_hook_globals_def free_thunks_mem)

lemma clear_globals:
  "g_graphics_callback (clear_hook_globals env s) = 0 \<and>
   g_generated_graphics_thunk_primary (clear_hook_globals env s) = None \<and>
   g_generated_graphics_thunk_secondary (clear_hook_globals env s) = None"
  by (auto simp: clear_hook_globals_def free_generated_graphics_hook_thunks_def
      free_generated_graphics_hook_thunk_def hk_tick_def Let_def split: option.splits)

lemma install_primary_spec:
  assumes "install_primary env b s = (b', s')" "\<not> hook_installed b" "\<not> install_succeeded b"
  shows "secondary_installed b' = secondary_installed b \<and> secondary_configured b' = secondary_configured b \<and>
    graphics_call_disp_addr_secondary b' = graphics_call_disp_addr_secondary b \<and>
    install_succeeded b' = hook_installed b' \<and>
    (if hook_installed b'
     then graphics_call_disp_addr b' \<ge> 1 \<and> poke (graphics_call_disp_addr b') (graphics_call_saved_disp b') (hk_mem s') = hk_mem s
     else hk_mem s' = hk_mem s)"
proof -
  consider "b' = b" "s' = s"
    | page rc found s1 where
      "install_call_disp_hook env (graphics_call_disp_addr b) page s = (rc, found, s1)"
      "install_primary env b s = (let (b1, s2) = (case found of None \<Rightarrow> (b, s1)
                 | Some (opc, saved, target) \<Rightarrow>
                     (b\<lparr>graphics_call_opcode := opc, graphics_call_saved_disp := saved,
                        graphics_call_original_target := target\<rparr>,
                      s1\<lparr>g_original_graphics_target_primary := target\<rparr>))
           in (if rc = 0 then b1\<lparr>hook_installed := True, install_succeeded := True\<rparr> else b1, s2))"
    using assms(1) by (auto simp: install_primary_def split: option.splits if_splits prod.splits)
  then show ?thesis
  proof cases
    case 1
    then show ?thesis using assms(2,3) by simp
  next
    case 2
    show ?thesis
    proof (cases "rc = 0")
      case True
      obtain opc saved t where f: "found = Some (opc, saved, t)"
        using install_call_disp_hook_ok[of env _ page s found s1] 2(1) True by auto
      with install_undo 2(1) True have "poke (graphics_call_disp_addr b) saved (hk_mem s1) = hk_mem s"
        "graphics_call_disp_addr b \<ge> 1" by blast+
      then show ?thesis using 2(2) assms f True by (auto simp: Let_def)
    next
      case False
      have "hk_mem s1 = hk_mem s" by (rule install_call_disp_hook_failed[OF 2(1) False])
      then show ?thesis using 2(2) assms False by (cases found) (auto simp: Let_def)
    qed
  qed
qed

lemma install_secondary_spec:
  assumes "install_secondary env b s = (b', s')" "\<not> secondary_installed b"
  shows "hook_installed b' = hook_installed b \<and> graphics_call_disp_addr b' = graphics_call_disp_addr b \<and>
    graphics_call_saved_disp b' = graphics_call_saved_disp b \<and>
    install_succeeded b' = (install_succeeded b \<or> secondary_installed b') \<and>
    (if secondary_installed b'
     then graphics_call_disp_addr_secondary b' \<ge> 1 \<and>
       poke (graphics_call_disp_addr_secondary b') (graphics_call_saved_disp_secondary b') (hk_mem s') = hk_mem s
     else hk_mem s' = hk_mem s)"
proof -
  consider "b' = b" "s' = s"
    | page rc found s1 where
      "install_call_disp_hook env (graphics_call_disp_addr_secondary b) page s = (rc, found, s1)"
      "install_secondary env b s = (let (b1, s2) = (case found of None \<Rightarrow> (b, s1)
                 | Some (opc, saved, target) \<Rightarrow>
                     (b\<lparr>graphics_call_opcode_secondary := opc, graphics_call_saved_disp_secondary := saved,
                        graphics_call_original_target_secondary := target\<rparr>,
                      s1\<lparr>g_original_graphics_target_secondary := target\<rparr>))
           in (if rc = 0 then b1\<lparr>secondary_installed := True, install_succeeded := True\<rparr> else b1, s2))"
    using assms(1) by (auto simp: install_secondary_def split: option.splits if_splits prod.splits)
  then show ?thesis
  proof cases
    case 1
    then show ?thesis using assms(2) by simp
  next
    case 2
    show ?thesis
    proof (cases "rc = 0")
      case True
      obtain opc saved t where f: "found = Some (opc, saved, t)"
        using install_call_disp_hook_ok[of env _ page s found s1] 2(1) True by auto
      with install_undo 2(1) True have "poke (graphics_call_disp_addr_secondary b) saved (hk_mem s1) = hk_mem s"
        "graphics_call_disp_addr_secondary b \<ge> 1" by blast+
      then show ?thesis using 2(2) assms f True by (auto simp: Let_def)
    next
      case False
      have "hk_mem s1 = hk_mem s" by (rule install_call_disp_hook_failed[OF 2(1) False])
      then show ?thesis using 2(2) assms False by (cases found) (auto simp: Let_def)
    qed
  qed
qed

text \<open>What an installation leaves, relative to the memory \<open>m\<close> before it.\<close>

definition undoable :: "(u32 \<Rightarrow> u8) \<Rightarrow> samp_runtime_hook_bridge \<Rightarrow> (u32 \<Rightarrow> u8) \<Rightarrow> bool" where
  "undoable m b m' \<longleftrightarrow>
     (secondary_installed b \<longrightarrow> graphics_call_disp_addr_secondary b \<ge> 1) \<and>
     (hook_installed b \<longrightarrow> graphics_call_disp_addr b \<ge> 1) \<and>
     (let m1 = (if secondary_installed b
                then poke (graphics_call_disp_addr_secondary b) (graphics_call_saved_disp_secondary b) m' else m')
      in (if hook_installed b then poke (graphics_call_disp_addr b) (graphics_call_saved_disp b) m1 else m1) = m)"

lemma install_undoable:
  assumes "samp_hook_bridge_install_graphics_callback env cb b s = (rc, b', s')" "cb \<noteq> 0"
  shows "undoable (hk_mem s) b' (hk_mem s')" and "\<not> install_succeeded b' \<Longrightarrow> hk_mem s' = hk_mem s"
    and "rc \<noteq> 0 \<Longrightarrow> \<not> install_succeeded b'"
proof -
  let ?b = "b\<lparr>install_attempted := True, hook_installed := False, secondary_installed := False,
    install_succeeded := False\<rparr>"
  have "undoable (hk_mem s) b' (hk_mem s') \<and> (\<not> install_succeeded b' \<longrightarrow> hk_mem s' = hk_mem s) \<and>
      (rc \<noteq> 0 \<longrightarrow> \<not> install_succeeded b')"
  proof (cases "\<not> enabled b \<or> (\<not> configured b \<and> \<not> secondary_configured b)")
    case True
    then show ?thesis
      using assms by (auto simp: samp_hook_bridge_install_graphics_callback_def Let_def undoable_def)
  next
    case False
    define s2 where "s2 = create_thunks env ?b ((free_generated_graphics_hook_thunks env (s\<lparr>g_graphics_callback := cb\<rparr>))
        \<lparr>g_original_graphics_target_primary := 0, g_original_graphics_target_secondary := 0\<rparr>)"
    have mem: "hk_mem s2 = hk_mem s" by (simp add: s2_def create_thunks_mem free_thunks_mem)
    obtain b1 s3 where p: "install_primary env ?b s2 = (b1, s3)" by fastforce
    obtain b2 s4 where q: "install_secondary env b1 s3 = (b2, s4)" by fastforce
    note P = install_primary_spec[OF p]
    then have "\<not> secondary_installed b1" by simp
    note Q = install_secondary_spec[OF q this]
    have und: "undoable (hk_mem s) b2 (hk_mem s4)"
      using P Q mem by (auto simp: undoable_def Let_def)
    have none: "\<not> install_succeeded b2 \<longrightarrow> hk_mem s4 = hk_mem s"
      using P Q mem by (auto split: if_splits)
    have "(rc, b', s') = (if install_succeeded b2 then (0, b2, s4)
        else (if attempted ?b s2 then - 1 else 0, b2, clear_hook_globals env s4))"
      using assms False p q
      by (auto simp: samp_hook_bridge_install_graphics_callback_def s2_def Let_def split: if_splits)
    then show ?thesis using und none by (auto simp: clear_mem split: if_splits)
  qed
  then show "undoable (hk_mem s) b' (hk_mem s')" "\<not> install_succeeded b' \<Longrightarrow> hk_mem s' = hk_mem s"
    "rc \<noteq> 0 \<Longrightarrow> \<not> install_succeeded b'" by auto
qed

lemma restore_mem:
  assumes "a \<ge> 1" "he_protect env (hk_calls s)"
  shows "hk_mem (snd (restore_call_disp_hook env a saved s)) = poke a saved (hk_mem s) \<and>
    hk_calls (snd (restore_call_disp_hook env a saved s)) = hk_calls s + 2"
  using assms by (auto simp: restore_call_disp_hook_def word_le_nat_alt word_less_nat_alt)

section \<open>Properties\<close>

text \<open>C30: Installing the graphics hooks with a callback and uninstalling them, with \<^verbatim>\<open>VirtualProtect\<close> granting the access during
  the uninstallation (during the installation it may fail at any call), leaves every byte of the game's memory as it
  was, even when the two call sites are the same or overlap, since they are restored in reverse order,
  and clears the callback and the thunks. An installation that reports failure has changed nothing.\<close>

theorem hook_install_uninstall_restores:
  assumes "samp_hook_bridge_install_graphics_callback env cb b s = (rc, b1, s1)" "cb \<noteq> 0"
    and "\<forall>k\<ge>hk_calls s1. he_protect env k"
    and "samp_hook_bridge_uninstall env b1 s1 = (b2, s2)"
  shows "hk_mem s2 = hk_mem s \<and> (rc \<noteq> 0 \<longrightarrow> hk_mem s1 = hk_mem s) \<and>
    \<not> hook_installed b2 \<and> \<not> secondary_installed b2 \<and> g_graphics_callback s2 = 0 \<and>
    g_generated_graphics_thunk_primary s2 = None \<and> g_generated_graphics_thunk_secondary s2 = None"
proof -
  note und = install_undoable(1)[OF assms(1,2)]
  have failed: "rc \<noteq> 0 \<longrightarrow> hk_mem s1 = hk_mem s" using install_undoable(2,3)[OF assms(1,2)] by blast
  let ?t = "if secondary_installed b1 then snd (restore_call_disp_hook env (graphics_call_disp_addr_secondary b1)
      (graphics_call_saved_disp_secondary b1) s1) else s1"
  let ?u = "if hook_installed b1 then snd (restore_call_disp_hook env (graphics_call_disp_addr b1)
      (graphics_call_saved_disp b1) ?t) else ?t"
  have t: "hk_calls ?t \<ge> hk_calls s1" "hk_mem ?t = (if secondary_installed b1
      then poke (graphics_call_disp_addr_secondary b1) (graphics_call_saved_disp_secondary b1) (hk_mem s1) else hk_mem s1)"
    using restore_mem[of _ env s1] und assms(3) by (auto simp: undoable_def)
  have u: "hk_mem ?u = hk_mem s"
    using restore_mem[of "graphics_call_disp_addr b1" env ?t] und assms(3) t by (auto simp: undoable_def Let_def)
  have "b2 = b1\<lparr>hook_installed := False, secondary_installed := False, install_succeeded := False\<rparr> \<and>
      s2 = clear_hook_globals env ?u"
    using assms(4) by (cases "secondary_installed b1"; cases "hook_installed b1"; cases b1)
      (auto simp: samp_hook_bridge_uninstall_def Let_def)
  then show ?thesis using u failed clear_globals by (auto simp: clear_mem)
qed

text \<open>The generated thunk, run on any registers, calls the runtime's callback before the original
  target without the game noticing: the callback is called exactly when it is set, the registers
  it clobbers are restored, and control then passes to the original target, or returns when there is
  none. The post-callback variant calls the original first and returns with the registers it left.\<close>

theorem hook_thunk_behaviour:
  "(\<exists>x. x86_run 11 (thunk_code cb orig False) slot callee (x86_start r) =
      (Some (if slot orig = 0 then Returned_from else Jumped (slot orig)), x) \<and>
      x_calls x = (if slot cb = 0 then [] else [slot cb]) \<and> x_frames x = [] \<and> x_regs x = r(0 := slot orig)) \<and>
   (\<exists>x. x86_run 12 (thunk_code cb orig True) slot callee (x86_start r) = (Some Returned_from, x) \<and>
      x_calls x = (if slot orig = 0 then [] else [slot orig]) @ (if slot cb = 0 then [] else [slot cb]) \<and>
      x_frames x = [] \<and>
      x_regs x = (if slot orig = 0 then r(0 := 0) else callee (slot orig) (r(0 := slot orig)))) \<and>
   length (thunk_code cb orig after) = SAMP_GRAPHICS_HOOK_STUB_SIZE"
  using thunk_before[of cb orig slot callee r] thunk_after[of cb orig slot callee r] length_thunk_code by blast

text \<open>A patched call instruction calls the thunk, the address remembered as its original target is the one
  it called before, and no other byte changes.\<close>

theorem hook_call_redirected:
  assumes "install_call_disp_hook env a page s = (0, found, s')"
  shows "call_target (hk_mem s') a = page \<and>
    found = Some (0xE8, peek (hk_mem s) a 4, call_target (hk_mem s) a) \<and>
    (\<forall>x. x \<notin> {a, a + 1, a + 2, a + 3} \<longrightarrow> hk_mem s' x = hk_mem s x)"
proof -
  note ok = install_call_disp_hook_ok[OF assms]
  then have "hk_mem s' = poke a (bytes_of_le32 (page - (a + 4))) (hk_mem s)" by simp
  then have "\<forall>x. x \<notin> {a, a + 1, a + 2, a + 3} \<longrightarrow> hk_mem s' x = hk_mem s x" by (simp add: poke4)
  then show ?thesis using ok by blast
qed

definition example_hook_env :: hook_env where
  "example_hook_env = \<lparr>he_protect = (\<lambda>_. True), he_alloc = (\<lambda>n. 0x2000000 + of_nat n), he_free = (\<lambda>_. True),
     addr_callback = 0x10001000, addr_original_primary = 0x10001004, addr_original_secondary = 0x10001008\<rparr>"

definition example_hook_state :: hook_state where
  "example_hook_state = \<lparr>hk_mem = (\<lambda>a. if a = 0x53EB12 then 0xE8 else 7), hk_calls = 0, g_graphics_callback = 0,
     g_original_graphics_target_primary = 0, g_original_graphics_target_secondary = 0,
     g_generated_graphics_thunk_primary = None, g_generated_graphics_thunk_secondary = None, live_thunks = []\<rparr>"

definition example_bridge :: samp_runtime_hook_bridge where
  "example_bridge = zero_bridge\<lparr>enabled := True, configured := True,
     graphics_call_disp_addr := SAMP_RE_GRAPHICS_CALL_DISP_ADDR\<rparr>"

theorem hook_call_redirected_witness:
  "\<exists>found s'. install_call_disp_hook example_hook_env 0x53EB13 0x2000000 example_hook_state = (0, found, s') \<and>
     call_target (hk_mem s') 0x53EB13 = 0x2000000"
proof -
  obtain found s' where i: "install_call_disp_hook example_hook_env 0x53EB13 0x2000000 example_hook_state = (0, found, s')"
    by (simp add: install_call_disp_hook_def example_hook_env_def example_hook_state_def Let_def)
  from hook_call_redirected[OF i] i show ?thesis by blast
qed

theorem hook_install_uninstall_restores_witness:
  "\<exists>b1 s1 b2 s2. samp_hook_bridge_install_graphics_callback example_hook_env 0x10002000 example_bridge
       example_hook_state = (0, b1, s1) \<and> hook_installed b1 \<and>
     samp_hook_bridge_uninstall example_hook_env b1 s1 = (b2, s2) \<and> hk_mem s2 = hk_mem example_hook_state"
proof -
  obtain rc b1 s1 where i: "samp_hook_bridge_install_graphics_callback example_hook_env 0x10002000 example_bridge
       example_hook_state = (rc, b1, s1)" by (metis surj_pair)
  obtain b2 s2 where u: "samp_hook_bridge_uninstall example_hook_env b1 s1 = (b2, s2)" by fastforce
  have p: "\<forall>k\<ge>hk_calls s1. he_protect example_hook_env k" by (simp add: example_hook_env_def)
  have "rc = 0 \<and> hook_installed b1"
    using i by (auto simp: samp_hook_bridge_install_graphics_callback_def example_hook_env_def example_bridge_def
        example_hook_state_def zero_bridge_def SAMP_RE_GRAPHICS_CALL_DISP_ADDR_def create_thunks_def
        create_generated_graphics_hook_thunk_def free_generated_graphics_hook_thunks_def
        free_generated_graphics_hook_thunk_def hk_tick_def install_primary_def install_secondary_def
        install_call_disp_hook_def Let_def)
  with hook_install_uninstall_restores[OF i _ p u] i u show ?thesis by auto
qed

end
