(* ===== verification/Float32.thy ===== *)
theory Float32
  imports Prelude
begin

text \<open>
  Single-precision floats. A \<^verbatim>\<open>float\<close> is its bit pattern; \<open>f32_scaled\<close> is the exact value of a finite
  one in units of \<open>2 ^ -149\<close>, so that the comparisons of the code with whole numbers are comparisons of
  integers. The code tests \<^verbatim>\<open>isfinite\<close> before it compares, as the definitions here expect.
\<close>

type_synonym f32 = u32

definition f32_exponent :: "f32 \<Rightarrow> nat" where
  "f32_exponent w = unat (drop_bit 23 w AND 0xFF)"

definition f32_finite :: "f32 \<Rightarrow> bool" where
  "f32_finite w \<longleftrightarrow> f32_exponent w \<noteq> 255"

definition f32_scaled :: "f32 \<Rightarrow> int" where
  "f32_scaled w =
     (let e = f32_exponent w; m = uint (w AND 0x7FFFFF);
          a = (if e = 0 then m else (m + 2 ^ 23) * 2 ^ (e - 1))
      in if bit w 31 then - a else a)"

text \<open>\<^verbatim>\<open>w > lo && w < hi\<close> for a finite \<open>w\<close> and whole numbers.\<close>

definition f32_between :: "int \<Rightarrow> int \<Rightarrow> f32 \<Rightarrow> bool" where
  "f32_between lo hi w \<longleftrightarrow> lo * 2 ^ 149 < f32_scaled w \<and> f32_scaled w < hi * 2 ^ 149"

text \<open>\<^verbatim>\<open>fabs(w) <= k\<close>, and \<^verbatim>\<open>w >= lo && w <= hi\<close>.\<close>

definition f32_abs_le :: "int \<Rightarrow> f32 \<Rightarrow> bool" where
  "f32_abs_le k w \<longleftrightarrow> \<bar>f32_scaled w\<bar> \<le> k * 2 ^ 149"

definition f32_within :: "int \<Rightarrow> int \<Rightarrow> f32 \<Rightarrow> bool" where
  "f32_within lo hi w \<longleftrightarrow> lo * 2 ^ 149 \<le> f32_scaled w \<and> f32_scaled w \<le> hi * 2 ^ 149"

lemma f32_between_abs_le:
  assumes "f32_between (- k) k w"
  shows "f32_abs_le k w"
proof -
  have "- (k * 2 ^ 149) < f32_scaled w" "f32_scaled w < k * 2 ^ 149"
    using assms unfolding f32_between_def minus_mult_left by blast+
  then show ?thesis unfolding f32_abs_le_def abs_le_iff by linarith
qed

lemma f32_finite_0 [simp]: "f32_finite 0"
  by (simp add: f32_finite_def f32_exponent_def)

end
