(* ===== verification/RakPayload.thy ===== *)
theory RakPayload
  imports Float32
begin

text \<open>
  What the payload decoders of \<^verbatim>\<open>src/net/raknet_client_adapter.cpp\<close> share: little-endian reads at an
  offset, the bit stream of the RakNet library, sequence numbers, and the event rings through which the
  network side hands events to the graphics thread.

  A payload is the list of its bytes, so that \<^verbatim>\<open>bytes\<close> is its length; a NULL payload is the empty list,
  which every decoder turns away by the same guard. Each decoder returns its boolean result and the new
  state inside \<open>mem\<close>: \<open>None\<close> would be a read outside the payload or an array.
\<close>

section \<open>Reading at an offset\<close>

definition read_le16 :: "u8 list \<Rightarrow> nat \<Rightarrow> u16 mem" where
  "read_le16 data off =
     (if off + 2 \<le> length data then Some (ucast (data ! off) OR push_bit 8 (ucast (data ! (off + 1)))) else None)"

definition read_le32 :: "u8 list \<Rightarrow> nat \<Rightarrow> u32 mem" where
  "read_le32 data off =
     (if off + 4 \<le> length data
      then Some (le32_of_bytes (data ! off) (data ! (off + 1)) (data ! (off + 2)) (data ! (off + 3))) else None)"

definition read_le_float :: "u8 list \<Rightarrow> nat \<Rightarrow> f32 mem" where
  "read_le_float data off = read_le32 data off"

definition read_le_i32 :: "u8 list \<Rightarrow> nat \<Rightarrow> int mem" where
  "read_le_i32 data off = map_option sint (read_le32 data off)"

definition read_vec3 :: "u8 list \<Rightarrow> nat \<Rightarrow> f32 list mem" where
  "read_vec3 data off = do {
     x \<leftarrow> read_le_float data off;
     y \<leftarrow> read_le_float data (off + 4);
     z \<leftarrow> read_le_float data (off + 8);
     Some [x, y, z] }"

definition read_byte :: "u8 list \<Rightarrow> nat \<Rightarrow> u8 mem" where
  "read_byte data off = (if off < length data then Some (data ! off) else None)"

text \<open>Inside the payload every read succeeds.\<close>

lemma read_le16_in: "off + 2 \<le> length data \<Longrightarrow> \<exists>v. read_le16 data off = Some v"
  by (simp add: read_le16_def)

lemma read_le32_in: "off + 4 \<le> length data \<Longrightarrow> \<exists>v. read_le32 data off = Some v"
  by (simp add: read_le32_def)

lemma read_le_float_in: "off + 4 \<le> length data \<Longrightarrow> \<exists>v. read_le_float data off = Some v"
  by (simp add: read_le_float_def read_le32_def)

lemma read_le_i32_in: "off + 4 \<le> length data \<Longrightarrow> \<exists>v. read_le_i32 data off = Some v"
  by (simp add: read_le_i32_def read_le32_def)

lemma read_vec3_in: "off + 12 \<le> length data \<Longrightarrow> \<exists>v. read_vec3 data off = Some v"
  by (simp add: read_vec3_def read_le_float_def read_le32_def)

lemma read_byte_in: "off < length data \<Longrightarrow> \<exists>v. read_byte data off = Some v"
  by (simp add: read_byte_def)

lemma length_read_vec3: "read_vec3 data off = Some v \<Longrightarrow> length v = 3"
  by (auto simp: read_vec3_def bind_Some_iff)

section \<open>The bit stream of RakNet\<close>

text \<open>
  \<^verbatim>\<open>RakNet::BitStream\<close> and \<^verbatim>\<open>RakNet::StringCompressor\<close> come with the RakNet library. A read returns the value
  and the stream after it, or \<open>None\<close> where \<^verbatim>\<open>Read\<close> returns false. \<open>bs_string n\<close> is \<^verbatim>\<open>DecodeString\<close> into an
  array of \<open>n\<close> characters.
\<close>

record 'b bitstream =
  bs_open :: "u8 list \<Rightarrow> 'b"
  bs_u8 :: "'b \<Rightarrow> (u8 \<times> 'b) option"
  bs_u16 :: "'b \<Rightarrow> (u16 \<times> 'b) option"
  bs_u32 :: "'b \<Rightarrow> (u32 \<times> 'b) option"
  bs_bool :: "'b \<Rightarrow> (bool \<times> 'b) option"
  bs_bytes :: "nat \<Rightarrow> 'b \<Rightarrow> (u8 list \<times> 'b) option"
  bs_string :: "nat \<Rightarrow> 'b \<Rightarrow> (string \<times> 'b) option"
  bs_offset :: "'b \<Rightarrow> nat"

text \<open>
  The documented behaviour the decoders rely on: a read of \<open>n\<close> bytes yields \<open>n\<close> bytes, and a decoded string
  fits its array with its terminating NUL.
\<close>

definition bitstream_ok :: "'b bitstream \<Rightarrow> bool" where
  "bitstream_ok B \<longleftrightarrow> (\<forall>n s xs s'. bs_bytes B n s = Some (xs, s') \<longrightarrow> length xs = n) \<and>
     (\<forall>n s t s'. bs_string B n s = Some (t, s') \<longrightarrow> length t < n \<and> CHR 0x00 \<notin> set t)"

lemma bs_bytes_length: "bitstream_ok B \<Longrightarrow> bs_bytes B n s = Some (xs, s') \<Longrightarrow> length xs = n"
  by (auto simp: bitstream_ok_def)

text \<open>A stream of the bits of the payload, most significant bit of each byte first, and the bits read so far.\<close>

type_synonym bits = "bool list \<times> nat"

definition byte_bits :: "u8 \<Rightarrow> bool list" where
  "byte_bits b = map (bit b) [7, 6, 5, 4, 3, 2, 1, 0]"

definition bits_byte :: "bool list \<Rightarrow> u8" where
  "bits_byte bs = foldl (\<lambda>v b. 2 * v + (if b then 1 else 0)) 0 bs"

fun take_bytes :: "nat \<Rightarrow> bits \<Rightarrow> (u8 list \<times> bits) option" where
  "take_bytes 0 s = Some ([], s)"
| "take_bytes (Suc n) (bs, off) =
     (if length bs < 8 then None
      else case take_bytes n (drop 8 bs, off + 8) of None \<Rightarrow> None
        | Some (xs, s) \<Rightarrow> Some (bits_byte (take 8 bs) # xs, s))"

definition bit_list_stream :: "bits bitstream" where
  "bit_list_stream = \<lparr>
     bs_open = (\<lambda>data. (concat (map byte_bits data), 0)),
     bs_u8 = (\<lambda>s. map_option (\<lambda>(xs, s). (xs ! 0, s)) (take_bytes 1 s)),
     bs_u16 = (\<lambda>s. map_option (\<lambda>(xs, s). (the (read_le16 xs 0), s)) (take_bytes 2 s)),
     bs_u32 = (\<lambda>s. map_option (\<lambda>(xs, s). (the (read_le32 xs 0), s)) (take_bytes 4 s)),
     bs_bool = (\<lambda>(bs, off). case bs of [] \<Rightarrow> None | b # bs \<Rightarrow> Some (b, (bs, off + 1))),
     bs_bytes = take_bytes,
     bs_string = (\<lambda>n s. if n = 0 then None else Some ([], s)),
     bs_offset = snd\<rparr>"

lemma take_bytes_length: "take_bytes n s = Some (xs, s') \<Longrightarrow> length xs = n"
  by (induction n s arbitrary: xs s' rule: take_bytes.induct) (auto split: if_splits option.splits)

lemma bit_list_stream_ok: "bitstream_ok bit_list_stream"
  by (auto simp: bitstream_ok_def bit_list_stream_def take_bytes_length split: if_splits)

section \<open>Sequence numbers and event rings\<close>

text \<open>Zero is skipped, because it marks an empty slot.\<close>

definition bump_seq :: "u32 \<Rightarrow> u32" where
  "bump_seq n = (if n + 1 = 0 then 1 else n + 1)"

definition ring_slot :: "nat \<Rightarrow> u32 \<Rightarrow> nat" where
  "ring_slot N n = unat (n - 1) mod N"

text \<open>
  The loop by which \<^verbatim>\<open>samp_raknet_client_get_rpc_probe_snapshot\<close> copies a ring of \<open>N\<close> slots: the newest
  \<open>N\<close> numbers in order, those whose slot still carries them.
\<close>

definition ring_available :: "nat \<Rightarrow> u32 \<Rightarrow> nat" where
  "ring_available N n = (if unat n < N then unat n else N)"

definition ring_copy_one :: "nat \<Rightarrow> ('e \<Rightarrow> u32) \<Rightarrow> 'e list \<Rightarrow> u32 \<Rightarrow> 'e list \<Rightarrow> 'e list" where
  "ring_copy_one N seq_of ring n out =
     (if seq_of (ring ! ring_slot N n) = n then out @ [ring ! ring_slot N n] else out)"

definition ring_snapshot :: "nat \<Rightarrow> ('e \<Rightarrow> u32) \<Rightarrow> u32 \<Rightarrow> 'e list \<Rightarrow> 'e list" where
  "ring_snapshot N seq_of newest ring =
     (if newest > 0 then
        let available = ring_available N newest; first_seq = newest - of_nat available + 1
        in fold (\<lambda>i. ring_copy_one N seq_of ring (first_seq + of_nat i)) [0..<available] []
      else [])"

lemma bump_seq_nonzero [simp]: "bump_seq n \<noteq> 0"
  by (simp add: bump_seq_def)

lemma unat_of_nat_u32: "k < 4294967296 \<Longrightarrow> unat (of_nat k :: u32) = k"
  by (simp add: unat_of_nat take_bit_nat_eq_self)

lemma of_nat_u32_less: "a < 4294967296 \<Longrightarrow> b < 4294967296 \<Longrightarrow> (of_nat a < (of_nat b :: u32)) = (a < b)"
  by (simp add: word_less_nat_alt unat_of_nat_u32)

lemma of_nat_u32_inj: "a < 4294967296 \<Longrightarrow> b < 4294967296 \<Longrightarrow> (of_nat a = (of_nat b :: u32)) = (a = b)"
  using unat_of_nat_u32[of a] unat_of_nat_u32[of b] by metis

lemma bump_seq_next: "unat n + 1 < 4294967296 \<Longrightarrow> unat (bump_seq n) = unat n + 1"
proof -
  assume "unat n + 1 < 4294967296"
  then have "unat (n + 1) = unat n + 1" using unat_add_u32[of n 1] by simp
  then show ?thesis by (auto simp: bump_seq_def)
qed

lemma ring_slot_Suc: "k + 1 < 4294967296 \<Longrightarrow> ring_slot N (of_nat (k + 1)) = k mod N"
  by (simp add: ring_slot_def unat_of_nat_u32)

text \<open>A ring holds the newest \<open>N\<close> events of the history of all events queued so far.\<close>

definition ring_holds :: "nat \<Rightarrow> ('e \<Rightarrow> u32) \<Rightarrow> 'e list \<Rightarrow> u32 \<Rightarrow> 'e list \<Rightarrow> bool" where
  "ring_holds N seq_of h n ring \<longleftrightarrow> length ring = N \<and> unat n = length h \<and>
     (\<forall>k<length h. seq_of (h ! k) = of_nat (k + 1)) \<and>
     (\<forall>k<length h. length h \<le> k + N \<longrightarrow> ring ! (k mod N) = h ! k)"

lemma ring_holds_empty: "length ring = N \<Longrightarrow> ring_holds N seq_of [] 0 ring"
  by (simp add: ring_holds_def)

lemma ring_copy_one_held:
  assumes "ring_holds N seq_of h n ring" "k < length h" "length h \<le> k + N"
  shows "ring_copy_one N seq_of ring (of_nat (k + 1)) out = out @ [h ! k]"
proof -
  have "k + 1 < 4294967296" using assms(1,2) unat_u32_lt[of n] by (simp add: ring_holds_def)
  then have "ring ! ring_slot N (of_nat (k + 1)) = h ! k"
    using assms unfolding ring_slot_Suc[OF \<open>k + 1 < _\<close>] by (simp add: ring_holds_def)
  then show ?thesis using assms by (simp add: ring_copy_one_def ring_holds_def)
qed

lemma ring_snapshot_suffix:
  assumes h: "ring_holds N seq_of h n ring"
  shows "ring_snapshot N seq_of n ring = drop (length h - N) h"
proof (cases "h = []")
  case True
  then have "n = 0" using h by (simp add: ring_holds_def unat_eq_0)
  then show ?thesis using True by (simp add: ring_snapshot_def)
next
  case False
  let ?m = "length h" and ?a = "ring_available N n"
  have m: "unat n = ?m" "?m < 4294967296"
    using h unat_u32_lt[of n] by (simp_all add: ring_holds_def)
  have "of_nat (unat n) = n" by simp
  then have word: "n = of_nat ?m" using m(1) by simp
  have a: "?a = min ?m N" "?a \<le> ?m" using m(1) by (auto simp: ring_available_def)
  have number: "n - of_nat ?a + 1 + of_nat i = of_nat (?m - ?a + i + 1)" for i
    using a(2) by (simp add: word of_nat_diff)
  have "fold (\<lambda>i. ring_copy_one N seq_of ring (n - of_nat ?a + 1 + of_nat i)) [0..<j] [] =
      take j (drop (?m - ?a) h)" if "j \<le> ?a" for j
    using that
  proof (induction j)
    case (Suc j)
    have k: "?m - ?a + j < ?m" "?m \<le> ?m - ?a + j + N" using Suc.prems a by auto
    have "take (Suc j) (drop (?m - ?a) h) = take j (drop (?m - ?a) h) @ [h ! (?m - ?a + j)]"
      using Suc.prems a(2) by (simp add: take_Suc_conv_app_nth)
    then show ?case
      unfolding upt_Suc_append[OF le0] fold_append o_apply using Suc
      by (simp only: fold.simps id_apply o_apply number ring_copy_one_held[OF h k] Suc_leD)
  qed simp
  moreover have "n > 0" using False m(1) by (simp add: word_greater_zero_iff) (metis length_0_conv unat_0)
  moreover have "?m - ?a = ?m - N" using a(1) by simp
  ultimately show ?thesis using a by (simp add: ring_snapshot_def Let_def)
qed

text \<open>What every queue of the adapter promises: the next number, written into its slot.\<close>

locale event_ring =
  fixes N :: nat and seq_of :: "'e \<Rightarrow> u32" and queue :: "'a \<Rightarrow> 's \<Rightarrow> 'e \<times> 's"
    and newest :: "'s \<Rightarrow> u32" and ring :: "'s \<Rightarrow> 'e list"
  assumes size_pos: "0 < N"
    and queue_number: "queue a s = (e, s') \<Longrightarrow> newest s' = bump_seq (newest s) \<and> seq_of e = newest s'"
    and queue_slot: "queue a s = (e, s') \<Longrightarrow> ring s' = (ring s)[ring_slot N (newest s') := e]"
begin

lemma queue_holds:
  assumes h: "ring_holds N seq_of h (newest s) (ring s)" and q: "queue a s = (e, s')"
    and room: "length h + 1 < 4294967296"
  shows "ring_holds N seq_of (h @ [e]) (newest s') (ring s')"
proof -
  let ?m = "length h"
  have n: "unat (newest s) = ?m" using h by (simp add: ring_holds_def)
  then have n': "unat (newest s') = ?m + 1" using queue_number[OF q] bump_seq_next room by simp
  have "of_nat (unat (newest s')) = newest s'" by simp
  then have word: "newest s' = of_nat (?m + 1)" using n' by simp
  have r: "ring s' = (ring s)[?m mod N := e]"
    using queue_slot[OF q] ring_slot_Suc[OF room] by (simp only: word)
  have "ring s' ! (k mod N) = (h @ [e]) ! k" if "k < ?m + 1" "?m + 1 \<le> k + N" for k
  proof (cases "k = ?m")
    case True
    then show ?thesis using h r size_pos by (simp add: ring_holds_def)
  next
    case False
    then have k: "k < ?m" "?m < k + N" using that by simp_all
    have "k mod N \<noteq> ?m mod N"
    proof
      assume "k mod N = ?m mod N"
      then have "(?m - k) mod N = 0" using k(1) by (metis less_imp_le mod_eq_dvd_iff_nat dvd_imp_mod_0)
      moreover have "(?m - k) mod N = ?m - k" using k by simp
      ultimately show False using k(1) by simp
    qed
    then show ?thesis using h k r by (simp add: ring_holds_def nth_append)
  qed
  then show ?thesis
    using h r n' queue_number[OF q] word by (auto simp: ring_holds_def nth_append less_Suc_eq)
qed

end

end
