(* ===== verification/ActorPool.thy ===== *)
theory ActorPool
  imports Float32
begin

text \<open>
  The network side of the actor pool of \<^verbatim>\<open>src/runtime_bridge.c\<close>: the desired state of each of the 1000
  actors, the events and authoritative states that write it, the detection of lost events, and the
  sequence lock under which the graphics thread reads it. The handles and applied revisions that only the
  graphics thread owns are not part of this theory.
\<close>

section \<open>Data\<close>

definition SAMP_RAKNET_MAX_ACTORS :: nat where "SAMP_RAKNET_MAX_ACTORS = 1000"
definition SAMP_RAKNET_ACTOR_EVENT_RING :: nat where "SAMP_RAKNET_ACTOR_EVENT_RING = 128"
definition SAMP_RAKNET_ACTOR_ANIM_BYTES :: nat where "SAMP_RAKNET_ACTOR_ANIM_BYTES = 256"
definition SAMP_ACTOR_COMPAT_SKIN_MAX :: int where "SAMP_ACTOR_COMPAT_SKIN_MAX = 311"

definition SAMP_RAKNET_ACTOR_ACTION_CREATE :: u8 where "SAMP_RAKNET_ACTOR_ACTION_CREATE = 1"
definition SAMP_RAKNET_ACTOR_ACTION_DESTROY :: u8 where "SAMP_RAKNET_ACTOR_ACTION_DESTROY = 2"
definition SAMP_RAKNET_ACTOR_ACTION_APPLY_ANIMATION :: u8 where "SAMP_RAKNET_ACTOR_ACTION_APPLY_ANIMATION = 3"
definition SAMP_RAKNET_ACTOR_ACTION_CLEAR_ANIMATIONS :: u8 where "SAMP_RAKNET_ACTOR_ACTION_CLEAR_ANIMATIONS = 4"
definition SAMP_RAKNET_ACTOR_ACTION_SET_FACING :: u8 where "SAMP_RAKNET_ACTOR_ACTION_SET_FACING = 5"
definition SAMP_RAKNET_ACTOR_ACTION_SET_POSITION :: u8 where "SAMP_RAKNET_ACTOR_ACTION_SET_POSITION = 6"
definition SAMP_RAKNET_ACTOR_ACTION_SET_HEALTH :: u8 where "SAMP_RAKNET_ACTOR_ACTION_SET_HEALTH = 7"

lemmas actor_consts = SAMP_RAKNET_ACTOR_ACTION_CREATE_def SAMP_RAKNET_ACTOR_ACTION_DESTROY_def
  SAMP_RAKNET_ACTOR_ACTION_APPLY_ANIMATION_def SAMP_RAKNET_ACTOR_ACTION_CLEAR_ANIMATIONS_def
  SAMP_RAKNET_ACTOR_ACTION_SET_FACING_def SAMP_RAKNET_ACTOR_ACTION_SET_POSITION_def
  SAMP_RAKNET_ACTOR_ACTION_SET_HEALTH_def SAMP_RAKNET_MAX_ACTORS_def SAMP_RAKNET_ACTOR_EVENT_RING_def
  SAMP_RAKNET_ACTOR_ANIM_BYTES_def SAMP_ACTOR_COMPAT_SKIN_MAX_def

text \<open>The fields events, states and slots have in common: what \<^verbatim>\<open>actor_compat_copy_animation\<close> copies.\<close>

record actor_animation =
  animation_delta :: f32
  animation_time :: int
  animation_loop :: u8
  animation_lock_x :: u8
  animation_lock_y :: u8
  animation_freeze :: u8
  animation_lib :: string
  animation_name :: string

definition zero_animation :: actor_animation where
  "zero_animation = \<lparr>animation_delta = 0, animation_time = 0, animation_loop = 0, animation_lock_x = 0,
     animation_lock_y = 0, animation_freeze = 0,
     animation_lib = replicate SAMP_RAKNET_ACTOR_ANIM_BYTES (CHR 0x00),
     animation_name = replicate SAMP_RAKNET_ACTOR_ANIM_BYTES (CHR 0x00)\<rparr>"

record samp_actor_desired_state_compat =
  revision :: u32
  create_revision :: u32
  position_revision :: u32
  facing_revision :: u32
  health_revision :: u32
  invulnerable_revision :: u32
  animation_revision :: u32
  d_active :: u8
  d_invulnerable :: u8
  has_animation :: u8
  d_skin :: int
  d_pos :: "f32 list"
  d_rotation :: f32
  d_health :: f32
  d_animation :: actor_animation

definition zero_desired :: samp_actor_desired_state_compat where
  "zero_desired = \<lparr>revision = 0, create_revision = 0, position_revision = 0, facing_revision = 0,
     health_revision = 0, invulnerable_revision = 0, animation_revision = 0, d_active = 0,
     d_invulnerable = 0, has_animation = 0, d_skin = 0, d_pos = [0, 0, 0], d_rotation = 0, d_health = 0,
     d_animation = zero_animation\<rparr>"

record samp_actor_slot_compat =
  desired_write_serial :: u32
  blocked_logged :: bool
  desired :: samp_actor_desired_state_compat

record samp_raknet_actor_event =
  ev_seq :: u32
  ev_actor_id :: u16
  ev_action :: u8
  ev_invulnerable :: u8
  ev_skin :: int
  ev_pos :: "f32 list"
  ev_rotation :: f32
  ev_health :: f32
  ev_animation :: actor_animation

record samp_raknet_actor_state =
  as_revision :: u32
  as_active :: u8
  as_invulnerable :: u8
  as_has_animation :: u8
  as_skin :: int
  as_pos :: "f32 list"
  as_rotation :: f32
  as_health :: f32
  as_animation :: actor_animation

record actor_pool =
  actor_slots :: "samp_actor_slot_compat list"
  actor_event_seq :: u32
  actor_state_seq :: u32

section \<open>Validity\<close>

definition actor_compat_id_valid :: "u16 \<Rightarrow> bool" where
  "actor_compat_id_valid actor_id \<longleftrightarrow> unat actor_id < SAMP_RAKNET_MAX_ACTORS"

definition actor_compat_vec_valid :: "f32 list \<Rightarrow> bool" where
  "actor_compat_vec_valid pos \<longleftrightarrow>
     f32_finite (pos ! 0) \<and> f32_finite (pos ! 1) \<and> f32_finite (pos ! 2) \<and>
     f32_between (- 30000) 30000 (pos ! 0) \<and> f32_between (- 30000) 30000 (pos ! 1) \<and>
     f32_between (- 5000) 20000 (pos ! 2)"

definition actor_compat_skin_valid :: "int \<Rightarrow> bool" where
  "actor_compat_skin_valid skin \<longleftrightarrow> 0 \<le> skin \<and> skin \<le> SAMP_ACTOR_COMPAT_SKIN_MAX \<and> skin \<noteq> 74"

section \<open>Writing the desired state\<close>

definition flag :: "u8 \<Rightarrow> u8" where
  "flag b = (if b \<noteq> 0 then 1 else 0)"

text \<open>The last character of the two fixed arrays is overwritten with NUL.\<close>

definition terminated :: "string \<Rightarrow> string" where
  "terminated cs = cs[SAMP_RAKNET_ACTOR_ANIM_BYTES - 1 := CHR 0x00]"

definition copied_animation :: "actor_animation \<Rightarrow> actor_animation" where
  "copied_animation a = a\<lparr>animation_loop := flag (animation_loop a), animation_lock_x := flag (animation_lock_x a),
     animation_lock_y := flag (animation_lock_y a), animation_freeze := flag (animation_freeze a),
     animation_lib := terminated (animation_lib a), animation_name := terminated (animation_name a)\<rparr>"

definition actor_compat_copy_animation_from_event ::
  "samp_actor_desired_state_compat \<Rightarrow> samp_raknet_actor_event \<Rightarrow> samp_actor_desired_state_compat" where
  "actor_compat_copy_animation_from_event d e = d\<lparr>d_animation := copied_animation (ev_animation e)\<rparr>"

definition c_string :: "string \<Rightarrow> string" where
  "c_string cs = takeWhile (\<lambda>c. c \<noteq> CHR 0x00) cs"

text \<open>The desired state after a create, with every revision the event's number.\<close>

definition created :: "u32 \<Rightarrow> u8 \<Rightarrow> int \<Rightarrow> f32 list \<Rightarrow> f32 \<Rightarrow> f32 \<Rightarrow> samp_actor_desired_state_compat" where
  "created n invuln skin pos rot health = zero_desired\<lparr>revision := n, create_revision := n,
     position_revision := n, facing_revision := n, health_revision := n, invulnerable_revision := n,
     animation_revision := n, d_active := 1, d_invulnerable := flag invuln, d_skin := skin, d_pos := pos,
     d_rotation := rot, d_health := health\<rparr>"

text \<open>The middle of \<^verbatim>\<open>actor_compat_apply_event_logical\<close>: an update of an active actor.\<close>

definition update_active ::
  "samp_raknet_actor_event \<Rightarrow> samp_actor_desired_state_compat \<Rightarrow> samp_actor_desired_state_compat" where
  "update_active e d0 =
     (let d = d0\<lparr>revision := ev_seq e\<rparr>; action = ev_action e in
      if action = SAMP_RAKNET_ACTOR_ACTION_APPLY_ANIMATION then
        if f32_finite (animation_delta (ev_animation e)) \<and> c_string (animation_lib (ev_animation e)) \<noteq> ''SEX''
        then actor_compat_copy_animation_from_event (d\<lparr>has_animation := 1, animation_revision := ev_seq e\<rparr>) e
        else d
      else if action = SAMP_RAKNET_ACTOR_ACTION_CLEAR_ANIMATIONS then
        d\<lparr>has_animation := 0, animation_revision := ev_seq e,
          d_animation := (d_animation d)\<lparr>animation_lib := (animation_lib (d_animation d))[0 := CHR 0x00],
             animation_name := (animation_name (d_animation d))[0 := CHR 0x00]\<rparr>\<rparr>
      else if action = SAMP_RAKNET_ACTOR_ACTION_SET_FACING then
        if f32_finite (ev_rotation e) then d\<lparr>d_rotation := ev_rotation e, facing_revision := ev_seq e\<rparr> else d
      else if action = SAMP_RAKNET_ACTOR_ACTION_SET_POSITION then
        if actor_compat_vec_valid (ev_pos e) then d\<lparr>d_pos := ev_pos e, position_revision := ev_seq e\<rparr> else d
      else if action = SAMP_RAKNET_ACTOR_ACTION_SET_HEALTH \<and> f32_finite (ev_health e) then
        d\<lparr>d_health := ev_health e, health_revision := ev_seq e\<rparr>
      else d)"

definition create_accepted :: "samp_raknet_actor_event \<Rightarrow> bool" where
  "create_accepted e \<longleftrightarrow> actor_compat_skin_valid (ev_skin e) \<and> actor_compat_vec_valid (ev_pos e) \<and>
     f32_finite (ev_rotation e) \<and> f32_finite (ev_health e)"

text \<open>The desired state and the \<^verbatim>\<open>blocked_logged\<close> flag after an event for this slot.\<close>

definition event_effect :: "samp_raknet_actor_event \<Rightarrow> samp_actor_slot_compat \<Rightarrow> samp_actor_slot_compat" where
  "event_effect e slot =
     (let d = desired slot in
      if ev_action e = SAMP_RAKNET_ACTOR_ACTION_CREATE then
        if \<not> create_accepted e then slot
        else slot\<lparr>desired := created (ev_seq e) (ev_invulnerable e) (ev_skin e) (ev_pos e) (ev_rotation e) (ev_health e),
               blocked_logged := False\<rparr>
      else if ev_action e = SAMP_RAKNET_ACTOR_ACTION_DESTROY then
        slot\<lparr>desired := d\<lparr>revision := ev_seq e, d_active := 0, has_animation := 0\<rparr>\<rparr>
      else if d_active d \<noteq> 0 then slot\<lparr>desired := update_active e d\<rparr>
      else slot)"

text \<open>\<^verbatim>\<open>actor_compat_desired_write_begin\<close> and \<^verbatim>\<open>_end\<close> each increment the serial.\<close>

definition locked_write ::
  "(samp_actor_slot_compat \<Rightarrow> samp_actor_slot_compat) \<Rightarrow> samp_actor_slot_compat \<Rightarrow> samp_actor_slot_compat" where
  "locked_write f slot =
     (let slot' = f (slot\<lparr>desired_write_serial := desired_write_serial slot + 1\<rparr>)
      in slot'\<lparr>desired_write_serial := desired_write_serial slot' + 1\<rparr>)"

definition actor_compat_apply_event_logical :: "samp_raknet_actor_event \<Rightarrow> actor_pool \<Rightarrow> actor_pool" where
  "actor_compat_apply_event_logical e pool =
     (if ev_seq e = 0 \<or> \<not> actor_compat_id_valid (ev_actor_id e) then pool
      else let i = unat (ev_actor_id e) in
        pool\<lparr>actor_slots := (actor_slots pool)[i := locked_write (event_effect e) (actor_slots pool ! i)]\<rparr>)"

definition state_accepted :: "samp_raknet_actor_state \<Rightarrow> bool" where
  "state_accepted st \<longleftrightarrow> as_revision st \<noteq> 0 \<and> actor_compat_skin_valid (as_skin st) \<and>
     actor_compat_vec_valid (as_pos st) \<and> f32_finite (as_rotation st) \<and> f32_finite (as_health st) \<and>
     f32_finite (animation_delta (as_animation st))"

definition state_effect :: "samp_raknet_actor_state \<Rightarrow> samp_actor_slot_compat \<Rightarrow> samp_actor_slot_compat" where
  "state_effect st slot =
     (if as_active st = 0 \<or> \<not> state_accepted st
      then slot\<lparr>desired := zero_desired\<lparr>revision := as_revision st\<rparr>\<rparr>
      else slot\<lparr>desired := (created (as_revision st) (as_invulnerable st) (as_skin st) (as_pos st) (as_rotation st)
                  (as_health st))\<lparr>has_animation := flag (as_has_animation st),
                  d_animation := copied_animation (as_animation st)\<rparr>,
             blocked_logged := False\<rparr>)"

definition actor_compat_apply_authoritative_state_logical ::
  "u16 \<Rightarrow> samp_raknet_actor_state \<Rightarrow> actor_pool \<Rightarrow> actor_pool" where
  "actor_compat_apply_authoritative_state_logical actor_id st pool =
     (if \<not> actor_compat_id_valid actor_id then pool
      else let i = unat actor_id in
        pool\<lparr>actor_slots := (actor_slots pool)[i := locked_write (state_effect st) (actor_slots pool ! i)]\<rparr>)"

section \<open>Following the event ring\<close>

text \<open>
  \<open>get\<close> is \<^verbatim>\<open>samp_raknet_client_get_actor_state\<close> of the connected adapter, \<open>None\<close> for an actor it has
  no state for; the outer \<open>None\<close> says that no adapter is in use.
\<close>

type_synonym actor_adapter = "(u16 \<Rightarrow> samp_raknet_actor_state option) option"

definition resync_one :: "(u16 \<Rightarrow> samp_raknet_actor_state option) \<Rightarrow> u16 \<Rightarrow> actor_pool \<Rightarrow> actor_pool" where
  "resync_one get actor_id pool = (case get actor_id of None \<Rightarrow> pool
     | Some st \<Rightarrow> actor_compat_apply_authoritative_state_logical actor_id st pool)"

definition actor_compat_resync_authoritative :: "actor_adapter \<Rightarrow> u32 \<Rightarrow> actor_pool \<Rightarrow> actor_pool" where
  "actor_compat_resync_authoritative adapter state_seq pool = (case adapter of None \<Rightarrow> pool
     | Some get \<Rightarrow> (fold (resync_one get) (map of_nat [0..<SAMP_RAKNET_MAX_ACTORS]) pool)
           \<lparr>actor_event_seq := state_seq, actor_state_seq := state_seq\<rparr>)"

text \<open>The first loop: whether an event newer than \<open>previous\<close> does not carry the expected number.\<close>

fun event_gap :: "u32 \<Rightarrow> u32 \<Rightarrow> samp_raknet_actor_event list \<Rightarrow> bool" where
  "event_gap previous expected [] = False"
| "event_gap previous expected (e # es) =
     (if ev_seq e \<noteq> 0 \<and> ev_seq e > previous
      then if ev_seq e \<noteq> expected then True else event_gap previous (ev_seq e + 1) es
      else event_gap previous expected es)"

text \<open>The second loop: the pool and \<^verbatim>\<open>latest_seq\<close>.\<close>

fun apply_events ::
  "u32 \<Rightarrow> samp_raknet_actor_event list \<Rightarrow> actor_pool \<times> u32 \<Rightarrow> actor_pool \<times> u32" where
  "apply_events previous [] st = st"
| "apply_events previous (e # es) (pool, latest) =
     (if ev_seq e \<noteq> 0 \<and> ev_seq e > previous
      then apply_events previous es (actor_compat_apply_event_logical e pool, ev_seq e)
      else apply_events previous es (pool, latest))"

text \<open>
  The ring arrives as the snapshot's \<^verbatim>\<open>actor_event_count\<close>, its events and \<^verbatim>\<open>actor_state_seq\<close>.
\<close>

definition actor_compat_update_from_snapshot ::
  "actor_adapter \<Rightarrow> u32 \<Rightarrow> samp_raknet_actor_event list \<Rightarrow> u32 \<Rightarrow> actor_pool \<Rightarrow> actor_pool" where
  "actor_compat_update_from_snapshot adapter event_count events state_seq pool =
     (let previous = actor_event_seq pool;
          count = min (unat event_count) SAMP_RAKNET_ACTOR_EVENT_RING;
          es = take count events in
      if event_gap previous (previous + 1) es
      then actor_compat_resync_authoritative adapter state_seq pool
      else case apply_events previous es (pool, previous) of (pool1, latest) \<Rightarrow>
        if state_seq > latest then actor_compat_resync_authoritative adapter state_seq pool1
        else
          let pool2 = (if latest \<noteq> previous then pool1\<lparr>actor_event_seq := latest\<rparr> else pool1)
          in pool2\<lparr>actor_state_seq := state_seq\<rparr>)"

definition actor_compat_reset_pool :: "actor_pool \<Rightarrow> actor_pool" where
  "actor_compat_reset_pool pool =
     \<lparr>actor_slots = map (\<lambda>slot. (locked_write (\<lambda>s. s\<lparr>desired := zero_desired\<rparr>) slot)\<lparr>blocked_logged := False\<rparr>)
        (actor_slots pool), actor_event_seq = 0, actor_state_seq = 0\<rparr>"

section \<open>The sequence lock\<close>

text \<open>
  \<^verbatim>\<open>actor_compat_read_desired\<close> on the graphics thread against one writing thread, one shared access a
  step. The slot's \<^verbatim>\<open>desired\<close> is a list of words that \<^verbatim>\<open>memcpy\<close> copies one by one and the writer changes
  one by one. \<open>increments\<close> and \<open>seen\<close> are ghosts: how often the serial was incremented, and that number
  when the reader loaded \<^verbatim>\<open>before\<close>.
\<close>

datatype reader_pc = Load nat | Copy nat u32 "u32 list" | Check nat u32 "u32 list" | Success "u32 list" | Failure

record seqlock =
  serial :: u32
  words :: "u32 list"
  writing :: bool
  reader :: reader_pc
  increments :: nat
  seen :: nat

fun read_desired_step :: "seqlock \<Rightarrow> seqlock" where
  "read_desired_step s = (case reader s of
     Load attempt \<Rightarrow>
       if \<not> attempt < 3 then s\<lparr>reader := Failure\<rparr>
       else if serial s AND 1 \<noteq> 0 then s\<lparr>reader := Load (attempt + 1)\<rparr>
       else s\<lparr>reader := Copy attempt (serial s) [], seen := increments s\<rparr>
   | Copy attempt before out \<Rightarrow>
       if length out < length (words s) then s\<lparr>reader := Copy attempt before (out @ [words s ! length out])\<rparr>
       else s\<lparr>reader := Check attempt before out\<rparr>
   | Check attempt before out \<Rightarrow>
       if before = serial s \<and> serial s AND 1 = 0 then s\<lparr>reader := Success out\<rparr>
       else s\<lparr>reader := Load (attempt + 1)\<rparr>
   | _ \<Rightarrow> s)"

inductive seqlock_reachable :: "seqlock \<Rightarrow> bool" where
  start: "seqlock_reachable \<lparr>serial = 0, words = ws, writing = False, reader = Load 0, increments = 0, seen = 0\<rparr>"
| read_step: "seqlock_reachable s \<Longrightarrow> seqlock_reachable (read_desired_step s)"
| write_begin: "seqlock_reachable s \<Longrightarrow> \<not> writing s \<Longrightarrow>
    seqlock_reachable (s\<lparr>serial := serial s + 1, increments := increments s + 1, writing := True\<rparr>)"
| write_word: "seqlock_reachable s \<Longrightarrow> writing s \<Longrightarrow> i < length (words s) \<Longrightarrow>
    seqlock_reachable (s\<lparr>words := (words s)[i := w]\<rparr>)"
| write_end: "seqlock_reachable s \<Longrightarrow> writing s \<Longrightarrow>
    seqlock_reachable (s\<lparr>serial := serial s + 1, increments := increments s + 1, writing := False\<rparr>)"

section \<open>The reader gets a consistent copy\<close>

lemma word_even_iff: "(w :: u32) AND 1 = 0 \<longleftrightarrow> even w"
  by (simp add: and_one_eq even_iff_mod_2_eq_zero)

lemma even_of_nat_u32: "even (of_nat n :: u32) \<longleftrightarrow> even n"
  by (simp add: even_of_nat)

definition copy_ok :: "seqlock \<Rightarrow> u32 \<Rightarrow> u32 list \<Rightarrow> bool" where
  "copy_ok s before out \<longleftrightarrow> even (seen s) \<and> before = of_nat (seen s) \<and> seen s \<le> increments s \<and>
     length out \<le> length (words s) \<and> (increments s = seen s \<longrightarrow> take (length out) (words s) = out)"

fun reader_ok :: "seqlock \<Rightarrow> reader_pc \<Rightarrow> bool" where
  "reader_ok s (Copy a b out) = copy_ok s b out"
| "reader_ok s (Check a b out) = (copy_ok s b out \<and> length out = length (words s))"
| "reader_ok s pc = True"

definition seqlock_inv :: "seqlock \<Rightarrow> bool" where
  "seqlock_inv s \<longleftrightarrow> serial s = of_nat (increments s) \<and> writing s = odd (increments s) \<and>
     reader_ok s (reader s)"

lemma read_step_inv: "seqlock_inv s \<Longrightarrow> seqlock_inv (read_desired_step s)"
  by (cases "reader s")
    (auto simp: seqlock_inv_def copy_ok_def word_even_iff even_of_nat_u32 take_Suc_conv_app_nth split: if_splits)

lemma copy_ok_incremented:
  "copy_ok s b out \<Longrightarrow> copy_ok (s\<lparr>serial := n, increments := increments s + 1, writing := w\<rparr>) b out"
  unfolding copy_ok_def by simp

lemma reader_ok_incremented:
  "reader_ok s pc \<Longrightarrow> reader_ok (s\<lparr>serial := n, increments := increments s + 1, writing := w\<rparr>) pc"
  by (cases pc) (simp_all add: copy_ok_incremented[simplified])

lemma copy_ok_written:
  assumes "copy_ok s b out" "odd (increments s)"
  shows "copy_ok (s\<lparr>words := ws\<rparr>) b out \<or> length ws \<noteq> length (words s)"
proof -
  have "increments s \<noteq> seen s" using assms unfolding copy_ok_def by metis
  then show ?thesis using assms unfolding copy_ok_def by (cases "length ws = length (words s)") simp_all
qed

lemma reader_ok_written:
  "reader_ok s pc \<Longrightarrow> odd (increments s) \<Longrightarrow> reader_ok (s\<lparr>words := (words s)[i := w]\<rparr>) pc"
  using copy_ok_written[of s _ _ "(words s)[i := w]"] by (cases pc) simp_all

lemma seqlock_inv: "seqlock_reachable s \<Longrightarrow> seqlock_inv s"
proof (induction rule: seqlock_reachable.induct)
  case (start ws)
  then show ?case by (simp add: seqlock_inv_def)
next
  case (read_step s)
  then show ?case using read_step_inv by blast
next
  case (write_begin s)
  then have "reader_ok (s\<lparr>serial := serial s + 1, increments := increments s + 1, writing := True\<rparr>) (reader s)"
    unfolding seqlock_inv_def by (intro reader_ok_incremented) blast
  moreover have "serial s = of_nat (increments s)" "writing s = odd (increments s)"
    using write_begin by (auto simp only: seqlock_inv_def)
  ultimately show ?case using write_begin(2) unfolding seqlock_inv_def by simp
next
  case (write_word s i w)
  then have "reader_ok (s\<lparr>words := (words s)[i := w]\<rparr>) (reader s)"
    unfolding seqlock_inv_def by (intro reader_ok_written) blast+
  with write_word show ?case unfolding seqlock_inv_def by simp
next
  case (write_end s)
  then have "reader_ok (s\<lparr>serial := serial s + 1, increments := increments s + 1, writing := False\<rparr>) (reader s)"
    unfolding seqlock_inv_def by (intro reader_ok_incremented) blast
  moreover have "serial s = of_nat (increments s)" "writing s = odd (increments s)"
    using write_end by (auto simp only: seqlock_inv_def)
  ultimately show ?case using write_end(2) unfolding seqlock_inv_def by simp
qed

lemma of_nat_u32_eq: "of_nat a = (of_nat b :: u32) \<Longrightarrow> a \<le> b \<Longrightarrow> b < a + 2 ^ 32 \<Longrightarrow> a = b"
proof -
  assume eq: "of_nat a = (of_nat b :: u32)" and le: "a \<le> b" "b < a + 2 ^ 32"
  have "a mod 2 ^ 32 = b mod 2 ^ 32"
    using arg_cong[OF eq, of unat] by (simp add: unat_of_nat take_bit_eq_mod)
  then have "(b - a) mod 2 ^ 32 = 0" using le(1) by (metis mod_eq_dvd_iff_nat mod_0_imp_dvd dvd_imp_mod_0)
  then show "a = b" using le by auto
qed

section \<open>Slots stay well-formed\<close>

definition desired_wf :: "samp_actor_desired_state_compat \<Rightarrow> bool" where
  "desired_wf d \<longleftrightarrow> d_active d \<in> {0, 1} \<and>
     (d_active d = 1 \<longrightarrow> actor_compat_skin_valid (d_skin d) \<and> actor_compat_vec_valid (d_pos d) \<and>
        f32_finite (d_rotation d) \<and> f32_finite (d_health d) \<and> f32_finite (animation_delta (d_animation d))) \<and>
     length (c_string (animation_lib (d_animation d))) < SAMP_RAKNET_ACTOR_ANIM_BYTES \<and>
     length (c_string (animation_name (d_animation d))) < SAMP_RAKNET_ACTOR_ANIM_BYTES"

definition slot_wf :: "samp_actor_slot_compat \<Rightarrow> bool" where
  "slot_wf slot \<longleftrightarrow> even (desired_write_serial slot) \<and> desired_wf (desired slot)"

definition pool_wf :: "actor_pool \<Rightarrow> bool" where
  "pool_wf pool \<longleftrightarrow> length (actor_slots pool) = SAMP_RAKNET_MAX_ACTORS \<and> (\<forall>slot\<in>set (actor_slots pool). slot_wf slot)"

text \<open>The arrays of an event or a state have their declared size; nothing else is assumed of them.\<close>

definition animation_sized :: "actor_animation \<Rightarrow> bool" where
  "animation_sized a \<longleftrightarrow> length (animation_lib a) = SAMP_RAKNET_ACTOR_ANIM_BYTES \<and>
     length (animation_name a) = SAMP_RAKNET_ACTOR_ANIM_BYTES"

lemma length_takeWhile_less: "x \<in> set xs \<Longrightarrow> \<not> P x \<Longrightarrow> length (takeWhile P xs) < length xs"
  by (induction xs) auto

lemma c_string_terminated:
  "length cs = SAMP_RAKNET_ACTOR_ANIM_BYTES \<Longrightarrow> length (c_string (terminated cs)) < SAMP_RAKNET_ACTOR_ANIM_BYTES"
proof -
  assume len: "length cs = SAMP_RAKNET_ACTOR_ANIM_BYTES"
  then have "CHR 0x00 \<in> set (terminated cs)"
    unfolding terminated_def by (intro set_update_memI) (simp add: actor_consts)
  then have "length (takeWhile (\<lambda>c. c \<noteq> CHR 0x00) (terminated cs)) < length (terminated cs)"
    by (rule length_takeWhile_less) simp
  then show ?thesis using len by (simp add: c_string_def terminated_def)
qed

lemma c_string_cleared: "cs \<noteq> [] \<Longrightarrow> c_string (cs[0 := CHR 0x00]) = []"
  by (cases cs) (simp_all add: c_string_def)

lemma zero_desired_wf: "desired_wf (zero_desired\<lparr>revision := n\<rparr>)" "desired_wf zero_desired"
  by (simp_all add: desired_wf_def zero_desired_def zero_animation_def actor_consts c_string_def)

lemma created_wf:
  assumes "actor_compat_skin_valid skin" "actor_compat_vec_valid pos" "f32_finite rot" "f32_finite health"
  shows "desired_wf (created n iv skin pos rot health)"
  using assms
  by (simp add: desired_wf_def created_def zero_desired_def zero_animation_def actor_consts c_string_def
      f32_finite_def f32_exponent_def)

lemma update_active_wf:
  assumes "desired_wf d" "d_active d \<noteq> 0" "animation_sized (ev_animation e)"
  shows "desired_wf (update_active e d)"
proof -
  have cleared: "length (c_string (cs[0 := CHR 0x00])) < SAMP_RAKNET_ACTOR_ANIM_BYTES" for cs
    by (cases cs) (simp_all add: c_string_def actor_consts)
  show ?thesis
    using assms c_string_terminated[of "animation_lib (ev_animation e)"] c_string_terminated[of "animation_name (ev_animation e)"]
    by (auto simp: update_active_def Let_def desired_wf_def actor_compat_copy_animation_from_event_def
        copied_animation_def animation_sized_def cleared)
qed

lemma event_effect_wf:
  assumes "desired_wf (desired slot)" "animation_sized (ev_animation e)"
  shows "desired_wf (desired (event_effect e slot))"
  using assms update_active_wf[of "desired slot" e]
  by (auto simp: event_effect_def Let_def create_accepted_def created_wf)
    (auto simp: desired_wf_def)

lemma state_effect_wf:
  assumes "animation_sized (as_animation st)"
  shows "desired_wf (desired (state_effect st slot))"
proof (cases "as_active st = 0 \<or> \<not> state_accepted st")
  case True
  then show ?thesis by (simp add: state_effect_def zero_desired_wf)
next
  case False
  then show ?thesis
    using assms c_string_terminated[of "animation_lib (as_animation st)"] c_string_terminated[of "animation_name (as_animation st)"]
    by (simp add: state_effect_def state_accepted_def desired_wf_def created_def copied_animation_def
        animation_sized_def)
qed

lemma locked_write_wf:
  assumes "slot_wf slot" "\<And>s. desired s = desired slot \<Longrightarrow> desired_wf (desired (f s))"
    and "\<And>s. desired_write_serial (f s) = desired_write_serial s"
  shows "slot_wf (locked_write f slot)"
  using assms by (simp add: locked_write_def slot_wf_def Let_def)

lemma effects_keep_serial [simp]:
  "desired_write_serial (event_effect e s) = desired_write_serial s"
  "desired_write_serial (state_effect st s) = desired_write_serial s"
  by (simp_all add: event_effect_def state_effect_def Let_def)

lemma pool_wf_update:
  assumes "pool_wf pool" "i < SAMP_RAKNET_MAX_ACTORS" "\<And>slot. slot_wf slot \<Longrightarrow> slot_wf (g slot)"
  shows "pool_wf (pool\<lparr>actor_slots := (actor_slots pool)[i := g (actor_slots pool ! i)]\<rparr>)"
  using assms by (auto simp: pool_wf_def dest!: set_update_subset_insert[THEN subsetD])

lemma apply_event_wf:
  assumes "pool_wf pool" "animation_sized (ev_animation e)"
  shows "pool_wf (actor_compat_apply_event_logical e pool)"
proof -
  have "slot_wf (locked_write (event_effect e) slot)" if "slot_wf slot" for slot
    by (rule locked_write_wf[OF that]) (use that assms(2) event_effect_wf in \<open>auto simp: slot_wf_def\<close>)
  then show ?thesis
    using assms(1) by (auto simp: actor_compat_apply_event_logical_def Let_def actor_compat_id_valid_def
        intro: pool_wf_update)
qed

lemma apply_state_wf:
  assumes "pool_wf pool" "animation_sized (as_animation st)"
  shows "pool_wf (actor_compat_apply_authoritative_state_logical i st pool)"
proof -
  have "slot_wf (locked_write (state_effect st) slot)" if "slot_wf slot" for slot
    by (rule locked_write_wf[OF that]) (use assms(2) state_effect_wf in auto)
  then show ?thesis
    using assms(1) by (auto simp: actor_compat_apply_authoritative_state_logical_def Let_def
        actor_compat_id_valid_def intro: pool_wf_update)
qed

definition adapter_sized :: "actor_adapter \<Rightarrow> bool" where
  "adapter_sized adapter \<longleftrightarrow> (\<forall>get i st. adapter = Some get \<longrightarrow> get i = Some st \<longrightarrow> animation_sized (as_animation st))"

lemma resync_wf:
  assumes "pool_wf pool" "adapter_sized adapter"
  shows "pool_wf (actor_compat_resync_authoritative adapter n pool)"
proof (cases adapter)
  case None
  then show ?thesis using assms by (simp add: actor_compat_resync_authoritative_def)
next
  case (Some get)
  have one: "pool_wf p \<Longrightarrow> pool_wf (resync_one get i p)" for i p
    using assms(2) Some by (auto simp: resync_one_def adapter_sized_def apply_state_wf split: option.splits)
  have "pool_wf (fold (resync_one get) is pool)" for "is"
    using assms(1) by (induction "is" arbitrary: pool) (simp_all add: one)
  then show ?thesis using Some by (simp add: actor_compat_resync_authoritative_def pool_wf_def)
qed

lemma apply_events_wf:
  assumes "pool_wf (fst st)" "\<forall>e\<in>set es. animation_sized (ev_animation e)"
  shows "pool_wf (fst (apply_events previous es st))"
  using assms
proof (induction previous es st rule: apply_events.induct)
  case (2 previous e es pool latest)
  then show ?case by (simp add: apply_event_wf)
qed simp

section \<open>Following the ring\<close>

definition newer :: "u32 \<Rightarrow> samp_raknet_actor_event list \<Rightarrow> samp_raknet_actor_event list" where
  "newer previous es = filter (\<lambda>e. ev_seq e \<noteq> 0 \<and> ev_seq e > previous) es"

definition consecutive :: "u32 \<Rightarrow> samp_raknet_actor_event list \<Rightarrow> bool" where
  "consecutive expected es \<longleftrightarrow> (\<forall>k<length es. ev_seq (es ! k) = expected + of_nat k)"

lemma consecutive_Cons:
  "consecutive expected (e # es) \<longleftrightarrow> ev_seq e = expected \<and> consecutive (expected + 1) es"
  unfolding consecutive_def by (auto simp: nth_Cons less_Suc_eq_0_disj algebra_simps split: nat.splits)

lemma event_gap_iff: "event_gap previous expected es \<longleftrightarrow> \<not> consecutive expected (newer previous es)"
  by (induction previous expected es rule: event_gap.induct)
    (auto simp: newer_def consecutive_Cons, auto simp: consecutive_def)

definition last_seq :: "u32 \<Rightarrow> samp_raknet_actor_event list \<Rightarrow> u32" where
  "last_seq latest es = (if es = [] then latest else ev_seq (last es))"

lemma apply_events_eq:
  "apply_events previous es (pool, latest) =
    (fold actor_compat_apply_event_logical (newer previous es) pool, last_seq latest (newer previous es))"
  by (induction es arbitrary: pool latest) (auto simp: newer_def last_seq_def)

lemma update_from_snapshot_eq:
  "actor_compat_update_from_snapshot adapter count events state_seq pool =
    (let previous = actor_event_seq pool;
         new = newer previous (take (min (unat count) SAMP_RAKNET_ACTOR_EVENT_RING) events);
         applied = fold actor_compat_apply_event_logical new pool in
     if \<not> consecutive (previous + 1) new then actor_compat_resync_authoritative adapter state_seq pool
     else if state_seq > last_seq previous new then actor_compat_resync_authoritative adapter state_seq applied
     else applied\<lparr>actor_event_seq := last_seq previous new, actor_state_seq := state_seq\<rparr>)"
proof -
  have keep: "actor_event_seq (fold actor_compat_apply_event_logical es p) = actor_event_seq p" for es p
    by (induction es arbitrary: p) (simp_all add: actor_compat_apply_event_logical_def Let_def)
  have same: "p\<lparr>actor_event_seq := actor_event_seq p\<rparr> = p" for p :: actor_pool by simp
  show ?thesis
    unfolding actor_compat_update_from_snapshot_def Let_def event_gap_iff apply_events_eq
    using keep same by (simp split: if_splits)
qed

section \<open>Properties\<close>

text \<open>C31: What the graphics thread reads from an actor slot is never torn: a read that succeeds returns
  exactly the words the slot holds at that moment, between two writes, whatever the writer did meanwhile,
  provided it did not complete 2^31 writes during the read.\<close>

theorem actor_seqlock_consistent:
  assumes "seqlock_reachable s" "reader s = Check attempt before out"
    and "reader (read_desired_step s) = Success result" "increments s < seen s + 2 ^ 32"
  shows "result = words s \<and> \<not> writing s"
proof -
  have inv: "seqlock_inv s" by (rule seqlock_inv[OF assms(1)])
  have ok: "result = out" "before = serial s" "even (serial s)"
    using assms(2,3) by (auto simp: word_even_iff split: if_splits)
  have c: "copy_ok s before out" "length out = length (words s)" using inv assms(2) by (auto simp: seqlock_inv_def)
  have "seen s = increments s"
    by (rule of_nat_u32_eq) (use ok c inv assms(4) in \<open>auto simp: seqlock_inv_def copy_ok_def\<close>)
  then show ?thesis using c ok inv by (auto simp: copy_ok_def seqlock_inv_def)
qed

text \<open>No actor event is lost or applied twice: a snapshot whose new events continue the sequence without a
  gap applies exactly those, once and in order, and remembers the last; if the adapter's state is ahead
  of them, or a number is missing or out of order, the whole pool is reloaded from the adapter instead.\<close>

theorem actor_update_exactly_once:
  "actor_compat_update_from_snapshot adapter count events state_seq pool =
    (let previous = actor_event_seq pool;
         new = newer previous (take (min (unat count) SAMP_RAKNET_ACTOR_EVENT_RING) events);
         applied = fold actor_compat_apply_event_logical new pool in
     if \<not> consecutive (previous + 1) new then actor_compat_resync_authoritative adapter state_seq pool
     else if state_seq > last_seq previous new then actor_compat_resync_authoritative adapter state_seq applied
     else applied\<lparr>actor_event_seq := last_seq previous new, actor_state_seq := state_seq\<rparr>)"
  by (rule update_from_snapshot_eq)

text \<open>Whatever a server sends, the pool stays well-formed: every active actor has a valid skin, a position
  inside the world and finite numbers, every animation name is terminated inside its array, and no slot
  is left locked. Only the sizes of the incoming arrays are assumed.\<close>

theorem actor_pool_wf_preserved:
  assumes "pool_wf pool" "adapter_sized adapter" "\<forall>e\<in>set events. animation_sized (ev_animation e)"
  shows "pool_wf (actor_compat_update_from_snapshot adapter count events state_seq pool) \<and>
    pool_wf (actor_compat_reset_pool pool)"
proof -
  let ?es = "take (min (unat count) SAMP_RAKNET_ACTOR_EVENT_RING) events"
  have "\<forall>e\<in>set ?es. animation_sized (ev_animation e)" using assms(3) by (auto dest: in_set_takeD)
  then have ev: "pool_wf (fst (apply_events p ?es (pool, l)))" for p l
    using apply_events_wf[of "(pool, l)" ?es p] assms(1) by simp
  have "pool_wf (actor_compat_update_from_snapshot adapter count events state_seq pool)"
    using ev[of "actor_event_seq pool" "actor_event_seq pool"] resync_wf[OF _ assms(2)] assms(1)
    by (auto simp: actor_compat_update_from_snapshot_def Let_def pool_wf_def split: prod.splits)
  moreover have "pool_wf (actor_compat_reset_pool pool)"
    using assms(1)
    by (auto simp: actor_compat_reset_pool_def pool_wf_def slot_wf_def locked_write_def zero_desired_wf)
  ultimately show ?thesis by blast
qed

definition torn_free_example :: seqlock where
  "torn_free_example = \<lparr>serial = 2, words = [7], writing = False, reader = Check 0 2 [7], increments = 2, seen = 2\<rparr>"

theorem actor_seqlock_consistent_witness:
  "reader (read_desired_step torn_free_example) = Success [7] \<and> [7] = words torn_free_example \<and>
     \<not> writing torn_free_example"
proof -
  let ?s0 = "\<lparr>serial = 0, words = [0], writing = False, reader = Load 0, increments = 0, seen = 0\<rparr>"
  let ?s1 = "\<lparr>serial = 1, words = [0], writing = True, reader = Load 0, increments = 1, seen = 0\<rparr>"
  let ?s2 = "\<lparr>serial = 1, words = [7], writing = True, reader = Load 0, increments = 1, seen = 0\<rparr>"
  let ?s3 = "\<lparr>serial = 2, words = [7], writing = False, reader = Load 0, increments = 2, seen = 0\<rparr>"
  have "seqlock_reachable ?s0" by (rule seqlock_reachable.start)
  from write_begin[OF this] have "seqlock_reachable ?s1" by simp
  from write_word[OF this, of 0 7] have "seqlock_reachable ?s2" by simp
  from write_end[OF this] have "seqlock_reachable ?s3" by (simp add: numeral_2_eq_2)
  from read_step[OF read_step[OF read_step[OF this]]] have r: "seqlock_reachable torn_free_example"
    by (simp add: torn_free_example_def)
  have "reader (read_desired_step torn_free_example) = Success [7]" by (simp add: torn_free_example_def)
  with actor_seqlock_consistent[OF r _ this, of 0 2 "[7]"] show ?thesis by (simp add: torn_free_example_def)
qed

definition empty_pool :: actor_pool where
  "empty_pool = \<lparr>actor_slots = replicate 1000 \<lparr>desired_write_serial = 0, blocked_logged = False, desired = zero_desired\<rparr>,
     actor_event_seq = 0, actor_state_seq = 0\<rparr>"

definition example_create :: samp_raknet_actor_event where
  "example_create = \<lparr>ev_seq = 1, ev_actor_id = 3, ev_action = 1, ev_invulnerable = 1, ev_skin = 7,
     ev_pos = [0x41200000, 0, 0x40A00000], ev_rotation = 0, ev_health = 0x42C80000, ev_animation = zero_animation\<rparr>"

theorem actor_pool_wf_preserved_witness:
  "pool_wf (actor_compat_update_from_snapshot None 1 [example_create] 1 empty_pool)"
proof -
  have "pool_wf empty_pool"
    by (simp add: pool_wf_def empty_pool_def actor_consts slot_wf_def zero_desired_wf)
  moreover have "adapter_sized None" by (simp add: adapter_sized_def)
  moreover have "\<forall>e\<in>set [example_create]. animation_sized (ev_animation e)"
    by (simp add: example_create_def animation_sized_def zero_animation_def)
  ultimately show ?thesis using actor_pool_wf_preserved by blast
qed

end
