(* ===== verification/RpcActors.thy ===== *)
theory RpcActors
  imports RakPayload ActorPool
begin

text \<open>
  The actor half of \<^verbatim>\<open>src/net/raknet_client_adapter.cpp\<close>: the decoder of the seven actor RPCs, the
  authoritative actor states and the event ring it maintains, and what the graphics thread copies from
  it. The last part composes it with \<open>ActorPool\<close>, the reader on the other side of the ring.
\<close>

section \<open>State\<close>

record actor_net =
  net_actor_event_seq :: u32
  net_actor_events :: "samp_raknet_actor_event list"
  net_actor_state_seq :: u32
  net_actor_states :: "samp_raknet_actor_state list"

definition zero_actor_event :: samp_raknet_actor_event where
  "zero_actor_event = \<lparr>ev_seq = 0, ev_actor_id = 0, ev_action = 0, ev_invulnerable = 0, ev_skin = 0,
     ev_pos = [0, 0, 0], ev_rotation = 0, ev_health = 0, ev_animation = zero_animation\<rparr>"

definition zero_actor_state :: samp_raknet_actor_state where
  "zero_actor_state = \<lparr>as_revision = 0, as_active = 0, as_invulnerable = 0, as_has_animation = 0, as_skin = 0,
     as_pos = [0, 0, 0], as_rotation = 0, as_health = 0, as_animation = zero_animation\<rparr>"

text \<open>\<^verbatim>\<open>reset_rpc_probe_runtime\<close>.\<close>

definition reset_actor_net :: actor_net where
  "reset_actor_net = \<lparr>net_actor_event_seq = 0,
     net_actor_events = replicate SAMP_RAKNET_ACTOR_EVENT_RING zero_actor_event, net_actor_state_seq = 0,
     net_actor_states = replicate SAMP_RAKNET_MAX_ACTORS zero_actor_state\<rparr>"

section \<open>Queueing\<close>

text \<open>
  \<open>body\<close> is the cleared event with what the caller then stores through the returned pointer. The
  event that ends up in the ring is returned with the state.
\<close>

definition queue_actor_event ::
  "u8 \<times> u16 \<times> samp_raknet_actor_event \<Rightarrow> actor_net \<Rightarrow> samp_raknet_actor_event \<times> actor_net" where
  "queue_actor_event a ad = (case a of (action, actor_id, body) \<Rightarrow>
     let n = bump_seq (net_actor_event_seq ad);
         e = body\<lparr>ev_seq := n, ev_actor_id := actor_id, ev_action := action\<rparr>
     in (e, ad\<lparr>net_actor_event_seq := n,
              net_actor_events := (net_actor_events ad)[ring_slot SAMP_RAKNET_ACTOR_EVENT_RING n := e],
              net_actor_state_seq := n\<rparr>))"

definition actor_position_is_safe :: "f32 list \<Rightarrow> bool" where
  "actor_position_is_safe pos \<longleftrightarrow> f32_finite (pos ! 0) \<and> f32_finite (pos ! 1) \<and> f32_finite (pos ! 2) \<and>
     f32_abs_le 100000 (pos ! 0) \<and> f32_abs_le 100000 (pos ! 1) \<and> f32_abs_le 100000 (pos ! 2)"

definition actor_state_is_active :: "u16 \<Rightarrow> actor_net \<Rightarrow> bool" where
  "actor_state_is_active actor_id ad \<longleftrightarrow>
     \<not> unat actor_id \<ge> SAMP_RAKNET_MAX_ACTORS \<and> as_active (net_actor_states ad ! unat actor_id) \<noteq> 0"

text \<open>The update of an active actor: the event, then the state with the event's number.\<close>

definition update_actor ::
  "u8 \<Rightarrow> u16 \<Rightarrow> samp_raknet_actor_event \<Rightarrow> (samp_raknet_actor_state \<Rightarrow> samp_raknet_actor_state) \<Rightarrow>
     actor_net \<Rightarrow> actor_net" where
  "update_actor action actor_id body change ad =
     (case queue_actor_event (action, actor_id, body) ad of (e, ad1) \<Rightarrow>
        ad1\<lparr>net_actor_states := (net_actor_states ad1)[unat actor_id :=
          change ((net_actor_states ad1 ! unat actor_id)\<lparr>as_revision := ev_seq e\<rparr>)]\<rparr>)"

section \<open>The decoder\<close>

definition decode_actor_create ::
  "u16 \<Rightarrow> u8 list \<Rightarrow> u32 \<Rightarrow> actor_net \<Rightarrow> (bool \<times> actor_net) mem" where
  "decode_actor_create actor_id data bits ad = do {
     skin \<leftarrow> (if length data \<ge> 6 then read_le_i32 data 2 else Some (- 1));
     if bits \<noteq> 216 \<or> length data \<noteq> 27 then Some (False, ad)
     else do {
       pos \<leftarrow> read_vec3 data 6;
       rotation \<leftarrow> read_le_float data 18;
       health \<leftarrow> read_le_float data 22;
       iv \<leftarrow> read_byte data 26;
       let invulnerable = flag iv;
       if skin < 0 \<or> skin > 311 \<or> skin = 74 \<or> \<not> actor_position_is_safe pos \<or> \<not> f32_finite rotation \<or>
          \<not> f32_finite health \<or> \<not> f32_abs_le 1000000 health
       then Some (False, ad)
       else Some (True, update_actor SAMP_RAKNET_ACTOR_ACTION_CREATE actor_id
         (zero_actor_event\<lparr>ev_skin := skin, ev_pos := pos, ev_rotation := rotation, ev_health := health,
            ev_invulnerable := invulnerable\<rparr>)
         (\<lambda>st. zero_actor_state\<lparr>as_revision := as_revision st, as_active := 1, as_invulnerable := invulnerable,
            as_skin := skin, as_pos := pos, as_rotation := rotation, as_health := health\<rparr>) ad) } }"

definition decode_actor_destroy :: "u16 \<Rightarrow> u8 list \<Rightarrow> u32 \<Rightarrow> actor_net \<Rightarrow> bool \<times> actor_net" where
  "decode_actor_destroy actor_id data bits ad =
     (if bits \<noteq> 16 \<or> length data \<noteq> 2 then (False, ad)
      else if \<not> actor_state_is_active actor_id ad then (True, ad)
      else (True, update_actor SAMP_RAKNET_ACTOR_ACTION_DESTROY actor_id zero_actor_event
        (\<lambda>st. zero_actor_state\<lparr>as_revision := as_revision st\<rparr>) ad))"

text \<open>An array of \<^verbatim>\<open>SAMP_RAKNET_ACTOR_ANIM_LIB_BYTES\<close> zeros, its beginning overwritten.\<close>

definition anim_array :: "u8 list \<Rightarrow> string" where
  "anim_array xs = map (\<lambda>b. char_of (unat b)) xs @ replicate (SAMP_RAKNET_ACTOR_ANIM_BYTES - length xs) (CHR 0x00)"

definition read_len_bytes :: "'b bitstream \<Rightarrow> 'b \<Rightarrow> (u8 \<times> u8 list \<times> 'b) option" where
  "read_len_bytes B s = (case bs_u8 B s of None \<Rightarrow> None
     | Some (len, s) \<Rightarrow> if len > 0 then map_option (Pair len) (bs_bytes B (unat len) s) else Some (len, [], s))"

definition read_anim_tail :: "'b bitstream \<Rightarrow> 'b \<Rightarrow> ((f32 \<times> bool \<times> bool \<times> bool \<times> bool \<times> u32) \<times> 'b) option" where
  "read_anim_tail B s = do {
     (delta, s) \<leftarrow> bs_u32 B s;
     (l, s) \<leftarrow> bs_bool B s;
     (lx, s) \<leftarrow> bs_bool B s;
     (ly, s) \<leftarrow> bs_bool B s;
     (fr, s) \<leftarrow> bs_bool B s;
     (time, s) \<leftarrow> bs_u32 B s;
     Some ((delta, l, lx, ly, fr, time), s) }"

definition read_actor_animation :: "'b bitstream \<Rightarrow> u8 list \<Rightarrow> u32 \<Rightarrow> (u16 \<times> actor_animation) option" where
  "read_actor_animation B data bits = do {
     (actor_id, s) \<leftarrow> bs_u16 B (bs_open B data);
     if unat actor_id \<ge> SAMP_RAKNET_MAX_ACTORS then None
     else do {
       (lib_len, lib, s) \<leftarrow> read_len_bytes B s;
       (name_len, nm, s) \<leftarrow> read_len_bytes B s;
       let expected_bits = 100 + 8 * (unat lib_len + unat name_len);
       if unat bits \<noteq> expected_bits then None
       else do {
         ((delta, l, lx, ly, fr, time), s) \<leftarrow> read_anim_tail B s;
         if bs_offset B s \<noteq> expected_bits \<or> \<not> f32_finite delta then None
         else Some (actor_id, \<lparr>animation_delta = delta, animation_time = sint time, animation_loop = of_bool l,
           animation_lock_x = of_bool lx, animation_lock_y = of_bool ly, animation_freeze = of_bool fr,
           animation_lib = anim_array lib, animation_name = anim_array nm\<rparr>) } } }"

definition decode_actor_animation :: "'b bitstream \<Rightarrow> u8 list \<Rightarrow> u32 \<Rightarrow> actor_net \<Rightarrow> bool \<times> actor_net" where
  "decode_actor_animation B data bits ad = (case read_actor_animation B data bits of None \<Rightarrow> (False, ad)
     | Some (actor_id, anim) \<Rightarrow>
        if \<not> actor_state_is_active actor_id ad then (True, ad)
        else (True, update_actor SAMP_RAKNET_ACTOR_ACTION_APPLY_ANIMATION actor_id
          (zero_actor_event\<lparr>ev_animation := anim\<rparr>)
          (\<lambda>st. if c_string (animation_lib anim) \<noteq> ''SEX'' then st\<lparr>as_has_animation := 1, as_animation := anim\<rparr>
             else st) ad))"

definition decode_actor_clear :: "u16 \<Rightarrow> u8 list \<Rightarrow> u32 \<Rightarrow> actor_net \<Rightarrow> bool \<times> actor_net" where
  "decode_actor_clear actor_id data bits ad =
     (if bits \<noteq> 16 \<or> length data \<noteq> 2 then (False, ad)
      else if \<not> actor_state_is_active actor_id ad then (True, ad)
      else (True, update_actor SAMP_RAKNET_ACTOR_ACTION_CLEAR_ANIMATIONS actor_id zero_actor_event
        (\<lambda>st. st\<lparr>as_has_animation := 0, as_animation := zero_animation\<rparr>) ad))"

definition decode_actor_scalar ::
  "u32 \<Rightarrow> u16 \<Rightarrow> u8 list \<Rightarrow> u32 \<Rightarrow> actor_net \<Rightarrow> (bool \<times> actor_net) mem" where
  "decode_actor_scalar rpc_id actor_id data bits ad =
     (if bits \<noteq> 48 \<or> length data \<noteq> 6 then Some (False, ad)
      else do {
        value \<leftarrow> read_le_float data 2;
        if \<not> f32_finite value \<or> (rpc_id = 178 \<and> \<not> f32_abs_le 1000000 value) then Some (False, ad)
        else if \<not> actor_state_is_active actor_id ad then Some (True, ad)
        else if rpc_id = 175
        then Some (True, update_actor SAMP_RAKNET_ACTOR_ACTION_SET_FACING actor_id
          (zero_actor_event\<lparr>ev_rotation := value\<rparr>) (\<lambda>st. st\<lparr>as_rotation := value\<rparr>) ad)
        else Some (True, update_actor SAMP_RAKNET_ACTOR_ACTION_SET_HEALTH actor_id
          (zero_actor_event\<lparr>ev_health := value\<rparr>) (\<lambda>st. st\<lparr>as_health := value\<rparr>) ad) })"

definition decode_actor_position :: "u16 \<Rightarrow> u8 list \<Rightarrow> u32 \<Rightarrow> actor_net \<Rightarrow> (bool \<times> actor_net) mem" where
  "decode_actor_position actor_id data bits ad =
     (if bits \<noteq> 112 \<or> length data \<noteq> 14 then Some (False, ad)
      else do {
        pos \<leftarrow> read_vec3 data 2;
        if \<not> actor_position_is_safe pos then Some (False, ad)
        else if \<not> actor_state_is_active actor_id ad then Some (True, ad)
        else Some (True, update_actor SAMP_RAKNET_ACTOR_ACTION_SET_POSITION actor_id
          (zero_actor_event\<lparr>ev_pos := pos\<rparr>) (\<lambda>st. st\<lparr>as_pos := pos\<rparr>) ad) })"

definition decode_actor_payload ::
  "'b bitstream \<Rightarrow> u32 \<Rightarrow> u8 list \<Rightarrow> u32 \<Rightarrow> actor_net \<Rightarrow> (bool \<times> actor_net) mem" where
  "decode_actor_payload B rpc_id data bits ad =
     (if bits = 0 \<or> length data \<noteq> unat ((bits + 7) div 8) \<or> length data < 2 then Some (False, ad)
      else do {
        actor_id \<leftarrow> read_le16 data 0;
        if unat actor_id \<ge> SAMP_RAKNET_MAX_ACTORS then Some (False, ad)
        else if rpc_id = 171 then decode_actor_create actor_id data bits ad
        else if rpc_id = 172 then Some (decode_actor_destroy actor_id data bits ad)
        else if rpc_id = 173 then Some (decode_actor_animation B data bits ad)
        else if rpc_id = 174 then Some (decode_actor_clear actor_id data bits ad)
        else if rpc_id = 175 \<or> rpc_id = 178 then decode_actor_scalar rpc_id actor_id data bits ad
        else if rpc_id = 176 then decode_actor_position actor_id data bits ad
        else Some (False, ad) })"

section \<open>What the graphics thread reads\<close>

definition samp_raknet_client_get_actor_state :: "actor_net \<Rightarrow> u16 \<Rightarrow> samp_raknet_actor_state option" where
  "samp_raknet_client_get_actor_state ad actor_id =
     (if unat actor_id \<ge> SAMP_RAKNET_MAX_ACTORS then None else Some (net_actor_states ad ! unat actor_id))"

definition actor_snapshot :: "actor_net \<Rightarrow> samp_raknet_actor_event list" where
  "actor_snapshot ad = ring_snapshot SAMP_RAKNET_ACTOR_EVENT_RING ev_seq (net_actor_event_seq ad) (net_actor_events ad)"

text \<open>One pump of the network followed by a poll of the pool, as the runtime loop does them.\<close>

definition poll_actors :: "actor_net \<Rightarrow> actor_pool \<Rightarrow> actor_pool" where
  "poll_actors ad pool = actor_compat_update_from_snapshot (Some (samp_raknet_client_get_actor_state ad))
     (of_nat (length (actor_snapshot ad))) (actor_snapshot ad) (net_actor_state_seq ad) pool"

section \<open>Every read is inside the payload\<close>


lemma decode_actor_total: "\<exists>r. decode_actor_payload B rpc_id data bits ad = Some r"
proof -
  have create: "\<exists>r. decode_actor_create i data bits ad = Some r" for i
  proof (cases "bits \<noteq> 216 \<or> length data \<noteq> 27")
    case True
    then show ?thesis using read_le_i32_in[of 2 data] by (auto simp: decode_actor_create_def bind_Some_iff)
  next
    case False
    then have len: "length data = 27" by simp
    obtain s p r h v where "read_le_i32 data 2 = Some s" "read_vec3 data 6 = Some p" "read_le_float data 18 = Some r"
      "read_le_float data 22 = Some h" "read_byte data 26 = Some v"
      using len read_le_i32_in[of 2 data] read_vec3_in[of 6 data] read_le_float_in[of 18 data]
        read_le_float_in[of 22 data] read_byte_in[of 26 data] by auto
    then show ?thesis using False by (auto simp: decode_actor_create_def Let_def)
  qed
  have scalar: "\<exists>r. decode_actor_scalar rpc i data bits ad = Some r" for rpc i
    using read_le_float_in[of 2 data] by (cases "length data = 6") (auto simp: decode_actor_scalar_def)
  have position: "\<exists>r. decode_actor_position i data bits ad = Some r" for i
    using read_vec3_in[of 2 data] by (cases "length data = 14") (auto simp: decode_actor_position_def)
  show ?thesis
    using read_le16_in[of 0 data] create scalar position
    by (cases "length data < 2") (auto simp: decode_actor_payload_def)
qed

section \<open>What an actor looks like\<close>

text \<open>
  The specification both sides implement: an actor is nothing, or its invulnerability, skin, position,
  rotation, health and animation, and each event changes one actor.
\<close>

type_synonym actor_view = "u8 \<times> int \<times> f32 list \<times> f32 \<times> f32 \<times> actor_animation option"

definition view_event :: "samp_raknet_actor_event \<Rightarrow> actor_view option \<Rightarrow> actor_view option" where
  "view_event e v =
     (if ev_action e = SAMP_RAKNET_ACTOR_ACTION_CREATE then
        if create_accepted e then Some (flag (ev_invulnerable e), ev_skin e, ev_pos e, ev_rotation e, ev_health e, None) else v
      else if ev_action e = SAMP_RAKNET_ACTOR_ACTION_DESTROY then None
      else case v of None \<Rightarrow> None | Some (iv, skin, pos, rot, health, anim) \<Rightarrow>
        if ev_action e = SAMP_RAKNET_ACTOR_ACTION_APPLY_ANIMATION then
          if f32_finite (animation_delta (ev_animation e)) \<and> c_string (animation_lib (ev_animation e)) \<noteq> ''SEX''
          then Some (iv, skin, pos, rot, health, Some (copied_animation (ev_animation e))) else v
        else if ev_action e = SAMP_RAKNET_ACTOR_ACTION_CLEAR_ANIMATIONS then Some (iv, skin, pos, rot, health, None)
        else if ev_action e = SAMP_RAKNET_ACTOR_ACTION_SET_FACING then
          if f32_finite (ev_rotation e) then Some (iv, skin, pos, ev_rotation e, health, anim) else v
        else if ev_action e = SAMP_RAKNET_ACTOR_ACTION_SET_POSITION then
          if actor_compat_vec_valid (ev_pos e) then Some (iv, skin, ev_pos e, rot, health, anim) else v
        else if ev_action e = SAMP_RAKNET_ACTOR_ACTION_SET_HEALTH \<and> f32_finite (ev_health e) then
          Some (iv, skin, pos, rot, ev_health e, anim)
        else v)"

definition world_views :: "samp_raknet_actor_event list \<Rightarrow> nat \<Rightarrow> actor_view option" where
  "world_views h i = fold (\<lambda>e v. if unat (ev_actor_id e) = i then view_event e v else v) h None"

definition desired_view :: "samp_actor_desired_state_compat \<Rightarrow> actor_view option" where
  "desired_view d = (if d_active d = 0 then None
     else Some (d_invulnerable d, d_skin d, d_pos d, d_rotation d, d_health d,
       if has_animation d = 0 then None else Some (d_animation d)))"

definition state_view :: "samp_raknet_actor_state \<Rightarrow> actor_view option" where
  "state_view st = (if as_active st = 0 then None
     else Some (flag (as_invulnerable st), as_skin st, as_pos st, as_rotation st, as_health st,
       if as_has_animation st = 0 then None else Some (copied_animation (as_animation st))))"

lemma world_views_snoc:
  "world_views (h @ [e]) i = (if unat (ev_actor_id e) = i then view_event e (world_views h i) else world_views h i)"
  by (simp add: world_views_def)

lemma world_views_append:
  "world_views (h @ es) i = fold (\<lambda>e v. if unat (ev_actor_id e) = i then view_event e v else v) es (world_views h i)"
  by (simp add: world_views_def)

text \<open>The pool implements it on every event \dots\<close>

lemma event_effect_view: "desired_view (desired (event_effect e slot)) = view_event e (desired_view (desired slot))"
  by (simp add: event_effect_def Let_def desired_view_def view_event_def created_def zero_desired_def
      update_active_def actor_compat_copy_animation_from_event_def actor_consts)

lemma locked_write_desired:
  "(\<And>n. desired (f (slot\<lparr>desired_write_serial := n\<rparr>)) = d) \<Longrightarrow> desired (locked_write f slot) = d"
  by (simp add: locked_write_def Let_def)

text \<open>\dots and the adapter keeps the view of its authoritative states, as long as positions are ones the pool accepts.\<close>

definition state_ok :: "samp_raknet_actor_state \<Rightarrow> bool" where
  "state_ok st \<longleftrightarrow> animation_sized (as_animation st) \<and> (as_active st \<noteq> 0 \<longrightarrow> state_accepted st)"

text \<open>One step of the adapter: nothing, or one queued event and the change of one state.\<close>

definition actor_step :: "samp_raknet_actor_event \<Rightarrow> actor_net \<Rightarrow> actor_net \<Rightarrow> bool" where
  "actor_step e ad ad' \<longleftrightarrow> (\<exists>a st'. queue_actor_event a ad = (e, ad'\<lparr>net_actor_states := net_actor_states ad\<rparr>) \<and>
     unat (ev_actor_id e) < SAMP_RAKNET_MAX_ACTORS \<and>
     net_actor_states ad' = (net_actor_states ad)[unat (ev_actor_id e) := st'] \<and>
     (state_ok (net_actor_states ad ! unat (ev_actor_id e)) \<longrightarrow>
        state_ok st' \<and> state_view st' = view_event e (state_view (net_actor_states ad ! unat (ev_actor_id e)))) \<and>
     animation_sized (ev_animation e))"

lemma update_actor_step:
  assumes "unat i < SAMP_RAKNET_MAX_ACTORS" "animation_sized (ev_animation body)"
    and "\<And>e. e = body\<lparr>ev_seq := bump_seq (net_actor_event_seq ad), ev_actor_id := i, ev_action := action\<rparr> \<Longrightarrow>
      state_ok (net_actor_states ad ! unat i) \<Longrightarrow>
      state_ok (change ((net_actor_states ad ! unat i)\<lparr>as_revision := ev_seq e\<rparr>)) \<and>
      state_view (change ((net_actor_states ad ! unat i)\<lparr>as_revision := ev_seq e\<rparr>)) =
        view_event e (state_view (net_actor_states ad ! unat i))"
  shows "\<exists>e. actor_step e ad (update_actor action i body change ad)"
proof -
  let ?e = "body\<lparr>ev_seq := bump_seq (net_actor_event_seq ad), ev_actor_id := i, ev_action := action\<rparr>"
  have "actor_step ?e ad (update_actor action i body change ad)"
    unfolding actor_step_def
    by (intro exI[of _ "(action, i, body)"] exI[of _ "change ((net_actor_states ad ! unat i)\<lparr>as_revision := ev_seq ?e\<rparr>)"])
      (use assms in \<open>simp add: update_actor_def queue_actor_event_def Let_def\<close>)
  then show ?thesis by blast
qed

text \<open>A message carries no position that the pool would refuse.\<close>

type_synonym actor_message = "u32 \<times> u8 list \<times> u32"

definition in_world :: "actor_message \<Rightarrow> bool" where
  "in_world m = (case m of (rpc_id, data, bits) \<Rightarrow>
     (rpc_id = 171 \<longrightarrow> (case read_vec3 data 6 of Some pos \<Rightarrow> actor_compat_vec_valid pos | None \<Rightarrow> True)) \<and>
     (rpc_id = 176 \<longrightarrow> (case read_vec3 data 2 of Some pos \<Rightarrow> actor_compat_vec_valid pos | None \<Rightarrow> True)))"

lemma anim_array_sized: "length xs \<le> 255 \<Longrightarrow> length (anim_array xs) = SAMP_RAKNET_ACTOR_ANIM_BYTES"
  by (simp add: anim_array_def actor_consts)

lemma zero_event_simps [simp]:
  "ev_animation zero_actor_event = zero_animation" "animation_sized zero_animation"
  "ev_skin zero_actor_event = 0" "ev_pos zero_actor_event = [0, 0, 0]" "ev_rotation zero_actor_event = 0"
  "ev_health zero_actor_event = 0"
  by (simp_all add: zero_actor_event_def zero_animation_def animation_sized_def actor_consts)

lemma zero_state_simps [simp]:
  "as_animation zero_actor_state = zero_animation" "as_active zero_actor_state = 0"
  "as_has_animation zero_actor_state = 0" "animation_delta zero_animation = 0"
  by (simp_all add: zero_actor_state_def zero_animation_def)

lemma flag_01 [simp]: "flag 0 = 0" "flag 1 = 1" "flag (flag b) = flag b" "flag (if P then 1 else 0) = (if P then 1 else 0)"
  by (simp_all add: flag_def)

lemma create_step:
  assumes "decode_actor_create i data bits ad = Some (r, ad')" "unat i < SAMP_RAKNET_MAX_ACTORS"
    and "in_world (171, data, bits)"
  shows "ad' = ad \<or> (\<exists>e. actor_step e ad ad')"
proof -
  have step: "\<exists>e. actor_step e ad (update_actor SAMP_RAKNET_ACTOR_ACTION_CREATE i
      (zero_actor_event\<lparr>ev_skin := skin, ev_pos := pos, ev_rotation := rot, ev_health := health,
         ev_invulnerable := flag v\<rparr>)
      (\<lambda>st. zero_actor_state\<lparr>as_revision := as_revision st, as_active := 1, as_invulnerable := flag v,
         as_skin := skin, as_pos := pos, as_rotation := rot, as_health := health\<rparr>) ad)"
    if "\<not> skin < 0" "\<not> 311 < skin" "skin \<noteq> 74" "f32_finite rot" "f32_finite health" "actor_compat_vec_valid pos"
    for skin pos rot health v
    by (rule update_actor_step)
      (use assms(2) that in \<open>auto simp: state_ok_def state_accepted_def state_view_def view_event_def
        create_accepted_def actor_compat_skin_valid_def actor_consts\<close>)
  show ?thesis
    using assms(1,3) step
    by (auto simp: decode_actor_create_def Let_def bind_Some_iff in_world_def split: if_splits)
qed

lemma active_state: "actor_state_is_active i ad \<Longrightarrow> unat i < SAMP_RAKNET_MAX_ACTORS \<and> as_active (net_actor_states ad ! unat i) \<noteq> 0"
  by (simp add: actor_state_is_active_def)

lemmas view_defs = state_ok_def state_accepted_def state_view_def view_event_def actor_consts

lemma destroy_step:
  "decode_actor_destroy i data bits ad = (r, ad') \<Longrightarrow> ad' = ad \<or> (\<exists>e. actor_step e ad ad')"
  by (auto simp: decode_actor_destroy_def view_defs dest!: active_state split: if_splits intro!: update_actor_step)

lemma clear_step:
  "decode_actor_clear i data bits ad = (r, ad') \<Longrightarrow> ad' = ad \<or> (\<exists>e. actor_step e ad ad')"
  by (auto simp: decode_actor_clear_def view_defs dest!: active_state split: if_splits intro!: update_actor_step)

lemma scalar_step:
  "decode_actor_scalar rpc i data bits ad = Some (r, ad') \<Longrightarrow> rpc = 175 \<or> rpc = 178 \<Longrightarrow>
    ad' = ad \<or> (\<exists>e. actor_step e ad ad')"
  by (auto simp: decode_actor_scalar_def view_defs bind_Some_iff dest!: active_state split: if_splits
      intro!: update_actor_step)

lemma position_step:
  assumes "decode_actor_position i data bits ad = Some (r, ad')" "in_world (176, data, bits)"
  shows "ad' = ad \<or> (\<exists>e. actor_step e ad ad')"
  using assms
  by (auto simp: decode_actor_position_def view_defs bind_Some_iff in_world_def dest!: active_state split: if_splits
      intro!: update_actor_step)

lemma read_len_bytes_length:
  "bitstream_ok B \<Longrightarrow> read_len_bytes B s = Some (len, xs, s') \<Longrightarrow> length xs \<le> 255"
  using unat_u8_lt[of len] by (auto simp: read_len_bytes_def dest!: bs_bytes_length split: option.splits if_splits)

lemma read_actor_animation_ok:
  assumes "bitstream_ok B" "read_actor_animation B data bits = Some (i, anim)"
  shows "animation_sized anim \<and> f32_finite (animation_delta anim)"
  using assms(2)
  by (auto simp: read_actor_animation_def Let_def bind_Some_iff animation_sized_def
      intro!: anim_array_sized dest!: read_len_bytes_length[OF assms(1)] split: if_splits prod.splits)

lemma animation_step:
  assumes "bitstream_ok B" "decode_actor_animation B data bits ad = (r, ad')"
  shows "ad' = ad \<or> (\<exists>e. actor_step e ad ad')"
proof -
  have step: "\<exists>e. actor_step e ad (update_actor SAMP_RAKNET_ACTOR_ACTION_APPLY_ANIMATION i (zero_actor_event\<lparr>ev_animation := anim\<rparr>)
      (\<lambda>st. if c_string (animation_lib anim) \<noteq> ''SEX'' then st\<lparr>as_has_animation := 1, as_animation := anim\<rparr> else st) ad)"
    if "actor_state_is_active i ad" "animation_sized anim" "f32_finite (animation_delta anim)" for i anim
    by (rule update_actor_step) (use that in \<open>auto simp: view_defs dest!: active_state\<close>)
  show ?thesis
  proof (cases "read_actor_animation B data bits")
    case (Some p)
    obtain i anim where p: "p = (i, anim)" by (cases p)
    have ok: "animation_sized anim" "f32_finite (animation_delta anim)"
      using read_actor_animation_ok[OF assms(1)] Some p by blast+
    show ?thesis
    proof (cases "actor_state_is_active i ad")
      case True
      then show ?thesis using assms(2) Some p step[OF True ok] by (auto simp: decode_actor_animation_def)
    qed (use assms(2) Some p in \<open>simp add: decode_actor_animation_def\<close>)
  qed (use assms(2) in \<open>simp add: decode_actor_animation_def\<close>)
qed

lemma decode_actor_step:
  assumes "decode_actor_payload B rpc_id data bits ad = Some (r, ad')" "bitstream_ok B" "in_world (rpc_id, data, bits)"
  shows "ad' = ad \<or> (\<exists>e. actor_step e ad ad')"
proof -
  let ?i = "the (read_le16 data 0)"
  have "ad' = ad \<or> unat ?i < SAMP_RAKNET_MAX_ACTORS \<and>
      (rpc_id = 171 \<and> decode_actor_create ?i data bits ad = Some (r, ad') \<or>
       rpc_id = 172 \<and> decode_actor_destroy ?i data bits ad = (r, ad') \<or>
       rpc_id = 173 \<and> decode_actor_animation B data bits ad = (r, ad') \<or>
       rpc_id = 174 \<and> decode_actor_clear ?i data bits ad = (r, ad') \<or>
       (rpc_id = 175 \<or> rpc_id = 178) \<and> decode_actor_scalar rpc_id ?i data bits ad = Some (r, ad') \<or>
       rpc_id = 176 \<and> decode_actor_position ?i data bits ad = Some (r, ad'))"
    using assms(1) by (auto simp: decode_actor_payload_def bind_Some_iff not_le split: if_splits)
  then show ?thesis
    using assms(3)
    by (metis create_step destroy_step clear_step scalar_step position_step animation_step[OF assms(2)])
qed

section \<open>The adapter's history\<close>

interpretation actor_ring: event_ring SAMP_RAKNET_ACTOR_EVENT_RING ev_seq queue_actor_event net_actor_event_seq
    net_actor_events
  by unfold_locales (auto simp: queue_actor_event_def Let_def actor_consts split: prod.splits)

text \<open>\<open>h\<close> is the list of all events queued since the last reset.\<close>

definition net_ok :: "samp_raknet_actor_event list \<Rightarrow> actor_net \<Rightarrow> bool" where
  "net_ok h ad \<longleftrightarrow> ring_holds SAMP_RAKNET_ACTOR_EVENT_RING ev_seq h (net_actor_event_seq ad) (net_actor_events ad) \<and>
     net_actor_state_seq ad = net_actor_event_seq ad \<and> length (net_actor_states ad) = SAMP_RAKNET_MAX_ACTORS \<and>
     (\<forall>i<SAMP_RAKNET_MAX_ACTORS. state_ok (net_actor_states ad ! i) \<and>
        state_view (net_actor_states ad ! i) = world_views h i)"

lemma reset_net_ok: "net_ok [] reset_actor_net"
  by (auto simp: net_ok_def reset_actor_net_def ring_holds_def state_ok_def state_view_def world_views_def)

lemma step_net_ok:
  assumes ok: "net_ok h ad" and step: "actor_step e ad ad'" and room: "length h + 1 < 4294967296"
  shows "net_ok (h @ [e]) ad'"
proof -
  obtain a st' where q: "queue_actor_event a ad = (e, ad'\<lparr>net_actor_states := net_actor_states ad\<rparr>)"
    and i: "unat (ev_actor_id e) < SAMP_RAKNET_MAX_ACTORS"
    and states: "net_actor_states ad' = (net_actor_states ad)[unat (ev_actor_id e) := st']"
    and st': "state_ok (net_actor_states ad ! unat (ev_actor_id e)) \<longrightarrow>
        state_ok st' \<and> state_view st' = view_event e (state_view (net_actor_states ad ! unat (ev_actor_id e)))"
    using step unfolding actor_step_def by blast
  have h: "ring_holds SAMP_RAKNET_ACTOR_EVENT_RING ev_seq h (net_actor_event_seq ad) (net_actor_events ad)"
    using ok by (simp add: net_ok_def)
  have "ring_holds SAMP_RAKNET_ACTOR_EVENT_RING ev_seq (h @ [e]) (net_actor_event_seq ad') (net_actor_events ad')"
    using actor_ring.queue_holds[OF h q room] by simp
  moreover have "net_actor_state_seq ad' = net_actor_event_seq ad'"
    using arg_cong[OF q, of "\<lambda>p. net_actor_state_seq (snd p)"] arg_cong[OF q, of "\<lambda>p. net_actor_event_seq (snd p)"]
    by (simp add: queue_actor_event_def Let_def split: prod.splits)
  ultimately show ?thesis
    using ok i st' states by (auto simp: net_ok_def world_views_snoc nth_list_update)
qed

section \<open>The pool's side\<close>

definition pool_at :: "samp_raknet_actor_event list \<Rightarrow> nat \<Rightarrow> actor_pool \<Rightarrow> bool" where
  "pool_at h k pool \<longleftrightarrow> length (actor_slots pool) = SAMP_RAKNET_MAX_ACTORS \<and>
     actor_event_seq pool = of_nat k \<and> k \<le> length h \<and>
     (\<forall>i<SAMP_RAKNET_MAX_ACTORS. desired_view (desired (actor_slots pool ! i)) = world_views (take k h) i)"

lemma event_effect_unlocked: "desired_view (desired (locked_write (event_effect e) slot)) = view_event e (desired_view (desired slot))"
  by (simp add: locked_write_def Let_def event_effect_view)

lemma apply_event_view:
  assumes "ev_seq e \<noteq> 0" "length (actor_slots pool) = SAMP_RAKNET_MAX_ACTORS" "i < SAMP_RAKNET_MAX_ACTORS"
  shows "desired_view (desired (actor_slots (actor_compat_apply_event_logical e pool) ! i)) =
    (if unat (ev_actor_id e) = i then view_event e (desired_view (desired (actor_slots pool ! i)))
     else desired_view (desired (actor_slots pool ! i)))"
  using assms by (auto simp: actor_compat_apply_event_logical_def actor_compat_id_valid_def Let_def event_effect_unlocked)

lemma apply_event_length [simp]:
  "length (actor_slots (actor_compat_apply_event_logical e pool)) = length (actor_slots pool)"
  by (simp add: actor_compat_apply_event_logical_def Let_def)

lemma apply_events_view:
  assumes "\<forall>e\<in>set es. ev_seq e \<noteq> 0" "length (actor_slots pool) = SAMP_RAKNET_MAX_ACTORS" "i < SAMP_RAKNET_MAX_ACTORS"
  shows "desired_view (desired (actor_slots (fold actor_compat_apply_event_logical es pool) ! i)) =
    fold (\<lambda>e v. if unat (ev_actor_id e) = i then view_event e v else v) es (desired_view (desired (actor_slots pool ! i)))"
  using assms by (induction es arbitrary: pool) (simp_all add: apply_event_view del: if_split)

lemma apply_events_length [simp]:
  "length (actor_slots (fold actor_compat_apply_event_logical es pool)) = length (actor_slots pool)"
  by (induction es arbitrary: pool) simp_all

lemma state_effect_view: "state_ok st \<Longrightarrow> desired_view (desired (state_effect st slot)) = state_view st"
  by (auto simp: state_effect_def state_ok_def desired_view_def state_view_def created_def zero_desired_def flag_def)

definition reloaded :: "actor_net \<Rightarrow> nat \<Rightarrow> actor_pool \<Rightarrow> actor_pool" where
  "reloaded ad n pool = fold (resync_one (samp_raknet_client_get_actor_state ad)) (map of_nat [0..<n]) pool"

lemma reloaded_Suc:
  "n < SAMP_RAKNET_MAX_ACTORS \<Longrightarrow> reloaded ad (Suc n) pool =
    (let p = reloaded ad n pool in
     p\<lparr>actor_slots := (actor_slots p)[n := locked_write (state_effect (net_actor_states ad ! n)) (actor_slots p ! n)]\<rparr>)"
proof -
  assume n: "n < SAMP_RAKNET_MAX_ACTORS"
  then have "unat (of_nat n :: u16) = n" by (simp add: actor_consts unat_of_nat take_bit_nat_eq_self)
  then show ?thesis
    using n by (simp add: reloaded_def resync_one_def samp_raknet_client_get_actor_state_def
      actor_compat_apply_authoritative_state_logical_def actor_compat_id_valid_def Let_def)
qed

lemma reloaded_view:
  assumes "\<forall>i<SAMP_RAKNET_MAX_ACTORS. state_ok (net_actor_states ad ! i)"
    and "length (actor_slots pool) = SAMP_RAKNET_MAX_ACTORS" "n \<le> SAMP_RAKNET_MAX_ACTORS"
  shows "length (actor_slots (reloaded ad n pool)) = SAMP_RAKNET_MAX_ACTORS \<and>
    (\<forall>i<n. desired_view (desired (actor_slots (reloaded ad n pool) ! i)) = state_view (net_actor_states ad ! i))"
  using assms(3)
proof (induction n)
  case 0
  then show ?case using assms(2) by (simp add: reloaded_def)
next
  case (Suc n)
  have "desired_view (desired (locked_write (state_effect (net_actor_states ad ! n)) slot)) = state_view (net_actor_states ad ! n)" for slot
    using state_effect_view assms(1) Suc.prems by (simp add: locked_write_def Let_def)
  then show ?case using Suc by (auto simp: reloaded_Suc Let_def nth_list_update less_Suc_eq)
qed

lemma resync_pool_at:
  assumes ok: "net_ok h ad" and len: "length (actor_slots pool) = SAMP_RAKNET_MAX_ACTORS"
    and seq: "n = of_nat (length h)"
  shows "pool_at h (length h) (actor_compat_resync_authoritative (Some (samp_raknet_client_get_actor_state ad)) n pool)"
proof -
  have "\<forall>i<SAMP_RAKNET_MAX_ACTORS. state_ok (net_actor_states ad ! i)" using ok by (simp add: net_ok_def)
  from reloaded_view[OF this len order_refl] show ?thesis
    using ok seq by (simp add: actor_compat_resync_authoritative_def pool_at_def reloaded_def net_ok_def)
qed

section \<open>Polling\<close>

lemma filter_suffix:
  "\<forall>j<length h. P (h ! j) \<longleftrightarrow> k \<le> j \<Longrightarrow> filter P (drop a h) = drop (max a k) h"
proof (induction "length h - a" arbitrary: a)
  case 0
  then show ?case by simp
next
  case (Suc n)
  then have a: "a < length h" by simp
  have "filter P (drop (Suc a) h) = drop (max (Suc a) k) h" using Suc by (metis Suc_diff_Suc a diff_Suc_1)
  then show ?case
    using a Suc.prems by (cases "k \<le> a") (auto simp: Cons_nth_drop_Suc[symmetric] max_def not_less_eq_eq)
qed

lemma history_newer:
  assumes h: "ring_holds N ev_seq h n ring" and k: "k \<le> length h"
  shows "newer (of_nat k) (drop a h) = drop (max a k) h"
proof -
  have len: "length h < 4294967296" using h unat_u32_lt[of n] by (simp add: ring_holds_def)
  have "ev_seq (h ! j) \<noteq> 0 \<and> ev_seq (h ! j) > of_nat k \<longleftrightarrow> k \<le> j" if "j < length h" for j
  proof -
    have seq: "ev_seq (h ! j) = of_nat (j + 1)" using h that by (simp add: ring_holds_def)
    have "unat (of_nat (j + 1) :: u32) \<noteq> 0" using that len by (subst unat_of_nat_u32) simp_all
    then have "(of_nat (j + 1) :: u32) \<noteq> 0" by (metis unat_0)
    moreover have "(of_nat k < (of_nat (j + 1) :: u32)) = (k < j + 1)"
      using that len k by (intro of_nat_u32_less) simp_all
    ultimately show ?thesis unfolding seq less_Suc_eq_le Suc_eq_plus1[symmetric] by simp
  qed
  then show ?thesis unfolding newer_def by (intro filter_suffix) blast
qed

lemma history_consecutive:
  assumes h: "ring_holds N ev_seq h n ring" and b: "b \<le> length h" and k: "k \<le> b"
  shows "consecutive (of_nat k + 1) (drop b h) \<longleftrightarrow> b = k \<or> b = length h"
proof -
  have len: "length h < 4294967296" using h unat_u32_lt[of n] by (simp add: ring_holds_def)
  have seq: "ev_seq (drop b h ! j) = of_nat (b + j + 1)" if "j < length h - b" for j
    using h that b by (simp add: ring_holds_def)
  show ?thesis
  proof (cases "b = k \<or> b = length h")
    case True
    then show ?thesis using seq by (auto simp: consecutive_def)
  next
    case False
    then have "ev_seq (drop b h ! 0) = of_nat (b + 1)" "0 < length h - b" using seq[of 0] b by simp_all
    moreover have "(of_nat (b + 1) :: u32) \<noteq> of_nat (k + 1)"
      using False k b len by (subst of_nat_u32_inj) simp_all
    moreover have "ev_seq (drop b h ! 0) = of_nat k + 1" if "consecutive (of_nat k + 1) (drop b h)"
      using that calculation(2) unfolding consecutive_def by force
    ultimately show ?thesis using False by auto
  qed
qed

lemma poll_pool_at:
  assumes ok: "net_ok h ad" and at: "pool_at h k pool"
  shows "pool_at h (length h) (poll_actors ad pool)"
proof -
  let ?N = "SAMP_RAKNET_ACTOR_EVENT_RING" and ?m = "length h"
  let ?b = "max (?m - ?N) k"
  let ?adapter = "Some (samp_raknet_client_get_actor_state ad)"
  have h: "ring_holds ?N ev_seq h (net_actor_event_seq ad) (net_actor_events ad)" using ok by (simp add: net_ok_def)
  have word: "net_actor_event_seq ad = of_nat ?m" "net_actor_state_seq ad = of_nat ?m"
    using h ok by (auto simp: ring_holds_def net_ok_def dest: arg_cong[of _ _ "of_nat :: nat \<Rightarrow> u32"])
  have k: "k \<le> ?m" "actor_event_seq pool = of_nat k" "length (actor_slots pool) = SAMP_RAKNET_MAX_ACTORS"
    using at by (simp_all add: pool_at_def)
  have snap: "actor_snapshot ad = drop (?m - ?N) h" unfolding actor_snapshot_def by (rule ring_snapshot_suffix[OF h])
  have "take (min (unat (of_nat (length (actor_snapshot ad)) :: u32)) ?N) (actor_snapshot ad) = actor_snapshot ad"
    unfolding snap by (subst unat_of_nat_u32) (auto simp: actor_consts)
  then have new: "newer (of_nat k) (take (min (unat (of_nat (length (actor_snapshot ad)) :: u32)) ?N)
      (actor_snapshot ad)) = drop ?b h"
    by (simp only: snap history_newer[OF h k(1)])
  have b: "?b \<le> ?m" "k \<le> ?b" using k(1) by simp_all
  have poll: "poll_actors ad pool =
     (if \<not> consecutive (of_nat k + 1) (drop ?b h) then actor_compat_resync_authoritative ?adapter (of_nat ?m) pool
      else if of_nat ?m > last_seq (of_nat k) (drop ?b h)
      then actor_compat_resync_authoritative ?adapter (of_nat ?m) (fold actor_compat_apply_event_logical (drop ?b h) pool)
      else (fold actor_compat_apply_event_logical (drop ?b h) pool)
        \<lparr>actor_event_seq := last_seq (of_nat k) (drop ?b h), actor_state_seq := of_nat ?m\<rparr>)"
    unfolding poll_actors_def update_from_snapshot_eq Let_def new word(2) k(2) by (rule refl)
  show ?thesis
  proof (cases "consecutive (of_nat k + 1) (drop ?b h)")
    case False
    then show ?thesis using resync_pool_at[OF ok k(3) refl] by (simp only: poll if_True not_False_eq_True)
  next
    case True
    then have "?b = k \<or> ?b = ?m" using history_consecutive[OF h b] by blast
    then have b': "?b = k" using k(1) by (auto simp: actor_consts max_def split: if_splits)
    have last: "last_seq (of_nat k) (drop k h) = of_nat ?m"
      using h k(1) by (auto simp: last_seq_def last_drop last_conv_nth ring_holds_def)
    have "set (newer (of_nat k) (drop k h)) \<subseteq> {e. ev_seq e \<noteq> 0}" by (auto simp: newer_def)
    then have nonzero: "\<forall>e\<in>set (drop k h). ev_seq e \<noteq> 0" using history_newer[OF h k(1), of k] by auto
    have "world_views h i = fold (\<lambda>e v. if unat (ev_actor_id e) = i then view_event e v else v) (drop k h) (world_views (take k h) i)" for i
      using world_views_append[of "take k h" "drop k h" i] by simp
    then have "pool_at h ?m ((fold actor_compat_apply_event_logical (drop k h) pool)
        \<lparr>actor_event_seq := of_nat ?m, actor_state_seq := of_nat ?m\<rparr>)"
      using apply_events_view[OF nonzero k(3)] at k(3) by (simp add: pool_at_def)
    then show ?thesis using True by (simp add: poll b' last)
  qed
qed

section \<open>Network and runtime together\<close>

text \<open>
  The messages received since the last reset, newest first, and the two states they lead to. Receiving
  and polling interleave in any order.
\<close>

inductive actors_reachable :: "'b bitstream \<Rightarrow> actor_message list \<Rightarrow> actor_net \<Rightarrow> actor_pool \<Rightarrow> bool"
  for B :: "'b bitstream" where
  reset: "length (actor_slots pool) = SAMP_RAKNET_MAX_ACTORS \<Longrightarrow>
    actors_reachable B [] reset_actor_net (actor_compat_reset_pool pool)"
| receive: "actors_reachable B ms ad pool \<Longrightarrow> decode_actor_payload B rpc_id data bits ad = Some (r, ad') \<Longrightarrow>
    actors_reachable B ((rpc_id, data, bits) # ms) ad' pool"
| poll: "actors_reachable B ms ad pool \<Longrightarrow> actors_reachable B ms ad (poll_actors ad pool)"

lemma reset_pool_at: "length (actor_slots pool) = SAMP_RAKNET_MAX_ACTORS \<Longrightarrow> pool_at [] 0 (actor_compat_reset_pool pool)"
  by (simp add: pool_at_def actor_compat_reset_pool_def locked_write_def desired_view_def zero_desired_def world_views_def Let_def)

lemma actors_reachable_inv:
  assumes "actors_reachable B ms ad pool" "bitstream_ok B" "\<forall>m\<in>set ms. in_world m" "length ms < 4294967295"
  shows "\<exists>h k. net_ok h ad \<and> pool_at h k pool \<and> length h \<le> length ms"
  using assms
proof (induction rule: actors_reachable.induct)
  case (reset pool)
  then show ?case using reset_net_ok reset_pool_at by force
next
  case (receive ms ad pool rpc_id data bits r ad')
  then obtain h k where ih: "net_ok h ad" "pool_at h k pool" "length h \<le> length ms" by auto
  have "in_world (rpc_id, data, bits)" using receive.prems by simp
  from decode_actor_step[OF receive.hyps(2) receive.prems(1) this] consider "ad' = ad" | e where "actor_step e ad ad'"
    by blast
  then show ?case
  proof cases
    case 1
    then show ?thesis using ih by (metis le_Suc_eq length_Cons)
  next
    case 2
    then have "net_ok (h @ [e]) ad'" using step_net_ok[OF ih(1)] ih(3) receive.prems(3) by simp
    moreover have "pool_at (h @ [e]) k pool" using ih(2) by (simp add: pool_at_def)
    ultimately show ?thesis using ih(3) by (metis Suc_le_mono length_Cons length_append_singleton)
  qed
next
  case (poll ms ad pool)
  then show ?case using poll_pool_at by blast
qed

lemma decode_actor_rejects:
  assumes "decode_actor_payload B rpc_id data bits ad = Some (False, ad')"
  shows "ad' = ad"
  using assms
  by (auto simp: decode_actor_payload_def decode_actor_create_def decode_actor_destroy_def decode_actor_animation_def
      decode_actor_clear_def decode_actor_scalar_def decode_actor_position_def bind_Some_iff Let_def
      split: if_splits option.splits prod.splits)

section \<open>Properties\<close>

text \<open>Whatever actor payload a server sends, of any length and with any declared number of bits, the decoder
  reads nothing outside it and returns, and a payload it rejects leaves the actors and the ring unchanged.\<close>

theorem actor_decoder_safe:
  "\<exists>r ad'. decode_actor_payload B rpc_id data bits ad = Some (r, ad') \<and> (r \<or> ad' = ad)"
  using decode_actor_total[of B rpc_id data bits ad] decode_actor_rejects[of B rpc_id data bits ad] by (metis (full_types) surj_pair)

text \<open>C32: The runtime's actors converge to the server's as long as the server keeps them in the world: after any interleaving of
  polls and fewer than \<open>2 ^ 32 - 1\<close> received actor messages whose positions the pool takes, finite, within 30000 units
  to each side and between - 5000 and 20000 in height (the adapter also takes positions up to 100000, and those the pool drops), a poll leaves each of the 1000
  actors exactly as the adapter's authoritative state has it, whether the poll found all its events in the ring or lost some
  and reloaded the pool. The bit stream the messages are read with reads as documented.\<close>

theorem actors_converge:
  assumes "actors_reachable B ms ad pool" "bitstream_ok B" "\<forall>m\<in>set ms. in_world m" "length ms < 4294967295"
    and "i < SAMP_RAKNET_MAX_ACTORS"
  shows "desired_view (desired (actor_slots (poll_actors ad pool) ! i)) = state_view (net_actor_states ad ! i)"
proof -
  obtain h k where "net_ok h ad" "pool_at h k pool" using actors_reachable_inv[OF assms(1-4)] by blast
  then have "net_ok h ad" "pool_at h (length h) (poll_actors ad pool)" using poll_pool_at by blast+
  then show ?thesis using assms(5) by (simp add: net_ok_def pool_at_def)
qed

definition far_create :: "u8 list" where
  "far_create = [0, 0, 7, 0, 0, 0, 0, 0x50, 0x43, 0x47, 0, 0, 0, 0, 0, 0, 0, 0, 0, 0, 0, 0, 0, 0, 0xC8, 0x42, 0]"

definition near_create :: "u8 list" where
  "near_create = [0, 0, 7, 0, 0, 0, 0, 0, 0, 0, 0, 0, 0, 0, 0, 0, 0, 0, 0, 0, 0, 0, 0, 0, 0xC8, 0x42, 0]"

definition to_origin :: "u8 list" where
  "to_origin = [0, 0, 0, 0, 0, 0, 0, 0, 0, 0, 0, 0, 0, 0]"

lemma near_position: "actor_compat_vec_valid [0, 0, 0]" "actor_position_is_safe [0, 0, 0]"
  by (simp_all add: actor_compat_vec_valid_def actor_position_is_safe_def f32_between_def f32_abs_le_def
      f32_scaled_def f32_exponent_def Let_def)

lemma far_position: "\<not> actor_compat_vec_valid [0x47435000, 0, 0]" "actor_position_is_safe [0x47435000, 0, 0]"
  by (simp_all add: actor_compat_vec_valid_def actor_position_is_safe_def f32_between_def f32_abs_le_def
      f32_scaled_def f32_exponent_def f32_finite_def Let_def)

lemma health_100: "f32_finite 0x42C80000" "f32_abs_le 1000000 0x42C80000"
  by (simp_all add: f32_abs_le_def f32_scaled_def f32_exponent_def f32_finite_def Let_def)

lemma example_reads:
  "read_le16 far_create 0 = Some 0" "read_le_i32 far_create 2 = Some 7"
  "read_vec3 far_create 6 = Some [0x47435000, 0, 0]" "read_le_float far_create 18 = Some 0"
  "read_le_float far_create 22 = Some 0x42C80000" "read_byte far_create 26 = Some 0"
  "read_le16 near_create 0 = Some 0" "read_le_i32 near_create 2 = Some 7"
  "read_vec3 near_create 6 = Some [0, 0, 0]" "read_le_float near_create 18 = Some 0"
  "read_le_float near_create 22 = Some 0x42C80000" "read_byte near_create 26 = Some 0"
  "read_le16 to_origin 0 = Some 0" "read_vec3 to_origin 2 = Some [0, 0, 0]"
  "length far_create = 27" "length near_create = 27" "length to_origin = 14"
  by (simp_all add: far_create_def near_create_def to_origin_def read_le16_def read_le_i32_def read_vec3_def
      read_le_float_def read_le32_def read_byte_def le32_of_bytes_def)

lemma consecutive_Nil: "consecutive n []"
  by (simp add: consecutive_def)

text \<open>The state after a create at \<open>pos\<close>, and after the actor is moved to the origin.\<close>

definition created_state :: "f32 list \<Rightarrow> samp_raknet_actor_state" where
  "created_state pos = zero_actor_state\<lparr>as_revision := 1, as_active := 1, as_skin := 7, as_pos := pos,
     as_health := 0x42C80000\<rparr>"

definition created_event :: "f32 list \<Rightarrow> samp_raknet_actor_event" where
  "created_event pos = zero_actor_event\<lparr>ev_seq := 1, ev_action := 1, ev_skin := 7, ev_pos := pos, ev_health := 0x42C80000\<rparr>"

definition moved_event :: samp_raknet_actor_event where
  "moved_event = zero_actor_event\<lparr>ev_seq := 2, ev_action := 6\<rparr>"

definition net_after_create :: "f32 list \<Rightarrow> actor_net" where
  "net_after_create pos = \<lparr>net_actor_event_seq = 1, net_actor_events = (net_actor_events reset_actor_net)[0 := created_event pos],
     net_actor_state_seq = 1, net_actor_states = (net_actor_states reset_actor_net)[0 := created_state pos]\<rparr>"

definition net_after_move :: "f32 list \<Rightarrow> actor_net" where
  "net_after_move pos = \<lparr>net_actor_event_seq = 2,
     net_actor_events = (net_actor_events reset_actor_net)[0 := created_event pos, 1 := moved_event],
     net_actor_state_seq = 2,
     net_actor_states = (net_actor_states reset_actor_net)[0 := (created_state pos)\<lparr>as_revision := 2, as_pos := [0, 0, 0]\<rparr>]\<rparr>"

lemma after_create:
  "decode_actor_payload B 171 far_create 216 reset_actor_net = Some (True, net_after_create [0x47435000, 0, 0])"
  "decode_actor_payload B 171 near_create 216 reset_actor_net = Some (True, net_after_create [0, 0, 0])"
  by (simp_all add: decode_actor_payload_def decode_actor_create_def example_reads Let_def far_position near_position health_100
      update_actor_def queue_actor_event_def bump_seq_def reset_actor_net_def ring_slot_def net_after_create_def
      created_event_def created_state_def zero_actor_event_def zero_actor_state_def flag_def actor_consts)

lemma after_move:
  "decode_actor_payload B 176 to_origin 112 (net_after_create pos) = Some (True, net_after_move pos)"
  by (simp add: decode_actor_payload_def decode_actor_position_def example_reads Let_def near_position
      update_actor_def queue_actor_event_def bump_seq_def reset_actor_net_def ring_slot_def net_after_create_def
      net_after_move_def moved_event_def actor_state_is_active_def
      created_event_def created_state_def zero_actor_event_def zero_actor_state_def flag_def actor_consts)

theorem actors_converge_witness:
  "desired_view (desired (actor_slots (poll_actors (net_after_create [0, 0, 0]) (actor_compat_reset_pool empty_pool)) ! 0))
     = Some (0, 7, [0, 0, 0], 0, 0x42C80000, None)"
proof -
  have "actors_reachable bit_list_stream [] reset_actor_net (actor_compat_reset_pool empty_pool)"
    by (rule actors_reachable.reset) (simp add: empty_pool_def actor_consts)
  from actors_reachable.receive[OF this after_create(2)]
  have r: "actors_reachable bit_list_stream [(171, near_create, 216)] (net_after_create [0, 0, 0]) (actor_compat_reset_pool empty_pool)" .
  have "in_world (171, near_create, 216)" by (simp add: in_world_def example_reads near_position)
  then have "desired_view (desired (actor_slots (poll_actors (net_after_create [0, 0, 0]) (actor_compat_reset_pool empty_pool)) ! 0))
      = state_view (net_actor_states (net_after_create [0, 0, 0]) ! 0)"
    using actors_converge[OF r bit_list_stream_ok, of 0] by (simp add: actor_consts)
  then show ?thesis
    by (simp add: state_view_def net_after_create_def created_state_def zero_actor_state_def reset_actor_net_def
      actor_consts flag_def)
qed

text \<open>
  Without the hypothesis on positions the two sides disagree: the adapter accepts coordinates up to
  100000, the pool only those below 30000.
\<close>

text \<open>An actor created outside the pool's coordinate range and then moved into it is lost: the adapter's
  authoritative state is active and acceptable to the pool, but polling the events leaves the actor
  out of the game.\<close>

theorem actor_created_far_is_lost:
  "\<exists>ad. actors_reachable bit_list_stream [(176, to_origin, 112), (171, far_create, 216)] ad (actor_compat_reset_pool empty_pool) \<and>
     as_active (net_actor_states ad ! 0) \<noteq> 0 \<and> state_accepted (net_actor_states ad ! 0) \<and>
     desired_view (desired (actor_slots (poll_actors ad (actor_compat_reset_pool empty_pool)) ! 0)) = None"
proof (intro exI conjI)
  let ?ad = "net_after_move [0x47435000, 0, 0]" and ?pool = "actor_compat_reset_pool empty_pool"
  let ?h = "[created_event [0x47435000, 0, 0], moved_event]"
  have len: "length (actor_slots empty_pool) = SAMP_RAKNET_MAX_ACTORS" by (simp add: empty_pool_def actor_consts)
  show "actors_reachable bit_list_stream [(176, to_origin, 112), (171, far_create, 216)] ?ad ?pool"
    by (rule actors_reachable.receive[OF actors_reachable.receive[OF actors_reachable.reset[OF len] after_create(1)] after_move])
  show "as_active (net_actor_states ?ad ! 0) \<noteq> 0" "state_accepted (net_actor_states ?ad ! 0)"
    by (simp_all add: net_after_move_def created_state_def zero_actor_state_def reset_actor_net_def actor_consts
      state_accepted_def actor_compat_skin_valid_def near_position health_100)
  have two: "k = 0 \<or> k = 1" if "k < length ?h" for k using that by auto
  have "ev_seq (?h ! k) = of_nat (k + 1)" if "k < length ?h" for k
    using two[OF that] by (auto simp: created_event_def moved_event_def)
  moreover have "net_actor_events ?ad ! (k mod SAMP_RAKNET_ACTOR_EVENT_RING) = ?h ! k" if "k < length ?h" for k
    using two[OF that] by (auto simp: net_after_move_def reset_actor_net_def actor_consts)
  ultimately have "ring_holds SAMP_RAKNET_ACTOR_EVENT_RING ev_seq ?h (net_actor_event_seq ?ad) (net_actor_events ?ad)"
    by (simp add: ring_holds_def) (simp add: net_after_move_def reset_actor_net_def actor_consts)
  from ring_snapshot_suffix[OF this] have snap: "actor_snapshot ?ad = ?h"
    by (simp add: actor_snapshot_def actor_consts)
  have nz: "\<forall>e\<in>set ?h. ev_seq e \<noteq> 0" by (simp add: created_event_def moved_event_def)
  have p: "length (actor_slots ?pool) = SAMP_RAKNET_MAX_ACTORS" "desired_view (desired (actor_slots ?pool ! 0)) = None"
    "actor_event_seq ?pool = 0"
    using reset_pool_at[OF len] by (simp_all add: pool_at_def world_views_def actor_consts)
  have "fold (\<lambda>e v. if unat (ev_actor_id e) = 0 then view_event e v else v) ?h None = None"
    by (simp add: created_event_def moved_event_def view_event_def create_accepted_def far_position actor_consts)
  then have lost: "desired_view (desired (actor_slots (fold actor_compat_apply_event_logical ?h ?pool) ! 0)) = None"
    using apply_events_view[OF nz p(1), of 0] p(2) by (simp add: actor_consts)
  have "newer 0 ?h = ?h" "consecutive (0 + 1) ?h" "last_seq 0 ?h = 2" "net_actor_state_seq ?ad = 2"
    "take (min (unat (of_nat (length ?h) :: u32)) SAMP_RAKNET_ACTOR_EVENT_RING) ?h = ?h"
    by (auto simp: newer_def created_event_def moved_event_def consecutive_Cons last_seq_def net_after_move_def actor_consts consecutive_Nil)
  then show "desired_view (desired (actor_slots (poll_actors ?ad ?pool) ! 0)) = None"
    unfolding poll_actors_def update_from_snapshot_eq Let_def snap p(3) using lost by simp
qed

end
