(* ===== verification/GangZones.thy ===== *)
theory GangZones
  imports RakPayload
begin

text \<open>
  Gang zones, from the payload to the map. \<^verbatim>\<open>src/net/raknet_client_adapter.cpp\<close> decodes the four RPCs, keeps the
  authoritative state of the 1024 zones and queues an event for each change; \<^verbatim>\<open>src/runtime_bridge.c\<close> follows
  the events of a snapshot, reloads the states when events are missing, and draws the active zones on the
  radar and the pause map.
\<close>

section \<open>Data\<close>

definition SAMP_RAKNET_GANG_ZONE_EVENT_RING :: nat where "SAMP_RAKNET_GANG_ZONE_EVENT_RING = 128"
definition SAMP_RAKNET_MAX_GANG_ZONES :: nat where "SAMP_RAKNET_MAX_GANG_ZONES = 1024"
definition SAMP_RAKNET_GANG_ZONE_ACTION_CREATE :: u8 where "SAMP_RAKNET_GANG_ZONE_ACTION_CREATE = 1"
definition SAMP_RAKNET_GANG_ZONE_ACTION_DESTROY :: u8 where "SAMP_RAKNET_GANG_ZONE_ACTION_DESTROY = 2"
definition SAMP_RAKNET_GANG_ZONE_ACTION_FLASH :: u8 where "SAMP_RAKNET_GANG_ZONE_ACTION_FLASH = 3"
definition SAMP_RAKNET_GANG_ZONE_ACTION_STOP_FLASH :: u8 where "SAMP_RAKNET_GANG_ZONE_ACTION_STOP_FLASH = 4"
definition SAMP_GANG_ZONE_FLASH_INTERVAL_MS :: u32 where "SAMP_GANG_ZONE_FLASH_INTERVAL_MS = 500"

lemmas zone_consts = SAMP_RAKNET_GANG_ZONE_EVENT_RING_def SAMP_RAKNET_MAX_GANG_ZONES_def
  SAMP_RAKNET_GANG_ZONE_ACTION_CREATE_def SAMP_RAKNET_GANG_ZONE_ACTION_DESTROY_def
  SAMP_RAKNET_GANG_ZONE_ACTION_FLASH_def SAMP_RAKNET_GANG_ZONE_ACTION_STOP_FLASH_def

record samp_raknet_gang_zone_event =
  ze_seq :: u32
  ze_zone_id :: u16
  ze_action :: u8
  ze_bounds :: "f32 list"
  ze_color :: u32

record samp_raknet_gang_zone_state =
  zs_revision :: u32
  zs_active :: u8
  zs_bounds :: "f32 list"
  zs_base_color :: u32
  zs_alternate_color :: u32

record zone_net =
  gang_zone_event_seq :: u32
  gang_zone_events :: "samp_raknet_gang_zone_event list"
  gang_zone_state_seq :: u32
  gang_zone_states :: "samp_raknet_gang_zone_state list"

definition zero_zone_event :: samp_raknet_gang_zone_event where
  "zero_zone_event = \<lparr>ze_seq = 0, ze_zone_id = 0, ze_action = 0, ze_bounds = [0, 0, 0, 0], ze_color = 0\<rparr>"

definition zero_zone_state :: samp_raknet_gang_zone_state where
  "zero_zone_state = \<lparr>zs_revision = 0, zs_active = 0, zs_bounds = [0, 0, 0, 0], zs_base_color = 0, zs_alternate_color = 0\<rparr>"

definition reset_zone_net :: zone_net where
  "reset_zone_net = \<lparr>gang_zone_event_seq = 0,
     gang_zone_events = replicate SAMP_RAKNET_GANG_ZONE_EVENT_RING zero_zone_event, gang_zone_state_seq = 0,
     gang_zone_states = replicate SAMP_RAKNET_MAX_GANG_ZONES zero_zone_state\<rparr>"

record samp_gang_zone_slot_compat =
  active :: bool
  revision :: u32
  gta_bounds :: "f32 list"
  base_color :: u32
  alternate_color :: u32

definition zero_zone_slot :: samp_gang_zone_slot_compat where
  "zero_zone_slot = \<lparr>active = False, revision = 0, gta_bounds = [0, 0, 0, 0], base_color = 0, alternate_color = 0\<rparr>"

text \<open>The \<^verbatim>\<open>g_runtime\<close> fields of the zones. The count is a \<^verbatim>\<open>LONG\<close> that stays between 0 and 1024.\<close>

record zone_pool =
  zone_event_seq :: u32
  zone_snapshot_synced :: bool
  zone_active_count :: int
  zone_slots :: "samp_gang_zone_slot_compat list"
  zone_flash_last_tick :: u32
  zone_flash_alternate :: u8

section \<open>The adapter\<close>

definition zone_state_after :: "samp_raknet_gang_zone_event \<Rightarrow> samp_raknet_gang_zone_state \<Rightarrow> samp_raknet_gang_zone_state" where
  "zone_state_after e s =
     (if ze_action e = SAMP_RAKNET_GANG_ZONE_ACTION_CREATE
      then zero_zone_state\<lparr>zs_active := 1, zs_bounds := ze_bounds e, zs_base_color := ze_color e, zs_alternate_color := ze_color e\<rparr>
      else if ze_action e = SAMP_RAKNET_GANG_ZONE_ACTION_DESTROY then zero_zone_state
      else if ze_action e = SAMP_RAKNET_GANG_ZONE_ACTION_FLASH
      then (if zs_active s \<noteq> 0 then s\<lparr>zs_alternate_color := ze_color e\<rparr> else s)
      else if ze_action e = SAMP_RAKNET_GANG_ZONE_ACTION_STOP_FLASH
      then (if zs_active s \<noteq> 0 then s\<lparr>zs_alternate_color := zs_base_color s\<rparr> else s)
      else s)\<lparr>zs_revision := ze_seq e\<rparr>"

definition queue_gang_zone_event ::
  "u8 \<times> u16 \<times> f32 list option \<times> u32 \<Rightarrow> zone_net \<Rightarrow> samp_raknet_gang_zone_event \<times> zone_net" where
  "queue_gang_zone_event a zn = (case a of (action, zone_id, bounds, color) \<Rightarrow>
     let n = bump_seq (gang_zone_event_seq zn);
         e = zero_zone_event\<lparr>ze_seq := n, ze_zone_id := zone_id, ze_action := action, ze_color := color,
               ze_bounds := (case bounds of None \<Rightarrow> ze_bounds zero_zone_event | Some b \<Rightarrow> b)\<rparr>;
         zn1 = zn\<lparr>gang_zone_event_seq := n,
               gang_zone_events := (gang_zone_events zn)[ring_slot SAMP_RAKNET_GANG_ZONE_EVENT_RING n := e]\<rparr>
     in (e, if unat zone_id < SAMP_RAKNET_MAX_GANG_ZONES
            then zn1\<lparr>gang_zone_state_seq := n,
                   gang_zone_states := (gang_zone_states zn1)[unat zone_id :=
                     zone_state_after e (gang_zone_states zn1 ! unat zone_id)]\<rparr>
            else zn1))"

text \<open>\<^verbatim>\<open>isfinite(value) && fabs(value) <= 100000\<close> for each of the four.\<close>

definition gang_zone_compat_bounds_plausible :: "f32 list \<Rightarrow> bool" where
  "gang_zone_compat_bounds_plausible b \<longleftrightarrow> (\<forall>w\<in>set b. f32_finite w \<and> f32_abs_le 100000 w)"

definition decode_gang_zone_create :: "u8 list \<Rightarrow> u16 \<Rightarrow> zone_net \<Rightarrow> (bool \<times> zone_net) mem" where
  "decode_gang_zone_create data zone_id zn =
     (if length data < 22 then Some (False, zn)
      else do {
        b0 \<leftarrow> read_le_float data 2;
        b1 \<leftarrow> read_le_float data 6;
        b2 \<leftarrow> read_le_float data 10;
        b3 \<leftarrow> read_le_float data 14;
        color \<leftarrow> read_le32 data 18;
        if \<not> gang_zone_compat_bounds_plausible [b0, b1, b2, b3] then Some (False, zn)
        else Some (True, snd (queue_gang_zone_event
          (SAMP_RAKNET_GANG_ZONE_ACTION_CREATE, zone_id, Some [b0, b1, b2, b3], color) zn)) })"

definition decode_gang_zone_payload :: "u8 \<Rightarrow> u8 list \<Rightarrow> zone_net \<Rightarrow> (bool \<times> zone_net) mem" where
  "decode_gang_zone_payload rpc_id data zn =
     (if length data < 2 then Some (False, zn)
      else do {
        zone_id \<leftarrow> read_le16 data 0;
        if unat zone_id \<ge> SAMP_RAKNET_MAX_GANG_ZONES then Some (False, zn)
        else if rpc_id = 108 then decode_gang_zone_create data zone_id zn
        else if rpc_id = 120
        then Some (True, snd (queue_gang_zone_event (SAMP_RAKNET_GANG_ZONE_ACTION_DESTROY, zone_id, None, 0) zn))
        else if rpc_id = 121
        then (if length data < 6 then Some (False, zn)
              else do {
                color \<leftarrow> read_le32 data 2;
                Some (True, snd (queue_gang_zone_event (SAMP_RAKNET_GANG_ZONE_ACTION_FLASH, zone_id, None, color) zn)) })
        else if rpc_id = 85
        then Some (True, snd (queue_gang_zone_event (SAMP_RAKNET_GANG_ZONE_ACTION_STOP_FLASH, zone_id, None, 0) zn))
        else Some (False, zn) })"

definition gang_zone_snapshot :: "zone_net \<Rightarrow> samp_raknet_gang_zone_event list" where
  "gang_zone_snapshot zn =
     ring_snapshot SAMP_RAKNET_GANG_ZONE_EVENT_RING ze_seq (gang_zone_event_seq zn) (gang_zone_events zn)"

section \<open>The runtime\<close>

text \<open>The rectangle of the wire is reordered to the game's: min x, max y, max x, min y.\<close>

definition gang_zone_compat_store_bounds :: "f32 list \<Rightarrow> f32 list" where
  "gang_zone_compat_store_bounds b = [b ! 0, b ! 3, b ! 2, b ! 1]"

definition gang_zone_compat_decrement_active_count :: "zone_pool \<Rightarrow> zone_pool" where
  "gang_zone_compat_decrement_active_count pool =
     (let count = zone_active_count pool - 1 in pool\<lparr>zone_active_count := (if count < 0 then 0 else count)\<rparr>)"

definition set_zone_slot :: "nat \<Rightarrow> samp_gang_zone_slot_compat \<Rightarrow> zone_pool \<Rightarrow> zone_pool" where
  "set_zone_slot i s pool = pool\<lparr>zone_slots := (zone_slots pool)[i := s]\<rparr>"

definition gang_zone_compat_apply_event :: "samp_raknet_gang_zone_event \<Rightarrow> zone_pool \<Rightarrow> zone_pool" where
  "gang_zone_compat_apply_event e pool =
     (if unat (ze_zone_id e) \<ge> SAMP_RAKNET_MAX_GANG_ZONES \<or> ze_seq e = 0 then pool
      else let i = unat (ze_zone_id e); s = zone_slots pool ! i in
      if ze_action e = SAMP_RAKNET_GANG_ZONE_ACTION_CREATE
      then if \<not> gang_zone_compat_bounds_plausible (ze_bounds e) then pool
           else let pool = set_zone_slot i \<lparr>active = True, revision = ze_seq e,
                       gta_bounds = gang_zone_compat_store_bounds (ze_bounds e), base_color = ze_color e,
                       alternate_color = ze_color e\<rparr> pool
                in if \<not> active s then pool\<lparr>zone_active_count := zone_active_count pool + 1\<rparr> else pool
      else if ze_action e = SAMP_RAKNET_GANG_ZONE_ACTION_DESTROY
      then let pool = set_zone_slot i zero_zone_slot pool
           in if active s then gang_zone_compat_decrement_active_count pool else pool
      else if ze_action e = SAMP_RAKNET_GANG_ZONE_ACTION_FLASH
      then if active s then set_zone_slot i (s\<lparr>revision := ze_seq e, alternate_color := ze_color e\<rparr>) pool else pool
      else if ze_action e = SAMP_RAKNET_GANG_ZONE_ACTION_STOP_FLASH
      then if active s then set_zone_slot i (s\<lparr>revision := ze_seq e, alternate_color := base_color s\<rparr>) pool else pool
      else pool)"

definition zone_reloaded :: "samp_raknet_gang_zone_state \<Rightarrow> samp_gang_zone_slot_compat" where
  "zone_reloaded s =
     (if zs_active s = 0 \<or> \<not> gang_zone_compat_bounds_plausible (zs_bounds s) then zero_zone_slot
      else \<lparr>active = True, revision = zs_revision s, gta_bounds = gang_zone_compat_store_bounds (zs_bounds s),
             base_color = zs_base_color s, alternate_color = zs_alternate_color s\<rparr>)"

definition gang_zone_compat_resync_from_snapshot ::
  "samp_raknet_gang_zone_state list \<Rightarrow> u32 \<Rightarrow> zone_pool \<Rightarrow> zone_pool" where
  "gang_zone_compat_resync_from_snapshot states state_seq pool =
     (let slots = map zone_reloaded states
      in pool\<lparr>zone_slots := slots, zone_active_count := int (length (filter active slots)),
             zone_event_seq := state_seq, zone_snapshot_synced := True\<rparr>)"

text \<open>The loop over the events: \<open>None\<close> at a gap, otherwise the number expected next.\<close>

fun zone_follow :: "samp_raknet_gang_zone_event list \<Rightarrow> u32 \<Rightarrow> zone_pool \<Rightarrow> zone_pool \<times> u32 option" where
  "zone_follow [] expected pool = (pool, Some expected)"
| "zone_follow (e # es) expected pool =
     (if ze_seq e < expected then zone_follow es expected pool
      else if ze_seq e \<noteq> expected then (pool, None)
      else zone_follow es (expected + 1) (gang_zone_compat_apply_event e pool))"

definition gang_zone_compat_update_from_snapshot ::
  "u32 \<Rightarrow> samp_raknet_gang_zone_event list \<Rightarrow> samp_raknet_gang_zone_state list \<Rightarrow> u32 \<Rightarrow> zone_pool \<Rightarrow> zone_pool" where
  "gang_zone_compat_update_from_snapshot count events states state_seq pool =
     (if \<not> zone_snapshot_synced pool then gang_zone_compat_resync_from_snapshot states state_seq pool
      else let previous = zone_event_seq pool in
      if state_seq = previous then pool
      else if state_seq < previous then gang_zone_compat_resync_from_snapshot states state_seq pool
      else case zone_follow (take (min (unat count) SAMP_RAKNET_GANG_ZONE_EVENT_RING) events) (previous + 1) pool of
        (pool, None) \<Rightarrow> gang_zone_compat_resync_from_snapshot states state_seq pool
      | (pool, Some expected) \<Rightarrow>
          if expected - 1 \<noteq> state_seq then gang_zone_compat_resync_from_snapshot states state_seq pool
          else pool\<lparr>zone_event_seq := state_seq\<rparr>)"

definition gang_zone_compat_reset :: "zone_pool \<Rightarrow> zone_pool" where
  "gang_zone_compat_reset pool = pool\<lparr>zone_slots := replicate SAMP_RAKNET_MAX_GANG_ZONES zero_zone_slot,
     zone_event_seq := 0, zone_snapshot_synced := False, zone_active_count := 0\<rparr>"

text \<open>
  The draw callback of the hooks, at tick \<open>now\<close>: the calls of the game's draw function. \<open>usable\<close> says that
  this function and the menu flag can be read.
\<close>

definition gang_zone_compat_draw_callback ::
  "bool \<Rightarrow> u8 \<Rightarrow> u32 \<Rightarrow> zone_pool \<Rightarrow> (f32 list \<times> u32 \<times> u8) list \<times> zone_pool" where
  "gang_zone_compat_draw_callback usable menu now pool =
     (if \<not> usable then ([], pool)
      else
        let pool = (if now - zone_flash_last_tick pool \<ge> SAMP_GANG_ZONE_FLASH_INTERVAL_MS
                    then pool\<lparr>zone_flash_alternate := NOT (zone_flash_alternate pool), zone_flash_last_tick := now\<rparr>
                    else pool)
        in (map (\<lambda>s. (gta_bounds s, if zone_flash_alternate pool \<noteq> 0 then alternate_color s else base_color s, menu))
              (filter active (zone_slots pool)), pool))"

section \<open>The decoder\<close>

lemma decode_gang_zone_total: "\<exists>r. decode_gang_zone_payload rpc_id data zn = Some r"
proof (cases "length data < 2")
  case False
  have "\<exists>r. decode_gang_zone_create data z zn = Some r" for z
    using read_le_float_in[of 2 data] read_le_float_in[of 6 data] read_le_float_in[of 10 data] read_le_float_in[of 14 data]
      read_le32_in[of 18 data]
    by (cases "length data < 22") (auto simp: decode_gang_zone_create_def)
  moreover have "\<exists>r. read_le32 data 2 = Some r" if "\<not> length data < 6"
    using that by (intro read_le32_in) simp
  ultimately show ?thesis using False read_le16_in[of 0 data]
    by (cases "length data < 6") (auto simp: decode_gang_zone_payload_def)
qed (simp add: decode_gang_zone_payload_def exI[of _ False])

text \<open>What an accepted payload queues.\<close>

definition zone_event_ok :: "samp_raknet_gang_zone_event \<Rightarrow> bool" where
  "zone_event_ok e \<longleftrightarrow> unat (ze_zone_id e) < SAMP_RAKNET_MAX_GANG_ZONES \<and> 1 \<le> ze_action e \<and> ze_action e \<le> 4 \<and>
     (ze_action e = SAMP_RAKNET_GANG_ZONE_ACTION_CREATE \<longrightarrow> gang_zone_compat_bounds_plausible (ze_bounds e))"

lemma action_cases: "1 \<le> (a :: u8) \<Longrightarrow> a \<le> 4 \<Longrightarrow> a = 1 \<or> a = 2 \<or> a = 3 \<or> a = 4"
proof -
  assume "1 \<le> a" "a \<le> 4"
  then have "unat a = unat (1 :: u8) \<or> unat a = unat (2 :: u8) \<or> unat a = unat (3 :: u8) \<or> unat a = unat (4 :: u8)"
    by (simp add: word_le_nat_alt) linarith
  then show ?thesis unfolding word_unat_eq_iff .
qed

definition zone_queued :: "zone_net \<Rightarrow> zone_net \<Rightarrow> bool" where
  "zone_queued zn zn' \<longleftrightarrow> (\<exists>a e. queue_gang_zone_event a zn = (e, zn') \<and> zone_event_ok e)"

lemma zone_queuedI:
  assumes "unat z < SAMP_RAKNET_MAX_GANG_ZONES" "1 \<le> action" "action \<le> 4"
    and "action = SAMP_RAKNET_GANG_ZONE_ACTION_CREATE \<longrightarrow> (\<exists>p. b = Some p \<and> gang_zone_compat_bounds_plausible p)"
  shows "zone_queued zn (snd (queue_gang_zone_event (action, z, b, c) zn))"
proof -
  have "zone_event_ok (fst (queue_gang_zone_event (action, z, b, c) zn))"
    using assms by (auto simp: queue_gang_zone_event_def Let_def zone_event_ok_def zero_zone_event_def)
  then show ?thesis unfolding zone_queued_def by (metis prod.collapse)
qed

lemma decode_gang_zone_step:
  assumes "decode_gang_zone_payload rpc_id data zn = Some (r, zn')"
  shows "if r then zone_queued zn zn' else zn' = zn"
  using assms
  by (auto simp: decode_gang_zone_payload_def decode_gang_zone_create_def bind_Some_iff not_le zone_consts
      intro!: zone_queuedI[unfolded zone_consts] split: if_splits)

section \<open>The authoritative states follow the events\<close>

definition zone_state_step ::
  "samp_raknet_gang_zone_event \<Rightarrow> samp_raknet_gang_zone_state list \<Rightarrow> samp_raknet_gang_zone_state list" where
  "zone_state_step e states = states[unat (ze_zone_id e) := zone_state_after e (states ! unat (ze_zone_id e))]"

definition zone_states_of :: "samp_raknet_gang_zone_event list \<Rightarrow> samp_raknet_gang_zone_state list" where
  "zone_states_of h = fold zone_state_step h (replicate SAMP_RAKNET_MAX_GANG_ZONES zero_zone_state)"

interpretation zone_ring: event_ring SAMP_RAKNET_GANG_ZONE_EVENT_RING ze_seq queue_gang_zone_event gang_zone_event_seq
    gang_zone_events
  by unfold_locales (auto simp: queue_gang_zone_event_def Let_def zone_consts split: prod.splits if_splits)

definition zone_net_ok :: "samp_raknet_gang_zone_event list \<Rightarrow> zone_net \<Rightarrow> bool" where
  "zone_net_ok h zn \<longleftrightarrow>
     ring_holds SAMP_RAKNET_GANG_ZONE_EVENT_RING ze_seq h (gang_zone_event_seq zn) (gang_zone_events zn) \<and>
     gang_zone_state_seq zn = gang_zone_event_seq zn \<and> gang_zone_states zn = zone_states_of h \<and> (\<forall>e\<in>set h. zone_event_ok e)"

lemma reset_zone_net_ok: "zone_net_ok [] reset_zone_net"
  by (simp add: zone_net_ok_def reset_zone_net_def zone_states_of_def ring_holds_empty)

lemma queue_zone_ok:
  assumes ok: "zone_net_ok h zn" and q: "queue_gang_zone_event a zn = (e, zn')" "zone_event_ok e" and room: "length h + 1 < 4294967296"
  shows "zone_net_ok (h @ [e]) zn'"
proof -
  have "ring_holds SAMP_RAKNET_GANG_ZONE_EVENT_RING ze_seq (h @ [e]) (gang_zone_event_seq zn') (gang_zone_events zn')"
    using zone_ring.queue_holds[OF _ q(1) room] ok by (simp add: zone_net_ok_def)
  moreover have "gang_zone_states zn' = zone_state_step e (gang_zone_states zn)" "gang_zone_state_seq zn' = gang_zone_event_seq zn'"
    using q by (auto simp: queue_gang_zone_event_def Let_def zone_event_ok_def zone_state_step_def split: prod.splits if_splits)
  ultimately show ?thesis using ok q(2) by (simp add: zone_net_ok_def zone_states_of_def)
qed

lemma zone_states_length [simp]: "length (zone_states_of h) = SAMP_RAKNET_MAX_GANG_ZONES"
  by (induction h rule: rev_induct) (simp_all add: zone_states_of_def zone_state_step_def)

lemma zone_states_plausible:
  assumes "\<forall>e\<in>set h. zone_event_ok e" "s \<in> set (zone_states_of h)" "zs_active s \<noteq> 0"
  shows "gang_zone_compat_bounds_plausible (zs_bounds s)"
  using assms
proof (induction h arbitrary: s rule: rev_induct)
  case (snoc e h)
  let ?states = "zone_states_of h"
  have "s \<in> insert (zone_state_after e (?states ! unat (ze_zone_id e))) (set ?states)"
    using snoc.prems(2) set_update_subset_insert
    by (force simp: zone_states_of_def zone_state_step_def)
  moreover have "?states ! unat (ze_zone_id e) \<in> set ?states"
    using snoc.prems(1) by (simp add: zone_event_ok_def)
  ultimately show ?case
    using snoc by (auto simp: zone_state_after_def zero_zone_state_def zone_event_ok_def split: if_splits)
qed (simp add: zone_states_of_def zero_zone_state_def)

section \<open>The pool follows the states\<close>

lemma filter_update_length:
  "i < length xs \<Longrightarrow> length (filter P (xs[i := y])) + (if P (xs ! i) then 1 else 0) = length (filter P xs) + (if P y then 1 else 0)"
proof (induction xs arbitrary: i)
  case (Cons x xs)
  then show ?case
  proof (cases i)
    case (Suc k)
    then show ?thesis using Cons.IH[of k] Cons.prems by simp
  qed simp
qed simp

definition zone_view_of :: "samp_raknet_gang_zone_state list \<Rightarrow> zone_pool \<Rightarrow> bool" where
  "zone_view_of states pool \<longleftrightarrow> zone_slots pool = map zone_reloaded states \<and>
     zone_active_count pool = int (length (filter active (zone_slots pool)))"

lemma set_slot_view:
  assumes "zone_view_of states pool" "i < length states" "zone_reloaded s = slot"
  shows "zone_view_of (states[i := s]) (set_zone_slot i slot pool\<lparr>zone_active_count := zone_active_count pool +
    (if active slot then 1 else 0) - (if active (zone_slots pool ! i) then 1 else 0)\<rparr>)"
  using assms filter_update_length[of i "zone_slots pool" active slot]
  by (auto simp: zone_view_of_def set_zone_slot_def map_update split: if_splits)

lemma apply_zone_event_view:
  assumes v: "zone_view_of states pool" and e: "zone_event_ok e" "ze_seq e \<noteq> 0"
    and len: "length states = SAMP_RAKNET_MAX_GANG_ZONES"
  shows "zone_view_of (zone_state_step e states) (gang_zone_compat_apply_event e pool)"
proof -
  let ?i = "unat (ze_zone_id e)" and ?s = "states ! unat (ze_zone_id e)" and ?slot = "zone_slots pool ! unat (ze_zone_id e)"
  have i: "?i < length states" using e(1) len by (simp add: zone_event_ok_def)
  have slot: "?slot = zone_reloaded ?s" using v i by (simp add: zone_view_of_def)
  have same: "(zone_slots pool)[?i := ?slot] = zone_slots pool" by simp
  have pos: "active ?slot \<Longrightarrow> zone_active_count pool > 0"
  proof -
    assume a: "active ?slot"
    have "?i < length (zone_slots pool)" using i v by (simp add: zone_view_of_def)
    then have "?slot \<in> set (filter active (zone_slots pool))" using a by simp
    then have "0 < length (filter active (zone_slots pool))" by (rule length_pos_if_in_set)
    then show "zone_active_count pool > 0" using v unfolding zone_view_of_def by linarith
  qed
  have actions: "ze_action e = 1 \<or> ze_action e = 2 \<or> ze_action e = 3 \<or> ze_action e = 4"
    using e(1) action_cases by (simp add: zone_event_ok_def)
  note step = set_slot_view[OF v i, of "zone_state_after e ?s" "zone_reloaded (zone_state_after e ?s)", OF refl]
  show ?thesis
    using step e i len pos same actions
    by (cases "ze_action e = SAMP_RAKNET_GANG_ZONE_ACTION_CREATE")
      (auto simp: gang_zone_compat_apply_event_def zone_state_step_def zone_state_after_def zone_reloaded_def zone_event_ok_def slot
        zero_zone_state_def zero_zone_slot_def set_zone_slot_def gang_zone_compat_decrement_active_count_def zone_consts Let_def
        split: if_splits)
qed

lemma zone_step_length [simp]: "length (zone_state_step e states) = length states"
  by (simp add: zone_state_step_def)

lemma apply_zone_events_view:
  assumes "zone_view_of states pool" "\<forall>e\<in>set es. zone_event_ok e \<and> ze_seq e \<noteq> 0" "length states = SAMP_RAKNET_MAX_GANG_ZONES"
  shows "zone_view_of (fold zone_state_step es states) (fold gang_zone_compat_apply_event es pool)"
  using assms by (induction es arbitrary: states pool) (simp_all add: apply_zone_event_view)

lemma apply_zone_event_keeps:
  "zone_snapshot_synced (gang_zone_compat_apply_event e pool) = zone_snapshot_synced pool"
  by (simp add: gang_zone_compat_apply_event_def set_zone_slot_def gang_zone_compat_decrement_active_count_def Let_def)

lemma apply_zone_events_synced:
  "zone_snapshot_synced (fold gang_zone_compat_apply_event es pool) = zone_snapshot_synced pool"
  by (induction es arbitrary: pool) (simp_all add: apply_zone_event_keeps)

text \<open>The loop over consecutive events, behind any number of events that are already known.\<close>

lemma zone_follow_new:
  assumes "\<forall>j<length h. ze_seq (h ! j) = of_nat (j + 1)" "length h + 1 < 4294967296" "k \<le> length h"
  shows "zone_follow (drop k h) (of_nat (k + 1)) pool =
    (fold gang_zone_compat_apply_event (drop k h) pool, Some (of_nat (length h + 1)))"
  using assms(3)
proof (induction "length h - k" arbitrary: k pool)
  case (Suc n)
  then have k: "k < length h" by simp
  have seq: "ze_seq (h ! k) = of_nat (k + 1)" using assms(1) k by blast
  have ih: "zone_follow (drop (Suc k) h) (of_nat (Suc k + 1)) p =
      (fold gang_zone_compat_apply_event (drop (Suc k) h) p, Some (of_nat (length h + 1)))" for p
    using Suc.hyps(2) k by (intro Suc.hyps(1)) simp_all
  have "(of_nat (k + 1) :: u32) + 1 = of_nat (Suc k + 1)" by simp
  then show ?case
    unfolding Cons_nth_drop_Suc[OF k, symmetric] zone_follow.simps seq by (simp only: ih) simp
qed simp

lemma zone_follow_old:
  assumes "\<forall>j<length h. ze_seq (h ! j) = of_nat (j + 1)" "length h + 1 < 4294967296" "k \<le> length h" "a \<le> k"
  shows "zone_follow (drop a h) (of_nat (k + 1)) pool = zone_follow (drop k h) (of_nat (k + 1)) pool"
  using assms(4)
proof (induction "k - a" arbitrary: a)
  case (Suc n)
  then have a: "a < length h" "a < k" using assms(3) by simp_all
  have "ze_seq (h ! a) = of_nat (a + 1)" using assms(1) a(1) by blast
  moreover have "(of_nat (a + 1) :: u32) < of_nat (k + 1)" using a assms(2,3) by (subst of_nat_u32_less) simp_all
  moreover have "zone_follow (drop (Suc a) h) (of_nat (k + 1)) pool = zone_follow (drop k h) (of_nat (k + 1)) pool"
    using Suc.hyps(2) a(2) by (intro Suc.hyps(1)) simp_all
  ultimately show ?case unfolding Cons_nth_drop_Suc[OF a(1), symmetric] zone_follow.simps by simp
qed simp

lemma zone_follow_gap:
  assumes "\<forall>j<length h. ze_seq (h ! j) = of_nat (j + 1)" "length h + 1 < 4294967296" "k < a" "a < length h"
  shows "zone_follow (drop a h) (of_nat (k + 1)) pool = (pool, None)"
proof -
  have "ze_seq (h ! a) = of_nat (a + 1)" using assms(1,4) by blast
  moreover have "\<not> (of_nat (a + 1) :: u32) < of_nat (k + 1)" "(of_nat (a + 1) :: u32) \<noteq> of_nat (k + 1)"
    using assms(2-4) by (subst of_nat_u32_less of_nat_u32_inj; simp)+
  ultimately show ?thesis unfolding Cons_nth_drop_Suc[OF assms(4), symmetric] zone_follow.simps by simp
qed

section \<open>Polling\<close>

text \<open>One frame: the snapshot of the adapter is taken and applied.\<close>

definition poll_gang_zones :: "zone_net \<Rightarrow> zone_pool \<Rightarrow> zone_pool" where
  "poll_gang_zones zn pool = gang_zone_compat_update_from_snapshot (of_nat (length (gang_zone_snapshot zn)))
     (gang_zone_snapshot zn) (gang_zone_states zn) (gang_zone_state_seq zn) pool"

text \<open>A synchronised pool shows the zones after the first \<open>k\<close> events.\<close>

definition zone_pool_at :: "samp_raknet_gang_zone_event list \<Rightarrow> nat \<Rightarrow> zone_pool \<Rightarrow> bool" where
  "zone_pool_at h k pool \<longleftrightarrow> (zone_snapshot_synced pool \<longrightarrow>
     k \<le> length h \<and> zone_event_seq pool = of_nat k \<and> zone_view_of (zone_states_of (take k h)) pool)"

lemma zone_net_seq:
  assumes "zone_net_ok h zn"
  shows "gang_zone_state_seq zn = of_nat (length h)"
proof -
  have len: "unat (gang_zone_event_seq zn) = length h" and same: "gang_zone_state_seq zn = gang_zone_event_seq zn"
    using assms by (simp_all add: zone_net_ok_def ring_holds_def)
  have "of_nat (unat (gang_zone_event_seq zn)) = gang_zone_event_seq zn" by simp
  from this[unfolded len] show ?thesis unfolding same by (rule sym)
qed

lemma zone_resync_at:
  assumes "zone_net_ok h zn"
  shows "zone_pool_at h (length h) (gang_zone_compat_resync_from_snapshot (gang_zone_states zn) (gang_zone_state_seq zn) pool) \<and>
    zone_snapshot_synced (gang_zone_compat_resync_from_snapshot (gang_zone_states zn) (gang_zone_state_seq zn) pool)"
proof -
  have "gang_zone_state_seq zn = of_nat (length h)" using assms by (rule zone_net_seq)
  then show ?thesis using assms
    by (simp add: gang_zone_compat_resync_from_snapshot_def zone_pool_at_def zone_view_of_def zone_net_ok_def Let_def)
qed

lemma poll_gang_zones_at:
  assumes ok: "zone_net_ok h zn" and at: "zone_pool_at h k pool" and room: "length h + 1 < 4294967296"
  shows "zone_pool_at h (length h) (poll_gang_zones zn pool) \<and> zone_snapshot_synced (poll_gang_zones zn pool)"
proof (cases "zone_snapshot_synced pool")
  case False
  then show ?thesis using zone_resync_at[OF ok]
    by (simp add: poll_gang_zones_def gang_zone_compat_update_from_snapshot_def)
next
  case True
  let ?m = "length h" and ?a = "length h - SAMP_RAKNET_GANG_ZONE_EVENT_RING"
  have k: "k \<le> ?m" "zone_event_seq pool = of_nat k" "zone_view_of (zone_states_of (take k h)) pool"
    using at True by (simp_all add: zone_pool_at_def)
  have ring: "ring_holds SAMP_RAKNET_GANG_ZONE_EVENT_RING ze_seq h (gang_zone_event_seq zn) (gang_zone_events zn)"
    using ok by (simp add: zone_net_ok_def)
  have snap: "gang_zone_snapshot zn = drop ?a h"
    using ring_snapshot_suffix[OF ring] by (simp add: gang_zone_snapshot_def)
  have seq: "gang_zone_state_seq zn = of_nat ?m" using ok by (rule zone_net_seq)
  have count: "take (min (unat (of_nat (length (drop ?a h)) :: u32)) SAMP_RAKNET_GANG_ZONE_EVENT_RING) (drop ?a h) = drop ?a h"
    using room by (subst unat_of_nat_u32) (simp_all add: SAMP_RAKNET_GANG_ZONE_EVENT_RING_def)
  have num: "\<forall>j<length h. ze_seq (h ! j) = of_nat (j + 1)" using ring by (simp add: ring_holds_def)
  have eq: "(of_nat ?m = (of_nat k :: u32)) = (?m = k)" using room k(1) by (intro of_nat_u32_inj) simp_all
  have less: "(of_nat ?m < (of_nat k :: u32)) = (?m < k)" using room k(1) by (intro of_nat_u32_less) simp_all
  note resync = zone_resync_at[OF ok]
  show ?thesis
  proof (cases "?m = k")
    case same: True
    then show ?thesis using True k
      by (simp add: poll_gang_zones_def gang_zone_compat_update_from_snapshot_def seq zone_pool_at_def)
  next
    case ahead: False
    have poll: "poll_gang_zones zn pool =
        (case zone_follow (drop ?a h) (of_nat k + 1) pool of
          (pool, None) \<Rightarrow> gang_zone_compat_resync_from_snapshot (gang_zone_states zn) (gang_zone_state_seq zn) pool
        | (pool, Some expected) \<Rightarrow>
            if expected - 1 \<noteq> gang_zone_state_seq zn
            then gang_zone_compat_resync_from_snapshot (gang_zone_states zn) (gang_zone_state_seq zn) pool
            else pool\<lparr>zone_event_seq := gang_zone_state_seq zn\<rparr>)"
      unfolding poll_gang_zones_def gang_zone_compat_update_from_snapshot_def snap count k(2) seq Let_def eq less
      using True ahead k(1) by simp
    have next_no: "(of_nat k + 1 :: u32) = of_nat (k + 1)" by simp
    show ?thesis
    proof (cases "?a \<le> k")
      case False
      then have "?a < ?m" using k(1) ahead by (simp add: SAMP_RAKNET_GANG_ZONE_EVENT_RING_def)
      then have "zone_follow (drop ?a h) (of_nat k + 1) pool = (pool, None)"
        unfolding next_no using False by (intro zone_follow_gap[OF num room]) simp_all
      then show ?thesis using resync by (simp only: poll prod.case option.case)
    next
      case known: True
      let ?pool = "fold gang_zone_compat_apply_event (drop k h) pool"
      have "zone_follow (drop ?a h) (of_nat k + 1) pool = (?pool, Some (of_nat (?m + 1)))"
        unfolding next_no zone_follow_old[OF num room k(1) known] by (rule zone_follow_new[OF num room k(1)])
      then have poll': "poll_gang_zones zn pool = ?pool\<lparr>zone_event_seq := of_nat ?m\<rparr>"
        unfolding poll seq by simp
      have "zone_event_ok e \<and> ze_seq e \<noteq> 0" if e: "e \<in> set (drop k h)" for e
      proof -
        obtain j where j: "j < ?m" "e = h ! j" using e by (metis in_set_dropD in_set_conv_nth)
        have "unat (of_nat (j + 1) :: u32) = j + 1" using j(1) room by (intro unat_of_nat_u32) simp
        then have "(of_nat (j + 1) :: u32) \<noteq> 0" by (metis unat_0 add_is_0 one_neq_zero)
        then show ?thesis using num j ok by (simp add: zone_net_ok_def)
      qed
      then have "zone_view_of (fold zone_state_step (drop k h) (zone_states_of (take k h))) ?pool"
        using apply_zone_events_view[OF k(3)] by simp
      moreover have "fold zone_state_step (drop k h) (zone_states_of (take k h)) = zone_states_of h"
        unfolding zone_states_of_def by (metis append_take_drop_id fold_append o_apply)
      ultimately have "zone_view_of (zone_states_of h) ?pool" by simp
      then show ?thesis using True
        by (simp add: poll' zone_pool_at_def zone_view_of_def apply_zone_events_synced)
    qed
  qed
qed

section \<open>Network and runtime together\<close>

text \<open>
  \<open>n\<close> payloads received since the last connect, in any order with polls and draws. Both sides are reset before a new
  connection, whatever they held.
\<close>

inductive gang_zones_reachable :: "nat \<Rightarrow> zone_net \<Rightarrow> zone_pool \<Rightarrow> bool" where
  connect: "gang_zones_reachable 0 reset_zone_net (gang_zone_compat_reset pool)"
| receive: "gang_zones_reachable n zn pool \<Longrightarrow> decode_gang_zone_payload rpc_id data zn = Some (r, zn') \<Longrightarrow>
    gang_zones_reachable (Suc n) zn' pool"
| poll: "gang_zones_reachable n zn pool \<Longrightarrow> gang_zones_reachable n zn (poll_gang_zones zn pool)"
| draw: "gang_zones_reachable n zn pool \<Longrightarrow>
    gang_zones_reachable n zn (snd (gang_zone_compat_draw_callback usable menu now pool))"

lemma gang_zones_reachable_ok:
  assumes "gang_zones_reachable n zn pool" "n + 1 < 4294967296"
  shows "\<exists>h k. zone_net_ok h zn \<and> zone_pool_at h k pool \<and> length h \<le> n"
  using assms
proof (induction rule: gang_zones_reachable.induct)
  case (connect pool)
  then show ?case using reset_zone_net_ok
    by (intro exI[of _ "[]"]) (simp add: zone_pool_at_def gang_zone_compat_reset_def)
next
  case (receive n zn pool rpc_id data r zn')
  then obtain h k where ih: "zone_net_ok h zn" "zone_pool_at h k pool" "length h \<le> n" by auto
  show ?case
  proof (cases r)
    case False
    then show ?thesis using decode_gang_zone_step[OF receive.hyps(2)] ih le_SucI by auto
  next
    case True
    then obtain a e where q: "queue_gang_zone_event a zn = (e, zn')" "zone_event_ok e"
      using decode_gang_zone_step[OF receive.hyps(2)] by (auto simp: zone_queued_def)
    have "zone_net_ok (h @ [e]) zn'" using queue_zone_ok[OF ih(1) q] ih(3) receive.prems by simp
    moreover have "zone_pool_at (h @ [e]) k pool" using ih(2) by (auto simp: zone_pool_at_def)
    ultimately show ?thesis using ih(3) by (metis Suc_le_mono length_append_singleton)
  qed
next
  case (poll n zn pool)
  then show ?case using poll_gang_zones_at by (metis add_le_mono1 order_le_less_trans)
next
  case (draw n zn pool usable menu now)
  have "zone_pool_at h k (snd (gang_zone_compat_draw_callback usable menu now pool))" if "zone_pool_at h k pool" for h k
    using that by (simp add: zone_pool_at_def zone_view_of_def gang_zone_compat_draw_callback_def Let_def)
  then show ?case using draw by blast
qed
section \<open>Properties\<close>

text \<open>The call that draws a state: its rectangle in the game's order, and its base or its alternate colour.\<close>

definition zone_drawing :: "bool \<Rightarrow> u8 \<Rightarrow> samp_raknet_gang_zone_state \<Rightarrow> f32 list \<times> u32 \<times> u8" where
  "zone_drawing alternate menu s = ([zs_bounds s ! 0, zs_bounds s ! 3, zs_bounds s ! 2, zs_bounds s ! 1],
     if alternate then zs_alternate_color s else zs_base_color s, menu)"

lemma draw_callback_eq:
  "gang_zone_compat_draw_callback True menu now pool = (drawn, pool') \<Longrightarrow>
    drawn = map (\<lambda>s. (gta_bounds s, if zone_flash_alternate pool' \<noteq> 0 then alternate_color s else base_color s, menu))
      (filter active (zone_slots pool))"
  by (auto simp: gang_zone_compat_draw_callback_def Let_def split: if_splits)

definition new_zone :: "u8 list" where
  "new_zone = [0, 0] @ [0, 0, 0x80, 0x3F] @ [0, 0, 0, 0x40] @ [0, 0, 0x40, 0x40] @ [0, 0, 0x80, 0x40] @ [4, 3, 2, 1]"

lemma new_zone_reads:
  "length new_zone = 22" "read_le16 new_zone 0 = Some 0" "read_le_float new_zone 2 = Some 0x3F800000"
  "read_le_float new_zone 6 = Some 0x40000000" "read_le_float new_zone 10 = Some 0x40400000"
  "read_le_float new_zone 14 = Some 0x40800000" "read_le32 new_zone 18 = Some 0x01020304"
  "gang_zone_compat_bounds_plausible [0x3F800000, 0x40000000, 0x40400000, 0x40800000]"
  by code_simp+

lemma decode_new_zone:
  "decode_gang_zone_payload 108 new_zone zn = Some (True, snd (queue_gang_zone_event
     (SAMP_RAKNET_GANG_ZONE_ACTION_CREATE, 0, Some [0x3F800000, 0x40000000, 0x40400000, 0x40800000], 0x01020304) zn))"
  by (simp add: decode_gang_zone_payload_def decode_gang_zone_create_def new_zone_reads SAMP_RAKNET_MAX_GANG_ZONES_def)

definition blank_zone_pool :: zone_pool where
  "blank_zone_pool = \<lparr>zone_event_seq = 0, zone_snapshot_synced = False, zone_active_count = 0, zone_slots = [],
     zone_flash_last_tick = 0, zone_flash_alternate = 0\<rparr>"

text \<open>C33: The map shows exactly the server's gang zones. However RPCs (fewer than \<open>2 ^ 32 - 1\<close> in all), frames and draws interleave, and
  however many events the ring lost in between, the draw that follows a poll draws each zone that the authoritative states hold as
  active, in the order of their ids and with their bounds and colours, and nothing else; the pool's counter of active
  zones is their number.\<close>

theorem gang_zones_drawn:
  assumes "gang_zones_reachable n zn pool" "n + 1 < 4294967296"
    and "gang_zone_compat_draw_callback True menu now (poll_gang_zones zn pool) = (drawn, pool')"
  shows "drawn = map (zone_drawing (zone_flash_alternate pool' \<noteq> 0) menu) (filter (\<lambda>s. zs_active s \<noteq> 0) (gang_zone_states zn)) \<and>
    zone_active_count (poll_gang_zones zn pool) = int (length (filter (\<lambda>s. zs_active s \<noteq> 0) (gang_zone_states zn)))"
proof -
  obtain h k where ok: "zone_net_ok h zn" "zone_pool_at h k pool" "length h \<le> n"
    using gang_zones_reachable_ok[OF assms(1,2)] by blast
  let ?pool = "poll_gang_zones zn pool" and ?states = "gang_zone_states zn"
  have view: "zone_view_of ?states ?pool"
    using poll_gang_zones_at[OF ok(1,2)] ok assms(2) by (simp add: zone_pool_at_def zone_net_ok_def)
  have "\<forall>s\<in>set ?states. zs_active s \<noteq> 0 \<longrightarrow> gang_zone_compat_bounds_plausible (zs_bounds s)"
    using zone_states_plausible ok(1) by (auto simp: zone_net_ok_def)
  then have "active (zone_reloaded s) = (zs_active s \<noteq> 0)" "zs_active s \<noteq> 0 \<Longrightarrow>
      (gta_bounds (zone_reloaded s), (if b then alternate_color (zone_reloaded s) else base_color (zone_reloaded s)), menu) =
      zone_drawing b menu s" if "s \<in> set ?states" for s b
    using that by (auto simp: zone_reloaded_def zero_zone_slot_def zone_drawing_def gang_zone_compat_store_bounds_def)
  then have active: "filter active (map zone_reloaded ?states) = map zone_reloaded (filter (\<lambda>s. zs_active s \<noteq> 0) ?states)"
    and drawn: "map (\<lambda>s. (gta_bounds s, if b then alternate_color s else base_color s, menu))
      (map zone_reloaded (filter (\<lambda>s. zs_active s \<noteq> 0) ?states)) = map (zone_drawing b menu) (filter (\<lambda>s. zs_active s \<noteq> 0) ?states)" for b
    by (simp_all add: filter_map cong: filter_cong)
  have "zone_active_count ?pool = int (length (filter (\<lambda>s. zs_active s \<noteq> 0) ?states))"
    using view active by (simp add: zone_view_of_def)
  moreover have "drawn = map (\<lambda>s. (gta_bounds s, if zone_flash_alternate pool' \<noteq> 0 then alternate_color s else base_color s,
      menu)) (filter active (zone_slots ?pool))"
    using assms(3) by (rule draw_callback_eq)
  moreover have "zone_slots ?pool = map zone_reloaded ?states" using view by (simp add: zone_view_of_def)
  ultimately show ?thesis by (simp only: active drawn)
qed

theorem gang_zones_drawn_witness:
  "\<exists>zn pool pool'. gang_zone_compat_draw_callback True 0 1000 (poll_gang_zones zn pool) =
     ([([0x3F800000, 0x40800000, 0x40400000, 0x40000000], 0x01020304, 0)], pool')"
proof -
  let ?a = "(SAMP_RAKNET_GANG_ZONE_ACTION_CREATE, 0, Some [0x3F800000, 0x40000000, 0x40400000, 0x40800000], 0x01020304)"
  let ?zn = "snd (queue_gang_zone_event ?a reset_zone_net)" and ?pool = "gang_zone_compat_reset blank_zone_pool"
  have reach: "gang_zones_reachable (Suc 0) ?zn ?pool"
    by (rule gang_zones_reachable.receive[OF gang_zones_reachable.connect decode_new_zone])
  obtain drawn pool' where d: "gang_zone_compat_draw_callback True 0 1000 (poll_gang_zones ?zn ?pool) = (drawn, pool')"
    by (metis surj_pair)
  have "gang_zone_states ?zn = zone_state_after (zero_zone_event\<lparr>ze_seq := 1, ze_zone_id := 0, ze_action := 1, ze_color := 0x01020304,
      ze_bounds := [0x3F800000, 0x40000000, 0x40400000, 0x40800000]\<rparr>) zero_zone_state # replicate 1023 zero_zone_state"
    by (simp add: queue_gang_zone_event_def reset_zone_net_def zone_consts bump_seq_def Let_def replicate_Suc[of 1023, simplified])
  moreover have "filter (\<lambda>s. zs_active s \<noteq> 0) (replicate 1023 zero_zone_state) = []" by (simp add: zero_zone_state_def)
  ultimately have "drawn = [([0x3F800000, 0x40800000, 0x40400000, 0x40000000], 0x01020304, 0)]"
    using gang_zones_drawn[OF reach _ d] by (simp add: zone_state_after_def zone_drawing_def zone_consts zero_zone_event_def)
  then show ?thesis using d by blast
qed

end
