(* ===== verification/RpcObjects.thy ===== *)
theory RpcObjects
  imports RakPayload
begin

text \<open>
  The object half of \<^verbatim>\<open>src/net/raknet_client_adapter.cpp\<close>: the decoders of the object RPCs, the event ring,
  the lifecycle of each of the 2000 objects (alive flag, generation, last create), and the material
  states that are allocated per object and slot under a budget for their texts.

  \<^verbatim>\<open>calloc\<close> and \<^verbatim>\<open>malloc\<close> may fail at every call: the environment is the function that says which call
  succeeds. The state counts the calls and the live blocks. A character array is its C string.
\<close>

section \<open>Data\<close>

definition SAMP_RAKNET_OBJECT_EVENT_RING :: nat where "SAMP_RAKNET_OBJECT_EVENT_RING = 1024"
definition SAMP_RAKNET_MAX_OBJECTS :: nat where "SAMP_RAKNET_MAX_OBJECTS = 2000"
definition SAMP_RAKNET_OBJECT_MATERIAL_SLOTS :: nat where "SAMP_RAKNET_OBJECT_MATERIAL_SLOTS = 16"
definition SAMP_RAKNET_OBJECT_MATERIAL_NAME_BYTES :: nat where "SAMP_RAKNET_OBJECT_MATERIAL_NAME_BYTES = 256"
definition SAMP_RAKNET_OBJECT_MATERIAL_TEXT_BYTES :: nat where "SAMP_RAKNET_OBJECT_MATERIAL_TEXT_BYTES = 2049"
definition SAMP_RAKNET_WORLD_VISUAL_TEXT_BYTES :: nat where "SAMP_RAKNET_WORLD_VISUAL_TEXT_BYTES = 256"
definition SAMP_RAKNET_WORLD_VISUAL_NAME_BYTES :: nat where "SAMP_RAKNET_WORLD_VISUAL_NAME_BYTES = 64"
definition kObjectMaterialTextBudgetBytes :: u32 where "kObjectMaterialTextBudgetBytes = 8 * 1024 * 1024"
definition kGtaModelInfoCount :: nat where "kGtaModelInfoCount = 20000"

definition SAMP_RAKNET_OBJECT_ACTION_CREATE :: u8 where "SAMP_RAKNET_OBJECT_ACTION_CREATE = 1"
definition SAMP_RAKNET_OBJECT_ACTION_DESTROY :: u8 where "SAMP_RAKNET_OBJECT_ACTION_DESTROY = 2"
definition SAMP_RAKNET_OBJECT_ACTION_SET_POS :: u8 where "SAMP_RAKNET_OBJECT_ACTION_SET_POS = 3"
definition SAMP_RAKNET_OBJECT_ACTION_SET_ROT :: u8 where "SAMP_RAKNET_OBJECT_ACTION_SET_ROT = 4"
definition SAMP_RAKNET_OBJECT_ACTION_MOVE :: u8 where "SAMP_RAKNET_OBJECT_ACTION_MOVE = 5"
definition SAMP_RAKNET_OBJECT_ACTION_STOP :: u8 where "SAMP_RAKNET_OBJECT_ACTION_STOP = 6"
definition SAMP_RAKNET_OBJECT_ACTION_ATTACH_PLAYER :: u8 where "SAMP_RAKNET_OBJECT_ACTION_ATTACH_PLAYER = 7"
definition SAMP_RAKNET_OBJECT_ACTION_SET_MATERIAL :: u8 where "SAMP_RAKNET_OBJECT_ACTION_SET_MATERIAL = 8"
definition SAMP_RAKNET_OBJECT_MATERIAL_TYPE_DEFAULT :: u8 where "SAMP_RAKNET_OBJECT_MATERIAL_TYPE_DEFAULT = 1"
definition SAMP_RAKNET_OBJECT_MATERIAL_TYPE_TEXT :: u8 where "SAMP_RAKNET_OBJECT_MATERIAL_TYPE_TEXT = 2"
definition SAMP_RAKNET_OBJECT_MATERIAL_SOURCE_CREATE :: u8 where "SAMP_RAKNET_OBJECT_MATERIAL_SOURCE_CREATE = 1"
definition SAMP_RAKNET_OBJECT_MATERIAL_SOURCE_RPC :: u8 where "SAMP_RAKNET_OBJECT_MATERIAL_SOURCE_RPC = 2"

lemmas object_consts = SAMP_RAKNET_OBJECT_EVENT_RING_def SAMP_RAKNET_MAX_OBJECTS_def
  SAMP_RAKNET_OBJECT_MATERIAL_SLOTS_def SAMP_RAKNET_OBJECT_MATERIAL_NAME_BYTES_def
  SAMP_RAKNET_OBJECT_MATERIAL_TEXT_BYTES_def kObjectMaterialTextBudgetBytes_def
  SAMP_RAKNET_OBJECT_ACTION_CREATE_def SAMP_RAKNET_OBJECT_ACTION_DESTROY_def SAMP_RAKNET_OBJECT_ACTION_SET_POS_def
  SAMP_RAKNET_OBJECT_ACTION_SET_ROT_def SAMP_RAKNET_OBJECT_ACTION_MOVE_def SAMP_RAKNET_OBJECT_ACTION_STOP_def
  SAMP_RAKNET_OBJECT_ACTION_ATTACH_PLAYER_def SAMP_RAKNET_OBJECT_ACTION_SET_MATERIAL_def
  SAMP_RAKNET_OBJECT_MATERIAL_TYPE_DEFAULT_def SAMP_RAKNET_OBJECT_MATERIAL_TYPE_TEXT_def

record samp_raknet_object_material =
  om_type :: u8
  om_slot :: u8
  om_source :: u8
  om_material_size :: u8
  om_font_size :: u8
  om_bold :: u8
  om_alignment :: u8
  om_model :: int
  om_material_color :: u32
  om_background_color :: u32
  om_txd :: string
  om_texture :: string
  om_font :: string
  om_text :: string

definition zero_material :: samp_raknet_object_material where
  "zero_material = \<lparr>om_type = 0, om_slot = 0, om_source = 0, om_material_size = 0, om_font_size = 0, om_bold = 0,
     om_alignment = 0, om_model = 0, om_material_color = 0, om_background_color = 0, om_txd = [], om_texture = [],
     om_font = [], om_text = []\<rparr>"

record ObjectMaterialSlotState =
  ms_generation :: u32
  ms_revision :: u32
  ms_materialColor :: u32
  ms_backgroundColor :: u32
  ms_model :: int
  ms_type :: u8
  ms_slot :: u8
  ms_source :: u8
  ms_materialSize :: u8
  ms_fontSize :: u8
  ms_bold :: u8
  ms_alignment :: u8
  ms_nameA :: string
  ms_nameB :: string
  ms_text :: "string option"
  ms_textBytes :: u32

record samp_raknet_object_event =
  oe_seq :: u32
  oe_object_generation :: u32
  oe_material_revision :: u32
  oe_action :: u8
  oe_has_pos :: u8
  oe_has_attachment :: u8
  oe_materials_count :: u8
  oe_attachment_type :: u8
  oe_attachment_sync_rotation :: u8
  oe_material_type :: u8
  oe_material_slot :: u8
  oe_material_source :: u8
  oe_object_id :: u16
  oe_attachment_parent_id :: u16
  oe_model :: int
  oe_pos :: "f32 list"
  oe_rot :: "f32 list"
  oe_attachment_offset :: "f32 list"
  oe_attachment_rot :: "f32 list"
  oe_move_from :: "f32 list"
  oe_move_to :: "f32 list"
  oe_move_speed :: f32
  oe_draw_distance :: f32

definition zero_object_event :: samp_raknet_object_event where
  "zero_object_event = \<lparr>oe_seq = 0, oe_object_generation = 0, oe_material_revision = 0, oe_action = 0, oe_has_pos = 0,
     oe_has_attachment = 0, oe_materials_count = 0, oe_attachment_type = 0, oe_attachment_sync_rotation = 0,
     oe_material_type = 0, oe_material_slot = 0, oe_material_source = 0, oe_object_id = 0, oe_attachment_parent_id = 0,
     oe_model = 0, oe_pos = [0, 0, 0], oe_rot = [0, 0, 0], oe_attachment_offset = [0, 0, 0],
     oe_attachment_rot = [0, 0, 0], oe_move_from = [0, 0, 0], oe_move_to = [0, 0, 0], oe_move_speed = 0,
     oe_draw_distance = 0\<rparr>"

text \<open>The one-event record of the last change that is visible in the world, as \<^verbatim>\<open>set_object_material_event\<close> writes it.\<close>

record world_visual =
  world_visual_event_seq :: u32
  world_visual_event_type :: u8
  world_visual_id :: u16
  world_visual_model :: int
  world_visual_color :: u32
  world_visual_material_background :: u32
  world_visual_pos :: "f32 list"
  world_visual_material_type :: u8
  world_visual_material_slot :: u8
  world_visual_material_size :: u8
  world_visual_material_font_size :: u8
  world_visual_material_bold :: u8
  world_visual_material_alignment :: u8
  world_visual_text :: string
  world_visual_material_txd :: string
  world_visual_material_texture :: string

record object_net =
  saw_object_event :: bool
  object_event_seq :: u32
  object_events :: "samp_raknet_object_event list"
  object_generations :: "u32 list"
  object_alive :: "u8 list"
  object_create_states :: "samp_raknet_object_event list"
  object_generation_seq :: u32
  object_material_revision_seq :: u32
  object_material_text_bytes :: u32
  object_material_slots :: "ObjectMaterialSlotState option list list"
  object_visual :: world_visual
  heap_calls :: nat
  heap_live :: nat

section \<open>Validity\<close>

definition object_id_valid :: "u16 \<Rightarrow> bool" where
  "object_id_valid object_id \<longleftrightarrow> unat object_id < SAMP_RAKNET_MAX_OBJECTS"

definition object_model_plausible :: "int \<Rightarrow> bool" where
  "object_model_plausible m \<longleftrightarrow> m \<ge> 0 \<and> m \<le> 20000"

definition object_vec_plausible :: "f32 list \<Rightarrow> bool" where
  "object_vec_plausible v \<longleftrightarrow> f32_finite (v ! 0) \<and> f32_finite (v ! 1) \<and> f32_finite (v ! 2) \<and>
     f32_between (- 30000) 30000 (v ! 0) \<and> f32_between (- 30000) 30000 (v ! 1) \<and>
     f32_between (- 5000) 20000 (v ! 2)"

definition object_rot_plausible :: "f32 list \<Rightarrow> bool" where
  "object_rot_plausible v \<longleftrightarrow> f32_finite (v ! 0) \<and> f32_finite (v ! 1) \<and> f32_finite (v ! 2) \<and>
     f32_between (- 10000) 10000 (v ! 0) \<and> f32_between (- 10000) 10000 (v ! 1) \<and>
     f32_between (- 10000) 10000 (v ! 2)"

section \<open>The event ring\<close>

text \<open>As for the actors, \<open>body\<close> is the cleared event with what the caller stores through the pointer.\<close>

definition queue_object_event ::
  "u8 \<times> u16 \<times> samp_raknet_object_event \<Rightarrow> object_net \<Rightarrow> samp_raknet_object_event \<times> object_net" where
  "queue_object_event a st = (case a of (action, object_id, body) \<Rightarrow>
     let n = bump_seq (object_event_seq st);
         e = body\<lparr>oe_seq := n,
           oe_object_generation := (if object_id_valid object_id then object_generations st ! unat object_id else 0),
           oe_action := action, oe_object_id := object_id\<rparr>
     in (e, st\<lparr>object_event_seq := n,
              object_events := (object_events st)[ring_slot SAMP_RAKNET_OBJECT_EVENT_RING n := e],
              saw_object_event := True\<rparr>))"

section \<open>Blocks\<close>

type_synonym alloc_env = "nat \<Rightarrow> bool"

definition heap_alloc :: "alloc_env \<Rightarrow> object_net \<Rightarrow> bool \<times> object_net" where
  "heap_alloc env st =
     (let ok = env (heap_calls st) in
      (ok, st\<lparr>heap_calls := heap_calls st + 1, heap_live := heap_live st + (if ok then 1 else 0)\<rparr>))"

definition heap_free :: "nat \<Rightarrow> object_net \<Rightarrow> object_net" where
  "heap_free n st = st\<lparr>heap_live := heap_live st - n\<rparr>"

text \<open>The blocks of a material state: itself and its text.\<close>

definition state_blocks :: "ObjectMaterialSlotState \<Rightarrow> nat" where
  "state_blocks s = (case ms_text s of None \<Rightarrow> 1 | Some _ \<Rightarrow> 2)"

definition free_object_material_state :: "ObjectMaterialSlotState option \<Rightarrow> object_net \<Rightarrow> object_net" where
  "free_object_material_state state st = (case state of None \<Rightarrow> st | Some s \<Rightarrow> heap_free (state_blocks s) st)"

section \<open>Material states\<close>

definition bump_object_material_counter :: "u32 \<Rightarrow> u32" where
  "bump_object_material_counter counter = (if counter + 1 = 0 then 1 else counter + 1)"

definition copy_object_material_name :: "nat \<Rightarrow> string \<Rightarrow> string" where
  "copy_object_material_name out_size value = (if out_size = 0 then [] else take (out_size - 1) value)"

fun material_text_length :: "nat \<Rightarrow> string \<Rightarrow> nat" where
  "material_text_length n [] = n"
| "material_text_length n (c # cs) =
     (if n + 1 < SAMP_RAKNET_OBJECT_MATERIAL_TEXT_BYTES \<and> c \<noteq> CHR 0x00 then material_text_length (n + 1) cs else n)"

definition object_material_text_size :: "string \<Rightarrow> u32" where
  "object_material_text_size text_value = of_nat (material_text_length 0 text_value + 1)"

definition slot_state :: "u16 \<Rightarrow> nat \<Rightarrow> object_net \<Rightarrow> ObjectMaterialSlotState option" where
  "slot_state object_id slot st = object_material_slots st ! unat object_id ! slot"

definition set_slot_state :: "u16 \<Rightarrow> nat \<Rightarrow> ObjectMaterialSlotState option \<Rightarrow> object_net \<Rightarrow> object_net" where
  "set_slot_state object_id slot s st = st\<lparr>object_material_slots := (object_material_slots st)[unat object_id :=
     (object_material_slots st ! unat object_id)[slot := s]]\<rparr>"

definition release_object_material_slot_state :: "u16 \<Rightarrow> nat \<Rightarrow> object_net \<Rightarrow> object_net" where
  "release_object_material_slot_state object_id material_slot st =
     (if \<not> object_id_valid object_id \<or> material_slot \<ge> SAMP_RAKNET_OBJECT_MATERIAL_SLOTS then st
      else case slot_state object_id material_slot st of None \<Rightarrow> st
        | Some s \<Rightarrow>
          let st1 = set_slot_state object_id material_slot None st;
              total = object_material_text_bytes st1;
              st2 = st1\<lparr>object_material_text_bytes := (if ms_textBytes s \<le> total then total - ms_textBytes s else 0)\<rparr>
          in free_object_material_state (Some s) st2)"

definition release_object_material_states :: "u16 \<Rightarrow> object_net \<Rightarrow> object_net" where
  "release_object_material_states object_id st =
     (if \<not> object_id_valid object_id then st
      else fold (release_object_material_slot_state object_id) [0..<SAMP_RAKNET_OBJECT_MATERIAL_SLOTS] st)"

definition release_all_object_material_states :: "object_net \<Rightarrow> object_net" where
  "release_all_object_material_states st =
     (fold (\<lambda>i. release_object_material_states (of_nat i)) [0..<SAMP_RAKNET_MAX_OBJECTS] st)
       \<lparr>object_material_text_bytes := 0,
        object_material_slots := replicate SAMP_RAKNET_MAX_OBJECTS (replicate SAMP_RAKNET_OBJECT_MATERIAL_SLOTS None)\<rparr>"

definition create_object_material_state ::
  "alloc_env \<Rightarrow> samp_raknet_object_material \<Rightarrow> u32 \<Rightarrow> u32 \<Rightarrow> object_net \<Rightarrow> ObjectMaterialSlotState option \<times> object_net" where
  "create_object_material_state env m gen rev_no st =
     (if gen = 0 \<or> rev_no = 0 \<or> unat (om_slot m) \<ge> SAMP_RAKNET_OBJECT_MATERIAL_SLOTS \<or>
         (om_type m \<noteq> SAMP_RAKNET_OBJECT_MATERIAL_TYPE_DEFAULT \<and> om_type m \<noteq> SAMP_RAKNET_OBJECT_MATERIAL_TYPE_TEXT)
      then (None, st)
      else case heap_alloc env st of
        (False, st) \<Rightarrow> (None, st)
      | (True, st) \<Rightarrow>
          let s = \<lparr>ms_generation = gen, ms_revision = rev_no, ms_materialColor = om_material_color m,
                ms_backgroundColor = om_background_color m, ms_model = om_model m, ms_type = om_type m, ms_slot = om_slot m,
                ms_source = om_source m, ms_materialSize = om_material_size m, ms_fontSize = om_font_size m,
                ms_bold = om_bold m, ms_alignment = om_alignment m, ms_nameA = [], ms_nameB = [], ms_text = None,
                ms_textBytes = 0\<rparr>
          in if om_type m = SAMP_RAKNET_OBJECT_MATERIAL_TYPE_DEFAULT
             then (Some (s\<lparr>ms_nameA := copy_object_material_name SAMP_RAKNET_OBJECT_MATERIAL_NAME_BYTES (om_txd m),
                     ms_nameB := copy_object_material_name SAMP_RAKNET_OBJECT_MATERIAL_NAME_BYTES (om_texture m)\<rparr>), st)
             else
               let bytes = object_material_text_size (om_text m); s = s\<lparr>ms_textBytes := bytes\<rparr>
               in case heap_alloc env st of
                    (False, st) \<Rightarrow> (None, free_object_material_state (Some s) st)
                  | (True, st) \<Rightarrow>
                      (Some (s\<lparr>ms_nameA := copy_object_material_name SAMP_RAKNET_OBJECT_MATERIAL_NAME_BYTES (om_font m),
                         ms_text := Some (take (unat bytes - 1) (om_text m))\<rparr>), st))"

definition slot_text_bytes :: "ObjectMaterialSlotState option \<Rightarrow> u32" where
  "slot_text_bytes s = (case s of None \<Rightarrow> 0 | Some s \<Rightarrow> ms_textBytes s)"

definition object_material_text_bytes_for_object :: "u16 \<Rightarrow> object_net \<Rightarrow> u32" where
  "object_material_text_bytes_for_object object_id st =
     (if \<not> object_id_valid object_id then 0
      else fold (\<lambda>i bytes. bytes + slot_text_bytes (slot_state object_id i st)) [0..<SAMP_RAKNET_OBJECT_MATERIAL_SLOTS] 0)"

text \<open>\<^verbatim>\<open>retained_text_bytes\<close>: the total without \<open>old\<close>.\<close>

definition retained_after :: "u32 \<Rightarrow> object_net \<Rightarrow> u32" where
  "retained_after old st =
     (if old \<le> object_material_text_bytes st then object_material_text_bytes st - old else 0)"

section \<open>Replacing all material states of a created object\<close>

type_synonym replacement = "ObjectMaterialSlotState option list"

text \<open>The loop: the result, the replacements so far and their text bytes.\<close>

fun replace_loop ::
  "alloc_env \<Rightarrow> u32 \<Rightarrow> u32 \<Rightarrow> samp_raknet_object_material list \<Rightarrow> replacement \<Rightarrow> u32 \<Rightarrow> object_net \<Rightarrow>
     bool \<times> replacement \<times> object_net" where
  "replace_loop env gen retained [] rep rep_bytes st = (True, rep, st)"
| "replace_loop env gen retained (m # ms) rep rep_bytes st =
     (let rev_no = bump_object_material_counter (object_material_revision_seq st);
          slot = unat (om_slot m)
      in case create_object_material_state env m gen rev_no (st\<lparr>object_material_revision_seq := rev_no\<rparr>) of
        (None, st) \<Rightarrow> (False, rep, st)
      | (Some s, st) \<Rightarrow>
         if slot \<ge> SAMP_RAKNET_OBJECT_MATERIAL_SLOTS
         then (False, rep, free_object_material_state (Some s) st)
         else
           let rep_bytes = rep_bytes - slot_text_bytes (rep ! slot);
               st = free_object_material_state (rep ! slot) st;
               rep = rep[slot := None]
           in if retained > kObjectMaterialTextBudgetBytes \<or>
                 rep_bytes + ms_textBytes s > kObjectMaterialTextBudgetBytes - retained
              then (False, rep, free_object_material_state (Some s) st)
              else replace_loop env gen retained ms (rep[slot := Some s]) (rep_bytes + ms_textBytes s) st)"

text \<open>The second loop moves the replacements into the object's slots.\<close>

definition install_replacement :: "u16 \<Rightarrow> replacement \<Rightarrow> nat \<Rightarrow> object_net \<Rightarrow> object_net" where
  "install_replacement object_id rep i st = (case rep ! i of None \<Rightarrow> st
     | Some s \<Rightarrow>
        let st = set_slot_state object_id i (Some s) st
        in st\<lparr>object_material_text_bytes := object_material_text_bytes st + ms_textBytes s\<rparr>)"

definition replace_create_object_material_states ::
  "alloc_env \<Rightarrow> u16 \<Rightarrow> u32 \<Rightarrow> samp_raknet_object_material list \<Rightarrow> object_net \<Rightarrow> bool \<times> object_net" where
  "replace_create_object_material_states env object_id gen materials st =
     (let old = object_material_text_bytes_for_object object_id st in
      if \<not> object_id_valid object_id \<or> gen = 0 \<or> length materials > SAMP_RAKNET_OBJECT_MATERIAL_SLOTS then (False, st)
      else
        let retained = retained_after old st in
        case replace_loop env gen retained materials (replicate SAMP_RAKNET_OBJECT_MATERIAL_SLOTS None) 0 st of
          (False, rep, st) \<Rightarrow> (False, fold free_object_material_state rep st)
        | (True, rep, st) \<Rightarrow>
            let st = release_object_material_states object_id st;
                st = st\<lparr>object_material_text_bytes := retained\<rparr>
            in (True, fold (install_replacement object_id rep) [0..<SAMP_RAKNET_OBJECT_MATERIAL_SLOTS] st))"

section \<open>Storing one material state\<close>

text \<open>The revision of the stored state, or \<open>None\<close> where the function returns false.\<close>

definition store_object_material_state ::
  "alloc_env \<Rightarrow> u16 \<Rightarrow> samp_raknet_object_material \<Rightarrow> object_net \<Rightarrow> u32 option \<times> object_net" where
  "store_object_material_state env object_id m st =
     (let slot = unat (om_slot m) in
      if \<not> object_id_valid object_id \<or> slot \<ge> SAMP_RAKNET_OBJECT_MATERIAL_SLOTS then (None, st)
      else let gen = object_generations st ! unat object_id in
      if gen = 0 then (None, st)
      else
        let previous = slot_state object_id slot st;
            retained = (case previous of None \<Rightarrow> object_material_text_bytes st | Some s \<Rightarrow> retained_after (ms_textBytes s) st);
            rev_no = bump_object_material_counter (object_material_revision_seq st)
        in case create_object_material_state env m gen rev_no (st\<lparr>object_material_revision_seq := rev_no\<rparr>) of
          (None, st) \<Rightarrow> (None, st)
        | (Some s, st) \<Rightarrow>
            if retained > kObjectMaterialTextBudgetBytes \<or> ms_textBytes s > kObjectMaterialTextBudgetBytes - retained
            then (None, free_object_material_state (Some s) st)
            else
              let st = release_object_material_slot_state object_id slot st;
                  st = st\<lparr>object_material_text_bytes := retained + ms_textBytes s\<rparr>
              in (Some rev_no, set_slot_state object_id slot (Some s) st))"

section \<open>Material records on the wire\<close>

definition bytes_string :: "u8 list \<Rightarrow> string" where
  "bytes_string xs = takeWhile (\<lambda>c. c \<noteq> CHR 0x00) (map (\<lambda>b. char_of (unat b)) xs)"

definition read_object_material_dynstr8 :: "'b bitstream \<Rightarrow> nat \<Rightarrow> 'b \<Rightarrow> (string \<times> 'b) option" where
  "read_object_material_dynstr8 B out_size s = do {
     (len, s) \<leftarrow> bs_u8 B s;
     (value, s) \<leftarrow> (if len \<noteq> 0 then bs_bytes B (unat len) s else Some ([], s));
     let copy_length = (if unat len \<ge> out_size then out_size - 1 else unat len);
     Some (bytes_string (take copy_length value), s) }"

definition decode_default_material ::
  "'b bitstream \<Rightarrow> u8 \<Rightarrow> samp_raknet_object_material \<Rightarrow> 'b \<Rightarrow> (samp_raknet_object_material \<times> 'b) option" where
  "decode_default_material B src m s = do {
     (wire_model, s) \<leftarrow> bs_u16 B s;
     (txd, s) \<leftarrow> read_object_material_dynstr8 B SAMP_RAKNET_OBJECT_MATERIAL_NAME_BYTES s;
     (texture, s) \<leftarrow> read_object_material_dynstr8 B SAMP_RAKNET_OBJECT_MATERIAL_NAME_BYTES s;
     (color, s) \<leftarrow> bs_u32 B s;
     Some (m\<lparr>om_txd := txd, om_texture := texture, om_material_color := color,
        om_model := (if wire_model = 0xFFFF \<or>
             (src = SAMP_RAKNET_OBJECT_MATERIAL_SOURCE_CREATE \<and> unat wire_model > kGtaModelInfoCount)
           then - 1 else uint wire_model)\<rparr>, s) }"

definition decode_text_material ::
  "'b bitstream \<Rightarrow> samp_raknet_object_material \<Rightarrow> 'b \<Rightarrow> (samp_raknet_object_material \<times> 'b) option" where
  "decode_text_material B m s = do {
     (material_size, s) \<leftarrow> bs_u8 B s;
     (font, s) \<leftarrow> read_object_material_dynstr8 B SAMP_RAKNET_OBJECT_MATERIAL_NAME_BYTES s;
     (font_size, s) \<leftarrow> bs_u8 B s;
     (bold, s) \<leftarrow> bs_u8 B s;
     (color, s) \<leftarrow> bs_u32 B s;
     (background, s) \<leftarrow> bs_u32 B s;
     (align, s) \<leftarrow> bs_u8 B s;
     (text, s) \<leftarrow> bs_string B SAMP_RAKNET_OBJECT_MATERIAL_TEXT_BYTES s;
     Some (m\<lparr>om_material_size := material_size, om_font := font, om_font_size := font_size, om_bold := bold,
        om_material_color := color, om_background_color := background, om_alignment := align, om_text := text\<rparr>, s) }"

definition decode_object_material_record ::
  "'b bitstream \<Rightarrow> u8 \<Rightarrow> 'b \<Rightarrow> (samp_raknet_object_material \<times> 'b) option" where
  "decode_object_material_record B src s = do {
     (ty, s) \<leftarrow> bs_u8 B s;
     (slot, s) \<leftarrow> bs_u8 B s;
     if unat slot \<ge> SAMP_RAKNET_OBJECT_MATERIAL_SLOTS \<or>
        (ty \<noteq> SAMP_RAKNET_OBJECT_MATERIAL_TYPE_DEFAULT \<and> ty \<noteq> SAMP_RAKNET_OBJECT_MATERIAL_TYPE_TEXT)
     then None
     else
       let m = zero_material\<lparr>om_type := ty, om_slot := slot, om_source := src\<rparr>
       in if ty = SAMP_RAKNET_OBJECT_MATERIAL_TYPE_DEFAULT then decode_default_material B src m s
          else decode_text_material B m s }"

section \<open>Material updates\<close>

definition queue_object_material_event ::
  "u16 \<Rightarrow> samp_raknet_object_material \<Rightarrow> u32 \<Rightarrow> object_net \<Rightarrow> bool \<times> object_net" where
  "queue_object_material_event object_id m material_revision st =
     (if \<not> object_id_valid object_id \<or> unat (om_slot m) \<ge> SAMP_RAKNET_OBJECT_MATERIAL_SLOTS \<or> material_revision = 0
      then (False, st)
      else (True, snd (queue_object_event (SAMP_RAKNET_OBJECT_ACTION_SET_MATERIAL, object_id,
        zero_object_event\<lparr>oe_material_revision := material_revision, oe_material_type := om_type m,
          oe_material_slot := om_slot m, oe_material_source := om_source m, oe_materials_count := 1\<rparr>) st)))"

text \<open>The float a byte converts to.\<close>

definition f32_of_u8 :: "u8 \<Rightarrow> f32" where
  "f32_of_u8 b = (if b = 0 then 0
     else let e = (if b < 2 then 0 else if b < 4 then 1 else if b < 8 then 2 else if b < 16 then 3
                   else if b < 32 then 4 else if b < 64 then 5 else if b < 128 then 6 else 7 :: nat)
       in of_nat ((127 + e) * 2 ^ 23 + (unat b - 2 ^ e) * 2 ^ (23 - e)))"

definition copy_text :: "nat \<Rightarrow> string \<Rightarrow> string" where
  "copy_text out_size input = (if out_size = 0 then [] else take (out_size - 1) input)"

definition material_summary :: "samp_raknet_object_material \<Rightarrow> string" where
  "material_summary m = take (SAMP_RAKNET_WORLD_VISUAL_TEXT_BYTES - 1)
     (if om_type m = SAMP_RAKNET_OBJECT_MATERIAL_TYPE_DEFAULT
      then ''type=default slot='' @ decimal (unat (om_slot m)) @ '' txd='' @ [CHR 0x27] @ om_txd m @ [CHR 0x27] @
        '' texture='' @ [CHR 0x27] @ om_texture m @ [CHR 0x27]
      else ''type=text slot='' @ decimal (unat (om_slot m)) @ '' size='' @ decimal (unat (om_material_size m)) @
        '' font='' @ [CHR 0x27] @ om_font m @ [CHR 0x27] @ '' bold='' @ decimal (unat (om_bold m)) @
        '' text='' @ [CHR 0x27] @ take 96 (om_text m) @ [CHR 0x27])"

definition show_material :: "u16 \<Rightarrow> samp_raknet_object_material \<Rightarrow> world_visual \<Rightarrow> world_visual" where
  "show_material object_id m v = v\<lparr>world_visual_event_seq := bump_seq (world_visual_event_seq v),
     world_visual_event_type := 1, world_visual_id := object_id, world_visual_model := om_model m,
     world_visual_color := om_material_color m, world_visual_material_background := om_background_color m,
     world_visual_pos := map f32_of_u8 [om_type m, om_slot m, om_font_size m, om_alignment m],
     world_visual_material_type := om_type m, world_visual_material_slot := om_slot m,
     world_visual_material_size := om_material_size m, world_visual_material_font_size := om_font_size m,
     world_visual_material_bold := om_bold m, world_visual_material_alignment := om_alignment m,
     world_visual_text := copy_text SAMP_RAKNET_WORLD_VISUAL_TEXT_BYTES (material_summary m),
     world_visual_material_txd := copy_text SAMP_RAKNET_WORLD_VISUAL_NAME_BYTES (om_txd m),
     world_visual_material_texture := copy_text SAMP_RAKNET_WORLD_VISUAL_NAME_BYTES (om_texture m)\<rparr>"

definition set_object_material_event ::
  "alloc_env \<Rightarrow> u16 \<Rightarrow> samp_raknet_object_material \<Rightarrow> object_net \<Rightarrow> bool \<times> object_net" where
  "set_object_material_event env object_id m st =
     (case store_object_material_state env object_id m st of
        (None, st) \<Rightarrow> (False, st)
      | (Some rev_no, st) \<Rightarrow>
          queue_object_material_event object_id m rev_no (st\<lparr>object_visual := show_material object_id m (object_visual st)\<rparr>))"

definition decode_set_object_material_payload ::
  "'b bitstream \<Rightarrow> alloc_env \<Rightarrow> u8 list \<Rightarrow> object_net \<Rightarrow> (bool \<times> object_net) mem" where
  "decode_set_object_material_payload B env data st =
     (if length data < 4 then Some (False, st)
      else do {
        object_id \<leftarrow> read_le16 data 0;
        if \<not> object_id_valid object_id then Some (False, st)
        else case decode_object_material_record B SAMP_RAKNET_OBJECT_MATERIAL_SOURCE_RPC (bs_open B (drop 2 data)) of
          None \<Rightarrow> Some (False, st)
        | Some (m, _) \<Rightarrow> Some (set_object_material_event env object_id m st) })"

section \<open>Creating an object\<close>

text \<open>Type, parent, synchronised rotation, offset and rotation of an attachment.\<close>

type_synonym attachment = "u8 \<times> u16 \<times> u8 \<times> f32 list \<times> f32 list"

text \<open>The inner \<open>None\<close> is the rejection of the payload.\<close>

definition read_attachment :: "u8 list \<Rightarrow> u16 \<Rightarrow> u16 \<Rightarrow> attachment option mem" where
  "read_attachment data attach_vehicle attach_object =
     (if attach_vehicle = 0xFFFF \<and> attach_object = 0xFFFF
      then Some (Some (0, 0xFFFF, 1, [0, 0, 0], [0, 0, 0]))
      else if length data < 64 + 1 then Some None
      else do {
        offset \<leftarrow> read_vec3 data 39;
        rot \<leftarrow> read_vec3 data 51;
        sync \<leftarrow> read_byte data 63;
        let (ty, parent) = (if attach_vehicle \<noteq> 0xFFFF then (1, attach_vehicle) else (2, attach_object));
        if \<not> object_vec_plausible offset \<or> \<not> object_rot_plausible rot then Some None
        else Some (Some (ty, parent, if sync \<noteq> 0 then 1 else 0, offset, rot)) })"

text \<open>\<open>n\<close> records from the stream, or \<open>None\<close> at the first that does not decode.\<close>

fun decode_material_records ::
  "'b bitstream \<Rightarrow> nat \<Rightarrow> 'b \<Rightarrow> samp_raknet_object_material list option" where
  "decode_material_records B 0 s = Some []"
| "decode_material_records B (Suc n) s =
     (case decode_object_material_record B SAMP_RAKNET_OBJECT_MATERIAL_SOURCE_CREATE s of
        None \<Rightarrow> None
      | Some (m, s) \<Rightarrow> map_option (Cons m) (decode_material_records B n s))"

datatype scratch = No_materials | Unavailable | Decoded "samp_raknet_object_material list"

text \<open>The scratch array and what is decoded into it; \<open>None\<close> rejects the payload with the array freed.\<close>

definition decode_create_materials ::
  "'b bitstream \<Rightarrow> alloc_env \<Rightarrow> u8 list \<Rightarrow> nat \<Rightarrow> object_net \<Rightarrow> scratch option \<times> object_net" where
  "decode_create_materials B env tail count st =
     (if count = 0 then (Some No_materials, st)
      else case heap_alloc env st of
        (False, st) \<Rightarrow> (Some Unavailable, st)
      | (True, st) \<Rightarrow> (case decode_material_records B count (bs_open B tail) of
            None \<Rightarrow> (None, heap_free 1 st)
          | Some ms \<Rightarrow> (Some (Decoded ms), st)))"

definition free_scratch :: "scratch \<Rightarrow> object_net \<Rightarrow> object_net" where
  "free_scratch sc st = (case sc of Decoded _ \<Rightarrow> heap_free 1 st | _ \<Rightarrow> st)"

definition replace_from_scratch ::
  "alloc_env \<Rightarrow> u16 \<Rightarrow> u32 \<Rightarrow> scratch \<Rightarrow> object_net \<Rightarrow> bool \<times> object_net" where
  "replace_from_scratch env object_id gen sc st = (case sc of
     Unavailable \<Rightarrow> (False, st)
   | No_materials \<Rightarrow> replace_create_object_material_states env object_id gen [] st
   | Decoded ms \<Rightarrow> replace_create_object_material_states env object_id gen ms st)"

definition store_created_object ::
  "alloc_env \<Rightarrow> u16 \<Rightarrow> scratch \<Rightarrow> samp_raknet_object_event \<Rightarrow> object_net \<Rightarrow> object_net" where
  "store_created_object env object_id sc body st =
     (let gen = bump_object_material_counter (object_generation_seq st);
          st = st\<lparr>object_generation_seq := gen\<rparr>;
          st = (case replace_from_scratch env object_id gen sc st of
                  (True, st) \<Rightarrow> st | (False, st) \<Rightarrow> release_object_material_states object_id st);
          st = st\<lparr>object_generations := (object_generations st)[unat object_id := gen]\<rparr>
      in case queue_object_event (SAMP_RAKNET_OBJECT_ACTION_CREATE, object_id, body) st of
        (e, st) \<Rightarrow> st\<lparr>object_alive := (object_alive st)[unat object_id := 1],
                      object_create_states := (object_create_states st)[unat object_id := e]\<rparr>)"

definition create_body :: "int \<Rightarrow> f32 list \<Rightarrow> f32 list \<Rightarrow> f32 \<Rightarrow> bool \<Rightarrow> attachment \<Rightarrow> u8 \<Rightarrow> samp_raknet_object_event" where
  "create_body m pos rot draw attached a count = (case a of (ty, parent, sync, offset, arot) \<Rightarrow>
     zero_object_event\<lparr>oe_model := m, oe_pos := pos, oe_rot := rot, oe_has_pos := 1,
       oe_has_attachment := (if attached then 1 else 0), oe_attachment_type := ty, oe_attachment_parent_id := parent,
       oe_attachment_sync_rotation := sync, oe_attachment_offset := offset, oe_attachment_rot := arot,
       oe_materials_count := count, oe_draw_distance := draw\<rparr>)"

text \<open>The end of the function: \<open>tail\<close> is the payload behind the material count.\<close>

definition finish_object_create ::
  "'b bitstream \<Rightarrow> alloc_env \<Rightarrow> u8 list \<Rightarrow> u16 \<Rightarrow> u8 \<Rightarrow> bool \<Rightarrow> samp_raknet_object_event \<Rightarrow> object_net \<Rightarrow> bool \<times> object_net" where
  "finish_object_create B env tail object_id count plausible body st =
     (if unat count > SAMP_RAKNET_OBJECT_MATERIAL_SLOTS then (False, st)
      else case decode_create_materials B env tail (unat count) st of
        (None, st) \<Rightarrow> (False, st)
      | (Some sc, st) \<Rightarrow>
          if \<not> object_id_valid object_id \<or> \<not> plausible then (False, free_scratch sc st)
          else (True, free_scratch sc (store_created_object env object_id sc body st)))"

definition decode_object_create_payload ::
  "'b bitstream \<Rightarrow> alloc_env \<Rightarrow> u8 list \<Rightarrow> object_net \<Rightarrow> (bool \<times> object_net) mem" where
  "decode_object_create_payload B env data st =
     (if length data < 40 then Some (False, st)
      else do {
        object_id \<leftarrow> read_le16 data 0;
        m \<leftarrow> read_le_i32 data 2;
        pos \<leftarrow> read_vec3 data 6;
        rot \<leftarrow> read_vec3 data 18;
        draw \<leftarrow> read_le_float data 30;
        vehicle \<leftarrow> read_le16 data 35;
        parent \<leftarrow> read_le16 data 37;
        let attached = (vehicle \<noteq> 0xFFFF \<or> parent \<noteq> 0xFFFF);
        let count_offset = (if attached then 64 else 39);
        let plausible = (object_model_plausible m \<and> object_vec_plausible pos \<and> object_rot_plausible rot \<and>
          f32_finite draw \<and> f32_within 0 10000 draw);
        att \<leftarrow> read_attachment data vehicle parent;
        case att of None \<Rightarrow> Some (False, st)
        | Some a \<Rightarrow> do {
            count \<leftarrow> read_byte data count_offset;
            Some (finish_object_create B env (drop (count_offset + 1) data) object_id count plausible
              (create_body m pos rot draw attached a count) st) } })"

section \<open>The other object RPCs\<close>

definition decode_object_attach_player_payload :: "u8 list \<Rightarrow> object_net \<Rightarrow> (bool \<times> object_net) mem" where
  "decode_object_attach_player_payload data st =
     (if length data < 28 then Some (False, st)
      else do {
        object_id \<leftarrow> read_le16 data 0;
        player_id \<leftarrow> read_le16 data 2;
        offset \<leftarrow> read_vec3 data 4;
        rot \<leftarrow> read_vec3 data 16;
        if \<not> object_id_valid object_id \<or> \<not> object_vec_plausible offset \<or> \<not> object_rot_plausible rot then Some (False, st)
        else Some (True, snd (queue_object_event (SAMP_RAKNET_OBJECT_ACTION_ATTACH_PLAYER, object_id,
          zero_object_event\<lparr>oe_has_attachment := 1, oe_attachment_type := 3, oe_attachment_parent_id := player_id,
            oe_attachment_sync_rotation := 1, oe_attachment_offset := offset, oe_attachment_rot := rot\<rparr>) st)) })"

definition decode_object_set_pos_payload :: "u8 list \<Rightarrow> object_net \<Rightarrow> (bool \<times> object_net) mem" where
  "decode_object_set_pos_payload data st =
     (if length data < 14 then Some (False, st)
      else do {
        object_id \<leftarrow> read_le16 data 0;
        pos \<leftarrow> read_vec3 data 2;
        if \<not> object_id_valid object_id \<or> \<not> object_vec_plausible pos then Some (False, st)
        else Some (True, snd (queue_object_event (SAMP_RAKNET_OBJECT_ACTION_SET_POS, object_id,
          zero_object_event\<lparr>oe_pos := pos, oe_has_pos := 1\<rparr>) st)) })"

definition decode_object_set_rot_payload :: "u8 list \<Rightarrow> object_net \<Rightarrow> (bool \<times> object_net) mem" where
  "decode_object_set_rot_payload data st =
     (if length data < 14 then Some (False, st)
      else do {
        object_id \<leftarrow> read_le16 data 0;
        rot \<leftarrow> read_vec3 data 2;
        if \<not> object_id_valid object_id \<or> \<not> object_rot_plausible rot then Some (False, st)
        else Some (True, snd (queue_object_event (SAMP_RAKNET_OBJECT_ACTION_SET_ROT, object_id,
          zero_object_event\<lparr>oe_rot := rot\<rparr>) st)) })"

definition destroy_object :: "u16 \<Rightarrow> object_net \<Rightarrow> object_net" where
  "destroy_object object_id st =
     (let st = snd (queue_object_event (SAMP_RAKNET_OBJECT_ACTION_DESTROY, object_id, zero_object_event) st);
          st = release_object_material_states object_id st
      in st\<lparr>object_generations := (object_generations st)[unat object_id := 0],
            object_alive := (object_alive st)[unat object_id := 0],
            object_create_states := (object_create_states st)[unat object_id := zero_object_event]\<rparr>)"

definition decode_object_destroy_payload :: "u8 list \<Rightarrow> object_net \<Rightarrow> (bool \<times> object_net) mem" where
  "decode_object_destroy_payload data st =
     (if length data < 2 then Some (False, st)
      else do {
        object_id \<leftarrow> read_le16 data 0;
        if \<not> object_id_valid object_id then Some (False, st) else Some (True, destroy_object object_id st) })"

definition decode_object_move_payload :: "u8 list \<Rightarrow> object_net \<Rightarrow> (bool \<times> object_net) mem" where
  "decode_object_move_payload data st =
     (if length data < 42 then Some (False, st)
      else do {
        object_id \<leftarrow> read_le16 data 0;
        origin \<leftarrow> read_vec3 data 2;
        to \<leftarrow> read_vec3 data 14;
        speed \<leftarrow> read_le_float data 26;
        target_rot \<leftarrow> read_vec3 data 30;
        if \<not> object_id_valid object_id \<or> \<not> object_vec_plausible origin \<or> \<not> object_vec_plausible to \<or>
           \<not> object_rot_plausible target_rot \<or> \<not> f32_finite speed \<or> \<not> f32_within 0 10000 speed
        then Some (False, st)
        else Some (True, snd (queue_object_event (SAMP_RAKNET_OBJECT_ACTION_MOVE, object_id,
          zero_object_event\<lparr>oe_move_from := origin, oe_move_to := to, oe_rot := target_rot, oe_move_speed := speed,
            oe_has_pos := 1\<rparr>) st)) })"

definition decode_object_stop_payload :: "u8 list \<Rightarrow> object_net \<Rightarrow> (bool \<times> object_net) mem" where
  "decode_object_stop_payload data st =
     (if length data < 2 then Some (False, st)
      else do {
        object_id \<leftarrow> read_le16 data 0;
        if \<not> object_id_valid object_id then Some (False, st)
        else Some (True, snd (queue_object_event (SAMP_RAKNET_OBJECT_ACTION_STOP, object_id, zero_object_event) st)) })"

text \<open>The branches of \<^verbatim>\<open>rpc_observer\<close> for objects.\<close>

definition observe_object_rpc ::
  "'b bitstream \<Rightarrow> alloc_env \<Rightarrow> u8 \<Rightarrow> u8 list \<Rightarrow> object_net \<Rightarrow> (bool \<times> object_net) mem" where
  "observe_object_rpc B env rpc_id data st =
     (if rpc_id = 44 then decode_object_create_payload B env data st
      else if rpc_id = 45 then decode_object_set_pos_payload data st
      else if rpc_id = 46 then decode_object_set_rot_payload data st
      else if rpc_id = 47 then decode_object_destroy_payload data st
      else if rpc_id = 75 then decode_object_attach_player_payload data st
      else if rpc_id = 84 then decode_set_object_material_payload B env data st
      else if rpc_id = 99 then decode_object_move_payload data st
      else if rpc_id = 122 then decode_object_stop_payload data st
      else Some (False, st))"

section \<open>Reset and what the graphics thread reads\<close>

definition zero_world_visual :: world_visual where
  "zero_world_visual = \<lparr>world_visual_event_seq = 0, world_visual_event_type = 0, world_visual_id = 0, world_visual_model = 0,
     world_visual_color = 0, world_visual_material_background = 0, world_visual_pos = [0, 0, 0, 0],
     world_visual_material_type = 0, world_visual_material_slot = 0, world_visual_material_size = 0,
     world_visual_material_font_size = 0, world_visual_material_bold = 0, world_visual_material_alignment = 0,
     world_visual_text = [], world_visual_material_txd = [], world_visual_material_texture = []\<rparr>"

definition reset_object_net :: "object_net \<Rightarrow> object_net" where
  "reset_object_net st = (release_all_object_material_states st)
     \<lparr>saw_object_event := False, object_event_seq := 0,
      object_events := replicate SAMP_RAKNET_OBJECT_EVENT_RING zero_object_event,
      object_generations := replicate SAMP_RAKNET_MAX_OBJECTS 0, object_alive := replicate SAMP_RAKNET_MAX_OBJECTS 0,
      object_create_states := replicate SAMP_RAKNET_MAX_OBJECTS zero_object_event, object_generation_seq := 0,
      object_material_revision_seq := 0, object_visual := zero_world_visual\<rparr>"

text \<open>Return code, and the alive flag and create event where the code is 0.\<close>

definition samp_raknet_client_get_object_lifecycle ::
  "object_net \<Rightarrow> u16 \<Rightarrow> int \<times> u8 \<times> samp_raknet_object_event" where
  "samp_raknet_client_get_object_lifecycle st object_id =
     (if \<not> object_id_valid object_id then (- 1, 0, zero_object_event)
      else if object_alive st ! unat object_id = 0 then (0, 0, zero_object_event)
      else let e = object_create_states st ! unat object_id in
        if oe_action e \<noteq> SAMP_RAKNET_OBJECT_ACTION_CREATE \<or> oe_object_id e \<noteq> object_id \<or> oe_object_generation e = 0
        then (- 2, 0, zero_object_event)
        else (0, 1, e))"

definition material_of_state :: "ObjectMaterialSlotState \<Rightarrow> samp_raknet_object_material" where
  "material_of_state s =
     (let m = zero_material\<lparr>om_type := ms_type s, om_slot := ms_slot s, om_source := ms_source s,
            om_material_size := ms_materialSize s, om_font_size := ms_fontSize s, om_bold := ms_bold s,
            om_alignment := ms_alignment s, om_model := ms_model s, om_material_color := ms_materialColor s,
            om_background_color := ms_backgroundColor s\<rparr>
      in if ms_type s = SAMP_RAKNET_OBJECT_MATERIAL_TYPE_DEFAULT
         then m\<lparr>om_txd := copy_text SAMP_RAKNET_OBJECT_MATERIAL_NAME_BYTES (ms_nameA s),
                om_texture := copy_text SAMP_RAKNET_OBJECT_MATERIAL_NAME_BYTES (ms_nameB s)\<rparr>
         else if ms_type s = SAMP_RAKNET_OBJECT_MATERIAL_TYPE_TEXT
         then m\<lparr>om_font := copy_text SAMP_RAKNET_OBJECT_MATERIAL_NAME_BYTES (ms_nameA s),
                om_text := (case ms_text s of None \<Rightarrow> [] | Some t \<Rightarrow> copy_text SAMP_RAKNET_OBJECT_MATERIAL_TEXT_BYTES t)\<rparr>
         else m)"

text \<open>Return code, revision and material.\<close>

definition samp_raknet_client_get_object_material ::
  "object_net \<Rightarrow> u16 \<Rightarrow> u32 \<Rightarrow> u8 \<Rightarrow> u32 \<Rightarrow> int \<times> u32 \<times> samp_raknet_object_material" where
  "samp_raknet_client_get_object_material st object_id gen material_slot minimum_revision =
     (if \<not> object_id_valid object_id \<or> unat material_slot \<ge> SAMP_RAKNET_OBJECT_MATERIAL_SLOTS then (- 1, 0, zero_material)
      else case slot_state object_id (unat material_slot) st of
        None \<Rightarrow> (- 2, 0, zero_material)
      | Some s \<Rightarrow>
          if gen = 0 \<or> ms_generation s \<noteq> gen then (- 2, 0, zero_material)
          else if minimum_revision \<noteq> 0 \<and> ms_revision s < minimum_revision then (- 3, ms_revision s, zero_material)
          else (0, ms_revision s, material_of_state s))"

definition object_snapshot :: "object_net \<Rightarrow> samp_raknet_object_event list" where
  "object_snapshot st = ring_snapshot SAMP_RAKNET_OBJECT_EVENT_RING oe_seq (object_event_seq st) (object_events st)"

section \<open>Accounting\<close>

definition blocks_of :: "ObjectMaterialSlotState option \<Rightarrow> nat" where
  "blocks_of s = (case s of None \<Rightarrow> 0 | Some s \<Rightarrow> state_blocks s)"

definition bytes_of :: "ObjectMaterialSlotState option \<Rightarrow> nat" where
  "bytes_of s = unat (slot_text_bytes s)"

definition row_blocks :: "ObjectMaterialSlotState option list \<Rightarrow> nat" where
  "row_blocks row = sum_list (map blocks_of row)"

definition row_bytes :: "ObjectMaterialSlotState option list \<Rightarrow> nat" where
  "row_bytes row = sum_list (map bytes_of row)"

definition total_blocks :: "ObjectMaterialSlotState option list list \<Rightarrow> nat" where
  "total_blocks slots = sum_list (map row_blocks slots)"

definition total_bytes :: "ObjectMaterialSlotState option list list \<Rightarrow> nat" where
  "total_bytes slots = sum_list (map row_bytes slots)"

lemma no_state [simp]: "blocks_of None = 0" "bytes_of None = 0" "slot_text_bytes None = 0"
  by (simp_all add: blocks_of_def bytes_of_def slot_text_bytes_def)

lemma empty_rows [simp]:
  "row_blocks (replicate n None) = 0" "row_bytes (replicate n None) = 0"
  "total_blocks (replicate k (replicate n None)) = 0" "total_bytes (replicate k (replicate n None)) = 0"
  by (simp_all add: row_blocks_def row_bytes_def total_blocks_def total_bytes_def sum_list_replicate)

lemma sum_map_update:
  "j < length xs \<Longrightarrow> sum_list (map f (xs[j := y])) + f (xs ! j) = sum_list (map f xs) + (f y :: nat)"
  by (induction xs arbitrary: j) (auto simp: nth_Cons split: nat.splits)

lemma row_update:
  assumes "j < length row"
  shows "row_blocks (row[j := s]) + blocks_of (row ! j) = row_blocks row + blocks_of s"
    "row_bytes (row[j := s]) + bytes_of (row ! j) = row_bytes row + bytes_of s"
  using assms by (simp_all add: row_blocks_def row_bytes_def sum_map_update)

lemma total_update:
  assumes "i < length slots"
  shows "total_blocks (slots[i := row]) + row_blocks (slots ! i) = total_blocks slots + row_blocks row"
    "total_bytes (slots[i := row]) + row_bytes (slots ! i) = total_bytes slots + row_bytes row"
  using assms by (simp_all add: total_blocks_def total_bytes_def sum_map_update)

lemma row_total_le:
  "i < length slots \<Longrightarrow> row_bytes (slots ! i) \<le> total_bytes slots"
  "j < length row \<Longrightarrow> bytes_of (row ! j) \<le> row_bytes row"
  using total_update(2)[of i slots "slots ! i"] sum_map_update[of j row bytes_of None]
    sum_map_update[of i slots row_bytes "replicate 0 None"]
  by (simp_all add: total_bytes_def row_bytes_def)

section \<open>What each function changes\<close>

lemma free_state_eq: "free_object_material_state s st = st\<lparr>heap_live := heap_live st - blocks_of s\<rparr>"
  by (cases s) (simp_all add: free_object_material_state_def heap_free_def blocks_of_def)

lemma fold_free_eq:
  "fold free_object_material_state ss st = st\<lparr>heap_live := heap_live st - row_blocks ss\<rparr>"
  by (induction ss arbitrary: st) (simp_all add: free_state_eq row_blocks_def)

definition material_state_ok :: "ObjectMaterialSlotState \<Rightarrow> bool" where
  "material_state_ok s \<longleftrightarrow> ms_revision s \<noteq> 0 \<and> length (ms_nameA s) < 256 \<and> length (ms_nameB s) < 256 \<and>
     (case ms_text s of
        None \<Rightarrow> ms_type s = SAMP_RAKNET_OBJECT_MATERIAL_TYPE_DEFAULT \<and> ms_textBytes s = 0
      | Some t \<Rightarrow> ms_type s = SAMP_RAKNET_OBJECT_MATERIAL_TYPE_TEXT \<and> unat (ms_textBytes s) = length t + 1 \<and> length t < 2049)"

lemma material_text_length_le: "n \<le> 2048 \<Longrightarrow> material_text_length n cs \<le> 2048 \<and> material_text_length n cs \<le> n + length cs"
proof (induction cs arbitrary: n)
  case (Cons c cs)
  then show ?case using Cons.IH[of "n + 1"] by (auto simp: object_consts)
qed simp

lemma text_size_bounds:
  "unat (object_material_text_size t) = material_text_length 0 t + 1" "material_text_length 0 t \<le> 2048"
  "material_text_length 0 t \<le> length t"
  using material_text_length_le[of 0 t] by (simp_all add: object_material_text_size_def unat_of_nat_u32 del: of_nat_Suc)

lemma create_state_spec:
  assumes "create_object_material_state env m gen n st = (r, st')"
  shows "st' = st\<lparr>heap_calls := heap_calls st', heap_live := heap_live st + blocks_of r\<rparr> \<and>
    (case r of None \<Rightarrow> True
     | Some s \<Rightarrow> material_state_ok s \<and> ms_generation s = gen \<and> ms_slot s = om_slot m \<and> ms_revision s = n \<and>
        gen \<noteq> 0 \<and> unat (om_slot m) < SAMP_RAKNET_OBJECT_MATERIAL_SLOTS \<and> bytes_of r \<le> 2049)"
  using assms text_size_bounds[of "om_text m"]
  by (auto simp: create_object_material_state_def heap_alloc_def Let_def free_state_eq blocks_of_def state_blocks_def
      material_state_ok_def copy_object_material_name_def object_consts bytes_of_def slot_text_bytes_def
      split: if_splits prod.splits)

section \<open>Releasing\<close>

definition shape_ok :: "ObjectMaterialSlotState option list list \<Rightarrow> bool" where
  "shape_ok slots \<longleftrightarrow> length slots = SAMP_RAKNET_MAX_OBJECTS \<and>
     (\<forall>i<SAMP_RAKNET_MAX_OBJECTS. length (slots ! i) = SAMP_RAKNET_OBJECT_MATERIAL_SLOTS)"

definition memory_ok :: "nat \<Rightarrow> object_net \<Rightarrow> bool" where
  "memory_ok base st \<longleftrightarrow> shape_ok (object_material_slots st) \<and>
     unat (object_material_text_bytes st) = total_bytes (object_material_slots st) \<and>
     total_bytes (object_material_slots st) \<le> unat kObjectMaterialTextBudgetBytes \<and>
     heap_live st = base + total_blocks (object_material_slots st)"

lemma shape_update: "shape_ok slots \<Longrightarrow> length row = SAMP_RAKNET_OBJECT_MATERIAL_SLOTS \<Longrightarrow> shape_ok (slots[i := row])"
  unfolding shape_ok_def by (metis length_list_update nth_list_update_eq nth_list_update_neq)

lemma shape_row: "shape_ok slots \<Longrightarrow> object_id_valid i \<Longrightarrow>
    unat i < length slots \<and> length (slots ! unat i) = SAMP_RAKNET_OBJECT_MATERIAL_SLOTS"
  by (simp add: shape_ok_def object_id_valid_def)

lemma slot_bytes_le_total:
  assumes "shape_ok slots" "object_id_valid i" "j < SAMP_RAKNET_OBJECT_MATERIAL_SLOTS"
  shows "bytes_of (slots ! unat i ! j) \<le> row_bytes (slots ! unat i)" "row_bytes (slots ! unat i) \<le> total_bytes slots"
  using shape_row[OF assms(1,2)] row_total_le assms(3) by simp_all

lemma release_slot_spec:
  assumes mem: "memory_ok base st" and i: "object_id_valid i" and j: "j < SAMP_RAKNET_OBJECT_MATERIAL_SLOTS"
  shows "\<exists>t h. release_object_material_slot_state i j st = st\<lparr>object_material_slots :=
      (object_material_slots st)[unat i := (object_material_slots st ! unat i)[j := None]],
      object_material_text_bytes := t, heap_live := h\<rparr>"
    and "memory_ok base (release_object_material_slot_state i j st)"
proof -
  let ?slots = "object_material_slots st" and ?row = "object_material_slots st ! unat i"
  let ?new = "?slots[unat i := ?row[j := None]]"
  have shape: "shape_ok ?slots" "unat i < length ?slots" "length ?row = SAMP_RAKNET_OBJECT_MATERIAL_SLOTS"
    using mem shape_row[OF _ i] by (auto simp: memory_ok_def)
  have bytes: "total_bytes ?new + bytes_of (?row ! j) = total_bytes ?slots"
    and blocks: "total_blocks ?new + blocks_of (?row ! j) = total_blocks ?slots"
    using total_update[OF shape(2), of "?row[j := None]"] row_update[of j ?row None] j shape(3) by simp_all
  have same: "?new = ?slots" if "?row ! j = None" using that shape(2) by (metis list_update_id)
  have form: "release_object_material_slot_state i j st = st\<lparr>object_material_slots := ?new,
      object_material_text_bytes := object_material_text_bytes st - slot_text_bytes (?row ! j),
      heap_live := heap_live st - blocks_of (?row ! j)\<rparr>"
  proof (cases "?row ! j")
    case None
    then show ?thesis using i j same
      by (simp add: release_object_material_slot_state_def slot_state_def slot_text_bytes_def)
  next
    case (Some s)
    have "bytes_of (?row ! j) \<le> total_bytes ?slots" using bytes by simp
    then have "ms_textBytes s \<le> object_material_text_bytes st"
      using mem Some by (simp add: memory_ok_def bytes_of_def slot_text_bytes_def word_le_nat_alt)
    then show ?thesis using i j Some
      by (simp add: release_object_material_slot_state_def slot_state_def set_slot_state_def free_state_eq Let_def
          slot_text_bytes_def)
  qed
  then show "\<exists>t h. release_object_material_slot_state i j st = st\<lparr>object_material_slots := ?new,
      object_material_text_bytes := t, heap_live := h\<rparr>" by blast
  have "slot_text_bytes (?row ! j) \<le> object_material_text_bytes st"
    using bytes mem by (simp add: memory_ok_def bytes_of_def word_le_nat_alt)
  then have "unat (object_material_text_bytes st - slot_text_bytes (?row ! j)) = total_bytes ?new"
    using bytes mem by (simp add: memory_ok_def bytes_of_def unat_sub)
  then show "memory_ok base (release_object_material_slot_state i j st)"
    using mem bytes blocks shape_update[OF shape(1), of "?row[j := None]" "unat i"] shape(3)
    by (simp add: form memory_ok_def)
qed

lemma release_slots_spec:
  assumes "memory_ok base st" "object_id_valid i" "n \<le> SAMP_RAKNET_OBJECT_MATERIAL_SLOTS"
  shows "memory_ok base (fold (release_object_material_slot_state i) [0..<n] st) \<and>
    (\<exists>t h. fold (release_object_material_slot_state i) [0..<n] st = st\<lparr>object_material_slots :=
      (object_material_slots st)[unat i := replicate n None @ drop n (object_material_slots st ! unat i)],
      object_material_text_bytes := t, heap_live := h\<rparr>)"
  using assms(3)
proof (induction n)
  case 0
  have "\<exists>t h. st = st\<lparr>object_material_text_bytes := t, heap_live := h\<rparr>"
    by (rule exI[of _ "object_material_text_bytes st"], rule exI[of _ "heap_live st"]) simp
  then show ?case using assms(1) by simp
next
  case (Suc n)
  let ?row = "object_material_slots st ! unat i"
  let ?st = "fold (release_object_material_slot_state i) [0..<n] st"
  obtain t h where ih: "memory_ok base ?st" "?st = st\<lparr>object_material_slots :=
      (object_material_slots st)[unat i := replicate n None @ drop n ?row],
      object_material_text_bytes := t, heap_live := h\<rparr>"
    using Suc by auto
  have n: "n < SAMP_RAKNET_OBJECT_MATERIAL_SLOTS" using Suc.prems by simp
  have row: "unat i < length (object_material_slots st)" "length ?row = SAMP_RAKNET_OBJECT_MATERIAL_SLOTS"
    using assms(1,2) shape_row by (auto simp: memory_ok_def)
  obtain t' h' where step: "release_object_material_slot_state i n ?st = ?st\<lparr>object_material_slots :=
      (object_material_slots ?st)[unat i := (object_material_slots ?st ! unat i)[n := None]],
      object_material_text_bytes := t', heap_live := h'\<rparr>"
    using release_slot_spec(1)[OF ih(1) assms(2) n] by blast
  have "object_material_slots ?st = (object_material_slots st)[unat i := replicate n None @ drop n ?row]"
    using arg_cong[OF ih(2), of object_material_slots] by simp
  then have "(object_material_slots ?st)[unat i := (object_material_slots ?st ! unat i)[n := None]] =
      (object_material_slots st)[unat i := replicate (Suc n) None @ drop (Suc n) ?row]"
    using row n by (simp add: list_update_append replicate_app_Cons_same Cons_nth_drop_Suc[symmetric])
  then have "release_object_material_slot_state i n ?st = st\<lparr>object_material_slots :=
      (object_material_slots st)[unat i := replicate (Suc n) None @ drop (Suc n) ?row],
      object_material_text_bytes := t', heap_live := h'\<rparr>"
    using step ih(2) by simp
  then show ?case using release_slot_spec(2)[OF ih(1) assms(2) n] by auto
qed

lemma release_states_spec:
  assumes "memory_ok base st" "object_id_valid i"
  shows "memory_ok base (release_object_material_states i st)"
    and "\<exists>t h. release_object_material_states i st = st\<lparr>object_material_slots :=
      (object_material_slots st)[unat i := replicate SAMP_RAKNET_OBJECT_MATERIAL_SLOTS None],
      object_material_text_bytes := t, heap_live := h\<rparr>"
proof -
  have "drop SAMP_RAKNET_OBJECT_MATERIAL_SLOTS (object_material_slots st ! unat i) = []"
    using assms shape_row by (auto simp: memory_ok_def)
  then show "memory_ok base (release_object_material_states i st)"
    "\<exists>t h. release_object_material_states i st = st\<lparr>object_material_slots :=
      (object_material_slots st)[unat i := replicate SAMP_RAKNET_OBJECT_MATERIAL_SLOTS None],
      object_material_text_bytes := t, heap_live := h\<rparr>"
    using release_slots_spec[OF assms order_refl] assms(2) by (simp_all add: release_object_material_states_def)
qed

section \<open>Replacing\<close>

definition entry_ok :: "u32 \<Rightarrow> nat \<Rightarrow> ObjectMaterialSlotState option \<Rightarrow> bool" where
  "entry_ok gen j s \<longleftrightarrow> (case s of None \<Rightarrow> True
     | Some s \<Rightarrow> material_state_ok s \<and> unat (ms_slot s) = j \<and> ms_generation s = gen \<and> gen \<noteq> 0)"

definition row_ok :: "u32 \<Rightarrow> ObjectMaterialSlotState option list \<Rightarrow> bool" where
  "row_ok gen row \<longleftrightarrow> length row = SAMP_RAKNET_OBJECT_MATERIAL_SLOTS \<and>
     (\<forall>j<SAMP_RAKNET_OBJECT_MATERIAL_SLOTS. entry_ok gen j (row ! j))"

lemma row_ok_empty [simp]: "row_ok gen (replicate SAMP_RAKNET_OBJECT_MATERIAL_SLOTS None)"
  by (simp add: row_ok_def entry_ok_def)

lemma row_ok_update: "row_ok gen row \<Longrightarrow> entry_ok gen j s \<Longrightarrow> row_ok gen (row[j := s])"
  by (cases "j < length row") (auto simp: row_ok_def nth_list_update list_update_beyond)

lemma entry_ok_None [simp]: "entry_ok gen j None"
  by (simp add: entry_ok_def)

text \<open>Everything but the heap and the revision counter is unchanged.\<close>

definition heap_only :: "object_net \<Rightarrow> object_net \<Rightarrow> bool" where
  "heap_only st st' \<longleftrightarrow>
     (\<exists>c v h. st' = st\<lparr>heap_calls := c, object_material_revision_seq := v, heap_live := h\<rparr>)"

lemma heap_onlyI: "st' = st\<lparr>heap_calls := c, object_material_revision_seq := v, heap_live := h\<rparr> \<Longrightarrow> heap_only st st'"
  unfolding heap_only_def by blast

lemma heap_only_refl [simp]: "heap_only st st"
  by (rule heap_onlyI[where c = "heap_calls st" and v = "object_material_revision_seq st" and h = "heap_live st"]) simp

lemma heap_only_trans: "heap_only a b \<Longrightarrow> heap_only b c \<Longrightarrow> heap_only a c"
  unfolding heap_only_def by force

lemma heap_only_free [simp]: "heap_only st (st\<lparr>heap_live := h\<rparr>)"
  by (rule heap_onlyI[where c = "heap_calls st" and v = "object_material_revision_seq st" and h = h]) simp

lemma heap_only_revision [simp]: "heap_only st (st\<lparr>object_material_revision_seq := v\<rparr>)"
  by (rule heap_onlyI[where c = "heap_calls st" and v = v and h = "heap_live st"]) simp

lemma heap_only_alloc [simp]: "heap_only st (st\<lparr>heap_calls := c, heap_live := h\<rparr>)"
  by (rule heap_onlyI[where c = c and v = "object_material_revision_seq st" and h = h]) simp

lemma heap_only_same:
  assumes "heap_only st st'"
  shows "object_material_slots st' = object_material_slots st" "object_material_text_bytes st' = object_material_text_bytes st"
    "object_generations st' = object_generations st" "object_alive st' = object_alive st"
    "object_create_states st' = object_create_states st" "object_event_seq st' = object_event_seq st"
    "object_events st' = object_events st" "object_generation_seq st' = object_generation_seq st"
  using assms by (auto simp: heap_only_def)

lemma budget_check:
  assumes "\<not> (retained > kObjectMaterialTextBudgetBytes \<or> a + b > kObjectMaterialTextBudgetBytes - retained)"
    and "unat a \<le> unat kObjectMaterialTextBudgetBytes" "unat b \<le> 2049"
  shows "unat retained + (unat a + unat b) \<le> unat kObjectMaterialTextBudgetBytes" "unat (a + b) = unat a + unat b"
proof -
  have B: "unat kObjectMaterialTextBudgetBytes = 8388608" by (simp add: kObjectMaterialTextBudgetBytes_def)
  show sum: "unat (a + b) = unat a + unat b" using assms(2,3) B by (intro unat_add_u32) simp
  have "retained \<le> kObjectMaterialTextBudgetBytes" "a + b \<le> kObjectMaterialTextBudgetBytes - retained"
    using assms(1) unfolding de_Morgan_disj not_less by blast+
  then have "unat (a + b) \<le> unat kObjectMaterialTextBudgetBytes - unat retained" "unat retained \<le> unat kObjectMaterialTextBudgetBytes"
    by (simp_all add: word_le_nat_alt unat_sub)
  then show "unat retained + (unat a + unat b) \<le> unat kObjectMaterialTextBudgetBytes" using sum by simp
qed

lemma create_state_heap_only: "create_object_material_state env m gen n st = (r, st') \<Longrightarrow> heap_only st st'"
  using create_state_spec[of env m gen n st r st'] heap_only_alloc by metis

lemma replace_loop_spec:
  assumes "replace_loop env gen retained ms rep rb st = (ok, rep', st')"
    and "row_ok gen rep" "unat rb = row_bytes rep" "heap_live st = base + row_blocks rep"
    and "unat retained + row_bytes rep \<le> unat kObjectMaterialTextBudgetBytes"
  shows "heap_only st st' \<and> row_ok gen rep' \<and> heap_live st' = base + row_blocks rep' \<and>
    (ok \<longrightarrow> unat retained + row_bytes rep' \<le> unat kObjectMaterialTextBudgetBytes)"
  using assms
proof (induction env gen retained ms rep rb st arbitrary: ok rep' st' rule: replace_loop.induct)
  case (1 env gen retained rep rep_bytes st)
  then show ?case by simp
next
  case (2 env gen retained m ms rep rb st)
  let ?rev = "bump_object_material_counter (object_material_revision_seq st)"
  let ?st1 = "st\<lparr>object_material_revision_seq := ?rev\<rparr>" and ?j = "unat (om_slot m)"
  obtain r st2 where c: "create_object_material_state env m gen ?rev ?st1 = (r, st2)" by (metis surj_pair)
  note spec = create_state_spec[OF c]
  have st2: "heap_only st st2" using heap_only_trans[OF heap_only_revision create_state_heap_only[OF c]] .
  have live2: "heap_live st2 = heap_live st + blocks_of r" using arg_cong[OF spec[THEN conjunct1], of heap_live] by simp
  show ?case
  proof (cases r)
    case None
    then show ?thesis using "2.prems" c st2 live2 by (simp add: Let_def)
  next
    case (Some s)
    then have s: "material_state_ok s" "ms_generation s = gen" "ms_slot s = om_slot m" "gen \<noteq> 0"
      "?j < SAMP_RAKNET_OBJECT_MATERIAL_SLOTS" "unat (ms_textBytes s) \<le> 2049"
      using spec by (simp_all add: bytes_of_def slot_text_bytes_def)
    let ?old = "rep ! ?j" and ?rb = "rb - slot_text_bytes (rep ! ?j)"
    let ?st3 = "free_object_material_state ?old st2"
    have rep: "length rep = SAMP_RAKNET_OBJECT_MATERIAL_SLOTS" using "2.prems"(2) by (simp add: row_ok_def)
    have row: "row_bytes (rep[?j := t]) + bytes_of ?old = row_bytes rep + bytes_of t"
      "row_blocks (rep[?j := t]) + blocks_of ?old = row_blocks rep + blocks_of t" for t
      using row_update[of ?j rep t] s(5) rep by simp_all
    have rb: "unat ?rb = row_bytes (rep[?j := None])"
      using row(1)[of None] "2.prems"(3) by (simp add: bytes_of_def unat_sub word_le_nat_alt)
    have B: "row_bytes (rep[?j := None]) \<le> unat kObjectMaterialTextBudgetBytes" using row(1)[of None] "2.prems"(5) by simp
    have st3: "heap_only st ?st3" "heap_live ?st3 = base + row_blocks (rep[?j := None]) + blocks_of (Some s)"
      using heap_only_trans[OF st2, of ?st3] live2 Some "2.prems"(4) row(2)[of None] by (simp_all add: free_state_eq)
    let ?full = "retained > kObjectMaterialTextBudgetBytes \<or> ?rb + ms_textBytes s > kObjectMaterialTextBudgetBytes - retained"
    have none: "row_ok gen (rep[?j := None])" using "2.prems"(2) by (simp add: row_ok_update)
    show ?thesis
    proof (cases ?full)
      case True
      then have "ok = False" "rep' = rep[?j := None]" "st' = free_object_material_state (Some s) ?st3"
        using "2.prems"(1) c Some s(5) by (auto simp: Let_def)
      then have "heap_only ?st3 st'" "heap_live st' = heap_live ?st3 - blocks_of (Some s)"
        unfolding free_state_eq[of "Some s"] by simp_all
      then show ?thesis using st3(2) none heap_only_trans[OF st3(1)] \<open>ok = False\<close> \<open>rep' = _\<close> by simp
    next
      case False
      have next_loop: "replace_loop env gen retained ms (rep[?j := Some s]) (?rb + ms_textBytes s) ?st3 = (ok, rep', st')"
        using "2.prems"(1) c Some s(5) False by (simp add: Let_def)
      note check = budget_check[OF False, unfolded rb, OF B s(6)]
      have bytes: "unat (?rb + ms_textBytes s) = row_bytes (rep[?j := Some s])"
        "unat retained + row_bytes (rep[?j := Some s]) \<le> unat kObjectMaterialTextBudgetBytes"
        using check rb row(1)[of None] row(1)[of "Some s"] by (simp_all add: bytes_of_def slot_text_bytes_def)
      have ok_row: "row_ok gen (rep[?j := Some s])"
        using row_ok_update[OF "2.prems"(2), of ?j "Some s"] s by (simp add: entry_ok_def)
      have live: "heap_live ?st3 = base + row_blocks (rep[?j := Some s])"
        using st3(2) row(2)[of None] row(2)[of "Some s"] by simp
      have "\<not> SAMP_RAKNET_OBJECT_MATERIAL_SLOTS \<le> ?j" using s(5) by simp
      note ih = "2.IH"[OF refl refl c[symmetric] Some this refl refl refl, unfolded list_update_overwrite]
      show ?thesis using ih[OF False next_loop ok_row bytes(1) live bytes(2)] heap_only_trans[OF st3(1)] by blast
    qed
  qed
qed

text \<open>Only object \<open>i\<close>'s row of slots, the text total, the heap and the revision counter change.\<close>

definition row_only :: "u16 \<Rightarrow> ObjectMaterialSlotState option list \<Rightarrow> object_net \<Rightarrow> object_net \<Rightarrow> bool" where
  "row_only i row st st' \<longleftrightarrow> (\<exists>t. heap_only (st\<lparr>object_material_slots := (object_material_slots st)[unat i := row],
     object_material_text_bytes := t\<rparr>) st')"

lemma row_only_same:
  assumes "row_only i row st st'"
  shows "object_material_slots st' = (object_material_slots st)[unat i := row]"
    "object_generations st' = object_generations st" "object_alive st' = object_alive st"
    "object_create_states st' = object_create_states st" "object_event_seq st' = object_event_seq st"
    "object_events st' = object_events st" "object_generation_seq st' = object_generation_seq st"
  using assms by (auto simp: row_only_def heap_only_same)

lemma row_only_heap: "heap_only st st' \<Longrightarrow> row_only i (object_material_slots st ! unat i) st st'"
  unfolding row_only_def by (intro exI[of _ "object_material_text_bytes st"]) simp

lemma row_only_trans: "row_only i row a b \<Longrightarrow> heap_only b c \<Longrightarrow> row_only i row a c"
  unfolding row_only_def using heap_only_trans by blast

lemma row_only_again: "heap_only a b \<Longrightarrow> row_only i row b c \<Longrightarrow> row_only i row a c"
  unfolding row_only_def heap_only_def by force

lemma row_only_twice: "row_only i row a b \<Longrightarrow> row_only i row' b c \<Longrightarrow> row_only i row' a c"
  unfolding row_only_def heap_only_def by force

lemma row_only_set:
  assumes "row_only i row a b"
  shows "row_only i row' a (b\<lparr>object_material_slots := (object_material_slots a)[unat i := row'], object_material_text_bytes := t\<rparr>)"
proof -
  obtain t0 c v h where "b = a\<lparr>object_material_slots := (object_material_slots a)[unat i := row], object_material_text_bytes := t0,
      heap_calls := c, object_material_revision_seq := v, heap_live := h\<rparr>"
    using assms unfolding row_only_def heap_only_def by auto
  then show ?thesis
    unfolding row_only_def by (intro exI[of _ t] heap_onlyI[where c = c and v = v and h = h]) simp
qed

lemma memory_ok_heap: "memory_ok base st \<Longrightarrow> heap_only st st' \<Longrightarrow> heap_live st' = heap_live st \<Longrightarrow> memory_ok base st'"
  by (simp add: memory_ok_def heap_only_same)

lemma release_states_row_only:
  assumes "memory_ok base st" "object_id_valid i"
  shows "row_only i (replicate SAMP_RAKNET_OBJECT_MATERIAL_SLOTS None) st (release_object_material_states i st)"
proof -
  obtain t h where "release_object_material_states i st = st\<lparr>object_material_slots :=
      (object_material_slots st)[unat i := replicate SAMP_RAKNET_OBJECT_MATERIAL_SLOTS None],
      object_material_text_bytes := t, heap_live := h\<rparr>"
    using release_states_spec(2)[OF assms] by blast
  then show ?thesis unfolding row_only_def by (intro exI[of _ t]) simp
qed

lemma install_spec:
  assumes "length rep = SAMP_RAKNET_OBJECT_MATERIAL_SLOTS" "unat i < length (object_material_slots st)"
    and "object_material_slots st ! unat i = replicate SAMP_RAKNET_OBJECT_MATERIAL_SLOTS None"
    and "n \<le> SAMP_RAKNET_OBJECT_MATERIAL_SLOTS"
  shows "fold (install_replacement i rep) [0..<n] st = st\<lparr>
    object_material_slots := (object_material_slots st)[unat i :=
      take n rep @ replicate (SAMP_RAKNET_OBJECT_MATERIAL_SLOTS - n) None],
    object_material_text_bytes := object_material_text_bytes st + of_nat (row_bytes (take n rep))\<rparr>"
  using assms(4)
proof (induction n)
  case 0
  have "(object_material_slots st)[unat i := replicate SAMP_RAKNET_OBJECT_MATERIAL_SLOTS None] = object_material_slots st"
    using assms(3) by (metis list_update_id)
  then show ?case by (simp add: row_bytes_def)
next
  case (Suc n)
  let ?N = SAMP_RAKNET_OBJECT_MATERIAL_SLOTS
  have n: "n < length rep" using Suc.prems assms(1) by simp
  have row: "(take n rep @ replicate (?N - n) None)[n := s] = take n rep @ s # replicate (?N - Suc n) None" for s
    using n assms(1) Suc.prems by (simp add: list_update_append Suc_diff_Suc[symmetric] del: replicate.simps)
      (metis Suc_diff_Suc Suc_le_lessD list_update_code(2) replicate_Suc)
  have none: "replicate (?N - n) None = None # replicate (?N - Suc n) None"
    using Suc.prems by (metis Suc_diff_Suc Suc_le_lessD replicate_Suc)
  have bytes: "row_bytes (take (Suc n) rep) = row_bytes (take n rep) + bytes_of (rep ! n)"
    using n by (simp add: row_bytes_def take_Suc_conv_app_nth)
  show ?case
  proof (cases "rep ! n")
    case None
    have "take (Suc n) rep @ replicate (?N - Suc n) None = take n rep @ replicate (?N - n) None"
      unfolding none using None n by (simp add: take_Suc_conv_app_nth)
    moreover have "fold (install_replacement i rep) [0..<Suc n] st = fold (install_replacement i rep) [0..<n] st"
      using None by (simp add: install_replacement_def)
    ultimately show ?thesis using Suc bytes None by simp
  next
    case (Some s)
    then show ?thesis using Suc bytes n row assms(2)
      by (simp add: install_replacement_def set_slot_state_def take_Suc_conv_app_nth Let_def bytes_of_def slot_text_bytes_def)
  qed
qed

lemma bytes_for_object:
  assumes "memory_ok base st" "object_id_valid i"
  shows "unat (object_material_text_bytes_for_object i st) = row_bytes (object_material_slots st ! unat i)"
proof -
  let ?row = "object_material_slots st ! unat i"
  have len: "length ?row = SAMP_RAKNET_OBJECT_MATERIAL_SLOTS" using assms shape_row by (auto simp: memory_ok_def)
  have le: "row_bytes ?row \<le> 8388608"
    using assms slot_bytes_le_total(2)[of "object_material_slots st" i 0]
    by (simp add: memory_ok_def kObjectMaterialTextBudgetBytes_def SAMP_RAKNET_OBJECT_MATERIAL_SLOTS_def)
  have "unat (fold (\<lambda>j bytes. bytes + slot_text_bytes (slot_state i j st)) [0..<n] 0) = row_bytes (take n ?row)"
    if "n \<le> SAMP_RAKNET_OBJECT_MATERIAL_SLOTS" for n
    using that
  proof (induction n)
    case (Suc n)
    have "row_bytes (take (Suc n) ?row) = row_bytes (take n ?row) + bytes_of (?row ! n)"
      using Suc.prems len by (simp add: row_bytes_def take_Suc_conv_app_nth)
    moreover have "row_bytes (take (Suc n) ?row) \<le> row_bytes ?row"
      unfolding row_bytes_def by (subst append_take_drop_id[of "Suc n" ?row, symmetric]) (simp only: map_append sum_list_append le_add1)
    ultimately show ?case using Suc le by (simp add: unat_add_u32 slot_state_def bytes_of_def)
  qed (simp add: row_bytes_def)
  from this[OF order_refl] show ?thesis using assms(2) len by (simp add: object_material_text_bytes_for_object_def)
qed

lemma retained_after_unat:
  "unat old \<le> unat (object_material_text_bytes st) \<Longrightarrow>
    unat (retained_after old st) = unat (object_material_text_bytes st) - unat old"
  by (simp add: retained_after_def word_le_nat_alt unat_sub)

lemma replace_create_spec:
  assumes r: "replace_create_object_material_states env i gen ms st = (ok, st')"
    and mem: "memory_ok base st" and i: "object_id_valid i"
  shows "memory_ok base st' \<and> (if ok then \<exists>row. row_ok gen row \<and> row_only i row st st' else heap_only st st')"
proof (cases "gen = 0 \<or> length ms > SAMP_RAKNET_OBJECT_MATERIAL_SLOTS")
  case True
  then have "ok = False \<and> st' = st" using r by (auto simp: replace_create_object_material_states_def Let_def)
  then show ?thesis using mem by simp
next
  case False
  let ?N = SAMP_RAKNET_OBJECT_MATERIAL_SLOTS and ?slots = "object_material_slots st"
  let ?retained = "retained_after (object_material_text_bytes_for_object i st) st"
  have row: "unat i < length ?slots" "length (?slots ! unat i) = ?N" using mem i shape_row by (auto simp: memory_ok_def)
  have ret: "unat ?retained + row_bytes (?slots ! unat i) = total_bytes ?slots"
    using retained_after_unat[of "object_material_text_bytes_for_object i st" st] bytes_for_object[OF mem i]
      slot_bytes_le_total(2)[of ?slots i 0] mem i by (simp add: memory_ok_def SAMP_RAKNET_OBJECT_MATERIAL_SLOTS_def)
  obtain ok1 rep st1 where loop: "replace_loop env gen ?retained ms (replicate ?N None) 0 st = (ok1, rep, st1)"
    by (metis surj_pair)
  have spec: "heap_only st st1" "row_ok gen rep" "heap_live st1 = heap_live st + row_blocks rep"
    "ok1 \<longrightarrow> unat ?retained + row_bytes rep \<le> unat kObjectMaterialTextBudgetBytes"
    using replace_loop_spec[OF loop row_ok_empty, of "heap_live st"] ret mem by (auto simp: memory_ok_def)
  show ?thesis
  proof (cases ok1)
    case bad: False
    then have "ok = False" "st' = st1\<lparr>heap_live := heap_live st1 - row_blocks rep\<rparr>"
      using r False i loop by (simp_all add: replace_create_object_material_states_def Let_def fold_free_eq)
    moreover have "memory_ok base (st1\<lparr>heap_live := heap_live st1 - row_blocks rep\<rparr>)"
      by (rule memory_ok_heap[OF mem]) (use spec heap_only_trans[OF spec(1) heap_only_free] in auto)
    ultimately show ?thesis using heap_only_trans[OF spec(1) heap_only_free] by simp
  next
    case good: True
    let ?st2 = "release_object_material_states i st1"
    let ?st3 = "?st2\<lparr>object_material_text_bytes := ?retained\<rparr>"
    have len: "length rep = ?N" using spec(2) by (simp add: row_ok_def)
    have mem1: "memory_ok (base + row_blocks rep) st1"
      using mem spec by (simp add: memory_ok_def heap_only_same)
    have slots1: "object_material_slots st1 = ?slots" using spec(1) by (simp add: heap_only_same)
    note rel = release_states_spec(1)[OF mem1 i] release_states_row_only[OF mem1 i]
    have slots2: "object_material_slots ?st2 = ?slots[unat i := replicate ?N None]"
      using row_only_same(1)[OF rel(2)] slots1 by simp
    have "ok = True" "st' = fold (install_replacement i rep) [0..<?N] ?st3"
      using r False i loop good by (simp_all add: replace_create_object_material_states_def Let_def)
    moreover have "fold (install_replacement i rep) [0..<?N] ?st3 = ?st3\<lparr>object_material_slots := ?slots[unat i := rep],
        object_material_text_bytes := ?retained + of_nat (row_bytes rep)\<rparr>"
      using install_spec[OF len, of i ?st3 ?N] slots2 row(1) len by simp
    ultimately have st': "ok = True" "st' = ?st2\<lparr>object_material_slots := ?slots[unat i := rep],
        object_material_text_bytes := ?retained + of_nat (row_bytes rep)\<rparr>" by simp_all
    note upd = total_update[OF row(1), of rep] total_update[OF row(1), of "replicate ?N None"]
    have B: "unat kObjectMaterialTextBudgetBytes = 8388608" by (simp add: kObjectMaterialTextBudgetBytes_def)
    have "unat (?retained + of_nat (row_bytes rep)) = unat ?retained + row_bytes rep"
      using spec(4) good B by (subst unat_add_u32) (simp_all add: unat_of_nat_u32)
    then have "memory_ok base st'"
      using rel(1) upd ret spec(4) good slots2 mem shape_update[of ?slots rep "unat i"] len
      by (simp add: memory_ok_def st'(2))
    moreover have "row_only i rep st1 st'"
      using row_only_set[OF rel(2)] unfolding st'(2) slots1 by blast
    ultimately show ?thesis using st'(1) spec(2) row_only_again[OF spec(1)] by auto
  qed
qed

section \<open>Storing\<close>

lemma release_slot_row_only:
  assumes "memory_ok base st" "object_id_valid i" "j < SAMP_RAKNET_OBJECT_MATERIAL_SLOTS"
  shows "row_only i ((object_material_slots st ! unat i)[j := None]) st (release_object_material_slot_state i j st)"
proof -
  obtain t h where "release_object_material_slot_state i j st = st\<lparr>object_material_slots :=
      (object_material_slots st)[unat i := (object_material_slots st ! unat i)[j := None]],
      object_material_text_bytes := t, heap_live := h\<rparr>"
    using release_slot_spec(1)[OF assms] by blast
  then show ?thesis unfolding row_only_def by (intro exI[of _ t]) simp
qed

lemma text_slots_swap:
  "(x :: object_net)\<lparr>object_material_text_bytes := t, object_material_slots := s\<rparr> =
    x\<lparr>object_material_slots := s, object_material_text_bytes := t\<rparr>"
  by (cases x) simp

lemma store_spec:
  assumes r: "store_object_material_state env i m st = (r, st')" and mem: "memory_ok base st"
  shows "memory_ok base st' \<and> (case r of None \<Rightarrow> heap_only st st'
    | Some n \<Rightarrow> object_id_valid i \<and> object_generations st ! unat i \<noteq> 0 \<and> n \<noteq> 0 \<and>
        unat (om_slot m) < SAMP_RAKNET_OBJECT_MATERIAL_SLOTS \<and>
        (\<exists>s st1 st2. create_object_material_state env m (object_generations st ! unat i) n st1 = (Some s, st2) \<and>
           row_only i ((object_material_slots st ! unat i)[unat (om_slot m) := Some s]) st st'))"
proof (cases "object_id_valid i \<and> unat (om_slot m) < SAMP_RAKNET_OBJECT_MATERIAL_SLOTS \<and> object_generations st ! unat i \<noteq> 0")
  case False
  then have "r = None" "st' = st" using r unfolding store_object_material_state_def Let_def by (auto split: if_splits)
  then show ?thesis using mem by simp
next
  case True
  let ?j = "unat (om_slot m)" and ?gen = "object_generations st ! unat i" and ?slots = "object_material_slots st"
  let ?row = "?slots ! unat i" and ?rev = "bump_object_material_counter (object_material_revision_seq st)"
  let ?old = "?row ! ?j"
  let ?retained = "case ?old of None \<Rightarrow> object_material_text_bytes st | Some s \<Rightarrow> retained_after (ms_textBytes s) st"
  have row: "unat i < length ?slots" "length ?row = SAMP_RAKNET_OBJECT_MATERIAL_SLOTS" using mem True shape_row by (auto simp: memory_ok_def)
  have old: "bytes_of ?old \<le> unat (object_material_text_bytes st)"
    using slot_bytes_le_total[of ?slots i ?j] mem True by (simp add: memory_ok_def)
  have ret: "unat ?retained + bytes_of ?old = total_bytes ?slots"
  proof (cases ?old)
    case (Some s)
    then show ?thesis using retained_after_unat[of "ms_textBytes s" st] old mem
      by (simp add: memory_ok_def bytes_of_def slot_text_bytes_def)
  qed (use mem in \<open>simp add: memory_ok_def\<close>)
  obtain c st2 where c: "create_object_material_state env m ?gen ?rev (st\<lparr>object_material_revision_seq := ?rev\<rparr>) = (c, st2)"
    by (metis surj_pair)
  have st2: "heap_only st st2" using heap_only_trans[OF heap_only_revision create_state_heap_only[OF c]] .
  have live2: "heap_live st2 = heap_live st + blocks_of c"
    using arg_cong[OF create_state_spec[OF c, THEN conjunct1], of heap_live] by simp
  show ?thesis
  proof (cases c)
    case None
    then have "r = None" "st' = st2" using r c True by (simp_all add: store_object_material_state_def slot_state_def Let_def)
    then show ?thesis using st2 memory_ok_heap[OF mem st2] live2 None by simp
  next
    case (Some s)
    have s: "material_state_ok s" "ms_textBytes s \<le> 2049" "?rev \<noteq> 0"
      using create_state_spec[OF c] Some
      by (auto simp: bytes_of_def slot_text_bytes_def word_le_nat_alt bump_object_material_counter_def)
    have size: "unat (ms_textBytes s) \<le> 2049" using s(2) by (simp add: word_le_nat_alt)
    let ?full = "?retained > kObjectMaterialTextBudgetBytes \<or> ms_textBytes s > kObjectMaterialTextBudgetBytes - ?retained"
    show ?thesis
    proof (cases ?full)
      case full: True
      then have "r = None" "st' = free_object_material_state (Some s) st2"
        using r c True Some by (simp_all add: store_object_material_state_def slot_state_def Let_def)
      moreover have "memory_ok base (free_object_material_state (Some s) st2)"
        by (rule memory_ok_heap[OF mem]) (use heap_only_trans[OF st2] live2 Some in \<open>simp_all add: free_state_eq\<close>)
      moreover have "heap_only st (free_object_material_state (Some s) st2)"
        using heap_only_trans[OF st2] by (simp add: free_state_eq)
      ultimately show ?thesis by simp
    next
      case fits: False
      let ?st3 = "release_object_material_slot_state i ?j st2"
      have mem2: "memory_ok (base + blocks_of (Some s)) st2"
        using mem st2 live2 Some by (simp add: memory_ok_def heap_only_same)
      have slots2: "object_material_slots st2 = ?slots" using st2 by (simp add: heap_only_same)
      note rel = release_slot_spec(2)[OF mem2, of i ?j] release_slot_row_only[OF mem2, of i ?j]
      have slots3: "object_material_slots ?st3 = ?slots[unat i := ?row[?j := None]]"
        using row_only_same(1)[OF rel(2)] slots2 True by simp
      have "r = Some ?rev" "st' = ?st3\<lparr>object_material_slots := ?slots[unat i := ?row[?j := Some s]],
          object_material_text_bytes := ?retained + ms_textBytes s\<rparr>"
        using r c True Some fits row slots3
        by (simp_all add: store_object_material_state_def slot_state_def set_slot_state_def Let_def text_slots_swap)
      note st' = this
      note upd = total_update[OF row(1), of "?row[?j := Some s]"] total_update[OF row(1), of "?row[?j := None]"]
        row_update[of ?j ?row "Some s"] row_update[of ?j ?row None]
      have B: "unat kObjectMaterialTextBudgetBytes = 8388608" by (simp add: kObjectMaterialTextBudgetBytes_def)
      have "\<not> (?retained > kObjectMaterialTextBudgetBytes \<or> ms_textBytes s + 0 > kObjectMaterialTextBudgetBytes - ?retained)"
        using fits by simp
      from budget_check(1)[OF this] size B
      have sum: "unat ?retained + unat (ms_textBytes s) \<le> unat kObjectMaterialTextBudgetBytes" by simp
      then have "unat (?retained + ms_textBytes s) = unat ?retained + unat (ms_textBytes s)"
        using B by (intro unat_add_u32) simp
      then have "memory_ok base st'"
        using rel(1) upd ret sum slots3 mem row True shape_update[of ?slots "?row[?j := Some s]" "unat i"]
        by (simp add: memory_ok_def st'(2) bytes_of_def slot_text_bytes_def)
      moreover have "row_only i (?row[?j := Some s]) st2 st'"
        using row_only_set[OF rel(2)] True unfolding st'(2) slots2 by blast
      ultimately show ?thesis using st'(1) True s(3) c Some row_only_again[OF st2] by auto
    qed
  qed
qed

section \<open>The invariant\<close>

text \<open>
  Text bytes and live blocks are accounted for, and stay within the budget; an object is alive exactly
  while it has a generation; the create event of a live object is its own; every material state is
  well-formed, in its own slot, and belongs to the object's current generation.
\<close>

definition lifecycle_ok :: "object_net \<Rightarrow> bool" where
  "lifecycle_ok st \<longleftrightarrow> length (object_generations st) = SAMP_RAKNET_MAX_OBJECTS \<and>
     length (object_alive st) = SAMP_RAKNET_MAX_OBJECTS \<and> length (object_create_states st) = SAMP_RAKNET_MAX_OBJECTS \<and>
     (\<forall>i. object_id_valid i \<longrightarrow>
        (object_alive st ! unat i = 0 \<longleftrightarrow> object_generations st ! unat i = 0) \<and>
        (object_alive st ! unat i \<noteq> 0 \<longrightarrow>
           oe_action (object_create_states st ! unat i) = SAMP_RAKNET_OBJECT_ACTION_CREATE \<and>
           oe_object_id (object_create_states st ! unat i) = i \<and>
           oe_object_generation (object_create_states st ! unat i) = object_generations st ! unat i))"

definition rows_ok :: "object_net \<Rightarrow> bool" where
  "rows_ok st \<longleftrightarrow> (\<forall>i. object_id_valid i \<longrightarrow> row_ok (object_generations st ! unat i) (object_material_slots st ! unat i))"

definition objects_ok :: "nat \<Rightarrow> object_net \<Rightarrow> bool" where
  "objects_ok base st \<longleftrightarrow> memory_ok base st \<and> lifecycle_ok st \<and> rows_ok st \<and>
     length (object_events st) = SAMP_RAKNET_OBJECT_EVENT_RING"

lemma unat_u16_eq: "(unat (i :: u16) = unat j) = (i = j)"
  by (rule word_unat_eq_iff[symmetric])

lemma objects_ok_queue: "objects_ok base st \<Longrightarrow> queue_object_event a st = (e, st') \<Longrightarrow> objects_ok base st'"
  by (auto simp: objects_ok_def memory_ok_def lifecycle_ok_def rows_ok_def queue_object_event_def Let_def split: prod.splits)

lemma objects_ok_queue_snd: "objects_ok base st \<Longrightarrow> objects_ok base (snd (queue_object_event a st))"
  using objects_ok_queue by (metis surj_pair snd_conv)

lemma objects_ok_heap:
  assumes "objects_ok base st" "heap_only st st'" "memory_ok base' st'"
  shows "objects_ok base' st'"
  using assms heap_only_same[OF assms(2)] by (simp add: objects_ok_def lifecycle_ok_def rows_ok_def)

lemma objects_ok_row:
  assumes ok: "objects_ok base st" and row: "row_only i row st st'" "row_ok (object_generations st ! unat i) row"
    and mem: "memory_ok base' st'" and i: "object_id_valid i"
  shows "objects_ok base' st'"
proof -
  have "unat i < length (object_material_slots st)" using ok i shape_row by (auto simp: objects_ok_def memory_ok_def)
  then have "rows_ok st'"
    using ok row(2) by (auto simp: objects_ok_def rows_ok_def row_only_same[OF row(1)] nth_list_update unat_u16_eq)
  then show ?thesis using ok mem by (simp add: objects_ok_def lifecycle_ok_def row_only_same[OF row(1)])
qed

lemma objects_ok_alloc:
  assumes "objects_ok base st" "heap_alloc env st = (ok, st')"
  shows "objects_ok (base + (if ok then 1 else 0)) st'"
proof (rule objects_ok_heap[OF assms(1)])
  have st': "st' = st\<lparr>heap_calls := heap_calls st + 1, heap_live := heap_live st + (if ok then 1 else 0)\<rparr>"
    using assms(2) by (auto simp: heap_alloc_def Let_def)
  show "heap_only st st'" unfolding st' by (rule heap_only_alloc)
  show "memory_ok (base + (if ok then 1 else 0)) st'"
    using assms(1) unfolding objects_ok_def memory_ok_def st' by simp
qed

lemma objects_ok_free: "objects_ok (base + n) st \<Longrightarrow> objects_ok base (heap_free n st)"
  by (rule objects_ok_heap[of "base + n" st]) (simp_all add: heap_free_def objects_ok_def memory_ok_def)

lemma replace_from_scratch_spec:
  assumes "replace_from_scratch env i gen sc st = (ok, st')" "memory_ok base st" "object_id_valid i"
  shows "memory_ok base st' \<and> (if ok then \<exists>row. row_ok gen row \<and> row_only i row st st' else heap_only st st')"
  using assms replace_create_spec[of env i gen _ st ok st' base]
  by (auto simp: replace_from_scratch_def split: scratch.splits)

text \<open>What \<open>store_created_object\<close> has done when it queues the event: the new row of material states is in place.\<close>

lemma created_object_form:
  assumes ok: "objects_ok base st" and i: "object_id_valid i"
  shows "\<exists>row st2. row_ok (bump_object_material_counter (object_generation_seq st)) row \<and>
    row_only i row (st\<lparr>object_generation_seq := bump_object_material_counter (object_generation_seq st)\<rparr>) st2 \<and>
    memory_ok base st2 \<and>
    store_created_object env i sc body st =
      (case queue_object_event (SAMP_RAKNET_OBJECT_ACTION_CREATE, i, body) (st2\<lparr>object_generations :=
         (object_generations st2)[unat i := bump_object_material_counter (object_generation_seq st)]\<rparr>) of
       (e, st) \<Rightarrow> st\<lparr>object_alive := (object_alive st)[unat i := 1],
                      object_create_states := (object_create_states st)[unat i := e]\<rparr>)"
proof -
  let ?gen = "bump_object_material_counter (object_generation_seq st)"
  let ?st = "st\<lparr>object_generation_seq := ?gen\<rparr>"
  have mem: "memory_ok base ?st" using ok by (simp add: objects_ok_def memory_ok_def)
  obtain kept st1 where r: "replace_from_scratch env i ?gen sc ?st = (kept, st1)" by (metis surj_pair)
  define st2 where "st2 = (if kept then st1 else release_object_material_states i st1)"
  note spec = replace_from_scratch_spec[OF r mem i]
  have "\<exists>row. row_ok ?gen row \<and> row_only i row ?st st2 \<and> memory_ok base st2"
  proof (cases kept)
    case True
    then show ?thesis using spec by (auto simp: st2_def)
  next
    case False
    then have "row_only i (replicate SAMP_RAKNET_OBJECT_MATERIAL_SLOTS None) st1 st2" "memory_ok base st2" "heap_only ?st st1"
      using spec release_states_row_only[of base st1 i] release_states_spec(1)[of base st1 i] i by (simp_all add: st2_def)
    then show ?thesis using row_only_again row_ok_empty by blast
  qed
  then obtain row where "row_ok ?gen row" "row_only i row ?st st2" "memory_ok base st2" by blast
  then show ?thesis using r
    by (intro exI[of _ row] exI[of _ st2]) (auto simp: store_created_object_def Let_def st2_def split: prod.splits bool.splits)
qed

lemma created_object_ok:
  assumes ok: "objects_ok base st" and i: "object_id_valid i"
  shows "objects_ok base (store_created_object env i sc body st)"
proof -
  let ?gen = "bump_object_material_counter (object_generation_seq st)"
  let ?st = "st\<lparr>object_generation_seq := ?gen\<rparr>"
  have gen: "?gen \<noteq> 0" by (simp add: bump_object_material_counter_def)
  obtain row st2 where row: "row_ok ?gen row" "row_only i row ?st st2" "memory_ok base st2"
    and form: "store_created_object env i sc body st =
      (case queue_object_event (SAMP_RAKNET_OBJECT_ACTION_CREATE, i, body)
          (st2\<lparr>object_generations := (object_generations st2)[unat i := ?gen]\<rparr>) of
       (e, st) \<Rightarrow> st\<lparr>object_alive := (object_alive st)[unat i := 1],
                      object_create_states := (object_create_states st)[unat i := e]\<rparr>)"
    using created_object_form[OF ok i] by blast
  let ?st3 = "st2\<lparr>object_generations := (object_generations st2)[unat i := ?gen]\<rparr>"
  obtain e st4 where q: "queue_object_event (SAMP_RAKNET_OBJECT_ACTION_CREATE, i, body) ?st3 = (e, st4)" by (metis surj_pair)
  have st': "store_created_object env i sc body st = st4\<lparr>object_alive := (object_alive st4)[unat i := 1],
      object_create_states := (object_create_states st4)[unat i := e]\<rparr>"
    using form q by simp
  note same = row_only_same[OF row(2)]
  have len: "unat i < length (object_generations st)" "unat i < length (object_alive st)"
    "unat i < length (object_create_states st)" "unat i < length (object_material_slots st)"
    using ok i shape_row by (auto simp: objects_ok_def lifecycle_ok_def object_id_valid_def memory_ok_def)
  have e: "oe_action e = SAMP_RAKNET_OBJECT_ACTION_CREATE" "oe_object_id e = i" "oe_object_generation e = ?gen"
    and st4: "object_alive st4 = object_alive st" "object_create_states st4 = object_create_states st"
      "object_generations st4 = (object_generations st)[unat i := ?gen]"
      "object_material_slots st4 = (object_material_slots st)[unat i := row]"
      "length (object_events st4) = length (object_events st)"
    using q i len same by (auto simp: queue_object_event_def Let_def)
  have "memory_ok base st4" using row(3) q by (auto simp: memory_ok_def queue_object_event_def Let_def)
  then show ?thesis
    using ok e st4 len gen row(1)
    by (auto simp: st' objects_ok_def memory_ok_def lifecycle_ok_def rows_ok_def nth_list_update unat_u16_eq)
qed

lemma destroyed_object_ok:
  assumes ok: "objects_ok base st" and i: "object_id_valid i"
  shows "objects_ok base (destroy_object i st)"
proof -
  let ?st1 = "snd (queue_object_event (SAMP_RAKNET_OBJECT_ACTION_DESTROY, i, zero_object_event) st)"
  let ?st2 = "release_object_material_states i ?st1"
  have ok1: "objects_ok base ?st1" using ok by (rule objects_ok_queue_snd)
  then have mem: "memory_ok base ?st1" by (simp add: objects_ok_def)
  note rel = release_states_row_only[OF mem i] release_states_spec(1)[OF mem i]
  have len: "unat i < length (object_generations ?st1)" "unat i < length (object_alive ?st1)"
    "unat i < length (object_create_states ?st1)" "unat i < length (object_material_slots ?st1)"
    using ok1 i shape_row by (auto simp: objects_ok_def lifecycle_ok_def object_id_valid_def memory_ok_def)
  show ?thesis
    using ok1 len rel(2) row_only_same[OF rel(1)]
    by (auto simp: destroy_object_def Let_def objects_ok_def memory_ok_def lifecycle_ok_def rows_ok_def nth_list_update unat_u16_eq)
qed

section \<open>Every object RPC keeps it\<close>

lemma stored_material_ok:
  assumes ok: "objects_ok base st" and r: "store_object_material_state env i m st = (r, st')"
  shows "objects_ok base st'"
proof -
  have mem: "memory_ok base st" using ok by (simp add: objects_ok_def)
  note spec = store_spec[OF r mem]
  show ?thesis
  proof (cases r)
    case None
    then show ?thesis using spec objects_ok_heap[OF ok] by simp
  next
    case (Some n)
    then obtain s st1 st2 where i: "object_id_valid i"
      and c: "create_object_material_state env m (object_generations st ! unat i) n st1 = (Some s, st2)"
      and row: "row_only i ((object_material_slots st ! unat i)[unat (om_slot m) := Some s]) st st'"
      using spec by auto
    have "entry_ok (object_generations st ! unat i) (unat (om_slot m)) (Some s)"
      using create_state_spec[OF c] by (simp add: entry_ok_def)
    moreover have "row_ok (object_generations st ! unat i) (object_material_slots st ! unat i)"
      using ok i by (simp add: objects_ok_def rows_ok_def)
    ultimately show ?thesis using objects_ok_row[OF ok row _ _ i] spec row_ok_update by blast
  qed
qed

lemma objects_ok_visual: "objects_ok base st \<Longrightarrow> objects_ok base (st\<lparr>object_visual := v\<rparr>)"
  by (simp add: objects_ok_def memory_ok_def lifecycle_ok_def rows_ok_def)

lemma set_material_ok: "objects_ok base st \<Longrightarrow> objects_ok base (snd (set_object_material_event env i m st))"
  using stored_material_ok[of base st env i m]
  by (auto simp: set_object_material_event_def queue_object_material_event_def split: prod.splits option.splits
      intro: objects_ok_queue_snd objects_ok_visual)

definition scratch_blocks :: "scratch \<Rightarrow> nat" where
  "scratch_blocks sc = (case sc of Decoded _ \<Rightarrow> 1 | _ \<Rightarrow> 0)"

lemma create_materials_ok:
  assumes ok: "objects_ok base st" and d: "decode_create_materials B env tail n st = (sc, st')"
  shows "objects_ok (base + (case sc of None \<Rightarrow> 0 | Some sc \<Rightarrow> scratch_blocks sc)) st'"
proof (cases "n = 0")
  case True
  then show ?thesis using assms by (auto simp: decode_create_materials_def scratch_blocks_def)
next
  case False
  obtain got st1 where a: "heap_alloc env st = (got, st1)" by (metis surj_pair)
  note ok1 = objects_ok_alloc[OF ok a]
  have freed: "got \<Longrightarrow> objects_ok base (heap_free 1 st1)" using ok1 objects_ok_free[of base 1 st1] by simp
  show ?thesis
    using d ok1 a False freed
    by (auto simp: decode_create_materials_def scratch_blocks_def split: bool.splits option.splits)
qed

lemma free_scratch_ok: "objects_ok (base + scratch_blocks sc) st \<Longrightarrow> objects_ok base (free_scratch sc st)"
  using objects_ok_free[of base 1 st] by (auto simp: free_scratch_def scratch_blocks_def split: scratch.splits)

lemma finish_create_ok:
  assumes ok: "objects_ok base st"
  shows "objects_ok base (snd (finish_object_create B env tail i count plausible body st))"
proof -
  obtain sc st1 where d: "decode_create_materials B env tail (unat count) st = (sc, st1)" by (metis surj_pair)
  note ok1 = create_materials_ok[OF ok d]
  show ?thesis
  proof (cases sc)
    case None
    then show ?thesis using ok ok1 d by (simp add: finish_object_create_def)
  next
    case (Some s)
    then have ok1: "objects_ok (base + scratch_blocks s) st1" using ok1 by simp
    then show ?thesis
      using ok d Some free_scratch_ok[OF ok1] free_scratch_ok[OF created_object_ok[OF ok1]]
      by (auto simp: finish_object_create_def)
  qed
qed

lemma create_payload_ok:
  assumes ok: "objects_ok base st" and d: "decode_object_create_payload B env data st = Some (r, st')"
  shows "objects_ok base st'"
proof -
  have "st' = st \<or> (\<exists>tail i count p body. st' = snd (finish_object_create B env tail i count p body st))"
    using d by (auto simp: decode_object_create_payload_def bind_Some_iff Let_def split: if_splits option.splits)
      (metis snd_conv)+
  then show ?thesis using ok finish_create_ok[OF ok] by blast
qed

lemma observe_object_rpc_ok:
  assumes ok: "objects_ok base st" and d: "observe_object_rpc B env rpc_id data st = Some (r, st')"
  shows "objects_ok base st'"
proof -
  have material: "decode_set_object_material_payload B env data st = Some (r, st') \<Longrightarrow> objects_ok base st'"
    using ok set_material_ok[OF ok]
    by (auto simp: decode_set_object_material_payload_def bind_Some_iff split: if_splits option.splits) (metis snd_conv)
  have destroy: "decode_object_destroy_payload data st = Some (r, st') \<Longrightarrow> objects_ok base st'"
    using ok destroyed_object_ok[OF ok]
    by (auto simp: decode_object_destroy_payload_def bind_Some_iff split: if_splits)
  have events: "objects_ok base st'"
    if "decode_object_set_pos_payload data st = Some (r, st') \<or> decode_object_set_rot_payload data st = Some (r, st') \<or>
      decode_object_attach_player_payload data st = Some (r, st') \<or> decode_object_move_payload data st = Some (r, st') \<or>
      decode_object_stop_payload data st = Some (r, st')"
    using that ok objects_ok_queue_snd[OF ok]
    by (auto simp: decode_object_set_pos_payload_def decode_object_set_rot_payload_def decode_object_attach_player_payload_def
        decode_object_move_payload_def decode_object_stop_payload_def bind_Some_iff split: if_splits)
  show ?thesis
    using d ok create_payload_ok[OF ok] material destroy events by (auto simp: observe_object_rpc_def split: if_splits)
qed

section \<open>Reset\<close>

lemma release_all_fold:
  assumes "memory_ok base st" "n \<le> SAMP_RAKNET_MAX_OBJECTS"
  shows "memory_ok base (fold (\<lambda>i. release_object_material_states (of_nat i)) [0..<n] st) \<and>
    (\<forall>i<n. object_material_slots (fold (\<lambda>i. release_object_material_states (of_nat i)) [0..<n] st) ! i =
      replicate SAMP_RAKNET_OBJECT_MATERIAL_SLOTS None)"
  using assms(2)
proof (induction n)
  case 0
  then show ?case using assms(1) by simp
next
  case (Suc n)
  let ?st = "fold (\<lambda>i. release_object_material_states (of_nat i)) [0..<n] st"
  have ih: "memory_ok base ?st" "\<forall>i<n. object_material_slots ?st ! i = replicate SAMP_RAKNET_OBJECT_MATERIAL_SLOTS None"
    using Suc by auto
  have n: "unat (of_nat n :: u16) = n" "object_id_valid (of_nat n)"
    using Suc.prems by (simp_all add: unat_of_nat take_bit_nat_eq_self object_id_valid_def object_consts)
  note rel = release_states_row_only[OF ih(1) n(2)] release_states_spec(1)[OF ih(1) n(2)]
  have "length (object_material_slots ?st) = SAMP_RAKNET_MAX_OBJECTS" using ih(1) by (simp add: memory_ok_def shape_ok_def)
  then show ?case
    using rel(2) ih(2) row_only_same(1)[OF rel(1)] n(1) Suc.prems by (auto simp: less_Suc_eq nth_list_update)
qed

lemma total_blocks_none:
  assumes "\<forall>i<length slots. slots ! i = replicate k None"
  shows "total_blocks slots = 0" "total_bytes slots = 0"
proof -
  have "slots = replicate (length slots) (replicate k None)" using assms by (intro nth_equalityI) simp_all
  then show "total_blocks slots = 0" "total_bytes slots = 0" by (metis empty_rows(3), metis empty_rows(4))
qed

lemma reset_object_net_ok:
  assumes "memory_ok base st"
  shows "objects_ok base (reset_object_net st)" "heap_live (reset_object_net st) = base"
proof -
  let ?st = "fold (\<lambda>i. release_object_material_states (of_nat i)) [0..<SAMP_RAKNET_MAX_OBJECTS] st"
  have rel: "memory_ok base ?st" "\<forall>i<SAMP_RAKNET_MAX_OBJECTS. object_material_slots ?st ! i =
      replicate SAMP_RAKNET_OBJECT_MATERIAL_SLOTS None"
    using release_all_fold[OF assms order_refl] by blast+
  then have "\<forall>i<length (object_material_slots ?st). object_material_slots ?st ! i = replicate SAMP_RAKNET_OBJECT_MATERIAL_SLOTS None"
    by (simp add: memory_ok_def shape_ok_def)
  from total_blocks_none(1)[OF this] have "heap_live ?st = base" using rel(1) by (simp add: memory_ok_def)
  then show "heap_live (reset_object_net st) = base"
    by (simp add: reset_object_net_def release_all_object_material_states_def)
  then show "objects_ok base (reset_object_net st)"
    by (simp add: objects_ok_def memory_ok_def lifecycle_ok_def rows_ok_def reset_object_net_def
      release_all_object_material_states_def shape_ok_def object_id_valid_def)
qed

section \<open>Every read is inside the payload\<close>

lemma read_attachment_total: "\<exists>a. read_attachment data vehicle parent = Some a"
  using read_vec3_in[of 39 data] read_vec3_in[of 51 data] read_byte_in[of 63 data]
  by (cases "length data < 65") (auto simp: read_attachment_def)

lemma read_attachment_length:
  "read_attachment data vehicle parent = Some (Some a) \<Longrightarrow> vehicle \<noteq> 0xFFFF \<or> parent \<noteq> 0xFFFF \<Longrightarrow> length data \<ge> 65"
  by (auto simp: read_attachment_def split: if_splits)

lemma create_payload_total: "\<exists>r. decode_object_create_payload B env data st = Some r"
proof (cases "length data < 40")
  case True
  then show ?thesis by (auto simp: decode_object_create_payload_def)
next
  case False
  obtain i m pos rot draw v p where reads: "read_le16 data 0 = Some i" "read_le_i32 data 2 = Some m" "read_vec3 data 6 = Some pos"
    "read_vec3 data 18 = Some rot" "read_le_float data 30 = Some draw" "read_le16 data 35 = Some v" "read_le16 data 37 = Some p"
    using False read_le16_in[of 0 data] read_le_i32_in[of 2 data] read_vec3_in[of 6 data] read_vec3_in[of 18 data]
      read_le_float_in[of 30 data] read_le16_in[of 35 data] read_le16_in[of 37 data] by auto
  obtain a where a: "read_attachment data v p = Some a" using read_attachment_total by blast
  have "\<exists>c. read_byte data (if v \<noteq> 0xFFFF \<or> p \<noteq> 0xFFFF then 64 else 39) = Some c" if "a = Some b" for b
    using False a that read_attachment_length[of data v p b] by (auto intro!: read_byte_in)
  then show ?thesis using False reads a by (cases a) (auto simp: decode_object_create_payload_def Let_def)
qed

lemma observe_object_rpc_total: "\<exists>r. observe_object_rpc B env rpc_id data st = Some r"
proof -
  have "\<exists>r. decode_object_set_pos_payload data st = Some r" "\<exists>r. decode_object_set_rot_payload data st = Some r"
    using read_le16_in[of 0 data] read_vec3_in[of 2 data]
    by (cases "length data < 14"; auto simp: decode_object_set_pos_payload_def decode_object_set_rot_payload_def)+
  moreover have "\<exists>r. decode_object_destroy_payload data st = Some r" "\<exists>r. decode_object_stop_payload data st = Some r"
    using read_le16_in[of 0 data]
    by (cases "length data < 2"; auto simp: decode_object_destroy_payload_def decode_object_stop_payload_def)+
  moreover have "\<exists>r. decode_object_attach_player_payload data st = Some r"
    using read_le16_in[of 0 data] read_le16_in[of 2 data] read_vec3_in[of 4 data] read_vec3_in[of 16 data]
    by (cases "length data < 28") (auto simp: decode_object_attach_player_payload_def)
  moreover have "\<exists>r. decode_object_move_payload data st = Some r"
    using read_le16_in[of 0 data] read_vec3_in[of 2 data] read_vec3_in[of 14 data] read_le_float_in[of 26 data] read_vec3_in[of 30 data]
    by (cases "length data < 42") (auto simp: decode_object_move_payload_def)
  moreover have "\<exists>r. decode_set_object_material_payload B env data st = Some r"
    using read_le16_in[of 0 data]
    by (cases "length data < 4") (auto simp: decode_set_object_material_payload_def split: option.splits)
  ultimately show ?thesis using create_payload_total[of B env data st] by (auto simp: observe_object_rpc_def)
qed
section \<open>A material comes back as it was sent\<close>

definition wire_material :: "samp_raknet_object_material \<Rightarrow> bool" where
  "wire_material m \<longleftrightarrow>
     (if om_type m = SAMP_RAKNET_OBJECT_MATERIAL_TYPE_DEFAULT
      then length (om_txd m) < 256 \<and> length (om_texture m) < 256 \<and> om_font m = [] \<and> om_text m = [] \<and>
        om_material_size m = 0 \<and> om_font_size m = 0 \<and> om_bold m = 0 \<and> om_alignment m = 0 \<and> om_background_color m = 0
      else om_type m = SAMP_RAKNET_OBJECT_MATERIAL_TYPE_TEXT \<and> length (om_font m) < 256 \<and> om_txd m = [] \<and>
        om_texture m = [] \<and> length (om_text m) < 2049 \<and> CHR 0x00 \<notin> set (om_text m))"

lemma bytes_string_length: "length (bytes_string (take k xs)) \<le> k"
proof -
  have "length (bytes_string ys) \<le> length ys" for ys
    using length_takeWhile_le[of "\<lambda>c. c \<noteq> CHR 0x00" "map (\<lambda>b. char_of (unat b)) ys"] by (simp add: bytes_string_def)
  from this[of "take k xs"] show ?thesis by simp
qed

lemma dynstr8_length:
  assumes "read_object_material_dynstr8 B 256 s = Some (t, s')"
  shows "length t < 256"
proof -
  obtain len s1 bs where "t = bytes_string (take (if unat (len :: u8) \<ge> 256 then 256 - 1 else unat len) bs)"
    using assms by (auto simp: read_object_material_dynstr8_def Let_def bind_Some_iff)
  then have "length t \<le> (if unat len \<ge> 256 then 256 - 1 else unat len)" by (simp only: bytes_string_length)
  then show ?thesis using unat_u8_lt[of len] by (simp split: if_splits)
qed

lemma bs_string_ok: "bitstream_ok B \<Longrightarrow> bs_string B n s = Some (t, s') \<Longrightarrow> length t < n \<and> CHR 0x00 \<notin> set t"
  unfolding bitstream_ok_def by blast

lemma decoded_material_wire:
  assumes "bitstream_ok B" "decode_object_material_record B src s = Some (m, s')"
  shows "wire_material m"
proof -
  have default: "wire_material m" if "decode_default_material B src m0 s1 = Some (m, s')"
    "om_type m0 = 1" "om_font m0 = []" "om_text m0 = []" "om_material_size m0 = 0" "om_font_size m0 = 0"
    "om_bold m0 = 0" "om_alignment m0 = 0" "om_background_color m0 = 0" for m0 s1
    using that by (auto simp: decode_default_material_def bind_Some_iff wire_material_def object_consts dest!: dynstr8_length)
  have txt_case: "wire_material m" if "decode_text_material B m0 s1 = Some (m, s')"
    "om_type m0 = 2" "om_txd m0 = []" "om_texture m0 = []" for m0 s1
    using that
    by (auto simp: decode_text_material_def bind_Some_iff wire_material_def object_consts
        dest!: dynstr8_length bs_string_ok[OF assms(1)])
  show ?thesis
    using assms(2) default txt_case
    by (auto simp: decode_object_material_record_def bind_Some_iff Let_def zero_material_def object_consts split: if_splits)
qed

lemma material_text_length_all:
  "CHR 0x00 \<notin> set cs \<Longrightarrow> n + length cs \<le> 2048 \<Longrightarrow> material_text_length n cs = n + length cs"
  by (induction cs arbitrary: n) (auto simp: object_consts)

lemma created_state_material:
  assumes "create_object_material_state env m gen n st = (Some s, st')" "wire_material m"
  shows "material_of_state s = m"
proof -
  have txt_case: "unat (object_material_text_size (om_text m)) = length (om_text m) + 1" "length (om_text m) < 2049"
    using assms(2) material_text_length_all[of "om_text m" 0] text_size_bounds(1)[of "om_text m"]
    by (auto simp: wire_material_def split: if_splits)
  show ?thesis
    using assms txt_case
    by (cases m) (auto simp: create_object_material_state_def heap_alloc_def Let_def material_of_state_def
        zero_material_def copy_text_def copy_object_material_name_def wire_material_def object_consts split: if_splits prod.splits)
qed

section \<open>One event for each accepted RPC\<close>

interpretation object_ring: event_ring SAMP_RAKNET_OBJECT_EVENT_RING oe_seq queue_object_event object_event_seq object_events
  by unfold_locales (auto simp: queue_object_event_def Let_def object_consts split: prod.splits)

definition events_same :: "object_net \<Rightarrow> object_net \<Rightarrow> bool" where
  "events_same st st' \<longleftrightarrow> object_event_seq st' = object_event_seq st \<and> object_events st' = object_events st"

definition one_event :: "object_net \<Rightarrow> object_net \<Rightarrow> bool" where
  "one_event st st' \<longleftrightarrow> (\<exists>a st1 e st2. events_same st st1 \<and> queue_object_event a st1 = (e, st2) \<and> events_same st2 st')"

lemma events_same_refl [simp]: "events_same st st"
  by (simp add: events_same_def)

lemma one_event_queue: "events_same st st1 \<Longrightarrow> events_same (snd (queue_object_event a st1)) st' \<Longrightarrow> one_event st st'"
  unfolding one_event_def by (metis prod.collapse)

lemma one_event_holds:
  assumes "ring_holds SAMP_RAKNET_OBJECT_EVENT_RING oe_seq h (object_event_seq st) (object_events st)"
    and "one_event st st'" "length h + 1 < 4294967296"
  shows "\<exists>e. ring_holds SAMP_RAKNET_OBJECT_EVENT_RING oe_seq (h @ [e]) (object_event_seq st') (object_events st')"
proof -
  obtain a st1 e st2 where q: "events_same st st1" "queue_object_event a st1 = (e, st2)" "events_same st2 st'"
    using assms(2) unfolding one_event_def by blast
  then show ?thesis using object_ring.queue_holds[OF _ q(2) assms(3)] assms(1) by (auto simp: events_same_def)
qed

lemma events_same_row: "row_only i row st st' \<Longrightarrow> events_same st st'"
  by (simp add: events_same_def row_only_same)

lemma events_same_heap: "heap_only st st' \<Longrightarrow> events_same st st'"
  by (simp add: events_same_def heap_only_same)

lemma one_event_created:
  assumes ok: "objects_ok base st" and i: "object_id_valid i"
  shows "one_event st (store_created_object env i sc body st)"
proof -
  let ?gen = "bump_object_material_counter (object_generation_seq st)"
  obtain row st2 where row: "row_only i row (st\<lparr>object_generation_seq := ?gen\<rparr>) st2"
    and form: "store_created_object env i sc body st =
      (case queue_object_event (SAMP_RAKNET_OBJECT_ACTION_CREATE, i, body)
          (st2\<lparr>object_generations := (object_generations st2)[unat i := ?gen]\<rparr>) of
       (e, st) \<Rightarrow> st\<lparr>object_alive := (object_alive st)[unat i := 1],
                      object_create_states := (object_create_states st)[unat i := e]\<rparr>)"
    using created_object_form[OF ok i] by blast
  have "events_same st (st2\<lparr>object_generations := g\<rparr>)" for g
    using events_same_row[OF row] by (simp add: events_same_def)
  note queued = one_event_queue[OF this[of "(object_generations st2)[unat i := ?gen]"],
      of "(SAMP_RAKNET_OBJECT_ACTION_CREATE, i, body)"]
  show ?thesis unfolding form
    by (cases "queue_object_event (SAMP_RAKNET_OBJECT_ACTION_CREATE, i, body)
          (st2\<lparr>object_generations := (object_generations st2)[unat i := ?gen]\<rparr>)")
      (use queued in \<open>simp add: events_same_def\<close>)
qed

lemma created_object_generation:
  assumes ok: "objects_ok base st" and i: "object_id_valid i"
  shows "object_generations (store_created_object env i sc body st) ! unat i \<noteq> 0"
proof -
  let ?gen = "bump_object_material_counter (object_generation_seq st)"
  obtain row st2 where row: "row_only i row (st\<lparr>object_generation_seq := ?gen\<rparr>) st2"
    and form: "store_created_object env i sc body st =
      (case queue_object_event (SAMP_RAKNET_OBJECT_ACTION_CREATE, i, body)
          (st2\<lparr>object_generations := (object_generations st2)[unat i := ?gen]\<rparr>) of
       (e, st) \<Rightarrow> st\<lparr>object_alive := (object_alive st)[unat i := 1],
                      object_create_states := (object_create_states st)[unat i := e]\<rparr>)"
    using created_object_form[OF ok i] by blast
  have "unat i < length (object_generations st2)"
    using ok i row_only_same(2)[OF row] by (simp add: objects_ok_def lifecycle_ok_def object_id_valid_def)
  then show ?thesis unfolding form
    by (auto simp: queue_object_event_def Let_def bump_object_material_counter_def)
qed

definition event_iff :: "bool \<Rightarrow> object_net \<Rightarrow> object_net \<Rightarrow> bool" where
  "event_iff r st st' \<longleftrightarrow> (if r then one_event st st' else events_same st st')"

lemma event_iff_create:
  assumes ok: "objects_ok base st" and f: "finish_object_create B env tail i count plausible body st = (r, st')"
  shows "event_iff r st st'"
proof -
  obtain sc st1 where d: "decode_create_materials B env tail (unat count) st = (sc, st1)" by (metis surj_pair)
  have same: "events_same st st1"
    using d by (auto simp: decode_create_materials_def heap_alloc_def heap_free_def events_same_def Let_def
        split: if_splits prod.splits bool.splits option.splits)
  have freed: "events_same x (free_scratch s x)" for s x
    by (simp add: free_scratch_def heap_free_def events_same_def split: scratch.splits)
  show ?thesis
  proof (cases sc)
    case None
    then show ?thesis using f d same by (auto simp: finish_object_create_def event_iff_def split: if_splits)
  next
    case (Some s)
    have ok1: "objects_ok (base + scratch_blocks s) st1" using create_materials_ok[OF ok d] Some by simp
    have "one_event st (free_scratch s (store_created_object env i s body st1))" if "object_id_valid i"
      using one_event_created[OF ok1 that, of env s body] same freed[of "store_created_object env i s body st1" s]
      unfolding one_event_def by (auto simp: events_same_def)
    then show ?thesis using f d Some same freed[of st1 s]
      by (auto simp: finish_object_create_def event_iff_def events_same_def split: if_splits)
  qed
qed

lemma event_iff_material:
  assumes ok: "objects_ok base st" and r: "set_object_material_event env i m st = (r, st')"
  shows "event_iff r st st'"
proof -
  obtain n st1 where s: "store_object_material_state env i m st = (n, st1)" by (metis surj_pair)
  have mem: "memory_ok base st" using ok by (simp add: objects_ok_def)
  note spec = store_spec[OF s mem]
  show ?thesis
  proof (cases n)
    case None
    then show ?thesis using r s spec events_same_heap by (auto simp: set_object_material_event_def event_iff_def)
  next
    case (Some k)
    then have "events_same st (st1\<lparr>object_visual := v\<rparr>)" for v using spec events_same_row by (auto simp: events_same_def)
    then show ?thesis using r s spec Some one_event_queue[OF _ events_same_refl]
      by (auto simp: set_object_material_event_def queue_object_material_event_def event_iff_def)
  qed
qed

lemma observe_object_event:
  assumes ok: "objects_ok base st" and d: "observe_object_rpc B env rpc_id data st = Some (r, st')"
  shows "event_iff r st st'"
proof -
  have create: "event_iff r st st'" if "decode_object_create_payload B env data st = Some (r, st')"
  proof -
    have "r = False \<and> st' = st \<or> (\<exists>tail i count p body. finish_object_create B env tail i count p body st = (r, st'))"
      using that by (auto simp: decode_object_create_payload_def bind_Some_iff Let_def split: if_splits option.splits)
    then show ?thesis using event_iff_create[OF ok] by (auto simp: event_iff_def[of False])
  qed
  have material: "event_iff r st st'" if "decode_set_object_material_payload B env data st = Some (r, st')"
    using that event_iff_material[OF ok]
    by (auto simp: decode_set_object_material_payload_def bind_Some_iff event_iff_def[of False] split: if_splits option.splits)
  have destroy: "event_iff r st st'" if "decode_object_destroy_payload data st = Some (r, st')"
  proof -
    have "one_event st (destroy_object i st)" if i: "object_id_valid i" for i
    proof -
      have "memory_ok base (snd (queue_object_event (SAMP_RAKNET_OBJECT_ACTION_DESTROY, i, zero_object_event) st))"
        using objects_ok_queue_snd[OF ok] by (simp add: objects_ok_def)
      from events_same_row[OF release_states_row_only[OF this i]] show ?thesis
        by (intro one_event_queue[OF events_same_refl, where a = "(SAMP_RAKNET_OBJECT_ACTION_DESTROY, i, zero_object_event)"])
          (simp add: destroy_object_def Let_def events_same_def)
    qed
    then show ?thesis using that by (auto simp: decode_object_destroy_payload_def bind_Some_iff event_iff_def split: if_splits)
  qed
  have events: "event_iff r st st'"
    if "decode_object_set_pos_payload data st = Some (r, st') \<or> decode_object_set_rot_payload data st = Some (r, st') \<or>
      decode_object_attach_player_payload data st = Some (r, st') \<or> decode_object_move_payload data st = Some (r, st') \<or>
      decode_object_stop_payload data st = Some (r, st')"
    using that one_event_queue[OF events_same_refl events_same_refl]
    by (auto simp: decode_object_set_pos_payload_def decode_object_set_rot_payload_def decode_object_attach_player_payload_def
        decode_object_move_payload_def decode_object_stop_payload_def bind_Some_iff event_iff_def split: if_splits)
  show ?thesis
    using d create material destroy events
    by (auto simp: observe_object_rpc_def event_iff_def[of False] split: if_splits)
qed

section \<open>The states the network thread reaches\<close>

text \<open>All static storage is zero before the first RPC.\<close>

definition object_net_start :: object_net where
  "object_net_start = \<lparr>saw_object_event = False, object_event_seq = 0,
     object_events = replicate SAMP_RAKNET_OBJECT_EVENT_RING zero_object_event,
     object_generations = replicate SAMP_RAKNET_MAX_OBJECTS 0, object_alive = replicate SAMP_RAKNET_MAX_OBJECTS 0,
     object_create_states = replicate SAMP_RAKNET_MAX_OBJECTS zero_object_event, object_generation_seq = 0,
     object_material_revision_seq = 0, object_material_text_bytes = 0,
     object_material_slots = replicate SAMP_RAKNET_MAX_OBJECTS (replicate SAMP_RAKNET_OBJECT_MATERIAL_SLOTS None),
     object_visual = zero_world_visual, heap_calls = 0, heap_live = 0\<rparr>"

inductive objects_reachable :: "'b bitstream \<Rightarrow> object_net \<Rightarrow> bool" for B where
  start: "objects_reachable B object_net_start"
| receive: "objects_reachable B st \<Longrightarrow> observe_object_rpc B env rpc_id data st = Some (r, st') \<Longrightarrow> objects_reachable B st'"
| reset: "objects_reachable B st \<Longrightarrow> objects_reachable B (reset_object_net st)"

lemma object_net_start_ok: "objects_ok 0 object_net_start"
  by (simp add: object_net_start_def objects_ok_def memory_ok_def shape_ok_def lifecycle_ok_def rows_ok_def object_id_valid_def)

lemma objects_ok_memory: "objects_ok base st \<Longrightarrow> memory_ok base st"
  by (simp add: objects_ok_def)

lemma objects_reachable_ok: "objects_reachable B st \<Longrightarrow> objects_ok 0 st"
proof (induction rule: objects_reachable.induct)
  case (reset st)
  then show ?case using reset_object_net_ok(1) objects_ok_memory by blast
qed (auto intro: object_net_start_ok observe_object_rpc_ok)

lemma object_lifecycle_cases:
  assumes "objects_ok base st" "object_id_valid i"
  shows "samp_raknet_client_get_object_lifecycle st i =
    (if object_generations st ! unat i = 0 then (0, 0, zero_object_event) else (0, 1, object_create_states st ! unat i))"
proof -
  have "(object_alive st ! unat i = 0) = (object_generations st ! unat i = 0)"
    "object_alive st ! unat i \<noteq> 0 \<Longrightarrow> oe_action (object_create_states st ! unat i) = SAMP_RAKNET_OBJECT_ACTION_CREATE \<and>
      oe_object_id (object_create_states st ! unat i) = i \<and>
      oe_object_generation (object_create_states st ! unat i) = object_generations st ! unat i"
    using assms unfolding objects_ok_def lifecycle_ok_def by blast+
  then show ?thesis using assms(2) by (auto simp: samp_raknet_client_get_object_lifecycle_def Let_def)
qed

lemma slot_entry_ok:
  assumes "objects_ok base st" "object_id_valid i" "j < SAMP_RAKNET_OBJECT_MATERIAL_SLOTS" "slot_state i j st = Some s"
  shows "material_state_ok s" "unat (ms_slot s) = j" "ms_generation s = object_generations st ! unat i"
    "object_generations st ! unat i \<noteq> 0"
proof -
  have "entry_ok (object_generations st ! unat i) j (slot_state i j st)"
    using assms(1-3) unfolding objects_ok_def rows_ok_def row_ok_def slot_state_def by blast
  then show "material_state_ok s" "unat (ms_slot s) = j" "ms_generation s = object_generations st ! unat i"
    "object_generations st ! unat i \<noteq> 0"
    using assms(4) by (auto simp: entry_ok_def)
qed


text \<open>A concrete history: object 0 is created without materials and given a textured material in slot 2.\<close>

definition create_zero :: "u8 list" where
  "create_zero = [0, 0, 0x2A, 0, 0, 0] @ replicate 12 0 @ replicate 12 0 @ [0, 0, 0, 0] @ [0] @ [0xFF, 0xFF] @ [0xFF, 0xFF] @ [0]"

definition material_zero :: "u8 list" where
  "material_zero = [0, 0] @ [1, 2] @ [0x2A, 0] @ [1, 0x61] @ [1, 0x62] @ [4, 3, 2, 1]"

definition received_object :: "u8 \<Rightarrow> u8 list \<Rightarrow> object_net \<Rightarrow> object_net" where
  "received_object rpc_id data st = snd (the (observe_object_rpc bit_list_stream (\<lambda>_. True) rpc_id data st))"

lemma received_object_reachable:
  assumes "objects_reachable bit_list_stream st"
  shows "objects_reachable bit_list_stream (received_object rpc_id data st)"
proof -
  obtain r st' where "observe_object_rpc bit_list_stream (\<lambda>_. True) rpc_id data st = Some (r, st')"
    using observe_object_rpc_total by (metis surj_pair)
  then show ?thesis using receive[OF assms] by (simp add: received_object_def)
qed


lemma stored_material_returned:
  assumes ok: "objects_ok base st" and m: "wire_material m" and r: "set_object_material_event env i m st = (True, st')"
  shows "\<exists>n. samp_raknet_client_get_object_material st' i (object_generations st' ! unat i) (om_slot m) 0 = (0, n, m) \<and>
    object_generations st' = object_generations st"
proof -
  obtain c st1 where s: "store_object_material_state env i m st = (c, st1)" by (metis surj_pair)
  then obtain n where n: "c = Some n" using r by (cases c) (auto simp: set_object_material_event_def)
  have mem: "memory_ok base st" using ok by (simp add: objects_ok_def)
  obtain st0 st2 where spec: "object_id_valid i" "object_generations st ! unat i \<noteq> 0"
      "unat (om_slot m) < SAMP_RAKNET_OBJECT_MATERIAL_SLOTS"
    and "\<exists>t. create_object_material_state env m (object_generations st ! unat i) n st0 = (Some t, st2) \<and>
      row_only i ((object_material_slots st ! unat i)[unat (om_slot m) := Some t]) st st1"
    using store_spec[OF s mem] n by auto
  then obtain t where c: "create_object_material_state env m (object_generations st ! unat i) n st0 = (Some t, st2)"
    and row: "row_only i ((object_material_slots st ! unat i)[unat (om_slot m) := Some t]) st st1" by blast
  have same: "object_material_slots st' = object_material_slots st1" "object_generations st' = object_generations st1"
    using r s n by (auto simp: set_object_material_event_def queue_object_material_event_def queue_object_event_def Let_def
        split: if_splits)
  have "unat i < length (object_material_slots st)" "length (object_material_slots st ! unat i) = SAMP_RAKNET_OBJECT_MATERIAL_SLOTS"
    using mem shape_row spec(1) by (auto simp: memory_ok_def)
  then have "slot_state i (unat (om_slot m)) st' = Some t"
    using spec(3) row_only_same(1)[OF row] by (simp add: slot_state_def same)
  moreover have "ms_generation t = object_generations st ! unat i" using create_state_spec[OF c] by simp
  ultimately show ?thesis
    using spec same row_only_same(2)[OF row] created_state_material[OF c m]
    by (simp add: samp_raknet_client_get_object_material_def)
qed

text \<open>A textured material is never refused for the budget, because it has no text.\<close>

lemma store_default_accepted:
  assumes ok: "objects_ok base st" and i: "object_id_valid i" "object_generations st ! unat i \<noteq> 0"
    and m: "om_type m = SAMP_RAKNET_OBJECT_MATERIAL_TYPE_DEFAULT" "unat (om_slot m) < SAMP_RAKNET_OBJECT_MATERIAL_SLOTS"
  shows "fst (store_object_material_state (\<lambda>_. True) i m st) \<noteq> None"
proof -
  have total: "object_material_text_bytes st \<le> kObjectMaterialTextBudgetBytes"
    using ok by (simp add: objects_ok_def memory_ok_def word_le_nat_alt)
  have "\<not> kObjectMaterialTextBudgetBytes < retained_after b st" for b
  proof -
    have "retained_after b st \<le> object_material_text_bytes st"
      by (auto simp: retained_after_def word_le_nat_alt unat_sub)
    then show ?thesis using total by (simp add: not_less)
  qed
  moreover have "\<not> kObjectMaterialTextBudgetBytes < object_material_text_bytes st" using total by (simp add: not_less)
  ultimately show ?thesis using i m
    by (auto simp: store_object_material_state_def create_object_material_state_def heap_alloc_def Let_def
        bump_object_material_counter_def split: option.splits)
qed

lemma set_default_accepted:
  assumes "objects_ok base st" "object_id_valid i" "object_generations st ! unat i \<noteq> 0"
    and "om_type m = SAMP_RAKNET_OBJECT_MATERIAL_TYPE_DEFAULT" "unat (om_slot m) < SAMP_RAKNET_OBJECT_MATERIAL_SLOTS"
  shows "fst (set_object_material_event (\<lambda>_. True) i m st)"
proof -
  obtain n st1 where s: "store_object_material_state (\<lambda>_. True) i m st = (Some n, st1)"
    using store_default_accepted[OF assms] by (cases "store_object_material_state (\<lambda>_. True) i m st") auto
  have "n \<noteq> 0" using store_spec[OF s] assms(1) by (auto simp: objects_ok_def)
  then show ?thesis using s assms by (simp add: set_object_material_event_def queue_object_material_event_def)
qed

lemma read_create_zero:
  "length create_zero = 40" "read_le16 create_zero 0 = Some 0" "read_le_i32 create_zero 2 = Some 42"
  "read_vec3 create_zero 6 = Some [0, 0, 0]" "read_vec3 create_zero 18 = Some [0, 0, 0]"
  "read_le_float create_zero 30 = Some 0" "read_le16 create_zero 35 = Some 0xFFFF" "read_le16 create_zero 37 = Some 0xFFFF"
  "read_byte create_zero 39 = Some 0"
  "object_vec_plausible [0, 0, 0]" "object_rot_plausible [0, 0, 0]" "object_model_plausible 42" "f32_finite 0" "f32_within 0 10000 0"
  by code_simp+

lemma decode_create_zero:
  "observe_object_rpc bit_list_stream env 44 create_zero st = Some (True, store_created_object env 0 No_materials
     (create_body 42 [0, 0, 0] [0, 0, 0] 0 False (0, 0xFFFF, 1, [0, 0, 0], [0, 0, 0]) 0) st)"
  by (simp add: observe_object_rpc_def decode_object_create_payload_def read_create_zero read_attachment_def
      finish_object_create_def decode_create_materials_def free_scratch_def object_id_valid_def object_consts)

lemma decode_material_zero:
  "decode_object_material_record bit_list_stream SAMP_RAKNET_OBJECT_MATERIAL_SOURCE_RPC (bs_open bit_list_stream (drop 2 material_zero))
     = Some (zero_material\<lparr>om_type := 1, om_slot := 2, om_source := 2, om_model := 42, om_txd := ''a'', om_texture := ''b'',
         om_material_color := 0x01020304\<rparr>, ([], 96))"
  by code_simp

lemma read_material_zero: "read_le16 material_zero 0 = Some 0" "\<not> length material_zero < 4"
  by code_simp+

lemma material_rpc_returned:
  assumes "objects_reachable B st" "bitstream_ok B" "observe_object_rpc B env 84 data st = Some (True, st')"
  shows "\<exists>i m s n. read_le16 data 0 = Some i \<and>
    decode_object_material_record B SAMP_RAKNET_OBJECT_MATERIAL_SOURCE_RPC (bs_open B (drop 2 data)) = Some (m, s) \<and>
    samp_raknet_client_get_object_material st' i (object_generations st' ! unat i) (om_slot m) 0 = (0, n, m)"
proof -
  obtain i m s where d: "read_le16 data 0 = Some i"
    "decode_object_material_record B SAMP_RAKNET_OBJECT_MATERIAL_SOURCE_RPC (bs_open B (drop 2 data)) = Some (m, s)"
    "set_object_material_event env i m st = (True, st')"
    using assms(3)
    by (auto simp: observe_object_rpc_def decode_set_object_material_payload_def bind_Some_iff split: if_splits option.splits)
  then show ?thesis
    using stored_material_returned[OF objects_reachable_ok[OF assms(1)] decoded_material_wire[OF assms(2) d(2)] d(3)] by blast
qed


lemma destroyed_object_generation:
  assumes ok: "objects_ok base st" and i: "object_id_valid i"
  shows "object_generations (destroy_object i st) ! unat i = 0"
proof -
  let ?st1 = "snd (queue_object_event (SAMP_RAKNET_OBJECT_ACTION_DESTROY, i, zero_object_event) st)"
  have ok1: "objects_ok base ?st1" using ok by (rule objects_ok_queue_snd)
  then have "unat i < length (object_generations (release_object_material_states i ?st1))"
    using row_only_same(2)[OF release_states_row_only[of base ?st1 i]] i by (simp add: objects_ok_def lifecycle_ok_def object_id_valid_def)
  then show ?thesis by (simp add: destroy_object_def Let_def)
qed

lemma fst_true: "fst p \<Longrightarrow> \<exists>x. p = (True, x)"
  by (cases p) simp

lemma zero_material_stored:
  "\<exists>st'. observe_object_rpc bit_list_stream (\<lambda>_. True) 84 material_zero (received_object 44 create_zero object_net_start)
      = Some (True, st')"
proof -
  let ?st = "received_object 44 create_zero object_net_start"
  have ok: "objects_ok 0 ?st" using received_object_reachable[OF start] objects_reachable_ok by blast
  have st: "?st = store_created_object (\<lambda>_. True) 0 No_materials
     (create_body 42 [0, 0, 0] [0, 0, 0] 0 False (0, 0xFFFF, 1, [0, 0, 0], [0, 0, 0]) 0) object_net_start"
    by (simp add: received_object_def decode_create_zero)
  have zero: "object_id_valid 0" by (simp add: object_id_valid_def object_consts)
  have alive: "object_generations ?st ! unat (0 :: u16) \<noteq> 0"
    unfolding st by (rule created_object_generation[OF object_net_start_ok zero])
  have "fst (set_object_material_event (\<lambda>_. True) 0 (zero_material\<lparr>om_type := 1, om_slot := 2, om_source := 2,
      om_model := 42, om_txd := ''a'', om_texture := ''b'', om_material_color := 0x01020304\<rparr>) ?st)"
    by (rule set_default_accepted[OF ok zero alive]) (simp_all add: object_consts)
  then obtain st' where "set_object_material_event (\<lambda>_. True) 0 (zero_material\<lparr>om_type := 1, om_slot := 2, om_source := 2,
      om_model := 42, om_txd := ''a'', om_texture := ''b'', om_material_color := 0x01020304\<rparr>) ?st = (True, st')"
    using fst_true by blast
  then show ?thesis
    using zero read_material_zero
    by (simp add: observe_object_rpc_def decode_set_object_material_payload_def decode_material_zero)
qed

section \<open>Properties\<close>

text \<open>C34: Whatever an object RPC contains and whichever allocations fail, its decoder never reads outside the payload,
  and afterwards the only live blocks are those of the material states it keeps: their texts are accounted for
  byte by byte and stay within the budget of 8 MiB. A network reset frees them all.\<close>

theorem object_rpc_safe:
  assumes "objects_reachable B st"
  shows "\<exists>r st'. observe_object_rpc B env rpc_id data st = Some (r, st') \<and>
    heap_live st' = total_blocks (object_material_slots st') \<and>
    unat (object_material_text_bytes st') = total_bytes (object_material_slots st') \<and>
    total_bytes (object_material_slots st') \<le> 8388608 \<and>
    heap_live (reset_object_net st') = 0"
proof -
  obtain r st' where d: "observe_object_rpc B env rpc_id data st = Some (r, st')"
    using observe_object_rpc_total by (metis surj_pair)
  have ok: "objects_ok 0 st'" using observe_object_rpc_ok[OF objects_reachable_ok[OF assms] d] .
  then show ?thesis using d reset_object_net_ok(2)[OF objects_ok_memory[OF ok]]
    by (auto simp: objects_ok_def memory_ok_def kObjectMaterialTextBudgetBytes_def)
qed

theorem object_rpc_safe_witness:
  "\<exists>r st'. observe_object_rpc bit_list_stream (\<lambda>n. n \<noteq> 0) 84 material_zero (received_object 44 create_zero object_net_start)
      = Some (r, st') \<and> heap_live st' = total_blocks (object_material_slots st')"
  using object_rpc_safe[OF received_object_reachable[OF start, of 44 create_zero], of "\<lambda>n. n \<noteq> 0" 84 material_zero] by blast

text \<open>The lifecycle query never sees an inconsistent record. It reports an object alive exactly while the object has a
  generation, and then returns the create event of that id and of that generation.\<close>

theorem object_lifecycle_consistent:
  assumes "objects_reachable B st" "object_id_valid i"
  shows "\<exists>alive e. samp_raknet_client_get_object_lifecycle st i = (0, alive, e) \<and>
    (alive \<noteq> 0 \<longleftrightarrow> object_generations st ! unat i \<noteq> 0) \<and>
    (alive \<noteq> 0 \<longrightarrow> oe_action e = SAMP_RAKNET_OBJECT_ACTION_CREATE \<and> oe_object_id e = i \<and>
      oe_object_generation e = object_generations st ! unat i)"
proof -
  have ok: "objects_ok 0 st" using objects_reachable_ok[OF assms(1)] .
  then have "(object_alive st ! unat i = 0) = (object_generations st ! unat i = 0)"
    "object_alive st ! unat i \<noteq> 0 \<Longrightarrow> oe_action (object_create_states st ! unat i) = SAMP_RAKNET_OBJECT_ACTION_CREATE \<and>
      oe_object_id (object_create_states st ! unat i) = i \<and>
      oe_object_generation (object_create_states st ! unat i) = object_generations st ! unat i"
    using assms(2) unfolding objects_ok_def lifecycle_ok_def by blast+
  then show ?thesis using object_lifecycle_cases[OF ok assms(2)] by simp
qed

theorem object_lifecycle_consistent_witness:
  "\<exists>alive e. samp_raknet_client_get_object_lifecycle (received_object 44 create_zero object_net_start) 1999 = (0, alive, e)"
  using object_lifecycle_consistent[OF received_object_reachable[OF start], of 1999 44 create_zero]
  by (auto simp: object_id_valid_def object_consts)



text \<open>C35: Once a material RPC was accepted, the graphics thread reads back, for that object and slot, exactly the
  material that the payload encodes.\<close>

theorem object_material_roundtrip:
  assumes "objects_reachable B st" "bitstream_ok B"
    and "observe_object_rpc B env 84 data st = Some (True, st')"
  shows "\<exists>i m s n. read_le16 data 0 = Some i \<and>
    decode_object_material_record B SAMP_RAKNET_OBJECT_MATERIAL_SOURCE_RPC (bs_open B (drop 2 data)) = Some (m, s) \<and>
    samp_raknet_client_get_object_material st' i (object_generations st' ! unat i) (om_slot m) 0 = (0, n, m)"
  using material_rpc_returned[OF assms] by blast

theorem object_material_roundtrip_witness:
  "\<exists>st' n m. samp_raknet_client_get_object_material st' 0 (object_generations st' ! 0) 2 0 = (0, n, m) \<and>
     om_txd m = ''a'' \<and> om_texture m = ''b'' \<and> om_material_color m = 0x01020304"
proof -
  obtain st' where "observe_object_rpc bit_list_stream (\<lambda>_. True) 84 material_zero (received_object 44 create_zero object_net_start)
      = Some (True, st')"
    using zero_material_stored by blast
  from object_material_roundtrip[OF received_object_reachable[OF start] bit_list_stream_ok this]
  obtain n where "samp_raknet_client_get_object_material st' 0 (object_generations st' ! 0) 2 0 = (0, n,
      zero_material\<lparr>om_type := 1, om_slot := 2, om_source := 2, om_model := 42, om_txd := ''a'', om_texture := ''b'',
         om_material_color := 0x01020304\<rparr>)"
    using read_material_zero decode_material_zero by auto
  then show ?thesis by (intro exI) auto
qed

text \<open>After a destroy RPC the object is dead: no create event and no material of any slot and generation can be read,
  and the blocks of its materials are free.\<close>

theorem object_destroyed:
  assumes "objects_reachable B st" "observe_object_rpc B env 47 data st = Some (True, st')"
  shows "\<exists>i. read_le16 data 0 = Some i \<and> samp_raknet_client_get_object_lifecycle st' i = (0, 0, zero_object_event) \<and>
    row_blocks (object_material_slots st' ! unat i) = 0 \<and>
    (\<forall>gen k. fst (samp_raknet_client_get_object_material st' i gen k 0) \<noteq> 0)"
proof -
  obtain i where i: "read_le16 data 0 = Some i" "object_id_valid i" "st' = destroy_object i st"
    using assms(2) by (auto simp: observe_object_rpc_def decode_object_destroy_payload_def bind_Some_iff split: if_splits)
  have ok: "objects_ok 0 st'" using objects_reachable_ok[OF receive[OF assms]] .
  have dead: "object_generations st' ! unat i = 0"
    using destroyed_object_generation[OF objects_reachable_ok[OF assms(1)] i(2)] i(3) by simp
  then have none: "slot_state i j st' = None" if "j < SAMP_RAKNET_OBJECT_MATERIAL_SLOTS" for j
    using slot_entry_ok(4)[OF ok i(2) that] by (cases "slot_state i j st'") auto
  have "length (object_material_slots st' ! unat i) = SAMP_RAKNET_OBJECT_MATERIAL_SLOTS"
    using ok i(2) shape_row by (auto simp: objects_ok_def memory_ok_def)
  then have "object_material_slots st' ! unat i = replicate SAMP_RAKNET_OBJECT_MATERIAL_SLOTS None"
    using none by (intro nth_equalityI) (simp_all add: slot_state_def)
  then have "row_blocks (object_material_slots st' ! unat i) = 0" by simp
  moreover have "fst (samp_raknet_client_get_object_material st' i gen k 0) \<noteq> 0" for gen k
    using none by (auto simp: samp_raknet_client_get_object_material_def)
  ultimately show ?thesis using i(1) dead object_lifecycle_cases[OF ok i(2)] by simp
qed

theorem object_destroyed_witness:
  "\<exists>st'. samp_raknet_client_get_object_lifecycle st' 0 = (0, 0, zero_object_event) \<and>
     (\<forall>gen k. fst (samp_raknet_client_get_object_material st' 0 gen k 0) \<noteq> 0)"
proof -
  let ?st = "received_object 44 create_zero object_net_start"
  have "read_le16 [0, 0] 0 = Some 0" by code_simp
  moreover from this have "observe_object_rpc bit_list_stream (\<lambda>_. True) 47 [0, 0] ?st = Some (True, destroy_object 0 ?st)"
    by (simp add: observe_object_rpc_def decode_object_destroy_payload_def object_id_valid_def object_consts)
  ultimately show ?thesis using object_destroyed[OF received_object_reachable[OF start]] by fastforce
qed

text \<open>An object RPC queues exactly one event if it is accepted and none if it is rejected, and the snapshot the graphics
  thread takes is always the newest 1024 events of the whole history, in order.\<close>

theorem object_events_in_order:
  assumes "objects_reachable B st" "observe_object_rpc B env rpc_id data st = Some (r, st')" "length h + 1 < 4294967296"
    and "ring_holds SAMP_RAKNET_OBJECT_EVENT_RING oe_seq h (object_event_seq st) (object_events st)"
  shows "\<exists>new. length new = (if r then 1 else 0) \<and>
    ring_holds SAMP_RAKNET_OBJECT_EVENT_RING oe_seq (h @ new) (object_event_seq st') (object_events st') \<and>
    object_snapshot st' = drop (length (h @ new) - 1024) (h @ new)"
proof -
  have e: "event_iff r st st'" using observe_object_event[OF objects_reachable_ok[OF assms(1)] assms(2)] .
  have "\<exists>new. length new = (if r then 1 else 0) \<and>
      ring_holds SAMP_RAKNET_OBJECT_EVENT_RING oe_seq (h @ new) (object_event_seq st') (object_events st')"
  proof (cases r)
    case True
    then obtain e where "ring_holds SAMP_RAKNET_OBJECT_EVENT_RING oe_seq (h @ [e]) (object_event_seq st') (object_events st')"
      using e one_event_holds[OF assms(4) _ assms(3)] by (auto simp: event_iff_def)
    then show ?thesis using True by (intro exI[of _ "[e]"]) simp
  next
    case False
    then show ?thesis using e assms(4) by (intro exI[of _ "[]"]) (simp add: event_iff_def events_same_def)
  qed
  then obtain new where new: "length new = (if r then 1 else 0)"
    "ring_holds SAMP_RAKNET_OBJECT_EVENT_RING oe_seq (h @ new) (object_event_seq st') (object_events st')" by blast
  from ring_snapshot_suffix[OF new(2)] have "object_snapshot st' = drop (length (h @ new) - 1024) (h @ new)"
    unfolding object_snapshot_def SAMP_RAKNET_OBJECT_EVENT_RING_def .
  then show ?thesis using new by blast
qed

theorem object_events_in_order_witness:
  "\<exists>st' e. object_snapshot st' = [e] \<and> object_event_seq st' = 1"
proof -
  have "ring_holds SAMP_RAKNET_OBJECT_EVENT_RING oe_seq [] (object_event_seq object_net_start) (object_events object_net_start)"
    by (simp add: object_net_start_def ring_holds_empty)
  from object_events_in_order[OF start decode_create_zero _ this]
  obtain st' new where "length new = 1" "object_snapshot st' = new" "ring_holds SAMP_RAKNET_OBJECT_EVENT_RING oe_seq new (object_event_seq st') (object_events st')"
    by fastforce
  moreover from this have "unat (object_event_seq st') = unat (1 :: u32)" by (simp add: ring_holds_def)
  ultimately show ?thesis unfolding word_unat_eq_iff by (cases new) auto
qed

end
