(* ===== verification/RpcWorld.thy ===== *)
theory RpcWorld
  imports RpcObjects
begin

text \<open>
  The smaller world RPCs of \<^verbatim>\<open>src/net/raknet_client_adapter.cpp\<close>: text labels, map icons, name tags, removed
  buildings, objects attached to players, crime reports, the edit modes and the kill list, each with its
  event ring; and the snapshot loops of the two rings that count up to the newest number.
\<close>

section \<open>Data\<close>

definition SAMP_RAKNET_MAX_PLAYERS :: nat where "SAMP_RAKNET_MAX_PLAYERS = 1000"
definition SAMP_RAKNET_MAX_VEHICLES :: nat where "SAMP_RAKNET_MAX_VEHICLES = 2000"
definition SAMP_RAKNET_MAX_ATTACHED_OBJECTS :: u32 where "SAMP_RAKNET_MAX_ATTACHED_OBJECTS = 10"
definition SAMP_RAKNET_MAP_ICON_MAX :: u8 where "SAMP_RAKNET_MAP_ICON_MAX = 100"
definition SAMP_RAKNET_MAX_3D_TEXT_LABELS :: nat where "SAMP_RAKNET_MAX_3D_TEXT_LABELS = 1024"
definition SAMP_RAKNET_3D_TEXT_LABEL_TEXT_BYTES :: nat where "SAMP_RAKNET_3D_TEXT_LABEL_TEXT_BYTES = 512"
definition SAMP_RAKNET_3D_TEXT_LABEL_EVENT_RING :: nat where "SAMP_RAKNET_3D_TEXT_LABEL_EVENT_RING = 128"
definition SAMP_RAKNET_MAP_ICON_EVENT_RING :: nat where "SAMP_RAKNET_MAP_ICON_EVENT_RING = 128"
definition SAMP_RAKNET_NAME_TAG_EVENT_RING :: nat where "SAMP_RAKNET_NAME_TAG_EVENT_RING = 64"
definition SAMP_RAKNET_DEATH_WINDOW_EVENT_RING :: nat where "SAMP_RAKNET_DEATH_WINDOW_EVENT_RING = 16"
definition SAMP_RAKNET_ATTACHED_OBJECT_EVENT_RING :: nat where "SAMP_RAKNET_ATTACHED_OBJECT_EVENT_RING = 64"
definition SAMP_RAKNET_REMOVE_BUILDING_EVENT_RING :: nat where "SAMP_RAKNET_REMOVE_BUILDING_EVENT_RING = 64"

definition SAMP_RAKNET_3D_TEXT_LABEL_ACTION_CREATE :: u8 where "SAMP_RAKNET_3D_TEXT_LABEL_ACTION_CREATE = 1"
definition SAMP_RAKNET_3D_TEXT_LABEL_ACTION_UPDATE :: u8 where "SAMP_RAKNET_3D_TEXT_LABEL_ACTION_UPDATE = 2"
definition SAMP_RAKNET_3D_TEXT_LABEL_ACTION_DELETE :: u8 where "SAMP_RAKNET_3D_TEXT_LABEL_ACTION_DELETE = 3"
definition SAMP_RAKNET_MAP_ICON_ACTION_SET :: u8 where "SAMP_RAKNET_MAP_ICON_ACTION_SET = 1"
definition SAMP_RAKNET_MAP_ICON_ACTION_REMOVE :: u8 where "SAMP_RAKNET_MAP_ICON_ACTION_REMOVE = 2"
definition SAMP_RAKNET_ATTACHED_OBJECT_ACTION_SET :: u8 where "SAMP_RAKNET_ATTACHED_OBJECT_ACTION_SET = 1"
definition SAMP_RAKNET_ATTACHED_OBJECT_ACTION_REMOVE :: u8 where "SAMP_RAKNET_ATTACHED_OBJECT_ACTION_REMOVE = 2"
definition SAMP_RAKNET_EDIT_ACTION_OBJECT :: u8 where "SAMP_RAKNET_EDIT_ACTION_OBJECT = 1"
definition SAMP_RAKNET_EDIT_ACTION_ATTACHED_OBJECT :: u8 where "SAMP_RAKNET_EDIT_ACTION_ATTACHED_OBJECT = 2"
definition SAMP_RAKNET_EDIT_ACTION_CANCEL :: u8 where "SAMP_RAKNET_EDIT_ACTION_CANCEL = 3"
definition SAMP_RAKNET_DEATH_WINDOW_ACTION_ADD :: u8 where "SAMP_RAKNET_DEATH_WINDOW_ACTION_ADD = 1"
definition SAMP_RAKNET_WORLD_VISUAL_CREATE_3D_TEXT_LABEL :: u8 where "SAMP_RAKNET_WORLD_VISUAL_CREATE_3D_TEXT_LABEL = 2"
definition SAMP_RAKNET_WORLD_VISUAL_REMOVE_BUILDING :: u8 where "SAMP_RAKNET_WORLD_VISUAL_REMOVE_BUILDING = 4"

lemmas world_consts = SAMP_RAKNET_MAX_PLAYERS_def SAMP_RAKNET_MAX_VEHICLES_def SAMP_RAKNET_MAX_ATTACHED_OBJECTS_def
  SAMP_RAKNET_MAP_ICON_MAX_def SAMP_RAKNET_MAX_3D_TEXT_LABELS_def SAMP_RAKNET_3D_TEXT_LABEL_TEXT_BYTES_def
  SAMP_RAKNET_3D_TEXT_LABEL_EVENT_RING_def SAMP_RAKNET_MAP_ICON_EVENT_RING_def SAMP_RAKNET_NAME_TAG_EVENT_RING_def
  SAMP_RAKNET_DEATH_WINDOW_EVENT_RING_def SAMP_RAKNET_ATTACHED_OBJECT_EVENT_RING_def
  SAMP_RAKNET_REMOVE_BUILDING_EVENT_RING_def SAMP_RAKNET_3D_TEXT_LABEL_ACTION_CREATE_def
  SAMP_RAKNET_3D_TEXT_LABEL_ACTION_UPDATE_def SAMP_RAKNET_3D_TEXT_LABEL_ACTION_DELETE_def
  SAMP_RAKNET_MAP_ICON_ACTION_SET_def SAMP_RAKNET_MAP_ICON_ACTION_REMOVE_def SAMP_RAKNET_ATTACHED_OBJECT_ACTION_SET_def
  SAMP_RAKNET_ATTACHED_OBJECT_ACTION_REMOVE_def SAMP_RAKNET_EDIT_ACTION_OBJECT_def
  SAMP_RAKNET_EDIT_ACTION_ATTACHED_OBJECT_def SAMP_RAKNET_EDIT_ACTION_CANCEL_def SAMP_RAKNET_DEATH_WINDOW_ACTION_ADD_def

record samp_raknet_3d_text_label_event =
  le_seq :: u32
  le_action :: u8
  le_test_los :: u8
  le_label_id :: u16
  le_attached_player_id :: u16
  le_attached_vehicle_id :: u16
  le_color :: u32
  le_pos :: "f32 list"
  le_draw_distance :: f32
  le_text :: string

record samp_raknet_map_icon_event =
  ie_seq :: u32
  ie_action :: u8
  ie_index :: u8
  ie_icon :: u8
  ie_style :: u8
  ie_color :: u32
  ie_pos :: "f32 list"

record samp_raknet_name_tag_event =
  te_seq :: u32
  te_player_id :: u16
  te_show :: u8

record samp_raknet_death_window_event =
  de_seq :: u32
  de_action :: u8
  de_reason :: u8
  de_killer_id :: u16
  de_killee_id :: u16

record samp_raknet_attached_object_event =
  ae_seq :: u32
  ae_action :: u8
  ae_player_id :: u16
  ae_index :: u32
  ae_model :: u32
  ae_bone :: u32
  ae_offset :: "f32 list"
  ae_rotation :: "f32 list"
  ae_scale :: "f32 list"
  ae_color1 :: u32
  ae_color2 :: u32

record samp_raknet_remove_building_event =
  be_seq :: u32
  be_model :: int
  be_position :: "f32 list"
  be_radius :: f32

record samp_raknet_crime_report_event =
  ce_seq :: u32
  ce_suspect_id :: u16
  ce_in_vehicle :: u32
  ce_vehicle_model :: u32
  ce_vehicle_color :: u32
  ce_crime_id :: u32
  ce_position :: "f32 list"

record samp_raknet_edit_event =
  ee_seq :: u32
  ee_action :: u8
  ee_player_object :: u8
  ee_object_id :: u16
  ee_attached_index :: u32

record world_net =
  text_label_event_seq :: u32
  text_label_events :: "samp_raknet_3d_text_label_event list"
  map_icon_event_seq :: u32
  map_icon_events :: "samp_raknet_map_icon_event list"
  name_tag_event_seq :: u32
  name_tag_events :: "samp_raknet_name_tag_event list"
  death_window_event_seq :: u32
  death_window_events :: "samp_raknet_death_window_event list"
  attached_object_event_seq :: u32
  attached_object_events :: "samp_raknet_attached_object_event list"
  remove_building_event_seq :: u32
  remove_building_events :: "samp_raknet_remove_building_event list"
  crime_report_event :: samp_raknet_crime_report_event
  crime_report_event_seq :: u32
  edit_event :: samp_raknet_edit_event
  edit_event_seq :: u32
  cancel_edit_seq :: u32
  last_visual :: world_visual

definition zero_label_event :: samp_raknet_3d_text_label_event where
  "zero_label_event = \<lparr>le_seq = 0, le_action = 0, le_test_los = 0, le_label_id = 0, le_attached_player_id = 0,
     le_attached_vehicle_id = 0, le_color = 0, le_pos = [0, 0, 0], le_draw_distance = 0, le_text = []\<rparr>"

definition zero_icon_event :: samp_raknet_map_icon_event where
  "zero_icon_event = \<lparr>ie_seq = 0, ie_action = 0, ie_index = 0, ie_icon = 0, ie_style = 0, ie_color = 0, ie_pos = [0, 0, 0]\<rparr>"

definition zero_attached_event :: samp_raknet_attached_object_event where
  "zero_attached_event = \<lparr>ae_seq = 0, ae_action = 0, ae_player_id = 0, ae_index = 0, ae_model = 0, ae_bone = 0,
     ae_offset = [0, 0, 0], ae_rotation = [0, 0, 0], ae_scale = [0, 0, 0], ae_color1 = 0, ae_color2 = 0\<rparr>"

definition zero_edit_event :: samp_raknet_edit_event where
  "zero_edit_event = \<lparr>ee_seq = 0, ee_action = 0, ee_player_object = 0, ee_object_id = 0, ee_attached_index = 0\<rparr>"

definition reset_world_net :: world_net where
  "reset_world_net = \<lparr>text_label_event_seq = 0, text_label_events = replicate SAMP_RAKNET_3D_TEXT_LABEL_EVENT_RING zero_label_event,
     map_icon_event_seq = 0, map_icon_events = replicate SAMP_RAKNET_MAP_ICON_EVENT_RING zero_icon_event,
     name_tag_event_seq = 0,
     name_tag_events = replicate SAMP_RAKNET_NAME_TAG_EVENT_RING \<lparr>te_seq = 0, te_player_id = 0, te_show = 0\<rparr>,
     death_window_event_seq = 0, death_window_events = replicate SAMP_RAKNET_DEATH_WINDOW_EVENT_RING
       \<lparr>de_seq = 0, de_action = 0, de_reason = 0, de_killer_id = 0, de_killee_id = 0\<rparr>,
     attached_object_event_seq = 0,
     attached_object_events = replicate SAMP_RAKNET_ATTACHED_OBJECT_EVENT_RING zero_attached_event,
     remove_building_event_seq = 0, remove_building_events = replicate SAMP_RAKNET_REMOVE_BUILDING_EVENT_RING
       \<lparr>be_seq = 0, be_model = 0, be_position = [0, 0, 0], be_radius = 0\<rparr>,
     crime_report_event = \<lparr>ce_seq = 0, ce_suspect_id = 0, ce_in_vehicle = 0, ce_vehicle_model = 0, ce_vehicle_color = 0,
       ce_crime_id = 0, ce_position = [0, 0, 0]\<rparr>, crime_report_event_seq = 0,
     edit_event = zero_edit_event, edit_event_seq = 0, cancel_edit_seq = 0, last_visual = zero_world_visual\<rparr>"

section \<open>The last visible change\<close>

definition set_world_visual_event ::
  "u8 \<Rightarrow> u16 \<Rightarrow> int \<Rightarrow> u32 \<Rightarrow> f32 list option \<Rightarrow> string \<Rightarrow> world_visual \<Rightarrow> world_visual" where
  "set_world_visual_event ty i m color pos text v = v\<lparr>world_visual_event_seq := bump_seq (world_visual_event_seq v),
     world_visual_event_type := ty, world_visual_id := i, world_visual_model := m, world_visual_color := color,
     world_visual_material_background := 0,
     world_visual_pos := (case pos of None \<Rightarrow> [0, 0, 0, 0] | Some p \<Rightarrow> p), world_visual_material_type := 0,
     world_visual_material_slot := 0, world_visual_material_size := 0, world_visual_material_font_size := 0,
     world_visual_material_bold := 0, world_visual_material_alignment := 0,
     world_visual_text := copy_text SAMP_RAKNET_WORLD_VISUAL_TEXT_BYTES text, world_visual_material_txd := [],
     world_visual_material_texture := []\<rparr>"

section \<open>Texts of labels\<close>

definition label_space :: "char \<Rightarrow> bool" where
  "label_space c \<longleftrightarrow> c = CHR '' '' \<or> c = CHR 0x0D \<or> c = CHR 0x0A \<or> c = CHR 0x09"

definition sanitize_label_char :: "char \<Rightarrow> char" where
  "sanitize_label_char c =
     (if (of_char c :: nat) < 32 \<and> c \<noteq> CHR 0x0A \<and> c \<noteq> CHR 0x0D \<and> c \<noteq> CHR 0x09 then CHR '' '' else c)"

text \<open>The second loop removes white space from the end.\<close>

definition sanitize_3d_text_label_text :: "string \<Rightarrow> string" where
  "sanitize_3d_text_label_text text = rev (dropWhile label_space (rev (map sanitize_label_char text)))"

text \<open>
  \<^verbatim>\<open>SetReadOffset(offset * 8)\<close> leaves the bytes from \<open>offset\<close> on to be read, as opening a stream on them does.
\<close>

definition decode_3d_text_label_compressed_tail :: "'b bitstream \<Rightarrow> u8 list \<Rightarrow> nat \<Rightarrow> nat \<Rightarrow> string option" where
  "decode_3d_text_label_compressed_tail B data offset out_size =
     (if out_size = 0 \<or> offset \<ge> length data then None
      else map_option (\<lambda>(t, _). sanitize_3d_text_label_text t) (bs_string B out_size (bs_open B (drop offset data))))"

definition decode_3d_text_label_plain_tail :: "u8 list \<Rightarrow> nat \<Rightarrow> nat \<Rightarrow> string option" where
  "decode_3d_text_label_plain_tail data offset out_size =
     (if out_size = 0 \<or> offset > length data then None
      else let copy_len = (if length data - offset \<ge> out_size then out_size - 1 else length data - offset)
           in Some (sanitize_3d_text_label_text (bytes_string (take copy_len (drop offset data)))))"

definition decode_3d_text_label_tail :: "'b bitstream \<Rightarrow> u8 list \<Rightarrow> nat \<Rightarrow> nat \<Rightarrow> string option" where
  "decode_3d_text_label_tail B data offset out_size =
     (if out_size = 0 then None
      else case decode_3d_text_label_compressed_tail B data offset out_size of
        Some t \<Rightarrow> Some t
      | None \<Rightarrow> decode_3d_text_label_plain_tail data offset out_size)"

section \<open>Text labels\<close>

definition queue_3d_text_label_event ::
  "u8 \<times> u16 \<times> samp_raknet_3d_text_label_event \<Rightarrow> world_net \<Rightarrow> samp_raknet_3d_text_label_event \<times> world_net" where
  "queue_3d_text_label_event a w = (case a of (action, label_id, body) \<Rightarrow>
     let n = bump_seq (text_label_event_seq w);
         e = body\<lparr>le_seq := n, le_action := action, le_label_id := label_id\<rparr>
     in (e, w\<lparr>text_label_event_seq := n,
              text_label_events := (text_label_events w)[ring_slot SAMP_RAKNET_3D_TEXT_LABEL_EVENT_RING n := e]\<rparr>))"

text \<open>The cleared event: not attached to anything.\<close>

definition fresh_label :: samp_raknet_3d_text_label_event where
  "fresh_label = zero_label_event\<lparr>le_attached_player_id := 0xFFFF, le_attached_vehicle_id := 0xFFFF\<rparr>"

definition decode_create_3d_text_label_payload :: "'b bitstream \<Rightarrow> u8 list \<Rightarrow> world_net \<Rightarrow> (bool \<times> world_net) mem" where
  "decode_create_3d_text_label_payload B data w =
     (if length data < 27 then Some (False, w)
      else do {
        label_id \<leftarrow> read_le16 data 0;
        color \<leftarrow> read_le32 data 2;
        pos \<leftarrow> read_vec3 data 6;
        draw \<leftarrow> read_le_float data 18;
        los \<leftarrow> read_byte data 22;
        player_attach \<leftarrow> read_le16 data 23;
        vehicle_attach \<leftarrow> read_le16 data 25;
        if unat label_id \<ge> SAMP_RAKNET_MAX_3D_TEXT_LABELS \<or> \<not> f32_finite (pos ! 0) \<or> \<not> f32_finite (pos ! 1) \<or>
           \<not> f32_finite (pos ! 2) \<or> \<not> f32_finite draw \<or> \<not> f32_within 0 10000 draw \<or>
           (player_attach \<noteq> 0xFFFF \<and> unat player_attach \<ge> SAMP_RAKNET_MAX_PLAYERS) \<or>
           (vehicle_attach \<noteq> 0xFFFF \<and> unat vehicle_attach \<ge> SAMP_RAKNET_MAX_VEHICLES)
        then Some (False, w)
        else case decode_3d_text_label_tail B data 27 SAMP_RAKNET_3D_TEXT_LABEL_TEXT_BYTES of
          None \<Rightarrow> Some (False, w)
        | Some text \<Rightarrow>
            let w = snd (queue_3d_text_label_event (SAMP_RAKNET_3D_TEXT_LABEL_ACTION_CREATE, label_id,
                  fresh_label\<lparr>le_color := color, le_test_los := (if los \<noteq> 0 then 1 else 0),
                    le_attached_player_id := player_attach, le_attached_vehicle_id := vehicle_attach, le_pos := pos,
                    le_draw_distance := draw, le_text := copy_text SAMP_RAKNET_3D_TEXT_LABEL_TEXT_BYTES text\<rparr>) w)
            in Some (True, w\<lparr>last_visual := set_world_visual_event SAMP_RAKNET_WORLD_VISUAL_CREATE_3D_TEXT_LABEL label_id 0
                 color (Some (pos @ [draw])) text (last_visual w)\<rparr>) })"

definition decode_update_3d_text_label_payload :: "'b bitstream \<Rightarrow> u8 list \<Rightarrow> world_net \<Rightarrow> (bool \<times> world_net) mem" where
  "decode_update_3d_text_label_payload B data w =
     (if length data < 6 then Some (False, w)
      else do {
        label_id \<leftarrow> read_le16 data 0;
        color \<leftarrow> read_le32 data 2;
        if unat label_id \<ge> SAMP_RAKNET_MAX_3D_TEXT_LABELS then Some (False, w)
        else case decode_3d_text_label_tail B data 6 SAMP_RAKNET_3D_TEXT_LABEL_TEXT_BYTES of
          None \<Rightarrow> Some (False, w)
        | Some text \<Rightarrow> Some (True, snd (queue_3d_text_label_event (SAMP_RAKNET_3D_TEXT_LABEL_ACTION_UPDATE, label_id,
            fresh_label\<lparr>le_color := color, le_text := copy_text SAMP_RAKNET_3D_TEXT_LABEL_TEXT_BYTES text\<rparr>) w)) })"

definition decode_delete_3d_text_label_payload :: "u8 list \<Rightarrow> world_net \<Rightarrow> (bool \<times> world_net) mem" where
  "decode_delete_3d_text_label_payload data w =
     (if length data < 2 then Some (False, w)
      else do {
        label_id \<leftarrow> read_le16 data 0;
        if unat label_id \<ge> SAMP_RAKNET_MAX_3D_TEXT_LABELS then Some (False, w)
        else Some (True, snd (queue_3d_text_label_event (SAMP_RAKNET_3D_TEXT_LABEL_ACTION_DELETE, label_id, fresh_label) w)) })"

section \<open>Map icons, name tags and the kill list\<close>

definition queue_map_icon_event ::
  "u8 \<times> u8 \<times> f32 list option \<times> u8 \<times> u32 \<times> u8 \<Rightarrow> world_net \<Rightarrow> samp_raknet_map_icon_event \<times> world_net" where
  "queue_map_icon_event a w = (case a of (action, i, pos, icon, color, style) \<Rightarrow>
     let n = bump_seq (map_icon_event_seq w);
         e = \<lparr>ie_seq = n, ie_action = action, ie_index = i, ie_icon = icon, ie_style = style, ie_color = color,
              ie_pos = (case pos of None \<Rightarrow> [0, 0, 0] | Some p \<Rightarrow> p)\<rparr>
     in (e, w\<lparr>map_icon_event_seq := n,
              map_icon_events := (map_icon_events w)[ring_slot SAMP_RAKNET_MAP_ICON_EVENT_RING n := e]\<rparr>))"

definition decode_set_map_icon_payload :: "u8 list \<Rightarrow> world_net \<Rightarrow> (bool \<times> world_net) mem" where
  "decode_set_map_icon_payload data w =
     (if length data < 19 then Some (False, w)
      else do {
        i \<leftarrow> read_byte data 0;
        if i \<ge> SAMP_RAKNET_MAP_ICON_MAX then Some (False, w)
        else do {
          pos \<leftarrow> read_vec3 data 1;
          icon \<leftarrow> read_byte data 13;
          color \<leftarrow> read_le32 data 14;
          style \<leftarrow> read_byte data 18;
          if \<not> f32_finite (pos ! 0) \<or> \<not> f32_finite (pos ! 1) \<or> \<not> f32_finite (pos ! 2) then Some (False, w)
          else Some (True, snd (queue_map_icon_event (SAMP_RAKNET_MAP_ICON_ACTION_SET, i, Some pos, icon, color, style) w)) } })"

definition decode_remove_map_icon_payload :: "u8 list \<Rightarrow> world_net \<Rightarrow> (bool \<times> world_net) mem" where
  "decode_remove_map_icon_payload data w =
     (if length data < 1 then Some (False, w)
      else do {
        i \<leftarrow> read_byte data 0;
        if i \<ge> SAMP_RAKNET_MAP_ICON_MAX then Some (False, w)
        else Some (True, snd (queue_map_icon_event (SAMP_RAKNET_MAP_ICON_ACTION_REMOVE, i, None, 0, 0, 0) w)) })"

definition queue_name_tag_event :: "u16 \<times> u8 \<Rightarrow> world_net \<Rightarrow> samp_raknet_name_tag_event \<times> world_net" where
  "queue_name_tag_event a w = (case a of (player_id, shown) \<Rightarrow>
     let n = bump_seq (name_tag_event_seq w);
         e = \<lparr>te_seq = n, te_player_id = player_id, te_show = (if shown \<noteq> 0 then 1 else 0)\<rparr>
     in (e, w\<lparr>name_tag_event_seq := n,
              name_tag_events := (name_tag_events w)[ring_slot SAMP_RAKNET_NAME_TAG_EVENT_RING n := e]\<rparr>))"

definition decode_show_name_tag_payload :: "u8 list \<Rightarrow> world_net \<Rightarrow> (bool \<times> world_net) mem" where
  "decode_show_name_tag_payload data w =
     (if length data < 3 then Some (False, w)
      else do {
        player_id \<leftarrow> read_le16 data 0;
        shown \<leftarrow> read_byte data 2;
        if unat player_id \<ge> SAMP_RAKNET_MAX_PLAYERS then Some (False, w)
        else Some (True, snd (queue_name_tag_event (player_id, if shown \<noteq> 0 then 1 else 0) w)) })"

definition queue_death_window_event ::
  "u8 \<times> u16 \<times> u16 \<times> u8 \<Rightarrow> world_net \<Rightarrow> samp_raknet_death_window_event \<times> world_net" where
  "queue_death_window_event a w = (case a of (action, killer_id, killee_id, reason) \<Rightarrow>
     let n = bump_seq (death_window_event_seq w);
         e = \<lparr>de_seq = n, de_action = action, de_reason = reason, de_killer_id = killer_id, de_killee_id = killee_id\<rparr>
     in (e, w\<lparr>death_window_event_seq := n,
              death_window_events := (death_window_events w)[ring_slot SAMP_RAKNET_DEATH_WINDOW_EVENT_RING n := e]\<rparr>))"

definition decode_death_message :: "u8 list \<Rightarrow> (u16 \<times> u16 \<times> u8) option mem" where
  "decode_death_message data =
     (if length data < 5 then Some None
      else do {
        b0 \<leftarrow> read_byte data 0;
        b1 \<leftarrow> read_byte data 1;
        b2 \<leftarrow> read_byte data 2;
        b3 \<leftarrow> read_byte data 3;
        reason \<leftarrow> read_byte data 4;
        Some (Some (ucast b0 OR push_bit 8 (ucast b1), ucast b2 OR push_bit 8 (ucast b3), reason)) })"

definition decode_death_message_payload :: "u8 list \<Rightarrow> world_net \<Rightarrow> (bool \<times> world_net) mem" where
  "decode_death_message_payload data w = do {
     decoded \<leftarrow> decode_death_message data;
     case decoded of None \<Rightarrow> Some (False, w)
     | Some (killer, killee, reason) \<Rightarrow>
         Some (True, snd (queue_death_window_event (SAMP_RAKNET_DEATH_WINDOW_ACTION_ADD, killer, killee, reason) w)) }"

section \<open>Buildings, crime reports, attached objects and edit modes\<close>

definition queue_remove_building_event ::
  "int \<times> f32 list \<times> f32 \<Rightarrow> world_net \<Rightarrow> samp_raknet_remove_building_event \<times> world_net" where
  "queue_remove_building_event a w = (case a of (m, pos, radius) \<Rightarrow>
     let n = bump_seq (remove_building_event_seq w);
         e = \<lparr>be_seq = n, be_model = m, be_position = pos, be_radius = radius\<rparr>
     in (e, w\<lparr>remove_building_event_seq := n, remove_building_events :=
              (remove_building_events w)[ring_slot SAMP_RAKNET_REMOVE_BUILDING_EVENT_RING n := e]\<rparr>))"

definition decode_remove_building_payload :: "u8 list \<Rightarrow> world_net \<Rightarrow> (bool \<times> world_net) mem" where
  "decode_remove_building_payload data w =
     (if length data < 20 then Some (False, w)
      else do {
        m \<leftarrow> read_le_i32 data 0;
        pos \<leftarrow> read_vec3 data 4;
        radius \<leftarrow> read_le_float data 16;
        if \<not> f32_finite (pos ! 0) \<or> \<not> f32_finite (pos ! 1) \<or> \<not> f32_finite (pos ! 2) \<or> \<not> f32_finite radius \<or>
           \<not> f32_within 0 20000 radius
        then Some (False, w)
        else
          let w = snd (queue_remove_building_event (m, pos, radius) w)
          in Some (True, w\<lparr>last_visual := set_world_visual_event SAMP_RAKNET_WORLD_VISUAL_REMOVE_BUILDING 0 m 0
               (Some (pos @ [radius])) ''remove_building_for_player'' (last_visual w)\<rparr>) })"

definition decode_play_crime_report_payload :: "u8 list \<Rightarrow> world_net \<Rightarrow> (bool \<times> world_net) mem" where
  "decode_play_crime_report_payload data w =
     (if length data < 30 then Some (False, w)
      else do {
        suspect \<leftarrow> read_le16 data 0;
        in_vehicle \<leftarrow> read_le32 data 2;
        vehicle_model \<leftarrow> read_le32 data 6;
        vehicle_color \<leftarrow> read_le32 data 10;
        crime \<leftarrow> read_le32 data 14;
        pos \<leftarrow> read_vec3 data 18;
        if \<not> object_vec_plausible pos then Some (False, w)
        else
          let n = bump_seq (crime_report_event_seq w)
          in Some (True, w\<lparr>crime_report_event_seq := n,
               crime_report_event := \<lparr>ce_seq = n, ce_suspect_id = suspect, ce_in_vehicle = in_vehicle,
                 ce_vehicle_model = vehicle_model, ce_vehicle_color = vehicle_color, ce_crime_id = crime,
                 ce_position = pos\<rparr>\<rparr>) })"

text \<open>Three floats in a row of the stream.\<close>

definition read_floats3 :: "'b bitstream \<Rightarrow> 'b \<Rightarrow> (f32 list \<times> 'b) option" where
  "read_floats3 B s = do {
     (x, s) \<leftarrow> bs_u32 B s;
     (y, s) \<leftarrow> bs_u32 B s;
     (z, s) \<leftarrow> bs_u32 B s;
     Some ([x, y, z], s) }"

definition attachment_plausible :: "samp_raknet_attached_object_event \<Rightarrow> bool" where
  "attachment_plausible e \<longleftrightarrow> 1 \<le> ae_bone e \<and> ae_bone e \<le> 18 \<and> object_vec_plausible (ae_offset e) \<and>
     object_rot_plausible (ae_rotation e) \<and> (\<forall>k\<in>{0, 1, 2}. f32_finite (ae_scale e ! k) \<and> 0 < f32_scaled (ae_scale e ! k))"

definition read_attached_object :: "'b bitstream \<Rightarrow> samp_raknet_attached_object_event \<Rightarrow> 'b \<Rightarrow>
    samp_raknet_attached_object_event option" where
  "read_attached_object B e s = do {
     (m, s) \<leftarrow> bs_u32 B s;
     (bone, s) \<leftarrow> bs_u32 B s;
     (offset, s) \<leftarrow> read_floats3 B s;
     (rotation, s) \<leftarrow> read_floats3 B s;
     (scale, s) \<leftarrow> read_floats3 B s;
     (color1, s) \<leftarrow> bs_u32 B s;
     (color2, s) \<leftarrow> bs_u32 B s;
     let e = e\<lparr>ae_model := m, ae_bone := bone, ae_offset := offset, ae_rotation := rotation, ae_scale := scale,
       ae_color1 := color1, ae_color2 := color2\<rparr>;
     if attachment_plausible e then Some e else None }"

definition read_attached_event :: "'b bitstream \<Rightarrow> 'b \<Rightarrow> samp_raknet_attached_object_event option" where
  "read_attached_event B s = do {
     (player_id, s) \<leftarrow> bs_u16 B s;
     (i, s) \<leftarrow> bs_u32 B s;
     (create, s) \<leftarrow> bs_bool B s;
     let e = zero_attached_event\<lparr>ae_player_id := player_id, ae_index := i, ae_action :=
       (if create then SAMP_RAKNET_ATTACHED_OBJECT_ACTION_SET else SAMP_RAKNET_ATTACHED_OBJECT_ACTION_REMOVE)\<rparr>;
     if unat player_id \<ge> SAMP_RAKNET_MAX_PLAYERS \<or> i \<ge> SAMP_RAKNET_MAX_ATTACHED_OBJECTS then None
     else if create then read_attached_object B e s else Some e }"

definition queue_attached_object_event ::
  "samp_raknet_attached_object_event \<Rightarrow> world_net \<Rightarrow> samp_raknet_attached_object_event \<times> world_net" where
  "queue_attached_object_event body w =
     (let n = bump_seq (attached_object_event_seq w); e = body\<lparr>ae_seq := n\<rparr>
      in (e, w\<lparr>attached_object_event_seq := n, attached_object_events :=
              (attached_object_events w)[ring_slot SAMP_RAKNET_ATTACHED_OBJECT_EVENT_RING n := e]\<rparr>))"

definition decode_set_player_attached_object_payload ::
  "'b bitstream \<Rightarrow> u8 list \<Rightarrow> world_net \<Rightarrow> (bool \<times> world_net) mem" where
  "decode_set_player_attached_object_payload B data w =
     (if length data < 7 then Some (False, w)
      else case read_attached_event B (bs_open B data) of
        None \<Rightarrow> Some (False, w)
      | Some e \<Rightarrow> Some (True, snd (queue_attached_object_event e w)))"

definition set_edit_event :: "samp_raknet_edit_event \<Rightarrow> world_net \<Rightarrow> world_net" where
  "set_edit_event e w = (let n = bump_seq (edit_event_seq w)
     in w\<lparr>edit_event_seq := n, edit_event := e\<lparr>ee_seq := n\<rparr>\<rparr>)"

definition decode_begin_edit_payload :: "'b bitstream \<Rightarrow> u8 \<Rightarrow> u8 list \<Rightarrow> world_net \<Rightarrow> (bool \<times> world_net) mem" where
  "decode_begin_edit_payload B rpc_id data w =
     (if rpc_id = 116
      then if length data < 4 then Some (False, w)
           else do {
             i \<leftarrow> read_le32 data 0;
             if i \<ge> SAMP_RAKNET_MAX_ATTACHED_OBJECTS then Some (False, w)
             else Some (True, set_edit_event (zero_edit_event\<lparr>ee_action := SAMP_RAKNET_EDIT_ACTION_ATTACHED_OBJECT,
               ee_attached_index := i\<rparr>) w) }
      else if rpc_id = 117
      then if length data < 3 then Some (False, w)
           else case do {
               (player_object, s) \<leftarrow> bs_bool B (bs_open B data);
               (object_id, s) \<leftarrow> bs_u16 B s;
               if object_id_valid object_id then Some (player_object, object_id) else None } of
             None \<Rightarrow> Some (False, w)
           | Some (player_object, object_id) \<Rightarrow>
               Some (True, set_edit_event (zero_edit_event\<lparr>ee_action := SAMP_RAKNET_EDIT_ACTION_OBJECT,
                 ee_player_object := (if player_object then 1 else 0), ee_object_id := object_id\<rparr>) w)
      else Some (False, w))"

definition cancel_edit :: "world_net \<Rightarrow> world_net" where
  "cancel_edit w = set_edit_event (zero_edit_event\<lparr>ee_action := SAMP_RAKNET_EDIT_ACTION_CANCEL\<rparr>)
     (w\<lparr>cancel_edit_seq := bump_seq (cancel_edit_seq w)\<rparr>)"

text \<open>The branches of \<^verbatim>\<open>rpc_observer\<close> for these RPCs.\<close>

definition observe_world_rpc :: "'b bitstream \<Rightarrow> u8 \<Rightarrow> u8 list \<Rightarrow> world_net \<Rightarrow> (bool \<times> world_net) mem" where
  "observe_world_rpc B rpc_id data w =
     (if rpc_id = 56 then decode_set_map_icon_payload data w
      else if rpc_id = 144 then decode_remove_map_icon_payload data w
      else if rpc_id = 36 then decode_create_3d_text_label_payload B data w
      else if rpc_id = 58 then decode_update_3d_text_label_payload B data w
      else if rpc_id = 64 then decode_delete_3d_text_label_payload data w
      else if rpc_id = 28 then Some (True, cancel_edit w)
      else if rpc_id = 43 then decode_remove_building_payload data w
      else if rpc_id = 112 then decode_play_crime_report_payload data w
      else if rpc_id = 113 then decode_set_player_attached_object_payload B data w
      else if rpc_id = 116 \<or> rpc_id = 117 then decode_begin_edit_payload B rpc_id data w
      else if rpc_id = 55 then decode_death_message_payload data w
      else if rpc_id = 80 then decode_show_name_tag_payload data w
      else Some (False, w))"
section \<open>Snapshot loops that count up to the newest number\<close>

text \<open>
  \<^verbatim>\<open>for (unsigned int seq = first_seq; seq <= newest; ++seq)\<close>, which copies the attached-object ring and the
  building ring. \<^verbatim>\<open>++seq\<close> wraps, so the loop need not end: \<open>None\<close> is a loop that runs forever.
\<close>

partial_function (option) ring_copy_upto ::
  "nat \<Rightarrow> ('e \<Rightarrow> u32) \<Rightarrow> 'e list \<Rightarrow> u32 \<Rightarrow> u32 \<Rightarrow> 'e list \<Rightarrow> 'e list option" where
  "ring_copy_upto N seq_of ring newest n out =
     (if n \<le> newest then ring_copy_upto N seq_of ring newest (n + 1) (ring_copy_one N seq_of ring n out) else Some out)"

definition ring_snapshot_upto :: "nat \<Rightarrow> ('e \<Rightarrow> u32) \<Rightarrow> u32 \<Rightarrow> 'e list \<Rightarrow> 'e list option" where
  "ring_snapshot_upto N seq_of newest ring =
     (if newest > 0
      then ring_copy_upto N seq_of ring newest (newest - of_nat (ring_available N newest) + 1) []
      else Some [])"

definition attached_object_snapshot :: "world_net \<Rightarrow> samp_raknet_attached_object_event list option" where
  "attached_object_snapshot w =
     ring_snapshot_upto SAMP_RAKNET_ATTACHED_OBJECT_EVENT_RING ae_seq (attached_object_event_seq w) (attached_object_events w)"

definition remove_building_snapshot :: "world_net \<Rightarrow> samp_raknet_remove_building_event list option" where
  "remove_building_snapshot w =
     ring_snapshot_upto SAMP_RAKNET_REMOVE_BUILDING_EVENT_RING be_seq (remove_building_event_seq w) (remove_building_events w)"

lemma ring_copy_upto_returns:
  assumes "ring_copy_upto N seq_of ring newest n out = Some y"
  shows "newest \<noteq> 0xFFFFFFFF"
  using assms
proof (rule ring_copy_upto.raw_induct[where P = "\<lambda>N seq_of ring newest n out y. newest \<noteq> 0xFFFFFFFF", rotated])
  fix loop :: "nat \<Rightarrow> ('a \<Rightarrow> u32) \<Rightarrow> 'a list \<Rightarrow> u32 \<Rightarrow> u32 \<Rightarrow> 'a list \<Rightarrow> 'a list option"
    and N seq_of ring newest n out y
  assume ih: "\<And>N seq_of ring newest n out y. loop N seq_of ring newest n out = Some y \<Longrightarrow> newest \<noteq> 0xFFFFFFFF"
    and step: "(if n \<le> newest then loop N seq_of ring newest (n + 1) (ring_copy_one N seq_of ring n out) else Some out) = Some y"
  show "newest \<noteq> 0xFFFFFFFF"
  proof (cases "n \<le> newest")
    case True
    then show ?thesis using ih step by simp
  next
    case False
    then have "newest < n" by simp
    also have "n \<le> 0xFFFFFFFF" using unat_u32_lt[of n] by (simp add: word_le_nat_alt)
    finally show ?thesis by simp
  qed
qed

lemma ring_copy_upto_steps:
  assumes "unat newest + 1 < 4294967296" "unat n + k = unat newest + 1"
  shows "ring_copy_upto N seq_of ring newest n out = Some (fold (\<lambda>i. ring_copy_one N seq_of ring (n + of_nat i)) [0..<k] out)"
  using assms(2)
proof (induction k arbitrary: n out)
  case 0
  then have "\<not> n \<le> newest" by (simp add: word_le_nat_alt)
  then show ?case by (subst ring_copy_upto.simps) simp
next
  case (Suc k)
  have "n \<le> newest" using Suc.prems by (simp add: word_le_nat_alt)
  moreover have "unat (n + 1) = unat n + 1" using Suc.prems assms(1) unat_add_u32[of n 1] by simp
  then have "ring_copy_upto N seq_of ring newest (n + 1) (ring_copy_one N seq_of ring n out) =
      Some (fold (\<lambda>i. ring_copy_one N seq_of ring (n + 1 + of_nat i)) [0..<k] (ring_copy_one N seq_of ring n out))"
    using Suc.prems by (intro Suc.IH) simp
  moreover have "fold (\<lambda>i. ring_copy_one N seq_of ring (n + of_nat i)) [0..<Suc k] out =
      fold (\<lambda>i. ring_copy_one N seq_of ring (n + 1 + of_nat i)) [0..<k] (ring_copy_one N seq_of ring n out)"
    by (simp add: upt_rec[of 0 "Suc k"] map_Suc_upt[symmetric] fold_map o_def add.assoc del: upt_Suc)
  ultimately show ?case by (subst ring_copy_upto.simps) simp
qed

lemma ring_snapshot_upto_eq:
  assumes "0 < N"
  shows "ring_snapshot_upto N seq_of newest ring =
    (if newest = 0xFFFFFFFF then None else Some (ring_snapshot N seq_of newest ring))"
proof (cases "newest = 0xFFFFFFFF")
  case True
  have "ring_copy_upto N seq_of ring newest n out = None" for n out
    using ring_copy_upto_returns[of N seq_of ring newest n out] True by (cases "ring_copy_upto N seq_of ring newest n out") auto
  then show ?thesis using True by (simp add: ring_snapshot_upto_def)
next
  case False
  have "unat newest \<noteq> unat (0xFFFFFFFF :: u32)" using False unfolding word_unat_eq_iff .
  then have room: "unat newest + 1 < 4294967296" using unat_u32_lt[of newest] by simp
  let ?a = "ring_available N newest"
  have a: "?a \<le> unat newest" by (simp add: ring_available_def)
  have "unat (newest - of_nat ?a) = unat newest - ?a"
    using a room by (subst unat_sub) (simp_all add: word_le_nat_alt unat_of_nat_u32)
  moreover have "0 < newest \<Longrightarrow> 0 < ?a" using assms by (simp add: ring_available_def word_less_nat_alt)
  ultimately have "0 < newest \<Longrightarrow> unat (newest - of_nat ?a + 1) + ?a = unat newest + 1"
    using a room unat_add_u32[of "newest - of_nat ?a" 1] by simp
  from ring_copy_upto_steps[OF room this, of N seq_of ring] show ?thesis
    using False by (simp add: ring_snapshot_upto_def ring_snapshot_def Let_def)
qed

section \<open>What the rings hold\<close>

definition label_text_ok :: "string \<Rightarrow> bool" where
  "label_text_ok t \<longleftrightarrow> length t < SAMP_RAKNET_3D_TEXT_LABEL_TEXT_BYTES \<and>
     (\<forall>c\<in>set t. 32 \<le> (of_char c :: nat) \<or> c \<in> {CHR 0x0A, CHR 0x0D, CHR 0x09}) \<and> (t = [] \<or> \<not> label_space (last t))"

definition vec3_finite :: "f32 list \<Rightarrow> bool" where
  "vec3_finite v \<longleftrightarrow> length v = 3 \<and> f32_finite (v ! 0) \<and> f32_finite (v ! 1) \<and> f32_finite (v ! 2)"

definition label_event_ok :: "samp_raknet_3d_text_label_event \<Rightarrow> bool" where
  "label_event_ok e \<longleftrightarrow> unat (le_label_id e) < SAMP_RAKNET_MAX_3D_TEXT_LABELS \<and> label_text_ok (le_text e) \<and>
     (le_attached_player_id e = 0xFFFF \<or> unat (le_attached_player_id e) < SAMP_RAKNET_MAX_PLAYERS) \<and>
     (le_attached_vehicle_id e = 0xFFFF \<or> unat (le_attached_vehicle_id e) < SAMP_RAKNET_MAX_VEHICLES) \<and>
     vec3_finite (le_pos e) \<and>
     f32_finite (le_draw_distance e) \<and> f32_within 0 10000 (le_draw_distance e)"

definition icon_event_ok :: "samp_raknet_map_icon_event \<Rightarrow> bool" where
  "icon_event_ok e \<longleftrightarrow> ie_index e < SAMP_RAKNET_MAP_ICON_MAX \<and> vec3_finite (ie_pos e)"

definition tag_event_ok :: "samp_raknet_name_tag_event \<Rightarrow> bool" where
  "tag_event_ok e \<longleftrightarrow> unat (te_player_id e) < SAMP_RAKNET_MAX_PLAYERS \<and> te_show e \<le> 1"

definition attached_event_ok :: "samp_raknet_attached_object_event \<Rightarrow> bool" where
  "attached_event_ok e \<longleftrightarrow> unat (ae_player_id e) < SAMP_RAKNET_MAX_PLAYERS \<and> ae_index e < SAMP_RAKNET_MAX_ATTACHED_OBJECTS \<and>
     (ae_action e = SAMP_RAKNET_ATTACHED_OBJECT_ACTION_SET \<longrightarrow> attachment_plausible e)"

definition building_event_ok :: "samp_raknet_remove_building_event \<Rightarrow> bool" where
  "building_event_ok e \<longleftrightarrow> vec3_finite (be_position e) \<and>
     f32_finite (be_radius e) \<and> f32_within 0 20000 (be_radius e)"

definition world_typed :: "world_net \<Rightarrow> bool" where
  "world_typed w \<longleftrightarrow> (\<forall>e\<in>set (text_label_events w). label_event_ok e) \<and> (\<forall>e\<in>set (map_icon_events w). icon_event_ok e) \<and>
     (\<forall>e\<in>set (name_tag_events w). tag_event_ok e) \<and> (\<forall>e\<in>set (attached_object_events w). attached_event_ok e) \<and>
     (\<forall>e\<in>set (remove_building_events w). building_event_ok e)"

lemma f32_within_0 [simp]: "0 \<le> k \<Longrightarrow> f32_within 0 k 0"
  by (simp add: f32_within_def f32_scaled_def f32_exponent_def)

lemma reset_world_typed: "world_typed reset_world_net"
  by (simp add: world_typed_def reset_world_net_def label_event_ok_def label_text_ok_def icon_event_ok_def tag_event_ok_def
      attached_event_ok_def building_event_ok_def zero_label_event_def zero_icon_event_def zero_attached_event_def vec3_finite_def world_consts)

lemma sanitize_label_ok:
  assumes "length t < SAMP_RAKNET_3D_TEXT_LABEL_TEXT_BYTES"
  shows "label_text_ok (sanitize_3d_text_label_text t)"
proof -
  let ?s = "rev (map sanitize_label_char t)"
  have "length (dropWhile label_space ?s) < SAMP_RAKNET_3D_TEXT_LABEL_TEXT_BYTES"
    using length_dropWhile_le[of label_space ?s] assms by simp
  moreover have "32 \<le> (of_char c :: nat) \<or> c \<in> {CHR 0x0A, CHR 0x0D, CHR 0x09}" if "c \<in> set (dropWhile label_space ?s)" for c
    using set_dropWhileD[OF that] by (auto simp: sanitize_label_char_def)
  moreover have "dropWhile label_space ?s = [] \<or> \<not> label_space (last (rev (dropWhile label_space ?s)))"
    using hd_dropWhile[of label_space ?s] by (auto simp: last_rev)
  ultimately show ?thesis by (auto simp: label_text_ok_def sanitize_3d_text_label_text_def)
qed

lemma label_tail_ok:
  assumes "bitstream_ok B" "decode_3d_text_label_tail B data offset SAMP_RAKNET_3D_TEXT_LABEL_TEXT_BYTES = Some t"
  shows "label_text_ok t" "copy_text SAMP_RAKNET_3D_TEXT_LABEL_TEXT_BYTES t = t"
proof -
  have plain: "length (bytes_string xs) < SAMP_RAKNET_3D_TEXT_LABEL_TEXT_BYTES" if "length xs < SAMP_RAKNET_3D_TEXT_LABEL_TEXT_BYTES" for xs
    using bytes_string_length[of "length xs" xs] that by simp
  show ok: "label_text_ok t"
    using assms(2)
    by (auto simp: decode_3d_text_label_tail_def decode_3d_text_label_compressed_tail_def decode_3d_text_label_plain_tail_def Let_def
        dest!: bs_string_ok[OF assms(1)] intro!: sanitize_label_ok plain split: if_splits option.splits)
  show "copy_text SAMP_RAKNET_3D_TEXT_LABEL_TEXT_BYTES t = t"
    using ok by (auto simp: copy_text_def label_text_ok_def world_consts)
qed

lemma in_update: "x \<in> set (xs[i := y]) \<Longrightarrow> x = y \<or> x \<in> set xs"
  using set_update_subset_insert[of xs i y] by blast

lemma label_typed:
  assumes "world_typed w" "label_event_ok body" "unat i < SAMP_RAKNET_MAX_3D_TEXT_LABELS"
  shows "world_typed (snd (queue_3d_text_label_event (action, i, body) w))"
  using assms by (auto simp: world_typed_def queue_3d_text_label_event_def Let_def label_event_ok_def dest!: in_update)

lemma fresh_label_ok: "label_event_ok fresh_label"
  by (simp add: label_event_ok_def fresh_label_def zero_label_event_def label_text_ok_def vec3_finite_def world_consts)

lemma visual_typed [simp]: "world_typed (w\<lparr>last_visual := v\<rparr>) = world_typed w"
  by (simp add: world_typed_def)

lemma label_rpcs_typed:
  assumes "world_typed w" "bitstream_ok B"
  shows "decode_create_3d_text_label_payload B data w = Some (r, w') \<Longrightarrow> world_typed w'"
    and "decode_update_3d_text_label_payload B data w = Some (r, w') \<Longrightarrow> world_typed w'"
    and "decode_delete_3d_text_label_payload data w = Some (r, w') \<Longrightarrow> world_typed w'"
proof -
  note tail = label_tail_ok[OF assms(2)]
  show "decode_create_3d_text_label_payload B data w = Some (r, w') \<Longrightarrow> world_typed w'"
    using assms(1)
    by (auto simp: decode_create_3d_text_label_payload_def bind_Some_iff Let_def label_event_ok_def not_le tail length_read_vec3 vec3_finite_def fresh_label_def
        zero_label_event_def SAMP_RAKNET_MAX_3D_TEXT_LABELS_def
        intro!: label_typed split: if_splits option.splits)
  show "decode_update_3d_text_label_payload B data w = Some (r, w') \<Longrightarrow> world_typed w'"
    using assms(1) fresh_label_ok
    by (auto simp: decode_update_3d_text_label_payload_def bind_Some_iff label_event_ok_def not_le tail
        intro!: label_typed split: if_splits option.splits)
  show "decode_delete_3d_text_label_payload data w = Some (r, w') \<Longrightarrow> world_typed w'"
    using assms(1) fresh_label_ok
    by (auto simp: decode_delete_3d_text_label_payload_def bind_Some_iff not_le intro!: label_typed split: if_splits)
qed

lemma small_rpcs_typed:
  assumes "world_typed w"
  shows "decode_set_map_icon_payload data w = Some (r, w') \<Longrightarrow> world_typed w'"
    and "decode_remove_map_icon_payload data w = Some (r, w') \<Longrightarrow> world_typed w'"
    and "decode_show_name_tag_payload data w = Some (r, w') \<Longrightarrow> world_typed w'"
    and "decode_death_message_payload data w = Some (r, w') \<Longrightarrow> world_typed w'"
    and "decode_remove_building_payload data w = Some (r, w') \<Longrightarrow> world_typed w'"
    and "decode_play_crime_report_payload data w = Some (r, w') \<Longrightarrow> world_typed w'"
    and "decode_begin_edit_payload B rpc_id data w = Some (r, w') \<Longrightarrow> world_typed w'"
    and "world_typed (cancel_edit w)"
  using assms
  by (auto simp: decode_set_map_icon_payload_def decode_remove_map_icon_payload_def decode_show_name_tag_payload_def
      decode_death_message_payload_def decode_remove_building_payload_def decode_play_crime_report_payload_def
      decode_begin_edit_payload_def bind_Some_iff queue_map_icon_event_def queue_name_tag_event_def queue_death_window_event_def
      queue_remove_building_event_def set_edit_event_def cancel_edit_def Let_def world_typed_def icon_event_ok_def tag_event_ok_def
      building_event_ok_def vec3_finite_def length_read_vec3 not_le dest!: in_update split: if_splits option.splits)

lemma attachment_plausible_seq [simp]: "attachment_plausible (e\<lparr>ae_seq := n\<rparr>) = attachment_plausible e"
  by (simp add: attachment_plausible_def)

lemma attached_rpc_typed:
  assumes "world_typed w" "decode_set_player_attached_object_payload B data w = Some (r, w')"
  shows "world_typed w'"
proof -
  have "attached_event_ok (e\<lparr>ae_seq := n\<rparr>)" if "read_attached_event B s = Some e" for e s n
    using that
    by (auto simp: read_attached_event_def read_attached_object_def bind_Some_iff Let_def attached_event_ok_def
        not_le zero_attached_event_def world_consts split: if_splits)
  then show ?thesis using assms
    by (auto simp: decode_set_player_attached_object_payload_def queue_attached_object_event_def Let_def world_typed_def
        dest!: in_update split: if_splits option.splits)
qed

lemma observe_world_rpc_typed:
  "world_typed w \<Longrightarrow> bitstream_ok B \<Longrightarrow> observe_world_rpc B rpc_id data w = Some (r, w') \<Longrightarrow> world_typed w'"
  unfolding observe_world_rpc_def
  by (auto dest: small_rpcs_typed(1-7) label_rpcs_typed attached_rpc_typed intro: small_rpcs_typed(8) split: if_splits)

lemma observe_world_rpc_total: "\<exists>r. observe_world_rpc B rpc_id data w = Some r"
proof -
  have "decode_set_map_icon_payload data w \<noteq> None"
    using read_byte_in[of 0 data] read_vec3_in[of 1 data] read_byte_in[of 13 data] read_le32_in[of 14 data] read_byte_in[of 18 data]
    by (cases "length data < 19"; cases data) (auto simp: decode_set_map_icon_payload_def)
  moreover have "decode_remove_map_icon_payload data w \<noteq> None"
    using read_byte_in[of 0 data] by (cases "length data < 1") (auto simp: decode_remove_map_icon_payload_def)
  moreover have "decode_show_name_tag_payload data w \<noteq> None"
    using read_le16_in[of 0 data] read_byte_in[of 2 data]
    by (cases "length data < 3") (auto simp: decode_show_name_tag_payload_def)
  moreover have "decode_death_message data \<noteq> None"
    by (cases "length data < 5"; cases data) (auto simp: decode_death_message_def read_byte_def)
  then have "decode_death_message_payload data w \<noteq> None"
    by (auto simp: decode_death_message_payload_def split: option.splits)
  moreover have "decode_create_3d_text_label_payload B data w \<noteq> None"
    using read_le16_in[of 0 data] read_le32_in[of 2 data] read_vec3_in[of 6 data] read_le_float_in[of 18 data] read_byte_in[of 22 data]
      read_le16_in[of 23 data] read_le16_in[of 25 data]
    by (cases "length data < 27") (auto simp: decode_create_3d_text_label_payload_def Let_def split: option.splits)
  moreover have "decode_update_3d_text_label_payload B data w \<noteq> None"
    using read_le16_in[of 0 data] read_le32_in[of 2 data]
    by (cases "length data < 6") (auto simp: decode_update_3d_text_label_payload_def split: option.splits)
  moreover have "decode_delete_3d_text_label_payload data w \<noteq> None"
    using read_le16_in[of 0 data] by (cases "length data < 2") (auto simp: decode_delete_3d_text_label_payload_def)
  moreover have "decode_remove_building_payload data w \<noteq> None"
    using read_le_i32_in[of 0 data] read_vec3_in[of 4 data] read_le_float_in[of 16 data]
    by (cases "length data < 20") (auto simp: decode_remove_building_payload_def Let_def)
  moreover have "decode_play_crime_report_payload data w \<noteq> None"
    using read_le16_in[of 0 data] read_le32_in[of 2 data] read_le32_in[of 6 data] read_le32_in[of 10 data] read_le32_in[of 14 data]
      read_vec3_in[of 18 data]
    by (cases "length data < 30") (auto simp: decode_play_crime_report_payload_def Let_def)
  moreover have "decode_set_player_attached_object_payload B data w \<noteq> None"
    by (auto simp: decode_set_player_attached_object_payload_def split: option.splits)
  moreover have "decode_begin_edit_payload B rpc_id data w \<noteq> None"
    using read_le32_in[of 0 data]
    by (cases "length data < 4") (auto simp: decode_begin_edit_payload_def split: option.splits)
  ultimately have "observe_world_rpc B rpc_id data w \<noteq> None" by (simp add: observe_world_rpc_def del: not_None_eq)
  then show ?thesis by blast
qed

inductive world_reachable :: "'b bitstream \<Rightarrow> world_net \<Rightarrow> bool" for B where
  connect: "world_reachable B reset_world_net"
| receive: "world_reachable B w \<Longrightarrow> observe_world_rpc B rpc_id data w = Some (r, w') \<Longrightarrow> world_reachable B w'"

lemma world_reachable_typed: "world_reachable B w \<Longrightarrow> bitstream_ok B \<Longrightarrow> world_typed w"
  by (induction rule: world_reachable.induct) (auto intro: reset_world_typed observe_world_rpc_typed)

section \<open>Properties\<close>

text \<open>C37: Every world RPC is decoded without a read outside its payload, and every event a consumer can ever find in the
  rings of labels, map icons, name tags, attached objects and removed buildings is well-formed: ids, icon numbers and bone numbers in range,
  finite coordinates, distances and radii within their limits, and label texts that fit their array, contain no control characters other
  than newline, carriage return and tab, and end in no white space. (The kill list takes any player numbers.)\<close>

theorem world_events_well_typed:
  assumes "world_reachable B w" "bitstream_ok B"
  shows "\<exists>r w'. observe_world_rpc B rpc_id data w = Some (r, w') \<and> world_typed w'"
  using observe_world_rpc_total[of B rpc_id data w] world_reachable_typed[OF assms] assms(2) observe_world_rpc_typed
  by (metis surj_pair)

theorem world_events_well_typed_witness:
  "\<exists>r w'. observe_world_rpc bit_list_stream 36 (replicate 27 0 @ [0x41, 0x07, 0x20]) (cancel_edit reset_world_net) = Some (r, w') \<and> world_typed w'"
proof -
  have "observe_world_rpc bit_list_stream 28 [] reset_world_net = Some (True, cancel_edit reset_world_net)"
    by (simp add: observe_world_rpc_def)
  from world_events_well_typed[OF world_reachable.receive[OF world_reachable.connect this] bit_list_stream_ok] show ?thesis .
qed

text \<open>C38: The copy of the attached-object ring and of the building ring into a snapshot returns, with the same events as a
  loop that counts the available ones, unless the newest number is the largest 32-bit number: then \<open>seq <= newest\<close> never fails and
  the loop runs forever.\<close>

theorem ring_loops_terminate:
  "attached_object_snapshot w = (if attached_object_event_seq w = 0xFFFFFFFF then None
     else Some (ring_snapshot SAMP_RAKNET_ATTACHED_OBJECT_EVENT_RING ae_seq (attached_object_event_seq w) (attached_object_events w))) \<and>
   remove_building_snapshot w = (if remove_building_event_seq w = 0xFFFFFFFF then None
     else Some (ring_snapshot SAMP_RAKNET_REMOVE_BUILDING_EVENT_RING be_seq (remove_building_event_seq w) (remove_building_events w)))"
  unfolding attached_object_snapshot_def remove_building_snapshot_def
  by (simp add: ring_snapshot_upto_eq world_consts)

end
