(* ===== verification/RpcDialog.thy ===== *)
theory RpcDialog
  imports RpcWorld
begin

text \<open>
  The dialog box of RPC 61 in \<^verbatim>\<open>src/net/raknet_client_adapter.cpp\<close>: the plain layout with one length byte
  per field, the compressed layout, and the clean-up of the texts. The texts of the open dialog are a \<open>dialog\<close>;
  a decoder returns whether it accepted the payload and the dialog it leaves.
\<close>

section \<open>Data\<close>

definition kDialogTitleBytes :: nat where "kDialogTitleBytes = 256"
definition kDialogInfoBytes :: nat where "kDialogInfoBytes = 4096"
definition kDialogButtonBytes :: nat where "kDialogButtonBytes = 64"

lemmas dialog_consts = kDialogTitleBytes_def kDialogInfoBytes_def kDialogButtonBytes_def

record dialog =
  last_dialog_id :: u16
  last_dialog_style :: u8
  dialog_title :: string
  dialog_info :: string
  dialog_button1 :: string
  dialog_button2 :: string

definition no_dialog :: dialog where
  "no_dialog = \<lparr>last_dialog_id = 0, last_dialog_style = 0, dialog_title = [], dialog_info = [],
     dialog_button1 = [], dialog_button2 = []\<rparr>"

section \<open>Texts\<close>

definition layout_char :: "char \<Rightarrow> bool" where
  "layout_char c \<longleftrightarrow> c = CHR 0x0A \<or> c = CHR 0x0D \<or> c = CHR 0x09"

definition sanitize_dialog_char :: "char \<Rightarrow> char" where
  "sanitize_dialog_char c = (if (of_char c :: nat) < 32 \<and> \<not> layout_char c then CHR '' '' else c)"

definition sanitize_dialog_text :: "string \<Rightarrow> string" where
  "sanitize_dialog_text t = map sanitize_dialog_char t"

definition printable_char :: "char \<Rightarrow> bool" where
  "printable_char c \<longleftrightarrow> 32 \<le> (of_char c :: nat) \<or> layout_char c"

text \<open>The three counters of the loop: printable bytes, other control bytes, printable bytes above 0x7F.\<close>

fun count_dialog_bytes :: "string \<Rightarrow> nat \<times> nat \<times> nat \<Rightarrow> nat \<times> nat \<times> nat" where
  "count_dialog_bytes [] n = n"
| "count_dialog_bytes (c # t) (printable, controls, high_bytes) =
     count_dialog_bytes t
       (if printable_char c then (printable + 1, controls, if 0x80 \<le> (of_char c :: nat) then high_bytes + 1 else high_bytes)
        else (printable, controls + 1, high_bytes))"

definition dialog_text_has_printable_content :: "string \<Rightarrow> bool" where
  "dialog_text_has_printable_content t = (if t = [] then False
     else case count_dialog_bytes t (0, 0, 0) of (printable, controls, high_bytes) \<Rightarrow>
       printable > 0 \<and> controls = 0 \<and> high_bytes * 4 \<le> printable)"

text \<open>\<^verbatim>\<open>strstr(text, needle) != nullptr\<close>.\<close>

fun has_substring :: "string \<Rightarrow> string \<Rightarrow> bool" where
  "has_substring needle [] = (needle = [])"
| "has_substring needle (c # t) = (take (length needle) (c # t) = needle \<or> has_substring needle t)"

section \<open>The plain layout\<close>

text \<open>
  One field: the result is whether it was complete, the offset after it and the text, where \<open>old\<close> is what
  the array held before.
\<close>

definition read_dialog_plain_field ::
  "u8 list \<Rightarrow> nat \<Rightarrow> nat \<Rightarrow> string \<Rightarrow> (bool \<times> nat \<times> string) mem" where
  "read_dialog_plain_field data off out_size old =
     (if off \<ge> length data then Some (False, off, old)
      else do {
        len \<leftarrow> read_byte data off;
        if unat len > length data - (off + 1) then Some (False, off + 1, [])
        else do {
          bytes \<leftarrow> load_bytes data (off + 1) (if unat len \<ge> out_size then out_size - 1 else unat len);
          Some (True, off + 1 + unat len, bytes_string bytes) } })"

text \<open>The loop that drops trailing zero bytes of the information text.\<close>

fun trim_zeros :: "u8 list \<Rightarrow> nat \<Rightarrow> nat \<Rightarrow> nat mem" where
  "trim_zeros data off 0 = Some 0"
| "trim_zeros data off (Suc n) = do {
     b \<leftarrow> read_byte data (off + n);
     if b = 0 then trim_zeros data off n else Some (Suc n) }"

definition copy_dialog_remaining_info :: "u8 list \<Rightarrow> nat \<Rightarrow> string mem" where
  "copy_dialog_remaining_info data off =
     (if off \<ge> length data then Some []
      else do {
        copy_len \<leftarrow> trim_zeros data off (length data - off);
        bytes \<leftarrow> load_bytes data off (if copy_len \<ge> kDialogInfoBytes then kDialogInfoBytes - 1 else copy_len);
        Some (sanitize_dialog_text (bytes_string bytes)) })"

text \<open>
  \<^verbatim>\<open>SetReadOffset\<close> to a whole byte, as here, reads on from that byte: the stream over the rest of the payload.
\<close>

definition decode_dialog_compressed_info_tail :: "'b bitstream \<Rightarrow> u8 list \<Rightarrow> nat \<Rightarrow> string option" where
  "decode_dialog_compressed_info_tail B data off =
     (if off \<ge> length data then None
      else case bs_string B kDialogInfoBytes (bs_open B (drop off data)) of
          None \<Rightarrow> None
        | Some (info, s) \<Rightarrow>
            if \<not> dialog_text_has_printable_content (sanitize_dialog_text info) then None
            else Some (copy_text kDialogInfoBytes (sanitize_dialog_text info)))"

definition language_choices :: string where
  "language_choices = ''English'' @ [CHR 0x0A] @ ''Spanish'' @ [CHR 0x0A] @ ''Portuguese''"

definition default_dialog_title :: "dialog \<Rightarrow> dialog" where
  "default_dialog_title d = (if dialog_title d = []
     then d\<lparr>dialog_title := copy_text kDialogTitleBytes ''SA-MP Dialog''\<rparr> else d)"

definition default_dialog_button1 :: "dialog \<Rightarrow> dialog" where
  "default_dialog_button1 d = (if dialog_button1 d = []
     then d\<lparr>dialog_button1 := copy_text kDialogButtonBytes ''OK''\<rparr> else d)"

definition default_dialog_info :: "dialog \<Rightarrow> dialog" where
  "default_dialog_info d = (if dialog_info d = [] \<and> has_substring ''language'' (dialog_title d)
     then d\<lparr>dialog_info := copy_text kDialogInfoBytes language_choices\<rparr> else d)"

definition sanitize_dialog_labels :: "dialog \<Rightarrow> dialog" where
  "sanitize_dialog_labels d = d\<lparr>dialog_title := sanitize_dialog_text (dialog_title d),
     dialog_button1 := sanitize_dialog_text (dialog_button1 d),
     dialog_button2 := sanitize_dialog_text (dialog_button2 d)\<rparr>"

definition plain_dialog_info :: "'b bitstream \<Rightarrow> u8 list \<Rightarrow> nat \<Rightarrow> string mem" where
  "plain_dialog_info B data off =
     (case decode_dialog_compressed_info_tail B data off of
        Some info \<Rightarrow> Some info
      | None \<Rightarrow> do {
          info \<leftarrow> copy_dialog_remaining_info data off;
          Some (if dialog_text_has_printable_content info then info else []) })"

definition decode_dialog_payload_plain ::
  "'b bitstream \<Rightarrow> u8 list \<Rightarrow> dialog \<Rightarrow> (bool \<times> dialog) mem" where
  "decode_dialog_payload_plain B data d =
     (if length data < 4 then Some (False, d)
      else do {
        dialog_id \<leftarrow> read_le16 data 0;
        style \<leftarrow> read_byte data 2;
        (ok, off, title) \<leftarrow> read_dialog_plain_field data 3 kDialogTitleBytes (dialog_title d);
        let d = d\<lparr>last_dialog_id := dialog_id, last_dialog_style := style, dialog_title := title\<rparr>;
        if \<not> ok then Some (False, d)
        else do {
          (ok, off, button1) \<leftarrow> read_dialog_plain_field data off kDialogButtonBytes (dialog_button1 d);
          let d = d\<lparr>dialog_button1 := button1\<rparr>;
          if \<not> ok then Some (True, d)
          else do {
            (ok, off, button2) \<leftarrow> read_dialog_plain_field data off kDialogButtonBytes (dialog_button2 d);
            let d = d\<lparr>dialog_button2 := (if ok then button2 else [])\<rparr>;
            info \<leftarrow> plain_dialog_info B data off;
            Some (True, default_dialog_info (default_dialog_button1 (default_dialog_title
              (sanitize_dialog_labels (d\<lparr>dialog_info := info\<rparr>))))) } } })"

section \<open>The compressed layout\<close>

text \<open>
  A \<^verbatim>\<open>DecodeString\<close> whose result is ignored leaves its array empty when it fails; \<open>after\<close> is the stream it
  leaves then.
\<close>

definition decode_string_ignored :: "'b bitstream \<Rightarrow> ('b \<Rightarrow> 'b) \<Rightarrow> nat \<Rightarrow> 'b \<Rightarrow> string \<times> 'b" where
  "decode_string_ignored B after n s = (case bs_string B n s of Some r \<Rightarrow> r | None \<Rightarrow> ([], after s))"

definition decode_dialog_compressed ::
  "'b bitstream \<Rightarrow> ('b \<Rightarrow> 'b) \<Rightarrow> u8 list \<Rightarrow> dialog \<Rightarrow> bool \<times> dialog" where
  "decode_dialog_compressed B after data d =
     (case bs_u16 B (bs_open B data) of
        None \<Rightarrow> (False, d)
      | Some (dialog_id, s) \<Rightarrow>
     (case bs_u8 B s of
        None \<Rightarrow> (False, d)
      | Some (style, s) \<Rightarrow>
     (let d = d\<lparr>last_dialog_id := dialog_id, last_dialog_style := style\<rparr>
      in case bs_string B kDialogTitleBytes s of
        None \<Rightarrow> (False, d\<lparr>dialog_title := []\<rparr>)
      | Some (title, s) \<Rightarrow>
     (let (button1, s) = decode_string_ignored B after kDialogButtonBytes s;
          (button2, s) = decode_string_ignored B after kDialogButtonBytes s;
          (info, s) = decode_string_ignored B after kDialogInfoBytes s
      in (True, default_dialog_info (default_dialog_title (default_dialog_button1
           (d\<lparr>dialog_title := title, dialog_button1 := button1, dialog_button2 := button2,
              dialog_info := info\<rparr>))))))))"

definition decode_dialog_payload ::
  "'b bitstream \<Rightarrow> ('b \<Rightarrow> 'b) \<Rightarrow> u8 list \<Rightarrow> dialog \<Rightarrow> (bool \<times> dialog) mem" where
  "decode_dialog_payload B after data d = (
     let d = d\<lparr>dialog_title := [], dialog_info := [], dialog_button1 := copy_text kDialogButtonBytes ''OK'',
               dialog_button2 := []\<rparr>
     in if length data < 3 then Some (False, d)
        else do {
          (ok, d) \<leftarrow> decode_dialog_payload_plain B data d;
          if ok then Some (True, d) else Some (decode_dialog_compressed B after data d) })"

text \<open>The branch of \<^verbatim>\<open>rpc_observer\<close> for RPC 61; with fewer than two bytes the texts stay.\<close>

definition observe_dialog :: "'b bitstream \<Rightarrow> ('b \<Rightarrow> 'b) \<Rightarrow> u8 list \<Rightarrow> dialog \<Rightarrow> dialog mem" where
  "observe_dialog B after data d =
     (if length data < 2 then Some d
      else do {
        (ok, d) \<leftarrow> decode_dialog_payload B after data d;
        if ok then Some d
        else do {
          dialog_id \<leftarrow> read_le16 data 0;
          style \<leftarrow> (if length data \<ge> 3 then read_byte data 2 else Some 0);
          Some (d\<lparr>last_dialog_id := dialog_id, last_dialog_style := style,
                  dialog_title := copy_text kDialogTitleBytes ''SA-MP Dialog'',
                  dialog_button1 := copy_text kDialogButtonBytes ''OK''\<rparr>) } })"

section \<open>Bounds\<close>

text \<open>The texts fit their arrays with their terminating NUL.\<close>

definition c_text_fits :: "nat \<Rightarrow> string \<Rightarrow> bool" where
  "c_text_fits n t \<longleftrightarrow> length t < n \<and> CHR 0x00 \<notin> set t"

definition dialog_ok :: "dialog \<Rightarrow> bool" where
  "dialog_ok d \<longleftrightarrow> c_text_fits kDialogTitleBytes (dialog_title d) \<and> c_text_fits kDialogInfoBytes (dialog_info d) \<and>
     c_text_fits kDialogButtonBytes (dialog_button1 d) \<and> c_text_fits kDialogButtonBytes (dialog_button2 d)"

lemma c_text_fits_empty [simp]: "c_text_fits n [] = (0 < n)"
  by (simp add: c_text_fits_def)

lemma c_text_fits_copy [simp]: "CHR 0x00 \<notin> set t \<Longrightarrow> c_text_fits n (copy_text n t) = (0 < n)"
  by (auto simp: c_text_fits_def copy_text_def dest: in_set_takeD)

lemma sanitize_dialog_char_nul [simp]: "sanitize_dialog_char c \<noteq> CHR 0x00" "CHR 0x00 \<noteq> sanitize_dialog_char c"
  by (auto simp: sanitize_dialog_char_def layout_char_def)

lemma c_text_fits_sanitize [simp]: "c_text_fits n (sanitize_dialog_text t) = (length t < n)"
  by (auto simp: c_text_fits_def sanitize_dialog_text_def)

lemma c_text_fits_bytes_string:
  assumes "load_bytes data off k = Some bytes" "k < n"
  shows "c_text_fits n (bytes_string bytes)"
proof -
  have "length bytes = k" by (rule load_bytes_length[OF assms(1)])
  moreover have "length (bytes_string bytes) \<le> length bytes" by (simp add: bytes_string_def length_takeWhile_le[THEN order_trans])
  moreover have "CHR 0x00 \<notin> set (bytes_string bytes)" unfolding bytes_string_def by (blast dest: set_takeWhileD)
  ultimately show ?thesis using assms(2) by (simp add: c_text_fits_def)
qed

lemma c_text_fits_bs_string: "bitstream_ok B \<Longrightarrow> bs_string B n s = Some (t, s') \<Longrightarrow> c_text_fits n t"
  by (simp add: c_text_fits_def bs_string_ok)

lemma read_dialog_plain_field_ok:
  assumes "0 < n" "c_text_fits n old"
  shows "\<exists>r. read_dialog_plain_field data off n old = Some r \<and> c_text_fits n (snd (snd r))"
proof (cases "off \<ge> length data")
  case False
  then obtain len where len: "read_byte data off = Some len" using read_byte_in[of off data] by auto
  show ?thesis
  proof (cases "unat len > length data - (off + 1)")
    case False
    let ?k = "if unat len \<ge> n then n - 1 else unat len"
    have k: "off + 1 + ?k \<le> length data" "?k < n" using False \<open>\<not> off \<ge> length data\<close> assms(1) by auto
    then obtain bytes where b: "load_bytes data (off + 1) ?k = Some bytes" by (simp add: load_bytes_def)
    have "c_text_fits n (bytes_string bytes)" by (rule c_text_fits_bytes_string[OF b k(2)])
    then show ?thesis using False \<open>\<not> off \<ge> length data\<close> len b by (simp add: read_dialog_plain_field_def)
  next
    case True
    then show ?thesis using len assms \<open>\<not> off \<ge> length data\<close> by (simp add: read_dialog_plain_field_def)
  qed
qed (use assms in \<open>simp add: read_dialog_plain_field_def\<close>)

lemma trim_zeros_le: "off + n \<le> length data \<Longrightarrow> \<exists>k. trim_zeros data off n = Some k \<and> k \<le> n"
proof (induction n)
  case (Suc n)
  then obtain b where "read_byte data (off + n) = Some b" using read_byte_in[of "off + n" data] by auto
  with Suc show ?case by force
qed simp

lemma copy_dialog_remaining_info_ok:
  "\<exists>t. copy_dialog_remaining_info data off = Some t \<and> c_text_fits kDialogInfoBytes t"
proof (cases "off \<ge> length data")
  case False
  obtain k where k: "trim_zeros data off (length data - off) = Some k" "k \<le> length data - off"
    using trim_zeros_le[of off "length data - off" data] False by auto
  let ?k = "if k \<ge> kDialogInfoBytes then kDialogInfoBytes - 1 else k"
  have b: "load_bytes data off ?k = Some (take ?k (drop off data))"
    using k False by (auto simp: load_bytes_def)
  have "?k < kDialogInfoBytes" by (simp add: kDialogInfoBytes_def)
  from c_text_fits_bytes_string[OF b this] show ?thesis
    using k False b by (simp add: copy_dialog_remaining_info_def c_text_fits_def[of _ "bytes_string _"])
qed (simp add: copy_dialog_remaining_info_def kDialogInfoBytes_def)

lemma decode_dialog_compressed_info_tail_ok:
  assumes "bitstream_ok B" "decode_dialog_compressed_info_tail B data off = Some t"
  shows "c_text_fits kDialogInfoBytes t"
  using assms(2) c_text_fits_bs_string[OF assms(1)]
  by (auto simp: decode_dialog_compressed_info_tail_def sanitize_dialog_text_def kDialogInfoBytes_def
      split: if_splits option.splits intro!: c_text_fits_copy[THEN iffD2])

lemma plain_dialog_info_ok:
  assumes "bitstream_ok B"
  shows "\<exists>t. plain_dialog_info B data off = Some t \<and> c_text_fits kDialogInfoBytes t"
  using decode_dialog_compressed_info_tail_ok[OF assms] copy_dialog_remaining_info_ok[of data off]
  by (auto simp: plain_dialog_info_def kDialogInfoBytes_def split: option.split)

lemma language_choices_fit [simp]: "CHR 0x00 \<notin> set language_choices"
  by (simp add: language_choices_def)

lemma dialog_defaults_ok [simp]:
  "dialog_ok d \<Longrightarrow> dialog_ok (default_dialog_title d)"
  "dialog_ok d \<Longrightarrow> dialog_ok (default_dialog_button1 d)"
  "dialog_ok d \<Longrightarrow> dialog_ok (default_dialog_info d)"
  "dialog_ok d \<Longrightarrow> dialog_ok (sanitize_dialog_labels d)"
  by (simp_all add: dialog_ok_def default_dialog_title_def default_dialog_button1_def default_dialog_info_def
      sanitize_dialog_labels_def dialog_consts) (simp_all add: c_text_fits_def)

lemma decode_dialog_payload_plain_ok:
  assumes "bitstream_ok B" "dialog_ok d"
  shows "\<exists>r. decode_dialog_payload_plain B data d = Some r \<and> dialog_ok (snd r)"
proof (cases "length data < 4")
  case False
  note ok = assms(2)[unfolded dialog_ok_def]
  obtain i where i: "read_le16 data 0 = Some i" using read_le16_in[of 0 data] False by auto
  obtain st where st: "read_byte data 2 = Some st" using read_byte_in[of 2 data] False by auto
  obtain ok1 off1 t where t: "read_dialog_plain_field data 3 kDialogTitleBytes (dialog_title d) = Some (ok1, off1, t)"
    "c_text_fits kDialogTitleBytes t"
    using read_dialog_plain_field_ok[of kDialogTitleBytes "dialog_title d" data 3] ok by (auto simp: dialog_consts)
  obtain ok2 off2 b1 where b1: "read_dialog_plain_field data off1 kDialogButtonBytes (dialog_button1 d) = Some (ok2, off2, b1)"
    "c_text_fits kDialogButtonBytes b1"
    using read_dialog_plain_field_ok[of kDialogButtonBytes "dialog_button1 d" data off1] ok by (auto simp: dialog_consts)
  obtain ok3 off3 b2 where b2: "read_dialog_plain_field data off2 kDialogButtonBytes (dialog_button2 d) = Some (ok3, off3, b2)"
    "c_text_fits kDialogButtonBytes b2"
    using read_dialog_plain_field_ok[of kDialogButtonBytes "dialog_button2 d" data off2] ok by (auto simp: dialog_consts)
  obtain info where info: "plain_dialog_info B data off3 = Some info" "c_text_fits kDialogInfoBytes info"
    using plain_dialog_info_ok[OF assms(1), of data off3] by auto
  have cut: "dialog_ok (d\<lparr>last_dialog_id := i, last_dialog_style := st, dialog_title := t\<rparr>)"
    "dialog_ok (d\<lparr>last_dialog_id := i, last_dialog_style := st, dialog_title := t, dialog_button1 := b1\<rparr>)"
    using ok t b1 by (simp_all add: dialog_ok_def)
  have full: "dialog_ok (d\<lparr>last_dialog_id := i, last_dialog_style := st, dialog_title := t, dialog_button1 := b1,
      dialog_button2 := (if ok3 then b2 else []), dialog_info := info\<rparr>)"
    using ok t b1 b2 info by (simp add: dialog_ok_def kDialogButtonBytes_def)
  show ?thesis using False i st t(1) b1(1) b2(1) info(1) cut full
    by (simp add: decode_dialog_payload_plain_def Let_def del: dialog.update_convs) blast
qed (use assms in \<open>simp add: decode_dialog_payload_plain_def\<close>)

lemma decode_string_ignored_ok:
  assumes "bitstream_ok B" "0 < n"
  shows "c_text_fits n (fst (decode_string_ignored B after n s))"
  using assms c_text_fits_bs_string[OF assms(1)] by (auto simp: decode_string_ignored_def split: option.split)

lemma decode_dialog_compressed_ok:
  assumes "bitstream_ok B" "dialog_ok d"
  shows "dialog_ok (snd (decode_dialog_compressed B after data d))"
proof -
  note ok = assms(2)[unfolded dialog_ok_def]
  show ?thesis
    using ok c_text_fits_bs_string[OF assms(1)] decode_string_ignored_ok[OF assms(1)]
    by (auto simp: decode_dialog_compressed_def Let_def split_beta dialog_consts split: option.split
        intro!: dialog_defaults_ok) (auto simp: dialog_ok_def dialog_consts)
qed

text \<open>A dialog RPC of any length and content leaves the four texts of the dialog within their arrays and
  terminated, reads nothing outside the payload and always ends.\<close>

lemma dialog_box_total:
  assumes "bitstream_ok B" "dialog_ok d"
  shows "\<exists>d'. observe_dialog B after data d = Some d' \<and> dialog_ok d'"
proof (cases "length data < 2")
  case False
  let ?d = "d\<lparr>dialog_title := [], dialog_info := [], dialog_button1 := copy_text kDialogButtonBytes ''OK'',
      dialog_button2 := []\<rparr>"
  have d: "dialog_ok ?d" by (simp add: dialog_ok_def dialog_consts)
  obtain ok p where p: "decode_dialog_payload_plain B data ?d = Some (ok, p)" "dialog_ok p"
    using decode_dialog_payload_plain_ok[OF assms(1) d, of data] by auto
  obtain r where r: "decode_dialog_payload B after data d = Some r" "dialog_ok (snd r)"
    using p d decode_dialog_compressed_ok[OF assms(1) p(2), of after data]
    by (cases "length data < 3"; cases ok) (auto simp: decode_dialog_payload_def)
  obtain i where i: "read_le16 data 0 = Some i" using read_le16_in[of 0 data] False by auto
  obtain st where st: "(if length data \<ge> 3 then read_byte data 2 else Some 0) = Some st"
    using read_byte_in[of 2 data] by fastforce
  show ?thesis using False r i st by (cases r) (auto simp: observe_dialog_def dialog_ok_def dialog_consts)
qed (use assms in \<open>simp add: observe_dialog_def\<close>)

section \<open>What the server sends is what is shown\<close>

definition text_bytes :: "string \<Rightarrow> u8 list" where
  "text_bytes t = map (\<lambda>c. of_nat (of_char c)) t"

definition dynstr8 :: "string \<Rightarrow> u8 list" where
  "dynstr8 t = of_nat (length t) # text_bytes t"

definition le16_bytes :: "u16 \<Rightarrow> u8 list" where
  "le16_bytes v = [ucast v, ucast (drop_bit 8 v)]"

lemma length_text_bytes [simp]: "length (text_bytes t) = length t"
  by (simp add: text_bytes_def)

lemma bytes_string_text_bytes: "CHR 0x00 \<notin> set t \<Longrightarrow> bytes_string (text_bytes t) = t"
proof -
  assume "CHR 0x00 \<notin> set t"
  have "unat (of_nat (of_char c) :: u8) = of_char c" for c :: char
    by (simp add: unat_of_nat take_bit_nat_eq_self)
  then have "map (\<lambda>b. char_of (unat b)) (text_bytes t) = t" by (simp add: text_bytes_def comp_def)
  moreover have "takeWhile (\<lambda>c. c \<noteq> CHR 0x00) t = t" using \<open>CHR 0x00 \<notin> set t\<close> by (auto simp: takeWhile_eq_all_conv)
  ultimately show ?thesis by (simp add: bytes_string_def)
qed

lemma read_le16_bytes: "read_le16 (le16_bytes v @ rest) 0 = Some v"
proof -
  have "ucast (ucast v :: u8) OR push_bit 8 (ucast (ucast (drop_bit 8 v) :: u8)) = v"
  proof (rule bit_word_eqI)
    fix n assume "n < LENGTH(16)"
    then show "bit (ucast (ucast v :: u8) OR push_bit 8 (ucast (ucast (drop_bit 8 v) :: u8)) :: u16) n = bit v n"
      by (cases "n < 8") (auto simp: bit_simps)
  qed
  then show ?thesis by (simp add: read_le16_def le16_bytes_def load_bytes_def)
qed

lemma read_dialog_plain_field_at:
  assumes "length t < 256" "length t < n" "CHR 0x00 \<notin> set t"
  shows "read_dialog_plain_field (pre @ dynstr8 t @ post) (length pre) n old = Some (True, length pre + 1 + length t, t)"
proof -
  have len: "unat (of_nat (length t) :: u8) = length t" using assms(1) by (simp add: unat_of_nat take_bit_nat_eq_self)
  have "read_byte (pre @ dynstr8 t @ post) (length pre) = Some (of_nat (length t))"
    by (simp add: read_byte_def dynstr8_def nth_append)
  moreover have "load_bytes (pre @ dynstr8 t @ post) (length pre + 1) (length t) = Some (text_bytes t)"
    by (simp add: load_bytes_def dynstr8_def)
  moreover have "length (dynstr8 t) = length t + 1" by (simp add: dynstr8_def)
  ultimately show ?thesis using len assms by (simp add: read_dialog_plain_field_def bytes_string_text_bytes)
qed

definition dialog_payload :: "u16 \<Rightarrow> u8 \<Rightarrow> string \<Rightarrow> string \<Rightarrow> string \<Rightarrow> u8 list \<Rightarrow> u8 list" where
  "dialog_payload i st title b1 b2 tail = le16_bytes i @ [st] @ dynstr8 title @ dynstr8 b1 @ dynstr8 b2 @ tail"

lemma printable_nonempty: "dialog_text_has_printable_content t \<Longrightarrow> t \<noteq> []"
  by (auto simp: dialog_text_has_printable_content_def)

lemma drop_length_append: "drop (length xs) (xs @ ys) = ys"
  by simp

lemma decode_dialog_payload_plain_at:
  assumes B: "bitstream_ok B"
    and texts: "length title < 256" "CHR 0x00 \<notin> set title" "length b1 < 64" "CHR 0x00 \<notin> set b1"
      "length b2 < 64" "CHR 0x00 \<notin> set b2"
    and tail: "tail \<noteq> []" "bs_string B kDialogInfoBytes (bs_open B tail) = Some (info, s)"
      "dialog_text_has_printable_content (sanitize_dialog_text info)"
  shows "decode_dialog_payload_plain B (dialog_payload i st title b1 b2 tail) d =
    Some (True, default_dialog_button1 (default_dialog_title (sanitize_dialog_labels
      (d\<lparr>last_dialog_id := i, last_dialog_style := st, dialog_title := title, dialog_info := sanitize_dialog_text info,
         dialog_button1 := b1, dialog_button2 := b2\<rparr>))))"
proof -
  let ?data = "dialog_payload i st title b1 b2 tail"
  let ?p1 = "le16_bytes i @ [st]" let ?p2 = "?p1 @ dynstr8 title" let ?p3 = "?p2 @ dynstr8 b1"
  have len: "length ?p1 = 3" "length ?p2 = 4 + length title" "length ?p3 = 5 + length title + length b1"
    by (simp_all add: le16_bytes_def dynstr8_def)
  have f1: "read_dialog_plain_field ?data 3 kDialogTitleBytes old = Some (True, 4 + length title, title)" for old
    using read_dialog_plain_field_at[of title kDialogTitleBytes ?p1 "dynstr8 b1 @ dynstr8 b2 @ tail" old] texts
    unfolding len by (simp add: dialog_payload_def dialog_consts add_ac)
  have f2: "read_dialog_plain_field ?data (4 + length title) kDialogButtonBytes old = Some (True, 5 + length title + length b1, b1)" for old
    using read_dialog_plain_field_at[of b1 kDialogButtonBytes ?p2 "dynstr8 b2 @ tail" old] texts
    unfolding len by (simp add: dialog_payload_def dialog_consts add_ac)
  have f3: "read_dialog_plain_field ?data (5 + length title + length b1) kDialogButtonBytes old =
      Some (True, 6 + length title + length b1 + length b2, b2)" for old
    using read_dialog_plain_field_at[of b2 kDialogButtonBytes ?p3 tail old] texts
    unfolding len by (simp add: dialog_payload_def dialog_consts add_ac)
  have all: "length ?data = 6 + length title + length b1 + length b2 + length tail"
    by (simp add: dialog_payload_def le16_bytes_def dynstr8_def)
  have "?data = (?p3 @ dynstr8 b2) @ tail" by (simp add: dialog_payload_def)
  moreover have "6 + length title + length b1 + length b2 = length (?p3 @ dynstr8 b2)"
    by (simp add: le16_bytes_def dynstr8_def)
  ultimately have rest: "drop (6 + length title + length b1 + length b2) ?data = tail"
    by (simp only: drop_length_append)
  have fits: "copy_text kDialogInfoBytes (sanitize_dialog_text info) = sanitize_dialog_text info"
    using c_text_fits_bs_string[OF B tail(2)] by (simp add: copy_text_def c_text_fits_def sanitize_dialog_text_def dialog_consts)
  have info: "plain_dialog_info B ?data (6 + length title + length b1 + length b2) = Some (sanitize_dialog_text info)"
    using tail all rest fits by (simp add: plain_dialog_info_def decode_dialog_compressed_info_tail_def)
  have hd: "read_le16 ?data 0 = Some i" "read_byte ?data 2 = Some st"
    by (simp add: dialog_payload_def read_le16_bytes) (simp add: dialog_payload_def le16_bytes_def read_byte_def)
  have keep: "dialog_info (default_dialog_button1 (default_dialog_title x)) = dialog_info x" for x
    by (simp add: default_dialog_button1_def default_dialog_title_def)
  have "default_dialog_info x = x" if "dialog_info x \<noteq> []" for x
    using that by (simp add: default_dialog_info_def)
  then show ?thesis using all hd f1 f2 f3 info printable_nonempty[OF tail(3)] keep
    by (simp add: decode_dialog_payload_plain_def Let_def sanitize_dialog_labels_def)
qed

text \<open>C17: A complete dialog RPC whose information reads as text is shown as the server sent it. If the title has fewer
  than 256 and each button fewer than 64 characters, none of them zero, the string compressor decodes the bytes behind them, and the decoded
  information is accepted as text (not empty, and at most a quarter of it bytes from 0x80 on), then the number,
  the style, the title, the buttons and that information are stored, each control character other than newline, carriage
  return and tab as a space, with the two defaults for an empty title and an empty first button.\<close>

theorem dialog_shown_as_sent:
  assumes "bitstream_ok B" "length title < 256" "CHR 0x00 \<notin> set title" "length b1 < 64" "CHR 0x00 \<notin> set b1"
    "length b2 < 64" "CHR 0x00 \<notin> set b2" "tail \<noteq> []"
    "bs_string B kDialogInfoBytes (bs_open B tail) = Some (info, s)"
    "dialog_text_has_printable_content (sanitize_dialog_text info)"
  shows "observe_dialog B after (dialog_payload i st title b1 b2 tail) d = Some \<lparr>last_dialog_id = i,
      last_dialog_style = st, dialog_title = (if title = [] then ''SA-MP Dialog'' else sanitize_dialog_text title),
      dialog_info = sanitize_dialog_text info, dialog_button1 = (if b1 = [] then ''OK'' else sanitize_dialog_text b1),
      dialog_button2 = sanitize_dialog_text b2\<rparr>"
proof -
  have "length (dialog_payload i st title b1 b2 tail) \<ge> 6"
    by (simp add: dialog_payload_def le16_bytes_def dynstr8_def)
  then show ?thesis
    by (simp add: observe_dialog_def decode_dialog_payload_def Let_def decode_dialog_payload_plain_at[OF assms]
        default_dialog_button1_def default_dialog_title_def sanitize_dialog_labels_def copy_text_def dialog_consts
        sanitize_dialog_text_def)
qed

text \<open>A stream that decodes every string to \<open>Yes\<close>.\<close>

definition yes_stream :: "bits bitstream" where
  "yes_stream = bit_list_stream\<lparr>bs_string := \<lambda>n s. if n < 4 then None else Some (''Yes'', s)\<rparr>"

lemma dialog_shown_as_sent_witness:
  "observe_dialog yes_stream id (dialog_payload 7 0 ''T'' [] ''No'' [1]) no_dialog = Some \<lparr>last_dialog_id = 7,
      last_dialog_style = 0, dialog_title = ''T'', dialog_info = ''Yes'', dialog_button1 = ''OK'', dialog_button2 = ''No''\<rparr>"
proof -
  have ok: "bitstream_ok yes_stream"
    by (auto simp: bitstream_ok_def yes_stream_def bit_list_stream_def take_bytes_length split: if_splits)
  have "bs_string yes_stream kDialogInfoBytes (bs_open yes_stream [1]) = Some (''Yes'', bs_open yes_stream [1])"
    by (simp add: yes_stream_def kDialogInfoBytes_def)
  moreover have "dialog_text_has_printable_content (sanitize_dialog_text ''Yes'')" by code_simp
  ultimately show ?thesis
    using dialog_shown_as_sent[OF ok, of "''T''" "[]" "''No''" "[1]" "''Yes''" "bs_open yes_stream [1]" id 7 0 no_dialog]
    by (simp add: sanitize_dialog_text_def sanitize_dialog_char_def)
qed

text \<open>A payload cut after its title skips the clean-up: control characters reach the title.\<close>

theorem dialog_truncated_title_raw:
  "map_option dialog_title (observe_dialog yes_stream id [7, 0, 0, 1, 1] no_dialog) = Some [CHR 0x01]"
  by code_simp

end
