(* ===== verification/RpcSession.thy ===== *)
theory RpcSession
  imports RpcDialog
begin

text \<open>
  The session state machine of \<^verbatim>\<open>src/net/raknet_client_adapter.cpp\<close>: the start of a game (RPC 139), the
  class selection and the spawn (RPCs 128, 129, 68 and 52), the answer to a dialog (RPCs 61 and 62), the
  score timer (RPC 155), the requests of the user interface, and the resets at a disconnect and at a change of
  the game mode.

  \<^verbatim>\<open>service_rpc_probe_actions\<close> is the only place that sends what the other operations leave pending. Its
  environment, a \<open>service_env\<close>, says what \<^verbatim>\<open>RakClientInterface::RPC\<close> returns for a message, what the clock
  shows at each of its three readings and which keys are down. The messages it attempts are its output, each
  with the result of the attempt.
\<close>

section \<open>Data\<close>

definition kChatInputBytes :: nat where "kChatInputBytes = 128"
definition kClassSelectionReselectDelayMs :: u32 where "kClassSelectionReselectDelayMs = 250"
definition kScorePingUpdateMs :: u32 where "kScorePingUpdateMs = 3000"
definition kObservedPlayerSpawnInfoBytes :: nat where "kObservedPlayerSpawnInfoBytes = 45"
definition kPlayerSpawnInfoBytes :: nat where "kPlayerSpawnInfoBytes = 46"
definition kDialogInputBytes :: nat where "kDialogInputBytes = 256"
definition SAMP_RAKNET_HOSTNAME_BYTES :: nat where "SAMP_RAKNET_HOSTNAME_BYTES = 256"
definition SAMP_RAKNET_REQUIRED_VEHICLE_MODELS :: nat where "SAMP_RAKNET_REQUIRED_VEHICLE_MODELS = 212"

lemmas session_consts = kChatInputBytes_def kClassSelectionReselectDelayMs_def kScorePingUpdateMs_def
  kObservedPlayerSpawnInfoBytes_def kPlayerSpawnInfoBytes_def kDialogInputBytes_def
  SAMP_RAKNET_HOSTNAME_BYTES_def SAMP_RAKNET_REQUIRED_VEHICLE_MODELS_def

text \<open>What \<^verbatim>\<open>decode_init_game_payload\<close> stores.\<close>

record init_game =
  init_spawns_available :: u16
  init_local_player_id :: u16
  init_show_player_tags :: bool
  init_show_player_markers :: bool
  init_tire_popping :: bool
  init_world_time :: u8
  init_weather :: u8
  init_gravity :: f32
  init_lan_mode :: bool
  init_death_drop_money :: int
  init_instagib :: bool
  init_zone_names :: bool
  init_use_cj_walk :: bool
  init_allow_weapons :: bool
  init_limit_global_chat_radius :: bool
  init_global_chat_radius :: f32
  init_stunt_bonus :: bool
  init_name_tag_draw_distance :: f32
  init_disable_enter_exits :: bool
  init_name_tag_los :: bool
  init_send_rates :: "int list"
  init_hostname :: string
  init_vehicle_models :: "u8 list"

definition zero_init_game :: init_game where
  "zero_init_game = \<lparr>init_spawns_available = 0, init_local_player_id = 0, init_show_player_tags = False,
     init_show_player_markers = False, init_tire_popping = False, init_world_time = 0, init_weather = 0,
     init_gravity = 0, init_lan_mode = False, init_death_drop_money = 0, init_instagib = False,
     init_zone_names = False, init_use_cj_walk = False, init_allow_weapons = False,
     init_limit_global_chat_radius = False, init_global_chat_radius = 0, init_stunt_bonus = False,
     init_name_tag_draw_distance = 0, init_disable_enter_exits = False, init_name_tag_los = False,
     init_send_rates = replicate 6 0, init_hostname = [],
     init_vehicle_models = replicate SAMP_RAKNET_REQUIRED_VEHICLE_MODELS 0\<rparr>"

text \<open>What \<^verbatim>\<open>read_spawn_info\<close> stores, except its sequence number.\<close>

record spawn_info =
  spawn_team :: u8
  spawn_skin :: int
  spawn_pos :: "f32 list"
  spawn_rotation :: f32
  spawn_weapons :: "int list"
  spawn_weapon_ammo :: "int list"

definition zero_spawn_info :: spawn_info where
  "zero_spawn_info = \<lparr>spawn_team = 0, spawn_skin = 0, spawn_pos = [0, 0, 0], spawn_rotation = 0,
     spawn_weapons = [0, 0, 0], spawn_weapon_ammo = [0, 0, 0]\<rparr>"

text \<open>The part of \<^verbatim>\<open>RpcProbeState\<close> the state machine works on. A client is the number of its object.\<close>

record session =
  client :: "nat option"
  local_nickname :: string
  auth_local_player_id_valid :: bool
  auth_local_player_id :: u16
  game_mode_restart_seq :: u32
  game_mode_restart_generation :: u32
  saw_init_game :: bool
  saw_request_class_reply :: bool
  saw_request_spawn_reply :: bool
  saw_spawn_info :: bool
  saw_dialog :: bool
  pending_request_class :: bool
  pending_request_spawn :: bool
  pending_dialog_response :: bool
  pending_request_class_id :: int
  sent_request_class :: bool
  waiting_for_request_class_reply :: bool
  sent_dialog_response :: bool
  request_spawn_send_count :: u32
  sent_spawn_notify :: bool
  sent_spawn_notify_seq :: u32
  manual_spawn_shift_down :: bool
  class_selection_after_death_requested :: bool
  class_selection_after_death_consumed :: bool
  selected_class :: int
  open_dialog :: dialog
  dialog_response_id :: u16
  dialog_response_button :: u8
  dialog_response_listitem :: u16
  dialog_response_input :: string
  game :: init_game
  request_class_outcome :: u8
  request_spawn_outcome :: u8
  spawn_info_seq :: u32
  spawn :: spawn_info
  last_request_class_time :: u32
  next_score_ping_update_time :: u32

definition kDefaultNickname :: string where "kDefaultNickname = ''Player''"

text \<open>
  \<^verbatim>\<open>reset_rpc_probe_runtime\<close>, on these fields. The generation is the static counter
  \<^verbatim>\<open>g_game_mode_restart_generation\<close>, which no reset clears; the list item becomes -1.
\<close>

definition reset_rpc_probe_runtime :: "nat option \<Rightarrow> session \<Rightarrow> session" where
  "reset_rpc_probe_runtime c s = \<lparr>client = c, local_nickname = kDefaultNickname, auth_local_player_id_valid = False,
     auth_local_player_id = 0, game_mode_restart_seq = 0,
     game_mode_restart_generation = game_mode_restart_generation s, saw_init_game = False,
     saw_request_class_reply = False,
     saw_request_spawn_reply = False, saw_spawn_info = False, saw_dialog = False, pending_request_class = False,
     pending_request_spawn = False, pending_dialog_response = False, pending_request_class_id = 0,
     sent_request_class = False, waiting_for_request_class_reply = False, sent_dialog_response = False,
     request_spawn_send_count = 0, sent_spawn_notify = False, sent_spawn_notify_seq = 0,
     manual_spawn_shift_down = False, class_selection_after_death_requested = False,
     class_selection_after_death_consumed = False, selected_class = 0, open_dialog = no_dialog, dialog_response_id = 0,
     dialog_response_button = 0, dialog_response_listitem = - 1, dialog_response_input = [],
     game = zero_init_game, request_class_outcome = 0, request_spawn_outcome = 0, spawn_info_seq = 0,
     spawn = zero_spawn_info, last_request_class_time = 0, next_score_ping_update_time = 0\<rparr>"

definition reset_rpc_probe_for_game_mode_restart :: "session \<Rightarrow> session" where
  "reset_rpc_probe_for_game_mode_restart s = (
     let generation = bump_seq (game_mode_restart_generation s)
     in (reset_rpc_probe_runtime (client s) (s\<lparr>game_mode_restart_generation := generation\<rparr>))
          \<lparr>local_nickname := local_nickname s, game_mode_restart_seq := generation\<rparr>)"

text \<open>The outgoing RPCs, each with the fields its bit stream carries.\<close>

datatype out_rpc = DialogResponse u16 u8 u16 string
  | RequestClass int
  | RequestSpawn
  | SpawnNotify
  | UpdateScoresPingsIPs
  | ServerCommand string
  | Chat string
  | Death u8 u8

text \<open>The environment of one call: the result of \<^verbatim>\<open>RPC\<close>, the readings of the clock, the keys.\<close>

record service_env =
  rpc :: "out_rpc \<Rightarrow> bool"
  class_clock :: u32
  key_clock :: u32
  score_clock :: u32
  shift_key :: bool
  left_key :: bool
  right_key :: bool

section \<open>The start of a game\<close>

definition read_i32 :: "'b bitstream \<Rightarrow> 'b \<Rightarrow> (int \<times> 'b) option" where
  "read_i32 B s = map_option (\<lambda>(v, s). (sint v, s)) (bs_u32 B s)"

definition read_hostname :: "'b bitstream \<Rightarrow> 'b \<Rightarrow> (string \<times> 'b) option" where
  "read_hostname B s = do {
     (len, s) \<leftarrow> bs_u8 B s;
     if \<not> unat len < SAMP_RAKNET_HOSTNAME_BYTES then None
     else if len = 0 then Some ([], s)
     else do { (bytes, s) \<leftarrow> bs_bytes B (unat len) s; Some (bytes_string bytes, s) } }"

definition decode_init_game_openmp :: "'b bitstream \<Rightarrow> u8 list \<Rightarrow> init_game option" where
  "decode_init_game_openmp B data = do {
     (zone_names, s) \<leftarrow> bs_bool B (bs_open B data);
     (use_cj_walk, s) \<leftarrow> bs_bool B s;
     (allow_weapons, s) \<leftarrow> bs_bool B s;
     (limit_chat, s) \<leftarrow> bs_bool B s;
     (chat_radius, s) \<leftarrow> bs_u32 B s;
     (stunt_bonus, s) \<leftarrow> bs_bool B s;
     (draw_distance, s) \<leftarrow> bs_u32 B s;
     (disable_enter_exits, s) \<leftarrow> bs_bool B s;
     (name_tag_los, s) \<leftarrow> bs_bool B s;
     (manual_engine_lights, s) \<leftarrow> bs_bool B s;
     (spawns, s) \<leftarrow> bs_u32 B s;
     (player, s) \<leftarrow> bs_u16 B s;
     (show_tags, s) \<leftarrow> bs_bool B s;
     (markers, s) \<leftarrow> bs_u32 B s;
     (world_time, s) \<leftarrow> bs_u8 B s;
     (weather, s) \<leftarrow> bs_u8 B s;
     (gravity, s) \<leftarrow> bs_u32 B s;
     (lan_mode, s) \<leftarrow> bs_bool B s;
     (money, s) \<leftarrow> read_i32 B s;
     (instagib, s) \<leftarrow> bs_bool B s;
     (onfoot, s) \<leftarrow> read_i32 B s;
     (incar, s) \<leftarrow> read_i32 B s;
     (weapon, s) \<leftarrow> read_i32 B s;
     (multiplier, s) \<leftarrow> read_i32 B s;
     (lag, s) \<leftarrow> bs_u32 B s;
     (hostname, s) \<leftarrow> read_hostname B s;
     (models, s) \<leftarrow> bs_bytes B SAMP_RAKNET_REQUIRED_VEHICLE_MODELS s;
     (friendly, s) \<leftarrow> bs_u32 B s;
     if spawns < 65536 \<and> unat player < SAMP_RAKNET_MAX_PLAYERS \<and> world_time \<le> 23 \<and> f32_finite gravity \<and>
        f32_finite chat_radius \<and> f32_finite draw_distance \<and> f32_between (- 10) 10 gravity \<and>
        0 \<le> f32_scaled chat_radius \<and> f32_within 0 10000 draw_distance
     then Some \<lparr>init_spawns_available = ucast spawns, init_local_player_id = player,
       init_show_player_tags = show_tags, init_show_player_markers = (markers \<noteq> 0), init_tire_popping = False,
       init_world_time = world_time, init_weather = weather, init_gravity = gravity, init_lan_mode = lan_mode,
       init_death_drop_money = money, init_instagib = instagib, init_zone_names = zone_names,
       init_use_cj_walk = use_cj_walk, init_allow_weapons = allow_weapons,
       init_limit_global_chat_radius = limit_chat, init_global_chat_radius = chat_radius,
       init_stunt_bonus = stunt_bonus, init_name_tag_draw_distance = draw_distance,
       init_disable_enter_exits = disable_enter_exits, init_name_tag_los = name_tag_los,
       init_send_rates = [onfoot, onfoot, incar, incar, weapon, multiplier], init_hostname = hostname,
       init_vehicle_models = models\<rparr>
     else None }"

fun read_send_rates :: "'b bitstream \<Rightarrow> nat \<Rightarrow> 'b \<Rightarrow> (int list \<times> 'b) option" where
  "read_send_rates B 0 s = Some ([], s)"
| "read_send_rates B (Suc n) s = do {
     (r, s) \<leftarrow> read_i32 B s;
     (rs, s) \<leftarrow> read_send_rates B n s;
     Some (r # rs, s) }"

definition decode_init_game_samp037 :: "'b bitstream \<Rightarrow> u8 list \<Rightarrow> init_game option" where
  "decode_init_game_samp037 B data = do {
     (spawns, s) \<leftarrow> read_i32 B (bs_open B data);
     (player, s) \<leftarrow> bs_u16 B s;
     (show_tags, s) \<leftarrow> bs_bool B s;
     (markers, s) \<leftarrow> bs_bool B s;
     (tire_popping, s) \<leftarrow> bs_bool B s;
     (world_time, s) \<leftarrow> bs_u8 B s;
     (weather, s) \<leftarrow> bs_u8 B s;
     (gravity, s) \<leftarrow> bs_u32 B s;
     (lan_mode, s) \<leftarrow> bs_bool B s;
     (money, s) \<leftarrow> read_i32 B s;
     (instagib, s) \<leftarrow> bs_bool B s;
     (zone_names, s) \<leftarrow> bs_bool B s;
     (use_cj_walk, s) \<leftarrow> bs_bool B s;
     (allow_weapons, s) \<leftarrow> bs_bool B s;
     (limit_chat, s) \<leftarrow> bs_bool B s;
     (chat_radius, s) \<leftarrow> bs_u32 B s;
     (stunt_bonus, s) \<leftarrow> bs_bool B s;
     (draw_distance, s) \<leftarrow> bs_u32 B s;
     (disable_enter_exits, s) \<leftarrow> bs_bool B s;
     (name_tag_los, s) \<leftarrow> bs_bool B s;
     if spawns < 0 \<or> 65536 \<le> spawns \<or> 23 < world_time \<or> \<not> f32_finite gravity \<or> \<not> f32_finite chat_radius \<or>
        \<not> f32_finite draw_distance
     then None
     else do {
       (rates, s) \<leftarrow> read_send_rates B 6 s;
       (hostname, s) \<leftarrow> read_hostname B s;
       (models, s) \<leftarrow> bs_bytes B SAMP_RAKNET_REQUIRED_VEHICLE_MODELS s;
       Some \<lparr>init_spawns_available = of_int spawns, init_local_player_id = player,
         init_show_player_tags = show_tags, init_show_player_markers = markers, init_tire_popping = tire_popping,
         init_world_time = world_time, init_weather = weather, init_gravity = gravity, init_lan_mode = lan_mode,
         init_death_drop_money = money, init_instagib = instagib, init_zone_names = zone_names,
         init_use_cj_walk = use_cj_walk, init_allow_weapons = allow_weapons,
         init_limit_global_chat_radius = limit_chat, init_global_chat_radius = chat_radius,
         init_stunt_bonus = stunt_bonus, init_name_tag_draw_distance = draw_distance,
         init_disable_enter_exits = disable_enter_exits, init_name_tag_los = name_tag_los,
         init_send_rates = rates, init_hostname = hostname, init_vehicle_models = models\<rparr> } }"

text \<open>The layout of open.mp first; where it does not fit, the one of version 0.3.7.\<close>

definition decode_init_game_payload :: "'b bitstream \<Rightarrow> u8 list \<Rightarrow> init_game option" where
  "decode_init_game_payload B data =
     (if data = [] then None
      else case decode_init_game_openmp B data of
          Some g \<Rightarrow> Some g
        | None \<Rightarrow> decode_init_game_samp037 B data)"

section \<open>The class to ask for\<close>

definition spawns_available :: "session \<Rightarrow> int" where
  "spawns_available s =
     (if init_spawns_available (game s) \<noteq> 0 then uint (init_spawns_available (game s)) else 1)"

definition clamp_class_id :: "session \<Rightarrow> int \<Rightarrow> int" where
  "clamp_class_id s c =
     (if spawns_available s \<le> 0 then 0
      else if c < 0 then spawns_available s - 1
      else if c \<ge> spawns_available s then 0
      else c)"

definition schedule_request_class :: "int \<Rightarrow> session \<Rightarrow> session" where
  "schedule_request_class c s = s\<lparr>selected_class := clamp_class_id s c,
     pending_request_class_id := clamp_class_id s c, pending_request_class := True\<rparr>"

definition class_selection_manual_ready :: "session \<Rightarrow> bool" where
  "class_selection_manual_ready s \<longleftrightarrow> \<not> saw_dialog s \<and> \<not> pending_request_spawn s \<and> \<not> pending_request_class s \<and>
     \<not> waiting_for_request_class_reply s \<and> saw_request_class_reply s \<and> request_class_outcome s \<noteq> 0 \<and>
     request_spawn_send_count s = 0"

section \<open>The spawn data\<close>

definition spawn_info_plausible :: "spawn_info \<Rightarrow> bool" where
  "spawn_info_plausible i \<longleftrightarrow> spawn_skin i \<ge> 0 \<and> spawn_skin i \<le> 311 \<and> f32_finite (spawn_pos i ! 0) \<and>
     f32_finite (spawn_pos i ! 1) \<and> f32_finite (spawn_pos i ! 2) \<and> f32_finite (spawn_rotation i) \<and>
     f32_between (- 20000) 20000 (spawn_pos i ! 0) \<and> f32_between (- 20000) 20000 (spawn_pos i ! 1) \<and>
     f32_between (- 1000) 10000 (spawn_pos i ! 2) \<and> f32_between (- 720) 720 (spawn_rotation i)"

text \<open>The six integers after the rotation: the weapons, then their ammunition.\<close>

fun read_i32s :: "u8 list \<Rightarrow> nat \<Rightarrow> nat \<Rightarrow> int list mem" where
  "read_i32s data off 0 = Some []"
| "read_i32s data off (Suc n) = do {
     v \<leftarrow> read_le_i32 data off;
     vs \<leftarrow> read_i32s data (off + 4) n;
     Some (v # vs) }"

definition read_spawn_info :: "u8 list \<Rightarrow> session \<Rightarrow> session mem" where
  "read_spawn_info data s =
     (if length data < kObservedPlayerSpawnInfoBytes then Some s
      else do {
        team \<leftarrow> read_byte data 0;
        skin \<leftarrow> read_le_i32 data 1;
        let off = (if length data \<ge> kPlayerSpawnInfoBytes then 6 else 5);
        if length data < off + 40 then Some s
        else do {
          pos \<leftarrow> read_vec3 data off;
          rotation \<leftarrow> read_le_float data (off + 12);
          weapons \<leftarrow> read_i32s data (off + 16) 3;
          ammo \<leftarrow> read_i32s data (off + 28) 3;
          let i = \<lparr>spawn_team = team, spawn_skin = skin, spawn_pos = pos, spawn_rotation = rotation,
                   spawn_weapons = weapons, spawn_weapon_ammo = ammo\<rparr>;
          if \<not> spawn_info_plausible i then Some s
          else Some (s\<lparr>spawn := i, saw_spawn_info := True, spawn_info_seq := bump_seq (spawn_info_seq s)\<rparr>) } })"

section \<open>Incoming RPCs\<close>

text \<open>The branches of \<^verbatim>\<open>rpc_observer\<close> for RPC 139, 128, 129, 68 and 61.\<close>

definition observe_init_game :: "'b bitstream \<Rightarrow> u8 list \<Rightarrow> session \<Rightarrow> session" where
  "observe_init_game B data s = (
     let s = s\<lparr>saw_init_game := True\<rparr>;
         s = (case decode_init_game_payload B data of None \<Rightarrow> s | Some g \<Rightarrow> s\<lparr>game := g\<rparr>)
     in if \<not> sent_request_class s \<and> \<not> pending_request_class s \<and> \<not> waiting_for_request_class_reply s
        then schedule_request_class (selected_class s) s
        else s)"

definition observe_class_reply :: "u8 list \<Rightarrow> session \<Rightarrow> session mem" where
  "observe_class_reply data s = (
     let s = s\<lparr>saw_request_class_reply := True, waiting_for_request_class_reply := False\<rparr>
     in if data = [] then Some s
        else do {
          outcome \<leftarrow> read_byte data 0;
          let s = s\<lparr>request_class_outcome := outcome\<rparr>;
          if outcome \<noteq> 0 \<and> length data \<ge> 1 + kObservedPlayerSpawnInfoBytes
          then do {
            s \<leftarrow> read_spawn_info (drop 1 data) s;
            Some (s\<lparr>class_selection_after_death_requested := False,
                    class_selection_after_death_consumed := False\<rparr>) }
          else Some s })"

definition observe_spawn_reply :: "u8 list \<Rightarrow> session \<Rightarrow> session mem" where
  "observe_spawn_reply data s = (
     let s = s\<lparr>saw_request_spawn_reply := True\<rparr>
     in if data = [] then Some s
        else do {
          outcome \<leftarrow> read_byte data 0;
          let s = s\<lparr>request_spawn_outcome := outcome, pending_request_spawn := False\<rparr>;
          Some (if outcome = 2 \<or> outcome = 1 then s else s\<lparr>request_spawn_send_count := 0\<rparr>) })"

definition observe_spawn_info :: "u8 list \<Rightarrow> session \<Rightarrow> session mem" where
  "observe_spawn_info data s =
     (if length data \<ge> kObservedPlayerSpawnInfoBytes then read_spawn_info data s
      else Some (s\<lparr>saw_spawn_info := True\<rparr>))"

definition observe_dialog_box :: "'b bitstream \<Rightarrow> ('b \<Rightarrow> 'b) \<Rightarrow> u8 list \<Rightarrow> session \<Rightarrow> session mem" where
  "observe_dialog_box B after data s = do {
     d \<leftarrow> observe_dialog B after data (open_dialog s);
     Some (s\<lparr>saw_dialog := True, open_dialog := d\<rparr>) }"

section \<open>The service loop\<close>

definition service_dialog_response :: "service_env \<Rightarrow> session \<Rightarrow> session \<times> (out_rpc \<times> bool) list" where
  "service_dialog_response E s =
     (if \<not> pending_dialog_response s then (s, [])
      else let input = take (kDialogInputBytes - 1) (dialog_response_input s);
               m = DialogResponse (dialog_response_id s) (dialog_response_button s) (dialog_response_listitem s) input;
               sent = rpc E m;
               s = s\<lparr>pending_dialog_response := False, sent_dialog_response := sent\<rparr>
           in (if sent then s\<lparr>saw_dialog := False\<rparr> else s, [(m, sent)]))"

definition service_request_class :: "service_env \<Rightarrow> session \<Rightarrow> session \<times> (out_rpc \<times> bool) list" where
  "service_request_class E s =
     (if \<not> (pending_request_class s \<and> \<not> waiting_for_request_class_reply s) then (s, [])
      else let c = clamp_class_id s (pending_request_class_id s);
               m = RequestClass c;
               sent = rpc E m
           in (if sent
               then s\<lparr>sent_request_class := True, pending_request_class := False,
                      waiting_for_request_class_reply := True, selected_class := c,
                      last_request_class_time := class_clock E\<rparr>
               else s, [(m, sent)]))"

text \<open>The keys, read on Windows only.\<close>

definition class_elapsed :: "u32 \<Rightarrow> session \<Rightarrow> u32" where
  "class_elapsed now s = (if now \<ge> last_request_class_time s then now - last_request_class_time s else 0)"

definition service_keys :: "service_env \<Rightarrow> session \<Rightarrow> session" where
  "service_keys E s =
     (if \<not> class_selection_manual_ready s then s
      else let s = (if shift_key E \<and> \<not> manual_spawn_shift_down s then s\<lparr>pending_request_spawn := True\<rparr>
                    else if (left_key E \<or> right_key E) \<and> class_elapsed (key_clock E) s \<ge> kClassSelectionReselectDelayMs
                    then schedule_request_class (clamp_class_id s (selected_class s + (if left_key E then - 1 else 1))) s
                    else s)
           in s\<lparr>manual_spawn_shift_down := shift_key E\<rparr>)"

text \<open>An open dialog holds a spawn request back, and ends the call.\<close>

definition service_request_spawn :: "service_env \<Rightarrow> session \<Rightarrow> bool \<times> session \<times> (out_rpc \<times> bool) list" where
  "service_request_spawn E s =
     (if \<not> pending_request_spawn s then (False, s, [])
      else if saw_dialog s then (True, s, [])
      else let sent = rpc E RequestSpawn;
               attempt = request_spawn_send_count s + 1
           in (False, s\<lparr>request_spawn_send_count := (if sent then attempt else 0), pending_request_spawn := False\<rparr>,
               [(RequestSpawn, sent)]))"

definition service_score_ping :: "service_env \<Rightarrow> session \<Rightarrow> session \<times> (out_rpc \<times> bool) list" where
  "service_score_ping E s =
     (if saw_init_game s \<and> (next_score_ping_update_time s = 0 \<or> score_clock E \<ge> next_score_ping_update_time s)
      then (s\<lparr>next_score_ping_update_time := score_clock E + kScorePingUpdateMs\<rparr>,
            [(UpdateScoresPingsIPs, rpc E UpdateScoresPingsIPs)])
      else (s, []))"

definition service_rpc_probe_actions :: "service_env \<Rightarrow> session \<Rightarrow> session \<times> (out_rpc \<times> bool) list" where
  "service_rpc_probe_actions E s = (
     let (s, out1) = service_dialog_response E s;
         (s, out2) = service_request_class E s;
         s = service_keys E s;
         (held, s, out3) = service_request_spawn E s
     in if held then (s, out1 @ out2)
        else let (s, out4) = service_score_ping E s in (s, out1 @ out2 @ out3 @ out4))"

section \<open>Requests of the rest of the program\<close>

text \<open>A request names the client it is for; one for another client, or for none, is refused.\<close>

definition own_client :: "nat option \<Rightarrow> session \<Rightarrow> bool" where
  "own_client c s \<longleftrightarrow> \<not> (c = None \<or> c \<noteq> client s)"

definition send_spawn_notification_with_seq ::
  "(out_rpc \<Rightarrow> bool) \<Rightarrow> u32 \<Rightarrow> session \<Rightarrow> int \<times> session \<times> (out_rpc \<times> bool) list" where
  "send_spawn_notification_with_seq send seq s =
     (if seq = 0 \<and> sent_spawn_notify s then (0, s, [])
      else if seq \<noteq> 0 \<and> sent_spawn_notify_seq s = seq then (0, s, [])
      else let sent = send SpawnNotify
           in (if sent then 0 else - 2,
               if sent then s\<lparr>sent_spawn_notify := True, sent_spawn_notify_seq := seq\<rparr> else s,
               [(SpawnNotify, sent)]))"

definition samp_raknet_client_send_spawn_notification_for_seq ::
  "(out_rpc \<Rightarrow> bool) \<Rightarrow> nat option \<Rightarrow> u32 \<Rightarrow> session \<Rightarrow> int \<times> session \<times> (out_rpc \<times> bool) list" where
  "samp_raknet_client_send_spawn_notification_for_seq send c seq s =
     (if \<not> own_client c s then (- 1, s, []) else send_spawn_notification_with_seq send seq s)"

definition samp_raknet_client_send_spawn_notification ::
  "(out_rpc \<Rightarrow> bool) \<Rightarrow> nat option \<Rightarrow> session \<Rightarrow> int \<times> session \<times> (out_rpc \<times> bool) list" where
  "samp_raknet_client_send_spawn_notification send c s =
     (if \<not> own_client c s then (- 1, s, []) else send_spawn_notification_with_seq send 0 s)"

definition samp_raknet_client_send_death_notification ::
  "(out_rpc \<Rightarrow> bool) \<Rightarrow> nat option \<Rightarrow> u8 \<Rightarrow> u8 \<Rightarrow> session \<Rightarrow> int \<times> (out_rpc \<times> bool) list" where
  "samp_raknet_client_send_death_notification send c reason player s =
     (if \<not> own_client c s then (- 1, [])
      else (if send (Death reason player) then 0 else - 2, [(Death reason player, send (Death reason player))]))"

definition samp_raknet_client_mark_class_selection_after_death :: "nat option \<Rightarrow> session \<Rightarrow> int \<times> session" where
  "samp_raknet_client_mark_class_selection_after_death c s =
     (if \<not> own_client c s then (- 1, s)
      else if \<not> saw_init_game s then (- 2, s)
      else if class_selection_after_death_requested s \<and> \<not> class_selection_after_death_consumed s then (1, s)
      else (0, s\<lparr>class_selection_after_death_requested := True, class_selection_after_death_consumed := False\<rparr>))"

definition samp_raknet_client_request_class_selection_after_death :: "nat option \<Rightarrow> session \<Rightarrow> int \<times> session" where
  "samp_raknet_client_request_class_selection_after_death c s =
     (if \<not> own_client c s then (- 1, s)
      else if \<not> saw_init_game s then (- 2, s)
      else if \<not> class_selection_after_death_requested s \<or> class_selection_after_death_consumed s then (- 3, s)
      else (0, schedule_request_class (selected_class s)
        (s\<lparr>class_selection_after_death_requested := False, class_selection_after_death_consumed := True,
           saw_request_class_reply := False, request_class_outcome := 0, waiting_for_request_class_reply := False,
           saw_request_spawn_reply := False, request_spawn_outcome := 0, pending_request_spawn := False,
           request_spawn_send_count := 0, manual_spawn_shift_down := False\<rparr>)))"

definition samp_raknet_client_request_class_delta :: "u32 \<Rightarrow> nat option \<Rightarrow> int \<Rightarrow> session \<Rightarrow> int \<times> session" where
  "samp_raknet_client_request_class_delta now c delta s =
     (if \<not> own_client c s then (- 1, s)
      else if delta = 0 \<or> (\<not> class_selection_manual_ready s \<and> \<not> class_selection_after_death_consumed s) then (- 1, s)
      else if class_elapsed now s < kClassSelectionReselectDelayMs then (- 2, s)
      else let next_class = clamp_class_id s (selected_class s + (if delta < 0 then - 1 else 1));
               s = (if class_selection_after_death_consumed s
                    then s\<lparr>waiting_for_request_class_reply := False, saw_request_class_reply := False,
                           request_class_outcome := 0\<rparr>
                    else s)
           in (0, schedule_request_class next_class s))"

definition samp_raknet_client_request_spawn :: "nat option \<Rightarrow> session \<Rightarrow> int \<times> session" where
  "samp_raknet_client_request_spawn c s =
     (if \<not> own_client c s then (- 1, s)
      else if \<not> class_selection_manual_ready s \<and> \<not> class_selection_after_death_consumed s then (- 1, s)
      else if pending_request_class s \<or> waiting_for_request_class_reply s \<or> \<not> saw_request_class_reply s \<or>
              request_class_outcome s = 0
      then (- 2, s)
      else (0, s\<lparr>pending_request_spawn := True\<rparr>))"

text \<open>A missing input is the empty one.\<close>

definition queue_dialog_response :: "u16 \<Rightarrow> u8 \<Rightarrow> u16 \<Rightarrow> string option \<Rightarrow> session \<Rightarrow> session" where
  "queue_dialog_response i button listitem input s = s\<lparr>dialog_response_id := i, dialog_response_button := button,
     dialog_response_listitem := listitem,
     dialog_response_input := copy_text kDialogInputBytes (case input of None \<Rightarrow> [] | Some t \<Rightarrow> t),
     pending_dialog_response := True\<rparr>"

definition samp_raknet_client_queue_dialog_response ::
  "nat option \<Rightarrow> u16 \<Rightarrow> u8 \<Rightarrow> u16 \<Rightarrow> string option \<Rightarrow> session \<Rightarrow> int \<times> session" where
  "samp_raknet_client_queue_dialog_response c i button listitem input s =
     (if \<not> own_client c s then (- 1, s)
      else if \<not> saw_dialog s \<and> last_dialog_id (open_dialog s) \<noteq> i then (- 1, s)
      else (0, queue_dialog_response i button listitem input s))"

text \<open>A line of chat or a command, cut to 128 bytes.\<close>

definition send_chat_rpc_internal ::
  "(out_rpc \<Rightarrow> bool) \<Rightarrow> string option \<Rightarrow> bool \<Rightarrow> int \<times> (out_rpc \<times> bool) list" where
  "send_chat_rpc_internal send txt server_command =
     (case txt of None \<Rightarrow> (- 1, [])
      | Some t \<Rightarrow>
          if t = [] then (- 1, [])
          else let body = take (if length t > kChatInputBytes then kChatInputBytes else length t) t;
                   m = (if server_command then ServerCommand body else Chat body)
               in (if send m then 0 else - 2, [(m, send m)]))"

definition samp_raknet_client_send_chat ::
  "(out_rpc \<Rightarrow> bool) \<Rightarrow> nat option \<Rightarrow> string option \<Rightarrow> int \<times> (out_rpc \<times> bool) list" where
  "samp_raknet_client_send_chat send c txt =
     (if c = None then (- 1, []) else send_chat_rpc_internal send txt False)"

definition samp_raknet_client_send_server_command ::
  "(out_rpc \<Rightarrow> bool) \<Rightarrow> nat option \<Rightarrow> string option \<Rightarrow> int \<times> (out_rpc \<times> bool) list" where
  "samp_raknet_client_send_server_command send c txt =
     (if c = None then (- 1, []) else send_chat_rpc_internal send txt True)"

section \<open>Runs\<close>

datatype session_event = InitGame "u8 list" | ClassReply "u8 list" | SpawnReply "u8 list" | SpawnInfo "u8 list"
  | DialogBox "u8 list"
  | GameModeRestart
  | Disconnected "nat option"
  | Service service_env
  | MarkAfterDeath "nat option"
  | ClassAfterDeath "nat option"
  | ClassDelta u32 "nat option" int
  | UiSpawn "nat option"
  | AnswerDialog "nat option" u16 u8 u16 "string option"
  | NotifySpawn "out_rpc \<Rightarrow> bool" "nat option" u32

definition session_step ::
  "'b bitstream \<Rightarrow> ('b \<Rightarrow> 'b) \<Rightarrow> session_event \<Rightarrow> session \<Rightarrow> (session \<times> (out_rpc \<times> bool) list) mem" where
  "session_step B after e s = (case e of
       InitGame data \<Rightarrow> Some (observe_init_game B data s, [])
     | ClassReply data \<Rightarrow> map_option (\<lambda>s. (s, [])) (observe_class_reply data s)
     | SpawnReply data \<Rightarrow> map_option (\<lambda>s. (s, [])) (observe_spawn_reply data s)
     | SpawnInfo data \<Rightarrow> map_option (\<lambda>s. (s, [])) (observe_spawn_info data s)
     | DialogBox data \<Rightarrow> map_option (\<lambda>s. (s, [])) (observe_dialog_box B after data s)
     | GameModeRestart \<Rightarrow> Some (reset_rpc_probe_for_game_mode_restart s, [])
     | Disconnected c \<Rightarrow> Some (reset_rpc_probe_runtime c s, [])
     | Service E \<Rightarrow> Some (service_rpc_probe_actions E s)
     | MarkAfterDeath c \<Rightarrow> Some (snd (samp_raknet_client_mark_class_selection_after_death c s), [])
     | ClassAfterDeath c \<Rightarrow> Some (snd (samp_raknet_client_request_class_selection_after_death c s), [])
     | ClassDelta now c delta \<Rightarrow> Some (snd (samp_raknet_client_request_class_delta now c delta s), [])
     | UiSpawn c \<Rightarrow> Some (snd (samp_raknet_client_request_spawn c s), [])
     | AnswerDialog c i b l t \<Rightarrow> Some (snd (samp_raknet_client_queue_dialog_response c i b l t s), [])
     | NotifySpawn send c seq \<Rightarrow> Some (snd (samp_raknet_client_send_spawn_notification_for_seq send c seq s)))"

text \<open>A run is a sequence of steps; its output is what the steps attempt, in order.\<close>

inductive session_run ::
  "'b bitstream \<Rightarrow> ('b \<Rightarrow> 'b) \<Rightarrow> session \<Rightarrow> session_event list \<Rightarrow> (out_rpc \<times> bool) list \<Rightarrow> session \<Rightarrow> bool"
  for B after where
  run_nil: "session_run B after s [] [] s"
| run_step: "session_run B after s es out s' \<Longrightarrow> session_step B after e s' = Some (s'', out') \<Longrightarrow>
    session_run B after s (es @ [e]) (out @ out') s''"

inductive_cases session_run_snoc: "session_run B after s es out s'"

section \<open>The spawn request follows an accepted class\<close>

lemmas service_defs = service_dialog_response_def service_request_class_def service_keys_def
  service_request_spawn_def service_score_ping_def schedule_request_class_def

lemmas client_defs = samp_raknet_client_mark_class_selection_after_death_def
  samp_raknet_client_request_class_selection_after_death_def samp_raknet_client_request_class_delta_def
  samp_raknet_client_request_spawn_def samp_raknet_client_queue_dialog_response_def queue_dialog_response_def
  samp_raknet_client_send_spawn_notification_for_seq_def send_spawn_notification_with_seq_def schedule_request_class_def

text \<open>The incoming data touch only these fields.\<close>

lemma read_spawn_info_frame:
  "read_spawn_info data s = Some s' \<Longrightarrow>
    s' = s \<or> (\<exists>i n. s' = s\<lparr>spawn := i, saw_spawn_info := True, spawn_info_seq := n\<rparr>)"
  by (auto simp only: read_spawn_info_def Let_def bind_Some_iff option.inject split: if_splits)

definition accepts_class :: "session_event \<Rightarrow> bool \<Rightarrow> bool" where
  "accepts_class e accepted = (case e of
       ClassReply data \<Rightarrow> accepted \<or> (data \<noteq> [] \<and> hd data \<noteq> 0)
     | GameModeRestart \<Rightarrow> False
     | Disconnected c \<Rightarrow> False
     | _ \<Rightarrow> accepted)"

definition class_accepted :: "session_event list \<Rightarrow> bool" where
  "class_accepted es = fold accepts_class es False"

definition spawn_needs_class :: "bool \<Rightarrow> session \<Rightarrow> bool" where
  "spawn_needs_class accepted s \<longleftrightarrow> (request_class_outcome s \<noteq> 0 \<or> pending_request_spawn s \<longrightarrow> accepted)"

lemma spawn_needs_class_service:
  assumes "service_rpc_probe_actions E s = (s', out)" "spawn_needs_class a s"
  shows "spawn_needs_class a s' \<and> ((RequestSpawn, ok) \<in> set out \<longrightarrow> a)"
proof -
  obtain s1 o1 where 1: "service_dialog_response E s = (s1, o1)" by fastforce
  obtain s2 o2 where 2: "service_request_class E s1 = (s2, o2)" by fastforce
  let ?s3 = "service_keys E s2"
  obtain held s4 o4 where 4: "service_request_spawn E ?s3 = (held, s4, o4)" by (metis prod_cases3)
  obtain s5 o5 where 5: "service_score_ping E s4 = (s5, o5)" by fastforce
  have "spawn_needs_class a s1" "(RequestSpawn, ok) \<notin> set o1"
    using 1 assms(2) by (auto simp: spawn_needs_class_def service_dialog_response_def Let_def split: if_splits)
  then have "spawn_needs_class a s2" "(RequestSpawn, ok) \<notin> set o2"
    using 2 by (auto simp: spawn_needs_class_def service_request_class_def Let_def split: if_splits)
  then have "spawn_needs_class a ?s3"
    by (auto simp: spawn_needs_class_def service_keys_def schedule_request_class_def class_selection_manual_ready_def)
  then have "spawn_needs_class a s4" "(RequestSpawn, ok) \<in> set o4 \<longrightarrow> a"
    using 4 by (auto simp: spawn_needs_class_def service_request_spawn_def Let_def split: if_splits)
  then have "spawn_needs_class a s5" "(RequestSpawn, ok) \<notin> set o5"
    using 5 by (auto simp: spawn_needs_class_def service_score_ping_def split: if_splits)
  then show ?thesis
    using assms(1) 1 2 4 5 \<open>spawn_needs_class a s4\<close> \<open>(RequestSpawn, ok) \<in> set o4 \<longrightarrow> a\<close>
      \<open>(RequestSpawn, ok) \<notin> set o1\<close> \<open>(RequestSpawn, ok) \<notin> set o2\<close>
    by (auto simp: service_rpc_probe_actions_def Let_def split: if_splits)
qed

lemma spawn_needs_class_reply:
  assumes "observe_class_reply data s = Some s'" "spawn_needs_class a s"
  shows "spawn_needs_class (accepts_class (ClassReply data) a) s'"
  using assms by (cases data)
    (auto simp: observe_class_reply_def spawn_needs_class_def accepts_class_def bind_Some_iff read_byte_def Let_def
      dest!: read_spawn_info_frame split: if_splits)

lemma spawn_needs_class_client:
  assumes "spawn_needs_class a s"
  shows "spawn_needs_class a (snd (samp_raknet_client_mark_class_selection_after_death c s))"
    "spawn_needs_class a (snd (samp_raknet_client_request_class_selection_after_death c s))"
    "spawn_needs_class a (snd (samp_raknet_client_request_class_delta now c delta s))"
    "spawn_needs_class a (snd (samp_raknet_client_request_spawn c s))"
    "spawn_needs_class a (snd (samp_raknet_client_queue_dialog_response c i b l t s))"
    "spawn_needs_class a (fst (snd (samp_raknet_client_send_spawn_notification_for_seq send c seq s)))"
  using assms by (auto simp: spawn_needs_class_def client_defs Let_def)

lemma spawn_needs_class_game:
  assumes "spawn_needs_class a s"
  shows "spawn_needs_class a (observe_init_game B data s)" "spawn_needs_class b (reset_rpc_probe_runtime c s)"
    "spawn_needs_class b (reset_rpc_probe_for_game_mode_restart s)"
  using assms by (auto simp: spawn_needs_class_def observe_init_game_def Let_def schedule_request_class_def
      reset_rpc_probe_runtime_def reset_rpc_probe_for_game_mode_restart_def split: option.split)

lemma spawn_needs_class_spawn_reply:
  "observe_spawn_reply data s = Some s' \<Longrightarrow> spawn_needs_class a s \<Longrightarrow> spawn_needs_class a s'"
  by (cases data) (auto simp: spawn_needs_class_def observe_spawn_reply_def read_byte_def Let_def split: if_splits)

lemma spawn_needs_class_dialog:
  "observe_dialog_box B after data s = Some s' \<Longrightarrow> spawn_needs_class a s \<Longrightarrow> spawn_needs_class a s'"
  by (cases "observe_dialog B after data (open_dialog s)") (auto simp: spawn_needs_class_def observe_dialog_box_def)

lemma spawn_needs_class_spawn_info:
  assumes "observe_spawn_info data s = Some s'" "spawn_needs_class a s"
  shows "spawn_needs_class a s'"
proof (cases "length data \<ge> kObservedPlayerSpawnInfoBytes")
  case True
  then have "read_spawn_info data s = Some s'" using assms(1) by (simp add: observe_spawn_info_def)
  from read_spawn_info_frame[OF this] assms(2) show ?thesis by (auto simp: spawn_needs_class_def)
next
  case False
  then show ?thesis using assms by (auto simp: observe_spawn_info_def spawn_needs_class_def)
qed

lemmas spawn_needs_class_observe = spawn_needs_class_spawn_reply spawn_needs_class_dialog spawn_needs_class_spawn_info

lemma spawn_needs_class_step:
  assumes "session_step B after e s = Some (s', out)" "spawn_needs_class a s"
  shows "spawn_needs_class (accepts_class e a) s'"
proof (cases e)
  case (Service E)
  then show ?thesis using assms spawn_needs_class_service[of E s s' out a]
    by (auto simp: session_step_def accepts_class_def)
next
  case (ClassReply data)
  then show ?thesis using assms spawn_needs_class_reply[of data s _ a] by (auto simp: session_step_def)
next
  case (NotifySpawn send c seq)
  then show ?thesis using assms spawn_needs_class_client(6)[OF assms(2), of send c seq]
    by (auto simp: session_step_def accepts_class_def)
qed (use assms spawn_needs_class_client[OF assms(2)] spawn_needs_class_game[OF assms(2)] in
    \<open>auto simp: session_step_def accepts_class_def dest: spawn_needs_class_observe\<close>)

lemma spawn_needs_class_run:
  "session_run B after s es out s' \<Longrightarrow> s = reset_rpc_probe_runtime c s0 \<Longrightarrow> spawn_needs_class (class_accepted es) s'"
proof (induction rule: session_run.induct)
  case (run_nil s)
  then show ?case by (simp add: spawn_needs_class_def class_accepted_def reset_rpc_probe_runtime_def)
next
  case (run_step s es out s' e s'' out')
  then show ?case using spawn_needs_class_step[OF run_step.hyps(2)] by (simp add: class_accepted_def)
qed

text \<open>The same runs as a function.\<close>

fun session_exec ::
  "'b bitstream \<Rightarrow> ('b \<Rightarrow> 'b) \<Rightarrow> session \<Rightarrow> session_event list \<Rightarrow> (session \<times> (out_rpc \<times> bool) list) mem" where
  "session_exec B after s [] = Some (s, [])"
| "session_exec B after s (e # es) = do {
     (s, out) \<leftarrow> session_step B after e s;
     (s, out') \<leftarrow> session_exec B after s es;
     Some (s, out @ out') }"

lemma session_exec_snoc:
  "session_exec B after s (es @ [e]) = do {
     (s, out) \<leftarrow> session_exec B after s es;
     (s, out') \<leftarrow> session_step B after e s;
     Some (s, out @ out') }"
  by (induction es arbitrary: s) (auto split: Option.bind_splits)

lemma session_exec_run: "session_exec B after s es = Some (s', out) \<Longrightarrow> session_run B after s es out s'"
proof (induction es arbitrary: s' out rule: rev_induct)
  case Nil
  then show ?case by (simp add: run_nil)
next
  case (snoc e es)
  then show ?case by (auto simp: session_exec_snoc bind_Some_iff intro: run_step)
qed

text \<open>C1: RequestSpawn is only sent after the server has accepted a class in the current session: in every run from a
  reset, whatever the server sends, the player presses and the user interface requests, a step that attempts
  RequestSpawn comes after a class reply with a non-zero outcome that no later reset or change of game mode has undone.\<close>

theorem spawn_only_after_accepted_class:
  assumes "session_run B after (reset_rpc_probe_runtime c s0) es out s" "session_step B after e s = Some (s', out')"
    "(RequestSpawn, ok) \<in> set out'"
  shows "class_accepted es"
proof -
  have inv: "spawn_needs_class (class_accepted es) s" by (rule spawn_needs_class_run[OF assms(1) refl])
  show ?thesis
  proof (cases e)
    case (Service E)
    then show ?thesis using assms(2,3) spawn_needs_class_service[OF _ inv, of E s' out' ok] by (simp add: session_step_def)
  next
    case (NotifySpawn send c seq)
    then show ?thesis using assms(2,3)
      by (auto simp: session_step_def samp_raknet_client_send_spawn_notification_for_seq_def
          send_spawn_notification_with_seq_def Let_def split: if_splits)
  qed (use assms(2,3) in \<open>auto simp: session_step_def\<close>)
qed

section \<open>From the start of a game to the spawn\<close>

text \<open>The phases of a session without dialogs: fresh, a class to ask for, a class asked for, and the player's choice.\<close>

definition calm :: "session \<Rightarrow> bool" where
  "calm s \<longleftrightarrow> \<not> saw_dialog s \<and> \<not> pending_dialog_response s \<and> \<not> pending_request_spawn s \<and>
     request_spawn_send_count s = 0 \<and> \<not> manual_spawn_shift_down s"

definition phase_fresh :: "session \<Rightarrow> bool" where
  "phase_fresh s \<longleftrightarrow> calm s \<and> \<not> pending_request_class s \<and> \<not> waiting_for_request_class_reply s \<and>
     \<not> sent_request_class s \<and> \<not> saw_request_class_reply s"

definition phase_asking :: "int \<Rightarrow> session \<Rightarrow> bool" where
  "phase_asking c s \<longleftrightarrow> calm s \<and> pending_request_class s \<and> \<not> waiting_for_request_class_reply s \<and>
     clamp_class_id s (pending_request_class_id s) = c"

definition phase_asked :: "session \<Rightarrow> bool" where
  "phase_asked s \<longleftrightarrow> calm s \<and> \<not> pending_request_class s \<and> waiting_for_request_class_reply s"

definition phase_choosing :: "session \<Rightarrow> bool" where
  "phase_choosing s \<longleftrightarrow> calm s \<and> class_selection_manual_ready s"

lemma spawns_available_pos: "1 \<le> spawns_available s" "spawns_available s < 65536"
proof -
  have "uint (init_spawns_available (game s)) < 65536" using uint_lt2p[of "init_spawns_available (game s)"] by simp
  moreover have "1 \<le> uint (init_spawns_available (game s))" if "init_spawns_available (game s) \<noteq> 0"
  proof -
    have "uint (init_spawns_available (game s)) \<noteq> 0" using that by (simp add: uint_0_iff)
    then show ?thesis using uint_ge_0[of "init_spawns_available (game s)"] by linarith
  qed
  ultimately show "1 \<le> spawns_available s" "spawns_available s < 65536"
    by (auto simp: spawns_available_def)
qed

lemma clamp_class_id_range: "0 \<le> clamp_class_id s c" "clamp_class_id s c < spawns_available s"
  using spawns_available_pos(1)[of s] by (auto simp: clamp_class_id_def)

lemma clamp_class_id_id: "0 \<le> c \<Longrightarrow> c < spawns_available s \<Longrightarrow> clamp_class_id s c = c"
  by (simp add: clamp_class_id_def)

lemma phase_fresh_reset: "phase_fresh (reset_rpc_probe_runtime c s)" "selected_class (reset_rpc_probe_runtime c s) = 0"
  by (simp_all add: phase_fresh_def calm_def reset_rpc_probe_runtime_def)

lemma phase_init_game:
  assumes "phase_fresh s" "selected_class s = 0"
  shows "phase_asking 0 (observe_init_game B data s)"
proof -
  define t where "t = (case decode_init_game_payload B data of None \<Rightarrow> s\<lparr>saw_init_game := True\<rparr>
    | Some g \<Rightarrow> s\<lparr>saw_init_game := True, game := g\<rparr>)"
  have t: "phase_fresh t" "selected_class t = 0"
    using assms by (auto simp: t_def phase_fresh_def calm_def split: option.split)
  have "observe_init_game B data s = schedule_request_class 0 t"
    using t by (auto simp: observe_init_game_def t_def Let_def phase_fresh_def split: option.splits)
  moreover have "clamp_class_id t 0 = 0" using spawns_available_pos(1)[of t] by (simp add: clamp_class_id_id)
  moreover have "spawns_available (schedule_request_class 0 t) = spawns_available t"
    by (simp add: spawns_available_def schedule_request_class_def)
  then have "clamp_class_id (schedule_request_class 0 t) x = clamp_class_id t x" for x
    by (simp add: clamp_class_id_def)
  moreover have "calm (schedule_request_class 0 t)" using t by (simp add: phase_fresh_def calm_def schedule_request_class_def)
  moreover have "\<not> waiting_for_request_class_reply (schedule_request_class 0 t)" "pending_request_class (schedule_request_class 0 t)"
    "pending_request_class_id (schedule_request_class 0 t) = clamp_class_id t 0"
    using t by (simp_all add: phase_fresh_def schedule_request_class_def)
  ultimately show ?thesis by (simp add: phase_asking_def)
qed

definition pings :: "(out_rpc \<times> bool) list \<Rightarrow> bool" where
  "pings out \<longleftrightarrow> (\<forall>m\<in>set out. fst m = UpdateScoresPingsIPs)"

lemma service_score_ping_frame:
  assumes "service_score_ping E s = (s', out)"
  shows "pings out" "calm s' = calm s" "phase_asked s' = phase_asked s" "phase_choosing s' = phase_choosing s"
    "request_spawn_send_count s' = request_spawn_send_count s" "pending_request_spawn s' = pending_request_spawn s"
  using assms by (auto simp: service_score_ping_def pings_def calm_def phase_asked_def phase_choosing_def
      class_selection_manual_ready_def split: if_splits)

lemma phase_service_asking:
  assumes "phase_asking c s" "rpc E (RequestClass c)"
  shows "\<exists>s' out. service_rpc_probe_actions E s = (s', (RequestClass c, True) # out) \<and> pings out \<and> phase_asked s'"
proof -
  let ?t = "s\<lparr>sent_request_class := True, pending_request_class := False, waiting_for_request_class_reply := True,
    selected_class := c, last_request_class_time := class_clock E\<rparr>"
  have 1: "service_dialog_response E s = (s, [])" using assms by (simp add: service_dialog_response_def phase_asking_def calm_def)
  have 2: "service_request_class E s = (?t, [(RequestClass c, True)])"
    using assms by (simp add: service_request_class_def phase_asking_def)
  have t: "phase_asked ?t" using assms(1) by (simp add: phase_asked_def phase_asking_def calm_def)
  have 3: "service_keys E ?t = ?t" by (simp add: service_keys_def class_selection_manual_ready_def)
  have 4: "service_request_spawn E ?t = (False, ?t, [])" using t by (simp add: service_request_spawn_def phase_asked_def calm_def)
  obtain s' out where 5: "service_score_ping E ?t = (s', out)" by fastforce
  have "service_rpc_probe_actions E s = (s', (RequestClass c, True) # out)"
    unfolding service_rpc_probe_actions_def Let_def 1 2 3 4 5 split_conv by (simp del: session.update_convs)
  then show ?thesis using service_score_ping_frame[OF 5] t by auto
qed

lemma read_i32s_in: "off + 4 * n \<le> length data \<Longrightarrow> \<exists>vs. read_i32s data off n = Some vs"
proof (induction n arbitrary: off)
  case (Suc n)
  then obtain v vs where "read_le_i32 data off = Some v" "read_i32s data (off + 4) n = Some vs"
    using read_le_i32_in[of off data] Suc.IH[of "off + 4"] by fastforce
  then show ?case by simp
qed simp

lemma read_spawn_info_total: "\<exists>s'. read_spawn_info data s = Some s'"
proof (cases "length data < kObservedPlayerSpawnInfoBytes")
  case False
  let ?off = "if length data \<ge> kPlayerSpawnInfoBytes then 6 else 5 :: nat"
  have len: "?off + 40 \<le> length data" using False by (simp add: session_consts)
  obtain a where a: "read_byte data 0 = Some a" using read_byte_in[of 0 data] len by fastforce
  obtain b where b: "read_le_i32 data 1 = Some b" using read_le_i32_in[of 1 data] len by fastforce
  obtain p where p: "read_vec3 data ?off = Some p" using read_vec3_in[of ?off data] len by fastforce
  obtain r where r: "read_le_float data (?off + 12) = Some r" using read_le_float_in[of "?off + 12" data] len by fastforce
  obtain w where w: "read_i32s data (?off + 16) 3 = Some w" using read_i32s_in[of "?off + 16" 3 data] len by fastforce
  obtain m where m: "read_i32s data (?off + 28) 3 = Some m" using read_i32s_in[of "?off + 28" 3 data] len by fastforce
  show ?thesis unfolding read_spawn_info_def Let_def a b p r w m by simp
qed (simp add: read_spawn_info_def)

lemma phase_class_reply:
  assumes "phase_asked s" "b \<noteq> 0"
  shows "\<exists>s'. observe_class_reply (b # rest) s = Some s' \<and> phase_choosing s'"
proof -
  let ?t = "s\<lparr>saw_request_class_reply := True, waiting_for_request_class_reply := False, request_class_outcome := b\<rparr>"
  have t: "phase_choosing ?t" using assms by (simp add: phase_choosing_def phase_asked_def calm_def class_selection_manual_ready_def)
  obtain u where u: "read_spawn_info rest ?t = Some u" using read_spawn_info_total by blast
  have "phase_choosing u" using read_spawn_info_frame[OF u] t
    by (auto simp: phase_choosing_def calm_def class_selection_manual_ready_def)
  then have "phase_choosing (u\<lparr>class_selection_after_death_requested := False, class_selection_after_death_consumed := False\<rparr>)"
    by (simp add: phase_choosing_def calm_def class_selection_manual_ready_def)
  moreover have "read_byte (b # rest) 0 = Some b" by (simp add: read_byte_def)
  ultimately show ?thesis using t u assms(2)
    by (cases "length (b # rest) \<ge> 1 + kObservedPlayerSpawnInfoBytes") (simp_all add: observe_class_reply_def Let_def)
qed

lemma phase_service_choosing:
  assumes "phase_choosing s" "shift_key E" "rpc E RequestSpawn"
  shows "\<exists>s' out. service_rpc_probe_actions E s = (s', (RequestSpawn, True) # out) \<and> pings out \<and>
    request_spawn_send_count s' = 1 \<and> \<not> pending_request_spawn s'"
proof -
  let ?t = "s\<lparr>pending_request_spawn := True, manual_spawn_shift_down := True\<rparr>"
  let ?u = "?t\<lparr>request_spawn_send_count := 1, pending_request_spawn := False\<rparr>"
  have 1: "service_dialog_response E s = (s, [])" using assms by (simp add: service_dialog_response_def phase_choosing_def calm_def)
  have 2: "service_request_class E s = (s, [])"
    using assms by (simp add: service_request_class_def phase_choosing_def class_selection_manual_ready_def)
  have 3: "service_keys E s = ?t" using assms by (simp add: service_keys_def phase_choosing_def calm_def)
  have 4: "service_request_spawn E ?t = (False, ?u, [(RequestSpawn, True)])"
    using assms by (simp add: service_request_spawn_def phase_choosing_def calm_def)
  obtain s' out where 5: "service_score_ping E ?u = (s', out)" by fastforce
  have "service_rpc_probe_actions E s = (s', (RequestSpawn, True) # out)"
    unfolding service_rpc_probe_actions_def Let_def 1 2 3 4 5 split_conv by (simp del: session.update_convs)
  then show ?thesis using service_score_ping_frame[OF 5] by auto
qed

definition session_start :: session where
  "session_start = \<lparr>client = None, local_nickname = [], auth_local_player_id_valid = False,
     auth_local_player_id = 0, game_mode_restart_seq = 0, game_mode_restart_generation = 0, saw_init_game = False,
     saw_request_class_reply = False,
     saw_request_spawn_reply = False, saw_spawn_info = False, saw_dialog = False, pending_request_class = False,
     pending_request_spawn = False, pending_dialog_response = False, pending_request_class_id = 0,
     sent_request_class = False, waiting_for_request_class_reply = False, sent_dialog_response = False,
     request_spawn_send_count = 0, sent_spawn_notify = False, sent_spawn_notify_seq = 0,
     manual_spawn_shift_down = False, class_selection_after_death_requested = False,
     class_selection_after_death_consumed = False, selected_class = 0, open_dialog = no_dialog, dialog_response_id = 0,
     dialog_response_button = 0, dialog_response_listitem = 0, dialog_response_input = [],
     game = zero_init_game, request_class_outcome = 0, request_spawn_outcome = 0, spawn_info_seq = 0,
     spawn = zero_spawn_info, last_request_class_time = 0, next_score_ping_update_time = 0\<rparr>"

definition quiet_env :: service_env where
  "quiet_env = \<lparr>rpc = (\<lambda>m. True), class_clock = 1000, key_clock = 2000, score_clock = 2000, shift_key = False,
     left_key = False, right_key = False\<rparr>"

lemma session_flow:
  assumes "\<And>m. rpc E1 m" "b \<noteq> 0" "shift_key E2" "rpc E2 RequestSpawn"
  obtains s1 out1 s2 out2 where
    "session_exec B after (reset_rpc_probe_runtime c s) [InitGame g, Service E1, ClassReply (b # rest)] =
       Some (s1, (RequestClass 0, True) # out1)" "pings out1" "phase_choosing s1"
    "session_step B after (Service E2) s1 = Some (s2, (RequestSpawn, True) # out2)" "pings out2"
    "request_spawn_send_count s2 = 1" "\<not> pending_request_spawn s2"
proof -
  let ?r = "reset_rpc_probe_runtime c s"
  have 1: "phase_asking 0 (observe_init_game B g ?r)" by (rule phase_init_game[OF phase_fresh_reset])
  from phase_service_asking[OF 1 assms(1)] obtain t out1 where
    t: "service_rpc_probe_actions E1 (observe_init_game B g ?r) = (t, (RequestClass 0, True) # out1)" "pings out1" "phase_asked t"
    by blast
  from phase_class_reply[OF t(3) assms(2)] obtain s1 where s1: "observe_class_reply (b # rest) t = Some s1" "phase_choosing s1"
    by blast
  from phase_service_choosing[OF s1(2) assms(3,4)] obtain s2 out2 where
    s2: "service_rpc_probe_actions E2 s1 = (s2, (RequestSpawn, True) # out2)" "pings out2"
      "request_spawn_send_count s2 = 1" "\<not> pending_request_spawn s2"
    by blast
  show thesis by (rule that[of s1 out1 s2 out2]) (simp_all add: session_step_def t s1 s2)
qed

lemma spawn_only_after_accepted_class_witness:
  "class_accepted [InitGame [], Service quiet_env, ClassReply [1]]"
proof -
  have 1: "\<And>m. rpc quiet_env m" "(1 :: u8) \<noteq> 0" "shift_key (quiet_env\<lparr>shift_key := True\<rparr>)"
    "rpc (quiet_env\<lparr>shift_key := True\<rparr>) RequestSpawn"
    by (simp_all add: quiet_env_def)
  obtain s1 out1 s2 out2 where
    f: "session_exec bit_list_stream id (reset_rpc_probe_runtime (Some 1) session_start) [InitGame [], Service quiet_env, ClassReply [1]] =
       Some (s1, (RequestClass 0, True) # out1)"
    "session_step bit_list_stream id (Service (quiet_env\<lparr>shift_key := True\<rparr>)) s1 = Some (s2, (RequestSpawn, True) # out2)"
    by (rule session_flow[OF 1]) 
  show ?thesis by (rule spawn_only_after_accepted_class[OF session_exec_run[OF f(1)] f(2), of True]) simp
qed

text \<open>C2: A session reaches the spawn: after a reset, when the server starts the game, accepts the class and the network
  takes the messages, the first service call asks for class 0 and the one in which the player presses SHIFT sends
  RequestSpawn, once; the score requests of the timer are the only other traffic.\<close>

theorem session_reaches_spawn:
  assumes "\<And>m. rpc E1 m" "b \<noteq> 0" "shift_key E2" "rpc E2 RequestSpawn"
  shows "\<exists>s' out out'. session_exec B after (reset_rpc_probe_runtime c s)
      [InitGame g, Service E1, ClassReply (b # rest), Service E2] =
        Some (s', (RequestClass 0, True) # out @ (RequestSpawn, True) # out') \<and>
    pings out \<and> pings out' \<and> request_spawn_send_count s' = 1 \<and> \<not> pending_request_spawn s'"
proof -
  obtain s1 out1 s2 out2 where f:
    "session_exec B after (reset_rpc_probe_runtime c s) [InitGame g, Service E1, ClassReply (b # rest)] =
       Some (s1, (RequestClass 0, True) # out1)" "pings out1" "phase_choosing s1"
    "session_step B after (Service E2) s1 = Some (s2, (RequestSpawn, True) # out2)" "pings out2"
    "request_spawn_send_count s2 = 1" "\<not> pending_request_spawn s2"
    by (rule session_flow[OF assms])
  have "session_exec B after (reset_rpc_probe_runtime c s) ([InitGame g, Service E1, ClassReply (b # rest)] @ [Service E2]) =
      Some (s2, (RequestClass 0, True) # out1 @ (RequestSpawn, True) # out2)"
    unfolding session_exec_snoc f(1) by (simp add: f(4))
  then show ?thesis using f by auto
qed

lemma session_reaches_spawn_witness:
  "\<exists>s' out out'. session_exec bit_list_stream id (reset_rpc_probe_runtime (Some 1) session_start)
      [InitGame [], Service quiet_env, ClassReply [1], Service (quiet_env\<lparr>shift_key := True\<rparr>)] =
        Some (s', (RequestClass 0, True) # out @ (RequestSpawn, True) # out') \<and>
    pings out \<and> pings out' \<and> request_spawn_send_count s' = 1 \<and> \<not> pending_request_spawn s'"
  by (rule session_reaches_spawn) (simp_all add: quiet_env_def)

section \<open>Class requests\<close>

lemma service_parts:
  assumes "service_rpc_probe_actions E s = (s', out)"
  obtains s1 o1 s2 o2 held s4 o4 s5 o5 where "service_dialog_response E s = (s1, o1)"
    "service_request_class E s1 = (s2, o2)" "service_request_spawn E (service_keys E s2) = (held, s4, o4)"
    "service_score_ping E s4 = (s5, o5)" "out = o1 @ o2 @ (if held then [] else o4 @ o5)"
    "s' = (if held then s4 else s5)"
proof -
  obtain s1 o1 where 1: "service_dialog_response E s = (s1, o1)" by fastforce
  obtain s2 o2 where 2: "service_request_class E s1 = (s2, o2)" by fastforce
  obtain held s4 o4 where 4: "service_request_spawn E (service_keys E s2) = (held, s4, o4)" by (metis prod_cases3)
  obtain s5 o5 where 5: "service_score_ping E s4 = (s5, o5)" by fastforce
  have "(s', out) = (if held then (s4, o1 @ o2) else (s5, o1 @ o2 @ o4 @ o5))"
    using assms unfolding service_rpc_probe_actions_def Let_def 1 2 4 5 split_conv by (simp add: eq_commute)
  then show thesis using that[OF 1 2 4 5] by (cases held) simp_all
qed

lemma service_stage_messages:
  "service_dialog_response E s = (s1, o1) \<Longrightarrow> (RequestClass c, ok) \<notin> set o1"
  "service_request_spawn E s = (held, s1, o1) \<Longrightarrow> (RequestClass c, ok) \<notin> set o1"
  "service_score_ping E s = (s1, o1) \<Longrightarrow> (RequestClass c, ok) \<notin> set o1"
  by (auto simp: service_dialog_response_def service_request_spawn_def service_score_ping_def Let_def split: if_splits)

lemma service_stage_waiting:
  "service_dialog_response E s = (s1, o1) \<Longrightarrow> waiting_for_request_class_reply s1 = waiting_for_request_class_reply s"
  "service_request_spawn E s = (held, s1, o1) \<Longrightarrow> waiting_for_request_class_reply s1 = waiting_for_request_class_reply s"
  "service_score_ping E s = (s1, o1) \<Longrightarrow> waiting_for_request_class_reply s1 = waiting_for_request_class_reply s"
  by (auto simp: service_dialog_response_def service_request_spawn_def service_score_ping_def Let_def split: if_splits)

lemma service_class_request:
  assumes "service_rpc_probe_actions E s = (s', out)" "(RequestClass c, ok) \<in> set out"
  shows "pending_request_class s \<and> \<not> waiting_for_request_class_reply s \<and> 0 \<le> c \<and> c < spawns_available s"
  using assms(1)
proof (rule service_parts)
  fix s1 o1 s2 o2 held s4 o4 s5 o5
  assume p: "service_dialog_response E s = (s1, o1)" "service_request_class E s1 = (s2, o2)"
    "service_request_spawn E (service_keys E s2) = (held, s4, o4)" "service_score_ping E s4 = (s5, o5)"
    "out = o1 @ o2 @ (if held then [] else o4 @ o5)"
  have s1: "pending_request_class s1 = pending_request_class s" "spawns_available s1 = spawns_available s"
    "waiting_for_request_class_reply s1 = waiting_for_request_class_reply s"
    using p(1) by (auto simp: service_dialog_response_def spawns_available_def Let_def split: if_splits)
  have "(RequestClass c, ok) \<in> set o2"
    using assms(2) p(5) service_stage_messages(1)[OF p(1)] service_stage_messages(2)[OF p(3)]
      service_stage_messages(3)[OF p(4)] by (auto split: if_splits)
  then show ?thesis using p(2) s1 clamp_class_id_range[of s1]
    by (auto simp: service_request_class_def Let_def split: if_splits)
qed

lemma step_class_request:
  assumes "session_step B after e s = Some (s', out)" "(RequestClass c, ok) \<in> set out"
  shows "\<exists>E. e = Service E \<and> service_rpc_probe_actions E s = (s', out)"
proof (cases e)
  case (NotifySpawn send c seq)
  then show ?thesis using assms
    by (auto simp: session_step_def samp_raknet_client_send_spawn_notification_for_seq_def
        send_spawn_notification_with_seq_def Let_def split: if_splits)
qed (use assms in \<open>auto simp: session_step_def\<close>)

text \<open>How many class requests were sent.\<close>

definition class_requests :: "(out_rpc \<times> bool) list \<Rightarrow> nat" where
  "class_requests out = length (filter (\<lambda>(m, ok). ok \<and> (case m of RequestClass c \<Rightarrow> True | _ \<Rightarrow> False)) out)"

lemma class_requests_append [simp]: "class_requests (xs @ ys) = class_requests xs + class_requests ys"
  by (simp add: class_requests_def)

lemma class_requests_none: "(\<And>c ok. (RequestClass c, ok) \<notin> set out) \<Longrightarrow> class_requests out = 0"
  by (auto simp: class_requests_def filter_empty_conv split: out_rpc.splits)

text \<open>The events after which a further class request may be sent: a reply, a reset, or the player's request for
  another class.\<close>

definition frees_request :: "session_event \<Rightarrow> bool" where
  "frees_request e \<longleftrightarrow> (case e of ClassReply data \<Rightarrow> True | GameModeRestart \<Rightarrow> True | Disconnected c \<Rightarrow> True
     | ClassAfterDeath c \<Rightarrow> True | ClassDelta now c delta \<Rightarrow> True | _ \<Rightarrow> False)"

lemma waiting_keys: "waiting_for_request_class_reply (service_keys E s) = waiting_for_request_class_reply s"
  by (simp add: service_keys_def schedule_request_class_def Let_def)

lemma service_waiting:
  assumes "service_rpc_probe_actions E s = (s', out)"
  shows "of_bool (waiting_for_request_class_reply s') = of_bool (waiting_for_request_class_reply s) + class_requests out"
  using assms
proof (rule service_parts)
  fix s1 o1 s2 o2 held s4 o4 s5 o5
  assume p: "service_dialog_response E s = (s1, o1)" "service_request_class E s1 = (s2, o2)"
    "service_request_spawn E (service_keys E s2) = (held, s4, o4)" "service_score_ping E s4 = (s5, o5)"
    "out = o1 @ o2 @ (if held then [] else o4 @ o5)" "s' = (if held then s4 else s5)"
  have none: "class_requests o1 = 0" "class_requests o4 = 0" "class_requests o5 = 0"
    using service_stage_messages(1)[OF p(1)] service_stage_messages(2)[OF p(3)]
      service_stage_messages(3)[OF p(4)] by (blast intro: class_requests_none)+
  have "of_bool (waiting_for_request_class_reply s2) = of_bool (waiting_for_request_class_reply s1) + class_requests o2"
    using p(2) by (auto simp: service_request_class_def class_requests_def Let_def split: if_splits)
  then show ?thesis using none p(5,6) service_stage_waiting(1)[OF p(1)] service_stage_waiting(2)[OF p(3)]
      service_stage_waiting(3)[OF p(4)] waiting_keys[of E s2]
    by (simp add: class_requests_def split: if_splits)
qed

lemma step_waiting:
  assumes "session_step B after e s = Some (s', out)"
  shows "of_bool (waiting_for_request_class_reply s) + class_requests out \<le>
    of_bool (waiting_for_request_class_reply s') + of_bool (frees_request e)"
proof (cases "\<exists>E. e = Service E")
  case True
  then obtain E where "e = Service E" by blast
  then show ?thesis using assms service_waiting[of E s s' out] by (simp add: session_step_def)
next
  case other: False
  then have none: "class_requests out = 0" using step_class_request[OF assms] by (blast intro: class_requests_none)
  show ?thesis
  proof (cases "frees_request e")
    case False
    have keep: "waiting_for_request_class_reply (observe_init_game B data s) = waiting_for_request_class_reply s" for data
      by (auto simp: observe_init_game_def Let_def schedule_request_class_def split: option.split)
    have info: "observe_spawn_info data s = Some t \<Longrightarrow> waiting_for_request_class_reply t = waiting_for_request_class_reply s" for data t
      by (cases "length data \<ge> kObservedPlayerSpawnInfoBytes") (auto simp: observe_spawn_info_def dest!: read_spawn_info_frame)
    have reply: "observe_spawn_reply data s = Some t \<Longrightarrow> waiting_for_request_class_reply t = waiting_for_request_class_reply s" for data t
      by (cases data) (auto simp: observe_spawn_reply_def read_byte_def Let_def split: if_splits)
    have dialog: "observe_dialog_box B after data s = Some t \<Longrightarrow> waiting_for_request_class_reply t = waiting_for_request_class_reply s" for data t
      by (cases "observe_dialog B after data (open_dialog s)") (auto simp: observe_dialog_box_def)
    have "waiting_for_request_class_reply s' = waiting_for_request_class_reply s"
      using assms False other keep info reply dialog
      by (cases e) (auto simp: session_step_def frees_request_def client_defs Let_def split: if_splits)
    then show ?thesis using none by simp
  qed (simp add: none)
qed

lemma run_class_requests:
  "session_run B after s es out s' \<Longrightarrow> \<not> waiting_for_request_class_reply s \<Longrightarrow>
    class_requests out \<le> of_bool (waiting_for_request_class_reply s') + length (filter frees_request es)"
proof (induction rule: session_run.induct)
  case (run_step s es out s' e s'' out')
  then show ?case using step_waiting[OF run_step.hyps(2)] by (auto split: if_splits)
qed (simp add: class_requests_def)

text \<open>C6: Class requests are not repeated: in every run from a reset the number of class requests sent is at most one more
  than the number of class replies, resets and renewed requests of the player, and each class request that a step
  attempts names a class the server offers.\<close>

theorem class_requests_answered:
  assumes "session_run B after (reset_rpc_probe_runtime c s0) es out s"
  shows "class_requests out \<le> 1 + length (filter frees_request es) \<and>
    (\<forall>e s' out' k ok. session_step B after e s = Some (s', out') \<and> (RequestClass k, ok) \<in> set out' \<longrightarrow>
       0 \<le> k \<and> k < spawns_available s)"
proof
  have "\<not> waiting_for_request_class_reply (reset_rpc_probe_runtime c s0)" by (simp add: reset_rpc_probe_runtime_def)
  from run_class_requests[OF assms this] have "class_requests out \<le> of_bool (waiting_for_request_class_reply s) +
    length (filter frees_request es)" .
  moreover have "of_bool (waiting_for_request_class_reply s) \<le> (1 :: nat)" by simp
  ultimately show "class_requests out \<le> 1 + length (filter frees_request es)" by linarith
  show "\<forall>e s' out' k ok. session_step B after e s = Some (s', out') \<and> (RequestClass k, ok) \<in> set out' \<longrightarrow>
       0 \<le> k \<and> k < spawns_available s"
    using step_class_request service_class_request by blast
qed

lemma class_requests_answered_witness:
  "\<exists>s out. session_exec bit_list_stream id (reset_rpc_probe_runtime (Some 1) session_start)
      [InitGame [], Service quiet_env, ClassReply [1]] = Some (s, (RequestClass 0, True) # out) \<and>
    class_requests ((RequestClass 0, True) # out) \<le> 2"
proof -
  have 1: "\<And>m. rpc quiet_env m" "(1 :: u8) \<noteq> 0" "shift_key (quiet_env\<lparr>shift_key := True\<rparr>)"
    "rpc (quiet_env\<lparr>shift_key := True\<rparr>) RequestSpawn"
    by (simp_all add: quiet_env_def)
  obtain s1 out1 s2 out2 where
    f: "session_exec bit_list_stream id (reset_rpc_probe_runtime (Some 1) session_start) [InitGame [], Service quiet_env, ClassReply [1]] =
       Some (s1, (RequestClass 0, True) # out1)"
    by (rule session_flow[OF 1])
  have "class_requests ((RequestClass 0, True) # out1) \<le> 1 + length (filter frees_request [InitGame [], Service quiet_env, ClassReply [1]])"
    using class_requests_answered[OF session_exec_run[OF f]] by blast
  then show ?thesis using f by (auto simp: frees_request_def)
qed

section \<open>Dialogs\<close>

definition dialog_responses :: "(out_rpc \<times> bool) list \<Rightarrow> out_rpc list" where
  "dialog_responses out = [m. (m, ok) \<leftarrow> out, case m of DialogResponse i b l t \<Rightarrow> ok | _ \<Rightarrow> False]"

lemma dialog_responses_append [simp]: "dialog_responses (xs @ ys) = dialog_responses xs @ dialog_responses ys"
  by (simp add: dialog_responses_def)

lemma service_dialog_out:
  assumes "service_rpc_probe_actions E s = (s', out)"
  shows "dialog_responses out = dialog_responses (snd (service_dialog_response E s))"
    "pending_dialog_response s' = False" "saw_dialog s' = saw_dialog (fst (service_dialog_response E s))"
proof -
  have all: "dialog_responses out = dialog_responses (snd (service_dialog_response E s)) \<and>
    \<not> pending_dialog_response s' \<and> saw_dialog s' = saw_dialog (fst (service_dialog_response E s))"
    using assms
  proof (rule service_parts)
    fix s1 o1 s2 o2 held s4 o4 s5 o5
    assume p: "service_dialog_response E s = (s1, o1)" "service_request_class E s1 = (s2, o2)"
      "service_request_spawn E (service_keys E s2) = (held, s4, o4)" "service_score_ping E s4 = (s5, o5)"
      "out = o1 @ o2 @ (if held then [] else o4 @ o5)" "s' = (if held then s4 else s5)"
    have none: "dialog_responses o2 = []" "dialog_responses o4 = []" "dialog_responses o5 = []"
      using p(2,3,4) by (auto simp: dialog_responses_def service_request_class_def service_request_spawn_def
          service_score_ping_def Let_def split: if_splits)
    have s1: "\<not> pending_dialog_response s1" using p(1) by (auto simp: service_dialog_response_def Let_def split: if_splits)
    have s2: "pending_dialog_response s2 = pending_dialog_response s1" "saw_dialog s2 = saw_dialog s1"
      using p(2) by (auto simp: service_request_class_def Let_def split: if_splits)
    have keys: "pending_dialog_response (service_keys E s2) = pending_dialog_response s2" "saw_dialog (service_keys E s2) = saw_dialog s2"
      by (simp_all add: service_keys_def schedule_request_class_def Let_def)
    have s4: "pending_dialog_response s4 = pending_dialog_response (service_keys E s2)" "saw_dialog s4 = saw_dialog (service_keys E s2)"
      using p(3) by (auto simp: service_request_spawn_def Let_def split: if_splits)
    have s5: "pending_dialog_response s5 = pending_dialog_response s4" "saw_dialog s5 = saw_dialog s4"
      using p(4) by (auto simp: service_score_ping_def split: if_splits)
    show ?thesis using p(1,5,6) none s1 s2 keys s4 s5 by (simp add: dialog_responses_def[of "[]"] split: if_splits)
  qed
  then show "dialog_responses out = dialog_responses (snd (service_dialog_response E s))"
    "pending_dialog_response s' = False" "saw_dialog s' = saw_dialog (fst (service_dialog_response E s))" by blast+
qed

lemma service_dialog_in:
  assumes "service_rpc_probe_actions E s = (s', out)"
  shows "set (snd (service_dialog_response E s)) \<subseteq> set out"
  using assms
proof (rule service_parts)
  fix s1 o1 s2 o2 held s4 o4 s5 o5
  assume "service_dialog_response E s = (s1, o1)" "out = o1 @ o2 @ (if held then [] else o4 @ o5)"
  then show ?thesis by simp
qed

text \<open>C7: The answer to a dialog is sent once: when the client answers the open dialog and nothing but the service runs then,
  the next service call hands the network the chosen button, list item and input, cut to 255 characters. If the network
  takes the message, that is the one answer sent and the dialog is closed; if it refuses, no answer is sent, neither then nor by a
  later service call, and the dialog stays open.\<close>

theorem dialog_answered_once:
  assumes "own_client c s" "saw_dialog s"
    "session_exec B after s ([AnswerDialog c i button listitem (Some input), Service E] @ map Service Es) = Some (s', out)"
  shows "let m = DialogResponse i button listitem (take 255 input)
    in (m, rpc E m) \<in> set out \<and> dialog_responses out = (if rpc E m then [m] else []) \<and> saw_dialog s' = (\<not> rpc E m)"
proof -
  let ?m = "DialogResponse i button listitem (take 255 input)"
  let ?q = "queue_dialog_response i button listitem (Some input) s"
  obtain t o1 where t: "service_rpc_probe_actions E ?q = (t, o1)" by fastforce
  have q: "snd (service_dialog_response E ?q) = [(?m, rpc E ?m)]" "saw_dialog (fst (service_dialog_response E ?q)) = (\<not> rpc E ?m)"
    using assms(2) by (simp_all add: service_dialog_response_def queue_dialog_response_def copy_text_def kDialogInputBytes_def Let_def)
  have first: "dialog_responses o1 = (if rpc E ?m then [?m] else [])" "\<not> pending_dialog_response t" "saw_dialog t = (\<not> rpc E ?m)"
    using service_dialog_out[OF t] q by (simp_all add: dialog_responses_def)
  have handed: "(?m, rpc E ?m) \<in> set o1"
    using service_dialog_in[OF t] q(1) by simp
  have rest: "session_exec B after u (map Service Es) = Some (u', out) \<Longrightarrow> \<not> pending_dialog_response u \<Longrightarrow>
      dialog_responses out = [] \<and> saw_dialog u' = saw_dialog u" for u u' out
  proof (induction Es arbitrary: u u' out)
    case (Cons F Fs)
    obtain v o2 where v: "service_rpc_probe_actions F u = (v, o2)" by fastforce
    have "service_dialog_response F u = (u, [])" using Cons.prems by (simp add: service_dialog_response_def)
    then have "dialog_responses o2 = []" "\<not> pending_dialog_response v" "saw_dialog v = saw_dialog u"
      using service_dialog_out[OF v] by (simp_all add: dialog_responses_def)
    then show ?case using Cons.prems(1) Cons.IH by (auto simp: session_step_def v bind_Some_iff)
  qed (simp add: dialog_responses_def)
  have "samp_raknet_client_queue_dialog_response c i button listitem (Some input) s = (0, ?q)"
    using assms(1,2) by (simp add: samp_raknet_client_queue_dialog_response_def)
  then obtain o3 where "out = o1 @ o3" "session_exec B after t (map Service Es) = Some (s', o3)"
    using assms(3) t by (auto simp: session_step_def bind_Some_iff)
  then show ?thesis using first handed rest[of t s' o3] by (simp add: Let_def)
qed

lemma dialog_answered_once_witness:
  "\<exists>s' out. session_exec bit_list_stream id ((reset_rpc_probe_runtime (Some 1) session_start)\<lparr>saw_dialog := True\<rparr>)
      [AnswerDialog (Some 1) 7 1 2 (Some ''ok''), Service quiet_env, Service quiet_env] = Some (s', out) \<and>
    dialog_responses out = [DialogResponse 7 1 2 ''ok''] \<and> \<not> saw_dialog s'"
proof -
  let ?s = "(reset_rpc_probe_runtime (Some 1) session_start)\<lparr>saw_dialog := True\<rparr>"
  let ?es = "[AnswerDialog (Some 1) 7 1 2 (Some ''ok''), Service quiet_env] @ map Service [quiet_env]"
  have 1: "own_client (Some 1) ?s" "saw_dialog ?s"
    by (simp_all add: own_client_def reset_rpc_probe_runtime_def)
  have accepted: "rpc quiet_env m" for m by (simp add: quiet_env_def)
  have "\<exists>s' out. session_exec bit_list_stream id ?s ?es = Some (s', out)"
    by (simp add: session_step_def split: prod.split del: not_None_eq split_paired_Ex)
  then obtain s' out where e: "session_exec bit_list_stream id ?s ?es = Some (s', out)" by blast
  from dialog_answered_once[OF 1 e] e accepted show ?thesis by (auto simp: Let_def)
qed

section \<open>Totality, notifications and resets\<close>

definition session_ok :: "session \<Rightarrow> bool" where
  "session_ok s \<longleftrightarrow> dialog_ok (open_dialog s) \<and> length (dialog_response_input s) < kDialogInputBytes"

lemma session_ok_reset: "session_ok (reset_rpc_probe_runtime c s)"
  by (simp add: session_ok_def reset_rpc_probe_runtime_def dialog_ok_def no_dialog_def dialog_consts kDialogInputBytes_def)

lemma session_ok_client:
  assumes "session_ok s"
  shows "session_ok (snd (samp_raknet_client_mark_class_selection_after_death c s))"
    "session_ok (snd (samp_raknet_client_request_class_selection_after_death c s))"
    "session_ok (snd (samp_raknet_client_request_class_delta now c delta s))"
    "session_ok (snd (samp_raknet_client_request_spawn c s))"
    "session_ok (snd (samp_raknet_client_queue_dialog_response c i b l t s))"
    "session_ok (fst (snd (samp_raknet_client_send_spawn_notification_for_seq send c seq s)))"
  using assms by (auto simp: session_ok_def client_defs Let_def copy_text_def kDialogInputBytes_def)

lemma session_ok_service:
  assumes "service_rpc_probe_actions E s = (s', out)" "session_ok s"
  shows "session_ok s'"
  using assms(1)
proof (rule service_parts)
  fix s1 o1 s2 o2 held s4 o4 s5 o5
  assume p: "service_dialog_response E s = (s1, o1)" "service_request_class E s1 = (s2, o2)"
    "service_request_spawn E (service_keys E s2) = (held, s4, o4)" "service_score_ping E s4 = (s5, o5)"
    "s' = (if held then s4 else s5)"
  have "session_ok s1" using p(1) assms(2) by (auto simp: service_dialog_response_def session_ok_def Let_def split: if_splits)
  then have "session_ok s2" using p(2) by (auto simp: service_request_class_def session_ok_def Let_def split: if_splits)
  then have "session_ok (service_keys E s2)" by (simp add: service_keys_def schedule_request_class_def session_ok_def Let_def)
  then have "session_ok s4" using p(3) by (auto simp: service_request_spawn_def session_ok_def Let_def split: if_splits)
  then show ?thesis using p(4,5) by (auto simp: service_score_ping_def session_ok_def split: if_splits)
qed

lemma session_ok_observe:
  assumes "session_ok s"
  shows "session_ok (observe_init_game B data s)" "\<exists>s'. observe_class_reply data s = Some s' \<and> session_ok s'"
    "\<exists>s'. observe_spawn_reply data s = Some s' \<and> session_ok s'" "\<exists>s'. observe_spawn_info data s = Some s' \<and> session_ok s'"
    "bitstream_ok B \<Longrightarrow> \<exists>s'. observe_dialog_box B after data s = Some s' \<and> session_ok s'"
proof -
  have info: "\<exists>t'. read_spawn_info d t = Some t' \<and> session_ok t'" if "session_ok t" for d t
  proof -
    obtain t' where r: "read_spawn_info d t = Some t'" using read_spawn_info_total by blast
    from read_spawn_info_frame[OF r] that have "session_ok t'" by (auto simp: session_ok_def)
    with r show ?thesis by blast
  qed
  show "session_ok (observe_init_game B data s)"
    using assms by (auto simp: observe_init_game_def session_ok_def Let_def schedule_request_class_def split: option.split)
  show "\<exists>s'. observe_spawn_reply data s = Some s' \<and> session_ok s'"
    using assms by (cases data) (auto simp: observe_spawn_reply_def read_byte_def session_ok_def Let_def)
  have "session_ok (s\<lparr>saw_spawn_info := True\<rparr>)" using assms by (simp add: session_ok_def)
  then show "\<exists>s'. observe_spawn_info data s = Some s' \<and> session_ok s'"
    using info[OF assms, of data] by (simp add: observe_spawn_info_def)
  show "\<exists>s'. observe_dialog_box B after data s = Some s' \<and> session_ok s'" if "bitstream_ok B"
    using dialog_box_total[OF that, of "open_dialog s" after data] assms by (auto simp: observe_dialog_box_def session_ok_def)
  show "\<exists>s'. observe_class_reply data s = Some s' \<and> session_ok s'"
  proof (cases data)
    case Nil
    then show ?thesis using assms by (simp add: observe_class_reply_def session_ok_def Let_def)
  next
    case (Cons b rest)
    let ?t = "s\<lparr>saw_request_class_reply := True, waiting_for_request_class_reply := False, request_class_outcome := b\<rparr>"
    have "session_ok ?t" using assms by (simp add: session_ok_def)
    with info[of ?t rest] obtain u where u: "read_spawn_info rest ?t = Some u" "session_ok u" by blast
    have "read_byte (b # rest) 0 = Some b" by (simp add: read_byte_def)
    moreover have "session_ok (u\<lparr>class_selection_after_death_requested := False, class_selection_after_death_consumed := False\<rparr>)"
      using u(2) by (simp add: session_ok_def)
    ultimately show ?thesis using Cons u(1) \<open>session_ok ?t\<close>
      by (cases "b \<noteq> 0 \<and> length data \<ge> 1 + kObservedPlayerSpawnInfoBytes") (simp_all add: observe_class_reply_def Let_def)
  qed
qed

lemma session_ok_step:
  assumes "bitstream_ok B" "session_ok s"
  shows "\<exists>s' out. session_step B after e s = Some (s', out) \<and> session_ok s'"
proof (cases e)
  case (Service E)
  then show ?thesis using session_ok_service[OF _ assms(2), of E] by (cases "service_rpc_probe_actions E s") (simp add: session_step_def)
next
  case (NotifySpawn send c seq)
  then show ?thesis using session_ok_client(6)[OF assms(2), of send c seq]
    by (cases "samp_raknet_client_send_spawn_notification_for_seq send c seq s") (simp add: session_step_def)
next
  case GameModeRestart
  have "session_ok (reset_rpc_probe_for_game_mode_restart s)"
    using session_ok_reset[of "client s" "s\<lparr>game_mode_restart_generation := bump_seq (game_mode_restart_generation s)\<rparr>"]
    by (simp add: reset_rpc_probe_for_game_mode_restart_def session_ok_def Let_def)
  then show ?thesis using GameModeRestart by (simp add: session_step_def)
next
  case (ClassReply data)
  then show ?thesis using session_ok_observe(2)[OF assms(2), of data] by (auto simp: session_step_def)
next
  case (SpawnReply data)
  then show ?thesis using session_ok_observe(3)[OF assms(2), of data] by (auto simp: session_step_def)
next
  case (SpawnInfo data)
  then show ?thesis using session_ok_observe(4)[OF assms(2), of data] by (auto simp: session_step_def)
next
  case (DialogBox data)
  then show ?thesis using session_ok_observe(5)[OF assms(2,1), of after data] by (auto simp: session_step_def)
qed (use session_ok_client[OF assms(2)] session_ok_observe(1)[OF assms(2)] session_ok_reset in \<open>simp_all add: session_step_def\<close>)


text \<open>The session never gets stuck and never reads outside its input: from a reset, every sequence of incoming RPCs of
  any length and content, service calls, user requests and resets runs to its end, with the texts of the dialog and
  of its answer within their arrays.\<close>

theorem session_runs_total:
  assumes "bitstream_ok B"
  shows "\<exists>s out. session_exec B after (reset_rpc_probe_runtime c s0) es = Some (s, out) \<and> session_ok s"
proof (induction es rule: rev_induct)
  case Nil
  then show ?case by (simp add: session_ok_reset)
next
  case (snoc e es)
  then obtain s out where s: "session_exec B after (reset_rpc_probe_runtime c s0) es = Some (s, out)" "session_ok s" by blast
  from session_ok_step[OF assms s(2), of after e] s(1) show ?case by (auto simp: session_exec_snoc)
qed

lemma session_runs_total_witness:
  "\<exists>s out. session_exec bit_list_stream id (reset_rpc_probe_runtime None session_start)
    [DialogBox [1, 0, 2], SpawnInfo [7], ClassReply [], GameModeRestart] = Some (s, out) \<and> session_ok s"
  by (rule session_runs_total[OF bit_list_stream_ok])

text \<open>A spawn is reported once: after a report for a spawn number that the network took, every further report for that
  number returns success and sends nothing; a report the network refused changes nothing, so that it is sent again.\<close>

theorem spawn_notified_once:
  assumes "samp_raknet_client_send_spawn_notification_for_seq send c seq s = (r, s', out)" "own_client c s"
  shows "(r = 0 \<longrightarrow> samp_raknet_client_send_spawn_notification_for_seq send' c seq s' = (0, s', [])) \<and>
    (r \<noteq> 0 \<longrightarrow> r = - 2 \<and> s' = s \<and> out = [(SpawnNotify, False)])"
  using assms by (auto simp: samp_raknet_client_send_spawn_notification_for_seq_def send_spawn_notification_with_seq_def
      own_client_def Let_def split: if_splits)

lemma spawn_notified_once_witness:
  "\<exists>s'. samp_raknet_client_send_spawn_notification_for_seq (\<lambda>m. True) (Some 1) 3 (reset_rpc_probe_runtime (Some 1) session_start)
      = (0, s', [(SpawnNotify, True)]) \<and>
    samp_raknet_client_send_spawn_notification_for_seq (\<lambda>m. True) (Some 1) 3 s' = (0, s', [])"
proof -
  let ?s = "reset_rpc_probe_runtime (Some 1) session_start"
  have own: "own_client (Some 1) ?s" by (simp add: own_client_def reset_rpc_probe_runtime_def)
  have "samp_raknet_client_send_spawn_notification_for_seq (\<lambda>m. True) (Some 1) 3 ?s =
      (0, ?s\<lparr>sent_spawn_notify := True, sent_spawn_notify_seq := 3\<rparr>, [(SpawnNotify, True)])"
    using own by (simp add: samp_raknet_client_send_spawn_notification_for_seq_def send_spawn_notification_with_seq_def
        reset_rpc_probe_runtime_def)
  from spawn_notified_once[OF this own, of "\<lambda>m. True"] this show ?thesis by blast
qed

section \<open>Resets\<close>

lemma service_reset:
  assumes "phase_fresh s" "\<not> saw_init_game s"
  shows "service_rpc_probe_actions E s = (s, [])"
proof -
  have 1: "service_dialog_response E s = (s, [])" using assms by (simp add: service_dialog_response_def phase_fresh_def calm_def)
  have 2: "service_request_class E s = (s, [])" using assms by (simp add: service_request_class_def phase_fresh_def)
  have 3: "service_keys E s = s" using assms by (simp add: service_keys_def class_selection_manual_ready_def phase_fresh_def)
  have 4: "service_request_spawn E s = (False, s, [])" using assms by (simp add: service_request_spawn_def phase_fresh_def calm_def)
  have 5: "service_score_ping E s = (s, [])" using assms(2) by (simp add: service_score_ping_def)
  show ?thesis unfolding service_rpc_probe_actions_def Let_def 1 2 3 4 5 split_conv by simp
qed

text \<open>A reset leaves nothing pending: after a disconnect or a change of the game mode, service calls send nothing, whatever
  was pending before and whichever keys are down, until the server or the user asks for something; a change
  of the game mode keeps the client and the nickname and gives the new mode a non-zero number.\<close>

theorem reset_silences_session:
  assumes "e = GameModeRestart \<or> e = Disconnected c"
  shows "\<exists>s'. session_exec B after s (e # map Service Es) = Some (s', []) \<and>
    (e = GameModeRestart \<longrightarrow> client s' = client s \<and> local_nickname s' = local_nickname s \<and>
       game_mode_restart_seq s' = bump_seq (game_mode_restart_generation s) \<and> game_mode_restart_seq s' \<noteq> 0)"
proof -
  define t where "t = (if e = GameModeRestart then reset_rpc_probe_for_game_mode_restart s else reset_rpc_probe_runtime c s)"
  have fresh: "phase_fresh t" "\<not> saw_init_game t"
    by (auto simp: t_def phase_fresh_def calm_def reset_rpc_probe_for_game_mode_restart_def reset_rpc_probe_runtime_def Let_def)
  have step: "session_step B after e s = Some (t, [])" using assms by (auto simp: t_def session_step_def)
  have "session_exec B after t (map Service Es) = Some (t, [])"
    by (induction Es) (simp_all add: session_step_def service_reset[OF fresh])
  then have "session_exec B after s (e # map Service Es) = Some (t, [])" using step by simp
  moreover have "client t = client s \<and> local_nickname t = local_nickname s \<and>
      game_mode_restart_seq t = bump_seq (game_mode_restart_generation s)" if "e = GameModeRestart"
    using that by (simp add: t_def reset_rpc_probe_for_game_mode_restart_def reset_rpc_probe_runtime_def Let_def)
  ultimately show ?thesis by auto
qed

lemma reset_silences_session_witness:
  "\<exists>s'. session_exec bit_list_stream id (session_start\<lparr>pending_request_spawn := True\<rparr>)
      (GameModeRestart # map Service [quiet_env]) = Some (s', []) \<and>
    client s' = None \<and> game_mode_restart_seq s' = bump_seq 0"
  using reset_silences_session[of GameModeRestart None bit_list_stream id "session_start\<lparr>pending_request_spawn := True\<rparr>" "[quiet_env]"]
  by (simp add: session_start_def del: session_exec.simps) blast


section \<open>A spawn request without an answered class\<close>

text \<open>
  \<^verbatim>\<open>samp_raknet_client_request_spawn\<close> refuses while a class request is pending or unanswered, but
  \<^verbatim>\<open>samp_raknet_client_request_class_delta\<close> does not withdraw a spawn request: after a death, where a
  class reply without spawn data leaves the forced selection on, the two requests in this order make one
  service call send RequestClass and RequestSpawn together.
\<close>

theorem forced_delta_spawns_unanswered:
  assumes "own_client c s" "class_selection_after_death_consumed s" "pending_request_spawn s" "\<not> saw_dialog s"
    "\<not> pending_dialog_response s" "class_elapsed now s \<ge> 250" "\<And>m. rpc E m"
  shows "\<exists>k s' out. service_rpc_probe_actions E (snd (samp_raknet_client_request_class_delta now c 1 s)) =
      (s', (RequestClass k, True) # (RequestSpawn, True) # out) \<and> waiting_for_request_class_reply s'"
proof -
  define t where "t = snd (samp_raknet_client_request_class_delta now c 1 s)"
  have "\<not> class_elapsed now s < kClassSelectionReselectDelayMs" using assms(6) by (simp add: kClassSelectionReselectDelayMs_def)
  then have t: "\<not> saw_dialog t" "\<not> pending_dialog_response t" "pending_request_spawn t" "pending_request_class t"
    "\<not> waiting_for_request_class_reply t"
    using assms by (simp_all add: t_def samp_raknet_client_request_class_delta_def schedule_request_class_def Let_def)
  let ?k = "clamp_class_id t (pending_request_class_id t)"
  let ?u = "t\<lparr>sent_request_class := True, pending_request_class := False, waiting_for_request_class_reply := True,
    selected_class := ?k, last_request_class_time := class_clock E\<rparr>"
  let ?v = "?u\<lparr>request_spawn_send_count := request_spawn_send_count t + 1, pending_request_spawn := False\<rparr>"
  have 1: "service_dialog_response E t = (t, [])" using t by (simp add: service_dialog_response_def)
  have 2: "service_request_class E t = (?u, [(RequestClass ?k, True)])" using t assms(7) by (simp add: service_request_class_def Let_def)
  have 3: "service_keys E ?u = ?u" by (simp add: service_keys_def class_selection_manual_ready_def)
  have 4: "service_request_spawn E ?u = (False, ?v, [(RequestSpawn, True)])" using t assms(7) by (simp add: service_request_spawn_def)
  obtain s' out where 5: "service_score_ping E ?v = (s', out)" by fastforce
  have "service_rpc_probe_actions E t = (s', (RequestClass ?k, True) # (RequestSpawn, True) # out)"
    unfolding service_rpc_probe_actions_def Let_def 1 2 3 4 5 split_conv by (simp del: session.update_convs)
  moreover have "waiting_for_request_class_reply s'" using service_stage_waiting(3)[OF 5] by simp
  ultimately show ?thesis unfolding t_def by blast
qed

end
