(* ===== verification/RpcPlayers.thy ===== *)
theory RpcPlayers
  imports RpcSession
begin

text \<open>
  The other players in \<^verbatim>\<open>src/net/raknet_client_adapter.cpp\<close>: who is on the server (RPCs 137, 138, 11, 69
  and 72), who is in view (RPCs 32, 163 and 166), the position packets of players on foot (packet 207), the scores
  (RPC 155), and the lines of the chat window (RPCs 93 and 101), which take a player's name from the list.
\<close>

section \<open>Data\<close>

definition SAMP_RAKNET_PLAYER_NAME_BYTES :: nat where "SAMP_RAKNET_PLAYER_NAME_BYTES = 25"
definition SAMP_RAKNET_PLAYER_POOL_EVENT_RING :: nat where "SAMP_RAKNET_PLAYER_POOL_EVENT_RING = 64"
definition SAMP_RAKNET_REMOTE_PLAYER_EVENT_RING :: nat where "SAMP_RAKNET_REMOTE_PLAYER_EVENT_RING = 64"
definition SAMP_RAKNET_REMOTE_PLAYER_SYNC_RING :: nat where "SAMP_RAKNET_REMOTE_PLAYER_SYNC_RING = 128"
definition SAMP_RAKNET_CLIENT_MESSAGE_RING :: nat where "SAMP_RAKNET_CLIENT_MESSAGE_RING = 8"
definition SAMP_RAKNET_CLIENT_MESSAGE_BYTES :: nat where "SAMP_RAKNET_CLIENT_MESSAGE_BYTES = 256"
definition SAMP_RAKNET_SCORE_PING_MAX_ENTRIES :: nat where "SAMP_RAKNET_SCORE_PING_MAX_ENTRIES = SAMP_RAKNET_MAX_PLAYERS"
definition SAMP_RAKNET_PLAYER_POOL_ACTION_JOIN :: u8 where "SAMP_RAKNET_PLAYER_POOL_ACTION_JOIN = 1"
definition SAMP_RAKNET_PLAYER_POOL_ACTION_QUIT :: u8 where "SAMP_RAKNET_PLAYER_POOL_ACTION_QUIT = 2"
definition SAMP_RAKNET_PLAYER_POOL_ACTION_RENAME :: u8 where "SAMP_RAKNET_PLAYER_POOL_ACTION_RENAME = 3"
definition SAMP_RAKNET_PLAYER_POOL_ACTION_TEAM :: u8 where "SAMP_RAKNET_PLAYER_POOL_ACTION_TEAM = 4"
definition SAMP_RAKNET_PLAYER_POOL_ACTION_COLOR :: u8 where "SAMP_RAKNET_PLAYER_POOL_ACTION_COLOR = 5"
definition SAMP_RAKNET_REMOTE_PLAYER_ACTION_ADD :: u8 where "SAMP_RAKNET_REMOTE_PLAYER_ACTION_ADD = 1"
definition SAMP_RAKNET_REMOTE_PLAYER_ACTION_REMOVE :: u8 where "SAMP_RAKNET_REMOTE_PLAYER_ACTION_REMOVE = 2"
definition SAMP_RAKNET_REMOTE_PLAYER_ACTION_DEATH :: u8 where "SAMP_RAKNET_REMOTE_PLAYER_ACTION_DEATH = 3"
definition kPacketPlayerSync :: u8 where "kPacketPlayerSync = 207"

lemmas player_consts = SAMP_RAKNET_PLAYER_NAME_BYTES_def SAMP_RAKNET_PLAYER_POOL_EVENT_RING_def
  SAMP_RAKNET_REMOTE_PLAYER_EVENT_RING_def SAMP_RAKNET_REMOTE_PLAYER_SYNC_RING_def SAMP_RAKNET_CLIENT_MESSAGE_RING_def
  SAMP_RAKNET_CLIENT_MESSAGE_BYTES_def SAMP_RAKNET_SCORE_PING_MAX_ENTRIES_def SAMP_RAKNET_MAX_PLAYERS_def
  SAMP_RAKNET_PLAYER_POOL_ACTION_JOIN_def SAMP_RAKNET_PLAYER_POOL_ACTION_QUIT_def
  SAMP_RAKNET_PLAYER_POOL_ACTION_RENAME_def SAMP_RAKNET_PLAYER_POOL_ACTION_TEAM_def SAMP_RAKNET_PLAYER_POOL_ACTION_COLOR_def
  SAMP_RAKNET_REMOTE_PLAYER_ACTION_ADD_def SAMP_RAKNET_REMOTE_PLAYER_ACTION_REMOVE_def
  SAMP_RAKNET_REMOTE_PLAYER_ACTION_DEATH_def kPacketPlayerSync_def

record samp_raknet_player_pool_event =
  pe_seq :: u32
  pe_action :: u8
  pe_is_npc :: u8
  pe_reason :: u8
  pe_player_id :: u16
  pe_color :: u32
  pe_name :: string

record samp_raknet_score_ping_entry =
  sp_player_id :: u16
  sp_score :: int
  sp_ping :: u32

record samp_raknet_remote_player_event =
  re_seq :: u32
  re_action :: u8
  re_team :: u8
  re_fighting_style :: u8
  re_visible :: u8
  re_death_reason :: u8
  re_player_id :: u16
  re_skin :: int
  re_color :: u32
  re_pos :: "f32 list"
  re_rotation :: f32

record samp_raknet_remote_onfoot_sync =
  rs_seq :: u32
  rs_player_id :: u16
  rs_left_right_keys :: u16
  rs_up_down_keys :: u16
  rs_keys :: u16
  rs_health :: u8
  rs_armour :: u8
  rs_current_weapon :: u8
  rs_special_action :: u8
  rs_surfing_vehicle_id :: u16
  rs_position :: "f32 list"
  rs_rotation :: f32
  rs_move_speed :: "f32 list"
  rs_surfing_offsets :: "f32 list"

record samp_raknet_client_message_probe =
  cm_seq :: u32
  cm_color :: u32
  cm_text :: string

definition zero_player_event :: samp_raknet_player_pool_event where
  "zero_player_event = \<lparr>pe_seq = 0, pe_action = 0, pe_is_npc = 0, pe_reason = 0, pe_player_id = 0, pe_color = 0, pe_name = []\<rparr>"

definition zero_remote_event :: samp_raknet_remote_player_event where
  "zero_remote_event = \<lparr>re_seq = 0, re_action = 0, re_team = 0, re_fighting_style = 0, re_visible = 0,
     re_death_reason = 0, re_player_id = 0, re_skin = 0, re_color = 0, re_pos = [0, 0, 0], re_rotation = 0\<rparr>"

definition zero_sync :: samp_raknet_remote_onfoot_sync where
  "zero_sync = \<lparr>rs_seq = 0, rs_player_id = 0, rs_left_right_keys = 0, rs_up_down_keys = 0, rs_keys = 0, rs_health = 0,
     rs_armour = 0, rs_current_weapon = 0, rs_special_action = 0, rs_surfing_vehicle_id = 0, rs_position = [0, 0, 0],
     rs_rotation = 0, rs_move_speed = [0, 0, 0], rs_surfing_offsets = [0, 0, 0]\<rparr>"

record player_net =
  player_pool_event_seq :: u32
  player_pool_events :: "samp_raknet_player_pool_event list"
  remote_player_event_seq :: u32
  remote_player_events :: "samp_raknet_remote_player_event list"
  remote_player_sync_seq :: u32
  remote_player_syncs :: "samp_raknet_remote_onfoot_sync list"
  score_ping_seq :: u32
  score_ping_count :: nat
  score_ping_entries :: "samp_raknet_score_ping_entry list"
  player_color_seq :: u32
  player_color_player_id :: u16
  player_color :: u32
  player_team_seq :: u32
  player_team_player_id :: u16
  player_team :: u8
  saw_client_message :: bool
  client_message_seq :: u32
  client_messages :: "samp_raknet_client_message_probe list"

definition reset_player_net :: player_net where
  "reset_player_net = \<lparr>player_pool_event_seq = 0,
     player_pool_events = replicate SAMP_RAKNET_PLAYER_POOL_EVENT_RING zero_player_event, remote_player_event_seq = 0,
     remote_player_events = replicate SAMP_RAKNET_REMOTE_PLAYER_EVENT_RING zero_remote_event,
     remote_player_sync_seq = 0, remote_player_syncs = replicate SAMP_RAKNET_REMOTE_PLAYER_SYNC_RING zero_sync,
     score_ping_seq = 0, score_ping_count = 0,
     score_ping_entries = replicate SAMP_RAKNET_SCORE_PING_MAX_ENTRIES \<lparr>sp_player_id = 0, sp_score = 0, sp_ping = 0\<rparr>,
     player_color_seq = 0, player_color_player_id = 0, player_color = 0, player_team_seq = 0, player_team_player_id = 0,
     player_team = 0, saw_client_message = False, client_message_seq = 0,
     client_messages = replicate SAMP_RAKNET_CLIENT_MESSAGE_RING \<lparr>cm_seq = 0, cm_color = 0, cm_text = []\<rparr>\<rparr>"

section \<open>The list of players\<close>

definition queue_player_pool_event ::
  "u8 \<Rightarrow> u16 \<Rightarrow> u32 \<Rightarrow> u8 \<Rightarrow> u8 \<Rightarrow> string \<Rightarrow> player_net \<Rightarrow> player_net" where
  "queue_player_pool_event action i color npc reason nam w = (
     let n = bump_seq (player_pool_event_seq w);
         e = \<lparr>pe_seq = n, pe_action = action, pe_is_npc = npc, pe_reason = reason, pe_player_id = i, pe_color = color,
              pe_name = copy_text SAMP_RAKNET_PLAYER_NAME_BYTES nam\<rparr>
     in w\<lparr>player_pool_event_seq := n,
          player_pool_events := (player_pool_events w)[ring_slot SAMP_RAKNET_PLAYER_POOL_EVENT_RING n := e]\<rparr>)"

text \<open>\<^verbatim>\<open>copy_bounded_bytes\<close>, of at most one byte less than the array holds.\<close>

definition copy_bounded_bytes :: "nat \<Rightarrow> u8 list \<Rightarrow> nat \<Rightarrow> nat \<Rightarrow> string mem" where
  "copy_bounded_bytes out_size data off len = do {
     bytes \<leftarrow> load_bytes data off (if len < out_size - 1 then len else out_size - 1);
     Some (bytes_string bytes) }"

text \<open>The compact layout, where \<open>color\<close> is what the attempt with the full layout left in the variable.\<close>

definition decode_server_join_compact :: "u32 \<Rightarrow> u8 list \<Rightarrow> player_net \<Rightarrow> (bool \<times> player_net) mem" where
  "decode_server_join_compact color data w = do {
     len \<leftarrow> read_byte data 1;
     if unat len \<le> SAMP_RAKNET_PLAYER_NAME_BYTES - 1 \<and> 2 + unat len \<le> length data
     then do {
       i \<leftarrow> read_byte data 0;
       nam \<leftarrow> copy_bounded_bytes SAMP_RAKNET_PLAYER_NAME_BYTES data 2 (unat len);
       Some (True, queue_player_pool_event SAMP_RAKNET_PLAYER_POOL_ACTION_JOIN (ucast i) color 0 0 nam w) }
     else Some (False, w) }"

definition decode_server_join_payload :: "u8 list \<Rightarrow> player_net \<Rightarrow> (bool \<times> player_net) mem" where
  "decode_server_join_payload data w =
     (if length data < 2 then Some (False, w)
      else if length data < 8 then decode_server_join_compact 0xFFFFFFFF data w
      else do {
        i \<leftarrow> read_le16 data 0;
        color \<leftarrow> read_le32 data 2;
        npc \<leftarrow> read_byte data 6;
        len \<leftarrow> read_byte data 7;
        if unat len \<le> SAMP_RAKNET_PLAYER_NAME_BYTES - 1 \<and> 8 + unat len \<le> length data
        then do {
          nam \<leftarrow> copy_bounded_bytes SAMP_RAKNET_PLAYER_NAME_BYTES data 8 (unat len);
          Some (True, queue_player_pool_event SAMP_RAKNET_PLAYER_POOL_ACTION_JOIN i color npc 0 nam w) }
        else decode_server_join_compact color data w })"

definition decode_server_quit_payload :: "u8 list \<Rightarrow> player_net \<Rightarrow> (bool \<times> player_net) mem" where
  "decode_server_quit_payload data w =
     (if length data < 2 then Some (False, w)
      else if length data \<ge> 3 then do {
        i \<leftarrow> read_le16 data 0;
        reason \<leftarrow> read_byte data 2;
        Some (True, queue_player_pool_event SAMP_RAKNET_PLAYER_POOL_ACTION_QUIT i 0 0 reason [] w) }
      else do {
        i \<leftarrow> read_byte data 0;
        reason \<leftarrow> read_byte data 1;
        Some (True, queue_player_pool_event SAMP_RAKNET_PLAYER_POOL_ACTION_QUIT (ucast i) 0 0 reason [] w) })"

definition decode_set_player_name_payload :: "u8 list \<Rightarrow> player_net \<Rightarrow> (bool \<times> player_net) mem" where
  "decode_set_player_name_payload data w =
     (if length data < 4 then Some (False, w)
      else do {
        i \<leftarrow> read_le16 data 0;
        len \<leftarrow> read_byte data 2;
        if unat i \<ge> SAMP_RAKNET_MAX_PLAYERS \<or> unat len \<ge> SAMP_RAKNET_PLAYER_NAME_BYTES \<or> 4 + unat len > length data
        then Some (False, w)
        else do {
          last_byte \<leftarrow> read_byte data (3 + unat len);
          if last_byte \<noteq> 1 then Some (False, w)
          else do {
            bytes \<leftarrow> load_bytes data 3 (unat len);
            Some (True, queue_player_pool_event SAMP_RAKNET_PLAYER_POOL_ACTION_RENAME i 0 0 0 (bytes_string bytes) w) } } })"

text \<open>Both store the player's number and value before they check the number.\<close>

definition decode_player_team_payload :: "u8 list \<Rightarrow> player_net \<Rightarrow> (bool \<times> player_net) mem" where
  "decode_player_team_payload data w =
     (if length data < 3 then Some (False, w)
      else do {
        i \<leftarrow> read_le16 data 0;
        team \<leftarrow> read_byte data 2;
        let w = w\<lparr>player_team_player_id := i, player_team := team\<rparr>;
        if unat i \<ge> SAMP_RAKNET_MAX_PLAYERS then Some (False, w)
        else do {
          let w = queue_player_pool_event SAMP_RAKNET_PLAYER_POOL_ACTION_TEAM i 0 0 team [] w;
          Some (True, w\<lparr>player_team_seq := bump_seq (player_team_seq w)\<rparr>) } })"

definition decode_player_color_payload :: "u8 list \<Rightarrow> player_net \<Rightarrow> (bool \<times> player_net) mem" where
  "decode_player_color_payload data w =
     (if length data < 6 then Some (False, w)
      else do {
        i \<leftarrow> read_le16 data 0;
        color \<leftarrow> read_le32 data 2;
        let w = w\<lparr>player_color_player_id := i, player_color := color\<rparr>;
        if unat i \<ge> SAMP_RAKNET_MAX_PLAYERS then Some (False, w)
        else do {
          let w = queue_player_pool_event SAMP_RAKNET_PLAYER_POOL_ACTION_COLOR i color 0 0 [] w;
          Some (True, w\<lparr>player_color_seq := bump_seq (player_color_seq w)\<rparr>) } })"

section \<open>Players in view\<close>

definition queue_remote_player_event :: "samp_raknet_remote_player_event \<Rightarrow> player_net \<Rightarrow> player_net" where
  "queue_remote_player_event body w = (
     let n = bump_seq (remote_player_event_seq w)
     in w\<lparr>remote_player_event_seq := n,
          remote_player_events := (remote_player_events w)
            [ring_slot SAMP_RAKNET_REMOTE_PLAYER_EVENT_RING n := body\<lparr>re_seq := n\<rparr>]\<rparr>)"

definition read_f32s3 :: "'b bitstream \<Rightarrow> 'b \<Rightarrow> (f32 list \<times> 'b) option" where
  "read_f32s3 B s = do {
     (x, s) \<leftarrow> bs_u32 B s;
     (y, s) \<leftarrow> bs_u32 B s;
     (z, s) \<leftarrow> bs_u32 B s;
     Some ([x, y, z], s) }"

definition read_world_player :: "'b bitstream \<Rightarrow> u8 list \<Rightarrow> samp_raknet_remote_player_event option" where
  "read_world_player B data = do {
     (i, s) \<leftarrow> bs_u16 B (bs_open B data);
     (team, s) \<leftarrow> bs_u8 B s;
     (skin, s) \<leftarrow> read_i32 B s;
     (pos, s) \<leftarrow> read_f32s3 B s;
     (rotation, s) \<leftarrow> bs_u32 B s;
     (color, s) \<leftarrow> bs_u32 B s;
     (fighting, s) \<leftarrow> bs_u8 B s;
     (visible, s) \<leftarrow> bs_u32 B s;
     Some (zero_remote_event\<lparr>re_action := SAMP_RAKNET_REMOTE_PLAYER_ACTION_ADD, re_player_id := i, re_team := team,
       re_skin := skin, re_pos := pos, re_rotation := rotation, re_color := color, re_fighting_style := fighting,
       re_visible := (if visible \<noteq> 0 then 1 else 0)\<rparr>) }"

definition decode_world_player_add_payload :: "'b bitstream \<Rightarrow> u8 list \<Rightarrow> player_net \<Rightarrow> (bool \<times> player_net) mem" where
  "decode_world_player_add_payload B data w =
     (case (if length data \<ge> 25 then read_world_player B data else None) of
        Some e \<Rightarrow> Some (True, queue_remote_player_event e w)
      | None \<Rightarrow>
          if length data \<ge> 28
          then do {
            i \<leftarrow> read_le16 data 0;
            team \<leftarrow> read_byte data 2;
            skin \<leftarrow> read_le_i32 data 3;
            pos \<leftarrow> read_vec3 data 7;
            rotation \<leftarrow> read_le_float data 19;
            color \<leftarrow> read_le32 data 23;
            fighting \<leftarrow> read_byte data 27;
            Some (True, queue_remote_player_event (zero_remote_event\<lparr>re_action := SAMP_RAKNET_REMOTE_PLAYER_ACTION_ADD,
              re_player_id := i, re_team := team, re_skin := skin, re_pos := pos, re_rotation := rotation,
              re_color := color, re_fighting_style := fighting, re_visible := 1\<rparr>) w) }
          else Some (False, w))"

definition decode_world_player_remove_payload ::
  "'b bitstream \<Rightarrow> u8 \<Rightarrow> u8 \<Rightarrow> u8 list \<Rightarrow> player_net \<Rightarrow> bool \<times> player_net" where
  "decode_world_player_remove_payload B action reason data w =
     (if length data < 2 then (False, w)
      else case bs_u16 B (bs_open B data) of
          None \<Rightarrow> (False, w)
        | Some (i, s) \<Rightarrow> (True, queue_remote_player_event
            (zero_remote_event\<lparr>re_action := action, re_player_id := i, re_death_reason := reason\<rparr>) w))"

section \<open>Position packets\<close>

text \<open>
  The two compressed reads of \<^verbatim>\<open>BitStream\<close> the packet uses, and the yaw of a quaternion, are in single
  precision; they are parameters: \<open>vec_read\<close> is \<^verbatim>\<open>ReadVector\<close>, \<open>quat_read\<close> \<^verbatim>\<open>ReadNormQuat\<close>, and a
  \<open>float_ops\<close> has the arithmetic of the machine and \<^verbatim>\<open>atan2\<close>.
\<close>

record 'b sync_reads =
  vec_read :: "'b \<Rightarrow> (f32 list \<times> 'b) option"
  quat_read :: "'b \<Rightarrow> ((f32 \<times> f32 \<times> f32 \<times> f32) \<times> 'b) option"

record float_ops =
  f_add :: "f32 \<Rightarrow> f32 \<Rightarrow> f32"
  f_sub :: "f32 \<Rightarrow> f32 \<Rightarrow> f32"
  f_mul :: "f32 \<Rightarrow> f32 \<Rightarrow> f32"
  f_atan2 :: "f32 \<Rightarrow> f32 \<Rightarrow> f32"

text \<open>The bit patterns of 1, 2, 360 and \<^verbatim>\<open>kRadiansToDegrees\<close>.\<close>

definition f32_one :: f32 where "f32_one = 0x3F800000"
definition f32_two :: f32 where "f32_two = 0x40000000"
definition f32_360 :: f32 where "f32_360 = 0x43B40000"
definition kRadiansToDegrees :: f32 where "kRadiansToDegrees = 0x42652EE1"

text \<open>The two loops that bring an angle into a turn. A loop that does not end is \<open>None\<close>.\<close>

partial_function (option) yaw_up :: "float_ops \<Rightarrow> f32 \<Rightarrow> f32 option" where
  "yaw_up F yaw = (if f32_scaled yaw < 0 then yaw_up F (f_add F yaw f32_360) else Some yaw)"

partial_function (option) yaw_down :: "float_ops \<Rightarrow> f32 \<Rightarrow> f32 option" where
  "yaw_down F yaw = (if f32_scaled yaw \<ge> 360 * 2 ^ 149 then yaw_down F (f_sub F yaw f32_360) else Some yaw)"

definition yaw_degrees_from_gta_quat :: "float_ops \<Rightarrow> f32 \<times> f32 \<times> f32 \<times> f32 \<Rightarrow> f32 option" where
  "yaw_degrees_from_gta_quat F q = (case q of (w, x, y, z) \<Rightarrow>
     let siny_cosp = f_mul F f32_two (f_add F (f_mul F w z) (f_mul F x y));
         cosy_cosp = f_sub F f32_one (f_mul F f32_two (f_add F (f_mul F y y) (f_mul F z z)));
         yaw = f_mul F (f_atan2 F siny_cosp cosy_cosp) kRadiansToDegrees
     in if \<not> f32_finite yaw then Some 0
        else do { yaw \<leftarrow> yaw_up F yaw; yaw_down F yaw })"

definition decode_health_armour_nibble :: "u8 \<Rightarrow> u8" where
  "decode_health_armour_nibble n = (if n = 0x0F then 100 else if n = 0 then 0 else n * 7)"

definition queue_remote_onfoot_sync :: "samp_raknet_remote_onfoot_sync \<Rightarrow> player_net \<Rightarrow> player_net" where
  "queue_remote_onfoot_sync sync w = (
     let n = bump_seq (remote_player_sync_seq w)
     in w\<lparr>remote_player_sync_seq := n,
          remote_player_syncs := (remote_player_syncs w)
            [ring_slot SAMP_RAKNET_REMOTE_PLAYER_SYNC_RING n := sync\<lparr>rs_seq := n\<rparr>]\<rparr>)"

text \<open>A value that is only there when the bit before it is set.\<close>

definition read_if :: "'b bitstream \<Rightarrow> 'a \<Rightarrow> ('b \<Rightarrow> ('a \<times> 'b) option) \<Rightarrow> 'b \<Rightarrow> ('a \<times> 'b) option" where
  "read_if B absent read s = do {
     (there, s) \<leftarrow> bs_bool B s;
     if there then read s else Some (absent, s) }"

definition read_position :: "'b bitstream \<Rightarrow> 'b \<Rightarrow> (f32 list \<times> 'b) option" where
  "read_position B s = do {
     (bytes, s) \<leftarrow> bs_bytes B 12 s;
     pos \<leftarrow> read_vec3 bytes 0;
     Some (pos, s) }"

definition read_surfing :: "'b bitstream \<Rightarrow> 'b \<Rightarrow> ((u16 \<times> f32 list) \<times> 'b) option" where
  "read_surfing B s = do {
     (vehicle, s) \<leftarrow> bs_u16 B s;
     (offsets, s) \<leftarrow> read_f32s3 B s;
     Some ((vehicle, offsets), s) }"

definition read_animation :: "'b bitstream \<Rightarrow> 'b \<Rightarrow> ((u16 \<times> u16) \<times> 'b) option" where
  "read_animation B s = do {
     (animation, s) \<leftarrow> bs_u16 B s;
     (flags, s) \<leftarrow> bs_u16 B s;
     Some ((animation, flags), s) }"

text \<open>Everything of the packet but the yaw: the fields read and the quaternion.\<close>

definition read_onfoot_sync ::
  "'b bitstream \<Rightarrow> 'b sync_reads \<Rightarrow> u8 list \<Rightarrow> (samp_raknet_remote_onfoot_sync \<times> f32 \<times> f32 \<times> f32 \<times> f32) option" where
  "read_onfoot_sync B R data = do {
     (packet_id, s) \<leftarrow> bs_u8 B (bs_open B data);
     if packet_id \<noteq> kPacketPlayerSync then None
     else do {
       (i, s) \<leftarrow> bs_u16 B s;
       (lr, s) \<leftarrow> read_if B 0 (bs_u16 B) s;
       (ud, s) \<leftarrow> read_if B 0 (bs_u16 B) s;
       (keys, s) \<leftarrow> bs_u16 B s;
       (pos, s) \<leftarrow> read_position B s;
       (q, s) \<leftarrow> quat_read R s;
       (health_armour, s) \<leftarrow> bs_u8 B s;
       (weapon, s) \<leftarrow> bs_u8 B s;
       (action, s) \<leftarrow> bs_u8 B s;
       (speed, s) \<leftarrow> vec_read R s;
       (surf, s) \<leftarrow> read_if B (0xFFFF, [0, 0, 0]) (read_surfing B) s;
       (anim, s) \<leftarrow> read_if B (0, 0) (read_animation B) s;
       Some (\<lparr>rs_seq = 0, rs_player_id = i, rs_left_right_keys = lr, rs_up_down_keys = ud, rs_keys = keys,
         rs_health = decode_health_armour_nibble (drop_bit 4 health_armour),
         rs_armour = decode_health_armour_nibble (health_armour AND 0x0F), rs_current_weapon = weapon AND 0x3F,
         rs_special_action = action, rs_surfing_vehicle_id = fst surf, rs_position = pos, rs_rotation = 0,
         rs_move_speed = speed, rs_surfing_offsets = snd surf\<rparr>, q) } }"

text \<open>The outer \<open>None\<close> is a yaw loop that does not end.\<close>

definition decode_remote_onfoot_sync_packet ::
  "'b bitstream \<Rightarrow> 'b sync_reads \<Rightarrow> float_ops \<Rightarrow> u8 list \<Rightarrow> player_net \<Rightarrow> (bool \<times> player_net) mem" where
  "decode_remote_onfoot_sync_packet B R F data w =
     (if length data < 2 then Some (False, w)
      else case read_onfoot_sync B R data of
          None \<Rightarrow> Some (False, w)
        | Some (sync, q) \<Rightarrow> do {
            yaw \<leftarrow> yaw_degrees_from_gta_quat F q;
            Some (True, queue_remote_onfoot_sync (sync\<lparr>rs_rotation := yaw\<rparr>) w) })"

section \<open>Scores\<close>

definition read_score_entry :: "bool \<Rightarrow> u8 list \<Rightarrow> nat \<Rightarrow> samp_raknet_score_ping_entry mem" where
  "read_score_entry wide data off =
     (if wide then do {
        i \<leftarrow> read_le16 data off;
        score \<leftarrow> read_le_i32 data (off + 2);
        ping \<leftarrow> read_le32 data (off + 6);
        Some \<lparr>sp_player_id = i, sp_score = score, sp_ping = ping\<rparr> }
      else do {
        i \<leftarrow> read_byte data off;
        score \<leftarrow> read_le_i32 data (off + 1);
        ping \<leftarrow> read_le32 data (off + 5);
        Some \<lparr>sp_player_id = ucast i, sp_score = score, sp_ping = ping\<rparr> })"

text \<open>The loop over entry \<open>i\<close> and the \<open>n\<close> after it, each stored at its own index.\<close>

fun read_scores :: "bool \<Rightarrow> u8 list \<Rightarrow> nat \<Rightarrow> nat \<Rightarrow> samp_raknet_score_ping_entry list \<Rightarrow>
    samp_raknet_score_ping_entry list mem" where
  "read_scores wide data i 0 entries = Some entries"
| "read_scores wide data i (Suc n) entries = do {
     e \<leftarrow> read_score_entry wide data (i * (if wide then 10 else 9));
     if i < length entries then read_scores wide data (i + 1) n (entries[i := e]) else None }"

definition decode_update_scores_pings_payload :: "u8 list \<Rightarrow> player_net \<Rightarrow> (bool \<times> player_net) mem" where
  "decode_update_scores_pings_payload data w =
     (if data = [] \<or> (length data mod 10 \<noteq> 0 \<and> length data mod 9 \<noteq> 0) then Some (False, w)
      else do {
        let wide = (length data mod 10 = 0);
        let total = length data div (if wide then 10 else 9);
        let count = (if total > SAMP_RAKNET_SCORE_PING_MAX_ENTRIES then SAMP_RAKNET_SCORE_PING_MAX_ENTRIES else total);
        entries \<leftarrow> read_scores wide data 0 count (score_ping_entries w);
        Some (True, w\<lparr>score_ping_entries := entries, score_ping_count := count,
                      score_ping_seq := bump_seq (score_ping_seq w)\<rparr>) })"

section \<open>The chat window\<close>

text \<open>A \<^verbatim>\<open>char\<close> is signed: only 1 to 31 are replaced.\<close>

definition filter_chat_text :: "string \<Rightarrow> string" where
  "filter_chat_text t = map (\<lambda>c. if 0 < (of_char c :: nat) \<and> (of_char c :: nat) < 32 then CHR '' '' else c) t"

text \<open>The number of a line is incremented without skipping zero.\<close>

definition queue_client_message_line :: "u32 \<Rightarrow> string \<Rightarrow> player_net \<Rightarrow> player_net" where
  "queue_client_message_line color t w =
     (if t = [] then w
      else let n = client_message_seq w + 1;
               m = \<lparr>cm_seq = n, cm_color = color, cm_text = filter_chat_text (copy_text SAMP_RAKNET_CLIENT_MESSAGE_BYTES t)\<rparr>
           in w\<lparr>client_message_seq := n, saw_client_message := True,
                client_messages := (client_messages w)[ring_slot SAMP_RAKNET_CLIENT_MESSAGE_RING n := m]\<rparr>)"

definition decode_client_message_payload :: "u8 list \<Rightarrow> player_net \<Rightarrow> player_net mem" where
  "decode_client_message_payload data w =
     (if length data < 8 then Some w
      else do {
        len \<leftarrow> read_le32 data 4;
        if unat len > length data - 8 then Some w
        else do {
          color \<leftarrow> read_le32 data 0;
          t \<leftarrow> copy_bounded_bytes SAMP_RAKNET_CLIENT_MESSAGE_BYTES data 8 (unat len);
          Some (queue_client_message_line color (filter_chat_text t) w) } })"

text \<open>The newest join of a player in the ring whose name is not empty, with its number.\<close>

definition newer_join :: "u16 \<Rightarrow> samp_raknet_player_pool_event \<Rightarrow> samp_raknet_player_pool_event option \<times> u32 \<Rightarrow>
    samp_raknet_player_pool_event option \<times> u32" where
  "newer_join i e best =
     (if pe_seq e > snd best \<and> pe_action e = SAMP_RAKNET_PLAYER_POOL_ACTION_JOIN \<and> pe_player_id e = i \<and> pe_name e \<noteq> []
      then (Some e, pe_seq e) else best)"

definition find_recent_player_join :: "u16 \<Rightarrow> player_net \<Rightarrow> samp_raknet_player_pool_event option" where
  "find_recent_player_join i w = fst (fold (newer_join i) (player_pool_events w) (None, 0))"

definition player_id_is_local :: "u16 \<Rightarrow> session \<Rightarrow> bool" where
  "player_id_is_local i s \<longleftrightarrow> (auth_local_player_id_valid s \<and> auth_local_player_id s = i) \<or>
     (saw_init_game s \<and> init_local_player_id (game s) = i)"

definition hex_digit :: "nat \<Rightarrow> char" where
  "hex_digit d = (if d > 9 then char_of (d + 55) else char_of (d + 48))"

text \<open>What \<^verbatim>\<open>%06X\<close> writes of a 24-bit number.\<close>

definition hex6 :: "u32 \<Rightarrow> string" where
  "hex6 v = map (\<lambda>k. hex_digit (unat v div 16 ^ k mod 16)) [5, 4, 3, 2, 1, 0]"

text \<open>The name and the colour of the one who says something.\<close>

definition chat_name :: "u16 \<Rightarrow> session \<Rightarrow> player_net \<Rightarrow> string \<times> u32" where
  "chat_name i s w =
     (if player_id_is_local i s
      then (copy_text SAMP_RAKNET_PLAYER_NAME_BYTES (if local_nickname s \<noteq> [] then local_nickname s else kDefaultNickname),
            if player_color_seq w > 0 \<and> player_color_player_id w = i then player_color w else 0xFFFFFFFF)
      else case find_recent_player_join i w of
          Some e \<Rightarrow> (copy_text SAMP_RAKNET_PLAYER_NAME_BYTES (pe_name e), pe_color e)
        | None \<Rightarrow> (copy_text SAMP_RAKNET_PLAYER_NAME_BYTES (''Player'' @ decimal (unat i)), 0xFFFFFFFF))"

definition chat_line :: "string \<Rightarrow> u32 \<Rightarrow> string \<Rightarrow> string" where
  "chat_line nam color t = take (SAMP_RAKNET_CLIENT_MESSAGE_BYTES - 1)
     (''{'' @ hex6 (drop_bit 8 color AND 0x00FFFFFF) @ ''}'' @ nam @ '':{FFFFFF} '' @ t)"

definition decode_chat_payload :: "session \<Rightarrow> u8 list \<Rightarrow> player_net \<Rightarrow> (bool \<times> player_net) mem" where
  "decode_chat_payload s data w =
     (if length data < 3 then Some (False, w)
      else do {
        i \<leftarrow> read_le16 data 0;
        len \<leftarrow> read_byte data 2;
        if unat len > length data - 3 then Some (False, w)
        else do {
          t \<leftarrow> copy_bounded_bytes SAMP_RAKNET_CLIENT_MESSAGE_BYTES data 3 (unat len);
          let nam = filter_chat_text (fst (chat_name i s w));
          let nam = (if nam = [] then copy_text SAMP_RAKNET_PLAYER_NAME_BYTES kDefaultNickname else nam);
          Some (True, queue_client_message_line 0xFFFFFFFF
            (chat_line nam (snd (chat_name i s w)) (filter_chat_text t)) w) } })"

text \<open>The branches of \<^verbatim>\<open>rpc_observer\<close> for the RPCs of this theory.\<close>

definition observe_player_rpc :: "'b bitstream \<Rightarrow> session \<Rightarrow> nat \<Rightarrow> u8 list \<Rightarrow> player_net \<Rightarrow> player_net mem" where
  "observe_player_rpc B s rpc_id data w =
     (if rpc_id = 11 then map_option snd (decode_set_player_name_payload data w)
      else if rpc_id = 93 then decode_client_message_payload data w
      else if rpc_id = 101 then map_option snd (decode_chat_payload s data w)
      else if rpc_id = 32 then map_option snd (decode_world_player_add_payload B data w)
      else if rpc_id = 137 then map_option snd (decode_server_join_payload data w)
      else if rpc_id = 138 then map_option snd (decode_server_quit_payload data w)
      else if rpc_id = 155 then map_option snd (decode_update_scores_pings_payload data w)
      else if rpc_id = 163 then Some (snd (decode_world_player_remove_payload B SAMP_RAKNET_REMOTE_PLAYER_ACTION_REMOVE 0 data w))
      else if rpc_id = 166 then Some (snd (decode_world_player_remove_payload B SAMP_RAKNET_REMOTE_PLAYER_ACTION_DEATH 0 data w))
      else if rpc_id = 69 then map_option snd (decode_player_team_payload data w)
      else if rpc_id = 72 then map_option snd (decode_player_color_payload data w)
      else Some w)"

text \<open>The copies of the rings in the snapshot.\<close>

definition player_pool_snapshot :: "player_net \<Rightarrow> samp_raknet_player_pool_event list" where
  "player_pool_snapshot w = ring_snapshot SAMP_RAKNET_PLAYER_POOL_EVENT_RING pe_seq (player_pool_event_seq w) (player_pool_events w)"

definition remote_player_snapshot :: "player_net \<Rightarrow> samp_raknet_remote_player_event list" where
  "remote_player_snapshot w = ring_snapshot SAMP_RAKNET_REMOTE_PLAYER_EVENT_RING re_seq (remote_player_event_seq w) (remote_player_events w)"

definition remote_sync_snapshot :: "player_net \<Rightarrow> samp_raknet_remote_onfoot_sync list" where
  "remote_sync_snapshot w = ring_snapshot SAMP_RAKNET_REMOTE_PLAYER_SYNC_RING rs_seq (remote_player_sync_seq w) (remote_player_syncs w)"

definition client_message_snapshot :: "player_net \<Rightarrow> samp_raknet_client_message_probe list" where
  "client_message_snapshot w = ring_snapshot SAMP_RAKNET_CLIENT_MESSAGE_RING cm_seq (client_message_seq w) (client_messages w)"

definition score_ping_snapshot :: "player_net \<Rightarrow> samp_raknet_score_ping_entry list" where
  "score_ping_snapshot w = take (if score_ping_count w < SAMP_RAKNET_SCORE_PING_MAX_ENTRIES then score_ping_count w
     else SAMP_RAKNET_SCORE_PING_MAX_ENTRIES) (score_ping_entries w)"

section \<open>The history of the list\<close>

definition pool_queue ::
  "u8 \<times> u16 \<times> u32 \<times> u8 \<times> u8 \<times> string \<Rightarrow> player_net \<Rightarrow> samp_raknet_player_pool_event \<times> player_net" where
  "pool_queue a w = (case a of (action, i, color, npc, reason, nam) \<Rightarrow>
     let w' = queue_player_pool_event action i color npc reason nam w
     in (\<lparr>pe_seq = player_pool_event_seq w', pe_action = action, pe_is_npc = npc, pe_reason = reason, pe_player_id = i,
          pe_color = color, pe_name = copy_text SAMP_RAKNET_PLAYER_NAME_BYTES nam\<rparr>, w'))"

interpretation player_ring: event_ring SAMP_RAKNET_PLAYER_POOL_EVENT_RING pe_seq pool_queue player_pool_event_seq player_pool_events
  by unfold_locales (auto simp: pool_queue_def queue_player_pool_event_def Let_def player_consts split: prod.splits)

text \<open>\<open>h\<close> is the list of all events queued since the reset; a slot not yet used has the number 0.\<close>

definition pool_history :: "samp_raknet_player_pool_event list \<Rightarrow> player_net \<Rightarrow> bool" where
  "pool_history h w \<longleftrightarrow>
     ring_holds SAMP_RAKNET_PLAYER_POOL_EVENT_RING pe_seq h (player_pool_event_seq w) (player_pool_events w) \<and>
     (\<forall>k<SAMP_RAKNET_PLAYER_POOL_EVENT_RING. length h \<le> k \<longrightarrow> pe_seq (player_pool_events w ! k) = 0)"

lemma pool_history_reset: "pool_history [] reset_player_net"
  by (simp add: pool_history_def reset_player_net_def ring_holds_def zero_player_event_def)

lemma pool_history_queue:
  assumes "pool_history h w" "length h + 1 < 4294967296"
  shows "pool_history (h @ [fst (pool_queue a w)]) (snd (pool_queue a w))"
proof -
  obtain e w' where q: "pool_queue a w = (e, w')" by fastforce
  have h: "ring_holds SAMP_RAKNET_PLAYER_POOL_EVENT_RING pe_seq h (player_pool_event_seq w) (player_pool_events w)"
    using assms(1) by (simp add: pool_history_def)
  note new = player_ring.queue_holds[OF h q assms(2)]
  have "unat (player_pool_event_seq w') = length h + 1" using new by (simp add: ring_holds_def)
  moreover have "of_nat (unat (player_pool_event_seq w')) = player_pool_event_seq w'" by simp
  ultimately have n: "player_pool_event_seq w' = of_nat (length h + 1)" by simp
  have "player_pool_events w' = (player_pool_events w)[length h mod SAMP_RAKNET_PLAYER_POOL_EVENT_RING := e]"
    using player_ring.queue_slot[OF q] ring_slot_Suc[OF assms(2)] by (simp only: n)
  then have "pe_seq (player_pool_events w' ! k) = 0"
    if "k < SAMP_RAKNET_PLAYER_POOL_EVENT_RING" "length h + 1 \<le> k" for k
    using assms(1) that by (simp add: pool_history_def)
  then show ?thesis using new q by (simp add: pool_history_def)
qed

lemma last_filter_index:
  "filter P xs \<noteq> [] \<Longrightarrow> \<exists>j<length xs. last (filter P xs) = xs ! j \<and> P (xs ! j) \<and>
    (\<forall>l. j < l \<longrightarrow> l < length xs \<longrightarrow> \<not> P (xs ! l))"
proof (induction xs rule: rev_induct)
  case (snoc x xs)
  show ?case
  proof (cases "P x")
    case True
    then show ?thesis by (intro exI[of _ "length xs"]) simp
  next
    case False
    with snoc obtain j where j: "j < length xs" "last (filter P xs) = xs ! j" "P (xs ! j)"
      "\<forall>l. j < l \<longrightarrow> l < length xs \<longrightarrow> \<not> P (xs ! l)"
      by auto
    then show ?thesis using False by (intro exI[of _ j]) (auto simp: nth_append)
  qed
qed simp

text \<open>The events that name player \<open>i\<close>.\<close>

definition names_player :: "u16 \<Rightarrow> samp_raknet_player_pool_event \<Rightarrow> bool" where
  "names_player i e \<longleftrightarrow> pe_action e = SAMP_RAKNET_PLAYER_POOL_ACTION_JOIN \<and> pe_player_id e = i \<and> pe_name e \<noteq> []"

lemma newer_join_fold:
  assumes "fold (newer_join i) es (None, 0) = (best, m)"
  shows "(\<forall>e\<in>set es. names_player i e \<longrightarrow> pe_seq e \<le> m) \<and>
    (case best of None \<Rightarrow> m = 0 | Some e \<Rightarrow> e \<in> set es \<and> names_player i e \<and> pe_seq e = m \<and> 0 < m)"
  using assms
proof (induction es arbitrary: best m rule: rev_induct)
  case (snoc e es)
  obtain best' m' where f: "fold (newer_join i) es (None, 0) = (best', m')" by fastforce
  note ih = snoc.IH[OF f]
  have step: "newer_join i e (best', m') = (best, m)" using snoc.prems f by simp
  show ?case
  proof (cases "names_player i e \<and> m' < pe_seq e")
    case True
    then have "best = Some e" "m = pe_seq e" using step by (auto simp: newer_join_def names_player_def)
    moreover have "0 < pe_seq e" using True by (metis word_gt_0_no word_less_nat_alt gr_implies_not0 unat_eq_0 word_neq_0_conv)
    moreover have "\<forall>x\<in>set es. names_player i x \<longrightarrow> pe_seq x \<le> pe_seq e" using ih True by (meson less_imp_le order_trans)
    ultimately show ?thesis using True by simp
  next
    case False
    then have "best = best'" "m = m'" using step by (auto simp: newer_join_def names_player_def split: if_splits)
    then show ?thesis using ih False by (auto simp: not_less split: option.split)
  qed
qed simp

lemma find_recent_player_join_spec:
  assumes "pool_history h w"
  shows "find_recent_player_join i w = (case filter (names_player i) (drop (length h - SAMP_RAKNET_PLAYER_POOL_EVENT_RING) h) of
      [] \<Rightarrow> None | e # es \<Rightarrow> Some (last (e # es)))"
proof -
  let ?N = SAMP_RAKNET_PLAYER_POOL_EVENT_RING and ?ring = "player_pool_events w"
  let ?win = "drop (length h - ?N) h"
  have h: "ring_holds ?N pe_seq h (player_pool_event_seq w) ?ring" and zero: "\<And>k. k < ?N \<Longrightarrow> length h \<le> k \<Longrightarrow> pe_seq (?ring ! k) = 0"
    using assms by (auto simp: pool_history_def)
  have len: "length ?ring = ?N" "length h < 4294967296"
    using h unat_u32_lt[of "player_pool_event_seq w"] by (simp_all add: ring_holds_def)
  have N: "0 < ?N" by (simp add: player_consts)
  have seq: "pe_seq (h ! k) = of_nat (k + 1)" if "k < length h" for k using h that by (simp add: ring_holds_def)
  have in_ring: "h ! k \<in> set ?ring" if "k < length h" "length h \<le> k + ?N" for k
  proof -
    have "?ring ! (k mod ?N) = h ! k" using h that by (simp add: ring_holds_def)
    then show ?thesis using len(1) N by (metis mod_less_divisor nth_mem)
  qed
  have from_ring: "\<exists>k<length h. length h \<le> k + ?N \<and> e = h ! k" if e: "e \<in> set ?ring" "0 < pe_seq e" for e
  proof -
    obtain j where j: "j < ?N" "e = ?ring ! j" using e(1) len(1) by (auto simp: in_set_conv_nth)
    then have "j < length h" using zero[of j] e(2) by (cases "length h \<le> j") auto
    define k where "k = j + ?N * ((length h - 1 - j) div ?N)"
    have div: "?N * ((length h - 1 - j) div ?N) \<le> length h - 1 - j" "length h - 1 - j < ?N * ((length h - 1 - j) div ?N) + ?N"
      using dividend_less_times_div[OF N, of "length h - 1 - j"] by (simp_all add: add.commute)
    have "k < length h" "length h \<le> k + ?N"
      using \<open>j < length h\<close> div unfolding k_def by linarith+
    moreover have "k mod ?N = j" using j(1) by (simp add: k_def)
    ultimately have "k < length h" "length h \<le> k + ?N" "k mod ?N = j" by blast+
    then show ?thesis using h j(2) by (auto simp: ring_holds_def)
  qed
  obtain best m where f: "fold (newer_join i) ?ring (None, 0) = (best, m)" by fastforce
  note spec = newer_join_fold[OF f]
  have in_win: "h ! k \<in> set ?win \<and> k - (length h - ?N) < length ?win \<and> ?win ! (k - (length h - ?N)) = h ! k"
    if "k < length h" "length h \<le> k + ?N" for k
    using that nth_mem[of "k - (length h - ?N)" ?win] by simp
  show ?thesis
  proof (cases "filter (names_player i) ?win")
    case Nil
    then have none: "\<not> names_player i e" if "e \<in> set ?win" for e using that by (auto simp: filter_empty_conv)
    have "best = None"
    proof (cases best)
      case (Some e)
      then have "e \<in> set ?ring" "0 < pe_seq e" "names_player i e" using spec by auto
      with from_ring[of e] in_win none show ?thesis by blast
    qed
    then show ?thesis using Nil f by (simp add: find_recent_player_join_def)
  next
    case (Cons x xs)
    then have ne: "filter (names_player i) ?win \<noteq> []" by simp
    obtain j where j: "j < length ?win" "last (filter (names_player i) ?win) = ?win ! j" "names_player i (?win ! j)"
      "\<And>l. j < l \<Longrightarrow> l < length ?win \<Longrightarrow> \<not> names_player i (?win ! l)"
      using last_filter_index[OF ne] by blast
    define k where "k = length h - ?N + j"
    have k: "k < length h" "length h \<le> k + ?N" "?win ! j = h ! k" using j(1) by (auto simp: k_def)
    have "pe_seq (h ! k) \<le> m" using spec in_ring[OF k(1,2)] j(3) k(3) by auto
    moreover have "0 < pe_seq (h ! k)" using seq[OF k(1)] len(2) k(1) by (simp add: word_less_nat_alt unat_of_nat_u32 del: of_nat_Suc of_nat_add)
    ultimately obtain e where best: "best = Some e" "e \<in> set ?ring" "names_player i e" "pe_seq e = m" "0 < m"
      using spec by (cases best) auto
    from from_ring[of e] best obtain k2 where k2: "k2 < length h" "length h \<le> k2 + ?N" "e = h ! k2" by auto
    have "of_nat (k + 1) \<le> (of_nat (k2 + 1) :: u32)" using \<open>pe_seq (h ! k) \<le> m\<close> best(4) k2 seq[OF k(1)] seq[OF k2(1)] by simp
    then have "k \<le> k2" using k(1) k2(1) len(2) by (simp add: word_le_nat_alt unat_of_nat_u32 del: of_nat_Suc of_nat_add)
    moreover have "\<not> k < k2"
    proof
      assume "k < k2"
      then have "j < k2 - (length h - ?N)" using k_def k2 by auto
      from j(4)[OF this] in_win[OF k2(1,2)] best(3) k2(3) show False by simp
    qed
    ultimately have "k2 = k" by simp
    then show ?thesis using Cons f best(1) k2(3) k(3) j(2) by (simp add: find_recent_player_join_def)
  qed
qed

section \<open>The chat line\<close>

text \<open>The name and colour of a player as the list has them: the newest of the last 64 events that names him.\<close>

definition speaker :: "u16 \<Rightarrow> samp_raknet_player_pool_event list \<Rightarrow> string \<times> u32" where
  "speaker i h = (case filter (names_player i) (drop (length h - SAMP_RAKNET_PLAYER_POOL_EVENT_RING) h) of
       [] \<Rightarrow> (''Player'' @ decimal (unat i), 0xFFFFFFFF)
     | e # es \<Rightarrow> (pe_name (last (e # es)), pe_color (last (e # es))))"

lemma speaker_nonempty: "fst (speaker i h) \<noteq> []"
proof (cases "filter (names_player i) (drop (length h - SAMP_RAKNET_PLAYER_POOL_EVENT_RING) h)")
  case (Cons e es)
  then have "last (e # es) \<in> set (filter (names_player i) (drop (length h - SAMP_RAKNET_PLAYER_POOL_EVENT_RING) h))" by simp
  then have "names_player i (last (e # es))" by (simp del: last.simps)
  then show ?thesis using Cons by (simp add: speaker_def names_player_def)
qed (simp add: speaker_def)

definition speaker_of :: "u16 \<Rightarrow> session \<Rightarrow> player_net \<Rightarrow> samp_raknet_player_pool_event list \<Rightarrow> string \<times> u32" where
  "speaker_of i s w h =
     (if player_id_is_local i s
      then (if local_nickname s = [] then kDefaultNickname else local_nickname s,
            if player_color_seq w \<noteq> 0 \<and> player_color_player_id w = i then player_color w else 0xFFFFFFFF)
      else speaker i h)"

lemma chat_name_speaker:
  assumes "pool_history h w"
  shows "chat_name i s w =
    (copy_text SAMP_RAKNET_PLAYER_NAME_BYTES (fst (speaker_of i s w h)), snd (speaker_of i s w h))"
  using find_recent_player_join_spec[OF assms, of i]
  by (simp add: chat_name_def speaker_of_def speaker_def word_neq_0_conv split: list.split)

lemma speaker_of_nonempty: "fst (speaker_of i s w h) \<noteq> []"
  using speaker_nonempty[of i h] by (simp add: speaker_of_def kDefaultNickname_def)

lemma length_filter_chat_text [simp]: "length (filter_chat_text t) = length t"
  by (simp add: filter_chat_text_def)

lemma filter_chat_text_id: "(\<And>c. c \<in> set t \<Longrightarrow> 32 \<le> (of_char c :: nat) \<or> (of_char c :: nat) = 0) \<Longrightarrow> filter_chat_text t = t"
  unfolding filter_chat_text_def by (rule map_idI) (metis less_numeral_extra(3) not_less)

lemma filter_chat_text_set: "c \<in> set (filter_chat_text t) \<Longrightarrow> 32 \<le> (of_char c :: nat) \<or> (of_char c :: nat) = 0"
  by (auto simp: filter_chat_text_def split: if_splits)

lemma of_char_char_of: "n < 256 \<Longrightarrow> (of_char (char_of (n :: nat) :: char) :: nat) = n"
  by (simp add: of_char_mod_256)

lemma hex_digit_printable: "d < 16 \<Longrightarrow> 32 \<le> (of_char (hex_digit d) :: nat)"
  by (auto simp: hex_digit_def of_char_char_of)

lemma hex6_printable: "c \<in> set (hex6 v) \<Longrightarrow> 32 \<le> (of_char c :: nat)"
  using hex_digit_printable by (auto simp: hex6_def)

lemma copy_text_take: "copy_text n (take (n - 1) t) = take (n - 1) t"
  by (simp add: copy_text_def)

lemma chat_line_filtered:
  "filter_chat_text (chat_line (filter_chat_text nam) color (filter_chat_text t)) =
    chat_line (filter_chat_text nam) color (filter_chat_text t)"
  by (rule filter_chat_text_id)
    (auto simp: chat_line_def dest!: in_set_takeD hex6_printable filter_chat_text_set)

lemma copy_bounded_bytes_text:
  assumes "length t < n" "CHR 0x00 \<notin> set t" "length pre = off"
  shows "copy_bounded_bytes n (pre @ text_bytes t @ post) off (length t) = Some (bytes_string (text_bytes t))"
  using assms by (auto simp: copy_bounded_bytes_def load_bytes_def)

text \<open>C18: A line of chat carries the speaker's name: the chat RPC for player \<open>i\<close> with the words \<open>t\<close>, fewer than 256 characters and none of them zero, adds the line
  \<open>{colour}name:{FFFFFF} t\<close>, cut to 255 characters, with its control characters shown as spaces and the name cut to 24
  characters. For the local player that is the nickname of the session, or the default one where it is empty, in the
  colour the server last set if it set it for him, and else in white. For any other player it is the name and colour of the
  newest join with a name among the last 64 events of the list, and \<open>Player\<close> with the number in white when there is none.\<close>

theorem chat_names_speaker:
  assumes "pool_history h w" "length t < 256" "CHR 0x00 \<notin> set t"
    "length (client_messages w) = SAMP_RAKNET_CLIENT_MESSAGE_RING"
  shows "\<exists>w'. decode_chat_payload s (le16_bytes i @ dynstr8 t) w = Some (True, w') \<and>
    client_messages w' ! ring_slot SAMP_RAKNET_CLIENT_MESSAGE_RING (client_message_seq w') =
      \<lparr>cm_seq = client_message_seq w + 1, cm_color = 0xFFFFFFFF,
       cm_text = chat_line (filter_chat_text (copy_text SAMP_RAKNET_PLAYER_NAME_BYTES (fst (speaker_of i s w h))))
         (snd (speaker_of i s w h)) (filter_chat_text t)\<rparr>"
proof -
  let ?data = "le16_bytes i @ dynstr8 t"
  let ?nam = "filter_chat_text (copy_text SAMP_RAKNET_PLAYER_NAME_BYTES (fst (speaker_of i s w h)))"
  let ?line = "chat_line ?nam (snd (speaker_of i s w h)) (filter_chat_text t)"
  have len: "length ?data = 3 + length t" by (simp add: le16_bytes_def dynstr8_def)
  have i: "read_le16 ?data 0 = Some i" by (rule read_le16_bytes)
  have b: "read_byte ?data 2 = Some (of_nat (length t))" "unat (of_nat (length t) :: u8) = length t"
    using assms(2) by (simp_all add: read_byte_def le16_bytes_def dynstr8_def unat_of_nat take_bit_nat_eq_self)
  have "?data = (le16_bytes i @ [of_nat (length t)]) @ text_bytes t @ []" by (simp add: dynstr8_def)
  then have t: "copy_bounded_bytes SAMP_RAKNET_CLIENT_MESSAGE_BYTES ?data 3 (length t) = Some t"
    using copy_bounded_bytes_text[of t SAMP_RAKNET_CLIENT_MESSAGE_BYTES "le16_bytes i @ [of_nat (length t)]" 3 "[]"] assms(2,3)
    by (simp add: le16_bytes_def bytes_string_text_bytes player_consts)
  have nam: "?nam \<noteq> []"
    using speaker_of_nonempty[of i s w h] by (simp add: filter_chat_text_def copy_text_def player_consts)
  have dec: "decode_chat_payload s ?data w = Some (True, queue_client_message_line 0xFFFFFFFF ?line w)"
    using len i b t nam chat_name_speaker[OF assms(1)] by (simp add: decode_chat_payload_def Let_def)
  have "?line \<noteq> []" by (simp add: chat_line_def player_consts)
  moreover have "copy_text SAMP_RAKNET_CLIENT_MESSAGE_BYTES ?line = ?line"
    unfolding chat_line_def by (rule copy_text_take)
  moreover have "ring_slot SAMP_RAKNET_CLIENT_MESSAGE_RING n < SAMP_RAKNET_CLIENT_MESSAGE_RING" for n
    by (simp add: ring_slot_def player_consts)
  ultimately show ?thesis using dec assms(4) by (simp add: queue_client_message_line_def Let_def chat_line_filtered)
qed

definition ann_joined :: player_net where
  "ann_joined = queue_player_pool_event SAMP_RAKNET_PLAYER_POOL_ACTION_JOIN 7 0x112233FF 0 0 ''Ann'' reset_player_net"

lemma chat_names_speaker_witness:
  "\<exists>w'. decode_chat_payload session_start (le16_bytes 7 @ dynstr8 ''hi'') ann_joined = Some (True, w') \<and>
    cm_text (client_messages w' ! ring_slot SAMP_RAKNET_CLIENT_MESSAGE_RING (client_message_seq w')) = ''{112233}Ann:{FFFFFF} hi''"
proof -
  let ?a = "(SAMP_RAKNET_PLAYER_POOL_ACTION_JOIN, 7, 0x112233FF, 0, 0, ''Ann'')"
  have w: "snd (pool_queue ?a reset_player_net) = ann_joined" by (simp add: pool_queue_def ann_joined_def Let_def)
  have h: "pool_history [fst (pool_queue ?a reset_player_net)] ann_joined"
    using pool_history_queue[OF pool_history_reset, of ?a] w by simp
  have "speaker 7 [fst (pool_queue ?a reset_player_net)] = (''Ann'', 0x112233FF)"
    by (simp add: speaker_def pool_queue_def names_player_def player_consts copy_text_def Let_def)
  moreover have "\<not> player_id_is_local 7 session_start" by (simp add: player_id_is_local_def session_start_def)
  moreover have "length (client_messages ann_joined) = SAMP_RAKNET_CLIENT_MESSAGE_RING"
    by (simp add: ann_joined_def queue_player_pool_event_def reset_player_net_def Let_def)
  moreover have "chat_line (filter_chat_text (copy_text SAMP_RAKNET_PLAYER_NAME_BYTES ''Ann'')) 0x112233FF (filter_chat_text ''hi'') =
      ''{112233}Ann:{FFFFFF} hi''"
    by (simp add: chat_line_def hex6_def hex_digit_def filter_chat_text_def copy_text_def player_consts char_of_def bit_0)
  ultimately show ?thesis using chat_names_speaker[OF h, of "''hi''" session_start 7] by (auto simp: speaker_of_def)
qed

text \<open>The ring holds every kind of event: after 64 others the join of a player is gone, and his name with it.\<close>

theorem join_forgotten:
  assumes "pool_history (h @ later) w" "SAMP_RAKNET_PLAYER_POOL_EVENT_RING \<le> length later"
    "\<And>e. e \<in> set later \<Longrightarrow> \<not> names_player i e"
  shows "find_recent_player_join i w = None"
proof -
  have "set (drop (length (h @ later) - SAMP_RAKNET_PLAYER_POOL_EVENT_RING) (h @ later)) \<subseteq> set later"
    using assms(2) by (auto dest: in_set_dropD)
  then have "filter (names_player i) (drop (length (h @ later) - SAMP_RAKNET_PLAYER_POOL_EVENT_RING) (h @ later)) = []"
    using assms(3) by (auto simp: filter_empty_conv)
  then show ?thesis using find_recent_player_join_spec[OF assms(1), of i] by simp
qed

section \<open>Every RPC is handled\<close>

definition players_ok :: "player_net \<Rightarrow> bool" where
  "players_ok w \<longleftrightarrow> length (player_pool_events w) = SAMP_RAKNET_PLAYER_POOL_EVENT_RING \<and>
     length (remote_player_events w) = SAMP_RAKNET_REMOTE_PLAYER_EVENT_RING \<and>
     length (remote_player_syncs w) = SAMP_RAKNET_REMOTE_PLAYER_SYNC_RING \<and>
     length (client_messages w) = SAMP_RAKNET_CLIENT_MESSAGE_RING \<and>
     length (score_ping_entries w) = SAMP_RAKNET_SCORE_PING_MAX_ENTRIES \<and>
     score_ping_count w \<le> SAMP_RAKNET_SCORE_PING_MAX_ENTRIES \<and>
     (\<forall>e\<in>set (player_pool_events w). c_text_fits SAMP_RAKNET_PLAYER_NAME_BYTES (pe_name e)) \<and>
     (\<forall>m\<in>set (client_messages w). length (cm_text m) < SAMP_RAKNET_CLIENT_MESSAGE_BYTES)"

lemma players_ok_reset: "players_ok reset_player_net"
  by (simp add: players_ok_def reset_player_net_def zero_player_event_def player_consts)

text \<open>A decoder returns, and leaves a state with the property.\<close>

definition leaves :: "('s \<Rightarrow> bool) \<Rightarrow> (bool \<times> 's) mem \<Rightarrow> bool" where
  "leaves P m \<longleftrightarrow> (case m of None \<Rightarrow> False | Some r \<Rightarrow> P (snd r))"

lemma leaves_Some [simp]: "leaves P (Some r) = P (snd r)"
  by (simp add: leaves_def)

lemma leaves_iff: "leaves P m \<longleftrightarrow> (\<exists>r. m = Some r \<and> P (snd r))"
  by (simp add: leaves_def split: option.split)

lemma copy_bounded_bytes_ok:
  assumes "off + len \<le> length data" "0 < n"
  shows "\<exists>t. copy_bounded_bytes n data off len = Some t \<and> CHR 0x00 \<notin> set t"
proof -
  let ?k = "if len < n - 1 then len else n - 1"
  have "off + ?k \<le> length data" using assms by auto
  from load_bytes_in_range[OF this] obtain bytes where b: "load_bytes data off ?k = Some bytes" by blast
  have "?k < n" using assms(2) by auto
  from c_text_fits_bytes_string[OF b this] b show ?thesis by (simp add: copy_bounded_bytes_def c_text_fits_def)
qed

lemma players_ok_pool:
  assumes "players_ok w" "CHR 0x00 \<notin> set nam"
  shows "players_ok (queue_player_pool_event action i color npc reason nam w)"
proof -
  have "c_text_fits SAMP_RAKNET_PLAYER_NAME_BYTES (copy_text SAMP_RAKNET_PLAYER_NAME_BYTES nam)"
    using assms(2) by (simp add: player_consts)
  then show ?thesis using assms(1)
    by (auto simp: players_ok_def queue_player_pool_event_def Let_def dest!: in_update)
qed

lemma players_ok_queue:
  assumes "players_ok w"
  shows "CHR 0x00 \<notin> set nam \<Longrightarrow> players_ok (queue_player_pool_event action i color npc reason nam w)"
    "players_ok (queue_remote_player_event e w)" "players_ok (queue_remote_onfoot_sync sync w)"
    "players_ok (queue_client_message_line color t w)"
proof -
  show "players_ok (queue_remote_player_event e w)" "players_ok (queue_remote_onfoot_sync sync w)"
    using assms by (simp_all add: players_ok_def queue_remote_player_event_def queue_remote_onfoot_sync_def Let_def)
  have "length (filter_chat_text (copy_text SAMP_RAKNET_CLIENT_MESSAGE_BYTES t)) < SAMP_RAKNET_CLIENT_MESSAGE_BYTES"
    by (simp add: copy_text_def player_consts)
  then show "players_ok (queue_client_message_line color t w)"
    using assms by (auto simp: players_ok_def queue_client_message_line_def Let_def dest!: in_update)
qed (rule players_ok_pool[OF assms])

lemma decode_server_join_compact_ok:
  assumes "players_ok w" "2 \<le> length data"
  shows "leaves players_ok (decode_server_join_compact color data w)"
proof -
  obtain len i where r: "read_byte data 1 = Some len" "read_byte data 0 = Some i"
    using read_byte_in[of 1 data] read_byte_in[of 0 data] assms(2) by fastforce
  show ?thesis
  proof (cases "2 + unat len \<le> length data")
    case True
    then obtain t where t: "copy_bounded_bytes SAMP_RAKNET_PLAYER_NAME_BYTES data 2 (unat len) = Some t" "CHR 0x00 \<notin> set t"
      using copy_bounded_bytes_ok[of 2 "unat len" data SAMP_RAKNET_PLAYER_NAME_BYTES] by (auto simp: player_consts)
    show ?thesis using r t assms(1) players_ok_queue(1)[OF assms(1) t(2)] by (simp add: decode_server_join_compact_def)
  qed (use r assms in \<open>simp add: decode_server_join_compact_def\<close>)
qed

lemma decode_server_join_payload_ok:
  assumes "players_ok w"
  shows "leaves players_ok (decode_server_join_payload data w)"
proof (cases "length data < 8")
  case False
  obtain i color npc len where r: "read_le16 data 0 = Some i" "read_le32 data 2 = Some color" "read_byte data 6 = Some npc"
    "read_byte data 7 = Some len"
    using False read_le16_in[of 0 data] read_le32_in[of 2 data] read_byte_in[of 6 data] read_byte_in[of 7 data] by auto
  have c: "leaves players_ok (decode_server_join_compact color data w)"
    using decode_server_join_compact_ok[OF assms, of data color] False by simp
  show ?thesis
  proof (cases "unat len \<le> SAMP_RAKNET_PLAYER_NAME_BYTES - 1 \<and> 8 + unat len \<le> length data")
    case True
    then obtain t where t: "copy_bounded_bytes SAMP_RAKNET_PLAYER_NAME_BYTES data 8 (unat len) = Some t" "CHR 0x00 \<notin> set t"
      using copy_bounded_bytes_ok[of 8 "unat len" data SAMP_RAKNET_PLAYER_NAME_BYTES] by (auto simp: player_consts)
    show ?thesis using True False r t players_ok_queue(1)[OF assms t(2)] by (simp add: decode_server_join_payload_def)
  next
    case short: False
    then show ?thesis using False r c by (auto simp: decode_server_join_payload_def)
  qed
next
  case True
  then show ?thesis using assms decode_server_join_compact_ok[OF assms, of data] by (simp add: decode_server_join_payload_def)
qed

lemma decode_server_quit_payload_ok:
  assumes "players_ok w"
  shows "leaves players_ok (decode_server_quit_payload data w)"
proof (cases "length data < 2")
  case False
  have "\<exists>a. read_byte data 0 = Some a" "\<exists>a. read_byte data 1 = Some a" "\<exists>a. read_le16 data 0 = Some a"
    "3 \<le> length data \<Longrightarrow> \<exists>a. read_byte data 2 = Some a"
    using False by (auto intro!: read_byte_in read_le16_in)
  then show ?thesis using False players_ok_queue(1)[OF assms, of "[]"]
    by (cases "3 \<le> length data") (auto simp: decode_server_quit_payload_def)
qed (use assms in \<open>simp add: decode_server_quit_payload_def\<close>)

lemma decode_set_player_name_payload_ok:
  assumes "players_ok w"
  shows "leaves players_ok (decode_set_player_name_payload data w)"
proof (cases "length data < 4")
  case False
  obtain i len where r: "read_le16 data 0 = Some i" "read_byte data 2 = Some len"
    using False read_le16_in[of 0 data] read_byte_in[of 2 data] by auto
  show ?thesis
  proof (cases "4 + unat len > length data")
    case False
    obtain e where e: "read_byte data (3 + unat len) = Some e" using False read_byte_in[of "3 + unat len" data] by auto
    obtain bytes where b: "load_bytes data 3 (unat len) = Some bytes" using False by (simp add: load_bytes_def)
    have "CHR 0x00 \<notin> set (bytes_string bytes)" unfolding bytes_string_def by (blast dest: set_takeWhileD)
    from players_ok_queue(1)[OF assms this] show ?thesis using \<open>\<not> length data < 4\<close> r e b assms
      by (simp add: decode_set_player_name_payload_def)
  qed (use \<open>\<not> length data < 4\<close> r assms in \<open>simp add: decode_set_player_name_payload_def\<close>)
qed (use assms in \<open>simp add: decode_set_player_name_payload_def\<close>)

lemma decode_player_team_color_ok:
  assumes "players_ok w"
  shows "leaves players_ok (decode_player_team_payload data w)"
    "leaves players_ok (decode_player_color_payload data w)"
proof -
  have pre: "players_ok (w\<lparr>player_team_player_id := i, player_team := t\<rparr>)" "players_ok (w\<lparr>player_color_player_id := i, player_color := c\<rparr>)"
    for i t c using assms by (simp_all add: players_ok_def)
  have post: "players_ok w' \<Longrightarrow> players_ok (w'\<lparr>player_team_seq := n\<rparr>)" "players_ok w' \<Longrightarrow> players_ok (w'\<lparr>player_color_seq := n\<rparr>)"
    for w' n by (simp_all add: players_ok_def)
  have q: "players_ok w' \<Longrightarrow> players_ok (queue_player_pool_event action i color npc reason [] w')" for w' action i color npc reason
    by (rule players_ok_queue(1)) simp_all
  show "leaves players_ok (decode_player_team_payload data w)"
  proof (cases "length data < 3")
    case False
    then obtain i t where "read_le16 data 0 = Some i" "read_byte data 2 = Some t"
      using read_le16_in[of 0 data] read_byte_in[of 2 data] by auto
    then show ?thesis using False pre(1) post(1) q by (simp add: decode_player_team_payload_def Let_def)
  qed (use assms in \<open>simp add: decode_player_team_payload_def\<close>)
  show "leaves players_ok (decode_player_color_payload data w)"
  proof (cases "length data < 6")
    case False
    then obtain i c where "read_le16 data 0 = Some i" "read_le32 data 2 = Some c"
      using read_le16_in[of 0 data] read_le32_in[of 2 data] by auto
    then show ?thesis using False pre(2) post(2) q by (simp add: decode_player_color_payload_def Let_def)
  qed (use assms in \<open>simp add: decode_player_color_payload_def\<close>)
qed

lemma decode_world_player_ok:
  assumes "players_ok w"
  shows "leaves players_ok (decode_world_player_add_payload B data w)"
    "players_ok (snd (decode_world_player_remove_payload B action reason data w))"
proof -
  note q = players_ok_queue(2)[OF assms]
  show "players_ok (snd (decode_world_player_remove_payload B action reason data w))"
    using assms q by (simp add: decode_world_player_remove_payload_def split: option.split)
  have plain: "\<exists>a. read_le16 data 0 = Some a" "\<exists>a. read_byte data 2 = Some a" "\<exists>a. read_le_i32 data 3 = Some a"
    "\<exists>a. read_vec3 data 7 = Some a" "\<exists>a. read_le_float data 19 = Some a" "\<exists>a. read_le32 data 23 = Some a"
    "\<exists>a. read_byte data 27 = Some a" if "28 \<le> length data"
    using that by (auto intro!: read_le16_in read_byte_in read_le_i32_in read_vec3_in read_le_float_in read_le32_in)
  show "leaves players_ok (decode_world_player_add_payload B data w)"
    using assms q plain by (auto simp: decode_world_player_add_payload_def split: option.split)
qed

lemma read_score_entry_in: "off + (if wide then 10 else 9) \<le> length data \<Longrightarrow> \<exists>e. read_score_entry wide data off = Some e"
proof -
  assume len: "off + (if wide then 10 else 9) \<le> length data"
  have "wide \<Longrightarrow> \<exists>a. read_le16 data off = Some a" "wide \<Longrightarrow> \<exists>a. read_le_i32 data (off + 2) = Some a"
    "wide \<Longrightarrow> \<exists>a. read_le32 data (off + 6) = Some a" "\<not> wide \<Longrightarrow> \<exists>a. read_byte data off = Some a"
    "\<not> wide \<Longrightarrow> \<exists>a. read_le_i32 data (off + 1) = Some a" "\<not> wide \<Longrightarrow> \<exists>a. read_le32 data (off + 5) = Some a"
    using len by (auto intro!: read_le16_in read_byte_in read_le_i32_in read_le32_in)
  then show ?thesis by (cases wide) (auto simp: read_score_entry_def)
qed

lemma read_scores_ok:
  assumes "(i + n) * (if wide then 10 else 9) \<le> length data" "i + n \<le> length entries"
  shows "\<exists>es. read_scores wide data i n entries = Some es \<and> length es = length entries"
  using assms
proof (induction n arbitrary: i entries)
  case (Suc n)
  let ?k = "if wide then 10 else 9 :: nat"
  have "i * ?k + ?k \<le> length data" using Suc.prems(1) by (simp add: algebra_simps split: if_splits)
  then obtain e where e: "read_score_entry wide data (i * ?k) = Some e" using read_score_entry_in[of "i * ?k" wide data] by blast
  have "\<exists>es. read_scores wide data (i + 1) n (entries[i := e]) = Some es \<and> length es = length (entries[i := e])"
    by (rule Suc.IH) (use Suc.prems in \<open>simp_all add: algebra_simps split: if_splits\<close>)
  then show ?case using e Suc.prems(2) by simp
qed simp

lemma decode_update_scores_pings_payload_ok:
  assumes "players_ok w"
  shows "leaves players_ok (decode_update_scores_pings_payload data w)"
proof -
  let ?wide = "length data mod 10 = 0"
  let ?k = "if ?wide then 10 else 9 :: nat" and ?M = SAMP_RAKNET_SCORE_PING_MAX_ENTRIES
  let ?count = "if length data div ?k > ?M then ?M else length data div ?k"
  have "?count * ?k \<le> length data div ?k * ?k" by (rule mult_right_mono) simp_all
  also have "\<dots> \<le> length data" by (rule div_times_less_eq_dividend)
  finally have "(0 + ?count) * ?k \<le> length data" by simp
  moreover have len: "length (score_ping_entries w) = ?M" using assms by (simp add: players_ok_def)
  moreover have le: "?count \<le> ?M" by simp
  ultimately obtain es where es: "read_scores ?wide data 0 ?count (score_ping_entries w) = Some es"
    "length es = length (score_ping_entries w)"
    using read_scores_ok[of 0 ?count ?wide data "score_ping_entries w"] by fastforce
  have "players_ok (w\<lparr>score_ping_entries := es, score_ping_count := ?count, score_ping_seq := n\<rparr>)" for n
    using assms es(2) le unfolding players_ok_def by simp
  then show ?thesis using es(1) assms unfolding decode_update_scores_pings_payload_def Let_def
    by (cases "data = [] \<or> (length data mod 10 \<noteq> 0 \<and> length data mod 9 \<noteq> 0)") (simp_all only: if_True if_False bind.bind_lunit leaves_Some snd_conv)
qed

lemma decode_client_message_payload_ok:
  assumes "players_ok w"
  shows "\<exists>w'. decode_client_message_payload data w = Some w' \<and> players_ok w'"
proof (cases "length data < 8")
  case False
  then obtain len color where r: "read_le32 data 4 = Some len" "read_le32 data 0 = Some color"
    using read_le32_in[of 4 data] read_le32_in[of 0 data] by auto
  show ?thesis
  proof (cases "unat len > length data - 8")
    case False
    then have "8 + unat len \<le> length data" using \<open>\<not> length data < 8\<close> by linarith
    then obtain t where "copy_bounded_bytes SAMP_RAKNET_CLIENT_MESSAGE_BYTES data 8 (unat len) = Some t"
      using copy_bounded_bytes_ok[of 8 "unat len" data SAMP_RAKNET_CLIENT_MESSAGE_BYTES] by (auto simp: player_consts)
    then show ?thesis using \<open>\<not> length data < 8\<close> False r players_ok_queue(4)[OF assms]
      by (simp add: decode_client_message_payload_def)
  qed (use \<open>\<not> length data < 8\<close> r assms in \<open>simp add: decode_client_message_payload_def\<close>)
qed (use assms in \<open>simp add: decode_client_message_payload_def\<close>)

lemma decode_chat_payload_ok:
  assumes "players_ok w"
  shows "leaves players_ok (decode_chat_payload s data w)"
proof (cases "length data < 3")
  case False
  then obtain i len where r: "read_le16 data 0 = Some i" "read_byte data 2 = Some len"
    using read_le16_in[of 0 data] read_byte_in[of 2 data] by auto
  show ?thesis
  proof (cases "unat len > length data - 3")
    case False
    then have "3 + unat len \<le> length data" using \<open>\<not> length data < 3\<close> by linarith
    then obtain t where "copy_bounded_bytes SAMP_RAKNET_CLIENT_MESSAGE_BYTES data 3 (unat len) = Some t"
      using copy_bounded_bytes_ok[of 3 "unat len" data SAMP_RAKNET_CLIENT_MESSAGE_BYTES] by (auto simp: player_consts)
    then show ?thesis using \<open>\<not> length data < 3\<close> False r players_ok_queue(4)[OF assms]
      by (simp add: decode_chat_payload_def Let_def)
  qed (use \<open>\<not> length data < 3\<close> r assms in \<open>simp add: decode_chat_payload_def\<close>)
qed (use assms in \<open>simp add: decode_chat_payload_def\<close>)

lemma leaves_map: "leaves P m \<Longrightarrow> \<exists>w'. map_option snd m = Some w' \<and> P w'"
  by (auto simp: leaves_iff)

lemma observe_player_rpc_ok:
  assumes "players_ok w"
  shows "\<exists>w'. observe_player_rpc B s rpc_id data w = Some w' \<and> players_ok w'"
  using assms decode_set_player_name_payload_ok[OF assms] decode_client_message_payload_ok[OF assms]
    decode_chat_payload_ok[OF assms, of s] decode_world_player_ok(1)[OF assms, of B data]
    decode_world_player_ok(2)[OF assms, of B _ _ data] decode_server_join_payload_ok[OF assms]
    decode_server_quit_payload_ok[OF assms] decode_update_scores_pings_payload_ok[OF assms]
    decode_player_team_color_ok[OF assms]
  unfolding observe_player_rpc_def by (simp add: leaves_map del: map_option_eq_Some)

text \<open>Every RPC about players is handled: for any number and any payload the branch of the observer returns without reading
  outside the payload, and leaves names of at most 24 and lines of at most 255 characters, rings of their sizes and at
  most 1000 scores.\<close>

theorem player_rpcs_safe:
  assumes "players_ok w"
  shows "\<exists>w'. observe_player_rpc B s rpc_id data w = Some w' \<and> players_ok w'"
  by (rule observe_player_rpc_ok[OF assms])

lemma player_rpcs_safe_witness:
  "\<exists>w'. observe_player_rpc bit_list_stream session_start 137 [7, 0, 1, 2] reset_player_net = Some w' \<and> players_ok w'"
  by (rule player_rpcs_safe[OF players_ok_reset])

section \<open>The yaw of a player on foot\<close>

text \<open>
  What the arithmetic promises for an angle of at most a turn to either side: a negative angle plus 360 is between 0 and
  360 (360 itself when the sum rounds up), and 360 minus 360 is 0.
\<close>

definition turn_arith :: "float_ops \<Rightarrow> bool" where
  "turn_arith F \<longleftrightarrow>
     (\<forall>a. f32_finite a \<and> - 360 * 2 ^ 149 \<le> f32_scaled a \<and> f32_scaled a < 0 \<longrightarrow>
        f32_finite (f_add F a f32_360) \<and> 0 \<le> f32_scaled (f_add F a f32_360) \<and> f32_scaled (f_add F a f32_360) \<le> 360 * 2 ^ 149) \<and>
     (\<forall>a. f32_finite a \<and> f32_scaled a = 360 * 2 ^ 149 \<longrightarrow> f_sub F a f32_360 = 0)"

lemma yaw_loops:
  assumes "turn_arith F" "f32_finite a" "- 360 * 2 ^ 149 \<le> f32_scaled a" "f32_scaled a \<le> 360 * 2 ^ 149"
  shows "\<exists>yaw. (yaw_up F a \<bind> yaw_down F) = Some yaw \<and> 0 \<le> f32_scaled yaw \<and> f32_scaled yaw < 360 * 2 ^ 149"
proof -
  obtain b where b: "yaw_up F a = Some b" "f32_finite b" "0 \<le> f32_scaled b" "f32_scaled b \<le> 360 * 2 ^ 149"
  proof (cases "f32_scaled a < 0")
    case True
    let ?b = "f_add F a f32_360"
    have t: "f32_finite ?b" "0 \<le> f32_scaled ?b" "f32_scaled ?b \<le> 360 * 2 ^ 149"
      using assms True by (auto simp: turn_arith_def)
    have "yaw_up F a = Some ?b" using True t(2) by (simp add: yaw_up.simps[of F a] yaw_up.simps[of F ?b])
    then show thesis using that t by blast
  next
    case False
    then show thesis using that[of a] assms by (simp add: yaw_up.simps)
  qed
  show ?thesis
  proof (cases "f32_scaled b = 360 * 2 ^ 149")
    case True
    then have "f_sub F b f32_360 = 0" using assms(1) b(2) by (simp add: turn_arith_def)
    moreover have "f32_scaled 0 = 0" by (simp add: f32_scaled_def f32_exponent_def)
    ultimately have "yaw_down F b = Some 0" using True by (simp add: yaw_down.simps[of F b] yaw_down.simps[of F 0])
    then show ?thesis using b(1) \<open>f32_scaled 0 = 0\<close> by simp
  next
    case False
    then have "yaw_down F b = Some b" using b(4) by (simp add: yaw_down.simps)
    then show ?thesis using b False by simp
  qed
qed

definition turn_range :: "float_ops \<Rightarrow> bool" where
  "turn_range F \<longleftrightarrow> (\<forall>a b. f32_finite (f_mul F (f_atan2 F a b) kRadiansToDegrees) \<longrightarrow>
     f32_within (- 360) 360 (f_mul F (f_atan2 F a b) kRadiansToDegrees))"

lemma onfoot_sync_decoded:
  assumes "turn_arith F" "turn_range F" "players_ok w"
  shows "\<exists>ok w'. decode_remote_onfoot_sync_packet B R F data w = Some (ok, w') \<and> players_ok w' \<and>
    (if ok then remote_player_sync_seq w' = bump_seq (remote_player_sync_seq w) \<and>
       (let e = remote_player_syncs w' ! ring_slot SAMP_RAKNET_REMOTE_PLAYER_SYNC_RING (remote_player_sync_seq w')
        in rs_seq e = remote_player_sync_seq w' \<and> 0 \<le> f32_scaled (rs_rotation e) \<and> f32_scaled (rs_rotation e) < 360 * 2 ^ 149)
     else w' = w)"
proof (cases "length data < 2 \<or> read_onfoot_sync B R data = None")
  case True
  then have "decode_remote_onfoot_sync_packet B R F data w = Some (False, w)" by (auto simp: decode_remote_onfoot_sync_packet_def)
  then show ?thesis using assms(3) by (intro exI[of _ False] exI[of _ w]) simp
next
  case False
  then obtain sync q where r: "read_onfoot_sync B R data = Some (sync, q)" by auto
  obtain a b c d where q: "q = (a, b, c, d)" by (metis prod_cases4)
  define siny where "siny = f_mul F f32_two (f_add F (f_mul F a d) (f_mul F b c))"
  define cosy where "cosy = f_sub F f32_one (f_mul F f32_two (f_add F (f_mul F c c) (f_mul F d d)))"
  define y where "y = f_mul F (f_atan2 F siny cosy) kRadiansToDegrees"
  have form: "yaw_degrees_from_gta_quat F q = (if \<not> f32_finite y then Some 0 else yaw_up F y \<bind> yaw_down F)"
    by (simp add: yaw_degrees_from_gta_quat_def q Let_def siny_def cosy_def y_def)
  have zero: "f32_scaled 0 = 0" by (simp add: f32_scaled_def f32_exponent_def)
  obtain yaw where yaw: "yaw_degrees_from_gta_quat F q = Some yaw" "0 \<le> f32_scaled yaw" "f32_scaled yaw < 360 * 2 ^ 149"
  proof (cases "f32_finite y")
    case True
    then have "f32_within (- 360) 360 y" using assms(2) by (simp add: turn_range_def y_def)
    then have "- 360 * 2 ^ 149 \<le> f32_scaled y" "f32_scaled y \<le> 360 * 2 ^ 149" unfolding f32_within_def by auto
    from yaw_loops[OF assms(1) True this] that form True show thesis by auto
  next
    case False
    then show thesis using that[of 0] form zero by simp
  qed
  let ?w = "queue_remote_onfoot_sync (sync\<lparr>rs_rotation := yaw\<rparr>) w"
  have dec: "decode_remote_onfoot_sync_packet B R F data w = Some (True, ?w)"
    using False r yaw(1) by (simp add: decode_remote_onfoot_sync_packet_def)
  have "players_ok ?w" by (rule players_ok_queue(3)[OF assms(3)])
  moreover have "ring_slot SAMP_RAKNET_REMOTE_PLAYER_SYNC_RING n < length (remote_player_syncs w)" for n
    using assms(3) by (simp add: players_ok_def ring_slot_def player_consts)
  then have "remote_player_syncs ?w ! ring_slot SAMP_RAKNET_REMOTE_PLAYER_SYNC_RING (remote_player_sync_seq ?w) =
      sync\<lparr>rs_rotation := yaw, rs_seq := remote_player_sync_seq ?w\<rparr>" "remote_player_sync_seq ?w = bump_seq (remote_player_sync_seq w)"
    by (simp_all add: queue_remote_onfoot_sync_def Let_def)
  ultimately show ?thesis using dec yaw(2,3) by (intro exI[of _ True] exI[of _ ?w]) (simp add: Let_def)
qed

text \<open>A position packet is always handled: where the arithmetic keeps an arc tangent within a turn, the two loops that
  normalise the yaw end, and whatever the packet holds the decoder returns; a packet it accepts is stored under the next
  number, with a yaw of at least 0 and less than 360 degrees.\<close>

theorem sync_packet_stored:
  assumes "turn_arith F" "turn_range F" "players_ok w"
  shows "\<exists>ok w'. decode_remote_onfoot_sync_packet B R F data w = Some (ok, w') \<and> players_ok w' \<and>
    (if ok then remote_player_sync_seq w' = bump_seq (remote_player_sync_seq w) \<and>
       (let e = remote_player_syncs w' ! ring_slot SAMP_RAKNET_REMOTE_PLAYER_SYNC_RING (remote_player_sync_seq w')
        in rs_seq e = remote_player_sync_seq w' \<and> 0 \<le> f32_scaled (rs_rotation e) \<and> f32_scaled (rs_rotation e) < 360 * 2 ^ 149)
     else w' = w)"
  by (rule onfoot_sync_decoded[OF assms])

definition flat_floats :: float_ops where
  "flat_floats = \<lparr>f_add = (\<lambda>a b. 0), f_sub = (\<lambda>a b. 0), f_mul = (\<lambda>a b. 0), f_atan2 = (\<lambda>a b. 0)\<rparr>"

lemma sync_packet_stored_witness:
  "\<exists>ok w'. decode_remote_onfoot_sync_packet bit_list_stream \<lparr>vec_read = (\<lambda>s. None), quat_read = (\<lambda>s. None)\<rparr> flat_floats
      [207, 1] reset_player_net = Some (ok, w') \<and> players_ok w'"
proof -
  have zero: "f32_scaled 0 = 0" by (simp add: f32_scaled_def f32_exponent_def)
  have "turn_arith flat_floats" by (simp add: turn_arith_def flat_floats_def zero)
  moreover have "turn_range flat_floats" by (simp add: turn_range_def flat_floats_def zero f32_within_def)
  ultimately show ?thesis
    using sync_packet_stored[OF _ _ players_ok_reset, of flat_floats bit_list_stream
        "\<lparr>vec_read = (\<lambda>s. None), quat_read = (\<lambda>s. None)\<rparr>" "[207, 1]"] by blast
qed

section \<open>Layouts the decoders confuse\<close>

text \<open>Ten scores in the compact layout are 90 bytes, which the decoder takes for nine in the wide one.\<close>

theorem compact_scores_misread:
  assumes "players_ok w" "length data = 90"
  shows "\<exists>w'. decode_update_scores_pings_payload data w = Some (True, w') \<and> score_ping_count w' = 9"
proof -
  have "length (score_ping_entries w) = 1000" using assms(1) by (simp add: players_ok_def player_consts)
  then obtain es where "read_scores True data 0 9 (score_ping_entries w) = Some es"
    using read_scores_ok[of 0 9 True data "score_ping_entries w"] assms(2) by auto
  then show ?thesis using assms(2) by (auto simp: decode_update_scores_pings_payload_def Let_def player_consts)
qed

text \<open>A compact join of eight bytes or more takes its colour from the first characters of the name.\<close>

theorem compact_join_colour:
  "map_option (\<lambda>r. pe_color (player_pool_events (snd r) ! 0))
     (decode_server_join_payload [7, 6, 97, 98, 99, 100, 101, 102] reset_player_net) = Some 0x64636261"
  by (simp add: decode_server_join_payload_def decode_server_join_compact_def read_le16_def read_le32_def read_byte_def
      le32_of_bytes_def copy_bounded_bytes_def load_bytes_def queue_player_pool_event_def reset_player_net_def ring_slot_def
      bump_seq_def player_consts Let_def)

end
