(* ===== verification/RpcConnect.thy ===== *)
theory RpcConnect
  imports RpcPlayers
begin

text \<open>
  How a client joins a server, in \<^verbatim>\<open>src/net/raknet_client_adapter.cpp\<close>: the serial number the client
  makes up (\<^verbatim>\<open>gen_gpci\<close>), the answer to the authentication challenge, the join message, and the pump that
  receives packets, answers them and services the session after each.

  RakNet is a parameter. \<^verbatim>\<open>Receive\<close> runs the handlers of the RPCs that have arrived and may return a packet: a
  \<open>reception\<close> has both, and what the sends of that round return. The numbers of RakNet's own packets and the table of
  authentication answers, which the build generates, are parameters too.
\<close>

section \<open>The serial number\<close>

definition kGpciFactor :: u32 where "kGpciFactor = 0x3e9"

definition alphanum :: string where "alphanum = ''0123456789ABCDEFGHIJKLMNOPQRSTUVWXYZ''"

definition byte_swap :: "u32 \<Rightarrow> u32" where
  "byte_swap x = drop_bit 24 x OR (push_bit 8 x AND 0x00FF0000) OR (drop_bit 8 x AND 0x0000FF00) OR push_bit 24 x"

text \<open>The words of an array of bytes, in the byte order of the machine.\<close>

definition word_at :: "u8 list \<Rightarrow> nat \<Rightarrow> u32" where
  "word_at bs i = le32_of_bytes (bs ! (4 * i)) (bs ! (4 * i + 1)) (bs ! (4 * i + 2)) (bs ! (4 * i + 3))"

text \<open>One limb after the other: the product of a word and the factor, plus the carry, in 64 bits.\<close>

fun mul_limbs :: "u32 \<Rightarrow> u32 \<Rightarrow> u32 list \<Rightarrow> u32 list" where
  "mul_limbs factor carry [] = [carry]"
| "mul_limbs factor carry (x # xs) = (
     let tmp = (ucast x :: 64 word) * ucast factor + ucast carry
     in ucast tmp # mul_limbs factor (ucast (drop_bit 32 tmp)) xs)"

text \<open>The loop that exchanges byte \<open>i\<close> and byte \<open>23 - i\<close>.\<close>

definition exchange :: "nat \<Rightarrow> u8 list \<Rightarrow> u8 list" where
  "exchange i xs = xs[i := xs ! (23 - i), 23 - i := xs ! i]"

definition big_num_mul :: "u8 list \<Rightarrow> u32 \<Rightarrow> u8 list" where
  "big_num_mul inp factor = (
     let src = map (\<lambda>i. byte_swap (word_at inp (4 - i))) [0..<5];
         out = concat (map bytes_of_le32 (mul_limbs factor 0 src))
     in fold exchange [0..<12] out)"

text \<open>The two halves of a byte are written from the first that is not zero on.\<close>

definition put_half :: "nat \<Rightarrow> bool \<times> string \<Rightarrow> bool \<times> string" where
  "put_half h p = (case p of (notzero, buf) \<Rightarrow> if notzero \<or> h \<noteq> 0 then (True, buf @ [hex_digit h]) else (notzero, buf))"

definition put_byte :: "u8 \<Rightarrow> bool \<times> string \<Rightarrow> bool \<times> string" where
  "put_byte b p = put_half (unat (b AND 0x0F)) (put_half (unat (drop_bit 4 b)) p)"

text \<open>\<open>rands\<close> are the 24 values of \<^verbatim>\<open>rand()\<close>. The result is the text and its length.\<close>

definition gen_gpci :: "nat list \<Rightarrow> u32 \<Rightarrow> string \<times> nat" where
  "gen_gpci rands factor =
     (if factor = 0 then (''0'', 1)
      else let out = map (\<lambda>r. of_nat (of_char (alphanum ! (r mod 36)))) rands;
               buf = snd (fold put_byte (big_num_mul out factor) (False, []))
           in (buf, length buf))"

section \<open>The serial number is a product in hexadecimal\<close>

definition be_value :: "u8 list \<Rightarrow> nat" where
  "be_value bs = foldl (\<lambda>v b. 256 * v + unat b) 0 bs"

fun hex_rev :: "nat \<Rightarrow> string" where
  "hex_rev n = (if n < 16 then [hex_digit n] else hex_digit (n mod 16) # hex_rev (n div 16))"

declare hex_rev.simps [simp del]

text \<open>The reference: the shortest hexadecimal text of a number.\<close>

definition hexadecimal :: "nat \<Rightarrow> string" where
  "hexadecimal n = rev (hex_rev n)"

definition limbs_value :: "u32 list \<Rightarrow> nat" where
  "limbs_value xs = foldr (\<lambda>x v. unat x + 2 ^ 32 * v) xs 0"

lemma limbs_value_simps [simp]: "limbs_value [] = 0" "limbs_value (x # xs) = unat x + 2 ^ 32 * limbs_value xs"
  by (simp_all add: limbs_value_def)

lemma unat_ucast_64: "unat (ucast (w :: u32) :: 64 word) = unat w"
  using unat_u32_lt[of w] by (simp add: unsigned_ucast_eq take_bit_nat_eq_self)

lemma mul_limbs_step:
  assumes "tmp = (ucast x :: 64 word) * ucast factor + ucast (carry :: u32)"
  shows "unat (ucast tmp :: u32) + 2 ^ 32 * unat (ucast (drop_bit 32 tmp) :: u32) = unat (x :: u32) * unat (factor :: u32) + unat carry"
proof -
  have b: "unat x \<le> 2 ^ 32 - 1" "unat factor \<le> 2 ^ 32 - 1" "unat carry \<le> 2 ^ 32 - 1"
    using unat_u32_lt[of x] unat_u32_lt[of factor] unat_u32_lt[of carry] by simp_all
  have "unat x * unat factor \<le> (2 ^ 32 - 1) * (2 ^ 32 - 1)" by (rule mult_le_mono[OF b(1,2)])
  then have lt: "unat x * unat factor + unat carry < 2 ^ 64" using b(3) by simp
  have t: "unat tmp = unat x * unat factor + unat carry"
    using lt by (simp add: assms unat_word_ariths unat_ucast_64 mod_less[OF lt[simplified]] take_bit_eq_mod)
  have lo: "unat (ucast tmp :: u32) = unat tmp mod 2 ^ 32"
    by (simp add: unsigned_ucast_eq take_bit_eq_mod)
  have "unat tmp div 2 ^ 32 < 2 ^ 32" using lt t by (simp add: div_less_iff_less_mult less_mult_imp_div_less)
  then have hi: "unat (ucast (drop_bit 32 tmp) :: u32) = unat tmp div 2 ^ 32"
    by (simp add: unsigned_ucast_eq take_bit_nat_eq_self unat_drop_bit_div)
  show ?thesis unfolding lo hi t[symmetric] by simp
qed

lemma mul_limbs_value: "limbs_value (mul_limbs factor carry xs) = limbs_value xs * unat factor + unat carry"
proof (induction xs arbitrary: carry)
  case (Cons x xs)
  define tmp where "tmp = (ucast x :: 64 word) * ucast factor + ucast carry"
  have "mul_limbs factor carry (x # xs) = ucast tmp # mul_limbs factor (ucast (drop_bit 32 tmp)) xs"
    by (simp only: mul_limbs.simps Let_def tmp_def)
  then have "limbs_value (mul_limbs factor carry (x # xs)) =
      unat (ucast tmp :: u32) + 2 ^ 32 * unat (ucast (drop_bit 32 tmp) :: u32) + 2 ^ 32 * (limbs_value xs * unat factor)"
    by (simp add: Cons.IH algebra_simps)
  then show ?case using mul_limbs_step[OF tmp_def] by (simp add: algebra_simps)
qed simp

lemma exchange_rev:
  assumes "length xs = 24"
  shows "fold exchange [0..<12] xs = rev xs"
proof -
  have step: "length (fold exchange [0..<k] xs) = 24 \<and>
      (\<forall>i<24. fold exchange [0..<k] xs ! i = (if i < k \<or> 24 - k \<le> i then xs ! (23 - i) else xs ! i))" if "k \<le> 12" for k
    using that
  proof (induction k)
    case (Suc k)
    let ?ys = "fold exchange [0..<k] xs"
    have ys: "length ?ys = 24" "\<And>i. i < 24 \<Longrightarrow> ?ys ! i = (if i < k \<or> 24 - k \<le> i then xs ! (23 - i) else xs ! i)"
      using Suc by auto
    have "fold exchange [0..<Suc k] xs = ?ys[k := ?ys ! (23 - k), 23 - k := ?ys ! k]"
      by (simp add: exchange_def)
    moreover have "?ys[k := ?ys ! (23 - k), 23 - k := ?ys ! k] ! i =
        (if i < Suc k \<or> 24 - Suc k \<le> i then xs ! (23 - i) else xs ! i)" if i: "i < 24" for i
    proof -
      consider "i = 23 - k" | "i = k" "i \<noteq> 23 - k" | "i \<noteq> k" "i \<noteq> 23 - k" by blast
      then show ?thesis
      proof cases
        case 1
        have "?ys ! k = xs ! k" using ys(2)[of k] Suc.prems by auto
        moreover have "23 - i = k" "24 - Suc k \<le> i" using 1 Suc.prems by simp_all
        ultimately show ?thesis using 1 ys(1) Suc.prems by simp
      next
        case 2
        have "?ys ! (23 - k) = xs ! (23 - k)" using ys(2)[of "23 - k"] Suc.prems by auto
        then show ?thesis using 2 ys(1) Suc.prems by simp
      next
        case 3
        then have "(i < Suc k \<or> 24 - Suc k \<le> i) = (i < k \<or> 24 - k \<le> i)" using i Suc.prems by linarith
        then show ?thesis using 3 ys(2)[OF i] by simp
      qed
    qed
    ultimately show ?case using ys(1) by simp
  qed (use assms in simp)
  show ?thesis
  proof (rule nth_equalityI)
    show "length (fold exchange [0..<12] xs) = length (rev xs)" using step[of 12] assms by simp
    fix i assume "i < length (fold exchange [0..<12] xs)"
    then have "i < 24" using step[of 12] by simp
    then show "fold exchange [0..<12] xs ! i = rev xs ! i" using step[of 12] assms by (auto simp: rev_nth not_less)
  qed
qed

lemma be_value_foldl: "foldl (\<lambda>v b. 256 * v + unat b) n bs = n * 256 ^ length bs + be_value bs"
proof (induction bs arbitrary: n rule: rev_induct)
  case (snoc b bs)
  show ?case using snoc[of n] snoc[of 0] by (simp add: be_value_def algebra_simps)
qed (simp add: be_value_def)

lemma be_value_append: "be_value (xs @ ys) = be_value xs * 256 ^ length ys + be_value ys"
  using be_value_foldl[of "be_value xs" ys] by (simp add: be_value_def)

lemma be_value_simps [simp]: "be_value [] = 0" "be_value (b # bs) = unat b * 256 ^ length bs + be_value bs"
  using be_value_foldl[of "unat b" bs] by (simp_all add: be_value_def)

lemma unat_le32_of_bytes:
  "unat (le32_of_bytes a b c d) = unat a + 256 * unat b + 65536 * unat c + 16777216 * unat d"
proof -
  let ?v = "le32_of_bytes a b c d"
  have parts: "ucast ?v = a" "ucast (drop_bit 8 ?v) = b" "ucast (drop_bit 16 ?v) = c" "ucast (drop_bit 24 ?v) = d"
    by (rule bit_word_eqI; auto simp: le32_of_bytes_def bit_simps dest: bit_imp_le_length)+
  have u: "unat (ucast w :: u8) = unat (w :: u32) mod 256" for w by (simp add: unsigned_ucast_eq take_bit_eq_mod)
  have "unat a = unat ?v mod 256" "unat b = unat ?v div 256 mod 256" "unat c = unat ?v div 65536 mod 256"
    "unat d = unat ?v div 16777216 mod 256"
    using u[of ?v] u[of "drop_bit 8 ?v"] u[of "drop_bit 16 ?v"] u[of "drop_bit 24 ?v"] parts by (simp_all add: unat_drop_bit_div)
  moreover have "unat ?v div 16777216 mod 256 = unat ?v div 16777216"
    using unat_u32_lt[of ?v] by (simp add: less_mult_imp_div_less)
  moreover have "unat ?v = unat ?v mod 256 + 256 * (unat ?v div 256)"
    "unat ?v div 256 = unat ?v div 256 mod 256 + 256 * (unat ?v div 65536)"
    "unat ?v div 65536 = unat ?v div 65536 mod 256 + 256 * (unat ?v div 16777216)"
    using mod_mult_div_eq[of "unat ?v" 256] mod_mult_div_eq[of "unat ?v div 256" 256] mod_mult_div_eq[of "unat ?v div 65536" 256]
    by (simp_all add: div_mult2_eq[symmetric])
  ultimately show ?thesis by linarith
qed

lemma bit_le32_of_bytes:
  "bit (le32_of_bytes a b c d) n \<longleftrightarrow>
     (if n < 8 then bit a n else if n < 16 then bit b (n - 8) else if n < 24 then bit c (n - 16) else n < 32 \<and> bit d (n - 24))"
  by (auto simp: le32_of_bytes_def bit_simps dest: bit_imp_le_length)

lemma byte_swap_le32: "byte_swap (le32_of_bytes a b c d) = le32_of_bytes d c b a"
proof -
  have masks: "(0x00FF0000 :: u32) = push_bit 16 (mask 8)" "(0x0000FF00 :: u32) = push_bit 8 (mask 8)"
    by (simp_all add: mask_eq_exp_minus_1)
  show ?thesis
  proof (rule bit_word_eqI)
    fix n assume "n < LENGTH(32)"
    then have n: "n < 32" by simp
    have m: "bit (push_bit 16 (mask 8) :: u32) n \<longleftrightarrow> 16 \<le> n \<and> n < 24" "bit (push_bit 8 (mask 8) :: u32) n \<longleftrightarrow> 8 \<le> n \<and> n < 16"
      using n by (auto simp: bit_push_bit_iff bit_mask_iff)
    show "bit (byte_swap (le32_of_bytes a b c d)) n = bit (le32_of_bytes d c b a) n"
      unfolding byte_swap_def masks bit_or_iff bit_and_iff m bit_drop_bit_eq comp_def bit_push_bit_iff[of _ "le32_of_bytes a b c d"] bit_le32_of_bytes
      using n by (cases "n < 8"; cases "n < 16"; cases "n < 24") (auto simp: bit_mask_iff dest: bit_imp_le_length)
  qed
qed

lemma be_value_le32: "be_value (rev (bytes_of_le32 v)) = unat v"
proof -
  have "unat v = unat (le32_of_bytes (ucast v) (ucast (drop_bit 8 v)) (ucast (drop_bit 16 v)) (ucast (drop_bit 24 v)))"
    by (simp add: le32_of_bytes_of_le32)
  then show ?thesis unfolding unat_le32_of_bytes by (simp add: bytes_of_le32_def)
qed

lemma be_value_limbs: "be_value (rev (concat (map bytes_of_le32 ls))) = limbs_value ls"
  by (induction ls) (simp_all add: be_value_append be_value_le32)

lemma limbs_of_bytes:
  assumes "length inp \<ge> 20"
  shows "limbs_value (map (\<lambda>i. byte_swap (word_at inp (4 - i))) [0..<5]) = be_value (take 20 inp)"
proof -
  have "take 20 inp = map (\<lambda>i. inp ! i) [0..<20]" using assms by (intro nth_equalityI) auto
  also have "[0..<20] = [0, 1, 2, 3, 4, 5, 6, 7, 8, 9, 10, 11, 12, 13, 14, 15, 16, 17, 18, 19]" by code_simp
  also have "map (\<lambda>i. inp ! i) \<dots> = [inp ! 0, inp ! 1, inp ! 2, inp ! 3, inp ! 4, inp ! 5, inp ! 6, inp ! 7, inp ! 8, inp ! 9, inp ! 10, inp ! 11,
      inp ! 12, inp ! 13, inp ! 14, inp ! 15, inp ! 16, inp ! 17, inp ! 18, inp ! 19]"
    by simp
  finally have t: "take 20 inp = [inp ! 0, inp ! 1, inp ! 2, inp ! 3, inp ! 4, inp ! 5, inp ! 6, inp ! 7, inp ! 8, inp ! 9, inp ! 10, inp ! 11,
      inp ! 12, inp ! 13, inp ! 14, inp ! 15, inp ! 16, inp ! 17, inp ! 18, inp ! 19]" .
    have w: "word_at inp 0 = le32_of_bytes (inp ! 0) (inp ! 1) (inp ! 2) (inp ! 3)"
      "word_at inp 1 = le32_of_bytes (inp ! 4) (inp ! 5) (inp ! 6) (inp ! 7)"
      "word_at inp 2 = le32_of_bytes (inp ! 8) (inp ! 9) (inp ! 10) (inp ! 11)"
      "word_at inp 3 = le32_of_bytes (inp ! 12) (inp ! 13) (inp ! 14) (inp ! 15)"
      "word_at inp 4 = le32_of_bytes (inp ! 16) (inp ! 17) (inp ! 18) (inp ! 19)"
      by (simp_all add: word_at_def numeral_2_eq_2)
    have five: "map (\<lambda>i. byte_swap (word_at inp (4 - i))) [0..<5] =
        [byte_swap (word_at inp 4), byte_swap (word_at inp 3), byte_swap (word_at inp 2), byte_swap (word_at inp 1), byte_swap (word_at inp 0)]"
      by (simp add: upt_rec eval_nat_numeral)
  show ?thesis
    unfolding five w byte_swap_le32 t by (simp add: unat_le32_of_bytes)
qed

lemma length_mul_limbs: "length (mul_limbs factor carry xs) = length xs + 1"
  by (induction xs arbitrary: carry) (simp_all add: Let_def)

lemma big_num_mul_value:
  assumes "length inp \<ge> 20"
  shows "be_value (big_num_mul inp factor) = be_value (take 20 inp) * unat factor \<and> length (big_num_mul inp factor) = 24"
proof -
  define ls where "ls = mul_limbs factor 0 (map (\<lambda>i. byte_swap (word_at inp (4 - i))) [0..<5])"
  have "length ls = 6" by (simp add: ls_def length_mul_limbs)
  then have len: "length (concat (map bytes_of_le32 ls)) = 24"
    by (simp add: length_concat comp_def sum_list_triv)
  have "big_num_mul inp factor = rev (concat (map bytes_of_le32 ls))"
    using exchange_rev[OF len] by (simp add: big_num_mul_def ls_def Let_def)
  then show ?thesis using len mul_limbs_value[of factor 0] limbs_of_bytes[OF assms] be_value_limbs[of ls]
    by (simp add: ls_def)
qed

definition nibbles_value :: "nat list \<Rightarrow> nat" where
  "nibbles_value hs = foldl (\<lambda>v h. 16 * v + h) 0 hs"

definition nibbles_of :: "u8 \<Rightarrow> nat list" where
  "nibbles_of b = [unat (drop_bit 4 b), unat (b AND 0x0F)]"

lemma nibbles_of_bound: "\<forall>h \<in> set (nibbles_of b). h < 16" and nibbles_of_value: "unat b = 16 * unat (drop_bit 4 b) + unat (b AND 0x0F)"
proof -
  have m: "unat (b AND 0x0F) = unat b mod 16"
  proof -
    have "(0x0F :: u8) = mask 4" by (simp add: mask_eq_exp_minus_1)
    then show ?thesis by (simp only: take_bit_eq_mask[symmetric] unsigned_take_bit_eq) (simp add: take_bit_eq_mod)
  qed
  have d: "unat (drop_bit 4 b) = unat b div 16" by (simp add: unat_drop_bit_div)
  have "unat b < 256" using unat_u8_lt[of b] by simp
  then show "\<forall>h \<in> set (nibbles_of b). h < 16" by (simp add: nibbles_of_def m d less_mult_imp_div_less)
  show "unat b = 16 * unat (drop_bit 4 b) + unat (b AND 0x0F)" by (simp add: m d)
qed

lemma be_value_nibbles: "be_value bs = nibbles_value (concat (map nibbles_of bs))"
proof (induction bs rule: rev_induct)
  case (snoc b bs)
  show ?case using snoc nibbles_of_value[of b]
    by (simp add: be_value_append nibbles_value_def nibbles_of_def)
qed (simp add: nibbles_value_def)

lemma fold_put_half: "fold put_half hs (nz, buf) =
    (nz \<or> (\<exists>h \<in> set hs. h \<noteq> 0), buf @ map hex_digit (if nz then hs else dropWhile (\<lambda>h. h = 0) hs))"
  by (induction hs arbitrary: nz buf) (auto simp: put_half_def)

lemma fold_put_byte: "fold put_byte bs p = fold put_half (concat (map nibbles_of bs)) p"
  by (induction bs arbitrary: p) (simp_all add: put_byte_def nibbles_of_def)

lemma hexadecimal_step: "hexadecimal n = (if n < 16 then [hex_digit n] else hexadecimal (n div 16) @ [hex_digit (n mod 16)])"
  by (simp add: hexadecimal_def hex_rev.simps[of n])

lemma nibbles_value_zero: "nibbles_value hs = 0 \<longleftrightarrow> (\<forall>h \<in> set hs. h = 0)"
  by (induction hs rule: rev_induct) (auto simp: nibbles_value_def)

lemma hexadecimal_nibbles:
  assumes "\<forall>h \<in> set hs. h < 16" "nibbles_value hs \<noteq> 0"
  shows "hexadecimal (nibbles_value hs) = map hex_digit (dropWhile (\<lambda>h. h = 0) hs)"
  using assms
proof (induction hs rule: rev_induct)
  case (snoc h hs)
  have v: "nibbles_value (hs @ [h]) = 16 * nibbles_value hs + h" by (simp add: nibbles_value_def)
  show ?case
  proof (cases "nibbles_value hs = 0")
    case True
    then have "\<forall>g \<in> set hs. g = 0" by (simp add: nibbles_value_zero)
    then have "dropWhile (\<lambda>h. h = 0) (hs @ [h]) = dropWhile (\<lambda>h. h = 0) [h]" by (simp add: dropWhile_append2)
    then show ?thesis using True snoc.prems v by (simp add: hexadecimal_step[of h])
  next
    case False
    then have "\<exists>g \<in> set hs. g \<noteq> 0" by (simp add: nibbles_value_zero)
    then have d: "dropWhile (\<lambda>h. h = 0) (hs @ [h]) = dropWhile (\<lambda>h. h = 0) hs @ [h]"
      by (metis (full_types) dropWhile_append1)
    have "(16 * nibbles_value hs + h) div 16 = nibbles_value hs" "(16 * nibbles_value hs + h) mod 16 = h"
      "\<not> 16 * nibbles_value hs + h < 16"
      using snoc.prems(1) False by auto
    then show ?thesis using snoc.IH snoc.prems(1) False unfolding v hexadecimal_step[of "16 * nibbles_value hs + h"] by (simp add: d)
  qed
qed (simp add: nibbles_value_def)

lemma alphanum_nonzero: "r < 36 \<Longrightarrow> 48 \<le> (of_char (alphanum ! r) :: nat) \<and> (of_char (alphanum ! r) :: nat) \<le> 90"
proof -
  have all: "\<forall>c \<in> set alphanum. 48 \<le> (of_char c :: nat) \<and> (of_char c :: nat) \<le> 90" by (simp add: alphanum_def of_char_def)
  assume "r < 36"
  moreover have "length alphanum = 36" by (simp add: alphanum_def)
  ultimately show ?thesis using all by simp
qed

text \<open>The twenty random characters the factor multiplies, as the bytes of one number.\<close>

definition serial_seed :: "nat list \<Rightarrow> u8 list" where
  "serial_seed rands = take 20 (map (\<lambda>r. of_nat (of_char (alphanum ! (r mod 36)))) rands)"

lemma serial_seed_pos:
  assumes "length rands = 24"
  shows "be_value (serial_seed rands) \<noteq> 0"
proof -
  obtain r rs where r: "rands = r # rs" using assms by (cases rands) auto
  have "(of_char (alphanum ! (r mod 36)) :: nat) < 256" using alphanum_nonzero[of "r mod 36"] by simp
  then have "unat (of_nat (of_char (alphanum ! (r mod 36))) :: u8) = of_char (alphanum ! (r mod 36))"
    by (simp add: unat_of_nat take_bit_nat_eq_self)
  then show ?thesis using alphanum_nonzero[of "r mod 36"] by (simp add: r serial_seed_def)
qed

lemma gen_gpci_value:
  assumes "length rands = 24" "factor \<noteq> 0"
  shows "gen_gpci rands factor = (hexadecimal (be_value (serial_seed rands) * unat factor),
      length (hexadecimal (be_value (serial_seed rands) * unat factor)))"
    and "length (fst (gen_gpci rands factor)) \<le> 48"
proof -
  define inp :: "u8 list" where "inp = map (\<lambda>r. of_nat (of_char (alphanum ! (r mod 36)))) rands"
  have len: "length inp = 24" using assms by (simp add: inp_def)
  define out where "out = big_num_mul inp factor"
  have v: "be_value out = be_value (serial_seed rands) * unat factor" "length out = 24"
    using big_num_mul_value[of inp factor] len by (simp_all add: out_def serial_seed_def inp_def)
  have nz: "be_value out \<noteq> 0" using serial_seed_pos[OF assms(1)] assms(2) by (simp add: v unat_eq_0)
  let ?hs = "concat (map nibbles_of out)"
  have b: "\<forall>h \<in> set ?hs. h < 16" using nibbles_of_bound by fastforce
  have g: "gen_gpci rands factor = (map hex_digit (dropWhile (\<lambda>h. h = 0) ?hs), length (map hex_digit (dropWhile (\<lambda>h. h = 0) ?hs)))"
    using assms by (simp add: gen_gpci_def Let_def fold_put_byte fold_put_half out_def inp_def)
  then show "gen_gpci rands factor = (hexadecimal (be_value (serial_seed rands) * unat factor),
      length (hexadecimal (be_value (serial_seed rands) * unat factor)))"
    using hexadecimal_nibbles[OF b] nz by (simp add: be_value_nibbles[symmetric] v)
  have "length ?hs = 48" using v(2) by (simp add: length_concat comp_def nibbles_of_def sum_list_triv)
  then show "length (fst (gen_gpci rands factor)) \<le> 48" using length_dropWhile_le[of "\<lambda>h. h = 0" ?hs] by (simp add: g)
qed

text \<open>C5: The serial number is the hexadecimal text of a product: for any twenty-four values of \<^verbatim>\<open>rand\<close> and any factor but
  zero, the limbs, the byte swaps and the exchanges of \<^verbatim>\<open>big_num_mul\<close> and the digits of \<^verbatim>\<open>gen_gpci\<close> give the shortest
  upper-case hexadecimal text of the first twenty characters, as one number, times the factor; it has at most 48
  characters, within the 64 of its array.\<close>

theorem gpci_is_product:
  assumes "length rands = 24" "factor \<noteq> 0"
  shows "fst (gen_gpci rands factor) = hexadecimal (be_value (serial_seed rands) * unat factor) \<and>
    snd (gen_gpci rands factor) = length (fst (gen_gpci rands factor)) \<and> length (fst (gen_gpci rands factor)) \<le> 48"
  using gen_gpci_value[OF assms] by simp

lemma gpci_is_product_witness:
  "fst (gen_gpci (replicate 24 0) kGpciFactor) = hexadecimal (be_value (serial_seed (replicate 24 0)) * 1001) \<and>
    length (fst (gen_gpci (replicate 24 0) kGpciFactor)) \<le> 48"
proof -
  have "unat kGpciFactor = 1001" "kGpciFactor \<noteq> 0" by (simp_all add: kGpciFactor_def)
  then show ?thesis using gpci_is_product[OF length_replicate, of kGpciFactor 0] by metis
qed

section \<open>The network pump\<close>

text \<open>The defaults of a profile.\<close>

definition kDefaultNetgameVersion :: u32 where "kDefaultNetgameVersion = 4057"
definition kDefaultModByte :: u8 where "kDefaultModByte = 1"
definition kDefaultClientVersion :: string where "kDefaultClientVersion = ''0.3.7''"
definition kPacketIdInvalid :: u8 where "kPacketIdInvalid = 0xFF"

record samp_raknet_join_profile =
  nickname :: string
  client_version :: string
  netgame_version :: u32
  mod_byte :: u8

text \<open>The fields of the join message, in the order they are written; each text goes out behind its length.\<close>

record join_message =
  jm_netgame_version :: u32
  jm_mod_byte :: u8
  jm_nickname :: string
  jm_challenge_response :: u32
  jm_auth :: string
  jm_client_version :: string

datatype pump_out = AuthKey u8 string | ClientJoin join_message | Rpc out_rpc

text \<open>What RakNet and the generated table give: packet numbers, the width of a time stamp, the readers, the answers.\<close>

record 'b pump_env =
  stream :: "'b bitstream"
  after_string :: "'b \<Rightarrow> 'b"
  vectors :: "'b sync_reads"
  floats :: float_ops
  ID_TIMESTAMP :: u8
  ID_AUTH_KEY :: u8
  ID_CONNECTION_REQUEST_ACCEPTED :: u8
  ID_DISCONNECTION_NOTIFICATION :: u8
  ID_CONNECTION_LOST :: u8
  time_bytes :: nat
  auth_response :: "string \<Rightarrow> string option"

text \<open>
  One round of the pump: the RPCs whose handlers \<^verbatim>\<open>Receive\<close> runs, with their numbers and payloads, the packet it
  returns, the random numbers a join would draw, the results of the sends, and the environment of the service call.
\<close>

record round =
  delivered :: "(nat \<times> u8 list) list"
  received :: "u8 list option"
  rands :: "nat list"
  sends :: "pump_out \<Rightarrow> bool"
  env :: service_env

record pump =
  p_session :: session
  p_players :: player_net
  p_drained :: nat
  p_join_sent :: bool
  p_last_packet_id :: int
  p_out :: "(pump_out \<times> bool) list"

definition get_packet_id :: "'b pump_env \<Rightarrow> u8 list \<Rightarrow> u8" where
  "get_packet_id P data =
     (if data = [] then kPacketIdInvalid
      else if data ! 0 = ID_TIMESTAMP P then
        let timestamp_prefix = time_bytes P + 1
        in if length data \<le> timestamp_prefix then kPacketIdInvalid else data ! timestamp_prefix
      else data ! 0)"

definition packet_resets_session_state :: "'b pump_env \<Rightarrow> u8 \<Rightarrow> bool" where
  "packet_resets_session_state P i \<longleftrightarrow> i = ID_DISCONNECTION_NOTIFICATION P \<or> i = ID_CONNECTION_LOST P"

text \<open>A missing or empty text is replaced by the fallback; both are cut to the array.\<close>

definition copy_profile_string :: "string option \<Rightarrow> nat \<Rightarrow> string option \<Rightarrow> string" where
  "copy_profile_string inp output_size fallback =
     (if inp \<noteq> None \<and> inp \<noteq> Some [] then copy_text output_size (the inp)
      else if fallback \<noteq> None \<and> fallback \<noteq> Some [] then copy_text output_size (the fallback)
      else [])"

definition find_auth_response :: "'b pump_env \<Rightarrow> string \<Rightarrow> string option" where
  "find_auth_response P challenge = (if challenge = [] then None else auth_response P challenge)"

text \<open>The challenge ends at its first NUL. The length of the answer is a byte, and as many characters are sent.\<close>

definition send_auth_key_response :: "'b pump_env \<Rightarrow> (pump_out \<Rightarrow> bool) \<Rightarrow> u8 list \<Rightarrow> bool \<times> (pump_out \<times> bool) list" where
  "send_auth_key_response P send data =
     (if length data \<le> 2 then (False, [])
      else let challenge_len = data ! 1
           in if challenge_len = 0 \<or> unat challenge_len \<ge> 128 then (False, [])
              else if length data < 2 + unat challenge_len then (False, [])
              else case find_auth_response P (bytes_string (take (unat challenge_len) (drop 2 data))) of
                  None \<Rightarrow> (False, [])
                | Some response \<Rightarrow>
                    let response_len = of_nat (length response);
                        m = AuthKey response_len (take (unat response_len) response)
                    in (send m, [(m, send m)]))"

text \<open>\<^verbatim>\<open>IgnoreBits\<close> passes over the packet number, an address and a port; where they are missing the next read fails.\<close>

definition read_accepted :: "'b bitstream \<Rightarrow> u8 list \<Rightarrow> (u16 \<times> u32) option" where
  "read_accepted B data = do {
     (_, b) \<leftarrow> bs_u8 B (bs_open B data);
     (_, b) \<leftarrow> bs_u32 B b;
     (_, b) \<leftarrow> bs_u16 B b;
     (my_player_id, b) \<leftarrow> bs_u16 B b;
     (server_challenge, b) \<leftarrow> bs_u32 B b;
     Some (my_player_id, server_challenge) }"

definition join_names :: "samp_raknet_join_profile option \<Rightarrow> string \<times> string" where
  "join_names profile = (copy_profile_string (map_option nickname profile) 25 (Some kDefaultNickname),
     copy_profile_string (map_option client_version profile) 16 (Some kDefaultClientVersion))"

definition join_version :: "samp_raknet_join_profile option \<Rightarrow> u32" where
  "join_version profile = (case profile of None \<Rightarrow> kDefaultNetgameVersion
     | Some p \<Rightarrow> if netgame_version p \<noteq> 0 then netgame_version p else kDefaultNetgameVersion)"

definition join_mod_byte :: "samp_raknet_join_profile option \<Rightarrow> u8" where
  "join_mod_byte profile = (case profile of None \<Rightarrow> kDefaultModByte
     | Some p \<Rightarrow> if mod_byte p \<noteq> 0 then mod_byte p else kDefaultModByte)"

definition send_client_join ::
  "'b pump_env \<Rightarrow> round \<Rightarrow> samp_raknet_join_profile option \<Rightarrow> u8 list \<Rightarrow> session \<Rightarrow> bool \<times> session \<times> (pump_out \<times> bool) list" where
  "send_client_join P r profile data s =
     (if data = [] then (False, s, [])
      else let nick = fst (join_names profile);
               s = s\<lparr>local_nickname := copy_text 25 nick\<rparr>;
               auth = (if snd (gen_gpci (rands r) kGpciFactor) = 0 then ''0'' else fst (gen_gpci (rands r) kGpciFactor))
           in case read_accepted (stream P) data of
               None \<Rightarrow> (False, s, [])
             | Some (my_player_id, server_challenge) \<Rightarrow>
                 let s = (if unat my_player_id < SAMP_RAKNET_MAX_PLAYERS
                          then s\<lparr>auth_local_player_id := my_player_id, auth_local_player_id_valid := True\<rparr> else s);
                     m = ClientJoin \<lparr>jm_netgame_version = join_version profile, jm_mod_byte = join_mod_byte profile,
                       jm_nickname = nick, jm_challenge_response = server_challenge XOR join_version profile,
                       jm_auth = auth, jm_client_version = snd (join_names profile)\<rparr>
                 in (sends r m, s, [(m, sends r m)]))"

text \<open>The handlers of the RPCs that the session and the players keep; a change of game mode resets both.\<close>

definition session_rpc :: "nat \<Rightarrow> u8 list \<Rightarrow> session_event option" where
  "session_rpc rpc_id data =
     (if rpc_id = 40 then Some GameModeRestart
      else if rpc_id = 139 then Some (InitGame data)
      else if rpc_id = 128 then Some (ClassReply data)
      else if rpc_id = 129 then Some (SpawnReply data)
      else if rpc_id = 68 then Some (SpawnInfo data)
      else if rpc_id = 61 then Some (DialogBox data)
      else None)"

definition observe_rpc :: "'b pump_env \<Rightarrow> nat \<times> u8 list \<Rightarrow> session \<times> player_net \<Rightarrow> (session \<times> player_net) mem" where
  "observe_rpc P x sw = (case sw of (s, w) \<Rightarrow>
     (case session_rpc (fst x) (snd x) of
        Some e \<Rightarrow> do {
          (s, _) \<leftarrow> session_step (stream P) (after_string P) e s;
          Some (s, if fst x = 40 then reset_player_net else w) }
      | None \<Rightarrow> do {
          w \<leftarrow> observe_player_rpc (stream P) s (fst x) (snd x) w;
          Some (s, w) }))"

fun observe_all :: "'b pump_env \<Rightarrow> (nat \<times> u8 list) list \<Rightarrow> session \<times> player_net \<Rightarrow> (session \<times> player_net) mem" where
  "observe_all P [] sw = Some sw"
| "observe_all P (x # xs) sw = do { sw \<leftarrow> observe_rpc P x sw; observe_all P xs sw }"

text \<open>The answers of the pump itself: to a challenge, and once to the acceptance of the connection.\<close>

definition answer_packet ::
  "'b pump_env \<Rightarrow> bool \<Rightarrow> samp_raknet_join_profile option \<Rightarrow> round \<Rightarrow> u8 list \<Rightarrow> session \<Rightarrow> bool \<Rightarrow>
     session \<times> bool \<times> (pump_out \<times> bool) list" where
  "answer_packet P autojoin profile r data s join_sent =
     (let packet_id = get_packet_id P data
      in if autojoin \<and> packet_id = ID_AUTH_KEY P then (s, join_sent, snd (send_auth_key_response P (sends r) data))
         else if autojoin \<and> \<not> join_sent \<and> packet_id = ID_CONNECTION_REQUEST_ACCEPTED P
         then let (sent, s, out) = send_client_join P r profile data s in (s, sent, out)
         else (s, join_sent, []))"

definition take_sync :: "'b pump_env \<Rightarrow> u8 list \<Rightarrow> player_net \<Rightarrow> player_net mem" where
  "take_sync P data w =
     (if get_packet_id P data = kPacketPlayerSync \<and> data \<noteq> []
      then let sync_offset = (if data ! 0 = ID_TIMESTAMP P then time_bytes P + 1 else 0)
           in if sync_offset \<ge> length data then Some w
              else map_option snd (decode_remote_onfoot_sync_packet (stream P) (vectors P) (floats P) (drop sync_offset data) w)
      else Some w)"

definition pump_packet ::
  "'b pump_env \<Rightarrow> bool \<Rightarrow> samp_raknet_join_profile option \<Rightarrow> nat option \<Rightarrow> round \<Rightarrow> u8 list \<Rightarrow> session \<times> player_net \<Rightarrow>
     pump \<Rightarrow> pump mem" where
  "pump_packet P autojoin profile c r data sw p = do {
     let (s, join_sent, out) = answer_packet P autojoin profile r data (fst sw) (p_join_sent p);
     w \<leftarrow> take_sync P data (snd sw);
     let (s, w, serviced) = (if packet_resets_session_state P (get_packet_id P data)
         then (reset_rpc_probe_runtime c s, reset_player_net, [])
         else let (s, o') = service_rpc_probe_actions (env r) s in (s, w, map (map_prod Rpc id) o'));
     Some \<lparr>p_session = s, p_players = w, p_drained = p_drained p + 1, p_join_sent = join_sent,
       p_last_packet_id = int (unat (get_packet_id P data)), p_out = p_out p @ out @ serviced\<rparr> }"

text \<open>The loop; \<open>n\<close> is \<^verbatim>\<open>max_packets - drained\<close>.\<close>

fun drain_loop ::
  "'b pump_env \<Rightarrow> bool \<Rightarrow> samp_raknet_join_profile option \<Rightarrow> nat option \<Rightarrow> (nat \<Rightarrow> round) \<Rightarrow> nat \<Rightarrow> pump \<Rightarrow> pump mem" where
  "drain_loop P autojoin profile c rounds 0 p = Some p"
| "drain_loop P autojoin profile c rounds (Suc n) p = do {
     let r = rounds (p_drained p);
     sw \<leftarrow> observe_all P (delivered r) (p_session p, p_players p);
     (case received r of
        None \<Rightarrow> let (s, out) = service_rpc_probe_actions (env r) (fst sw)
                in Some (p\<lparr>p_session := s, p_players := snd sw, p_out := p_out p @ map (map_prod Rpc id) out\<rparr>)
      | Some data \<Rightarrow> do {
          p \<leftarrow> pump_packet P autojoin profile c r data sw p;
          drain_loop P autojoin profile c rounds n p }) }"

definition pump_start :: "session \<Rightarrow> player_net \<Rightarrow> pump" where
  "pump_start s w = \<lparr>p_session = s, p_players = w, p_drained = 0, p_join_sent = False, p_last_packet_id = - 1, p_out = []\<rparr>"

text \<open>The result is the count of packets, or -1 for bad arguments, which change nothing.\<close>

definition drain_packets_internal ::
  "'b pump_env \<Rightarrow> nat option \<Rightarrow> int \<Rightarrow> samp_raknet_join_profile option \<Rightarrow> bool \<Rightarrow> (nat \<Rightarrow> round) \<Rightarrow> session \<Rightarrow> player_net \<Rightarrow>
     (int \<times> pump) mem" where
  "drain_packets_internal P c max_packets profile autojoin rounds s w =
     (if c = None \<or> max_packets < 0 then Some (- 1, pump_start s w)
      else map_option (\<lambda>p. (int (p_drained p), p))
        (drain_loop P autojoin profile c rounds (nat max_packets) (pump_start s w)))"

definition adapter_drain_packets ::
  "'b pump_env \<Rightarrow> nat option \<Rightarrow> int \<Rightarrow> (nat \<Rightarrow> round) \<Rightarrow> session \<Rightarrow> player_net \<Rightarrow> (int \<times> pump) mem" where
  "adapter_drain_packets P c max_packets rounds s w = drain_packets_internal P c max_packets None False rounds s w"

definition adapter_drain_packets_autojoin ::
  "'b pump_env \<Rightarrow> nat option \<Rightarrow> int \<Rightarrow> samp_raknet_join_profile option \<Rightarrow> (nat \<Rightarrow> round) \<Rightarrow> session \<Rightarrow> player_net \<Rightarrow>
     (int \<times> pump) mem" where
  "adapter_drain_packets_autojoin P c max_packets profile rounds s w =
     drain_packets_internal P c max_packets profile True rounds s w"

text \<open>A client is created, connected and destroyed.\<close>

definition adapter_client_create :: "nat option \<Rightarrow> session \<times> player_net \<Rightarrow> int \<times> nat option \<times> session \<times> player_net" where
  "adapter_client_create made sw =
     (case made of None \<Rightarrow> (- 1, None, sw)
      | Some c \<Rightarrow> (0, Some c, reset_rpc_probe_runtime (Some c) (fst sw), reset_player_net))"

definition adapter_client_connect ::
  "bool \<Rightarrow> nat option \<Rightarrow> string option \<Rightarrow> session \<times> player_net \<Rightarrow> int \<times> session \<times> player_net" where
  "adapter_client_connect connects c server sw =
     (if c = None \<or> server = None \<or> server = Some [] then (- 1, sw)
      else (if connects then 0 else - 1, reset_rpc_probe_runtime c (fst sw), reset_player_net))"

section \<open>The pump returns\<close>

definition state_ok :: "session \<times> player_net \<Rightarrow> bool" where
  "state_ok sw \<longleftrightarrow> session_ok (fst sw) \<and> players_ok (snd sw)"

text \<open>What the pump relies on from the library: the readers and the arithmetic.\<close>

definition pump_env_ok :: "'b pump_env \<Rightarrow> bool" where
  "pump_env_ok P \<longleftrightarrow> bitstream_ok (stream P) \<and> turn_arith (floats P) \<and> turn_range (floats P)"

lemma observe_rpc_ok:
  assumes "pump_env_ok P" "state_ok sw"
  shows "\<exists>sw'. observe_rpc P x sw = Some sw' \<and> state_ok sw'"
proof (cases "session_rpc (fst x) (snd x)")
  case None
  obtain w' where "observe_player_rpc (stream P) (fst sw) (fst x) (snd x) (snd sw) = Some w'" "players_ok w'"
    using observe_player_rpc_ok assms(2) unfolding state_ok_def by blast
  then show ?thesis using None assms(2) by (cases sw) (auto simp: observe_rpc_def state_ok_def)
next
  case (Some e)
  obtain s' out where "session_step (stream P) (after_string P) e (fst sw) = Some (s', out)" "session_ok s'"
    using session_ok_step assms unfolding state_ok_def pump_env_ok_def by blast
  then show ?thesis using Some assms(2) by (cases sw) (auto simp: observe_rpc_def state_ok_def players_ok_reset)
qed

lemma observe_all_ok:
  assumes "pump_env_ok P" "state_ok sw"
  shows "\<exists>sw'. observe_all P xs sw = Some sw' \<and> state_ok sw'"
  using assms(2)
proof (induction xs arbitrary: sw)
  case (Cons x xs)
  obtain sw' where "observe_rpc P x sw = Some sw'" "state_ok sw'" using observe_rpc_ok[OF assms(1) Cons.prems] by blast
  with Cons.IH[of sw'] show ?case by auto
qed simp

lemma answer_packet_ok: "answer_packet P autojoin profile r data s j = (s', j', out) \<Longrightarrow> session_ok s \<Longrightarrow> session_ok s'"
  by (auto simp: answer_packet_def send_client_join_def session_ok_def Let_def split: if_splits option.splits prod.splits)

lemma take_sync_ok:
  assumes "pump_env_ok P" "players_ok w"
  shows "\<exists>w'. take_sync P data w = Some w' \<and> players_ok w'"
proof -
  have "\<exists>w'. map_option snd (decode_remote_onfoot_sync_packet (stream P) (vectors P) (floats P) xs w) = Some w' \<and> players_ok w'" for xs
    using onfoot_sync_decoded[of "floats P" w "stream P" "vectors P" xs] assms unfolding pump_env_ok_def by auto
  then show ?thesis using assms(2) by (simp add: take_sync_def Let_def)
qed

lemma pump_packet_ok:
  assumes "pump_env_ok P" "state_ok sw"
  shows "\<exists>p'. pump_packet P autojoin profile c r data sw p = Some p' \<and> state_ok (p_session p', p_players p') \<and>
    p_drained p' = p_drained p + 1"
proof -
  obtain s j out where a: "answer_packet P autojoin profile r data (fst sw) (p_join_sent p) = (s, j, out)" by (metis prod_cases3)
  have s: "session_ok s" using answer_packet_ok[OF a] assms(2) by (simp add: state_ok_def)
  obtain w where w: "take_sync P data (snd sw) = Some w" "players_ok w"
    using take_sync_ok[OF assms(1)] assms(2) unfolding state_ok_def by blast
  obtain t o' where v: "service_rpc_probe_actions (env r) s = (t, o')" by fastforce
  have "session_ok t" using session_ok_service[OF v s] .
  then show ?thesis using w by (simp add: pump_packet_def a v state_ok_def session_ok_reset players_ok_reset)
qed

lemma drain_loop_ok:
  assumes "pump_env_ok P" "state_ok (p_session p, p_players p)"
  shows "\<exists>p'. drain_loop P autojoin profile c rounds n p = Some p' \<and> state_ok (p_session p', p_players p') \<and>
    p_drained p \<le> p_drained p' \<and> p_drained p' \<le> p_drained p + n \<and>
    (p_drained p' < p_drained p + n \<longrightarrow> received (rounds (p_drained p')) = None)"
  using assms(2)
proof (induction n arbitrary: p)
  case (Suc n)
  define r where "r = rounds (p_drained p)"
  obtain sw where sw: "observe_all P (delivered r) (p_session p, p_players p) = Some sw" "state_ok sw"
    using observe_all_ok[OF assms(1) Suc.prems] by blast
  show ?case
  proof (cases "received r")
    case None
    obtain t o' where v: "service_rpc_probe_actions (env r) (fst sw) = (t, o')" by fastforce
    have "session_ok t" using session_ok_service[OF v] sw(2) by (simp add: state_ok_def)
    then show ?thesis using None sw v by (simp add: r_def[symmetric] state_ok_def)
  next
    case (Some data)
    obtain q where q: "pump_packet P autojoin profile c r data sw p = Some q" "state_ok (p_session q, p_players q)"
      "p_drained q = p_drained p + 1"
      using pump_packet_ok[OF assms(1) sw(2)] by blast
    from Suc.IH[OF q(2)] show ?thesis using Some sw(1) q by (auto simp: r_def[symmetric])
  qed
qed simp

text \<open>C4: The pump always returns: for any client, any limit, any RPCs and packets of any content, in any number, it handles at
  most the limit, returns how many it handled (-1, and nothing changed, for a missing client or a negative limit), stops
  short of the limit only where no packet was left, and leaves the session and the players well formed.\<close>

theorem pump_returns:
  assumes "pump_env_ok P" "session_ok s" "players_ok w"
  shows "\<exists>n p. drain_packets_internal P c limit profile autojoin rounds s w = Some (n, p) \<and>
    session_ok (p_session p) \<and> players_ok (p_players p) \<and>
    (if c = None \<or> limit < 0 then n = - 1 \<and> p = pump_start s w
     else 0 \<le> n \<and> n \<le> limit \<and> (n < limit \<longrightarrow> received (rounds (nat n)) = None))"
proof (cases "c = None \<or> limit < 0")
  case False
  have "state_ok (p_session (pump_start s w), p_players (pump_start s w))" using assms(2,3) by (simp add: state_ok_def pump_start_def)
  from drain_loop_ok[OF assms(1) this, of autojoin profile c rounds "nat limit"] obtain p where
    "drain_loop P autojoin profile c rounds (nat limit) (pump_start s w) = Some p" "state_ok (p_session p, p_players p)"
    "p_drained p \<le> nat limit" "p_drained p < nat limit \<longrightarrow> received (rounds (p_drained p)) = None"
    by (auto simp: pump_start_def)
  then show ?thesis using False by (auto simp: drain_packets_internal_def state_ok_def)
qed (use assms in \<open>simp add: drain_packets_internal_def pump_start_def\<close>)

definition test_env :: "bits pump_env" where
  "test_env = \<lparr>stream = bit_list_stream, after_string = id, vectors = \<lparr>vec_read = (\<lambda>s. None), quat_read = (\<lambda>s. None)\<rparr>,
     floats = flat_floats, ID_TIMESTAMP = 40, ID_AUTH_KEY = 12, ID_CONNECTION_REQUEST_ACCEPTED = 34,
     ID_DISCONNECTION_NOTIFICATION = 32, ID_CONNECTION_LOST = 33, time_bytes = 4, auth_response = (\<lambda>c. Some c)\<rparr>"

lemma test_env_ok: "pump_env_ok test_env"
proof -
  have zero: "f32_scaled 0 = 0" by (simp add: f32_scaled_def f32_exponent_def)
  have "turn_arith flat_floats" by (simp add: turn_arith_def flat_floats_def zero)
  moreover have "turn_range flat_floats" by (simp add: turn_range_def flat_floats_def zero f32_within_def)
  ultimately show ?thesis by (simp add: pump_env_ok_def test_env_def bit_list_stream_ok)
qed

lemma pump_returns_witness:
  "\<exists>n p. drain_packets_internal test_env (Some 1) 3 None True
      (\<lambda>k. \<lparr>delivered = [(139, [])], received = (if k = 0 then Some [34] else None), rands = replicate 24 0,
        sends = (\<lambda>m. True), env = quiet_env\<rparr>)
      (reset_rpc_probe_runtime (Some 1) session_start) reset_player_net = Some (n, p) \<and> session_ok (p_session p) \<and> n \<le> 3"
  using pump_returns[OF test_env_ok session_ok_reset players_ok_reset,
      of "Some 1" 3 None True
      "\<lambda>k. \<lparr>delivered = [(139, [])], received = (if k = 0 then Some [34] else None), rands = replicate 24 0,
        sends = (\<lambda>m. True), env = quiet_env\<rparr>" "Some 1" session_start]
  by auto

section \<open>One join, and it answers the challenge\<close>

definition joins :: "(pump_out \<times> bool) list \<Rightarrow> nat" where
  "joins out = length (filter (\<lambda>x. snd x \<and> (case fst x of ClientJoin m \<Rightarrow> True | _ \<Rightarrow> False)) out)"

lemma joins_append [simp]: "joins (xs @ ys) = joins xs + joins ys"
  by (simp add: joins_def)

lemma joins_rpc [simp]: "joins (map (map_prod Rpc id) out) = 0"
  by (simp add: joins_def)

lemma answers_not_rpc [simp]: "(ClientJoin m, ok) \<notin> map_prod Rpc id ` X" "(AuthKey n t, ok) \<notin> map_prod Rpc id ` X"
  by auto

text \<open>What a join message says to the packet that accepted the connection.\<close>

definition join_answers :: "'b pump_env \<Rightarrow> samp_raknet_join_profile option \<Rightarrow> round \<Rightarrow> join_message \<Rightarrow> bool" where
  "join_answers P profile r m \<longleftrightarrow> (\<exists>data. received r = Some data \<and> get_packet_id P data = ID_CONNECTION_REQUEST_ACCEPTED P \<and>
     (\<exists>i. read_accepted (stream P) data = Some (i, jm_challenge_response m XOR jm_netgame_version m)) \<and>
     jm_nickname m = fst (join_names profile) \<and> jm_auth m = fst (gen_gpci (rands r) kGpciFactor))"

definition auth_answers :: "'b pump_env \<Rightarrow> round \<Rightarrow> u8 \<Rightarrow> string \<Rightarrow> bool" where
  "auth_answers P r n t \<longleftrightarrow> (\<exists>data response. received r = Some data \<and> get_packet_id P data = ID_AUTH_KEY P \<and>
     2 + unat (data ! 1) \<le> length data \<and> 0 < unat (data ! 1) \<and> unat (data ! 1) < 128 \<and>
     auth_response P (bytes_string (take (unat (data ! 1)) (drop 2 data))) = Some response \<and>
     n = of_nat (length response) \<and> t = take (unat n) response)"

lemma xor_back: "(a XOR b) XOR b = (a :: u32)"
  by (simp add: xor.assoc)

lemma gen_gpci_some: "length rs = 24 \<Longrightarrow> snd (gen_gpci rs kGpciFactor) \<noteq> 0"
  using gen_gpci_value(1)[of rs kGpciFactor] hexadecimal_step by (auto simp: kGpciFactor_def)

lemma send_client_join_answers:
  assumes "send_client_join P r profile data s = (j, s', out)" "length (rands r) = 24" "received r = Some data"
    "get_packet_id P data = ID_CONNECTION_REQUEST_ACCEPTED P"
  shows "joins out = of_bool j \<and> (\<forall>m ok. (ClientJoin m, ok) \<in> set out \<longrightarrow> join_answers P profile r m) \<and> (\<forall>n t ok. (AuthKey n t, ok) \<notin> set out)"
proof (cases "data = [] \<or> read_accepted (stream P) data = None")
  case True
  then have "out = [] \<and> \<not> j"
    using assms(1) by (cases "data = []") (simp_all add: send_client_join_def Let_def)
  then show ?thesis by (simp add: joins_def)
next
  case False
  then obtain i ch where ch: "read_accepted (stream P) data = Some (i, ch)" by fastforce
  have "snd (gen_gpci (rands r) kGpciFactor) \<noteq> 0" by (rule gen_gpci_some[OF assms(2)])
  then show ?thesis using assms False ch
    by (auto simp: send_client_join_def Let_def joins_def join_answers_def xor_back)
qed

lemma send_auth_key_answers:
  assumes "received r = Some data" "get_packet_id P data = ID_AUTH_KEY P"
    "x \<in> set (snd (send_auth_key_response P send data))"
  shows "\<exists>n t ok. x = (AuthKey n t, ok) \<and> auth_answers P r n t"
proof -
  let ?c = "bytes_string (take (unat (data ! 1)) (drop 2 data))"
  have g: "\<not> length data \<le> 2" "data ! 1 \<noteq> 0" "\<not> unat (data ! 1) \<ge> 128" "\<not> length data < 2 + unat (data ! 1)" "find_auth_response P ?c \<noteq> None"
    using assms(3) by (auto simp: send_auth_key_response_def Let_def split: if_splits option.splits)
  then obtain response where "find_auth_response P ?c = Some response" by auto
  then show ?thesis using assms g
    by (auto simp: send_auth_key_response_def auth_answers_def find_auth_response_def Let_def unat_gt_0 split: if_splits)
qed

definition answers_only :: "'b pump_env \<Rightarrow> bool \<Rightarrow> samp_raknet_join_profile option \<Rightarrow> round \<Rightarrow> (pump_out \<times> bool) list \<Rightarrow> bool" where
  "answers_only P autojoin profile r out \<longleftrightarrow>
     (\<forall>m ok. (ClientJoin m, ok) \<in> set out \<longrightarrow> autojoin \<and> join_answers P profile r m) \<and>
     (\<forall>n t ok. (AuthKey n t, ok) \<in> set out \<longrightarrow> autojoin \<and> auth_answers P r n t)"

lemma answer_packet_answers:
  assumes "answer_packet P autojoin profile r data s j = (s', j', out)" "received r = Some data" "length (rands r) = 24"
  shows "of_bool j + joins out = of_bool j' \<and> answers_only P autojoin profile r out"
proof -
  consider (auth) "autojoin" "get_packet_id P data = ID_AUTH_KEY P"
    | (join) "autojoin" "\<not> j" "get_packet_id P data \<noteq> ID_AUTH_KEY P" "get_packet_id P data = ID_CONNECTION_REQUEST_ACCEPTED P"
    | (other) "out = []" "j' = j"
    using assms(1) by (auto simp: answer_packet_def Let_def split: if_splits)
  then show ?thesis
  proof cases
    case auth
    then have o: "out = snd (send_auth_key_response P (sends r) data)" "j' = j" using assms(1) by (auto simp: answer_packet_def)
    then have "\<forall>x \<in> set out. \<exists>n t ok. x = (AuthKey n t, ok) \<and> auth_answers P r n t"
      using send_auth_key_answers[OF assms(2) auth(2)] by blast
    then have "joins out = 0" "answers_only P autojoin profile r out"
      using auth(1) by (fastforce simp: joins_def filter_empty_conv, fastforce simp: answers_only_def)
    then show ?thesis using o(2) by simp
  next
    case join
    then have "send_client_join P r profile data s = (j', s', out)"
      using assms(1) by (auto simp: answer_packet_def split: prod.splits)
    from send_client_join_answers[OF this assms(3,2) join(4)] join show ?thesis by (simp add: answers_only_def)
  qed (simp add: joins_def answers_only_def)
qed

definition all_answer :: "'b pump_env \<Rightarrow> bool \<Rightarrow> samp_raknet_join_profile option \<Rightarrow> (nat \<Rightarrow> round) \<Rightarrow> pump \<Rightarrow> bool" where
  "all_answer P autojoin profile rounds p \<longleftrightarrow>
     (\<forall>m ok. (ClientJoin m, ok) \<in> set (p_out p) \<longrightarrow> autojoin \<and> (\<exists>k < p_drained p. join_answers P profile (rounds k) m)) \<and>
     (\<forall>n t ok. (AuthKey n t, ok) \<in> set (p_out p) \<longrightarrow> autojoin \<and> (\<exists>k < p_drained p. auth_answers P (rounds k) n t)) \<and>
     joins (p_out p) = of_bool (p_join_sent p)"

lemma pump_packet_answers:
  assumes "pump_packet P autojoin profile c r data sw p = Some q" "received r = Some data" "length (rands r) = 24"
  shows "\<exists>out serviced. p_out q = p_out p @ out @ map (map_prod Rpc id) serviced \<and> p_drained q = p_drained p + 1 \<and>
    of_bool (p_join_sent p) + joins out = of_bool (p_join_sent q) \<and> answers_only P autojoin profile r out"
proof -
  obtain s j out where a: "answer_packet P autojoin profile r data (fst sw) (p_join_sent p) = (s, j, out)" by (metis prod_cases3)
  obtain t o' where v: "service_rpc_probe_actions (env r) s = (t, o')" by fastforce
  define serviced where "serviced = (if packet_resets_session_state P (get_packet_id P data) then [] else o')"
  have "p_out q = p_out p @ out @ map (map_prod Rpc id) serviced" "p_drained q = p_drained p + 1" "p_join_sent q = j"
    using assms(1) by (auto simp: pump_packet_def a v serviced_def bind_Some_iff split: if_splits)
  then show ?thesis using answer_packet_answers[OF a assms(2,3)] by blast
qed

lemma all_answer_packet:
  assumes "pump_packet P autojoin profile c (rounds (p_drained p)) data sw p = Some q"
    "received (rounds (p_drained p)) = Some data" "length (rands (rounds (p_drained p))) = 24" "all_answer P autojoin profile rounds p"
  shows "all_answer P autojoin profile rounds q"
proof -
  obtain out serviced where q: "p_out q = p_out p @ out @ map (map_prod Rpc id) serviced" "p_drained q = p_drained p + 1"
    "of_bool (p_join_sent p) + joins out = of_bool (p_join_sent q)" "answers_only P autojoin profile (rounds (p_drained p)) out"
    using pump_packet_answers[OF assms(1-3)] by blast
  have "joins (p_out q) = of_bool (p_join_sent q)" using q(1,3) assms(4) by (simp add: all_answer_def)
  moreover have "autojoin \<and> (\<exists>k < p_drained q. join_answers P profile (rounds k) m)" if "(ClientJoin m, ok) \<in> set (p_out q)" for m ok
  proof -
    from that consider "(ClientJoin m, ok) \<in> set (p_out p)" | "(ClientJoin m, ok) \<in> set out" using q(1) by auto
    then show ?thesis
    proof cases
      case 1
      then have "autojoin \<and> (\<exists>k < p_drained p. join_answers P profile (rounds k) m)" using assms(4) unfolding all_answer_def by blast
      then show ?thesis using q(2) by (auto intro: less_SucI)
    next
      case 2
      then have "autojoin \<and> join_answers P profile (rounds (p_drained p)) m" using q(4) unfolding answers_only_def by blast
      then show ?thesis using q(2) by auto
    qed
  qed
  moreover have "autojoin \<and> (\<exists>k < p_drained q. auth_answers P (rounds k) i t)" if "(AuthKey i t, ok) \<in> set (p_out q)" for i t ok
  proof -
    from that consider "(AuthKey i t, ok) \<in> set (p_out p)" | "(AuthKey i t, ok) \<in> set out" using q(1) by auto
    then show ?thesis
    proof cases
      case 1
      then have "autojoin \<and> (\<exists>k < p_drained p. auth_answers P (rounds k) i t)" using assms(4) unfolding all_answer_def by blast
      then show ?thesis using q(2) by (auto intro: less_SucI)
    next
      case 2
      then have "autojoin \<and> auth_answers P (rounds (p_drained p)) i t" using q(4) unfolding answers_only_def by blast
      then show ?thesis using q(2) by auto
    qed
  qed
  ultimately show ?thesis unfolding all_answer_def by blast
qed

lemma all_answer_loop:
  assumes "drain_loop P autojoin profile c rounds n p = Some q" "\<And>k. length (rands (rounds k)) = 24"
    "all_answer P autojoin profile rounds p"
  shows "all_answer P autojoin profile rounds q"
  using assms(1,3)
proof (induction n arbitrary: p)
  case (Suc n)
  define r where "r = rounds (p_drained p)"
  obtain sw where sw: "observe_all P (delivered r) (p_session p, p_players p) = Some sw"
    using Suc.prems(1) by (auto simp: bind_Some_iff r_def Let_def)
  show ?case
  proof (cases "received r")
    case None
    obtain t o' where "service_rpc_probe_actions (env r) (fst sw) = (t, o')" by fastforce
    then have "q = p\<lparr>p_session := t, p_players := snd sw, p_out := p_out p @ map (map_prod Rpc id) o'\<rparr>"
      using Suc.prems(1) None sw by (simp add: r_def[symmetric])
    then show ?thesis using Suc.prems(2) by (simp add: all_answer_def)
  next
    case (Some data)
    then obtain q' where q': "pump_packet P autojoin profile c r data sw p = Some q'" "drain_loop P autojoin profile c rounds n q' = Some q"
      using Suc.prems(1) sw by (auto simp: r_def[symmetric] bind_Some_iff)
    have "all_answer P autojoin profile rounds q'"
      using all_answer_packet[OF q'(1)[unfolded r_def] Some[unfolded r_def] assms(2) Suc.prems(2)] .
    then show ?thesis using Suc.IH q'(2) by blast
  qed
qed simp

text \<open>C3: The pump joins at most once and only as an answer: where a drain returns, the number of joins the network took is one or
  none, as its result says; every join attempted follows a packet that accepted the connection among the packets of the
  drain, its response is the challenge of that packet exclusive-or the version it reports, its serial number is the
  generated one and its name that of the profile; every authentication answer is the table's answer to the challenge of
  a received packet; and without autojoin there is neither.\<close>

theorem pump_joins_once:
  assumes "drain_packets_internal P c limit profile autojoin rounds s w = Some (n, p)" "\<And>k. length (rands (rounds k)) = 24"
  shows "joins (p_out p) = of_bool (p_join_sent p) \<and>
    (\<forall>m ok. (ClientJoin m, ok) \<in> set (p_out p) \<longrightarrow> autojoin \<and> (\<exists>k < p_drained p. join_answers P profile (rounds k) m)) \<and>
    (\<forall>i t ok. (AuthKey i t, ok) \<in> set (p_out p) \<longrightarrow> autojoin \<and> (\<exists>k < p_drained p. auth_answers P (rounds k) i t))"
proof -
  have start: "all_answer P autojoin profile rounds (pump_start s w)" by (simp add: all_answer_def pump_start_def joins_def)
  have "all_answer P autojoin profile rounds p"
    using assms(1) start all_answer_loop[OF _ assms(2) start] by (auto simp: drain_packets_internal_def split: if_splits)
  then show ?thesis by (simp add: all_answer_def)
qed

lemma pump_joins_once_witness:
  "\<exists>n p. drain_packets_internal test_env (Some 1) 2 None True
      (\<lambda>k. \<lparr>delivered = [], received = Some [34], rands = replicate 24 0, sends = (\<lambda>m. True), env = quiet_env\<rparr>)
      (reset_rpc_probe_runtime (Some 1) session_start) reset_player_net = Some (n, p) \<and> joins (p_out p) = of_bool (p_join_sent p)"
proof -
  let ?rounds = "\<lambda>k :: nat. \<lparr>delivered = [], received = Some [34], rands = replicate 24 0, sends = (\<lambda>m. True), env = quiet_env\<rparr>"
  let ?start = "pump_start (reset_rpc_probe_runtime (Some 1) session_start) reset_player_net"
  have "state_ok (p_session ?start, p_players ?start)" by (simp add: state_ok_def pump_start_def session_ok_reset players_ok_reset)
  from drain_loop_ok[OF test_env_ok this, of True None "Some 1" ?rounds 2]
  obtain p where "drain_loop test_env True None (Some 1) ?rounds 2 ?start = Some p" by blast
  then have d: "drain_packets_internal test_env (Some 1) 2 None True ?rounds
      (reset_rpc_probe_runtime (Some 1) session_start) reset_player_net = Some (int (p_drained p), p)"
    by (simp add: drain_packets_internal_def)
  from pump_joins_once[OF d] d show ?thesis by auto
qed

section \<open>The pump and the session\<close>

text \<open>Whether the server has accepted a class, after the RPCs delivered in round \<open>i\<close>; a reset in between takes it back.\<close>

definition class_rpc :: "nat \<times> u8 list \<Rightarrow> bool \<Rightarrow> bool" where
  "class_rpc x accepted = (case session_rpc (fst x) (snd x) of None \<Rightarrow> accepted | Some e \<Rightarrow> accepts_class e accepted)"

fun class_before :: "'b pump_env \<Rightarrow> (nat \<Rightarrow> round) \<Rightarrow> nat \<Rightarrow> bool" where
  "class_before P rounds 0 = False"
| "class_before P rounds (Suc i) = (fold class_rpc (delivered (rounds i)) (class_before P rounds i) \<and>
     \<not> (case received (rounds i) of None \<Rightarrow> False | Some data \<Rightarrow> packet_resets_session_state P (get_packet_id P data)))"

definition class_during :: "'b pump_env \<Rightarrow> (nat \<Rightarrow> round) \<Rightarrow> nat \<Rightarrow> bool" where
  "class_during P rounds i = fold class_rpc (delivered (rounds i)) (class_before P rounds i)"

lemma observe_all_needs_class:
  assumes "observe_all P xs sw = Some sw'" "spawn_needs_class a (fst sw)"
  shows "spawn_needs_class (fold class_rpc xs a) (fst sw')"
  using assms
proof (induction xs arbitrary: sw a)
  case (Cons x xs)
  obtain q where q: "observe_rpc P x sw = Some q" "observe_all P xs q = Some sw'" using Cons.prems(1) by (auto simp: bind_Some_iff)
  have "spawn_needs_class (class_rpc x a) (fst q)"
    using q(1) Cons.prems(2) by (cases sw; cases "session_rpc (fst x) (snd x)")
      (auto simp: observe_rpc_def class_rpc_def bind_Some_iff dest: spawn_needs_class_step)
  then show ?case using Cons.IH[OF q(2)] by simp
qed simp

lemma answer_packet_needs_class:
  "answer_packet P autojoin profile r data s j = (s', j', out) \<Longrightarrow> spawn_needs_class a s \<Longrightarrow> spawn_needs_class a s'"
  by (auto simp: answer_packet_def send_client_join_def spawn_needs_class_def Let_def split: if_splits option.splits prod.splits)

lemma answer_packet_no_spawn:
  assumes "answer_packet P autojoin profile r data s j = (s', j', out)"
  shows "(Rpc m, ok) \<notin> set out"
proof -
  have "(Rpc m, ok) \<notin> set (snd (send_auth_key_response P send data))" for send
    by (auto simp: send_auth_key_response_def Let_def split: option.splits)
  moreover have "(Rpc m, ok) \<notin> set (snd (snd (send_client_join P r profile data s)))"
    by (auto simp: send_client_join_def Let_def split: option.splits)
  ultimately show ?thesis using assms by (auto simp: answer_packet_def Let_def split: if_splits prod.splits)
qed

definition spawn_accounted :: "'b pump_env \<Rightarrow> (nat \<Rightarrow> round) \<Rightarrow> pump \<Rightarrow> bool" where
  "spawn_accounted P rounds p \<longleftrightarrow> spawn_needs_class (class_before P rounds (p_drained p)) (p_session p) \<and>
     (\<forall>ok. (Rpc RequestSpawn, ok) \<in> set (p_out p) \<longrightarrow> (\<exists>i < p_drained p. class_during P rounds i))"

lemma serviced_spawn: "(Rpc m, ok) \<in> set (map (map_prod Rpc id) out) \<longleftrightarrow> (m, ok) \<in> set out"
  by (force simp: map_prod_def)

lemma spawn_accounted_packet:
  assumes "pump_packet P autojoin profile c (rounds (p_drained p)) data sw p = Some q" "received (rounds (p_drained p)) = Some data"
    "spawn_needs_class (class_during P rounds (p_drained p)) (fst sw)" "spawn_accounted P rounds p"
  shows "spawn_accounted P rounds q"
proof -
  let ?r = "rounds (p_drained p)"
  obtain s j out where a: "answer_packet P autojoin profile ?r data (fst sw) (p_join_sent p) = (s, j, out)" by (metis prod_cases3)
  obtain t o' where v: "service_rpc_probe_actions (env ?r) s = (t, o')" by fastforce
  have s: "spawn_needs_class (class_during P rounds (p_drained p)) s" by (rule answer_packet_needs_class[OF a assms(3)])
  have o': "(RequestSpawn, ok) \<in> set o' \<Longrightarrow> class_during P rounds (p_drained p)" for ok
    using spawn_needs_class_service[OF v s] by blast
  define reset where "reset = packet_resets_session_state P (get_packet_id P data)"
  have q: "p_session q = (if reset then reset_rpc_probe_runtime c s else t)" "p_drained q = Suc (p_drained p)"
    "p_out q = p_out p @ out @ map (map_prod Rpc id) (if reset then [] else o')"
    using assms(1) by (auto simp: pump_packet_def a v reset_def bind_Some_iff split: if_splits)
  have "class_before P rounds (p_drained q) = (class_during P rounds (p_drained p) \<and> \<not> reset)"
    using assms(2) by (simp add: q(2) class_during_def reset_def)
  then have "spawn_needs_class (class_before P rounds (p_drained q)) (p_session q)"
    using spawn_needs_class_service[OF v s] spawn_needs_class_game(2)[OF s] by (auto simp: q(1))
  moreover have "\<exists>i < p_drained q. class_during P rounds i" if "(Rpc RequestSpawn, ok) \<in> set (p_out q)" for ok
  proof -
    have "(Rpc RequestSpawn, ok) \<in> set (p_out p) \<or> (RequestSpawn, ok) \<in> set o'"
      using that answer_packet_no_spawn[OF a] by (auto simp: q(3) serviced_spawn[simplified] split: if_splits)
    then show ?thesis using o' assms(4) by (auto simp: q(2) spawn_accounted_def intro: less_SucI)
  qed
  ultimately show ?thesis by (simp add: spawn_accounted_def)
qed

lemma spawn_accounted_loop:
  assumes "drain_loop P autojoin profile c rounds n p = Some q" "spawn_accounted P rounds p"
    "(Rpc RequestSpawn, ok) \<in> set (p_out q)"
  shows "\<exists>i \<le> p_drained q. class_during P rounds i"
  using assms
proof (induction n arbitrary: p)
  case 0
  then show ?case by (auto simp: spawn_accounted_def intro: less_imp_le)
next
  case (Suc n)
  define r where "r = rounds (p_drained p)"
  obtain sw where sw: "observe_all P (delivered r) (p_session p, p_players p) = Some sw"
    using Suc.prems(1) by (auto simp: bind_Some_iff r_def Let_def)
  have needs: "spawn_needs_class (class_during P rounds (p_drained p)) (fst sw)"
    using observe_all_needs_class[OF sw] Suc.prems(2) by (simp add: spawn_accounted_def class_during_def r_def)
  show ?case
  proof (cases "received r")
    case None
    obtain t o' where v: "service_rpc_probe_actions (env r) (fst sw) = (t, o')" by fastforce
    then have q: "q = p\<lparr>p_session := t, p_players := snd sw, p_out := p_out p @ map (map_prod Rpc id) o'\<rparr>"
      using Suc.prems(1) None sw by (simp add: r_def[symmetric])
    then have "(Rpc RequestSpawn, ok) \<in> set (p_out p) \<or> (RequestSpawn, ok) \<in> set o'"
      using Suc.prems(3) by (auto simp: serviced_spawn[simplified])
    moreover have "(RequestSpawn, ok) \<in> set o' \<Longrightarrow> class_during P rounds (p_drained p)"
      using spawn_needs_class_service[OF v needs] by blast
    ultimately show ?thesis using Suc.prems(2) by (auto simp: q spawn_accounted_def intro: less_imp_le)
  next
    case (Some data)
    then obtain q' where q': "pump_packet P autojoin profile c r data sw p = Some q'" "drain_loop P autojoin profile c rounds n q' = Some q"
      using Suc.prems(1) sw by (auto simp: r_def[symmetric] bind_Some_iff)
    have "spawn_accounted P rounds q'"
      using spawn_accounted_packet[OF q'(1)[unfolded r_def] Some[unfolded r_def] needs Suc.prems(2)] .
    then show ?thesis using Suc.IH q'(2) Suc.prems(3) by blast
  qed
qed

text \<open>The pump asks for a spawn only after a class: a drain that starts from a reset session and attempts RequestSpawn, in
  whatever order RPCs, packets and services come, has delivered a class reply with a non-zero outcome, in a round up to
  its last, since the last disconnect or change of game mode before that round's end.\<close>

theorem pump_spawn_after_class:
  assumes "drain_packets_internal P c limit profile autojoin rounds (reset_rpc_probe_runtime c s) w = Some (n, p)"
    "(Rpc RequestSpawn, ok) \<in> set (p_out p)"
  shows "\<exists>i \<le> p_drained p. class_during P rounds i"
proof -
  have start: "spawn_accounted P rounds (pump_start (reset_rpc_probe_runtime c s) w)"
    by (simp add: spawn_accounted_def pump_start_def spawn_needs_class_def reset_rpc_probe_runtime_def)
  have "p_out (pump_start (reset_rpc_probe_runtime c s) w) = []" by (simp add: pump_start_def)
  then show ?thesis using assms spawn_accounted_loop[OF _ start assms(2)]
    by (auto simp: drain_packets_internal_def split: if_splits)
qed

lemma pump_flow:
  fixes rounds g b rest
  defines "rounds \<equiv> (\<lambda>k. if k = 0
      then \<lparr>delivered = [(139, g)], received = Some [99], rands = replicate 24 0, sends = (\<lambda>m. True), env = quiet_env\<rparr>
      else \<lparr>delivered = [(128, b # rest)], received = None, rands = replicate 24 0, sends = (\<lambda>m. True), env = quiet_env\<lparr>shift_key := True\<rparr>\<rparr>)"
  assumes "b \<noteq> 0"
  shows "\<exists>p. drain_packets_internal test_env (Some c) 2 None True rounds (reset_rpc_probe_runtime (Some c) s) w = Some (1, p) \<and>
    (Rpc RequestSpawn, True) \<in> set (p_out p)"
proof -
  let ?r = "reset_rpc_probe_runtime (Some c) s" and ?B = "stream test_env"
  have q: "rpc quiet_env (RequestClass 0)" "shift_key (quiet_env\<lparr>shift_key := True\<rparr>)" "rpc (quiet_env\<lparr>shift_key := True\<rparr>) RequestSpawn"
    by (simp_all add: quiet_env_def)
  have 1: "phase_asking 0 (observe_init_game ?B g ?r)" by (rule phase_init_game[OF phase_fresh_reset])
  obtain t out1 where t: "service_rpc_probe_actions quiet_env (observe_init_game ?B g ?r) = (t, (RequestClass 0, True) # out1)" "phase_asked t"
    using phase_service_asking[OF 1 q(1)] by blast
  obtain s1 where s1: "observe_class_reply (b # rest) t = Some s1" "phase_choosing s1"
    using phase_class_reply[OF t(2) assms(2)] by blast
  obtain s2 out2 where s2: "service_rpc_probe_actions (quiet_env\<lparr>shift_key := True\<rparr>) s1 = (s2, (RequestSpawn, True) # out2)"
    using phase_service_choosing[OF s1(2) q(2,3)] by blast
  have id: "get_packet_id test_env [99] = 99" by (simp add: get_packet_id_def test_env_def)
  have a: "answer_packet test_env True None (rounds 0) [99] x False = (x, False, [])" for x
    by (simp add: answer_packet_def id) (simp add: test_env_def)
  have y: "take_sync test_env [99] w = Some w" by (simp add: take_sync_def id kPacketPlayerSync_def)
  have z: "\<not> packet_resets_session_state test_env 99" by (simp add: packet_resets_session_state_def test_env_def)
  let ?p1 = "\<lparr>p_session = t, p_players = w, p_drained = 1, p_join_sent = False, p_last_packet_id = 99,
    p_out = map (map_prod Rpc id) ((RequestClass 0, True) # out1)\<rparr>"
  have e: "env (rounds 0) = quiet_env" by (simp add: rounds_def)
  have "pump_packet test_env True None (Some c) (rounds 0) [99] (observe_init_game ?B g ?r, w) (pump_start ?r w) = Some ?p1"
    unfolding pump_packet_def fst_conv snd_conv pump_start_def pump.select_convs a y id e t(1) Let_def split_conv using z by simp
  moreover have "observe_all test_env [(139, g)] (?r, w) = Some (observe_init_game ?B g ?r, w)"
    by (simp add: observe_rpc_def session_rpc_def session_step_def)
  moreover have "observe_all test_env [(128, b # rest)] (t, w) = Some (s1, w)"
    by (simp add: observe_rpc_def session_rpc_def session_step_def s1(1))
  ultimately have "drain_loop test_env True None (Some c) rounds 2 (pump_start ?r w) =
      Some (?p1\<lparr>p_session := s2, p_players := w, p_out := p_out ?p1 @ map (map_prod Rpc id) ((RequestSpawn, True) # out2)\<rparr>)"
    unfolding numeral_2_eq_2 drain_loop.simps Let_def by (simp add: rounds_def s2 pump_start_def)
  then show ?thesis by (simp add: drain_packets_internal_def)
qed

lemma pump_spawn_after_class_witness:
  "\<exists>i \<le> 1. class_during test_env (\<lambda>k. if k = 0
      then \<lparr>delivered = [(139, [])], received = Some [99], rands = replicate 24 0, sends = (\<lambda>m. True), env = quiet_env\<rparr>
      else \<lparr>delivered = [(128, [1])], received = None, rands = replicate 24 0, sends = (\<lambda>m. True), env = quiet_env\<lparr>shift_key := True\<rparr>\<rparr>) i"
proof -
  obtain p where p: "drain_packets_internal test_env (Some 1) 2 None True (\<lambda>k. if k = 0
      then \<lparr>delivered = [(139, [])], received = Some [99], rands = replicate 24 0, sends = (\<lambda>m. True), env = quiet_env\<rparr>
      else \<lparr>delivered = [(128, [1])], received = None, rands = replicate 24 0, sends = (\<lambda>m. True), env = quiet_env\<lparr>shift_key := True\<rparr>\<rparr>)
      (reset_rpc_probe_runtime (Some 1) session_start) reset_player_net = Some (1, p)" "(Rpc RequestSpawn, True) \<in> set (p_out p)"
    using pump_flow[where b = 1 and rest = "[]" and g = "[]" and c = 1 and s = session_start and w = reset_player_net] by auto
  have "p_drained p = 1" using p(1) by (auto simp: drain_packets_internal_def)
  then show ?thesis using pump_spawn_after_class[OF p] by simp
qed

end
