(* ===== verification/RpcVehicles.thy ===== *)
theory RpcVehicles
  imports RpcConnect
begin

text \<open>
  The RPCs about vehicles, in \<^verbatim>\<open>src/net/raknet_client_adapter.cpp\<close>: thirteen decoders, each of which checks its
  payload and queues one event, and the ring the graphics thread copies. The reference is the list of the events the
  accepted payloads stand for.
\<close>

section \<open>Data\<close>

definition SAMP_RAKNET_VEHICLE_EVENT_RING :: nat where "SAMP_RAKNET_VEHICLE_EVENT_RING = 128"
definition SAMP_RAKNET_VEHICLE_MOD_SLOTS :: nat where "SAMP_RAKNET_VEHICLE_MOD_SLOTS = 14"
definition SAMP_RAKNET_VEHICLE_PARAM_BYTES :: nat where "SAMP_RAKNET_VEHICLE_PARAM_BYTES = 16"
definition SAMP_RAKNET_VEHICLE_NUMBER_PLATE_BYTES :: nat where "SAMP_RAKNET_VEHICLE_NUMBER_PLATE_BYTES = 33"
definition kOpenMpVehicleAddBytes :: nat where "kOpenMpVehicleAddBytes = 63"
definition kOpenMpVehicleModOffset :: nat where "kOpenMpVehicleModOffset = 40"
definition kOpenMpVehiclePaintjobOffset :: nat where "kOpenMpVehiclePaintjobOffset = 54"
definition kOpenMpVehicleBodyColor1Offset :: nat where "kOpenMpVehicleBodyColor1Offset = 55"
definition kOpenMpVehicleBodyColor2Offset :: nat where "kOpenMpVehicleBodyColor2Offset = 59"
definition kSampVehicleModelMin :: int where "kSampVehicleModelMin = 400"
definition kSampVehicleModelMax :: int where "kSampVehicleModelMax = 611"

lemmas vehicle_consts = SAMP_RAKNET_VEHICLE_EVENT_RING_def SAMP_RAKNET_VEHICLE_MOD_SLOTS_def
  SAMP_RAKNET_VEHICLE_PARAM_BYTES_def SAMP_RAKNET_VEHICLE_NUMBER_PLATE_BYTES_def kOpenMpVehicleAddBytes_def
  kOpenMpVehicleModOffset_def kOpenMpVehiclePaintjobOffset_def kOpenMpVehicleBodyColor1Offset_def
  kOpenMpVehicleBodyColor2Offset_def kSampVehicleModelMin_def kSampVehicleModelMax_def

datatype vehicle_action = NoVehicleAction | CreateVehicle | DestroyVehicle | SetHealth | PutLocalPlayer | SetPos | SetZAngle
  | AttachTrailer | DetachTrailer | SetParamsEx | RemoveComponent | LinkInterior | SetNumberPlate | SetParamsForPlayer

record samp_raknet_vehicle_event =
  ve_seq :: u32
  ve_action :: vehicle_action
  ve_color1 :: u8
  ve_color2 :: u8
  ve_interior :: u8
  ve_paintjob :: u8
  ve_light_damage :: u8
  ve_tyre_damage :: u8
  ve_siren :: u8
  ve_seat_id :: u8
  ve_vehicle_id :: u16
  ve_related_vehicle_id :: u16
  ve_model :: int
  ve_pos :: "f32 list"
  ve_rotation :: f32
  ve_health :: f32
  ve_door_damage :: u32
  ve_panel_damage :: u32
  ve_mods :: "u8 list"
  ve_params :: "u8 list"
  ve_component :: int
  ve_body_color1 :: int
  ve_body_color2 :: int
  ve_number_plate :: string

definition zero_vehicle_event :: samp_raknet_vehicle_event where
  "zero_vehicle_event = \<lparr>ve_seq = 0, ve_action = NoVehicleAction, ve_color1 = 0, ve_color2 = 0, ve_interior = 0,
     ve_paintjob = 0, ve_light_damage = 0, ve_tyre_damage = 0, ve_siren = 0, ve_seat_id = 0, ve_vehicle_id = 0,
     ve_related_vehicle_id = 0, ve_model = 0, ve_pos = [0, 0, 0], ve_rotation = 0, ve_health = 0, ve_door_damage = 0,
     ve_panel_damage = 0, ve_mods = replicate SAMP_RAKNET_VEHICLE_MOD_SLOTS 0,
     ve_params = replicate SAMP_RAKNET_VEHICLE_PARAM_BYTES 0, ve_component = 0, ve_body_color1 = 0, ve_body_color2 = 0,
     ve_number_plate = []\<rparr>"

record vehicle_net =
  saw_vehicle_event :: bool
  vehicle_event_seq :: u32
  vehicle_events :: "samp_raknet_vehicle_event list"

definition reset_vehicle_net :: vehicle_net where
  "reset_vehicle_net = \<lparr>saw_vehicle_event = False, vehicle_event_seq = 0,
     vehicle_events = replicate SAMP_RAKNET_VEHICLE_EVENT_RING zero_vehicle_event\<rparr>"

section \<open>Checks\<close>

definition vehicle_id_valid :: "u16 \<Rightarrow> bool" where
  "vehicle_id_valid i \<longleftrightarrow> unat i < SAMP_RAKNET_MAX_VEHICLES"

definition vehicle_model_valid :: "int \<Rightarrow> bool" where
  "vehicle_model_valid m \<longleftrightarrow> kSampVehicleModelMin \<le> m \<and> m \<le> kSampVehicleModelMax"

definition vehicle_vec_plausible :: "f32 list \<Rightarrow> bool" where
  "vehicle_vec_plausible v \<longleftrightarrow> f32_finite (v ! 0) \<and> f32_finite (v ! 1) \<and> f32_finite (v ! 2) \<and>
     f32_between (- 30000) 30000 (v ! 0) \<and> f32_between (- 30000) 30000 (v ! 1) \<and> f32_between (- 5000) 20000 (v ! 2)"

definition vehicle_rotation_plausible :: "f32 \<Rightarrow> bool" where
  "vehicle_rotation_plausible r \<longleftrightarrow> f32_finite r \<and> f32_between (- 720) 720 r"

definition vehicle_health_plausible :: "f32 \<Rightarrow> bool" where
  "vehicle_health_plausible h \<longleftrightarrow> f32_finite h \<and> f32_within 0 10000 h"

section \<open>The queue\<close>

text \<open>The slot is cleared and then filled; \<open>body\<close> has the fields the caller assigns, \<open>e\<close> is what the slot holds at the end.\<close>

definition queue_vehicle_event ::
  "vehicle_action \<times> u16 \<times> samp_raknet_vehicle_event \<Rightarrow> vehicle_net \<Rightarrow> samp_raknet_vehicle_event \<times> vehicle_net" where
  "queue_vehicle_event a v = (case a of (action, vehicle_id, body) \<Rightarrow>
     let n = bump_seq (vehicle_event_seq v);
         e = body\<lparr>ve_seq := n, ve_action := action, ve_vehicle_id := vehicle_id\<rparr>
     in (e, v\<lparr>vehicle_event_seq := n, saw_vehicle_event := True,
              vehicle_events := (vehicle_events v)[ring_slot SAMP_RAKNET_VEHICLE_EVENT_RING n := e]\<rparr>))"

interpretation vehicle_ring: event_ring SAMP_RAKNET_VEHICLE_EVENT_RING ve_seq queue_vehicle_event vehicle_event_seq vehicle_events
  by unfold_locales (auto simp: queue_vehicle_event_def Let_def vehicle_consts)

definition queued_vehicle :: "vehicle_action \<times> u16 \<times> samp_raknet_vehicle_event \<Rightarrow> vehicle_net \<Rightarrow> (bool \<times> vehicle_net) mem" where
  "queued_vehicle a v = Some (True, snd (queue_vehicle_event a v))"

section \<open>The decoders\<close>

definition decode_vehicle_add_payload :: "u8 list \<Rightarrow> vehicle_net \<Rightarrow> (bool \<times> vehicle_net) mem" where
  "decode_vehicle_add_payload data v =
     (if length data < kOpenMpVehicleAddBytes then Some (False, v)
      else do {
        vehicle_id \<leftarrow> read_le16 data 0;
        model \<leftarrow> read_le_i32 data 2;
        pos \<leftarrow> read_vec3 data 6;
        rotation \<leftarrow> read_le_float data 18;
        health \<leftarrow> read_le_float data 24;
        if \<not> vehicle_id_valid vehicle_id \<or> \<not> vehicle_model_valid model \<or> \<not> vehicle_vec_plausible pos \<or>
           \<not> vehicle_rotation_plausible rotation \<or> \<not> vehicle_health_plausible health
        then Some (False, v)
        else do {
          color1 \<leftarrow> read_byte data 22;
          color2 \<leftarrow> read_byte data 23;
          interior \<leftarrow> read_byte data 28;
          door \<leftarrow> read_le32 data 29;
          panel \<leftarrow> read_le32 data 33;
          light \<leftarrow> read_byte data 37;
          tyre \<leftarrow> read_byte data 38;
          siren \<leftarrow> read_byte data 39;
          mods \<leftarrow> load_bytes data kOpenMpVehicleModOffset SAMP_RAKNET_VEHICLE_MOD_SLOTS;
          paintjob \<leftarrow> read_byte data kOpenMpVehiclePaintjobOffset;
          body1 \<leftarrow> read_le_i32 data kOpenMpVehicleBodyColor1Offset;
          body2 \<leftarrow> read_le_i32 data kOpenMpVehicleBodyColor2Offset;
          queued_vehicle (CreateVehicle, vehicle_id, zero_vehicle_event\<lparr>ve_model := model, ve_pos := pos,
            ve_rotation := rotation, ve_color1 := color1, ve_color2 := color2, ve_health := health,
            ve_interior := interior, ve_door_damage := door, ve_panel_damage := panel, ve_light_damage := light,
            ve_tyre_damage := tyre, ve_siren := siren, ve_mods := mods, ve_paintjob := paintjob,
            ve_body_color1 := body1, ve_body_color2 := body2\<rparr>) v } })"

definition decode_vehicle_remove_payload :: "u8 list \<Rightarrow> vehicle_net \<Rightarrow> (bool \<times> vehicle_net) mem" where
  "decode_vehicle_remove_payload data v =
     (if length data < 2 then Some (False, v)
      else do {
        vehicle_id \<leftarrow> read_le16 data 0;
        if \<not> vehicle_id_valid vehicle_id then Some (False, v)
        else queued_vehicle (DestroyVehicle, vehicle_id, zero_vehicle_event) v })"

definition decode_vehicle_health_payload :: "u8 list \<Rightarrow> vehicle_net \<Rightarrow> (bool \<times> vehicle_net) mem" where
  "decode_vehicle_health_payload data v =
     (if length data < 6 then Some (False, v)
      else do {
        vehicle_id \<leftarrow> read_le16 data 0;
        health \<leftarrow> read_le_float data 2;
        if \<not> vehicle_id_valid vehicle_id \<or> \<not> vehicle_health_plausible health then Some (False, v)
        else queued_vehicle (SetHealth, vehicle_id, zero_vehicle_event\<lparr>ve_health := health\<rparr>) v })"

definition decode_vehicle_position_payload :: "u8 list \<Rightarrow> vehicle_net \<Rightarrow> (bool \<times> vehicle_net) mem" where
  "decode_vehicle_position_payload data v =
     (if length data < 14 then Some (False, v)
      else do {
        vehicle_id \<leftarrow> read_le16 data 0;
        pos \<leftarrow> read_vec3 data 2;
        if \<not> vehicle_id_valid vehicle_id \<or> \<not> vehicle_vec_plausible pos then Some (False, v)
        else queued_vehicle (SetPos, vehicle_id, zero_vehicle_event\<lparr>ve_pos := pos\<rparr>) v })"

definition decode_vehicle_z_angle_payload :: "u8 list \<Rightarrow> vehicle_net \<Rightarrow> (bool \<times> vehicle_net) mem" where
  "decode_vehicle_z_angle_payload data v =
     (if length data < 6 then Some (False, v)
      else do {
        vehicle_id \<leftarrow> read_le16 data 0;
        angle \<leftarrow> read_le_float data 2;
        if \<not> vehicle_id_valid vehicle_id \<or> \<not> vehicle_rotation_plausible angle then Some (False, v)
        else queued_vehicle (SetZAngle, vehicle_id, zero_vehicle_event\<lparr>ve_rotation := angle\<rparr>) v })"

definition decode_attach_trailer_payload :: "u8 list \<Rightarrow> vehicle_net \<Rightarrow> (bool \<times> vehicle_net) mem" where
  "decode_attach_trailer_payload data v =
     (if length data < 4 then Some (False, v)
      else do {
        trailer_id \<leftarrow> read_le16 data 0;
        vehicle_id \<leftarrow> read_le16 data 2;
        if \<not> vehicle_id_valid trailer_id \<or> \<not> vehicle_id_valid vehicle_id \<or> trailer_id = vehicle_id then Some (False, v)
        else queued_vehicle (AttachTrailer, vehicle_id, zero_vehicle_event\<lparr>ve_related_vehicle_id := trailer_id\<rparr>) v })"

definition decode_detach_trailer_payload :: "u8 list \<Rightarrow> vehicle_net \<Rightarrow> (bool \<times> vehicle_net) mem" where
  "decode_detach_trailer_payload data v =
     (if length data < 2 then Some (False, v)
      else do {
        vehicle_id \<leftarrow> read_le16 data 0;
        if \<not> vehicle_id_valid vehicle_id then Some (False, v)
        else queued_vehicle (DetachTrailer, vehicle_id, zero_vehicle_event) v })"

definition decode_vehicle_params_ex_payload :: "u8 list \<Rightarrow> vehicle_net \<Rightarrow> (bool \<times> vehicle_net) mem" where
  "decode_vehicle_params_ex_payload data v =
     (if length data < 18 then Some (False, v)
      else do {
        vehicle_id \<leftarrow> read_le16 data 0;
        if \<not> vehicle_id_valid vehicle_id then Some (False, v)
        else do {
          params \<leftarrow> load_bytes data 2 SAMP_RAKNET_VEHICLE_PARAM_BYTES;
          queued_vehicle (SetParamsEx, vehicle_id, zero_vehicle_event\<lparr>ve_params := params\<rparr>) v } })"

definition decode_remove_vehicle_component_payload :: "u8 list \<Rightarrow> vehicle_net \<Rightarrow> (bool \<times> vehicle_net) mem" where
  "decode_remove_vehicle_component_payload data v =
     (if length data < 6 then Some (False, v)
      else do {
        vehicle_id \<leftarrow> read_le16 data 0;
        component \<leftarrow> read_le_i32 data 2;
        if \<not> vehicle_id_valid vehicle_id \<or> component < 1000 \<or> component > 1193 then Some (False, v)
        else queued_vehicle (RemoveComponent, vehicle_id, zero_vehicle_event\<lparr>ve_component := component\<rparr>) v })"

definition decode_link_vehicle_interior_payload :: "u8 list \<Rightarrow> vehicle_net \<Rightarrow> (bool \<times> vehicle_net) mem" where
  "decode_link_vehicle_interior_payload data v =
     (if length data < 3 then Some (False, v)
      else do {
        vehicle_id \<leftarrow> read_le16 data 0;
        if \<not> vehicle_id_valid vehicle_id then Some (False, v)
        else do {
          interior \<leftarrow> read_byte data 2;
          queued_vehicle (LinkInterior, vehicle_id, zero_vehicle_event\<lparr>ve_interior := interior\<rparr>) v } })"

text \<open>The array is clear before the copy, and holds 33 characters.\<close>

definition decode_vehicle_number_plate_payload :: "u8 list \<Rightarrow> vehicle_net \<Rightarrow> (bool \<times> vehicle_net) mem" where
  "decode_vehicle_number_plate_payload data v =
     (if length data < 3 then Some (False, v)
      else do {
        vehicle_id \<leftarrow> read_le16 data 0;
        len \<leftarrow> read_byte data 2;
        if \<not> vehicle_id_valid vehicle_id \<or> unat len > 32 \<or> length data < 3 + unat len then Some (False, v)
        else do {
          bytes \<leftarrow> load_bytes data 3 (unat len);
          queued_vehicle (SetNumberPlate, vehicle_id, zero_vehicle_event\<lparr>ve_number_plate := bytes_string bytes\<rparr>) v } })"

definition decode_vehicle_params_for_player_payload :: "u8 list \<Rightarrow> vehicle_net \<Rightarrow> (bool \<times> vehicle_net) mem" where
  "decode_vehicle_params_for_player_payload data v =
     (if length data < 4 then Some (False, v)
      else do {
        vehicle_id \<leftarrow> read_le16 data 0;
        if \<not> vehicle_id_valid vehicle_id then Some (False, v)
        else do {
          objective \<leftarrow> read_byte data 2;
          doors \<leftarrow> read_byte data 3;
          queued_vehicle (SetParamsForPlayer, vehicle_id,
            zero_vehicle_event\<lparr>ve_params := (ve_params zero_vehicle_event)[0 := objective, 1 := doors]\<rparr>) v } })"

definition decode_put_player_in_vehicle_payload :: "u8 list \<Rightarrow> vehicle_net \<Rightarrow> (bool \<times> vehicle_net) mem" where
  "decode_put_player_in_vehicle_payload data v =
     (if length data < 3 then Some (False, v)
      else do {
        vehicle_id \<leftarrow> read_le16 data 0;
        seat_id \<leftarrow> read_byte data 2;
        if \<not> vehicle_id_valid vehicle_id \<or> seat_id > 7 then Some (False, v)
        else queued_vehicle (PutLocalPlayer, vehicle_id, zero_vehicle_event\<lparr>ve_seat_id := seat_id\<rparr>) v })"

text \<open>The branches of \<^verbatim>\<open>rpc_observer\<close>.\<close>

definition decode_vehicle_rpc :: "nat \<Rightarrow> u8 list \<Rightarrow> vehicle_net \<Rightarrow> (bool \<times> vehicle_net) mem" where
  "decode_vehicle_rpc rpc_id data v =
     (if rpc_id = 164 then decode_vehicle_add_payload data v
      else if rpc_id = 165 then decode_vehicle_remove_payload data v
      else if rpc_id = 147 then decode_vehicle_health_payload data v
      else if rpc_id = 148 then decode_attach_trailer_payload data v
      else if rpc_id = 149 then decode_detach_trailer_payload data v
      else if rpc_id = 24 then decode_vehicle_params_ex_payload data v
      else if rpc_id = 57 then decode_remove_vehicle_component_payload data v
      else if rpc_id = 65 then decode_link_vehicle_interior_payload data v
      else if rpc_id = 123 then decode_vehicle_number_plate_payload data v
      else if rpc_id = 161 then decode_vehicle_params_for_player_payload data v
      else if rpc_id = 159 then decode_vehicle_position_payload data v
      else if rpc_id = 160 then decode_vehicle_z_angle_payload data v
      else if rpc_id = 70 then decode_put_player_in_vehicle_payload data v
      else Some (False, v))"

definition observe_vehicle_rpc :: "nat \<times> u8 list \<Rightarrow> vehicle_net \<Rightarrow> vehicle_net mem" where
  "observe_vehicle_rpc r v = map_option snd (decode_vehicle_rpc (fst r) (snd r) v)"

fun observe_vehicle_rpcs :: "(nat \<times> u8 list) list \<Rightarrow> vehicle_net \<Rightarrow> vehicle_net mem" where
  "observe_vehicle_rpcs [] v = Some v"
| "observe_vehicle_rpcs (r # rs) v = do { v \<leftarrow> observe_vehicle_rpc r v; observe_vehicle_rpcs rs v }"

definition vehicle_snapshot :: "vehicle_net \<Rightarrow> samp_raknet_vehicle_event list" where
  "vehicle_snapshot v = ring_snapshot SAMP_RAKNET_VEHICLE_EVENT_RING ve_seq (vehicle_event_seq v) (vehicle_events v)"

section \<open>Every decoder refuses its payload or queues one event\<close>

definition vehicle_event_ok :: "samp_raknet_vehicle_event \<Rightarrow> bool" where
  "vehicle_event_ok e \<longleftrightarrow> ve_action e \<noteq> NoVehicleAction \<and> vehicle_id_valid (ve_vehicle_id e) \<and>
     length (ve_mods e) = SAMP_RAKNET_VEHICLE_MOD_SLOTS \<and> length (ve_params e) = SAMP_RAKNET_VEHICLE_PARAM_BYTES \<and>
     length (ve_number_plate e) < SAMP_RAKNET_VEHICLE_NUMBER_PLATE_BYTES \<and> length (ve_pos e) = 3 \<and> ve_seat_id e \<le> 7 \<and>
     (ve_action e = CreateVehicle \<longrightarrow> vehicle_model_valid (ve_model e) \<and> vehicle_vec_plausible (ve_pos e) \<and>
        vehicle_rotation_plausible (ve_rotation e) \<and> vehicle_health_plausible (ve_health e)) \<and>
     (ve_action e = SetHealth \<longrightarrow> vehicle_health_plausible (ve_health e)) \<and>
     (ve_action e = SetPos \<longrightarrow> vehicle_vec_plausible (ve_pos e)) \<and>
     (ve_action e = SetZAngle \<longrightarrow> vehicle_rotation_plausible (ve_rotation e)) \<and>
     (ve_action e = AttachTrailer \<longrightarrow>
        vehicle_id_valid (ve_related_vehicle_id e) \<and> ve_related_vehicle_id e \<noteq> ve_vehicle_id e) \<and>
     (ve_action e = RemoveComponent \<longrightarrow> 1000 \<le> ve_component e \<and> ve_component e \<le> 1193)"

lemma vehicle_event_ok_seq [simp]: "vehicle_event_ok (e\<lparr>ve_seq := n\<rparr>) = vehicle_event_ok e"
  by (simp add: vehicle_event_ok_def)

type_synonym vehicle_args = "vehicle_action \<times> u16 \<times> samp_raknet_vehicle_event"

definition event_of_args :: "vehicle_args \<Rightarrow> samp_raknet_vehicle_event" where
  "event_of_args a = (case a of (action, i, body) \<Rightarrow> body\<lparr>ve_seq := 1, ve_action := action, ve_vehicle_id := i\<rparr>)"

definition queues :: "(vehicle_net \<Rightarrow> (bool \<times> vehicle_net) mem) \<Rightarrow> bool" where
  "queues f \<longleftrightarrow> (\<exists>r. (\<forall>a. r = Some a \<longrightarrow> vehicle_event_ok (event_of_args a)) \<and>
     (\<forall>v. f v = Some (case r of None \<Rightarrow> (False, v) | Some a \<Rightarrow> (True, snd (queue_vehicle_event a v)))))"

named_theorems queue_intros

lemma queues_refuse [queue_intros]: "queues (\<lambda>v. Some (False, v))"
  unfolding queues_def by (rule exI[of _ None]) simp

lemma queues_queued [queue_intros]:
  assumes "vehicle_event_ok (event_of_args a)"
  shows "queues (queued_vehicle a)"
  unfolding queues_def by (rule exI[of _ "Some a"]) (simp add: queued_vehicle_def assms)

lemma queues_if [queue_intros]:
  assumes "c \<Longrightarrow> queues f" "\<not> c \<Longrightarrow> queues g"
  shows "queues (\<lambda>v. if c then f v else g v)"
  using assms by (cases c) simp_all

lemma queues_read [queue_intros]:
  assumes "\<exists>x. m = Some x" "\<And>x. m = Some x \<Longrightarrow> queues (f x)"
  shows "queues (\<lambda>v. m \<bind> (\<lambda>x. f x v))"
  using assms by auto

lemma load_bytes_in: "off + n \<le> length data \<Longrightarrow> \<exists>bs. load_bytes data off n = Some bs"
  by (simp add: load_bytes_def)

lemmas reads_in = read_le16_in read_le32_in read_le_float_in read_le_i32_in read_vec3_in read_byte_in load_bytes_in

lemma zero_vehicle_event_lengths [simp]:
  "length (ve_mods zero_vehicle_event) = 14" "length (ve_params zero_vehicle_event) = 16"
  "ve_number_plate zero_vehicle_event = []" "length (ve_pos zero_vehicle_event) = 3" "ve_seat_id zero_vehicle_event = 0"
  by (simp_all add: zero_vehicle_event_def vehicle_consts)

lemmas vehicle_checks = vehicle_event_ok_def event_of_args_def vehicle_consts

lemma length_bytes_string: "length (bytes_string bs) \<le> length bs"
  by (simp add: bytes_string_def length_takeWhile_le[THEN order_trans])

lemma queues_add: "queues (decode_vehicle_add_payload data)"
  unfolding decode_vehicle_add_payload_def
  by (intro queue_intros reads_in) (auto simp: vehicle_checks dest: length_read_vec3 load_bytes_length)

lemma queues_small:
  "queues (decode_vehicle_remove_payload data)" "queues (decode_vehicle_health_payload data)"
  "queues (decode_attach_trailer_payload data)" "queues (decode_detach_trailer_payload data)"
  "queues (decode_vehicle_z_angle_payload data)" "queues (decode_remove_vehicle_component_payload data)"
  "queues (decode_link_vehicle_interior_payload data)" "queues (decode_vehicle_params_for_player_payload data)"
  "queues (decode_put_player_in_vehicle_payload data)"
  unfolding decode_vehicle_remove_payload_def decode_vehicle_health_payload_def decode_attach_trailer_payload_def
    decode_detach_trailer_payload_def decode_vehicle_z_angle_payload_def decode_remove_vehicle_component_payload_def
    decode_link_vehicle_interior_payload_def decode_vehicle_params_for_player_payload_def decode_put_player_in_vehicle_payload_def
  by (intro queue_intros reads_in; auto simp: vehicle_checks)+

lemma queues_position: "queues (decode_vehicle_position_payload data)"
  unfolding decode_vehicle_position_payload_def
  by (intro queue_intros reads_in) (auto simp: vehicle_checks dest: length_read_vec3)

lemma queues_params: "queues (decode_vehicle_params_ex_payload data)"
  unfolding decode_vehicle_params_ex_payload_def
  by (intro queue_intros reads_in) (auto simp: vehicle_checks dest: load_bytes_length)

lemma queues_plate: "queues (decode_vehicle_number_plate_payload data)"
  unfolding decode_vehicle_number_plate_payload_def
  by (intro queue_intros reads_in)
    (auto simp: vehicle_checks dest!: load_bytes_length intro: le_less_trans[OF length_bytes_string])

lemma queues_rpc: "queues (decode_vehicle_rpc rpc_id data)"
  unfolding decode_vehicle_rpc_def by (intro queues_if queues_refuse queues_add queues_small queues_position queues_params queues_plate)

section \<open>The ring and the list of accepted events\<close>

text \<open>The event a payload stands for, by itself: what it leaves in an empty ring.\<close>

definition vehicle_event_of :: "nat \<times> u8 list \<Rightarrow> samp_raknet_vehicle_event option" where
  "vehicle_event_of r = (case decode_vehicle_rpc (fst r) (snd r) reset_vehicle_net of
       Some (True, v) \<Rightarrow> Some (vehicle_events v ! 0)
     | _ \<Rightarrow> None)"

definition number_vehicle_events :: "samp_raknet_vehicle_event list \<Rightarrow> samp_raknet_vehicle_event list" where
  "number_vehicle_events es = map (\<lambda>(k, e). e\<lparr>ve_seq := of_nat (k + 1)\<rparr>) (enumerate 0 es)"

lemma number_vehicle_events_snoc:
  "number_vehicle_events (es @ [e]) = number_vehicle_events es @ [e\<lparr>ve_seq := of_nat (length es + 1)\<rparr>]"
  by (simp add: number_vehicle_events_def enumerate_append_eq)

lemma length_number_vehicle_events [simp]: "length (number_vehicle_events es) = length es"
  by (simp add: number_vehicle_events_def)

lemma number_vehicle_events_ok: "\<forall>e\<in>set es. vehicle_event_ok e \<Longrightarrow> \<forall>e\<in>set (number_vehicle_events es). vehicle_event_ok e"
  by (auto simp: number_vehicle_events_def in_set_enumerate_eq)

lemma vehicle_event_of_queue:
  "\<exists>r. (\<forall>a. r = Some a \<longrightarrow> vehicle_event_ok (event_of_args a)) \<and> vehicle_event_of x = map_option event_of_args r \<and>
    (\<forall>v. observe_vehicle_rpc x v = Some (case r of None \<Rightarrow> v | Some a \<Rightarrow> snd (queue_vehicle_event a v)))"
proof -
  obtain r where r: "\<forall>a. r = Some a \<longrightarrow> vehicle_event_ok (event_of_args a)"
    "\<forall>v. decode_vehicle_rpc (fst x) (snd x) v = Some (case r of None \<Rightarrow> (False, v) | Some a \<Rightarrow> (True, snd (queue_vehicle_event a v)))"
    using queues_rpc[of "fst x" "snd x"] unfolding queues_def by blast
  have "vehicle_event_of x = map_option event_of_args r"
    using r(2) by (cases r)
      (simp_all add: vehicle_event_of_def queue_vehicle_event_def event_of_args_def reset_vehicle_net_def bump_seq_def ring_slot_def
        vehicle_consts Let_def split: prod.split)
  then show ?thesis using r by (intro exI[of _ r]) (simp add: observe_vehicle_rpc_def split: option.split)
qed

definition vehicle_history :: "samp_raknet_vehicle_event list \<Rightarrow> vehicle_net \<Rightarrow> bool" where
  "vehicle_history es v \<longleftrightarrow>
     ring_holds SAMP_RAKNET_VEHICLE_EVENT_RING ve_seq (number_vehicle_events es) (vehicle_event_seq v) (vehicle_events v)"

lemma vehicle_history_reset: "vehicle_history [] reset_vehicle_net"
  by (simp add: vehicle_history_def number_vehicle_events_def reset_vehicle_net_def ring_holds_empty)

lemma vehicle_history_queue:
  assumes "vehicle_history es v" "length es + 1 < 4294967296"
  shows "vehicle_history (es @ [event_of_args a]) (snd (queue_vehicle_event a v))"
proof -
  obtain e v' where q: "queue_vehicle_event a v = (e, v')" by fastforce
  have "unat (vehicle_event_seq v) = length es" using assms(1) by (simp add: vehicle_history_def ring_holds_def)
  then have "unat (bump_seq (vehicle_event_seq v)) = length es + 1" using bump_seq_next assms(2) by simp
  moreover have "of_nat (unat (bump_seq (vehicle_event_seq v))) = bump_seq (vehicle_event_seq v)" by simp
  ultimately have "bump_seq (vehicle_event_seq v) = of_nat (length es + 1)" by simp
  then have "e = (event_of_args a)\<lparr>ve_seq := of_nat (length es + 1)\<rparr>"
    using q by (auto simp: queue_vehicle_event_def event_of_args_def Let_def split: prod.splits)
  then show ?thesis using vehicle_ring.queue_holds[OF assms(1)[unfolded vehicle_history_def] q] assms(2)
    by (simp add: vehicle_history_def number_vehicle_events_snoc q)
qed

lemma observe_vehicle_rpcs_history:
  assumes "vehicle_history es v" "length es + length rs < 4294967296"
  shows "\<exists>v'. observe_vehicle_rpcs rs v = Some v' \<and> vehicle_history (es @ List.map_filter vehicle_event_of rs) v'"
  using assms
proof (induction rs arbitrary: es v)
  case Nil
  then show ?case by (simp add: List.map_filter_simps)
next
  case (Cons x rs)
  obtain r where r: "vehicle_event_of x = map_option event_of_args r"
    "observe_vehicle_rpc x v = Some (case r of None \<Rightarrow> v | Some a \<Rightarrow> snd (queue_vehicle_event a v))"
    using vehicle_event_of_queue[of x] by blast
  show ?case
  proof (cases r)
    case None
    then show ?thesis using Cons.IH[OF Cons.prems(1)] Cons.prems(2) r by (simp add: List.map_filter_simps)
  next
    case (Some a)
    have "vehicle_history (es @ [event_of_args a]) (snd (queue_vehicle_event a v))"
      using vehicle_history_queue Cons.prems by simp
    from Cons.IH[OF this] show ?thesis using Cons.prems(2) r Some by (simp add: List.map_filter_simps)
  qed
qed

text \<open>The ring of vehicle events is the newest part of the list of what was accepted: after any RPCs from a reset, fewer than
  2 ^ 32, the snapshot is the last 128 of the events their accepted payloads stand for, in the order of arrival and numbered
  from 1, whatever the payloads hold; and each of them is well formed, with a vehicle number below 2000, a model, position,
  rotation, health, component or trailer in its range and a plate of at most 32 characters.\<close>

theorem vehicle_events_in_order:
  assumes "length rs < 2 ^ 32"
  shows "\<exists>v. observe_vehicle_rpcs rs reset_vehicle_net = Some v \<and>
    (let es = number_vehicle_events (List.map_filter vehicle_event_of rs)
     in vehicle_snapshot v = drop (length es - 128) es \<and> (\<forall>e\<in>set es. vehicle_event_ok e))"
proof -
  obtain v where v: "observe_vehicle_rpcs rs reset_vehicle_net = Some v" "vehicle_history (List.map_filter vehicle_event_of rs) v"
    using observe_vehicle_rpcs_history[OF vehicle_history_reset, of rs] assms by auto
  have "\<forall>e\<in>set (List.map_filter vehicle_event_of rs). vehicle_event_ok e"
  proof
    fix e assume "e \<in> set (List.map_filter vehicle_event_of rs)"
    then obtain x where x: "vehicle_event_of x = Some e" by (auto simp: List.map_filter_def)
    obtain r where r: "\<forall>a. r = Some a \<longrightarrow> vehicle_event_ok (event_of_args a)" "vehicle_event_of x = map_option event_of_args r"
      using vehicle_event_of_queue[of x] by blast
    then obtain a where "r = Some a" "e = event_of_args a" using x by (cases r) auto
    then show "vehicle_event_ok e" using r(1) by blast
  qed
  then show ?thesis using v number_vehicle_events_ok ring_snapshot_suffix[OF v(2)[unfolded vehicle_history_def]]
    by (auto simp: vehicle_snapshot_def vehicle_consts Let_def)
qed

lemma vehicle_events_in_order_witness:
  "\<exists>v. observe_vehicle_rpcs [(165, [7, 0]), (165, [208, 7]), (70, [7, 0, 1])] reset_vehicle_net = Some v \<and>
    (let es = number_vehicle_events (List.map_filter vehicle_event_of [(165, [7, 0]), (165, [208, 7]), (70, [7, 0, 1])])
     in vehicle_snapshot v = drop (length es - 128) es \<and> (\<forall>e\<in>set es. vehicle_event_ok e))"
  by (rule vehicle_events_in_order) simp

section \<open>A streamed vehicle arrives as it was sent\<close>

definition le32_int :: "int \<Rightarrow> u8 list" where
  "le32_int i = bytes_of_le32 (of_int i)"

text \<open>The 63 bytes with which a server streams a vehicle in.\<close>

definition vehicle_payload :: "samp_raknet_vehicle_event \<Rightarrow> u8 list" where
  "vehicle_payload e = le16_bytes (ve_vehicle_id e) @ le32_int (ve_model e) @ concat (map bytes_of_le32 (ve_pos e)) @
     bytes_of_le32 (ve_rotation e) @ [ve_color1 e, ve_color2 e] @ bytes_of_le32 (ve_health e) @ [ve_interior e] @
     bytes_of_le32 (ve_door_damage e) @ bytes_of_le32 (ve_panel_damage e) @
     [ve_light_damage e, ve_tyre_damage e, ve_siren e] @ ve_mods e @ [ve_paintjob e] @
     le32_int (ve_body_color1 e) @ le32_int (ve_body_color2 e)"

definition int32 :: "int \<Rightarrow> bool" where
  "int32 i \<longleftrightarrow> - (2 ^ 31) \<le> i \<and> i < 2 ^ 31"

lemma sint_of_int32: "int32 i \<Longrightarrow> sint (of_int i :: u32) = i"
  by (simp add: int32_def signed_of_int signed_take_bit_int_eq_self)

lemma ucast_le16: "ucast (ucast v :: u8) OR push_bit 8 (ucast (ucast (drop_bit 8 v) :: u8)) = (v :: u16)"
  using read_le16_bytes[of v "[]"] by (simp add: read_le16_def le16_bytes_def)

lemma vehicle_payload_reads:
  assumes "length (ve_pos e) = 3" "length (ve_mods e) = 14"
  shows "length (vehicle_payload e) = 63" "read_le16 (vehicle_payload e) 0 = Some (ve_vehicle_id e)"
    "read_le32 (vehicle_payload e) 2 = Some (of_int (ve_model e))" "read_vec3 (vehicle_payload e) 6 = Some (ve_pos e)"
    "read_le32 (vehicle_payload e) 18 = Some (ve_rotation e)" "read_le32 (vehicle_payload e) 24 = Some (ve_health e)"
    "read_byte (vehicle_payload e) 22 = Some (ve_color1 e)" "read_byte (vehicle_payload e) 23 = Some (ve_color2 e)"
    "read_byte (vehicle_payload e) 28 = Some (ve_interior e)" "read_le32 (vehicle_payload e) 29 = Some (ve_door_damage e)"
    "read_le32 (vehicle_payload e) 33 = Some (ve_panel_damage e)" "read_byte (vehicle_payload e) 37 = Some (ve_light_damage e)"
    "read_byte (vehicle_payload e) 38 = Some (ve_tyre_damage e)" "read_byte (vehicle_payload e) 39 = Some (ve_siren e)"
    "load_bytes (vehicle_payload e) 40 14 = Some (ve_mods e)" "read_byte (vehicle_payload e) 54 = Some (ve_paintjob e)"
    "read_le32 (vehicle_payload e) 55 = Some (of_int (ve_body_color1 e))"
    "read_le32 (vehicle_payload e) 59 = Some (of_int (ve_body_color2 e))"
proof -
  obtain x y z where pos: "ve_pos e = [x, y, z]" using assms(1) by (auto simp: numeral_eq_Suc length_Suc_conv)
  obtain a b c d f g h i j k l m n q where mods: "ve_mods e = [a, b, c, d, f, g, h, i, j, k, l, m, n, q]"
    using assms(2) by (auto simp: numeral_eq_Suc length_Suc_conv)
  note p = vehicle_payload_def le32_int_def le16_bytes_def bytes_of_le32_def pos mods
  note r = read_le32_def read_byte_def load_bytes_def read_vec3_def read_le_float_def le32_of_bytes_of_le32
  show "length (vehicle_payload e) = 63" by (simp add: p)
  show "read_le16 (vehicle_payload e) 0 = Some (ve_vehicle_id e)" by (simp add: p read_le16_def ucast_le16)
  show "read_le32 (vehicle_payload e) 2 = Some (of_int (ve_model e))" by (simp add: p r)
  show "read_vec3 (vehicle_payload e) 6 = Some (ve_pos e)" by (simp add: p r)
  show "read_le32 (vehicle_payload e) 18 = Some (ve_rotation e)" by (simp add: p r)
  show "read_le32 (vehicle_payload e) 24 = Some (ve_health e)" by (simp add: p r)
  show "read_byte (vehicle_payload e) 22 = Some (ve_color1 e)" by (simp add: p r)
  show "read_byte (vehicle_payload e) 23 = Some (ve_color2 e)" by (simp add: p r)
  show "read_byte (vehicle_payload e) 28 = Some (ve_interior e)" by (simp add: p r)
  show "read_le32 (vehicle_payload e) 29 = Some (ve_door_damage e)" by (simp add: p r)
  show "read_le32 (vehicle_payload e) 33 = Some (ve_panel_damage e)" by (simp add: p r)
  show "read_byte (vehicle_payload e) 37 = Some (ve_light_damage e)" by (simp add: p r)
  show "read_byte (vehicle_payload e) 38 = Some (ve_tyre_damage e)" by (simp add: p r)
  show "read_byte (vehicle_payload e) 39 = Some (ve_siren e)" by (simp add: p r)
  show "load_bytes (vehicle_payload e) 40 14 = Some (ve_mods e)" by (simp add: p r)
  show "read_byte (vehicle_payload e) 54 = Some (ve_paintjob e)" by (simp add: p r)
  show "read_le32 (vehicle_payload e) 55 = Some (of_int (ve_body_color1 e))" by (simp add: p r)
  show "read_le32 (vehicle_payload e) 59 = Some (of_int (ve_body_color2 e))" by (simp add: p r)
qed

text \<open>What the payload of a vehicle carries: the other fields of its event are clear.\<close>

definition streamed_vehicle :: "samp_raknet_vehicle_event \<Rightarrow> bool" where
  "streamed_vehicle e \<longleftrightarrow> ve_action e = CreateVehicle \<and> vehicle_event_ok e \<and> int32 (ve_body_color1 e) \<and> int32 (ve_body_color2 e) \<and>
     ve_seat_id e = 0 \<and> ve_related_vehicle_id e = 0 \<and> ve_params e = replicate SAMP_RAKNET_VEHICLE_PARAM_BYTES 0 \<and>
     ve_component e = 0 \<and> ve_number_plate e = []"

text \<open>A vehicle arrives as the server sent it: the payload of any vehicle with a valid number, model, position, rotation and
  health is accepted, and the event it queues is that vehicle, field by field, under the next number.\<close>

theorem vehicle_streamed_as_sent:
  assumes "streamed_vehicle e"
  shows "\<exists>v'. decode_vehicle_add_payload (vehicle_payload e) v = Some (True, v') \<and>
    vehicle_event_seq v' = bump_seq (vehicle_event_seq v) \<and>
    vehicle_events v' = (vehicle_events v)[ring_slot SAMP_RAKNET_VEHICLE_EVENT_RING (vehicle_event_seq v') :=
      e\<lparr>ve_seq := vehicle_event_seq v'\<rparr>]"
proof -
  have ok: "vehicle_event_ok e" "ve_action e = CreateVehicle" using assms by (simp_all add: streamed_vehicle_def)
  then have len: "length (ve_pos e) = 3" "length (ve_mods e) = 14" by (simp_all add: vehicle_checks)
  have ints: "sint (of_int (ve_body_color1 e) :: u32) = ve_body_color1 e" "sint (of_int (ve_body_color2 e) :: u32) = ve_body_color2 e"
    using assms sint_of_int32 by (simp_all add: streamed_vehicle_def)
  have "int32 (ve_model e)" using ok by (simp add: vehicle_event_ok_def vehicle_model_valid_def vehicle_consts int32_def)
  then have model: "sint (of_int (ve_model e) :: u32) = ve_model e" by (rule sint_of_int32)
  let ?b = "zero_vehicle_event\<lparr>ve_model := ve_model e, ve_pos := ve_pos e, ve_rotation := ve_rotation e, ve_color1 := ve_color1 e,
    ve_color2 := ve_color2 e, ve_health := ve_health e, ve_interior := ve_interior e, ve_door_damage := ve_door_damage e,
    ve_panel_damage := ve_panel_damage e, ve_light_damage := ve_light_damage e, ve_tyre_damage := ve_tyre_damage e,
    ve_siren := ve_siren e, ve_mods := ve_mods e, ve_paintjob := ve_paintjob e, ve_body_color1 := ve_body_color1 e,
    ve_body_color2 := ve_body_color2 e\<rparr>"
  have "decode_vehicle_add_payload (vehicle_payload e) v = queued_vehicle (CreateVehicle, ve_vehicle_id e, ?b) v"
    using ok by (simp add: decode_vehicle_add_payload_def vehicle_payload_reads[OF len] read_le_i32_def read_le_float_def ints model
        vehicle_event_ok_def vehicle_consts del: samp_raknet_vehicle_event.update_convs)
  moreover have "?b\<lparr>ve_seq := n, ve_action := CreateVehicle, ve_vehicle_id := ve_vehicle_id e\<rparr> = e\<lparr>ve_seq := n\<rparr>" for n
    using assms by (cases e) (simp add: zero_vehicle_event_def streamed_vehicle_def)
  ultimately show ?thesis by (simp add: queued_vehicle_def queue_vehicle_event_def Let_def)
qed

definition sample_vehicle :: samp_raknet_vehicle_event where
  "sample_vehicle = zero_vehicle_event\<lparr>ve_action := CreateVehicle, ve_vehicle_id := 17, ve_model := 411, ve_color1 := 3\<rparr>"

lemma sample_vehicle_streamed: "streamed_vehicle sample_vehicle"
proof -
  have z: "f32_scaled 0 = 0" by (simp add: f32_scaled_def f32_exponent_def)
  show ?thesis by (simp add: streamed_vehicle_def sample_vehicle_def vehicle_event_ok_def vehicle_id_valid_def vehicle_model_valid_def
      vehicle_vec_plausible_def vehicle_rotation_plausible_def vehicle_health_plausible_def f32_between_def f32_within_def z
      zero_vehicle_event_def vehicle_consts int32_def SAMP_RAKNET_MAX_VEHICLES_def)
qed

lemma vehicle_streamed_as_sent_witness:
  "\<exists>v'. decode_vehicle_add_payload (vehicle_payload sample_vehicle) reset_vehicle_net = Some (True, v') \<and>
    vehicle_event_seq v' = 1 \<and> vehicle_events v' ! 0 = sample_vehicle\<lparr>ve_seq := 1\<rparr>"
proof -
  obtain v' where v: "decode_vehicle_add_payload (vehicle_payload sample_vehicle) reset_vehicle_net = Some (True, v')"
    "vehicle_event_seq v' = bump_seq (vehicle_event_seq reset_vehicle_net)"
    "vehicle_events v' = (vehicle_events reset_vehicle_net)[ring_slot SAMP_RAKNET_VEHICLE_EVENT_RING (vehicle_event_seq v') :=
      sample_vehicle\<lparr>ve_seq := vehicle_event_seq v'\<rparr>]"
    using vehicle_streamed_as_sent[OF sample_vehicle_streamed] by blast
  then have "vehicle_event_seq v' = 1" by (simp add: reset_vehicle_net_def bump_seq_def)
  then show ?thesis using v by (simp add: reset_vehicle_net_def ring_slot_def vehicle_consts)
qed

end
