(* ===== verification/RpcLocal.thy ===== *)
theory RpcLocal
  imports RpcVehicles
begin

text \<open>
  The RPCs that change the local player, in \<^verbatim>\<open>src/net/raknet_client_adapter.cpp\<close>: his body (\<open>body_net\<close>), his weapons
  and money (\<open>goods_net\<close>), his traits (\<open>traits_net\<close>). A value is kept with a number, which the graphics thread compares with
  the one it has applied; weapons and money also have rings, because each grant counts.
\<close>

section \<open>Decoders in general\<close>

text \<open>A decoder refuses, or returns a state with the property: by the structure of its definition.\<close>

named_theorems leaves_intros

lemma leaves_if [leaves_intros]:
  "(c \<Longrightarrow> leaves P a) \<Longrightarrow> (\<not> c \<Longrightarrow> leaves P b) \<Longrightarrow> leaves P (if c then a else b)"
  by simp

lemma leaves_read [leaves_intros]: "\<exists>x. m = Some x \<Longrightarrow> (\<And>x. m = Some x \<Longrightarrow> leaves P (f x)) \<Longrightarrow> leaves P (m \<bind> f)"
  by auto

lemma leaves_return [leaves_intros]: "P w \<Longrightarrow> leaves P (Some (b, w))"
  by simp

text \<open>The payload of an RPC without a result: an inline branch of \<^verbatim>\<open>rpc_observer\<close>.\<close>

definition f32_velocity :: "f32 list \<Rightarrow> bool" where
  "f32_velocity v \<longleftrightarrow> f32_finite (v ! 0) \<and> f32_finite (v ! 1) \<and> f32_finite (v ! 2) \<and>
     f32_abs_le 20 (v ! 0) \<and> f32_abs_le 20 (v ! 1) \<and> f32_abs_le 20 (v ! 2)"

definition f32_finite3 :: "f32 list \<Rightarrow> bool" where
  "f32_finite3 v \<longleftrightarrow> f32_finite (v ! 0) \<and> f32_finite (v ! 1) \<and> f32_finite (v ! 2)"

definition f32_100 :: f32 where "f32_100 = 0x42C80000"

section \<open>The body\<close>

record body_net =
  saw_player_pos :: bool
  player_pos :: "f32 list"
  player_pos_seq :: u32
  saw_player_facing :: bool
  player_facing_angle :: f32
  player_facing_seq :: u32
  saw_player_health :: bool
  player_health :: f32
  player_health_seq :: u32
  saw_player_controllable :: bool
  player_controllable :: bool
  player_controllable_seq :: u32
  saw_camera_behind :: bool
  camera_behind_seq :: u32
  player_armour :: f32
  player_armour_seq :: u32
  player_pos_find_z :: "f32 list"
  player_pos_find_z_seq :: u32
  player_velocity :: "f32 list"
  player_velocity_seq :: u32
  remove_player_from_vehicle_seq :: u32
  clear_animations_player_id :: u16
  clear_animations_seq :: u32
  vehicle_velocity_turn :: u8
  vehicle_velocity :: "f32 list"
  vehicle_velocity_seq :: u32

definition reset_body_net :: body_net where
  "reset_body_net = \<lparr>saw_player_pos = False, player_pos = [0, 0, 0], player_pos_seq = 0, saw_player_facing = False,
     player_facing_angle = 0, player_facing_seq = 0, saw_player_health = False, player_health = f32_100,
     player_health_seq = 0, saw_player_controllable = False, player_controllable = True, player_controllable_seq = 0,
     saw_camera_behind = False, camera_behind_seq = 0, player_armour = 0, player_armour_seq = 0,
     player_pos_find_z = [0, 0, 0], player_pos_find_z_seq = 0, player_velocity = [0, 0, 0], player_velocity_seq = 0,
     remove_player_from_vehicle_seq = 0, clear_animations_player_id = 0, clear_animations_seq = 0,
     vehicle_velocity_turn = 0, vehicle_velocity = [0, 0, 0], vehicle_velocity_seq = 0\<rparr>"

definition decode_player_armour_payload :: "u8 list \<Rightarrow> body_net \<Rightarrow> (bool \<times> body_net) mem" where
  "decode_player_armour_payload data w =
     (if length data < 4 then Some (False, w)
      else do {
        armour \<leftarrow> read_le_float data 0;
        if \<not> f32_finite armour \<or> \<not> f32_within 0 10000 armour then Some (False, w)
        else Some (True, w\<lparr>player_armour := armour, player_armour_seq := bump_seq (player_armour_seq w)\<rparr>) })"

definition observe_pos_find_z :: "u8 list \<Rightarrow> body_net \<Rightarrow> (bool \<times> body_net) mem" where
  "observe_pos_find_z data w =
     (if \<not> length data \<ge> 12 then Some (False, w)
      else do {
        pos \<leftarrow> read_vec3 data 0;
        if f32_finite3 pos \<and> f32_between (- 30000) 30000 (pos ! 0) \<and> f32_between (- 30000) 30000 (pos ! 1) \<and>
           f32_between (- 5000) 20000 (pos ! 2)
        then Some (True, w\<lparr>player_pos_find_z := pos, player_pos_find_z_seq := bump_seq (player_pos_find_z_seq w)\<rparr>)
        else Some (False, w) })"

definition observe_velocity :: "u8 list \<Rightarrow> body_net \<Rightarrow> (bool \<times> body_net) mem" where
  "observe_velocity data w =
     (if \<not> length data \<ge> 12 then Some (False, w)
      else do {
        velocity \<leftarrow> read_vec3 data 0;
        if f32_velocity velocity
        then Some (True, w\<lparr>player_velocity := velocity, player_velocity_seq := bump_seq (player_velocity_seq w)\<rparr>)
        else Some (False, w) })"

definition observe_clear_animations :: "u8 list \<Rightarrow> body_net \<Rightarrow> (bool \<times> body_net) mem" where
  "observe_clear_animations data w =
     (if \<not> length data \<ge> 2 then Some (False, w)
      else do {
        i \<leftarrow> read_le16 data 0;
        Some (True, w\<lparr>clear_animations_player_id := i, clear_animations_seq := bump_seq (clear_animations_seq w)\<rparr>) })"

definition observe_vehicle_velocity :: "u8 list \<Rightarrow> body_net \<Rightarrow> (bool \<times> body_net) mem" where
  "observe_vehicle_velocity data w =
     (if \<not> length data \<ge> 13 then Some (False, w)
      else do {
        turn \<leftarrow> read_byte data 0;
        velocity \<leftarrow> read_vec3 data 1;
        if turn \<le> 1 \<and> f32_velocity velocity
        then Some (True, w\<lparr>vehicle_velocity_turn := turn, vehicle_velocity := velocity,
               vehicle_velocity_seq := bump_seq (vehicle_velocity_seq w)\<rparr>)
        else Some (False, w) })"

text \<open>A position and an angle are taken as they come.\<close>

definition observe_player_pos :: "u8 list \<Rightarrow> body_net \<Rightarrow> (bool \<times> body_net) mem" where
  "observe_player_pos data w =
     (if \<not> length data \<ge> 12 then Some (False, w)
      else do {
        pos \<leftarrow> read_vec3 data 0;
        Some (True, w\<lparr>saw_player_pos := True, player_pos := pos, player_pos_seq := bump_seq (player_pos_seq w)\<rparr>) })"

definition observe_player_health :: "u8 list \<Rightarrow> body_net \<Rightarrow> (bool \<times> body_net) mem" where
  "observe_player_health data w =
     (if \<not> length data \<ge> 4 then Some (False, w)
      else do {
        health \<leftarrow> read_le_float data 0;
        if f32_finite health \<and> f32_within 0 10000 health
        then Some (True, w\<lparr>saw_player_health := True, player_health := health, player_health_seq := bump_seq (player_health_seq w)\<rparr>)
        else Some (False, w) })"

definition observe_controllable :: "u8 list \<Rightarrow> body_net \<Rightarrow> (bool \<times> body_net) mem" where
  "observe_controllable data w =
     (if \<not> length data \<ge> 1 then Some (False, w)
      else do {
        b \<leftarrow> read_byte data 0;
        Some (True, w\<lparr>saw_player_controllable := True, player_controllable := b \<noteq> 0,
          player_controllable_seq := bump_seq (player_controllable_seq w)\<rparr>) })"

definition observe_player_facing :: "u8 list \<Rightarrow> body_net \<Rightarrow> (bool \<times> body_net) mem" where
  "observe_player_facing data w =
     (if \<not> length data \<ge> 4 then Some (False, w)
      else do {
        angle \<leftarrow> read_le_float data 0;
        Some (True, w\<lparr>saw_player_facing := True, player_facing_angle := angle, player_facing_seq := bump_seq (player_facing_seq w)\<rparr>) })"

definition observe_body_rpc :: "nat \<Rightarrow> u8 list \<Rightarrow> body_net \<Rightarrow> (bool \<times> body_net) mem" where
  "observe_body_rpc rpc_id data w =
     (if rpc_id = 66 then decode_player_armour_payload data w
      else if rpc_id = 13 then observe_pos_find_z data w
      else if rpc_id = 71 then Some (True, w\<lparr>remove_player_from_vehicle_seq := bump_seq (remove_player_from_vehicle_seq w)\<rparr>)
      else if rpc_id = 90 then observe_velocity data w
      else if rpc_id = 87 then observe_clear_animations data w
      else if rpc_id = 91 then observe_vehicle_velocity data w
      else if rpc_id = 12 then observe_player_pos data w
      else if rpc_id = 14 then observe_player_health data w
      else if rpc_id = 15 then observe_controllable data w
      else if rpc_id = 19 then observe_player_facing data w
      else if rpc_id = 162 then Some (True, w\<lparr>saw_camera_behind := True, camera_behind_seq := bump_seq (camera_behind_seq w)\<rparr>)
      else Some (False, w))"

section \<open>Weapons and money\<close>

definition SAMP_RAKNET_GIVE_WEAPON_EVENT_RING :: nat where "SAMP_RAKNET_GIVE_WEAPON_EVENT_RING = 16"
definition SAMP_RAKNET_GIVE_MONEY_EVENT_RING :: nat where "SAMP_RAKNET_GIVE_MONEY_EVENT_RING = 16"

lemmas goods_consts = SAMP_RAKNET_GIVE_WEAPON_EVENT_RING_def SAMP_RAKNET_GIVE_MONEY_EVENT_RING_def

record samp_raknet_given_weapon_event =
  gw_seq :: u32
  gw_weapon :: u32
  gw_ammo :: u32

record samp_raknet_give_money_event =
  gm_seq :: u32
  gm_amount :: int

record goods_net =
  player_armed_weapon :: u32
  player_armed_weapon_seq :: u32
  player_given_weapon :: u32
  player_given_weapon_ammo :: u32
  player_given_weapon_seq :: u32
  player_given_weapon_events :: "samp_raknet_given_weapon_event list"
  reset_player_weapons_seq :: u32
  reset_player_money_seq :: u32
  give_player_money :: int
  give_player_money_seq :: u32
  give_money_events :: "samp_raknet_give_money_event list"
  player_ammo_weapon :: u8
  player_ammo :: u16
  player_ammo_seq :: u32

definition reset_goods_net :: goods_net where
  "reset_goods_net = \<lparr>player_armed_weapon = 0, player_armed_weapon_seq = 0, player_given_weapon = 0,
     player_given_weapon_ammo = 0, player_given_weapon_seq = 0,
     player_given_weapon_events = replicate SAMP_RAKNET_GIVE_WEAPON_EVENT_RING \<lparr>gw_seq = 0, gw_weapon = 0, gw_ammo = 0\<rparr>,
     reset_player_weapons_seq = 0, reset_player_money_seq = 0, give_player_money = 0, give_player_money_seq = 0,
     give_money_events = replicate SAMP_RAKNET_GIVE_MONEY_EVENT_RING \<lparr>gm_seq = 0, gm_amount = 0\<rparr>,
     player_ammo_weapon = 0, player_ammo = 0, player_ammo_seq = 0\<rparr>"

definition decode_player_armed_weapon_payload :: "u8 list \<Rightarrow> goods_net \<Rightarrow> (bool \<times> goods_net) mem" where
  "decode_player_armed_weapon_payload data w =
     (if length data < 4 then Some (False, w)
      else do {
        weapon \<leftarrow> read_le32 data 0;
        if weapon > 255 then Some (False, w)
        else Some (True, w\<lparr>player_armed_weapon := weapon, player_armed_weapon_seq := bump_seq (player_armed_weapon_seq w)\<rparr>) })"

definition queue_money :: "int \<Rightarrow> goods_net \<Rightarrow> samp_raknet_give_money_event \<times> goods_net" where
  "queue_money amount w =
     (let n = bump_seq (give_player_money_seq w); e = \<lparr>gm_seq = n, gm_amount = amount\<rparr>
      in (e, w\<lparr>give_player_money := amount, give_player_money_seq := n,
               give_money_events := (give_money_events w)[ring_slot SAMP_RAKNET_GIVE_MONEY_EVENT_RING n := e]\<rparr>))"

definition decode_give_player_money_payload :: "u8 list \<Rightarrow> goods_net \<Rightarrow> (bool \<times> goods_net) mem" where
  "decode_give_player_money_payload data w =
     (if length data < 4 then Some (False, w)
      else do {
        amount \<leftarrow> read_le_i32 data 0;
        Some (True, snd (queue_money amount w)) })"

definition decode_player_ammo_payload :: "u8 list \<Rightarrow> goods_net \<Rightarrow> (bool \<times> goods_net) mem" where
  "decode_player_ammo_payload data w =
     (if length data < 3 then Some (False, w)
      else do {
        weapon \<leftarrow> read_byte data 0;
        ammo \<leftarrow> read_le16 data 1;
        if weapon > 46 then Some (False, w)
        else Some (True, w\<lparr>player_ammo_weapon := weapon, player_ammo := ammo, player_ammo_seq := bump_seq (player_ammo_seq w)\<rparr>) })"

definition queue_weapon :: "u32 \<times> u32 \<Rightarrow> goods_net \<Rightarrow> samp_raknet_given_weapon_event \<times> goods_net" where
  "queue_weapon a w = (case a of (weapon, ammo) \<Rightarrow>
     let n = bump_seq (player_given_weapon_seq w); e = \<lparr>gw_seq = n, gw_weapon = weapon, gw_ammo = ammo\<rparr>
     in (e, w\<lparr>player_given_weapon := weapon, player_given_weapon_ammo := ammo, player_given_weapon_seq := n,
              player_given_weapon_events := (player_given_weapon_events w)[ring_slot SAMP_RAKNET_GIVE_WEAPON_EVENT_RING n := e]\<rparr>))"

definition decode_give_player_weapon_payload :: "u8 list \<Rightarrow> goods_net \<Rightarrow> (bool \<times> goods_net) mem" where
  "decode_give_player_weapon_payload data w =
     (if length data < 8 then Some (False, w)
      else do {
        weapon \<leftarrow> read_le32 data 0;
        ammo \<leftarrow> read_le32 data 4;
        if weapon > 255 \<or> ammo > 1000000 then Some (False, w)
        else Some (True, snd (queue_weapon (weapon, ammo) w)) })"

definition observe_goods_rpc :: "nat \<Rightarrow> u8 list \<Rightarrow> goods_net \<Rightarrow> (bool \<times> goods_net) mem" where
  "observe_goods_rpc rpc_id data w =
     (if rpc_id = 18 then decode_give_player_money_payload data w
      else if rpc_id = 145 then decode_player_ammo_payload data w
      else if rpc_id = 20 then Some (True, w\<lparr>reset_player_money_seq := bump_seq (reset_player_money_seq w)\<rparr>)
      else if rpc_id = 21 then Some (True, w\<lparr>reset_player_weapons_seq := bump_seq (reset_player_weapons_seq w)\<rparr>)
      else if rpc_id = 22 then decode_give_player_weapon_payload data w
      else if rpc_id = 67 then decode_player_armed_weapon_payload data w
      else Some (False, w))"

interpretation money_ring: event_ring SAMP_RAKNET_GIVE_MONEY_EVENT_RING gm_seq queue_money give_player_money_seq give_money_events
  by unfold_locales (auto simp: queue_money_def Let_def goods_consts)

interpretation weapon_ring: event_ring SAMP_RAKNET_GIVE_WEAPON_EVENT_RING gw_seq queue_weapon player_given_weapon_seq
    player_given_weapon_events
  by unfold_locales (auto simp: queue_weapon_def Let_def goods_consts)

text \<open>The snapshot loops of these rings count up to the newest number, like those of \<open>RpcWorld\<close>.\<close>

definition money_snapshot :: "goods_net \<Rightarrow> samp_raknet_give_money_event list option" where
  "money_snapshot w = ring_snapshot_upto SAMP_RAKNET_GIVE_MONEY_EVENT_RING gm_seq (give_player_money_seq w) (give_money_events w)"

definition weapon_snapshot :: "goods_net \<Rightarrow> samp_raknet_given_weapon_event list option" where
  "weapon_snapshot w =
     ring_snapshot_upto SAMP_RAKNET_GIVE_WEAPON_EVENT_RING gw_seq (player_given_weapon_seq w) (player_given_weapon_events w)"

section \<open>Traits\<close>

record traits_net =
  player_skin_player_id :: u32
  player_skin :: int
  player_skin_seq :: u32
  player_skill_player_id :: u16
  player_skill :: u32
  player_skill_level :: u16
  player_skill_seq :: u32
  player_drunk_level :: u32
  player_drunk_seq :: u32
  player_fighting_style_player_id :: u16
  player_fighting_style :: u8
  player_fighting_style_seq :: u32
  player_wanted_level :: u8
  player_wanted_level_seq :: u32
  stunt_bonus_enabled :: bool
  stunt_bonus_seq :: u32

definition reset_traits_net :: traits_net where
  "reset_traits_net = \<lparr>player_skin_player_id = 0, player_skin = 0, player_skin_seq = 0, player_skill_player_id = 0,
     player_skill = 0, player_skill_level = 0, player_skill_seq = 0, player_drunk_level = 0, player_drunk_seq = 0,
     player_fighting_style_player_id = 0, player_fighting_style = 0, player_fighting_style_seq = 0,
     player_wanted_level = 0, player_wanted_level_seq = 0, stunt_bonus_enabled = False, stunt_bonus_seq = 0\<rparr>"

definition decode_player_skin_payload :: "u8 list \<Rightarrow> traits_net \<Rightarrow> (bool \<times> traits_net) mem" where
  "decode_player_skin_payload data w =
     (if length data < 8 then Some (False, w)
      else do {
        i \<leftarrow> read_le32 data 0;
        skin \<leftarrow> read_le_i32 data 4;
        if unat i \<ge> SAMP_RAKNET_MAX_PLAYERS then Some (False, w)
        else if skin < 0 \<or> skin > 311 \<or> skin = 74 then Some (False, w)
        else Some (True, w\<lparr>player_skin_player_id := i, player_skin := skin, player_skin_seq := bump_seq (player_skin_seq w)\<rparr>) })"

definition decode_player_skill_payload :: "u8 list \<Rightarrow> traits_net \<Rightarrow> (bool \<times> traits_net) mem" where
  "decode_player_skill_payload data w =
     (if length data < 8 then Some (False, w)
      else do {
        i \<leftarrow> read_le16 data 0;
        skill \<leftarrow> read_le32 data 2;
        level \<leftarrow> read_le16 data 6;
        if unat i \<ge> SAMP_RAKNET_MAX_PLAYERS \<or> skill > 10 \<or> level > 999 then Some (False, w)
        else Some (True, w\<lparr>player_skill_player_id := i, player_skill := skill, player_skill_level := level,
               player_skill_seq := bump_seq (player_skill_seq w)\<rparr>) })"

definition decode_player_drunk_payload :: "u8 list \<Rightarrow> traits_net \<Rightarrow> (bool \<times> traits_net) mem" where
  "decode_player_drunk_payload data w =
     (if length data < 4 then Some (False, w)
      else do {
        level \<leftarrow> read_le32 data 0;
        if level > 50000 then Some (False, w)
        else Some (True, w\<lparr>player_drunk_level := level, player_drunk_seq := bump_seq (player_drunk_seq w)\<rparr>) })"

definition decode_player_fighting_style_payload :: "u8 list \<Rightarrow> traits_net \<Rightarrow> (bool \<times> traits_net) mem" where
  "decode_player_fighting_style_payload data w =
     (if length data < 3 then Some (False, w)
      else do {
        i \<leftarrow> read_le16 data 0;
        style \<leftarrow> read_byte data 2;
        if unat i \<ge> SAMP_RAKNET_MAX_PLAYERS \<or> style \<notin> {4, 5, 6, 7, 15, 16} then Some (False, w)
        else Some (True, w\<lparr>player_fighting_style_player_id := i, player_fighting_style := style,
               player_fighting_style_seq := bump_seq (player_fighting_style_seq w)\<rparr>) })"

definition decode_player_wanted_level_payload :: "u8 list \<Rightarrow> traits_net \<Rightarrow> (bool \<times> traits_net) mem" where
  "decode_player_wanted_level_payload data w =
     (if length data < 1 then Some (False, w)
      else do {
        level \<leftarrow> read_byte data 0;
        Some (True, w\<lparr>player_wanted_level := level, player_wanted_level_seq := bump_seq (player_wanted_level_seq w)\<rparr>) })"

definition observe_stunt_bonus :: "'b bitstream \<Rightarrow> u8 list \<Rightarrow> traits_net \<Rightarrow> (bool \<times> traits_net) mem" where
  "observe_stunt_bonus B data w =
     (if \<not> length data \<ge> 1 then Some (False, w)
      else Some (case bs_bool B (bs_open B data) of
          None \<Rightarrow> (False, w)
        | Some (enabled, _) \<Rightarrow> (True, w\<lparr>stunt_bonus_enabled := enabled, stunt_bonus_seq := bump_seq (stunt_bonus_seq w)\<rparr>)))"

definition observe_traits_rpc :: "'b bitstream \<Rightarrow> nat \<Rightarrow> u8 list \<Rightarrow> traits_net \<Rightarrow> (bool \<times> traits_net) mem" where
  "observe_traits_rpc B rpc_id data w =
     (if rpc_id = 34 then decode_player_skill_payload data w
      else if rpc_id = 35 then decode_player_drunk_payload data w
      else if rpc_id = 89 then decode_player_fighting_style_payload data w
      else if rpc_id = 133 then decode_player_wanted_level_payload data w
      else if rpc_id = 153 then decode_player_skin_payload data w
      else if rpc_id = 104 then observe_stunt_bonus B data w
      else Some (False, w))"

section \<open>What is kept is within bounds\<close>

definition body_ok :: "body_net \<Rightarrow> bool" where
  "body_ok w \<longleftrightarrow> length (player_pos w) = 3 \<and> length (player_pos_find_z w) = 3 \<and> f32_finite3 (player_pos_find_z w) \<and>
     length (player_velocity w) = 3 \<and> f32_velocity (player_velocity w) \<and>
     length (vehicle_velocity w) = 3 \<and> f32_velocity (vehicle_velocity w) \<and> vehicle_velocity_turn w \<le> 1 \<and>
     f32_finite (player_health w) \<and> f32_within 0 10000 (player_health w) \<and>
     f32_finite (player_armour w) \<and> f32_within 0 10000 (player_armour w)"

text \<open>The weapon given last, which the game gets when the events are gone, and the amount granted last are those of the newest
  events.\<close>

definition newest_goods :: "goods_net \<Rightarrow> bool" where
  "newest_goods w \<longleftrightarrow>
     (player_given_weapon_seq w = 0 \<or>
      player_given_weapon_events w ! ring_slot SAMP_RAKNET_GIVE_WEAPON_EVENT_RING (player_given_weapon_seq w) =
        \<lparr>gw_seq = player_given_weapon_seq w, gw_weapon = player_given_weapon w, gw_ammo = player_given_weapon_ammo w\<rparr>) \<and>
     (give_player_money_seq w = 0 \<or>
      give_money_events w ! ring_slot SAMP_RAKNET_GIVE_MONEY_EVENT_RING (give_player_money_seq w) =
        \<lparr>gm_seq = give_player_money_seq w, gm_amount = give_player_money w\<rparr>)"

definition goods_ok :: "goods_net \<Rightarrow> bool" where
  "goods_ok w \<longleftrightarrow> player_armed_weapon w \<le> 255 \<and> player_given_weapon w \<le> 255 \<and> player_given_weapon_ammo w \<le> 1000000 \<and>
     newest_goods w \<and> player_ammo_weapon w \<le> 46 \<and>
     length (player_given_weapon_events w) = SAMP_RAKNET_GIVE_WEAPON_EVENT_RING \<and>
     length (give_money_events w) = SAMP_RAKNET_GIVE_MONEY_EVENT_RING \<and>
     (\<forall>e\<in>set (player_given_weapon_events w). gw_weapon e \<le> 255 \<and> gw_ammo e \<le> 1000000)"

definition traits_ok :: "traits_net \<Rightarrow> bool" where
  "traits_ok w \<longleftrightarrow> unat (player_skin_player_id w) < SAMP_RAKNET_MAX_PLAYERS \<and>
     0 \<le> player_skin w \<and> player_skin w \<le> 311 \<and> player_skin w \<noteq> 74 \<and>
     unat (player_skill_player_id w) < SAMP_RAKNET_MAX_PLAYERS \<and> player_skill w \<le> 10 \<and> player_skill_level w \<le> 999 \<and>
     player_drunk_level w \<le> 50000 \<and> unat (player_fighting_style_player_id w) < SAMP_RAKNET_MAX_PLAYERS \<and>
     player_fighting_style w \<in> {0, 4, 5, 6, 7, 15, 16}"

lemma reset_local_ok: "body_ok reset_body_net" "goods_ok reset_goods_net" "traits_ok reset_traits_net"
proof -
  have z: "f32_scaled 0 = 0" by (simp add: f32_scaled_def f32_exponent_def)
  have h: "f32_exponent f32_100 = 133" "f32_100 AND 0x7FFFFF = 0x480000" "\<not> bit f32_100 31"
    by (simp_all add: f32_exponent_def f32_100_def bit_iff_odd drop_bit_eq_div)
  then have s: "f32_scaled f32_100 = (0x480000 + 2 ^ 23) * 2 ^ 132" by (simp add: f32_scaled_def)
  show "body_ok reset_body_net"
    by (simp add: body_ok_def reset_body_net_def f32_velocity_def f32_finite3_def f32_abs_le_def f32_within_def z s)
      (simp add: f32_finite_def h(1))
qed (simp_all add: goods_ok_def newest_goods_def reset_goods_net_def goods_consts traits_ok_def reset_traits_net_def world_consts)

lemma body_rpc_ok:
  assumes "body_ok w"
  shows "leaves body_ok (observe_body_rpc rpc_id data w)"
  unfolding observe_body_rpc_def decode_player_armour_payload_def observe_pos_find_z_def observe_velocity_def
    observe_clear_animations_def observe_vehicle_velocity_def observe_player_pos_def observe_player_health_def
    observe_controllable_def observe_player_facing_def
  by (intro leaves_intros reads_in)
    (use assms in \<open>auto simp: body_ok_def dest: length_read_vec3\<close>)

lemma goods_ok_queue: "goods_ok w \<Longrightarrow> goods_ok (snd (queue_money amount w))"
  "goods_ok w \<Longrightarrow> weapon \<le> 255 \<Longrightarrow> ammo \<le> 1000000 \<Longrightarrow> goods_ok (snd (queue_weapon (weapon, ammo) w))"
  by (auto simp: goods_ok_def newest_goods_def queue_money_def queue_weapon_def Let_def ring_slot_def goods_consts dest!: in_update)

lemma goods_rpc_ok:
  assumes "goods_ok w"
  shows "leaves goods_ok (observe_goods_rpc rpc_id data w)"
  unfolding observe_goods_rpc_def decode_give_player_money_payload_def decode_player_ammo_payload_def
    decode_give_player_weapon_payload_def decode_player_armed_weapon_payload_def
  by (intro leaves_intros reads_in goods_ok_queue assms) (use assms in \<open>auto simp: goods_ok_def newest_goods_def\<close>)

lemma traits_rpc_ok:
  assumes "traits_ok w"
  shows "leaves traits_ok (observe_traits_rpc B rpc_id data w)"
proof -
  have "leaves traits_ok (observe_stunt_bonus B data w)"
    using assms by (auto simp: observe_stunt_bonus_def traits_ok_def split: option.split)
  then show ?thesis
    unfolding observe_traits_rpc_def decode_player_skill_payload_def decode_player_drunk_payload_def
      decode_player_fighting_style_payload_def decode_player_wanted_level_payload_def decode_player_skin_payload_def
    by (intro leaves_intros reads_in) (use assms in \<open>auto simp: traits_ok_def\<close>)
qed

text \<open>The branches of the observer for the local player, one RPC after the other.\<close>

definition observe_local_rpc ::
  "'b bitstream \<Rightarrow> nat \<times> u8 list \<Rightarrow> body_net \<times> goods_net \<times> traits_net \<Rightarrow> (body_net \<times> goods_net \<times> traits_net) mem" where
  "observe_local_rpc B x s = (case s of (b, g, t) \<Rightarrow> do {
     (_, b) \<leftarrow> observe_body_rpc (fst x) (snd x) b;
     (_, g) \<leftarrow> observe_goods_rpc (fst x) (snd x) g;
     (_, t) \<leftarrow> observe_traits_rpc B (fst x) (snd x) t;
     Some (b, g, t) })"

fun observe_local_rpcs ::
  "'b bitstream \<Rightarrow> (nat \<times> u8 list) list \<Rightarrow> body_net \<times> goods_net \<times> traits_net \<Rightarrow> (body_net \<times> goods_net \<times> traits_net) mem" where
  "observe_local_rpcs B [] s = Some s"
| "observe_local_rpcs B (x # xs) s = do { s \<leftarrow> observe_local_rpc B x s; observe_local_rpcs B xs s }"

definition local_ok :: "body_net \<times> goods_net \<times> traits_net \<Rightarrow> bool" where
  "local_ok s = (case s of (b, g, t) \<Rightarrow> body_ok b \<and> goods_ok g \<and> traits_ok t)"

lemma observe_local_rpc_ok:
  assumes "local_ok s"
  shows "\<exists>s'. observe_local_rpc B x s = Some s' \<and> local_ok s'"
proof -
  obtain b g t where s: "s = (b, g, t)" by (cases s)
  show ?thesis
    using body_rpc_ok[of b "fst x" "snd x"] goods_rpc_ok[of g "fst x" "snd x"] traits_rpc_ok[of t B "fst x" "snd x"] assms
    by (auto simp: s local_ok_def observe_local_rpc_def leaves_iff)
qed

lemma observe_local_rpcs_ok: "local_ok s \<Longrightarrow> \<exists>s'. observe_local_rpcs B xs s = Some s' \<and> local_ok s'"
proof (induction xs arbitrary: s)
  case (Cons x xs)
  from observe_local_rpc_ok[OF Cons.prems] obtain s1 where "observe_local_rpc B x s = Some s1" "local_ok s1" by blast
  with Cons.IH[of s1] show ?case by simp
qed simp

text \<open>C20: Whatever RPCs for the local player arrive, in whatever order and with whatever payloads, the decoders never read
  outside a payload, and what they leave for the game is in range: speeds of at most 20 along each axis, health and armour between 0 and
  10000, the armed weapon, the weapon given last and every weapon of the event ring at most 255, given ammunition at most
  1000000, skins, skills and fighting styles the game knows, and event rings of 16 entries, in which the newest entries are
  the weapon given last and the money granted last.\<close>

theorem local_rpcs_in_bounds:
  "\<exists>s. observe_local_rpcs B xs (reset_body_net, reset_goods_net, reset_traits_net) = Some s \<and> local_ok s"
  by (rule observe_local_rpcs_ok) (simp add: local_ok_def reset_local_ok)

end
