(* ===== verification/LocalEffects.thy ===== *)
theory LocalEffects
  imports RpcLocal
begin

text \<open>
  What the graphics thread does with the weapons and the money of the snapshot, in \<^verbatim>\<open>src/runtime_bridge.c\<close>: the
  network step (the part of the function that starts at line 25100) takes a snapshot after each pump and applies money
  at once; the session bridge (line 31100 on) applies weapons and the resets, when there is a player.

  The game is a parameter: its state \<open>'g\<close>, the cell that holds the money, and the script commands and game functions the code
  calls, each of which may fail. The host of the model is that game with the count of failed script commands and, for the
  statements, the money commands sent to the game with whether they were carried out.
\<close>

section \<open>The game\<close>

record 'g game_ops =
  add_money :: "u32 \<Rightarrow> 'g \<Rightarrow> bool \<times> 'g"
  money_cell :: "'g \<Rightarrow> u32"
  money_readable :: "'g \<Rightarrow> bool"
  clear_weapons_direct :: "'g \<Rightarrow> bool \<times> 'g"
  clear_weapons_script :: "'g \<Rightarrow> bool \<times> 'g"
  load_weapon_model :: "u32 \<Rightarrow> 'g \<Rightarrow> (bool \<times> nat) \<times> 'g"
  give_weapon_direct :: "u32 \<Rightarrow> u32 \<Rightarrow> 'g \<Rightarrow> bool \<times> 'g"
  give_weapon_script :: "u32 \<Rightarrow> u32 \<Rightarrow> 'g \<Rightarrow> bool \<times> 'g"
  arm_weapon :: "u32 \<Rightarrow> 'g \<Rightarrow> bool \<times> 'g"
  set_ammo :: "u8 \<Rightarrow> u16 \<Rightarrow> 'g \<Rightarrow> 'g"

text \<open>
  What script command 0x0109 does: where it is carried out it adds to the 32-bit money, and where it fails the money stays.
  The weapon commands leave the money alone.
\<close>

definition game_ok :: "'g game_ops \<Rightarrow> bool" where
  "game_ok G \<longleftrightarrow>
     (\<forall>a g. money_cell G (snd (add_money G a g)) = money_cell G g + (if fst (add_money G a g) then a else 0)) \<and>
     (\<forall>g. money_cell G (snd (clear_weapons_direct G g)) = money_cell G g) \<and>
     (\<forall>g. money_cell G (snd (clear_weapons_script G g)) = money_cell G g) \<and>
     (\<forall>a g. money_cell G (snd (load_weapon_model G a g)) = money_cell G g) \<and>
     (\<forall>a b g. money_cell G (snd (give_weapon_direct G a b g)) = money_cell G g) \<and>
     (\<forall>a b g. money_cell G (snd (give_weapon_script G a b g)) = money_cell G g) \<and>
     (\<forall>a g. money_cell G (snd (arm_weapon G a g)) = money_cell G g) \<and>
     (\<forall>a b g. money_cell G (set_ammo G a b g) = money_cell G g)"

record 'g host =
  host_game :: 'g
  mp_session_script_failures :: nat
  money_commands :: "(u32 \<times> bool) list"

text \<open>One script command and the count of the failures: \<^verbatim>\<open>if (!gta_script_command_compat(...)) mp_bridge_record_script_failure(...)\<close>.\<close>

definition mp_bridge_record_script_failure :: "'g host \<Rightarrow> 'g host" where
  "mp_bridge_record_script_failure h = h\<lparr>mp_session_script_failures := mp_session_script_failures h + 1\<rparr>"

definition script_command :: "('g \<Rightarrow> bool \<times> 'g) \<Rightarrow> 'g host \<Rightarrow> 'g host" where
  "script_command f h = (case f (host_game h) of (ok, g) \<Rightarrow>
     if ok then h\<lparr>host_game := g\<rparr> else mp_bridge_record_script_failure (h\<lparr>host_game := g\<rparr>))"

definition change_money :: "'g game_ops \<Rightarrow> u32 \<Rightarrow> 'g host \<Rightarrow> 'g host" where
  "change_money G a h =
     script_command (add_money G a) (h\<lparr>money_commands := money_commands h @ [(a, fst (add_money G a (host_game h)))]\<rparr>)"

section \<open>Weapons of the local player\<close>

definition SAMP_REMOTE_PLAYER_MAX_WEAPON :: u32 where "SAMP_REMOTE_PLAYER_MAX_WEAPON = 46"

definition local_weapon_valid_compat :: "u32 \<Rightarrow> bool" where
  "local_weapon_valid_compat weapon \<longleftrightarrow> weapon \<le> SAMP_REMOTE_PLAYER_MAX_WEAPON"

text \<open>\<open>load_weapon_model\<close> is \<^verbatim>\<open>gta_local_request_weapon_model_compat\<close>: whether the model is there, and the script commands that failed.\<close>

definition gta_local_give_weapon_compat :: "'g game_ops \<Rightarrow> u32 \<Rightarrow> u32 \<Rightarrow> 'g host \<Rightarrow> 'g host" where
  "gta_local_give_weapon_compat G weapon ammo h =
     (if \<not> local_weapon_valid_compat weapon \<or> weapon = 0 then h
      else let ammo = (if ammo = 0 \<or> ammo > 1000000 then 9999 else ammo) in
        (case load_weapon_model G weapon (host_game h) of ((model_ok, failed), g) \<Rightarrow>
          (case (if model_ok then give_weapon_direct G weapon ammo g else (False, g)) of (direct_ok, g) \<Rightarrow>
            let h = h\<lparr>host_game := g, mp_session_script_failures := mp_session_script_failures h + failed\<rparr>;
                h = (if direct_ok then h else script_command (give_weapon_script G weapon ammo) h)
            in script_command (arm_weapon G weapon) h)))"

section \<open>The numbers applied so far\<close>

record goods_bridge =
  raknet_armed_weapon :: u32
  raknet_armed_weapon_seq :: u32
  raknet_given_weapon :: u32
  raknet_given_weapon_ammo :: u32
  raknet_given_weapon_seq :: u32
  raknet_given_weapon_events :: "samp_raknet_given_weapon_event list"
  raknet_reset_weapons_seq :: u32
  raknet_reset_money_seq :: u32
  applied_give_money_seq :: u32
  applied_ammo_seq :: u32
  applied_armed_weapon_seq :: u32
  applied_given_weapon_seq :: u32
  applied_reset_weapons_seq :: u32
  applied_reset_money_seq :: u32

definition goods_bridge_reset :: goods_bridge where
  "goods_bridge_reset = \<lparr>raknet_armed_weapon = 0, raknet_armed_weapon_seq = 0, raknet_given_weapon = 0,
     raknet_given_weapon_ammo = 0, raknet_given_weapon_seq = 0, raknet_given_weapon_events = [],
     raknet_reset_weapons_seq = 0, raknet_reset_money_seq = 0, applied_give_money_seq = 0, applied_ammo_seq = 0,
     applied_armed_weapon_seq = 0, applied_given_weapon_seq = 0, applied_reset_weapons_seq = 0, applied_reset_money_seq = 0\<rparr>"

section \<open>The network step\<close>

definition prepare_armed_weapon :: "goods_net \<Rightarrow> goods_bridge \<Rightarrow> goods_bridge" where
  "prepare_armed_weapon w b =
     (if player_armed_weapon_seq w \<noteq> 0 \<and> player_armed_weapon_seq w \<noteq> raknet_armed_weapon_seq b
      then b\<lparr>raknet_armed_weapon := player_armed_weapon w, raknet_armed_weapon_seq := player_armed_weapon_seq w\<rparr> else b)"

definition prepare_given_weapons :: "goods_net \<Rightarrow> samp_raknet_given_weapon_event list \<Rightarrow> goods_bridge \<Rightarrow> goods_bridge" where
  "prepare_given_weapons w events b =
     (if player_given_weapon_seq w \<noteq> 0 \<and> player_given_weapon_seq w \<noteq> raknet_given_weapon_seq b
      then b\<lparr>raknet_given_weapon := player_given_weapon w, raknet_given_weapon_ammo := player_given_weapon_ammo w,
             raknet_given_weapon_events := take SAMP_RAKNET_GIVE_WEAPON_EVENT_RING events,
             raknet_given_weapon_seq := player_given_weapon_seq w\<rparr> else b)"

definition prepare_resets :: "goods_net \<Rightarrow> goods_bridge \<Rightarrow> goods_bridge" where
  "prepare_resets w b =
     (let b = (if reset_player_weapons_seq w \<noteq> 0 \<and> reset_player_weapons_seq w \<noteq> raknet_reset_weapons_seq b
               then b\<lparr>raknet_reset_weapons_seq := reset_player_weapons_seq w\<rparr> else b)
      in if reset_player_money_seq w \<noteq> 0 \<and> reset_player_money_seq w \<noteq> raknet_reset_money_seq b
         then b\<lparr>raknet_reset_money_seq := reset_player_money_seq w\<rparr> else b)"

text \<open>One grant of the copied ring: it counts as applied when its number lies after the last one applied before this step, also when the script command fails.\<close>

definition apply_money_event ::
  "'g game_ops \<Rightarrow> u32 \<Rightarrow> u32 \<Rightarrow> samp_raknet_give_money_event \<Rightarrow> u32 \<times> 'g host \<Rightarrow> u32 \<times> 'g host" where
  "apply_money_event G previous newest e lh = (case lh of (latest, h) \<Rightarrow>
     if gm_seq e > previous \<and> gm_seq e \<le> newest then (gm_seq e, change_money G (of_int (gm_amount e)) h) else (latest, h))"

definition prepare_money ::
  "'g game_ops \<Rightarrow> goods_net \<Rightarrow> samp_raknet_give_money_event list \<Rightarrow> goods_bridge \<times> 'g host \<Rightarrow> goods_bridge \<times> 'g host" where
  "prepare_money G w events bh = (case bh of (b, h) \<Rightarrow>
     let previous = applied_give_money_seq b; newest = give_player_money_seq w
     in if newest \<noteq> 0 \<and> newest \<noteq> previous then
          let (latest, h) = fold (apply_money_event G previous newest) (take SAMP_RAKNET_GIVE_MONEY_EVENT_RING events) (previous, h);
              (latest, h) = (if latest = previous then (newest, change_money G (of_int (give_player_money w)) h) else (latest, h))
          in (b\<lparr>applied_give_money_seq := latest\<rparr>, h)
        else (b, h))"

definition prepare_ammo :: "'g game_ops \<Rightarrow> goods_net \<Rightarrow> goods_bridge \<times> 'g host \<Rightarrow> goods_bridge \<times> 'g host" where
  "prepare_ammo G w bh = (case bh of (b, h) \<Rightarrow>
     if player_ammo_seq w \<noteq> 0 \<and> player_ammo_seq w \<noteq> applied_ammo_seq b
     then (b\<lparr>applied_ammo_seq := player_ammo_seq w\<rparr>, h\<lparr>host_game := set_ammo G (player_ammo_weapon w) (player_ammo w) (host_game h)\<rparr>)
     else (b, h))"

definition prepare_goods :: "'g game_ops \<Rightarrow> goods_net \<Rightarrow> goods_bridge \<times> 'g host \<Rightarrow> (goods_bridge \<times> 'g host) option" where
  "prepare_goods G w bh = do {
     grants \<leftarrow> money_snapshot w;
     weapons \<leftarrow> weapon_snapshot w;
     let b = prepare_resets w (prepare_given_weapons w weapons (prepare_armed_weapon w (fst bh)));
     Some (prepare_ammo G w (prepare_money G w grants (b, snd bh))) }"

section \<open>The session bridge\<close>

definition clear_local_weapons :: "'g game_ops \<Rightarrow> 'g host \<Rightarrow> 'g host" where
  "clear_local_weapons G h = (case clear_weapons_direct G (host_game h) of (direct_ok, g) \<Rightarrow>
     let h = h\<lparr>host_game := g\<rparr> in if direct_ok then h else script_command (clear_weapons_script G) h)"

definition bridge_reset_weapons :: "'g game_ops \<Rightarrow> goods_bridge \<times> 'g host \<Rightarrow> goods_bridge \<times> 'g host" where
  "bridge_reset_weapons G bh = (case bh of (b, h) \<Rightarrow>
     if raknet_reset_weapons_seq b \<noteq> 0 \<and> raknet_reset_weapons_seq b \<noteq> applied_reset_weapons_seq b
     then (b\<lparr>applied_reset_weapons_seq := raknet_reset_weapons_seq b\<rparr>, clear_local_weapons G h) else (b, h))"

definition apply_weapon_event ::
  "'g game_ops \<Rightarrow> u32 \<Rightarrow> u32 \<Rightarrow> samp_raknet_given_weapon_event \<Rightarrow> u32 \<times> 'g host \<Rightarrow> u32 \<times> 'g host" where
  "apply_weapon_event G applied newest e lh = (case lh of (latest, h) \<Rightarrow>
     if gw_seq e \<noteq> 0 \<and> gw_seq e > applied \<and> gw_seq e \<le> newest
     then (gw_seq e, gta_local_give_weapon_compat G (gw_weapon e) (gw_ammo e) h) else (latest, h))"

definition bridge_given_weapons :: "'g game_ops \<Rightarrow> goods_bridge \<times> 'g host \<Rightarrow> goods_bridge \<times> 'g host" where
  "bridge_given_weapons G bh = (case bh of (b, h) \<Rightarrow>
     let applied = applied_given_weapon_seq b; newest = raknet_given_weapon_seq b
     in if newest \<noteq> 0 \<and> newest \<noteq> applied then
          let (latest, h) = fold (apply_weapon_event G applied newest)
                (take SAMP_RAKNET_GIVE_WEAPON_EVENT_RING (raknet_given_weapon_events b)) (applied, h);
              (latest, h) = (if latest = applied
                then (newest, gta_local_give_weapon_compat G (raknet_given_weapon b) (raknet_given_weapon_ammo b) h) else (latest, h))
          in (b\<lparr>applied_given_weapon_seq := latest\<rparr>, h)
        else (b, h))"

definition bridge_armed_weapon :: "'g game_ops \<Rightarrow> goods_bridge \<times> 'g host \<Rightarrow> goods_bridge \<times> 'g host" where
  "bridge_armed_weapon G bh = (case bh of (b, h) \<Rightarrow>
     if raknet_armed_weapon_seq b \<noteq> 0 \<and> raknet_armed_weapon_seq b \<noteq> applied_armed_weapon_seq b \<and> raknet_armed_weapon b \<le> 255
     then (b\<lparr>applied_armed_weapon_seq := raknet_armed_weapon_seq b\<rparr>, script_command (arm_weapon G (raknet_armed_weapon b)) h) else (b, h))"

definition bridge_reset_money :: "'g game_ops \<Rightarrow> goods_bridge \<times> 'g host \<Rightarrow> goods_bridge \<times> 'g host" where
  "bridge_reset_money G bh = (case bh of (b, h) \<Rightarrow>
     if raknet_reset_money_seq b \<noteq> 0 \<and> raknet_reset_money_seq b \<noteq> applied_reset_money_seq b
     then let money = (if money_readable G (host_game h) then money_cell G (host_game h) else 0)
          in (b\<lparr>applied_reset_money_seq := raknet_reset_money_seq b\<rparr>, if money \<noteq> 0 then change_money G (- money) h else h)
     else (b, h))"

definition bridge_goods :: "'g game_ops \<Rightarrow> goods_bridge \<times> 'g host \<Rightarrow> goods_bridge \<times> 'g host" where
  "bridge_goods G bh = bridge_reset_money G (bridge_armed_weapon G (bridge_given_weapons G (bridge_reset_weapons G bh)))"

section \<open>Frames\<close>

text \<open>What arrived before a frame, and whether the session bridge runs in it.\<close>

record frame =
  arrived :: "(nat \<times> u8 list) list"
  bridged :: bool

fun observe_goods_rpcs :: "(nat \<times> u8 list) list \<Rightarrow> goods_net \<Rightarrow> goods_net mem" where
  "observe_goods_rpcs [] w = Some w"
| "observe_goods_rpcs (x # xs) w = do { (_, w) \<leftarrow> observe_goods_rpc (fst x) (snd x) w; observe_goods_rpcs xs w }"

definition goods_frame :: "'g game_ops \<Rightarrow> frame \<Rightarrow> goods_net \<times> goods_bridge \<times> 'g host \<Rightarrow> (goods_net \<times> goods_bridge \<times> 'g host) option" where
  "goods_frame G f s = (case s of (w, bh) \<Rightarrow> do {
     w \<leftarrow> observe_goods_rpcs (arrived f) w;
     bh \<leftarrow> prepare_goods G w bh;
     Some (w, if bridged f then bridge_goods G bh else bh) })"

fun goods_frames :: "'g game_ops \<Rightarrow> frame list \<Rightarrow> goods_net \<times> goods_bridge \<times> 'g host \<Rightarrow> (goods_net \<times> goods_bridge \<times> 'g host) option" where
  "goods_frames G [] s = Some s"
| "goods_frames G (f # fs) s = do { s \<leftarrow> goods_frame G f s; goods_frames G fs s }"

text \<open>The money the server grants with one RPC.\<close>

definition money_granted :: "nat \<times> u8 list \<Rightarrow> int list" where
  "money_granted x = (if fst x = 18 then (case read_le_i32 (snd x) 0 of None \<Rightarrow> [] | Some a \<Rightarrow> [a]) else [])"

definition grants :: "(nat \<times> u8 list) list \<Rightarrow> int list" where
  "grants xs = concat (map money_granted xs)"

section \<open>Every grant counts once\<close>

lemma observe_goods_money:
  "\<exists>ok w'. observe_goods_rpc (fst x) (snd x) w = Some (ok, w') \<and> (fst x \<noteq> 20 \<longrightarrow> reset_player_money_seq w' = reset_player_money_seq w) \<and>
    (money_granted x = [] \<and> give_player_money_seq w' = give_player_money_seq w \<and> give_money_events w' = give_money_events w \<or>
     (\<exists>a. money_granted x = [a] \<and> w' = snd (queue_money a w)))"
proof (cases "fst x = 18")
  case True
  show ?thesis
  proof (cases "length (snd x) < 4")
    case True
    then show ?thesis using \<open>fst x = 18\<close>
      by (simp add: observe_goods_rpc_def decode_give_player_money_payload_def money_granted_def read_le_i32_def read_le32_def) blast
  next
    case False
    then obtain a where "read_le_i32 (snd x) 0 = Some a" using read_le_i32_in[of 0 "snd x"] by auto
    then show ?thesis using \<open>fst x = 18\<close> False
      by (simp add: observe_goods_rpc_def decode_give_player_money_payload_def money_granted_def queue_money_def Let_def) blast
  qed
next
  case False
  let ?P = "\<lambda>w'. (fst x \<noteq> 20 \<longrightarrow> reset_player_money_seq w' = reset_player_money_seq w) \<and>
    give_player_money_seq w' = give_player_money_seq w \<and> give_money_events w' = give_money_events w"
  have "leaves ?P (observe_goods_rpc (fst x) (snd x) w)"
    unfolding observe_goods_rpc_def decode_player_ammo_payload_def decode_give_player_weapon_payload_def decode_player_armed_weapon_payload_def
    by (intro leaves_intros reads_in) (use False in \<open>auto simp: queue_weapon_def Let_def\<close>)
  then obtain ok w' where "observe_goods_rpc (fst x) (snd x) w = Some (ok, w')" "?P w'" by (auto simp: leaves_iff)
  then show ?thesis using False by (intro exI[of _ ok] exI[of _ w']) (simp add: money_granted_def)
qed

definition money_history :: "samp_raknet_give_money_event list \<Rightarrow> goods_net \<Rightarrow> bool" where
  "money_history h w \<longleftrightarrow> ring_holds SAMP_RAKNET_GIVE_MONEY_EVENT_RING gm_seq h (give_player_money_seq w) (give_money_events w)"

lemma money_history_rpcs:
  assumes "money_history h w" "length h + length (grants xs) < 4294967295" "reset_player_money_seq w = 0" "20 \<notin> fst ` set xs"
  shows "\<exists>w' h'. observe_goods_rpcs xs w = Some w' \<and> money_history (h @ h') w' \<and> map gm_amount h' = grants xs \<and>
    reset_player_money_seq w' = 0"
  using assms
proof (induction xs arbitrary: w h)
  case (Cons x xs)
  obtain ok w1 where w1: "observe_goods_rpc (fst x) (snd x) w = Some (ok, w1)" "reset_player_money_seq w1 = 0"
    "money_granted x = [] \<and> give_player_money_seq w1 = give_player_money_seq w \<and> give_money_events w1 = give_money_events w \<or>
     (\<exists>a. money_granted x = [a] \<and> w1 = snd (queue_money a w))"
    using observe_goods_money[of x w] Cons.prems(3,4) by auto
  from w1(3) consider (none) "money_granted x = []" "money_history h w1"
    | (some) a where "money_granted x = [a]" "w1 = snd (queue_money a w)"
    using Cons.prems(1) by (auto simp: money_history_def)
  then show ?case
  proof cases
    case none
    then show ?thesis using Cons.IH[OF none(2) _ w1(2)] Cons.prems(2,4) w1(1) by (simp add: grants_def)
  next
    case some
    obtain e where q: "queue_money a w = (e, w1)" using some(2) by (cases "queue_money a w") simp
    have e: "gm_amount e = a" using q by (auto simp: queue_money_def Let_def)
    have "money_history (h @ [e]) w1"
      using money_ring.queue_holds[OF Cons.prems(1)[unfolded money_history_def] q] Cons.prems(2) some(1)
      by (simp add: money_history_def grants_def)
    from Cons.IH[OF this _ w1(2)] Cons.prems(2,4) some(1) obtain w' h' where
      "observe_goods_rpcs xs w1 = Some w'" "money_history (h @ e # h') w'" "map gm_amount h' = grants xs" "reset_player_money_seq w' = 0"
      by (auto simp: grants_def)
    then show ?thesis using w1(1) e some(1) by (intro exI[of _ w'] exI[of _ "e # h'"]) (simp add: grants_def)
  qed
qed (simp add: grants_def)

lemma of_nat_unat_self: "of_nat (unat (w :: u32)) = w"
  by simp

text \<open>
  What the amounts \<open>as\<close> make of a host: one money command each, in their order, and the money grown by those that were
  carried out.
\<close>

definition money_paid :: "'g game_ops \<Rightarrow> int list \<Rightarrow> 'g host \<Rightarrow> 'g host \<Rightarrow> bool" where
  "money_paid G as h h' \<longleftrightarrow> (\<exists>done. money_commands h' = money_commands h @ done \<and> map fst done = map of_int as \<and>
     money_cell G (host_game h') = money_cell G (host_game h) + sum_list (map fst (filter snd done)))"

lemma money_paid_none: "money_commands h' = money_commands h \<Longrightarrow> money_cell G (host_game h') = money_cell G (host_game h) \<Longrightarrow> money_paid G [] h h'"
  by (simp add: money_paid_def)

lemma money_paid_append:
  assumes "money_paid G as h1 h2" "money_paid G bs h2 h3"
  shows "money_paid G (as @ bs) h1 h3"
proof -
  obtain done1 where 1: "money_commands h2 = money_commands h1 @ done1" "map fst done1 = map of_int as"
    "money_cell G (host_game h2) = money_cell G (host_game h1) + sum_list (map fst (filter snd done1))"
    using assms(1) by (auto simp: money_paid_def)
  obtain done2 where 2: "money_commands h3 = money_commands h2 @ done2" "map fst done2 = map of_int bs"
    "money_cell G (host_game h3) = money_cell G (host_game h2) + sum_list (map fst (filter snd done2))"
    using assms(2) by (auto simp: money_paid_def)
  show ?thesis unfolding money_paid_def by (rule exI[of _ "done1 @ done2"]) (simp add: 1 2 add.assoc)
qed

lemma money_paid_one:
  assumes "game_ok G"
  shows "money_paid G [a] h (change_money G (of_int a) h)"
proof -
  obtain ok g where c: "add_money G (of_int a) (host_game h) = (ok, g)" by fastforce
  have "money_cell G (snd (add_money G (of_int a) (host_game h))) =
      money_cell G (host_game h) + (if fst (add_money G (of_int a) (host_game h)) then of_int a else 0)"
    using assms by (simp add: game_ok_def)
  then have "money_cell G g = money_cell G (host_game h) + (if ok then of_int a else 0)" by (simp add: c)
  then show ?thesis unfolding money_paid_def
    by (intro exI[of _ "[(of_int a, ok)]"])
      (auto simp: change_money_def script_command_def mp_bridge_record_script_failure_def c)
qed

lemma fold_money_events:
  assumes "game_ok G" "fold (apply_money_event G previous newest) xs (latest, h) = (latest', h')"
  shows "money_paid G (map gm_amount (filter (\<lambda>e. gm_seq e > previous \<and> gm_seq e \<le> newest) xs)) h h' \<and>
    latest' = (if filter (\<lambda>e. gm_seq e > previous \<and> gm_seq e \<le> newest) xs = [] then latest
      else gm_seq (last (filter (\<lambda>e. gm_seq e > previous \<and> gm_seq e \<le> newest) xs)))"
  using assms(2)
proof (induction xs arbitrary: latest h)
  case Nil
  then show ?case by (simp add: money_paid_none)
next
  case (Cons e xs)
  obtain l1 h1 where s: "apply_money_event G previous newest e (latest, h) = (l1, h1)" by fastforce
  have "fold (apply_money_event G previous newest) xs (l1, h1) = (latest', h')" using Cons.prems s by simp
  from Cons.IH[OF this] s money_paid_append[OF money_paid_one[OF assms(1), of "gm_amount e" h]] show ?case
    by (auto simp: apply_money_event_def split: if_splits)
qed

lemma fresh_events:
  assumes "ring_holds N gm_seq h n ring" "length h = k + length t" "drop k h = t" "k < 4294967295" "length h < 4294967295" "length t \<le> N"
  shows "filter (\<lambda>e. gm_seq e > of_nat k \<and> gm_seq e \<le> n) (drop (length h - N) h) = t"
proof -
  let ?f = "\<lambda>e. gm_seq e > (of_nat k :: u32) \<and> gm_seq e \<le> n"
  have n: "unat n = length h" and num: "\<And>j. j < length h \<Longrightarrow> gm_seq (h ! j) = of_nat (j + 1)"
    using assms(1) by (auto simp: ring_holds_def)
  have fresh: "?f (h ! j) \<longleftrightarrow> k \<le> j" if "j < length h" for j
  proof -
    have "unat (of_nat (j + 1) :: u32) = j + 1" "unat (of_nat k :: u32) = k"
      using that assms(4,5) by (simp_all add: unat_of_nat_u32 del: of_nat_Suc)
    then show ?thesis using that n by (auto simp: num word_less_nat_alt word_le_nat_alt simp del: of_nat_Suc)
  qed
  have front: "filter ?f (take m h) = []" if "m \<le> k" for m
  proof -
    have "\<not> ?f e" if mem: "e \<in> set (take m h)" for e
    proof -
      obtain i where i: "h ! i = e" "i < m" "i < length h"
        using mem by (auto simp: in_set_conv_nth)
      then show ?thesis using fresh[OF i(3)] \<open>m \<le> k\<close> by simp
    qed
    then show ?thesis by (simp add: filter_empty_conv)
  qed
  have "?f e" if mem: "e \<in> set t" for e
  proof -
    obtain i where i: "t ! i = e" "i < length t" using mem by (auto simp: in_set_conv_nth)
    have "k \<le> length h" using assms(2) by simp
    then have "drop k h ! i = h ! (k + i)" by simp
    then have "h ! (k + i) = e" using i(1) by (simp add: assms(3))
    then show ?thesis using fresh[of "k + i"] i assms(2) by simp
  qed
  then have t: "filter ?f t = t" by simp
  have "filter ?f h = filter ?f (take k h) @ filter ?f (drop k h)" by (metis append_take_drop_id filter_append)
  then have all: "filter ?f h = t" using front[of k] t assms(3) by simp
  have "filter ?f h = filter ?f (take (length h - N) h) @ filter ?f (drop (length h - N) h)" by (metis append_take_drop_id filter_append)
  then show ?thesis using front[of "length h - N"] assms(2,6) all by simp
qed

lemma prepare_money_grants:
  assumes "game_ok G" "money_history (h @ t) w" "length t \<le> 16" "length h + length t < 4294967295"
    "applied_give_money_seq b = of_nat (length h)"
  shows "\<exists>b' h'. prepare_money G w (drop (length (h @ t) - 16) (h @ t)) (b, h0) = (b', h') \<and>
    applied_give_money_seq b' = of_nat (length (h @ t)) \<and> raknet_reset_money_seq b' = raknet_reset_money_seq b \<and>
    money_paid G (map gm_amount t) h0 h'"
proof -
  let ?xs = "drop (length (h @ t) - 16) (h @ t)" and ?n = "give_player_money_seq w"
  have hold: "ring_holds 16 gm_seq (h @ t) ?n (give_money_events w)" using assms(2) by (simp add: money_history_def goods_consts)
  have "unat ?n = length (h @ t)" using hold by (simp only: ring_holds_def)
  then have n: "?n = of_nat (length (h @ t))" by (metis of_nat_unat_self)
  have fresh: "filter (\<lambda>e. gm_seq e > of_nat (length h) \<and> gm_seq e \<le> ?n) ?xs = t"
    by (rule fresh_events[OF hold]) (use assms(3,4) in auto)
  show ?thesis
  proof (cases "t = []")
    case True
    then show ?thesis using n assms(5) by (simp add: prepare_money_def money_paid_none Let_def)
  next
    case False
    have ne: "?n \<noteq> of_nat (length h)" "?n \<noteq> 0"
      using False assms(4) of_nat_u32_inj[of "length (h @ t)" "length h"] of_nat_u32_inj[of "length (h @ t)" 0] by (auto simp: n)
    obtain l h' where f: "fold (apply_money_event G (of_nat (length h)) ?n) ?xs (of_nat (length h), h0) = (l, h')" by fastforce
    have "gm_seq (last t) = ?n"
    proof -
      have "gm_seq ((h @ t) ! (length (h @ t) - 1)) = of_nat (length (h @ t) - 1 + 1)"
        using hold False unfolding ring_holds_def by (metis add_pos_nonneg diff_less length_append length_greater_0_conv zero_le zero_less_one add.commute)
      moreover have "(h @ t) ! (length (h @ t) - 1) = last t" using False by (metis append_is_Nil_conv last_appendR last_conv_nth)
      ultimately show ?thesis using n False by (metis Suc_eq_plus1 Suc_pred' append_is_Nil_conv length_greater_0_conv)
    qed
    then have "l = ?n" "money_paid G (map gm_amount t) h0 h'"
      using fold_money_events[OF assms(1) f] False unfolding fresh by simp_all
    moreover have "take 16 ?xs = ?xs" by simp
    ultimately show ?thesis using f ne assms(5) n by (simp add: prepare_money_def Let_def goods_consts)
  qed
qed

text \<open>Steps that touch no money: neither the cell nor the commands sent change.\<close>

definition same_money :: "'g game_ops \<Rightarrow> 'g host \<Rightarrow> 'g host \<Rightarrow> bool" where
  "same_money G h h' \<longleftrightarrow> money_commands h' = money_commands h \<and> money_cell G (host_game h') = money_cell G (host_game h)"

lemma same_money_trans [trans]: "same_money G h1 h2 \<Longrightarrow> same_money G h2 h3 \<Longrightarrow> same_money G h1 h3"
  by (simp add: same_money_def)

lemma same_money_refl [simp]: "same_money G h h"
  by (simp add: same_money_def)

lemma same_money_command:
  assumes "\<forall>g. money_cell G (snd (f g)) = money_cell G g"
  shows "same_money G h (script_command f h)"
proof -
  obtain ok g where c: "f (host_game h) = (ok, g)" by fastforce
  have "money_cell G (snd (f (host_game h))) = money_cell G (host_game h)" using assms by blast
  then show ?thesis by (simp add: c same_money_def script_command_def mp_bridge_record_script_failure_def)
qed

lemma same_money_clear:
  assumes "game_ok G"
  shows "same_money G h (clear_local_weapons G h)"
proof -
  obtain ok g where c: "clear_weapons_direct G (host_game h) = (ok, g)" by fastforce
  have "money_cell G (snd (clear_weapons_direct G (host_game h))) = money_cell G (host_game h)" using assms by (simp add: game_ok_def)
  then have "same_money G h (h\<lparr>host_game := g\<rparr>)" by (simp add: c same_money_def)
  moreover have "same_money G h1 (script_command (clear_weapons_script G) h1)" for h1
    using assms by (intro same_money_command) (simp add: game_ok_def)
  ultimately show ?thesis by (auto simp: clear_local_weapons_def c Let_def intro: same_money_trans)
qed

lemma same_money_weapon:
  assumes "game_ok G"
  shows "same_money G h (gta_local_give_weapon_compat G weapon ammo h)"
proof (cases "\<not> local_weapon_valid_compat weapon \<or> weapon = 0")
  case True
  then show ?thesis by (simp only: gta_local_give_weapon_compat_def if_True same_money_refl)
next
  case False
  let ?ammo = "if ammo = 0 \<or> ammo > 1000000 then 9999 else ammo"
  obtain ok n g where l: "load_weapon_model G weapon (host_game h) = ((ok, n), g)" by (metis surj_pair)
  obtain direct g1 where d: "(if ok then give_weapon_direct G weapon ?ammo g else (False, g)) = (direct, g1)" by fastforce
  let ?h1 = "h\<lparr>host_game := g1, mp_session_script_failures := mp_session_script_failures h + n\<rparr>"
  let ?h2 = "if direct then ?h1 else script_command (give_weapon_script G weapon ?ammo) ?h1"
  have "money_cell G (snd (load_weapon_model G weapon (host_game h))) = money_cell G (host_game h)"
    "money_cell G (snd (give_weapon_direct G weapon ?ammo g)) = money_cell G g"
    using assms by (auto simp: game_ok_def)
  then have "money_cell G g1 = money_cell G (host_game h)" using d by (auto simp: l split: if_splits)
  then have "same_money G h ?h1" by (simp add: same_money_def)
  moreover have "same_money G ?h1 ?h2"
    using assms same_money_command[of G "give_weapon_script G weapon ?ammo" ?h1] by (simp add: game_ok_def)
  moreover have "same_money G ?h2 (script_command (arm_weapon G weapon) ?h2)"
    using assms by (intro same_money_command) (simp add: game_ok_def)
  ultimately have "same_money G h (script_command (arm_weapon G weapon) ?h2)" by (blast intro: same_money_trans)
  then show ?thesis unfolding gta_local_give_weapon_compat_def Let_def if_not_P[OF False] l d prod.case .
qed

lemma same_money_events:
  assumes "game_ok G"
  shows "same_money G (snd lh) (snd (fold (apply_weapon_event G a n) xs lh))"
proof (induction xs arbitrary: lh)
  case (Cons e xs)
  have "same_money G (snd lh) (snd (apply_weapon_event G a n e lh))"
    using same_money_weapon[OF assms] by (simp add: apply_weapon_event_def split: prod.split)
  then show ?case using Cons[of "apply_weapon_event G a n e lh"] by (auto intro: same_money_trans)
qed simp

lemma bridge_goods_money:
  assumes "game_ok G" "raknet_reset_money_seq (fst bh) = 0" "bridge_goods G bh = (b', h')"
  shows "same_money G (snd bh) h' \<and> applied_give_money_seq b' = applied_give_money_seq (fst bh) \<and> raknet_reset_money_seq b' = 0"
proof -
  let ?same = "\<lambda>bh bh'. same_money G (snd bh) (snd bh') \<and>
    applied_give_money_seq (fst bh') = applied_give_money_seq (fst bh) \<and> raknet_reset_money_seq (fst bh') = raknet_reset_money_seq (fst bh)"
  have 1: "?same bh (bridge_reset_weapons G bh)" for bh
    using same_money_clear[OF assms(1)] by (cases bh) (simp add: bridge_reset_weapons_def)
  have 2: "?same bh (bridge_given_weapons G bh)" for bh
  proof -
    obtain b h where bh: "bh = (b, h)" by fastforce
    obtain l h1 where f: "fold (apply_weapon_event G (applied_given_weapon_seq b) (raknet_given_weapon_seq b))
        (take SAMP_RAKNET_GIVE_WEAPON_EVENT_RING (raknet_given_weapon_events b)) (applied_given_weapon_seq b, h) = (l, h1)" by fastforce
    have "same_money G h h1" using same_money_events[OF assms(1), of "(applied_given_weapon_seq b, h)"] f by (metis snd_conv)
    then show ?thesis using f same_money_weapon[OF assms(1)]
      by (auto simp: bh bridge_given_weapons_def Let_def intro: same_money_trans)
  qed
  have 3: "?same bh (bridge_armed_weapon G bh)" for bh
    using assms(1) same_money_command[of G "arm_weapon G (raknet_armed_weapon (fst bh))" "snd bh"]
    by (cases bh) (simp add: bridge_armed_weapon_def game_ok_def)
  let ?bh3 = "bridge_armed_weapon G (bridge_given_weapons G (bridge_reset_weapons G bh))"
  have s: "?same bh ?bh3" using 1[of bh] 2[of "bridge_reset_weapons G bh"] 3[of "bridge_given_weapons G (bridge_reset_weapons G bh)"]
    by (auto intro: same_money_trans)
  then have "bridge_reset_money G ?bh3 = ?bh3" using assms(2) by (cases ?bh3) (simp add: bridge_reset_money_def)
  then show ?thesis using s assms(2,3) by (simp add: bridge_goods_def)
qed

lemma observe_goods_weapon_seq:
  "leaves (\<lambda>w'. unat (player_given_weapon_seq w') \<le> unat (player_given_weapon_seq w) + 1) (observe_goods_rpc i data w)"
proof -
  have "unat (bump_seq n) \<le> unat n + 1" for n :: u32
    by (cases "n + 1 = 0") (auto simp: bump_seq_def unat_word_ariths(1))
  then show ?thesis
    unfolding observe_goods_rpc_def decode_player_ammo_payload_def decode_give_player_weapon_payload_def
      decode_player_armed_weapon_payload_def decode_give_player_money_payload_def
    by (intro leaves_intros reads_in) (auto simp: queue_weapon_def queue_money_def Let_def)
qed

lemma observe_goods_rpcs_weapon_seq:
  "observe_goods_rpcs xs w = Some w' \<Longrightarrow> unat (player_given_weapon_seq w') \<le> unat (player_given_weapon_seq w) + length xs"
proof (induction xs arbitrary: w)
  case (Cons x xs)
  obtain ok w1 where w1: "observe_goods_rpc (fst x) (snd x) w = Some (ok, w1)"
    "unat (player_given_weapon_seq w1) \<le> unat (player_given_weapon_seq w) + 1"
    using observe_goods_weapon_seq[of w "fst x" "snd x"] by (auto simp: leaves_iff)
  then show ?case using Cons.IH[of w1] Cons.prems by simp
qed simp

text \<open>What holds between frames that reset no money: after \<open>k\<close> RPCs every grant of them has had its command.\<close>

definition money_settled :: "'g game_ops \<Rightarrow> 'g host \<Rightarrow> int list \<Rightarrow> nat \<Rightarrow> goods_net \<times> goods_bridge \<times> 'g host \<Rightarrow> bool" where
  "money_settled G h0 as k s \<longleftrightarrow> (case s of (w, b, h) \<Rightarrow> (\<exists>es. money_history es w \<and> map gm_amount es = as \<and>
     applied_give_money_seq b = of_nat (length es) \<and> money_paid G as h0 h \<and> length as \<le> k \<and>
     unat (player_given_weapon_seq w) \<le> k \<and> reset_player_money_seq w = 0 \<and> raknet_reset_money_seq b = 0))"

lemma grants_length: "length (grants xs) \<le> length xs"
  by (induction xs) (auto simp: grants_def money_granted_def split: option.split)

lemma grants_append: "grants (xs @ ys) = grants xs @ grants ys"
  by (simp add: grants_def)

lemma prepare_goods_money:
  assumes "game_ok G" "money_history (es @ t) w" "length t \<le> 16" "length (es @ t) < 4294967295"
    "applied_give_money_seq b = of_nat (length es)" "unat (player_given_weapon_seq w) < 4294967295"
    "reset_player_money_seq w = 0" "raknet_reset_money_seq b = 0"
  shows "\<exists>b' h'. prepare_goods G w (b, h) = Some (b', h') \<and> applied_give_money_seq b' = of_nat (length (es @ t)) \<and>
    raknet_reset_money_seq b' = 0 \<and> money_paid G (map gm_amount t) h h'"
proof -
  have "player_given_weapon_seq w \<noteq> 0xFFFFFFFF" using assms(6) by auto
  then obtain ws where ws: "weapon_snapshot w = Some ws" by (simp add: weapon_snapshot_def ring_snapshot_upto_eq goods_consts)
  have hold: "ring_holds SAMP_RAKNET_GIVE_MONEY_EVENT_RING gm_seq (es @ t) (give_player_money_seq w) (give_money_events w)"
    using assms(2) by (simp only: money_history_def)
  then have "unat (give_player_money_seq w) = length (es @ t)" by (simp only: ring_holds_def)
  then have "give_player_money_seq w \<noteq> 0xFFFFFFFF" using assms(4) by auto
  then have ms: "money_snapshot w = Some (drop (length (es @ t) - 16) (es @ t))"
    using ring_snapshot_suffix[OF hold] by (simp add: money_snapshot_def ring_snapshot_upto_eq goods_consts del: length_append drop_append)
  let ?b = "prepare_resets w (prepare_given_weapons w ws (prepare_armed_weapon w b))"
  have b: "applied_give_money_seq ?b = of_nat (length es)" "raknet_reset_money_seq ?b = 0"
    using assms(5,7,8) by (simp_all add: prepare_resets_def prepare_given_weapons_def prepare_armed_weapon_def Let_def)
  from prepare_money_grants[OF assms(1-3) _ b(1), of h] assms(4) obtain b1 h1 where
    m: "prepare_money G w (drop (length (es @ t) - 16) (es @ t)) (?b, h) = (b1, h1)"
      "applied_give_money_seq b1 = of_nat (length (es @ t))" "raknet_reset_money_seq b1 = 0"
      "money_paid G (map gm_amount t) h h1" using b(2) by auto
  have ammo: "money_paid G (map gm_amount t) h (h1\<lparr>host_game := set_ammo G x y (host_game h1)\<rparr>)" for x y
    using m(4) assms(1) by (simp add: money_paid_def game_ok_def)
  then show ?thesis using ws ms m
    by (simp add: prepare_goods_def prepare_ammo_def del: length_append drop_append)
qed

lemma goods_frame_settles:
  assumes "game_ok G" "money_settled G h0 as k s" "20 \<notin> fst ` set (arrived f)" "length (grants (arrived f)) \<le> 16"
    "k + length (arrived f) < 4294967295"
  shows "\<exists>s'. goods_frame G f s = Some s' \<and> money_settled G h0 (as @ grants (arrived f)) (k + length (arrived f)) s'"
proof -
  obtain w b h where s: "s = (w, b, h)" by (cases s)
  from assms(2) obtain es where es: "money_history es w" "map gm_amount es = as" "applied_give_money_seq b = of_nat (length es)"
    "money_paid G as h0 h" "length as \<le> k" "unat (player_given_weapon_seq w) \<le> k" "reset_player_money_seq w = 0"
    "raknet_reset_money_seq b = 0" by (auto simp: s money_settled_def)
  have len: "length es = length as" using es(2) by auto
  have "length es + length (grants (arrived f)) < 4294967295" using len es(5) assms(5) grants_length[of "arrived f"] by linarith
  from money_history_rpcs[OF es(1) this es(7) assms(3)] obtain w' t where
    w': "observe_goods_rpcs (arrived f) w = Some w'" "money_history (es @ t) w'" "map gm_amount t = grants (arrived f)"
      "reset_player_money_seq w' = 0" by auto
  have t: "length t = length (grants (arrived f))" using w'(3) by (metis length_map)
  have ws: "unat (player_given_weapon_seq w') \<le> k + length (arrived f)" using observe_goods_rpcs_weapon_seq[OF w'(1)] es(6) by linarith
  have small: "length (es @ t) < 4294967295" using t len es(5) assms(5) grants_length[of "arrived f"] by simp
  from prepare_goods_money[OF assms(1) w'(2) _ small es(3) _ w'(4) es(8), of h] t assms(4,5) ws obtain b1 h1 where
    p: "prepare_goods G w' (b, h) = Some (b1, h1)" "applied_give_money_seq b1 = of_nat (length (es @ t))"
      "raknet_reset_money_seq b1 = 0" "money_paid G (grants (arrived f)) h h1" by (auto simp: w'(3))
  obtain b2 h2 where br: "bridge_goods G (b1, h1) = (b2, h2)" by fastforce
  have "\<exists>b' h'. goods_frame G f s = Some (w', b', h') \<and> applied_give_money_seq b' = of_nat (length (es @ t)) \<and>
      raknet_reset_money_seq b' = 0 \<and> same_money G h1 h'"
    using bridge_goods_money[OF assms(1) _ br] p w'(1) br by (simp add: goods_frame_def s)
  then obtain b' h' where fr: "goods_frame G f s = Some (w', b', h')" "applied_give_money_seq b' = of_nat (length (es @ t))"
      "raknet_reset_money_seq b' = 0" "same_money G h1 h'" by blast
  have "money_paid G (grants (arrived f)) h h'" using p(4) fr(4) by (simp add: money_paid_def same_money_def)
  then have paid: "money_paid G (as @ grants (arrived f)) h0 h'" by (rule money_paid_append[OF es(4)])
  have "money_settled G h0 (as @ grants (arrived f)) (k + length (arrived f)) (w', b', h')"
    unfolding money_settled_def prod.case
    by (rule exI[of _ "es @ t"]) (use fr w' es paid ws grants_length[of "arrived f"] in simp)
  then show ?thesis using fr(1) by blast
qed

lemma goods_frames_settle:
  assumes "game_ok G" "money_settled G h0 as k s" "\<forall>f\<in>set fs. 20 \<notin> fst ` set (arrived f) \<and> length (grants (arrived f)) \<le> 16"
    "k + length (concat (map arrived fs)) < 4294967295"
  shows "\<exists>s'. goods_frames G fs s = Some s' \<and>
    money_settled G h0 (as @ grants (concat (map arrived fs))) (k + length (concat (map arrived fs))) s'"
  using assms(2-)
proof (induction fs arbitrary: as k s)
  case Nil
  then show ?case by (simp add: grants_def)
next
  case (Cons f fs)
  from goods_frame_settles[OF assms(1) Cons.prems(1), of f] Cons.prems(2,3) obtain s1 where
    s1: "goods_frame G f s = Some s1" "money_settled G h0 (as @ grants (arrived f)) (k + length (arrived f)) s1" by auto
  from Cons.IH[OF s1(2)] Cons.prems(2,3) s1(1) show ?case by (simp add: grants_append add.assoc)
qed

lemma money_settled_initial:
  "money_settled G h [] 0 (reset_goods_net, goods_bridge_reset, h)"
proof -
  have "money_history [] reset_goods_net"
    by (simp add: money_history_def reset_goods_net_def ring_holds_def goods_consts)
  then show ?thesis by (simp add: money_settled_def money_paid_none goods_bridge_reset_def) (simp add: reset_goods_net_def)
qed

text \<open>C19: Every GivePlayerMoney RPC of at least four bytes is handed to the game exactly once and in order: over any frames from the start of a session that
  bring no money reset and at most sixteen grants each, whether or not the session bridge runs, fewer than \<open>2 ^ 32 - 1\<close>
  RPCs in all, the money commands sent to the game are the amounts of the payloads, one each. The game's
  32-bit money grows by the sum of those commands the game carried out: a command that fails is not repeated, and its
  grant is lost. No snapshot copy hangs.\<close>

theorem money_granted_once:
  assumes "game_ok G" "\<forall>f\<in>set fs. 20 \<notin> fst ` set (arrived f) \<and> length (grants (arrived f)) \<le> 16"
    "length (concat (map arrived fs)) < 4294967295"
  shows "\<exists>w b h' done. goods_frames G fs (reset_goods_net, goods_bridge_reset, h) = Some (w, b, h') \<and>
    money_commands h' = money_commands h @ done \<and> map fst done = map of_int (grants (concat (map arrived fs))) \<and>
    money_cell G (host_game h') = money_cell G (host_game h) + sum_list (map fst (filter snd done))"
  using goods_frames_settle[OF assms(1) money_settled_initial assms(2), of h] assms(3)
  by (auto simp: money_settled_def money_paid_def)

text \<open>A game that keeps the money and the weapons carried, and carries out no money command above \<open>limit\<close>.\<close>

definition purse_game :: "u32 \<Rightarrow> (u32 \<times> (u32 \<times> u32) list) game_ops" where
  "purse_game limit = \<lparr>add_money = (\<lambda>a g. if sint a > sint limit then (False, g) else (True, (fst g + a, snd g))),
     money_cell = fst, money_readable = (\<lambda>_. True), clear_weapons_direct = (\<lambda>g. (True, (fst g, []))),
     clear_weapons_script = (\<lambda>g. (True, g)), load_weapon_model = (\<lambda>_ g. ((True, 0), g)),
     give_weapon_direct = (\<lambda>w n g. (True, (fst g, (w, n) # snd g))), give_weapon_script = (\<lambda>_ _ g. (True, g)),
     arm_weapon = (\<lambda>_ g. (True, g)), set_ammo = (\<lambda>_ _ g. g)\<rparr>"

definition purse :: "u32 \<Rightarrow> (u32 \<times> (u32 \<times> u32) list) host" where
  "purse a = \<lparr>host_game = (a, []), mp_session_script_failures = 0, money_commands = []\<rparr>"

lemma purse_game_ok: "game_ok (purse_game limit)"
  by (simp add: game_ok_def purse_game_def)

theorem money_granted_once_witness:
  "\<exists>w b h'. goods_frames (purse_game 1000) [\<lparr>arrived = [(18, [100, 0, 0, 0]), (18, [5])], bridged = False\<rparr>,
      \<lparr>arrived = [(18, [0x9C, 0xFF, 0xFF, 0xFF]), (18, [7, 0, 0, 0])], bridged = True\<rparr>]
     (reset_goods_net, goods_bridge_reset, purse 3) = Some (w, b, h') \<and> map fst (money_commands h') = [100, - 100, 7]"
proof -
  let ?fs = "[\<lparr>arrived = [(18, [100, 0, 0, 0]), (18, [5])], bridged = False\<rparr>,
      \<lparr>arrived = [(18, [0x9C, 0xFF, 0xFF, 0xFF]), (18, [7, 0, 0, 0])], bridged = True\<rparr>] :: frame list"
  have m: "money_granted (18, [100, 0, 0, 0]) = [100]" "money_granted (18, [5]) = []"
    "money_granted (18, [0x9C, 0xFF, 0xFF, 0xFF]) = [- 100]" "money_granted (18, [7, 0, 0, 0]) = [7]"
    by code_simp+
  then have g: "grants (arrived (?fs ! 0)) = [100]" "grants (arrived (?fs ! 1)) = [- 100, 7]"
      "grants (concat (map arrived ?fs)) = [100, - 100, 7]" by (simp_all add: grants_def)
  then have "\<forall>f\<in>set ?fs. 20 \<notin> fst ` set (arrived f) \<and> length (grants (arrived f)) \<le> 16" by auto
  from money_granted_once[OF purse_game_ok this, of 1000 "purse 3"] g(3) show ?thesis by (auto simp: purse_def)
qed

lemma snapshots_code [code]:
  "money_snapshot w = (if give_player_money_seq w = 0xFFFFFFFF then None
     else Some (ring_snapshot SAMP_RAKNET_GIVE_MONEY_EVENT_RING gm_seq (give_player_money_seq w) (give_money_events w)))"
  "weapon_snapshot w = (if player_given_weapon_seq w = 0xFFFFFFFF then None
     else Some (ring_snapshot SAMP_RAKNET_GIVE_WEAPON_EVENT_RING gw_seq (player_given_weapon_seq w) (player_given_weapon_events w)))"
  by (simp_all add: money_snapshot_def weapon_snapshot_def ring_snapshot_upto_eq goods_consts)

section \<open>Orders the two steps do not keep\<close>

text \<open>A reset and the grant after it, when one pump brings both: the grant is paid in the network step and the reset, in
  the session bridge, then takes it away.\<close>

lemma reset_then_grant_lost:
  "map_option (host_game \<circ> snd \<circ> snd) (goods_frame (purse_game 1000) \<lparr>arrived = [(20, []), (18, [100, 0, 0, 0])], bridged = True\<rparr>
     (reset_goods_net, goods_bridge_reset, purse 3)) = Some (0, [])"
  by code_simp

text \<open>A weapon and the removal of all weapons after it: the bridge removes first and the weapon stays.\<close>

lemma weapon_then_reset_kept:
  "map_option (host_game \<circ> snd \<circ> snd) (goods_frame (purse_game 1000) \<lparr>arrived = [(22, [24, 0, 0, 0, 50, 0, 0, 0]), (21, [])], bridged = True\<rparr>
     (reset_goods_net, goods_bridge_reset, purse 3)) = Some (3, [(24, 50)])"
  by code_simp

text \<open>Seventeen grants in one pump: the ring holds sixteen and the first is never paid.\<close>

lemma seventeenth_grant_lost:
  "map_option (host_game \<circ> snd \<circ> snd) (goods_frame (purse_game 1000) \<lparr>arrived = (18, [100, 0, 0, 0]) # replicate 16 (18, [1, 0, 0, 0]), bridged = True\<rparr>
     (reset_goods_net, goods_bridge_reset, purse 3)) = Some (19, [])"
  by code_simp

text \<open>A grant whose script command fails: it counts as applied, so no later frame sends it again.\<close>

lemma failed_grant_lost:
  "map_option (\<lambda>(_, b, h). (host_game h, applied_give_money_seq b, mp_session_script_failures h, money_commands h))
     (goods_frames (purse_game 50) [\<lparr>arrived = [(18, [100, 0, 0, 0])], bridged = True\<rparr>, \<lparr>arrived = [], bridged = True\<rparr>]
       (reset_goods_net, goods_bridge_reset, purse 3)) = Some ((3, []), 1, 1, [(100, False)])"
  by code_simp

end
