(* ===== verification/ChatText.thy ===== *)
theory ChatText
  imports Prelude
begin

text \<open>
  Chat lines and textdraw texts of \<^verbatim>\<open>src/runtime_bridge.c\<close>: colour tags, the filters that prepare a text
  for drawing, and the history of the last 20 chat lines. A \<^verbatim>\<open>char\<close> is signed, so that characters from
  128 on are negative.
\<close>

section \<open>Colour tags\<close>

definition code :: "char \<Rightarrow> nat" where
  "code c = of_char c"

definition chat_compat_hex_value :: "char \<Rightarrow> int" where
  "chat_compat_hex_value ch =
     (let n = code ch in
      if 48 \<le> n \<and> n \<le> 57 then int n - 48
      else if 97 \<le> n \<and> n \<le> 102 then 10 + (int n - 97)
      else if 65 \<le> n \<and> n \<le> 70 then 10 + (int n - 65)
      else - 1)"

definition chat_compat_is_hex_digit :: "char \<Rightarrow> bool" where
  "chat_compat_is_hex_digit ch \<longleftrightarrow>
     (let n = code ch in 48 \<le> n \<and> n \<le> 57 \<or> 97 \<le> n \<and> n \<le> 102 \<or> 65 \<le> n \<and> n \<le> 70)"

text \<open>The six digits of a tag, \<open>None\<close> at the first that is none.\<close>

fun parse_rgb :: "string \<Rightarrow> u32 \<Rightarrow> u32 option" where
  "parse_rgb [] rgb = Some rgb"
| "parse_rgb (c # cs) rgb =
     (let v = chat_compat_hex_value c in
      if v < 0 then None else parse_rgb cs (push_bit 4 rgb OR of_int v))"

definition chat_compat_parse_color_tag :: "string \<Rightarrow> u32 option" where
  "chat_compat_parse_color_tag text =
     (if length text < 8 \<or> text ! 0 \<noteq> CHR ''{'' then None
      else case parse_rgb (take 6 (tl text)) 0 of None \<Rightarrow> None
      | Some rgb \<Rightarrow> if text ! 7 \<noteq> CHR ''}'' then None else Some (0xFF000000 OR rgb))"

text \<open>
  \<^verbatim>\<open>chat_compat_strip_samp_color_tags\<close> works in place: \<open>buf\<close> is the array, \<open>r\<close> and \<open>w\<close> the two cursors.
\<close>

definition c_str :: "string \<Rightarrow> string" where
  "c_str buf = takeWhile (\<lambda>c. c \<noteq> CHR 0x00) buf"

function strip_loop :: "string \<Rightarrow> nat \<Rightarrow> nat \<Rightarrow> string mem" where
  "strip_loop buf r w =
     (if \<not> r < length buf then None
      else if buf ! r = CHR 0x00 then (if w < length buf then Some (buf[w := CHR 0x00]) else None)
      else if chat_compat_parse_color_tag (c_str (drop r buf)) \<noteq> None then strip_loop buf (r + 8) w
      else if w < length buf then strip_loop (buf[w := buf ! r]) (r + 1) (w + 1)
      else None)"
  by pat_completeness auto
termination by (relation "measure (\<lambda>(buf, r, _). length buf - r)") auto

declare strip_loop.simps [simp del]

definition chat_compat_strip_samp_color_tags :: "string \<Rightarrow> string mem" where
  "chat_compat_strip_samp_color_tags buf = strip_loop buf 0 0"

text \<open>What it computes.\<close>

function stripped :: "string \<Rightarrow> string" where
  "stripped s =
     (if s = [] then []
      else if chat_compat_parse_color_tag s \<noteq> None then stripped (drop 8 s)
      else hd s # stripped (tl s))"
  by pat_completeness auto
termination by (relation "measure length") auto

declare stripped.simps [simp del]

section \<open>Filters\<close>

definition chat_compat_filter_invalid_chars :: "string \<Rightarrow> string" where
  "chat_compat_filter_invalid_chars line = map (\<lambda>c. if 0 < code c \<and> code c < 32 then CHR '' '' else c) line"

definition drawable :: "char \<Rightarrow> char" where
  \<comment> \<open>control characters other than newline, return and tab, and underscores, become spaces\<close>
  "drawable c = (if code c < 32 \<and> code c \<noteq> 10 \<and> code c \<noteq> 13 \<and> code c \<noteq> 9 then CHR '' ''
     else if c = CHR ''_'' then CHR '' '' else c)"

definition vehicle_enter_exit_token :: string where
  "vehicle_enter_exit_token = ''~k~~VEHICLE_ENTER_EXIT~''"

definition vehicle_enter_exit_text :: string where
  "vehicle_enter_exit_text = ''RETURN''"

text \<open>
  The loop of \<^verbatim>\<open>textdraw_compat_prepare_gta_text\<close>: \<open>room\<close> is \<^verbatim>\<open>write_end - write_cursor\<close>, and the
  result is what is written from the cursor on.
\<close>

function gta_text_loop :: "string \<Rightarrow> nat \<Rightarrow> string" where
  "gta_text_loop s room =
     (if s = [] \<or> room = 0 then []
      else if take (length vehicle_enter_exit_token) s = vehicle_enter_exit_token
      then take room vehicle_enter_exit_text @
             gta_text_loop (drop (length vehicle_enter_exit_token) s) (room - length (take room vehicle_enter_exit_text))
      else drawable (hd s) # gta_text_loop (tl s) (room - 1))"
  by pat_completeness auto
termination by (relation "measure (\<lambda>(s, _). length s)") (auto simp: vehicle_enter_exit_token_def)

declare gta_text_loop.simps [simp del]

definition textdraw_compat_prepare_gta_text :: "string option \<Rightarrow> nat \<Rightarrow> string" where
  "textdraw_compat_prepare_gta_text input output_size =
     (case input of None \<Rightarrow> [] | Some s \<Rightarrow> gta_text_loop s (output_size - 1))"

text \<open>The text after the closing \<^verbatim>\<open>~\<close> of a token that starts here, and what is between the two.\<close>

definition split_token :: "string \<Rightarrow> (string \<times> string) option" where
  "split_token s =
     (if s \<noteq> [] \<and> hd s = CHR 0x7E \<and> CHR 0x7E \<in> set (tl s)
      then Some (takeWhile (\<lambda>c. c \<noteq> CHR 0x7E) (tl s), tl (dropWhile (\<lambda>c. c \<noteq> CHR 0x7E) (tl s)))
      else None)"

lemma length_split_token: "split_token s = Some (t, rest) \<Longrightarrow> length s = length t + length rest + 2"
proof -
  assume st: "split_token s = Some (t, rest)"
  then have s: "s \<noteq> []" "CHR 0x7E \<in> set (tl s)" and t: "t = takeWhile (\<lambda>c. c \<noteq> CHR 0x7E) (tl s)"
    and r: "rest = tl (dropWhile (\<lambda>c. c \<noteq> CHR 0x7E) (tl s))"
    by (auto simp: split_token_def split: if_splits)
  have "dropWhile (\<lambda>c. c \<noteq> CHR 0x7E) (tl s) \<noteq> []" using s(2) by (auto simp: dropWhile_eq_Nil_conv)
  then have "length (dropWhile (\<lambda>c. c \<noteq> CHR 0x7E) (tl s)) = length rest + 1" by (simp add: r)
  moreover have "length (tl s) = length t + length (dropWhile (\<lambda>c. c \<noteq> CHR 0x7E) (tl s))"
    unfolding t by (metis length_append takeWhile_dropWhile_id)
  ultimately show ?thesis using s(1) by (cases s) auto
qed

function prepare_text_loop :: "string \<Rightarrow> nat \<Rightarrow> string" where
  "prepare_text_loop s room =
     (if s = [] \<or> room = 0 then []
      else case split_token s of
        Some (t, rest) \<Rightarrow>
          if t = ''n'' \<or> t = ''N'' then CHR 0x0A # prepare_text_loop rest (room - 1)
          else prepare_text_loop rest room
      | None \<Rightarrow> drawable (hd s) # prepare_text_loop (tl s) (room - 1))"
  by pat_completeness auto
termination by (relation "measure (\<lambda>(s, _). length s)") (auto dest: length_split_token)

declare prepare_text_loop.simps [simp del]

text \<open>
  \<^verbatim>\<open>textdraw_compat_prepare_text\<close>; the tags are stripped from the finished output, whose array is the
  text and its NUL.
\<close>

definition textdraw_compat_prepare_text :: "string option \<Rightarrow> nat \<Rightarrow> string mem" where
  "textdraw_compat_prepare_text input output_size = (case input of None \<Rightarrow> Some []
     | Some s \<Rightarrow> map_option c_str
         (chat_compat_strip_samp_color_tags (prepare_text_loop s (output_size - 1) @ [CHR 0x00])))"

function render_text_loop :: "string \<Rightarrow> nat \<Rightarrow> string" where
  "render_text_loop s room =
     (if s = [] \<or> room = 0 then []
      else if take (length vehicle_enter_exit_token) s = vehicle_enter_exit_token
      then take room vehicle_enter_exit_text @
             render_text_loop (drop (length vehicle_enter_exit_token) s) (room - length (take room vehicle_enter_exit_text))
      else case split_token s of
        Some (t, rest) \<Rightarrow>
          if t = ''n'' \<or> t = ''N'' then CHR 0x0A # render_text_loop rest (room - 1)
          else if length t + 2 \<le> 7 \<and> length t + 2 \<le> room
          then take (length t + 2) s @ render_text_loop rest (room - (length t + 2))
          else render_text_loop rest room
      | None \<Rightarrow> drawable (hd s) # render_text_loop (tl s) (room - 1))"
  by pat_completeness auto
termination by (relation "measure (\<lambda>(s, _). length s)")
    (auto dest: length_split_token simp: vehicle_enter_exit_token_def)

declare render_text_loop.simps [simp del]

definition textdraw_compat_prepare_render_text :: "string option \<Rightarrow> nat \<Rightarrow> string" where
  "textdraw_compat_prepare_render_text input output_size =
     (case input of None \<Rightarrow> [] | Some s \<Rightarrow> render_text_loop s (output_size - 1))"

section \<open>The chat history\<close>

definition SAMP_CHAT_COMPAT_MAX_LINES :: nat where "SAMP_CHAT_COMPAT_MAX_LINES = 20"
definition SAMP_CHAT_COMPAT_LINE_BYTES :: nat where "SAMP_CHAT_COMPAT_LINE_BYTES = 256"

lemmas chat_consts = SAMP_CHAT_COMPAT_MAX_LINES_def SAMP_CHAT_COMPAT_LINE_BYTES_def

record chat_overlay =
  chat_overlay_line_count :: nat
  chat_overlay_lines :: "string list"
  chat_overlay_timestamps :: "string list"
  chat_overlay_colors :: "u32 list"
  chat_timestamp_enabled :: bool

definition chat_compat_samp_color_to_argb :: "u32 \<Rightarrow> u32" where
  "chat_compat_samp_color_to_argb color = drop_bit 8 color OR 0xFF000000"

definition two_digits :: "nat \<Rightarrow> string" where
  "two_digits n = (if n < 10 then CHR ''0'' # decimal n else decimal n)"

text \<open>The local time, as hour, minute and second.\<close>

definition timestamp_text :: "nat \<times> nat \<times> nat \<Rightarrow> string" where
  "timestamp_text t = (case t of (h, m, s) \<Rightarrow>
     take 10 (CHR ''['' # two_digits h @ CHR '':'' # two_digits m @ CHR '':'' # two_digits s @ [CHR '']'']))"

text \<open>Storing an entry at an index of the three arrays; the array has room for 255 characters. Every access to the arrays
  is checked.\<close>

definition store_line :: "int \<Rightarrow> string \<Rightarrow> string \<Rightarrow> u32 \<Rightarrow> chat_overlay \<Rightarrow> chat_overlay mem" where
  "store_line i line stamp color st = do {
     ls \<leftarrow> array_put i (take (SAMP_CHAT_COMPAT_LINE_BYTES - 1) line) (chat_overlay_lines st);
     ts \<leftarrow> array_put i stamp (chat_overlay_timestamps st);
     cs \<leftarrow> array_put i color (chat_overlay_colors st);
     Some (st\<lparr>chat_overlay_lines := ls, chat_overlay_timestamps := ts, chat_overlay_colors := cs\<rparr>) }"

text \<open>One iteration of the loop that moves the entries down by one, and the loop from \<open>i\<close> to the last line.\<close>

definition shift_entry :: "int \<Rightarrow> 'a list \<Rightarrow> 'a list mem" where
  "shift_entry i xs = do { x \<leftarrow> array_get xs i; array_put (i - 1) x xs }"

definition shift_line :: "int \<Rightarrow> chat_overlay \<Rightarrow> chat_overlay mem" where
  "shift_line i st = do {
     ls \<leftarrow> shift_entry i (chat_overlay_lines st);
     ts \<leftarrow> shift_entry i (chat_overlay_timestamps st);
     cs \<leftarrow> shift_entry i (chat_overlay_colors st);
     Some (st\<lparr>chat_overlay_lines := ls, chat_overlay_timestamps := ts, chat_overlay_colors := cs\<rparr>) }"

function shift_lines :: "int \<Rightarrow> chat_overlay \<Rightarrow> chat_overlay mem" where
  "shift_lines i st =
     (if i < int SAMP_CHAT_COMPAT_MAX_LINES then do { st \<leftarrow> shift_line i st; shift_lines (i + 1) st } else Some st)"
  by pat_completeness auto
termination by (relation "measure (\<lambda>(i, st). nat (int SAMP_CHAT_COMPAT_MAX_LINES - i))") auto

declare shift_lines.simps [simp del]

definition repeats_last :: "nat \<Rightarrow> string \<Rightarrow> u32 \<Rightarrow> chat_overlay \<Rightarrow> bool mem" where
  "repeats_last count line color st =
     (if 0 < count \<and> count \<le> SAMP_CHAT_COMPAT_MAX_LINES then do {
        l \<leftarrow> array_get (chat_overlay_lines st) (int count - 1);
        if l \<noteq> line then Some False
        else do { c \<leftarrow> array_get (chat_overlay_colors st) (int count - 1); Some (c = color) } }
      else Some False)"

definition chat_compat_add_colored_line ::
  "u32 \<Rightarrow> string option \<Rightarrow> nat \<times> nat \<times> nat \<Rightarrow> chat_overlay \<Rightarrow> chat_overlay mem" where
  "chat_compat_add_colored_line argb_color text local_time st = (case text of None \<Rightarrow> Some st
     | Some t \<Rightarrow>
         let line = chat_compat_filter_invalid_chars (take (SAMP_CHAT_COMPAT_LINE_BYTES - 1) t);
             count = chat_overlay_line_count st in
         if t = [] \<or> line = [] then Some st
         else do {
           same \<leftarrow> repeats_last count line argb_color st;
           if same then Some st
           else if count < SAMP_CHAT_COMPAT_MAX_LINES
           then store_line (int count) line (timestamp_text local_time) argb_color
                  (st\<lparr>chat_overlay_line_count := count + 1\<rparr>)
           else do {
             st \<leftarrow> shift_lines 1 st;
             store_line (int SAMP_CHAT_COMPAT_MAX_LINES - 1) line (timestamp_text local_time) argb_color st } })"

definition chat_compat_format_stored_line :: "int \<Rightarrow> nat \<Rightarrow> chat_overlay \<Rightarrow> string mem" where
  "chat_compat_format_stored_line index output_size st =
     (if index < 0 \<or> index \<ge> int SAMP_CHAT_COMPAT_MAX_LINES then Some []
      else do {
        stamp \<leftarrow> array_get (chat_overlay_timestamps st) index;
        line \<leftarrow> array_get (chat_overlay_lines st) index;
        Some (if chat_timestamp_enabled st \<and> stamp \<noteq> [] then take (output_size - 1) (stamp @ CHR '' '' # line)
              else take (output_size - 1) line) })"

section \<open>Stripping in place\<close>

lemma parse_color_tag_length: "chat_compat_parse_color_tag s \<noteq> None \<Longrightarrow> 8 \<le> length s"
  by (auto simp: chat_compat_parse_color_tag_def split: if_splits)

lemma c_str_drop_step:
  "r < length buf \<Longrightarrow> buf ! r \<noteq> CHR 0x00 \<Longrightarrow> c_str (drop r buf) = buf ! r # c_str (drop (r + 1) buf)"
  by (simp add: c_str_def Cons_nth_drop_Suc[symmetric])

lemma c_str_drop_more:
  "k \<le> length (c_str xs) \<Longrightarrow> drop k (c_str xs) = c_str (drop k xs)"
proof (induction k arbitrary: xs)
  case (Suc k)
  then show ?case by (cases xs) (auto simp: c_str_def split: if_splits)
qed simp

lemma nul_after_c_str:
  "CHR 0x00 \<in> set xs \<Longrightarrow> k \<le> length (c_str xs) \<Longrightarrow> CHR 0x00 \<in> set (drop k xs)"
proof (induction k arbitrary: xs)
  case (Suc k)
  then show ?case by (cases xs) (auto simp: c_str_def split: if_splits)
qed simp

lemma strip_loop_eq:
  assumes "w \<le> r" "CHR 0x00 \<in> set (drop r buf)" "CHR 0x00 \<notin> set (take w buf)"
  shows "\<exists>buf'. strip_loop buf r w = Some buf' \<and> length buf' = length buf \<and>
    c_str buf' = take w buf @ stripped (c_str (drop r buf))"
  using assms
proof (induction buf r w rule: strip_loop.induct)
  case (1 buf r w)
  have r: "r < length buf" using "1.prems"(2) by (metis drop_all empty_iff list.set(1) not_le_imp_less)
  have w: "w < length buf" using r "1.prems"(1) by simp
  show ?case
  proof (cases "buf ! r = CHR 0x00")
    case True
    have "c_str (buf[w := CHR 0x00]) = take w buf"
      using w "1.prems"(3) unfolding c_str_def
      by (subst upd_conv_take_nth_drop[OF w]) (rule takeWhile_stop)
    moreover have "c_str (drop r buf) = []" using True r by (simp add: c_str_def Cons_nth_drop_Suc[symmetric])
    ultimately show ?thesis using True r w by (simp add: strip_loop.simps[of buf] stripped.simps[of "[]"])
  next
    case False
    note step = c_str_drop_step[OF r False]
    show ?thesis
    proof (cases "chat_compat_parse_color_tag (c_str (drop r buf)) = None")
      case False
      then have len: "8 \<le> length (c_str (drop r buf))" using parse_color_tag_length by blast
      have nul: "CHR 0x00 \<in> set (drop (r + 8) buf)"
        using nul_after_c_str[OF "1.prems"(2) len] by (simp add: add.commute)
      have "c_str (drop (r + 8) buf) = drop 8 (c_str (drop r buf))"
        using c_str_drop_more[OF len] by (simp add: add.commute)
      moreover have "stripped (c_str (drop r buf)) = stripped (drop 8 (c_str (drop r buf)))"
        using False step by (subst stripped.simps) auto
      moreover have "strip_loop buf r w = strip_loop buf (r + 8) w"
        using r False \<open>buf ! r \<noteq> CHR 0x00\<close> by (simp add: strip_loop.simps[of buf r])
      ultimately show ?thesis
        using "1.IH"(1)[OF _ \<open>buf ! r \<noteq> CHR 0x00\<close> False _ nul "1.prems"(3)] r "1.prems"(1) by auto
    next
      case True
      let ?buf = "buf[w := buf ! r]"
      have d: "drop (r + 1) ?buf = drop (r + 1) buf" using "1.prems"(1) by simp
      have "CHR 0x00 \<in> set (drop (r + 1) buf)"
        using "1.prems"(2) \<open>buf ! r \<noteq> CHR 0x00\<close> r by (auto simp: Cons_nth_drop_Suc[symmetric])
      moreover have tk: "take (w + 1) ?buf = take w buf @ [buf ! r]" using w by (simp add: take_Suc_conv_app_nth)
      moreover have "strip_loop buf r w = strip_loop ?buf (r + 1) (w + 1)"
        using r w True \<open>buf ! r \<noteq> CHR 0x00\<close> by (simp add: strip_loop.simps[of buf r])
      moreover have "stripped (c_str (drop r buf)) = buf ! r # stripped (c_str (drop (r + 1) buf))"
        using True step by (subst stripped.simps) simp
      ultimately show ?thesis
        using "1.IH"(2)[OF _ \<open>buf ! r \<noteq> CHR 0x00\<close> _ w] r True "1.prems"(1,3) d \<open>buf ! r \<noteq> CHR 0x00\<close> by auto
    qed
  qed
qed

section \<open>Filters and their limits\<close>

lemma gta_text_loop_take: "m \<le> n \<Longrightarrow> gta_text_loop s m = take m (gta_text_loop s n)"
proof (induction s n arbitrary: m rule: gta_text_loop.induct)
  case (1 s n)
  show ?case
  proof (cases "s = [] \<or> m = 0")
    case True
    then show ?thesis by (auto simp: gta_text_loop.simps[of s])
  next
    case False
    with "1.prems" have ne: "\<not> (s = [] \<or> n = 0)" by auto
    show ?thesis
    proof (cases "take (length vehicle_enter_exit_token) s = vehicle_enter_exit_token")
      case True
      let ?k = "length vehicle_enter_exit_text"
      have "gta_text_loop (drop (length vehicle_enter_exit_token) s) (m - min m ?k) =
          take (m - min m ?k) (gta_text_loop (drop (length vehicle_enter_exit_token) s) (n - min n ?k))"
        using "1.IH"(1)[OF ne True, of "m - min m ?k"] "1.prems" by (simp add: min.commute)
      then show ?thesis
        using True False ne "1.prems"
        by (simp add: gta_text_loop.simps[of s] min.commute min_def take_take)
    next
      case False
      have "gta_text_loop (tl s) (m - 1) = take (m - 1) (gta_text_loop (tl s) (n - 1))"
        using "1.IH"(2)[OF ne False, of "m - 1"] "1.prems" by simp
      then show ?thesis
        using False \<open>\<not> (s = [] \<or> m = 0)\<close> ne by (simp add: gta_text_loop.simps[of s] take_Cons')
    qed
  qed
qed

lemma length_gta_text_loop: "length (gta_text_loop s n) \<le> n"
  using gta_text_loop_take[of n n s] by (metis length_take min.cobounded2 order_refl)

lemma prepare_text_loop_take: "m \<le> n \<Longrightarrow> prepare_text_loop s m = take m (prepare_text_loop s n)"
proof (induction s n arbitrary: m rule: prepare_text_loop.induct)
  case (1 s n)
  show ?case
  proof (cases "s = [] \<or> m = 0")
    case True
    then show ?thesis by (auto simp: prepare_text_loop.simps[of s])
  next
    case False
    with "1.prems" have ne: "\<not> (s = [] \<or> n = 0)" by auto
    show ?thesis
    proof (cases "split_token s")
      case None
      have "prepare_text_loop (tl s) (m - 1) = take (m - 1) (prepare_text_loop (tl s) (n - 1))"
        using "1.IH"(1)[OF ne None, of "m - 1"] "1.prems" by simp
      then show ?thesis using None False ne by (simp add: prepare_text_loop.simps[of s] take_Cons')
    next
      case (Some tr)
      obtain t rest where tr: "tr = (t, rest)" by (cases tr)
      show ?thesis
      proof (cases "t = ''n'' \<or> t = ''N''")
        case True
        have "prepare_text_loop rest (m - 1) = take (m - 1) (prepare_text_loop rest (n - 1))"
          using "1.IH"(2)[OF ne Some tr[symmetric] True, of "m - 1"] "1.prems" by simp
        then show ?thesis using Some tr True False ne by (simp add: prepare_text_loop.simps[of s] take_Cons')
      next
        case nl: False
        have IH: "prepare_text_loop rest m = take m (prepare_text_loop rest n)"
          using "1.IH"(3)[OF ne Some tr[symmetric] nl] "1.prems" by blast
        have skip: "prepare_text_loop s k = prepare_text_loop rest k" if "k \<noteq> 0" for k
          using Some tr nl \<open>\<not> (s = [] \<or> m = 0)\<close> that by (subst prepare_text_loop.simps) auto
        have "m \<noteq> 0" "n \<noteq> 0" using \<open>\<not> (s = [] \<or> m = 0)\<close> ne by blast+
        from skip[OF this(1)] skip[OF this(2)] IH show ?thesis by (simp only:)
      qed
    qed
  qed
qed

lemma length_prepare_text_loop: "length (prepare_text_loop s n) \<le> n"
  using prepare_text_loop_take[of n n s] by (metis length_take min.cobounded2 order_refl)

lemma length_render_text_loop: "length (render_text_loop s n) \<le> n"
proof (induction s n rule: render_text_loop.induct)
  case (1 s n)
  show ?case
  proof (cases "s = [] \<or> n = 0")
    case True
    then show ?thesis by (auto simp: render_text_loop.simps[of s])
  next
    case ne: False
    show ?thesis
    proof (cases "take (length vehicle_enter_exit_token) s = vehicle_enter_exit_token")
      case True
      then show ?thesis using "1.IH"(1)[OF ne True] ne by (simp add: render_text_loop.simps[of s])
    next
      case tok: False
      show ?thesis
      proof (cases "split_token s")
        case None
        then show ?thesis
          using "1.IH"(2)[OF ne tok None] ne tok by (cases n) (simp_all add: render_text_loop.simps[of s])
      next
        case (Some tr)
        obtain t rest where tr: "tr = (t, rest)" by (cases tr)
        note IH = "1.IH"(3-5)[OF ne tok Some tr[symmetric]]
        show ?thesis
          using IH ne tok Some tr
          by (cases "t = ''n'' \<or> t = ''N''"; cases "length t + 2 \<le> 7 \<and> length t + 2 \<le> n")
            (auto simp: render_text_loop.simps[of s])
      qed
    qed
  qed
qed


section \<open>The history as a list\<close>

text \<open>The visible entries, oldest first; the abstract history keeps the last 20 of them.\<close>

type_synonym chat_entry = "string \<times> string \<times> u32"

definition chat_log :: "chat_overlay \<Rightarrow> chat_entry list" where
  "chat_log st = take (chat_overlay_line_count st)
     (zip (chat_overlay_lines st) (zip (chat_overlay_timestamps st) (chat_overlay_colors st)))"

definition chat_wf :: "chat_overlay \<Rightarrow> bool" where
  "chat_wf st \<longleftrightarrow> chat_overlay_line_count st \<le> SAMP_CHAT_COMPAT_MAX_LINES \<and>
     length (chat_overlay_lines st) = SAMP_CHAT_COMPAT_MAX_LINES \<and>
     length (chat_overlay_timestamps st) = SAMP_CHAT_COMPAT_MAX_LINES \<and>
     length (chat_overlay_colors st) = SAMP_CHAT_COMPAT_MAX_LINES \<and>
     (\<forall>l\<in>set (chat_overlay_lines st). length l < SAMP_CHAT_COMPAT_LINE_BYTES)"

definition push_entry :: "chat_entry \<Rightarrow> chat_entry list \<Rightarrow> chat_entry list" where
  "push_entry e log =
     (if log \<noteq> [] \<and> fst (last log) = fst e \<and> snd (snd (last log)) = snd (snd e) then log
      else drop (length log + 1 - SAMP_CHAT_COMPAT_MAX_LINES) (log @ [e]))"

text \<open>The shifting loop on one array: after the iterations before \<open>i\<close>.\<close>

definition shifted :: "nat \<Rightarrow> 'a list \<Rightarrow> 'a list" where
  "shifted i xs = take (i - 1) (tl xs) @ drop (i - 1) xs"

lemma length_shifted [simp]: "0 < i \<Longrightarrow> i \<le> length xs \<Longrightarrow> length (shifted i xs) = length xs"
  by (simp add: shifted_def)

lemma shift_entry_shifted:
  assumes "0 < i" "i < length xs"
  shows "shift_entry (int i) (shifted i xs) = Some (shifted (Suc i) xs)"
proof -
  obtain k where k: "i = Suc k" using assms(1) by (cases i) auto
  have len: "length (take k (tl xs)) = k" using assms(2) k by simp
  have "shifted i xs ! i = xs ! i" using len assms(2) k by (simp add: shifted_def nth_append)
  moreover have "(shifted i xs)[k := xs ! i] = shifted (Suc i) xs"
  proof -
    have "(shifted i xs)[k := xs ! i] = take k (tl xs) @ (drop k xs)[0 := xs ! Suc k]"
      using len k by (simp add: shifted_def list_update_append)
    also have "\<dots> = take (Suc k) (tl xs) @ drop (Suc k) xs"
      using assms(2) k by (simp add: Cons_nth_drop_Suc[symmetric] take_Suc_conv_app_nth nth_tl)
    finally show ?thesis using k by (simp add: shifted_def)
  qed
  ultimately show ?thesis using assms k array_get_in[of i "shifted i xs"] array_put_in[of k "shifted i xs"]
    by (simp add: shift_entry_def)
qed

lemma shift_lines_from:
  assumes "0 < i" "i \<le> 20" "length ls = 20" "length ts = 20" "length cs = 20"
  shows "shift_lines (int i) (st\<lparr>chat_overlay_lines := shifted i ls, chat_overlay_timestamps := shifted i ts,
      chat_overlay_colors := shifted i cs\<rparr>) =
    Some (st\<lparr>chat_overlay_lines := shifted 20 ls, chat_overlay_timestamps := shifted 20 ts, chat_overlay_colors := shifted 20 cs\<rparr>)"
  using assms(1,2)
proof (induction "20 - i" arbitrary: i)
  case 0
  then have "i = 20" by simp
  then show ?case by (simp add: shift_lines.simps chat_consts)
next
  case (Suc n)
  then have i: "0 < i" "i < 20" by simp_all
  let ?st = "\<lambda>i. st\<lparr>chat_overlay_lines := shifted i ls, chat_overlay_timestamps := shifted i ts, chat_overlay_colors := shifted i cs\<rparr>"
  have "shift_line (int i) (?st i) = Some (?st (Suc i))"
    using i assms(3-5) by (simp add: shift_line_def shift_entry_shifted)
  moreover have "shift_lines (int (Suc i)) (?st (Suc i)) = Some (?st 20)" using Suc.hyps(1)[of "Suc i"] Suc.hyps(2) i by simp
  ultimately show ?case using i by (subst shift_lines.simps) (simp add: chat_consts add.commute)
qed

lemma shift_lines_whole:
  assumes "length (chat_overlay_lines st) = 20" "length (chat_overlay_timestamps st) = 20" "length (chat_overlay_colors st) = 20"
  shows "shift_lines 1 st = Some (st\<lparr>chat_overlay_lines := shifted 20 (chat_overlay_lines st),
    chat_overlay_timestamps := shifted 20 (chat_overlay_timestamps st), chat_overlay_colors := shifted 20 (chat_overlay_colors st)\<rparr>)"
  using shift_lines_from[of 1 "chat_overlay_lines st" "chat_overlay_timestamps st" "chat_overlay_colors st" st] assms
  by (simp add: shifted_def)

lemma shift_and_store:
  assumes "length xs = 20"
  shows "array_put 19 x (shifted 20 xs) = Some (tl xs @ [x])"
proof -
  have tl: "take 19 (tl xs) = tl xs" "length (tl xs) = 19" using assms by simp_all
  moreover have "drop 19 xs = [xs ! 19]"
    using assms Cons_nth_drop_Suc[of 19 xs] by simp
  ultimately show ?thesis using assms by (simp add: array_put_def shifted_def list_update_append)
qed

lemma chat_log_last:
  assumes "chat_wf st" "0 < chat_overlay_line_count st"
  shows "chat_log st \<noteq> [] \<and> last (chat_log st) = (chat_overlay_lines st ! (chat_overlay_line_count st - 1),
    chat_overlay_timestamps st ! (chat_overlay_line_count st - 1),
    chat_overlay_colors st ! (chat_overlay_line_count st - 1))"
proof -
  have "length (chat_log st) = chat_overlay_line_count st"
    using assms by (simp add: chat_log_def chat_wf_def)
  then show ?thesis
    using assms by (subst last_conv_nth) (auto simp: chat_log_def chat_wf_def)
qed

lemma repeats_last_wf:
  assumes "chat_wf st"
  shows "repeats_last (chat_overlay_line_count st) line color st = Some (0 < chat_overlay_line_count st \<and>
    chat_overlay_lines st ! (chat_overlay_line_count st - 1) = line \<and> chat_overlay_colors st ! (chat_overlay_line_count st - 1) = color)"
proof (cases "chat_overlay_line_count st")
  case (Suc k)
  then have "k < length (chat_overlay_lines st)" "k < length (chat_overlay_colors st)" "Suc k \<le> SAMP_CHAT_COMPAT_MAX_LINES"
    using assms by (simp_all add: chat_wf_def)
  then show ?thesis using Suc by (simp add: repeats_last_def array_get_in)
qed (simp add: repeats_last_def)

lemma add_colored_line_refines:
  assumes wf: "chat_wf st" and line: "line = chat_compat_filter_invalid_chars (take 255 t)" "t \<noteq> []"
  shows "\<exists>st'. chat_compat_add_colored_line color (Some t) time st = Some st' \<and> chat_wf st' \<and>
    chat_log st' = push_entry (line, timestamp_text time, color) (chat_log st)"
proof -
  let ?n = "chat_overlay_line_count st" and ?e = "(line, timestamp_text time, color)"
  have ne: "line \<noteq> []" and len: "length line < 256" "take 255 line = line"
    using line by (simp_all add: chat_compat_filter_invalid_chars_def)
  have lens: "length (chat_overlay_lines st) = 20" "length (chat_overlay_timestamps st) = 20"
    "length (chat_overlay_colors st) = 20" "?n \<le> 20"
    using wf by (simp_all add: chat_wf_def chat_consts)
  have llog: "length (chat_log st) = ?n" using lens by (simp add: chat_log_def)
  let ?dup = "0 < ?n \<and> chat_overlay_lines st ! (?n - 1) = line \<and> chat_overlay_colors st ! (?n - 1) = color"
  have dup: "(chat_log st \<noteq> [] \<and> fst (last (chat_log st)) = fst ?e \<and> snd (snd (last (chat_log st))) = snd (snd ?e)) = ?dup"
    using chat_log_last[OF wf] llog by (cases "?n = 0") auto
  have add: "chat_compat_add_colored_line color (Some t) time st = (if ?dup then Some st
      else if ?n < 20 then store_line (int ?n) line (timestamp_text time) color (st\<lparr>chat_overlay_line_count := ?n + 1\<rparr>)
      else shift_lines 1 st \<bind> store_line 19 line (timestamp_text time) color)"
    using line ne repeats_last_wf[OF wf, of line color] by (auto simp: chat_compat_add_colored_line_def Let_def chat_consts)
  show ?thesis
  proof (cases ?dup)
    case True
    then show ?thesis using add dup wf by (simp add: push_entry_def)
  next
    case False
    then have no_dup: "push_entry ?e (chat_log st) = drop (?n + 1 - 20) (chat_log st @ [?e])"
      using dup llog by (auto simp: push_entry_def chat_consts)
    show ?thesis
    proof (cases "?n < 20")
      case True
      let ?st = "st\<lparr>chat_overlay_line_count := ?n + 1, chat_overlay_lines := (chat_overlay_lines st)[?n := line],
        chat_overlay_timestamps := (chat_overlay_timestamps st)[?n := timestamp_text time], chat_overlay_colors := (chat_overlay_colors st)[?n := color]\<rparr>"
      have "store_line (int ?n) line (timestamp_text time) color (st\<lparr>chat_overlay_line_count := ?n + 1\<rparr>) = Some ?st"
        using True lens len by (simp add: store_line_def array_put_in chat_consts)
      then have "chat_compat_add_colored_line color (Some t) time st = Some ?st"
        unfolding add if_not_P[OF False] if_P[OF True] .
      moreover have "chat_log ?st = chat_log st @ [?e]"
        using True lens by (simp add: chat_log_def zip_update take_Suc_conv_app_nth)
      moreover have "chat_wf ?st"
        using True wf len by (auto simp: chat_wf_def chat_consts dest!: set_update_subset_insert[THEN subsetD])
      ultimately show ?thesis using no_dup True by simp
    next
      case full: False
      then have n20: "?n = 20" using lens(4) by simp
      let ?st = "st\<lparr>chat_overlay_lines := tl (chat_overlay_lines st) @ [line],
        chat_overlay_timestamps := tl (chat_overlay_timestamps st) @ [timestamp_text time],
        chat_overlay_colors := tl (chat_overlay_colors st) @ [color]\<rparr>"
      have "shift_lines 1 st \<bind> store_line 19 line (timestamp_text time) color = Some ?st"
        using shift_lines_whole[OF lens(1-3)] len lens by (simp add: store_line_def shift_and_store chat_consts)
      then have st': "chat_compat_add_colored_line color (Some t) time st = Some ?st"
        unfolding add if_not_P[OF False] if_not_P[OF full] .
      have log: "chat_log st = zip (chat_overlay_lines st) (zip (chat_overlay_timestamps st) (chat_overlay_colors st))"
        using lens n20 by (simp add: chat_log_def)
      have "chat_log ?st = tl (chat_log st) @ [?e]"
        using lens n20 unfolding chat_log_def[of ?st] log
        by (cases "chat_overlay_lines st"; cases "chat_overlay_timestamps st"; cases "chat_overlay_colors st") simp_all
      moreover have "chat_wf ?st"
        using wf len lens by (auto simp: chat_wf_def chat_consts dest: list.set_sel(2)[rotated])
      moreover have "chat_log st \<noteq> []" using llog n20 by auto
      moreover have "length (chat_log st) = 20" using llog n20 by simp
      ultimately show ?thesis using st' no_dup n20 by (simp add: drop_Suc)
    qed
  qed
qed

section \<open>Properties\<close>

text \<open>C40: Colour tags are stripped in place correctly: on any array that holds a terminated text the two-cursor
  loop stays inside the array and leaves exactly the text without its tags, terminated.\<close>

theorem strip_color_tags_in_place:
  assumes "CHR 0x00 \<in> set buf"
  shows "\<exists>buf'. chat_compat_strip_samp_color_tags buf = Some buf' \<and> length buf' = length buf \<and>
    c_str buf' = stripped (c_str buf)"
  using strip_loop_eq[of 0 0 buf] assms by (simp add: chat_compat_strip_samp_color_tags_def)

theorem strip_color_tags_in_place_witness:
  "\<exists>buf'. chat_compat_strip_samp_color_tags (''{FF8000}hi{00}'' @ [CHR 0x00]) = Some buf' \<and>
     c_str buf' = stripped (c_str (''{FF8000}hi{00}'' @ [CHR 0x00]))"
  using strip_color_tags_in_place[of "''{FF8000}hi{00}'' @ [CHR 0x00]"] by auto

text \<open>C39: The chat history keeps exactly the last 20 lines: adding a line appends the filtered text with its
  time and colour and drops the oldest when there are already 20, unless it repeats the newest line in
  the same colour; no access leaves the arrays and every line stays shorter than its array.\<close>

theorem chat_history_refines_list:
  assumes "chat_wf st" "t \<noteq> []"
  shows "\<exists>st'. chat_compat_add_colored_line color (Some t) time st = Some st' \<and> chat_wf st' \<and>
    chat_log st' =
      push_entry (chat_compat_filter_invalid_chars (take 255 t), timestamp_text time, color) (chat_log st)"
  using add_colored_line_refines[OF assms(1) refl assms(2)] .

definition empty_chat :: chat_overlay where
  "empty_chat = \<lparr>chat_overlay_line_count = 0, chat_overlay_lines = replicate 20 [],
     chat_overlay_timestamps = replicate 20 [], chat_overlay_colors = replicate 20 0, chat_timestamp_enabled = True\<rparr>"

theorem chat_history_refines_list_witness:
  "map_option chat_log (chat_compat_add_colored_line 1 (Some ''hello'') (9, 5, 30) empty_chat) =
     Some [(''hello'', ''[09:05:30]'', 1)]"
proof -
  have wf: "chat_wf empty_chat" by (simp add: chat_wf_def empty_chat_def chat_consts)
  have "map_option chat_log (chat_compat_add_colored_line 1 (Some ''hello'') (9, 5, 30) empty_chat) =
      Some (push_entry (chat_compat_filter_invalid_chars (take 255 ''hello''), timestamp_text (9, 5, 30), 1) (chat_log empty_chat))"
    using chat_history_refines_list[OF wf, of "''hello''" 1 "(9, 5, 30)"] by auto
  moreover have "chat_log empty_chat = []" by (simp add: chat_log_def empty_chat_def)
  moreover have "timestamp_text (9, 5, 30) = ''[09:05:30]''"
    by (simp add: timestamp_text_def two_digits_def decimal_def decimal_rev.simps[of 9] decimal_rev.simps[of 5]
      decimal_rev.simps[of 30] decimal_rev.simps[of 3] char_of_def bit_Suc_0_iff)
  moreover have "chat_compat_filter_invalid_chars (take 255 ''hello'') = ''hello''"
    by (simp add: chat_compat_filter_invalid_chars_def code_def)
  ultimately show ?thesis by (simp add: push_entry_def chat_consts)
qed

text \<open>The three filters that prepare a textdraw for drawing never write past the output, for any input and
  any output size, and the two that copy the text cut off what does not fit and nothing else: their
  output for a smaller buffer is the beginning of that for a larger one, before tags are stripped.\<close>

theorem textdraw_filters_bounded:
  "length (textdraw_compat_prepare_gta_text s n) \<le> n - 1 \<and>
   length (textdraw_compat_prepare_render_text s n) \<le> n - 1 \<and>
   (\<exists>out. textdraw_compat_prepare_text s n = Some out \<and>
      (\<forall>t. s = Some t \<longrightarrow> out = stripped (c_str (prepare_text_loop t (n - 1))))) \<and>
   (m \<le> n \<longrightarrow> textdraw_compat_prepare_gta_text s m = take (m - 1) (textdraw_compat_prepare_gta_text s n) \<and>
      (\<forall>t. s = Some t \<longrightarrow> prepare_text_loop t (m - 1) = take (m - 1) (prepare_text_loop t (n - 1))))"
proof -
  have "c_str (xs @ [CHR 0x00]) = c_str xs" for xs
    by (induction xs) (simp_all add: c_str_def)
  then have "\<exists>out. textdraw_compat_prepare_text s n = Some out \<and>
      (\<forall>t. s = Some t \<longrightarrow> out = stripped (c_str (prepare_text_loop t (n - 1))))"
    using strip_loop_eq[of 0 0 "prepare_text_loop (the s) (n - 1) @ [CHR 0x00]"]
    by (cases s) (auto simp: textdraw_compat_prepare_text_def chat_compat_strip_samp_color_tags_def)
  then show ?thesis
    using length_gta_text_loop[of "the s" "n - 1"] length_render_text_loop[of "the s" "n - 1"]
      gta_text_loop_take[of "m - 1" "n - 1" "the s"] prepare_text_loop_take[of "m - 1" "n - 1"]
    by (cases s) (auto simp: textdraw_compat_prepare_gta_text_def textdraw_compat_prepare_render_text_def)
qed

theorem textdraw_filters_bounded_witness:
  "length (textdraw_compat_prepare_gta_text (Some ''a_b~n~c'') 6) \<le> 5 \<and>
   textdraw_compat_prepare_gta_text (Some ''a_b~n~c'') 3 = take 2 (textdraw_compat_prepare_gta_text (Some ''a_b~n~c'') 6)"
  using textdraw_filters_bounded[of "Some ''a_b~n~c''" 6 3] by simp

end
