(* ===== verification/RpcMenus.thy ===== *)
theory RpcMenus
  imports RpcVehicles
begin

text \<open>
  Menus: the RPCs 76, 77 and 78, the two answers and the part of the snapshot in \<^verbatim>\<open>src/net/raknet_client_adapter.cpp\<close>, and
  the overlay that shows the open menu and takes the keys in \<^verbatim>\<open>src/runtime_bridge.c\<close>. The network step delivers RPCs and
  then copies the snapshot; keys come between the steps, on the same thread.
\<close>

section \<open>Menus of the adapter\<close>

definition SAMP_RAKNET_MAX_MENUS :: nat where "SAMP_RAKNET_MAX_MENUS = 128"
definition SAMP_RAKNET_MENU_MAX_ITEMS :: nat where "SAMP_RAKNET_MENU_MAX_ITEMS = 12"
definition SAMP_RAKNET_MENU_LINE_BYTES :: nat where "SAMP_RAKNET_MENU_LINE_BYTES = 32"

lemmas menu_consts = SAMP_RAKNET_MAX_MENUS_def SAMP_RAKNET_MENU_MAX_ITEMS_def SAMP_RAKNET_MENU_LINE_BYTES_def

datatype menu_action = NoMenuAction | InitMenu | ShowMenu | HideMenu

record samp_raknet_menu_state =
  mn_valid :: bool
  mn_menu_id :: u8
  mn_columns :: nat
  mn_interaction_enabled :: bool
  mn_row_enabled :: "bool list"
  mn_item_count :: "nat list"
  mn_x :: f32
  mn_y :: f32
  mn_column_width :: "f32 list"
  mn_title :: string
  mn_header :: "string list"
  mn_items :: "string list list"

definition zero_menu :: samp_raknet_menu_state where
  "zero_menu = \<lparr>mn_valid = False, mn_menu_id = 0, mn_columns = 0, mn_interaction_enabled = False,
     mn_row_enabled = replicate SAMP_RAKNET_MENU_MAX_ITEMS False, mn_item_count = [0, 0], mn_x = 0, mn_y = 0,
     mn_column_width = [0, 0], mn_title = [], mn_header = [[], []],
     mn_items = replicate 2 (replicate SAMP_RAKNET_MENU_MAX_ITEMS [])\<rparr>"

record menu_net =
  menu_event_seq :: u32
  menu_event_action :: menu_action
  menu_event_id :: u8
  active_menu_id :: u8
  menus :: "samp_raknet_menu_state list"

definition reset_menu_net :: menu_net where
  "reset_menu_net = \<lparr>menu_event_seq = 0, menu_event_action = NoMenuAction, menu_event_id = 0xFF, active_menu_id = 0xFF,
     menus = replicate SAMP_RAKNET_MAX_MENUS zero_menu\<rparr>"

definition queue_menu_event :: "menu_action \<Rightarrow> u8 \<Rightarrow> menu_net \<Rightarrow> menu_net" where
  "queue_menu_event action menu_id w =
     w\<lparr>menu_event_action := action, menu_event_id := menu_id, menu_event_seq := bump_seq (menu_event_seq w)\<rparr>"

text \<open>A line is the text up to its NUL, at most 31 characters, with control characters but the tab shown as spaces.\<close>

definition menu_char :: "char \<Rightarrow> char" where
  "menu_char c = (if (of_char c :: nat) < 32 \<and> c \<noteq> CHR 0x09 then CHR 0x20 else c)"

definition terminate_menu_line :: "u8 list \<Rightarrow> string" where
  "terminate_menu_line line = map menu_char (bytes_string (take (SAMP_RAKNET_MENU_LINE_BYTES - 1) line))"

definition read_line :: "'b bitstream \<Rightarrow> 'b \<Rightarrow> (string \<times> 'b) option" where
  "read_line B s = do {
     (bytes, s) \<leftarrow> bs_bytes B SAMP_RAKNET_MENU_LINE_BYTES s;
     Some (terminate_menu_line bytes, s) }"

text \<open>An integer that stands for a truth value.\<close>

definition read_flag :: "'b bitstream \<Rightarrow> 'b \<Rightarrow> (bool \<times> 'b) option" where
  "read_flag B s = do {
     (v, s) \<leftarrow> bs_u32 B s;
     if v \<noteq> 0 \<and> v \<noteq> 1 then None else Some (v \<noteq> 0, s) }"

fun read_flags :: "'b bitstream \<Rightarrow> nat \<Rightarrow> 'b \<Rightarrow> (bool list \<times> 'b) option" where
  "read_flags B 0 s = Some ([], s)"
| "read_flags B (Suc n) s = do {
     (v, s) \<leftarrow> read_flag B s;
     (vs, s) \<leftarrow> read_flags B n s;
     Some (v # vs, s) }"

fun read_lines :: "'b bitstream \<Rightarrow> nat \<Rightarrow> 'b \<Rightarrow> (string list \<times> 'b) option" where
  "read_lines B 0 s = Some ([], s)"
| "read_lines B (Suc n) s = do {
     (t, s) \<leftarrow> read_line B s;
     (ts, s) \<leftarrow> read_lines B n s;
     Some (t # ts, s) }"

text \<open>One turn of the loop over the columns: header, count and items.\<close>

definition read_column :: "'b bitstream \<Rightarrow> nat \<Rightarrow> samp_raknet_menu_state \<times> 'b \<Rightarrow> (samp_raknet_menu_state \<times> 'b) option" where
  "read_column B column ms = (case ms of (m, s) \<Rightarrow> do {
     (header, s) \<leftarrow> read_line B s;
     (count, s) \<leftarrow> bs_u8 B s;
     if unat count > SAMP_RAKNET_MENU_MAX_ITEMS then None
     else do {
       (items, s) \<leftarrow> read_lines B (unat count) s;
       Some (m\<lparr>mn_header := (mn_header m)[column := header], mn_item_count := (mn_item_count m)[column := unat count],
               mn_items := (mn_items m)[column := items @ replicate (SAMP_RAKNET_MENU_MAX_ITEMS - unat count) []]\<rparr>, s) } })"

definition menu_place_plausible :: "f32 \<Rightarrow> f32 \<Rightarrow> f32 \<Rightarrow> f32 \<Rightarrow> bool" where
  "menu_place_plausible x y w0 w1 \<longleftrightarrow> f32_finite x \<and> f32_finite y \<and> f32_finite w0 \<and> f32_finite w1 \<and>
     f32_within (- 4096) 4096 x \<and> f32_within (- 4096) 4096 y \<and> f32_within 0 4096 w0 \<and> f32_within 0 4096 w1"

definition read_menu :: "'b bitstream \<Rightarrow> u8 list \<Rightarrow> samp_raknet_menu_state option" where
  "read_menu B data = do {
     (menu_id, s) \<leftarrow> bs_u8 B (bs_open B data);
     (two_columns, s) \<leftarrow> bs_u32 B s;
     if unat menu_id \<ge> SAMP_RAKNET_MAX_MENUS \<or> (two_columns \<noteq> 0 \<and> two_columns \<noteq> 1) then None
     else do {
       (title, s) \<leftarrow> read_line B s;
       (x, s) \<leftarrow> bs_u32 B s;
       (y, s) \<leftarrow> bs_u32 B s;
       (w0, s) \<leftarrow> bs_u32 B s;
       (w1, s) \<leftarrow> (if two_columns \<noteq> 0 then bs_u32 B s else Some (0, s));
       if \<not> menu_place_plausible x y w0 w1 then None
       else do {
         (interaction, s) \<leftarrow> read_flag B s;
         (enabled, s) \<leftarrow> read_flags B SAMP_RAKNET_MENU_MAX_ITEMS s;
         let m = zero_menu\<lparr>mn_valid := True, mn_menu_id := menu_id, mn_columns := (if two_columns \<noteq> 0 then 2 else 1),
                   mn_interaction_enabled := interaction, mn_row_enabled := enabled, mn_x := x, mn_y := y,
                   mn_column_width := [w0, w1], mn_title := title\<rparr>;
         (m, s) \<leftarrow> read_column B 0 (m, s);
         (m, s) \<leftarrow> (if two_columns \<noteq> 0 then read_column B 1 (m, s) else Some (m, s));
         Some m } } }"

definition decode_init_menu_payload :: "'b bitstream \<Rightarrow> u8 list \<Rightarrow> menu_net \<Rightarrow> bool \<times> menu_net" where
  "decode_init_menu_payload B data w =
     (if length data < 134 then (False, w)
      else case read_menu B data of None \<Rightarrow> (False, w)
        | Some m \<Rightarrow>
            let w = w\<lparr>menus := (menus w)[unat (mn_menu_id m) := m]\<rparr>;
                w = (if active_menu_id w = mn_menu_id m then w\<lparr>active_menu_id := 0xFF\<rparr> else w)
            in (True, queue_menu_event InitMenu (mn_menu_id m) w))"

definition menu_known :: "u8 \<Rightarrow> menu_net \<Rightarrow> bool" where
  "menu_known menu_id w \<longleftrightarrow> unat menu_id < SAMP_RAKNET_MAX_MENUS \<and> mn_valid (menus w ! unat menu_id)"

definition decode_menu_visibility_payload :: "nat \<Rightarrow> u8 list \<Rightarrow> menu_net \<Rightarrow> bool \<times> menu_net" where
  "decode_menu_visibility_payload rpc_id data w =
     (if length data < 1 \<or> \<not> menu_known (data ! 0) w then (False, w)
      else if rpc_id = 77 then (True, queue_menu_event ShowMenu (data ! 0) (w\<lparr>active_menu_id := data ! 0\<rparr>))
      else if rpc_id = 78 then (True, queue_menu_event HideMenu (data ! 0) (w\<lparr>active_menu_id := 0xFF\<rparr>))
      else (False, w))"

definition observe_menu_rpc :: "'b bitstream \<Rightarrow> nat \<times> u8 list \<Rightarrow> menu_net \<Rightarrow> menu_net" where
  "observe_menu_rpc B x w =
     (if fst x = 76 then snd (decode_init_menu_payload B (snd x) w)
      else if fst x = 77 \<or> fst x = 78 then snd (decode_menu_visibility_payload (fst x) (snd x) w)
      else w)"

definition observe_menu_rpcs :: "'b bitstream \<Rightarrow> (nat \<times> u8 list) list \<Rightarrow> menu_net \<Rightarrow> menu_net" where
  "observe_menu_rpcs B xs w = fold (observe_menu_rpc B) xs w"

section \<open>The two answers\<close>

datatype menu_answer = MenuSelect u8 | MenuQuit

definition menu_rows :: "samp_raknet_menu_state \<Rightarrow> nat" where
  "menu_rows m = (if mn_item_count m ! 0 > mn_item_count m ! 1 then mn_item_count m ! 0 else mn_item_count m ! 1)"

text \<open>A sender returns its result, the state and the answer, with whether the network took it.\<close>

definition close_menu :: "u8 \<Rightarrow> menu_net \<Rightarrow> menu_net" where
  "close_menu menu_id w = queue_menu_event HideMenu menu_id (w\<lparr>active_menu_id := 0xFF\<rparr>)"

definition samp_raknet_client_send_menu_select ::
  "(menu_answer \<Rightarrow> bool) \<Rightarrow> bool \<Rightarrow> u8 \<Rightarrow> menu_net \<Rightarrow> int \<times> menu_net \<times> (menu_answer \<times> bool) list" where
  "samp_raknet_client_send_menu_select send own row w =
     (if \<not> own \<or> unat row \<ge> SAMP_RAKNET_MENU_MAX_ITEMS \<or> unat (active_menu_id w) \<ge> SAMP_RAKNET_MAX_MENUS then (- 1, w, [])
      else let menu_id = active_menu_id w; menu = menus w ! unat menu_id
           in if \<not> mn_valid menu \<or> \<not> mn_interaction_enabled menu \<or> unat row \<ge> menu_rows menu \<or> \<not> mn_row_enabled menu ! unat row
              then (- 1, w, [])
              else let sent = send (MenuSelect row)
                   in (if sent then 0 else - 2, if sent then close_menu menu_id w else w, [(MenuSelect row, sent)]))"

definition samp_raknet_client_send_menu_quit ::
  "(menu_answer \<Rightarrow> bool) \<Rightarrow> bool \<Rightarrow> menu_net \<Rightarrow> int \<times> menu_net \<times> (menu_answer \<times> bool) list" where
  "samp_raknet_client_send_menu_quit send own w =
     (if \<not> own \<or> unat (active_menu_id w) \<ge> SAMP_RAKNET_MAX_MENUS then (- 1, w, [])
      else let sent = send MenuQuit
           in (if sent then 0 else - 2, if sent then close_menu (active_menu_id w) w else w, [(MenuQuit, sent)]))"

text \<open>What the snapshot says of menus: the open one, or else the one of the last event.\<close>

definition menu_snapshot :: "menu_net \<Rightarrow> bool \<times> samp_raknet_menu_state" where
  "menu_snapshot w =
     (if menu_known (active_menu_id w) w then (True, menus w ! unat (active_menu_id w))
      else if menu_known (menu_event_id w) w then (False, menus w ! unat (menu_event_id w))
      else (False, zero_menu))"

section \<open>The overlay\<close>

record menu_overlay =
  mo_event_seq :: u32
  mo_active :: bool
  mo_selected :: int
  mo_menu :: samp_raknet_menu_state

definition reset_menu_overlay :: menu_overlay where
  "reset_menu_overlay = \<lparr>mo_event_seq = 0, mo_active = False, mo_selected = - 1, mo_menu = zero_menu\<rparr>"

definition menu_compat_row_count :: "menu_overlay \<Rightarrow> int" where
  "menu_compat_row_count o1 =
     (let rows = int (mn_item_count (mo_menu o1) ! 0);
          rows = (if int (mn_item_count (mo_menu o1) ! 1) > rows then int (mn_item_count (mo_menu o1) ! 1) else rows);
          rows = (if rows < 0 then 0 else rows)
      in if rows > int SAMP_RAKNET_MENU_MAX_ITEMS then int SAMP_RAKNET_MENU_MAX_ITEMS else rows)"

definition menu_compat_row_selectable :: "int \<Rightarrow> menu_overlay \<Rightarrow> bool" where
  "menu_compat_row_selectable row o1 \<longleftrightarrow> row \<ge> 0 \<and> row < menu_compat_row_count o1 \<and>
     mn_interaction_enabled (mo_menu o1) \<and> mn_row_enabled (mo_menu o1) ! nat row"

text \<open>The loop from row 0, with the rows that are left.\<close>

fun first_selectable :: "nat \<Rightarrow> int \<Rightarrow> menu_overlay \<Rightarrow> int" where
  "first_selectable 0 row o1 = - 1"
| "first_selectable (Suc n) row o1 = (if menu_compat_row_selectable row o1 then row else first_selectable n (row + 1) o1)"

definition menu_compat_first_selectable :: "menu_overlay \<Rightarrow> int" where
  "menu_compat_first_selectable o1 = first_selectable (nat (menu_compat_row_count o1)) 0 o1"

text \<open>The snapshot as the overlay takes it: the number of the last event, whether a menu is open, and that menu.\<close>

definition menu_compat_update_from_snapshot :: "u32 \<times> bool \<times> samp_raknet_menu_state \<Rightarrow> menu_overlay \<Rightarrow> menu_overlay" where
  "menu_compat_update_from_snapshot snapshot o1 = (case snapshot of (seq, active, menu) \<Rightarrow>
     if \<not> active \<or> \<not> mn_valid menu \<or> unat (mn_menu_id menu) \<ge> SAMP_RAKNET_MAX_MENUS
     then o1\<lparr>mo_active := False, mo_event_seq := seq\<rparr>
     else let o1 = (if mo_event_seq o1 \<noteq> seq \<or> \<not> mo_active o1 \<or> mn_menu_id (mo_menu o1) \<noteq> mn_menu_id menu
                    then let o1 = o1\<lparr>mo_menu := menu\<rparr> in o1\<lparr>mo_selected := menu_compat_first_selectable o1\<rparr>
                    else o1)
          in o1\<lparr>mo_event_seq := seq, mo_active := True\<rparr>)"

fun move_loop :: "nat \<Rightarrow> bool \<Rightarrow> int \<Rightarrow> int \<Rightarrow> menu_overlay \<Rightarrow> menu_overlay" where
  "move_loop 0 up rows candidate o1 = o1"
| "move_loop (Suc n) up rows candidate o1 =
     (let candidate = candidate + (if up then - 1 else 1);
          candidate = (if candidate < 0 then rows - 1 else if candidate \<ge> rows then 0 else candidate)
      in if menu_compat_row_selectable candidate o1 then o1\<lparr>mo_selected := candidate\<rparr>
         else move_loop n up rows candidate o1)"

definition menu_compat_move_selection :: "int \<Rightarrow> menu_overlay \<Rightarrow> menu_overlay" where
  "menu_compat_move_selection delta o1 =
     (let rows = menu_compat_row_count o1; candidate = mo_selected o1
      in if rows \<le> 0 \<or> \<not> mn_interaction_enabled (mo_menu o1) then o1
         else let candidate = (if candidate < 0 \<or> candidate \<ge> rows then (if delta < 0 then 0 else rows - 1) else candidate)
              in move_loop (nat rows) (delta < 0) rows candidate o1)"

text \<open>The client handle of the network manager, if it has one, and whether it is the one of the adapter.\<close>

record menu_env =
  has_client :: bool
  own_handle :: bool
  answer_sent :: "menu_answer \<Rightarrow> bool"

definition menu_compat_submit ::
  "menu_env \<Rightarrow> menu_overlay \<times> menu_net \<Rightarrow> (menu_overlay \<times> menu_net) \<times> int \<times> (menu_answer \<times> bool) list" where
  "menu_compat_submit E s = (case s of (o1, w) \<Rightarrow>
     if \<not> mo_active o1 \<or> \<not> menu_compat_row_selectable (mo_selected o1) o1 then (s, - 1, [])
     else let (result, w, out) = (if has_client E
            then samp_raknet_client_send_menu_select (answer_sent E) (own_handle E) (of_int (mo_selected o1)) w else (- 1, w, []))
          in ((if result = 0 then o1\<lparr>mo_active := False\<rparr> else o1, w), result, out))"

definition menu_compat_quit ::
  "menu_env \<Rightarrow> menu_overlay \<times> menu_net \<Rightarrow> (menu_overlay \<times> menu_net) \<times> int \<times> (menu_answer \<times> bool) list" where
  "menu_compat_quit E s = (case s of (o1, w) \<Rightarrow>
     if \<not> mo_active o1 then (s, - 1, [])
     else let (result, w, out) = (if has_client E
            then samp_raknet_client_send_menu_quit (answer_sent E) (own_handle E) w else (- 1, w, []))
          in ((if result = 0 then o1\<lparr>mo_active := False\<rparr> else o1, w), result, out))"

datatype key_msg = KeyChar | KeyDown | KeyUp | OtherMsg

definition VK_RETURN :: nat where "VK_RETURN = 0x0D"
definition VK_ESCAPE :: nat where "VK_ESCAPE = 0x1B"
definition VK_UP :: nat where "VK_UP = 0x26"
definition VK_DOWN :: nat where "VK_DOWN = 0x28"

lemmas vk_defs = VK_RETURN_def VK_ESCAPE_def VK_UP_def VK_DOWN_def

text \<open>The window procedure passes a message here first; the result says whether the menu took it. Bit 30 of \<open>lparam\<close> marks a
  repeated key.\<close>

definition menu_compat_handle_key ::
  "menu_env \<Rightarrow> key_msg \<Rightarrow> nat \<Rightarrow> u32 \<Rightarrow> menu_overlay \<times> menu_net \<Rightarrow> bool \<times> (menu_overlay \<times> menu_net) \<times> (menu_answer \<times> bool) list" where
  "menu_compat_handle_key E msg wparam lparam s =
     (if \<not> mo_active (fst s) then (False, s, [])
      else if msg = KeyChar \<and> (wparam = 13 \<or> wparam = 10 \<or> wparam = 27) then (True, s, [])
      else if msg \<noteq> KeyDown \<and> msg \<noteq> KeyUp then (False, s, [])
      else if wparam \<noteq> VK_UP \<and> wparam \<noteq> VK_DOWN \<and> wparam \<noteq> VK_RETURN \<and> wparam \<noteq> VK_ESCAPE then (True, s, [])
      else if msg = KeyUp then (True, s, [])
      else if wparam = VK_UP then (True, (menu_compat_move_selection (- 1) (fst s), snd s), [])
      else if wparam = VK_DOWN then (True, (menu_compat_move_selection 1 (fst s), snd s), [])
      else if \<not> bit lparam 30 \<and> wparam = VK_RETURN then let (s, _, out) = menu_compat_submit E s in (True, s, out)
      else if \<not> bit lparam 30 \<and> wparam = VK_ESCAPE then let (s, _, out) = menu_compat_quit E s in (True, s, out)
      else (True, s, []))"

section \<open>Runs\<close>

text \<open>A network step delivers RPCs and copies the snapshot; a key message comes between two network steps.\<close>

datatype menu_event = NetworkStep "(nat \<times> u8 list) list" | KeyMessage menu_env key_msg nat u32

definition menu_network_step :: "'b bitstream \<Rightarrow> (nat \<times> u8 list) list \<Rightarrow> menu_overlay \<times> menu_net \<Rightarrow> menu_overlay \<times> menu_net" where
  "menu_network_step B xs s =
     (let w = observe_menu_rpcs B xs (snd s)
      in (menu_compat_update_from_snapshot (menu_event_seq w, menu_snapshot w) (fst s), w))"

definition menu_step ::
  "'b bitstream \<Rightarrow> menu_event \<Rightarrow> menu_overlay \<times> menu_net \<Rightarrow> (menu_overlay \<times> menu_net) \<times> (menu_answer \<times> bool) list" where
  "menu_step B e s = (case e of NetworkStep xs \<Rightarrow> (menu_network_step B xs s, [])
     | KeyMessage E msg wparam lparam \<Rightarrow> snd (menu_compat_handle_key E msg wparam lparam s))"

fun menu_run :: "'b bitstream \<Rightarrow> menu_event list \<Rightarrow> menu_overlay \<times> menu_net \<Rightarrow> (menu_overlay \<times> menu_net) \<times> (menu_answer \<times> bool) list" where
  "menu_run B [] s = (s, [])"
| "menu_run B (e # es) s = (let (s, out) = menu_step B e s; (s, out') = menu_run B es s in (s, out @ out'))"

section \<open>What a decoded menu is\<close>

definition menu_line_ok :: "string \<Rightarrow> bool" where
  "menu_line_ok t \<longleftrightarrow> length t < SAMP_RAKNET_MENU_LINE_BYTES \<and> (\<forall>c\<in>set t. 32 \<le> (of_char c :: nat) \<or> c = CHR 0x09)"

definition menu_ok :: "samp_raknet_menu_state \<Rightarrow> bool" where
  "menu_ok m \<longleftrightarrow> length (mn_row_enabled m) = SAMP_RAKNET_MENU_MAX_ITEMS \<and> length (mn_item_count m) = 2 \<and>
     (\<forall>n\<in>set (mn_item_count m). n \<le> SAMP_RAKNET_MENU_MAX_ITEMS) \<and> length (mn_header m) = 2 \<and> length (mn_items m) = 2 \<and>
     menu_line_ok (mn_title m) \<and> (\<forall>t\<in>set (mn_header m). menu_line_ok t) \<and>
     (\<forall>ts\<in>set (mn_items m). length ts = SAMP_RAKNET_MENU_MAX_ITEMS \<and> (\<forall>t\<in>set ts. menu_line_ok t))"

lemma menu_line_ok_empty [simp]: "menu_line_ok []"
  by (simp add: menu_line_ok_def menu_consts)

lemma menu_char_shown: "32 \<le> (of_char (menu_char c) :: nat) \<or> menu_char c = CHR 0x09"
  by (auto simp: menu_char_def)

lemma terminate_menu_line_ok: "menu_line_ok (terminate_menu_line line)"
proof -
  have "length (bytes_string (take 31 line)) \<le> length (map (\<lambda>b. char_of (unat b) :: char) (take 31 line))"
    unfolding bytes_string_def by (rule length_takeWhile_le)
  then have "length (terminate_menu_line line) < SAMP_RAKNET_MENU_LINE_BYTES"
    by (simp add: terminate_menu_line_def menu_consts)
  moreover have "\<forall>c\<in>set (terminate_menu_line line). 32 \<le> (of_char c :: nat) \<or> c = CHR 0x09"
    using menu_char_shown by (simp add: terminate_menu_line_def)
  ultimately show ?thesis by (simp add: menu_line_ok_def)
qed

lemma read_line_ok: "read_line B s = Some (t, s') \<Longrightarrow> menu_line_ok t"
  by (auto simp: read_line_def bind_Some_iff terminate_menu_line_ok)

lemma read_lines_ok: "read_lines B n s = Some (ts, s') \<Longrightarrow> length ts = n \<and> (\<forall>t\<in>set ts. menu_line_ok t)"
  by (induction n arbitrary: s ts) (fastforce simp: bind_Some_iff dest: read_line_ok)+

lemma read_flags_length: "read_flags B n s = Some (vs, s') \<Longrightarrow> length vs = n"
  by (induction n arbitrary: s vs) (auto simp: bind_Some_iff)

lemma in_set_updateD: "y \<in> set (xs[i := x]) \<Longrightarrow> y = x \<or> y \<in> set xs"
  using set_update_subset_insert by fastforce

lemma read_column_ok:
  assumes "read_column B column (m, s) = Some (m', s')" "menu_ok m"
  shows "menu_ok m' \<and> mn_valid m' = mn_valid m \<and> mn_menu_id m' = mn_menu_id m"
proof -
  from assms(1) obtain header s1 count s2 items where c: "read_line B s = Some (header, s1)" "bs_u8 B s1 = Some (count, s2)"
    "unat count \<le> SAMP_RAKNET_MENU_MAX_ITEMS" "read_lines B (unat count) s2 = Some (items, s')"
    "m' = m\<lparr>mn_header := (mn_header m)[column := header], mn_item_count := (mn_item_count m)[column := unat count],
            mn_items := (mn_items m)[column := items @ replicate (SAMP_RAKNET_MENU_MAX_ITEMS - unat count) []]\<rparr>"
    by (auto simp: read_column_def bind_Some_iff not_less split: if_splits)
  let ?new = "items @ replicate (SAMP_RAKNET_MENU_MAX_ITEMS - unat count) []"
  have new: "length ?new = SAMP_RAKNET_MENU_MAX_ITEMS \<and> (\<forall>t\<in>set ?new. menu_line_ok t)"
    using read_lines_ok[OF c(4)] c(3) by auto
  show ?thesis using assms(2) read_line_ok[OF c(1)] c(3) new
    unfolding c(5) menu_ok_def by (auto dest!: in_set_updateD)
qed

text \<open>What a reader that succeeds yields, by the structure of its definition.\<close>

definition yields :: "('a \<Rightarrow> bool) \<Rightarrow> 'a option \<Rightarrow> bool" where
  "yields P m \<longleftrightarrow> (case m of None \<Rightarrow> True | Some r \<Rightarrow> P r)"

named_theorems yields_intros

lemma yields_None [yields_intros]: "yields P None"
  by (simp add: yields_def)

lemma yields_return [yields_intros]: "P r \<Longrightarrow> yields P (Some r)"
  by (simp add: yields_def)

lemma yields_if [yields_intros]: "(c \<Longrightarrow> yields P a) \<Longrightarrow> (\<not> c \<Longrightarrow> yields P b) \<Longrightarrow> yields P (if c then a else b)"
  by simp

lemma yields_read [yields_intros]: "(\<And>x. m = Some x \<Longrightarrow> yields P (f x)) \<Longrightarrow> yields P (m \<bind> f)"
  by (cases m) (simp_all add: yields_def)

lemma yields_pair [yields_intros]: "(\<And>a b. x = (a, b) \<Longrightarrow> yields P (f a b)) \<Longrightarrow> yields P (case x of (a, b) \<Rightarrow> f a b)"
  by (cases x) simp

lemma yields_let [yields_intros]: "(\<And>x. x = a \<Longrightarrow> yields P (f x)) \<Longrightarrow> yields P (let x = a in f x)"
  by simp

lemma yieldsD: "yields P m \<Longrightarrow> m = Some r \<Longrightarrow> P r"
  by (simp add: yields_def)

lemma read_menu_ok:
  "yields (\<lambda>m. menu_ok m \<and> mn_valid m \<and> unat (mn_menu_id m) < SAMP_RAKNET_MAX_MENUS) (read_menu B data)"
  unfolding read_menu_def
proof (intro yields_intros, goal_cases)
  case prems: (1 r1 menu_id s1 r2 two s2 r3 title s3 r4 x s4 r5 y s5 r6 w0 s6 r7 w1 s7 r8 i s8 r9 en s9 m0 r10 m1 s10 r11 m s11)
  have "menu_ok m0 \<and> mn_valid m0 \<and> mn_menu_id m0 = menu_id"
    using prems read_flags_length[of B SAMP_RAKNET_MENU_MAX_ITEMS s8 en s9] read_line_ok[of B s2 title s3]
    by (simp add: menu_ok_def zero_menu_def)
  moreover from this have "menu_ok m1 \<and> mn_valid m1 \<and> mn_menu_id m1 = menu_id"
    using prems read_column_ok[of B 0 m0 s9 m1 s10] by simp
  moreover from this have "menu_ok m \<and> mn_valid m \<and> mn_menu_id m = menu_id"
    using prems read_column_ok[of B 1 m1 s10 m s11] by (auto split: if_splits)
  ultimately show ?case using prems by simp
qed

section \<open>The overlay shows the open menu\<close>

text \<open>A menu that the adapter holds is well formed and kept under its number.\<close>

definition menu_net_ok :: "menu_net \<Rightarrow> bool" where
  "menu_net_ok w \<longleftrightarrow> length (menus w) = SAMP_RAKNET_MAX_MENUS \<and>
     (\<forall>i < SAMP_RAKNET_MAX_MENUS. mn_valid (menus w ! i) \<longrightarrow> menu_ok (menus w ! i) \<and> unat (mn_menu_id (menus w ! i)) = i)"

lemma menu_net_ok_reset: "menu_net_ok reset_menu_net"
  by (simp add: menu_net_ok_def reset_menu_net_def zero_menu_def)

lemma menu_net_ok_queue [simp]: "menu_net_ok (queue_menu_event a i w) = menu_net_ok w"
  by (simp add: menu_net_ok_def queue_menu_event_def)

lemma menu_net_ok_active [simp]: "menu_net_ok (w\<lparr>active_menu_id := i\<rparr>) = menu_net_ok w"
  by (simp add: menu_net_ok_def)

lemma menu_net_ok_close [simp]: "menu_net_ok (close_menu i w) = menu_net_ok w"
  by (simp add: close_menu_def)

lemma observe_menu_rpc_ok:
  assumes "menu_net_ok w" "unat (menu_event_seq w) + 1 < 4294967296"
  shows "menu_net_ok (observe_menu_rpc B x w) \<and>
    (observe_menu_rpc B x w = w \<or> unat (menu_event_seq (observe_menu_rpc B x w)) = unat (menu_event_seq w) + 1)"
proof -
  have next_number: "unat (bump_seq (menu_event_seq w)) = unat (menu_event_seq w) + 1" using assms(2) by (rule bump_seq_next)
  consider (none) "observe_menu_rpc B x w = w"
    | (init) m where "read_menu B (snd x) = Some m" "observe_menu_rpc B x w = queue_menu_event InitMenu (mn_menu_id m)
        (let w = w\<lparr>menus := (menus w)[unat (mn_menu_id m) := m]\<rparr> in if active_menu_id w = mn_menu_id m then w\<lparr>active_menu_id := 0xFF\<rparr> else w)"
    | (vis) a i j where "observe_menu_rpc B x w = queue_menu_event a i (w\<lparr>active_menu_id := j\<rparr>)"
  proof (cases "fst x = 76")
    case True
    then show ?thesis using none init
      by (cases "length (snd x) < 134"; cases "read_menu B (snd x)")
        (auto simp: observe_menu_rpc_def decode_init_menu_payload_def Let_def)
  next
    case False
    then show ?thesis using none vis
      by (cases "length (snd x) < 1 \<or> \<not> menu_known (snd x ! 0) w"; cases "fst x = 77"; cases "fst x = 78")
        (auto simp: observe_menu_rpc_def decode_menu_visibility_payload_def)
  qed
  then show ?thesis
  proof cases
    case init
    have "menu_net_ok (w\<lparr>menus := (menus w)[unat (mn_menu_id m) := m]\<rparr>)"
      using assms(1) yieldsD[OF read_menu_ok init(1)] by (auto simp: menu_net_ok_def nth_list_update)
    then show ?thesis using next_number by (simp add: init(2) Let_def) (simp add: queue_menu_event_def)
  next
    case vis
    then show ?thesis using assms(1) next_number by (simp, simp add: queue_menu_event_def)
  qed (use assms in simp)
qed

lemma observe_menu_rpcs_ok:
  assumes "menu_net_ok w" "unat (menu_event_seq w) + length xs < 4294967296"
  shows "menu_net_ok (observe_menu_rpcs B xs w) \<and> unat (menu_event_seq (observe_menu_rpcs B xs w)) \<le> unat (menu_event_seq w) + length xs \<and>
    unat (menu_event_seq w) \<le> unat (menu_event_seq (observe_menu_rpcs B xs w)) \<and>
    (menu_event_seq (observe_menu_rpcs B xs w) = menu_event_seq w \<longrightarrow> observe_menu_rpcs B xs w = w)"
  using assms
proof (induction xs arbitrary: w)
  case (Cons x xs)
  let ?w = "observe_menu_rpc B x w"
  from observe_menu_rpc_ok[OF Cons.prems(1), of B x] Cons.prems(2)
  have ok: "menu_net_ok ?w" "?w = w \<or> unat (menu_event_seq ?w) = unat (menu_event_seq w) + 1" by simp_all
  have room: "unat (menu_event_seq ?w) + length xs < 4294967296" using ok(2) Cons.prems(2) by auto
  have s: "observe_menu_rpcs B (x # xs) w = observe_menu_rpcs B xs ?w" by (simp add: observe_menu_rpcs_def)
  show ?case unfolding s using Cons.IH[OF ok(1) room] ok(2) by auto
qed (simp add: observe_menu_rpcs_def)

lemma row_count_rows:
  assumes "menu_ok (mo_menu o1)"
  shows "menu_compat_row_count o1 = int (menu_rows (mo_menu o1)) \<and> menu_rows (mo_menu o1) \<le> SAMP_RAKNET_MENU_MAX_ITEMS"
proof -
  obtain a b where c: "mn_item_count (mo_menu o1) = [a, b]" using assms
    by (auto simp: menu_ok_def length_Suc_conv numeral_2_eq_2)
  then have "a \<le> SAMP_RAKNET_MENU_MAX_ITEMS" "b \<le> SAMP_RAKNET_MENU_MAX_ITEMS" using assms by (auto simp: menu_ok_def)
  then show ?thesis by (simp add: menu_compat_row_count_def menu_rows_def c Let_def)
qed

lemma selectable_selected [simp]: "menu_compat_row_selectable row (o1\<lparr>mo_selected := x\<rparr>) = menu_compat_row_selectable row o1"
  "menu_compat_row_selectable row (o1\<lparr>mo_event_seq := n\<rparr>) = menu_compat_row_selectable row o1"
  "menu_compat_row_selectable row (o1\<lparr>mo_active := b\<rparr>) = menu_compat_row_selectable row o1"
  by (simp_all add: menu_compat_row_selectable_def menu_compat_row_count_def)

text \<open>The selection is a row that can be chosen, or none where no row can.\<close>

definition selection_ok :: "menu_overlay \<Rightarrow> bool" where
  "selection_ok o1 \<longleftrightarrow> menu_compat_row_selectable (mo_selected o1) o1 \<or>
     mo_selected o1 = - 1 \<and> (\<forall>row. \<not> menu_compat_row_selectable row o1)"

lemma first_selectable_spec:
  "let r = first_selectable n row o1
   in menu_compat_row_selectable r o1 \<or> r = - 1 \<and> (\<forall>i. row \<le> i \<and> i < row + int n \<longrightarrow> \<not> menu_compat_row_selectable i o1)"
proof (induction n arbitrary: row)
  case (Suc n)
  show ?case
  proof (cases "menu_compat_row_selectable row o1")
    case False
    then have "\<not> menu_compat_row_selectable i o1" if "\<forall>i. row + 1 \<le> i \<and> i < row + 1 + int n \<longrightarrow> \<not> menu_compat_row_selectable i o1"
      "row \<le> i" "i < row + int (Suc n)" for i using that by (cases "i = row") auto
    then show ?thesis using Suc[of "row + 1"] False by (auto simp: Let_def)
  qed simp
qed (auto simp: Let_def)

lemma selection_ok_first: "selection_ok (o1\<lparr>mo_selected := menu_compat_first_selectable o1\<rparr>)"
proof -
  define r where "r = menu_compat_first_selectable o1"
  have range: "menu_compat_row_selectable row o1 \<Longrightarrow> 0 \<le> row \<and> row < 0 + int (nat (menu_compat_row_count o1))" for row
    by (simp add: menu_compat_row_selectable_def)
  have "menu_compat_row_selectable r o1 \<or> r = - 1 \<and>
      (\<forall>i. 0 \<le> i \<and> i < 0 + int (nat (menu_compat_row_count o1)) \<longrightarrow> \<not> menu_compat_row_selectable i o1)"
    using first_selectable_spec[of "nat (menu_compat_row_count o1)" 0 o1] by (simp only: r_def menu_compat_first_selectable_def Let_def)
  then have "menu_compat_row_selectable r o1 \<or> r = - 1 \<and> (\<forall>row. \<not> menu_compat_row_selectable row o1)" using range by blast
  then show ?thesis by (simp add: selection_ok_def r_def)
qed

definition reselects :: "menu_overlay \<Rightarrow> menu_overlay \<Rightarrow> bool" where
  "reselects o1 o2 \<longleftrightarrow> o2 = o1 \<or> (\<exists>x. o2 = o1\<lparr>mo_selected := x\<rparr> \<and> menu_compat_row_selectable x o1)"

lemma move_loop_reselects: "reselects o1 (move_loop n up rows candidate o1)"
proof (induction n arbitrary: candidate)
  case (Suc n)
  obtain c where c: "move_loop (Suc n) up rows candidate o1 =
      (if menu_compat_row_selectable c o1 then o1\<lparr>mo_selected := c\<rparr> else move_loop n up rows c o1)"
    unfolding move_loop.simps Let_def by blast
  show ?case
  proof (cases "menu_compat_row_selectable c o1")
    case True
    then show ?thesis unfolding c reselects_def by auto
  next
    case False
    then show ?thesis unfolding c using Suc.IH[of c] by simp
  qed
qed (simp add: reselects_def)

lemma move_selection_reselects: "reselects o1 (menu_compat_move_selection delta o1)"
  using move_loop_reselects by (simp add: menu_compat_move_selection_def Let_def) (simp add: reselects_def)

lemma selection_ok_move: "selection_ok o1 \<Longrightarrow> selection_ok (menu_compat_move_selection delta o1)"
  using move_selection_reselects[of o1 delta] by (auto simp: reselects_def selection_ok_def)

text \<open>An overlay in use shows the menu that the adapter holds open.\<close>

definition menu_shown :: "menu_overlay \<times> menu_net \<Rightarrow> bool" where
  "menu_shown s \<longleftrightarrow> menu_net_ok (snd s) \<and> (mo_active (fst s) \<longrightarrow>
     menu_known (active_menu_id (snd s)) (snd s) \<and> mo_menu (fst s) = menus (snd s) ! unat (active_menu_id (snd s)) \<and>
     mo_event_seq (fst s) = menu_event_seq (snd s) \<and> selection_ok (fst s))"

lemma menu_known_id: "menu_net_ok w \<Longrightarrow> menu_known i w \<Longrightarrow> mn_menu_id (menus w ! unat i) = i"
  by (auto simp: menu_net_ok_def menu_known_def intro: unsigned_word_eqI)

lemma menu_shown_network:
  assumes "menu_shown (o1, w)" "unat (menu_event_seq w) + length xs < 4294967296"
  shows "menu_shown (menu_network_step B xs (o1, w))"
proof -
  define w' where "w' = observe_menu_rpcs B xs w"
  have ok: "menu_net_ok w'" "menu_event_seq w' = menu_event_seq w \<Longrightarrow> w' = w"
    using observe_menu_rpcs_ok[OF _ assms(2), of B] assms(1) by (auto simp: menu_shown_def w'_def)
  show ?thesis
  proof (cases "menu_known (active_menu_id w') w'")
    case True
    let ?m = "menus w' ! unat (active_menu_id w')"
    have id: "mn_menu_id ?m = active_menu_id w'" by (rule menu_known_id[OF ok(1) True])
    have snap: "menu_snapshot w' = (True, ?m)" using True by (simp add: menu_snapshot_def)
    let ?c = "mo_event_seq o1 \<noteq> menu_event_seq w' \<or> \<not> mo_active o1 \<or> mn_menu_id (mo_menu o1) \<noteq> mn_menu_id ?m"
    let ?o = "if ?c then o1\<lparr>mo_menu := ?m, mo_selected := menu_compat_first_selectable (o1\<lparr>mo_menu := ?m\<rparr>)\<rparr> else o1"
    have step: "menu_network_step B xs (o1, w) = (?o\<lparr>mo_event_seq := menu_event_seq w', mo_active := True\<rparr>, w')"
      using True id by (simp add: menu_network_step_def w'_def[symmetric] menu_compat_update_from_snapshot_def snap Let_def menu_known_def)
    have "mo_menu ?o = ?m \<and> selection_ok ?o"
    proof (cases ?c)
      case True
      then show ?thesis using selection_ok_first[of "o1\<lparr>mo_menu := ?m\<rparr>"] by simp
    next
      case False
      then have "w' = w" using ok(2) assms(1) by (simp add: menu_shown_def)
      then show ?thesis using False assms(1) by (simp add: menu_shown_def)
    qed
    then show ?thesis using True ok(1) unfolding step by (simp add: menu_shown_def selection_ok_def)
  next
    case False
    then have "\<not> fst (menu_snapshot w')" by (simp add: menu_snapshot_def)
    then have "\<not> mo_active (fst (menu_network_step B xs (o1, w)))" "snd (menu_network_step B xs (o1, w)) = w'"
      by (cases "menu_snapshot w'"; simp add: menu_network_step_def w'_def[symmetric] menu_compat_update_from_snapshot_def)+
    then show ?thesis using ok(1) by (simp add: menu_shown_def)
  qed
qed

text \<open>RETURN on a row: the adapter accepts what the overlay offers.\<close>

lemma menu_submit_accepted:
  assumes "menu_shown (o1, w)" "mo_active o1" "has_client E" "own_handle E" "menu_compat_row_selectable (mo_selected o1) o1"
  shows "menu_compat_submit E (o1, w) =
    (let m = MenuSelect (of_int (mo_selected o1)); sent = answer_sent E m
     in ((if sent then o1\<lparr>mo_active := False\<rparr> else o1, if sent then close_menu (active_menu_id w) w else w),
         if sent then 0 else - 2, [(m, sent)]))"
proof -
  have known: "menu_known (active_menu_id w) w" "mo_menu o1 = menus w ! unat (active_menu_id w)" "menu_net_ok w"
    using assms(1,2) by (simp_all add: menu_shown_def)
  then have ok: "menu_ok (mo_menu o1)" by (auto simp: menu_known_def menu_net_ok_def)
  let ?r = "mo_selected o1"
  have r: "0 \<le> ?r" "?r < int (menu_rows (mo_menu o1))" "menu_rows (mo_menu o1) \<le> 12"
    using assms(5) row_count_rows[OF ok] by (simp_all add: menu_compat_row_selectable_def menu_consts)
  then have u: "unat (of_int ?r :: u8) = nat ?r" by (simp add: unsigned_of_int take_bit_int_eq_self)
  show ?thesis using assms known r u
    by (simp add: menu_compat_submit_def samp_raknet_client_send_menu_select_def menu_compat_row_selectable_def menu_known_def
        menu_consts Let_def)
qed

lemma menu_select_state:
  assumes "samp_raknet_client_send_menu_select send own row w = (r, w', out)"
  shows "w' = w \<and> r \<noteq> 0 \<or> w' = close_menu (active_menu_id w) w \<and> r = 0"
  using assms by (auto simp: samp_raknet_client_send_menu_select_def Let_def split: if_splits)

lemma menu_quit_state:
  assumes "samp_raknet_client_send_menu_quit send own w = (r, w', out)"
  shows "w' = w \<and> r \<noteq> 0 \<or> w' = close_menu (active_menu_id w) w \<and> r = 0"
  using assms by (auto simp: samp_raknet_client_send_menu_quit_def Let_def split: if_splits)

lemma close_menu_seq: "unat (menu_event_seq w) + 1 < 4294967296 \<Longrightarrow> unat (menu_event_seq (close_menu i w)) = unat (menu_event_seq w) + 1"
  by (simp add: close_menu_def queue_menu_event_def bump_seq_next)

lemma menu_submit_cases:
  "fst (menu_compat_submit E (o1, w)) = (o1, w) \<or> fst (menu_compat_submit E (o1, w)) = (o1\<lparr>mo_active := False\<rparr>, close_menu (active_menu_id w) w)"
proof -
  obtain r w' out where s: "(if has_client E then samp_raknet_client_send_menu_select (answer_sent E) (own_handle E) (of_int (mo_selected o1)) w
      else (- 1, w, [])) = (r, w', out)" using prod_cases3 by blast
  then have "w' = w \<and> r \<noteq> 0 \<or> w' = close_menu (active_menu_id w) w \<and> r = 0"
    using menu_select_state by (cases "has_client E") auto
  then show ?thesis by (auto simp: menu_compat_submit_def s)
qed

lemma menu_quit_cases:
  "fst (menu_compat_quit E (o1, w)) = (o1, w) \<or> fst (menu_compat_quit E (o1, w)) = (o1\<lparr>mo_active := False\<rparr>, close_menu (active_menu_id w) w)"
proof -
  obtain r w' out where s: "(if has_client E then samp_raknet_client_send_menu_quit (answer_sent E) (own_handle E) w
      else (- 1, w, [])) = (r, w', out)" using prod_cases3 by blast
  then have "w' = w \<and> r \<noteq> 0 \<or> w' = close_menu (active_menu_id w) w \<and> r = 0"
    using menu_quit_state by (cases "has_client E") auto
  then show ?thesis by (auto simp: menu_compat_quit_def s)
qed

lemma menu_key_cases:
  obtains (same) "fst (snd (menu_compat_handle_key E msg wparam lparam (o1, w))) = (o1, w)"
    | (moved) delta where "mo_active o1" "fst (snd (menu_compat_handle_key E msg wparam lparam (o1, w))) = (menu_compat_move_selection delta o1, w)"
    | (closed) "fst (snd (menu_compat_handle_key E msg wparam lparam (o1, w))) = (o1\<lparr>mo_active := False\<rparr>, close_menu (active_menu_id w) w)"
proof -
  let ?t = "fst (snd (menu_compat_handle_key E msg wparam lparam (o1, w)))"
  have "?t = (o1, w) \<or> mo_active o1 \<and> (\<exists>delta. ?t = (menu_compat_move_selection delta o1, w)) \<or>
      ?t = fst (menu_compat_submit E (o1, w)) \<or> ?t = fst (menu_compat_quit E (o1, w))"
    by (auto simp: menu_compat_handle_key_def split_beta)
  then show thesis using same moved closed menu_submit_cases[of E o1 w] menu_quit_cases[of E o1 w] by metis
qed

lemma menu_shown_key:
  assumes "menu_shown (o1, w)"
  shows "menu_shown (fst (snd (menu_compat_handle_key E msg wparam lparam (o1, w))))"
proof (cases rule: menu_key_cases[of E msg wparam lparam o1 w])
  case same
  then show ?thesis using assms by simp
next
  case (moved delta)
  then have ok: "selection_ok (menu_compat_move_selection delta o1)" using assms selection_ok_move by (simp add: menu_shown_def)
  have "mo_menu (menu_compat_move_selection delta o1) = mo_menu o1" "mo_event_seq (menu_compat_move_selection delta o1) = mo_event_seq o1"
    using move_selection_reselects[of o1 delta] by (auto simp: reselects_def)
  then show ?thesis using ok assms moved by (simp add: menu_shown_def)
next
  case closed
  then show ?thesis using assms by (simp add: menu_shown_def)
qed

lemma menu_seq_key:
  assumes "unat (menu_event_seq w) + 1 < 4294967296"
  shows "unat (menu_event_seq (snd (fst (snd (menu_compat_handle_key E msg wparam lparam (o1, w)))))) \<le> unat (menu_event_seq w) + 1"
  by (cases rule: menu_key_cases[of E msg wparam lparam o1 w]) (simp_all add: close_menu_seq[OF assms])

fun menu_weight :: "menu_event \<Rightarrow> nat" where
  "menu_weight (NetworkStep xs) = length xs"
| "menu_weight (KeyMessage E msg wparam lparam) = 1"

lemma menu_run_shown:
  assumes "menu_shown s" "unat (menu_event_seq (snd s)) + sum_list (map menu_weight es) < 4294967295"
  shows "menu_shown (fst (menu_run B es s))"
  using assms
proof (induction es arbitrary: s)
  case (Cons e es)
  obtain o1 w where s: "s = (o1, w)" by fastforce
  let ?s = "fst (menu_step B e s)"
  have "menu_shown ?s \<and> unat (menu_event_seq (snd ?s)) \<le> unat (menu_event_seq w) + menu_weight e"
  proof (cases e)
    case (NetworkStep xs)
    then have "unat (menu_event_seq w) + length xs < 4294967296" using Cons.prems(2) s by simp
    then show ?thesis using menu_shown_network[of o1 w xs B] observe_menu_rpcs_ok[of w xs B] Cons.prems(1)
      by (simp add: s NetworkStep menu_step_def menu_network_step_def Let_def menu_shown_def)
  next
    case (KeyMessage E msg wparam lparam)
    then show ?thesis using menu_shown_key[of o1 w E msg wparam lparam] menu_seq_key[of w E msg wparam lparam o1] Cons.prems
      by (simp add: s menu_step_def)
  qed
  then have "menu_shown (fst (menu_run B es ?s))" using Cons.IH[of ?s] Cons.prems(2) s by simp
  then show ?case by (simp add: split_beta)
qed simp

lemma menu_shown_start: "menu_shown (reset_menu_overlay, reset_menu_net)"
  using menu_net_ok_reset by (simp add: menu_shown_def reset_menu_overlay_def)

text \<open>C13: What the menu offers, the adapter accepts: after any network steps and keys from a reset, with whatever payloads and
  fewer than \<open>2 ^ 32 - 1\<close> RPCs and keys in all,
  an overlay in use shows the menu the adapter holds open, its selection is an enabled row of that menu, or no row is
  enabled, and RETURN then sends exactly that row; where the network takes it, both sides close the menu.\<close>

theorem menu_choice_accepted:
  assumes "menu_run B es (reset_menu_overlay, reset_menu_net) = ((o1, w), out)" "sum_list (map menu_weight es) < 4294967295"
    "mo_active o1" "has_client E" "own_handle E"
  shows "mn_valid (mo_menu o1) \<and> mo_menu o1 = menus w ! unat (active_menu_id w) \<and>
    (if menu_compat_row_selectable (mo_selected o1) o1
     then let m = MenuSelect (of_int (mo_selected o1)); sent = answer_sent E m
          in menu_compat_handle_key E KeyDown VK_RETURN 0 (o1, w) =
              (True, (if sent then (o1\<lparr>mo_active := False\<rparr>, close_menu (active_menu_id w) w) else (o1, w)), [(m, sent)])
     else \<forall>row. \<not> menu_compat_row_selectable row o1)"
proof -
  have shown: "menu_shown (o1, w)"
    using menu_run_shown[OF menu_shown_start, of es B] assms(1,2) by (simp add: reset_menu_net_def)
  then have known: "menu_known (active_menu_id w) w" "mo_menu o1 = menus w ! unat (active_menu_id w)" "selection_ok o1"
    using assms(3) by (simp_all add: menu_shown_def)
  show ?thesis
  proof (cases "menu_compat_row_selectable (mo_selected o1) o1")
    case True
    from menu_submit_accepted[OF shown assms(3-5) True] show ?thesis using True known assms(3)
      by (simp add: menu_compat_handle_key_def vk_defs Let_def menu_known_def)
  qed (use known in \<open>auto simp: selection_ok_def menu_known_def\<close>)
qed

section \<open>A menu is shown as it was sent\<close>

text \<open>
  The documented behaviour of the stream on payloads of whole bytes: \<open>at s data\<close> says that \<open>data\<close> is what is left to
  read; a byte, a little-endian integer and an array are read from its front.
\<close>

definition reads_bytes :: "'b bitstream \<Rightarrow> ('b \<Rightarrow> u8 list \<Rightarrow> bool) \<Rightarrow> bool" where
  "reads_bytes B at \<longleftrightarrow> (\<forall>data. at (bs_open B data) data) \<and>
     (\<forall>s b rest. at s (b # rest) \<longrightarrow> (\<exists>s'. bs_u8 B s = Some (b, s') \<and> at s' rest)) \<and>
     (\<forall>s v rest. at s (bytes_of_le32 v @ rest) \<longrightarrow> (\<exists>s'. bs_u32 B s = Some (v, s') \<and> at s' rest)) \<and>
     (\<forall>s bytes rest. at s (bytes @ rest) \<longrightarrow> (\<exists>s'. bs_bytes B (length bytes) s = Some (bytes, s') \<and> at s' rest))"

definition menu_line_bytes :: "string \<Rightarrow> u8 list" where
  "menu_line_bytes t = text_bytes t @ replicate (SAMP_RAKNET_MENU_LINE_BYTES - length t) 0"

definition flag_bytes :: "bool \<Rightarrow> u8 list" where
  "flag_bytes b = bytes_of_le32 (if b then 1 else 0)"

definition column_payload :: "samp_raknet_menu_state \<Rightarrow> nat \<Rightarrow> u8 list" where
  "column_payload m c = menu_line_bytes (mn_header m ! c) @ of_nat (mn_item_count m ! c) #
     concat (map menu_line_bytes (take (mn_item_count m ! c) (mn_items m ! c)))"

definition menu_payload :: "samp_raknet_menu_state \<Rightarrow> u8 list" where
  "menu_payload m = mn_menu_id m # flag_bytes (mn_columns m = 2) @ menu_line_bytes (mn_title m) @
     bytes_of_le32 (mn_x m) @ bytes_of_le32 (mn_y m) @ bytes_of_le32 (mn_column_width m ! 0) @
     (if mn_columns m = 2 then bytes_of_le32 (mn_column_width m ! 1) else []) @
     flag_bytes (mn_interaction_enabled m) @ concat (map flag_bytes (mn_row_enabled m)) @
     column_payload m 0 @ (if mn_columns m = 2 then column_payload m 1 else [])"

text \<open>A menu a server can send: one or two columns, what it does not use empty.\<close>

definition sendable_menu :: "samp_raknet_menu_state \<Rightarrow> bool" where
  "sendable_menu m \<longleftrightarrow> menu_ok m \<and> mn_valid m \<and> unat (mn_menu_id m) < SAMP_RAKNET_MAX_MENUS \<and>
     (mn_columns m = 1 \<or> mn_columns m = 2) \<and> length (mn_column_width m) = 2 \<and>
     menu_place_plausible (mn_x m) (mn_y m) (mn_column_width m ! 0) (mn_column_width m ! 1) \<and>
     (\<forall>c < 2. \<forall>r. mn_item_count m ! c \<le> r \<and> r < SAMP_RAKNET_MENU_MAX_ITEMS \<longrightarrow> mn_items m ! c ! r = []) \<and>
     (mn_columns m = 1 \<longrightarrow> mn_column_width m ! 1 = 0 \<and> mn_header m ! 1 = [] \<and> mn_item_count m ! 1 = 0)"

lemma length_menu_line_bytes: "length t < SAMP_RAKNET_MENU_LINE_BYTES \<Longrightarrow> length (menu_line_bytes t) = SAMP_RAKNET_MENU_LINE_BYTES"
  by (simp add: menu_line_bytes_def text_bytes_def)

lemma menu_line_no_nul: "menu_line_ok t \<Longrightarrow> CHR 0x00 \<notin> set t"
  by (auto simp: menu_line_ok_def)

lemma terminate_menu_line_bytes:
  assumes "menu_line_ok t"
  shows "terminate_menu_line (menu_line_bytes t) = t"
proof -
  have len: "length t < 32" using assms by (simp add: menu_line_ok_def menu_consts)
  then have "take 31 (menu_line_bytes t) = text_bytes t @ replicate (31 - length t) 0"
    by (simp add: menu_line_bytes_def text_bytes_def menu_consts)
  moreover have "bytes_string (text_bytes t @ replicate k 0) = bytes_string (text_bytes t)" for k
    by (cases k) (simp_all add: bytes_string_def takeWhile_tail char_of_def)
  ultimately have "bytes_string (take 31 (menu_line_bytes t)) = t"
    using bytes_string_text_bytes[OF menu_line_no_nul[OF assms]] by simp
  then have "terminate_menu_line (menu_line_bytes t) = map menu_char t" by (simp add: terminate_menu_line_def menu_consts)
  also have "map menu_char t = t" using assms by (intro map_idI) (auto simp: menu_line_ok_def menu_char_def)
  finally show ?thesis .
qed

lemma read_line_bytes:
  assumes "reads_bytes B at" "at s (menu_line_bytes t @ rest)" "menu_line_ok t"
  shows "\<exists>s'. read_line B s = Some (t, s') \<and> at s' rest"
proof -
  have len: "length (menu_line_bytes t) = SAMP_RAKNET_MENU_LINE_BYTES" using assms(3) by (intro length_menu_line_bytes) (simp add: menu_line_ok_def)
  obtain s' where "bs_bytes B SAMP_RAKNET_MENU_LINE_BYTES s = Some (menu_line_bytes t, s')" "at s' rest"
    using assms(1,2) unfolding reads_bytes_def len[symmetric] by blast
  then show ?thesis by (simp add: read_line_def terminate_menu_line_bytes[OF assms(3)])
qed

lemma read_u32_bytes: "reads_bytes B at \<Longrightarrow> at s (bytes_of_le32 v @ rest) \<Longrightarrow> \<exists>s'. bs_u32 B s = Some (v, s') \<and> at s' rest"
  by (simp add: reads_bytes_def)

lemma read_u8_bytes: "reads_bytes B at \<Longrightarrow> at s (b # rest) \<Longrightarrow> \<exists>s'. bs_u8 B s = Some (b, s') \<and> at s' rest"
  by (simp add: reads_bytes_def)

lemma read_flag_bytes: "reads_bytes B at \<Longrightarrow> at s (flag_bytes b @ rest) \<Longrightarrow> \<exists>s'. read_flag B s = Some (b, s') \<and> at s' rest"
  using read_u32_bytes[of B at s "if b then 1 else 0" rest] by (auto simp: read_flag_def flag_bytes_def)

lemma read_flags_bytes:
  assumes "reads_bytes B at" "at s (concat (map flag_bytes bs) @ rest)"
  shows "\<exists>s'. read_flags B (length bs) s = Some (bs, s') \<and> at s' rest"
  using assms(2)
proof (induction bs arbitrary: s)
  case (Cons b bs)
  then obtain s1 where "read_flag B s = Some (b, s1)" "at s1 (concat (map flag_bytes bs) @ rest)"
    using read_flag_bytes[OF assms(1)] by fastforce
  with Cons.IH[of s1] show ?case by auto
qed simp

lemma read_lines_bytes:
  assumes "reads_bytes B at" "at s (concat (map menu_line_bytes ts) @ rest)" "\<forall>t\<in>set ts. menu_line_ok t"
  shows "\<exists>s'. read_lines B (length ts) s = Some (ts, s') \<and> at s' rest"
  using assms(2,3)
proof (induction ts arbitrary: s)
  case (Cons t ts)
  then obtain s1 where "read_line B s = Some (t, s1)" "at s1 (concat (map menu_line_bytes ts) @ rest)"
    using read_line_bytes[OF assms(1), of s t "concat (map menu_line_bytes ts) @ rest"] by auto
  with Cons.IH[of s1] Cons.prems(2) show ?case by auto
qed simp

lemma read_column_bytes:
  assumes "reads_bytes B at" "at s (column_payload m c @ rest)" "sendable_menu m" "c < 2"
  shows "\<exists>s'. read_column B c (m0, s) = Some (m0\<lparr>mn_header := (mn_header m0)[c := mn_header m ! c],
      mn_item_count := (mn_item_count m0)[c := mn_item_count m ! c], mn_items := (mn_items m0)[c := mn_items m ! c]\<rparr>, s') \<and> at s' rest"
proof -
  let ?n = "mn_item_count m ! c" and ?ts = "take (mn_item_count m ! c) (mn_items m ! c)"
  have m: "menu_ok m" using assms(3) by (simp add: sendable_menu_def)
  then have len: "length (mn_items m) = 2" "length (mn_header m) = 2" "length (mn_item_count m) = 2" by (simp_all add: menu_ok_def)
  then have "mn_items m ! c \<in> set (mn_items m)" "mn_header m ! c \<in> set (mn_header m)" "?n \<in> set (mn_item_count m)" using assms(4) by simp_all
  then have n: "?n \<le> SAMP_RAKNET_MENU_MAX_ITEMS" "menu_line_ok (mn_header m ! c)" "length (mn_items m ! c) = SAMP_RAKNET_MENU_MAX_ITEMS"
      "\<forall>t\<in>set (mn_items m ! c). menu_line_ok t" using m by (auto simp: menu_ok_def)
  have un: "unat (of_nat ?n :: u8) = ?n" using n(1) by (simp add: unat_of_nat take_bit_nat_eq_self menu_consts)
  have items: "?ts @ replicate (SAMP_RAKNET_MENU_MAX_ITEMS - ?n) [] = mn_items m ! c"
    using n(1,3) assms(3,4) by (intro nth_equalityI) (auto simp: sendable_menu_def nth_append)
  obtain s1 where s1: "read_line B s = Some (mn_header m ! c, s1)" "at s1 (of_nat ?n # concat (map menu_line_bytes ?ts) @ rest)"
    using read_line_bytes[OF assms(1) _ n(2)] assms(2) by (fastforce simp: column_payload_def)
  obtain s2 where s2: "bs_u8 B s1 = Some (of_nat ?n, s2)" "at s2 (concat (map menu_line_bytes ?ts) @ rest)"
    using read_u8_bytes[OF assms(1) s1(2)] by auto
  have "\<forall>t\<in>set ?ts. menu_line_ok t" using n(4) by (auto dest: in_set_takeD)
  from read_lines_bytes[OF assms(1) s2(2) this] obtain s3 where "read_lines B ?n s2 = Some (?ts, s3)" "at s3 rest"
    using n(1,3) by auto
  then show ?thesis using s1(1) s2(1) n(1) un items by (simp add: read_column_def)
qed

lemma two_entries: "length xs = 2 \<Longrightarrow> [xs ! 0, xs ! 1] = xs"
  by (auto simp: length_Suc_conv numeral_2_eq_2)

lemma read_menu_bytes:
  assumes "reads_bytes B at" "sendable_menu m"
  shows "read_menu B (menu_payload m) = Some m"
proof -
  have m: "menu_ok m" "mn_valid m" "unat (mn_menu_id m) < SAMP_RAKNET_MAX_MENUS" "mn_columns m = 1 \<or> mn_columns m = 2"
    "menu_place_plausible (mn_x m) (mn_y m) (mn_column_width m ! 0) (mn_column_width m ! 1)"
    "length (mn_row_enabled m) = SAMP_RAKNET_MENU_MAX_ITEMS" "menu_line_ok (mn_title m)"
    using assms(2) by (simp_all add: sendable_menu_def menu_ok_def)
  let ?two = "mn_columns m = 2"
  let ?c = "column_payload m 0 @ (if ?two then column_payload m 1 else [])"
  let ?e = "concat (map flag_bytes (mn_row_enabled m)) @ ?c"
  let ?i = "flag_bytes (mn_interaction_enabled m) @ ?e"
  let ?w1 = "(if ?two then bytes_of_le32 (mn_column_width m ! 1) else []) @ ?i"
  let ?x = "bytes_of_le32 (mn_x m) @ bytes_of_le32 (mn_y m) @ bytes_of_le32 (mn_column_width m ! 0) @ ?w1"
  have "at (bs_open B (menu_payload m)) (menu_payload m)" using assms(1) by (simp add: reads_bytes_def)
  then obtain s1 where s1: "bs_u8 B (bs_open B (menu_payload m)) = Some (mn_menu_id m, s1)"
      "at s1 (bytes_of_le32 (if ?two then 1 else 0) @ menu_line_bytes (mn_title m) @ ?x)"
    using read_u8_bytes[OF assms(1)] by (fastforce simp: menu_payload_def flag_bytes_def)
  from read_u32_bytes[OF assms(1) s1(2)] obtain s2 where s2: "bs_u32 B s1 = Some (if ?two then 1 else 0, s2)"
      "at s2 (menu_line_bytes (mn_title m) @ ?x)" by blast
  from read_line_bytes[OF assms(1) s2(2) m(7)] obtain s3 where s3: "read_line B s2 = Some (mn_title m, s3)" "at s3 ?x" by blast
  from read_u32_bytes[OF assms(1) s3(2)] obtain s4 where s4: "bs_u32 B s3 = Some (mn_x m, s4)"
      "at s4 (bytes_of_le32 (mn_y m) @ bytes_of_le32 (mn_column_width m ! 0) @ ?w1)" by blast
  from read_u32_bytes[OF assms(1) s4(2)] obtain s5 where s5: "bs_u32 B s4 = Some (mn_y m, s5)"
      "at s5 (bytes_of_le32 (mn_column_width m ! 0) @ ?w1)" by blast
  from read_u32_bytes[OF assms(1) s5(2)] obtain s6 where s6: "bs_u32 B s5 = Some (mn_column_width m ! 0, s6)" "at s6 ?w1" by blast
  have "\<exists>s7. (if ?two then bs_u32 B s6 else Some (0, s6)) = Some (mn_column_width m ! 1, s7) \<and> at s7 ?i"
    using read_u32_bytes[OF assms(1), of s6 "mn_column_width m ! 1" ?i] s6(2) assms(2) by (cases ?two) (auto simp: sendable_menu_def)
  then obtain s7 where s7: "(if ?two then bs_u32 B s6 else Some (0, s6)) = Some (mn_column_width m ! 1, s7)" "at s7 ?i" by blast
  from read_flag_bytes[OF assms(1) s7(2)] obtain s8 where s8: "read_flag B s7 = Some (mn_interaction_enabled m, s8)" "at s8 ?e" by blast
  from read_flags_bytes[OF assms(1) s8(2)] m(6) obtain s9 where
    s9: "read_flags B SAMP_RAKNET_MENU_MAX_ITEMS s8 = Some (mn_row_enabled m, s9)" "at s9 ?c" by auto
  let ?m0 = "zero_menu\<lparr>mn_valid := True, mn_menu_id := mn_menu_id m, mn_columns := (if ?two then 2 else 1),
      mn_interaction_enabled := mn_interaction_enabled m, mn_row_enabled := mn_row_enabled m, mn_x := mn_x m, mn_y := mn_y m,
      mn_column_width := [mn_column_width m ! 0, mn_column_width m ! 1], mn_title := mn_title m\<rparr>"
  let ?m1 = "?m0\<lparr>mn_header := [mn_header m ! 0, []], mn_item_count := [mn_item_count m ! 0, 0],
      mn_items := [mn_items m ! 0, replicate SAMP_RAKNET_MENU_MAX_ITEMS []]\<rparr>"
  from read_column_bytes[OF assms(1) s9(2) assms(2), of ?m0] obtain s10 where
    s10: "read_column B 0 (?m0, s9) = Some (?m1, s10)" "at s10 (if ?two then column_payload m 1 else [])"
    by (auto simp: zero_menu_def numeral_2_eq_2)
  have whole: "m = ?m1\<lparr>mn_header := [mn_header m ! 0, mn_header m ! 1], mn_item_count := [mn_item_count m ! 0, mn_item_count m ! 1],
      mn_items := [mn_items m ! 0, mn_items m ! 1]\<rparr>"
  proof -
    have e: "[mn_header m ! 0, mn_header m ! 1] = mn_header m" "[mn_item_count m ! 0, mn_item_count m ! 1] = mn_item_count m"
      "[mn_items m ! 0, mn_items m ! 1] = mn_items m" "[mn_column_width m ! 0, mn_column_width m ! 1] = mn_column_width m"
      using m(1) assms(2) by (simp_all only: two_entries menu_ok_def sendable_menu_def)
    have c: "(if ?two then 2 else 1) = mn_columns m" using m(4) by auto
    show ?thesis unfolding e c using m(2) by simp
  qed
  have "\<exists>s11. (if ?two then read_column B 1 (?m1, s10) else Some (?m1, s10)) = Some (m, s11)"
  proof (cases ?two)
    case True
    from read_column_bytes[OF assms(1) _ assms(2), of s10 1 "[]" ?m1] s10(2) True obtain s11 where
      "read_column B 1 (?m1, s10) = Some (?m1\<lparr>mn_header := [mn_header m ! 0, mn_header m ! 1],
        mn_item_count := [mn_item_count m ! 0, mn_item_count m ! 1], mn_items := [mn_items m ! 0, mn_items m ! 1]\<rparr>, s11)"
      by (auto simp: numeral_2_eq_2)
    then show ?thesis using True whole by simp
  next
    case False
    then have one: "mn_header m ! 1 = []" "mn_item_count m ! 1 = 0" using assms(2) by (auto simp: sendable_menu_def)
    have "length (mn_items m ! 1) = SAMP_RAKNET_MENU_MAX_ITEMS" using m(1) by (simp add: menu_ok_def)
    then have "mn_items m ! 1 = replicate SAMP_RAKNET_MENU_MAX_ITEMS []"
      using assms(2) one(2) by (intro nth_equalityI) (auto simp: sendable_menu_def)
    then have "?m1 = m" using whole one by simp
    then show ?thesis using False by simp
  qed
  then obtain s11 where s11: "(if ?two then read_column B 1 (?m1, s10) else Some (?m1, s10)) = Some (m, s11)" ..
  show ?thesis using s1(1) s2(1) s3(1) s4(1) s5(1) s6(1) s7(1) s8(1) s9(1) s10(1) s11 m(3,5)
    by (cases ?two) (simp_all add: read_menu_def Let_def)
qed

lemma length_concat_flags: "length (concat (map flag_bytes bs)) = 4 * length bs"
  by (induction bs) (auto simp: flag_bytes_def bytes_of_le32_def)

lemma menu_payload_long: "sendable_menu m \<Longrightarrow> 134 \<le> length (menu_payload m)"
proof -
  assume m: "sendable_menu m"
  have "length (mn_title m) < SAMP_RAKNET_MENU_LINE_BYTES" "length (mn_header m ! 0) < SAMP_RAKNET_MENU_LINE_BYTES"
    using m by (auto simp: sendable_menu_def menu_ok_def menu_line_ok_def)
  note this[THEN length_menu_line_bytes]
  then show ?thesis using m
    by (auto simp: menu_payload_def column_payload_def sendable_menu_def menu_ok_def flag_bytes_def length_concat_flags menu_consts)
qed

lemma decode_init_menu_sent:
  assumes "reads_bytes B at" "sendable_menu m"
  shows "decode_init_menu_payload B (menu_payload m) w =
    (True, queue_menu_event InitMenu (mn_menu_id m) (w\<lparr>menus := (menus w)[unat (mn_menu_id m) := m],
       active_menu_id := (if active_menu_id w = mn_menu_id m then 0xFF else active_menu_id w)\<rparr>))"
  using menu_payload_long[OF assms(2)] read_menu_bytes[OF assms] by (simp add: decode_init_menu_payload_def Let_def not_less)

lemma first_selectable_upd:
  "mo_menu o1 = mo_menu o2 \<Longrightarrow> first_selectable n row o1 = first_selectable n row o2"
  by (induction n arbitrary: row) (simp_all add: menu_compat_row_selectable_def menu_compat_row_count_def)

text \<open>A menu that a server creates and shows is on the screen as it was sent, field by field, with the first row that can be
  chosen highlighted, whatever menus came before.\<close>

theorem menu_shown_as_sent:
  assumes "reads_bytes B at" "sendable_menu m" "menu_shown (o1, w)" "unat (menu_event_seq w) + 2 < 4294967296"
  defines "o2 \<equiv> fst (menu_network_step B [(76, menu_payload m), (77, [mn_menu_id m])] (o1, w))"
  shows "mo_active o2 \<and> mo_menu o2 = m \<and> mo_selected o2 = menu_compat_first_selectable o2"
proof -
  have len: "length (menus w) = SAMP_RAKNET_MAX_MENUS" using assms(3) by (simp add: menu_shown_def menu_net_ok_def)
  have m: "mn_valid m" "unat (mn_menu_id m) < SAMP_RAKNET_MAX_MENUS" using assms(2) by (simp_all add: sendable_menu_def)
  let ?w1 = "snd (decode_init_menu_payload B (menu_payload m) w)"
  let ?w2 = "observe_menu_rpcs B [(76, menu_payload m), (77, [mn_menu_id m])] w"
  have w1: "menus ?w1 = (menus w)[unat (mn_menu_id m) := m]" "menu_event_seq ?w1 = bump_seq (menu_event_seq w)"
    by (simp_all add: decode_init_menu_sent[OF assms(1,2)] queue_menu_event_def)
  have known: "menu_known (mn_menu_id m) ?w1" using len m by (simp add: menu_known_def w1)
  have w2: "active_menu_id ?w2 = mn_menu_id m" "menus ?w2 = (menus w)[unat (mn_menu_id m) := m]"
      "menu_event_seq ?w2 = bump_seq (bump_seq (menu_event_seq w))"
    using known w1 by (simp_all add: observe_menu_rpcs_def observe_menu_rpc_def decode_menu_visibility_payload_def queue_menu_event_def)
  have "unat (menu_event_seq ?w2) = unat (menu_event_seq w) + 2"
    using assms(4) by (simp add: w2(3) bump_seq_next)
  then have newer: "mo_active o1 \<longrightarrow> mo_event_seq o1 \<noteq> menu_event_seq ?w2" using assms(3) by (auto simp: menu_shown_def)
  have snap: "menu_snapshot ?w2 = (True, m)" using len m by (simp add: menu_snapshot_def menu_known_def w2)
  show ?thesis using newer m
    by (auto simp: o2_def menu_network_step_def snap menu_compat_update_from_snapshot_def Let_def
        menu_compat_first_selectable_def menu_compat_row_count_def intro!: first_selectable_upd)
qed

definition byte_list_stream :: "u8 list bitstream" where
  "byte_list_stream = \<lparr>
     bs_open = id,
     bs_u8 = (\<lambda>s. case s of [] \<Rightarrow> None | b # s \<Rightarrow> Some (b, s)),
     bs_u16 = (\<lambda>s. if length s < 2 then None else Some (the (read_le16 s 0), drop 2 s)),
     bs_u32 = (\<lambda>s. if length s < 4 then None else Some (the (read_le32 s 0), drop 4 s)),
     bs_bool = (\<lambda>s. case s of [] \<Rightarrow> None | b # s \<Rightarrow> Some (b \<noteq> 0, s)),
     bs_bytes = (\<lambda>n s. if length s < n then None else Some (take n s, drop n s)),
     bs_string = (\<lambda>n s. None),
     bs_offset = length\<rparr>"

lemma byte_list_stream_reads: "reads_bytes byte_list_stream (\<lambda>s rest. s = rest)"
  by (simp add: reads_bytes_def byte_list_stream_def read_le32_def bytes_of_le32_def le32_of_bytes_of_le32)

definition shop_menu :: samp_raknet_menu_state where
  "shop_menu = zero_menu\<lparr>mn_valid := True, mn_menu_id := 5, mn_columns := 1, mn_interaction_enabled := True,
     mn_row_enabled := [False, True] @ replicate 10 False, mn_item_count := [2, 0], mn_title := ''Shop'',
     mn_items := [[''Gun'', ''Ammo''] @ replicate 10 [], replicate 12 []]\<rparr>"

lemma shop_menu_sendable: "sendable_menu shop_menu"
  by (auto simp: sendable_menu_def menu_ok_def menu_line_ok_def menu_place_plausible_def f32_finite_def f32_within_def
      shop_menu_def zero_menu_def menu_consts less_2_cases_iff nth_Cons' f32_scaled_def f32_exponent_def)

theorem menu_shown_as_sent_witness:
  "mo_menu (fst (menu_network_step byte_list_stream [(76, menu_payload shop_menu), (77, [5])] (reset_menu_overlay, reset_menu_net))) = shop_menu"
  using menu_shown_as_sent[OF byte_list_stream_reads shop_menu_sendable menu_shown_start]
  by (simp add: reset_menu_net_def shop_menu_def)

lemma first_selectable_shop: "mo_menu o1 = shop_menu \<Longrightarrow> menu_compat_first_selectable o1 = 1 \<and> menu_compat_row_selectable 1 o1"
  by (simp add: menu_compat_first_selectable_def menu_compat_row_count_def menu_compat_row_selectable_def Let_def shop_menu_def
      menu_consts numeral_2_eq_2)

theorem menu_choice_accepted_witness:
  "let E = \<lparr>has_client = True, own_handle = True, answer_sent = (\<lambda>a. True)\<rparr>;
       s = fst (menu_run byte_list_stream [NetworkStep [(76, menu_payload shop_menu), (77, [5])]] (reset_menu_overlay, reset_menu_net));
       (taken, s2, out) = menu_compat_handle_key E KeyDown VK_RETURN 0 s
   in taken \<and> mo_menu (fst s) = shop_menu \<and> out = [(MenuSelect 1, True)] \<and> \<not> mo_active (fst s2)"
proof -
  let ?E = "\<lparr>has_client = True, own_handle = True, answer_sent = (\<lambda>a. True)\<rparr>"
  let ?es = "[NetworkStep [(76, menu_payload shop_menu), (77, [5])]]"
  obtain o1 w where s: "menu_network_step byte_list_stream [(76, menu_payload shop_menu), (77, [5])] (reset_menu_overlay, reset_menu_net) = (o1, w)"
    by fastforce
  have o1: "mo_active o1 \<and> mo_menu o1 = shop_menu \<and> mo_selected o1 = menu_compat_first_selectable o1"
    using menu_shown_as_sent[OF byte_list_stream_reads shop_menu_sendable menu_shown_start] s
    by (simp add: reset_menu_net_def shop_menu_def)
  then have sel: "mo_selected o1 = 1" "menu_compat_row_selectable 1 o1" using first_selectable_shop by simp_all
  have run: "menu_run byte_list_stream ?es (reset_menu_overlay, reset_menu_net) = ((o1, w), [])" using s by (simp add: menu_step_def)
  from menu_choice_accepted[OF run, of ?E] show ?thesis using o1 sel by (simp add: s menu_step_def Let_def)
qed

end
