(* ===== verification/ChatInput.thy ===== *)
theory ChatInput
  imports RpcSession ChatText RpcMenus
begin

text \<open>
  The line in which the player writes, in \<^verbatim>\<open>src/runtime_bridge.c\<close>: its buffer, the history of lines, the commands the
  client answers itself, and the messages of the window procedure that edit and submit the line. The buffer is the array
  itself; other texts are their characters up to the NUL. Chat lines, network messages and calls into other parts of the
  program are returned as a list of effects.
\<close>

section \<open>State and effects\<close>

definition SAMP_CHAT_INPUT_MAX :: nat where "SAMP_CHAT_INPUT_MAX = 128"
definition SAMP_CHAT_INPUT_HISTORY :: nat where "SAMP_CHAT_INPUT_HISTORY = 10"

lemmas chat_input_consts = SAMP_CHAT_INPUT_MAX_def SAMP_CHAT_INPUT_HISTORY_def

record chat_settings =
  timestamp_enabled :: bool
  page_size :: int
  font_adjustment :: int
  audio_messages :: bool
  url_messages :: bool
  headmove_enabled :: bool
  name_tag_status :: bool
  fps_limit :: int
  debug_level :: int
  vehicle_labels :: bool

record chat_input =
  ci_active :: bool
  ci_release_frames :: int
  ci_buffer :: string
  ci_len :: int
  ci_history :: "string list"
  ci_history_count :: int
  ci_history_index :: int
  ci_saved :: string
  ci_quit_after_frame :: bool
  ci_quit_tick :: u32
  ci_quit_exit_started :: bool
  ci_send_count :: int
  ci_command_send_count :: int
  ci_send_failures :: int
  ci_settings :: chat_settings

datatype chat_effect =
  ChatLine u32 string
| MouseMode bool
| ControlsApplied
| Sent out_rpc bool
| RconPacket "u8 list" bool
| Disconnect
| NetworkShutdown
| ExitProcess u32
| FontsReleased
| SavePosition string
| RawSavePosition string
| ShowInterior

definition SAMP_CHAT_COMPAT_COLOR_INFO :: u32 where "SAMP_CHAT_COMPAT_COLOR_INFO = 0xFFECECEC"
definition SAMP_CLIENT_DEBUG_COLOR :: u32 where "SAMP_CLIENT_DEBUG_COLOR = 0xFF66D9EF"

definition chat_compat_add_message :: "string \<Rightarrow> chat_effect" where
  "chat_compat_add_message t = ChatLine SAMP_CHAT_COMPAT_COLOR_INFO (take (SAMP_CHAT_COMPAT_LINE_BYTES - 1) t)"

text \<open>The messages of the window procedure, with the virtual key codes of the keys.\<close>

datatype window_message = WM_CHAR nat | WM_KEYUP nat | WM_KEYDOWN nat | WM_MOUSE | WM_OTHER

definition VK_F6 :: nat where "VK_F6 = 0x75"

text \<open>What surrounds the line: the network client, the other users of the mouse and of the messages, the clock.\<close>

record chat_env =
  client_exists :: bool
  client_connected :: bool
  client_own :: bool
  message_sent :: "out_rpc \<Rightarrow> bool"
  rcon_sent :: "u8 list \<Rightarrow> bool"
  other_mouse_owner :: bool
  input_enabled :: bool
  gta_menu_active :: bool
  taken_first :: "window_message \<Rightarrow> bool"
  taken_elsewhere :: "window_message \<Rightarrow> bool option"
  tick :: u32

section \<open>Editing\<close>

text \<open>\<^verbatim>\<open>strncpy\<close> into the buffer pads it with NULs; the last character is set to NUL after it.\<close>

definition padded :: "string \<Rightarrow> string" where
  "padded t = take SAMP_CHAT_INPUT_MAX t @ replicate (SAMP_CHAT_INPUT_MAX + 1 - length (take SAMP_CHAT_INPUT_MAX t)) CHR 0x00"

definition chat_input_close_compat :: "chat_env \<Rightarrow> chat_input \<Rightarrow> chat_input \<times> chat_effect list" where
  "chat_input_close_compat E s =
     (let (s, out) = (if ci_active s
            then (s\<lparr>ci_active := False, ci_release_frames := 2\<rparr>, if other_mouse_owner E then [] else [MouseMode False])
            else (s, []))
      in (s\<lparr>ci_len := 0, ci_history_index := - 1, ci_buffer := (ci_buffer s)[0 := CHR 0x00], ci_saved := []\<rparr>, out))"

definition chat_input_open_compat :: "chat_env \<Rightarrow> chat_input \<Rightarrow> chat_input \<times> chat_effect list" where
  "chat_input_open_compat E s =
     (if \<not> input_enabled E then (s, [])
      else let s = s\<lparr>ci_buffer := (ci_buffer s)[0 := CHR 0x00], ci_saved := [], ci_len := 0, ci_history_index := - 1\<rparr>
           in if \<not> ci_active s
              then (s\<lparr>ci_active := True, ci_release_frames := 0\<rparr>, [ControlsApplied, MouseMode True])
              else (s, []))"

definition chat_input_append_char_compat :: "char \<Rightarrow> chat_input \<Rightarrow> chat_input mem" where
  "chat_input_append_char_compat ch s =
     (let len = (if ci_len s < 0 then 0 else ci_len s)
      in if len \<ge> int SAMP_CHAT_INPUT_MAX then Some s
         else if nat len + 1 < length (ci_buffer s)
         then Some (s\<lparr>ci_buffer := (ci_buffer s)[nat len := ch, nat len + 1 := CHR 0x00], ci_len := len + 1, ci_history_index := - 1\<rparr>)
         else None)"

definition chat_input_backspace_compat :: "chat_input \<Rightarrow> chat_input mem" where
  "chat_input_backspace_compat s =
     (if ci_len s \<le> 0 then Some s
      else let len = ci_len s - 1
           in if nat len < length (ci_buffer s)
              then Some (s\<lparr>ci_buffer := (ci_buffer s)[nat len := CHR 0x00], ci_len := len, ci_history_index := - 1\<rparr>)
              else None)"

definition chat_input_set_buffer_compat :: "string \<Rightarrow> chat_input \<Rightarrow> chat_input" where
  "chat_input_set_buffer_compat t s =
     (let s = s\<lparr>ci_buffer := padded t\<rparr>; len = length (c_str (ci_buffer s))
      in s\<lparr>ci_len := int (if len > SAMP_CHAT_INPUT_MAX then SAMP_CHAT_INPUT_MAX else len)\<rparr>)"

text \<open>The loop that moves the lines of the history down, from the last; every access to the array is checked.\<close>

fun shift_history :: "nat \<Rightarrow> string list \<Rightarrow> string list mem" where
  "shift_history 0 h = Some h"
| "shift_history (Suc i) h = do {
     line \<leftarrow> array_get h (int i);
     h \<leftarrow> array_put (int (Suc i)) line h;
     shift_history i h }"

definition newest_is :: "string \<Rightarrow> chat_input \<Rightarrow> bool mem" where
  "newest_is line s =
     (if ci_history_count s > 0 \<and> ci_history_count s \<le> int SAMP_CHAT_INPUT_HISTORY
      then map_option (\<lambda>t. t = line) (array_get (ci_history s) 0) else Some False)"

definition chat_input_add_history_compat :: "string \<Rightarrow> chat_input \<Rightarrow> chat_input mem" where
  "chat_input_add_history_compat line s =
     (if line = [] then Some s
      else do {
        same \<leftarrow> newest_is line s;
        if same then Some s
        else do {
          let count = ci_history_count s;
          let count = (if count < 0 \<or> count > int SAMP_CHAT_INPUT_HISTORY then int SAMP_CHAT_INPUT_HISTORY else count);
          let count = (if count < int SAMP_CHAT_INPUT_HISTORY then count + 1 else count);
          h \<leftarrow> shift_history (nat count - 1) (ci_history s);
          h \<leftarrow> array_put 0 (take SAMP_CHAT_INPUT_MAX line) h;
          Some (s\<lparr>ci_history := h, ci_history_count := count\<rparr>) } })"

definition chat_input_recall_up_compat :: "chat_input \<Rightarrow> chat_input mem" where
  "chat_input_recall_up_compat s =
     (let count = ci_history_count s
      in if count \<le> 0 then Some s
         else let count = (if count > int SAMP_CHAT_INPUT_HISTORY then int SAMP_CHAT_INPUT_HISTORY else count);
                  index = ci_history_index s;
                  s = (if index < 0 then s\<lparr>ci_saved := take SAMP_CHAT_INPUT_MAX (c_str (ci_buffer s))\<rparr> else s);
                  index = (if index < 0 then 0 else if index + 1 < count then index + 1 else index)
              in if nat index < length (ci_history s)
                 then Some ((chat_input_set_buffer_compat (ci_history s ! nat index) s)\<lparr>ci_history_index := index\<rparr>)
                 else None)"

definition chat_input_recall_down_compat :: "chat_input \<Rightarrow> chat_input mem" where
  "chat_input_recall_down_compat s =
     (let index = ci_history_index s
      in if index < 0 then Some s
         else if index > 0
         then if nat (index - 1) < length (ci_history s)
              then Some ((chat_input_set_buffer_compat (ci_history s ! nat (index - 1)) s)\<lparr>ci_history_index := index - 1\<rparr>)
              else None
         else Some ((chat_input_set_buffer_compat (ci_saved s) s)\<lparr>ci_history_index := - 1\<rparr>))"

section \<open>Commands\<close>

definition chat_input_ascii_ieq_compat :: "char \<Rightarrow> char \<Rightarrow> bool" where
  "chat_input_ascii_ieq_compat l r =
     (let lower = (\<lambda>c. if 65 \<le> code c \<and> code c \<le> 90 then code c - 65 + 97 else code c) in lower l = lower r)"

definition blank :: "char \<Rightarrow> bool" where
  "blank c \<longleftrightarrow> c = CHR 0x20 \<or> c = CHR 0x09"

definition chat_input_only_spaces_compat :: "string \<Rightarrow> bool" where
  "chat_input_only_spaces_compat t \<longleftrightarrow> dropWhile blank t = []"

fun match_name :: "string \<Rightarrow> string \<Rightarrow> string \<times> string" where
  "match_name (c # cursor) (n # nam) =
     (if chat_input_ascii_ieq_compat c n then match_name cursor nam else (c # cursor, n # nam))"
| "match_name cursor nam = (cursor, nam)"

text \<open>The arguments of the command, where the line is that command.\<close>

definition chat_input_match_local_command_compat :: "string \<Rightarrow> string \<Rightarrow> string option" where
  "chat_input_match_local_command_compat line command =
     (if command = [] then None
      else case dropWhile blank line of
        [] \<Rightarrow> None
      | c # cursor \<Rightarrow>
          if c \<noteq> CHR ''/'' then None
          else let (cursor, nam) = match_name cursor command
               in if nam \<noteq> [] \<or> (cursor \<noteq> [] \<and> \<not> blank (hd cursor)) then None else Some (dropWhile blank cursor))"

definition chat_input_is_local_quit_command_compat :: "string \<Rightarrow> bool" where
  "chat_input_is_local_quit_command_compat line =
     (case dropWhile blank line of
        [] \<Rightarrow> False
      | c # cursor \<Rightarrow> c = CHR ''/'' \<and>
          ((case cursor of q # rest \<Rightarrow> chat_input_ascii_ieq_compat q CHR ''q'' \<and> chat_input_only_spaces_compat rest | [] \<Rightarrow> False) \<or>
           (case cursor of q # u # i # t # rest \<Rightarrow> chat_input_ascii_ieq_compat q CHR ''q'' \<and> chat_input_ascii_ieq_compat u CHR ''u'' \<and>
                chat_input_ascii_ieq_compat i CHR ''i'' \<and> chat_input_ascii_ieq_compat t CHR ''t'' \<and> chat_input_only_spaces_compat rest
            | _ \<Rightarrow> False)))"

definition chat_input_is_local_dl_command_compat :: "string \<Rightarrow> bool" where
  "chat_input_is_local_dl_command_compat line =
     (case dropWhile blank line of
        c # d # l # rest \<Rightarrow> c = CHR ''/'' \<and> chat_input_ascii_ieq_compat d CHR ''d'' \<and> chat_input_ascii_ieq_compat l CHR ''l'' \<and>
          (rest = [] \<or> blank (hd rest))
      | _ \<Rightarrow> False)"

text \<open>\<^verbatim>\<open>strtol\<close> in base ten: blanks, a sign, digits; the value is clamped to 32 bits, and without digits nothing is consumed.\<close>

definition c_space :: "char \<Rightarrow> bool" where
  "c_space c \<longleftrightarrow> code c = 32 \<or> 9 \<le> code c \<and> code c \<le> 13"

definition c_digit :: "char \<Rightarrow> bool" where
  "c_digit c \<longleftrightarrow> 48 \<le> code c \<and> code c \<le> 57"

definition number_of_digits :: "string \<Rightarrow> int" where
  "number_of_digits t = foldl (\<lambda>v c. 10 * v + (int (code c) - 48)) 0 t"

definition strtol_10 :: "string \<Rightarrow> int \<times> string" where
  "strtol_10 t =
     (let u = dropWhile c_space t;
          neg = (u \<noteq> [] \<and> hd u = CHR ''-'');
          u = (if u \<noteq> [] \<and> (hd u = CHR ''-'' \<or> hd u = CHR ''+'') then tl u else u);
          v = number_of_digits (takeWhile c_digit u)
      in if takeWhile c_digit u = [] then (0, t)
         else (max (- 2147483648) (min 2147483647 (if neg then - v else v)), dropWhile c_digit u))"

definition chat_input_parse_long_compat :: "string \<Rightarrow> int option" where
  "chat_input_parse_long_compat arguments =
     (if arguments = [] then None
      else let (v, rest) = strtol_10 arguments
           in if rest = arguments \<or> \<not> chat_input_only_spaces_compat rest then None else Some v)"

definition on_off :: "string \<Rightarrow> string \<Rightarrow> bool \<Rightarrow> string" where
  "on_off yes no b = (if b then yes else no)"

definition chat_input_set_debug_level_compat :: "string \<Rightarrow> chat_settings \<Rightarrow> chat_settings \<times> chat_effect list" where
  "chat_input_set_debug_level_compat arguments st =
     (if arguments = []
      then (st, [chat_compat_add_message (''Debug level: '' @ (if debug_level st < 0 then ''-'' else []) @
                   decimal (nat \<bar>debug_level st\<bar>) @ '' (usage: /debug 0-3)''),
                 chat_compat_add_message ''1=session, 2=pools/sync, 3=verbose local state''])
      else let (v, rest) = strtol_10 arguments
           in if rest = arguments \<or> \<not> chat_input_only_spaces_compat rest \<or> v < 0 \<or> v > 3
              then (st, [chat_compat_add_message ''Usage: /debug 0-3''])
              else (st\<lparr>debug_level := v\<rparr>,
                    [if v = 0 then chat_compat_add_message ''Client debug output disabled.''
                     else ChatLine SAMP_CLIENT_DEBUG_COLOR
                       (if v = 1 then ''Client debug level 1: session state.''
                        else if v = 2 then ''Client debug level 2: pools and sync.''
                        else ''Client debug level 3: verbose local state.'')]))"

definition chat_input_set_page_size_compat :: "string \<Rightarrow> chat_settings \<Rightarrow> chat_settings \<times> chat_effect list" where
  "chat_input_set_page_size_compat arguments st =
     (case chat_input_parse_long_compat arguments of
        Some v \<Rightarrow> if v < 10 \<or> v > 20 then (st, [chat_compat_add_message ''pagesize [10-20] (lines)'']) else (st\<lparr>page_size := v\<rparr>, [])
      | None \<Rightarrow> (st, [chat_compat_add_message ''pagesize [10-20] (lines)'']))"

definition chat_input_set_font_size_compat :: "string \<Rightarrow> chat_settings \<Rightarrow> chat_settings \<times> chat_effect list" where
  "chat_input_set_font_size_compat arguments st =
     (case chat_input_parse_long_compat arguments of
        Some v \<Rightarrow> if v < - 3 \<or> v > 5 then (st, [chat_compat_add_message ''Valid fontsize: -3 to 5''])
                  else (st\<lparr>font_adjustment := v\<rparr>, [FontsReleased])
      | None \<Rightarrow> (st, [chat_compat_add_message ''Valid fontsize: -3 to 5'']))"

definition chat_input_set_fps_limit_compat :: "string \<Rightarrow> chat_settings \<Rightarrow> chat_settings \<times> chat_effect list" where
  "chat_input_set_fps_limit_compat arguments st =
     (case chat_input_parse_long_compat arguments of
        Some v \<Rightarrow> if v < 20 \<or> v > 90 then (st, [chat_compat_add_message ''-> Frame Limiter: valid amounts are 20-90''])
                  else (st\<lparr>fps_limit := v\<rparr>, [chat_compat_add_message (''-> Frame Limiter: '' @ decimal (nat v))])
      | None \<Rightarrow> (st, [chat_compat_add_message ''-> Frame Limiter: valid amounts are 20-90'']))"

definition chat_input_toggle_timestamp_compat :: "chat_settings \<Rightarrow> chat_settings \<times> chat_effect list" where
  "chat_input_toggle_timestamp_compat st =
     (let b = (\<not> timestamp_enabled st)
      in (st\<lparr>timestamp_enabled := b\<rparr>, [chat_compat_add_message (''Timestamp: '' @ on_off ''On'' ''Off'' b)]))"

definition chat_input_toggle_audio_messages_compat :: "chat_settings \<Rightarrow> chat_settings \<times> chat_effect list" where
  "chat_input_toggle_audio_messages_compat st =
     (let b = (\<not> audio_messages st)
      in (st\<lparr>audio_messages := b\<rparr>, [chat_compat_add_message (''Audio messages: '' @ on_off ''On'' ''Off'' b)]))"

definition chat_input_toggle_url_logging_compat :: "chat_settings \<Rightarrow> chat_settings \<times> chat_effect list" where
  "chat_input_toggle_url_logging_compat st =
     (let b = (\<not> url_messages st)
      in (st\<lparr>url_messages := b\<rparr>, [chat_compat_add_message (''URL messages: '' @ on_off ''On'' ''Off'' b)]))"

definition chat_input_toggle_headmove_compat :: "chat_settings \<Rightarrow> chat_settings \<times> chat_effect list" where
  "chat_input_toggle_headmove_compat st =
     (let b = (\<not> headmove_enabled st)
      in (st\<lparr>headmove_enabled := b\<rparr>,
          [chat_compat_add_message (on_off ''-> Head movements enabled'' ''-> Head movements disabled'' b)]))"

definition chat_input_toggle_name_tag_status_compat :: "chat_settings \<Rightarrow> chat_settings \<times> chat_effect list" where
  "chat_input_toggle_name_tag_status_compat st =
     (let b = (\<not> name_tag_status st)
      in (st\<lparr>name_tag_status := b\<rparr>, [chat_compat_add_message (''NameTag Player Status: '' @ on_off ''ON'' ''OFF'' b)]))"

definition chat_input_toggle_vehicle_debug_labels_compat :: "chat_settings \<Rightarrow> chat_settings \<times> chat_effect list" where
  "chat_input_toggle_vehicle_debug_labels_compat st =
     (let b = (\<not> vehicle_labels st)
      in (st\<lparr>vehicle_labels := b\<rparr>,
          [chat_compat_add_message (on_off ''Vehicle debug labels enabled.'' ''Vehicle debug labels disabled.'' b)]))"

definition chat_input_request_quit_compat :: "chat_env \<Rightarrow> chat_input \<Rightarrow> chat_input \<times> chat_effect list" where
  "chat_input_request_quit_compat E s =
     (s\<lparr>ci_quit_tick := tick E, ci_quit_after_frame := True\<rparr>,
      (if client_exists E \<and> client_connected E then [Disconnect] else []) @ [chat_compat_add_message ''Exiting...''])"

section \<open>Submitting the line\<close>

text \<open>\<^verbatim>\<open>samp_raknet_client_send_rcon_command\<close>: the packet is its id, the length in 32 bits, the characters.\<close>

definition kPacketRconCommand :: u8 where "kPacketRconCommand = 201"

definition rcon_packet :: "string \<Rightarrow> u8 list" where
  "rcon_packet command = kPacketRconCommand # bytes_of_le32 (of_nat (length command)) @ text_bytes command"

definition samp_raknet_client_send_rcon_command :: "chat_env \<Rightarrow> string \<Rightarrow> int \<times> chat_effect list" where
  "samp_raknet_client_send_rcon_command E command =
     (if \<not> client_exists E \<or> \<not> client_own E then (- 1, [])
      else if length command > kChatInputBytes then (- 1, [])
      else let sent = rcon_sent E (rcon_packet command) in (if sent then 0 else - 2, [RconPacket (rcon_packet command) sent]))"

definition on_settings ::
  "(chat_settings \<Rightarrow> chat_settings \<times> chat_effect list) \<Rightarrow> chat_input \<Rightarrow> chat_input \<times> chat_effect list" where
  "on_settings f s = (case f (ci_settings s) of (st, out) \<Rightarrow> (s\<lparr>ci_settings := st\<rparr>, out))"

definition is_command :: "string \<Rightarrow> string \<Rightarrow> bool" where
  "is_command command line \<longleftrightarrow> chat_input_match_local_command_compat line command \<noteq> None"

definition arguments_of :: "string \<Rightarrow> string \<Rightarrow> string" where
  "arguments_of command line = (case chat_input_match_local_command_compat line command of Some a \<Rightarrow> a | None \<Rightarrow> [])"

definition submit_rcon :: "chat_env \<Rightarrow> string \<Rightarrow> chat_input \<Rightarrow> chat_input \<times> chat_effect list" where
  "submit_rcon E arguments s =
     (if \<not> client_exists E \<or> \<not> client_connected E
      then (s\<lparr>ci_send_failures := ci_send_failures s + 1\<rparr>, [chat_compat_add_message ''RCON not connected.''])
      else case samp_raknet_client_send_rcon_command E arguments of (result, out) \<Rightarrow>
        if result = 0 then (s\<lparr>ci_command_send_count := ci_command_send_count s + 1\<rparr>, out)
        else (s\<lparr>ci_send_failures := ci_send_failures s + 1\<rparr>, out @ [chat_compat_add_message ''RCON send failed.'']))"

definition submit_to_server :: "chat_env \<Rightarrow> string \<Rightarrow> chat_input \<Rightarrow> chat_input \<times> chat_effect list" where
  "submit_to_server E line s =
     (if \<not> client_exists E \<or> \<not> client_connected E
      then (s\<lparr>ci_send_failures := ci_send_failures s + 1\<rparr>, [chat_compat_add_message ''Chat not connected.''])
      else let command = (hd line = CHR ''/'');
               (result, out) = (if command then samp_raknet_client_send_server_command (message_sent E) (Some 0) (Some line)
                                else samp_raknet_client_send_chat (message_sent E) (Some 0) (Some line));
               out = map (\<lambda>(m, ok). Sent m ok) out
           in if result \<noteq> 0 then (s\<lparr>ci_send_failures := ci_send_failures s + 1\<rparr>, out @ [chat_compat_add_message ''Chat send failed.''])
              else if command then (s\<lparr>ci_command_send_count := ci_command_send_count s + 1\<rparr>, out)
              else (s\<lparr>ci_send_count := ci_send_count s + 1\<rparr>, out))"

text \<open>What follows the history: the commands the client answers itself, and the rest, which goes to the server.\<close>

definition submit_command :: "chat_env \<Rightarrow> string \<Rightarrow> chat_input \<Rightarrow> chat_input \<times> chat_effect list" where
  "submit_command E line s =
     (if chat_input_is_local_quit_command_compat line then chat_input_request_quit_compat E s
      else if chat_input_is_local_dl_command_compat line then on_settings chat_input_toggle_vehicle_debug_labels_compat s
      else if is_command ''debug'' line
      then on_settings (chat_input_set_debug_level_compat (arguments_of ''debug'' line)) s
      else if is_command ''savepos'' line then (s, [SavePosition (arguments_of ''savepos'' line)])
      else if is_command ''save'' line then (s, [SavePosition (arguments_of ''save'' line)])
      else if is_command ''rs'' line then (s, [RawSavePosition (arguments_of ''rs'' line)])
      else if is_command ''timestamp'' line then on_settings chat_input_toggle_timestamp_compat s
      else if is_command ''pagesize'' line
      then on_settings (chat_input_set_page_size_compat (arguments_of ''pagesize'' line)) s
      else if is_command ''fontsize'' line
      then on_settings (chat_input_set_font_size_compat (arguments_of ''fontsize'' line)) s
      else if is_command ''audiomsg'' line then on_settings chat_input_toggle_audio_messages_compat s
      else if is_command ''logurls'' line then on_settings chat_input_toggle_url_logging_compat s
      else if is_command ''interior'' line then (s, [ShowInterior])
      else if is_command ''headmove'' line then on_settings chat_input_toggle_headmove_compat s
      else if is_command ''nametagstatus'' line then on_settings chat_input_toggle_name_tag_status_compat s
      else if is_command ''fpslimit'' line
      then on_settings (chat_input_set_fps_limit_compat (arguments_of ''fpslimit'' line)) s
      else submit_to_server E line s)"

definition submit_line :: "chat_env \<Rightarrow> string \<Rightarrow> chat_input \<Rightarrow> (chat_input \<times> chat_effect list) mem" where
  "submit_line E line s =
     (if is_command ''rcon'' line then Some (submit_rcon E (arguments_of ''rcon'' line) s)
      else do { s \<leftarrow> chat_input_add_history_compat line s; Some (submit_command E line s) })"

definition chat_input_submit_compat :: "chat_env \<Rightarrow> chat_input \<Rightarrow> (chat_input \<times> chat_effect list) mem" where
  "chat_input_submit_compat E s =
     (let len = (if ci_len s < 0 then 0 else ci_len s);
          len = (if len > int SAMP_CHAT_INPUT_MAX then int SAMP_CHAT_INPUT_MAX else len)
      in if \<not> nat len \<le> length (ci_buffer s) then None
         else let line = c_str (take (nat len) (ci_buffer s));
                  (s, out) = chat_input_close_compat E s
              in if line = [] then Some (s, out)
                 else do { (s, out2) \<leftarrow> submit_line E line s; Some (s, out @ out2) })"

section \<open>The window procedure\<close>

text \<open>
  The part of \<^verbatim>\<open>chat_input_wndproc_compat\<close> about the chat line; \<open>taken_first\<close> says whether the screenshot key or the death window
  took the message, \<open>taken_elsewhere\<close> whether a dialog, a menu, an editor, a textdraw or the score board did. The result also says whether the message stops here or is
  passed to the game's own procedure.
\<close>

definition chat_input_wndproc_compat ::
  "chat_env \<Rightarrow> window_message \<Rightarrow> chat_input \<Rightarrow> (chat_input \<times> chat_effect list \<times> bool) mem" where
  "chat_input_wndproc_compat E m s =
     (let stop = (\<lambda>(s, out). (s, out, True)); quiet = map_option (\<lambda>s. (s, [], True)) in
      if \<not> input_enabled E then Some (s, [], False)
      else if taken_first E m then Some (s, [], True)
      else if gta_menu_active E
      then Some (if ci_active s then case chat_input_close_compat E s of (s, out) \<Rightarrow> (s, out, False) else (s, [], False))
      else case taken_elsewhere E m of Some stopped \<Rightarrow> Some (s, [], stopped)
      | None \<Rightarrow> case m of
        WM_CHAR w \<Rightarrow>
          if \<not> ci_active s
          then Some (if w = 0x74 \<or> w = 0x54 \<or> w = 0x60 then stop (chat_input_open_compat E s) else (s, [], False))
          else if w = 13 \<or> w = 10 then map_option stop (chat_input_submit_compat E s)
          else if w = 27 then Some (stop (chat_input_close_compat E s))
          else if w = 8 then quiet (chat_input_backspace_compat s)
          else if 32 \<le> w \<and> w \<le> 126 then quiet (chat_input_append_char_compat (char_of w) s)
          else Some (s, [], True)
      | WM_KEYUP k \<Rightarrow>
          if k = VK_F6
          then Some (stop (if ci_active s then chat_input_close_compat E s else chat_input_open_compat E s))
          else if \<not> ci_active s then Some (s, [], False)
          else if k = VK_ESCAPE then Some (stop (chat_input_close_compat E s))
          else if k = VK_RETURN then map_option stop (chat_input_submit_compat E s)
          else Some (s, [], True)
      | WM_KEYDOWN k \<Rightarrow>
          if \<not> ci_active s then Some (s, [], False)
          else if k = VK_UP then quiet (chat_input_recall_up_compat s)
          else if k = VK_DOWN then quiet (chat_input_recall_down_compat s)
          else Some (s, [], True)
      | WM_MOUSE \<Rightarrow> Some (s, [], ci_active s)
      | WM_OTHER \<Rightarrow> Some (s, [], False))"

text \<open>Each frame: more than a second after the command \<open>quit\<close>, the network is shut down and the process ends, once.\<close>

definition SAMP_CHAT_QUIT_AFTER_FRAME_MS :: u32 where "SAMP_CHAT_QUIT_AFTER_FRAME_MS = 1000"

definition chat_input_process_quit_after_frame_compat :: "u32 \<Rightarrow> chat_input \<Rightarrow> chat_input \<times> chat_effect list" where
  "chat_input_process_quit_after_frame_compat now s =
     (if \<not> ci_quit_after_frame s then (s, [])
      else let elapsed = now - ci_quit_tick s
           in if elapsed \<le> SAMP_CHAT_QUIT_AFTER_FRAME_MS \<or> ci_quit_exit_started s then (s, [])
              else (s\<lparr>ci_quit_exit_started := True\<rparr>, [NetworkShutdown, ExitProcess 0]))"

text \<open>The line as it is drawn, into a buffer of \<open>n\<close> bytes.\<close>

definition chat_input_format_draw_line_compat :: "u32 \<Rightarrow> nat \<Rightarrow> chat_input \<Rightarrow> string" where
  "chat_input_format_draw_line_compat now n s =
     (if n = 0 \<or> \<not> ci_active s then []
      else let caret = (if (now div 450) mod 2 \<noteq> 0 then CHR '' '' else CHR ''_'')
           in take (n - 1) (''> '' @ c_str (ci_buffer s) @ [caret]))"

section \<open>Runs\<close>

fun chat_input_run :: "(chat_env \<times> window_message) list \<Rightarrow> chat_input \<Rightarrow> (chat_input \<times> chat_effect list) mem" where
  "chat_input_run [] s = Some (s, [])"
| "chat_input_run ((E, m) # ms) s =
     Option.bind (chat_input_wndproc_compat E m s) (\<lambda>(s, out, _).
       map_option (\<lambda>(s, out2). (s, out @ out2)) (chat_input_run ms s))"

section \<open>Line editor\<close>

text \<open>What the player sees: a text, the lines sent before with the newest first, and the place among them.\<close>

record line_editor =
  le_open :: bool
  le_text :: string
  le_history :: "string list"
  le_place :: "nat option"
  le_saved :: string

definition editor_close :: "line_editor \<Rightarrow> line_editor" where
  "editor_close e = e\<lparr>le_open := False, le_text := [], le_place := None, le_saved := []\<rparr>"

definition editor_open :: "line_editor \<Rightarrow> line_editor" where
  "editor_open e = e\<lparr>le_open := True, le_text := [], le_place := None, le_saved := []\<rparr>"

definition editor_type :: "char \<Rightarrow> line_editor \<Rightarrow> line_editor" where
  "editor_type c e = (if length (le_text e) < 128 then e\<lparr>le_text := le_text e @ [c], le_place := None\<rparr> else e)"

definition editor_delete :: "line_editor \<Rightarrow> line_editor" where
  "editor_delete e = (if le_text e = [] then e else e\<lparr>le_text := butlast (le_text e), le_place := None\<rparr>)"

definition editor_older :: "line_editor \<Rightarrow> line_editor" where
  "editor_older e =
     (if le_history e = [] then e
      else case le_place e of
        None \<Rightarrow> e\<lparr>le_saved := le_text e, le_text := hd (le_history e), le_place := Some 0\<rparr>
      | Some i \<Rightarrow> let i = min (i + 1) (length (le_history e) - 1)
                  in e\<lparr>le_text := le_history e ! i, le_place := Some i\<rparr>)"

definition editor_newer :: "line_editor \<Rightarrow> line_editor" where
  "editor_newer e =
     (case le_place e of
        None \<Rightarrow> e
      | Some 0 \<Rightarrow> e\<lparr>le_text := le_saved e, le_place := None\<rparr>
      | Some (Suc i) \<Rightarrow> e\<lparr>le_text := le_history e ! i, le_place := Some i\<rparr>)"

definition remember :: "string \<Rightarrow> string list \<Rightarrow> string list" where
  "remember line h =
     (if line = [] \<or> is_command ''rcon'' line \<or> h \<noteq> [] \<and> hd h = line then h else take 10 (line # h))"

definition editor_submit :: "line_editor \<Rightarrow> line_editor" where
  "editor_submit e = editor_close (e\<lparr>le_history := remember (le_text e) (le_history e)\<rparr>)"

text \<open>The messages that reach the line, in an environment.\<close>

definition reaches :: "chat_env \<Rightarrow> window_message \<Rightarrow> bool" where
  "reaches E m \<longleftrightarrow> input_enabled E \<and> \<not> taken_first E m \<and> \<not> gta_menu_active E \<and> taken_elsewhere E m = None"

definition submits :: "window_message \<Rightarrow> bool" where
  "submits m \<longleftrightarrow> m = WM_CHAR 13 \<or> m = WM_CHAR 10 \<or> m = WM_KEYUP 13"

definition editor_step :: "chat_env \<Rightarrow> window_message \<Rightarrow> line_editor \<Rightarrow> line_editor" where
  "editor_step E m e =
     (if input_enabled E \<and> \<not> taken_first E m \<and> gta_menu_active E then (if le_open e then editor_close e else e)
      else if \<not> reaches E m then e
      else if \<not> le_open e
      then (if m = WM_CHAR 0x74 \<or> m = WM_CHAR 0x54 \<or> m = WM_CHAR 0x60 \<or> m = WM_KEYUP VK_F6 then editor_open e else e)
      else if submits m then editor_submit e
      else case m of
        WM_CHAR w \<Rightarrow> if w = 27 then editor_close e
                     else if w = 8 then editor_delete e
                     else if 32 \<le> w \<and> w \<le> 126 then editor_type (char_of w) e else e
      | WM_KEYUP k \<Rightarrow> if k = VK_F6 \<or> k = VK_ESCAPE then editor_close e else e
      | WM_KEYDOWN k \<Rightarrow> if k = VK_UP then editor_older e else if k = VK_DOWN then editor_newer e else e
      | _ \<Rightarrow> e)"

text \<open>The line that a message hands over.\<close>

definition handed_over :: "chat_env \<Rightarrow> window_message \<Rightarrow> line_editor \<Rightarrow> string" where
  "handed_over E m e = (if reaches E m \<and> le_open e \<and> submits m then le_text e else [])"

text \<open>What the server gets of a line, when the client is connected.\<close>

definition local_commands :: "string list" where
  "local_commands = [''debug'', ''savepos'', ''save'', ''rs'', ''timestamp'', ''pagesize'', ''fontsize'', ''audiomsg'',
     ''logurls'', ''interior'', ''headmove'', ''nametagstatus'', ''fpslimit'']"

definition handled_locally :: "string \<Rightarrow> bool" where
  "handled_locally line \<longleftrightarrow> chat_input_is_local_quit_command_compat line \<or> chat_input_is_local_dl_command_compat line \<or>
     (\<exists>command\<in>set local_commands. is_command command line)"

definition server_gets :: "string \<Rightarrow> out_rpc option" where
  "server_gets line =
     (if line = [] \<or> is_command ''rcon'' line \<or> handled_locally line then None
      else if hd line = CHR ''/'' then Some (ServerCommand line) else Some (Chat line))"

section \<open>The invariant and the abstraction\<close>

definition history_ok :: "string list \<Rightarrow> bool" where
  "history_ok h \<longleftrightarrow> (\<forall>t\<in>set h. t \<noteq> [] \<and> length t \<le> 128 \<and> CHR 0x00 \<notin> set t \<and> \<not> is_command ''rcon'' t)"

definition chat_input_ok :: "chat_input \<Rightarrow> bool" where
  "chat_input_ok s \<longleftrightarrow>
     length (ci_buffer s) = 129 \<and> 0 \<le> ci_len s \<and> ci_len s \<le> 128 \<and>
     nat (ci_len s) = length (c_str (ci_buffer s)) \<and>
     length (ci_history s) = 10 \<and> 0 \<le> ci_history_count s \<and> ci_history_count s \<le> 10 \<and>
     (ci_active s \<longrightarrow> - 1 \<le> ci_history_index s \<and> ci_history_index s < ci_history_count s) \<and>
     history_ok (take (nat (ci_history_count s)) (ci_history s)) \<and>
     length (ci_saved s) \<le> 128 \<and> CHR 0x00 \<notin> set (ci_saved s)"

definition editor_of :: "chat_input \<Rightarrow> line_editor" where
  "editor_of s =
     \<lparr>le_open = ci_active s, le_text = c_str (ci_buffer s),
      le_history = take (nat (ci_history_count s)) (ci_history s),
      le_place = (if ci_active s \<and> 0 \<le> ci_history_index s then Some (nat (ci_history_index s)) else None),
      le_saved = ci_saved s\<rparr>"

lemma chat_input_okD:
  assumes "chat_input_ok s"
  shows "length (ci_buffer s) = 129" "0 \<le> ci_len s" "ci_len s \<le> 128" "nat (ci_len s) = length (c_str (ci_buffer s))"
    "length (ci_history s) = 10" "0 \<le> ci_history_count s" "ci_history_count s \<le> 10"
    "ci_active s \<Longrightarrow> - 1 \<le> ci_history_index s" "ci_active s \<Longrightarrow> ci_history_index s < ci_history_count s"
    "history_ok (take (nat (ci_history_count s)) (ci_history s))"
    "length (ci_saved s) \<le> 128" "CHR 0x00 \<notin> set (ci_saved s)"
  using assms unfolding chat_input_ok_def by blast+

lemma c_str_no_nul [simp]: "CHR 0x00 \<notin> set (c_str b)"
  by (induction b) (auto simp: c_str_def)

lemma c_str_id: "CHR 0x00 \<notin> set t \<Longrightarrow> c_str t = t"
  by (induction t) (auto simp: c_str_def)

lemma c_str_append: "CHR 0x00 \<notin> set t \<Longrightarrow> c_str (t @ CHR 0x00 # u) = t"
  by (induction t) (auto simp: c_str_def)

lemma c_str_take: "take (length (c_str b)) b = c_str b"
  unfolding c_str_def by (metis takeWhile_eq_take)

lemma c_str_nth: "length (c_str b) < length b \<Longrightarrow> b ! length (c_str b) = CHR 0x00"
  unfolding c_str_def using nth_length_takeWhile by blast

text \<open>A buffer holds the text before its first NUL.\<close>

lemma buffer_split:
  assumes "length (c_str b) < length b"
  obtains u where "b = c_str b @ CHR 0x00 # u"
  using assms c_str_nth[OF assms] c_str_take[of b] by (metis id_take_nth_drop)

lemma c_str_first: "c_str (b[0 := CHR 0x00]) = (if b = [] then [] else [])"
  by (cases b) (simp_all add: c_str_def)

section \<open>Each operation on the line\<close>

text \<open>An operation that keeps the invariant and acts on the editor as \<open>f\<close>.\<close>

definition acts_as :: "(line_editor \<Rightarrow> line_editor) \<Rightarrow> chat_input \<Rightarrow> chat_input \<Rightarrow> bool" where
  "acts_as f s s2 \<longleftrightarrow> chat_input_ok s2 \<and> editor_of s2 = f (editor_of s)"

named_theorems editing

lemma close_acts [editing]:
  assumes "chat_input_ok s"
  shows "acts_as editor_close s (fst (chat_input_close_compat E s))"
  using chat_input_okD[OF assms]
  by (simp add: acts_as_def chat_input_close_compat_def Let_def split_def chat_input_ok_def editor_of_def editor_close_def c_str_first)

lemma open_acts [editing]:
  assumes "chat_input_ok s" "input_enabled E"
  shows "acts_as editor_open s (fst (chat_input_open_compat E s))"
  using chat_input_okD[OF assms(1)] assms(2)
  by (simp add: acts_as_def chat_input_open_compat_def Let_def chat_input_ok_def editor_of_def editor_open_def c_str_first)

lemma c_str_write:
  assumes "length (c_str b) + 1 < length b" "ch \<noteq> CHR 0x00"
  shows "c_str (b[length (c_str b) := ch, length (c_str b) + 1 := CHR 0x00]) = c_str b @ [ch]"
proof -
  obtain u where u: "b = c_str b @ CHR 0x00 # u" using buffer_split[of b] assms(1) by auto
  with assms(1) have "length u \<noteq> 0" by (metis One_nat_def add.right_neutral length_0_conv length_Cons length_append list.size(3)
    nat_less_le add_Suc_right)
  then obtain x v where v: "u = x # v" by (cases u) auto
  have "(c_str b @ CHR 0x00 # x # v)[length (c_str b) := ch, length (c_str b) + 1 := CHR 0x00] = (c_str b @ [ch]) @ CHR 0x00 # v"
    by (simp add: list_update_append)
  then have "b[length (c_str b) := ch, length (c_str b) + 1 := CHR 0x00] = (c_str b @ [ch]) @ CHR 0x00 # v"
    using u v by metis
  moreover have "CHR 0x00 \<notin> set (c_str b @ [ch])" using assms(2) by simp
  ultimately show ?thesis by (metis c_str_append)
qed

lemma append_acts:
  assumes "chat_input_ok s" "ch \<noteq> CHR 0x00"
  shows "\<exists>s2. chat_input_append_char_compat ch s = Some s2 \<and> acts_as (editor_type ch) s s2"
proof (cases "ci_len s \<ge> 128")
  case True
  then show ?thesis using chat_input_okD[OF assms(1)] assms(1)
    by (simp add: chat_input_append_char_compat_def chat_input_consts acts_as_def editor_type_def editor_of_def)
next
  case False
  note d = chat_input_okD[OF assms(1)]
  let ?n = "nat (ci_len s)"
  have len: "?n = length (c_str (ci_buffer s))" "?n + 1 < length (ci_buffer s)" using d(1,2,4) False by auto
  let ?b = "(ci_buffer s)[?n := ch, ?n + 1 := CHR 0x00]"
  have w: "c_str ?b = c_str (ci_buffer s) @ [ch]" using c_str_write[of "ci_buffer s" ch] len assms(2) by simp
  let ?s2 = "s\<lparr>ci_buffer := ?b, ci_len := ci_len s + 1, ci_history_index := - 1\<rparr>"
  have step: "chat_input_append_char_compat ch s = Some ?s2"
    using False d(2) len(2) by (simp add: chat_input_append_char_compat_def chat_input_consts Let_def)
  have ok: "chat_input_ok ?s2" unfolding chat_input_ok_def using d False w by simp
  have ed: "editor_of ?s2 = editor_type ch (editor_of s)"
    using w False len(1) by (simp add: editor_of_def editor_type_def)
  show ?thesis using step ok ed by (auto simp: acts_as_def)
qed

lemma c_str_erase:
  assumes "c_str b \<noteq> []" "length (c_str b) < length b"
  shows "c_str (b[length (c_str b) - 1 := CHR 0x00]) = butlast (c_str b)"
proof -
  let ?c = "c_str b"
  obtain u where u: "b = ?c @ CHR 0x00 # u" using assms(2) by (rule buffer_split)
  have "b[length ?c - 1 := CHR 0x00] = (butlast ?c @ [last ?c] @ CHR 0x00 # u)[length (butlast ?c) := CHR 0x00]"
    using u assms(1) by (metis append.assoc append_butlast_last_id length_butlast)
  moreover have "\<And>a x r. (a @ [x] @ r)[length a := CHR 0x00] = a @ CHR 0x00 # r" by simp
  ultimately have "b[length ?c - 1 := CHR 0x00] = butlast ?c @ CHR 0x00 # CHR 0x00 # u" by metis
  moreover have "CHR 0x00 \<notin> set (butlast ?c)" using c_str_no_nul in_set_butlastD by fastforce
  ultimately show ?thesis by (metis c_str_append)
qed

lemma backspace_acts:
  assumes "chat_input_ok s"
  shows "\<exists>s2. chat_input_backspace_compat s = Some s2 \<and> acts_as editor_delete s s2"
proof (cases "ci_len s \<le> 0")
  case True
  then show ?thesis using chat_input_okD[OF assms] assms
    by (simp add: chat_input_backspace_compat_def acts_as_def editor_delete_def editor_of_def)
next
  case False
  note d = chat_input_okD[OF assms]
  let ?c = "c_str (ci_buffer s)"
  let ?n = "nat (ci_len s - 1)"
  have n: "?n = length ?c - 1" "?c \<noteq> []" using d(2,4) False by auto
  have nb: "?n < length (ci_buffer s)" using d(1,3) by simp
  have "length ?c < length (ci_buffer s)" using d(1,3,4) by linarith
  then have w: "c_str ((ci_buffer s)[?n := CHR 0x00]) = butlast ?c" unfolding n(1) by (rule c_str_erase[OF n(2)])
  let ?s2 = "s\<lparr>ci_buffer := (ci_buffer s)[?n := CHR 0x00], ci_len := ci_len s - 1, ci_history_index := - 1\<rparr>"
  have step: "chat_input_backspace_compat s = Some ?s2"
    using False nb by (simp add: chat_input_backspace_compat_def Let_def)
  have ok: "chat_input_ok ?s2" unfolding chat_input_ok_def using d False w n by simp
  have ed: "editor_of ?s2 = editor_delete (editor_of s)"
    using w n(2) by (simp add: editor_of_def editor_delete_def)
  show ?thesis using step ok ed by (auto simp: acts_as_def)
qed

lemma set_buffer:
  assumes "length t \<le> 128" "CHR 0x00 \<notin> set t"
  shows "length (ci_buffer (chat_input_set_buffer_compat t s)) = 129"
    "c_str (ci_buffer (chat_input_set_buffer_compat t s)) = t"
    "ci_len (chat_input_set_buffer_compat t s) = int (length t)"
proof -
  have "replicate (129 - length t) CHR 0x00 = CHR 0x00 # replicate (128 - length t) CHR 0x00"
    using Suc_diff_le[OF assms(1)] replicate_Suc[of "128 - length t" "CHR 0x00"] by simp
  then have p: "padded t = t @ CHR 0x00 # replicate (128 - length t) CHR 0x00"
    using assms(1) by (simp add: padded_def chat_input_consts)
  have c: "c_str (padded t) = t" unfolding p using assms(2) by (rule c_str_append)
  show "length (ci_buffer (chat_input_set_buffer_compat t s)) = 129"
    using assms(1) p by (simp add: chat_input_set_buffer_compat_def Let_def)
  show "c_str (ci_buffer (chat_input_set_buffer_compat t s)) = t"
    "ci_len (chat_input_set_buffer_compat t s) = int (length t)"
    using c assms(1) by (simp_all add: chat_input_set_buffer_compat_def Let_def chat_input_consts)
qed

lemma set_buffer_frame [simp]:
  "ci_active (chat_input_set_buffer_compat t s) = ci_active s" "ci_history (chat_input_set_buffer_compat t s) = ci_history s"
  "ci_history_count (chat_input_set_buffer_compat t s) = ci_history_count s" "ci_saved (chat_input_set_buffer_compat t s) = ci_saved s"
  by (simp_all add: chat_input_set_buffer_compat_def Let_def)

lemma history_nth:
  assumes "chat_input_ok s" "i < nat (ci_history_count s)"
  shows "length (ci_history s ! i) \<le> 128" "CHR 0x00 \<notin> set (ci_history s ! i)"
    "take (nat (ci_history_count s)) (ci_history s) ! i = ci_history s ! i"
proof -
  note d = chat_input_okD[OF assms(1)]
  have "nat (ci_history_count s) \<le> length (ci_history s)" using d(5,7) by simp
  then have m: "ci_history s ! i \<in> set (take (nat (ci_history_count s)) (ci_history s))"
    using assms(2) by (metis length_take min.absorb2 nth_mem nth_take)
  then show "length (ci_history s ! i) \<le> 128" "CHR 0x00 \<notin> set (ci_history s ! i)"
    using d(10) unfolding history_ok_def by blast+
  show "take (nat (ci_history_count s)) (ci_history s) ! i = ci_history s ! i" using assms(2) by simp
qed

text \<open>Showing a text at a place of the history.\<close>

lemma shown_acts:
  assumes "chat_input_ok s" "ci_active s" "length t \<le> 128" "CHR 0x00 \<notin> set t" "- 1 \<le> i" "i < ci_history_count s"
    "length v \<le> 128" "CHR 0x00 \<notin> set v"
  shows "chat_input_ok ((chat_input_set_buffer_compat t (s\<lparr>ci_saved := v\<rparr>))\<lparr>ci_history_index := i\<rparr>)"
    "editor_of ((chat_input_set_buffer_compat t (s\<lparr>ci_saved := v\<rparr>))\<lparr>ci_history_index := i\<rparr>) =
      (editor_of s)\<lparr>le_text := t, le_place := (if i < 0 then None else Some (nat i)), le_saved := v\<rparr>"
  using chat_input_okD[OF assms(1)] set_buffer[OF assms(3,4)] assms
  by (simp_all add: chat_input_ok_def editor_of_def)

lemma recall_up_acts:
  assumes "chat_input_ok s" "ci_active s"
  shows "\<exists>s2. chat_input_recall_up_compat s = Some s2 \<and> acts_as editor_older s s2"
proof (cases "ci_history_count s \<le> 0")
  case True
  then show ?thesis using chat_input_okD[OF assms(1)] assms
    by (simp add: chat_input_recall_up_compat_def acts_as_def editor_older_def editor_of_def)
next
  case False
  note d = chat_input_okD[OF assms(1)]
  define v where "v = (if ci_history_index s < 0 then c_str (ci_buffer s) else ci_saved s)"
  define i where "i = (if ci_history_index s < 0 then 0
    else if ci_history_index s + 1 < ci_history_count s then ci_history_index s + 1 else ci_history_index s)"
  have i: "- 1 \<le> i" "i < ci_history_count s" "\<not> i < 0" using d(8)[OF assms(2)] d(9)[OF assms(2)] False by (auto simp: i_def)
  then have ni: "nat i < nat (ci_history_count s)" by simp
  note t = history_nth[OF assms(1) ni]
  have tk: "take 128 (c_str (ci_buffer s)) = c_str (ci_buffer s)" using d(3,4) by simp
  have v: "length v \<le> 128" "CHR 0x00 \<notin> set v" using d(3,4,11,12) by (auto simp: v_def)
  let ?s2 = "(chat_input_set_buffer_compat (ci_history s ! nat i) (s\<lparr>ci_saved := v\<rparr>))\<lparr>ci_history_index := i\<rparr>"
  have il: "nat i < length (ci_history s)" using i d(5,7) by simp
  have "\<not> ci_history_count s > int SAMP_CHAT_INPUT_HISTORY" using d(7) by (simp add: chat_input_consts)
  then have step: "chat_input_recall_up_compat s = Some ?s2"
    using False il tk by (cases "ci_history_index s < 0"; cases "ci_history_index s + 1 < ci_history_count s")
      (simp_all add: chat_input_recall_up_compat_def Let_def chat_input_consts i_def v_def)
  note sh = shown_acts[OF assms t(1,2) i(1,2) v]
  have h: "le_history (editor_of s) \<noteq> []" using False d(5) by (auto simp: editor_of_def)
  have hd: "hd (le_history (editor_of s)) = ci_history s ! 0" using h by (simp add: editor_of_def hd_conv_nth)
  have lh: "length (le_history (editor_of s)) = nat (ci_history_count s)" using d(5,7) by (simp add: editor_of_def)
  have "editor_older (editor_of s) = (editor_of s)\<lparr>le_text := ci_history s ! nat i, le_place := Some (nat i), le_saved := v\<rparr>"
  proof (cases "ci_history_index s < 0")
    case True
    then have "le_place (editor_of s) = None" "i = 0" "v = le_text (editor_of s)" by (simp_all add: editor_of_def i_def v_def)
    with h hd show ?thesis by (simp add: editor_older_def)
  next
    case nonneg: False
    have p: "le_place (editor_of s) = Some (nat (ci_history_index s))" using nonneg assms(2) by (simp add: editor_of_def)
    have m: "min (nat (ci_history_index s) + 1) (length (le_history (editor_of s)) - 1) = nat i"
      using nonneg d(9)[OF assms(2)] lh by (auto simp: i_def)
    have x: "le_history (editor_of s) ! nat i = ci_history s ! nat i" using t(3) by (simp add: editor_of_def)
    have "v = le_saved (editor_of s)" using nonneg by (simp add: v_def editor_of_def)
    with h p m x show ?thesis by (simp add: editor_older_def Let_def)
  qed
  with step sh i(3) show ?thesis by (simp add: acts_as_def)
qed

lemma recall_down_acts:
  assumes "chat_input_ok s" "ci_active s"
  shows "\<exists>s2. chat_input_recall_down_compat s = Some s2 \<and> acts_as editor_newer s s2"
proof -
  note d = chat_input_okD[OF assms(1)]
  have self: "s\<lparr>ci_saved := ci_saved s\<rparr> = s" by simp
  consider "ci_history_index s < 0" | "ci_history_index s = 0" | "ci_history_index s > 0" by linarith
  then show ?thesis
  proof cases
    case 1
    then show ?thesis using assms by (simp add: chat_input_recall_down_compat_def acts_as_def editor_newer_def editor_of_def)
  next
    case 2
    have c: "- 1 < ci_history_count s" using d(6) by simp
    have "chat_input_recall_down_compat s = Some ((chat_input_set_buffer_compat (ci_saved s) s)\<lparr>ci_history_index := - 1\<rparr>)"
      using 2 by (simp add: chat_input_recall_down_compat_def Let_def)
    moreover have "editor_newer (editor_of s) = (editor_of s)\<lparr>le_text := ci_saved s, le_place := None, le_saved := ci_saved s\<rparr>"
      using 2 assms(2) by (simp add: editor_newer_def editor_of_def)
    ultimately show ?thesis using shown_acts[OF assms d(11,12) order_refl c d(11,12)] self by (simp add: acts_as_def)
  next
    case 3
    let ?i = "ci_history_index s - 1"
    have i: "- 1 \<le> ?i" "?i < ci_history_count s" "\<not> ?i < 0" using 3 d(9)[OF assms(2)] by auto
    then have ni: "nat ?i < nat (ci_history_count s)" by simp
    note t = history_nth[OF assms(1) ni]
    have il: "nat ?i < length (ci_history s)" using i d(5,7) by simp
    then have "chat_input_recall_down_compat s = Some ((chat_input_set_buffer_compat (ci_history s ! nat ?i) s)\<lparr>ci_history_index := ?i\<rparr>)"
      using 3 by (simp add: chat_input_recall_down_compat_def Let_def)
    moreover have "nat (ci_history_index s) = Suc (nat ?i)" using 3 by simp
    then have "editor_newer (editor_of s) = (editor_of s)\<lparr>le_text := ci_history s ! nat ?i, le_place := Some (nat ?i), le_saved := ci_saved s\<rparr>"
      using 3 t(3) assms(2) by (simp add: editor_newer_def editor_of_def)
    ultimately show ?thesis using shown_acts[OF assms t(1,2) i(1,2) d(11,12)] self i(3) by (simp add: acts_as_def)
  qed
qed

section \<open>Handing the line over\<close>

lemma shift_history_eq: "i < length h \<Longrightarrow> shift_history i h = Some (hd h # take i h @ drop (Suc i) h)"
proof (induction i arbitrary: h)
  case 0
  then show ?case by (cases h) simp_all
next
  case (Suc i)
  let ?h = "h[Suc i := h ! i]"
  have "shift_history (Suc i) h = shift_history i ?h"
    using Suc.prems array_put_in[of "Suc i" h "h ! i"] by (simp add: array_get_in del: of_nat_Suc)
  also have "\<dots> = Some (hd ?h # take i ?h @ drop (Suc i) ?h)" using Suc.IH[of ?h] Suc.prems by simp
  also have "hd ?h = hd h" using Suc.prems by (cases h) simp_all
  also have "drop (Suc i) ?h = h ! i # drop (Suc (Suc i)) h" using Suc.prems by (simp add: drop_update_swap Cons_nth_drop_Suc[symmetric])
  also have "take i ?h @ h ! i # drop (Suc (Suc i)) h = take (Suc i) h @ drop (Suc (Suc i)) h"
    using Suc.prems by (simp add: take_Suc_conv_app_nth)
  finally show ?case .
qed

lemma newest_is_eq:
  assumes "chat_input_ok s"
  shows "newest_is line s = Some (ci_history_count s > 0 \<and> ci_history s ! 0 = line)"
  using chat_input_okD(5-7)[OF assms] by (auto simp: newest_is_def array_get_def chat_input_consts)

lemma add_history_eq:
  assumes "chat_input_ok s" "length line \<le> 128" "line \<noteq> []"
    "\<not> (ci_history_count s > 0 \<and> ci_history s ! 0 = line)"
  shows "\<exists>h c. chat_input_add_history_compat line s = Some (s\<lparr>ci_history := h, ci_history_count := c\<rparr>) \<and> length h = 10 \<and>
    ci_history_count s \<le> c \<and> c \<le> 10 \<and> take (nat c) h = take 10 (line # take (nat (ci_history_count s)) (ci_history s))"
proof -
  note d = chat_input_okD[OF assms(1)]
  define c where "c = (if ci_history_count s < 10 then ci_history_count s + 1 else ci_history_count s)"
  define i where "i = nat c - 1"
  have c: "1 \<le> c" "c \<le> 10" "ci_history_count s \<le> c" "c \<le> ci_history_count s + 1" using d(6,7) by (auto simp: c_def)
  have i: "i < length (ci_history s)" "Suc i = nat c" using c d(5) by (auto simp: i_def)
  have sh: "shift_history i (ci_history s) = Some (hd (ci_history s) # take i (ci_history s) @ drop (Suc i) (ci_history s))"
    by (rule shift_history_eq[OF i(1)])
  define h where "h = line # take i (ci_history s) @ drop (Suc i) (ci_history s)"
  have same: "newest_is line s = Some False" using newest_is_eq[OF assms(1), of line] assms(4) by auto
  have n: "\<not> ci_history_count s < 0" "\<not> 10 < ci_history_count s" using d(6,7) by auto
  have "chat_input_add_history_compat line s = Some (s\<lparr>ci_history := h, ci_history_count := c\<rparr>)"
    using assms(2,3) sh same n by (cases "ci_history_count s < 10")
      (simp_all add: chat_input_add_history_compat_def Let_def chat_input_consts c_def h_def i_def array_put_def)
  moreover have "length h = 10" using i d(5) by (simp add: h_def)
  moreover have "take (nat c) h = take 10 (line # take (nat (ci_history_count s)) (ci_history s))"
  proof -
    have "take (nat c) h = line # take i (ci_history s)" unfolding i(2)[symmetric] using i(1) by (simp add: h_def)
    moreover have "take 9 (take (nat (ci_history_count s)) (ci_history s)) = take i (ci_history s)"
    proof -
      have "i = min 9 (nat (ci_history_count s))" using d(6,7) by (auto simp: i_def c_def min_def nat_add_distrib)
      then show ?thesis by simp
    qed
    ultimately show ?thesis by (simp add: numeral_eq_Suc)
  qed
  ultimately show ?thesis using c by blast
qed

lemma history_ok_remember: "history_ok h \<Longrightarrow> length line \<le> 128 \<Longrightarrow> CHR 0x00 \<notin> set line \<Longrightarrow> history_ok (remember line h)"
  unfolding history_ok_def remember_def by (auto dest: in_set_takeD)

lemma add_history_acts:
  assumes "chat_input_ok s" "length line \<le> 128" "CHR 0x00 \<notin> set line" "\<not> is_command ''rcon'' line"
  shows "\<exists>s1. chat_input_add_history_compat line s = Some s1 \<and>
    acts_as (\<lambda>e. e\<lparr>le_history := remember line (le_history e)\<rparr>) s s1"
proof -
  note d = chat_input_okD[OF assms(1)]
  let ?h = "take (nat (ci_history_count s)) (ci_history s)"
  have first: "(?h \<noteq> [] \<and> hd ?h = line) = (ci_history_count s > 0 \<and> ci_history s ! 0 = line)"
    using d(5,6) hd_conv_nth[of "ci_history s"] by (cases "ci_history s") auto
  show ?thesis
  proof (cases "line = [] \<or> ci_history_count s > 0 \<and> ci_history s ! 0 = line")
    case True
    then have "chat_input_add_history_compat line s = Some s"
      using newest_is_eq[OF assms(1), of line] by (auto simp: chat_input_add_history_compat_def)
    moreover have "remember line ?h = ?h" using True first unfolding remember_def by auto
    ultimately show ?thesis using assms(1) by (simp add: acts_as_def editor_of_def)
  next
    case False
    then have nl: "line \<noteq> []" and nf: "\<not> (ci_history_count s > 0 \<and> ci_history s ! 0 = line)" by auto
    obtain h c where hc: "chat_input_add_history_compat line s = Some (s\<lparr>ci_history := h, ci_history_count := c\<rparr>)" "length h = 10"
      "ci_history_count s \<le> c" "c \<le> 10" "take (nat c) h = take 10 (line # ?h)"
      using add_history_eq[OF assms(1,2) nl nf] by blast
    have r: "remember line ?h = take 10 (line # ?h)" using nl nf first assms(4) unfolding remember_def by auto
    have ok: "history_ok (take (nat c) h)" using history_ok_remember[OF d(10) assms(2,3)] hc(5) r by metis
    have "chat_input_ok (s\<lparr>ci_history := h, ci_history_count := c\<rparr>)"
      unfolding chat_input_ok_def using d hc(2-4) ok by auto
    moreover have "editor_of (s\<lparr>ci_history := h, ci_history_count := c\<rparr>) =
        (editor_of s)\<lparr>le_history := remember line (le_history (editor_of s))\<rparr>"
      using hc(5) r by (simp add: editor_of_def)
    ultimately show ?thesis using hc(1) by (simp add: acts_as_def)
  qed
qed

text \<open>The RPCs and the remote console packets among the effects.\<close>

fun messages_of :: "chat_effect list \<Rightarrow> out_rpc list" where
  "messages_of [] = []"
| "messages_of (Sent m ok # out) = m # messages_of out"
| "messages_of (_ # out) = messages_of out"

fun rcon_packets_of :: "chat_effect list \<Rightarrow> u8 list list" where
  "rcon_packets_of [] = []"
| "rcon_packets_of (RconPacket p ok # out) = p # rcon_packets_of out"
| "rcon_packets_of (_ # out) = rcon_packets_of out"

lemma messages_of_append [simp]: "messages_of (out @ out2) = messages_of out @ messages_of out2"
  by (induction out rule: messages_of.induct) simp_all

lemma rcon_packets_of_append [simp]: "rcon_packets_of (out @ out2) = rcon_packets_of out @ rcon_packets_of out2"
  by (induction out rule: rcon_packets_of.induct) simp_all

text \<open>A step that neither touches the line nor sends.\<close>

definition aside :: "chat_input \<Rightarrow> chat_input \<times> chat_effect list \<Rightarrow> bool" where
  "aside s r \<longleftrightarrow> acts_as id s (fst r) \<and> messages_of (snd r) = [] \<and> rcon_packets_of (snd r) = []"

named_theorems asides

lemma aside_settings [asides]:
  "chat_input_ok s \<Longrightarrow> messages_of (snd (f (ci_settings s))) = [] \<Longrightarrow> rcon_packets_of (snd (f (ci_settings s))) = [] \<Longrightarrow>
   aside s (on_settings f s)"
  by (simp add: aside_def on_settings_def acts_as_def editor_of_def chat_input_ok_def split_def)

lemma messages_of_line [simp]:
  "messages_of [chat_compat_add_message t] = []" "rcon_packets_of [chat_compat_add_message t] = []"
  "messages_of (chat_compat_add_message t # out) = messages_of out"
  "rcon_packets_of (chat_compat_add_message t # out) = rcon_packets_of out"
  by (simp_all add: chat_compat_add_message_def)

lemmas settings_commands =
  chat_input_toggle_vehicle_debug_labels_compat_def chat_input_set_debug_level_compat_def chat_input_toggle_timestamp_compat_def
  chat_input_set_page_size_compat_def chat_input_set_font_size_compat_def chat_input_toggle_audio_messages_compat_def
  chat_input_toggle_url_logging_compat_def chat_input_toggle_headmove_compat_def
  chat_input_toggle_name_tag_status_compat_def chat_input_set_fps_limit_compat_def

lemma settings_silent:
  fixes r :: "chat_settings \<times> chat_effect list"
  assumes "r \<in> {chat_input_toggle_vehicle_debug_labels_compat st, chat_input_set_debug_level_compat a st,
      chat_input_toggle_timestamp_compat st, chat_input_set_page_size_compat a st, chat_input_set_font_size_compat a st,
      chat_input_toggle_audio_messages_compat st, chat_input_toggle_url_logging_compat st,
      chat_input_toggle_headmove_compat st, chat_input_toggle_name_tag_status_compat st, chat_input_set_fps_limit_compat a st}"
  shows "messages_of (snd r) = [] \<and> rcon_packets_of (snd r) = []"
  using assms by (auto simp: settings_commands Let_def split_def split: option.splits)

lemma aside_setting_commands [asides]:
  assumes "chat_input_ok s"
  shows "aside s (on_settings chat_input_toggle_vehicle_debug_labels_compat s)"
    "aside s (on_settings (chat_input_set_debug_level_compat a) s)" "aside s (on_settings chat_input_toggle_timestamp_compat s)"
    "aside s (on_settings (chat_input_set_page_size_compat a) s)" "aside s (on_settings (chat_input_set_font_size_compat a) s)"
    "aside s (on_settings chat_input_toggle_audio_messages_compat s)" "aside s (on_settings chat_input_toggle_url_logging_compat s)"
    "aside s (on_settings chat_input_toggle_headmove_compat s)" "aside s (on_settings chat_input_toggle_name_tag_status_compat s)"
    "aside s (on_settings (chat_input_set_fps_limit_compat a) s)"
  by (rule aside_settings[OF assms]; use settings_silent in blast)+

lemma aside_effects [asides]:
  assumes "chat_input_ok s"
  shows "aside s (s, [SavePosition a])" "aside s (s, [RawSavePosition a])" "aside s (s, [ShowInterior])"
    "aside s (chat_input_request_quit_compat E s)"
  using assms by (simp_all add: aside_def acts_as_def chat_input_request_quit_compat_def editor_of_def chat_input_ok_def)

lemma rcon_acts:
  assumes "chat_input_ok s"
  shows "acts_as id s (fst (submit_rcon E a s))" "messages_of (snd (submit_rcon E a s)) = []"
    "rcon_packets_of (snd (submit_rcon E a s)) =
      (if client_exists E \<and> client_connected E \<and> client_own E \<and> length a \<le> 128 then [rcon_packet a] else [])"
  using assms by (auto simp: submit_rcon_def samp_raknet_client_send_rcon_command_def acts_as_def editor_of_def chat_input_ok_def
    Let_def kChatInputBytes_def)

lemma server_acts:
  assumes "chat_input_ok s" "length line \<le> 128" "line \<noteq> []"
  shows "acts_as id s (fst (submit_to_server E line s))" "rcon_packets_of (snd (submit_to_server E line s)) = []"
    "messages_of (snd (submit_to_server E line s)) = (if client_exists E \<and> client_connected E
       then [if hd line = CHR ''/'' then ServerCommand line else Chat line] else [])"
  using assms by (auto simp: submit_to_server_def samp_raknet_client_send_server_command_def samp_raknet_client_send_chat_def
    send_chat_rpc_internal_def acts_as_def editor_of_def chat_input_ok_def Let_def kChatInputBytes_def)

lemma acts_as_ok: "acts_as f s s2 \<Longrightarrow> chat_input_ok s2"
  by (simp add: acts_as_def)

lemma acts_as_trans: "acts_as f s s1 \<Longrightarrow> acts_as g s1 s2 \<Longrightarrow> acts_as (\<lambda>e. g (f e)) s s2"
  by (simp add: acts_as_def)

text \<open>The commands the client answers itself leave the line alone; other lines go to the server.\<close>

lemma submit_command_cases:
  assumes "chat_input_ok s" "\<not> is_command ''rcon'' line"
  shows "handled_locally line \<Longrightarrow> aside s (submit_command E line s)"
    "\<not> handled_locally line \<Longrightarrow> submit_command E line s = submit_to_server E line s"
proof -
  assume h: "handled_locally line"
  note a = aside_setting_commands[OF assms(1)] aside_effects[OF assms(1)]
  have "\<not> (\<not> chat_input_is_local_quit_command_compat line \<and> \<not> chat_input_is_local_dl_command_compat line \<and>
      \<not> is_command ''debug'' line \<and> \<not> is_command ''savepos'' line \<and> \<not> is_command ''save'' line \<and> \<not> is_command ''rs'' line \<and>
      \<not> is_command ''timestamp'' line \<and> \<not> is_command ''pagesize'' line \<and> \<not> is_command ''fontsize'' line \<and>
      \<not> is_command ''audiomsg'' line \<and> \<not> is_command ''logurls'' line \<and> \<not> is_command ''interior'' line \<and>
      \<not> is_command ''headmove'' line \<and> \<not> is_command ''nametagstatus'' line \<and> \<not> is_command ''fpslimit'' line)"
    using h by (simp add: handled_locally_def local_commands_def)
  then show "aside s (submit_command E line s)"
    using a unfolding submit_command_def by (simp split: if_split) blast
next
  assume "\<not> handled_locally line"
  then show "submit_command E line s = submit_to_server E line s"
    using assms(2) by (simp add: submit_command_def handled_locally_def local_commands_def)
qed

lemma submit_line_acts:
  assumes "chat_input_ok s" "length line \<le> 128" "CHR 0x00 \<notin> set line" "line \<noteq> []"
  shows "\<exists>s2 out. submit_line E line s = Some (s2, out) \<and>
    acts_as (\<lambda>e. e\<lparr>le_history := remember line (le_history e)\<rparr>) s s2 \<and>
    messages_of out =
      (if client_exists E \<and> client_connected E then (case server_gets line of Some m \<Rightarrow> [m] | None \<Rightarrow> []) else []) \<and>
    rcon_packets_of out =
      (if client_exists E \<and> client_connected E \<and> client_own E \<and> is_command ''rcon'' line \<and> length (arguments_of ''rcon'' line) \<le> 128
       then [rcon_packet (arguments_of ''rcon'' line)] else [])"
proof (cases "is_command ''rcon'' line")
  case True
  obtain s2 out where e: "submit_rcon E (arguments_of ''rcon'' line) s = (s2, out)" by fastforce
  have r: "remember line h = h" for h using True by (simp add: remember_def)
  show ?thesis using rcon_acts[OF assms(1), of E "arguments_of ''rcon'' line"] True e
    by (simp add: submit_line_def r server_gets_def acts_as_def)
next
  case False
  obtain s1 where s1: "chat_input_add_history_compat line s = Some s1"
    and a: "acts_as (\<lambda>e. e\<lparr>le_history := remember line (le_history e)\<rparr>) s s1"
    using add_history_acts[OF assms(1-3) False] by blast
  note ok = acts_as_ok[OF a]
  obtain s2 out where r: "submit_command E line s1 = (s2, out)" by fastforce
  then have e: "submit_line E line s = Some (s2, out)" using False s1 by (simp add: submit_line_def)
  note c = submit_command_cases[OF ok False, of E]
  show ?thesis
  proof (cases "handled_locally line")
    case True
    have "aside s1 (s2, out)" using c(1)[OF True] r by simp
    then show ?thesis using a e False True by (simp add: aside_def acts_as_def server_gets_def)
  next
    case nl: False
    have "submit_to_server E line s1 = (s2, out)" using c(2)[OF nl] r by simp
    then show ?thesis using a e server_acts[OF ok assms(2,4), of E] False nl assms(4)
      by (simp add: acts_as_def server_gets_def)
  qed
qed

definition console_packets :: "chat_env \<Rightarrow> string \<Rightarrow> u8 list list" where
  "console_packets E line =
     (if client_exists E \<and> client_connected E \<and> client_own E \<and> is_command ''rcon'' line \<and> length (arguments_of ''rcon'' line) \<le> 128
      then [rcon_packet (arguments_of ''rcon'' line)] else [])"

definition server_messages :: "chat_env \<Rightarrow> string \<Rightarrow> out_rpc list" where
  "server_messages E line =
     (if client_exists E \<and> client_connected E then (case server_gets line of Some m \<Rightarrow> [m] | None \<Rightarrow> []) else [])"

lemma nothing_of_empty [simp]: "server_messages E [] = []" "console_packets E [] = []"
  by (simp_all add: server_messages_def server_gets_def console_packets_def is_command_def chat_input_match_local_command_compat_def)

lemma close_silent [simp]:
  "messages_of (snd (chat_input_close_compat E s)) = []" "rcon_packets_of (snd (chat_input_close_compat E s)) = []"
  "messages_of (snd (chat_input_open_compat E s)) = []" "rcon_packets_of (snd (chat_input_open_compat E s)) = []"
  by (simp_all add: chat_input_close_compat_def chat_input_open_compat_def Let_def split_def)

lemma submit_acts:
  assumes "chat_input_ok s"
  shows "\<exists>s2 out. chat_input_submit_compat E s = Some (s2, out) \<and> acts_as editor_submit s s2 \<and>
    messages_of out = server_messages E (c_str (ci_buffer s)) \<and> rcon_packets_of out = console_packets E (c_str (ci_buffer s))"
proof -
  note d = chat_input_okD[OF assms]
  let ?line = "c_str (ci_buffer s)"
  let ?s1 = "fst (chat_input_close_compat E s)"
  have len: "length ?line \<le> 128" using d(3,4) by simp
  have cut: "c_str (take (nat (ci_len s)) (ci_buffer s)) = ?line" using c_str_take[of "ci_buffer s"] c_str_id[OF c_str_no_nul] d(4) by simp
  have nb: "nat (ci_len s) \<le> length (ci_buffer s)" using d(1,3) by simp
  note cl = close_acts[OF assms, of E]
  note ok = acts_as_ok[OF cl]
  have eq: "chat_input_submit_compat E s = (if ?line = [] then Some (chat_input_close_compat E s)
      else map_option (\<lambda>(s2, out2). (s2, snd (chat_input_close_compat E s) @ out2)) (submit_line E ?line ?s1))"
    using d(2,3) nb cut by (cases "submit_line E ?line ?s1") (simp_all add: chat_input_submit_compat_def Let_def chat_input_consts split_def)
  show ?thesis
  proof (cases "?line = []")
    case True
    then have "editor_submit (editor_of s) = editor_close (editor_of s)"
      by (simp add: editor_submit_def editor_of_def remember_def)
    with cl have "acts_as editor_submit s ?s1" by (simp add: acts_as_def)
    with eq True show ?thesis by (metis close_silent(1,2) nothing_of_empty prod.collapse)
  next
    case False
    note sl = submit_line_acts[OF ok len c_str_no_nul False, of E, folded server_messages_def console_packets_def]
    have "editor_submit e = (editor_close e)\<lparr>le_history := remember (le_text e) (le_history (editor_close e))\<rparr>" for e
      by (simp add: editor_submit_def editor_close_def)
    with cl sl obtain s2 out where "submit_line E ?line ?s1 = Some (s2, out)" "acts_as editor_submit s s2"
      "messages_of out = server_messages E ?line" "rcon_packets_of out = console_packets E ?line"
      by (auto simp: acts_as_def editor_of_def)
    with eq False show ?thesis by simp
  qed
qed

section \<open>Messages\<close>

lemma step_acts:
  assumes "chat_input_ok s"
  shows "\<exists>s2 out b. chat_input_wndproc_compat E m s = Some (s2, out, b) \<and> acts_as (editor_step E m) s s2 \<and>
    messages_of out = server_messages E (handed_over E m (editor_of s)) \<and>
    rcon_packets_of out = console_packets E (handed_over E m (editor_of s))"
proof -
  have act: "le_open (editor_of s) = ci_active s" by (simp add: editor_of_def)
  note cl = close_acts[OF assms, of E] and op = open_acts[OF assms, of E]
  obtain a where a: "\<And>ch. ch \<noteq> CHR 0x00 \<Longrightarrow> chat_input_append_char_compat ch s = Some (a ch) \<and> acts_as (editor_type ch) s (a ch)"
    using append_acts[OF assms] by metis
  obtain bs where bs: "chat_input_backspace_compat s = Some bs" "acts_as editor_delete s bs" using backspace_acts[OF assms] by blast
  obtain sb out where sb: "chat_input_submit_compat E s = Some (sb, out)" "acts_as editor_submit s sb"
    "messages_of out = server_messages E (le_text (editor_of s))" "rcon_packets_of out = console_packets E (le_text (editor_of s))"
    using submit_acts[OF assms, of E] by (auto simp: editor_of_def)
  have printable: "char_of w \<noteq> CHR 0x00" if "32 \<le> w" "w \<le> 126" for w :: nat
  proof
    assume "char_of w = CHR 0x00"
    then have "of_char (char_of w :: char) = (0 :: nat)" by simp
    with that show False by simp
  qed
  consider "\<not> input_enabled E \<or> taken_first E m" | (menu) "input_enabled E" "\<not> taken_first E m" "gta_menu_active E" | (elsewhere) "input_enabled E" "\<not> taken_first E m"
      "\<not> gta_menu_active E" "taken_elsewhere E m \<noteq> None" | (here) "reaches E m"
    using reaches_def by metis
  then show ?thesis
  proof cases
    case 1
    then show ?thesis using assms
      by (auto simp: chat_input_wndproc_compat_def Let_def editor_step_def reaches_def handed_over_def acts_as_def)
  next
    case menu
    then show ?thesis using assms cl act
      by (simp add: chat_input_wndproc_compat_def Let_def editor_step_def reaches_def handed_over_def split_def acts_as_def) blast
  next
    case elsewhere
    then show ?thesis using assms
      by (auto simp: chat_input_wndproc_compat_def Let_def editor_step_def reaches_def handed_over_def acts_as_def)
  next
    case here
    then have r: "input_enabled E" "\<not> taken_first E m" "\<not> gta_menu_active E" "taken_elsewhere E m = None" by (auto simp: reaches_def)
    show ?thesis
    proof (cases "ci_active s")
      case False
      then show ?thesis using r here op assms act
        by (cases m) (auto simp: chat_input_wndproc_compat_def Let_def editor_step_def handed_over_def acts_as_def split_def)
    next
      case True
      obtain u where u: "chat_input_recall_up_compat s = Some u" "acts_as editor_older s u" using recall_up_acts[OF assms True] by blast
      obtain dn where dn: "chat_input_recall_down_compat s = Some dn" "acts_as editor_newer s dn" using recall_down_acts[OF assms True] by blast
      show ?thesis
      proof (cases "submits m")
        case sub: True
        have "chat_input_wndproc_compat E m s = Some (sb, out, True)"
          using sub True r sb(1) by (auto simp: chat_input_wndproc_compat_def Let_def submits_def vk_defs VK_F6_def)
        moreover have "editor_step E m e = editor_submit e" if "le_open e" for e
          using that here r(3) sub by (simp add: editor_step_def)
        ultimately show ?thesis using sb here sub True act by (simp add: acts_as_def handed_over_def) blast
      next
        case False
        have h: "handed_over E m (editor_of s) = []" using False by (simp add: handed_over_def)
        have st: "editor_step E m (editor_of s) = (case m of
            WM_CHAR w \<Rightarrow> if w = 27 then editor_close (editor_of s)
                     else if w = 8 then editor_delete (editor_of s)
                     else if 32 \<le> w \<and> w \<le> 126 then editor_type (char_of w) (editor_of s) else editor_of s
          | WM_KEYUP k \<Rightarrow> if k = VK_F6 \<or> k = VK_ESCAPE then editor_close (editor_of s) else editor_of s
          | WM_KEYDOWN k \<Rightarrow> if k = VK_UP then editor_older (editor_of s) else if k = VK_DOWN then editor_newer (editor_of s) else editor_of s
          | _ \<Rightarrow> editor_of s)"
          using here r(3) act True False by (simp add: editor_step_def)
        show ?thesis unfolding h nothing_of_empty acts_as_def st
          using True False r cl bs u dn a printable assms
          by (cases m) (auto simp: chat_input_wndproc_compat_def Let_def submits_def acts_as_def split_def vk_defs VK_F6_def)
      qed
    qed
  qed
qed

fun editor_run :: "(chat_env \<times> window_message) list \<Rightarrow> line_editor \<Rightarrow> line_editor \<times> out_rpc list \<times> u8 list list" where
  "editor_run [] e = (e, [], [])"
| "editor_run ((E, m) # ms) e =
     (case editor_run ms (editor_step E m e) of (e2, sent, console) \<Rightarrow>
       (e2, server_messages E (handed_over E m e) @ sent, console_packets E (handed_over E m e) @ console))"

lemma run_acts:
  assumes "chat_input_ok s"
  shows "\<exists>s2 out. chat_input_run ms s = Some (s2, out) \<and> chat_input_ok s2 \<and>
    editor_run ms (editor_of s) = (editor_of s2, messages_of out, rcon_packets_of out)"
  using assms
proof (induction ms arbitrary: s)
  case Nil
  then show ?case by simp
next
  case (Cons p ms)
  obtain E m where p: "p = (E, m)" by (cases p)
  obtain s1 o1 b where s1: "chat_input_wndproc_compat E m s = Some (s1, o1, b)" "acts_as (editor_step E m) s s1"
    "messages_of o1 = server_messages E (handed_over E m (editor_of s))"
    "rcon_packets_of o1 = console_packets E (handed_over E m (editor_of s))"
    using step_acts[OF Cons.prems] by blast
  obtain s2 o2 where s2: "chat_input_run ms s1 = Some (s2, o2)" "chat_input_ok s2"
    "editor_run ms (editor_of s1) = (editor_of s2, messages_of o2, rcon_packets_of o2)"
    using Cons.IH[OF acts_as_ok[OF s1(2)]] by blast
  show ?case using s1 s2 unfolding p by (simp add: acts_as_def)
qed

section \<open>Properties\<close>

text \<open>The state after the attach of the library: \<^verbatim>\<open>memset\<close> and a few settings.\<close>

definition SAMP_CHAT_COMPAT_DEFAULT_PAGE_SIZE :: int where "SAMP_CHAT_COMPAT_DEFAULT_PAGE_SIZE = 10"

definition attached :: chat_input where
  "attached =
     \<lparr>ci_active = False, ci_release_frames = 0, ci_buffer = replicate 129 CHR 0x00, ci_len = 0,
      ci_history = replicate 10 [], ci_history_count = 0, ci_history_index = 0, ci_saved = [],
      ci_quit_after_frame = False, ci_quit_tick = 0, ci_quit_exit_started = False,
      ci_send_count = 0, ci_command_send_count = 0, ci_send_failures = 0,
      ci_settings =
        \<lparr>timestamp_enabled = False, page_size = SAMP_CHAT_COMPAT_DEFAULT_PAGE_SIZE, font_adjustment = 0, audio_messages = True,
         url_messages = False, headmove_enabled = True, name_tag_status = True, fps_limit = 0, debug_level = 0,
         vehicle_labels = False\<rparr>\<rparr>"

lemma attached_ok: "chat_input_ok attached"
  by (simp add: attached_def chat_input_ok_def c_str_def history_ok_def numeral_eq_Suc)

definition busy_server :: "chat_env" where
  "busy_server =
     \<lparr>client_exists = True, client_connected = True, client_own = True, message_sent = (\<lambda>_. True), rcon_sent = (\<lambda>_. True),
      other_mouse_owner = False, input_enabled = True, gta_menu_active = False, taken_first = (\<lambda>_. False),
      taken_elsewhere = (\<lambda>_. None), tick = 5000\<rparr>"

lemma busy_server_reaches: "reaches busy_server m"
  by (simp add: reaches_def busy_server_def)

text \<open>C8: the chat line behaves as a line editor with a history. For any messages, in any environments (connected or not, a
  dialog or the pause menu open or not), starting from a well-formed state, no access leaves the arrays, the state stays
  well formed, and the text, the ten remembered lines, the place among them, the RPCs and the remote console packets are
  those of the editor.
\<close>

theorem chat_line_refines_editor:
  "chat_input_ok s \<Longrightarrow>
   \<exists>s2 out. chat_input_run ms s = Some (s2, out) \<and> chat_input_ok s2 \<and>
     editor_run ms (editor_of s) = (editor_of s2, messages_of out, rcon_packets_of out)"
  by (rule run_acts)

definition keys :: "nat list \<Rightarrow> (chat_env \<times> window_message) list" where
  "keys ws = map (\<lambda>w. (busy_server, WM_CHAR w)) ws"

theorem chat_line_refines_editor_witness:
  "\<exists>s2 out. chat_input_run (keys [0x74, 104, 105, 8, 111, 13] @ [(busy_server, WM_KEYUP VK_F6), (busy_server, WM_KEYDOWN VK_UP)]) attached =
       Some (s2, out) \<and> chat_input_ok s2 \<and>
     editor_of s2 = \<lparr>le_open = True, le_text = ''ho'', le_history = [''ho''], le_place = Some 0, le_saved = []\<rparr> \<and>
     messages_of out = [Chat ''ho''] \<and> rcon_packets_of out = []"
proof -
  let ?ms = "keys [0x74, 104, 105, 8, 111, 13] @ [(busy_server, WM_KEYUP VK_F6), (busy_server, WM_KEYDOWN VK_UP)]"
  have "editor_run ?ms (editor_of attached) =
      (\<lparr>le_open = True, le_text = ''ho'', le_history = [''ho''], le_place = Some 0, le_saved = []\<rparr>, [Chat ''ho''], [])"
    by code_simp
  with chat_line_refines_editor[OF attached_ok, of ?ms] show ?thesis by (metis Pair_inject)
qed

text \<open>Nothing of a console line goes out as a message.\<close>

lemma server_messages_cases:
  "server_messages E line = [] \<or> (\<exists>m. server_messages E line = [m] \<and> server_gets line = Some m)"
  by (cases "server_gets line") (simp_all add: server_messages_def)

lemma server_gets_private: "server_gets line = Some m \<Longrightarrow> (m = Chat line \<or> m = ServerCommand line) \<and> \<not> is_command ''rcon'' line"
  by (cases "line = [] \<or> is_command ''rcon'' line \<or> handled_locally line"; cases "hd line = CHR ''/''")
    (auto simp: server_gets_def)

lemma server_messages_private:
  assumes "m \<in> set (server_messages E line)"
  shows "(m = Chat line \<or> m = ServerCommand line) \<and> \<not> is_command ''rcon'' line"
  using assms server_messages_cases[of E line] server_gets_private[of line m] by auto

lemma editor_run_private:
  "editor_run ms e = (e2, sent, console) \<Longrightarrow>
   (\<forall>m\<in>set sent. \<exists>t. (m = Chat t \<or> m = ServerCommand t) \<and> \<not> is_command ''rcon'' t) \<and>
   (\<forall>p\<in>set console. \<exists>a. p = rcon_packet a \<and> length a \<le> 128)"
proof (induction ms e arbitrary: e2 sent console rule: editor_run.induct)
  case (1 e)
  then show ?case by simp
next
  case (2 E m ms e)
  obtain e3 s3 c3 where r: "editor_run ms (editor_step E m e) = (e3, s3, c3)" using prod_cases3 by blast
  have eq: "sent = server_messages E (handed_over E m e) @ s3" "console = console_packets E (handed_over E m e) @ c3"
    using "2.prems" r by auto
  note ih = "2.IH"[OF r]
  have c: "\<exists>a. p = rcon_packet a \<and> length a \<le> 128" if "p \<in> set (console_packets E (handed_over E m e))" for p
    using that by (auto simp: console_packets_def split: if_splits)
  show ?case unfolding eq set_append using ih c server_messages_private[of _ E "handed_over E m e"] by blast
qed

text \<open>C9: the remote console stays private. Whatever the player does, a line of the command \<^verbatim>\<open>rcon\<close>, which carries the
  password, neither enters the history that the arrow keys show nor leaves as chat or as a server command; the only packets
  that carry it are console packets, of at most 128 characters.
\<close>

theorem rcon_line_private:
  assumes "chat_input_ok s" "chat_input_run ms s = Some (s2, out)"
  shows "(\<forall>t\<in>set (take (nat (ci_history_count s2)) (ci_history s2)). \<not> is_command ''rcon'' t) \<and>
    (\<forall>m\<in>set (messages_of out). \<exists>t. (m = Chat t \<or> m = ServerCommand t) \<and> \<not> is_command ''rcon'' t) \<and>
    (\<forall>p\<in>set (rcon_packets_of out). \<exists>a. p = rcon_packet a \<and> length a \<le> 128)"
proof -
  have r: "chat_input_ok s2" "editor_run ms (editor_of s) = (editor_of s2, messages_of out, rcon_packets_of out)"
    using run_acts[OF assms(1), of ms] assms(2) by auto
  have "history_ok (take (nat (ci_history_count s2)) (ci_history s2))" by (rule chat_input_okD(10)[OF r(1)])
  then show ?thesis using editor_run_private[OF r(2)] unfolding history_ok_def by blast
qed

definition rcon_keys :: "(chat_env \<times> window_message) list" where
  "rcon_keys = keys (0x74 # map of_char '' /RCON login x'' @ [13])"

lemma rcon_keys_run:
  "editor_run rcon_keys (editor_of attached) =
     (editor_of attached, [], [[201, 7, 0, 0, 0, 108, 111, 103, 105, 110, 32, 120]])"
  by code_simp

theorem rcon_line_private_witness:
  "\<exists>s2 out. chat_input_run rcon_keys attached = Some (s2, out) \<and>
     rcon_packets_of out = [[201, 7, 0, 0, 0, 108, 111, 103, 105, 110, 32, 120]] \<and>
     (\<forall>t\<in>set (take (nat (ci_history_count s2)) (ci_history s2)). \<not> is_command ''rcon'' t) \<and>
     (\<forall>m\<in>set (messages_of out). \<exists>t. (m = Chat t \<or> m = ServerCommand t) \<and> \<not> is_command ''rcon'' t)"
proof -
  obtain s2 out where r: "chat_input_run rcon_keys attached = Some (s2, out)"
    "editor_run rcon_keys (editor_of attached) = (editor_of s2, messages_of out, rcon_packets_of out)"
    using run_acts[OF attached_ok, of rcon_keys] by blast
  then have "rcon_packets_of out = [[201, 7, 0, 0, 0, 108, 111, 103, 105, 110, 32, 120]]" using rcon_keys_run by simp
  with rcon_line_private[OF attached_ok r(1)] r(1) show ?thesis by blast
qed

text \<open>Typing a text and the messages of the return key.\<close>

definition typing :: "chat_env \<Rightarrow> string \<Rightarrow> (chat_env \<times> window_message) list" where
  "typing E t = map (\<lambda>c. (E, WM_CHAR (of_char c))) t"

definition return_key :: "chat_env \<Rightarrow> (chat_env \<times> window_message) list" where
  "return_key E = [(E, WM_KEYDOWN VK_RETURN), (E, WM_CHAR 13), (E, WM_KEYUP VK_RETURN)]"

lemma typing_run:
  assumes "\<And>m. reaches E m" "le_open e" "le_place e = None" "length (le_text e) + length t \<le> 128"
    "\<And>c. c \<in> set t \<Longrightarrow> 32 \<le> code c \<and> code c \<le> 126"
  shows "editor_run (typing E t @ ms) e = editor_run ms (e\<lparr>le_text := le_text e @ t\<rparr>)"
  using assms(2-5)
proof (induction t arbitrary: e)
  case Nil
  then show ?case by (simp add: typing_def)
next
  case (Cons c t)
  have c: "32 \<le> (of_char c :: nat)" "(of_char c :: nat) \<le> 126" using Cons.prems(4)[of c] by (simp_all add: code_def)
  then have ns: "\<not> submits (WM_CHAR (of_char c))" by (auto simp: submits_def)
  have menu: "\<not> gta_menu_active E" using assms(1)[of WM_OTHER] by (simp add: reaches_def)
  have st: "editor_step E (WM_CHAR (of_char c)) e = e\<lparr>le_text := le_text e @ [c]\<rparr>"
    using c ns Cons.prems(1-3) assms(1) menu by (simp add: editor_step_def editor_type_def)
  have "editor_run (typing E t @ ms) (e\<lparr>le_text := le_text e @ [c]\<rparr>) = editor_run ms (e\<lparr>le_text := le_text e @ [c] @ t\<rparr>)"
    using Cons.IH[of "e\<lparr>le_text := le_text e @ [c]\<rparr>"] Cons.prems by simp
  moreover have "handed_over E (WM_CHAR (of_char c)) e = []" using ns by (simp add: handed_over_def)
  ultimately show ?case using st by (simp add: typing_def)
qed

lemma return_run:
  assumes "\<And>m. reaches E m" "le_open e"
  shows "editor_run (return_key E) e = (editor_submit e, server_messages E (le_text e), console_packets E (le_text e))"
proof -
  have menu: "\<not> gta_menu_active E" using assms(1)[of WM_OTHER] by (simp add: reaches_def)
  have cl: "\<not> le_open (editor_submit e)" by (simp add: editor_submit_def editor_close_def)
  show ?thesis using assms menu cl
    by (simp add: return_key_def editor_step_def handed_over_def submits_def vk_defs VK_F6_def)
qed

lemma ordinary_line:
  assumes "t \<noteq> []" "hd t \<notin> {CHR ''/'', CHR '' '', CHR 0x09}"
  shows "server_gets t = Some (Chat t)" "\<not> is_command ''rcon'' t"
proof -
  obtain c u where t: "t = c # u" using assms(1) by (cases t) auto
  then have c: "c \<noteq> CHR ''/''" "\<not> blank c" using assms(2) by (auto simp: blank_def)
  then have n: "\<not> is_command x t" for x by (simp add: is_command_def chat_input_match_local_command_compat_def t)
  then show "\<not> is_command ''rcon'' t" .
  have "\<not> handled_locally t" using n c
    by (simp add: handled_locally_def chat_input_is_local_quit_command_compat_def chat_input_is_local_dl_command_compat_def t
      split: list.splits)
  then show "server_gets t = Some (Chat t)" using n c by (simp add: server_gets_def t)
qed

text \<open>C10: what is typed is sent, once and whole. While the line is closed and nothing else takes the keys (the input is
  enabled, and no dialog, menu, text draw, editor, score board, death window or pause menu is up), the key \<^verbatim>\<open>t\<close>, at most 128
  printable characters and the three messages of the return key send exactly what the text stands for and nothing more: one
  server command for a slash command the client does not answer itself, one chat message for other text, one console packet
  for \<^verbatim>\<open>/rcon\<close> with at most 128 characters behind it (if the client is the one the session runs on), and nothing for an empty text, for a command the client answers itself or without a
  connection. A text of a connected client that is not empty and begins with no slash and no blank is sent as the one chat
  message that is the text itself, and is the newest line of the history then. In every case the line is closed and empty
  again.
\<close>

theorem typed_line_sent_once:
  assumes "chat_input_ok s" "\<not> ci_active s" "\<forall>m. reaches E m" "length t \<le> 128" "\<forall>c\<in>set t. 32 \<le> code c \<and> code c \<le> 126"
  shows "\<exists>s2 out. chat_input_run ((E, WM_CHAR 0x74) # typing E t @ return_key E) s = Some (s2, out) \<and>
    messages_of out = server_messages E t \<and> rcon_packets_of out = console_packets E t \<and>
    (client_exists E \<and> client_connected E \<and> t \<noteq> [] \<and> hd t \<notin> {CHR ''/'', CHR '' '', CHR 0x09} \<longrightarrow>
       messages_of out = [Chat t] \<and> rcon_packets_of out = [] \<and>
       0 < ci_history_count s2 \<and> ci_history s2 ! 0 = t) \<and>
    \<not> ci_active s2 \<and> c_str (ci_buffer s2) = []"
proof -
  let ?ms = "(E, WM_CHAR 0x74) # typing E t @ return_key E"
  obtain s2 out where r: "chat_input_run ?ms s = Some (s2, out)" "chat_input_ok s2"
    "editor_run ?ms (editor_of s) = (editor_of s2, messages_of out, rcon_packets_of out)"
    using run_acts[OF assms(1), of ?ms] by blast
  have menu: "\<not> gta_menu_active E" using spec[OF assms(3), of WM_OTHER] by (simp add: reaches_def)
  let ?e = "editor_open (editor_of s)"
  have op: "editor_step E (WM_CHAR 0x74) (editor_of s) = ?e" "handed_over E (WM_CHAR 0x74) (editor_of s) = []"
    using assms(2,3) menu by (simp_all add: editor_step_def editor_of_def handed_over_def)
  have "editor_run (typing E t @ return_key E) ?e = editor_run (return_key E) (?e\<lparr>le_text := t\<rparr>)"
    using typing_run[of E ?e t "return_key E"] assms(3-5) by (simp add: editor_open_def)
  also have "\<dots> = (editor_submit (?e\<lparr>le_text := t\<rparr>), server_messages E t, console_packets E t)"
    using return_run[of E "?e\<lparr>le_text := t\<rparr>"] assms(3) by (simp add: editor_open_def)
  finally have e: "editor_of s2 = editor_submit (?e\<lparr>le_text := t\<rparr>)" "messages_of out = server_messages E t"
    "rcon_packets_of out = console_packets E t" using r(3) op by simp_all
  have fin: "\<not> ci_active s2" "c_str (ci_buffer s2) = []"
    using arg_cong[OF e(1), of le_open] arg_cong[OF e(1), of le_text]
    by (simp_all add: editor_of_def editor_submit_def editor_close_def)
  have h: "take (nat (ci_history_count s2)) (ci_history s2) = remember t (le_history (editor_of s))"
    using arg_cong[OF e(1), of le_history] by (simp add: editor_of_def editor_submit_def editor_close_def editor_open_def)
  have ord: "messages_of out = [Chat t] \<and> rcon_packets_of out = [] \<and> 0 < ci_history_count s2 \<and> ci_history s2 ! 0 = t"
    if "client_exists E \<and> client_connected E \<and> t \<noteq> [] \<and> hd t \<notin> {CHR ''/'', CHR '' '', CHR 0x09}"
  proof -
    note o = ordinary_line[of t]
    have "remember t (le_history (editor_of s)) \<noteq> [] \<and> hd (remember t (le_history (editor_of s))) = t"
      using o that by (auto simp: remember_def)
    then have "0 < ci_history_count s2 \<and> ci_history s2 ! 0 = t" unfolding h[symmetric]
      by (auto simp: hd_conv_nth)
    then show ?thesis using o that e by (auto simp: server_messages_def console_packets_def)
  qed
  show ?thesis using r(1) e fin ord by blast
qed

theorem typed_line_sent_once_witness:
  "\<exists>s2 out. chat_input_run ((busy_server, WM_CHAR 0x74) # typing busy_server ''hello /rcon'' @ return_key busy_server) attached =
       Some (s2, out) \<and> messages_of out = [Chat ''hello /rcon''] \<and> \<not> ci_active s2"
  using typed_line_sent_once[of attached busy_server "''hello /rcon''"] attached_ok busy_server_reaches
  by (auto simp: attached_def code_def busy_server_def)

text \<open>The exit after \<^verbatim>\<open>quit\<close> comes once, a second late, and the clock may wrap in between.\<close>

lemma quit_exits_once:
  fixes E :: chat_env and s :: chat_input
  assumes "\<not> ci_quit_exit_started s"
  defines "q \<equiv> fst (chat_input_request_quit_compat E s)"
  shows "now - tick E \<le> 1000 \<Longrightarrow> chat_input_process_quit_after_frame_compat now q = (q, [])"
    "now - tick E > 1000 \<Longrightarrow> snd (chat_input_process_quit_after_frame_compat now q) = [NetworkShutdown, ExitProcess 0]"
    "now - tick E > 1000 \<Longrightarrow>
       snd (chat_input_process_quit_after_frame_compat later (fst (chat_input_process_quit_after_frame_compat now q))) = []"
  using assms(1) unfolding q_def
  by (auto simp: chat_input_process_quit_after_frame_compat_def chat_input_request_quit_compat_def
    SAMP_CHAT_QUIT_AFTER_FRAME_MS_def Let_def)

text \<open>The drawn line shows what the editor holds, and fits the buffer it is written into.\<close>

lemma drawn_line:
  "ci_active s \<Longrightarrow> length (le_text (editor_of s)) + 4 \<le> n \<Longrightarrow>
   \<exists>caret. chat_input_format_draw_line_compat now n s = ''> '' @ le_text (editor_of s) @ [caret]"
  "length (chat_input_format_draw_line_compat now n s) \<le> n - 1"
  by (auto simp: chat_input_format_draw_line_compat_def editor_of_def)

end
