(* ===== verification/DialogBox.thy ===== *)
theory DialogBox
  imports ChatInput
begin

text \<open>
  The dialog box of \<^verbatim>\<open>src/runtime_bridge.c\<close>: the copy of the dialog the network layer holds, its lines, its selection and
  scroll, its input field, the mouse, and the answer that goes back to the network layer, whose state is the session of
  RpcSession. The joint runs interleave the messages of the window procedure with the frames of the client and the
  dialogs of the server.
\<close>

section \<open>State\<close>

definition SAMP_DIALOG_COMPAT_MAX_VISIBLE_ITEMS :: int where "SAMP_DIALOG_COMPAT_MAX_VISIBLE_ITEMS = 8"
definition SAMP_RAKNET_DIALOG_INPUT_BYTES :: nat where "SAMP_RAKNET_DIALOG_INPUT_BYTES = 256"
definition VK_BACK :: nat where "VK_BACK = 0x08"
definition VK_PRIOR :: nat where "VK_PRIOR = 0x21"
definition VK_NEXT :: nat where "VK_NEXT = 0x22"

lemmas dialog_box_consts = SAMP_DIALOG_COMPAT_MAX_VISIBLE_ITEMS_def SAMP_RAKNET_DIALOG_INPUT_BYTES_def
lemmas dialog_keys = vk_defs VK_BACK_def VK_PRIOR_def VK_NEXT_def

record dialog_box =
  db_active :: bool
  db_id :: int
  db_style :: int
  db_selected :: int
  db_scroll :: int
  db_title :: string
  db_info :: string
  db_button1 :: string
  db_button2 :: string
  db_input :: string
  db_input_len :: int
  db_response_count :: int
  db_mouse_mode :: bool
  db_mouse_down :: bool
  db_mouse_x :: int
  db_mouse_y :: int
  db_mouse_raw_x :: int
  db_mouse_raw_y :: int

text \<open>The size of the window, the cursor over it, other owners of the mouse, the client.\<close>

record ui_env =
  viewport_w :: int
  viewport_h :: int
  cursor_at :: "(int \<times> int) option"
  mouse_kept :: bool
  net_client :: "nat option"

section \<open>Lines\<close>

definition dialog_compat_uses_list :: "int \<Rightarrow> bool" where
  "dialog_compat_uses_list style \<longleftrightarrow> style = 2 \<or> style = 4 \<or> style = 5"

definition dialog_compat_uses_input :: "int \<Rightarrow> bool" where
  "dialog_compat_uses_input style \<longleftrightarrow> style = 1 \<or> style = 3"

definition dialog_compat_has_header :: "int \<Rightarrow> bool" where
  "dialog_compat_has_header style \<longleftrightarrow> style = 5"

lemmas dialog_styles = dialog_compat_uses_list_def dialog_compat_uses_input_def dialog_compat_has_header_def

definition line_end :: "char \<Rightarrow> bool" where
  "line_end c \<longleftrightarrow> c = CHR 0x0A \<or> c = CHR 0x0D"

definition this_line :: "string \<Rightarrow> string" where
  "this_line cursor = takeWhile (\<lambda>c. \<not> line_end c) cursor"

definition next_line :: "string \<Rightarrow> string" where
  "next_line cursor = dropWhile line_end (dropWhile (\<lambda>c. \<not> line_end c) cursor)"

lemma next_line_shorter: "cursor \<noteq> [] \<Longrightarrow> length (next_line cursor) < length cursor"
proof (cases cursor)
  case (Cons c t)
  have "length (next_line cursor) \<le> length (dropWhile (\<lambda>c. \<not> line_end c) cursor)" by (simp add: next_line_def length_dropWhile_le)
  also have "\<dots> \<le> length cursor" by (rule length_dropWhile_le)
  moreover have "length (next_line cursor) \<le> length t"
    using length_dropWhile_le[of line_end t] length_dropWhile_le[of line_end "dropWhile (\<lambda>c. \<not> line_end c) t"]
      length_dropWhile_le[of "\<lambda>c. \<not> line_end c" t]
    by (cases "line_end c") (auto simp: next_line_def Cons)
  ultimately show ?thesis by (simp add: Cons)
qed simp

text \<open>The loop of \<^verbatim>\<open>dialog_compat_get_line\<close> that finds a line, and that of \<^verbatim>\<open>dialog_compat_line_count\<close>.\<close>

function find_line :: "nat \<Rightarrow> string \<Rightarrow> string option" where
  "find_line index cursor =
     (if cursor = [] then None
      else if index = 0 then Some (this_line cursor)
      else find_line (index - 1) (next_line cursor))"
  by pat_completeness auto
termination by (relation "measure (\<lambda>(_, cursor). length cursor)") (auto simp: next_line_shorter)

function count_lines :: "string \<Rightarrow> nat" where
  "count_lines cursor = (if cursor = [] then 0 else 1 + count_lines (next_line cursor))"
  by pat_completeness auto
termination by (relation "measure length") (auto simp: next_line_shorter)

declare find_line.simps [simp del] count_lines.simps [simp del]

definition tab_to_space :: "char \<Rightarrow> char" where
  "tab_to_space c = (if c = CHR 0x09 then CHR '' '' else c)"

definition dialog_compat_get_line :: "string \<Rightarrow> int \<Rightarrow> nat \<Rightarrow> string option mem" where
  "dialog_compat_get_line t index out_size =
     (if out_size = 0 \<or> index < 0 then Some None
      else case find_line (nat index) t of
        None \<Rightarrow> Some None
      | Some line \<Rightarrow> do {
          buf \<leftarrow> chat_compat_strip_samp_color_tags (chat_compat_filter_invalid_chars (take (out_size - 1) line) @ [CHR 0x00]);
          Some (Some (map tab_to_space (c_str buf))) })"

definition dialog_compat_line_count :: "string \<Rightarrow> int" where
  "dialog_compat_line_count t = int (count_lines t)"

definition dialog_compat_item_count :: "dialog_box \<Rightarrow> int" where
  "dialog_compat_item_count b =
     (let count = dialog_compat_line_count (db_info b);
          count = (if dialog_compat_has_header (db_style b) \<and> count > 0 then count - 1 else count)
      in if count < 0 then 0 else count)"

section \<open>Mouse mode and layout\<close>

definition half :: "int \<Rightarrow> int" where
  "half v = (if v < 0 then - ((- v) div 2) else v div 2)"

definition dialog_compat_set_mouse_mode :: "ui_env \<Rightarrow> bool \<Rightarrow> dialog_box \<Rightarrow> dialog_box" where
  "dialog_compat_set_mouse_mode E enabled b =
     (if enabled
      then if db_mouse_mode b then b
           else let (x, y) = (case cursor_at E of Some p \<Rightarrow> p | None \<Rightarrow> (half (viewport_w E), half (viewport_h E)))
                in b\<lparr>db_mouse_mode := True, db_mouse_x := x, db_mouse_y := y, db_mouse_raw_x := x, db_mouse_raw_y := y\<rparr>
      else if db_mouse_mode b then b\<lparr>db_mouse_mode := False, db_mouse_down := False\<rparr> else b)"

definition dialog_compat_close :: "ui_env \<Rightarrow> dialog_box \<Rightarrow> dialog_box" where
  "dialog_compat_close E b =
     (let b = (if mouse_kept E then b else dialog_compat_set_mouse_mode E False b)
      in b\<lparr>db_active := False, db_input_len := 0, db_input := (db_input b)[0 := CHR 0x00]\<rparr>)"

record dialog_layout =
  panel_x :: int
  panel_y :: int
  panel_w :: int
  panel_h :: int
  body_x :: int
  body_y :: int
  body_w :: int
  body_h :: int
  button1_x :: int
  button1_y :: int
  button1_w :: int
  button1_h :: int
  button2_x :: int
  button2_y :: int
  button2_w :: int
  button2_h :: int

definition dialog_compat_layout :: "ui_env \<Rightarrow> dialog_box \<Rightarrow> dialog_layout" where
  "dialog_compat_layout E b =
     (let w = (if viewport_w E < 520 + 40 then viewport_w E - 40 else 520);
          h = (if viewport_h E < 292 + 40 then viewport_h E - 40 else 292);
          w = (if w < 320 then 320 else w);
          h = (if h < 220 then 220 else h);
          px = half (viewport_w E - w);
          py = half (viewport_h E - h);
          two = (db_button2 b \<noteq> [])
      in \<lparr>panel_x = px, panel_y = py, panel_w = w, panel_h = h,
          body_x = px + 14, body_y = py + 42, body_w = w - 28, body_h = h - 92,
          button1_x = (if two then px + w - 102 else px + half (w - 96)), button1_y = py + h - 42,
          button1_w = (if two then 88 else 96), button1_h = 28,
          button2_x = (if two then px + w - 204 else 0), button2_y = py + h - 42,
          button2_w = (if two then 88 else 0), button2_h = 28\<rparr>)"

definition dialog_compat_point_in_rect :: "int \<Rightarrow> int \<Rightarrow> int \<Rightarrow> int \<Rightarrow> int \<Rightarrow> int \<Rightarrow> bool" where
  "dialog_compat_point_in_rect x y rx ry rw rh \<longleftrightarrow> rw > 0 \<and> rh > 0 \<and> x \<ge> rx \<and> y \<ge> ry \<and> x < rx + rw \<and> y < ry + rh"

text \<open>The cursor the dialog draws follows the movements of the mouse, not its jumps to the centre.\<close>

definition dialog_compat_record_mouse :: "ui_env \<Rightarrow> int \<Rightarrow> int \<Rightarrow> dialog_box \<Rightarrow> dialog_box" where
  "dialog_compat_record_mouse E raw_x raw_y b =
     (let cx = half (viewport_w E); cy = half (viewport_h E);
          near = (\<lambda>x y. \<bar>x - cx\<bar> \<le> 3 \<and> \<bar>y - cy\<bar> \<le> 3);
          dx = raw_x - db_mouse_raw_x b; dy = raw_y - db_mouse_raw_y b;
          was_near = near (db_mouse_raw_x b) (db_mouse_raw_y b);
          clamp = (\<lambda>n v. if n > 0 then (if v < 0 then 0 else if v \<ge> n then n - 1 else v) else v);
          b = b\<lparr>db_mouse_raw_x := raw_x, db_mouse_raw_y := raw_y\<rparr>
      in if near raw_x raw_y \<and> \<not> was_near then b
         else if dx \<noteq> 0 \<or> dy \<noteq> 0
         then b\<lparr>db_mouse_x := clamp (viewport_w E) (db_mouse_x b + dx), db_mouse_y := clamp (viewport_h E) (db_mouse_y b + dy)\<rparr>
         else b)"

section \<open>Selection and input\<close>

definition dialog_compat_normalize_selection :: "dialog_box \<Rightarrow> dialog_box" where
  "dialog_compat_normalize_selection b =
     (let count = dialog_compat_item_count b; selected = db_selected b; scroll = db_scroll b
      in if count \<le> 0 then b\<lparr>db_selected := - 1, db_scroll := 0\<rparr>
         else let selected = (if selected < 0 then 0 else selected);
                  selected = (if selected \<ge> count then count - 1 else selected);
                  scroll = (if scroll < 0 then 0 else scroll);
                  scroll = (if selected < scroll then selected else scroll);
                  scroll = (if selected \<ge> scroll + SAMP_DIALOG_COMPAT_MAX_VISIBLE_ITEMS
                            then selected - SAMP_DIALOG_COMPAT_MAX_VISIBLE_ITEMS + 1 else scroll)
              in b\<lparr>db_selected := selected, db_scroll := scroll\<rparr>)"

definition dialog_compat_move_selection :: "int \<Rightarrow> dialog_box \<Rightarrow> dialog_box" where
  "dialog_compat_move_selection delta b =
     (let count = dialog_compat_item_count b
      in if count \<le> 0 then b
         else let selected = db_selected b + delta;
                  selected = (if selected < 0 then 0 else selected);
                  selected = (if selected \<ge> count then count - 1 else selected)
              in dialog_compat_normalize_selection (b\<lparr>db_selected := selected\<rparr>))"

definition dialog_compat_append_input_char :: "char \<Rightarrow> dialog_box \<Rightarrow> dialog_box mem" where
  "dialog_compat_append_input_char ch b =
     (let len = (if db_input_len b < 0 then 0 else db_input_len b)
      in if len \<ge> int (SAMP_RAKNET_DIALOG_INPUT_BYTES - 1) then Some b
         else if nat len + 1 < length (db_input b)
         then Some (b\<lparr>db_input := (db_input b)[nat len := ch, nat len + 1 := CHR 0x00], db_input_len := len + 1\<rparr>)
         else None)"

definition dialog_compat_backspace_input :: "dialog_box \<Rightarrow> dialog_box mem" where
  "dialog_compat_backspace_input b =
     (if db_input_len b \<le> 0 then Some b
      else let len = db_input_len b - 1
           in if nat len < length (db_input b)
              then Some (b\<lparr>db_input := (db_input b)[nat len := CHR 0x00], db_input_len := len\<rparr>)
              else None)"

section \<open>The answer\<close>

text \<open>The box and the session it answers to.\<close>

definition dialog_compat_submit :: "ui_env \<Rightarrow> u8 \<Rightarrow> dialog_box \<times> session \<Rightarrow> (dialog_box \<times> session) mem" where
  "dialog_compat_submit E button bs = (case bs of (b, s) \<Rightarrow>
     let answer = (\<lambda>listitem input.
           case samp_raknet_client_queue_dialog_response (net_client E) (of_int (db_id b)) button listitem (Some input) s of
             (result, s) \<Rightarrow> if result = 0
               then (dialog_compat_close E (b\<lparr>db_response_count := db_response_count b + 1\<rparr>), s) else (b, s))
     in if \<not> db_active b \<or> db_id b < 0 \<or> db_id b > 65535 then Some (b, s)
        else if button \<noteq> 0 \<and> dialog_compat_uses_list (db_style b)
        then if db_selected b < 0 then Some (b, s)
             else do {
               line \<leftarrow> dialog_compat_get_line (db_info b)
                 (db_selected b + (if dialog_compat_has_header (db_style b) then 1 else 0)) SAMP_RAKNET_DIALOG_INPUT_BYTES;
               Some (case line of None \<Rightarrow> (b, s) | Some input \<Rightarrow> answer (of_int (db_selected b)) input) }
        else if button \<noteq> 0 \<and> dialog_compat_uses_input (db_style b)
        then Some (answer (- 1) (take (SAMP_RAKNET_DIALOG_INPUT_BYTES - 1) (c_str (db_input b))))
        else Some (answer (- 1) []))"

text \<open>The result also says that the chat line is closed.\<close>

definition dialog_compat_update_from_snapshot :: "ui_env \<Rightarrow> bool \<Rightarrow> dialog \<Rightarrow> dialog_box \<Rightarrow> dialog_box \<times> bool" where
  "dialog_compat_update_from_snapshot E shown d b =
     (if \<not> shown then (dialog_compat_close E b, False)
      else let new = (\<not> db_active b \<or> db_id b \<noteq> int (unat (last_dialog_id d)));
               b = dialog_compat_set_mouse_mode E True (b\<lparr>db_active := True\<rparr>);
               title = copy_text kDialogTitleBytes (dialog_title d);
               button1 = copy_text kDialogButtonBytes (dialog_button1 d);
               b = b\<lparr>db_id := int (unat (last_dialog_id d)), db_style := int (unat (last_dialog_style d)),
                     db_title := (if title = [] then ''SA-MP Dialog'' else title),
                     db_info := copy_text kDialogInfoBytes (dialog_info d),
                     db_button1 := (if button1 = [] then ''OK'' else button1),
                     db_button2 := copy_text kDialogButtonBytes (dialog_button2 d)\<rparr>;
               b = (if new
                    then b\<lparr>db_selected := (if dialog_compat_uses_list (db_style b) then 0 else - 1), db_scroll := 0,
                           db_input_len := 0, db_input := (db_input b)[0 := CHR 0x00]\<rparr>
                    else b)
           in (dialog_compat_normalize_selection b, new))"

section \<open>Messages\<close>

definition dialog_compat_select_from_mouse ::
  "ui_env \<Rightarrow> int \<Rightarrow> int \<Rightarrow> bool \<Rightarrow> dialog_box \<times> session \<Rightarrow> (dialog_box \<times> session) mem" where
  "dialog_compat_select_from_mouse E x y submit bs = (case bs of (b, s) \<Rightarrow>
     let l = dialog_compat_layout E b;
         line_y = body_y l + 8 + (if dialog_compat_has_header (db_style b) then 22 else 0);
         row = (y - line_y) div 22;
         item = db_scroll b + row
     in if \<not> dialog_compat_uses_list (db_style b) then Some (b, s)
        else if \<not> dialog_compat_point_in_rect x y (body_x l) line_y (body_w l) (body_h l - (line_y - body_y l)) then Some (b, s)
        else if row < 0 \<or> row \<ge> SAMP_DIALOG_COMPAT_MAX_VISIBLE_ITEMS then Some (b, s)
        else if item < 0 \<or> item \<ge> dialog_compat_item_count b then Some (b, s)
        else let b = dialog_compat_normalize_selection (b\<lparr>db_selected := item\<rparr>)
             in if submit then dialog_compat_submit E 1 (b, s) else Some (b, s))"

datatype mouse_message = WM_MOUSEMOVE | WM_LBUTTONDOWN | WM_LBUTTONUP | WM_LBUTTONDBLCLK

definition dialog_compat_handle_mouse ::
  "ui_env \<Rightarrow> mouse_message \<Rightarrow> int \<Rightarrow> int \<Rightarrow> dialog_box \<times> session \<Rightarrow> (dialog_box \<times> session) mem" where
  "dialog_compat_handle_mouse E m raw_x raw_y bs = (case bs of (b, s) \<Rightarrow>
     let b = dialog_compat_record_mouse E raw_x raw_y b; x = db_mouse_x b; y = db_mouse_y b; l = dialog_compat_layout E b
     in case m of
          WM_MOUSEMOVE \<Rightarrow> Some (b, s)
        | WM_LBUTTONDBLCLK \<Rightarrow> dialog_compat_select_from_mouse E x y True (b, s)
        | WM_LBUTTONDOWN \<Rightarrow> dialog_compat_select_from_mouse E x y False (b\<lparr>db_mouse_down := True\<rparr>, s)
        | WM_LBUTTONUP \<Rightarrow>
            let b = b\<lparr>db_mouse_down := False\<rparr>
            in if dialog_compat_point_in_rect x y (button1_x l) (button1_y l) (button1_w l) (button1_h l)
               then dialog_compat_submit E 1 (b, s)
               else if dialog_compat_point_in_rect x y (button2_x l) (button2_y l) (button2_w l) (button2_h l)
               then dialog_compat_submit E 0 (b, s)
               else Some (b, s))"

text \<open>The keyboard part of \<^verbatim>\<open>chat_input_wndproc_compat\<close> while a dialog is open.\<close>

definition dialog_handle_key ::
  "ui_env \<Rightarrow> window_message \<Rightarrow> dialog_box \<times> session \<Rightarrow> (dialog_box \<times> session) mem" where
  "dialog_handle_key E m bs = (case bs of (b, s) \<Rightarrow>
     let lists = dialog_compat_uses_list (db_style b); inputs = dialog_compat_uses_input (db_style b);
         on_box = map_option (\<lambda>b. (b, s))
     in case m of
          WM_KEYDOWN k \<Rightarrow>
            if k = VK_RETURN then dialog_compat_submit E 1 (b, s)
            else if k = VK_ESCAPE then dialog_compat_submit E 0 (b, s)
            else if lists \<and> k = VK_UP then Some (dialog_compat_move_selection (- 1) b, s)
            else if lists \<and> k = VK_DOWN then Some (dialog_compat_move_selection 1 b, s)
            else if lists \<and> k = VK_PRIOR
            then Some (dialog_compat_move_selection (- SAMP_DIALOG_COMPAT_MAX_VISIBLE_ITEMS) b, s)
            else if lists \<and> k = VK_NEXT then Some (dialog_compat_move_selection SAMP_DIALOG_COMPAT_MAX_VISIBLE_ITEMS b, s)
            else if inputs \<and> k = VK_BACK then on_box (dialog_compat_backspace_input b)
            else Some (b, s)
        | WM_CHAR w \<Rightarrow>
            if \<not> inputs then Some (b, s)
            else if w = 8 then on_box (dialog_compat_backspace_input b)
            else if w = 13 \<or> w = 10 then dialog_compat_submit E 1 (b, s)
            else if w = 27 then dialog_compat_submit E 0 (b, s)
            else if 32 \<le> w \<and> w \<le> 126 then on_box (dialog_compat_append_input_char (char_of w) b)
            else Some (b, s)
        | _ \<Rightarrow> Some (b, s))"

section \<open>Lines as a list\<close>

function dialog_lines :: "string \<Rightarrow> string list" where
  "dialog_lines t = (if t = [] then [] else this_line t # dialog_lines (next_line t))"
  by pat_completeness auto
termination by (relation "measure length") (auto simp: next_line_shorter)

declare dialog_lines.simps [simp del]

lemma lines_nil [simp]: "dialog_lines [] = []" "count_lines [] = 0" "find_line i [] = None"
  by (simp_all add: dialog_lines.simps[of "[]"] count_lines.simps[of "[]"] find_line.simps[of i "[]"])

lemma lines_cons:
  "t \<noteq> [] \<Longrightarrow> dialog_lines t = this_line t # dialog_lines (next_line t)"
  "t \<noteq> [] \<Longrightarrow> count_lines t = Suc (count_lines (next_line t))"
  "t \<noteq> [] \<Longrightarrow> find_line i t = (if i = 0 then Some (this_line t) else find_line (i - 1) (next_line t))"
  by (simp_all add: dialog_lines.simps[of t] count_lines.simps[of t] find_line.simps[of i t])

lemma count_lines_eq: "count_lines t = length (dialog_lines t)"
proof (induction t rule: count_lines.induct)
  case (1 t)
  then show ?case by (cases "t = []") (simp_all add: lines_cons)
qed

lemma find_line_eq: "find_line i t = (if i < length (dialog_lines t) then Some (dialog_lines t ! i) else None)"
proof (induction i t rule: find_line.induct)
  case (1 i t)
  then show ?case by (cases "t = []"; cases i) (simp_all add: lines_cons)
qed

lemma next_line_subset: "set (next_line t) \<subseteq> set t"
  unfolding next_line_def by (meson set_dropWhileD subset_iff)

lemma dialog_lines_sound: "l \<in> set (dialog_lines t) \<Longrightarrow> set l \<subseteq> set t \<and> (\<forall>c\<in>set l. \<not> line_end c)"
proof (induction t rule: dialog_lines.induct)
  case (1 t)
  show ?case
  proof (cases "t = []")
    case True
    with "1.prems" show ?thesis by simp
  next
    case False
    then consider "l = this_line t" | "l \<in> set (dialog_lines (next_line t))" using "1.prems" by (auto simp: lines_cons)
    then show ?thesis
    proof cases
      case 1
      then show ?thesis by (auto simp: this_line_def dest: set_takeWhileD)
    next
      case 2
      with "1.IH"[OF False] next_line_subset[of t] show ?thesis by blast
    qed
  qed
qed

text \<open>A line as it is shown and sent: cut, cleaned, without its colour tags.\<close>

definition shown_line :: "string \<Rightarrow> string" where
  "shown_line l = map tab_to_space (stripped (chat_compat_filter_invalid_chars (take 255 l)))"

lemma filter_no_nul: "CHR 0x00 \<notin> set l \<Longrightarrow> CHR 0x00 \<notin> set (chat_compat_filter_invalid_chars l)"
  by (auto simp: chat_compat_filter_invalid_chars_def)

lemma get_line_eq:
  assumes "CHR 0x00 \<notin> set t"
  shows "dialog_compat_get_line t i 256 =
    Some (if 0 \<le> i \<and> nat i < length (dialog_lines t) then Some (shown_line (dialog_lines t ! nat i)) else None)"
proof (cases "0 \<le> i \<and> nat i < length (dialog_lines t)")
  case True
  let ?l = "take 255 (dialog_lines t ! nat i)"
  have "dialog_lines t ! nat i \<in> set (dialog_lines t)" using True by simp
  then have "CHR 0x00 \<notin> set (dialog_lines t ! nat i)" using dialog_lines_sound assms by blast
  then have n: "CHR 0x00 \<notin> set ?l" by (meson in_set_takeD)
  let ?buf = "chat_compat_filter_invalid_chars ?l @ [CHR 0x00]"
  obtain buf where b: "chat_compat_strip_samp_color_tags ?buf = Some buf" "c_str buf = stripped (c_str ?buf)"
    using strip_loop_eq[of 0 0 ?buf] by (auto simp: chat_compat_strip_samp_color_tags_def)
  have "c_str ?buf = chat_compat_filter_invalid_chars ?l" by (rule c_str_append[OF filter_no_nul[OF n]])
  with b True show ?thesis by (simp add: dialog_compat_get_line_def find_line_eq shown_line_def)
next
  case False
  then show ?thesis by (auto simp: dialog_compat_get_line_def find_line_eq)
qed

section \<open>Invariant\<close>

definition items_of :: "dialog \<Rightarrow> string list" where
  "items_of d = (let ls = dialog_lines (dialog_info d) in if last_dialog_style d = 5 then tl ls else ls)"

definition printable_text :: "string \<Rightarrow> bool" where
  "printable_text t \<longleftrightarrow> (\<forall>c\<in>set t. 32 \<le> code c \<and> code c \<le> 126)"

definition input_field_ok :: "dialog_box \<Rightarrow> bool" where
  "input_field_ok b \<longleftrightarrow> length (db_input b) = 256 \<and> 0 \<le> db_input_len b \<and> db_input_len b \<le> 255 \<and>
     nat (db_input_len b) = length (c_str (db_input b)) \<and> printable_text (c_str (db_input b))"

definition highlight_ok :: "dialog_box \<Rightarrow> bool" where
  "highlight_ok b \<longleftrightarrow>
     (if dialog_compat_item_count b = 0 then db_selected b = - 1 \<and> db_scroll b = 0
      else 0 \<le> db_selected b \<and> db_selected b < dialog_compat_item_count b \<and> 0 \<le> db_scroll b \<and>
           db_scroll b \<le> db_selected b \<and> db_selected b < db_scroll b + 8)"

text \<open>The box shows a dialog.\<close>

definition shows_dialog :: "dialog_box \<Rightarrow> dialog \<Rightarrow> bool" where
  "shows_dialog b d \<longleftrightarrow> db_id b = int (unat (last_dialog_id d)) \<and> db_style b = int (unat (last_dialog_style d)) \<and>
     db_info b = dialog_info d \<and> dialog_ok d"

lemma normalize_ok: "highlight_ok (dialog_compat_normalize_selection b)"
proof -
  have c: "dialog_compat_item_count (dialog_compat_normalize_selection b) = dialog_compat_item_count b"
    by (simp add: dialog_compat_normalize_selection_def dialog_compat_item_count_def Let_def)
  have "dialog_compat_item_count b \<ge> 0" by (simp add: dialog_compat_item_count_def Let_def)
  then show ?thesis unfolding highlight_ok_def c
    by (auto simp: dialog_compat_normalize_selection_def Let_def dialog_box_consts)
qed

lemma item_count_items: "shows_dialog b d \<Longrightarrow> dialog_compat_item_count b = int (length (items_of d))"
proof -
  assume s: "shows_dialog b d"
  have "dialog_compat_has_header (db_style b) = (last_dialog_style d = 5)"
    using s by (simp add: shows_dialog_def dialog_compat_has_header_def word_uint_eq_iff)
  then show ?thesis using s
    by (auto simp: dialog_compat_item_count_def dialog_compat_line_count_def count_lines_eq items_of_def Let_def shows_dialog_def
      of_nat_diff Suc_leI)
qed

section \<open>Answers that fit a dialog\<close>

text \<open>The answers a dialog allows: its second button or the escape key answer nothing; the first button answers with an
  existing item and its text, or with what was typed.\<close>

definition valid_answer :: "dialog \<Rightarrow> out_rpc \<Rightarrow> bool" where
  "valid_answer d m = (case m of
     DialogResponse i button listitem input \<Rightarrow>
       i = last_dialog_id d \<and>
       (if button = 0 then listitem = - 1 \<and> input = []
        else button = 1 \<and>
          (if last_dialog_style d \<in> {2, 4, 5}
           then \<exists>k < length (items_of d). listitem = of_nat k \<and> input = shown_line (items_of d ! k)
           else if last_dialog_style d \<in> {1, 3} then listitem = - 1 \<and> length input \<le> 255 \<and> printable_text input
           else listitem = - 1 \<and> input = []))
   | _ \<Rightarrow> False)"

lemma styles_of:
  assumes "shows_dialog b d"
  shows "dialog_compat_uses_list (db_style b) = (last_dialog_style d \<in> {2, 4, 5})"
    "dialog_compat_uses_input (db_style b) = (last_dialog_style d \<in> {1, 3})"
    "dialog_compat_has_header (db_style b) = (last_dialog_style d = 5)"
  using assms by (simp_all add: shows_dialog_def dialog_styles word_uint_eq_iff)

lemma length_stripped: "length (stripped s) \<le> length s"
proof (induction s rule: stripped.induct)
  case (1 s)
  show ?case
  proof (cases s)
    case Nil
    then show ?thesis by (simp add: stripped.simps[of "[]"])
  next
    case (Cons c t)
    have "stripped s = (if chat_compat_parse_color_tag s \<noteq> None then stripped (drop 8 s) else hd s # stripped (tl s))"
      using Cons by (subst stripped.simps) simp
    then show ?thesis using 1 Cons by (auto split: if_splits)
  qed
qed

lemma length_shown_line: "length (shown_line l) \<le> 255"
  using length_stripped[of "chat_compat_filter_invalid_chars (take 255 l)"]
  by (simp add: shown_line_def chat_compat_filter_invalid_chars_def)

text \<open>The answer the session holds.\<close>

definition held_answer :: "session \<Rightarrow> out_rpc" where
  "held_answer s = DialogResponse (dialog_response_id s) (dialog_response_button s) (dialog_response_listitem s)
     (dialog_response_input s)"

definition answer_kept :: "session \<Rightarrow> session \<Rightarrow> bool" where
  "answer_kept s s2 \<longleftrightarrow> (pending_dialog_response s2 \<longrightarrow> pending_dialog_response s \<and> held_answer s2 = held_answer s)"

definition box_inv :: "dialog set \<Rightarrow> dialog_box \<times> session \<Rightarrow> bool" where
  "box_inv D bs = (case bs of (b, s) \<Rightarrow>
     input_field_ok b \<and> (db_active b \<longrightarrow> (\<exists>d\<in>D. shows_dialog b d)) \<and> session_ok s \<and>
     (pending_dialog_response s \<longrightarrow> (\<exists>d\<in>D. valid_answer d (held_answer s))))"

text \<open>What leaves an open dialog as it is: the changes of the selection, the field and the mouse.\<close>

definition same_dialog :: "dialog_box \<Rightarrow> dialog_box \<Rightarrow> bool" where
  "same_dialog b b2 \<longleftrightarrow> db_active b2 = db_active b \<and> db_id b2 = db_id b \<and> db_style b2 = db_style b \<and> db_info b2 = db_info b"

lemma same_dialog_inv:
  "box_inv D (b, s) \<Longrightarrow> same_dialog b b2 \<Longrightarrow> input_field_ok b2 \<Longrightarrow> box_inv D (b2, s)"
  by (auto simp: box_inv_def same_dialog_def shows_dialog_def)

lemma same_dialog_ops [simp]:
  "same_dialog b b" "same_dialog b (dialog_compat_normalize_selection b)" "same_dialog b (dialog_compat_move_selection delta b)"
  "same_dialog b (dialog_compat_record_mouse E x y b)" "same_dialog b (b\<lparr>db_mouse_down := v\<rparr>)"
  "same_dialog b (dialog_compat_normalize_selection (b\<lparr>db_selected := i\<rparr>))"
  by (simp_all add: same_dialog_def dialog_compat_normalize_selection_def dialog_compat_move_selection_def
    dialog_compat_record_mouse_def Let_def)

lemma input_field_ops [simp]:
  "input_field_ok (dialog_compat_normalize_selection b) = input_field_ok b"
  "input_field_ok (dialog_compat_move_selection delta b) = input_field_ok b"
  "input_field_ok (dialog_compat_record_mouse E x y b) = input_field_ok b" "input_field_ok (b\<lparr>db_mouse_down := v\<rparr>) = input_field_ok b"
  "input_field_ok (b\<lparr>db_selected := i\<rparr>) = input_field_ok b" "input_field_ok (b\<lparr>db_response_count := n\<rparr>) = input_field_ok b"
  by (simp_all add: input_field_ok_def dialog_compat_normalize_selection_def dialog_compat_move_selection_def
    dialog_compat_record_mouse_def Let_def)

lemma append_input_ok:
  assumes "input_field_ok b" "32 \<le> code ch" "code ch \<le> 126"
  shows "\<exists>b2. dialog_compat_append_input_char ch b = Some b2 \<and> same_dialog b b2 \<and> input_field_ok b2 \<and>
    c_str (db_input b2) = (if length (c_str (db_input b)) < 255 then c_str (db_input b) @ [ch] else c_str (db_input b))"
proof (cases "db_input_len b < 255")
  case True
  let ?n = "nat (db_input_len b)"
  have d: "length (db_input b) = 256" "0 \<le> db_input_len b" "?n = length (c_str (db_input b))" "printable_text (c_str (db_input b))"
    using assms(1) by (auto simp: input_field_ok_def)
  have "ch \<noteq> CHR 0x00" using assms(2) by (auto simp: code_def)
  then have w: "c_str ((db_input b)[?n := ch, ?n + 1 := CHR 0x00]) = c_str (db_input b) @ [ch]"
    using c_str_write[of "db_input b" ch] d True by simp
  let ?b2 = "b\<lparr>db_input := (db_input b)[?n := ch, ?n + 1 := CHR 0x00], db_input_len := db_input_len b + 1\<rparr>"
  have "dialog_compat_append_input_char ch b = Some ?b2"
    using True d(1,2) by (simp add: dialog_compat_append_input_char_def dialog_box_consts Let_def)
  moreover have "input_field_ok ?b2" using d True w assms(2,3) by (simp add: input_field_ok_def printable_text_def)
  moreover have "length (c_str (db_input b)) < 255" using True d(2,3) by linarith
  ultimately show ?thesis using w by (simp add: same_dialog_def)
next
  case False
  then show ?thesis using assms(1)
    by (auto simp: dialog_compat_append_input_char_def dialog_box_consts input_field_ok_def Let_def)
qed

lemma backspace_input_ok:
  assumes "input_field_ok b"
  shows "\<exists>b2. dialog_compat_backspace_input b = Some b2 \<and> same_dialog b b2 \<and> input_field_ok b2 \<and>
    c_str (db_input b2) = butlast (c_str (db_input b))"
proof (cases "db_input_len b \<le> 0")
  case True
  then show ?thesis using assms by (auto simp: dialog_compat_backspace_input_def input_field_ok_def)
next
  case False
  let ?n = "nat (db_input_len b - 1)"
  have d: "length (db_input b) = 256" "db_input_len b \<le> 255" "nat (db_input_len b) = length (c_str (db_input b))"
    "printable_text (c_str (db_input b))" using assms by (auto simp: input_field_ok_def)
  have n: "?n = length (c_str (db_input b)) - 1" "c_str (db_input b) \<noteq> []" "length (c_str (db_input b)) < length (db_input b)"
    using d False by auto
  have w: "c_str ((db_input b)[?n := CHR 0x00]) = butlast (c_str (db_input b))" unfolding n(1) by (rule c_str_erase[OF n(2,3)])
  let ?b2 = "b\<lparr>db_input := (db_input b)[?n := CHR 0x00], db_input_len := db_input_len b - 1\<rparr>"
  have "dialog_compat_backspace_input b = Some ?b2"
    using False d(1,2) by (simp add: dialog_compat_backspace_input_def Let_def)
  moreover have "input_field_ok ?b2" using d False w n by (auto simp: input_field_ok_def printable_text_def dest: in_set_butlastD)
  ultimately show ?thesis using w by (simp add: same_dialog_def)
qed

lemma close_box: "input_field_ok b \<Longrightarrow> input_field_ok (dialog_compat_close E b) \<and> \<not> db_active (dialog_compat_close E b)"
  by (auto simp: input_field_ok_def dialog_compat_close_def dialog_compat_set_mouse_mode_def c_str_first printable_text_def Let_def)

section \<open>Submitting keeps the invariant\<close>

definition queue_answer :: "ui_env \<Rightarrow> u8 \<Rightarrow> u16 \<Rightarrow> string \<Rightarrow> dialog_box \<times> session \<Rightarrow> dialog_box \<times> session" where
  "queue_answer E button listitem input bs = (case bs of (b, s) \<Rightarrow>
     (case samp_raknet_client_queue_dialog_response (net_client E) (of_int (db_id b)) button listitem (Some input) s of
        (result, s) \<Rightarrow> if result = 0
          then (dialog_compat_close E (b\<lparr>db_response_count := db_response_count b + 1\<rparr>), s) else (b, s)))"

lemma queue_answer_inv:
  assumes "box_inv D (b, s)" "d \<in> D" "valid_answer d (DialogResponse (of_int (db_id b)) button listitem (take 255 input))"
  shows "box_inv D (queue_answer E button listitem input (b, s))"
proof -
  let ?q = "queue_dialog_response (of_int (db_id b)) button listitem (Some input) s"
  have cl: "input_field_ok (dialog_compat_close E (b\<lparr>db_response_count := db_response_count b + 1\<rparr>))"
    "\<not> db_active (dialog_compat_close E (b\<lparr>db_response_count := db_response_count b + 1\<rparr>))"
    using assms(1) close_box[of "b\<lparr>db_response_count := db_response_count b + 1\<rparr>" E] by (simp_all add: box_inv_def)
  have "held_answer ?q = DialogResponse (of_int (db_id b)) button listitem (take 255 input)"
    by (simp add: held_answer_def queue_dialog_response_def copy_text_def kDialogInputBytes_def)
  moreover have "session_ok ?q"
    using assms(1) by (auto simp: box_inv_def session_ok_def queue_dialog_response_def copy_text_def kDialogInputBytes_def)
  ultimately have "box_inv D (dialog_compat_close E (b\<lparr>db_response_count := db_response_count b + 1\<rparr>), ?q)"
    using cl assms(2,3) by (auto simp: box_inv_def)
  then show ?thesis using assms(1)
    by (auto simp: queue_answer_def samp_raknet_client_queue_dialog_response_def)
qed

lemma submit_eq:
  assumes "db_active b" "shows_dialog b d"
  shows "dialog_compat_submit E button (b, s) =
    Some (if button \<noteq> 0 \<and> last_dialog_style d \<in> {2, 4, 5}
      then if 0 \<le> db_selected b \<and> nat (db_selected b) < length (items_of d)
        then queue_answer E button (of_int (db_selected b)) (shown_line (items_of d ! nat (db_selected b))) (b, s) else (b, s)
      else queue_answer E button (- 1)
        (if button \<noteq> 0 \<and> last_dialog_style d \<in> {1, 3} then take 255 (c_str (db_input b)) else []) (b, s))"
proof -
  have i: "0 \<le> db_id b" "db_id b \<le> 65535"
    using assms(2) uint_bounded[of "last_dialog_id d"] by (auto simp: shows_dialog_def)
  have nul: "CHR 0x00 \<notin> set (db_info b)" using assms(2) by (auto simp: shows_dialog_def dialog_ok_def c_text_fits_def)
  let ?h = "if last_dialog_style d = 5 then 1 else 0 :: int"
  have line: "dialog_compat_get_line (db_info b) (db_selected b + ?h) 256 =
      Some (if nat (db_selected b) < length (items_of d) then Some (shown_line (items_of d ! nat (db_selected b))) else None)"
    if "0 \<le> db_selected b"
  proof -
    let ?ls = "dialog_lines (dialog_info d)"
    have "?ls = dialog_lines (db_info b)" using assms(2) by (simp add: shows_dialog_def)
    moreover have "nat (db_selected b + 1) = Suc (nat (db_selected b))" using that by simp
    ultimately show ?thesis using that get_line_eq[OF nul, of "db_selected b + ?h"]
      by (cases ?ls) (auto simp: items_of_def Let_def nth_tl)
  qed
  show ?thesis using i assms(1) line
    by (auto simp: dialog_compat_submit_def styles_of[OF assms(2)] queue_answer_def dialog_box_consts Let_def)
qed

lemma submit_inv:
  assumes "box_inv D (b, s)" "button = 0 \<or> button = 1"
  shows "\<exists>bs. dialog_compat_submit E button (b, s) = Some bs \<and> box_inv D bs"
proof (cases "db_active b")
  case False
  then show ?thesis using assms(1) by (simp add: dialog_compat_submit_def)
next
  case True
  then obtain d where d: "d \<in> D" "shows_dialog b d" using assms(1) by (auto simp: box_inv_def)
  have i: "of_int (db_id b) = last_dialog_id d" using d(2) by (simp add: shows_dialog_def)
  have typed: "printable_text (c_str (db_input b))" using assms(1) by (simp add: box_inv_def input_field_ok_def)
  have tk: "printable_text (take 255 (c_str (db_input b)))" using typed by (auto simp: printable_text_def dest: in_set_takeD)
  have list: "valid_answer d (DialogResponse (of_int (db_id b)) button (of_int (db_selected b))
      (take 255 (shown_line (items_of d ! nat (db_selected b)))))"
    if "button \<noteq> 0" "last_dialog_style d \<in> {2, 4, 5}" "0 \<le> db_selected b" "nat (db_selected b) < length (items_of d)"
  proof -
    have "(of_int (db_selected b) :: u16) = of_nat (nat (db_selected b))" using that(3) by simp
    moreover have "take 255 (shown_line (items_of d ! nat (db_selected b))) = shown_line (items_of d ! nat (db_selected b))"
      using length_shown_line by simp
    ultimately show ?thesis using that assms(2) i by (auto simp: valid_answer_def)
  qed
  have other: "valid_answer d (DialogResponse (of_int (db_id b)) button (- 1)
      (take 255 (if button \<noteq> 0 \<and> last_dialog_style d \<in> {1, 3} then take 255 (c_str (db_input b)) else [])))"
    if "\<not> (button \<noteq> 0 \<and> last_dialog_style d \<in> {2, 4, 5})"
    using that assms(2) i tk by (auto simp: valid_answer_def)
  show ?thesis unfolding submit_eq[OF True d(2)]
    using queue_answer_inv[OF assms(1) d(1) list] queue_answer_inv[OF assms(1) d(1) other] assms(1) by auto
qed

lemma handle_key_inv:
  assumes "box_inv D (b, s)"
  shows "\<exists>bs. dialog_handle_key E m (b, s) = Some bs \<and> box_inv D bs"
proof -
  have f: "input_field_ok b" using assms by (simp add: box_inv_def)
  note keep = same_dialog_inv[OF assms]
  note sub = submit_inv[OF assms]
  have app: "\<exists>b2. dialog_compat_append_input_char (char_of w) b = Some b2 \<and> box_inv D (b2, s)" if "32 \<le> w" "w \<le> 126" for w :: nat
    using append_input_ok[OF f, of "char_of w"] that keep by (auto simp: code_def)
  have bsp: "\<exists>b2. dialog_compat_backspace_input b = Some b2 \<and> box_inv D (b2, s)"
    using backspace_input_ok[OF f] keep by blast
  have mv: "box_inv D (dialog_compat_move_selection delta b, s)" for delta using keep f by simp
  show ?thesis
  proof (cases m)
    case (WM_CHAR w)
    then show ?thesis using sub app[of w] bsp assms by (auto simp: dialog_handle_key_def Let_def)
  next
    case (WM_KEYDOWN k)
    then show ?thesis using sub bsp mv assms by (auto simp: dialog_handle_key_def Let_def)
  qed (use assms in \<open>simp_all add: dialog_handle_key_def Let_def\<close>)
qed

lemma select_from_mouse_inv:
  assumes "box_inv D (b, s)"
  shows "\<exists>bs. dialog_compat_select_from_mouse E x y sub (b, s) = Some bs \<and> box_inv D bs"
proof -
  have "box_inv D (dialog_compat_normalize_selection (b\<lparr>db_selected := i\<rparr>), s)" for i
    using same_dialog_inv[OF assms, of "dialog_compat_normalize_selection (b\<lparr>db_selected := i\<rparr>)"] assms
    by (simp add: box_inv_def)
  then show ?thesis using submit_inv[of D _ s 1 E] assms
    by (auto simp: dialog_compat_select_from_mouse_def Let_def)
qed

lemma handle_mouse_inv:
  assumes "box_inv D (b, s)"
  shows "\<exists>bs. dialog_compat_handle_mouse E m x y (b, s) = Some bs \<and> box_inv D bs"
proof -
  let ?b = "dialog_compat_record_mouse E x y b"
  have f: "input_field_ok b" using assms by (simp add: box_inv_def)
  have b: "box_inv D (?b, s)" using same_dialog_inv[OF assms, of ?b] f by simp
  then have f2: "input_field_ok ?b" by (simp add: box_inv_def)
  have d: "box_inv D (?b\<lparr>db_mouse_down := v\<rparr>, s)" for v using same_dialog_inv[OF b, of "?b\<lparr>db_mouse_down := v\<rparr>"] f2 by simp
  show ?thesis using b d select_from_mouse_inv submit_inv[OF d]
    by (cases m) (auto simp: dialog_compat_handle_mouse_def Let_def)
qed

section \<open>Joint runs\<close>

text \<open>
  What happens to the two: a message of the window procedure while a dialog is open, a step of the session that neither
  sends nor comes from the box, or a frame: the service loop sends, then the box takes what the session shows.
\<close>

datatype box_event =
  Key ui_env window_message
| Pointer ui_env mouse_message int int
| Network session_event
| Frame ui_env service_env

datatype box_out = Shown dialog | Wire out_rpc bool

definition from_outside :: "session_event \<Rightarrow> bool" where
  "from_outside e \<longleftrightarrow> (\<forall>E. e \<noteq> Service E) \<and> (\<forall>c i b l t. e \<noteq> AnswerDialog c i b l t)"

definition box_step ::
  "'b bitstream \<Rightarrow> ('b \<Rightarrow> 'b) \<Rightarrow> box_event \<Rightarrow> dialog_box \<times> session \<Rightarrow> ((dialog_box \<times> session) \<times> box_out list) mem" where
  "box_step B after e bs = (case bs of (b, s) \<Rightarrow> case e of
     Key E m \<Rightarrow> if db_active b then map_option (\<lambda>bs. (bs, [])) (dialog_handle_key E m (b, s)) else Some ((b, s), [])
   | Pointer E m x y \<Rightarrow>
       if db_active b then map_option (\<lambda>bs. (bs, [])) (dialog_compat_handle_mouse E m x y (b, s)) else Some ((b, s), [])
   | Network e \<Rightarrow> map_option (\<lambda>(s, out). ((b, s), map (\<lambda>(m, ok). Wire m ok) out)) (session_step B after e s)
   | Frame E V \<Rightarrow>
       let (s, out) = service_rpc_probe_actions V s;
           (b, _) = dialog_compat_update_from_snapshot E (saw_dialog s) (open_dialog s) b
       in Some ((b, s), map (\<lambda>(m, ok). Wire m ok) out @ (if saw_dialog s then [Shown (open_dialog s)] else [])))"

fun box_run ::
  "'b bitstream \<Rightarrow> ('b \<Rightarrow> 'b) \<Rightarrow> box_event list \<Rightarrow> dialog_box \<times> session \<Rightarrow> ((dialog_box \<times> session) \<times> box_out list) mem" where
  "box_run B after [] bs = Some (bs, [])"
| "box_run B after (e # es) bs = do {
     (bs, out) \<leftarrow> box_step B after e bs;
     (bs, out2) \<leftarrow> box_run B after es bs;
     Some (bs, out @ out2) }"

text \<open>Every answer sent is one that a dialog shown before allows.\<close>

fun answers_follow :: "dialog set \<Rightarrow> box_out list \<Rightarrow> bool" where
  "answers_follow D [] = True"
| "answers_follow D (Shown d # out) = answers_follow (insert d D) out"
| "answers_follow D (Wire m ok # out) =
     ((case m of DialogResponse i button listitem input \<Rightarrow> ok \<longrightarrow> (\<exists>d\<in>D. valid_answer d m) | _ \<Rightarrow> True) \<and> answers_follow D out)"

lemma answers_follow_mono: "answers_follow D out \<Longrightarrow> D \<subseteq> D2 \<Longrightarrow> answers_follow D2 out"
proof (induction D out arbitrary: D2 rule: answers_follow.induct)
  case (2 D d out)
  have "insert d D \<subseteq> insert d D2" using "2.prems"(2) by blast
  then show ?case using "2.IH" "2.prems"(1) by simp
next
  case (3 D m ok out)
  then show ?case by (cases m) auto
qed simp

definition shown_in :: "box_out list \<Rightarrow> dialog set" where
  "shown_in out = {d. Shown d \<in> set out}"

lemma answers_follow_append: "answers_follow D (out @ out2) = (answers_follow D out \<and> answers_follow (shown_in out \<union> D) out2)"
proof (induction D out rule: answers_follow.induct)
  case (2 D d out)
  have "shown_in (Shown d # out) \<union> D = shown_in out \<union> insert d D" by (auto simp: shown_in_def)
  then show ?case using 2 by simp
next
  case (3 D m ok out)
  have "shown_in (Wire m ok # out) = shown_in out" by (auto simp: shown_in_def)
  then show ?case using 3 by auto
qed (simp add: shown_in_def)

lemma answer_kept_steps:
  assumes "from_outside e" "session_step B after e s = Some (s2, out)"
  shows "answer_kept s s2" "\<forall>(m, ok)\<in>set out. \<forall>i button l t. m \<noteq> DialogResponse i button l t"
proof -
  have info: "answer_kept t t2" if "read_spawn_info d t = Some t2" for d t t2
    using read_spawn_info_frame[OF that] by (auto simp: answer_kept_def held_answer_def)
  show "answer_kept s s2"
  proof (cases e)
    case (InitGame data)
    then show ?thesis using assms(2)
      by (auto simp: session_step_def observe_init_game_def answer_kept_def held_answer_def Let_def schedule_request_class_def
        split: option.splits if_splits)
  next
    case (ClassReply data)
    then have r: "observe_class_reply data s = Some s2" using assms(2) by (auto simp: session_step_def)
    let ?s = "s\<lparr>saw_request_class_reply := True, waiting_for_request_class_reply := False\<rparr>"
    show ?thesis
    proof (cases data)
      case Nil
      with r show ?thesis by (auto simp: observe_class_reply_def answer_kept_def held_answer_def)
    next
      case (Cons x rest)
      let ?t = "?s\<lparr>request_class_outcome := x\<rparr>"
      have t: "answer_kept ?t u \<Longrightarrow> answer_kept s u" for u by (simp add: answer_kept_def held_answer_def)
      show ?thesis
      proof (cases "x \<noteq> 0 \<and> length data \<ge> 1 + kObservedPlayerSpawnInfoBytes")
        case True
        then obtain u where u: "read_spawn_info rest ?t = Some u"
          "s2 = u\<lparr>class_selection_after_death_requested := False, class_selection_after_death_consumed := False\<rparr>"
          using r Cons by (auto simp: observe_class_reply_def read_byte_def Let_def bind_Some_iff)
        then show ?thesis using t[OF info[OF u(1)]] by (simp add: answer_kept_def held_answer_def)
      next
        case False
        then have "s2 = ?t" using r Cons by (auto simp: observe_class_reply_def read_byte_def Let_def)
        then show ?thesis by (simp add: answer_kept_def held_answer_def)
      qed
    qed
  next
    case (SpawnReply data)
    then have r: "observe_spawn_reply data s = Some s2" using assms(2) by (auto simp: session_step_def)
    then show ?thesis by (cases data) (auto simp: observe_spawn_reply_def read_byte_def Let_def answer_kept_def held_answer_def
      split: if_splits)
  next
    case (SpawnInfo data)
    then have r: "observe_spawn_info data s = Some s2" using assms(2) by (auto simp: session_step_def)
    then show ?thesis
    proof (cases "length data \<ge> kObservedPlayerSpawnInfoBytes")
      case True
      then show ?thesis using r info by (simp add: observe_spawn_info_def)
    next
      case False
      then show ?thesis using r by (auto simp: observe_spawn_info_def answer_kept_def held_answer_def)
    qed
  next
    case (DialogBox data)
    then show ?thesis using assms(2)
      by (auto simp: session_step_def observe_dialog_box_def answer_kept_def held_answer_def bind_Some_iff)
  next
    case GameModeRestart
    then show ?thesis using assms(2)
      by (auto simp: session_step_def reset_rpc_probe_for_game_mode_restart_def reset_rpc_probe_runtime_def answer_kept_def Let_def)
  next
    case (Disconnected c)
    then show ?thesis using assms(2) by (auto simp: session_step_def reset_rpc_probe_runtime_def answer_kept_def)
  next
    case (NotifySpawn send c seq)
    then show ?thesis using assms(2)
      by (auto simp: session_step_def client_defs answer_kept_def held_answer_def Let_def split: if_splits)
  qed (use assms in \<open>auto simp: session_step_def client_defs answer_kept_def held_answer_def Let_def from_outside_def split: if_splits\<close>)
  show "\<forall>(m, ok)\<in>set out. \<forall>i button l t. m \<noteq> DialogResponse i button l t"
    using assms by (cases e) (auto simp: session_step_def from_outside_def client_defs Let_def split: if_splits)
qed

lemma update_from_snapshot_inv:
  fixes E :: ui_env and shown :: bool
  assumes "input_field_ok b" "dialog_ok d"
  defines "r \<equiv> fst (dialog_compat_update_from_snapshot E shown d b)"
  shows "input_field_ok r" "db_active r = shown" "shown \<Longrightarrow> shows_dialog r d" "shown \<Longrightarrow> highlight_ok r"
proof -
  have info: "copy_text kDialogInfoBytes (dialog_info d) = dialog_info d"
    using assms(2) by (auto simp: dialog_ok_def c_text_fits_def copy_text_def dialog_consts)
  have cl: "input_field_ok (dialog_compat_close E b)" "\<not> db_active (dialog_compat_close E b)" using close_box[OF assms(1)] by simp_all
  note u = r_def dialog_compat_update_from_snapshot_def
  show "input_field_ok r"
    using assms(1) cl unfolding u by (auto simp: Let_def input_field_ok_def dialog_compat_set_mouse_mode_def c_str_first printable_text_def
      dialog_compat_normalize_selection_def split: prod.split)
  show "db_active r = shown" using cl unfolding u
    by (auto simp: Let_def dialog_compat_set_mouse_mode_def dialog_compat_normalize_selection_def split: prod.split)
  show "shows_dialog r d" if shown using that assms(2) info unfolding u
    by (auto simp: Let_def shows_dialog_def dialog_compat_normalize_selection_def)
  show "highlight_ok r" if shown using that unfolding u by (simp add: Let_def normalize_ok)
qed

lemma service_answers:
  assumes "service_rpc_probe_actions V s = (s2, out)" "session_ok s" "(DialogResponse i button listitem input, True) \<in> set out"
  shows "pending_dialog_response s" "held_answer s = DialogResponse i button listitem input"
proof -
  have "DialogResponse i button listitem input \<in> set (dialog_responses out)"
    using assms(3) by (force simp: dialog_responses_def)
  then have "DialogResponse i button listitem input \<in> set (dialog_responses (snd (service_dialog_response V s)))"
    using service_dialog_out(1)[OF assms(1)] by simp
  then show "pending_dialog_response s" "held_answer s = DialogResponse i button listitem input" using assms(2)
    by (auto simp: service_dialog_response_def dialog_responses_def held_answer_def session_ok_def kDialogInputBytes_def Let_def
      split: if_splits)
qed

lemma answers_follow_wire:
  assumes "\<And>i button listitem input. (DialogResponse i button listitem input, True) \<in> set out \<Longrightarrow>
    \<exists>d\<in>D. valid_answer d (DialogResponse i button listitem input)"
  shows "answers_follow D (map (\<lambda>(m, ok). Wire m ok) out)"
  using assms
proof (induction out)
  case (Cons p out)
  obtain m ok where p: "p = (m, ok)" by (cases p)
  have "answers_follow D (map (\<lambda>(m, ok). Wire m ok) out)" using Cons.IH Cons.prems by (meson list.set_intros(2))
  moreover have "ok \<longrightarrow> (\<exists>d\<in>D. valid_answer d m)" if "m = DialogResponse i button listitem input" for i button listitem input
    using Cons.prems[of i button listitem input] that p by auto
  ultimately show ?case using p by (cases m) auto
qed simp

lemma shown_in_wire [simp]: "shown_in (map (\<lambda>(m, ok). Wire m ok) out) = {}"
  by (auto simp: shown_in_def)

lemma box_inv_mono: "box_inv D bs \<Longrightarrow> D \<subseteq> D2 \<Longrightarrow> box_inv D2 bs"
  by (auto simp: box_inv_def; blast)

definition outside_only :: "box_event \<Rightarrow> bool" where
  "outside_only e \<longleftrightarrow> (case e of Network n \<Rightarrow> from_outside n | _ \<Rightarrow> True)"

lemma box_step_inv:
  assumes "bitstream_ok B" "box_inv D bs" "outside_only e"
  shows "\<exists>bs2 out. box_step B after e bs = Some (bs2, out) \<and> box_inv (shown_in out \<union> D) bs2 \<and> answers_follow D out"
proof -
  obtain b s where bs: "bs = (b, s)" by (cases bs)
  have nil: "shown_in [] = {}" by (simp add: shown_in_def)
  show ?thesis
  proof (cases e)
    case (Key E m)
    then show ?thesis using handle_key_inv[of D b s E m] assms(2) nil by (auto simp: box_step_def bs)
  next
    case (Pointer E m x y)
    then show ?thesis using handle_mouse_inv[of D b s E m x y] assms(2) nil by (auto simp: box_step_def bs)
  next
    case (Network n)
    then have n: "from_outside n" using assms(3) by (simp add: outside_only_def)
    have so: "session_ok s" using assms(2) by (simp add: bs box_inv_def)
    obtain s2 out where s2: "session_step B after n s = Some (s2, out)" "session_ok s2"
      using session_ok_step[OF assms(1) so] by blast
    note k = answer_kept_steps[OF n s2(1)]
    have "box_inv D (b, s2)" using assms(2) s2(2) k(1) by (auto simp: bs box_inv_def answer_kept_def)
    moreover have "answers_follow D (map (\<lambda>(m, ok). Wire m ok) out)" by (rule answers_follow_wire) (use k(2) in auto)
    ultimately show ?thesis using s2(1) by (simp add: box_step_def bs Network)
  next
    case (Frame E V)
    obtain s2 out where s2: "service_rpc_probe_actions V s = (s2, out)" by (cases "service_rpc_probe_actions V s")
    obtain b2 closed where b2: "dialog_compat_update_from_snapshot E (saw_dialog s2) (open_dialog s2) b = (b2, closed)"
      by (cases "dialog_compat_update_from_snapshot E (saw_dialog s2) (open_dialog s2) b")
    have inv: "input_field_ok b" "session_ok s" using assms(2) by (auto simp: bs box_inv_def)
    have ok2: "session_ok s2" by (rule session_ok_service[OF s2 inv(2)])
    have pend: "\<not> pending_dialog_response s2" using service_dialog_out(2)[OF s2] by simp
    have d2: "dialog_ok (open_dialog s2)" using ok2 by (simp add: session_ok_def)
    note u = update_from_snapshot_inv[OF inv(1) d2, where E = E and shown = "saw_dialog s2", unfolded b2 fst_conv]
    let ?shown = "if saw_dialog s2 then [Shown (open_dialog s2)] else []"
    have "answers_follow D (map (\<lambda>(m, ok). Wire m ok) out)"
    proof (rule answers_follow_wire)
      fix i button listitem input
      assume "(DialogResponse i button listitem input, True) \<in> set out"
      from service_answers[OF s2 inv(2) this] show "\<exists>d\<in>D. valid_answer d (DialogResponse i button listitem input)"
        using assms(2) by (auto simp: bs box_inv_def)
    qed
    then have f: "answers_follow D (map (\<lambda>(m, ok). Wire m ok) out @ ?shown)" by (simp add: answers_follow_append)
    have "box_inv (shown_in (map (\<lambda>(m, ok). Wire m ok) out @ ?shown) \<union> D) (b2, s2)"
      using u pend ok2 by (auto simp: box_inv_def shown_in_def)
    with f show ?thesis using s2 b2 by (simp add: box_step_def bs Frame)
  qed
qed

lemma box_run_inv:
  assumes "bitstream_ok B" "box_inv D bs" "\<forall>e\<in>set es. outside_only e"
  shows "\<exists>bs2 out. box_run B after es bs = Some (bs2, out) \<and> box_inv (shown_in out \<union> D) bs2 \<and> answers_follow D out"
  using assms(2,3)
proof (induction es arbitrary: D bs)
  case Nil
  then show ?case by (simp add: shown_in_def)
next
  case (Cons e es)
  obtain bs1 o1 where s1: "box_step B after e bs = Some (bs1, o1)" "box_inv (shown_in o1 \<union> D) bs1" "answers_follow D o1"
    using box_step_inv[OF assms(1) Cons.prems(1), of e after] Cons.prems(2) by auto
  obtain bs2 o2 where s2: "box_run B after es bs1 = Some (bs2, o2)" "box_inv (shown_in o2 \<union> (shown_in o1 \<union> D)) bs2"
    "answers_follow (shown_in o1 \<union> D) o2"
    using Cons.IH[OF s1(2)] Cons.prems(2) by auto
  have "shown_in (o1 @ o2) \<union> D = shown_in o2 \<union> (shown_in o1 \<union> D)" by (auto simp: shown_in_def)
  then show ?case using s1 s2 by (simp add: answers_follow_append)
qed

section \<open>Properties\<close>

definition window_800 :: ui_env where
  "window_800 = \<lparr>viewport_w = 800, viewport_h = 600, cursor_at = None, mouse_kept = False, net_client = Some 1\<rparr>"


definition dialog_box_start :: dialog_box where
  "dialog_box_start =
     \<lparr>db_active = False, db_id = 0, db_style = 0, db_selected = 0, db_scroll = 0, db_title = [], db_info = [], db_button1 = [],
      db_button2 = [], db_input = replicate 256 CHR 0x00, db_input_len = 0, db_response_count = 0, db_mouse_mode = False,
      db_mouse_down = False, db_mouse_x = 0, db_mouse_y = 0, db_mouse_raw_x = 0, db_mouse_raw_y = 0\<rparr>"

lemma start_inv: "box_inv {} (dialog_box_start, reset_rpc_probe_runtime c s)"
proof -
  have "input_field_ok dialog_box_start"
    by (simp add: dialog_box_start_def input_field_ok_def c_str_def printable_text_def numeral_eq_Suc)
  moreover have "\<not> db_active dialog_box_start" "\<not> pending_dialog_response (reset_rpc_probe_runtime c s)"
    by (simp_all add: dialog_box_start_def reset_rpc_probe_runtime_def)
  ultimately show ?thesis using session_ok_reset[of c s] by (simp add: box_inv_def)
qed

text \<open>C11: the server only gets answers its dialogs allow. However keys, mouse, frames, dialogs and the other messages of the
  server interleave from the start, the code stays inside its arrays, and every answer sent carries the number of a dialog
  shown before, and with it nothing for the second button, an existing item with the text shown for it, or at most 255
  printable typed characters.
\<close>

theorem dialog_answers_fit:
  assumes "bitstream_ok B" "\<forall>e\<in>set es. outside_only e"
  shows "\<exists>bs out. box_run B after es (dialog_box_start, reset_rpc_probe_runtime c s) = Some (bs, out) \<and> answers_follow {} out"
  using box_run_inv[OF assms(1) start_inv assms(2)] by blast

definition list_dialog_events :: "box_event list" where
  "list_dialog_events =
     [Network (DialogBox (dialog_payload 7 2 ''T'' ''Ok'' [] [1])), Frame window_800 quiet_env,
      Key window_800 (WM_KEYDOWN VK_DOWN), Pointer window_800 WM_MOUSEMOVE 10 10,
      Key window_800 (WM_KEYDOWN VK_RETURN), Frame window_800 quiet_env]"

lemma dialog_answers_fit_witness:
  "\<exists>bs out. box_run yes_stream id list_dialog_events (dialog_box_start, reset_rpc_probe_runtime (Some 1) session_start) = Some (bs, out) \<and>
     Wire (DialogResponse 7 1 0 ''Yes'') True \<in> set out \<and> answers_follow {} out"
proof -
  let ?s = "(dialog_box_start, reset_rpc_probe_runtime (Some 1) session_start)"
  have ok: "bitstream_ok yes_stream"
    by (auto simp: bitstream_ok_def yes_stream_def bit_list_stream_def take_bytes_length split: if_splits)
  have es: "\<forall>e\<in>set list_dialog_events. outside_only e"
    by (simp add: list_dialog_events_def outside_only_def from_outside_def)
  obtain bs out where r: "box_run yes_stream id list_dialog_events ?s = Some (bs, out)" "answers_follow {} out"
    using dialog_answers_fit[OF ok es, of id "Some 1" session_start] by blast
  have "map_option (\<lambda>(bs, out). list_ex (\<lambda>o1. case o1 of Wire m ok \<Rightarrow> ok \<and> m = DialogResponse 7 1 0 ''Yes'' | _ \<Rightarrow> False) out)
      (box_run yes_stream id list_dialog_events ?s) = Some True" by code_simp
  then obtain x where x: "x \<in> set out" "case x of Wire m ok \<Rightarrow> ok \<and> m = DialogResponse 7 1 0 ''Yes'' | _ \<Rightarrow> False"
    using r(1) by (auto simp: list_ex_iff)
  have "Wire (DialogResponse 7 1 0 ''Yes'') True \<in> set out" by (cases x) (use x in auto)
  with r show ?thesis by blast
qed

definition sent_answers :: "box_out list \<Rightarrow> out_rpc list" where
  "sent_answers out = [m. Wire m ok \<leftarrow> out, case m of DialogResponse i b l t \<Rightarrow> ok | _ \<Rightarrow> False]"

lemma sent_answers_wire: "sent_answers (map (\<lambda>(m, ok). Wire m ok) out) = dialog_responses out"
proof (induction out)
  case (Cons p out)
  obtain m ok where "p = (m, ok)" by (cases p)
  with Cons show ?case by (cases m) (auto simp: sent_answers_def dialog_responses_def)
qed (simp add: sent_answers_def dialog_responses_def)

text \<open>A frame that finds an answer queued sends it and leaves no dialog, whatever came in between.\<close>

lemma frame_after_answer:
  assumes "pending_dialog_response s" "session_ok s" "rpc V (held_answer s)" "input_field_ok b"
  shows "\<exists>b2 s2 out. box_step B after (Frame E V) (b, s) = Some ((b2, s2), out) \<and> sent_answers out = [held_answer s] \<and>
    shown_in out = {} \<and> \<not> db_active b2 \<and> \<not> saw_dialog s2"
proof -
  obtain s2 out where s2: "service_rpc_probe_actions V s = (s2, out)" by (cases "service_rpc_probe_actions V s")
  have tk: "take 255 (dialog_response_input s) = dialog_response_input s"
    using assms(2) by (simp add: session_ok_def kDialogInputBytes_def)
  have r: "service_dialog_response V s = (s\<lparr>pending_dialog_response := False, sent_dialog_response := True, saw_dialog := False\<rparr>,
      [(held_answer s, True)])"
    using assms(1,3) tk by (simp add: service_dialog_response_def held_answer_def kDialogInputBytes_def)
  have d: "dialog_responses out = [held_answer s]" "\<not> saw_dialog s2"
    using service_dialog_out[OF s2] r by (simp_all add: dialog_responses_def held_answer_def)
  obtain b2 closed where b2: "dialog_compat_update_from_snapshot E False (open_dialog s2) b = (b2, closed)"
    by (cases "dialog_compat_update_from_snapshot E False (open_dialog s2) b")
  have "\<not> db_active b2" using b2 close_box[OF assms(4)] by (auto simp: dialog_compat_update_from_snapshot_def)
  then show ?thesis using s2 d b2 by (auto simp: box_step_def sent_answers_wire)
qed

text \<open>C12: the return key answers with what is highlighted. While a list is open, the key followed by a frame in which the
  network takes the message sends exactly one answer: the number of the dialog, the first button, the place of the
  highlighted item, and the text that is shown for it; the box is closed then.
\<close>

theorem dialog_return_answers_highlighted:
  assumes "input_field_ok b" "session_ok s" "db_active b" "shows_dialog b d" "highlight_ok b"
    "last_dialog_style d \<in> {2, 4, 5}" "items_of d \<noteq> []" "own_client (net_client E) s" "saw_dialog s"
    "rpc V (DialogResponse (last_dialog_id d) 1 (of_int (db_selected b)) (shown_line (items_of d ! nat (db_selected b))))"
  shows "\<exists>b2 s2 out. box_run B after [Key E (WM_KEYDOWN VK_RETURN), Frame E2 V] (b, s) = Some ((b2, s2), out) \<and>
    sent_answers out = [DialogResponse (last_dialog_id d) 1 (of_int (db_selected b)) (shown_line (items_of d ! nat (db_selected b)))] \<and>
    \<not> db_active b2"
proof -
  have sel: "0 \<le> db_selected b" "nat (db_selected b) < length (items_of d)"
    using assms(5,7) item_count_items[OF assms(4)] by (auto simp: highlight_ok_def split: if_splits)
  let ?t = "shown_line (items_of d ! nat (db_selected b))"
  let ?s2 = "queue_dialog_response (last_dialog_id d) 1 (of_int (db_selected b)) (Some ?t) s"
  let ?b2 = "dialog_compat_close E (b\<lparr>db_response_count := db_response_count b + 1\<rparr>)"
  have i: "of_int (db_id b) = last_dialog_id d" using assms(4) by (simp add: shows_dialog_def)
  have "dialog_compat_submit E 1 (b, s) = Some (?b2, ?s2)"
    using submit_eq[OF assms(3,4), of E 1 s] assms(6,8,9) sel i
    by (simp add: queue_answer_def samp_raknet_client_queue_dialog_response_def)
  then have k: "box_step B after (Key E (WM_KEYDOWN VK_RETURN)) (b, s) = Some ((?b2, ?s2), [])"
    using assms(3) by (simp add: box_step_def dialog_handle_key_def dialog_keys)
  have held: "held_answer ?s2 = DialogResponse (last_dialog_id d) 1 (of_int (db_selected b)) ?t"
    using length_shown_line by (simp add: held_answer_def queue_dialog_response_def copy_text_def kDialogInputBytes_def)
  have p: "pending_dialog_response ?s2" "session_ok ?s2" "input_field_ok ?b2"
    using assms(1,2) close_box[of "b\<lparr>db_response_count := db_response_count b + 1\<rparr>" E]
    by (simp_all add: queue_dialog_response_def session_ok_def copy_text_def kDialogInputBytes_def)
  obtain b3 s3 out where "box_step B after (Frame E2 V) (?b2, ?s2) = Some ((b3, s3), out)" "sent_answers out = [held_answer ?s2]"
    "\<not> db_active b3"
    using frame_after_answer[OF p(1,2) _ p(3), of V B after E2] held assms(10) by auto
  with k held show ?thesis by simp
qed

definition two_items :: dialog where
  "two_items = no_dialog\<lparr>last_dialog_id := 7, last_dialog_style := 5, dialog_info := ''head'' @ [CHR 0x0A] @ ''one'' @ [CHR 0x0A] @ ''two''\<rparr>"

definition two_items_box :: dialog_box where
  "two_items_box = dialog_box_start\<lparr>db_active := True, db_id := 7, db_style := 5, db_info := dialog_info two_items, db_selected := 1\<rparr>"

lemma dialog_return_answers_highlighted_witness:
  "\<exists>b2 s2 out. box_run yes_stream id [Key window_800 (WM_KEYDOWN VK_RETURN), Frame window_800 quiet_env]
      (two_items_box, (reset_rpc_probe_runtime (Some 1) session_start)\<lparr>saw_dialog := True\<rparr>) = Some ((b2, s2), out) \<and>
    sent_answers out = [DialogResponse 7 1 1 ''two''] \<and> \<not> db_active b2"
proof -
  let ?s = "(reset_rpc_probe_runtime (Some 1) session_start)\<lparr>saw_dialog := True\<rparr>"
  have items: "items_of two_items = [''one'', ''two'']" by code_simp
  have line: "shown_line ''two'' = ''two''" by code_simp
  have 1: "input_field_ok two_items_box"
    by (simp add: two_items_box_def dialog_box_start_def input_field_ok_def c_str_def printable_text_def numeral_eq_Suc)
  have 2: "session_ok ?s" using session_ok_reset[of "Some 1" session_start] by (simp add: session_ok_def)
  have 4: "shows_dialog two_items_box two_items"
    by (simp add: shows_dialog_def two_items_box_def two_items_def no_dialog_def dialog_ok_def dialog_consts c_text_fits_def)
  have 5: "highlight_ok two_items_box" using item_count_items[OF 4] items
    by (simp add: highlight_ok_def two_items_box_def dialog_box_start_def)
  have st: "last_dialog_style two_items \<in> {2, 4, 5}" "last_dialog_id two_items = 7" "db_active two_items_box" "db_selected two_items_box = 1"
    by (simp_all add: two_items_def two_items_box_def)
  have own: "own_client (net_client window_800) ?s" "saw_dialog ?s" by (simp_all add: own_client_def window_800_def reset_rpc_probe_runtime_def)
  show ?thesis
    using dialog_return_answers_highlighted[OF 1 2 st(3) 4 5 st(1) _ own, of quiet_env yes_stream id window_800] items line st
    by (simp add: quiet_env_def)
qed

text \<open>A dialog that arrives between an answer and its sending is never shown: the answer closes it unseen.\<close>

lemma dialog_during_answer_lost:
  assumes "bitstream_ok B" "pending_dialog_response s" "session_ok s" "rpc V (held_answer s)" "input_field_ok b"
  shows "\<exists>b2 s2 out. box_run B after [Network (DialogBox data), Frame E V] (b, s) = Some ((b2, s2), out) \<and>
    shown_in out = {} \<and> \<not> db_active b2 \<and> \<not> saw_dialog s2"
proof -
  obtain t o1 where t: "session_step B after (DialogBox data) s = Some (t, o1)" "session_ok t"
    using session_ok_step[OF assms(1,3)] by blast
  then obtain d where d: "t = s\<lparr>saw_dialog := True, open_dialog := d\<rparr>" "o1 = []"
    by (auto simp: session_step_def observe_dialog_box_def bind_Some_iff)
  have h: "pending_dialog_response t" "held_answer t = held_answer s" using assms(2) d(1) by (simp_all add: held_answer_def)
  obtain b3 s3 out where "box_step B after (Frame E V) (b, t) = Some ((b3, s3), out)" "shown_in out = {}" "\<not> db_active b3" "\<not> saw_dialog s3"
    using frame_after_answer[OF h(1) t(2) _ assms(5), of V B after E] h(2) assms(4) by auto
  then show ?thesis using t(1) d(2) by (simp add: box_step_def)
qed

text \<open>The backspace key comes as a key message and as a character, and each deletes: one press removes two characters.\<close>

lemma backspace_deletes_two:
  assumes "input_field_ok b" "db_active b" "dialog_compat_uses_input (db_style b)"
  shows "\<exists>b2. box_run B after [Key E (WM_KEYDOWN VK_BACK), Key E (WM_CHAR 8)] (b, s) = Some ((b2, s), []) \<and>
    c_str (db_input b2) = butlast (butlast (c_str (db_input b)))"
proof -
  obtain b1 where b1: "dialog_compat_backspace_input b = Some b1" "same_dialog b b1" "input_field_ok b1"
    "c_str (db_input b1) = butlast (c_str (db_input b))" using backspace_input_ok[OF assms(1)] by blast
  obtain b2 where b2: "dialog_compat_backspace_input b1 = Some b2" "c_str (db_input b2) = butlast (c_str (db_input b1))"
    using backspace_input_ok[OF b1(3)] by blast
  have "\<not> dialog_compat_uses_list (db_style b)" using assms(3) by (auto simp: dialog_styles)
  moreover have "db_active b1" "db_style b1 = db_style b" using b1(2) assms(2) by (auto simp: same_dialog_def)
  ultimately show ?thesis using b1 b2 assms(2,3) by (simp add: box_step_def dialog_handle_key_def dialog_keys)
qed

end
