(* ===== verification/VehiclePool.thy ===== *)
theory VehiclePool
  imports RpcVehicles "HOL-Library.Multiset"
begin

text \<open>
  The vehicle pool of \<^verbatim>\<open>src/runtime_bridge.c\<close>: 2000 slots that take the events of the network layer (theory RpcVehicles),
  queue the vehicles the server streams in, create them in the game one at a time, and pass the other events on to the game.
  The game is the list of the cars it holds for this pool and the commands it gets; the answers of the game, the
  availability of models and the clock are the environment of a call.
\<close>

section \<open>Slots\<close>

definition SAMP_VEHICLE_COMPAT_MODEL_MIN :: int where "SAMP_VEHICLE_COMPAT_MODEL_MIN = 400"
definition SAMP_VEHICLE_COMPAT_MODEL_MAX :: int where "SAMP_VEHICLE_COMPAT_MODEL_MAX = 611"
definition SAMP_VEHICLE_COMPAT_CREATE_BUDGET :: nat where "SAMP_VEHICLE_COMPAT_CREATE_BUDGET = 1"
definition SAMP_VEHICLE_COMPAT_CREATE_INTERVAL_MS :: u32 where "SAMP_VEHICLE_COMPAT_CREATE_INTERVAL_MS = 100"

lemmas vehicle_pool_consts = SAMP_VEHICLE_COMPAT_MODEL_MIN_def SAMP_VEHICLE_COMPAT_MODEL_MAX_def
  SAMP_VEHICLE_COMPAT_CREATE_BUDGET_def SAMP_VEHICLE_COMPAT_CREATE_INTERVAL_MS_def

record vehicle_slot =
  vs_active :: bool
  vs_pending :: bool
  vs_blocked_logged :: bool
  vs_seq :: u32
  vs_model :: int
  vs_gta_id :: u32
  vs_marker_id :: u32
  vs_marker_pos :: "f32 list"
  vs_invulnerable_state :: int
  vs_color1 :: u8
  vs_color2 :: u8
  vs_interior :: u8
  vs_paintjob :: u8
  vs_light_damage :: u8
  vs_tyre_damage :: u8
  vs_siren :: u8
  vs_mods :: "u8 list"
  vs_pos :: "f32 list"
  vs_rotation :: f32
  vs_health :: f32
  vs_door_damage :: u32
  vs_panel_damage :: u32
  vs_trailer_vehicle_id :: u16
  vs_trailer_attached :: u8
  vs_params :: "u8 list"
  vs_body_color1 :: int
  vs_body_color2 :: int
  vs_number_plate :: string

definition zero_vehicle_slot :: vehicle_slot where
  "zero_vehicle_slot =
     \<lparr>vs_active = False, vs_pending = False, vs_blocked_logged = False, vs_seq = 0, vs_model = 0, vs_gta_id = 0,
      vs_marker_id = 0, vs_marker_pos = [0, 0, 0], vs_invulnerable_state = 0, vs_color1 = 0, vs_color2 = 0, vs_interior = 0,
      vs_paintjob = 0, vs_light_damage = 0, vs_tyre_damage = 0, vs_siren = 0,
      vs_mods = replicate SAMP_RAKNET_VEHICLE_MOD_SLOTS 0, vs_pos = [0, 0, 0], vs_rotation = 0, vs_health = 0,
      vs_door_damage = 0, vs_panel_damage = 0, vs_trailer_vehicle_id = 0, vs_trailer_attached = 0,
      vs_params = replicate SAMP_RAKNET_VEHICLE_PARAM_BYTES 0, vs_body_color1 = 0, vs_body_color2 = 0, vs_number_plate = []\<rparr>"

text \<open>The pool, and the game: the handles of its cars and how many were asked for.\<close>

record vehicle_pool =
  vp_slots :: "vehicle_slot list"
  vp_plates :: "string list"
  vp_event_seq :: u32
  vp_active_count :: int
  vp_pending_count :: int
  vp_last_tick :: u32
  vp_hold_until :: u32
  vp_cars :: "u32 list"
  vp_asked :: nat

section \<open>The game\<close>

datatype script_arg = IntArg int | FloatArg f32 | TextArg string

text \<open>Commands of the game's script engine, and the direct writes into its vehicles: the health, the rest of the created
  state (colours, damage, tyres, siren), and the call that serves the audio of a vehicle.\<close>

datatype car_effect =
  RequestModel int
| Opcode nat "script_arg list"
| CreateCar int "f32 list"
| WriteHealth u32 f32
| CreatedState u32
| ServiceAudio u32

record car_env =
  script_ok :: "nat \<Rightarrow> script_arg list \<Rightarrow> bool"
  new_car :: "nat \<Rightarrow> u32 list \<Rightarrow> u32 option"
  model_available :: "int \<Rightarrow> bool"
  in_game_pool :: "u32 \<Rightarrow> bool"
  player_ped :: bool
  vehicle_vtable :: "u32 \<Rightarrow> u32 option"
  live_health :: "u32 \<Rightarrow> f32 option"
  driver_seated :: "u32 \<Rightarrow> bool"
  player_seated :: "u32 \<Rightarrow> bool"
  audio_readable :: "u32 \<Rightarrow> bool"
  scene_ready :: bool
  object_hold_until :: u32
  car_clock :: u32

definition handle_arg :: "u32 \<Rightarrow> script_arg" where
  "handle_arg h = IntArg (sint h)"

section \<open>Checks\<close>

definition vehicle_compat_id_valid :: "u16 \<Rightarrow> bool" where
  "vehicle_compat_id_valid i \<longleftrightarrow> unat i < SAMP_RAKNET_MAX_VEHICLES"

definition vehicle_compat_model_valid :: "int \<Rightarrow> bool" where
  "vehicle_compat_model_valid m \<longleftrightarrow> SAMP_VEHICLE_COMPAT_MODEL_MIN \<le> m \<and> m \<le> SAMP_VEHICLE_COMPAT_MODEL_MAX"

definition vehicle_compat_is_train_model :: "int \<Rightarrow> bool" where
  "vehicle_compat_is_train_model m \<longleftrightarrow> m = 538 \<or> m = 537 \<or> m = 570 \<or> m = 569 \<or> m = 449"

definition vehicle_compat_vec_plausible :: "f32 list \<Rightarrow> bool" where
  "vehicle_compat_vec_plausible v \<longleftrightarrow> f32_finite (v ! 0) \<and> f32_finite (v ! 1) \<and> f32_finite (v ! 2) \<and>
     f32_between (- 30000) 30000 (v ! 0) \<and> f32_between (- 30000) 30000 (v ! 1) \<and> f32_between (- 5000) 20000 (v ! 2)"

definition vehicle_compat_rotation_plausible :: "f32 \<Rightarrow> bool" where
  "vehicle_compat_rotation_plausible r \<longleftrightarrow> f32_finite r \<and> f32_between (- 720) 720 r"

definition vehicle_compat_health_plausible :: "f32 \<Rightarrow> bool" where
  "vehicle_compat_health_plausible h \<longleftrightarrow> f32_finite h \<and> f32_within 0 10000 h"

section \<open>Slot operations\<close>

definition slot_of :: "nat \<Rightarrow> vehicle_pool \<Rightarrow> vehicle_slot" where
  "slot_of i p = vp_slots p ! i"

definition set_slot :: "nat \<Rightarrow> vehicle_slot \<Rightarrow> vehicle_pool \<Rightarrow> vehicle_pool" where
  "set_slot i s p = p\<lparr>vp_slots := (vp_slots p)[i := s]\<rparr>"

definition less_one :: "int \<Rightarrow> int" where
  "less_one n = (if n - 1 < 0 then 0 else n - 1)"

definition vehicle_compat_clear_pending_slot :: "nat \<Rightarrow> vehicle_pool \<Rightarrow> vehicle_pool" where
  "vehicle_compat_clear_pending_slot i p =
     (if vs_pending (slot_of i p)
      then (set_slot i ((slot_of i p)\<lparr>vs_pending := False\<rparr>) p)\<lparr>vp_pending_count := less_one (vp_pending_count p)\<rparr> else p)"

definition vehicle_compat_skip_pending_slot :: "nat \<Rightarrow> vehicle_pool \<Rightarrow> vehicle_pool" where
  "vehicle_compat_skip_pending_slot i p = set_slot i zero_vehicle_slot (vehicle_compat_clear_pending_slot i p)"

definition vehicle_compat_disable_marker :: "vehicle_slot \<Rightarrow> car_effect list" where
  "vehicle_compat_disable_marker s = (if vs_marker_id s = 0 then [] else [Opcode 0x0164 [handle_arg (vs_marker_id s)]])"

definition vehicle_compat_destroy_slot :: "nat \<Rightarrow> vehicle_pool \<Rightarrow> vehicle_pool \<times> car_effect list" where
  "vehicle_compat_destroy_slot i p =
     (let s = slot_of i p;
          was_pending = vs_pending s;
          p = vehicle_compat_clear_pending_slot i p
      in if \<not> vs_active s then (if was_pending then (set_slot i zero_vehicle_slot p, []) else (p, []))
         else (set_slot i zero_vehicle_slot (p\<lparr>vp_cars := remove1 (vs_gta_id s) (vp_cars p),
                 vp_active_count := less_one (vp_active_count p)\<rparr>),
               vehicle_compat_disable_marker s @ [Opcode 0x00A6 [handle_arg (vs_gta_id s)]]))"

definition queued_slot :: "samp_raknet_vehicle_event \<Rightarrow> string \<Rightarrow> vehicle_slot" where
  "queued_slot e plate = zero_vehicle_slot\<lparr>
     vs_seq := ve_seq e, vs_model := ve_model e, vs_invulnerable_state := - 1, vs_color1 := ve_color1 e,
     vs_color2 := ve_color2 e, vs_interior := ve_interior e, vs_paintjob := ve_paintjob e,
     vs_light_damage := ve_light_damage e, vs_tyre_damage := ve_tyre_damage e, vs_siren := ve_siren e,
     vs_mods := ve_mods e, vs_pos := ve_pos e, vs_rotation := ve_rotation e, vs_health := ve_health e,
     vs_door_damage := ve_door_damage e, vs_panel_damage := ve_panel_damage e, vs_body_color1 := ve_body_color1 e,
     vs_body_color2 := ve_body_color2 e,
     vs_number_plate := take (SAMP_RAKNET_VEHICLE_NUMBER_PLATE_BYTES - 1) plate, vs_pending := True\<rparr>"

definition vehicle_compat_create_slot ::
  "car_env \<Rightarrow> samp_raknet_vehicle_event \<Rightarrow> vehicle_pool \<Rightarrow> vehicle_pool \<times> car_effect list" where
  "vehicle_compat_create_slot E e p =
     (let i = unat (ve_vehicle_id e) in
      if \<not> vehicle_compat_id_valid (ve_vehicle_id e) then (p, [])
      else if \<not> vehicle_compat_model_valid (ve_model e) then (p, [])
      else if \<not> vehicle_compat_vec_plausible (ve_pos e) \<or> \<not> vehicle_compat_rotation_plausible (ve_rotation e) \<or>
              \<not> vehicle_compat_health_plausible (ve_health e) then (p, [])
      else if vehicle_compat_is_train_model (ve_model e) then (p, [])
      else if \<not> model_available E (ve_model e) then (p, [])
      else let (p, out) = vehicle_compat_destroy_slot i p
           in ((set_slot i (queued_slot e (vp_plates p ! i)) p)\<lparr>vp_pending_count := vp_pending_count p + 1\<rparr>, out))"

section \<open>Creating a queued vehicle\<close>

text \<open>The car is created 0.1 above the position; the model is loaded and the plate chosen before.\<close>

definition vehicle_compat_apply_pending_slot ::
  "car_env \<Rightarrow> nat \<Rightarrow> vehicle_pool \<Rightarrow> bool \<times> vehicle_pool \<times> car_effect list" where
  "vehicle_compat_apply_pending_slot E i p =
     (let s = slot_of i p in
      if \<not> vs_pending s \<or> vs_active s \<or> \<not> vehicle_compat_model_valid (vs_model s) \<or> \<not> vehicle_compat_vec_plausible (vs_pos s) \<or>
         \<not> vehicle_compat_rotation_plausible (vs_rotation s) \<or> \<not> vehicle_compat_health_plausible (vs_health s)
      then (False, p, [])
      else if vehicle_compat_is_train_model (vs_model s) \<or> \<not> model_available E (vs_model s)
      then (False,
            if vs_blocked_logged s then p
            else vehicle_compat_skip_pending_slot i (set_slot i (s\<lparr>vs_blocked_logged := True\<rparr>) p), [])
      else let before = RequestModel (vs_model s) #
                 (if vs_number_plate s \<noteq> [] then [Opcode 0x0674 [IntArg (vs_model s), TextArg (vs_number_plate s)]] else []) @
                 [CreateCar (vs_model s) (vs_pos s)]
           in case new_car E (vp_asked p) (vp_cars p) of
                None \<Rightarrow> (False, vehicle_compat_skip_pending_slot i (p\<lparr>vp_asked := vp_asked p + 1\<rparr>), before)
              | Some h \<Rightarrow>
                  let p = p\<lparr>vp_asked := vp_asked p + 1, vp_cars := h # vp_cars p\<rparr>;
                      after = [Opcode 0x0175 [handle_arg h, FloatArg (vs_rotation s)], Opcode 0x09C4 [handle_arg h, IntArg 0],
                               Opcode 0x07FF [handle_arg h, IntArg 0], Opcode 0x053F [handle_arg h, IntArg 0],
                               Opcode 0x0519 [handle_arg h, IntArg 0]] @
                        (if vs_interior s \<noteq> 0 then [Opcode 0x0840 [handle_arg h, IntArg (uint (vs_interior s))]] else []) @
                        (if in_game_pool E h then [WriteHealth h (vs_health s), CreatedState h] else []);
                      p = set_slot i (s\<lparr>vs_gta_id := h, vs_active := True\<rparr>) p;
                      p = vehicle_compat_clear_pending_slot i p
                  in (True, p\<lparr>vp_active_count := vp_active_count p + 1\<rparr>, before @ after))"

definition vehicle_live :: "nat \<Rightarrow> vehicle_pool \<Rightarrow> bool" where
  "vehicle_live i p \<longleftrightarrow> vs_active (slot_of i p) \<and> vs_gta_id (slot_of i p) \<noteq> 0"

definition vehicle_compat_ensure_active :: "car_env \<Rightarrow> nat \<Rightarrow> vehicle_pool \<Rightarrow> bool \<times> vehicle_pool \<times> car_effect list" where
  "vehicle_compat_ensure_active E i p =
     (if \<not> i < SAMP_RAKNET_MAX_VEHICLES then (False, p, [])
      else if vehicle_live i p then (True, p, [])
      else let (_, p, out) = (if vs_pending (slot_of i p) then vehicle_compat_apply_pending_slot E i p else (False, p, []))
           in (vehicle_live i p, p, out))"

section \<open>Events\<close>

definition vehicle_compat_set_health :: "car_env \<Rightarrow> u16 \<Rightarrow> f32 \<Rightarrow> vehicle_pool \<Rightarrow> vehicle_pool \<times> car_effect list" where
  "vehicle_compat_set_health E vehicle_id health p =
     (let i = unat vehicle_id in
      if \<not> vehicle_compat_id_valid vehicle_id \<or> \<not> vehicle_compat_health_plausible health then (p, [])
      else let p = set_slot i ((slot_of i p)\<lparr>vs_health := health\<rparr>) p
           in if \<not> vehicle_live i p then (p, [])
              else if \<not> in_game_pool E (vs_gta_id (slot_of i p)) then (p, [])
              else (p, [WriteHealth (vs_gta_id (slot_of i p)) health]))"

text \<open>
  The environment says whether the local player has a ped, what the vtable of a car is, where it can be read and lies among
  those of the game, what its live health is, where it can be read, whether a ped sits on the driver's seat already, and whether the player sits in the car after the command.
  Driver and passengers have a command each; passenger seats are counted from 1 in the RPC and from 0 in the command.
\<close>

definition SAMP_GTA_VTBL_CPLACEABLE :: u32 where "SAMP_GTA_VTBL_CPLACEABLE = 0x863C40"
definition SAMP_GTA_ACTOR_LOCAL_ID :: int where "SAMP_GTA_ACTOR_LOCAL_ID = 1"

definition vehicle_compat_put_local_player :: "car_env \<Rightarrow> u16 \<Rightarrow> u8 \<Rightarrow> vehicle_pool \<Rightarrow> vehicle_pool \<times> car_effect list" where
  "vehicle_compat_put_local_player E vehicle_id seat p =
     (let i = unat vehicle_id; h = vs_gta_id (slot_of i p);
          health = (case live_health E h of Some v \<Rightarrow> v | None \<Rightarrow> vs_health (slot_of i p));
          (opcode, args) = (if seat = 0 then (0x036A, [IntArg SAMP_GTA_ACTOR_LOCAL_ID, handle_arg h])
                            else (0x0430, [IntArg SAMP_GTA_ACTOR_LOCAL_ID, handle_arg h, IntArg (uint (seat - 1))]))
      in if \<not> vehicle_compat_id_valid vehicle_id then (p, [])
      else if \<not> vehicle_live i p then (p, [])
      else if \<not> player_ped E \<or> \<not> in_game_pool E h then (p, [])
      else if vehicle_vtable E h = None \<or> vehicle_vtable E h = Some SAMP_GTA_VTBL_CPLACEABLE then (p, [])
      else if f32_scaled health = 0 then (p, [])
      else if seat = 0 \<and> driver_seated E h then (p, [])
      else if script_ok E opcode args \<and> player_seated E h
      then (p, [Opcode opcode args] @ (if audio_readable E h then [ServiceAudio h] else []) @ [Opcode 0x0373 []])
      else (p, [Opcode opcode args]))"

text \<open>A command to the game, and the change of the slot when the game takes it.\<close>

definition commanded ::
  "car_env \<Rightarrow> nat \<Rightarrow> nat \<Rightarrow> script_arg list \<Rightarrow> (vehicle_slot \<Rightarrow> vehicle_slot) \<Rightarrow> vehicle_pool \<Rightarrow> vehicle_pool \<times> car_effect list" where
  "commanded E i opc args f p = (if script_ok E opc args then set_slot i (f (slot_of i p)) p else p, [Opcode opc args])"

definition vehicle_compat_apply_script_event ::
  "car_env \<Rightarrow> samp_raknet_vehicle_event \<Rightarrow> vehicle_pool \<Rightarrow> vehicle_pool \<times> car_effect list" where
  "vehicle_compat_apply_script_event E e p =
     (let i = unat (ve_vehicle_id e) in
      if \<not> vehicle_compat_id_valid (ve_vehicle_id e) then (p, [])
      else let (live, p, out) = vehicle_compat_ensure_active E i p
           in if \<not> live then (p, out)
              else let h = handle_arg (vs_gta_id (slot_of i p));
                       (p, out2) = (case ve_action e of
                         SetPos \<Rightarrow> commanded E i 0x00AB (h # map FloatArg (ve_pos e)) (\<lambda>s. s\<lparr>vs_pos := ve_pos e\<rparr>) p
                       | SetZAngle \<Rightarrow> commanded E i 0x0175 [h, FloatArg (ve_rotation e)] (\<lambda>s. s\<lparr>vs_rotation := ve_rotation e\<rparr>) p
                       | AttachTrailer \<Rightarrow>
                           let j = unat (ve_related_vehicle_id e) in
                           if \<not> vehicle_compat_id_valid (ve_related_vehicle_id e) then (p, [])
                           else let (live2, p, out2) = vehicle_compat_ensure_active E j p
                                in if \<not> live2 then (p, out2)
                                   else let (p, out3) = commanded E i 0x0893 [handle_arg (vs_gta_id (slot_of j p)), h]
                                          (\<lambda>s. s\<lparr>vs_trailer_vehicle_id := ve_related_vehicle_id e, vs_trailer_attached := 1\<rparr>) p
                                        in (p, out2 @ out3)
                       | DetachTrailer \<Rightarrow>
                           let s = slot_of i p; j = unat (vs_trailer_vehicle_id s)
                           in (set_slot i (s\<lparr>vs_trailer_vehicle_id := 0, vs_trailer_attached := 0\<rparr>) p,
                               if vs_trailer_attached s \<noteq> 0 \<and> vehicle_compat_id_valid (vs_trailer_vehicle_id s) \<and> vehicle_live j p
                               then [Opcode 0x07AC [handle_arg (vs_gta_id (slot_of j p)), h]] else [])
                       | SetParamsEx \<Rightarrow>
                           (set_slot i ((slot_of i p)\<lparr>vs_params := ve_params e\<rparr>) p,
                            (if ve_params e ! 0 \<le> 1 then [Opcode 0x0918 [h, IntArg (uint (ve_params e ! 0))]] else []) @
                            (if ve_params e ! 1 \<le> 1 then [Opcode 0x067F [h, IntArg (uint (ve_params e ! 1))]] else []) @
                            (if ve_params e ! 3 \<le> 1 then [Opcode 0x0519 [h, IntArg (uint (ve_params e ! 3))]] else []))
                       | RemoveComponent \<Rightarrow> (p, [Opcode 0x06E8 [h, IntArg (ve_component e)]])
                       | LinkInterior \<Rightarrow> commanded E i 0x0840 [h, IntArg (uint (ve_interior e))] (\<lambda>s. s\<lparr>vs_interior := ve_interior e\<rparr>) p
                       | SetNumberPlate \<Rightarrow>
                           let plate = take (SAMP_RAKNET_VEHICLE_NUMBER_PLATE_BYTES - 1) (ve_number_plate e);
                               p = p\<lparr>vp_plates := (vp_plates p)[i := plate]\<rparr>
                           in (set_slot i ((slot_of i p)\<lparr>vs_number_plate := plate\<rparr>) p,
                               [Opcode 0x0674 [IntArg (vs_model (slot_of i p)), TextArg plate]])
                       | SetParamsForPlayer \<Rightarrow>
                           let s = slot_of i p;
                               s = (if ve_params e ! 0 \<le> 1 then s\<lparr>vs_params := (vs_params s)[6 := ve_params e ! 0]\<rparr> else s);
                               s = (if ve_params e ! 1 \<le> 1 then s\<lparr>vs_params := (vs_params s)[3 := ve_params e ! 1]\<rparr> else s)
                           in (set_slot i s p, if ve_params e ! 1 \<le> 1 then [Opcode 0x0519 [h, IntArg (uint (ve_params e ! 1))]] else [])
                       | _ \<Rightarrow> (p, []))
                   in (p, out @ out2))"

definition vehicle_compat_apply_event ::
  "car_env \<Rightarrow> samp_raknet_vehicle_event \<Rightarrow> vehicle_pool \<Rightarrow> vehicle_pool \<times> car_effect list" where
  "vehicle_compat_apply_event E e p =
     (if ve_seq e = 0 \<or> \<not> vehicle_compat_id_valid (ve_vehicle_id e) then (p, [])
      else case ve_action e of
        NoVehicleAction \<Rightarrow> (p, [])
      | CreateVehicle \<Rightarrow> vehicle_compat_create_slot E e p
      | DestroyVehicle \<Rightarrow> vehicle_compat_destroy_slot (unat (ve_vehicle_id e)) p
      | SetHealth \<Rightarrow> vehicle_compat_set_health E (ve_vehicle_id e) (ve_health e) p
      | PutLocalPlayer \<Rightarrow> vehicle_compat_put_local_player E (ve_vehicle_id e) (ve_seat_id e) p
      | _ \<Rightarrow> vehicle_compat_apply_script_event E e p)"

section \<open>Frames\<close>

definition vehicle_compat_can_flush_pending :: "car_env \<Rightarrow> bool" where
  "vehicle_compat_can_flush_pending E \<longleftrightarrow> scene_ready E \<and>
     (object_hold_until E = 0 \<or> object_hold_until E - car_clock E \<ge> 0x80000000)"

text \<open>The loop over the slots, with the rest of the budget.\<close>

fun flush_loop :: "car_env \<Rightarrow> nat list \<Rightarrow> nat \<Rightarrow> vehicle_pool \<Rightarrow> vehicle_pool \<times> car_effect list" where
  "flush_loop E [] budget p = (p, [])"
| "flush_loop E (i # is) budget p =
     (if vs_pending (slot_of i p) \<and> \<not> vs_active (slot_of i p)
      then case vehicle_compat_apply_pending_slot E i p of (applied, p, out) \<Rightarrow>
        if applied
        then let p = p\<lparr>vp_last_tick := car_clock E\<rparr>
             in if budget \<le> 1 then (p, out) else (case flush_loop E is (budget - 1) p of (p, out2) \<Rightarrow> (p, out @ out2))
        else (case flush_loop E is budget p of (p, out2) \<Rightarrow> (p, out @ out2))
      else flush_loop E is budget p)"

definition vehicle_compat_flush_pending :: "car_env \<Rightarrow> nat \<Rightarrow> vehicle_pool \<Rightarrow> vehicle_pool \<times> car_effect list" where
  "vehicle_compat_flush_pending E budget p =
     (if vp_pending_count p \<le> 0 \<or> budget = 0 \<or> \<not> vehicle_compat_can_flush_pending E then (p, [])
      else if vp_hold_until p \<noteq> 0 \<and> sint (car_clock E - vp_hold_until p) < 0 then (p, [])
      else if vp_last_tick p \<noteq> 0 \<and> car_clock E - vp_last_tick p < SAMP_VEHICLE_COMPAT_CREATE_INTERVAL_MS then (p, [])
      else flush_loop E [0..<SAMP_RAKNET_MAX_VEHICLES] budget p)"

fun apply_vehicle_events :: "car_env \<Rightarrow> u32 \<Rightarrow> samp_raknet_vehicle_event list \<Rightarrow> u32 \<Rightarrow> vehicle_pool \<Rightarrow> u32 \<times> vehicle_pool \<times> car_effect list" where
  "apply_vehicle_events E previous [] latest p = (latest, p, [])"
| "apply_vehicle_events E previous (e # es) latest p =
     (if ve_seq e \<noteq> 0 \<and> ve_seq e > previous
      then case vehicle_compat_apply_event E e p of (p, out) \<Rightarrow>
           (case apply_vehicle_events E previous es (ve_seq e) p of (latest, p, out2) \<Rightarrow> (latest, p, out @ out2))
      else apply_vehicle_events E previous es latest p)"

text \<open>\<open>saw\<close> is the flag of the snapshot, \<open>es\<close> its events.\<close>

definition vehicle_compat_update_from_snapshot ::
  "car_env \<Rightarrow> bool \<Rightarrow> samp_raknet_vehicle_event list \<Rightarrow> vehicle_pool \<Rightarrow> vehicle_pool \<times> car_effect list" where
  "vehicle_compat_update_from_snapshot E saw es p =
     (let (p, out) = (if \<not> saw then (p, [])
            else case apply_vehicle_events E (vp_event_seq p) (take SAMP_RAKNET_VEHICLE_EVENT_RING es) (vp_event_seq p) p of
              (latest, p, out) \<Rightarrow> (p\<lparr>vp_event_seq := latest\<rparr>, out));
          (p, out2) = vehicle_compat_flush_pending E SAMP_VEHICLE_COMPAT_CREATE_BUDGET p
      in (p, out @ out2))"

fun reset_loop :: "nat list \<Rightarrow> vehicle_pool \<Rightarrow> vehicle_pool \<times> car_effect list" where
  "reset_loop [] p = (p, [])"
| "reset_loop (i # is) p =
     (case (if vs_active (slot_of i p) \<or> vs_pending (slot_of i p) then vehicle_compat_destroy_slot i p else (p, [])) of
        (p, out) \<Rightarrow> (case reset_loop is p of (p, out2) \<Rightarrow> (p, out @ out2)))"

definition vehicle_compat_reset_pool :: "vehicle_pool \<Rightarrow> vehicle_pool \<times> car_effect list" where
  "vehicle_compat_reset_pool p = (case reset_loop [0..<SAMP_RAKNET_MAX_VEHICLES] p of (p, out) \<Rightarrow>
     (p\<lparr>vp_event_seq := 0, vp_active_count := 0, vp_pending_count := 0, vp_last_tick := 0, vp_hold_until := 0,
        vp_slots := replicate SAMP_RAKNET_MAX_VEHICLES zero_vehicle_slot,
        vp_plates := replicate SAMP_RAKNET_MAX_VEHICLES []\<rparr>, out))"

section \<open>Invariant\<close>

text \<open>What the game promises: the handle of a new car is not 0 and not that of another of its cars.\<close>

definition fresh_handles :: "car_env \<Rightarrow> bool" where
  "fresh_handles E \<longleftrightarrow> (\<forall>n cars h. new_car E n cars = Some h \<longrightarrow> h \<noteq> 0 \<and> h \<notin> set cars)"

text \<open>A game that knows all models and refuses none of the 2000 cars the pool can have.\<close>

definition willing :: "car_env \<Rightarrow> bool" where
  "willing E \<longleftrightarrow> (\<forall>n cars. length cars < SAMP_RAKNET_MAX_VEHICLES \<longrightarrow> new_car E n cars \<noteq> None) \<and> (\<forall>m. model_available E m)"

definition spawnable :: "vehicle_slot \<Rightarrow> bool" where
  "spawnable s \<longleftrightarrow> vehicle_compat_model_valid (vs_model s) \<and> \<not> vehicle_compat_is_train_model (vs_model s) \<and>
     vehicle_compat_vec_plausible (vs_pos s) \<and> vehicle_compat_rotation_plausible (vs_rotation s) \<and>
     vehicle_compat_health_plausible (vs_health s) \<and> \<not> vs_blocked_logged s"

definition slot_ok :: "vehicle_slot \<Rightarrow> bool" where
  "slot_ok s \<longleftrightarrow> \<not> (vs_active s \<and> vs_pending s) \<and> (vs_active s \<longrightarrow> vs_gta_id s \<noteq> 0) \<and> (vs_pending s \<longrightarrow> spawnable s)"

text \<open>The handles of the active slots, and the number of pending ones.\<close>

definition handles_of :: "vehicle_slot multiset \<Rightarrow> u32 multiset" where
  "handles_of M = image_mset vs_gta_id (filter_mset vs_active M)"

definition pending_of :: "vehicle_slot multiset \<Rightarrow> nat" where
  "pending_of M = size (filter_mset vs_pending M)"

definition pool_inv :: "vehicle_pool \<Rightarrow> bool" where
  "pool_inv p \<longleftrightarrow> length (vp_slots p) = SAMP_RAKNET_MAX_VEHICLES \<and> length (vp_plates p) = SAMP_RAKNET_MAX_VEHICLES \<and>
     (\<forall>s\<in>set (vp_slots p). slot_ok s) \<and> distinct (vp_cars p) \<and> mset (vp_cars p) = handles_of (mset (vp_slots p)) \<and>
     vp_active_count p = int (size (handles_of (mset (vp_slots p)))) \<and>
     vp_pending_count p = int (pending_of (mset (vp_slots p)))"

text \<open>The vehicles of the server that the pool knows, with the event that streamed each in and its model.\<close>

definition view :: "vehicle_pool \<Rightarrow> nat \<Rightarrow> (u32 \<times> int) option" where
  "view p i = (if i < SAMP_RAKNET_MAX_VEHICLES \<and> (vs_active (slot_of i p) \<or> vs_pending (slot_of i p))
     then Some (vs_seq (slot_of i p), vs_model (slot_of i p)) else None)"

definition pool_step :: "car_env \<Rightarrow> ((nat \<Rightarrow> (u32 \<times> int) option) \<Rightarrow> (nat \<Rightarrow> (u32 \<times> int) option)) \<Rightarrow> vehicle_pool \<Rightarrow> vehicle_pool \<Rightarrow> bool" where
  "pool_step E f p p2 \<longleftrightarrow> pool_inv p2 \<and> (willing E \<longrightarrow> view p2 = f (view p))"

lemma pool_step_refl: "pool_inv p \<Longrightarrow> pool_step E (\<lambda>v. v) p p"
  by (simp add: pool_step_def)

lemma pool_step_trans: "pool_step E f p p2 \<Longrightarrow> pool_step E g p2 p3 \<Longrightarrow> pool_step E (\<lambda>v. g (f v)) p p3"
  by (simp add: pool_step_def)

lemma handles_of_add: "handles_of (add_mset s M) = (if vs_active s then add_mset (vs_gta_id s) (handles_of M) else handles_of M)"
  by (simp add: handles_of_def)

lemma pending_of_add: "pending_of (add_mset s M) = (if vs_pending s then Suc (pending_of M) else pending_of M)"
  by (simp add: pending_of_def)

lemma slots_split:
  assumes "pool_inv p" "i < SAMP_RAKNET_MAX_VEHICLES"
  obtains R where "mset (vp_slots p) = add_mset (slot_of i p) R" "\<And>s. mset ((vp_slots p)[i := s]) = add_mset s R"
    "slot_ok (slot_of i p)"
proof -
  have i: "i < length (vp_slots p)" using assms by (simp add: pool_inv_def)
  then have m: "slot_of i p \<in># mset (vp_slots p)" by (simp add: slot_of_def)
  show ?thesis
  proof (rule that)
    show "mset (vp_slots p) = add_mset (slot_of i p) (mset (vp_slots p) - {#slot_of i p#})" using m by simp
    show "mset ((vp_slots p)[i := s]) = add_mset s (mset (vp_slots p) - {#slot_of i p#})" for s
      using i by (simp add: mset_update slot_of_def)
    show "slot_ok (slot_of i p)" using m assms(1) by (simp add: pool_inv_def)
  qed
qed

lemma set_slots_ok: "\<forall>s\<in>set xs. slot_ok s \<Longrightarrow> slot_ok y \<Longrightarrow> \<forall>s\<in>set (xs[i := y]). slot_ok s"
  using set_update_subset_insert[of xs i y] by auto

lemma slot_of_set_slot: "pool_inv p \<Longrightarrow> i < SAMP_RAKNET_MAX_VEHICLES \<Longrightarrow> slot_of j (set_slot i s p) = (if j = i then s else slot_of j p)"
  by (auto simp: slot_of_def set_slot_def pool_inv_def)

lemma pool_fields [simp]:
  "vp_cars (set_slot i s p) = vp_cars p" "vp_plates (set_slot i s p) = vp_plates p" "vp_event_seq (set_slot i s p) = vp_event_seq p"
  "vp_active_count (set_slot i s p) = vp_active_count p" "vp_pending_count (set_slot i s p) = vp_pending_count p"
  "vp_asked (set_slot i s p) = vp_asked p" "vp_slots (set_slot i s p) = (vp_slots p)[i := s]"
  by (simp_all add: set_slot_def)

lemma view_set_slot:
  assumes "pool_inv p" "i < SAMP_RAKNET_MAX_VEHICLES" "vp_slots p2 = (vp_slots p)[i := s]"
  shows "view p2 = (view p)(i := (if vs_active s \<or> vs_pending s then Some (vs_seq s, vs_model s) else None))"
proof
  fix j
  have "slot_of j p2 = (if j = i then s else slot_of j p)" using assms by (auto simp: slot_of_def pool_inv_def)
  then show "view p2 j = ((view p)(i := (if vs_active s \<or> vs_pending s then Some (vs_seq s, vs_model s) else None))) j"
    using assms(2) by (cases "j = i") (simp_all add: view_def)
qed

text \<open>A change of a slot that leaves its state, its handle and its vehicle.\<close>

definition same_vehicle :: "vehicle_slot \<Rightarrow> vehicle_slot \<Rightarrow> bool" where
  "same_vehicle s s2 \<longleftrightarrow> vs_active s2 = vs_active s \<and> vs_pending s2 = vs_pending s \<and> vs_gta_id s2 = vs_gta_id s \<and>
     vs_seq s2 = vs_seq s \<and> vs_model s2 = vs_model s"

lemma set_slot_same:
  assumes "pool_inv p" "i < SAMP_RAKNET_MAX_VEHICLES" "same_vehicle (slot_of i p) s" "slot_ok s"
  shows "pool_step E (\<lambda>v. v) p (set_slot i s p)"
proof -
  obtain R where R: "mset (vp_slots p) = add_mset (slot_of i p) R" "\<And>s. mset ((vp_slots p)[i := s]) = add_mset s R"
    using slots_split[OF assms(1,2)] by blast
  have h: "handles_of (add_mset s R) = handles_of (add_mset (slot_of i p) R)" "pending_of (add_mset s R) = pending_of (add_mset (slot_of i p) R)"
    using assms(3) by (auto simp: handles_of_add pending_of_add same_vehicle_def)
  have "\<forall>x\<in>set ((vp_slots p)[i := s]). slot_ok x" by (rule set_slots_ok) (use assms in \<open>simp_all add: pool_inv_def\<close>)
  then have inv: "pool_inv (set_slot i s p)" using assms(1) R h by (simp add: pool_inv_def)
  have "view (set_slot i s p) = (view p)(i := (if vs_active s \<or> vs_pending s then Some (vs_seq s, vs_model s) else None))"
    by (rule view_set_slot[OF assms(1,2)]) simp
  also have "\<dots> = view p" using assms(2,3) by (auto simp: view_def same_vehicle_def fun_eq_iff)
  finally show ?thesis using inv by (simp add: pool_step_def)
qed

section \<open>Destroying and queueing\<close>

lemma zero_slot [simp]: "\<not> vs_active zero_vehicle_slot" "\<not> vs_pending zero_vehicle_slot" "slot_ok zero_vehicle_slot"
  by (simp_all add: zero_vehicle_slot_def slot_ok_def)

lemma clear_pending_slots:
  "vp_slots (set_slot i s (vehicle_compat_clear_pending_slot i p)) = (vp_slots p)[i := s]"
  "vp_cars (vehicle_compat_clear_pending_slot i p) = vp_cars p" "vp_plates (vehicle_compat_clear_pending_slot i p) = vp_plates p"
  "vp_active_count (vehicle_compat_clear_pending_slot i p) = vp_active_count p"
  "vp_event_seq (vehicle_compat_clear_pending_slot i p) = vp_event_seq p"
  "vp_pending_count (vehicle_compat_clear_pending_slot i p) =
    (if vs_pending (slot_of i p) then less_one (vp_pending_count p) else vp_pending_count p)"
  by (simp_all add: vehicle_compat_clear_pending_slot_def)

lemma destroy_ok:
  assumes "pool_inv p" "i < SAMP_RAKNET_MAX_VEHICLES"
  shows "pool_step E (\<lambda>v. v(i := None)) p (fst (vehicle_compat_destroy_slot i p))"
    "vp_event_seq (fst (vehicle_compat_destroy_slot i p)) = vp_event_seq p"
    "\<not> vs_active (slot_of i (fst (vehicle_compat_destroy_slot i p))) \<and> \<not> vs_pending (slot_of i (fst (vehicle_compat_destroy_slot i p)))"
proof -
  let ?s = "slot_of i p"
  let ?p2 = "fst (vehicle_compat_destroy_slot i p)"
  obtain R where R: "mset (vp_slots p) = add_mset ?s R" "\<And>s. mset ((vp_slots p)[i := s]) = add_mset s R" "slot_ok ?s"
    using slots_split[OF assms] by blast
  have d: "length (vp_slots p) = SAMP_RAKNET_MAX_VEHICLES" "length (vp_plates p) = SAMP_RAKNET_MAX_VEHICLES"
    "\<forall>s\<in>set (vp_slots p). slot_ok s" "distinct (vp_cars p)" "mset (vp_cars p) = handles_of (add_mset ?s R)"
    "vp_active_count p = int (size (handles_of (add_mset ?s R)))" "vp_pending_count p = int (pending_of (add_mset ?s R))"
    using assms(1) R(1) by (auto simp: pool_inv_def)
  have ok: "\<forall>s\<in>set ((vp_slots p)[i := zero_vehicle_slot]). slot_ok s" by (rule set_slots_ok[OF d(3)]) simp
  have z: "handles_of (add_mset zero_vehicle_slot R) = handles_of R" "pending_of (add_mset zero_vehicle_slot R) = pending_of R"
    by (simp_all add: handles_of_add pending_of_add)
  have i: "i < length (vp_slots p)" using assms(2) d(1) by simp
  show "pool_step E (\<lambda>v. v(i := None)) p ?p2"
  proof (cases "vs_active ?s \<or> vs_pending ?s")
    case False
    then have "?p2 = p" by (simp add: vehicle_compat_destroy_slot_def vehicle_compat_clear_pending_slot_def)
    moreover have "(view p)(i := None) = view p" using False by (auto simp: view_def)
    ultimately show ?thesis using assms(1) by (simp add: pool_step_def)
  next
    case True
    then have slots: "vp_slots ?p2 = (vp_slots p)[i := zero_vehicle_slot]"
      by (auto simp: vehicle_compat_destroy_slot_def clear_pending_slots vehicle_compat_clear_pending_slot_def Let_def)
    have plates: "vp_plates ?p2 = vp_plates p"
      by (simp add: vehicle_compat_destroy_slot_def clear_pending_slots Let_def)
    have "pool_inv ?p2"
    proof (cases "vs_active ?s")
      case True
      then have np: "\<not> vs_pending ?s" using R(3) by (simp add: slot_ok_def)
      have c: "vp_cars ?p2 = remove1 (vs_gta_id ?s) (vp_cars p)" "vp_active_count ?p2 = less_one (vp_active_count p)"
        "vp_pending_count ?p2 = vp_pending_count p"
        using True np by (simp_all add: vehicle_compat_destroy_slot_def clear_pending_slots Let_def)
      show ?thesis using d ok z True np slots plates c R(2)
        by (simp add: pool_inv_def handles_of_add pending_of_add less_one_def)
    next
      case False
      then have p: "vs_pending ?s" using True by simp
      have c: "vp_cars ?p2 = vp_cars p" "vp_active_count ?p2 = vp_active_count p" "vp_pending_count ?p2 = less_one (vp_pending_count p)"
        using False p by (simp_all add: vehicle_compat_destroy_slot_def clear_pending_slots Let_def)
      show ?thesis using d ok z False p slots plates c R(2)
        by (simp add: pool_inv_def handles_of_add pending_of_add less_one_def)
    qed
    moreover have "view ?p2 = (view p)(i := None)" using view_set_slot[OF assms slots] by simp
    ultimately show ?thesis by (simp add: pool_step_def)
  qed
  show "vp_event_seq ?p2 = vp_event_seq p"
    by (simp add: vehicle_compat_destroy_slot_def clear_pending_slots Let_def)
  show "\<not> vs_active (slot_of i ?p2) \<and> \<not> vs_pending (slot_of i ?p2)"
    using i by (auto simp: vehicle_compat_destroy_slot_def vehicle_compat_clear_pending_slot_def slot_of_def set_slot_def Let_def)
qed

definition streamable :: "car_env \<Rightarrow> samp_raknet_vehicle_event \<Rightarrow> bool" where
  "streamable E e \<longleftrightarrow> vehicle_compat_id_valid (ve_vehicle_id e) \<and> vehicle_compat_model_valid (ve_model e) \<and>
     vehicle_compat_vec_plausible (ve_pos e) \<and> vehicle_compat_rotation_plausible (ve_rotation e) \<and>
     vehicle_compat_health_plausible (ve_health e) \<and> \<not> vehicle_compat_is_train_model (ve_model e) \<and> model_available E (ve_model e)"

lemma create_ok:
  assumes "pool_inv p"
  shows "pool_step E (\<lambda>v. if streamable E e then v(unat (ve_vehicle_id e) := Some (ve_seq e, ve_model e)) else v) p
    (fst (vehicle_compat_create_slot E e p))"
    "vp_event_seq (fst (vehicle_compat_create_slot E e p)) = vp_event_seq p"
proof -
  let ?i = "unat (ve_vehicle_id e)"
  let ?p1 = "fst (vehicle_compat_destroy_slot ?i p)"
  let ?p2 = "fst (vehicle_compat_create_slot E e p)"
  show "pool_step E (\<lambda>v. if streamable E e then v(?i := Some (ve_seq e, ve_model e)) else v) p ?p2"
  proof (cases "streamable E e")
    case False
    then have "?p2 = p" by (auto simp: vehicle_compat_create_slot_def streamable_def Let_def)
    with False assms show ?thesis by (simp add: pool_step_def)
  next
    case True
    then have i: "?i < SAMP_RAKNET_MAX_VEHICLES" by (simp add: streamable_def vehicle_compat_id_valid_def)
    let ?s = "queued_slot e (vp_plates ?p1 ! ?i)"
    have p2: "?p2 = (set_slot ?i ?s ?p1)\<lparr>vp_pending_count := vp_pending_count ?p1 + 1\<rparr>"
      using True by (simp add: vehicle_compat_create_slot_def streamable_def Let_def split_def)
    have s: "\<not> vs_active ?s" "vs_pending ?s" "vs_seq ?s = ve_seq e" "vs_model ?s = ve_model e" "slot_ok ?s"
      using True by (simp_all add: queued_slot_def slot_ok_def spawnable_def streamable_def zero_vehicle_slot_def)
    note d = destroy_ok(1)[OF assms i, of E] destroy_ok(2,3)[OF assms i]
    have inv1: "pool_inv ?p1" using d(1) by (simp add: pool_step_def)
    obtain R where R: "mset (vp_slots ?p1) = add_mset (slot_of ?i ?p1) R" "\<And>s. mset ((vp_slots ?p1)[?i := s]) = add_mset s R"
      using slots_split[OF inv1 i] by blast
    have h: "handles_of (add_mset ?s R) = handles_of (add_mset (slot_of ?i ?p1) R)"
      "pending_of (add_mset ?s R) = Suc (pending_of (add_mset (slot_of ?i ?p1) R))"
      using d(3) s by (simp_all add: handles_of_add pending_of_add)
    have "\<forall>x\<in>set ((vp_slots ?p1)[?i := ?s]). slot_ok x" by (rule set_slots_ok) (use inv1 s in \<open>simp_all add: pool_inv_def\<close>)
    then have inv: "pool_inv ?p2" using inv1 R h unfolding p2 by (simp add: pool_inv_def)
    have "view ?p2 = (view ?p1)(?i := Some (ve_seq e, ve_model e))"
      using view_set_slot[OF inv1 i, of ?p2 ?s] s by (simp add: p2)
    then show ?thesis using inv d(1) True by (simp add: pool_step_def)
  qed
  show "vp_event_seq ?p2 = vp_event_seq p"
  proof (cases "streamable E e")
    case True
    then have "?i < SAMP_RAKNET_MAX_VEHICLES" by (simp add: streamable_def vehicle_compat_id_valid_def)
    then show ?thesis using destroy_ok(2)[OF assms, of ?i]
      by (auto simp: vehicle_compat_create_slot_def Let_def split_def)
  qed (auto simp: vehicle_compat_create_slot_def streamable_def Let_def)
qed

section \<open>Creating\<close>

lemma skip_pending_ok:
  assumes "pool_inv p" "i < SAMP_RAKNET_MAX_VEHICLES" "vs_pending (slot_of i p)" "\<not> willing E"
    "p2 = vehicle_compat_skip_pending_slot i (p\<lparr>vp_asked := n\<rparr>) \<or> p2 = vehicle_compat_skip_pending_slot i (set_slot i ((slot_of i p)\<lparr>vs_blocked_logged := True\<rparr>) p)"
  shows "pool_step E (\<lambda>v. v) p p2"
proof -
  let ?s = "slot_of i p"
  obtain R where R: "mset (vp_slots p) = add_mset ?s R" "\<And>s. mset ((vp_slots p)[i := s]) = add_mset s R" "slot_ok ?s"
    using slots_split[OF assms(1,2)] by blast
  have i: "i < length (vp_slots p)" using assms(1,2) by (simp add: pool_inv_def)
  have na: "\<not> vs_active ?s" using R(3) assms(3) by (simp add: slot_ok_def)
  have f: "vp_slots p2 = (vp_slots p)[i := zero_vehicle_slot]" "vp_cars p2 = vp_cars p" "vp_plates p2 = vp_plates p"
    "vp_active_count p2 = vp_active_count p" "vp_pending_count p2 = less_one (vp_pending_count p)"
    using assms(3,5) i by (auto simp: vehicle_compat_skip_pending_slot_def vehicle_compat_clear_pending_slot_def slot_of_def set_slot_def)
  have "\<forall>s\<in>set ((vp_slots p)[i := zero_vehicle_slot]). slot_ok s" by (rule set_slots_ok) (use assms(1) in \<open>simp_all add: pool_inv_def\<close>)
  then have "pool_inv p2" using assms(1,3) na R f by (simp add: pool_inv_def handles_of_add pending_of_add less_one_def)
  then show ?thesis using assms(4) by (simp add: pool_step_def)
qed

definition applied_of :: "bool \<times> vehicle_pool \<times> car_effect list \<Rightarrow> vehicle_pool" where
  "applied_of r = fst (snd r)"

lemma apply_pending_ok:
  assumes "pool_inv p" "i < SAMP_RAKNET_MAX_VEHICLES" "fresh_handles E"
  defines "r \<equiv> vehicle_compat_apply_pending_slot E i p"
  shows "pool_step E (\<lambda>v. v) p (applied_of r)" "vp_event_seq (applied_of r) = vp_event_seq p"
    "willing E \<Longrightarrow> vs_pending (slot_of i p) \<Longrightarrow>
       fst r \<and> vs_active (slot_of i (applied_of r)) \<and> vp_pending_count (applied_of r) = vp_pending_count p - 1"
    "\<not> vs_pending (slot_of i p) \<Longrightarrow> applied_of r = p"
proof -
  let ?s = "slot_of i p"
  obtain R where R: "mset (vp_slots p) = add_mset ?s R" "\<And>s. mset ((vp_slots p)[i := s]) = add_mset s R" "slot_ok ?s"
    using slots_split[OF assms(1,2)] by blast
  have i: "i < length (vp_slots p)" using assms(1,2) by (simp add: pool_inv_def)
  show np: "applied_of r = p" if "\<not> vs_pending ?s"
    using that by (simp add: r_def applied_of_def vehicle_compat_apply_pending_slot_def Let_def)
  have pend: "pool_step E (\<lambda>v. v) p (applied_of r) \<and> vp_event_seq (applied_of r) = vp_event_seq p \<and>
      (willing E \<longrightarrow> fst r \<and> vs_active (slot_of i (applied_of r)) \<and> vp_pending_count (applied_of r) = vp_pending_count p - 1)"
    if p: "vs_pending ?s"
  proof -
    have sp: "spawnable ?s" "\<not> vs_active ?s" using R(3) p by (auto simp: slot_ok_def)
    show ?thesis
    proof (cases "model_available E (vs_model ?s)")
      case False
      let ?p2 = "vehicle_compat_skip_pending_slot i (set_slot i (?s\<lparr>vs_blocked_logged := True\<rparr>) p)"
      have a: "applied_of r = ?p2" using False sp p
        by (simp add: r_def applied_of_def vehicle_compat_apply_pending_slot_def spawnable_def Let_def)
      have nw: "\<not> willing E" using False by (auto simp: willing_def)
      have "pool_step E (\<lambda>v. v) p ?p2" using skip_pending_ok[OF assms(1,2) p nw] by blast
      then show ?thesis using nw a by (simp add: vehicle_compat_skip_pending_slot_def clear_pending_slots)
    next
      case avail: True
      show ?thesis
      proof (cases "new_car E (vp_asked p) (vp_cars p)")
        case None
        let ?p2 = "vehicle_compat_skip_pending_slot i (p\<lparr>vp_asked := vp_asked p + 1\<rparr>)"
        have a: "applied_of r = ?p2" using None avail sp p
          by (simp add: r_def applied_of_def vehicle_compat_apply_pending_slot_def spawnable_def Let_def)
        have "length (vp_cars p) = size (handles_of (mset (vp_slots p)))" using assms(1) by (metis pool_inv_def size_mset)
        also have "\<dots> \<le> size R" using sp(2) R(1) by (simp add: handles_of_add) (simp add: handles_of_def size_filter_mset_lesseq)
        also have "\<dots> < length (vp_slots p)" using R(1) by (metis lessI size_add_mset size_mset)
        finally have "length (vp_cars p) < SAMP_RAKNET_MAX_VEHICLES" using assms(1) by (simp add: pool_inv_def)
        then have nw: "\<not> willing E" using None by (auto simp: willing_def)
        have "pool_step E (\<lambda>v. v) p ?p2" using skip_pending_ok[OF assms(1,2) p nw] by blast
        then show ?thesis using nw a by (simp add: vehicle_compat_skip_pending_slot_def clear_pending_slots)
      next
        case (Some h)
        let ?t = "?s\<lparr>vs_gta_id := h, vs_active := True, vs_pending := False\<rparr>"
        let ?p2 = "applied_of r"
        have h: "h \<noteq> 0" "h \<notin> set (vp_cars p)" using assms(3) Some by (auto simp: fresh_handles_def)
        have f: "vp_slots ?p2 = (vp_slots p)[i := ?t]" "vp_cars ?p2 = h # vp_cars p" "vp_plates ?p2 = vp_plates p"
          "vp_active_count ?p2 = vp_active_count p + 1" "vp_pending_count ?p2 = less_one (vp_pending_count p)"
          "vp_event_seq ?p2 = vp_event_seq p" "fst r"
          using Some avail sp p i
          by (simp_all add: r_def applied_of_def vehicle_compat_apply_pending_slot_def spawnable_def Let_def
            vehicle_compat_clear_pending_slot_def slot_of_def set_slot_def)
        have t: "slot_ok ?t" using h by (simp add: slot_ok_def)
        have "\<forall>x\<in>set ((vp_slots p)[i := ?t]). slot_ok x" by (rule set_slots_ok[OF _ t]) (use assms(1) in \<open>simp add: pool_inv_def\<close>)
        then have "pool_inv ?p2" using assms(1) p sp(2) R h f by (simp add: pool_inv_def handles_of_add pending_of_add less_one_def)
        moreover have "view ?p2 = view p"
        proof -
          have "view ?p2 = (view p)(i := Some (vs_seq ?s, vs_model ?s))" using view_set_slot[OF assms(1,2) f(1)] by simp
          then show ?thesis using p assms(2) by (auto simp: view_def fun_eq_iff)
        qed
        moreover have "vp_pending_count p > 0" using assms(1) R(1) p by (simp add: pool_inv_def pending_of_add)
        moreover have "vs_active (slot_of i ?p2)" using f(1) i by (simp add: slot_of_def)
        ultimately show ?thesis using f by (simp add: pool_step_def less_one_def)
      qed
    qed
  qed
  show "pool_step E (\<lambda>v. v) p (applied_of r)" "vp_event_seq (applied_of r) = vp_event_seq p"
    using pend np pool_step_refl[OF assms(1), of E] by (cases "vs_pending ?s"; simp)+
  show "fst r \<and> vs_active (slot_of i (applied_of r)) \<and> vp_pending_count (applied_of r) = vp_pending_count p - 1"
    if "willing E" "vs_pending ?s" using pend that by simp
qed

section \<open>The other events\<close>

text \<open>Steps that keep the view and the number of the last event.\<close>

definition quiet_step :: "car_env \<Rightarrow> vehicle_pool \<Rightarrow> vehicle_pool \<Rightarrow> bool" where
  "quiet_step E p p2 \<longleftrightarrow> pool_step E (\<lambda>v. v) p p2 \<and> vp_event_seq p2 = vp_event_seq p"

lemma quiet_refl: "pool_inv p \<Longrightarrow> quiet_step E p p"
  by (simp add: quiet_step_def pool_step_refl)

lemma quiet_trans: "quiet_step E p p2 \<Longrightarrow> quiet_step E p2 p3 \<Longrightarrow> quiet_step E p p3"
  by (auto simp: quiet_step_def pool_step_def)

lemma quiet_inv: "quiet_step E p p2 \<Longrightarrow> pool_inv p2"
  by (simp add: quiet_step_def pool_step_def)

lemma live_update:
  assumes "pool_inv p" "i < SAMP_RAKNET_MAX_VEHICLES" "vehicle_live i p" "same_vehicle (slot_of i p) s"
  shows "quiet_step E p (set_slot i s p)"
proof -
  have "slot_ok (slot_of i p)" using slots_split[OF assms(1,2)] by blast
  then have "slot_ok s" using assms(3,4) by (simp add: slot_ok_def same_vehicle_def vehicle_live_def)
  then show ?thesis using set_slot_same[OF assms(1,2,4)] by (simp add: quiet_step_def)
qed

lemma ensure_active_ok:
  assumes "pool_inv p" "fresh_handles E" "vehicle_compat_ensure_active E i p = (live, p2, out)"
  shows "quiet_step E p p2" "live \<Longrightarrow> vehicle_live i p2 \<and> i < SAMP_RAKNET_MAX_VEHICLES"
proof -
  consider "\<not> i < SAMP_RAKNET_MAX_VEHICLES \<or> vehicle_live i p \<or> \<not> vs_pending (slot_of i p)"
    | (pending) "i < SAMP_RAKNET_MAX_VEHICLES" "\<not> vehicle_live i p" "vs_pending (slot_of i p)" by blast
  then show "quiet_step E p p2"
  proof cases
    case 1
    then have "p2 = p" using assms(3) by (auto simp: vehicle_compat_ensure_active_def split: if_splits)
    then show ?thesis using quiet_refl[OF assms(1)] by simp
  next
    case pending
    then have "p2 = applied_of (vehicle_compat_apply_pending_slot E i p)"
      using assms(3) by (auto simp: vehicle_compat_ensure_active_def applied_of_def Let_def split: prod.splits)
    then show ?thesis using apply_pending_ok(1,2)[OF assms(1) pending(1) assms(2)] by (simp add: quiet_step_def)
  qed
  show "vehicle_live i p2 \<and> i < SAMP_RAKNET_MAX_VEHICLES" if live
    using that assms(3) by (auto simp: vehicle_compat_ensure_active_def Let_def split: if_splits prod.splits)
qed

lemma commanded_ok:
  assumes "pool_inv p" "i < SAMP_RAKNET_MAX_VEHICLES" "vehicle_live i p" "\<And>s. same_vehicle s (f s)"
  shows "quiet_step E p (fst (commanded E i opc args f p))"
  using live_update[OF assms(1-3) assms(4)] quiet_refl[OF assms(1)] by (simp add: commanded_def)

lemma same_vehicle_intros [simp]:
  "same_vehicle s (s\<lparr>vs_pos := a\<rparr>)" "same_vehicle s (s\<lparr>vs_rotation := b\<rparr>)" "same_vehicle s (s\<lparr>vs_interior := c\<rparr>)"
  "same_vehicle s (s\<lparr>vs_params := d\<rparr>)" "same_vehicle s (s\<lparr>vs_number_plate := g\<rparr>)"
  "same_vehicle s (s\<lparr>vs_trailer_vehicle_id := h, vs_trailer_attached := k\<rparr>)" "same_vehicle s (s\<lparr>vs_health := l\<rparr>)" "same_vehicle s s"
  by (simp_all add: same_vehicle_def)

lemma plates_ok:
  "quiet_step E p p2 \<Longrightarrow> quiet_step E p (p2\<lparr>vp_plates := (vp_plates p2)[i := t]\<rparr>)"
proof -
  assume q: "quiet_step E p p2"
  have "view (p2\<lparr>vp_plates := x\<rparr>) = view p2" for x by (simp add: view_def slot_of_def fun_eq_iff)
  moreover have "pool_inv p2 \<Longrightarrow> pool_inv (p2\<lparr>vp_plates := (vp_plates p2)[i := t]\<rparr>)" by (simp add: pool_inv_def)
  ultimately show ?thesis using q by (simp add: quiet_step_def pool_step_def)
qed

text \<open>What an event does to a pool in which its vehicle is live.\<close>

lemma script_event_live:
  assumes "pool_inv p" "fresh_handles E" "i < SAMP_RAKNET_MAX_VEHICLES" "vehicle_live i p"
  shows "quiet_step E p (fst (commanded E i opc args (\<lambda>s. s\<lparr>vs_pos := a\<rparr>) p))"
    "quiet_step E p (fst (commanded E i opc args (\<lambda>s. s\<lparr>vs_rotation := b\<rparr>) p))"
    "quiet_step E p (fst (commanded E i opc args (\<lambda>s. s\<lparr>vs_interior := c\<rparr>) p))"
    "quiet_step E p (fst (commanded E i opc args (\<lambda>s. s\<lparr>vs_trailer_vehicle_id := h, vs_trailer_attached := k\<rparr>) p))"
    "quiet_step E p (set_slot i ((slot_of i p)\<lparr>vs_trailer_vehicle_id := h, vs_trailer_attached := k\<rparr>) p)"
    "quiet_step E p (set_slot i ((slot_of i p)\<lparr>vs_params := d\<rparr>) p)"
    "quiet_step E p (set_slot i ((slot_of i p)\<lparr>vs_number_plate := g\<rparr>) p)"
  using commanded_ok[OF assms(1,3,4)] live_update[OF assms(1,3,4)] by simp_all

lemma set_params_for_player_ok:
  assumes "pool_inv p" "i < SAMP_RAKNET_MAX_VEHICLES" "vehicle_live i p"
  shows "quiet_step E p (set_slot i (if b then (if a then (slot_of i p)\<lparr>vs_params := x\<rparr> else slot_of i p)\<lparr>vs_params := y\<rparr>
      else if a then (slot_of i p)\<lparr>vs_params := x\<rparr> else slot_of i p) p)"
  by (rule live_update[OF assms]) (simp add: same_vehicle_def)

lemma apply_script_event_ok:
  assumes "pool_inv p" "fresh_handles E"
  shows "quiet_step E p (fst (vehicle_compat_apply_script_event E e p))"
proof (cases "vehicle_compat_id_valid (ve_vehicle_id e)")
  case False
  then show ?thesis using quiet_refl[OF assms(1)] by (simp add: vehicle_compat_apply_script_event_def Let_def)
next
  case True
  let ?i = "unat (ve_vehicle_id e)"
  obtain live p1 out where en: "vehicle_compat_ensure_active E ?i p = (live, p1, out)" using prod_cases3 by blast
  note q1 = ensure_active_ok[OF assms en]
  have inv1: "pool_inv p1" by (rule quiet_inv[OF q1(1)])
  show ?thesis
  proof (cases live)
    case False
    then show ?thesis using q1(1) True en by (simp add: vehicle_compat_apply_script_event_def Let_def)
  next
    case lv: True
    then have i: "?i < SAMP_RAKNET_MAX_VEHICLES" and l1: "vehicle_live ?i p1" using q1(2) by auto
    note ev = script_event_live[OF inv1 assms(2) i l1]
    note st = vehicle_compat_apply_script_event_def Let_def en split_def
    have lift: "quiet_step E p p2" if "quiet_step E p1 p2" for p2 by (rule quiet_trans[OF q1(1) that])
    have self: "quiet_step E p1 p1" by (rule quiet_refl[OF inv1])
    show ?thesis
    proof (cases "ve_action e")
      case AttachTrailer
      let ?j = "unat (ve_related_vehicle_id e)"
      obtain live2 p2 out2 where en2: "vehicle_compat_ensure_active E ?j p1 = (live2, p2, out2)" using prod_cases3 by blast
      note q2 = ensure_active_ok[OF inv1 assms(2) en2]
      have inv2: "pool_inv p2" by (rule quiet_inv[OF q2(1)])
      have l2: "vehicle_live ?i p2"
      proof -
        consider "p2 = p1" | "\<not> vehicle_live ?j p1" "?j < SAMP_RAKNET_MAX_VEHICLES" "p2 = applied_of (vehicle_compat_apply_pending_slot E ?j p1)"
          using en2 by (auto simp: vehicle_compat_ensure_active_def applied_of_def Let_def split: if_splits prod.splits)
        then show ?thesis
        proof cases
          case 2
          have "?i \<noteq> ?j" using 2(1) l1 by metis
          then have "slot_of ?i p2 = slot_of ?i p1" unfolding 2(3)
            by (auto simp: applied_of_def vehicle_compat_apply_pending_slot_def vehicle_compat_skip_pending_slot_def
              vehicle_compat_clear_pending_slot_def slot_of_def set_slot_def Let_def split: option.split)
          then show ?thesis using l1 by (simp add: vehicle_live_def)
        qed (use l1 in simp)
      qed
      show ?thesis using True lv AttachTrailer en2 lift self lift[OF q2(1)]
          quiet_trans[OF lift[OF q2(1)] script_event_live(4)[OF inv2 assms(2) i l2]] by (simp add: st)
    next
      case SetNumberPlate
      have "slot_of ?i (p1\<lparr>vp_plates := x\<rparr>) = slot_of ?i p1" for x by (simp add: slot_of_def)
      moreover have "set_slot ?i s (p1\<lparr>vp_plates := x\<rparr>) = (set_slot ?i s p1)\<lparr>vp_plates := x\<rparr>" for s x by (simp add: set_slot_def)
      ultimately show ?thesis using True lv SetNumberPlate lift plates_ok[OF ev(7)] by (simp add: st)
    next
      case SetParamsForPlayer
      show ?thesis using True lv SetParamsForPlayer lift[OF set_params_for_player_ok[OF inv1 i l1]]
        by (simp add: st)
    qed (use True lv lift ev self in \<open>simp_all add: st\<close>)
  qed
qed

lemma set_health_ok:
  assumes "pool_inv p"
  shows "quiet_step E p (fst (vehicle_compat_set_health E vid health p))"
proof (cases "vehicle_compat_id_valid vid \<and> vehicle_compat_health_plausible health")
  case False
  then show ?thesis using quiet_refl[OF assms] by (auto simp: vehicle_compat_set_health_def Let_def)
next
  case True
  let ?i = "unat vid"
  have i: "?i < SAMP_RAKNET_MAX_VEHICLES" using True by (simp add: vehicle_compat_id_valid_def)
  have "slot_ok (slot_of ?i p)" using slots_split[OF assms i] by blast
  then have "slot_ok ((slot_of ?i p)\<lparr>vs_health := health\<rparr>)" using True by (simp add: slot_ok_def spawnable_def)
  then have "quiet_step E p (set_slot ?i ((slot_of ?i p)\<lparr>vs_health := health\<rparr>) p)"
    using set_slot_same[OF assms i, of "(slot_of ?i p)\<lparr>vs_health := health\<rparr>"] by (simp add: quiet_step_def)
  then show ?thesis using True by (simp add: vehicle_compat_set_health_def Let_def)
qed

definition mirrored :: "car_env \<Rightarrow> samp_raknet_vehicle_event \<Rightarrow> (nat \<Rightarrow> (u32 \<times> int) option) \<Rightarrow> nat \<Rightarrow> (u32 \<times> int) option" where
  "mirrored E e v =
     (if ve_seq e \<noteq> 0 \<and> ve_action e = CreateVehicle \<and> streamable E e then v(unat (ve_vehicle_id e) := Some (ve_seq e, ve_model e))
      else if ve_seq e \<noteq> 0 \<and> ve_action e = DestroyVehicle \<and> vehicle_compat_id_valid (ve_vehicle_id e)
      then v(unat (ve_vehicle_id e) := None) else v)"

lemma apply_event_ok:
  assumes "pool_inv p" "fresh_handles E"
  shows "pool_step E (mirrored E e) p (fst (vehicle_compat_apply_event E e p)) \<and>
    vp_event_seq (fst (vehicle_compat_apply_event E e p)) = vp_event_seq p"
proof (cases "ve_seq e = 0 \<or> \<not> vehicle_compat_id_valid (ve_vehicle_id e)")
  case True
  then have "mirrored E e v = v" for v by (auto simp: mirrored_def streamable_def)
  then show ?thesis using True assms(1) by (simp add: vehicle_compat_apply_event_def pool_step_def)
next
  case False
  then have i: "unat (ve_vehicle_id e) < SAMP_RAKNET_MAX_VEHICLES" by (simp add: vehicle_compat_id_valid_def)
  have q: "pool_step E (\<lambda>v. v) p p2 \<and> vp_event_seq p2 = vp_event_seq p" if "quiet_step E p p2" for p2
    using that by (simp add: quiet_step_def)
  note qs = q[OF apply_script_event_ok[OF assms, of e]] q[OF set_health_ok[OF assms(1)]] q[OF quiet_refl[OF assms(1)]]
  have m: "mirrored E e v = v" if "ve_action e \<noteq> CreateVehicle" "ve_action e \<noteq> DestroyVehicle" for v
    using that by (simp add: mirrored_def)
  show ?thesis
  proof (cases "ve_action e")
    case CreateVehicle
    have "mirrored E e = (\<lambda>v. if streamable E e then v(unat (ve_vehicle_id e) := Some (ve_seq e, ve_model e)) else v)"
      using CreateVehicle False by (simp add: mirrored_def fun_eq_iff)
    then show ?thesis using create_ok[OF assms(1), of E e] CreateVehicle False by (simp add: vehicle_compat_apply_event_def)
  next
    case DestroyVehicle
    have "mirrored E e = (\<lambda>v. v(unat (ve_vehicle_id e) := None))"
      using DestroyVehicle False by (simp add: mirrored_def fun_eq_iff)
    then show ?thesis using destroy_ok(1)[OF assms(1) i, of E] destroy_ok(2)[OF assms(1) i] DestroyVehicle False
      by (simp add: vehicle_compat_apply_event_def)
  next
    case PutLocalPlayer
    have "fst (vehicle_compat_put_local_player E vid seat p) = p" for vid seat by (simp add: vehicle_compat_put_local_player_def Let_def)
    then show ?thesis using PutLocalPlayer False m assms(1) by (simp add: vehicle_compat_apply_event_def pool_step_def)
  qed (use False qs m in \<open>simp_all add: vehicle_compat_apply_event_def pool_step_def\<close>)
qed

section \<open>Frames keep the invariant\<close>

lemma last_tick_ok: "quiet_step E p p2 \<Longrightarrow> quiet_step E p (p2\<lparr>vp_last_tick := t\<rparr>)"
proof -
  assume q: "quiet_step E p p2"
  have "view (p2\<lparr>vp_last_tick := t\<rparr>) = view p2" by (simp add: view_def slot_of_def fun_eq_iff)
  moreover have "pool_inv p2 \<Longrightarrow> pool_inv (p2\<lparr>vp_last_tick := t\<rparr>)" by (simp add: pool_inv_def)
  ultimately show ?thesis using q by (simp add: quiet_step_def pool_step_def)
qed

lemma flush_loop_ok:
  assumes "pool_inv p" "fresh_handles E" "\<forall>i\<in>set is. i < SAMP_RAKNET_MAX_VEHICLES"
  shows "quiet_step E p (fst (flush_loop E is budget p))"
  using assms(1,3)
proof (induction "is" arbitrary: p budget)
  case Nil
  then show ?case using quiet_refl by simp
next
  case (Cons i "is")
  show ?case
  proof (cases "vs_pending (slot_of i p) \<and> \<not> vs_active (slot_of i p)")
    case False
    then have "flush_loop E (i # is) budget p = flush_loop E is budget p" by auto
    then show ?thesis using Cons by simp
  next
    case True
    obtain applied p1 out where r: "vehicle_compat_apply_pending_slot E i p = (applied, p1, out)" using prod_cases3 by blast
    have i: "i < SAMP_RAKNET_MAX_VEHICLES" using Cons.prems(2) by simp
    have q1: "quiet_step E p p1" using apply_pending_ok(1,2)[OF Cons.prems(1) i assms(2)] r by (simp add: quiet_step_def applied_of_def)
    let ?p2 = "if applied then p1\<lparr>vp_last_tick := car_clock E\<rparr> else p1"
    have q2: "quiet_step E p ?p2" using q1 last_tick_ok[OF q1] by simp
    have "quiet_step E ?p2 (fst (flush_loop E is b ?p2))" for b using Cons.IH[OF quiet_inv[OF q2]] Cons.prems(2) by simp
    then have "quiet_step E p (fst (flush_loop E is b ?p2))" for b by (rule quiet_trans[OF q2])
    then show ?thesis using True r q2 by (auto simp: Let_def split_def split: if_splits)
  qed
qed

lemma flush_pending_ok:
  assumes "pool_inv p" "fresh_handles E"
  shows "quiet_step E p (fst (vehicle_compat_flush_pending E budget p))"
  using flush_loop_ok[OF assms] quiet_refl[OF assms(1)] by (simp add: vehicle_compat_flush_pending_def)

lemma apply_vehicle_events_ok:
  assumes "pool_inv p" "fresh_handles E"
  shows "pool_inv (fst (snd (apply_vehicle_events E previous es latest p)))"
  using assms(1)
proof (induction es arbitrary: latest p)
  case (Cons e es)
  have "pool_inv (fst (vehicle_compat_apply_event E e p))"
    using apply_event_ok[OF Cons.prems assms(2)] by (simp add: pool_step_def)
  then show ?case using Cons by (simp add: split_def)
qed simp

lemma event_seq_inv: "pool_inv p \<Longrightarrow> pool_inv (p\<lparr>vp_event_seq := n\<rparr>)"
  by (simp add: pool_inv_def)

lemma update_ok:
  assumes "pool_inv p" "fresh_handles E"
  shows "pool_inv (fst (vehicle_compat_update_from_snapshot E saw es p))"
proof -
  let ?r = "apply_vehicle_events E (vp_event_seq p) (take SAMP_RAKNET_VEHICLE_EVENT_RING es) (vp_event_seq p) p"
  have "pool_inv (fst (snd ?r))" by (rule apply_vehicle_events_ok[OF assms])
  then have "pool_inv ((fst (snd ?r))\<lparr>vp_event_seq := fst ?r\<rparr>)" by (rule event_seq_inv)
  then show ?thesis using assms quiet_inv[OF flush_pending_ok]
    by (simp add: vehicle_compat_update_from_snapshot_def split_def Let_def)
qed

definition pool_start :: vehicle_pool where
  "pool_start = \<lparr>vp_slots = replicate SAMP_RAKNET_MAX_VEHICLES zero_vehicle_slot, vp_plates = replicate SAMP_RAKNET_MAX_VEHICLES [],
     vp_event_seq = 0, vp_active_count = 0, vp_pending_count = 0, vp_last_tick = 0, vp_hold_until = 0, vp_cars = [], vp_asked = 0\<rparr>"

lemma empty_slots: "handles_of (mset (replicate n zero_vehicle_slot)) = {#}" "pending_of (mset (replicate n zero_vehicle_slot)) = 0"
  by (simp_all add: handles_of_def pending_of_def)

lemma pool_start_inv: "pool_inv pool_start"
  by (simp add: pool_inv_def pool_start_def empty_slots del: mset_replicate)

text \<open>The reset destroys what every slot holds.\<close>

lemma destroy_frame: "j \<noteq> i \<Longrightarrow> slot_of j (fst (vehicle_compat_destroy_slot i p)) = slot_of j p"
  by (auto simp: vehicle_compat_destroy_slot_def vehicle_compat_clear_pending_slot_def slot_of_def set_slot_def Let_def)

lemma reset_loop_ok:
  assumes "pool_inv p" "\<forall>i\<in>set is. i < SAMP_RAKNET_MAX_VEHICLES" "distinct is"
  shows "pool_inv (fst (reset_loop is p)) \<and>
    (\<forall>j. (vs_active (slot_of j (fst (reset_loop is p))) \<or> vs_pending (slot_of j (fst (reset_loop is p)))) \<longrightarrow>
       j \<notin> set is \<and> slot_of j (fst (reset_loop is p)) = slot_of j p)"
  using assms
proof (induction "is" arbitrary: p)
  case (Cons i "is")
  have i: "i < SAMP_RAKNET_MAX_VEHICLES" using Cons.prems(2) by simp
  let ?p1 = "if vs_active (slot_of i p) \<or> vs_pending (slot_of i p) then fst (vehicle_compat_destroy_slot i p) else p"
  have inv1: "pool_inv ?p1" using destroy_ok(1)[OF Cons.prems(1) i] Cons.prems(1) by (simp add: pool_step_def)
  have free: "\<not> vs_active (slot_of i ?p1) \<and> \<not> vs_pending (slot_of i ?p1)" using destroy_ok(3)[OF Cons.prems(1) i] by simp
  have other: "slot_of j ?p1 = slot_of j p" if "j \<noteq> i" for j using destroy_frame[OF that] by simp
  have r: "fst (reset_loop (i # is) p) = fst (reset_loop is ?p1)" by (simp add: split_def)
  have ih: "pool_inv (fst (reset_loop is ?p1))"
    "(vs_active (slot_of j (fst (reset_loop is ?p1))) \<or> vs_pending (slot_of j (fst (reset_loop is ?p1)))) \<Longrightarrow>
       j \<notin> set is \<and> slot_of j (fst (reset_loop is ?p1)) = slot_of j ?p1" for j
    using Cons.IH[OF inv1] Cons.prems(2,3) by auto
  show ?case unfolding r using ih free other by (metis set_ConsD)
qed simp

lemma reset_pool_ok:
  assumes "pool_inv p"
  shows "pool_inv (fst (vehicle_compat_reset_pool p))" "vp_cars (fst (vehicle_compat_reset_pool p)) = []"
    "vp_event_seq (fst (vehicle_compat_reset_pool p)) = 0" "view (fst (vehicle_compat_reset_pool p)) = (\<lambda>_. None)"
proof -
  let ?p1 = "fst (reset_loop [0..<SAMP_RAKNET_MAX_VEHICLES] p)"
  have r: "pool_inv ?p1" "\<And>j. vs_active (slot_of j ?p1) \<or> vs_pending (slot_of j ?p1) \<Longrightarrow> j \<notin> set [0..<SAMP_RAKNET_MAX_VEHICLES]"
    using reset_loop_ok[OF assms, of "[0..<SAMP_RAKNET_MAX_VEHICLES]"] by auto
  have len: "length (vp_slots ?p1) = SAMP_RAKNET_MAX_VEHICLES" using r(1) by (simp add: pool_inv_def)
  have "\<not> vs_active s" if "s \<in> set (vp_slots ?p1)" for s
    using that r(2) len by (auto simp: in_set_conv_nth slot_of_def)
  then have "filter_mset vs_active (mset (vp_slots ?p1)) = filter_mset (\<lambda>_. False) (mset (vp_slots ?p1))"
    by (intro filter_mset_cong) auto
  then have "handles_of (mset (vp_slots ?p1)) = {#}" by (simp add: handles_of_def)
  then have c: "vp_cars ?p1 = []" using r(1) by (simp add: pool_inv_def)
  show "vp_cars (fst (vehicle_compat_reset_pool p)) = []" using c by (simp add: vehicle_compat_reset_pool_def split_def)
  show "pool_inv (fst (vehicle_compat_reset_pool p))" using c
    by (simp add: vehicle_compat_reset_pool_def split_def pool_inv_def empty_slots del: mset_replicate)
  show "vp_event_seq (fst (vehicle_compat_reset_pool p)) = 0" by (simp add: vehicle_compat_reset_pool_def split_def)
  show "view (fst (vehicle_compat_reset_pool p)) = (\<lambda>_. None)"
    by (auto simp: vehicle_compat_reset_pool_def split_def view_def slot_of_def)
qed

section \<open>Properties\<close>

datatype pool_event = Update car_env bool "samp_raknet_vehicle_event list" | ResetPool

definition pool_event_step :: "pool_event \<Rightarrow> vehicle_pool \<Rightarrow> vehicle_pool" where
  "pool_event_step x p = (case x of
     Update E saw es \<Rightarrow> fst (vehicle_compat_update_from_snapshot E saw es p)
   | ResetPool \<Rightarrow> fst (vehicle_compat_reset_pool p))"

definition pool_event_fresh :: "pool_event \<Rightarrow> bool" where
  "pool_event_fresh x \<longleftrightarrow> (case x of Update E saw es \<Rightarrow> fresh_handles E | ResetPool \<Rightarrow> True)"

lemma pool_run_inv:
  assumes "pool_inv p" "\<forall>x\<in>set xs. pool_event_fresh x"
  shows "pool_inv (fold pool_event_step xs p)"
  using assms
proof (induction xs arbitrary: p)
  case (Cons x xs)
  have "pool_inv (pool_event_step x p)"
    using update_ok[OF Cons.prems(1)] reset_pool_ok(1)[OF Cons.prems(1)] Cons.prems(2)
    by (cases x) (simp_all add: pool_event_step_def pool_event_fresh_def)
  then show ?case using Cons by simp
qed simp

text \<open>C14: the pool leaks no car of the game and loses none. Whatever the events hold, whether or not the game creates what it is
  asked for, and however frames and resets alternate: the cars the game holds are exactly those of the active slots, each
  once; no slot is active and pending at a time; the two counters are the numbers of active and of pending slots; and a
  reset leaves the game no car.
\<close>

theorem vehicle_pool_no_leak:
  assumes "\<forall>x\<in>set xs. pool_event_fresh x"
  defines "p \<equiv> fold pool_event_step xs pool_start"
  shows "distinct (vp_cars p) \<and> mset (vp_cars p) = image_mset vs_gta_id (filter_mset vs_active (mset (vp_slots p))) \<and>
    (\<forall>s\<in>set (vp_slots p). \<not> (vs_active s \<and> vs_pending s)) \<and>
    vp_active_count p = int (length (filter vs_active (vp_slots p))) \<and>
    vp_pending_count p = int (length (filter vs_pending (vp_slots p))) \<and>
    vp_cars (fst (vehicle_compat_reset_pool p)) = []"
proof -
  have inv: "pool_inv p" unfolding p_def by (rule pool_run_inv[OF pool_start_inv assms(1)])
  have sz: "size (filter_mset P (mset (vp_slots p))) = length (filter P (vp_slots p))" for P
    by (metis mset_filter size_mset)
  show ?thesis using inv sz reset_pool_ok(2)[OF inv]
    by (auto simp: pool_inv_def handles_of_def pending_of_def slot_ok_def)
qed

text \<open>A game that numbers its cars and creates none twice.\<close>

definition next_number :: "nat \<Rightarrow> u32 list \<Rightarrow> u32 option" where
  "next_number n cars = (let h = of_nat (n + 1) in if h = 0 \<or> h \<in> set cars then None else Some h)"

definition quiet_game :: car_env where
  "quiet_game = \<lparr>script_ok = (\<lambda>_ _. True), new_car = next_number, model_available = (\<lambda>_. True), in_game_pool = (\<lambda>_. True),
     player_ped = True, vehicle_vtable = (\<lambda>_. Some 0x871120), live_health = (\<lambda>_. None), driver_seated = (\<lambda>_. False),
     player_seated = (\<lambda>_. True), audio_readable = (\<lambda>_. True), scene_ready = True, object_hold_until = 0, car_clock = 5000\<rparr>"

lemma quiet_game_fresh: "fresh_handles quiet_game"
  by (auto simp: fresh_handles_def quiet_game_def next_number_def Let_def split: if_splits)

text \<open>A game that never refuses a car: the first free number.\<close>

definition first_free :: "nat \<Rightarrow> u32 list \<Rightarrow> u32 option" where
  "first_free n cars = (case filter (\<lambda>h. h \<noteq> 0 \<and> h \<notin> set cars) (map of_nat [1..<length cars + 2]) of [] \<Rightarrow> None | h # _ \<Rightarrow> Some h)"

definition sample_event :: samp_raknet_vehicle_event where
  "sample_event = zero_vehicle_event\<lparr>ve_seq := 1, ve_action := CreateVehicle, ve_vehicle_id := 7, ve_model := 411\<rparr>"

lemma vehicle_pool_no_leak_witness:
  "let p = fold pool_event_step [Update quiet_game True [sample_event], ResetPool, Update quiet_game True [sample_event]] pool_start
   in distinct (vp_cars p) \<and> mset (vp_cars p) = image_mset vs_gta_id (filter_mset vs_active (mset (vp_slots p))) \<and>
    (\<forall>s\<in>set (vp_slots p). \<not> (vs_active s \<and> vs_pending s)) \<and>
    vp_active_count p = int (length (filter vs_active (vp_slots p))) \<and>
    vp_pending_count p = int (length (filter vs_pending (vp_slots p))) \<and>
    vp_cars (fst (vehicle_compat_reset_pool p)) = []"
  unfolding Let_def by (rule vehicle_pool_no_leak) (simp add: pool_event_fresh_def quiet_game_fresh)

section \<open>The pool follows the network layer\<close>

text \<open>The vehicles of the server after a list of events: the streamed ones that were not removed.\<close>

definition server_step :: "samp_raknet_vehicle_event \<Rightarrow> (nat \<Rightarrow> (u32 \<times> int) option) \<Rightarrow> nat \<Rightarrow> (u32 \<times> int) option" where
  "server_step e v =
     (if ve_action e = CreateVehicle \<and> \<not> vehicle_compat_is_train_model (ve_model e)
      then v(unat (ve_vehicle_id e) := Some (ve_seq e, ve_model e))
      else if ve_action e = DestroyVehicle then v(unat (ve_vehicle_id e) := None) else v)"

definition server_vehicles :: "samp_raknet_vehicle_event list \<Rightarrow> nat \<Rightarrow> (u32 \<times> int) option" where
  "server_vehicles es = fold server_step es (\<lambda>_. None)"

lemma server_vehicles_append: "server_vehicles (es @ ds) = fold server_step ds (server_vehicles es)"
  by (simp add: server_vehicles_def)

lemma mirrored_server:
  assumes "willing E" "vehicle_event_ok e" "ve_seq e \<noteq> 0"
  shows "mirrored E e = server_step e"
  using assms
  by (auto simp: mirrored_def server_step_def streamable_def vehicle_event_ok_def willing_def fun_eq_iff
    vehicle_compat_id_valid_def vehicle_id_valid_def vehicle_compat_model_valid_def vehicle_model_valid_def
    vehicle_compat_vec_plausible_def vehicle_vec_plausible_def vehicle_compat_rotation_plausible_def
    vehicle_rotation_plausible_def vehicle_compat_health_plausible_def vehicle_health_plausible_def
    vehicle_pool_consts kSampVehicleModelMin_def kSampVehicleModelMax_def)

lemma apply_vehicle_events_old:
  assumes "\<forall>e\<in>set old. ve_seq e \<le> previous"
  shows "apply_vehicle_events E previous (old @ es) latest p = apply_vehicle_events E previous es latest p"
  using assms
proof (induction old)
  case (Cons e old)
  then have "\<not> ve_seq e > previous" by (simp add: not_less)
  with Cons show ?case by simp
qed simp

lemma apply_vehicle_events_new:
  assumes "pool_inv p" "fresh_handles E" "willing E" "\<forall>e\<in>set es. ve_seq e > previous \<and> vehicle_event_ok e"
  shows "pool_inv (fst (snd (apply_vehicle_events E previous es latest p))) \<and>
    view (fst (snd (apply_vehicle_events E previous es latest p))) = fold server_step es (view p) \<and>
    fst (apply_vehicle_events E previous es latest p) = (if es = [] then latest else ve_seq (last es))"
  using assms(1,4)
proof (induction es arbitrary: latest p)
  case (Cons e es)
  have nz: "ve_seq e \<noteq> 0" "ve_seq e > previous" using Cons.prems(2) word_gt_0 order_le_less_trans by (auto simp: word_gt_0 not_less)
  let ?p1 = "fst (vehicle_compat_apply_event E e p)"
  have s: "pool_inv ?p1" "view ?p1 = server_step e (view p)"
    using apply_event_ok[OF Cons.prems(1) assms(2), of e] assms(3) mirrored_server[OF assms(3) _ nz(1)] Cons.prems(2)
    by (simp_all add: pool_step_def)
  have ih: "pool_inv (fst (snd (apply_vehicle_events E previous es (ve_seq e) ?p1))) \<and>
    view (fst (snd (apply_vehicle_events E previous es (ve_seq e) ?p1))) = fold server_step es (view ?p1) \<and>
    fst (apply_vehicle_events E previous es (ve_seq e) ?p1) = (if es = [] then ve_seq e else ve_seq (last es))"
    using Cons.IH[OF s(1)] Cons.prems(2) by simp
  then show ?case using nz s(2) by (simp add: split_def)
qed simp

definition accepted :: "(nat \<times> u8 list) list \<Rightarrow> samp_raknet_vehicle_event list" where
  "accepted rs = List.map_filter vehicle_event_of rs"

lemma accepted_ok: "e \<in> set (accepted rs) \<Longrightarrow> vehicle_event_ok e"
proof -
  assume "e \<in> set (accepted rs)"
  then obtain x where x: "vehicle_event_of x = Some e" by (auto simp: accepted_def List.map_filter_def)
  obtain r where r: "\<forall>a. r = Some a \<longrightarrow> vehicle_event_ok (event_of_args a)" "vehicle_event_of x = map_option event_of_args r"
    using vehicle_event_of_queue[of x] by blast
  then obtain a where "r = Some a" "e = event_of_args a" using x by (cases r) auto
  then show ?thesis using r(1) by blast
qed

lemma observe_saw:
  assumes "observe_vehicle_rpcs rs v = Some w" "saw_vehicle_event v \<or> accepted rs \<noteq> []"
  shows "saw_vehicle_event w"
  using assms
proof (induction rs arbitrary: v)
  case (Cons x rs)
  obtain r where r: "vehicle_event_of x = map_option event_of_args r"
    "\<forall>v. observe_vehicle_rpc x v = Some (case r of None \<Rightarrow> v | Some a \<Rightarrow> snd (queue_vehicle_event a v))"
    using vehicle_event_of_queue[of x] by blast
  let ?v = "case r of None \<Rightarrow> v | Some a \<Rightarrow> snd (queue_vehicle_event a v)"
  have w: "observe_vehicle_rpcs rs ?v = Some w" using Cons.prems(1) r(2) by simp
  have "saw_vehicle_event ?v \<or> accepted rs \<noteq> []"
    using Cons.prems(2) r(1) by (cases r) (auto simp: accepted_def List.map_filter_simps queue_vehicle_event_def Let_def split: prod.split)
  then show ?case using Cons.IH[OF w] by blast
qed (simp add: accepted_def List.map_filter_simps)

lemma number_append:
  "number_vehicle_events (es @ ds) = number_vehicle_events es @ map (\<lambda>(k, e). e\<lparr>ve_seq := of_nat (length es + k + 1)\<rparr>) (enumerate 0 ds)"
proof (induction ds rule: rev_induct)
  case (snoc d ds)
  have "number_vehicle_events (es @ ds @ [d]) = number_vehicle_events (es @ ds) @ [d\<lparr>ve_seq := of_nat (length (es @ ds) + 1)\<rparr>]"
    using number_vehicle_events_snoc[of "es @ ds" d] by simp
  then show ?case using snoc by (simp add: enumerate_append_eq)
qed simp

text \<open>One frame: what arrived since the last one, then the update.\<close>

lemma frame_follows:
  assumes "pool_inv p" "fresh_handles E" "willing E"
    and state: "vehicle_history es v" "vp_event_seq p = of_nat (length es)" "view p = server_vehicles (number_vehicle_events es)"
      "es \<noteq> [] \<longrightarrow> saw_vehicle_event v" "\<forall>e\<in>set es. vehicle_event_ok e"
    and batch: "length (accepted rs) \<le> 128" "length es + length rs < 4294967296"
  shows "\<exists>w. observe_vehicle_rpcs rs v = Some w \<and>
    (let p2 = fst (vehicle_compat_update_from_snapshot E (saw_vehicle_event w) (vehicle_snapshot w) p)
     in pool_inv p2 \<and> vehicle_history (es @ accepted rs) w \<and> vp_event_seq p2 = of_nat (length (es @ accepted rs)) \<and>
       view p2 = server_vehicles (number_vehicle_events (es @ accepted rs)) \<and> (es @ accepted rs \<noteq> [] \<longrightarrow> saw_vehicle_event w))"
proof -
  let ?ds = "accepted rs"
  obtain w where w: "observe_vehicle_rpcs rs v = Some w" "vehicle_history (es @ ?ds) w"
    using observe_vehicle_rpcs_history[OF state(1) batch(2)] by (auto simp: accepted_def)
  have saw: "es @ ?ds \<noteq> [] \<longrightarrow> saw_vehicle_event w" using observe_saw[OF w(1)] state(4) by auto
  let ?new = "map (\<lambda>(k, e). e\<lparr>ve_seq := of_nat (length es + k + 1)\<rparr>) (enumerate 0 ?ds)"
  have lds: "length ?ds \<le> length rs" by (simp add: accepted_def List.map_filter_def)
  have all: "number_vehicle_events (es @ ?ds) = number_vehicle_events es @ ?new" by (rule number_append)
  have snap: "vehicle_snapshot w = drop (length (es @ ?ds) - 128) (number_vehicle_events (es @ ?ds))"
    using ring_snapshot_suffix[OF w(2)[unfolded vehicle_history_def]] by (simp add: vehicle_snapshot_def vehicle_consts)
  have "length (es @ ?ds) - 128 \<le> length es" using batch(1) by simp
  then have cut: "vehicle_snapshot w = drop (length (es @ ?ds) - 128) (number_vehicle_events es) @ ?new"
    unfolding snap all by simp
  have tk: "take SAMP_RAKNET_VEHICLE_EVENT_RING (vehicle_snapshot w) = vehicle_snapshot w"
    unfolding snap by (simp add: vehicle_consts)
  have old: "\<forall>e\<in>set (drop (length (es @ ?ds) - 128) (number_vehicle_events es)). ve_seq e \<le> vp_event_seq p"
  proof
    fix e assume "e \<in> set (drop (length (es @ ?ds) - 128) (number_vehicle_events es))"
    then have "e \<in> set (number_vehicle_events es)" by (rule in_set_dropD)
    then obtain k where k: "k < length es" "ve_seq e = of_nat (k + 1)"
      by (auto simp: number_vehicle_events_def in_set_enumerate_eq)
    have "(of_nat (k + 1) :: u32) \<le> of_nat (length es)"
      using k(1) batch(2) by (simp add: word_le_nat_alt unat_of_nat_u32 del: of_nat_Suc of_nat_add)
    then show "ve_seq e \<le> vp_event_seq p" using k(2) state(2) by simp
  qed
  have new: "\<forall>e\<in>set ?new. ve_seq e > of_nat (length es) \<and> vehicle_event_ok e"
  proof
    fix e assume "e \<in> set ?new"
    then obtain k d where k: "k < length ?ds" "e = d\<lparr>ve_seq := of_nat (length es + k + 1)\<rparr>" "d \<in> set ?ds"
      by (auto simp: in_set_enumerate_eq)
    have "(of_nat (length es + k + 1) :: u32) > of_nat (length es)"
      using k(1) lds batch(2) by (simp add: word_less_nat_alt unat_of_nat_u32 del: of_nat_Suc of_nat_add)
    then show "ve_seq e > of_nat (length es) \<and> vehicle_event_ok e" using k(2) accepted_ok[OF k(3)] by simp
  qed
  let ?r = "apply_vehicle_events E (vp_event_seq p) (vehicle_snapshot w) (vp_event_seq p) p"
  have r: "?r = apply_vehicle_events E (vp_event_seq p) ?new (vp_event_seq p) p" unfolding cut by (rule apply_vehicle_events_old[OF old])
  have ra: "pool_inv (fst (snd ?r))" "view (fst (snd ?r)) = fold server_step ?new (view p)"
    "fst ?r = (if ?new = [] then vp_event_seq p else ve_seq (last ?new))"
    using apply_vehicle_events_new[OF assms(1-3) new[folded state(2)], of "vp_event_seq p"] unfolding r by simp_all
  have seq: "fst ?r = of_nat (length (es @ ?ds))"
  proof (cases "?ds = []")
    case False
    have le: "length (enumerate 0 ?ds) = length ?ds" by simp
    then have ne: "?new \<noteq> []" using False by (metis length_0_conv length_map)
    have "length ?new = length ?ds" by simp
    then have "last ?new = ?new ! (length ?ds - 1)" using last_conv_nth[OF ne] by (simp only:)
    moreover have "?new ! (length ?ds - 1) = (?ds ! (length ?ds - 1))\<lparr>ve_seq := of_nat (length es + (length ?ds - 1) + 1)\<rparr>"
      using False by (simp add: nth_enumerate_eq)
    ultimately have "ve_seq (last ?new) = of_nat (length es + (length ?ds - 1) + 1)" by simp
    also have "length es + (length ?ds - 1) + 1 = length (es @ ?ds)" using False by (cases ?ds) simp_all
    finally show ?thesis using ne ra(3) by metis
  qed (use ra(3) state(2) in simp)
  let ?p1 = "if saw_vehicle_event w then (fst (snd ?r))\<lparr>vp_event_seq := fst ?r\<rparr> else p"
  have p1: "pool_inv ?p1" "view ?p1 = server_vehicles (number_vehicle_events (es @ ?ds))" "vp_event_seq ?p1 = of_nat (length (es @ ?ds))"
  proof -
    show "pool_inv ?p1" using event_seq_inv[OF ra(1)] assms(1) by simp
    have "view (q\<lparr>vp_event_seq := n\<rparr>) = view q" for q n by (simp add: view_def slot_of_def fun_eq_iff)
    then show "view ?p1 = server_vehicles (number_vehicle_events (es @ ?ds))"
      using ra(2) state(3) saw all by (auto simp: server_vehicles_append)
    show "vp_event_seq ?p1 = of_nat (length (es @ ?ds))" using seq saw state(2) by auto
  qed
  have p2: "fst (vehicle_compat_update_from_snapshot E (saw_vehicle_event w) (vehicle_snapshot w) p) =
      fst (vehicle_compat_flush_pending E SAMP_VEHICLE_COMPAT_CREATE_BUDGET ?p1)"
    by (simp add: vehicle_compat_update_from_snapshot_def tk split_def Let_def)
  have q: "quiet_step E ?p1 (fst (vehicle_compat_flush_pending E SAMP_VEHICLE_COMPAT_CREATE_BUDGET ?p1))"
    by (rule flush_pending_ok[OF p1(1) assms(2)])
  have f: "pool_inv (fst (vehicle_compat_flush_pending E SAMP_VEHICLE_COMPAT_CREATE_BUDGET ?p1))"
    "view (fst (vehicle_compat_flush_pending E SAMP_VEHICLE_COMPAT_CREATE_BUDGET ?p1)) = server_vehicles (number_vehicle_events (es @ ?ds))"
    "vp_event_seq (fst (vehicle_compat_flush_pending E SAMP_VEHICLE_COMPAT_CREATE_BUDGET ?p1)) = of_nat (length (es @ ?ds))"
    using q assms(3) p1 unfolding quiet_step_def pool_step_def by metis+
  show ?thesis unfolding Let_def by (rule exI[of _ w]) (use w saw f[folded p2] in blast)
qed

text \<open>Frames of the client: the RPCs that arrived, then the update.\<close>

fun follow :: "(car_env \<times> (nat \<times> u8 list) list) list \<Rightarrow> vehicle_net \<times> vehicle_pool \<Rightarrow> (vehicle_net \<times> vehicle_pool) mem" where
  "follow [] x = Some x"
| "follow ((E, rs) # fs) (v, p) = do {
     w \<leftarrow> observe_vehicle_rpcs rs v;
     follow fs (w, fst (vehicle_compat_update_from_snapshot E (saw_vehicle_event w) (vehicle_snapshot w) p)) }"

lemma accepted_append: "accepted (rs @ qs) = accepted rs @ accepted qs"
  by (simp add: accepted_def List.map_filter_def)

lemma follow_inv:
  assumes "\<forall>(E, rs)\<in>set fs. fresh_handles E \<and> willing E \<and> length (accepted rs) \<le> 128"
    "pool_inv p" "vehicle_history es v" "vp_event_seq p = of_nat (length es)" "view p = server_vehicles (number_vehicle_events es)"
    "es \<noteq> [] \<longrightarrow> saw_vehicle_event v" "\<forall>e\<in>set es. vehicle_event_ok e"
    "length es + length (concat (map snd fs)) < 4294967296"
  shows "\<exists>w q. follow fs (v, p) = Some (w, q) \<and> pool_inv q \<and>
    view q = server_vehicles (number_vehicle_events (es @ accepted (concat (map snd fs))))"
  using assms
proof (induction fs arbitrary: v p es)
  case Nil
  then show ?case by (simp add: accepted_def List.map_filter_simps)
next
  case (Cons f fs)
  obtain E rs where f: "f = (E, rs)" by (cases f)
  have E: "fresh_handles E" "willing E" "length (accepted rs) \<le> 128" using Cons.prems(1) f by auto
  have len: "length es + length rs < 4294967296" using Cons.prems(8) f by simp
  let ?p2 = "\<lambda>w. fst (vehicle_compat_update_from_snapshot E (saw_vehicle_event w) (vehicle_snapshot w) p)"
  obtain w where w: "observe_vehicle_rpcs rs v = Some w" "pool_inv (?p2 w)" "vehicle_history (es @ accepted rs) w"
    "vp_event_seq (?p2 w) = of_nat (length (es @ accepted rs))" "view (?p2 w) = server_vehicles (number_vehicle_events (es @ accepted rs))"
    "es @ accepted rs \<noteq> [] \<longrightarrow> saw_vehicle_event w"
    using frame_follows[OF Cons.prems(2) E(1,2) Cons.prems(3-7) E(3) len] unfolding Let_def by blast
  have lds: "length (accepted rs) \<le> length rs" by (simp add: accepted_def List.map_filter_def)
  have fs: "\<forall>(E, rs)\<in>set fs. fresh_handles E \<and> willing E \<and> length (accepted rs) \<le> 128" using Cons.prems(1) by simp
  have ok: "\<forall>e\<in>set (es @ accepted rs). vehicle_event_ok e" using Cons.prems(7) accepted_ok by auto
  have "length (es @ accepted rs) + length (concat (map snd fs)) < 4294967296" using Cons.prems(8) lds f by simp
  from Cons.IH[OF fs w(2-6) ok this] show ?case using w(1) f by (simp add: accepted_append)
qed

text \<open>C15: the pool holds the vehicles of the server. Whatever RPCs arrive, fewer than \<open>2 ^ 32\<close> in all and with at most 128 accepted ones in a frame, after every
  frame the slots in use are exactly the vehicles the server streamed in and did not remove since, each with the model and
  the number of the event that streamed it in last, trains apart; this holds for games that know the models and refuse
  no car.
\<close>

theorem vehicle_pool_mirrors_server:
  assumes "\<forall>(E, rs)\<in>set fs. fresh_handles E \<and> willing E \<and> length (accepted rs) \<le> 128"
    "length (concat (map snd fs)) < 2 ^ 32"
  shows "\<exists>w q. follow fs (reset_vehicle_net, pool_start) = Some (w, q) \<and>
    view q = server_vehicles (number_vehicle_events (accepted (concat (map snd fs))))"
proof -
  have start: "view pool_start = server_vehicles (number_vehicle_events [])" "vp_event_seq pool_start = of_nat (length [])"
    by (auto simp: view_def pool_start_def slot_of_def server_vehicles_def number_vehicle_events_def)
  have len: "length [] + length (concat (map snd fs)) < 4294967296" using assms(2) by simp
  show ?thesis
    using follow_inv[OF assms(1) pool_start_inv vehicle_history_reset start(2,1) _ _ len] by fastforce
qed

section \<open>Queued vehicles are created\<close>

definition can_create :: "u32 \<Rightarrow> u32 \<Rightarrow> car_env \<Rightarrow> bool" where
  "can_create hold tick E \<longleftrightarrow> vehicle_compat_can_flush_pending E \<and> (hold = 0 \<or> sint (car_clock E - hold) \<ge> 0) \<and>
     (tick = 0 \<or> 100 \<le> car_clock E - tick)"

text \<open>Frames at least a tenth of a second apart, in which the game may create.\<close>

fun paced :: "u32 \<Rightarrow> u32 \<Rightarrow> car_env list \<Rightarrow> bool" where
  "paced hold tick [] = True"
| "paced hold tick (E # Es) = (can_create hold tick E \<and> paced hold (car_clock E) Es)"

lemma apply_pending_hold: "vp_hold_until (applied_of (vehicle_compat_apply_pending_slot E i p)) = vp_hold_until p"
  by (simp add: applied_of_def vehicle_compat_apply_pending_slot_def vehicle_compat_skip_pending_slot_def
    vehicle_compat_clear_pending_slot_def set_slot_def Let_def split: option.split)

lemma flush_creates_one:
  assumes "pool_inv p" "fresh_handles E" "willing E" "\<forall>i\<in>set is. i < SAMP_RAKNET_MAX_VEHICLES" "\<exists>i\<in>set is. vs_pending (slot_of i p)"
  shows "vp_pending_count (fst (flush_loop E is 1 p)) = vp_pending_count p - 1 \<and>
    vp_last_tick (fst (flush_loop E is 1 p)) = car_clock E \<and> vp_hold_until (fst (flush_loop E is 1 p)) = vp_hold_until p"
  using assms(4,5)
proof (induction "is")
  case (Cons i "is")
  have i: "i < SAMP_RAKNET_MAX_VEHICLES" using Cons.prems(1) by simp
  have ok: "slot_ok (slot_of i p)" using slots_split[OF assms(1) i] by blast
  show ?case
  proof (cases "vs_pending (slot_of i p)")
    case False
    then have "flush_loop E (i # is) 1 p = flush_loop E is 1 p" by simp
    moreover have "\<exists>i\<in>set is. vs_pending (slot_of i p)" using Cons.prems(2) False by auto
    ultimately show ?thesis using Cons by simp
  next
    case True
    obtain applied p1 out where r: "vehicle_compat_apply_pending_slot E i p = (applied, p1, out)" using prod_cases3 by blast
    have "applied" "vp_pending_count p1 = vp_pending_count p - 1"
      using apply_pending_ok(3)[OF assms(1) i assms(2,3) True] r by (auto simp: applied_of_def)
    moreover have "vp_hold_until p1 = vp_hold_until p" using apply_pending_hold[of E i p] r by (simp add: applied_of_def)
    moreover have "\<not> vs_active (slot_of i p)" using ok True by (simp add: slot_ok_def)
    ultimately show ?thesis using True r by simp
  qed
qed simp

lemma some_pending:
  assumes "pool_inv p" "vp_pending_count p > 0"
  shows "\<exists>i\<in>set [0..<SAMP_RAKNET_MAX_VEHICLES]. vs_pending (slot_of i p)"
proof -
  have "size (filter_mset vs_pending (mset (vp_slots p))) \<noteq> 0" using assms unfolding pool_inv_def pending_of_def by linarith
  then obtain s where "s \<in># filter_mset vs_pending (mset (vp_slots p))" by (metis multiset_nonemptyE size_empty)
  then have "s \<in> set (vp_slots p)" "vs_pending s" by simp_all
  then obtain i where "i < length (vp_slots p)" "vs_pending (vp_slots p ! i)" by (auto simp: in_set_conv_nth)
  then show ?thesis using assms(1) by (auto simp: pool_inv_def slot_of_def)
qed

text \<open>A frame without news.\<close>

definition idle_frame :: "bool \<Rightarrow> samp_raknet_vehicle_event list \<Rightarrow> car_env \<Rightarrow> vehicle_pool \<Rightarrow> vehicle_pool" where
  "idle_frame saw es E p = fst (vehicle_compat_update_from_snapshot E saw es p)"

lemma idle_frame_eq:
  assumes "\<forall>e\<in>set es. ve_seq e \<le> vp_event_seq p"
  shows "idle_frame saw es E p = fst (vehicle_compat_flush_pending E SAMP_VEHICLE_COMPAT_CREATE_BUDGET p)"
proof -
  have "\<forall>e\<in>set (take SAMP_RAKNET_VEHICLE_EVENT_RING es). ve_seq e \<le> vp_event_seq p" using assms by (meson in_set_takeD)
  from apply_vehicle_events_old[OF this, of E "[]" "vp_event_seq p" p] have
    "apply_vehicle_events E (vp_event_seq p) (take SAMP_RAKNET_VEHICLE_EVENT_RING es) (vp_event_seq p) p = (vp_event_seq p, p, [])" by simp
  then show ?thesis by (simp add: idle_frame_def vehicle_compat_update_from_snapshot_def split_def Let_def)
qed

lemma idle_frames_create:
  assumes "pool_inv p" "\<forall>E\<in>set Es. fresh_handles E \<and> willing E" "paced (vp_hold_until p) (vp_last_tick p) Es"
    "length Es = nat (vp_pending_count p)" "\<forall>e\<in>set es. ve_seq e \<le> vp_event_seq p"
  shows "pool_inv (fold (idle_frame saw es) Es p) \<and> view (fold (idle_frame saw es) Es p) = view p \<and>
    vp_pending_count (fold (idle_frame saw es) Es p) = 0"
  using assms
proof (induction Es arbitrary: p)
  case Nil
  then show ?case by (simp add: pool_inv_def)
next
  case (Cons E Es)
  have E: "fresh_handles E" "willing E" "can_create (vp_hold_until p) (vp_last_tick p) E" using Cons.prems(2,3) by auto
  have pos: "vp_pending_count p > 0" using Cons.prems(4) by simp
  let ?p1 = "fst (flush_loop E [0..<SAMP_RAKNET_MAX_VEHICLES] 1 p)"
  have fl: "idle_frame saw es E p = ?p1" unfolding idle_frame_eq[OF Cons.prems(5)]
    using E(3) pos by (auto simp: vehicle_compat_flush_pending_def can_create_def vehicle_pool_consts)
  have q: "quiet_step E p ?p1" by (rule flush_loop_ok[OF Cons.prems(1) E(1)]) simp
  have one: "vp_pending_count ?p1 = vp_pending_count p - 1" "vp_last_tick ?p1 = car_clock E" "vp_hold_until ?p1 = vp_hold_until p"
    using flush_creates_one[OF Cons.prems(1) E(1,2) _ some_pending[OF Cons.prems(1) pos]] by auto
  have p1: "pool_inv ?p1" "view ?p1 = view p" "vp_event_seq ?p1 = vp_event_seq p"
    using q E(2) by (simp_all add: quiet_step_def pool_step_def)
  have "length Es = nat (vp_pending_count ?p1)" using Cons.prems(4) one(1) by simp
  then show ?case using Cons.IH[OF p1(1)] Cons.prems one p1 fl by simp
qed

text \<open>C16: every queued vehicle is created in a game that accepts it. If the game has every model, refuses no car while it has
  fewer than 2000 and gives each car a handle of its own (a vehicle it refuses, or whose model it has not, is dropped
  from the pool), then, once the scene is ready and no hold is on, as many frames a tenth of a second apart as vehicles are
  queued, which bring no new event of the server, leave none queued: each vehicle the pool knows is a car of the game then, and the pool knows the same vehicles as
  before.
\<close>

theorem vehicles_all_created:
  fixes saw :: bool
  assumes "pool_inv p" "\<forall>E\<in>set Es. fresh_handles E \<and> willing E" "paced (vp_hold_until p) (vp_last_tick p) Es"
    "length Es = nat (vp_pending_count p)" "\<forall>e\<in>set es. ve_seq e \<le> vp_event_seq p"
  defines "q \<equiv> fold (idle_frame saw es) Es p"
  shows "view q = view p \<and> (\<forall>i. view p i \<noteq> None \<longrightarrow> vs_active (slot_of i q) \<and> vs_gta_id (slot_of i q) \<in> set (vp_cars q))"
proof -
  have q: "pool_inv q" "view q = view p" "vp_pending_count q = 0" using idle_frames_create[OF assms(1-5)] by (simp_all add: q_def)
  have none: "\<not> vs_pending s" if "s \<in> set (vp_slots q)" for s
  proof
    assume "vs_pending s"
    then have "s \<in># filter_mset vs_pending (mset (vp_slots q))" using that by simp
    moreover have "pending_of (mset (vp_slots q)) = 0" using q(1,3) by (simp add: pool_inv_def)
    ultimately show False by (auto simp: pending_of_def)
  qed
  have "vs_active (slot_of i q) \<and> vs_gta_id (slot_of i q) \<in> set (vp_cars q)" if "view p i \<noteq> None" for i
  proof -
    have i: "i < SAMP_RAKNET_MAX_VEHICLES" "vs_active (slot_of i q) \<or> vs_pending (slot_of i q)"
      using that q(2) by (auto simp: view_def split: if_splits dest: fun_cong[of _ _ i])
    then have m: "slot_of i q \<in> set (vp_slots q)" using q(1) by (simp add: slot_of_def pool_inv_def)
    then have act: "vs_active (slot_of i q)" using i(2) none by blast
    then have "vs_gta_id (slot_of i q) \<in># handles_of (mset (vp_slots q))" using m by (auto simp: handles_of_def)
    then have "vs_gta_id (slot_of i q) \<in># mset (vp_cars q)" using q(1) by (simp add: pool_inv_def)
    then show ?thesis using act by simp
  qed
  then show ?thesis using q(2) by blast
qed

lemma first_found:
  "(case filter P xs of [] \<Rightarrow> None | h # _ \<Rightarrow> Some h) = Some h \<Longrightarrow> P h"
  "(case filter P xs of [] \<Rightarrow> None | h # _ \<Rightarrow> Some h) = None \<Longrightarrow> \<forall>h\<in>set xs. \<not> P h"
proof -
  show "P h" if eq: "(case filter P xs of [] \<Rightarrow> None | h # _ \<Rightarrow> Some h) = Some h"
  proof -
    obtain t where "filter P xs = h # t" using eq by (cases "filter P xs") simp_all
    then have "h \<in> set (filter P xs)" by (metis list.set_intros(1))
    then show ?thesis by simp
  qed
  show "\<forall>h\<in>set xs. \<not> P h" if eq: "(case filter P xs of [] \<Rightarrow> None | h # _ \<Rightarrow> Some h) = None"
  proof -
    have "filter P xs = []" using eq by (cases "filter P xs") simp_all
    then show ?thesis by (metis filter_empty_conv)
  qed
qed

lemma accepted_length: "length (accepted rs) \<le> length rs"
  by (simp add: accepted_def List.map_filter_def)

definition generous_game :: "u32 \<Rightarrow> car_env" where
  "generous_game t = quiet_game\<lparr>new_car := first_free, car_clock := t\<rparr>"

lemma generous_game_ok: "fresh_handles (generous_game t)" "willing (generous_game t)"
proof -
  have "h \<noteq> 0 \<and> h \<notin> set cars" if "first_free n cars = Some h" for n cars h
    using first_found(1)[of "\<lambda>h. h \<noteq> 0 \<and> h \<notin> set cars" "map of_nat [1..<length cars + 2]" h] that unfolding first_free_def by blast
  then show "fresh_handles (generous_game t)" by (simp add: fresh_handles_def generous_game_def)
  have "first_free n cars \<noteq> None" if len: "length cars < SAMP_RAKNET_MAX_VEHICLES" for n cars
  proof
    assume "first_free n cars = None"
    then have e: "\<forall>h\<in>set (map of_nat [1..<length cars + 2]). \<not> (h \<noteq> 0 \<and> h \<notin> set cars)"
      using first_found(2)[of "\<lambda>h. h \<noteq> 0 \<and> h \<notin> set cars" "map of_nat [1..<length cars + 2]"] unfolding first_free_def by blast
    let ?A = "{1..<length cars + 2}"
    have small: "unat (of_nat k :: u32) = k" if "k \<in> ?A" for k
      by (rule unat_of_nat_u32) (use that len in \<open>simp add: SAMP_RAKNET_MAX_VEHICLES_def\<close>)
    have sub: "of_nat ` ?A \<subseteq> set cars"
    proof
      fix h :: u32 assume "h \<in> of_nat ` ?A"
      then obtain k where k: "k \<in> ?A" "h = of_nat k" by blast
      have "h \<noteq> 0" using small[OF k(1)] k by (cases "h = 0") auto
      moreover have "h \<in> set (map of_nat [1..<length cars + 2])" unfolding set_map set_upt using k by (metis imageI)
      ultimately show "h \<in> set cars" using e by blast
    qed
    have "inj_on (of_nat :: nat \<Rightarrow> u32) ?A" by (rule inj_onI) (metis small)
    then have "card ((of_nat :: nat \<Rightarrow> u32) ` ?A) = length cars + 1" by (simp add: card_image)
    moreover have "card ((of_nat :: nat \<Rightarrow> u32) ` ?A) \<le> length cars"
      using card_mono[OF _ sub] card_length[of cars] by (meson List.finite_set le_trans)
    ultimately show False by simp
  qed
  then show "willing (generous_game t)" by (simp add: willing_def generous_game_def quiet_game_def)
qed

lemma vehicle_pool_mirrors_server_witness:
  "\<exists>w q. follow [(generous_game 5000, [(164, vehicle_payload sample_vehicle), (165, [9, 0])])] (reset_vehicle_net, pool_start) = Some (w, q) \<and>
     view q (unat (ve_vehicle_id sample_vehicle)) = Some (1, ve_model sample_vehicle)"
proof -
  let ?rs = "[(164, vehicle_payload sample_vehicle), (165, [9, 0])]"
  have len: "length (accepted ?rs) \<le> 128"
    by (rule le_trans[OF accepted_length]) simp
  have s: "server_vehicles (number_vehicle_events (accepted ?rs)) (unat (ve_vehicle_id sample_vehicle)) = Some (1, ve_model sample_vehicle)"
    by code_simp
  have 1: "\<forall>(E, rs)\<in>set [(generous_game 5000, ?rs)]. fresh_handles E \<and> willing E \<and> length (accepted rs) \<le> 128"
    using generous_game_ok[of 5000] len by simp
  from vehicle_pool_mirrors_server[OF 1] s show ?thesis by auto
qed

definition one_queued :: vehicle_pool where
  "one_queued = fst (vehicle_compat_create_slot (generous_game 5000) sample_event pool_start)"

lemma vehicles_all_created_witness:
  "let q = fold (idle_frame True []) [generous_game 5000] one_queued
   in view one_queued 7 = Some (1, 411) \<and> vs_active (slot_of 7 q) \<and> vs_gta_id (slot_of 7 q) \<in> set (vp_cars q)"
proof -
  let ?G = "generous_game 5000"
  have st: "streamable ?G sample_event" by code_simp
  have inv: "pool_inv one_queued" "view one_queued 7 = Some (1, 411)"
    using create_ok(1)[OF pool_start_inv, of ?G sample_event] st generous_game_ok(2)[of 5000]
    by (simp_all add: pool_step_def one_queued_def sample_event_def)
  have z: "slot_of 7 pool_start = zero_vehicle_slot" by (simp add: slot_of_def pool_start_def SAMP_RAKNET_MAX_VEHICLES_def)
  then have d: "vehicle_compat_destroy_slot 7 pool_start = (pool_start, [])"
    by (simp add: vehicle_compat_destroy_slot_def vehicle_compat_clear_pending_slot_def)
  have f: "vp_pending_count one_queued = 1" "vp_hold_until one_queued = 0" "vp_last_tick one_queued = 0"
    using st d by (simp_all add: one_queued_def vehicle_compat_create_slot_def streamable_def sample_event_def pool_start_def Let_def set_slot_def)
  have "paced 0 0 [?G]" by code_simp
  then show ?thesis
    using vehicles_all_created[OF inv(1), of "[?G]" "[]" True] generous_game_ok[of 5000] f inv(2) unfolding Let_def by auto
qed

section \<open>Events that get lost\<close>

text \<open>A plate for a vehicle that is not streamed in yet is dropped, although the pool has an array to keep it in.\<close>

lemma plate_before_vehicle_lost:
  assumes "ve_action e = SetNumberPlate" "\<not> vs_active (slot_of (unat (ve_vehicle_id e)) p)" "\<not> vs_pending (slot_of (unat (ve_vehicle_id e)) p)"
  shows "vehicle_compat_apply_event E e p = (p, [])"
  using assms by (auto simp: vehicle_compat_apply_event_def vehicle_compat_apply_script_event_def vehicle_compat_ensure_active_def
    vehicle_live_def Let_def)

text \<open>The player is not put on a seat of a vehicle that is still queued; the other events create it first.\<close>

lemma put_player_in_queued_vehicle_lost:
  assumes "ve_action e = PutLocalPlayer" "vs_pending (slot_of (unat (ve_vehicle_id e)) p)" "\<not> vs_active (slot_of (unat (ve_vehicle_id e)) p)"
  shows "vehicle_compat_apply_event E e p = (p, [])"
  using assms by (auto simp: vehicle_compat_apply_event_def vehicle_compat_put_local_player_def vehicle_live_def Let_def)

text \<open>An event for a queued vehicle creates it at once, before the scene is ready and within a hold.\<close>

lemma event_creates_before_scene:
  assumes "pool_inv p" "fresh_handles E" "willing E" "ve_action e = SetZAngle" "ve_seq e \<noteq> 0" "vehicle_compat_id_valid (ve_vehicle_id e)"
    "vs_pending (slot_of (unat (ve_vehicle_id e)) p)"
  shows "vp_pending_count (fst (vehicle_compat_apply_event (E\<lparr>scene_ready := False\<rparr>) e p)) = vp_pending_count p - 1"
proof -
  let ?E = "E\<lparr>scene_ready := False\<rparr>" let ?i = "unat (ve_vehicle_id e)"
  have i: "?i < SAMP_RAKNET_MAX_VEHICLES" using assms(6) by (simp add: vehicle_compat_id_valid_def)
  have E: "fresh_handles ?E" "willing ?E" using assms(2,3) by (simp_all add: fresh_handles_def willing_def)
  obtain applied p1 out where r: "vehicle_compat_apply_pending_slot ?E ?i p = (applied, p1, out)" using prod_cases3 by blast
  have ok: "slot_ok (slot_of ?i p)" using slots_split[OF assms(1) i] by blast
  have nl: "\<not> vehicle_live ?i p" using ok assms(7) by (simp add: slot_ok_def vehicle_live_def)
  have a: "vs_active (slot_of ?i p1)" "vp_pending_count p1 = vp_pending_count p - 1" "pool_inv p1"
    using apply_pending_ok(1,3)[OF assms(1) i E(1)] E(2) assms(7) r by (auto simp: applied_of_def pool_step_def)
  have "slot_ok (slot_of ?i p1)" using slots_split[OF a(3) i] by blast
  then have "vehicle_live ?i p1" using a(1) by (simp add: vehicle_live_def slot_ok_def)
  then show ?thesis using assms(4-7) i nl r a(2)
    by (simp add: vehicle_compat_apply_event_def vehicle_compat_apply_script_event_def vehicle_compat_ensure_active_def commanded_def Let_def)
qed

end
