(* ===== verification/Spec2Isabelle.thy ===== *)
theory Spec2Isabelle
  imports ArchiveFs TcpBootstrap HookBridge RpcActors GangZones LocalEffects DialogBox VehiclePool
begin

text \<open>
  \<^bold>\<open>libsamp\<close> is a reimplementation of the San Andreas Multiplayer client library: a DLL that is loaded into
  the game, hides the files of an encrypted archive behind the Windows file functions, hooks the game's
  draw calls, talks to a server over RakNet, and mirrors what the server says in the game world. All files
  named below are under \<^verbatim>\<open>src/reimpl/src\<close> and \<^verbatim>\<open>src/reimpl/include\<close> of the repository.

  \<^bold>\<open>Theories.\<close>
  \<^item> \<open>Prelude\<close>: machine words, the option monad of memory reads, C strings and little-endian codecs;
    \<open>Float32\<close>: single-precision floats as bit patterns with their exact value; \<open>RakPayload\<close>: payload
    readers, the RakNet bit stream as a parameter, event rings and the locale \<open>event_ring\<close>.
  \<^item> \<open>Saa\<close> (\<^verbatim>\<open>archive/saa.c\<close>): layout, cipher, hash, hash-chain lookup, extraction. The archive is its bytes;
    every read is checked against their length.
  \<^item> \<open>ArchiveFs\<close> (\<^verbatim>\<open>archive/win32_archive_fs.c\<close>): start and stop, the import-table hooks, the table of open
    handles and the six hooked file functions, over an oracle for Windows. Uses \<open>Saa\<close>.
  \<^item> \<open>DualStack\<close> (\<^verbatim>\<open>net/dual_stack.c\<close>), \<open>Ipv4Sockets\<close> (\<^verbatim>\<open>net/ipv4_socket_compat.c\<close>): sockets over an oracle for
    the operating system that answers the n-th call; the state counts the calls and the open sockets.
  \<^item> \<open>TcpBootstrap\<close> (\<^verbatim>\<open>net/tcp_bootstrap_manager.c\<close>, \<^verbatim>\<open>net/raknet_client_adapter_stub.c\<close>): the manager that owns the
    listener and the RakNet client. What it needs of an adapter is the locale \<open>raknet_adapter\<close>,
    interpreted on the stub.
  \<^item> \<open>HookBridge\<close> (\<^verbatim>\<open>runtime_hook_bridge.c\<close>): settings, the machine code of the thunks, patching and
    restoring of call instructions. Memory is a function from addresses to bytes.
  \<^item> \<open>RpcActors\<close> and \<open>RpcObjects\<close> (\<^verbatim>\<open>net/raknet_client_adapter.cpp\<close>): the decoders of the actor and the object
    RPCs, the authoritative states, the event rings and what the graphics thread reads of them.
  \<^item> \<open>GangZones\<close>, \<open>RpcWorld\<close>, \<open>RpcVehicles\<close>, \<open>RpcPlayers\<close>, \<open>RpcLocal\<close> (same file, and the zone pool of
    \<^verbatim>\<open>runtime_bridge.c\<close>): gang zones; text labels, map icons, attached objects, removed buildings, edit modes and
    the kill list; vehicles; other players, their positions, scores and chat; the local player.
  \<^item> \<open>RpcDialog\<close>, \<open>RpcSession\<close>, \<open>RpcConnect\<close> (same file): dialogs; the session, with its flags in one record and
    one function per RPC, per request of the user interface and per part of \<^verbatim>\<open>service_rpc_probe_actions\<close>; the
    serial number, the join, and \<^verbatim>\<open>drain_packets_internal\<close>, which calls all of them.
  \<^item> \<open>LocalEffects\<close> (\<^verbatim>\<open>runtime_bridge.c\<close>): the network step and the session bridge for weapons and money, over a
    game that is a parameter and whose script commands may fail; the host keeps the money commands sent to it.
  \<^item> \<open>ActorPool\<close> and \<open>ChatText\<close> (\<^verbatim>\<open>runtime_bridge.c\<close>): the pool that consumes actor events and states, with
    its sequence lock; chat lines, colour tags and textdraw texts.
  \<^item> \<open>RpcMenus\<close> (both files): the menus of the server, from the decoders through the overlay and its keys to the
    answer that is sent.
  \<^item> \<open>ChatInput\<close> (\<^verbatim>\<open>runtime_bridge.c\<close>): the line the player types in, with its array, history, local commands and
    the remote console, as the part of the window procedure that handles it.
  \<^item> \<open>DialogBox\<close> (\<^verbatim>\<open>runtime_bridge.c\<close>): the box that shows a dialog: items, selection, text field, layout, mouse and
    keys. It runs beside the session of \<open>RpcSession\<close>, which takes its answers.
  \<^item> \<open>VehiclePool\<close> (\<^verbatim>\<open>runtime_bridge.c\<close>): the 2000 vehicle slots that take the events of \<open>RpcVehicles\<close>, queue cars
    and create them in the game, one in a tenth of a second. The game is a parameter that hands out handles and may
    refuse a car; the pool keeps the list of the cars the game holds. Before the local player is put on a seat
    the pool makes the tests of the code on the player, the car and its seats.

  \<^bold>\<open>How the parts meet.\<close> A server message reaches a decoder on the network thread. The decoder checks it,
  changes the authoritative state and queues an event in a ring. The graphics thread copies the ring
  (\<open>ring_snapshot\<close>) and applies the events to its pools; if it fell so far behind that events were
  overwritten, it copies the authoritative states instead. The locale \<open>event_ring\<close> states what every queue
  promises, and is interpreted on every queue of the adapter; \<open>actors_converge\<close>, \<open>gang_zones_drawn\<close>, \<open>money_granted_once\<close> and
  \<open>vehicle_pool_mirrors_server\<close> compose the decoder, the ring and the side that applies the events. The window procedure
  runs beside the network: \<open>dialog_answers_fit\<close> and \<open>menu_choice_accepted\<close> hold for every interleaving of its messages with
  network steps. The pump of \<open>RpcConnect\<close> drives
  the session of \<open>RpcSession\<close> and the players of \<open>RpcPlayers\<close>: \<open>pump_spawn_after_class\<close> carries a property of the session
  over to whole drains.

  \<^bold>\<open>What the lemmas show.\<close>
  \<^item> Memory safety: a read outside a buffer is \<open>None\<close> in the model, and the decoders and parsers are shown
    never to yield it (\<open>saa_parse_layout_sound\<close>, \<open>saa_find_sound\<close>, \<open>actor_decoder_safe\<close>, \<open>object_rpc_safe\<close>). The arrays of the chat
    history and of the chat line are read and written with \<open>array_get\<close> and \<open>array_put\<close>, which yield \<open>None\<close> outside, so
    that \<open>chat_history_refines_list\<close> and \<open>chat_line_refines_editor\<close> include their bounds.
  \<^item> Resources: every socket, block, hook and handle that an operation acquires is released on its error paths
    and by the closing operation (\<open>connect_dual_stack_no_leak\<close>, \<open>ipv4_sockets_no_leak\<close>, \<open>archive_fs_start_safe\<close>,
    \<open>hook_install_uninstall_restores\<close>, \<open>vehicle_pool_no_leak\<close>).
  \<^item> Refinement: the chat history is a bounded list, the chat line a line editor on lists, the actor and the vehicle
    pool follow the world the server describes, the in-place colour stripping is the list function.
  \<^item> Round trips: cipher, host and port syntax, object materials, menus, typed lines, install and uninstall.
  \<^item> Privacy: a line of the remote console, which carries the password, leaves only as a console packet
    (\<open>rcon_line_private\<close>).
  \<^item> Concurrency: the lazily resolved import table is published once under every interleaving, and a reader of a
    desired actor state never sees half a write.

  \<^bold>\<open>Bounds and fuel.\<close> Loops over a buffer recurse on its bytes. \<open>samp_saa_find\<close> and \<open>allocate_record\<close> run on
  the code's own bounds (256 probes, the table size). The sequence-lock reader is a step relation, because
  the code retries without a bound. \<open>dialog_lines\<close> and \<open>find_line\<close> recurse on a text that gets shorter; the loops over menu
  rows and vehicle slots run on their number. The ring lemmas hold for histories shorter than \<open>2 ^ 32\<close> events, after
  which the 32-bit number wraps.

  \<^bold>\<open>Not modelled.\<close>
  \<^item> RakNet, Windows, the C library and the game: parameters, with the documented behaviour the code relies on
    as named hypotheses (\<open>bitstream_ok\<close>) or locales.
  \<^item> Drawing, Direct3D, audio and the calls into the game in \<^verbatim>\<open>runtime_bridge.c\<close> and \<^verbatim>\<open>dllmain.c\<close>: effects on
    code that is not in the repository.
  \<^item> Trace and log output.
  \<^item> Of \<^verbatim>\<open>raknet_client_adapter.cpp\<close>: the senders, and the decoders of textdraws, game texts, checkpoints, pickups,
    sounds, camera and client control. Of \<^verbatim>\<open>runtime_bridge.c\<close>: the pools of objects, text labels, pickups, textdraws
    and remote players, the score board, the death window; of the vehicles their radar markers, and the colours
    and damage written into the memory of the game. The probe tool \<^verbatim>\<open>tools/asi_probe\<close>.
\<close>

end
